(* ===== verification/UI_Prelude.thy ===== *)
theory UI_Prelude
  imports Main "HOL-Library.Signed_Division" "HOL-Library.Monad_Syntax" "HOL-Library.Word"
    "HOL-Library.Multiset"
begin

text \<open>
  Shared ground of the development: the collections of simplification facts the component
  theories add to, C++ integer arithmetic (truncating division, two's complement wrap-around
  of a 32-bit \<open>int\<close>, the largest \<open>size_t\<close>), the \<open>std::basic_string\<close> operations the
  text components use, and generic facts on lists.

  A computation that may stop the process (an uncaught \<open>std::out_of_range\<close> thrown by a string
  operation, a failed \<open>CHECK\<close>, the dereference of a null pointer) has a result of type
  \<open>'a option\<close>, with \<open>None\<close> for the process that stopped.
\<close>

section \<open>Collections\<close>

named_theorems geom_defs \<open>unfolding of the gfx value types\<close>
named_theorems range_simps \<open>unfolding of ui::Range\<close>
named_theorems string_simps \<open>unfolding of the string operations\<close>

section \<open>C++ integers\<close>

text \<open>The value a 32-bit two's complement \<open>int\<close> has after an operation whose mathematical
  result is \<open>i\<close>. Signed overflow is undefined in C++; this is what the compiled code computes.\<close>

definition wrap32 :: "int \<Rightarrow> int" where
  "wrap32 i = (i + 2 ^ 31) mod 2 ^ 32 - 2 ^ 31"

definition INT_MAX :: int where
  "INT_MAX = 2147483647"

definition INT_MIN :: int where
  "INT_MIN = - 2147483648"

definition size_t_max :: nat where
  "size_t_max = 18446744073709551615"

definition int_ok :: "int \<Rightarrow> bool" where
  "int_ok i \<longleftrightarrow> INT_MIN \<le> i \<and> i \<le> INT_MAX"

lemma wrap32_id: "int_ok i \<Longrightarrow> wrap32 i = i"
  by (simp add: wrap32_def int_ok_def INT_MIN_def INT_MAX_def)

lemma wrap32_bounds: "int_ok (wrap32 i)"
proof -
  have "0 \<le> (i + 2 ^ 31) mod 2 ^ 32" and "(i + 2 ^ 31) mod 2 ^ 32 < 2 ^ 32"
    by simp_all
  then show ?thesis
    by (simp add: wrap32_def int_ok_def INT_MIN_def INT_MAX_def)
qed

text \<open>Integer division by two truncates towards zero; on non-negative values it is \<open>div\<close>.\<close>

lemma sdiv2_nonneg: "0 \<le> (a::int) \<Longrightarrow> a sdiv 2 = a div 2"
  by (cases "a = 0") (simp_all add: signed_divide_int_def)

lemma sdiv2_bounds: "0 \<le> (a::int) \<Longrightarrow> 0 \<le> a sdiv 2 \<and> a sdiv 2 \<le> a"
  by (simp add: sdiv2_nonneg)

text \<open>The far edge of an interval stored as origin and clamped extent.\<close>

lemma span_edge: "l \<le> r \<Longrightarrow> l + max (r - l) 0 = (r::int)" "\<not> r \<le> l \<Longrightarrow> l + max (r - l) 0 = (r::int)"
  by simp_all

lemma span_less: "l \<le> q \<Longrightarrow> q < l + max (r - l) 0 \<longleftrightarrow> q < (r::int)"
  by auto

section \<open>Computations that may stop\<close>

text \<open>The computation does not stop the process, and its result satisfies \<open>Q\<close>.\<close>

definition ensures :: "'a option \<Rightarrow> ('a \<Rightarrow> bool) \<Rightarrow> bool" where
  "ensures c Q = (case c of None \<Rightarrow> False | Some x \<Rightarrow> Q x)"

lemma ensures_Some [simp]: "ensures (Some x) Q = Q x"
  by (simp add: ensures_def)

lemma ensures_bind: "ensures c P \<Longrightarrow> (\<And>x. P x \<Longrightarrow> ensures (f x) Q) \<Longrightarrow> ensures (Option.bind c f) Q"
  by (cases c) (simp_all add: ensures_def)

lemma ensures_mono: "ensures c P \<Longrightarrow> (\<And>x. P x \<Longrightarrow> Q x) \<Longrightarrow> ensures c Q"
  by (cases c) (simp_all add: ensures_def)

lemma ensures_map [simp]: "ensures (map_option f c) Q = ensures c (\<lambda>x. Q (f x))"
  by (cases c) (simp_all add: ensures_def)

lemma ensuresE: "ensures c Q \<Longrightarrow> (\<And>x. c = Some x \<Longrightarrow> Q x \<Longrightarrow> P) \<Longrightarrow> P"
  by (cases c) (simp_all add: ensures_def)

section \<open>Strings\<close>

text \<open>A UTF-16 code unit and a \<open>string16\<close>.\<close>

type_synonym char16 = "16 word"
type_synonym string16 = "char16 list"

text \<open>\<open>basic_string::substr\<close>, \<open>erase\<close> and \<open>insert\<close>: each throws \<open>std::out_of_range\<close> when the
  position is past the end, and clamps the count.\<close>

definition str_substr :: "'a list \<Rightarrow> nat \<Rightarrow> nat \<Rightarrow> 'a list option" where
  "str_substr s pos n = (if pos > length s then None else Some (take n (drop pos s)))"

definition str_erase :: "'a list \<Rightarrow> nat \<Rightarrow> nat \<Rightarrow> 'a list option" where
  "str_erase s pos n = (if pos > length s then None else Some (take pos s @ drop (pos + n) s))"

definition str_insert :: "'a list \<Rightarrow> nat \<Rightarrow> 'a list \<Rightarrow> 'a list option" where
  "str_insert s pos t = (if pos > length s then None else Some (take pos s @ t @ drop pos s))"

text \<open>The insertion with the range check discharged, used by the specifications.\<close>

definition spliced :: "'a list \<Rightarrow> nat \<Rightarrow> 'a list \<Rightarrow> 'a list" where
  "spliced u p t = take p u @ t @ drop p u"

lemma str_insert_spliced [string_simps]: "p \<le> length u \<Longrightarrow> str_insert u p t = Some (spliced u p t)"
  by (simp add: str_insert_def spliced_def)

lemma length_spliced [simp]: "length (spliced u p t) = length u + length t"
  by (simp add: spliced_def)

lemma spliced_Nil [simp]: "spliced u p [] = u"
  by (simp add: spliced_def)

lemma str_erase_spliced [string_simps]:
  "p \<le> length u \<Longrightarrow> str_erase (spliced u p t) p (length t) = Some u"
  by (simp add: str_erase_def spliced_def)

lemma str_substr_spliced [string_simps]:
  "p \<le> length u \<Longrightarrow> str_substr (spliced u p t) p (length t) = Some t"
  by (simp add: str_substr_def spliced_def)

lemma spliced_parts:
  assumes "p \<le> length u"
  shows "take p (spliced u p t) @ drop (p + length t) (spliced u p t) = u"
    and "take (length t) (drop p (spliced u p t)) = t"
  using assms by (simp_all add: spliced_def)

text \<open>Cutting a piece out of a string and splicing it back gives the string.\<close>

lemma spliced_cut:
  assumes "p + n \<le> length s"
  shows "spliced (take p s @ drop (p + n) s) p (take n (drop p s)) = s"
proof -
  have "drop p s = take n (drop p s) @ drop (p + n) s"
    by (metis add.commute append_take_drop_id drop_drop)
  then have "s = take p s @ take n (drop p s) @ drop (p + n) s"
    by (metis append_take_drop_id)
  with assms show ?thesis
    by (simp add: spliced_def)
qed

section \<open>Lists\<close>

text \<open>\<open>std::list::insert\<close> and \<open>std::vector::insert\<close> before position \<open>i\<close>.\<close>

definition list_insert_at :: "nat \<Rightarrow> 'a \<Rightarrow> 'a list \<Rightarrow> 'a list" where
  "list_insert_at i x xs = take i xs @ x # drop i xs"

lemma set_list_insert_at [simp]: "set (list_insert_at i x xs) = insert x (set xs)"
  by (metis Un_insert_right append_take_drop_id list.simps(15) list_insert_at_def set_append)

lemma length_list_insert_at [simp]: "length (list_insert_at i x xs) = Suc (length xs)"
  by (simp add: list_insert_at_def)

lemma distinct_list_insert_at [simp]:
  "distinct (list_insert_at i x xs) \<longleftrightarrow> x \<notin> set xs \<and> distinct xs"
proof -
  have "mset (list_insert_at i x xs) = mset (x # xs)"
    by (metis append_take_drop_id list_insert_at_def
        mset.simps(2) mset_append union_mset_add_mset_right)
  then have "distinct (list_insert_at i x xs) \<longleftrightarrow> distinct (x # xs)"
    by (rule mset_eq_imp_distinct_iff)
  then show ?thesis by simp
qed

lemma nth_list_insert_at: "i \<le> length xs \<Longrightarrow> list_insert_at i x xs ! i = x"
  by (simp add: list_insert_at_def nth_append)

section \<open>Comparators of ordered containers\<close>

text \<open>
  What \<open>std::set\<close> and \<open>std::map\<close> ask of the comparator of their keys, with the stronger
  connectedness law the key types of the toolkit satisfy. The container treats two keys as the
  same when neither is less than the other.
\<close>

locale key_order =
  fixes key_less :: "'k \<Rightarrow> 'k \<Rightarrow> bool"
  assumes irrefl: "\<not> key_less a a"
    and trans: "key_less a b \<Longrightarrow> key_less b c \<Longrightarrow> key_less a c"
    and connected: "a \<noteq> b \<Longrightarrow> key_less a b \<or> key_less b a"
begin

lemma asym: "key_less a b \<Longrightarrow> \<not> key_less b a"
  using irrefl trans by blast

lemma equivalent_iff: "\<not> key_less a b \<and> \<not> key_less b a \<longleftrightarrow> a = b"
  using connected irrefl by blast

lemma sorted_distinct: "sorted_wrt key_less ks \<Longrightarrow> distinct ks"
  by (induction ks) (auto simp: irrefl)

lemma sorted_unique: "sorted_wrt key_less ks \<Longrightarrow> sorted_wrt key_less ls \<Longrightarrow> set ks = set ls \<Longrightarrow> ks = ls"
proof (induction ks arbitrary: ls)
  case Nil
  then show ?case by simp
next
  case (Cons k ks)
  then obtain l ls' where ls: "ls = l # ls'"
    by (cases ls) auto
  have "k = l"
    using Cons.prems ls asym by (metis insertE list.set_intros(1) list.simps(15) sorted_wrt.simps(2))
  moreover have "k \<notin> set ks" and "l \<notin> set ls'"
    using Cons.prems ls irrefl by auto
  ultimately have "set ks = set ls'"
    using Cons.prems(3) ls by auto
  then have "ks = ls'"
    using Cons.IH Cons.prems ls by simp
  with \<open>k = l\<close> ls show ?case by simp
qed

end

end
