(* ===== verification/Geometry.thy ===== *)
theory Geometry
  imports UI_Prelude
begin

text \<open>
  The integer geometry of \<open>src/ui/gfx\<close>: \<open>Point\<close> (\<open>point_base.h\<close>), \<open>Size\<close> (\<open>size_base.h\<close>,
  \<open>size_base_impl.h\<close>), \<open>Insets\<close> (\<open>insets.h\<close>) and \<open>Rect\<close> (\<open>rect_base.h\<close>, \<open>rect_base_impl.h\<close>,
  \<open>rect.cc\<close>), each instantiated at \<open>int\<close>. Coordinates are mathematical integers: signed
  overflow is undefined in C++, so a faithful run stays inside the machine range.
  The meaning of a rectangle is the set of points it \<open>Contains\<close>; the set operations of the
  class are proved against that meaning.

  A setter of \<open>Size\<close> logs \<open>NOTREACHED\<close> and clamps a negative dimension to 0; the clamp is what
  the release build executes and what is modelled. The float \<open>Scale\<close> overloads are left out.
\<close>

section \<open>Points\<close>

datatype point = Point (pt_x: int) (pt_y: int)

definition point_default :: point where
  "point_default = Point 0 0"

definition point_SetPoint :: "int \<Rightarrow> int \<Rightarrow> point \<Rightarrow> point" where
  "point_SetPoint x y p = Point x y"

definition point_Offset :: "int \<Rightarrow> int \<Rightarrow> point \<Rightarrow> point" where
  "point_Offset dx dy p = Point (pt_x p + dx) (pt_y p + dy)"

definition point_Add :: "point \<Rightarrow> point \<Rightarrow> point" where
  "point_Add p other = point_Offset (pt_x other) (pt_y other) p"

definition point_Subtract :: "point \<Rightarrow> point \<Rightarrow> point" where
  "point_Subtract p other = point_Offset (- pt_x other) (- pt_y other) p"

definition point_Middle :: "point \<Rightarrow> point \<Rightarrow> point" where
  "point_Middle p other = Point ((pt_x p + pt_x other) sdiv 2) ((pt_y p + pt_y other) sdiv 2)"

text \<open>\<open>operator<\<close>: rows first.\<close>

definition point_less :: "point \<Rightarrow> point \<Rightarrow> bool" where
  "point_less p rhs = (if pt_y p = pt_y rhs then pt_x p < pt_x rhs else pt_y p < pt_y rhs)"

instantiation point :: linorder
begin

definition less_point :: "point \<Rightarrow> point \<Rightarrow> bool" where
  "less_point p q \<longleftrightarrow> point_less p q"

definition less_eq_point :: "point \<Rightarrow> point \<Rightarrow> bool" where
  "less_eq_point p q \<longleftrightarrow> point_less p q \<or> p = q"

instance
proof
  fix p q r :: point
  show "(p < q) = (p \<le> q \<and> \<not> q \<le> p)"
    by (auto simp: less_point_def less_eq_point_def point_less_def)
  show "p \<le> p"
    by (simp add: less_eq_point_def)
  show "p \<le> r" if "p \<le> q" and "q \<le> r"
    using that by (auto simp: less_eq_point_def point_less_def split: if_splits)
  show "p = q" if "p \<le> q" and "q \<le> p"
    using that by (auto simp: less_eq_point_def point_less_def split: if_splits)
  show "p \<le> q \<or> q \<le> p"
    by (cases p; cases q) (auto simp: less_eq_point_def point_less_def)
qed

end

section \<open>Sizes and insets\<close>

record size2 =
  sz_width :: int
  sz_height :: int

definition size_set_width :: "int \<Rightarrow> size2 \<Rightarrow> size2" where
  "size_set_width w s = s\<lparr>sz_width := (if w < 0 then 0 else w)\<rparr>"

definition size_set_height :: "int \<Rightarrow> size2 \<Rightarrow> size2" where
  "size_set_height h s = s\<lparr>sz_height := (if h < 0 then 0 else h)\<rparr>"

definition mk_size :: "int \<Rightarrow> int \<Rightarrow> size2" where
  "mk_size w h = size_set_height h (size_set_width w \<lparr>sz_width = 0, sz_height = 0\<rparr>)"

definition size_GetArea :: "size2 \<Rightarrow> int" where
  "size_GetArea s = sz_width s * sz_height s"

definition size_SetSize :: "int \<Rightarrow> int \<Rightarrow> size2 \<Rightarrow> size2" where
  "size_SetSize w h s = size_set_height h (size_set_width w s)"

definition size_Enlarge :: "int \<Rightarrow> int \<Rightarrow> size2 \<Rightarrow> size2" where
  "size_Enlarge w h s =
     (let s1 = size_set_width (sz_width s + w) s in size_set_height (sz_height s1 + h) s1)"

definition size_IsEmpty :: "size2 \<Rightarrow> bool" where
  "size_IsEmpty s \<longleftrightarrow> sz_width s = 0 \<or> sz_height s = 0"

definition size_ok :: "size2 \<Rightarrow> bool" where
  "size_ok s \<longleftrightarrow> 0 \<le> sz_width s \<and> 0 \<le> sz_height s"

record insets =
  in_top :: int
  in_left :: int
  in_bottom :: int
  in_right :: int

definition insets_width :: "insets \<Rightarrow> int" where
  "insets_width i = in_left i + in_right i"

definition insets_height :: "insets \<Rightarrow> int" where
  "insets_height i = in_top i + in_bottom i"

definition insets_empty :: "insets \<Rightarrow> bool" where
  "insets_empty i \<longleftrightarrow> insets_width i = 0 \<and> insets_height i = 0"

definition insets_Set :: "int \<Rightarrow> int \<Rightarrow> int \<Rightarrow> int \<Rightarrow> insets \<Rightarrow> insets" where
  "insets_Set t l b r i = i\<lparr>in_top := t, in_left := l, in_bottom := b, in_right := r\<rparr>"

definition insets_add :: "insets \<Rightarrow> insets \<Rightarrow> insets" where
  "insets_add i j = \<lparr>in_top = in_top i + in_top j, in_left = in_left i + in_left j,
     in_bottom = in_bottom i + in_bottom j, in_right = in_right i + in_right j\<rparr>"

definition insets_neg :: "insets \<Rightarrow> insets" where
  "insets_neg i = \<lparr>in_top = - in_top i, in_left = - in_left i, in_bottom = - in_bottom i, in_right = - in_right i\<rparr>"

section \<open>Rectangles\<close>

record rect =
  rc_origin :: point
  rc_size :: size2

definition rect_x :: "rect \<Rightarrow> int" where
  "rect_x r = pt_x (rc_origin r)"

definition rect_y :: "rect \<Rightarrow> int" where
  "rect_y r = pt_y (rc_origin r)"

definition rect_width :: "rect \<Rightarrow> int" where
  "rect_width r = sz_width (rc_size r)"

definition rect_height :: "rect \<Rightarrow> int" where
  "rect_height r = sz_height (rc_size r)"

definition rect_right :: "rect \<Rightarrow> int" where
  "rect_right r = rect_x r + rect_width r"

definition rect_bottom :: "rect \<Rightarrow> int" where
  "rect_bottom r = rect_y r + rect_height r"

definition rect_set_width :: "int \<Rightarrow> rect \<Rightarrow> rect" where
  "rect_set_width w r = r\<lparr>rc_size := size_set_width w (rc_size r)\<rparr>"

definition rect_set_height :: "int \<Rightarrow> rect \<Rightarrow> rect" where
  "rect_set_height h r = r\<lparr>rc_size := size_set_height h (rc_size r)\<rparr>"

text \<open>The constructors \<open>Rect(x, y, width, height)\<close> and \<open>Rect()\<close>.\<close>

definition mk_rect :: "int \<Rightarrow> int \<Rightarrow> int \<Rightarrow> int \<Rightarrow> rect" where
  "mk_rect x y w h = \<lparr>rc_origin = Point x y, rc_size = mk_size w h\<rparr>"

definition rect_default :: rect where
  "rect_default = \<lparr>rc_origin = point_default, rc_size = mk_size 0 0\<rparr>"

definition rect_SetRect :: "int \<Rightarrow> int \<Rightarrow> int \<Rightarrow> int \<Rightarrow> rect \<Rightarrow> rect" where
  "rect_SetRect x y w h r =
     rect_set_height h (rect_set_width w (r\<lparr>rc_origin := point_SetPoint x y (rc_origin r)\<rparr>))"

definition rect_Offset :: "int \<Rightarrow> int \<Rightarrow> rect \<Rightarrow> rect" where
  "rect_Offset h v r = r\<lparr>rc_origin := point_Offset h v (rc_origin r)\<rparr>"

definition rect_Inset :: "int \<Rightarrow> int \<Rightarrow> int \<Rightarrow> int \<Rightarrow> rect \<Rightarrow> rect" where
  "rect_Inset l t r b rc =
     (let r1 = rect_Offset l t rc;
          r2 = rect_set_width (max (rect_width r1 - l - r) 0) r1
      in rect_set_height (max (rect_height r2 - t - b) 0) r2)"

definition rect_Inset_insets :: "insets \<Rightarrow> rect \<Rightarrow> rect" where
  "rect_Inset_insets i r = rect_Inset (in_left i) (in_top i) (in_right i) (in_bottom i) r"

definition rect_InsetsFrom :: "rect \<Rightarrow> rect \<Rightarrow> insets" where
  "rect_InsetsFrom r inner =
     \<lparr>in_top = rect_y inner - rect_y r, in_left = rect_x inner - rect_x r,
      in_bottom = rect_bottom r - rect_bottom inner, in_right = rect_right r - rect_right inner\<rparr>"

definition rect_IsEmpty :: "rect \<Rightarrow> bool" where
  "rect_IsEmpty r = size_IsEmpty (rc_size r)"

definition rect_less :: "rect \<Rightarrow> rect \<Rightarrow> bool" where
  "rect_less r other =
     (if rc_origin r = rc_origin other
      then if rect_width r = rect_width other
           then rect_height r < rect_height other
           else rect_width r < rect_width other
      else point_less (rc_origin r) (rc_origin other))"

definition rect_Contains_xy :: "rect \<Rightarrow> int \<Rightarrow> int \<Rightarrow> bool" where
  "rect_Contains_xy r px py \<longleftrightarrow>
     px \<ge> rect_x r \<and> px < rect_right r \<and> py \<ge> rect_y r \<and> py < rect_bottom r"

definition rect_Contains :: "rect \<Rightarrow> rect \<Rightarrow> bool" where
  "rect_Contains r rect \<longleftrightarrow>
     rect_x rect \<ge> rect_x r \<and> rect_right rect \<le> rect_right r \<and>
     rect_y rect \<ge> rect_y r \<and> rect_bottom rect \<le> rect_bottom r"

definition rect_Intersects :: "rect \<Rightarrow> rect \<Rightarrow> bool" where
  "rect_Intersects r rect \<longleftrightarrow>
     \<not> (rect_x rect \<ge> rect_right r \<or> rect_right rect \<le> rect_x r \<or>
        rect_y rect \<ge> rect_bottom r \<or> rect_bottom rect \<le> rect_y r)"

definition rect_Intersect :: "rect \<Rightarrow> rect \<Rightarrow> rect" where
  "rect_Intersect r rect =
     (let rx = max (rect_x r) (rect_x rect); ry = max (rect_y r) (rect_y rect);
          rr = min (rect_right r) (rect_right rect); rb = min (rect_bottom r) (rect_bottom rect)
      in if rx \<ge> rr \<or> ry \<ge> rb then mk_rect 0 0 0 0
         else mk_rect rx ry (rr - rx) (rb - ry))"

definition rect_Union :: "rect \<Rightarrow> rect \<Rightarrow> rect" where
  "rect_Union r rect =
     (if rect_IsEmpty r then rect
      else if rect_IsEmpty rect then r
      else let rx = min (rect_x r) (rect_x rect); ry = min (rect_y r) (rect_y rect);
               rr = max (rect_right r) (rect_right rect);
               rb = max (rect_bottom r) (rect_bottom rect)
           in mk_rect rx ry (rr - rx) (rb - ry))"

definition rect_Subtract :: "rect \<Rightarrow> rect \<Rightarrow> rect" where
  "rect_Subtract r rect =
     (if \<not> rect_Intersects r rect then r
      else if rect_Contains rect r then rect_default
      else let (rx, ry, rr, rb) =
                 (if rect_y rect \<le> rect_y r \<and> rect_bottom rect \<ge> rect_bottom r
                  then if rect_x rect \<le> rect_x r
                       then (rect_right rect, rect_y r, rect_right r, rect_bottom r)
                       else (rect_x r, rect_y r, rect_x rect, rect_bottom r)
                  else if rect_x rect \<le> rect_x r \<and> rect_right rect \<ge> rect_right r
                  then if rect_y rect \<le> rect_y r
                       then (rect_x r, rect_bottom rect, rect_right r, rect_bottom r)
                       else (rect_x r, rect_y r, rect_right r, rect_y rect)
                  else (rect_x r, rect_y r, rect_right r, rect_bottom r))
           in mk_rect rx ry (rr - rx) (rb - ry))"

text \<open>\<open>AdjustAlongAxis\<close> updates an origin and a size in place; the model returns the pair.\<close>

definition AdjustAlongAxis :: "int \<Rightarrow> int \<Rightarrow> int \<Rightarrow> int \<Rightarrow> int \<times> int" where
  "AdjustAlongAxis dst_origin dst_size origin sz =
     (let sz' = min dst_size sz;
          origin' = (if origin < dst_origin then dst_origin
                     else min (dst_origin + dst_size) (origin + sz') - sz')
      in (origin', sz'))"

definition rect_AdjustToFit :: "rect \<Rightarrow> rect \<Rightarrow> rect" where
  "rect_AdjustToFit r rect =
     (let (new_x, new_width) =
            AdjustAlongAxis (rect_x rect) (rect_width rect) (rect_x r) (rect_width r);
          (new_y, new_height) =
            AdjustAlongAxis (rect_y rect) (rect_height rect) (rect_y r) (rect_height r)
      in mk_rect new_x new_y new_width new_height)"

definition rect_CenterPoint :: "rect \<Rightarrow> point" where
  "rect_CenterPoint r =
     Point (rect_x r + (rect_width r - 1) sdiv 2) (rect_y r + (rect_height r - 1) sdiv 2)"

definition rect_Center :: "size2 \<Rightarrow> rect \<Rightarrow> rect" where
  "rect_Center s r =
     (let new_width = min (rect_width r) (sz_width s);
          new_height = min (rect_height r) (sz_height s);
          new_x = rect_x r + (rect_width r - new_width) sdiv 2;
          new_y = rect_y r + (rect_height r - new_height) sdiv 2
      in mk_rect new_x new_y new_width new_height)"

text \<open>\<open>SplitVertically\<close> writes to its two out-parameters.\<close>

definition rect_SplitVertically :: "rect \<Rightarrow> rect \<Rightarrow> rect \<Rightarrow> rect \<times> rect" where
  "rect_SplitVertically r left_half right_half =
     (let l = rect_SetRect (rect_x r) (rect_y r) (rect_width r sdiv 2) (rect_height r) left_half
      in (l, rect_SetRect (rect_right l) (rect_y r) (rect_width r - rect_width l) (rect_height r)
               right_half))"

definition rect_SharesEdgeWith :: "rect \<Rightarrow> rect \<Rightarrow> bool" where
  "rect_SharesEdgeWith r rect \<longleftrightarrow>
     (rect_y r = rect_y rect \<and> rect_height r = rect_height rect \<and>
       (rect_x r = rect_right rect \<or> rect_right r = rect_x rect)) \<or>
     (rect_x r = rect_x rect \<and> rect_width r = rect_width rect \<and>
       (rect_y r = rect_bottom rect \<or> rect_bottom r = rect_y rect))"

section \<open>Meaning and well-formedness\<close>

text \<open>The points of a rectangle, and the invariant every constructor and setter keeps.\<close>

definition rect_points :: "rect \<Rightarrow> point set" where
  "rect_points r = {p. rect_Contains_xy r (pt_x p) (pt_y p)}"

definition rect_ok :: "rect \<Rightarrow> bool" where
  "rect_ok r = size_ok (rc_size r)"

lemmas size_defs [geom_defs] =
  size_set_width_def size_set_height_def mk_size_def size_SetSize_def size_Enlarge_def
  size_IsEmpty_def size_ok_def

lemmas rect_access_defs [geom_defs] =
  rect_x_def rect_y_def rect_width_def rect_height_def rect_right_def rect_bottom_def
  rect_set_width_def rect_set_height_def mk_rect_def rect_default_def point_default_def
  rect_SetRect_def point_SetPoint_def rect_IsEmpty_def rect_ok_def

lemmas rect_set_defs =
  rect_points_def rect_Contains_xy_def rect_Contains_def rect_Intersects_def

lemma mk_rect_simps [simp]:
  "rect_x (mk_rect x y w h) = x" "rect_y (mk_rect x y w h) = y"
  "rect_width (mk_rect x y w h) = max w 0" "rect_height (mk_rect x y w h) = max h 0"
  "rect_right (mk_rect x y w h) = x + max w 0" "rect_bottom (mk_rect x y w h) = y + max h 0"
  "rect_ok (mk_rect x y w h)"
  by (auto simp: geom_defs)

lemma rect_SetRect_simps [simp]:
  "rect_x (rect_SetRect x y w h r) = x" "rect_y (rect_SetRect x y w h r) = y"
  "rect_width (rect_SetRect x y w h r) = max w 0"
  "rect_height (rect_SetRect x y w h r) = max h 0"
  "rect_right (rect_SetRect x y w h r) = x + max w 0"
  "rect_bottom (rect_SetRect x y w h r) = y + max h 0"
  by (auto simp: geom_defs)

lemma rect_default_simps [simp]:
  "rect_x rect_default = 0" "rect_y rect_default = 0"
  "rect_width rect_default = 0" "rect_height rect_default = 0"
  "rect_right rect_default = 0" "rect_bottom rect_default = 0"
  by (auto simp: geom_defs)

lemma rect_ok_bounds:
  "rect_ok r \<longleftrightarrow> 0 \<le> rect_width r \<and> 0 \<le> rect_height r"
  by (simp add: geom_defs)

lemma rect_edges:
  "rect_right r = rect_x r + rect_width r" "rect_bottom r = rect_y r + rect_height r"
  by (simp_all add: geom_defs)

lemma rect_empty_iff: "rect_IsEmpty r \<longleftrightarrow> rect_width r = 0 \<or> rect_height r = 0"
  by (simp add: geom_defs)

lemma rect_eqI:
  "rect_x r = rect_x s \<Longrightarrow> rect_y r = rect_y s \<Longrightarrow> rect_width r = rect_width s \<Longrightarrow>
   rect_height r = rect_height s \<Longrightarrow> r = (s :: rect)"
  by (cases r; cases s) (auto simp: geom_defs intro: point.expand)

lemma mem_rect_points:
  "Point a b \<in> rect_points r \<longleftrightarrow>
     rect_x r \<le> a \<and> a < rect_right r \<and> rect_y r \<le> b \<and> b < rect_bottom r"
  by (auto simp: rect_set_defs)

lemma rect_points_eqI:
  "(\<And>a b. Point a b \<in> rect_points r \<longleftrightarrow> Point a b \<in> S) \<Longrightarrow> rect_points r = S"
  by (metis point.exhaust subsetI subset_antisym)

lemma rect_points_empty: "rect_ok r \<Longrightarrow> rect_points r = {} \<longleftrightarrow> rect_IsEmpty r"
proof
  assume ok: "rect_ok r" and "rect_points r = {}"
  then have "Point (rect_x r) (rect_y r) \<notin> rect_points r" by simp
  with ok show "rect_IsEmpty r"
    by (auto simp: mem_rect_points rect_edges rect_empty_iff rect_ok_bounds)
next
  assume "rect_ok r" and "rect_IsEmpty r"
  then show "rect_points r = {}"
    by (intro rect_points_eqI) (auto simp: mem_rect_points rect_edges rect_empty_iff)
qed

section \<open>Ordering\<close>

interpretation point_key: key_order point_less
  by unfold_locales (auto simp: point_less_def intro: point.expand split: if_splits)

lemma rect_neq_cases:
  "r \<noteq> s \<Longrightarrow> rc_origin r \<noteq> rc_origin s \<or> rect_width r \<noteq> rect_width s \<or> rect_height r \<noteq> rect_height (s :: rect)"
  by (metis rect_eqI rect_x_def rect_y_def)

interpretation rect_key: key_order rect_less
proof unfold_locales
  fix a b c :: rect
  show "\<not> rect_less a a"
    by (simp add: rect_less_def)
  show "rect_less a c" if "rect_less a b" and "rect_less b c"
    using that point_key.trans point_key.irrefl
    by (auto simp: rect_less_def split: if_splits)
      (metis point_key.asym)+
  show "rect_less a b \<or> rect_less b a" if "a \<noteq> b"
    using rect_neq_cases [OF that] point_key.connected
    by (auto simp: rect_less_def)
qed

text \<open>\<open>Rect::operator<\<close> is a strict total order, as a key of \<open>std::set\<close> needs: it is
  irreflexive and transitive, and two rectangles are the same key (neither is less than the
  other) exactly when they are equal.\<close>

theorem rect_less_total_order:
  "\<not> rect_less a a \<and> (rect_less a b \<and> rect_less b c \<longrightarrow> rect_less a c) \<and>
   (\<not> rect_less a b \<and> \<not> rect_less b a \<longleftrightarrow> a = b)"
  using rect_key.irrefl rect_key.trans rect_key.equivalent_iff by blast

theorem rect_less_total_order_witness:
  "rect_less (mk_rect 0 0 1 1) (mk_rect 0 0 2 1) \<and> rect_less (mk_rect 0 0 2 1) (mk_rect 0 0 2 3) \<and>
   rect_less (mk_rect 0 0 1 1) (mk_rect 0 0 2 3)"
  using rect_less_total_order [of "mk_rect 0 0 1 1" "mk_rect 0 0 2 1" "mk_rect 0 0 2 3"]
  by (simp add: rect_less_def geom_defs)

text \<open>The header comment of \<open>operator<\<close> orders rectangles of one origin by height and then by
  width; the code compares the widths first.\<close>

lemma rect_less_width_first:
  "rect_less (mk_rect 0 0 1 9) (mk_rect 0 0 2 1) \<and> \<not> rect_less (mk_rect 0 0 2 1) (mk_rect 0 0 1 9)"
  by (simp add: rect_less_def geom_defs)

section \<open>Set operations\<close>

text \<open>\<open>Rect::Intersect\<close> computes the intersection: for every two rectangles, empty ones
  included, the points of the result are the points both contain.\<close>

theorem rect_Intersect_points:
  "rect_points (rect_Intersect a b) = rect_points a \<inter> rect_points b"
  by (rule rect_points_eqI) (auto simp: mem_rect_points rect_Intersect_def Let_def span_edge)

text \<open>\<open>Rect::Union\<close> of two non-empty rectangles is the smallest rectangle containing both:
  it contains each, and every rectangle that contains both contains it.\<close>

theorem rect_Union_least:
  assumes "rect_ok a" and "rect_ok b" and "\<not> rect_IsEmpty a" and "\<not> rect_IsEmpty b"
  shows "rect_Contains (rect_Union a b) a \<and> rect_Contains (rect_Union a b) b \<and>
         (\<forall>c. rect_Contains c a \<and> rect_Contains c b \<longrightarrow> rect_Contains c (rect_Union a b))"
  using assms
  by (auto simp: rect_Contains_def rect_Union_def Let_def rect_edges rect_empty_iff
      rect_ok_bounds)

theorem rect_Union_least_witness:
  "rect_Contains (rect_Union (mk_rect 0 0 2 2) (mk_rect 5 5 1 1)) (mk_rect 5 5 1 1)"
  using rect_Union_least [of "mk_rect 0 0 2 2" "mk_rect 5 5 1 1"] by (simp add: rect_empty_iff)

lemma rect_Union_ok: "rect_ok a \<Longrightarrow> rect_ok b \<Longrightarrow> rect_ok (rect_Union a b)"
  by (simp add: rect_Union_def Let_def)

lemma rect_Contains_points: "rect_Contains r s \<Longrightarrow> rect_points s \<subseteq> rect_points r"
  by (auto simp: rect_set_defs)

lemma rect_Union_points: "rect_ok a \<Longrightarrow> rect_ok b \<Longrightarrow> rect_points a \<union> rect_points b \<subseteq> rect_points (rect_Union a b)"
proof -
  assume ok: "rect_ok a" "rect_ok b"
  show ?thesis
  proof (cases "rect_IsEmpty a \<or> rect_IsEmpty b")
    case True
    with ok show ?thesis
      using rect_points_empty by (auto simp: rect_Union_def)
  next
    case False
    then have "rect_Contains (rect_Union a b) a" and "rect_Contains (rect_Union a b) b"
      by (auto simp: rect_Contains_def rect_Union_def Let_def)
    then show ?thesis
      using rect_Contains_points by blast
  qed
qed

text \<open>The band of \<open>b\<close> crosses \<open>a\<close> from one side to the other without touching the two other
  sides, so that what is left of \<open>a\<close> is two pieces.\<close>

definition splits_in_two :: "rect \<Rightarrow> rect \<Rightarrow> bool" where
  "splits_in_two a b \<longleftrightarrow>
     (rect_y b \<le> rect_y a \<and> rect_bottom b \<ge> rect_bottom a \<and> rect_x b > rect_x a \<and>
        rect_right b < rect_right a) \<or>
     (rect_x b \<le> rect_x a \<and> rect_right b \<ge> rect_right a \<and> rect_y b > rect_y a \<and>
        rect_bottom b < rect_bottom a)"

definition covers_a_side :: "rect \<Rightarrow> rect \<Rightarrow> bool" where
  "covers_a_side a b \<longleftrightarrow>
     (rect_y b \<le> rect_y a \<and> rect_bottom b \<ge> rect_bottom a) \<or>
     (rect_x b \<le> rect_x a \<and> rect_right b \<ge> rect_right a)"

lemma rect_Intersects_disjoint: "\<not> rect_Intersects a b \<Longrightarrow> rect_points a \<inter> rect_points b = {}"
  by (auto simp: rect_set_defs)

text \<open>The four one-sided cuts, by the edges of the result.\<close>

lemma rect_Subtract_cut_y:
  assumes "rect_Intersects a b" and "\<not> rect_Contains b a"
    and "rect_y b \<le> rect_y a" and "rect_bottom b \<ge> rect_bottom a"
    and "rect_x b \<le> rect_x a \<or> rect_right b \<ge> rect_right a"
  shows "rect_points (rect_Subtract a b) = rect_points a - rect_points b"
proof (cases "rect_x b \<le> rect_x a")
  case True
  then have eq: "rect_Subtract a b =
      mk_rect (rect_right b) (rect_y a) (rect_right a - rect_right b) (rect_bottom a - rect_y a)"
    using assms by (simp add: rect_Subtract_def Let_def)
  have "rect_right b < rect_right a" and "rect_x a < rect_right b"
    using assms True by (auto simp: rect_Contains_def rect_Intersects_def)
  with assms True show ?thesis
    by (intro rect_points_eqI) (auto simp: eq mem_rect_points span_less)
next
  case False
  then have eq: "rect_Subtract a b =
      mk_rect (rect_x a) (rect_y a) (rect_x b - rect_x a) (rect_bottom a - rect_y a)"
    using assms by (simp add: rect_Subtract_def Let_def)
  have "rect_x b < rect_right a"
    using assms by (auto simp: rect_Intersects_def)
  with assms False show ?thesis
    by (intro rect_points_eqI) (auto simp: eq mem_rect_points span_less)
qed

lemma rect_Subtract_cut_x:
  assumes "rect_Intersects a b" and "\<not> rect_Contains b a"
    and "\<not> (rect_y b \<le> rect_y a \<and> rect_bottom b \<ge> rect_bottom a)"
    and "rect_x b \<le> rect_x a" and "rect_right b \<ge> rect_right a"
    and "rect_y b \<le> rect_y a \<or> rect_bottom b \<ge> rect_bottom a"
  shows "rect_points (rect_Subtract a b) = rect_points a - rect_points b"
proof (cases "rect_y b \<le> rect_y a")
  case True
  then have eq: "rect_Subtract a b =
      mk_rect (rect_x a) (rect_bottom b) (rect_right a - rect_x a) (rect_bottom a - rect_bottom b)"
    using assms by (simp add: rect_Subtract_def Let_def)
  have "rect_bottom b < rect_bottom a" and "rect_y a < rect_bottom b"
    using assms True by (auto simp: rect_Intersects_def)
  with assms True show ?thesis
    by (intro rect_points_eqI) (auto simp: eq mem_rect_points span_less)
next
  case False
  then have eq: "rect_Subtract a b =
      mk_rect (rect_x a) (rect_y a) (rect_right a - rect_x a) (rect_y b - rect_y a)"
    using assms by (simp add: rect_Subtract_def Let_def)
  have "rect_y b < rect_bottom a"
    using assms by (auto simp: rect_Intersects_def)
  with assms False show ?thesis
    by (intro rect_points_eqI) (auto simp: eq mem_rect_points span_less)
qed

lemma rect_Subtract_whole:
  assumes "rect_Intersects a b" and "\<not> covers_a_side a b"
  shows "rect_points (rect_Subtract a b) = rect_points a"
proof -
  have "\<not> rect_Contains b a"
    using assms(2) by (auto simp: covers_a_side_def rect_Contains_def)
  with assms have eq: "rect_Subtract a b =
      mk_rect (rect_x a) (rect_y a) (rect_right a - rect_x a) (rect_bottom a - rect_y a)"
    by (auto simp: rect_Subtract_def Let_def covers_a_side_def)
  show ?thesis
    by (rule rect_points_eqI) (auto simp: eq mem_rect_points span_less)
qed

text \<open>(C40) \<open>Rect::Subtract\<close>: unless \<open>rect\<close> cuts the rectangle into two pieces, the result has
  exactly the points outside \<open>rect\<close> when \<open>rect\<close> spans it in one direction, and all its points
  when \<open>rect\<close> spans it in neither.\<close>

theorem rect_Subtract_points:
  assumes "\<not> splits_in_two a b"
  shows "rect_points (rect_Subtract a b) =
           (if covers_a_side a b then rect_points a - rect_points b else rect_points a)"
proof -
  consider (apart) "\<not> rect_Intersects a b"
    | (inside) "rect_Contains b a" "rect_Intersects a b"
    | (whole) "rect_Intersects a b" "\<not> covers_a_side a b"
    | (cut) "rect_Intersects a b" "covers_a_side a b" "\<not> rect_Contains b a"
    by blast
  then show ?thesis
  proof cases
    case apart
    then show ?thesis
      using rect_Intersects_disjoint by (auto simp: rect_Subtract_def)
  next
    case inside
    then have "covers_a_side a b"
      by (simp add: covers_a_side_def rect_Contains_def)
    moreover have "rect_points a \<subseteq> rect_points b"
      using inside(1) by (rule rect_Contains_points)
    moreover note inside
    ultimately show ?thesis
      by (auto simp: rect_Subtract_def rect_points_def rect_Contains_xy_def)
  next
    case whole
    then show ?thesis by (simp add: rect_Subtract_whole)
  next
    case cut
    have "rect_points (rect_Subtract a b) = rect_points a - rect_points b"
    proof (cases "rect_y b \<le> rect_y a \<and> rect_bottom b \<ge> rect_bottom a")
      case True
      moreover from True assms have "rect_x b \<le> rect_x a \<or> rect_right b \<ge> rect_right a"
        by (auto simp: splits_in_two_def)
      ultimately show ?thesis
        using cut by (intro rect_Subtract_cut_y) auto
    next
      case False
      with cut assms show ?thesis
        by (intro rect_Subtract_cut_x) (auto simp: covers_a_side_def splits_in_two_def)
    qed
    with cut show ?thesis by simp
  qed
qed

theorem rect_Subtract_points_witness:
  "Point 1 1 \<in> rect_points (rect_Subtract (mk_rect 0 0 10 10) (mk_rect 5 0 10 10)) \<and>
   Point 7 1 \<notin> rect_points (rect_Subtract (mk_rect 0 0 10 10) (mk_rect 5 0 10 10))"
proof -
  have "\<not> splits_in_two (mk_rect 0 0 10 10) (mk_rect 5 0 10 10)"
    by (simp add: splits_in_two_def)
  from rect_Subtract_points [OF this] show ?thesis
    by (simp add: mem_rect_points covers_a_side_def)
qed

text \<open>Where \<open>rect\<close> does cut it in two, the code keeps one piece and loses the other: the point
  \<open>(8, 1)\<close> is in the rectangle, outside the subtracted band, and not in the result.\<close>

lemma rect_Subtract_loses_piece:
  "Point 8 1 \<in> rect_points (mk_rect 0 0 10 10) - rect_points (mk_rect 4 0 2 10) \<and>
   Point 8 1 \<notin> rect_points (rect_Subtract (mk_rect 0 0 10 10) (mk_rect 4 0 2 10))"
  by (simp add: mem_rect_points rect_Subtract_def rect_Intersects_def rect_Contains_def)

section \<open>Insets, fitting and splitting\<close>

lemma rect_Inset_simps:
  "rect_x (rect_Inset l t r b rc) = rect_x rc + l"
  "rect_y (rect_Inset l t r b rc) = rect_y rc + t"
  "rect_width (rect_Inset l t r b rc) = max (rect_width rc - l - r) 0"
  "rect_height (rect_Inset l t r b rc) = max (rect_height rc - t - b) 0"
  by (auto simp: rect_Inset_def rect_Offset_def point_Offset_def geom_defs)

text \<open>Insetting a rectangle by the insets measured to an inner rectangle gives the inner
  rectangle back.\<close>

theorem rect_Inset_InsetsFrom:
  assumes "rect_ok inner"
  shows "rect_Inset_insets (rect_InsetsFrom r inner) r = inner"
  using assms
  by (intro rect_eqI)
    (simp_all add: rect_Inset_insets_def rect_InsetsFrom_def rect_Inset_simps rect_edges
      rect_ok_bounds)

theorem rect_Inset_InsetsFrom_witness:
  "rect_Inset_insets (rect_InsetsFrom (mk_rect 0 0 9 9) (mk_rect 2 3 4 4)) (mk_rect 0 0 9 9) =
   mk_rect 2 3 4 4"
  by (rule rect_Inset_InsetsFrom) simp

text \<open>\<open>Rect::AdjustToFit\<close> returns a rectangle inside the given one, of the smaller of the
  two widths and heights, and leaves a rectangle that already fits unchanged.\<close>

theorem rect_AdjustToFit_fits:
  assumes "rect_ok r" and "rect_ok dst"
  shows "rect_Contains dst (rect_AdjustToFit r dst) \<and>
         rect_width (rect_AdjustToFit r dst) = min (rect_width dst) (rect_width r) \<and>
         rect_height (rect_AdjustToFit r dst) = min (rect_height dst) (rect_height r) \<and>
         (rect_Contains dst r \<longrightarrow> rect_AdjustToFit r dst = r)"
proof -
  have fits: "rect_Contains dst (rect_AdjustToFit r dst)"
    using assms
    by (auto simp: rect_AdjustToFit_def AdjustAlongAxis_def Let_def rect_Contains_def rect_edges
        rect_ok_bounds)
  have same: "rect_AdjustToFit r dst = r" if "rect_Contains dst r"
    using assms that
    by (intro rect_eqI)
      (auto simp: rect_AdjustToFit_def AdjustAlongAxis_def Let_def rect_Contains_def rect_edges
        rect_ok_bounds)
  show ?thesis
    using assms fits same
    by (simp add: rect_AdjustToFit_def AdjustAlongAxis_def Let_def rect_ok_bounds)
qed

theorem rect_AdjustToFit_fits_witness:
  "rect_Contains (mk_rect 0 0 5 5) (rect_AdjustToFit (mk_rect 2 2 4 9) (mk_rect 0 0 5 5))"
  using rect_AdjustToFit_fits [of "mk_rect 2 2 4 9" "mk_rect 0 0 5 5"] by simp

text \<open>\<open>Rect::SplitVertically\<close> writes two halves that together have the points of the
  rectangle and share none, whatever the out-parameters held before.\<close>

theorem rect_SplitVertically_partition:
  assumes "rect_ok r"
  shows "rect_points (fst (rect_SplitVertically r l0 r0)) \<union>
           rect_points (snd (rect_SplitVertically r l0 r0)) = rect_points r \<and>
         rect_points (fst (rect_SplitVertically r l0 r0)) \<inter>
           rect_points (snd (rect_SplitVertically r l0 r0)) = {}"
proof -
  obtain a b where ab: "rect_SplitVertically r l0 r0 = (a, b)"
    by force
  have w: "0 \<le> rect_width r sdiv 2" "rect_width r sdiv 2 \<le> rect_width r"
    using assms sdiv2_bounds by (auto simp: rect_ok_bounds)
  have "Point p q \<in> rect_points a \<union> rect_points b \<longleftrightarrow> Point p q \<in> rect_points r" for p q
    using ab w assms
    by (auto simp: rect_SplitVertically_def Let_def mem_rect_points rect_edges rect_ok_bounds)
  moreover have "Point p q \<notin> rect_points a \<inter> rect_points b" for p q
    using ab w assms
    by (auto simp: rect_SplitVertically_def Let_def mem_rect_points rect_edges rect_ok_bounds)
  ultimately show ?thesis
    unfolding ab fst_conv snd_conv by (metis (no_types, lifting) equals0I point.exhaust subsetI subset_antisym)
qed

theorem rect_SplitVertically_partition_witness:
  "Point 2 0 \<in> rect_points (snd (rect_SplitVertically (mk_rect 0 0 5 1) rect_default rect_default))"
proof -
  have "rect_points (fst (rect_SplitVertically (mk_rect 0 0 5 1) rect_default rect_default)) \<union>
        rect_points (snd (rect_SplitVertically (mk_rect 0 0 5 1) rect_default rect_default)) =
        rect_points (mk_rect 0 0 5 1)"
    using rect_SplitVertically_partition [of "mk_rect 0 0 5 1" rect_default rect_default] by simp
  moreover have "Point 2 0 \<in> rect_points (mk_rect 0 0 5 1)"
    by (simp add: mem_rect_points)
  moreover have "Point 2 0 \<notin>
      rect_points (fst (rect_SplitVertically (mk_rect 0 0 5 1) rect_default rect_default))"
    by (simp add: mem_rect_points rect_SplitVertically_def Let_def sdiv2_nonneg)
  ultimately show ?thesis by blast
qed

lemma rect_Center_inside: "rect_ok r \<Longrightarrow> size_ok s \<Longrightarrow> rect_Contains r (rect_Center s r)"
proof -
  assume r: "rect_ok r" and s: "size_ok s"
  have w: "0 \<le> rect_width r - min (rect_width r) (sz_width s)"
    and h: "0 \<le> rect_height r - min (rect_height r) (sz_height s)"
    by simp_all
  show ?thesis
    using sdiv2_bounds [OF w] sdiv2_bounds [OF h] r s
    by (auto simp: rect_Center_def Let_def rect_Contains_def rect_edges rect_ok_bounds size_ok_def)
qed

lemma rect_CenterPoint_inside:
  "rect_ok r \<Longrightarrow> \<not> rect_IsEmpty r \<Longrightarrow> rect_CenterPoint r \<in> rect_points r"
proof -
  assume r: "rect_ok r" "\<not> rect_IsEmpty r"
  then have "0 \<le> rect_width r - 1" and "0 \<le> rect_height r - 1"
    by (auto simp: rect_ok_bounds rect_empty_iff)
  from sdiv2_bounds [OF this(1)] sdiv2_bounds [OF this(2)] r show ?thesis
    by (simp add: rect_CenterPoint_def mem_rect_points rect_edges rect_ok_bounds)
qed

lemma rect_SharesEdgeWith_disjoint:
  "rect_ok r \<Longrightarrow> rect_ok s \<Longrightarrow> rect_SharesEdgeWith r s \<Longrightarrow> rect_points r \<inter> rect_points s = {}"
  by (auto simp: rect_SharesEdgeWith_def rect_set_defs rect_edges)

lemma rect_Intersects_iff:
  assumes "rect_ok r" and "rect_ok s" and "\<not> rect_IsEmpty r" and "\<not> rect_IsEmpty s"
  shows "rect_Intersects r s \<longleftrightarrow> \<not> rect_IsEmpty (rect_Intersect r s)"
proof -
  define rx ry rr rb where "rx = max (rect_x r) (rect_x s)" and "ry = max (rect_y r) (rect_y s)"
    and "rr = min (rect_right r) (rect_right s)" and "rb = min (rect_bottom r) (rect_bottom s)"
  note edges = rx_def ry_def rr_def rb_def
  have "rect_x r < rect_right r" "rect_y r < rect_bottom r"
    "rect_x s < rect_right s" "rect_y s < rect_bottom s"
    using assms by (auto simp: rect_edges rect_empty_iff rect_ok_bounds)
  then have "rect_Intersects r s \<longleftrightarrow> rx < rr \<and> ry < rb"
    by (simp add: rect_Intersects_def not_le edges)
  moreover have "rect_Intersect r s =
      (if rx \<ge> rr \<or> ry \<ge> rb then mk_rect 0 0 0 0 else mk_rect rx ry (rr - rx) (rb - ry))"
    by (simp add: rect_Intersect_def Let_def edges)
  ultimately show ?thesis
    by (simp add: rect_empty_iff)
qed

end
