(* ===== verification/Text_Range.thy ===== *)
theory Text_Range
  imports UI_Prelude
begin

text \<open>
  \<open>ui::Range\<close> (\<open>src/ui/base/range/range.h\<close>, \<open>range.cc\<close>): a directed pair of \<open>size_t\<close>
  positions. The positions are natural numbers with \<open>size_t_max\<close> as the largest; the one
  place where the code leaves \<open>size_t\<close>, the detour of \<open>length()\<close> through a 32-bit \<open>int\<close>,
  is written out with \<open>wrap32\<close>.
\<close>

record range =
  r_start :: nat
  r_end :: nat

definition mk_range :: "nat \<Rightarrow> nat \<Rightarrow> range" where
  "mk_range s e = \<lparr>r_start = s, r_end = e\<rparr>"

text \<open>The constructor from one position.\<close>

definition range_at :: "nat \<Rightarrow> range" where
  "range_at p = \<lparr>r_start = p, r_end = p\<rparr>"

definition range_InvalidRange :: range where
  "range_InvalidRange = range_at size_t_max"

definition range_IsValid :: "range \<Rightarrow> bool" where
  "range_IsValid r \<longleftrightarrow> r \<noteq> range_InvalidRange"

text \<open>\<open>int length = end() - start(); return length >= 0 ? length : -length;\<close>\<close>

definition range_length :: "range \<Rightarrow> nat" where
  "range_length r =
     (let len = wrap32 (int (r_end r) - int (r_start r)) in nat (if len \<ge> 0 then len else - len))"

definition range_is_reversed :: "range \<Rightarrow> bool" where
  "range_is_reversed r \<longleftrightarrow> r_start r > r_end r"

definition range_is_empty :: "range \<Rightarrow> bool" where
  "range_is_empty r \<longleftrightarrow> r_start r = r_end r"

definition range_GetMin :: "range \<Rightarrow> nat" where
  "range_GetMin r = min (r_start r) (r_end r)"

definition range_GetMax :: "range \<Rightarrow> nat" where
  "range_GetMax r = max (r_start r) (r_end r)"

definition range_EqualsIgnoringDirection :: "range \<Rightarrow> range \<Rightarrow> bool" where
  "range_EqualsIgnoringDirection r other \<longleftrightarrow>
     range_GetMin r = range_GetMin other \<and> range_GetMax r = range_GetMax other"

definition range_Intersects :: "range \<Rightarrow> range \<Rightarrow> bool" where
  "range_Intersects r other \<longleftrightarrow>
     range_IsValid r \<and> range_IsValid other \<and>
     \<not> (range_GetMax other < range_GetMin r \<or> range_GetMin other \<ge> range_GetMax r)"

definition range_Contains :: "range \<Rightarrow> range \<Rightarrow> bool" where
  "range_Contains r other \<longleftrightarrow>
     range_IsValid r \<and> range_IsValid other \<and>
     range_GetMin r \<le> range_GetMin other \<and> range_GetMax other \<le> range_GetMax r"

definition range_Intersect :: "range \<Rightarrow> range \<Rightarrow> range" where
  "range_Intersect r other =
     (let mn = max (range_GetMin r) (range_GetMin other);
          mx = min (range_GetMax r) (range_GetMax other)
      in if mn \<ge> mx then range_InvalidRange else mk_range mn mx)"

section \<open>Meaning\<close>

text \<open>The positions a range spans, whatever its direction.\<close>

definition range_span :: "range \<Rightarrow> nat set" where
  "range_span r = {i. range_GetMin r \<le> i \<and> i < range_GetMax r}"

lemma range_sel [simp]:
  "r_start (mk_range s e) = s" "r_end (mk_range s e) = e"
  "r_start (range_at p) = p" "r_end (range_at p) = p"
  by (simp_all add: mk_range_def range_at_def)

lemma mk_range_eq_iff [simp]: "mk_range a b = mk_range c d \<longleftrightarrow> a = c \<and> b = d"
  by (auto simp: mk_range_def)

lemma range_GetMin_mk [simp]: "range_GetMin (mk_range s e) = min s e"
  by (simp add: range_GetMin_def)

lemma range_GetMax_mk [simp]: "range_GetMax (mk_range s e) = max s e"
  by (simp add: range_GetMax_def)

lemma range_is_empty_simps [simp]:
  "range_is_empty (mk_range s e) \<longleftrightarrow> s = e" "range_is_empty (range_at p)"
  "range_is_empty range_InvalidRange"
  by (simp_all add: range_is_empty_def range_InvalidRange_def)

lemma range_is_reversed_mk [simp]: "range_is_reversed (mk_range s e) \<longleftrightarrow> s > e"
  by (simp add: range_is_reversed_def)

lemma range_invalid_sel [simp]:
  "r_start range_InvalidRange = size_t_max" "r_end range_InvalidRange = size_t_max"
  by (simp_all add: range_InvalidRange_def)

lemma range_not_IsValid [simp]: "\<not> range_IsValid range_InvalidRange"
  by (simp add: range_IsValid_def)

lemma range_IsValid_iff: "range_IsValid r \<longleftrightarrow> r_start r \<noteq> size_t_max \<or> r_end r \<noteq> size_t_max"
  by (cases r) (auto simp: range_IsValid_def range_InvalidRange_def range_at_def)

lemma range_nonempty_IsValid: "\<not> range_is_empty r \<Longrightarrow> range_IsValid r"
  by (auto simp: range_IsValid_iff range_is_empty_def)

lemmas range_defs [range_simps] =
  range_is_empty_def range_is_reversed_def range_GetMin_def range_GetMax_def range_IsValid_iff

lemma range_GetMin_le_GetMax: "range_GetMin r \<le> range_GetMax r"
  by (simp add: range_GetMin_def range_GetMax_def)

lemma range_length_spec:
  assumes "range_GetMax r - range_GetMin r < 2147483648"
  shows "range_length r = range_GetMax r - range_GetMin r"
proof (cases "r_start r \<le> r_end r")
  case True
  with assms have "int_ok (int (r_end r) - int (r_start r))"
    by (simp add: int_ok_def INT_MIN_def INT_MAX_def range_simps)
  with True show ?thesis
    by (simp add: range_length_def Let_def wrap32_id range_simps)
next
  case False
  with assms have "int_ok (int (r_end r) - int (r_start r))"
    by (simp add: int_ok_def INT_MIN_def INT_MAX_def range_simps)
  with False show ?thesis
    by (simp add: range_length_def Let_def wrap32_id range_simps)
qed

text \<open>\<open>Range::length()\<close> is the distance of the two positions whenever that distance is
  below \<open>2^31\<close>.\<close>

theorem range_length_exact:
  assumes "range_GetMax r - range_GetMin r < 2147483648"
  shows "range_length r = range_GetMax r - range_GetMin r"
  using assms by (rule range_length_spec)

theorem range_length_exact_witness: "range_length (mk_range 9 4) = 5"
  using range_length_exact [of "mk_range 9 4"] by simp

text \<open>From \<open>2^31\<close> on the detour through \<open>int\<close> loses the distance: a range of \<open>2^32\<close> positions
  reports length 0.\<close>

lemma range_length_truncates: "range_length (mk_range 0 4294967296) = 0"
  by (simp add: range_length_def Let_def wrap32_def)

text \<open>\<open>Range::Intersect\<close> spans exactly the positions both ranges span, is never reversed,
  and is invalid exactly when the two have no position in common.\<close>

theorem range_Intersect_span:
  "range_span (range_Intersect a b) = range_span a \<inter> range_span b \<and>
         \<not> range_is_reversed (range_Intersect a b) \<and>
         (\<not> range_IsValid (range_Intersect a b) \<longleftrightarrow> range_span a \<inter> range_span b = {})"
proof (cases "max (range_GetMin a) (range_GetMin b) \<ge> min (range_GetMax a) (range_GetMax b)")
  case True
  then have eq: "range_Intersect a b = range_InvalidRange"
    by (simp add: range_Intersect_def)
  have "i \<notin> range_span a \<inter> range_span b" for i
    using True by (auto simp: range_span_def)
  then have disj: "range_span a \<inter> range_span b = {}" by blast
  have "range_span range_InvalidRange = {}"
    by (simp add: range_span_def range_simps)
  with disj show ?thesis
    by (simp add: eq range_is_reversed_def)
next
  case False
  define m n where "m = max (range_GetMin a) (range_GetMin b)"
    and "n = min (range_GetMax a) (range_GetMax b)"
  from False have mn: "m < n" by (simp only: m_def n_def not_le)
  have eq: "range_Intersect a b = mk_range m n"
    using False by (simp add: range_Intersect_def m_def n_def)
  have span: "range_span (mk_range m n) = range_span a \<inter> range_span b"
    using mn by (auto simp: range_span_def m_def n_def)
  have "m \<in> range_span a \<inter> range_span b"
    using mn by (auto simp: range_span_def m_def n_def)
  then have "range_span a \<inter> range_span b \<noteq> {}" by blast
  moreover have "range_IsValid (mk_range m n)"
    using mn by (intro range_nonempty_IsValid) simp
  ultimately show ?thesis
    using span mn by (simp add: eq)
qed

text \<open>\<open>Range::Intersects\<close> compares one end with \<open><\<close> and the other with \<open>>=\<close>: two ranges that only
  touch intersect in one argument order and not in the other, and their \<open>Intersect\<close> is
  invalid.\<close>

lemma range_Intersects_touching:
  "range_Intersects (mk_range 5 8) (mk_range 2 5) \<and> \<not> range_Intersects (mk_range 2 5) (mk_range 5 8) \<and>
   \<not> range_IsValid (range_Intersect (mk_range 5 8) (mk_range 2 5))"
  by (simp add: range_Intersects_def range_Intersect_def range_simps size_t_max_def)

lemma range_Intersects_overlap:
  "range_IsValid (range_Intersect a b) \<Longrightarrow> range_Intersects a b"
proof -
  assume valid: "range_IsValid (range_Intersect a b)"
  then have lt: "max (range_GetMin a) (range_GetMin b) < min (range_GetMax a) (range_GetMax b)"
    by (auto simp: range_Intersect_def Let_def not_le [symmetric] split: if_splits)
  then have "range_GetMin a < range_GetMax a" and "range_GetMin b < range_GetMax b"
    by auto
  then have "range_IsValid a" and "range_IsValid b"
    by (auto simp: range_simps)
  with lt show "range_Intersects a b"
    by (auto simp: range_Intersects_def)
qed

lemma range_Contains_span:
  "range_Contains a b \<Longrightarrow> range_span b \<subseteq> range_span a"
  by (auto simp: range_Contains_def range_span_def)

end
