(* ===== verification/Style_Ranges.thy ===== *)
theory Style_Ranges
  imports Text_Range
begin

text \<open>
  The style ranges of a styled text (\<open>StyleRange\<close> and \<open>StyleRanges\<close> of
  \<open>src/ui/gfx/render_text.h\<close>, \<open>ApplyStyleRangeImpl\<close> and the style part of
  \<open>RenderText::SetText\<close> of \<open>render_text.cc\<close>). The vector is a list, the loop over an iterator a
  recursion that returns what is before and after the iterator. The loop's \<open>NOTREACHED\<close> branch
  does not advance the iterator, so in a release build it spins; the model returns \<open>None\<close> there.

  The invariant is the one \<open>CheckStyleRanges\<close> asserts in debug builds: the ranges are forward,
  not empty, and follow each other without gap up to the length of the text.
\<close>

record style_range =
  foreground :: "32 word"
  font_style :: int
  strike :: bool
  diagonal_strike :: bool
  underline :: bool
  sr_range :: range

definition style_default :: style_range where
  "style_default = \<lparr>foreground = 0xff000000, font_style = 0, strike = False,
     diagonal_strike = False, underline = False, sr_range = mk_range 0 0\<rparr>"

abbreviation sr_start :: "style_range \<Rightarrow> nat" where
  "sr_start s \<equiv> r_start (sr_range s)"

abbreviation sr_end :: "style_range \<Rightarrow> nat" where
  "sr_end s \<equiv> r_end (sr_range s)"

definition sr_set_start :: "nat \<Rightarrow> style_range \<Rightarrow> style_range" where
  "sr_set_start p s = s\<lparr>sr_range := (sr_range s)\<lparr>r_start := p\<rparr>\<rparr>"

definition sr_set_end :: "nat \<Rightarrow> style_range \<Rightarrow> style_range" where
  "sr_set_end p s = s\<lparr>sr_range := (sr_range s)\<lparr>r_end := p\<rparr>\<rparr>"

fun apply_style_loop ::
  "range \<Rightarrow> style_range list \<Rightarrow> (style_range list \<times> style_range list) option" where
  "apply_style_loop new [] = Some ([], [])"
| "apply_style_loop new (i # rest) =
     (if sr_end i < r_start new
      then map_option (\<lambda>(b, a). (i # b, a)) (apply_style_loop new rest)
      else if sr_start i = r_end new then Some ([], i # rest)
      else if range_Contains new (sr_range i) then apply_style_loop new rest
      else if sr_start i < r_start new \<and> sr_end i > r_end new
      then Some ([sr_set_end (r_start new) i], sr_set_start (r_end new) i # rest)
      else if sr_start i < r_start new
      then map_option (\<lambda>(b, a). (sr_set_end (r_start new) i # b, a)) (apply_style_loop new rest)
      else if sr_end i > r_end new then Some ([], sr_set_start (r_end new) i # rest)
      else None)"

definition ApplyStyleRangeImpl ::
  "style_range list \<Rightarrow> style_range \<Rightarrow> style_range list option" where
  "ApplyStyleRangeImpl style_ranges style =
     map_option (\<lambda>(b, a). b @ style # a) (apply_style_loop (sr_range style) style_ranges)"

text \<open>The style update of \<open>RenderText::SetText\<close>: \<open>old_len\<close> and \<open>len\<close> are the lengths of the text
  before and after. \<open>ApplyDefaultStyle\<close> is the range of the default style up to the new length.\<close>

definition default_ranges :: "style_range \<Rightarrow> nat \<Rightarrow> style_range list" where
  "default_ranges dflt len = [sr_set_end len dflt]"

definition set_back_end :: "nat \<Rightarrow> style_range list \<Rightarrow> style_range list" where
  "set_back_end len rs = butlast rs @ [sr_set_end len (last rs)]"

definition set_text_styles ::
  "style_range \<Rightarrow> nat \<Rightarrow> nat \<Rightarrow> style_range list \<Rightarrow> style_range list" where
  "set_text_styles dflt old_len len rs =
     (if len = 0 then []
      else if rs = [] then default_ranges dflt len
      else if len > old_len then set_back_end len rs
      else if len < old_len then set_back_end len (takeWhile (\<lambda>s. sr_start s < len) rs)
      else rs)"

section \<open>The invariant and the style of a position\<close>

fun contiguous :: "nat \<Rightarrow> style_range list \<Rightarrow> nat \<Rightarrow> bool" where
  "contiguous a [] b \<longleftrightarrow> a = b"
| "contiguous a (s # rs) b \<longleftrightarrow> sr_start s = a \<and> a < sr_end s \<and> contiguous (sr_end s) rs b"

definition CheckStyleRanges :: "style_range list \<Rightarrow> nat \<Rightarrow> bool" where
  "CheckStyleRanges rs len = contiguous 0 rs len"

definition attrs :: "style_range \<Rightarrow> style_range" where
  "attrs s = s\<lparr>sr_range := mk_range 0 0\<rparr>"

fun style_at :: "style_range list \<Rightarrow> nat \<Rightarrow> style_range option" where
  "style_at [] p = None"
| "style_at (s # rs) p = (if sr_start s \<le> p \<and> p < sr_end s then Some (attrs s) else style_at rs p)"

lemma sr_set_sel [simp]:
  "sr_start (sr_set_end p s) = sr_start s" "sr_end (sr_set_end p s) = p"
  "sr_start (sr_set_start p s) = p" "sr_end (sr_set_start p s) = sr_end s"
  "attrs (sr_set_end p s) = attrs s" "attrs (sr_set_start p s) = attrs s"
  by (simp_all add: sr_set_end_def sr_set_start_def attrs_def)

lemma contiguous_le: "contiguous a rs b \<Longrightarrow> a \<le> b"
  by (induction a rs b rule: contiguous.induct) auto

lemma contiguous_append:
  "contiguous a (xs @ ys) b \<longleftrightarrow> (\<exists>m. contiguous a xs m \<and> contiguous m ys b)"
  by (induction xs arbitrary: a) auto

lemma style_at_append:
  "style_at (xs @ ys) p = (case style_at xs p of None \<Rightarrow> style_at ys p | Some s \<Rightarrow> Some s)"
  by (induction xs) auto

lemma style_at_outside: "contiguous a rs b \<Longrightarrow> p < a \<or> b \<le> p \<Longrightarrow> style_at rs p = None"
proof (induction rs arbitrary: a)
  case Nil
  then show ?case by simp
next
  case (Cons s rs)
  then have "sr_end s \<le> b" by (auto dest: contiguous_le)
  with Cons show ?case by auto
qed

lemma style_at_inside: "contiguous a rs b \<Longrightarrow> a \<le> p \<Longrightarrow> p < b \<Longrightarrow> style_at rs p \<noteq> None"
  by (induction rs arbitrary: a) auto

lemma Contains_forward:
  "r_start new < r_end new \<Longrightarrow> r_start i < r_end i \<Longrightarrow>
   range_Contains new i \<longleftrightarrow> r_start new \<le> r_start i \<and> r_end i \<le> r_end new"
  by (auto simp: range_Contains_def range_simps)

section \<open>Applying a style\<close>

text \<open>The part of the loop past the start of the new range: nothing is kept before the iterator,
  and what is left starts where the new range ends.\<close>

lemma apply_style_loop_inside:
  assumes "r_start new < r_end new" and "contiguous a rs b" and "r_start new \<le> a"
    and "a \<le> r_end new" and "r_end new \<le> b"
  shows "\<exists>rest. apply_style_loop new rs = Some ([], rest) \<and> contiguous (r_end new) rest b \<and>
           (\<forall>p\<ge>r_end new. style_at rest p = style_at rs p)"
  using assms
proof (induction rs arbitrary: a)
  case Nil
  then show ?case by auto
next
  case (Cons s rs)
  note fwd = Contains_forward [OF Cons.prems(1)]
  have s: "sr_start s = a" "a < sr_end s" and rest: "contiguous (sr_end s) rs b"
    using Cons.prems(2) by auto
  consider (at_end) "a = r_end new" | (covered) "a < r_end new" "sr_end s \<le> r_end new"
    | (tail) "a < r_end new" "r_end new < sr_end s"
    using Cons.prems(4) by linarith
  then show ?case
  proof cases
    case at_end
    with Cons.prems s rest show ?thesis
      by (intro exI [of _ "s # rs"]) auto
  next
    case covered
    have "\<exists>rest. apply_style_loop new rs = Some ([], rest) \<and> contiguous (r_end new) rest b \<and>
           (\<forall>p\<ge>r_end new. style_at rest p = style_at rs p)"
      using Cons.prems s covered by (intro Cons.IH [OF Cons.prems(1) rest]) auto
    with covered s Cons.prems(3) show ?thesis
      by (auto simp: fwd)
  next
    case tail
    with Cons.prems s rest show ?thesis
      by (intro exI [of _ "sr_set_start (r_end new) s # rs"]) (auto simp: fwd)
  qed
qed

lemma apply_style_loop_spec:
  assumes "r_start new < r_end new" and "contiguous a rs b" and "a \<le> r_start new"
    and "r_end new \<le> b"
  shows "\<exists>before rest. apply_style_loop new rs = Some (before, rest) \<and>
           contiguous a before (r_start new) \<and> contiguous (r_end new) rest b \<and>
           (\<forall>p<r_start new. style_at before p = style_at rs p) \<and>
           (\<forall>p\<ge>r_end new. style_at rest p = style_at rs p)"
  using assms
proof (induction rs arbitrary: a)
  case Nil
  then show ?case by auto
next
  case (Cons s rs)
  note fwd = Contains_forward [OF Cons.prems(1)]
  have s: "sr_start s = a" "a < sr_end s" and rest: "contiguous (sr_end s) rs b"
    using Cons.prems(2) by auto
  consider (here) "a = r_start new" | (skip) "a < r_start new" "sr_end s \<le> r_start new"
    | (head) "a < r_start new" "r_start new < sr_end s" "sr_end s \<le> r_end new"
    | (split) "a < r_start new" "r_end new < sr_end s"
    using Cons.prems(3) by linarith
  then show ?case
  proof cases
    case here
    have "\<exists>rest. apply_style_loop new (s # rs) = Some ([], rest) \<and> contiguous (r_end new) rest b \<and>
           (\<forall>p\<ge>r_end new. style_at rest p = style_at (s # rs) p)"
      using Cons.prems here by (intro apply_style_loop_inside) auto
    moreover have "style_at (s # rs) p = None" if "p < r_start new" for p
      using Cons.prems(2) here that by (intro style_at_outside) auto
    ultimately show ?thesis
      using here by fastforce
  next
    case skip
    obtain bf rs' where ih: "apply_style_loop new rs = Some (bf, rs')"
      "contiguous (sr_end s) bf (r_start new)" "contiguous (r_end new) rs' b"
      "\<forall>p<r_start new. style_at bf p = style_at rs p"
      "\<forall>p\<ge>r_end new. style_at rs' p = style_at rs p"
      using Cons.IH [OF Cons.prems(1) rest skip(2) Cons.prems(4)] by blast
    have "sr_set_end (r_start new) s = s" if "sr_end s = r_start new"
      using that by (simp add: sr_set_end_def flip: that)
    with ih s skip Cons.prems(1) show ?thesis
      by (auto simp: fwd not_less intro!: exI [of _ "s # bf"])
  next
    case head
    obtain rs' where "apply_style_loop new rs = Some ([], rs')"
      "contiguous (r_end new) rs' b" "\<forall>p\<ge>r_end new. style_at rs' p = style_at rs p"
      using apply_style_loop_inside [OF Cons.prems(1) rest] head Cons.prems(4) by auto
    moreover have "style_at rs p = None" if "p < sr_end s" for p
      using rest that by (intro style_at_outside) auto
    ultimately show ?thesis
      using head s Cons.prems(1)
      by (auto simp: fwd intro!: exI [of _ "[sr_set_end (r_start new) s]"])
  next
    case split
    moreover have "style_at rs p = None" if "p < sr_end s" for p
      using rest that by (intro style_at_outside) auto
    ultimately show ?thesis
      using s rest Cons.prems(1)
      by (auto simp: fwd intro!: exI [of _ "[sr_set_end (r_start new) s]"]
          exI [of _ "sr_set_start (r_end new) s # rs"])
  qed
qed

lemma ApplyStyleRangeImpl_spec:
  assumes "CheckStyleRanges rs len" and "sr_start style < sr_end style" and "sr_end style \<le> len"
  shows "\<exists>rs'. ApplyStyleRangeImpl rs style = Some rs' \<and> CheckStyleRanges rs' len \<and>
           (\<forall>p<len. style_at rs' p =
              (if sr_start style \<le> p \<and> p < sr_end style then Some (attrs style) else style_at rs p))"
proof -
  obtain bf rest where loop: "apply_style_loop (sr_range style) rs = Some (bf, rest)"
    and bf: "contiguous 0 bf (sr_start style)" and rest: "contiguous (sr_end style) rest len"
    and old: "\<forall>p < sr_start style. style_at bf p = style_at rs p"
      "\<forall>p\<ge>sr_end style. style_at rest p = style_at rs p"
    using apply_style_loop_spec [OF assms(2) assms(1) [unfolded CheckStyleRanges_def] _ assms(3)]
    by auto
  have "contiguous 0 (bf @ style # rest) len"
    using bf rest assms(2) by (auto simp: contiguous_append)
  moreover have "style_at (bf @ style # rest) p =
      (if sr_start style \<le> p \<and> p < sr_end style then Some (attrs style) else style_at rs p)"
    if "p < len" for p
  proof (cases "p < sr_start style")
    case True
    with bf old style_at_inside [OF bf, of p] show ?thesis
      by (auto simp: style_at_append split: option.splits)
  next
    case False
    then have "style_at bf p = None"
      using bf by (intro style_at_outside) auto
    with False old show ?thesis
      by (auto simp: style_at_append)
  qed
  ultimately show ?thesis
    using loop by (auto simp: ApplyStyleRangeImpl_def CheckStyleRanges_def)
qed

text \<open>(C20) Applying a style to a non-empty forward range inside the text ends (the \<open>NOTREACHED\<close>
  branch is never taken), keeps the style ranges sorted, gap-free and covering the text, gives
  every position of the range the new style and leaves every other position its style.\<close>

theorem ApplyStyleRangeImpl_correct:
  assumes "CheckStyleRanges rs len" and "sr_start style < sr_end style" and "sr_end style \<le> len"
  shows "\<exists>rs'. ApplyStyleRangeImpl rs style = Some rs' \<and> CheckStyleRanges rs' len \<and>
           (\<forall>p<len. style_at rs' p =
              (if sr_start style \<le> p \<and> p < sr_end style then Some (attrs style) else style_at rs p))"
  using assms by (rule ApplyStyleRangeImpl_spec)

theorem ApplyStyleRangeImpl_correct_witness:
  "\<exists>rs'. ApplyStyleRangeImpl [sr_set_end 9 style_default]
           (style_default\<lparr>strike := True, sr_range := mk_range 3 5\<rparr>) = Some rs' \<and>
         CheckStyleRanges rs' 9"
  using ApplyStyleRangeImpl_correct [of "[sr_set_end 9 style_default]" 9
      "style_default\<lparr>strike := True, sr_range := mk_range 3 5\<rparr>"]
  by (auto simp: CheckStyleRanges_def style_default_def sr_set_end_def)

text \<open>An empty range at the end of the text, which the overtype caret of
  \<open>ApplyCompositionAndSelectionStyles\<close> passes when the cursor is at the end, adds an empty
  style range and breaks the invariant.\<close>

lemma ApplyStyleRangeImpl_empty_range:
  "\<exists>rs'. ApplyStyleRangeImpl [sr_set_end 9 style_default]
           (style_default\<lparr>sr_range := mk_range 9 9\<rparr>) = Some rs' \<and> \<not> CheckStyleRanges rs' 9"
  by (simp add: ApplyStyleRangeImpl_def CheckStyleRanges_def style_default_def sr_set_end_def
      range_Contains_def range_simps size_t_max_def)

section \<open>Changing the text\<close>

lemma contiguous_set_back_end:
  assumes "contiguous a rs b" and "rs \<noteq> []" and "b \<le> len"
  shows "contiguous a (set_back_end len rs) len \<and>
         (\<forall>p<b. style_at (set_back_end len rs) p = style_at rs p)"
proof -
  from assms(2) have split: "rs = butlast rs @ [last rs]" by simp
  with assms(1) obtain m where bl: "contiguous a (butlast rs) m"
    and l: "contiguous m [last rs] b"
    by (metis contiguous_append)
  then have "contiguous a (set_back_end len rs) len"
    using assms(3) by (auto simp: set_back_end_def contiguous_append)
  moreover have "style_at (set_back_end len rs) p = style_at rs p" if "p < b" for p
  proof -
    have eq: "style_at [sr_set_end len (last rs)] p = style_at [last rs] p"
      using l that assms(3) by auto
    show ?thesis
      by (subst (2) split) (simp only: set_back_end_def style_at_append eq)
  qed
  ultimately show ?thesis by blast
qed

lemma contiguous_trim:
  assumes "contiguous a rs b" and "a < len" and "len < b"
  shows "contiguous a (set_back_end len (takeWhile (\<lambda>s. sr_start s < len) rs)) len \<and>
         (\<forall>p<len. style_at (set_back_end len (takeWhile (\<lambda>s. sr_start s < len) rs)) p = style_at rs p)"
  using assms
proof (induction rs arbitrary: a)
  case Nil
  then show ?case by simp
next
  case (Cons s rs)
  have s: "sr_start s = a" "a < sr_end s" and rest: "contiguous (sr_end s) rs b"
    using Cons.prems(1) by auto
  show ?case
  proof (cases "sr_end s < len")
    case True
    have ih: "contiguous (sr_end s) (set_back_end len (takeWhile (\<lambda>s. sr_start s < len) rs)) len"
      "\<forall>p<len. style_at (set_back_end len (takeWhile (\<lambda>s. sr_start s < len) rs)) p = style_at rs p"
      using Cons.IH [OF rest True Cons.prems(3)] by blast+
    have "takeWhile (\<lambda>s. sr_start s < len) rs \<noteq> []"
      using rest True Cons.prems(3) by (cases rs) auto
    then have "set_back_end len (s # takeWhile (\<lambda>s. sr_start s < len) rs) =
        s # set_back_end len (takeWhile (\<lambda>s. sr_start s < len) rs)"
      by (simp add: set_back_end_def)
    with ih s Cons.prems(2) show ?thesis by simp
  next
    case False
    have "takeWhile (\<lambda>s. sr_start s < len) rs = []"
      using rest False by (cases rs) auto
    moreover have "style_at rs p = None" if "p < sr_end s" for p
      using rest that by (intro style_at_outside) auto
    ultimately show ?thesis
      using s False Cons.prems(2) by (auto simp: set_back_end_def)
  qed
qed

lemma set_text_styles_spec:
  assumes "CheckStyleRanges rs old_len" and "sr_start dflt = 0"
  shows "CheckStyleRanges (set_text_styles dflt old_len len rs) len"
    and "\<forall>p<min old_len len. style_at (set_text_styles dflt old_len len rs) p = style_at rs p"
proof -
  have empty: "rs = [] \<longleftrightarrow> old_len = 0"
    using assms(1) contiguous_le by (cases rs) (fastforce simp: CheckStyleRanges_def)+
  consider (clear) "len = 0" | (dflt) "len \<noteq> 0" "rs = []" | (grow) "rs \<noteq> []" "len > old_len"
    | (shrink) "len \<noteq> 0" "rs \<noteq> []" "len < old_len" | (same) "len \<noteq> 0" "rs \<noteq> []" "len = old_len"
    by linarith
  then have "CheckStyleRanges (set_text_styles dflt old_len len rs) len \<and>
    (\<forall>p<min old_len len. style_at (set_text_styles dflt old_len len rs) p = style_at rs p)"
  proof cases
    case clear
    then show ?thesis by (simp add: CheckStyleRanges_def set_text_styles_def)
  next
    case dflt
    with assms(2) empty show ?thesis
      by (simp add: CheckStyleRanges_def set_text_styles_def default_ranges_def)
  next
    case grow
    with assms(1) show ?thesis
      using contiguous_set_back_end [of 0 rs old_len len]
      by (simp add: CheckStyleRanges_def set_text_styles_def)
  next
    case shrink
    with assms(1) show ?thesis
      using contiguous_trim [of 0 rs old_len len]
      by (simp add: CheckStyleRanges_def set_text_styles_def)
  next
    case same
    with assms(1) show ?thesis
      by (simp add: CheckStyleRanges_def set_text_styles_def)
  qed
  then show "CheckStyleRanges (set_text_styles dflt old_len len rs) len"
    and "\<forall>p<min old_len len. style_at (set_text_styles dflt old_len len rs) p = style_at rs p"
    by blast+
qed

end
