(* ===== verification/Utf16_Indexing.thy ===== *)
theory Utf16_Indexing
  imports UI_Prelude
begin

unbundle bit_operations_syntax

text \<open>
  \<open>src/ui/base/text/utf16_indexing.cc\<close>: conversions between code unit indices of a UTF-16
  string and signed code point offsets. An index may be any position from 0 to the length
  inclusive; a valid index is one that does not point into the middle of a surrogate pair.
  The \<open>DCHECK\<close>s of the source are preconditions of the theorems; the release build clamps.
\<close>

definition CBU16_IS_LEAD :: "char16 \<Rightarrow> bool" where
  "CBU16_IS_LEAD c \<longleftrightarrow> c AND 0xfc00 = 0xd800"

definition CBU16_IS_TRAIL :: "char16 \<Rightarrow> bool" where
  "CBU16_IS_TRAIL c \<longleftrightarrow> c AND 0xfc00 = 0xdc00"

definition IsValidCodePointIndex :: "string16 \<Rightarrow> nat \<Rightarrow> bool" where
  "IsValidCodePointIndex s index \<longleftrightarrow>
     index = 0 \<or> index = length s \<or> \<not> (CBU16_IS_TRAIL (s ! index) \<and> CBU16_IS_LEAD (s ! (index - 1)))"

text \<open>\<open>while (base < pos) delta += IsValidCodePointIndex(s, base++) ? 1 : 0;\<close>\<close>

function count_valid :: "string16 \<Rightarrow> nat \<Rightarrow> nat \<Rightarrow> int" where
  "count_valid s base pos =
     (if base < pos
      then (if IsValidCodePointIndex s base then 1 else 0) + count_valid s (Suc base) pos
      else 0)"
  by pat_completeness auto
termination
  by (relation "measure (\<lambda>(s, base, pos). pos - base)") auto

declare count_valid.simps [simp del]

definition UTF16IndexToOffset :: "string16 \<Rightarrow> nat \<Rightarrow> nat \<Rightarrow> int" where
  "UTF16IndexToOffset s base pos =
     (let delta = count_valid s base pos; base' = max base pos
      in delta - count_valid s pos base')"

text \<open>The two loops of \<open>UTF16OffsetToIndex\<close>; each returns the position and the offset left.\<close>

function step_forward :: "string16 \<Rightarrow> nat \<Rightarrow> int \<Rightarrow> nat \<times> int" where
  "step_forward s pos offset =
     (if offset > 0 \<and> pos < length s
      then step_forward s (Suc pos) (offset - (if IsValidCodePointIndex s pos then 1 else 0))
      else (pos, offset))"
  by pat_completeness auto
termination
  by (relation "measure (\<lambda>(s, pos, offset). length s - pos)") auto

declare step_forward.simps [simp del]

fun step_back :: "string16 \<Rightarrow> nat \<Rightarrow> int \<Rightarrow> nat \<times> int" where
  "step_back s 0 offset = (0, offset)"
| "step_back s (Suc pos) offset =
     (if offset < 0
      then step_back s pos (offset + (if IsValidCodePointIndex s pos then 1 else 0))
      else (Suc pos, offset))"

definition UTF16OffsetToIndex :: "string16 \<Rightarrow> nat \<Rightarrow> int \<Rightarrow> nat" where
  "UTF16OffsetToIndex s base offset =
     (let (pos1, offset1) = step_forward s base offset;
          (pos, _) = step_back s pos1 offset1
      in if \<not> IsValidCodePointIndex s pos then Suc pos else pos)"

section \<open>Surrogate pairs\<close>

lemma lead_not_trail: "CBU16_IS_LEAD c \<Longrightarrow> \<not> CBU16_IS_TRAIL c"
  by (simp add: CBU16_IS_LEAD_def CBU16_IS_TRAIL_def)

lemma valid_0 [simp]: "IsValidCodePointIndex s 0"
  by (simp add: IsValidCodePointIndex_def)

lemma valid_length [simp]: "IsValidCodePointIndex s (length s)"
  by (simp add: IsValidCodePointIndex_def)

text \<open>An index in the middle of a pair has valid neighbours.\<close>

lemma invalid_Suc: "\<not> IsValidCodePointIndex s i \<Longrightarrow> IsValidCodePointIndex s (Suc i)"
  using lead_not_trail by (auto simp: IsValidCodePointIndex_def)

lemma count_valid_ge0: "0 \<le> count_valid s base pos"
  by (induction s base pos rule: count_valid.induct) (subst count_valid.simps, auto)

lemma count_valid_none [simp]: "pos \<le> base \<Longrightarrow> count_valid s base pos = 0"
  by (subst count_valid.simps) simp

lemma count_valid_step:
  "base < pos \<Longrightarrow> count_valid s base pos =
     (if IsValidCodePointIndex s base then 1 else 0) + count_valid s (Suc base) pos"
  by (subst count_valid.simps) simp

lemma count_valid_snoc:
  "base \<le> pos \<Longrightarrow> count_valid s base (Suc pos) =
     count_valid s base pos + (if IsValidCodePointIndex s pos then 1 else 0)"
proof (induction s base pos rule: count_valid.induct)
  case (1 s base pos)
  then show ?case
    by (cases "base < pos") (auto simp: count_valid_step)
qed

lemma count_valid_pos:
  "base < pos \<Longrightarrow> IsValidCodePointIndex s base \<Longrightarrow> 0 < count_valid s base pos"
  using count_valid_ge0 [of s "Suc base" pos] by (simp add: count_valid_step)

lemma step_back_nonneg [simp]: "offset \<ge> 0 \<Longrightarrow> step_back s pos offset = (pos, offset)"
  by (cases pos) auto

lemma step_forward_nonpos [simp]: "offset \<le> 0 \<Longrightarrow> step_forward s pos offset = (pos, offset)"
  by (subst step_forward.simps) simp

text \<open>Running forward by the number of valid indices below \<open>pos\<close> lands on \<open>pos\<close>, or just before
  it in the middle of a pair.\<close>

lemma step_forward_count:
  assumes "base \<le> pos" and "pos \<le> length s" and "IsValidCodePointIndex s pos"
  shows "\<exists>p. step_forward s base (count_valid s base pos) = (p, 0) \<and>
             (p = pos \<or> (Suc p = pos \<and> \<not> IsValidCodePointIndex s p))"
  using assms
proof (induction "pos - base" arbitrary: base)
  case 0
  then show ?case by simp
next
  case (Suc n)
  then have lt: "base < pos" by simp
  have ih: "\<exists>p. step_forward s (Suc base) (count_valid s (Suc base) pos) = (p, 0) \<and>
             (p = pos \<or> (Suc p = pos \<and> \<not> IsValidCodePointIndex s p))"
    using Suc lt by simp
  show ?case
  proof (cases "count_valid s base pos = 0")
    case True
    have nv: "\<not> IsValidCodePointIndex s base"
      using True lt count_valid_pos by fastforce
    have "Suc base = pos"
    proof (rule ccontr)
      assume "Suc base \<noteq> pos"
      with lt have "0 < count_valid s (Suc base) pos"
        by (intro count_valid_pos invalid_Suc nv) simp
      with True lt nv show False by (simp add: count_valid_step)
    qed
    with True nv show ?thesis by simp
  next
    case False
    then have "0 < count_valid s base pos"
      using count_valid_ge0 [of s base pos] by linarith
    then have "step_forward s base (count_valid s base pos) =
        step_forward s (Suc base) (count_valid s (Suc base) pos)"
      using lt Suc.prems by (subst step_forward.simps) (simp add: count_valid_step)
    with ih show ?thesis by simp
  qed
qed

lemma step_back_count:
  "pos < base \<Longrightarrow> IsValidCodePointIndex s pos \<Longrightarrow>
   step_back s base (- count_valid s pos base) = (pos, 0)"
proof (induction base)
  case 0
  then show ?case by simp
next
  case (Suc base)
  have "0 < count_valid s pos (Suc base)"
    using Suc.prems by (intro count_valid_pos)
  then have eq: "step_back s (Suc base) (- count_valid s pos (Suc base)) =
      step_back s base (- count_valid s pos base)"
    using Suc.prems by (simp add: count_valid_snoc)
  show ?case
  proof (cases "pos = base")
    case True
    then show ?thesis using eq by simp
  next
    case False
    with Suc have "step_back s base (- count_valid s pos base) = (pos, 0)" by simp
    with eq show ?thesis by argo
  qed
qed

text \<open>(C36) Round trip of the UTF-16 index conversions: from any base index, converting a valid
  index to a code point offset and the offset back gives the same index.\<close>

theorem utf16_index_roundtrip:
  assumes "pos \<le> length s" and "IsValidCodePointIndex s pos"
  shows "UTF16OffsetToIndex s base (UTF16IndexToOffset s base pos) = pos"
proof (cases "base \<le> pos")
  case True
  then have off: "UTF16IndexToOffset s base pos = count_valid s base pos"
    by (simp add: UTF16IndexToOffset_def Let_def)
  obtain p where "step_forward s base (count_valid s base pos) = (p, 0)"
    and "p = pos \<or> (Suc p = pos \<and> \<not> IsValidCodePointIndex s p)"
    using step_forward_count [OF True assms] by blast
  with assms show ?thesis
    by (auto simp: UTF16OffsetToIndex_def off)
next
  case False
  then have off: "UTF16IndexToOffset s base pos = - count_valid s pos base"
    by (simp add: UTF16IndexToOffset_def Let_def)
  have "step_back s base (- count_valid s pos base) = (pos, 0)"
    using False assms by (intro step_back_count) simp_all
  with assms show ?thesis
    using count_valid_ge0 [of s pos base]
    by (simp add: UTF16OffsetToIndex_def off)
qed

theorem utf16_index_roundtrip_witness:
  "UTF16OffsetToIndex [0x61, 0xd800, 0xdc00, 0x62] 4
     (UTF16IndexToOffset [0x61, 0xd800, 0xdc00, 0x62] 4 1) = 1"
  by (rule utf16_index_roundtrip) (simp_all add: IsValidCodePointIndex_def CBU16_IS_TRAIL_def)

lemma step_forward_bound: "pos \<le> length s \<Longrightarrow> step_forward s pos offset = (p, q) \<Longrightarrow> p \<le> length s"
proof (induction s pos offset rule: step_forward.induct)
  case (1 s pos offset)
  show ?case
  proof (cases "offset > 0 \<and> pos < length s")
    case True
    with "1" show ?thesis
      by (metis Suc_leI step_forward.simps)
  next
    case False
    with "1.prems" show ?thesis
      by (subst (asm) step_forward.simps) (simp split: if_splits)
  qed
qed

lemma step_back_bound: "step_back s pos offset = (p, q) \<Longrightarrow> p \<le> pos"
  by (induction s pos offset rule: step_back.induct) (fastforce split: if_splits)+

text \<open>\<open>UTF16OffsetToIndex\<close> always returns an index inside the string that is not in the
  middle of a surrogate pair, for every offset, also one that runs off either end.\<close>

theorem utf16_offset_index_valid:
  assumes "base \<le> length s"
  shows "UTF16OffsetToIndex s base offset \<le> length s \<and>
         IsValidCodePointIndex s (UTF16OffsetToIndex s base offset)"
proof -
  obtain p1 o1 where f: "step_forward s base offset = (p1, o1)" by force
  obtain p o2 where b: "step_back s p1 o1 = (p, o2)" by force
  have "p \<le> length s"
    using step_forward_bound [OF assms f] step_back_bound [OF b] by simp
  moreover have "p < length s" if "\<not> IsValidCodePointIndex s p"
    using that \<open>p \<le> length s\<close> by (metis le_neq_implies_less valid_length)
  ultimately show ?thesis
    by (auto simp: UTF16OffsetToIndex_def f b intro: invalid_Suc)
qed

theorem utf16_offset_index_valid_witness:
  "UTF16OffsetToIndex [0xd800, 0xdc00] 1 7 \<le> 2"
  using utf16_offset_index_valid [of 1 "[0xd800, 0xdc00]" 7] by simp

text \<open>Stepping back by one code point from a position that is not the start.\<close>

lemma step_back_one:
  "0 < pos \<Longrightarrow> \<exists>p. step_back s pos (-1) = (p, 0) \<and> p < pos \<and> IsValidCodePointIndex s p"
proof (induction pos)
  case 0
  then show ?case by simp
next
  case (Suc pos)
  show ?case
  proof (cases "IsValidCodePointIndex s pos")
    case True
    then show ?thesis by simp
  next
    case False
    then have "0 < pos" by (cases pos) auto
    with Suc.IH obtain p where "step_back s pos (-1) = (p, 0)" "p < pos" "IsValidCodePointIndex s p"
      by blast
    with False show ?thesis by auto
  qed
qed

lemma offset_back_one_less: "0 < pos \<Longrightarrow> UTF16OffsetToIndex s pos (-1) < pos"
  using step_back_one [of pos s] by (auto simp: UTF16OffsetToIndex_def)

lemma offset_back_one_valid: "0 < pos \<Longrightarrow> IsValidCodePointIndex s (UTF16OffsetToIndex s pos (-1))"
  using step_back_one [of pos s] by (auto simp: UTF16OffsetToIndex_def)

end
