(* ===== verification/Render_Text.thy ===== *)
theory Render_Text
  imports Geometry Style_Ranges Utf16_Indexing
begin

text \<open>
  The abstract text model \<open>gfx::RenderText\<close> (\<open>src/ui/gfx/render_text.h\<close>, \<open>render_text.cc\<close>) and its
  \<open>SelectionModel\<close> (\<open>selection_model.h\<close>, \<open>selection_model.cc\<close>): the text, its styles, the selection
  with its caret, the composition range, and the panning that keeps the caret visible.

  The pure virtual methods (glyph bounds, cursor positions, text direction, visual neighbours),
  implemented per platform over Pango or Uniscribe, and the ICU word break iterator are the
  fields of \<open>platform\<close>: arguments of the definitions that call them. Fonts, colours,
  shadows, fading and drawing are left out. A failed \<open>CHECK\<close> is \<open>None\<close>.
\<close>

section \<open>Selection model\<close>

datatype VisualCursorDirection = CURSOR_LEFT | CURSOR_RIGHT
datatype LogicalCursorDirection = CURSOR_BACKWARD | CURSOR_FORWARD
datatype BreakType = CHARACTER_BREAK | WORD_BREAK | LINE_BREAK
datatype HorizontalAlignment = ALIGN_LEFT | ALIGN_CENTER | ALIGN_RIGHT
datatype TextDirection = UNKNOWN_DIRECTION | RIGHT_TO_LEFT | LEFT_TO_RIGHT

record selection_model =
  sm_selection :: range
  caret_affinity :: LogicalCursorDirection

definition sm_default :: selection_model where
  "sm_default = \<lparr>sm_selection = range_at 0, caret_affinity = CURSOR_BACKWARD\<rparr>"

definition mk_selection :: "range \<Rightarrow> LogicalCursorDirection \<Rightarrow> selection_model" where
  "mk_selection sel aff = \<lparr>sm_selection = sel, caret_affinity = aff\<rparr>"

definition mk_caret :: "nat \<Rightarrow> LogicalCursorDirection \<Rightarrow> selection_model" where
  "mk_caret pos aff = \<lparr>sm_selection = range_at pos, caret_affinity = aff\<rparr>"

definition caret_pos :: "selection_model \<Rightarrow> nat" where
  "caret_pos m = r_end (sm_selection m)"

definition set_selection_start :: "nat \<Rightarrow> selection_model \<Rightarrow> selection_model" where
  "set_selection_start p m = m\<lparr>sm_selection := (sm_selection m)\<lparr>r_start := p\<rparr>\<rparr>"

section \<open>State and platform\<close>

record render_text =
  rt_text :: string16
  rt_horizontal_alignment :: HorizontalAlignment
  rt_selection_model :: selection_model
  rt_cursor_bounds :: rect
  rt_cursor_enabled :: bool
  rt_cursor_visible :: bool
  rt_insert_mode :: bool
  rt_selection_color :: "32 word"
  rt_focused :: bool
  rt_composition_range :: range
  rt_style_ranges :: "style_range list"
  rt_default_style :: style_range
  rt_obscured :: bool
  rt_display_rect :: rect
  rt_display_offset :: point
  rt_cached_valid :: bool

record 'r platform =
  IsCursorablePosition :: "'r \<Rightarrow> nat \<Rightarrow> bool"
  GetTextDirection :: "'r \<Rightarrow> TextDirection"
  GetStringSize :: "'r \<Rightarrow> size2"
  FindCursorPosition :: "'r \<Rightarrow> point \<Rightarrow> selection_model"
  AdjacentCharSelectionModel :: "'r \<Rightarrow> selection_model \<Rightarrow> VisualCursorDirection \<Rightarrow> selection_model"
  AdjacentWordSelectionModel :: "'r \<Rightarrow> selection_model \<Rightarrow> VisualCursorDirection \<Rightarrow> selection_model"
  GetGlyphBounds :: "'r \<Rightarrow> nat \<Rightarrow> range \<times> int"
  BreakIterator_Init :: "string16 \<Rightarrow> bool"
  IsStartOfWord :: "string16 \<Rightarrow> nat \<Rightarrow> bool"
  IsEndOfWord :: "string16 \<Rightarrow> nat \<Rightarrow> bool"

type_synonym rt_platform = "render_text platform"

text \<open>The constructor; \<open>is_rtl\<close> is \<open>base::i18n::IsRTL()\<close>.\<close>

definition rt_init :: "bool \<Rightarrow> render_text" where
  "rt_init is_rtl =
     \<lparr>rt_text = [], rt_horizontal_alignment = (if is_rtl then ALIGN_RIGHT else ALIGN_LEFT),
      rt_selection_model = sm_default, rt_cursor_bounds = rect_default, rt_cursor_enabled = True,
      rt_cursor_visible = False, rt_insert_mode = True, rt_selection_color = 0xff000000,
      rt_focused = False, rt_composition_range = range_InvalidRange, rt_style_ranges = [],
      rt_default_style = style_default, rt_obscured = False, rt_display_rect = rect_default,
      rt_display_offset = point_default, rt_cached_valid = False\<rparr>"

definition rt_selection :: "render_text \<Rightarrow> range" where
  "rt_selection r = sm_selection (rt_selection_model r)"

definition rt_cursor_position :: "render_text \<Rightarrow> nat" where
  "rt_cursor_position r = caret_pos (rt_selection_model r)"

section \<open>Text and properties\<close>

definition rt_SetSelectionModel :: "selection_model \<Rightarrow> render_text \<Rightarrow> render_text" where
  "rt_SetSelectionModel m r = r\<lparr>rt_selection_model := m, rt_cached_valid := False\<rparr>"

definition rt_SetText :: "string16 \<Rightarrow> render_text \<Rightarrow> render_text" where
  "rt_SetText t r =
     (let old_text_length = length (rt_text r);
          r1 = r\<lparr>rt_text := t,
                 rt_style_ranges := set_text_styles (rt_default_style r) old_text_length (length t)
                                      (rt_style_ranges r),
                 rt_cached_valid := False\<rparr>
      in rt_SetSelectionModel sm_default r1)"

definition rt_SetHorizontalAlignment :: "HorizontalAlignment \<Rightarrow> render_text \<Rightarrow> render_text" where
  "rt_SetHorizontalAlignment a r =
     (if rt_horizontal_alignment r \<noteq> a
      then r\<lparr>rt_horizontal_alignment := a, rt_display_offset := point_default,
             rt_cached_valid := False\<rparr>
      else r)"

definition rt_SetCursorEnabled :: "bool \<Rightarrow> render_text \<Rightarrow> render_text" where
  "rt_SetCursorEnabled b r = r\<lparr>rt_cursor_enabled := b, rt_cached_valid := False\<rparr>"

definition rt_ToggleInsertMode :: "render_text \<Rightarrow> render_text" where
  "rt_ToggleInsertMode r = r\<lparr>rt_insert_mode := \<not> rt_insert_mode r, rt_cached_valid := False\<rparr>"

definition rt_SetObscured :: "bool \<Rightarrow> render_text \<Rightarrow> render_text" where
  "rt_SetObscured b r =
     (if b \<noteq> rt_obscured r then r\<lparr>rt_obscured := b, rt_cached_valid := False\<rparr> else r)"

definition rt_SetDisplayRect :: "rect \<Rightarrow> render_text \<Rightarrow> render_text" where
  "rt_SetDisplayRect d r = r\<lparr>rt_display_rect := d, rt_cached_valid := False\<rparr>"

section \<open>Caret and selection\<close>

definition rt_MoveCursorTo_pos :: "rt_platform \<Rightarrow> nat \<Rightarrow> bool \<Rightarrow> render_text \<Rightarrow> render_text" where
  "rt_MoveCursorTo_pos pf position select r =
     (let cursor = min position (length (rt_text r))
      in if IsCursorablePosition pf r cursor
         then rt_SetSelectionModel
                (mk_selection (mk_range (if select then r_start (rt_selection r) else cursor) cursor)
                  (if cursor = 0 then CURSOR_FORWARD else CURSOR_BACKWARD)) r
         else r)"

definition rt_SetCursorPosition :: "rt_platform \<Rightarrow> nat \<Rightarrow> render_text \<Rightarrow> render_text" where
  "rt_SetCursorPosition pf position r = rt_MoveCursorTo_pos pf position False r"

definition rt_MoveCursorTo ::
  "rt_platform \<Rightarrow> selection_model \<Rightarrow> render_text \<Rightarrow> render_text \<times> bool" where
  "rt_MoveCursorTo pf model r =
     (let text_length = length (rt_text r);
          rng = mk_range (min (r_start (sm_selection model)) text_length)
                         (min (caret_pos model) text_length)
      in if \<not> IsCursorablePosition pf r (r_start rng) \<or> \<not> IsCursorablePosition pf r (r_end rng)
         then (r, False)
         else let sel = mk_selection rng (caret_affinity model)
              in (rt_SetSelectionModel sel r, sel \<noteq> rt_selection_model r))"

definition rt_MoveCursorTo_point ::
  "rt_platform \<Rightarrow> point \<Rightarrow> bool \<Rightarrow> render_text \<Rightarrow> render_text \<times> bool" where
  "rt_MoveCursorTo_point pf pt select r =
     (let position = FindCursorPosition pf r pt;
          position' = (if select then set_selection_start (r_start (rt_selection r)) position
                       else position)
      in rt_MoveCursorTo pf position' r)"

definition rt_SelectRange :: "rt_platform \<Rightarrow> range \<Rightarrow> render_text \<Rightarrow> render_text \<times> bool" where
  "rt_SelectRange pf rng r =
     (let sel = mk_range (min (r_start rng) (length (rt_text r)))
                         (min (r_end rng) (length (rt_text r)))
      in if \<not> IsCursorablePosition pf r (r_start sel) \<or> \<not> IsCursorablePosition pf r (r_end sel)
         then (r, False)
         else (rt_SetSelectionModel
                 (mk_selection sel (if range_is_reversed sel \<or> range_is_empty sel
                                    then CURSOR_FORWARD else CURSOR_BACKWARD)) r, True))"

text \<open>\<open>RangeContainsCaret\<close> relies on the wrap-around of \<open>size_t\<close>.\<close>

definition rt_RangeContainsCaret :: "range \<Rightarrow> nat \<Rightarrow> LogicalCursorDirection \<Rightarrow> bool" where
  "rt_RangeContainsCaret rng pos aff =
     (let adjacent = (if aff = CURSOR_BACKWARD then (pos + size_t_max) mod (size_t_max + 1)
                      else (pos + 1) mod (size_t_max + 1))
      in range_Contains rng (mk_range pos adjacent))"

definition rt_IsPointInSelection :: "rt_platform \<Rightarrow> point \<Rightarrow> render_text \<Rightarrow> bool" where
  "rt_IsPointInSelection pf pt r =
     (if range_is_empty (rt_selection r) then False
      else let cursor = FindCursorPosition pf r pt
           in rt_RangeContainsCaret (rt_selection r) (caret_pos cursor) (caret_affinity cursor))"

definition rt_ClearSelection :: "render_text \<Rightarrow> render_text" where
  "rt_ClearSelection r =
     rt_SetSelectionModel
       (mk_caret (rt_cursor_position r) (caret_affinity (rt_selection_model r))) r"

definition rt_SelectAll :: "rt_platform \<Rightarrow> render_text \<Rightarrow> render_text" where
  "rt_SelectAll pf r =
     rt_SetSelectionModel
       (if GetTextDirection pf r = LEFT_TO_RIGHT
        then mk_selection (mk_range 0 (length (rt_text r))) CURSOR_FORWARD
        else mk_selection (mk_range (length (rt_text r)) 0) CURSOR_BACKWARD) r"

text \<open>The two loops of \<open>SelectWord\<close>.\<close>

fun word_start_loop :: "(nat \<Rightarrow> bool) \<Rightarrow> nat \<Rightarrow> nat" where
  "word_start_loop boundary 0 = 0"
| "word_start_loop boundary (Suc i) =
     (if boundary (Suc i) then Suc i else word_start_loop boundary i)"

function word_end_loop :: "(nat \<Rightarrow> bool) \<Rightarrow> nat \<Rightarrow> nat \<Rightarrow> nat" where
  "word_end_loop boundary len i =
     (if i < len \<and> \<not> boundary i then word_end_loop boundary len (Suc i) else i)"
  by pat_completeness auto
termination
  by (relation "measure (\<lambda>(b, len, i). len - i)") auto

declare word_end_loop.simps [simp del]

definition rt_SelectWord :: "rt_platform \<Rightarrow> render_text \<Rightarrow> render_text" where
  "rt_SelectWord pf r =
     (if rt_obscured r then rt_SelectAll pf r
      else let cursor_pos = rt_cursor_position r; t = rt_text r;
               boundary = (\<lambda>i. IsStartOfWord pf t i \<or> IsEndOfWord pf t i)
           in if \<not> BreakIterator_Init pf t then r
              else let selection_start = word_start_loop boundary cursor_pos;
                       from = (if selection_start = cursor_pos then cursor_pos + 1 else cursor_pos);
                       to = word_end_loop boundary (length t) from
                   in rt_MoveCursorTo_pos pf to True (rt_MoveCursorTo_pos pf selection_start False r))"

section \<open>Composition and styles\<close>

definition rt_SetCompositionRange :: "range \<Rightarrow> render_text \<Rightarrow> render_text option" where
  "rt_SetCompositionRange crange r =
     (if \<not> range_IsValid crange \<or> range_Contains (mk_range 0 (length (rt_text r))) crange
      then Some (r\<lparr>rt_composition_range := crange\<rparr>) else None)"

definition rt_ApplyStyleRange :: "style_range \<Rightarrow> render_text \<Rightarrow> render_text option" where
  "rt_ApplyStyleRange style r =
     (let new_range = sr_range style
      in if \<not> range_IsValid new_range \<or> range_is_empty new_range then Some r
         else if range_is_reversed new_range then None
         else if \<not> range_Contains (mk_range 0 (length (rt_text r))) new_range then None
         else map_option (\<lambda>rs. r\<lparr>rt_style_ranges := rs, rt_cached_valid := False\<rparr>)
                (ApplyStyleRangeImpl (rt_style_ranges r) style))"

definition rt_ApplyDefaultStyle :: "render_text \<Rightarrow> render_text" where
  "rt_ApplyDefaultStyle r =
     r\<lparr>rt_style_ranges := default_ranges (rt_default_style r) (length (rt_text r)),
       rt_cached_valid := False\<rparr>"

definition rt_GetDisplayText :: "render_text \<Rightarrow> string16" where
  "rt_GetDisplayText r =
     (if \<not> rt_obscured r then rt_text r
      else replicate (nat (UTF16IndexToOffset (rt_text r) 0 (length (rt_text r)))) 42)"

section \<open>Visual movement\<close>

definition rt_GetVisualDirectionOfLogicalEnd ::
  "rt_platform \<Rightarrow> render_text \<Rightarrow> VisualCursorDirection" where
  "rt_GetVisualDirectionOfLogicalEnd pf r =
     (if GetTextDirection pf r = LEFT_TO_RIGHT then CURSOR_RIGHT else CURSOR_LEFT)"

text \<open>The loops of \<open>IndexOfAdjacentGrapheme\<close>.\<close>

function grapheme_forward :: "(nat \<Rightarrow> bool) \<Rightarrow> nat \<Rightarrow> nat \<Rightarrow> nat" where
  "grapheme_forward cursorable len index =
     (if index < len
      then if cursorable (Suc index) then Suc index else grapheme_forward cursorable len (Suc index)
      else len)"
  by pat_completeness auto
termination
  by (relation "measure (\<lambda>(c, len, index). len - index)") auto

declare grapheme_forward.simps [simp del]

fun grapheme_backward :: "(nat \<Rightarrow> bool) \<Rightarrow> nat \<Rightarrow> nat" where
  "grapheme_backward cursorable 0 = 0"
| "grapheme_backward cursorable (Suc index) =
     (if cursorable index then index else grapheme_backward cursorable index)"

definition rt_IndexOfAdjacentGrapheme ::
  "rt_platform \<Rightarrow> nat \<Rightarrow> LogicalCursorDirection \<Rightarrow> render_text \<Rightarrow> nat" where
  "rt_IndexOfAdjacentGrapheme pf index direction r =
     (if index > length (rt_text r) then length (rt_text r)
      else if direction = CURSOR_FORWARD
      then grapheme_forward (IsCursorablePosition pf r) (length (rt_text r)) index
      else grapheme_backward (IsCursorablePosition pf r) index)"

definition rt_ApplyCompositionAndSelectionStyles ::
  "rt_platform \<Rightarrow> render_text \<Rightarrow> style_range list \<Rightarrow> style_range list option" where
  "rt_ApplyCompositionAndSelectionStyles pf r styles = do {
     s1 \<leftarrow> (if range_IsValid (rt_composition_range r) \<and> \<not> range_is_empty (rt_composition_range r)
            then ApplyStyleRangeImpl styles
                   ((rt_default_style r)\<lparr>underline := True, sr_range := rt_composition_range r\<rparr>)
            else Some styles);
     s2 \<leftarrow> (if \<not> range_is_empty (rt_selection r)
            then ApplyStyleRangeImpl s1
                   ((rt_default_style r)\<lparr>foreground := rt_selection_color r,
                      sr_range := mk_range (range_GetMin (rt_selection r))
                                           (range_GetMax (rt_selection r))\<rparr>)
            else Some s1);
     if \<not> rt_insert_mode r \<and> rt_cursor_visible r \<and> rt_focused r
     then let cursor = rt_cursor_position r
          in ApplyStyleRangeImpl s2
               ((rt_default_style r)\<lparr>foreground := rt_selection_color r,
                  sr_range := mk_range cursor (rt_IndexOfAdjacentGrapheme pf cursor CURSOR_FORWARD r)\<rparr>)
     else Some s2
   }"

definition rt_GetSelectionModelForSelectionStart :: "render_text \<Rightarrow> selection_model" where
  "rt_GetSelectionModelForSelectionStart r =
     (let sel = rt_selection r
      in if range_is_empty sel then rt_selection_model r
         else mk_caret (r_start sel)
                (if range_is_reversed sel then CURSOR_BACKWARD else CURSOR_FORWARD))"

definition rt_EdgeSelectionModel ::
  "rt_platform \<Rightarrow> VisualCursorDirection \<Rightarrow> render_text \<Rightarrow> selection_model" where
  "rt_EdgeSelectionModel pf direction r =
     (if direction = rt_GetVisualDirectionOfLogicalEnd pf r
      then mk_caret (length (rt_text r)) CURSOR_FORWARD
      else mk_caret 0 CURSOR_BACKWARD)"

definition rt_GetAdjacentSelectionModel ::
  "rt_platform \<Rightarrow> selection_model \<Rightarrow> BreakType \<Rightarrow> VisualCursorDirection \<Rightarrow> render_text \<Rightarrow> selection_model" where
  "rt_GetAdjacentSelectionModel pf current break_type direction r =
     (if break_type = LINE_BREAK \<or> rt_text r = [] then rt_EdgeSelectionModel pf direction r
      else if break_type = CHARACTER_BREAK then AdjacentCharSelectionModel pf r current direction
      else AdjacentWordSelectionModel pf r current direction)"

section \<open>Caret bounds and panning\<close>

definition rt_GetContentWidth :: "rt_platform \<Rightarrow> render_text \<Rightarrow> int" where
  "rt_GetContentWidth pf r =
     sz_width (GetStringSize pf r) + (if rt_cursor_enabled r then 1 else 0)"

definition rt_GetAlignmentOffset :: "rt_platform \<Rightarrow> render_text \<Rightarrow> point" where
  "rt_GetAlignmentOffset pf r =
     (if rt_horizontal_alignment r \<noteq> ALIGN_LEFT
      then let x_offset = rect_width (rt_display_rect r) - rt_GetContentWidth pf r
           in Point (if rt_horizontal_alignment r = ALIGN_CENTER then x_offset sdiv 2 else x_offset) 0
      else point_default)"

text \<open>\<open>GetTextOrigin\<close> once the cached offset is valid, the coordinate maps, and the caret rectangle
  of \<open>GetCursorBounds\<close> on top of it.\<close>

definition rt_text_origin :: "rt_platform \<Rightarrow> render_text \<Rightarrow> point" where
  "rt_text_origin pf r =
     point_Add (point_Add (rc_origin (rt_display_rect r)) (rt_display_offset r))
       (rt_GetAlignmentOffset pf r)"

definition rt_caret_rect ::
  "rt_platform \<Rightarrow> selection_model \<Rightarrow> bool \<Rightarrow> render_text \<Rightarrow> rect" where
  "rt_caret_rect pf caret insert_mode r =
     (let pos = caret_pos caret;
          aff = (if insert_mode then caret_affinity caret else CURSOR_FORWARD);
          (x, width, height) =
            (if pos = (if aff = CURSOR_BACKWARD then 0 else length (rt_text r))
             then let sz = GetStringSize pf r
                  in ((if (GetTextDirection pf r = RIGHT_TO_LEFT) = (pos = 0) then sz_width sz else 0),
                      0, sz_height sz)
             else let grapheme_start =
                        (if aff = CURSOR_FORWARD then pos
                         else rt_IndexOfAdjacentGrapheme pf pos CURSOR_BACKWARD r);
                      (xspan, h) = GetGlyphBounds pf r grapheme_start
                  in if insert_mode
                     then (int (if aff = CURSOR_BACKWARD then r_end xspan else r_start xspan), 0, h)
                     else (int (range_GetMin xspan), int (range_length xspan), h));
          height' = min height (rect_height (rt_display_rect r));
          y = (rect_height (rt_display_rect r) - height') sdiv 2
      in \<lparr>rc_origin = point_Add (Point x y) (rt_text_origin pf r), rc_size = mk_size width height'\<rparr>)"

definition rt_UpdateCachedBoundsAndOffset :: "rt_platform \<Rightarrow> render_text \<Rightarrow> render_text" where
  "rt_UpdateCachedBoundsAndOffset pf r =
     (if rt_cached_valid r then r
      else let r1 = r\<lparr>rt_cached_valid := True\<rparr>;
               bounds = rt_caret_rect pf (rt_selection_model r1) (rt_insert_mode r1) r1;
               display = rt_display_rect r1;
               display_width = rect_width display;
               content_width = rt_GetContentWidth pf r1;
               off = pt_x (rt_display_offset r1);
               delta_offset =
                 (if content_width \<le> display_width \<or> \<not> rt_cursor_enabled r1 then - off
                  else if rect_right bounds \<ge> rect_right display
                  then rect_right display - rect_right bounds - 1
                  else if rect_x bounds < rect_x display then rect_x display - rect_x bounds
                  else if off \<noteq> 0
                  then let negate_rtl = (if rt_horizontal_alignment r1 = ALIGN_RIGHT then -1 else 1);
                           offset = negate_rtl * off
                       in if display_width > content_width + offset
                          then negate_rtl * (display_width - (content_width + offset)) else 0
                  else 0)
           in r1\<lparr>rt_display_offset := point_Offset delta_offset 0 (rt_display_offset r1),
                 rt_cursor_bounds := rect_Offset delta_offset 0 bounds\<rparr>)"

definition rt_GetUpdatedCursorBounds :: "rt_platform \<Rightarrow> render_text \<Rightarrow> rect \<times> render_text" where
  "rt_GetUpdatedCursorBounds pf r =
     (let r' = rt_UpdateCachedBoundsAndOffset pf r in (rt_cursor_bounds r', r'))"

definition rt_GetTextOrigin :: "rt_platform \<Rightarrow> render_text \<Rightarrow> point \<times> render_text" where
  "rt_GetTextOrigin pf r =
     (let r' = rt_UpdateCachedBoundsAndOffset pf r in (rt_text_origin pf r', r'))"

definition rt_ToTextPoint :: "rt_platform \<Rightarrow> point \<Rightarrow> render_text \<Rightarrow> point \<times> render_text" where
  "rt_ToTextPoint pf pt r = (let (orig, r') = rt_GetTextOrigin pf r in (point_Subtract pt orig, r'))"

definition rt_ToViewPoint :: "rt_platform \<Rightarrow> point \<Rightarrow> render_text \<Rightarrow> point \<times> render_text" where
  "rt_ToViewPoint pf pt r = (let (orig, r') = rt_GetTextOrigin pf r in (point_Add pt orig, r'))"

definition rt_GetCursorBounds ::
  "rt_platform \<Rightarrow> selection_model \<Rightarrow> bool \<Rightarrow> render_text \<Rightarrow> rect \<times> render_text" where
  "rt_GetCursorBounds pf caret insert_mode r =
     (let r' = rt_UpdateCachedBoundsAndOffset pf r in (rt_caret_rect pf caret insert_mode r', r'))"

definition rt_GetOriginForDrawing :: "rt_platform \<Rightarrow> render_text \<Rightarrow> point \<times> render_text" where
  "rt_GetOriginForDrawing pf r =
     (let (orig, r') = rt_GetTextOrigin pf r; height = sz_height (GetStringSize pf r')
      in (point_Offset 0 ((rect_height (rt_display_rect r') - height) sdiv 2) orig, r'))"

definition rt_MoveCursor ::
  "rt_platform \<Rightarrow> BreakType \<Rightarrow> VisualCursorDirection \<Rightarrow> bool \<Rightarrow> render_text \<Rightarrow> render_text" where
  "rt_MoveCursor pf break_type direction select r =
     (let position = mk_caret (rt_cursor_position r) (caret_affinity (rt_selection_model r));
          (position1, r1) =
            (if break_type \<noteq> LINE_BREAK \<and> \<not> range_is_empty (rt_selection r) \<and> \<not> select
             then let selection_start = rt_GetSelectionModelForSelectionStart r;
                      (start_bounds, ra) = rt_GetCursorBounds pf selection_start True r;
                      (cursor_bounds, rb) = rt_GetCursorBounds pf position True ra;
                      start_x = rect_x start_bounds; cursor_x = rect_x cursor_bounds;
                      pos' = (if (if direction = CURSOR_RIGHT then start_x > cursor_x
                                  else start_x < cursor_x)
                              then selection_start else position)
                  in (if break_type = WORD_BREAK
                      then rt_GetAdjacentSelectionModel pf pos' break_type direction rb else pos', rb)
             else (rt_GetAdjacentSelectionModel pf position break_type direction r, r));
          position2 = (if select then set_selection_start (r_start (rt_selection r1)) position1
                       else position1)
      in fst (rt_MoveCursorTo pf position2 r1))"

section \<open>Invariant and frame\<close>

text \<open>The caret and the selection are inside the text, a valid composition range is inside the
  text, and the style ranges partition it.\<close>

definition rt_ok :: "render_text \<Rightarrow> bool" where
  "rt_ok r \<longleftrightarrow>
     range_GetMax (rt_selection r) \<le> length (rt_text r) \<and>
     (range_IsValid (rt_composition_range r) \<longrightarrow>
        range_GetMax (rt_composition_range r) \<le> length (rt_text r)) \<and>
     CheckStyleRanges (rt_style_ranges r) (length (rt_text r)) \<and>
     sr_start (rt_default_style r) = 0"

text \<open>What the operations on caret, selection and panning leave alone.\<close>

definition rt_same_text :: "render_text \<Rightarrow> render_text \<Rightarrow> bool" where
  "rt_same_text r r' \<longleftrightarrow>
     rt_text r' = rt_text r \<and> rt_composition_range r' = rt_composition_range r \<and>
     rt_style_ranges r' = rt_style_ranges r \<and> rt_default_style r' = rt_default_style r \<and>
     rt_obscured r' = rt_obscured r"

text \<open>A step that keeps the text and leaves the selection inside it.\<close>

definition rt_moves :: "render_text \<Rightarrow> render_text \<Rightarrow> bool" where
  "rt_moves r r' \<longleftrightarrow> rt_same_text r r' \<and>
     (range_GetMax (rt_selection r) \<le> length (rt_text r) \<longrightarrow>
      range_GetMax (rt_selection r') \<le> length (rt_text r))"

lemma rt_moves_refl [simp]: "rt_moves r r"
  by (simp add: rt_moves_def rt_same_text_def)

lemma rt_moves_trans: "rt_moves a b \<Longrightarrow> rt_moves b c \<Longrightarrow> rt_moves a c"
  by (simp add: rt_moves_def rt_same_text_def)

lemma rt_moves_text: "rt_moves r r' \<Longrightarrow> rt_text r' = rt_text r"
  by (simp add: rt_moves_def rt_same_text_def)

lemma rt_moves_comp: "rt_moves r r' \<Longrightarrow> rt_composition_range r' = rt_composition_range r"
  by (simp add: rt_moves_def rt_same_text_def)

lemma rt_moves_ok: "rt_moves r r' \<Longrightarrow> rt_ok r \<Longrightarrow> rt_ok r'"
  by (auto simp: rt_moves_def rt_same_text_def rt_ok_def)

lemma SetSelectionModel_sel [simp]:
  "rt_selection_model (rt_SetSelectionModel m r) = m"
  "rt_selection (rt_SetSelectionModel m r) = sm_selection m"
  "rt_text (rt_SetSelectionModel m r) = rt_text r"
  "rt_composition_range (rt_SetSelectionModel m r) = rt_composition_range r"
  by (simp_all add: rt_SetSelectionModel_def rt_selection_def)

lemma SetSelectionModel_moves:
  "(range_GetMax (rt_selection r) \<le> length (rt_text r) \<Longrightarrow>
    range_GetMax (sm_selection m) \<le> length (rt_text r)) \<Longrightarrow> rt_moves r (rt_SetSelectionModel m r)"
  by (auto simp: rt_moves_def rt_same_text_def rt_SetSelectionModel_def rt_selection_def)

lemma mk_selection_sel [simp]:
  "sm_selection (mk_selection s a) = s" "caret_pos (mk_selection s a) = r_end s"
  "sm_selection (mk_caret p a) = range_at p" "caret_pos (mk_caret p a) = p"
  "sm_selection sm_default = range_at 0" "caret_affinity (mk_selection s a) = a"
  by (simp_all add: mk_selection_def mk_caret_def caret_pos_def sm_default_def)

lemma GetMax_range_at [simp]: "range_GetMax (range_at p) = p" "range_GetMin (range_at p) = p"
  by (simp_all add: range_GetMax_def range_GetMin_def)

lemma cursor_le_GetMax: "rt_cursor_position r \<le> range_GetMax (rt_selection r)"
  by (simp add: rt_cursor_position_def caret_pos_def rt_selection_def range_GetMax_def)

lemma start_le_GetMax: "r_start (rt_selection r) \<le> range_GetMax (rt_selection r)"
  by (simp add: range_GetMax_def)

lemma MoveCursorTo_pos_moves: "rt_moves r (rt_MoveCursorTo_pos pf p sel r)"
  using start_le_GetMax [of r]
  by (auto simp: rt_MoveCursorTo_pos_def Let_def intro!: SetSelectionModel_moves)

lemma SetCursorPosition_moves: "rt_moves r (rt_SetCursorPosition pf p r)"
  by (simp add: rt_SetCursorPosition_def MoveCursorTo_pos_moves)

lemma MoveCursorTo_moves: "rt_moves r (fst (rt_MoveCursorTo pf m r))"
  by (auto simp: rt_MoveCursorTo_def Let_def intro!: SetSelectionModel_moves)

lemma MoveCursorTo_point_moves: "rt_moves r (fst (rt_MoveCursorTo_point pf pt sel r))"
  by (simp add: rt_MoveCursorTo_point_def Let_def MoveCursorTo_moves)

lemma SelectRange_moves: "rt_moves r (fst (rt_SelectRange pf rng r))"
  by (auto simp: rt_SelectRange_def Let_def intro!: SetSelectionModel_moves)

lemma ClearSelection_moves: "rt_moves r (rt_ClearSelection r)"
  using cursor_le_GetMax [of r]
  by (auto simp: rt_ClearSelection_def intro!: SetSelectionModel_moves)

lemma SelectAll_moves: "rt_moves r (rt_SelectAll pf r)"
  by (auto simp: rt_SelectAll_def intro!: SetSelectionModel_moves)

lemma SelectWord_moves: "rt_moves r (rt_SelectWord pf r)"
  by (auto simp: rt_SelectWord_def Let_def SelectAll_moves
      intro: rt_moves_trans [OF MoveCursorTo_pos_moves MoveCursorTo_pos_moves])

lemma UpdateCached_moves: "rt_moves r (rt_UpdateCachedBoundsAndOffset pf r)"
  by (simp add: rt_UpdateCachedBoundsAndOffset_def Let_def rt_moves_def rt_same_text_def
      rt_selection_def)

lemma GetCursorBounds_moves: "rt_moves r (snd (rt_GetCursorBounds pf c ins r))"
  by (simp add: rt_GetCursorBounds_def Let_def UpdateCached_moves)

lemma MoveCursor_moves: "rt_moves r (rt_MoveCursor pf bt dir sel r)"
proof -
  obtain sb ra where a: "rt_GetCursorBounds pf (rt_GetSelectionModelForSelectionStart r) True r = (sb, ra)"
    by force
  obtain cb rb where b: "rt_GetCursorBounds pf
      (mk_caret (rt_cursor_position r) (caret_affinity (rt_selection_model r))) True ra = (cb, rb)"
    by force
  have "rt_moves r ra" and "rt_moves ra rb"
    using GetCursorBounds_moves [of r] GetCursorBounds_moves [of ra] a b by (metis snd_conv)+
  then have "rt_moves r rb" by (rule rt_moves_trans)
  then show ?thesis
    by (auto simp: rt_MoveCursor_def Let_def a b MoveCursorTo_moves
        intro: rt_moves_trans [OF _ MoveCursorTo_moves])
qed

lemmas rt_move_facts =
  SetCursorPosition_moves MoveCursorTo_moves MoveCursorTo_point_moves SelectRange_moves
  ClearSelection_moves SelectAll_moves SelectWord_moves MoveCursor_moves UpdateCached_moves
  GetCursorBounds_moves

lemma rt_SetText_sel [simp]:
  "rt_text (rt_SetText t r) = t"
  "rt_composition_range (rt_SetText t r) = rt_composition_range r"
  "rt_selection_model (rt_SetText t r) = sm_default"
  "rt_obscured (rt_SetText t r) = rt_obscured r"
  by (simp_all add: rt_SetText_def Let_def rt_SetSelectionModel_def)

lemma rt_SetText_ok:
  assumes "rt_ok r" and "\<not> range_IsValid (rt_composition_range r)"
  shows "rt_ok (rt_SetText t r)"
proof -
  have "CheckStyleRanges (set_text_styles (rt_default_style r) (length (rt_text r)) (length t)
          (rt_style_ranges r)) (length t)"
    using assms(1) by (intro set_text_styles_spec(1)) (simp_all add: rt_ok_def)
  with assms show ?thesis
    by (simp add: rt_ok_def rt_SetText_def Let_def rt_SetSelectionModel_def rt_selection_def)
qed

lemma rt_init_ok: "rt_ok (rt_init is_rtl)"
  by (simp add: rt_ok_def rt_init_def rt_selection_def CheckStyleRanges_def style_default_def)

section \<open>The contract with the text field\<close>

text \<open>
  What the edit code of a text field relies on: the buffer holds the text last put, moving the
  caret changes no text, and putting text while nothing is being composed keeps the buffer
  well-formed.
\<close>

locale text_buffer =
  fixes content :: "'b \<Rightarrow> 'c list"
    and caret :: "'b \<Rightarrow> nat"
    and composing :: "'b \<Rightarrow> bool"
    and put :: "'c list \<Rightarrow> 'b \<Rightarrow> 'b"
    and move :: "nat \<Rightarrow> 'b \<Rightarrow> 'b"
    and invar :: "'b \<Rightarrow> bool"
  assumes content_put: "content (put t b) = t"
    and content_move: "content (move p b) = content b"
    and composing_put: "composing (put t b) = composing b"
    and composing_move: "composing (move p b) = composing b"
    and caret_le: "invar b \<Longrightarrow> caret b \<le> length (content b)"
    and invar_put: "invar b \<Longrightarrow> \<not> composing b \<Longrightarrow> invar (put t b)"
    and invar_move: "invar b \<Longrightarrow> invar (move p b)"
begin

text \<open>The two conditional updates of an edit and the caret move after them.\<close>

lemma replace_piece:
  assumes "invar b" and "\<not> composing b" and "content b = spliced u p old"
  shows "content (move c (if new \<noteq> [] then put (spliced u q new) (if old \<noteq> [] then put u b else b)
                          else if old \<noteq> [] then put u b else b)) = spliced u q new"
    and "invar (move c (if new \<noteq> [] then put (spliced u q new) (if old \<noteq> [] then put u b else b)
                        else if old \<noteq> [] then put u b else b))"
    and "\<not> composing (move c (if new \<noteq> [] then put (spliced u q new) (if old \<noteq> [] then put u b else b)
                        else if old \<noteq> [] then put u b else b))"
  using assms by (auto simp: content_put content_move composing_put composing_move
      intro!: invar_move invar_put)

lemma caret_move_le: "invar b \<Longrightarrow> caret (move p b) \<le> length (content b)"
  using caret_le [OF invar_move] by (simp add: content_move)

end

definition rt_composing :: "render_text \<Rightarrow> bool" where
  "rt_composing r = range_IsValid (rt_composition_range r)"

interpretation rt_buffer: text_buffer rt_text rt_cursor_position rt_composing rt_SetText
  "rt_SetCursorPosition pf" rt_ok for pf
proof
  fix b p t
  note m = SetCursorPosition_moves [of b pf p]
  show "rt_text (rt_SetText t b) = t" by simp
  show "rt_text (rt_SetCursorPosition pf p b) = rt_text b"
    using m by (rule rt_moves_text)
  show "rt_composing (rt_SetText t b) = rt_composing b"
    by (simp add: rt_composing_def)
  show "rt_composing (rt_SetCursorPosition pf p b) = rt_composing b"
    using rt_moves_comp [OF m] by (simp add: rt_composing_def)
  show "rt_cursor_position b \<le> length (rt_text b)" if "rt_ok b"
    using that cursor_le_GetMax [of b] by (auto simp: rt_ok_def)
  show "rt_ok (rt_SetText t b)" if "rt_ok b" and "\<not> rt_composing b"
    using that by (simp add: rt_SetText_ok rt_composing_def)
  show "rt_ok (rt_SetCursorPosition pf p b)" if "rt_ok b"
    using m that by (rule rt_moves_ok)
qed

end
