(* ===== verification/Edit_History.thy ===== *)
theory Edit_History
  imports UI_Prelude
begin

text \<open>
  The undo history of a text field: \<open>internal::Edit\<close> with its three subclasses and the history part
  of \<open>TextfieldViewsModel\<close> (\<open>src/ui/views/controls/textfield/textfield_views_model.h\<close>, \<open>.cc\<close>).

  An edit records a piece of text that was removed and a piece that was put in; consecutive edits
  are merged. The abstract reading of an edit is the partial function \<open>edit_redo\<close> on texts, and a
  history is right when replaying its applied edits from the initial text gives the present text.
  The laws that make undo, redo and merging agree are the locales \<open>undo_log\<close> and \<open>merging_log\<close>.
  A failed \<open>CHECK\<close> or a \<open>std::out_of_range\<close> is \<open>None\<close>.
\<close>

section \<open>Edits\<close>

datatype EditType = INSERT_EDIT | DELETE_EDIT | REPLACE_EDIT
datatype MergeType = DO_NOT_MERGE | MERGEABLE | MERGE_WITH_PREVIOUS

record edit =
  e_type :: EditType
  e_merge_type :: MergeType
  e_old_cursor_pos :: nat
  e_old_text :: string16
  e_old_text_start :: nat
  e_delete_backward :: bool
  e_new_cursor_pos :: nat
  e_new_text :: string16
  e_new_text_start :: nat

definition mk_InsertEdit :: "bool \<Rightarrow> string16 \<Rightarrow> nat \<Rightarrow> edit" where
  "mk_InsertEdit mergeable new_text at =
     \<lparr>e_type = INSERT_EDIT, e_merge_type = (if mergeable then MERGEABLE else DO_NOT_MERGE),
      e_old_cursor_pos = at, e_old_text = [], e_old_text_start = at, e_delete_backward = False,
      e_new_cursor_pos = at + length new_text, e_new_text = new_text, e_new_text_start = at\<rparr>"

definition mk_ReplaceEdit ::
  "MergeType \<Rightarrow> string16 \<Rightarrow> nat \<Rightarrow> nat \<Rightarrow> bool \<Rightarrow> nat \<Rightarrow> string16 \<Rightarrow> nat \<Rightarrow> edit" where
  "mk_ReplaceEdit merge_type old_text old_cursor_pos old_text_start backward new_cursor_pos
     new_text new_text_start =
     \<lparr>e_type = REPLACE_EDIT, e_merge_type = merge_type, e_old_cursor_pos = old_cursor_pos,
      e_old_text = old_text, e_old_text_start = old_text_start, e_delete_backward = backward,
      e_new_cursor_pos = new_cursor_pos, e_new_text = new_text,
      e_new_text_start = new_text_start\<rparr>"

definition mk_DeleteEdit :: "bool \<Rightarrow> string16 \<Rightarrow> nat \<Rightarrow> bool \<Rightarrow> edit" where
  "mk_DeleteEdit mergeable txt text_start backward =
     \<lparr>e_type = DELETE_EDIT, e_merge_type = (if mergeable then MERGEABLE else DO_NOT_MERGE),
      e_old_cursor_pos = (if backward then text_start + length txt else text_start),
      e_old_text = txt, e_old_text_start = text_start, e_delete_backward = backward,
      e_new_cursor_pos = text_start, e_new_text = [], e_new_text_start = text_start\<rparr>"

definition old_text_end :: "edit \<Rightarrow> nat" where
  "old_text_end e = e_old_text_start e + length (e_old_text e)"

definition new_text_end :: "edit \<Rightarrow> nat" where
  "new_text_end e = e_new_text_start e + length (e_new_text e)"

definition edit_Commit :: "edit \<Rightarrow> edit" where
  "edit_Commit e = e\<lparr>e_merge_type := DO_NOT_MERGE\<rparr>"

section \<open>Merging\<close>

text \<open>The result of a merge is the edit after the call and the returned flag.\<close>

definition edit_MergeReplace :: "edit \<Rightarrow> edit \<Rightarrow> edit option" where
  "edit_MergeReplace this e =
     (if e_type e \<noteq> REPLACE_EDIT \<or> e_old_text_start e \<noteq> 0 \<or> e_new_text_start e \<noteq> 0 then None
      else do {
        erased \<leftarrow> str_erase (e_old_text e) (e_new_text_start this) (length (e_new_text this));
        old_text \<leftarrow> str_insert erased (e_old_text_start this) (e_old_text this);
        Some (this\<lparr>e_old_text := old_text, e_old_text_start := e_old_text_start e,
                   e_delete_backward := False, e_new_text := e_new_text e,
                   e_new_text_start := e_new_text_start e, e_merge_type := DO_NOT_MERGE\<rparr>)
      })"

definition InsertEdit_DoMerge :: "edit \<Rightarrow> edit \<Rightarrow> edit \<times> bool" where
  "InsertEdit_DoMerge this e =
     (if e_type e \<noteq> INSERT_EDIT \<or> new_text_end this \<noteq> e_new_text_start e then (this, False)
      else (this\<lparr>e_new_text := e_new_text this @ e_new_text e,
                 e_new_cursor_pos := e_new_cursor_pos e\<rparr>, True))"

definition ReplaceEdit_DoMerge :: "edit \<Rightarrow> edit \<Rightarrow> edit \<times> bool" where
  "ReplaceEdit_DoMerge this e =
     (if e_type e = DELETE_EDIT \<or> new_text_end this \<noteq> e_old_text_start e \<or>
         e_old_text_start e \<noteq> e_new_text_start e
      then (this, False)
      else (this\<lparr>e_old_text := e_old_text this @ e_old_text e,
                 e_new_text := e_new_text this @ e_new_text e,
                 e_new_cursor_pos := e_new_cursor_pos e\<rparr>, True))"

definition DeleteEdit_DoMerge :: "edit \<Rightarrow> edit \<Rightarrow> edit \<times> bool" where
  "DeleteEdit_DoMerge this e =
     (if e_type e \<noteq> DELETE_EDIT then (this, False)
      else if e_delete_backward this
      then if \<not> e_delete_backward e \<or> e_old_text_start this \<noteq> old_text_end e then (this, False)
           else (this\<lparr>e_old_text_start := e_old_text_start e,
                      e_old_text := e_old_text e @ e_old_text this,
                      e_new_cursor_pos := e_new_cursor_pos e\<rparr>, True)
      else if e_delete_backward e \<or> e_old_text_start this \<noteq> e_old_text_start e then (this, False)
           else (this\<lparr>e_old_text := e_old_text this @ e_old_text e\<rparr>, True))"

definition edit_DoMerge :: "edit \<Rightarrow> edit \<Rightarrow> edit \<times> bool" where
  "edit_DoMerge this e =
     (case e_type this of
        INSERT_EDIT \<Rightarrow> InsertEdit_DoMerge this e
      | REPLACE_EDIT \<Rightarrow> ReplaceEdit_DoMerge this e
      | DELETE_EDIT \<Rightarrow> DeleteEdit_DoMerge this e)"

definition edit_Merge :: "edit \<Rightarrow> edit \<Rightarrow> (edit \<times> bool) option" where
  "edit_Merge this e =
     (if e_type this \<noteq> DELETE_EDIT \<and> e_merge_type e = MERGE_WITH_PREVIOUS
      then map_option (\<lambda>m. (m, True)) (edit_MergeReplace this e)
      else if e_merge_type this = MERGEABLE \<and> e_merge_type e = MERGEABLE
      then Some (edit_DoMerge this e)
      else Some (this, False))"

section \<open>The history\<close>

text \<open>\<open>edit_history_\<close> and \<open>current_edit_\<close>; \<open>None\<close> is the iterator \<open>edit_history_.end()\<close>.\<close>

record history =
  edit_history :: "edit list"
  current_edit :: "nat option"

definition ClearEditHistory :: "history \<Rightarrow> history" where
  "ClearEditHistory h = \<lparr>edit_history = [], current_edit = None\<rparr>"

definition CanUndo :: "history \<Rightarrow> bool" where
  "CanUndo h \<longleftrightarrow> edit_history h \<noteq> [] \<and> current_edit h \<noteq> None"

definition CanRedo :: "history \<Rightarrow> bool" where
  "CanRedo h \<longleftrightarrow>
     edit_history h \<noteq> [] \<and>
     (case current_edit h of None \<Rightarrow> True | Some i \<Rightarrow> Suc i \<noteq> length (edit_history h))"

definition ClearRedoHistory :: "history \<Rightarrow> history" where
  "ClearRedoHistory h =
     (if edit_history h = [] then h
      else case current_edit h of
             None \<Rightarrow> ClearEditHistory h
           | Some i \<Rightarrow> h\<lparr>edit_history := take (Suc i) (edit_history h)\<rparr>)"

definition AddOrMergeEditHistory :: "edit \<Rightarrow> history \<Rightarrow> (history \<times> bool) option" where
  "AddOrMergeEditHistory e h0 =
     (let h = ClearRedoHistory h0
      in case current_edit h of
           None \<Rightarrow>
             Some (\<lparr>edit_history = edit_history h @ [e], current_edit = Some 0\<rparr>, False)
         | Some i \<Rightarrow> do {
             (cur, merged) \<leftarrow> edit_Merge (edit_history h ! i) e;
             let h1 = h\<lparr>edit_history := (edit_history h)[i := cur]\<rparr>;
             Some (if merged then (h1, True)
                   else (h1\<lparr>edit_history := edit_history h1 @ [e], current_edit := Some (Suc i)\<rparr>,
                         False))
           })"

text \<open>The iterator moves of \<open>Undo\<close> (with the \<open>Commit\<close>) and \<open>Redo\<close>.\<close>

definition history_back :: "nat \<Rightarrow> history \<Rightarrow> history" where
  "history_back i h =
     \<lparr>edit_history = (edit_history h)[i := edit_Commit (edit_history h ! i)],
      current_edit = (if i = 0 then None else Some (i - 1))\<rparr>"

definition history_forward :: "history \<Rightarrow> history" where
  "history_forward h =
     h\<lparr>current_edit := Some (case current_edit h of None \<Rightarrow> 0 | Some i \<Rightarrow> Suc i)\<rparr>"

section \<open>Abstract edits\<close>

text \<open>What an edit does to a text: take \<open>old_text\<close> out at \<open>old_text_start\<close>, then put \<open>new_text\<close> in at
  \<open>new_text_start\<close>. \<open>None\<close> when the edit does not apply.\<close>

definition edit_redo :: "edit \<Rightarrow> string16 \<Rightarrow> string16 option" where
  "edit_redo e t =
     (let p = e_old_text_start e; n = length (e_old_text e)
      in if p + n \<le> length t \<and> take n (drop p t) = e_old_text e \<and>
            (e_new_text_start e + n \<le> length t \<or> e_type e = DELETE_EDIT \<and> e_new_text e = [])
         then Some (spliced (take p t @ drop (p + n) t) (e_new_text_start e) (e_new_text e))
         else None)"

definition edit_undo :: "edit \<Rightarrow> string16 \<Rightarrow> string16 option" where
  "edit_undo e t =
     (let p = e_new_text_start e; n = length (e_new_text e)
      in if e_old_text_start e + n \<le> length t \<and>
            (p + n \<le> length t \<and> take n (drop p t) = e_new_text e \<or>
             e_type e = DELETE_EDIT \<and> e_new_text e = [])
         then Some (spliced (take p t @ drop (p + n) t) (e_old_text_start e) (e_old_text e))
         else None)"

primrec play :: "('e \<Rightarrow> 's \<Rightarrow> 's option) \<Rightarrow> 'e list \<Rightarrow> 's \<Rightarrow> 's option" where
  "play f [] s = Some s"
| "play f (e # es) s = Option.bind (f e s) (play f es)"

text \<open>The edits a merge may extend, and the edit a call may add to a history whose text is \<open>t\<close>.\<close>

definition edit_wf :: "edit \<Rightarrow> bool" where
  "edit_wf e \<longleftrightarrow> e_merge_type e = MERGEABLE \<longrightarrow>
     (case e_type e of
        INSERT_EDIT \<Rightarrow> e_old_text e = [] \<and> e_old_text_start e = e_new_text_start e
      | REPLACE_EDIT \<Rightarrow> e_old_text_start e = e_new_text_start e
      | DELETE_EDIT \<Rightarrow> e_new_text e = [] \<and>
          (\<not> e_delete_backward e \<longrightarrow> e_old_text_start e = e_new_text_start e))"

definition edit_fits :: "string16 \<Rightarrow> edit \<Rightarrow> bool" where
  "edit_fits t e \<longleftrightarrow> edit_wf e \<and> (e_merge_type e = MERGE_WITH_PREVIOUS \<longrightarrow>
     e_type e = REPLACE_EDIT \<and> e_old_text_start e = 0 \<and> e_new_text_start e = 0 \<and> e_old_text e = t)"

lemma play_append: "play f (xs @ ys) s = Option.bind (play f xs s) (play f ys)"
  by (induction xs arbitrary: s) (auto split: bind_splits)

lemma play_snoc_Some:
  "play f (xs @ [x]) s = Some s' \<longleftrightarrow> (\<exists>m. play f xs s = Some m \<and> f x m = Some s')"
  by (auto simp: play_append split: bind_splits)

lemma play_cong: "(\<And>e s. f (h e) s = f e s) \<Longrightarrow> play f (xs[i := h (xs ! i)]) s = play f xs s"
proof (induction xs arbitrary: i s)
  case (Cons x xs)
  then have "play f (xs[j := h (xs ! j)]) = play f xs" for j by blast
  with Cons.prems show ?case by (simp split: nat.split)
qed simp

text \<open>An edit relates two texts with a common remainder. A deletion puts nothing in, and the
  position it would put it at is irrelevant: a merged backspace keeps a stale one.\<close>

lemma edit_redo_iff:
  "edit_redo e t = Some t' \<longleftrightarrow>
     (\<exists>u. e_old_text_start e \<le> length u \<and>
          (e_new_text_start e \<le> length u \<or> e_type e = DELETE_EDIT \<and> e_new_text e = []) \<and>
          t = spliced u (e_old_text_start e) (e_old_text e) \<and>
          t' = spliced u (e_new_text_start e) (e_new_text e))" (is "?L \<longleftrightarrow> ?R")
proof
  assume L: ?L
  let ?p = "e_old_text_start e" and ?n = "length (e_old_text e)"
  let ?u = "take ?p t @ drop (?p + ?n) t"
  from L have *: "?p + ?n \<le> length t" "take ?n (drop ?p t) = e_old_text e"
      "e_new_text_start e + ?n \<le> length t \<or> e_type e = DELETE_EDIT \<and> e_new_text e = []"
      "t' = spliced ?u (e_new_text_start e) (e_new_text e)"
    by (auto simp: edit_redo_def Let_def split: if_splits)
  moreover have "t = spliced ?u ?p (e_old_text e)"
    using spliced_cut [OF *(1)] *(2) by simp
  moreover have "length ?u = length t - ?n"
    using *(1) by simp
  ultimately show ?R
    by (intro exI [of _ ?u] conjI) (assumption | linarith)+
next
  assume ?R
  then show ?L by (auto simp: edit_redo_def Let_def spliced_parts)
qed

lemma edit_undo_iff: "edit_undo e t' = Some t \<longleftrightarrow> edit_redo e t = Some t'" (is "?L \<longleftrightarrow> ?R")
proof
  assume L: ?L
  let ?p = "e_new_text_start e" and ?n = "length (e_new_text e)"
  let ?u = "take ?p t' @ drop (?p + ?n) t'"
  from L have *: "e_old_text_start e + ?n \<le> length t'"
      "?p + ?n \<le> length t' \<and> take ?n (drop ?p t') = e_new_text e \<or> e_type e = DELETE_EDIT \<and> e_new_text e = []"
      "t = spliced ?u (e_old_text_start e) (e_old_text e)"
    by (auto simp: edit_undo_def Let_def split: if_splits)
  moreover have "t' = spliced ?u ?p (e_new_text e)"
    using spliced_cut [of ?p ?n t'] *(2) by auto
  moreover have "length ?u = length t' - ?n"
    using *(2) by auto
  ultimately have "e_old_text_start e \<le> length ?u"
      "?p \<le> length ?u \<or> e_type e = DELETE_EDIT \<and> e_new_text e = []"
    by linarith+
  with * \<open>t' = _\<close> show ?R
    unfolding edit_redo_iff by (intro exI [of _ ?u] conjI)
next
  assume ?R
  then obtain u where "e_old_text_start e \<le> length u"
      "e_new_text_start e \<le> length u \<or> e_type e = DELETE_EDIT \<and> e_new_text e = []"
      "t = spliced u (e_old_text_start e) (e_old_text e)"
      "t' = spliced u (e_new_text_start e) (e_new_text e)"
    by (auto simp: edit_redo_iff)
  then show ?L
    by (auto simp: edit_undo_def Let_def spliced_parts)
qed

section \<open>Contracts\<close>

text \<open>Undo and redo of an entry are mutually inverse partial functions.\<close>

locale undo_log =
  fixes redo :: "'e \<Rightarrow> 's \<Rightarrow> 's option"
    and undo :: "'e \<Rightarrow> 's \<Rightarrow> 's option"
  assumes undo_iff: "undo e s' = Some s \<longleftrightarrow> redo e s = Some s'"
begin

text \<open>Undoing a replayed log from its last entry to its first gives the state it started in.\<close>

lemma play_rev: "play redo es s = Some s' \<Longrightarrow> play undo (rev es) s' = Some s"
  by (induction es arbitrary: s s') (auto simp: play_snoc_Some undo_iff split: bind_splits)

lemma redo_injective: "redo e a = Some c \<Longrightarrow> redo e b = Some c \<Longrightarrow> a = b"
  using undo_iff [of e c a] undo_iff [of e c b] by simp

end

text \<open>A log whose last entry may absorb the next one: the merged entry does what the two did.\<close>

locale merging_log = undo_log +
  fixes merge :: "'e \<Rightarrow> 'e \<Rightarrow> ('e \<times> bool) option"
    and wf :: "'e \<Rightarrow> bool"
    and fits :: "'s \<Rightarrow> 'e \<Rightarrow> bool"
  assumes fits_wf: "fits s e \<Longrightarrow> wf e"
    and merge_law: "wf e \<Longrightarrow> fits s' e' \<Longrightarrow> redo e s = Some s' \<Longrightarrow> redo e' s' = Some s'' \<Longrightarrow>
      \<exists>e'' b. merge e e' = Some (e'', b) \<and> (b \<longrightarrow> wf e'' \<and> redo e'' s = Some s'') \<and> (\<not> b \<longrightarrow> e'' = e)"
begin

lemma merge_last:
  assumes "play redo (es @ [e]) s = Some s'" and "wf e" and "fits s' e'" and "redo e' s' = Some s''"
  obtains e'' b where "merge e e' = Some (e'', b)" and "wf e''"
    and "play redo (if b then es @ [e''] else es @ [e'', e']) s = Some s''"
proof -
  obtain m where m: "play redo es s = Some m" "redo e m = Some s'"
    using assms(1) by (auto simp: play_snoc_Some)
  from merge_law [OF assms(2,3) m(2) assms(4)]
  obtain e'' b where "merge e e' = Some (e'', b)" "b \<longrightarrow> wf e'' \<and> redo e'' m = Some s''" "\<not> b \<longrightarrow> e'' = e"
    by blast
  with that m assms show thesis
    by (cases b) (auto simp: play_append)
qed

end

interpretation edits: undo_log edit_redo edit_undo
  by unfold_locales (rule edit_undo_iff)

section \<open>Merged edits do what the two edits did\<close>

lemma spliced_extend:
  "p \<le> length u \<Longrightarrow> spliced (spliced u p a) (p + length a) b = spliced u p (a @ b)"
  by (simp add: spliced_def)

text \<open>Two adjacent replacements are one replacement of the joined pieces; insertions and forward
  deletions are the cases with nothing old or nothing new.\<close>

lemma merge_adjacent:
  assumes redo: "edit_redo e t = Some t'" "edit_redo e' t' = Some t''"
    and pos: "e_old_text_start e = e_new_text_start e" "e_old_text_start e' = new_text_end e"
      "e_new_text_start e' = e_old_text_start e'"
    and m: "e_old_text m = e_old_text e @ e_old_text e'" "e_new_text m = e_new_text e @ e_new_text e'"
      "e_old_text_start m = e_old_text_start e" "e_new_text_start m = e_new_text_start e"
  shows "edit_redo m t = Some t''"
proof -
  define p where "p = e_old_text_start e"
  define q where "q = p + length (e_new_text e)"
  obtain u where u: "p \<le> length u" "t = spliced u p (e_old_text e)" "t' = spliced u p (e_new_text e)"
    using redo(1) pos(1) unfolding edit_redo_iff p_def by auto
  obtain v where v: "q \<le> length v" "t' = spliced v q (e_old_text e')" "t'' = spliced v q (e_new_text e')"
    using redo(2) pos unfolding edit_redo_iff p_def q_def new_text_end_def by auto
  have "(take p u @ e_new_text e) @ drop p u = take q v @ (e_old_text e' @ drop q v)"
    using u(3) v(2) by (simp add: spliced_def)
  moreover have "length (take p u @ e_new_text e) = length (take q v)"
    using u(1) v(1) by (simp add: q_def)
  ultimately have "take p u @ e_new_text e = take q v" and "drop p u = e_old_text e' @ drop q v"
    by (metis append_eq_append_conv)+
  moreover define w where "w = take p u @ drop q v"
  ultimately have "p \<le> length w" "t = spliced w p (e_old_text e @ e_old_text e')"
      "t'' = spliced w p (e_new_text e @ e_new_text e')"
    using u v by (auto simp: spliced_def)
  then show ?thesis
    unfolding edit_redo_iff using m pos(1) by (intro exI [of _ w]) (simp add: p_def)
qed

lemma merge_backward:
  assumes redo: "edit_redo e t = Some t'" "edit_redo e' t' = Some t''"
    and del: "e_new_text e = []" "e_new_text e' = []" "e_old_text_start e = old_text_end e'"
    and m: "e_old_text m = e_old_text e' @ e_old_text e" "e_new_text m = []" "e_type m = DELETE_EDIT"
      "e_old_text_start m = e_old_text_start e'"
  shows "edit_redo m t = Some t''"
proof -
  have "t = spliced t' (old_text_end e') (e_old_text e)"
    using redo(1) del by (auto simp: edit_redo_iff)
  moreover have "t' = spliced t'' (e_old_text_start e') (e_old_text e')" "e_old_text_start e' \<le> length t''"
    using redo(2) del by (auto simp: edit_redo_iff)
  ultimately show ?thesis
    unfolding edit_redo_iff using m
    by (intro exI [of _ t'']) (simp add: old_text_end_def spliced_extend)
qed

text \<open>The forced merge with a replacement of the whole text.\<close>

lemma spliced_empty [simp]: "spliced [] p t = t"
  by (simp add: spliced_def)

lemma merge_replace:
  assumes "edit_redo e t = Some t'" and "edit_redo e' t' = Some t''" and "edit_fits t' e'"
    and "e_merge_type e' = MERGE_WITH_PREVIOUS" and "e_type e \<noteq> DELETE_EDIT"
  shows "\<exists>m. edit_MergeReplace e e' = Some m \<and> edit_redo m t = Some t'' \<and> edit_wf m"
proof -
  obtain u where u: "e_old_text_start e \<le> length u" "e_new_text_start e \<le> length u"
      "t = spliced u (e_old_text_start e) (e_old_text e)"
      "t' = spliced u (e_new_text_start e) (e_new_text e)"
    using assms(1,5) by (auto simp: edit_redo_iff)
  have e': "e_type e' = REPLACE_EDIT" "e_old_text_start e' = 0" "e_new_text_start e' = 0"
      "e_old_text e' = t'"
    using assms(3,4) by (auto simp: edit_fits_def)
  define m where "m = e\<lparr>e_old_text := t, e_old_text_start := 0, e_delete_backward := False,
      e_new_text := e_new_text e', e_new_text_start := 0, e_merge_type := DO_NOT_MERGE\<rparr>"
  have "edit_MergeReplace e e' = Some m"
    using e' u by (simp add: edit_MergeReplace_def string_simps m_def)
  moreover have "t'' = e_new_text e'"
    using assms(2) e' by (auto simp: edit_redo_def)
  then have "edit_redo m t = Some t''"
    by (auto simp: edit_redo_iff m_def intro!: exI [of _ "[]"])
  ultimately show ?thesis
    by (auto simp: edit_wf_def m_def)
qed

lemma DoMerge_law:
  assumes "edit_redo e t = Some t'" and "edit_redo e' t' = Some t''" and "edit_wf e" and "edit_wf e'"
    and "e_merge_type e = MERGEABLE" and "e_merge_type e' = MERGEABLE"
    and "edit_DoMerge e e' = (m, b)"
  shows "(b \<longrightarrow> edit_wf m \<and> edit_redo m t = Some t'') \<and> (\<not> b \<longrightarrow> m = e)"
proof (cases "e_type e")
  case INSERT_EDIT
  then show ?thesis
    using assms(3-7)
    by (auto simp: edit_DoMerge_def InsertEdit_DoMerge_def edit_wf_def new_text_end_def split: if_splits
        EditType.splits intro: merge_adjacent [OF assms(1,2)])
next
  case DELETE_EDIT
  then show ?thesis
    using assms(3-7)
    by (auto simp: edit_DoMerge_def DeleteEdit_DoMerge_def edit_wf_def new_text_end_def split: if_splits
        EditType.splits intro: merge_adjacent [OF assms(1,2)] merge_backward [OF assms(1,2)])
next
  case REPLACE_EDIT
  then show ?thesis
    using assms(3-7)
    by (auto simp: edit_DoMerge_def ReplaceEdit_DoMerge_def edit_wf_def new_text_end_def split: if_splits
        EditType.splits intro: merge_adjacent [OF assms(1,2)])
qed

interpretation edits_merge: merging_log edit_redo edit_undo edit_Merge edit_wf edit_fits
proof
  show "edit_wf e" if "edit_fits t e" for t e
    using that by (simp add: edit_fits_def)
next
  fix e t' e' t t''
  assume *: "edit_wf e" "edit_fits t' e'" "edit_redo e t = Some t'" "edit_redo e' t' = Some t''"
  show "\<exists>m b. edit_Merge e e' = Some (m, b) \<and> (b \<longrightarrow> edit_wf m \<and> edit_redo m t = Some t'') \<and> (\<not> b \<longrightarrow> m = e)"
  proof (cases "e_type e \<noteq> DELETE_EDIT \<and> e_merge_type e' = MERGE_WITH_PREVIOUS")
    case True
    with merge_replace [OF *(3,4,2)] show ?thesis
      by (auto simp: edit_Merge_def)
  next
    case False
    moreover have "edit_wf e'" using *(2) by (simp add: edit_fits_def)
    ultimately show ?thesis
      using DoMerge_law [OF *(3,4,1)] by (cases "edit_DoMerge e e'") (auto simp: edit_Merge_def)
  qed
qed

text \<open>(C3) Merging is sound for every combination of insertions, deletions and replacements: when the
  current edit took the text from \<open>t\<close> to \<open>t'\<close>, the new edit takes it on to \<open>t''\<close> and the two are
  merged, then redoing the merged edit takes \<open>t\<close> to \<open>t''\<close> and undoing it takes \<open>t''\<close> back to \<open>t\<close>.\<close>

theorem edit_Merge_sound:
  assumes "edit_wf e" and "edit_fits t' e'" and "edit_redo e t = Some t'" and "edit_redo e' t' = Some t''"
    and "edit_Merge e e' = Some (m, True)"
  shows "edit_redo m t = Some t'' \<and> edit_undo m t'' = Some t"
  using edits_merge.merge_law [OF assms(1-4)] assms(5) by (auto simp: edit_undo_iff)

theorem edit_Merge_sound_witness:
  "edit_redo (mk_DeleteEdit True [98, 99] 1 True) [97, 98, 99] = Some [97] \<and>
   edit_Merge (mk_DeleteEdit True [99] 2 True) (mk_DeleteEdit True [98] 1 True) =
     Some ((mk_DeleteEdit True [98, 99] 1 True)\<lparr>e_new_text_start := 2\<rparr>, True) \<and>
   edit_undo ((mk_DeleteEdit True [98, 99] 1 True)\<lparr>e_new_text_start := 2\<rparr>) [97] = Some [97, 98, 99]"
proof -
  let ?e = "mk_DeleteEdit True [99] 2 True" and ?e' = "mk_DeleteEdit True [98] 1 True"
  let ?m = "(mk_DeleteEdit True [98, 99] 1 True)\<lparr>e_new_text_start := 2\<rparr>"
  have m: "edit_Merge ?e ?e' = Some (?m, True)"
    by (simp add: edit_Merge_def mk_DeleteEdit_def edit_DoMerge_def DeleteEdit_DoMerge_def old_text_end_def)
  have "edit_redo ?m [97, 98, 99] = Some [97] \<and> edit_undo ?m [97] = Some [97, 98, 99]"
    by (rule edit_Merge_sound [OF _ _ _ _ m, of "[97, 98]"])
       (simp_all add: edit_wf_def edit_fits_def mk_DeleteEdit_def edit_redo_def spliced_def)
  with m show ?thesis
    by (simp add: mk_DeleteEdit_def edit_redo_def)
qed

section \<open>Right histories\<close>

text \<open>The number of edits that are applied.\<close>

definition applied :: "history \<Rightarrow> nat" where
  "applied h = (case current_edit h of None \<Rightarrow> 0 | Some i \<Rightarrow> Suc i)"

text \<open>The history describes the text \<open>t\<close> as reached from \<open>t0\<close>, and the undone edits can be redone.\<close>

definition history_ok :: "string16 \<Rightarrow> string16 \<Rightarrow> history \<Rightarrow> bool" where
  "history_ok t0 t h \<longleftrightarrow>
     applied h \<le> length (edit_history h) \<and> list_all edit_wf (edit_history h) \<and>
     play edit_redo (take (applied h) (edit_history h)) t0 = Some t \<and>
     play edit_redo (edit_history h) t0 \<noteq> None"

lemma CanUndo_applied: "applied h \<le> length (edit_history h) \<Longrightarrow> CanUndo h \<longleftrightarrow> 0 < applied h"
  by (auto simp: CanUndo_def applied_def split: option.splits)

lemma CanRedo_applied:
  "applied h \<le> length (edit_history h) \<Longrightarrow> CanRedo h \<longleftrightarrow> applied h < length (edit_history h)"
  by (auto simp: CanRedo_def applied_def split: option.splits)

lemma ClearRedoHistory_applied:
  "applied h \<le> length (edit_history h) \<Longrightarrow>
   edit_history (ClearRedoHistory h) = take (applied h) (edit_history h) \<and>
   current_edit (ClearRedoHistory h) = current_edit h"
  by (auto simp: ClearRedoHistory_def applied_def ClearEditHistory_def split: option.splits)

lemma history_ok_empty: "history_ok t t \<lparr>edit_history = [], current_edit = None\<rparr>"
  by (simp add: history_ok_def applied_def)

lemma AddOrMerge_ok:
  assumes h: "history_ok t0 t h" and e: "edit_fits t e" "edit_redo e t = Some t'"
  obtains h' b where "AddOrMergeEditHistory e h = Some (h', b)" and "history_ok t0 t' h'"
    and "applied h' = length (edit_history h')" and "0 < applied h'"
proof -
  define hs where "hs = take (applied h) (edit_history h)"
  have le: "applied h \<le> length (edit_history h)" and wf: "list_all edit_wf hs"
      and pl: "play edit_redo hs t0 = Some t"
    using h by (auto simp: history_ok_def hs_def list_all_iff dest: in_set_takeD)
  have c: "ClearRedoHistory h = \<lparr>edit_history = hs, current_edit = current_edit h\<rparr>"
    using ClearRedoHistory_applied [OF le] by (simp add: hs_def)
  have wfe: "edit_wf e" using e(1) by (rule edits_merge.fits_wf)
  show thesis
  proof (cases "current_edit h")
    case None
    then have "hs = []" by (simp add: hs_def applied_def)
    with None pl e wfe show thesis
      by (intro that [of "\<lparr>edit_history = [e], current_edit = Some 0\<rparr>" False])
         (simp_all add: AddOrMergeEditHistory_def Let_def c applied_def history_ok_def)
  next
    case (Some i)
    then have i: "length hs = Suc i"
      using le by (simp add: hs_def applied_def)
    then have hs: "hs = take i hs @ [hs ! i]"
      using take_Suc_conv_app_nth [of i hs] by simp
    have "edit_wf (hs ! i)" using wf i by (simp add: list_all_length)
    then obtain m b where m: "edit_Merge (hs ! i) e = Some (m, b)" "edit_wf m"
        "play edit_redo (if b then take i hs @ [m] else take i hs @ [m, e]) t0 = Some t'"
      using edits_merge.merge_last [of "take i hs" "hs ! i" t0 t e t'] pl hs e by metis
    have upd: "hs[i := m] = take i hs @ [m]"
      using i by (simp add: upd_conv_take_nth_drop)
    have "list_all edit_wf (take i hs)"
      using wf by (auto simp: list_all_iff dest: in_set_takeD)
    then show thesis
      using Some m wfe i
      by (intro that [of "if b then \<lparr>edit_history = take i hs @ [m], current_edit = Some i\<rparr>
                else \<lparr>edit_history = take i hs @ [m, e], current_edit = Some (Suc i)\<rparr>" b])
         (auto simp: AddOrMergeEditHistory_def Let_def c upd applied_def history_ok_def)
  qed
qed

text \<open>An edit that does not merge becomes the last edit of the history.\<close>

lemma AddOrMerge_separate:
  assumes "applied h \<le> length (edit_history h)" and "e_merge_type e = DO_NOT_MERGE"
  shows "AddOrMergeEditHistory e h =
    Some (\<lparr>edit_history = take (applied h) (edit_history h) @ [e], current_edit = Some (applied h)\<rparr>, False)"
proof -
  define hs where "hs = take (applied h) (edit_history h)"
  have c: "ClearRedoHistory h = \<lparr>edit_history = hs, current_edit = current_edit h\<rparr>"
    using ClearRedoHistory_applied [OF assms(1)] by (simp add: hs_def)
  have "edit_Merge e' e = Some (e', False)" for e'
    using assms(2) by (simp add: edit_Merge_def)
  then show ?thesis
    unfolding hs_def [symmetric]
    by (cases "current_edit h") (simp_all add: AddOrMergeEditHistory_def Let_def c applied_def)
qed

lemma edit_redo_Commit [simp]: "edit_redo (edit_Commit e) t = edit_redo e t"
  by (simp add: edit_redo_def edit_Commit_def Let_def)

text \<open>Stepping back uncovers the text before the current edit; stepping forward applies the next.\<close>

lemma history_back_ok:
  assumes h: "history_ok t0 t h" and i: "current_edit h = Some i"
  obtains t' where "edit_redo (edit_history h ! i) t' = Some t" and "history_ok t0 t' (history_back i h)"
    and "applied (history_back i h) = i"
proof -
  let ?hs = "edit_history h"
  have len: "i < length ?hs" using h i by (simp add: history_ok_def applied_def)
  then have "play edit_redo (take i ?hs @ [?hs ! i]) t0 = Some t"
    using h i by (simp add: history_ok_def applied_def take_Suc_conv_app_nth)
  then obtain t' where t': "play edit_redo (take i ?hs) t0 = Some t'" "edit_redo (?hs ! i) t' = Some t"
    by (auto simp: play_snoc_Some)
  have "play edit_redo (?hs[i := edit_Commit (?hs ! i)]) t0 = play edit_redo ?hs t0"
    by (rule play_cong) simp
  moreover have "list_all edit_wf (?hs[i := edit_Commit (?hs ! i)])"
    using h len by (auto simp: history_ok_def list_all_length nth_list_update edit_wf_def edit_Commit_def)
  moreover have a: "applied (history_back i h) = i"
    by (simp add: history_back_def applied_def)
  ultimately have "history_ok t0 t' (history_back i h)"
    using h len t'(1) unfolding history_ok_def a by (simp add: history_back_def)
  with t'(2) a that show thesis by blast
qed

lemma history_forward_ok:
  assumes h: "history_ok t0 t h" and k: "applied h < length (edit_history h)"
  obtains t' where "edit_redo (edit_history h ! applied h) t = Some t'"
    and "history_ok t0 t' (history_forward h)"
    and "current_edit (history_forward h) = Some (applied h)"
    and "edit_history (history_forward h) = edit_history h"
proof -
  let ?hs = "edit_history h" and ?k = "applied h"
  have "?hs = take ?k ?hs @ ?hs ! ?k # drop (Suc ?k) ?hs"
    using k by (rule id_take_nth_drop)
  then have "play edit_redo (take ?k ?hs @ ?hs ! ?k # drop (Suc ?k) ?hs) t0 \<noteq> None"
    using h by (simp add: history_ok_def)
  then obtain t' where t': "edit_redo (?hs ! ?k) t = Some t'"
    using h by (auto simp: history_ok_def play_append split: bind_splits)
  have f: "current_edit (history_forward h) = Some ?k" "edit_history (history_forward h) = ?hs"
    by (auto simp: history_forward_def applied_def split: option.splits)
  then have "applied (history_forward h) = Suc ?k" by (simp add: applied_def)
  then have "history_ok t0 t' (history_forward h)"
    using h k t' f by (simp add: history_ok_def take_Suc_conv_app_nth play_append)
  with t' f that show thesis by blast
qed

end
