(* ===== verification/Textfield_Model.thy ===== *)
theory Textfield_Model
  imports Render_Text Edit_History
begin

text \<open>
  \<open>views::TextfieldViewsModel\<close> (\<open>src/ui/views/controls/textfield/textfield_views_model.h\<close>, \<open>.cc\<close>): the
  editing model behind a text field, on top of \<open>Render_Text\<close> and \<open>Edit_History\<close>. Every public
  operation is a definition; an operation that throws \<open>std::out_of_range\<close> or fails a \<open>CHECK\<close> is
  \<open>None\<close>. \<open>DCHECK\<close>s, which release builds leave out, are preconditions of the theorems where they
  matter. The clipboard is not part of the model: \<open>Cut\<close> and \<open>Copy\<close> return the text they hand to
  it, \<open>Paste\<close> takes the text read from it. Delegate notifications are counted.
\<close>

section \<open>State\<close>

record textfield =
  tf_render :: render_text
  tf_history :: history
  tf_delegate :: bool
  tf_notified :: nat

record composition_text =
  ct_text :: string16
  ct_selection :: range

definition tf_init :: "bool \<Rightarrow> 32 word \<Rightarrow> bool \<Rightarrow> textfield" where
  "tf_init is_rtl selection_color delegate =
     \<lparr>tf_render = (rt_init is_rtl)\<lparr>rt_selection_color := selection_color\<rparr>,
      tf_history = \<lparr>edit_history = [], current_edit = None\<rparr>,
      tf_delegate = delegate, tf_notified = 0\<rparr>"

definition tf_GetText :: "textfield \<Rightarrow> string16" where
  "tf_GetText m = rt_text (tf_render m)"

definition tf_GetCursorPosition :: "textfield \<Rightarrow> nat" where
  "tf_GetCursorPosition m = rt_cursor_position (tf_render m)"

definition tf_HasSelection :: "textfield \<Rightarrow> bool" where
  "tf_HasSelection m \<longleftrightarrow> \<not> range_is_empty (rt_selection (tf_render m))"

definition tf_GetSelectedText :: "textfield \<Rightarrow> string16 option" where
  "tf_GetSelectedText m =
     str_substr (tf_GetText m) (range_GetMin (rt_selection (tf_render m)))
       (range_length (rt_selection (tf_render m)))"

definition tf_GetTextFromRange :: "range \<Rightarrow> textfield \<Rightarrow> string16 option" where
  "tf_GetTextFromRange rng m =
     (if range_IsValid rng \<and> range_GetMin rng < length (tf_GetText m)
      then str_substr (tf_GetText m) (range_GetMin rng) (range_length rng) else Some [])"

definition tf_GetTextRange :: "textfield \<Rightarrow> range" where
  "tf_GetTextRange m = mk_range 0 (length (tf_GetText m))"

definition tf_HasCompositionText :: "textfield \<Rightarrow> bool" where
  "tf_HasCompositionText m \<longleftrightarrow> \<not> range_is_empty (rt_composition_range (tf_render m))"

text \<open>A step of the text model alone.\<close>

definition on_render :: "(render_text \<Rightarrow> render_text) \<Rightarrow> textfield \<Rightarrow> textfield" where
  "on_render f m = m\<lparr>tf_render := f (tf_render m)\<rparr>"

definition notify_delegate :: "textfield \<Rightarrow> textfield" where
  "notify_delegate m = (if tf_delegate m then m\<lparr>tf_notified := Suc (tf_notified m)\<rparr> else m)"

section \<open>Composition\<close>

definition tf_ClearComposition :: "textfield \<Rightarrow> textfield option" where
  "tf_ClearComposition m =
     map_option (\<lambda>r. m\<lparr>tf_render := r\<rparr>) (rt_SetCompositionRange range_InvalidRange (tf_render m))"

definition tf_ConfirmCompositionText :: "rt_platform \<Rightarrow> textfield \<Rightarrow> textfield option" where
  "tf_ConfirmCompositionText pf m = do {
     let rng = rt_composition_range (tf_render m);
     txt \<leftarrow> str_substr (tf_GetText m) (r_start rng) (range_length rng);
     (h, _) \<leftarrow> AddOrMergeEditHistory (mk_InsertEdit False txt (r_start rng)) (tf_history m);
     m1 \<leftarrow> tf_ClearComposition (on_render (rt_SetCursorPosition pf (r_end rng)) (m\<lparr>tf_history := h\<rparr>));
     Some (notify_delegate m1)
   }"

definition tf_CancelCompositionText :: "rt_platform \<Rightarrow> textfield \<Rightarrow> textfield option" where
  "tf_CancelCompositionText pf m = do {
     let rng = rt_composition_range (tf_render m);
     m1 \<leftarrow> tf_ClearComposition m;
     new_text \<leftarrow> str_erase (tf_GetText m1) (r_start rng) (range_length rng);
     Some (notify_delegate
             (on_render (\<lambda>r. rt_SetCursorPosition pf (r_start rng) (rt_SetText new_text r)) m1))
   }"

text \<open>\<open>if (HasCompositionText()) ConfirmCompositionText();\<close> and the same with \<open>Cancel\<close>.\<close>

definition confirm_if_composing :: "rt_platform \<Rightarrow> textfield \<Rightarrow> textfield option" where
  "confirm_if_composing pf m =
     (if tf_HasCompositionText m then tf_ConfirmCompositionText pf m else Some m)"

definition cancel_if_composing :: "rt_platform \<Rightarrow> textfield \<Rightarrow> textfield option" where
  "cancel_if_composing pf m =
     (if tf_HasCompositionText m then tf_CancelCompositionText pf m else Some m)"

section \<open>Executing edits\<close>

definition tf_ModifyText ::
  "rt_platform \<Rightarrow> nat \<Rightarrow> nat \<Rightarrow> string16 \<Rightarrow> nat \<Rightarrow> nat \<Rightarrow> textfield \<Rightarrow> textfield option" where
  "tf_ModifyText pf delete_from delete_to new_text new_text_insert_at new_cursor_pos m = do {
     let txt = tf_GetText m;
     m1 \<leftarrow> tf_ClearComposition m;
     (txt2, m2) \<leftarrow> (if delete_from \<noteq> delete_to
                   then do {
                     t \<leftarrow> str_erase txt delete_from (delete_to - delete_from);
                     Some (t, on_render (rt_SetText t) m1)
                   }
                   else Some (txt, m1));
     m3 \<leftarrow> (if new_text \<noteq> []
           then do {
             t \<leftarrow> str_insert txt2 new_text_insert_at new_text;
             Some (on_render (rt_SetText t) m2)
           }
           else Some m2);
     Some (on_render (rt_SetCursorPosition pf new_cursor_pos) m3)
   }"

definition edit_Undo :: "rt_platform \<Rightarrow> edit \<Rightarrow> textfield \<Rightarrow> textfield option" where
  "edit_Undo pf e =
     tf_ModifyText pf (e_new_text_start e) (new_text_end e) (e_old_text e) (e_old_text_start e)
       (e_old_cursor_pos e)"

definition edit_Redo :: "rt_platform \<Rightarrow> edit \<Rightarrow> textfield \<Rightarrow> textfield option" where
  "edit_Redo pf e =
     tf_ModifyText pf (e_old_text_start e) (old_text_end e) (e_new_text e) (e_new_text_start e)
       (e_new_cursor_pos e)"

text \<open>The common tail of the three \<open>ExecuteAndRecord\<close> functions.\<close>

definition record_and_redo :: "rt_platform \<Rightarrow> edit \<Rightarrow> textfield \<Rightarrow> textfield option" where
  "record_and_redo pf e m = do {
     (h, _) \<leftarrow> AddOrMergeEditHistory e (tf_history m);
     edit_Redo pf e (m\<lparr>tf_history := h\<rparr>)
   }"

definition ExecuteAndRecordDelete :: "rt_platform \<Rightarrow> range \<Rightarrow> bool \<Rightarrow> textfield \<Rightarrow> textfield option" where
  "ExecuteAndRecordDelete pf rng mergeable m = do {
     let old_text_start = range_GetMin rng;
     txt \<leftarrow> str_substr (tf_GetText m) old_text_start (range_length rng);
     record_and_redo pf (mk_DeleteEdit mergeable txt old_text_start (range_is_reversed rng)) m
   }"

definition ExecuteAndRecordReplace ::
  "rt_platform \<Rightarrow> MergeType \<Rightarrow> nat \<Rightarrow> nat \<Rightarrow> string16 \<Rightarrow> nat \<Rightarrow> textfield \<Rightarrow> textfield option" where
  "ExecuteAndRecordReplace pf merge_type old_cursor_pos new_cursor_pos new_text new_text_start m = do {
     let sel = rt_selection (tf_render m);
     old_text \<leftarrow> tf_GetSelectedText m;
     record_and_redo pf (mk_ReplaceEdit merge_type old_text old_cursor_pos (range_GetMin sel)
        (range_is_reversed sel) new_cursor_pos new_text new_text_start) m
   }"

definition ExecuteAndRecordReplaceSelection ::
  "rt_platform \<Rightarrow> MergeType \<Rightarrow> string16 \<Rightarrow> textfield \<Rightarrow> textfield option" where
  "ExecuteAndRecordReplaceSelection pf merge_type new_text m =
     (let new_text_start = range_GetMin (rt_selection (tf_render m))
      in ExecuteAndRecordReplace pf merge_type (tf_GetCursorPosition m)
           (new_text_start + length new_text) new_text new_text_start m)"

definition ExecuteAndRecordInsert :: "rt_platform \<Rightarrow> string16 \<Rightarrow> bool \<Rightarrow> textfield \<Rightarrow> textfield option" where
  "ExecuteAndRecordInsert pf txt mergeable m =
     record_and_redo pf (mk_InsertEdit mergeable txt (tf_GetCursorPosition m)) m"

section \<open>Undo and redo\<close>

definition tf_Undo :: "rt_platform \<Rightarrow> textfield \<Rightarrow> (textfield \<times> bool) option" where
  "tf_Undo pf m =
     (if \<not> CanUndo (tf_history m) then Some (m, False)
      else do {
        m1 \<leftarrow> cancel_if_composing pf m;
        i \<leftarrow> current_edit (tf_history m1);
        m2 \<leftarrow> edit_Undo pf (edit_history (tf_history m1) ! i) m1;
        let m3 = m2\<lparr>tf_history := history_back i (tf_history m2)\<rparr>;
        Some (m3, tf_GetText m1 \<noteq> tf_GetText m3 \<or> tf_GetCursorPosition m1 \<noteq> tf_GetCursorPosition m3)
      })"

definition tf_Redo :: "rt_platform \<Rightarrow> textfield \<Rightarrow> (textfield \<times> bool) option" where
  "tf_Redo pf m =
     (if \<not> CanRedo (tf_history m) then Some (m, False)
      else do {
        m1 \<leftarrow> cancel_if_composing pf m;
        let m2 = m1\<lparr>tf_history := history_forward (tf_history m1)\<rparr>;
        i \<leftarrow> current_edit (tf_history m2);
        m3 \<leftarrow> edit_Redo pf (edit_history (tf_history m2) ! i) m2;
        Some (m3, tf_GetText m2 \<noteq> tf_GetText m3 \<or> tf_GetCursorPosition m2 \<noteq> tf_GetCursorPosition m3)
      })"

section \<open>Caret and selection\<close>

definition tf_MoveCursor ::
  "rt_platform \<Rightarrow> BreakType \<Rightarrow> VisualCursorDirection \<Rightarrow> bool \<Rightarrow> textfield \<Rightarrow> textfield option" where
  "tf_MoveCursor pf break_type direction select m =
     map_option (on_render (rt_MoveCursor pf break_type direction select)) (confirm_if_composing pf m)"

definition tf_MoveCursorTo ::
  "rt_platform \<Rightarrow> selection_model \<Rightarrow> textfield \<Rightarrow> (textfield \<times> bool) option" where
  "tf_MoveCursorTo pf model m =
     (if tf_HasCompositionText m
      then do {
        m1 \<leftarrow> tf_ConfirmCompositionText pf m;
        let rng = mk_range (r_start (rt_selection (tf_render m1))) (caret_pos model);
        let (r, b) = (if \<not> range_is_empty rng then rt_SelectRange pf rng (tf_render m1)
                      else rt_MoveCursorTo pf (mk_caret (caret_pos model) (caret_affinity model))
                             (tf_render m1));
        Some (m1\<lparr>tf_render := r\<rparr>, b)
      }
      else let (r, b) = rt_MoveCursorTo pf model (tf_render m) in Some (m\<lparr>tf_render := r\<rparr>, b))"

definition tf_MoveCursorTo_point ::
  "rt_platform \<Rightarrow> point \<Rightarrow> bool \<Rightarrow> textfield \<Rightarrow> (textfield \<times> bool) option" where
  "tf_MoveCursorTo_point pf pt select m =
     map_option (\<lambda>m1. let (r, b) = rt_MoveCursorTo_point pf pt select (tf_render m1)
                      in (m1\<lparr>tf_render := r\<rparr>, b)) (confirm_if_composing pf m)"

definition tf_SelectRange :: "rt_platform \<Rightarrow> range \<Rightarrow> textfield \<Rightarrow> textfield option" where
  "tf_SelectRange pf rng m =
     map_option (on_render (\<lambda>r. fst (rt_SelectRange pf rng r))) (confirm_if_composing pf m)"

definition tf_SelectSelectionModel :: "rt_platform \<Rightarrow> selection_model \<Rightarrow> textfield \<Rightarrow> textfield option" where
  "tf_SelectSelectionModel pf sel m =
     map_option (on_render (\<lambda>r. fst (rt_MoveCursorTo pf sel r))) (confirm_if_composing pf m)"

definition tf_SelectAll :: "rt_platform \<Rightarrow> textfield \<Rightarrow> textfield option" where
  "tf_SelectAll pf m = map_option (on_render (rt_SelectAll pf)) (confirm_if_composing pf m)"

definition tf_SelectWord :: "rt_platform \<Rightarrow> textfield \<Rightarrow> textfield option" where
  "tf_SelectWord pf m = map_option (on_render (rt_SelectWord pf)) (confirm_if_composing pf m)"

definition tf_ClearSelection :: "rt_platform \<Rightarrow> textfield \<Rightarrow> textfield option" where
  "tf_ClearSelection pf m = map_option (on_render rt_ClearSelection) (confirm_if_composing pf m)"

section \<open>Editing\<close>

definition tf_InsertTextInternal :: "rt_platform \<Rightarrow> string16 \<Rightarrow> bool \<Rightarrow> textfield \<Rightarrow> textfield option" where
  "tf_InsertTextInternal pf txt mergeable m =
     (if tf_HasCompositionText m
      then do { m1 \<leftarrow> tf_CancelCompositionText pf m; ExecuteAndRecordInsert pf txt mergeable m1 }
      else if tf_HasSelection m
      then ExecuteAndRecordReplaceSelection pf (if mergeable then MERGEABLE else DO_NOT_MERGE) txt m
      else ExecuteAndRecordInsert pf txt mergeable m)"

definition tf_ReplaceTextInternal :: "rt_platform \<Rightarrow> string16 \<Rightarrow> bool \<Rightarrow> textfield \<Rightarrow> textfield option" where
  "tf_ReplaceTextInternal pf txt mergeable m = do {
     m1 \<leftarrow> (if tf_HasCompositionText m then tf_CancelCompositionText pf m
           else if \<not> tf_HasSelection m
           then let model = rt_selection_model (tf_render m);
                    next_index = rt_IndexOfAdjacentGrapheme pf (tf_GetCursorPosition m)
                                   CURSOR_FORWARD (tf_render m)
                in Some (on_render
                     (\<lambda>r. if next_index = caret_pos model then fst (rt_MoveCursorTo pf model r)
                          else fst (rt_SelectRange pf (mk_range next_index (caret_pos model)) r)) m)
           else Some m);
     tf_InsertTextInternal pf txt mergeable m1
   }"

definition tf_DeleteSelection :: "rt_platform \<Rightarrow> textfield \<Rightarrow> textfield option" where
  "tf_DeleteSelection pf m = ExecuteAndRecordDelete pf (rt_selection (tf_render m)) False m"

definition tf_DeleteSelectionAndInsertTextAt ::
  "rt_platform \<Rightarrow> string16 \<Rightarrow> nat \<Rightarrow> textfield \<Rightarrow> textfield option" where
  "tf_DeleteSelectionAndInsertTextAt pf txt position m = do {
     m1 \<leftarrow> cancel_if_composing pf m;
     ExecuteAndRecordReplace pf DO_NOT_MERGE (tf_GetCursorPosition m1) (position + length txt) txt
       position m1
   }"

definition tf_SetText :: "rt_platform \<Rightarrow> string16 \<Rightarrow> textfield \<Rightarrow> (textfield \<times> bool) option" where
  "tf_SetText pf txt m = do {
     let changed = tf_HasCompositionText m;
     m1 \<leftarrow> confirm_if_composing pf m;
     m2 \<leftarrow> (if tf_GetText m1 \<noteq> txt
           then do {
             ma \<leftarrow> (if changed then map_option fst (tf_Undo pf m1) else Some m1);
             mb \<leftarrow> tf_SelectAll pf ma;
             mc \<leftarrow> ExecuteAndRecordReplace pf (if changed then DO_NOT_MERGE else MERGE_WITH_PREVIOUS)
                     (tf_GetCursorPosition ma) (length txt) txt 0 mb;
             Some (on_render (rt_SetCursorPosition pf (length txt)) mc)
           }
           else Some m1);
     m3 \<leftarrow> tf_ClearSelection pf m2;
     Some (m3, changed)
   }"

definition tf_Append :: "rt_platform \<Rightarrow> string16 \<Rightarrow> textfield \<Rightarrow> textfield option" where
  "tf_Append pf txt m = do {
     m1 \<leftarrow> confirm_if_composing pf m;
     m2 \<leftarrow> tf_MoveCursor pf LINE_BREAK (rt_GetVisualDirectionOfLogicalEnd pf (tf_render m1)) False m1;
     m3 \<leftarrow> tf_InsertTextInternal pf txt False m2;
     tf_ClearSelection pf (on_render (rt_SetCursorPosition pf (tf_GetCursorPosition m1)) m3)
   }"

definition tf_Delete :: "rt_platform \<Rightarrow> textfield \<Rightarrow> (textfield \<times> bool) option" where
  "tf_Delete pf m =
     (if tf_HasCompositionText m
      then map_option (\<lambda>m1. (m1, True)) (tf_CancelCompositionText pf m)
      else if tf_HasSelection m then map_option (\<lambda>m1. (m1, True)) (tf_DeleteSelection pf m)
      else if length (tf_GetText m) > tf_GetCursorPosition m
      then let cursor_position = tf_GetCursorPosition m;
               next_grapheme_index = rt_IndexOfAdjacentGrapheme pf cursor_position CURSOR_FORWARD
                                       (tf_render m)
           in map_option (\<lambda>m1. (m1, True))
                (ExecuteAndRecordDelete pf (mk_range cursor_position next_grapheme_index) True m)
      else Some (m, False))"

definition tf_Backspace :: "rt_platform \<Rightarrow> textfield \<Rightarrow> (textfield \<times> bool) option" where
  "tf_Backspace pf m =
     (if tf_HasCompositionText m
      then map_option (\<lambda>m1. (m1, True)) (tf_CancelCompositionText pf m)
      else if tf_HasSelection m then map_option (\<lambda>m1. (m1, True)) (tf_DeleteSelection pf m)
      else let cursor_position = tf_GetCursorPosition m
           in if cursor_position > 0
              then let previous_char = UTF16OffsetToIndex (tf_GetText m) cursor_position (-1)
                   in map_option (\<lambda>m1. (m1, True))
                        (ExecuteAndRecordDelete pf (mk_range cursor_position previous_char) True m)
              else Some (m, False))"

text \<open>The second component of \<open>Cut\<close> and \<open>Copy\<close> is the text written to the clipboard; the call
  returns true exactly when there is one.\<close>

definition can_copy :: "textfield \<Rightarrow> bool" where
  "can_copy m \<longleftrightarrow> \<not> tf_HasCompositionText m \<and> tf_HasSelection m \<and> \<not> rt_obscured (tf_render m)"

definition tf_Cut :: "rt_platform \<Rightarrow> textfield \<Rightarrow> (textfield \<times> string16 option) option" where
  "tf_Cut pf m =
     (if can_copy m
      then do {
        txt \<leftarrow> tf_GetSelectedText m;
        let sel = rt_selection (tf_render m);
        m1 \<leftarrow> tf_DeleteSelection pf
                (on_render (\<lambda>r. fst (rt_SelectRange pf (mk_range (r_end sel) (r_start sel)) r)) m);
        Some (m1, Some txt)
      }
      else Some (m, None))"

definition tf_Copy :: "textfield \<Rightarrow> string16 option option" where
  "tf_Copy m = (if can_copy m then map_option Some (tf_GetSelectedText m) else Some None)"

definition tf_Paste :: "rt_platform \<Rightarrow> string16 \<Rightarrow> textfield \<Rightarrow> (textfield \<times> bool) option" where
  "tf_Paste pf clipboard_text m =
     (if clipboard_text \<noteq> []
      then map_option (\<lambda>m1. (m1, True)) (tf_InsertTextInternal pf clipboard_text False m)
      else Some (m, False))"

text \<open>\<open>SetCompositionText\<close> from the point where the old composition or selection is gone.\<close>

definition start_composition :: "rt_platform \<Rightarrow> composition_text \<Rightarrow> textfield \<Rightarrow> textfield option" where
  "start_composition pf composition m =
     (if ct_text composition = [] then Some m
      else do {
        let cursor = tf_GetCursorPosition m;
        new_text \<leftarrow> str_insert (tf_GetText m) cursor (ct_text composition);
        let rng = mk_range cursor (cursor + length (ct_text composition));
        r \<leftarrow> rt_SetCompositionRange rng (rt_SetText new_text (tf_render m));
        let clamp = (\<lambda>p. min ((r_start rng + p) mod (size_t_max + 1)) (r_end rng));
        Some (m\<lparr>tf_render :=
          (if range_IsValid (ct_selection composition)
           then fst (rt_SelectRange pf (mk_range (clamp (r_start (ct_selection composition)))
                                                 (clamp (r_end (ct_selection composition)))) r)
           else rt_SetCursorPosition pf (r_end rng) r)\<rparr>)
      })"

definition tf_SetCompositionText :: "rt_platform \<Rightarrow> composition_text \<Rightarrow> textfield \<Rightarrow> textfield option" where
  "tf_SetCompositionText pf composition m = do {
     m1 \<leftarrow> (if tf_HasCompositionText m then tf_CancelCompositionText pf m
           else if tf_HasSelection m then tf_DeleteSelection pf m else Some m);
     start_composition pf composition m1
   }"

section \<open>Invariant\<close>

text \<open>The text without the text under composition: the text the history describes.\<close>

definition committed :: "textfield \<Rightarrow> string16" where
  "committed m =
     (if tf_HasCompositionText m
      then let c = rt_composition_range (tf_render m)
           in take (r_start c) (tf_GetText m) @ drop (r_end c) (tf_GetText m)
      else tf_GetText m)"

definition composition_ok :: "render_text \<Rightarrow> bool" where
  "composition_ok r \<longleftrightarrow>
     rt_composition_range r = range_InvalidRange \<or>
     r_start (rt_composition_range r) < r_end (rt_composition_range r) \<and>
     r_end (rt_composition_range r) \<le> length (rt_text r)"

definition tf_ok :: "string16 \<Rightarrow> textfield \<Rightarrow> bool" where
  "tf_ok t0 m \<longleftrightarrow>
     rt_ok (tf_render m) \<and> composition_ok (tf_render m) \<and> history_ok t0 (committed m) (tf_history m)"

text \<open>Nothing is being composed and the text is \<open>t\<close>.\<close>

definition tf_plain :: "string16 \<Rightarrow> string16 \<Rightarrow> textfield \<Rightarrow> bool" where
  "tf_plain t0 t m \<longleftrightarrow> tf_ok t0 m \<and> \<not> tf_HasCompositionText m \<and> tf_GetText m = t"

text \<open>Texts short enough for \<open>Range::length()\<close>.\<close>

definition tf_small :: "textfield \<Rightarrow> bool" where
  "tf_small m \<longleftrightarrow> length (tf_GetText m) < 2147483648"

lemma tf_plain_ok: "tf_plain t0 t m \<Longrightarrow> tf_ok t0 m"
  by (simp add: tf_plain_def)

lemma tf_plain_committed: "tf_plain t0 t m \<Longrightarrow> committed m = t"
  by (simp add: tf_plain_def committed_def)

lemma tf_plain_history: "tf_plain t0 t m \<Longrightarrow> history_ok t0 t (tf_history m)"
  by (metis tf_ok_def tf_plain_committed tf_plain_ok)

lemma tf_plainD: "tf_plain t0 t m \<Longrightarrow> rt_ok (tf_render m) \<and> tf_GetText m = t"
  by (simp add: tf_plain_def tf_ok_def)

lemma tf_plainI: "tf_ok t0 m \<Longrightarrow> \<not> tf_HasCompositionText m \<Longrightarrow> tf_plain t0 (tf_GetText m) m"
  by (simp add: tf_plain_def)

lemma tf_init_ok: "tf_plain [] [] (tf_init is_rtl col del)"
  using rt_init_ok [of is_rtl]
  by (simp add: tf_plain_def tf_ok_def tf_init_def composition_ok_def committed_def
      tf_HasCompositionText_def rt_init_def history_ok_empty rt_ok_def rt_selection_def tf_GetText_def)

text \<open>Steps that only move the caret or the selection.\<close>

lemma on_render_moves:
  assumes "\<And>r. rt_moves r (f r)"
  shows "tf_GetText (on_render f m) = tf_GetText m"
    and "tf_HasCompositionText (on_render f m) = tf_HasCompositionText m"
    and "tf_ok t0 m \<Longrightarrow> tf_ok t0 (on_render f m)"
    and "tf_plain t0 t m \<Longrightarrow> tf_plain t0 t (on_render f m)"
    and "tf_history (on_render f m) = tf_history m"
proof -
  note t = rt_moves_text [OF assms, of "tf_render m"] and c = rt_moves_comp [OF assms, of "tf_render m"]
  show tx: "tf_GetText (on_render f m) = tf_GetText m"
    and comp: "tf_HasCompositionText (on_render f m) = tf_HasCompositionText m"
    and hist: "tf_history (on_render f m) = tf_history m"
    by (simp_all add: tf_GetText_def tf_HasCompositionText_def on_render_def t c)
  have "committed (on_render f m) = committed m"
    by (simp add: committed_def tx comp) (simp add: on_render_def c)
  moreover have "rt_ok (tf_render m) \<Longrightarrow> rt_ok (tf_render (on_render f m))"
    using rt_moves_ok [OF assms] by (simp add: on_render_def)
  moreover have "composition_ok (tf_render (on_render f m)) = composition_ok (tf_render m)"
    by (simp add: composition_ok_def on_render_def t c)
  ultimately show ok: "tf_ok t0 m \<Longrightarrow> tf_ok t0 (on_render f m)"
    by (simp add: tf_ok_def hist)
  then show "tf_plain t0 t m \<Longrightarrow> tf_plain t0 t (on_render f m)"
    by (simp add: tf_plain_def tx comp)
qed

lemma tf_cursor_le: "tf_ok t0 m \<Longrightarrow> tf_GetCursorPosition m \<le> length (tf_GetText m)"
  using rt_buffer.caret_le by (simp add: tf_ok_def tf_GetCursorPosition_def tf_GetText_def)

lemma tf_selection_le: "tf_ok t0 m \<Longrightarrow> range_GetMax (rt_selection (tf_render m)) \<le> length (tf_GetText m)"
  by (simp add: tf_ok_def rt_ok_def tf_GetText_def)

section \<open>Edits change the text as recorded\<close>

lemma ClearComposition_eq:
  "tf_ClearComposition m = Some (on_render (\<lambda>r. r\<lparr>rt_composition_range := range_InvalidRange\<rparr>) m)"
  by (simp add: tf_ClearComposition_def rt_SetCompositionRange_def on_render_def)

lemma clear_rt_ok: "rt_ok r \<Longrightarrow> rt_ok (r\<lparr>rt_composition_range := range_InvalidRange\<rparr>)"
  by (simp add: rt_ok_def rt_selection_def)

lemma ModifyText_spec:
  assumes ok: "rt_ok (tf_render m)" and tx: "tf_GetText m = spliced u p del"
    and p: "p \<le> length u \<or> del = []" and q: "q \<le> length u \<or> ins = []" and e: "e = p + length del"
  shows "ensures (tf_ModifyText pf p e ins q c m)
    (\<lambda>m'. tf_GetText m' = spliced u q ins \<and> rt_ok (tf_render m') \<and>
          rt_composition_range (tf_render m') = range_InvalidRange \<and> tf_history m' = tf_history m)"
proof -
  define b where "b = (tf_render m)\<lparr>rt_composition_range := range_InvalidRange\<rparr>"
  define b' where "b' = rt_SetCursorPosition pf c
    (if ins \<noteq> [] then rt_SetText (spliced u q ins) (if del \<noteq> [] then rt_SetText u b else b)
     else if del \<noteq> [] then rt_SetText u b else b)"
  have b: "rt_ok b" "\<not> rt_composing b" "rt_text b = spliced u p del"
    using ok tx by (auto simp: b_def clear_rt_ok rt_composing_def tf_GetText_def)
  have "tf_ModifyText pf p e ins q c m = Some (m\<lparr>tf_render := b'\<rparr>)"
    using tx p q
    by (cases "del = []"; cases "ins = []")
       (auto simp: tf_ModifyText_def ClearComposition_eq on_render_def string_simps e b'_def b_def)
  moreover have "rt_text b' = spliced u q ins" "rt_ok b'" "\<not> rt_composing b'"
    unfolding b'_def by (rule rt_buffer.replace_piece [OF b])+
  ultimately show ?thesis
    by (simp add: tf_GetText_def rt_composing_def range_IsValid_def)
qed

lemma edit_Redo_spec:
  assumes "rt_ok (tf_render m)" and "edit_redo e (tf_GetText m) = Some t'"
  shows "ensures (edit_Redo pf e m)
    (\<lambda>m'. tf_GetText m' = t' \<and> rt_ok (tf_render m') \<and>
          rt_composition_range (tf_render m') = range_InvalidRange \<and> tf_history m' = tf_history m)"
proof -
  obtain u where "e_old_text_start e \<le> length u" "e_new_text_start e \<le> length u \<or> e_new_text e = []"
      "tf_GetText m = spliced u (e_old_text_start e) (e_old_text e)"
      and t': "t' = spliced u (e_new_text_start e) (e_new_text e)"
    using assms(2) by (auto simp: edit_redo_iff)
  then show ?thesis
    unfolding edit_Redo_def t' using assms(1) by (intro ModifyText_spec) (auto simp: old_text_end_def)
qed

lemma edit_Undo_spec:
  assumes "rt_ok (tf_render m)" and "edit_redo e t = Some (tf_GetText m)"
  shows "ensures (edit_Undo pf e m)
    (\<lambda>m'. tf_GetText m' = t \<and> rt_ok (tf_render m') \<and>
          rt_composition_range (tf_render m') = range_InvalidRange \<and> tf_history m' = tf_history m)"
proof -
  obtain u where "e_old_text_start e \<le> length u" "e_new_text_start e \<le> length u \<or> e_new_text e = []"
      "tf_GetText m = spliced u (e_new_text_start e) (e_new_text e)"
      and t: "t = spliced u (e_old_text_start e) (e_old_text e)"
    using assms(2) by (auto simp: edit_redo_iff)
  then show ?thesis
    unfolding edit_Undo_def t using assms(1) by (intro ModifyText_spec) (auto simp: new_text_end_def)
qed

lemma plain_from_parts:
  assumes "rt_ok (tf_render m)" and "rt_composition_range (tf_render m) = range_InvalidRange"
    and "tf_GetText m = t" and "history_ok t0 t (tf_history m)"
  shows "tf_plain t0 t m"
  using assms
  by (simp add: tf_plain_def tf_ok_def composition_ok_def tf_HasCompositionText_def committed_def)

lemma record_and_redo_spec:
  assumes plain: "tf_plain t0 t m" and e: "edit_fits t e" "edit_redo e t = Some t'"
  shows "ensures (record_and_redo pf e m) (\<lambda>m'. tf_plain t0 t' m' \<and> CanUndo (tf_history m') \<and> \<not> CanRedo (tf_history m'))"
proof -
  obtain h b where h: "AddOrMergeEditHistory e (tf_history m) = Some (h, b)" "history_ok t0 t' h"
      "applied h = length (edit_history h)" "0 < applied h"
    using AddOrMerge_ok [OF tf_plain_history [OF plain] e] by metis
  have "ensures (edit_Redo pf e (m\<lparr>tf_history := h\<rparr>))
    (\<lambda>m'. tf_GetText m' = t' \<and> rt_ok (tf_render m') \<and>
          rt_composition_range (tf_render m') = range_InvalidRange \<and> tf_history m' = h)"
    using edit_Redo_spec [of "m\<lparr>tf_history := h\<rparr>" e t' pf] plain e(2)
    by (simp add: tf_plain_def tf_ok_def tf_GetText_def)
  then show ?thesis
    using h by (auto simp: record_and_redo_def CanUndo_applied CanRedo_applied
        elim!: ensures_mono intro: plain_from_parts)
qed

section \<open>Composition, undo and redo\<close>

lemma notify_delegate_simps [simp]:
  "tf_render (notify_delegate m) = tf_render m" "tf_history (notify_delegate m) = tf_history m"
  "tf_GetText (notify_delegate m) = tf_GetText m"
  by (simp_all add: notify_delegate_def tf_GetText_def)

lemma composing_bounds:
  assumes "tf_ok t0 m" and "tf_HasCompositionText m" and "tf_small m"
  defines "c \<equiv> rt_composition_range (tf_render m)"
  shows "r_start c < r_end c" and "r_end c \<le> length (tf_GetText m)"
    and "range_length c = r_end c - r_start c"
proof -
  show *: "r_start c < r_end c" "r_end c \<le> length (tf_GetText m)"
    using assms by (auto simp: tf_ok_def composition_ok_def tf_HasCompositionText_def tf_GetText_def)
  then show "range_length c = r_end c - r_start c"
    using assms(3) by (subst range_length_spec) (auto simp: tf_small_def range_simps)
qed

lemma committed_le: "length (committed m) \<le> length (tf_GetText m)"
  if "tf_ok t0 m"
  using that by (auto simp: committed_def tf_ok_def composition_ok_def tf_HasCompositionText_def
      tf_GetText_def Let_def)

lemma SetCursorPosition_empty:
  "range_is_empty (rt_selection r) \<Longrightarrow> range_is_empty (rt_selection (rt_SetCursorPosition pf p r))"
  by (simp add: rt_SetCursorPosition_def rt_MoveCursorTo_pos_def Let_def)

lemma Cancel_spec:
  assumes ok: "tf_ok t0 m" and comp: "tf_HasCompositionText m" and small: "tf_small m"
  shows "ensures (tf_CancelCompositionText pf m)
    (\<lambda>m'. tf_plain t0 (committed m) m' \<and> tf_history m' = tf_history m \<and> \<not> tf_HasSelection m')"
proof -
  define c where "c = rt_composition_range (tf_render m)"
  note b = composing_bounds [OF ok comp small, folded c_def]
  have tx: "committed m = take (r_start c) (tf_GetText m) @ drop (r_end c) (tf_GetText m)"
    using comp by (simp add: committed_def c_def Let_def)
  define r where "r = rt_SetText (committed m) ((tf_render m)\<lparr>rt_composition_range := range_InvalidRange\<rparr>)"
  have r: "rt_ok r" "rt_text r = committed m" "rt_composition_range r = range_InvalidRange"
      "range_is_empty (rt_selection r)"
    using ok by (auto simp: r_def tf_ok_def clear_rt_ok rt_selection_def intro: rt_SetText_ok)
  note mv = SetCursorPosition_moves [of r pf "r_start c"]
  have "tf_CancelCompositionText pf m =
      Some (notify_delegate (m\<lparr>tf_render := rt_SetCursorPosition pf (r_start c) r\<rparr>))"
    using b by (simp add: tf_CancelCompositionText_def ClearComposition_eq on_render_def c_def [symmetric]
        str_erase_def tf_GetText_def r_def tx)
  moreover have "tf_plain t0 (committed m) (notify_delegate (m\<lparr>tf_render := rt_SetCursorPosition pf (r_start c) r\<rparr>))"
    using ok r rt_moves_ok [OF mv] rt_moves_text [OF mv] rt_moves_comp [OF mv]
    by (intro plain_from_parts) (simp_all add: tf_GetText_def tf_ok_def)
  ultimately show ?thesis
    using SetCursorPosition_empty [OF r(4)] by (simp add: tf_HasSelection_def)
qed

text \<open>Confirming keeps the text and records the composed text as an edit of its own.\<close>

lemma Confirm_spec:
  assumes ok: "tf_ok t0 m" and comp: "tf_HasCompositionText m" and small: "tf_small m"
  shows "ensures (tf_ConfirmCompositionText pf m)
    (\<lambda>m'. tf_plain t0 (tf_GetText m) m' \<and>
       (\<exists>i e. current_edit (tf_history m') = Some i \<and> edit_history (tf_history m') ! i = e \<and>
              edit_redo e (committed m) = Some (tf_GetText m)))"
proof -
  define c where "c = rt_composition_range (tf_render m)"
  note b = composing_bounds [OF ok comp small, folded c_def]
  define n where "n = r_end c - r_start c"
  define piece where "piece = take n (drop (r_start c) (tf_GetText m))"
  define e where "e = mk_InsertEdit False piece (r_start c)"
  define k where "k = applied (tf_history m)"
  define h where "h = \<lparr>edit_history = take k (edit_history (tf_history m)) @ [e], current_edit = Some k\<rparr>"
  have "committed m = take (r_start c) (tf_GetText m) @ drop (r_start c + n) (tf_GetText m)"
    using comp b by (simp add: committed_def c_def n_def Let_def)
  then have redo: "edit_redo e (committed m) = Some (tf_GetText m)"
    using spliced_cut [of "r_start c" n "tf_GetText m"] b
    unfolding edit_redo_iff by (intro exI [of _ "committed m"])
      (simp add: e_def mk_InsertEdit_def piece_def n_def)
  have hm: "history_ok t0 (committed m) (tf_history m)"
    using ok by (simp add: tf_ok_def)
  then have k: "k \<le> length (edit_history (tf_history m))"
    by (simp add: history_ok_def k_def)
  have add: "AddOrMergeEditHistory e (tf_history m) = Some (h, False)"
    unfolding h_def k_def using k by (intro AddOrMerge_separate) (simp_all add: e_def mk_InsertEdit_def k_def)
  have "edit_fits (committed m) e"
    by (simp add: e_def mk_InsertEdit_def edit_fits_def edit_wf_def)
  then have hok: "history_ok t0 (tf_GetText m) h"
    using AddOrMerge_ok [OF hm _ redo] add by (metis Pair_inject option.inject)
  define r where "r = (rt_SetCursorPosition pf (r_end c) (tf_render m))\<lparr>rt_composition_range := range_InvalidRange\<rparr>"
  note mv = SetCursorPosition_moves [of "tf_render m" pf "r_end c"]
  have conf: "tf_ConfirmCompositionText pf m = Some (notify_delegate (m\<lparr>tf_history := h, tf_render := r\<rparr>))"
    using b add by (simp add: tf_ConfirmCompositionText_def Let_def c_def [symmetric] str_substr_def
        n_def [symmetric] piece_def [symmetric] e_def [symmetric] ClearComposition_eq on_render_def r_def)
  have "tf_plain t0 (tf_GetText m) (notify_delegate (m\<lparr>tf_history := h, tf_render := r\<rparr>))"
    using ok hok clear_rt_ok [OF rt_moves_ok [OF mv]] rt_moves_text [OF mv]
    by (intro plain_from_parts) (simp_all add: tf_GetText_def r_def tf_ok_def)
  moreover have "edit_history h ! k = e" using k by (simp add: h_def nth_append)
  ultimately show ?thesis
    using redo by (simp add: conf h_def)
qed

lemma confirm_if_spec:
  "tf_ok t0 m \<Longrightarrow> tf_small m \<Longrightarrow> ensures (confirm_if_composing pf m) (tf_plain t0 (tf_GetText m))"
  by (auto simp: confirm_if_composing_def tf_plainI elim!: ensures_mono [OF Confirm_spec])

lemma cancel_if_spec:
  "tf_ok t0 m \<Longrightarrow> tf_HasCompositionText m \<longrightarrow> tf_small m \<Longrightarrow> ensures (cancel_if_composing pf m)
     (\<lambda>m'. tf_plain t0 (committed m) m' \<and> tf_history m' = tf_history m \<and>
           (if tf_HasCompositionText m then \<not> tf_HasSelection m' else m' = m))"
  by (cases "tf_HasCompositionText m")
     (simp_all add: cancel_if_composing_def Cancel_spec, simp add: tf_plain_def committed_def)

lemma Undo_spec:
  assumes ok: "tf_ok t0 m" and small: "tf_HasCompositionText m \<longrightarrow> tf_small m" and i: "current_edit (tf_history m) = Some i"
    and redo: "edit_redo (edit_history (tf_history m) ! i) t = Some (committed m)"
  shows "ensures (tf_Undo pf m) (\<lambda>(m', b). tf_plain t0 t m' \<and> tf_history m' = history_back i (tf_history m))"
proof -
  have h: "history_ok t0 (committed m) (tf_history m)" using ok by (simp add: tf_ok_def)
  then have cn: "CanUndo (tf_history m)"
    using i by (auto simp: history_ok_def applied_def CanUndo_def)
  have bk: "history_ok t0 t (history_back i (tf_history m))"
    using history_back_ok [OF h i] redo edits.redo_injective by metis
  have step: "ensures (edit_Undo pf (edit_history (tf_history m) ! i) m1)
      (\<lambda>m2. tf_plain t0 t (m2\<lparr>tf_history := history_back i (tf_history m2)\<rparr>) \<and> tf_history m2 = tf_history m)"
    if "tf_plain t0 (committed m) m1" "tf_history m1 = tf_history m" for m1
    using edit_Undo_spec [of m1 "edit_history (tf_history m) ! i" t pf] tf_plainD [OF that(1)] that(2) redo bk
    by (auto elim!: ensures_mono intro!: plain_from_parts simp: tf_GetText_def)
  show ?thesis
    unfolding tf_Undo_def using cn i
    by (auto intro!: ensures_bind [OF cancel_if_spec [OF ok small]] ensures_bind [OF step] simp: Let_def)
qed

lemma Redo_spec:
  assumes ok: "tf_ok t0 m" and small: "tf_HasCompositionText m \<longrightarrow> tf_small m" and cn: "CanRedo (tf_history m)"
    and redo: "edit_redo (edit_history (tf_history m) ! applied (tf_history m)) (committed m) = Some t"
  shows "ensures (tf_Redo pf m) (\<lambda>(m', b). tf_plain t0 t m' \<and> tf_history m' = history_forward (tf_history m))"
proof -
  have h: "history_ok t0 (committed m) (tf_history m)" using ok by (simp add: tf_ok_def)
  then have "applied (tf_history m) < length (edit_history (tf_history m))"
    using cn by (auto simp: history_ok_def CanRedo_applied)
  from history_forward_ok [OF h this] redo
  have fwd: "history_ok t0 t (history_forward (tf_history m))"
      "current_edit (history_forward (tf_history m)) = Some (applied (tf_history m))"
      "edit_history (history_forward (tf_history m)) = edit_history (tf_history m)"
    by (metis option.inject)+
  have step: "ensures (edit_Redo pf (edit_history (tf_history m) ! applied (tf_history m))
        (m1\<lparr>tf_history := history_forward (tf_history m)\<rparr>))
      (\<lambda>m2. tf_plain t0 t m2 \<and> tf_history m2 = history_forward (tf_history m))"
    if "tf_plain t0 (committed m) m1" for m1
    using edit_Redo_spec [of "m1\<lparr>tf_history := history_forward (tf_history m)\<rparr>"
        "edit_history (tf_history m) ! applied (tf_history m)" t pf]
      tf_plainD [OF that] redo fwd
    by (auto elim!: ensures_mono intro!: plain_from_parts simp: tf_GetText_def)
  show ?thesis
    unfolding tf_Redo_def using cn fwd
    by (auto intro!: ensures_bind [OF cancel_if_spec [OF ok small]] ensures_bind [OF step] simp: Let_def)
qed

section \<open>Editing operations\<close>

text \<open>A text with the piece under a range taken out.\<close>

definition cut_range :: "range \<Rightarrow> 'a list \<Rightarrow> 'a list" where
  "cut_range rng t = take (range_GetMin rng) t @ drop (range_GetMax rng) t"

definition text_under :: "range \<Rightarrow> 'a list \<Rightarrow> 'a list" where
  "text_under rng t = take (range_GetMax rng - range_GetMin rng) (drop (range_GetMin rng) t)"

lemma cut_range_empty [simp]: "range_is_empty rng \<Longrightarrow> cut_range rng t = t"
  by (simp add: cut_range_def range_simps)

lemma length_cut_range:
  "range_GetMax rng \<le> length t \<Longrightarrow> length (cut_range rng t) = length t - (range_GetMax rng - range_GetMin rng)"
  using range_GetMin_le_GetMax [of rng] by (simp add: cut_range_def)

lemma substr_under:
  assumes "range_GetMax rng \<le> length t" and "length t < 2147483648"
  shows "str_substr t (range_GetMin rng) (range_length rng) = Some (text_under rng t)"
  using assms range_GetMin_le_GetMax [of rng]
  by (simp add: str_substr_def text_under_def range_length_spec)

lemma GetSelectedText_spec:
  assumes "tf_ok t0 m" and "tf_small m"
  shows "tf_GetSelectedText m = Some (text_under (rt_selection (tf_render m)) (tf_GetText m))"
  using assms tf_selection_le [of t0 m] by (simp add: tf_GetSelectedText_def substr_under tf_small_def)

lemma edit_redo_replace:
  assumes "range_GetMax rng \<le> length t" and "ns \<le> length (cut_range rng t)"
    and "e_old_text e = text_under rng t" and "e_old_text_start e = range_GetMin rng"
    and "e_new_text_start e = ns"
  shows "edit_redo e t = Some (spliced (cut_range rng t) ns (e_new_text e))"
proof -
  have "spliced (cut_range rng t) (range_GetMin rng) (text_under rng t) = t"
    using spliced_cut [of "range_GetMin rng" "range_GetMax rng - range_GetMin rng" t] assms(1)
      range_GetMin_le_GetMax [of rng] by (simp add: cut_range_def text_under_def)
  moreover have "range_GetMin rng \<le> length (cut_range rng t)"
    using assms(1) range_GetMin_le_GetMax [of rng] by (simp add: cut_range_def)
  ultimately show ?thesis
    unfolding edit_redo_iff using assms by (intro exI [of _ "cut_range rng t"]) simp
qed

lemma Delete_spec:
  assumes plain: "tf_plain t0 t m" and small: "tf_small m" and rng: "range_GetMax rng \<le> length t"
  shows "ensures (ExecuteAndRecordDelete pf rng mergeable m)
    (\<lambda>m'. tf_plain t0 (cut_range rng t) m' \<and> CanUndo (tf_history m') \<and> \<not> CanRedo (tf_history m'))"
proof -
  let ?e = "mk_DeleteEdit mergeable (text_under rng t) (range_GetMin rng) (range_is_reversed rng)"
  have t: "tf_GetText m = t" using plain by (simp add: tf_plain_def)
  have sub: "str_substr t (range_GetMin rng) (range_length rng) = Some (text_under rng t)"
    using rng small t by (simp add: substr_under tf_small_def)
  have "range_GetMin rng \<le> length (cut_range rng t)"
    using rng range_GetMin_le_GetMax [of rng] by (simp add: cut_range_def)
  then have "edit_redo ?e t = Some (cut_range rng t)"
    using edit_redo_replace [OF rng, of "range_GetMin rng" ?e] by (simp add: mk_DeleteEdit_def)
  moreover have "edit_fits t ?e"
    by (simp add: edit_fits_def edit_wf_def mk_DeleteEdit_def)
  ultimately show ?thesis
    using record_and_redo_spec [OF plain] by (simp add: ExecuteAndRecordDelete_def t sub)
qed

lemma Replace_spec:
  assumes plain: "tf_plain t0 t m" and small: "tf_small m" and sel: "rt_selection (tf_render m) = rng"
    and ns: "ns \<le> length (cut_range rng t)"
    and mergeable: "mt = MERGEABLE \<Longrightarrow> ns = range_GetMin rng"
    and forced: "mt = MERGE_WITH_PREVIOUS \<Longrightarrow> ns = 0 \<and> range_GetMin rng = 0 \<and> range_GetMax rng = length t"
  shows "ensures (ExecuteAndRecordReplace pf mt oc nc new ns m)
    (\<lambda>m'. tf_plain t0 (spliced (cut_range rng t) ns new) m' \<and> CanUndo (tf_history m') \<and> \<not> CanRedo (tf_history m'))"
proof -
  let ?e = "mk_ReplaceEdit mt (text_under rng t) oc (range_GetMin rng) (range_is_reversed rng) nc new ns"
  have t: "tf_GetText m = t" and le: "range_GetMax rng \<le> length t"
    using plain tf_selection_le [of t0 m] sel by (auto simp: tf_plain_def)
  have "tf_GetSelectedText m = Some (text_under rng t)"
    using GetSelectedText_spec [OF tf_plain_ok [OF plain] small] sel t by simp
  moreover have "edit_redo ?e t = Some (spliced (cut_range rng t) ns new)"
    using edit_redo_replace [OF le ns, of ?e] by (simp add: mk_ReplaceEdit_def)
  moreover have "edit_fits t ?e"
    using mergeable forced by (simp add: edit_fits_def edit_wf_def mk_ReplaceEdit_def text_under_def)
  ultimately show ?thesis
    using record_and_redo_spec [OF plain] by (simp add: ExecuteAndRecordReplace_def sel)
qed

lemma Insert_spec:
  assumes plain: "tf_plain t0 t m"
  shows "ensures (ExecuteAndRecordInsert pf txt mergeable m)
    (\<lambda>m'. tf_plain t0 (spliced t (tf_GetCursorPosition m) txt) m' \<and> CanUndo (tf_history m') \<and> \<not> CanRedo (tf_history m'))"
proof -
  let ?e = "mk_InsertEdit mergeable txt (tf_GetCursorPosition m)"
  have "tf_GetCursorPosition m \<le> length t"
    using tf_cursor_le [OF tf_plain_ok [OF plain]] plain by (simp add: tf_plain_def)
  then have "edit_redo ?e t = Some (spliced t (tf_GetCursorPosition m) txt)"
    by (simp add: edit_redo_def mk_InsertEdit_def)
  moreover have "edit_fits t ?e"
    by (simp add: edit_fits_def edit_wf_def mk_InsertEdit_def)
  ultimately show ?thesis
    using record_and_redo_spec [OF plain] by (simp add: ExecuteAndRecordInsert_def)
qed

lemma cursor_eq_GetMin: "\<not> tf_HasSelection m \<Longrightarrow> tf_GetCursorPosition m = range_GetMin (rt_selection (tf_render m))"
  by (simp add: tf_HasSelection_def tf_GetCursorPosition_def rt_cursor_position_def caret_pos_def
      rt_selection_def range_simps)

text \<open>Typing with no composition replaces the selection, which is empty at the caret when there
  is none.\<close>

lemma InsertText_spec:
  assumes plain: "tf_plain t0 t m" and small: "tf_small m"
  shows "ensures (tf_InsertTextInternal pf txt mergeable m)
    (\<lambda>m'. tf_plain t0 (spliced (cut_range (rt_selection (tf_render m)) t)
                         (range_GetMin (rt_selection (tf_render m))) txt) m' \<and>
          CanUndo (tf_history m') \<and> \<not> CanRedo (tf_history m'))"
proof (cases "tf_HasSelection m")
  case True
  let ?rng = "rt_selection (tf_render m)"
  have "range_GetMin ?rng \<le> length (cut_range ?rng t)"
    using tf_selection_le [OF tf_plain_ok [OF plain]] plain range_GetMin_le_GetMax [of ?rng]
    by (simp add: cut_range_def tf_plain_def)
  then have "ensures (ExecuteAndRecordReplaceSelection pf (if mergeable then MERGEABLE else DO_NOT_MERGE) txt m)
     (\<lambda>m'. tf_plain t0 (spliced (cut_range ?rng t) (range_GetMin ?rng) txt) m' \<and>
           CanUndo (tf_history m') \<and> \<not> CanRedo (tf_history m'))"
    unfolding ExecuteAndRecordReplaceSelection_def Let_def
    by (rule Replace_spec [OF plain small refl]) (simp_all split: if_splits)
  moreover have "\<not> tf_HasCompositionText m" using plain by (simp add: tf_plain_def)
  ultimately show ?thesis using True by (simp add: tf_InsertTextInternal_def)
next
  case False
  then show ?thesis
    using plain Insert_spec [OF plain] cursor_eq_GetMin [OF False]
    by (simp add: tf_InsertTextInternal_def tf_plain_def tf_HasSelection_def)
qed

lemma InsertText_ok:
  assumes ok: "tf_ok t0 m" and small: "tf_small m"
  shows "ensures (tf_InsertTextInternal pf txt mergeable m) (\<lambda>m'. \<exists>t. tf_plain t0 t m')"
proof (cases "tf_HasCompositionText m")
  case True
  then show ?thesis
    by (auto simp: tf_InsertTextInternal_def
        intro!: ensures_bind [OF Cancel_spec [OF ok True small]] elim!: ensures_mono [OF Insert_spec])
next
  case False
  from InsertText_spec [OF tf_plainI [OF ok False] small] show ?thesis
    by (rule ensures_mono) blast
qed

section \<open>Every operation keeps the model right\<close>

lemma tf_small_plain: "tf_plain t0 t m \<Longrightarrow> length t < 2147483648 \<Longrightarrow> tf_small m"
  by (simp add: tf_plain_def tf_small_def)

lemma after_confirm:
  assumes "tf_ok t0 m" and "tf_small m" and "\<And>r. rt_moves r (f r)"
  shows "ensures (map_option (on_render f) (confirm_if_composing pf m)) (tf_plain t0 (tf_GetText m))"
  using confirm_if_spec [OF assms(1,2), of pf] on_render_moves(4) [of f, OF assms(3)]
  by (auto elim: ensures_mono)

lemmas caret_operation_defs =
  tf_MoveCursor_def tf_SelectRange_def tf_SelectSelectionModel_def tf_SelectAll_def tf_SelectWord_def
  tf_ClearSelection_def

text \<open>Moving the caret and selecting confirm the composition and leave the text alone.\<close>

lemma caret_operations:
  assumes "tf_ok t0 m" and "tf_small m"
  shows "ensures (tf_MoveCursor pf bt dir sel m) (tf_plain t0 (tf_GetText m))"
    and "ensures (tf_SelectRange pf rng m) (tf_plain t0 (tf_GetText m))"
    and "ensures (tf_SelectSelectionModel pf model m) (tf_plain t0 (tf_GetText m))"
    and "ensures (tf_SelectAll pf m) (tf_plain t0 (tf_GetText m))"
    and "ensures (tf_SelectWord pf m) (tf_plain t0 (tf_GetText m))"
    and "ensures (tf_ClearSelection pf m) (tf_plain t0 (tf_GetText m))"
  unfolding caret_operation_defs by (rule after_confirm [OF assms], rule rt_move_facts)+

lemma plain_moves: "tf_plain t0 t m \<Longrightarrow> rt_moves (tf_render m) r \<Longrightarrow> tf_plain t0 t (m\<lparr>tf_render := r\<rparr>)"
  using on_render_moves(4) [of "\<lambda>x. if x = tf_render m then r else x" t0 t m]
  by (simp add: on_render_def)

lemma plain_move_results:
  "tf_plain t0 t m \<Longrightarrow> rt_SelectRange pf rng (tf_render m) = (r, b) \<Longrightarrow> tf_plain t0 t (m\<lparr>tf_render := r\<rparr>)"
  "tf_plain t0 t m \<Longrightarrow> rt_MoveCursorTo pf model (tf_render m) = (r, b) \<Longrightarrow> tf_plain t0 t (m\<lparr>tf_render := r\<rparr>)"
  "tf_plain t0 t m \<Longrightarrow> rt_MoveCursorTo_point pf pt sel (tf_render m) = (r, b) \<Longrightarrow> tf_plain t0 t (m\<lparr>tf_render := r\<rparr>)"
  by (metis fst_conv plain_moves SelectRange_moves, metis fst_conv plain_moves MoveCursorTo_moves,
      metis fst_conv plain_moves MoveCursorTo_point_moves)

lemma MoveCursorTo_spec:
  assumes ok: "tf_ok t0 m" and small: "tf_small m"
  shows "ensures (tf_MoveCursorTo pf model m) (\<lambda>(m', b). tf_plain t0 (tf_GetText m) m')"
proof (cases "tf_HasCompositionText m")
  case True
  then show ?thesis
    by (auto simp: tf_MoveCursorTo_def Let_def split: prod.split
        intro!: ensures_bind [OF Confirm_spec [OF ok True small]] elim: plain_move_results)
next
  case False
  then show ?thesis
    using tf_plainI [OF ok False]
    by (auto simp: tf_MoveCursorTo_def split: prod.split elim: plain_move_results)
qed

lemma MoveCursorTo_point_spec:
  assumes ok: "tf_ok t0 m" and small: "tf_small m"
  shows "ensures (tf_MoveCursorTo_point pf pt sel m) (\<lambda>(m', b). tf_plain t0 (tf_GetText m) m')"
  using confirm_if_spec [OF ok small, of pf]
  by (auto simp: tf_MoveCursorTo_point_def Let_def elim!: ensures_mono split: prod.split
      elim: plain_move_results)

lemma grapheme_forward_bounds:
  "index < len \<Longrightarrow> index < grapheme_forward cs len index \<and> grapheme_forward cs len index \<le> len"
proof (induction cs len index rule: grapheme_forward.induct)
  case (1 cs len index)
  moreover have "\<not> Suc index < len \<Longrightarrow> grapheme_forward cs len (Suc index) = len"
    by (simp add: grapheme_forward.simps)
  ultimately show ?case
    by (cases "Suc index < len") (auto simp: grapheme_forward.simps [of cs len index])
qed

lemma next_grapheme_bounds:
  assumes "index < length (rt_text r)"
  shows "index < rt_IndexOfAdjacentGrapheme pf index CURSOR_FORWARD r"
    and "rt_IndexOfAdjacentGrapheme pf index CURSOR_FORWARD r \<le> length (rt_text r)"
  using grapheme_forward_bounds [OF assms] assms by (simp_all add: rt_IndexOfAdjacentGrapheme_def)

lemma ReplaceText_ok:
  assumes ok: "tf_ok t0 m" and small: "tf_small m"
  shows "ensures (tf_ReplaceTextInternal pf txt mergeable m) (\<lambda>m'. \<exists>t. tf_plain t0 t m')"
proof -
  have *: "ensures (tf_InsertTextInternal pf txt mergeable m1) (\<lambda>m'. \<exists>t. tf_plain t0 t m')"
    if "tf_plain t0 (committed m) m1" for m1
    using InsertText_ok [OF tf_plain_ok [OF that]] tf_small_plain [OF that] committed_le [OF ok] small
    by (simp add: tf_small_def)
  show ?thesis
  proof (cases "tf_HasCompositionText m")
    case True
    with * show ?thesis
      by (auto simp: tf_ReplaceTextInternal_def intro!: ensures_bind [OF Cancel_spec [OF ok True small]])
  next
    case False
    then have "tf_plain t0 (committed m) m" by (simp add: ok tf_plain_def committed_def)
    with * False show ?thesis
      by (auto simp: tf_ReplaceTextInternal_def Let_def intro!: * on_render_moves(4) rt_move_facts)
  qed
qed

lemma DeleteSelection_spec:
  assumes plain: "tf_plain t0 t m" and small: "tf_small m"
  shows "ensures (tf_DeleteSelection pf m)
    (\<lambda>m'. tf_plain t0 (cut_range (rt_selection (tf_render m)) t) m' \<and> CanUndo (tf_history m') \<and> \<not> CanRedo (tf_history m'))"
  unfolding tf_DeleteSelection_def
  using plain tf_selection_le [OF tf_plain_ok [OF plain]] by (intro Delete_spec [OF plain small]) (simp add: tf_plain_def)

lemma Delete_key_spec:
  assumes plain: "tf_plain t0 t m" and small: "tf_small m" and "\<not> tf_HasSelection m"
  shows "ensures (tf_Delete pf m) (\<lambda>(m', b). b = (tf_GetCursorPosition m < length t) \<and>
     tf_plain t0 (if b then cut_range (mk_range (tf_GetCursorPosition m)
        (rt_IndexOfAdjacentGrapheme pf (tf_GetCursorPosition m) CURSOR_FORWARD (tf_render m))) t else t) m')"
proof (cases "tf_GetCursorPosition m < length t")
  case True
  with next_grapheme_bounds [of "tf_GetCursorPosition m" "tf_render m" pf]
  have "range_GetMax (mk_range (tf_GetCursorPosition m) (rt_IndexOfAdjacentGrapheme pf
     (tf_GetCursorPosition m) CURSOR_FORWARD (tf_render m))) \<le> length t"
    using plain by (simp add: tf_plain_def tf_GetText_def)
  from Delete_spec [OF plain small this, of pf True] show ?thesis
    using True assms by (auto simp: tf_Delete_def Let_def tf_plain_def elim: ensures_mono)
next
  case False
  then show ?thesis using assms by (auto simp: tf_Delete_def tf_plain_def)
qed

lemma Backspace_key_spec:
  assumes plain: "tf_plain t0 t m" and small: "tf_small m" and "\<not> tf_HasSelection m"
  shows "ensures (tf_Backspace pf m) (\<lambda>(m', b). b = (0 < tf_GetCursorPosition m) \<and>
     tf_plain t0 (if b then cut_range (mk_range (tf_GetCursorPosition m)
        (UTF16OffsetToIndex t (tf_GetCursorPosition m) (-1))) t else t) m')"
proof (cases "0 < tf_GetCursorPosition m")
  case True
  have "range_GetMax (mk_range (tf_GetCursorPosition m)
     (UTF16OffsetToIndex t (tf_GetCursorPosition m) (-1))) \<le> length t"
    using tf_cursor_le [OF tf_plain_ok [OF plain]] offset_back_one_less [OF True, of t] plain
    by (simp add: tf_plain_def)
  from Delete_spec [OF plain small this, of pf True] show ?thesis
    using True assms by (auto simp: tf_Backspace_def Let_def tf_plain_def elim: ensures_mono)
next
  case False
  then show ?thesis using assms by (auto simp: tf_Backspace_def tf_plain_def)
qed

lemma plain_confirm_if [simp]: "tf_plain t0 t m \<Longrightarrow> confirm_if_composing pf m = Some m"
  by (simp add: confirm_if_composing_def tf_plain_def)

lemma plain_ClearSelection: "tf_plain t0 t m \<Longrightarrow> ensures (tf_ClearSelection pf m) (tf_plain t0 t)"
  by (simp add: tf_ClearSelection_def on_render_moves(4) ClearSelection_moves)

text \<open>Selecting everything and replacing it.\<close>

lemma replace_all:
  assumes plain: "tf_plain t0 t m" and small: "length t < 2147483648" and mt: "mt \<noteq> MERGEABLE"
  shows "ensures (Option.bind (tf_SelectAll pf m) (\<lambda>mb.
           Option.bind (ExecuteAndRecordReplace pf mt oc nc txt 0 mb) (\<lambda>mc.
           Some (on_render (rt_SetCursorPosition pf c) mc)))) (tf_plain t0 txt)"
proof -
  define mb where "mb = on_render (rt_SelectAll pf) m"
  define rng where "rng = rt_selection (tf_render mb)"
  note sel = rng_def [symmetric]
  have mb: "tf_plain t0 t mb"
    unfolding mb_def using plain by (intro on_render_moves(4) SelectAll_moves)
  have "tf_GetText m = t" using plain by (simp add: tf_plain_def)
  then have rng: "range_GetMin rng = 0" "range_GetMax rng = length t"
    by (auto simp: rng_def mb_def on_render_def rt_SelectAll_def tf_GetText_def)
  then have "ensures (ExecuteAndRecordReplace pf mt oc nc txt 0 mb) (\<lambda>m'. tf_plain t0 txt m' \<and>
      CanUndo (tf_history m') \<and> \<not> CanRedo (tf_history m'))"
    using Replace_spec [OF mb tf_small_plain [OF mb small] sel, of "0" mt pf oc nc "txt"] mt
    by (simp add: cut_range_def)
  then show ?thesis
    using plain by (auto simp: tf_SelectAll_def mb_def [symmetric] elim!: ensures_bind
        intro!: on_render_moves(4) SetCursorPosition_moves)
qed

lemma SetText_tail:
  assumes "ensures c (tf_plain t0 txt)"
  shows "ensures (Option.bind c (\<lambda>m2. Option.bind (tf_ClearSelection pf m2) (\<lambda>m3. Some (m3, b))))
    (\<lambda>(m', b'). tf_plain t0 txt m' \<and> b' = b)"
  by (rule ensures_bind [OF assms], rule ensures_bind [OF plain_ClearSelection]) simp_all

lemma SetText_spec:
  assumes ok: "tf_ok t0 m" and small: "tf_small m"
  shows "ensures (tf_SetText pf txt m) (\<lambda>(m', b). tf_plain t0 txt m' \<and> b = tf_HasCompositionText m)"
proof (cases "tf_HasCompositionText m")
  case True
  have len: "length (committed m) < 2147483648"
    using committed_le [OF ok] small by (simp add: tf_small_def)
  have undo: "ensures (map_option fst (tf_Undo pf m1)) (tf_plain t0 (committed m))"
    if "tf_plain t0 (tf_GetText m) m1" "current_edit (tf_history m1) = Some i"
      "edit_redo (edit_history (tf_history m1) ! i) (committed m) = Some (tf_GetText m)" for m1 i
    using Undo_spec [OF tf_plain_ok [OF that(1)] _ that(2), of "committed m" pf] that small
      tf_plain_committed [OF that(1)] tf_small_plain [OF that(1)]
    by (auto simp: tf_small_def elim: ensures_mono)
  show ?thesis
    unfolding tf_SetText_def confirm_if_composing_def Let_def if_P [OF True]
  proof (rule ensures_bind [OF Confirm_spec [OF ok True small]], elim conjE exE, goal_cases)
    case (1 m1 i e)
    then show ?case
      using len tf_plainD [OF 1(1)]
      by (intro SetText_tail) (auto intro!: ensures_bind [OF undo] replace_all)
  qed
next
  case False
  note m = tf_plainI [OF ok False]
  with False small show ?thesis
    unfolding tf_SetText_def confirm_if_composing_def Let_def if_not_P [OF False]
    by (simp only: Option.bind.simps if_False)
       (rule SetText_tail, auto simp: tf_small_def intro!: replace_all)
qed

lemma Append_ok:
  assumes ok: "tf_ok t0 m" and small: "tf_small m"
  shows "ensures (tf_Append pf txt m) (\<lambda>m'. \<exists>t. tf_plain t0 t m')"
proof -
  have move: "ensures (tf_MoveCursor pf LINE_BREAK dir False m1) (tf_plain t0 (tf_GetText m))"
    if "tf_plain t0 (tf_GetText m) m1" for m1 dir
    using that by (simp add: tf_MoveCursor_def on_render_moves(4) MoveCursor_moves)
  have insert: "ensures (tf_InsertTextInternal pf txt False m2) (\<lambda>m'. \<exists>t. tf_plain t0 t m')"
    if "tf_plain t0 (tf_GetText m) m2" for m2
    using InsertText_ok [OF tf_plain_ok [OF that]] tf_small_plain [OF that] small by (simp add: tf_small_def)
  show ?thesis
    unfolding tf_Append_def
    by (rule ensures_bind [OF confirm_if_spec [OF ok small]], rule ensures_bind [OF move], assumption,
        rule ensures_bind [OF insert])
       (auto intro!: ensures_mono [OF plain_ClearSelection] on_render_moves(4) SetCursorPosition_moves)
qed

text \<open>The text that remains when the composition, or else the selection, is deleted.\<close>

definition remaining :: "textfield \<Rightarrow> string16" where
  "remaining m = (if tf_HasCompositionText m then committed m
                  else cut_range (rt_selection (tf_render m)) (tf_GetText m))"

lemma DeleteSelectionAndInsertTextAt_spec:
  assumes ok: "tf_ok t0 m" and small: "tf_small m" and pos: "position \<le> length (remaining m)"
  shows "ensures (tf_DeleteSelectionAndInsertTextAt pf txt position m)
    (tf_plain t0 (spliced (remaining m) position txt))"
  unfolding tf_DeleteSelectionAndInsertTextAt_def
proof (rule ensures_bind [OF cancel_if_spec [OF ok impI [OF small]]], elim conjE, goal_cases)
  case (1 m1)
  have "tf_small m1"
    using 1(1) committed_le [OF ok] small by (intro tf_small_plain [OF 1(1)]) (simp add: tf_small_def)
  moreover have "remaining m = cut_range (rt_selection (tf_render m1)) (committed m)"
    using 1(3) by (auto simp: remaining_def tf_HasSelection_def committed_def split: if_splits)
  ultimately show ?case
    using Replace_spec [OF 1(1) _ refl, of position DO_NOT_MERGE pf "tf_GetCursorPosition m1"
        "position + length txt" "txt"] pos
    by (auto elim: ensures_mono)
qed

lemma plain_InvalidRange: "tf_plain t0 t m \<Longrightarrow> rt_composition_range (tf_render m) = range_InvalidRange"
  by (auto simp: tf_plain_def tf_ok_def composition_ok_def tf_HasCompositionText_def range_simps)

lemma composing_state:
  assumes plain: "tf_plain t0 t m" and c: "c \<le> length t" and ct: "ct \<noteq> []"
    and r: "r = (rt_SetText (spliced t c ct) (tf_render m))\<lparr>rt_composition_range := mk_range c (c + length ct)\<rparr>"
    and mv: "rt_moves r r'"
  shows "tf_ok t0 (m\<lparr>tf_render := r'\<rparr>)" and "committed (m\<lparr>tf_render := r'\<rparr>) = t"
    and "tf_GetText (m\<lparr>tf_render := r'\<rparr>) = spliced t c ct" and "tf_HasCompositionText (m\<lparr>tf_render := r'\<rparr>)"
proof -
  let ?m = "m\<lparr>tf_render := r'\<rparr>"
  have r': "rt_text r' = spliced t c ct" "rt_composition_range r' = mk_range c (c + length ct)"
    using rt_moves_text [OF mv] rt_moves_comp [OF mv] r by simp_all
  show tx: "tf_GetText ?m = spliced t c ct" and comp: "tf_HasCompositionText ?m"
    using r' ct by (auto simp: tf_GetText_def tf_HasCompositionText_def)
  show com: "committed ?m = t"
    unfolding committed_def if_P [OF comp] tx
    using spliced_parts(1) [OF c, of ct] r' by (simp add: Let_def)
  have "rt_ok (rt_SetText (spliced t c ct) (tf_render m))"
    using plain plain_InvalidRange [OF plain] by (intro rt_SetText_ok) (simp_all add: tf_plain_def tf_ok_def)
  then have "rt_ok r"
    using c by (simp add: r rt_ok_def rt_selection_def)
  then have "rt_ok r'" using rt_moves_ok [OF mv] by simp
  moreover have "composition_ok r'"
    using r' c ct by (simp add: composition_ok_def)
  ultimately show "tf_ok t0 ?m"
    using com tf_plain_history [OF plain] by (simp add: tf_ok_def)
qed

text \<open>Composing shows the composed text at the caret but commits nothing.\<close>

lemma start_composition_spec:
  assumes plain: "tf_plain t0 t m"
  shows "ensures (start_composition pf cmp m) (\<lambda>m'. tf_ok t0 m' \<and> committed m' = t \<and>
     tf_GetText m' = spliced t (tf_GetCursorPosition m) (ct_text cmp) \<and>
     tf_HasCompositionText m' = (ct_text cmp \<noteq> []))"
proof (cases "ct_text cmp = []")
  case True
  then show ?thesis
    using plain tf_plain_committed [OF plain] by (simp add: start_composition_def tf_plain_def)
next
  case ct: False
  define c where "c = tf_GetCursorPosition m"
  define r where "r = (rt_SetText (spliced t c (ct_text cmp)) (tf_render m))
    \<lparr>rt_composition_range := mk_range c (c + length (ct_text cmp))\<rparr>"
  have c: "c \<le> length t"
    using tf_cursor_le [OF tf_plain_ok [OF plain]] plain by (simp add: c_def tf_plain_def)
  have "rt_SetCompositionRange (mk_range c (c + length (ct_text cmp)))
      (rt_SetText (spliced t c (ct_text cmp)) (tf_render m)) = Some r"
    using c ct by (simp add: rt_SetCompositionRange_def r_def range_Contains_def range_IsValid_iff size_t_max_def)
  moreover have "rt_moves r (if range_IsValid sel then fst (rt_SelectRange pf rng r) else rt_SetCursorPosition pf p r)" for sel rng p
    by (simp add: rt_move_facts)
  ultimately show ?thesis
    using plain composing_state [OF plain c ct r_def] c ct
    by (simp add: start_composition_def tf_plain_def Let_def c_def [symmetric] string_simps)
qed

lemma SetCompositionText_spec:
  assumes ok: "tf_ok t0 m" and small: "tf_small m"
  shows "ensures (tf_SetCompositionText pf cmp m) (\<lambda>m'. tf_ok t0 m' \<and> committed m' = remaining m \<and>
     tf_HasCompositionText m' = (ct_text cmp \<noteq> []) \<and>
     length (tf_GetText m') = length (remaining m) + length (ct_text cmp))"
proof -
  have "ensures (if tf_HasCompositionText m then tf_CancelCompositionText pf m
           else if tf_HasSelection m then tf_DeleteSelection pf m else Some m) (tf_plain t0 (remaining m))"
  proof (cases "tf_HasCompositionText m")
    case True
    then show ?thesis
      using Cancel_spec [OF ok True small, of pf] by (auto simp: remaining_def elim: ensures_mono)
  next
    case False
    note plain = tf_plainI [OF ok False]
    show ?thesis
      using False plain DeleteSelection_spec [OF plain small, of pf]
      by (auto simp: remaining_def tf_HasSelection_def elim: ensures_mono)
  qed
  then show ?thesis
    unfolding tf_SetCompositionText_def
    by (rule ensures_bind) (auto elim: ensures_mono [OF start_composition_spec])
qed

lemma Cut_spec:
  assumes plain: "tf_plain t0 t m" and small: "tf_small m" and cn: "can_copy m"
  defines "sel \<equiv> rt_selection (tf_render m)"
  shows "ensures (tf_Cut pf m) (\<lambda>(m', clip). clip = Some (text_under sel t) \<and> tf_plain t0 (cut_range sel t) m' \<and>
     CanUndo (tf_history m') \<and> \<not> CanRedo (tf_history m'))"
proof -
  define m1 where "m1 = on_render (\<lambda>r. fst (rt_SelectRange pf (mk_range (r_end sel) (r_start sel)) r)) m"
  have m1: "tf_plain t0 t m1"
    unfolding m1_def using plain by (intro on_render_moves(4) SelectRange_moves)
  then have s1: "tf_small m1" using small plain by (simp add: tf_small_def tf_plain_def)
  have "range_GetMax sel \<le> length (rt_text (tf_render m))"
    using tf_selection_le [OF tf_plain_ok [OF plain]] by (simp add: sel_def tf_GetText_def)
  then have "range_GetMin (rt_selection (tf_render m1)) = range_GetMin sel"
      "range_GetMax (rt_selection (tf_render m1)) = range_GetMax sel"
    unfolding m1_def on_render_def rt_SelectRange_def Let_def
    by (auto simp: sel_def [symmetric] range_simps)
  then have "cut_range (rt_selection (tf_render m1)) t = cut_range sel t"
    by (simp add: cut_range_def)
  moreover have "tf_GetSelectedText m = Some (text_under sel t)"
    using GetSelectedText_spec [OF tf_plain_ok [OF plain] small] plain by (simp add: sel_def tf_plain_def)
  ultimately show ?thesis
    using DeleteSelection_spec [OF m1 s1, of pf] cn
    by (auto simp: tf_Cut_def Let_def m1_def sel_def intro!: ensures_bind)
qed

section \<open>Sequences of operations\<close>

text \<open>The public operations that change the model, as commands of a client.\<close>

datatype tf_op =
    SetText string16 | InsertText string16 | InsertChar char16 | ReplaceText string16
  | ReplaceChar char16 | Append string16 | Delete | Backspace
  | MoveCursor BreakType VisualCursorDirection bool | MoveCursorTo selection_model
  | MoveCursorToPoint point bool | SelectRange range | SelectSelectionModel selection_model
  | SelectAll | SelectWord | ClearSelection | Undo | Redo | Cut | Paste string16 | DeleteSelection
  | DeleteSelectionAndInsertTextAt string16 nat | SetCompositionText composition_text
  | ConfirmCompositionText | CancelCompositionText

fun tf_exec :: "rt_platform \<Rightarrow> tf_op \<Rightarrow> textfield \<Rightarrow> textfield option" where
  "tf_exec pf (SetText t) m = map_option fst (tf_SetText pf t m)"
| "tf_exec pf (InsertText t) m = tf_InsertTextInternal pf t False m"
| "tf_exec pf (InsertChar c) m = tf_InsertTextInternal pf [c] True m"
| "tf_exec pf (ReplaceText t) m = tf_ReplaceTextInternal pf t False m"
| "tf_exec pf (ReplaceChar c) m = tf_ReplaceTextInternal pf [c] True m"
| "tf_exec pf (Append t) m = tf_Append pf t m"
| "tf_exec pf Delete m = map_option fst (tf_Delete pf m)"
| "tf_exec pf Backspace m = map_option fst (tf_Backspace pf m)"
| "tf_exec pf (MoveCursor bt dir select) m = tf_MoveCursor pf bt dir select m"
| "tf_exec pf (MoveCursorTo model) m = map_option fst (tf_MoveCursorTo pf model m)"
| "tf_exec pf (MoveCursorToPoint pt select) m = map_option fst (tf_MoveCursorTo_point pf pt select m)"
| "tf_exec pf (SelectRange rng) m = tf_SelectRange pf rng m"
| "tf_exec pf (SelectSelectionModel model) m = tf_SelectSelectionModel pf model m"
| "tf_exec pf SelectAll m = tf_SelectAll pf m"
| "tf_exec pf SelectWord m = tf_SelectWord pf m"
| "tf_exec pf ClearSelection m = tf_ClearSelection pf m"
| "tf_exec pf Undo m = map_option fst (tf_Undo pf m)"
| "tf_exec pf Redo m = map_option fst (tf_Redo pf m)"
| "tf_exec pf Cut m = map_option fst (tf_Cut pf m)"
| "tf_exec pf (Paste t) m = map_option fst (tf_Paste pf t m)"
| "tf_exec pf DeleteSelection m = tf_DeleteSelection pf m"
| "tf_exec pf (DeleteSelectionAndInsertTextAt t p) m = tf_DeleteSelectionAndInsertTextAt pf t p m"
| "tf_exec pf (SetCompositionText c) m = tf_SetCompositionText pf c m"
| "tf_exec pf ConfirmCompositionText m = tf_ConfirmCompositionText pf m"
| "tf_exec pf CancelCompositionText m = tf_CancelCompositionText pf m"

text \<open>What the caller has to respect: the \<open>DCHECK\<close>s on composition, an insertion point inside the
  text that remains, and texts short enough for \<open>Range::length()\<close>.\<close>

fun tf_pre :: "tf_op \<Rightarrow> textfield \<Rightarrow> bool" where
  "tf_pre DeleteSelection m \<longleftrightarrow> tf_small m \<and> \<not> tf_HasCompositionText m"
| "tf_pre (DeleteSelectionAndInsertTextAt t p) m \<longleftrightarrow> tf_small m \<and> p \<le> length (remaining m)"
| "tf_pre ConfirmCompositionText m \<longleftrightarrow> tf_small m \<and> tf_HasCompositionText m"
| "tf_pre CancelCompositionText m \<longleftrightarrow> tf_small m \<and> tf_HasCompositionText m"
| "tf_pre _ m \<longleftrightarrow> tf_small m"

lemma tf_pre_small: "tf_pre c m \<Longrightarrow> tf_small m"
  by (cases c) simp_all

lemma Undo_ok:
  assumes ok: "tf_ok t0 m" and small: "tf_HasCompositionText m \<longrightarrow> tf_small m"
  shows "ensures (tf_Undo pf m) (\<lambda>(m', b). tf_ok t0 m' \<and> applied (tf_history m') = applied (tf_history m) - 1 \<and>
    (tf_HasCompositionText m' \<longrightarrow> tf_HasCompositionText m \<and> \<not> CanUndo (tf_history m)))"
proof (cases "current_edit (tf_history m)")
  case None
  then show ?thesis using ok by (simp add: tf_Undo_def CanUndo_def applied_def)
next
  case (Some i)
  have "history_ok t0 (committed m) (tf_history m)" using ok by (simp add: tf_ok_def)
  from history_back_ok [OF this Some] obtain t
    where "edit_redo (edit_history (tf_history m) ! i) t = Some (committed m)"
      and "applied (history_back i (tf_history m)) = i" by blast
  with Undo_spec [OF ok small Some, of t pf] Some show ?thesis
    by (auto simp: tf_plain_def applied_def elim: ensures_mono)
qed

lemma Redo_ok:
  assumes ok: "tf_ok t0 m" and small: "tf_HasCompositionText m \<longrightarrow> tf_small m"
  shows "ensures (tf_Redo pf m) (\<lambda>(m', b). tf_ok t0 m')"
proof (cases "CanRedo (tf_history m)")
  case True
  have h: "history_ok t0 (committed m) (tf_history m)" using ok by (simp add: tf_ok_def)
  then have "applied (tf_history m) < length (edit_history (tf_history m))"
    using True by (auto simp: history_ok_def CanRedo_applied)
  from history_forward_ok [OF h this] obtain t
    where "edit_redo (edit_history (tf_history m) ! applied (tf_history m)) (committed m) = Some t" by blast
  with Redo_spec [OF ok small True, of t pf] show ?thesis
    by (auto simp: tf_plain_def elim: ensures_mono)
qed (simp add: tf_Redo_def ok)

lemma Delete_ok:
  assumes ok: "tf_ok t0 m" and small: "tf_small m"
  shows "ensures (tf_Delete pf m) (\<lambda>(m', b). tf_ok t0 m')"
    and "ensures (tf_Backspace pf m) (\<lambda>(m', b). tf_ok t0 m')"
proof -
  have *: "ensures (tf_CancelCompositionText pf m) (tf_ok t0)" if "tf_HasCompositionText m"
    using Cancel_spec [OF ok that small] by (rule ensures_mono) (simp add: tf_plain_def)
  have **: "ensures (tf_DeleteSelection pf m) (tf_ok t0)" if "\<not> tf_HasCompositionText m"
    using DeleteSelection_spec [OF tf_plainI [OF ok that] small] by (rule ensures_mono) (simp add: tf_plain_def)
  have "ensures (tf_Delete pf m) (\<lambda>(m', b). tf_ok t0 m') \<and> ensures (tf_Backspace pf m) (\<lambda>(m', b). tf_ok t0 m')"
  proof (cases "tf_HasCompositionText m \<or> tf_HasSelection m")
    case True
    then show ?thesis using * ** by (auto simp: tf_Delete_def tf_Backspace_def)
  next
    case False
    then have plain: "tf_plain t0 (tf_GetText m) m" and ns: "\<not> tf_HasSelection m"
      using ok by (auto intro: tf_plainI)
    show ?thesis
      by (intro conjI ensures_mono [OF Delete_key_spec [OF plain small ns]]
          ensures_mono [OF Backspace_key_spec [OF plain small ns]]) (auto dest: tf_plain_ok)
  qed
  then show "ensures (tf_Delete pf m) (\<lambda>(m', b). tf_ok t0 m')"
    and "ensures (tf_Backspace pf m) (\<lambda>(m', b). tf_ok t0 m')" by blast+
qed

lemma Cut_ok:
  assumes ok: "tf_ok t0 m" and small: "tf_small m"
  shows "ensures (tf_Cut pf m) (\<lambda>(m', clip). tf_ok t0 m')"
proof (cases "can_copy m")
  case True
  then have "tf_plain t0 (tf_GetText m) m" using ok by (auto simp: can_copy_def intro: tf_plainI)
  from Cut_spec [OF this small True] show ?thesis
    by (rule ensures_mono) (auto dest: tf_plain_ok)
qed (simp add: tf_Cut_def ok)

lemma exec_ok:
  assumes ok: "tf_ok t0 m" and pre: "tf_pre c m"
  shows "ensures (tf_exec pf c m) (tf_ok t0)"
proof -
  note small = tf_pre_small [OF pre]
  have small': "tf_HasCompositionText m \<longrightarrow> tf_small m" using small by simp
  have pl: "ensures x (tf_plain t0 t) \<Longrightarrow> ensures x (tf_ok t0)" for x t
    by (erule ensures_mono) (rule tf_plain_ok)
  have ex: "ensures x (\<lambda>m'. \<exists>t. tf_plain t0 t m') \<Longrightarrow> ensures x (tf_ok t0)" for x
    by (erule ensures_mono) (auto dest: tf_plain_ok)
  note ops = caret_operations [OF ok small, THEN pl] InsertText_ok [OF ok small, THEN ex]
    ReplaceText_ok [OF ok small, THEN ex] Append_ok [OF ok small, THEN ex]
  note results = ensures_mono [OF Delete_ok(1) [OF ok small]] ensures_mono [OF Delete_ok(2) [OF ok small]]
    ensures_mono [OF Undo_ok [OF ok small']] ensures_mono [OF Redo_ok [OF ok small']]
    ensures_mono [OF Cut_ok [OF ok small]] ensures_mono [OF SetText_spec [OF ok small]]
    ensures_mono [OF MoveCursorTo_spec [OF ok small]]
    ensures_mono [OF MoveCursorTo_point_spec [OF ok small]]
    ensures_mono [OF SetCompositionText_spec [OF ok small]]
  show ?thesis
  proof (cases c)
    case DeleteSelection
    then show ?thesis
      using pre DeleteSelection_spec [OF tf_plainI [OF ok] small, of pf]
      by (auto elim: ensures_mono dest: tf_plain_ok)
  next
    case (DeleteSelectionAndInsertTextAt t p)
    then show ?thesis
      using pre DeleteSelectionAndInsertTextAt_spec [OF ok small, of p pf t] by (auto intro: pl)
  next
    case ConfirmCompositionText
    then show ?thesis
      using pre Confirm_spec [OF ok _ small, of pf] by (auto elim: ensures_mono dest: tf_plain_ok)
  next
    case CancelCompositionText
    then show ?thesis
      using pre Cancel_spec [OF ok _ small, of pf] by (auto elim: ensures_mono dest: tf_plain_ok)
  next
    case (Paste t)
    then show ?thesis
      using ops(7) ok by (auto simp: tf_Paste_def)
  qed (auto intro: ops intro!: results dest: tf_plain_ok)
qed

end
