(* ===== verification/Textfield_Guarantees.thy ===== *)
theory Textfield_Guarantees
  imports Textfield_Model
begin

text \<open>
  What a client of the text field model may rely on: every sequence of operations that respects
  \<open>tf_pre\<close> runs without stopping the process and leaves a well-formed model (a step relation and
  its reachable states), undo and redo are inverse to each other and lead back to the initial
  text, and what the editing operations do to the text.
\<close>

section \<open>Reachable models\<close>

inductive tf_reach :: "rt_platform \<Rightarrow> textfield \<Rightarrow> textfield \<Rightarrow> bool" for pf m0 where
  start: "tf_reach pf m0 m0"
| step: "tf_reach pf m0 m \<Longrightarrow> tf_pre c m \<Longrightarrow> tf_exec pf c m = Some m' \<Longrightarrow> tf_reach pf m0 m'"

text \<open>A platform with one glyph per code unit, for concrete runs.\<close>

definition fixed_pitch :: rt_platform where
  "fixed_pitch =
     \<lparr>IsCursorablePosition = (\<lambda>r p. p \<le> length (rt_text r)), GetTextDirection = (\<lambda>r. LEFT_TO_RIGHT),
      GetStringSize = (\<lambda>r. mk_size (8 * int (length (rt_text r))) 16),
      FindCursorPosition = (\<lambda>r pt. mk_caret (nat (pt_x pt) div 8) CURSOR_FORWARD),
      AdjacentCharSelectionModel = (\<lambda>r s d. mk_caret
        (case d of CURSOR_LEFT \<Rightarrow> caret_pos s - 1 | CURSOR_RIGHT \<Rightarrow> caret_pos s + 1) CURSOR_BACKWARD),
      AdjacentWordSelectionModel = (\<lambda>r s d. s), GetGlyphBounds = (\<lambda>r i. (mk_range (8 * i) (8 * i + 8), 16)),
      BreakIterator_Init = (\<lambda>t. True), IsStartOfWord = (\<lambda>t i. i = 0), IsEndOfWord = (\<lambda>t i. i = length t)\<rparr>"

definition empty_field :: textfield where
  "empty_field = tf_init False 0 False"

lemma exec_ok_Some: "tf_ok t0 m \<Longrightarrow> tf_pre c m \<Longrightarrow> tf_exec pf c m = Some m' \<Longrightarrow> tf_ok t0 m'"
  using exec_ok [of t0 m c pf] by simp

lemma reach_ok: "tf_reach pf m0 m \<Longrightarrow> tf_ok t0 m0 \<Longrightarrow> tf_ok t0 m"
  by (induction rule: tf_reach.induct) (auto intro: exec_ok_Some)

lemma init_ok: "tf_ok [] (tf_init is_rtl col del)"
  using tf_init_ok by (rule tf_plain_ok)

lemmas reach_init_ok = reach_ok [OF _ init_ok]



text \<open>(C19) In every reachable state every operation whose precondition holds completes: no string
  operation is out of range and no \<open>CHECK\<close> fails.\<close>

theorem textfield_never_stops:
  assumes "tf_reach pf (tf_init is_rtl col del) m" and "tf_pre c m"
  shows "\<exists>m'. tf_exec pf c m = Some m' \<and> tf_reach pf (tf_init is_rtl col del) m'"
  using exec_ok [OF reach_init_ok [OF assms(1)] assms(2), of pf] assms tf_reach.step
  by (auto elim!: ensuresE)

theorem textfield_never_stops_witness:
  "\<exists>m'. tf_exec fixed_pitch (SetText [104, 105]) (tf_init False 0 False) = Some m' \<and>
        tf_reach fixed_pitch (tf_init False 0 False) m'"
  by (rule textfield_never_stops [OF tf_reach.start]) (simp add: tf_small_def tf_init_def rt_init_def tf_GetText_def)

section \<open>Undo and redo\<close>

text \<open>\<open>n\<close> calls of \<open>Undo\<close>.\<close>

primrec undo_times :: "rt_platform \<Rightarrow> nat \<Rightarrow> textfield \<Rightarrow> textfield option" where
  "undo_times pf 0 m = Some m"
| "undo_times pf (Suc n) m = Option.bind (tf_Undo pf m) (\<lambda>(m', b). undo_times pf n m')"

lemma undo_all:
  assumes "tf_ok t0 m" and "tf_HasCompositionText m \<longrightarrow> tf_small m" and "applied (tf_history m) = n"
  shows "ensures (undo_times pf n m) (\<lambda>m'. committed m' = t0 \<and> \<not> CanUndo (tf_history m'))"
  using assms
proof (induction n arbitrary: m)
  case 0
  then show ?case by (auto simp: tf_ok_def history_ok_def CanUndo_applied)
next
  case (Suc n)
  then have "CanUndo (tf_history m)"
    by (auto simp: tf_ok_def history_ok_def CanUndo_applied)
  with Suc.prems Suc.IH show ?case
    by (auto intro!: ensures_bind [OF Undo_ok [OF Suc.prems(1,2)]])
qed



lemma undo_then_redo:
  assumes ok: "tf_ok t0 m" and small: "tf_HasCompositionText m \<longrightarrow> tf_small m" and cn: "CanUndo (tf_history m)"
  shows "\<exists>m1 b1 m2 b2. tf_Undo pf m = Some (m1, b1) \<and> tf_Redo pf m1 = Some (m2, b2) \<and>
     tf_GetText m2 = committed m \<and> current_edit (tf_history m2) = current_edit (tf_history m)"
proof -
  obtain i where i: "current_edit (tf_history m) = Some i"
    using cn by (auto simp: CanUndo_def)
  have h: "history_ok t0 (committed m) (tf_history m)" using ok by (simp add: tf_ok_def)
  obtain t where t: "edit_redo (edit_history (tf_history m) ! i) t = Some (committed m)"
      "applied (history_back i (tf_history m)) = i"
    using history_back_ok [OF h i] by blast
  obtain m1 b1 where m1: "tf_Undo pf m = Some (m1, b1)" "tf_plain t0 t m1" "tf_history m1 = history_back i (tf_history m)"
    using Undo_spec [OF ok small i t(1), of pf] by (auto elim!: ensuresE)
  have len: "i < length (edit_history (tf_history m))"
    using h i by (auto simp: history_ok_def applied_def)
  then have cr: "CanRedo (tf_history m1)"
    using t(2) m1(3) by (subst CanRedo_applied) (simp_all add: history_back_def)
  have "edit_redo (edit_history (tf_history m1) ! applied (tf_history m1)) (committed m1) = Some (committed m)"
    using t m1(3) len tf_plain_committed [OF m1(2)]
    by (simp add: history_back_def)
  from Redo_spec [OF tf_plain_ok [OF m1(2)] _ cr this, of pf] m1(2)
  obtain m2 b2 where "tf_Redo pf m1 = Some (m2, b2)" "tf_plain t0 (committed m) m2"
      "tf_history m2 = history_forward (tf_history m1)"
    by (auto simp: tf_plain_def elim!: ensuresE)
  moreover have "current_edit (history_forward (tf_history m1)) = Some i"
    using t(2) m1(3) by (auto simp: history_forward_def applied_def split: option.splits)
  ultimately show ?thesis
    using m1(1) i by (auto simp: tf_plain_def)
qed

text \<open>(C18) In every reachable state with something to undo, \<open>Undo\<close> followed by \<open>Redo\<close> gives back the
  text (without a composition that was under way) and the position in the history.\<close>

theorem textfield_undo_redo:
  assumes "tf_reach pf (tf_init is_rtl col del) m" and "tf_small m" and "CanUndo (tf_history m)"
  shows "\<exists>m1 b1 m2 b2. tf_Undo pf m = Some (m1, b1) \<and> tf_Redo pf m1 = Some (m2, b2) \<and>
     tf_GetText m2 = committed m \<and> current_edit (tf_history m2) = current_edit (tf_history m)"
  using undo_then_redo [OF reach_init_ok [OF assms(1)] impI [OF assms(2)] assms(3)] by simp

text \<open>The field after one typed character.\<close>

definition typed_field :: textfield where
  "typed_field = the (tf_exec fixed_pitch (InsertChar 97) empty_field)"

lemma empty_field_facts:
  "tf_plain [] [] empty_field" "tf_small empty_field" "tf_reach fixed_pitch (tf_init False 0 False) empty_field"
  unfolding empty_field_def by (rule tf_init_ok, simp_all add: tf_reach.start)
    (simp add: tf_small_def tf_init_def rt_init_def tf_GetText_def)

lemma typed_field_facts:
  "tf_exec fixed_pitch (InsertChar 97) empty_field = Some typed_field"
  "tf_plain [] [97] typed_field" "CanUndo (tf_history typed_field)" "tf_small typed_field"
  "tf_reach fixed_pitch (tf_init False 0 False) typed_field"
proof -
  have *: "ensures (tf_exec fixed_pitch (InsertChar 97) empty_field) (\<lambda>m. tf_plain [] [97] m \<and> CanUndo (tf_history m))"
    using InsertText_spec [OF empty_field_facts(1,2), of fixed_pitch "[97]" True]
    by (auto simp: cut_range_def elim: ensures_mono)
  then show ex: "tf_exec fixed_pitch (InsertChar 97) empty_field = Some typed_field"
    by (auto simp: typed_field_def elim!: ensuresE)
  with * show p: "tf_plain [] [97] typed_field" and "CanUndo (tf_history typed_field)" by simp_all
  from p show "tf_small typed_field" by (simp add: tf_small_def tf_plain_def)
  from tf_reach.step [OF empty_field_facts(3) _ ex] empty_field_facts(2)
  show "tf_reach fixed_pitch (tf_init False 0 False) typed_field" by simp
qed

theorem textfield_undo_redo_witness:
  "\<exists>m1 b1 m2 b2. tf_Undo fixed_pitch typed_field = Some (m1, b1) \<and> tf_Redo fixed_pitch m1 = Some (m2, b2) \<and>
     tf_GetText m2 = committed typed_field \<and> current_edit (tf_history m2) = current_edit (tf_history typed_field)"
  by (rule textfield_undo_redo [OF typed_field_facts(5,4,3)])

section \<open>What the operations do to the text\<close>

text \<open>\<open>SetText\<close> makes the given text the text of the field, whatever was being composed, selected
  or edited before, and reports whether a composition was under way.\<close>

theorem textfield_SetText:
  assumes "tf_reach pf (tf_init is_rtl col del) m" and "tf_small m"
  shows "\<exists>m'. tf_SetText pf t m = Some (m', tf_HasCompositionText m) \<and> tf_GetText m' = t \<and>
              \<not> tf_HasCompositionText m'"
  using SetText_spec [OF reach_init_ok [OF assms(1)] assms(2), of pf t] by (auto simp: tf_plain_def elim!: ensuresE)

theorem textfield_SetText_witness:
  "\<exists>m'. tf_SetText fixed_pitch [98, 99] typed_field = Some (m', tf_HasCompositionText typed_field) \<and>
        tf_GetText m' = [98, 99] \<and> \<not> tf_HasCompositionText m'"
  by (rule textfield_SetText [OF typed_field_facts(5,4)])

text \<open>(C37) Inserting text with no composition under way puts it in place of the selection, or at the
  caret when nothing is selected; the change can be undone and nothing can be redone.\<close>

theorem textfield_InsertText:
  assumes "tf_reach pf (tf_init is_rtl col del) m" and "tf_small m" and "\<not> tf_HasCompositionText m"
  shows "\<exists>m'. tf_InsertTextInternal pf t mergeable m = Some m' \<and>
     tf_GetText m' = take (range_GetMin (rt_selection (tf_render m))) (tf_GetText m) @ t @
                     drop (range_GetMax (rt_selection (tf_render m))) (tf_GetText m) \<and>
     CanUndo (tf_history m') \<and> \<not> CanRedo (tf_history m')"
proof -
  let ?sel = "rt_selection (tf_render m)"
  note ok = reach_init_ok [OF assms(1)]
  have "range_GetMin ?sel \<le> length (tf_GetText m)"
    using tf_selection_le [OF ok] range_GetMin_le_GetMax [of ?sel] by simp
  then show ?thesis
    using InsertText_spec [OF tf_plainI [OF ok assms(3)] assms(2), of pf t mergeable]
    by (auto simp: tf_plain_def cut_range_def spliced_def elim!: ensuresE)
qed

theorem textfield_InsertText_witness:
  "\<exists>m'. tf_InsertTextInternal fixed_pitch [98] False typed_field = Some m' \<and>
     tf_GetText m' = take (range_GetMin (rt_selection (tf_render typed_field))) (tf_GetText typed_field) @ [98] @
                     drop (range_GetMax (rt_selection (tf_render typed_field))) (tf_GetText typed_field) \<and>
     CanUndo (tf_history m') \<and> \<not> CanRedo (tf_history m')"
  using typed_field_facts(2) by (intro textfield_InsertText [OF typed_field_facts(5,4)]) (simp add: tf_plain_def)


text \<open>The typed field with its caret at an empty selection.\<close>

definition caret_field :: textfield where
  "caret_field = on_render rt_ClearSelection typed_field"

lemma caret_field_facts:
  "tf_reach fixed_pitch (tf_init False 0 False) caret_field" "tf_small caret_field"
  "\<not> tf_HasCompositionText caret_field" "\<not> tf_HasSelection caret_field" "tf_GetText caret_field = [97]"
proof -
  have p: "tf_plain [] [97] caret_field"
    unfolding caret_field_def using typed_field_facts(2) by (intro on_render_moves(4) ClearSelection_moves)
  then show "tf_small caret_field" "\<not> tf_HasCompositionText caret_field" "tf_GetText caret_field = [97]"
    by (simp_all add: tf_small_def tf_plain_def)
  show "\<not> tf_HasSelection caret_field"
    by (simp add: tf_HasSelection_def caret_field_def on_render_def rt_ClearSelection_def)
  have "tf_exec fixed_pitch ClearSelection typed_field = Some caret_field"
    using plain_confirm_if [OF typed_field_facts(2)] by (simp add: tf_ClearSelection_def caret_field_def)
  from tf_reach.step [OF typed_field_facts(5) _ this] typed_field_facts(4)
  show "tf_reach fixed_pitch (tf_init False 0 False) caret_field" by simp
qed


text \<open>\<open>Cut\<close> on a selection in a field that is not obscured hands exactly the selected text to the
  clipboard and removes exactly it from the text, so the pieces before it, the clipboard and the
  rest make up the old text.\<close>

theorem textfield_Cut:
  assumes "tf_reach pf (tf_init is_rtl col del) m" and "tf_small m" and "can_copy m"
  shows "\<exists>m' clip. tf_Cut pf m = Some (m', Some clip) \<and>
     (\<exists>before after. tf_GetText m = before @ clip @ after \<and> tf_GetText m' = before @ after \<and>
        length before = range_GetMin (rt_selection (tf_render m)) \<and>
        length (before @ clip) = range_GetMax (rt_selection (tf_render m))) \<and> clip \<noteq> []"
proof -
  let ?sel = "rt_selection (tf_render m)" and ?t = "tf_GetText m"
  note ok = reach_init_ok [OF assms(1)]
  have plain: "tf_plain [] ?t m" using ok assms(3) by (auto simp: can_copy_def intro: tf_plainI)
  have le: "range_GetMin ?sel < range_GetMax ?sel" "range_GetMax ?sel \<le> length ?t"
    using tf_selection_le [OF ok] assms(3) by (auto simp: can_copy_def tf_HasSelection_def range_simps)
  have "?t = take (range_GetMin ?sel) ?t @ text_under ?sel ?t @ drop (range_GetMax ?sel) ?t"
    using spliced_cut [of "range_GetMin ?sel" "range_GetMax ?sel - range_GetMin ?sel" ?t] le
    by (simp add: text_under_def spliced_def)
  moreover have "length (text_under ?sel ?t) = range_GetMax ?sel - range_GetMin ?sel"
    using le by (simp add: text_under_def)
  moreover obtain m' where "tf_Cut pf m = Some (m', Some (text_under ?sel ?t))" "tf_GetText m' = cut_range ?sel ?t"
    using Cut_spec [OF plain assms(2,3), of pf] by (auto simp: tf_plain_def elim!: ensuresE)
  ultimately show ?thesis
    using le by (intro exI [of _ m'] exI [of _ "text_under ?sel ?t"] conjI
        exI [of _ "take (range_GetMin ?sel) ?t"] exI [of _ "drop (range_GetMax ?sel) ?t"])
      (auto simp: cut_range_def)
qed

lemma typed_field_not_obscured: "rt_obscured (tf_render typed_field) = False"
  unfolding typed_field_def empty_field_def
  by (simp add: tf_init_def rt_init_def tf_InsertTextInternal_def tf_HasCompositionText_def tf_HasSelection_def
      rt_selection_def sm_default_def ExecuteAndRecordInsert_def record_and_redo_def AddOrMergeEditHistory_def
      ClearRedoHistory_def edit_Redo_def tf_ModifyText_def ClearComposition_eq on_render_def tf_GetText_def
      tf_GetCursorPosition_def rt_cursor_position_def caret_pos_def mk_InsertEdit_def old_text_end_def
      str_insert_def fixed_pitch_def rt_SetCursorPosition_def rt_MoveCursorTo_pos_def rt_SetSelectionModel_def)

definition selected_field :: textfield where
  "selected_field = on_render (rt_SelectAll fixed_pitch) typed_field"

lemma selected_field_facts:
  "tf_reach fixed_pitch (tf_init False 0 False) selected_field" "tf_small selected_field" "can_copy selected_field"
proof -
  have p: "tf_plain [] [97] selected_field"
    unfolding selected_field_def using typed_field_facts(2) by (intro on_render_moves(4) SelectAll_moves)
  then show "tf_small selected_field" by (simp add: tf_small_def tf_plain_def)
  have "rt_text (tf_render typed_field) = [97]"
    using typed_field_facts(2) by (simp add: tf_plain_def tf_GetText_def)
  with p show "can_copy selected_field"
    using typed_field_not_obscured
    by (simp add: can_copy_def tf_plain_def tf_HasSelection_def selected_field_def on_render_def
        rt_SelectAll_def fixed_pitch_def rt_SetSelectionModel_def rt_selection_def)
  have "tf_exec fixed_pitch SelectAll typed_field = Some selected_field"
    using plain_confirm_if [OF typed_field_facts(2)] by (simp add: tf_SelectAll_def selected_field_def)
  from tf_reach.step [OF typed_field_facts(5) _ this] typed_field_facts(4)
  show "tf_reach fixed_pitch (tf_init False 0 False) selected_field" by simp
qed

theorem textfield_Cut_witness:
  "\<exists>m' clip. tf_Cut fixed_pitch selected_field = Some (m', Some clip) \<and>
     (\<exists>before after. tf_GetText selected_field = before @ clip @ after \<and> tf_GetText m' = before @ after \<and>
        length before = range_GetMin (rt_selection (tf_render selected_field)) \<and>
        length (before @ clip) = range_GetMax (rt_selection (tf_render selected_field))) \<and> clip \<noteq> []"
  by (rule textfield_Cut [OF selected_field_facts])

text \<open>(C39) Setting a composition commits nothing: the committed text is the old one without the
  selection or the composition that was replaced; confirming the new composition keeps the
  displayed text, cancelling it gives the committed text back.\<close>

theorem textfield_composition:
  assumes "tf_reach pf (tf_init is_rtl col del) m" and "tf_small m" and "ct_text c \<noteq> []"
    and "length (remaining m) + length (ct_text c) < 2147483648"
  shows "\<exists>m1. tf_SetCompositionText pf c m = Some m1 \<and> committed m1 = remaining m \<and>
     (\<exists>m2. tf_ConfirmCompositionText pf m1 = Some m2 \<and> tf_GetText m2 = tf_GetText m1 \<and> committed m2 = tf_GetText m1) \<and>
     (\<exists>m3. tf_CancelCompositionText pf m1 = Some m3 \<and> tf_GetText m3 = remaining m \<and> \<not> tf_HasCompositionText m3)"
proof -
  note ok = reach_init_ok [OF assms(1)]
  obtain m1 where m1: "tf_SetCompositionText pf c m = Some m1" "tf_ok [] m1" "committed m1 = remaining m"
      "tf_HasCompositionText m1" "length (tf_GetText m1) = length (remaining m) + length (ct_text c)"
    using SetCompositionText_spec [OF ok assms(2), of pf c] assms(3) by (auto elim!: ensuresE)
  have small: "tf_small m1" using m1(5) assms(4) by (simp add: tf_small_def)
  have "ensures (tf_ConfirmCompositionText pf m1) (\<lambda>m2. tf_GetText m2 = tf_GetText m1 \<and> committed m2 = tf_GetText m1)"
    using Confirm_spec [OF m1(2,4) small] by (rule ensures_mono) (auto simp: tf_plain_committed tf_plainD)
  moreover have "ensures (tf_CancelCompositionText pf m1) (\<lambda>m3. tf_GetText m3 = remaining m \<and> \<not> tf_HasCompositionText m3)"
    using Cancel_spec [OF m1(2,4) small] by (rule ensures_mono) (auto simp: tf_plain_def m1(3))
  ultimately show ?thesis
    using m1(1,3) by (auto elim!: ensuresE)
qed

theorem textfield_composition_witness:
  "\<exists>m1. tf_SetCompositionText fixed_pitch \<lparr>ct_text = [98], ct_selection = range_InvalidRange\<rparr> typed_field = Some m1 \<and>
     committed m1 = remaining typed_field \<and>
     (\<exists>m2. tf_ConfirmCompositionText fixed_pitch m1 = Some m2 \<and> tf_GetText m2 = tf_GetText m1 \<and> committed m2 = tf_GetText m1) \<and>
     (\<exists>m3. tf_CancelCompositionText fixed_pitch m1 = Some m3 \<and> tf_GetText m3 = remaining typed_field \<and> \<not> tf_HasCompositionText m3)"
proof (rule textfield_composition [OF typed_field_facts(5,4)])
  show "length (remaining typed_field) + length (ct_text \<lparr>ct_text = [98], ct_selection = range_InvalidRange\<rparr>) < 2147483648"
    using typed_field_facts(2) by (simp add: remaining_def tf_plain_def cut_range_def)
qed simp

section \<open>A caller that does not respect the precondition\<close>

text \<open>\<open>DeleteSelectionAndInsertTextAt\<close> checks no position. With an empty text and a position past the
  end it returns normally but leaves an edit with that position in the history; the next \<open>SetText\<close>
  merges with it and its \<open>string16::erase\<close> throws.\<close>

lemma insert_at_then_SetText_stops:
  "\<exists>m1. tf_DeleteSelectionAndInsertTextAt fixed_pitch [] 5 empty_field = Some m1 \<and>
        tf_SetText fixed_pitch [97] m1 = None"
  unfolding empty_field_def
  by (simp add: tf_init_def rt_init_def tf_DeleteSelectionAndInsertTextAt_def cancel_if_composing_def
      tf_HasCompositionText_def rt_selection_def sm_default_def ExecuteAndRecordReplace_def
      tf_GetSelectedText_def str_substr_def record_and_redo_def AddOrMergeEditHistory_def
      ClearRedoHistory_def edit_Redo_def tf_ModifyText_def ClearComposition_eq on_render_def tf_GetText_def
      tf_GetCursorPosition_def rt_cursor_position_def caret_pos_def mk_ReplaceEdit_def old_text_end_def
      str_insert_def fixed_pitch_def rt_SetCursorPosition_def rt_MoveCursorTo_pos_def rt_SetSelectionModel_def
      tf_SetText_def confirm_if_composing_def tf_SelectAll_def rt_SelectAll_def edit_Merge_def
      edit_MergeReplace_def str_erase_def Let_def)

end
