(* ===== verification/Events.thy ===== *)
theory Events
  imports UI_Prelude
begin

text \<open>
  The event kinds of \<open>src/ui/base/events.h\<close>: \<open>EventType\<close> with its numbering (the order the
  accelerator comparator uses) and the modifier flags.
\<close>

datatype EventType =
    ET_UNKNOWN | ET_MOUSE_PRESSED | ET_MOUSE_DRAGGED | ET_MOUSE_RELEASED | ET_MOUSE_MOVED
  | ET_MOUSE_ENTERED | ET_MOUSE_EXITED | ET_KEY_PRESSED | ET_KEY_RELEASED | ET_MOUSEWHEEL
  | ET_MOUSE_CAPTURE_CHANGED | ET_TOUCH_RELEASED | ET_TOUCH_PRESSED | ET_TOUCH_MOVED
  | ET_TOUCH_STATIONARY | ET_TOUCH_CANCELLED | ET_DROP_TARGET_EVENT | ET_FOCUS_CHANGE
  | ET_TRANSLATED_KEY_PRESS | ET_TRANSLATED_KEY_RELEASE
  | ET_GESTURE_SCROLL_BEGIN | ET_GESTURE_SCROLL_END | ET_GESTURE_SCROLL_UPDATE | ET_GESTURE_TAP
  | ET_GESTURE_TAP_DOWN | ET_GESTURE_BEGIN | ET_GESTURE_END | ET_GESTURE_DOUBLE_TAP
  | ET_GESTURE_TWO_FINGER_TAP | ET_GESTURE_PINCH_BEGIN | ET_GESTURE_PINCH_END
  | ET_GESTURE_PINCH_UPDATE | ET_GESTURE_LONG_PRESS | ET_GESTURE_MULTIFINGER_SWIPE
  | ET_SCROLL | ET_SCROLL_FLING_START | ET_SCROLL_FLING_CANCEL

text \<open>The enumerators in declaration order; the first has the value 0.\<close>

definition event_types :: "EventType list" where
  "event_types =
     [ET_UNKNOWN, ET_MOUSE_PRESSED, ET_MOUSE_DRAGGED, ET_MOUSE_RELEASED, ET_MOUSE_MOVED,
      ET_MOUSE_ENTERED, ET_MOUSE_EXITED, ET_KEY_PRESSED, ET_KEY_RELEASED, ET_MOUSEWHEEL,
      ET_MOUSE_CAPTURE_CHANGED, ET_TOUCH_RELEASED, ET_TOUCH_PRESSED, ET_TOUCH_MOVED,
      ET_TOUCH_STATIONARY, ET_TOUCH_CANCELLED, ET_DROP_TARGET_EVENT, ET_FOCUS_CHANGE,
      ET_TRANSLATED_KEY_PRESS, ET_TRANSLATED_KEY_RELEASE,
      ET_GESTURE_SCROLL_BEGIN, ET_GESTURE_SCROLL_END, ET_GESTURE_SCROLL_UPDATE, ET_GESTURE_TAP,
      ET_GESTURE_TAP_DOWN, ET_GESTURE_BEGIN, ET_GESTURE_END, ET_GESTURE_DOUBLE_TAP,
      ET_GESTURE_TWO_FINGER_TAP, ET_GESTURE_PINCH_BEGIN, ET_GESTURE_PINCH_END,
      ET_GESTURE_PINCH_UPDATE, ET_GESTURE_LONG_PRESS, ET_GESTURE_MULTIFINGER_SWIPE,
      ET_SCROLL, ET_SCROLL_FLING_START, ET_SCROLL_FLING_CANCEL]"

fun index_in :: "'a \<Rightarrow> 'a list \<Rightarrow> nat" where
  "index_in x [] = 0"
| "index_in x (y # ys) = (if x = y then 0 else Suc (index_in x ys))"

definition event_code :: "EventType \<Rightarrow> nat" where
  "event_code t = index_in t event_types"

lemma nth_index_in: "x \<in> set xs \<Longrightarrow> xs ! index_in x xs = x"
  by (induction xs) auto

lemma event_types_all: "t \<in> set event_types"
  by (cases t) (simp_all add: event_types_def)

lemma event_code_inj: "event_code a = event_code b \<longleftrightarrow> a = b"
  using nth_index_in [OF event_types_all] by (metis event_code_def)

definition EF_SHIFT_DOWN :: "32 word" where
  "EF_SHIFT_DOWN = push_bit 1 1"

definition EF_CONTROL_DOWN :: "32 word" where
  "EF_CONTROL_DOWN = push_bit 2 1"

definition EF_ALT_DOWN :: "32 word" where
  "EF_ALT_DOWN = push_bit 3 1"

end
