(* ===== verification/Accelerators.thy ===== *)
theory Accelerators
  imports Events
begin

text \<open>
  Keyboard accelerators (\<open>src/ui/base/accelerators/accelerator.h\<close>, \<open>accelerator.cc\<close>,
  \<open>accelerator_manager.h\<close>, \<open>accelerator_manager.cc\<close>): the accelerator value with its comparator, and
  the manager that maps an accelerator to the list of its targets, with a flag that says whether
  the first target is a priority handler.

  \<open>std::map\<close> with this comparator is a HOL map because the comparator separates different
  accelerators (the interpretation \<open>accelerator_key\<close>). Targets are values of a type \<open>'t\<close>; their
  virtual methods are arguments, and pressing one may change both the rest of the program (\<open>'w\<close>)
  and the manager. Inserting after the first element of an empty list is undefined in C++ and
  \<open>None\<close> here. The localized shortcut text is left out.
\<close>

section \<open>Accelerator\<close>

datatype accelerator = Accelerator (key_code: int) (acc_type: EventType) (modifiers: "32 word")

definition accelerator_default :: accelerator where
  "accelerator_default = Accelerator 0 ET_KEY_PRESSED 0"

definition mk_accelerator :: "int \<Rightarrow> 32 word \<Rightarrow> accelerator" where
  "mk_accelerator keycode mods = Accelerator keycode ET_KEY_PRESSED mods"

definition accelerator_set_type :: "EventType \<Rightarrow> accelerator \<Rightarrow> accelerator" where
  "accelerator_set_type t a = Accelerator (key_code a) t (modifiers a)"

definition accelerator_less :: "accelerator \<Rightarrow> accelerator \<Rightarrow> bool" where
  "accelerator_less a rhs =
     (if key_code a \<noteq> key_code rhs then key_code a < key_code rhs
      else if acc_type a \<noteq> acc_type rhs then event_code (acc_type a) < event_code (acc_type rhs)
      else sint (modifiers a) < sint (modifiers rhs))"

definition IsShiftDown :: "accelerator \<Rightarrow> bool" where
  "IsShiftDown a \<longleftrightarrow> and (modifiers a) EF_SHIFT_DOWN = EF_SHIFT_DOWN"

definition IsCtrlDown :: "accelerator \<Rightarrow> bool" where
  "IsCtrlDown a \<longleftrightarrow> and (modifiers a) EF_CONTROL_DOWN = EF_CONTROL_DOWN"

definition IsAltDown :: "accelerator \<Rightarrow> bool" where
  "IsAltDown a \<longleftrightarrow> and (modifiers a) EF_ALT_DOWN = EF_ALT_DOWN"

text \<open>The comparator orders accelerators linearly, so equivalent keys are equal.\<close>

instantiation accelerator :: linorder
begin

definition less_accelerator :: "accelerator \<Rightarrow> accelerator \<Rightarrow> bool" where
  "less_accelerator a b \<longleftrightarrow> accelerator_less a b"

definition less_eq_accelerator :: "accelerator \<Rightarrow> accelerator \<Rightarrow> bool" where
  "less_eq_accelerator a b \<longleftrightarrow> accelerator_less a b \<or> a = b"

instance
proof
  fix a b c :: accelerator
  note defs = less_accelerator_def less_eq_accelerator_def accelerator_less_def
  show "a < b \<longleftrightarrow> a \<le> b \<and> \<not> b \<le> a"
    by (cases a; cases b) (auto simp: defs)
  show "a \<le> a" by (simp add: defs)
  show "a \<le> b \<Longrightarrow> b \<le> c \<Longrightarrow> a \<le> c"
    by (cases a; cases b; cases c) (auto simp: defs split: if_splits)
  show "a \<le> b \<Longrightarrow> b \<le> a \<Longrightarrow> a = b"
    by (cases a; cases b) (auto simp: defs split: if_splits)
  show "a \<le> b \<or> b \<le> a"
    by (cases a; cases b) (auto simp: defs event_code_inj,
        metis event_code_inj linorder_less_linear, metis linorder_less_linear signed_word_eqI)
qed

end

interpretation accelerator_key: key_order accelerator_less
  by unfold_locales (auto simp: less_accelerator_def [symmetric])

section \<open>Manager\<close>

datatype HandlerPriority = kNormalPriority | kHighPriority

record 't accelerator_manager =
  accelerators :: "accelerator \<rightharpoonup> bool \<times> 't list"
  last_event_type :: EventType

definition am_init :: "'t accelerator_manager" where
  "am_init = \<lparr>accelerators = Map.empty, last_event_type = ET_KEY_PRESSED\<rparr>"

text \<open>\<open>accelerators_[accelerator]\<close>, which creates the entry.\<close>

definition am_entry :: "accelerator \<Rightarrow> 't accelerator_manager \<Rightarrow> bool \<times> 't list" where
  "am_entry a m = (case accelerators m a of None \<Rightarrow> (False, []) | Some e \<Rightarrow> e)"

definition am_Register ::
  "accelerator \<Rightarrow> HandlerPriority \<Rightarrow> 't \<Rightarrow> 't accelerator_manager \<Rightarrow> 't accelerator_manager option" where
  "am_Register a priority target m =
     (let (flag, targets) = am_entry a m
      in if priority = kHighPriority
         then Some (m\<lparr>accelerators := (accelerators m)(a \<mapsto> (True, target # targets))\<rparr>)
         else if \<not> flag
         then Some (m\<lparr>accelerators := (accelerators m)(a \<mapsto> (flag, target # targets))\<rparr>)
         else case targets of
                [] \<Rightarrow> None
              | t # ts \<Rightarrow> Some (m\<lparr>accelerators := (accelerators m)(a \<mapsto> (flag, t # target # ts))\<rparr>))"

definition am_Unregister ::
  "accelerator \<Rightarrow> 't \<Rightarrow> 't accelerator_manager \<Rightarrow> 't accelerator_manager" where
  "am_Unregister a target m =
     (case accelerators m a of
        None \<Rightarrow> m
      | Some (flag, targets) \<Rightarrow>
          if target \<notin> set targets then m
          else m\<lparr>accelerators := (accelerators m)
                   (a \<mapsto> (if flag \<and> hd targets = target then False else flag, remove1 target targets))\<rparr>)"

definition am_UnregisterAll :: "'t \<Rightarrow> 't accelerator_manager \<Rightarrow> 't accelerator_manager" where
  "am_UnregisterAll target m =
     m\<lparr>accelerators := (\<lambda>a. map_option (\<lambda>(flag, targets). (flag, removeAll target targets))
                             (accelerators m a))\<rparr>"

definition am_ShouldHandle :: "accelerator \<Rightarrow> 't accelerator_manager \<Rightarrow> bool" where
  "am_ShouldHandle a m =
     (if acc_type a \<noteq> ET_KEY_RELEASED then True else last_event_type m = ET_KEY_PRESSED)"

text \<open>The loop of \<open>Process\<close> over the copied list. \<open>can\<close> and \<open>pressed\<close> are the virtual methods of the
  targets; \<open>pressed\<close> sees and changes the program and the manager.\<close>

fun process_loop ::
  "('w \<Rightarrow> 't \<Rightarrow> bool) \<Rightarrow> ('t \<Rightarrow> accelerator \<Rightarrow> 'w \<times> 't accelerator_manager \<Rightarrow> bool \<times> 'w \<times> 't accelerator_manager) \<Rightarrow>
   accelerator \<Rightarrow> 't list \<Rightarrow> 'w \<times> 't accelerator_manager \<Rightarrow> bool \<times> 'w \<times> 't accelerator_manager" where
  "process_loop can pressed a [] s = (False, s)"
| "process_loop can pressed a (t # ts) s =
     (if can (fst s) t
      then let (handled, s') = pressed t a s
           in if handled then (True, s') else process_loop can pressed a ts s'
      else process_loop can pressed a ts s)"

definition am_Process ::
  "('w \<Rightarrow> 't \<Rightarrow> bool) \<Rightarrow> ('t \<Rightarrow> accelerator \<Rightarrow> 'w \<times> 't accelerator_manager \<Rightarrow> bool \<times> 'w \<times> 't accelerator_manager) \<Rightarrow>
   accelerator \<Rightarrow> 'w \<times> 't accelerator_manager \<Rightarrow> bool \<times> 'w \<times> 't accelerator_manager" where
  "am_Process can pressed a s =
     (let (result, w, m) =
        (case accelerators (snd s) a of
           Some (flag, targets) \<Rightarrow>
             if am_ShouldHandle a (snd s) then process_loop can pressed a targets s else (False, s)
         | None \<Rightarrow> (False, s))
      in (result, w, m\<lparr>last_event_type := acc_type a\<rparr>))"

definition am_GetCurrentTarget :: "accelerator \<Rightarrow> 't accelerator_manager \<Rightarrow> 't option" where
  "am_GetCurrentTarget a m =
     (case accelerators m a of
        None \<Rightarrow> None
      | Some (flag, targets) \<Rightarrow> (case targets of [] \<Rightarrow> None | t # ts \<Rightarrow> Some t))"

definition am_HasPriorityHandler :: "('t \<Rightarrow> bool) \<Rightarrow> accelerator \<Rightarrow> 't accelerator_manager \<Rightarrow> bool" where
  "am_HasPriorityHandler can a m =
     (case accelerators m a of
        None \<Rightarrow> False
      | Some (flag, targets) \<Rightarrow>
          (case targets of [] \<Rightarrow> False | t # ts \<Rightarrow> if \<not> flag then False else can t))"

section \<open>Abstract registrations\<close>

text \<open>What the manager promises: per accelerator at most one priority target and the normal targets,
  the latest first.\<close>

record 't registration =
  reg_priority :: "'t option"
  reg_normal :: "'t list"

definition am_ok :: "'t accelerator_manager \<Rightarrow> bool" where
  "am_ok m \<longleftrightarrow> (\<forall>a. distinct (snd (am_entry a m)) \<and> (fst (am_entry a m) \<longrightarrow> snd (am_entry a m) \<noteq> []))"

definition am_abs :: "'t accelerator_manager \<Rightarrow> accelerator \<Rightarrow> 't registration" where
  "am_abs m a =
     (case am_entry a m of
        (True, t # ts) \<Rightarrow> \<lparr>reg_priority = Some t, reg_normal = ts\<rparr>
      | (_, ts) \<Rightarrow> \<lparr>reg_priority = None, reg_normal = ts\<rparr>)"

definition reg_targets :: "'t registration \<Rightarrow> 't list" where
  "reg_targets r = (case reg_priority r of None \<Rightarrow> [] | Some t \<Rightarrow> [t]) @ reg_normal r"

definition reg_add :: "HandlerPriority \<Rightarrow> 't \<Rightarrow> 't registration \<Rightarrow> 't registration" where
  "reg_add p t r =
     (if p = kHighPriority then r\<lparr>reg_priority := Some t\<rparr> else r\<lparr>reg_normal := t # reg_normal r\<rparr>)"

definition reg_remove :: "'t \<Rightarrow> 't registration \<Rightarrow> 't registration" where
  "reg_remove t r =
     \<lparr>reg_priority = (if reg_priority r = Some t then None else reg_priority r),
      reg_normal = filter (\<lambda>x. x \<noteq> t) (reg_normal r)\<rparr>"

lemma am_entry_upd [simp]:
  "am_entry b (m\<lparr>accelerators := (accelerators m)(a \<mapsto> e)\<rparr>) = (if b = a then e else am_entry b m)"
  by (simp add: am_entry_def)

lemma am_abs_upd [simp]:
  "am_abs (m\<lparr>accelerators := (accelerators m)(a \<mapsto> e)\<rparr>) b =
     (if b = a then (case e of (True, t # ts) \<Rightarrow> \<lparr>reg_priority = Some t, reg_normal = ts\<rparr>
                     | (_, ts) \<Rightarrow> \<lparr>reg_priority = None, reg_normal = ts\<rparr>) else am_abs m b)"
  by (simp add: am_abs_def)

lemma am_okD: "am_ok m \<Longrightarrow> am_entry a m = (f, ts) \<Longrightarrow> distinct ts \<and> (f \<longrightarrow> ts \<noteq> [])"
  by (metis am_ok_def fst_conv snd_conv)

lemma reg_targets_abs: "am_ok m \<Longrightarrow> reg_targets (am_abs m a) = snd (am_entry a m)"
  by (cases "am_entry a m"; cases "fst (am_entry a m)"; cases "snd (am_entry a m)")
     (auto simp: am_abs_def reg_targets_def)

section \<open>The manager keeps its promise\<close>

text \<open>(C34) \<open>Register\<close> of a target that is not yet registered for the accelerator, and of at most one
  priority target, refines adding it to the abstract registration: a priority target goes in
  front of everything, a normal target in front of the other normal ones, and no other
  accelerator changes.\<close>

theorem Register_refines:
  assumes ok: "am_ok m" and new: "t \<notin> set (reg_targets (am_abs m a))"
    and one: "p = kHighPriority \<longrightarrow> reg_priority (am_abs m a) = None"
  shows "\<exists>m'. am_Register a p t m = Some m' \<and> am_ok m' \<and>
              am_abs m' = (am_abs m)(a := reg_add p t (am_abs m a))"
proof -
  obtain f ts where e: "am_entry a m = (f, ts)" by force
  note d = am_okD [OF ok e]
  have nin: "t \<notin> set ts" using new e by (simp add: reg_targets_abs [OF ok])
  have keep: "am_ok (m\<lparr>accelerators := (accelerators m)(a \<mapsto> (f', ts'))\<rparr>)"
    if "distinct ts'" "f' \<longrightarrow> ts' \<noteq> []" for f' ts'
    using ok that by (simp add: am_ok_def)
  show ?thesis
  proof (cases "p = kHighPriority")
    case True
    then have "\<not> f" using one e d by (cases ts) (auto simp: am_abs_def)
    with True nin d keep [of "t # ts" True] show ?thesis
      by (auto simp: am_Register_def e fun_eq_iff reg_add_def am_abs_def)
  next
    case False
    show ?thesis
    proof (cases f)
      case True
      then obtain u us where "ts = u # us" using d by (cases ts) auto
      with True False nin d keep [of "u # t # us" f] show ?thesis
        by (auto simp: am_Register_def e fun_eq_iff reg_add_def am_abs_def)
    next
      case nf: False
      with False nin d keep [of "t # ts" f] show ?thesis
        by (auto simp: am_Register_def e fun_eq_iff reg_add_def am_abs_def)
    qed
  qed
qed

theorem Register_refines_witness:
  "\<exists>m'. am_Register (mk_accelerator 65 0) kHighPriority (7::nat) am_init = Some m' \<and> am_ok m' \<and>
        am_abs m' = (am_abs am_init)(mk_accelerator 65 0 :=
           reg_add kHighPriority 7 (am_abs am_init (mk_accelerator 65 0)))"
  by (rule Register_refines)
     (simp_all add: am_ok_def am_entry_def am_init_def am_abs_def reg_targets_def)

lemma filter_neq_remove1: "distinct xs \<Longrightarrow> filter (\<lambda>x. x \<noteq> t) xs = remove1 t xs"
  by (simp add: distinct_remove1_removeAll removeAll_filter_not_eq) (metis (mono_tags, lifting) filter_cong)

text \<open>(C35) \<open>Unregister\<close> refines removing the target from the abstract registration: taking the priority
  target away also takes the priority mark away, taking a normal one away leaves it.\<close>

theorem Unregister_refines:
  assumes ok: "am_ok m"
  shows "am_ok (am_Unregister a t m) \<and>
         am_abs (am_Unregister a t m) = (am_abs m)(a := reg_remove t (am_abs m a))"
proof (cases "accelerators m a")
  case None
  then show ?thesis
    using ok by (auto simp: am_Unregister_def reg_remove_def am_abs_def am_entry_def)
next
  case (Some e)
  then obtain f ts where e: "accelerators m a = Some (f, ts)" by (cases e) auto
  then have en: "am_entry a m = (f, ts)" by (simp add: am_entry_def)
  note d = am_okD [OF ok en]
  show ?thesis
  proof (cases "t \<in> set ts")
    case False
    then have "reg_remove t (am_abs m a) = am_abs m a"
      using d en by (cases f; cases ts) (auto simp: am_abs_def reg_remove_def filter_id_conv)
    then show ?thesis using False e ok by (auto simp: am_Unregister_def)
  next
    case True
    then obtain u us where ts: "ts = u # us" by (cases ts) auto
    have us: "filter (\<lambda>x. x \<noteq> t) us = remove1 t us"
      using d ts by (intro filter_neq_remove1) simp
    show ?thesis
      using True ts e en d ok us
      by (auto simp: am_Unregister_def fun_eq_iff reg_remove_def am_ok_def am_abs_def
          remove1_idem split: bool.splits)
  qed
qed

theorem Unregister_refines_witness:
  "am_ok (am_Unregister (mk_accelerator 65 0) (7::nat) am_init) \<and>
   am_abs (am_Unregister (mk_accelerator 65 0) (7::nat) am_init) =
     (am_abs am_init)(mk_accelerator 65 0 := reg_remove 7 (am_abs am_init (mk_accelerator 65 0)))"
  by (rule Unregister_refines) (simp add: am_ok_def am_entry_def am_init_def)

text \<open>The current target is the priority target if there is one, else the normal target
  registered last; a priority handler is reported exactly when there is a priority target that
  can handle accelerators.\<close>

theorem CurrentTarget_refines:
  assumes ok: "am_ok m"
  shows "am_GetCurrentTarget a m = (case reg_targets (am_abs m a) of [] \<Rightarrow> None | t # ts \<Rightarrow> Some t) \<and>
         am_HasPriorityHandler can a m = (case reg_priority (am_abs m a) of None \<Rightarrow> False | Some t \<Rightarrow> can t)"
proof (cases "accelerators m a")
  case None
  then show ?thesis
    by (simp add: am_GetCurrentTarget_def am_HasPriorityHandler_def am_abs_def am_entry_def reg_targets_def)
next
  case (Some e)
  then obtain f ts where e: "accelerators m a = Some (f, ts)" by (cases e) auto
  then show ?thesis
    using am_okD [OF ok, of a f ts]
    by (cases f; cases ts) (auto simp: am_GetCurrentTarget_def am_HasPriorityHandler_def am_abs_def
        am_entry_def reg_targets_def)
qed

theorem CurrentTarget_refines_witness:
  "am_GetCurrentTarget (mk_accelerator 65 0) am_init = (None :: nat option) \<and>
   am_HasPriorityHandler (\<lambda>t :: nat. True) (mk_accelerator 65 0) am_init = False"
  using CurrentTarget_refines [of am_init "mk_accelerator 65 0" "\<lambda>t :: nat. True"]
  by (simp add: am_ok_def am_entry_def am_init_def am_abs_def reg_targets_def)

text \<open>The targets that are asked before one handles the accelerator are asked in order, each in the
  state the earlier ones left.\<close>

lemma process_loop_first:
  "process_loop can pressed a ts s = (True, s') \<Longrightarrow>
   \<exists>xs t ys s1. ts = xs @ t # ys \<and> process_loop can pressed a xs s = (False, s1) \<and> can (fst s1) t \<and>
      pressed t a s1 = (True, s')"
proof (induction ts arbitrary: s)
  case (Cons u us)
  show ?case
  proof (cases "can (fst s) u")
    case True
    obtain h s2 where p: "pressed u a s = (h, s2)" by (cases "pressed u a s") blast
    show ?thesis
    proof (cases h)
      case h: True
      with True p Cons.prems show ?thesis
        by (intro exI [of _ "[]"] exI [of _ u] exI [of _ us] exI [of _ s]) simp
    next
      case False
      with True p Cons.prems Cons.IH [of s2] obtain xs t ys s1 where
        "us = xs @ t # ys" "process_loop can pressed a xs s2 = (False, s1)" "can (fst s1) t" "pressed t a s1 = (True, s')"
        by auto
      with True p False show ?thesis
        by (intro exI [of _ "u # xs"] exI [of _ t] exI [of _ ys] exI [of _ s1]) simp
    qed
  next
    case False
    with Cons.prems Cons.IH [of s] obtain xs t ys s1 where
      "us = xs @ t # ys" "process_loop can pressed a xs s = (False, s1)" "can (fst s1) t" "pressed t a s1 = (True, s')"
      by auto
    with False show ?thesis
      by (intro exI [of _ "u # xs"] exI [of _ t] exI [of _ ys] exI [of _ s1]) simp
  qed
qed simp

text \<open>When \<open>Process\<close> returns true, the registered targets split into those that were asked and
  refused, in order of priority, the one that handled the accelerator, and those that were not
  asked; every target is asked in the state the earlier ones left, the list is the one from before
  the first call even if a target changes the registrations, and the event type is remembered.\<close>

theorem Process_first_handler:
  assumes ok: "am_ok m" and "am_Process can pressed a (w, m) = (True, w', m')"
  shows "am_ShouldHandle a m \<and> last_event_type m' = acc_type a \<and>
    (\<exists>xs t ys s1 m1. reg_targets (am_abs m a) = xs @ t # ys \<and>
       process_loop can pressed a xs (w, m) = (False, s1) \<and> can (fst s1) t \<and>
       pressed t a s1 = (True, w', m1) \<and> m' = m1\<lparr>last_event_type := acc_type a\<rparr>)"
proof -
  obtain f ts where e: "accelerators m a = Some (f, ts)" and sh: "am_ShouldHandle a m"
    using assms(2) by (auto simp: am_Process_def Let_def split: option.splits if_splits prod.splits)
  obtain m1 where l: "process_loop can pressed a ts (w, m) = (True, w', m1)"
      and m': "m' = m1\<lparr>last_event_type := acc_type a\<rparr>"
    using assms(2) e sh by (auto simp: am_Process_def Let_def split: prod.splits)
  moreover have "reg_targets (am_abs m a) = ts"
    using reg_targets_abs [OF ok] e by (simp add: am_entry_def)
  moreover obtain xs t ys s1 where "ts = xs @ t # ys" "process_loop can pressed a xs (w, m) = (False, s1)"
      "can (fst s1) t" "pressed t a s1 = (True, w', m1)"
    using process_loop_first [OF l] by blast
  ultimately show ?thesis
    using sh by (intro conjI exI [of _ xs] exI [of _ t] exI [of _ ys] exI [of _ s1] exI [of _ m1]) simp_all
qed

text \<open>Two targets, of which the second handles everything.\<close>

definition two_targets :: "bool accelerator_manager" where
  "two_targets = \<lparr>accelerators = [mk_accelerator 65 0 \<mapsto> (False, [False, True])], last_event_type = ET_KEY_PRESSED\<rparr>"

theorem Process_first_handler_witness:
  "am_ShouldHandle (mk_accelerator 65 0) two_targets \<and>
    (\<exists>xs t ys s1 m1. reg_targets (am_abs two_targets (mk_accelerator 65 0)) = xs @ t # ys \<and>
       process_loop (\<lambda>w t. True) (\<lambda>t a s. (t, s)) (mk_accelerator 65 0) xs ((), two_targets) = (False, s1) \<and>
       (\<lambda>t a s. (t, s)) t (mk_accelerator 65 0) s1 = (True, (), m1))"
proof -
  have "am_Process (\<lambda>w t. True) (\<lambda>t a s. (t, s)) (mk_accelerator 65 0) ((), two_targets) = (True, (), two_targets)"
    by (simp add: am_Process_def two_targets_def am_ShouldHandle_def mk_accelerator_def)
  moreover have "am_ok two_targets"
    by (simp add: am_ok_def am_entry_def two_targets_def)
  ultimately show ?thesis
    using Process_first_handler [of two_targets "\<lambda>w t. True" "\<lambda>t a s. (t, s)" "mk_accelerator 65 0" "()" "()" two_targets]
    by auto
qed

text \<open>\<open>UnregisterAll\<close> does not clear the priority mark: after the priority target unregistered all its
  accelerators, registering a normal target inserts behind the first element of an empty list.\<close>

lemma UnregisterAll_leaves_mark:
  "\<exists>m1. am_Register a kHighPriority t am_init = Some m1 \<and>
        am_Register a kNormalPriority u (am_UnregisterAll t m1) = None"
  by (simp add: am_Register_def am_entry_def am_init_def am_UnregisterAll_def)

text \<open>On the other targets and without the mark \<open>UnregisterAll\<close> removes what it should.\<close>

lemma UnregisterAll_normal:
  assumes "am_ok m" and "\<forall>a. reg_priority (am_abs m a) \<noteq> Some t"
  shows "am_ok (am_UnregisterAll t m) \<and> (\<forall>a. am_abs (am_UnregisterAll t m) a = reg_remove t (am_abs m a))"
proof -
  have en: "am_entry a (am_UnregisterAll t m) = (fst (am_entry a m), removeAll t (snd (am_entry a m)))" for a
    by (cases "accelerators m a") (auto simp: am_entry_def am_UnregisterAll_def)
  have *: "(fst (am_entry a m) \<longrightarrow> removeAll t (snd (am_entry a m)) \<noteq> []) \<and>
        am_abs (am_UnregisterAll t m) a = reg_remove t (am_abs m a)" for a
  proof -
    obtain f ts where e: "am_entry a m = (f, ts)" by force
    show ?thesis
      using am_okD [OF assms(1) e] e assms(2) [rule_format, of a] en [of a]
      by (cases f; cases ts) (auto simp: am_abs_def reg_remove_def removeAll_filter_not_eq neq_commute)
  qed
  moreover have "distinct (snd (am_entry a m))" for a
    using assms(1) by (simp add: am_ok_def)
  ultimately show ?thesis
    by (simp add: am_ok_def en distinct_removeAll)
qed

end
