(* ===== verification/Floating.thy ===== *)
theory Floating
  imports UI_Prelude
begin

text \<open>
  The floating point operations of the machine. Numbers are values of a type \<open>'f\<close> that holds doubles;
  the operations are the fields of \<open>farith\<close>, and a \<open>float\<close> is a double in the image of \<open>f_round\<close>. Every
  float operation rounds its result. No law is assumed of them: a theorem that needs one names it.
\<close>

section \<open>Floating point operations\<close>

record 'f farith =
  f_of_int :: "int \<Rightarrow> 'f"
  f_trunc :: "'f \<Rightarrow> int"
  f_round :: "'f \<Rightarrow> 'f"
  f_add :: "'f \<Rightarrow> 'f \<Rightarrow> 'f"
  f_sub :: "'f \<Rightarrow> 'f \<Rightarrow> 'f"
  f_mul :: "'f \<Rightarrow> 'f \<Rightarrow> 'f"
  f_div :: "'f \<Rightarrow> 'f \<Rightarrow> 'f"
  f_sqrt :: "'f \<Rightarrow> 'f"
  f_abs :: "'f \<Rightarrow> 'f"
  f_less :: "'f \<Rightarrow> 'f \<Rightarrow> bool"
  f_eq :: "'f \<Rightarrow> 'f \<Rightarrow> bool"

text \<open>An \<open>int\<close>, \<open>int64\<close> or \<open>size_t\<close> converted to \<open>float\<close>, and the float operators.\<close>

definition fl :: "'f farith \<Rightarrow> int \<Rightarrow> 'f" where
  "fl F i = f_round F (f_of_int F i)"

definition fl_add :: "'f farith \<Rightarrow> 'f \<Rightarrow> 'f \<Rightarrow> 'f" where
  "fl_add F a b = f_round F (f_add F a b)"

definition fl_sub :: "'f farith \<Rightarrow> 'f \<Rightarrow> 'f \<Rightarrow> 'f" where
  "fl_sub F a b = f_round F (f_sub F a b)"

definition fl_mul :: "'f farith \<Rightarrow> 'f \<Rightarrow> 'f \<Rightarrow> 'f" where
  "fl_mul F a b = f_round F (f_mul F a b)"

definition fl_div :: "'f farith \<Rightarrow> 'f \<Rightarrow> 'f \<Rightarrow> 'f" where
  "fl_div F a b = f_round F (f_div F a b)"

text \<open>The value a 64-bit two's complement integer has after an operation.\<close>

definition wrap64 :: "int \<Rightarrow> int" where
  "wrap64 i = (i + 2 ^ 63) mod 2 ^ 64 - 2 ^ 63"

end
