(* ===== verification/Gesture_Point.thy ===== *)
theory Gesture_Point
  imports Geometry Events Floating
begin

text \<open>
  One finger of a touch gesture: \<open>VelocityCalculator\<close> (\<open>src/ui/base/gestures/velocity_calculator.h\<close>,
  \<open>.cc\<close>) and \<open>GesturePoint\<close> (\<open>gesture_point.h\<close>, \<open>.cc\<close>), with the configuration values they read
  (\<open>gesture_configuration.h\<close>) and the touch event interface (\<open>gesture_types.h\<close>).
\<close>

section \<open>Configuration and events\<close>

record 'f gesture_configuration =
  default_radius :: int
  max_distance_for_two_finger_tap_in_pixels :: 'f
  max_radius :: int
  max_seconds_between_double_click :: 'f
  max_separation_for_gesture_touches_in_pixels :: int
  max_swipe_deviation_ratio :: 'f
  max_touch_down_duration_in_seconds_for_click :: 'f
  max_touch_move_in_pixels_for_click :: 'f
  min_flick_speed_squared :: 'f
  min_pinch_update_distance_in_pixels :: 'f
  min_rail_break_velocity :: 'f
  min_scroll_delta_squared :: 'f
  min_swipe_speed :: 'f
  min_touch_down_duration_in_seconds_for_click :: 'f
  points_buffered_for_velocity :: nat
  rail_break_proportion :: 'f
  rail_start_proportion :: 'f

record 'f touch_event =
  te_type :: EventType
  te_location :: point
  te_touch_id :: int
  te_flags :: int
  te_timestamp :: int
  te_radius_x :: 'f
  te_radius_y :: 'f

text \<open>\<open>TimeDelta::InSecondsF\<close> of a time stamp in microseconds.\<close>

definition in_seconds :: "'f farith \<Rightarrow> int \<Rightarrow> 'f" where
  "in_seconds F us = f_div F (f_of_int F us) (f_of_int F 1000000)"

section \<open>Velocity\<close>

record vc_point =
  vp_x :: int
  vp_y :: int
  vp_time :: int

record 'f velocity_calculator =
  vc_buffer :: "vc_point list"
  vc_index :: nat
  vc_num_valid_entries :: nat
  vc_buffer_size :: nat
  vc_x_velocity :: 'f
  vc_y_velocity :: 'f
  vc_velocities_stale :: bool

text \<open>The contents of a fresh buffer are indeterminate; they are never read before they are written.\<close>

definition vc_init :: "'f farith \<Rightarrow> nat \<Rightarrow> 'f velocity_calculator" where
  "vc_init F n =
     \<lparr>vc_buffer = replicate n \<lparr>vp_x = 0, vp_y = 0, vp_time = 0\<rparr>, vc_index = 0,
      vc_num_valid_entries = 0, vc_buffer_size = n, vc_x_velocity = fl F 0, vc_y_velocity = fl F 0,
      vc_velocities_stale = False\<rparr>"

definition vc_PointSeen :: "int \<Rightarrow> int \<Rightarrow> int \<Rightarrow> 'f velocity_calculator \<Rightarrow> 'f velocity_calculator" where
  "vc_PointSeen x y time v =
     v\<lparr>vc_buffer := (vc_buffer v)[vc_index v := \<lparr>vp_x = x, vp_y = y, vp_time = time\<rparr>],
       vc_index := (vc_index v + 1) mod vc_buffer_size v,
       vc_num_valid_entries := (if vc_num_valid_entries v < vc_buffer_size v
                                then vc_num_valid_entries v + 1 else vc_num_valid_entries v),
       vc_velocities_stale := True\<rparr>"

definition vc_ClearHistory :: "'f farith \<Rightarrow> 'f velocity_calculator \<Rightarrow> 'f velocity_calculator" where
  "vc_ClearHistory F v =
     v\<lparr>vc_index := 0, vc_num_valid_entries := 0, vc_x_velocity := fl F 0, vc_y_velocity := fl F 0,
       vc_velocities_stale := False\<rparr>"

text \<open>The sums of the two loops of \<open>UpdateVelocity\<close>. The quotient \<open>mean_time /= buffer_size_\<close> is
  computed in the unsigned type of \<open>buffer_size_\<close>.\<close>

fun vc_means :: "'f farith \<Rightarrow> vc_point list \<Rightarrow> 'f \<times> 'f \<times> int \<Rightarrow> 'f \<times> 'f \<times> int" where
  "vc_means F [] acc = acc"
| "vc_means F (p # ps) (mx, my, mt) =
     vc_means F ps (fl_add F mx (fl F (vp_x p)), fl_add F my (fl F (vp_y p)), wrap64 (mt + vp_time p))"

fun vc_sums :: "'f farith \<Rightarrow> 'f \<Rightarrow> 'f \<Rightarrow> int \<Rightarrow> vc_point list \<Rightarrow> 'f \<times> 'f \<times> int \<Rightarrow> 'f \<times> 'f \<times> int" where
  "vc_sums F mx my mt [] acc = acc"
| "vc_sums F mx my mt (p # ps) (xt, yt, tt) =
     (let t = wrap64 (vp_time p - mt)
      in vc_sums F mx my mt ps
           (fl_add F xt (fl_mul F (fl_sub F (fl F (vp_x p)) mx) (fl F t)),
            fl_add F yt (fl_mul F (fl_sub F (fl F (vp_y p)) my) (fl F t)),
            wrap64 (tt + wrap64 (t * t))))"

definition vc_UpdateVelocity :: "'f farith \<Rightarrow> 'f velocity_calculator \<Rightarrow> 'f velocity_calculator" where
  "vc_UpdateVelocity F v =
     (if vc_num_valid_entries v < vc_buffer_size v then v
      else let n = vc_buffer_size v;
               (mx, my, mt) = vc_means F (vc_buffer v) (fl F 0, fl F 0, 0);
               buffer_size_i = fl_div F (fl F 1) (fl F (int n));
               mx' = fl_mul F mx buffer_size_i;
               my' = fl_mul F my buffer_size_i;
               mt' = wrap64 ((mt mod 2 ^ 64) div int n);
               (xt, yt, tt) = vc_sums F mx' my' mt' (vc_buffer v) (fl F 0, fl F 0, 0);
               secs = fl_div F (fl F tt) (fl F 1000000)
           in v\<lparr>vc_x_velocity := fl_div F xt secs, vc_y_velocity := fl_div F yt secs,
                vc_velocities_stale := False\<rparr>)"

text \<open>The accessors refresh the velocities first: \<open>vc_refresh\<close> is that common step.\<close>

definition vc_refresh :: "'f farith \<Rightarrow> 'f velocity_calculator \<Rightarrow> 'f velocity_calculator" where
  "vc_refresh F v = (if vc_velocities_stale v then vc_UpdateVelocity F v else v)"

definition vc_XVelocity :: "'f farith \<Rightarrow> 'f velocity_calculator \<Rightarrow> 'f \<times> 'f velocity_calculator" where
  "vc_XVelocity F v = (let v' = vc_refresh F v in (vc_x_velocity v', v'))"

definition vc_YVelocity :: "'f farith \<Rightarrow> 'f velocity_calculator \<Rightarrow> 'f \<times> 'f velocity_calculator" where
  "vc_YVelocity F v = (let v' = vc_refresh F v in (vc_y_velocity v', v'))"

definition vc_VelocitySquared :: "'f farith \<Rightarrow> 'f velocity_calculator \<Rightarrow> 'f \<times> 'f velocity_calculator" where
  "vc_VelocitySquared F v =
     (let v' = vc_refresh F v
      in (fl_add F (fl_mul F (vc_x_velocity v') (vc_x_velocity v'))
                   (fl_mul F (vc_y_velocity v') (vc_y_velocity v')), v'))"

section \<open>Gesture point\<close>

record 'f gesture_point =
  gp_first_touch_position :: point
  gp_first_touch_time :: 'f
  gp_last_touch_position :: point
  gp_last_touch_time :: 'f
  gp_last_tap_time :: 'f
  gp_last_tap_position :: point
  gp_velocity_calculator :: "'f velocity_calculator"
  gp_point_id :: int
  gp_touch_id :: int
  gp_enclosing_rect :: rect

definition gp_init :: "'f farith \<Rightarrow> 'f gesture_configuration \<Rightarrow> 'f gesture_point" where
  "gp_init F cfg =
     \<lparr>gp_first_touch_position = point_default, gp_first_touch_time = f_of_int F 0,
      gp_last_touch_position = point_default, gp_last_touch_time = f_of_int F 0,
      gp_last_tap_time = f_of_int F 0, gp_last_tap_position = point_default,
      gp_velocity_calculator = vc_init F (points_buffered_for_velocity cfg),
      gp_point_id = -1, gp_touch_id = -1, gp_enclosing_rect = rect_default\<rparr>"

definition gp_in_use :: "'f gesture_point \<Rightarrow> bool" where
  "gp_in_use p \<longleftrightarrow> gp_point_id p \<ge> 0"

definition gp_x :: "'f gesture_point \<Rightarrow> int" where
  "gp_x p = pt_x (gp_last_touch_position p)"

definition gp_y :: "'f gesture_point \<Rightarrow> int" where
  "gp_y p = pt_y (gp_last_touch_position p)"

text \<open>\<open>x_delta\<close> and \<open>y_delta\<close>: an \<open>int\<close> difference, which a double holds exactly.\<close>

definition gp_x_delta :: "'f gesture_point \<Rightarrow> int" where
  "gp_x_delta p = wrap32 (pt_x (gp_last_touch_position p) - pt_x (gp_first_touch_position p))"

definition gp_y_delta :: "'f gesture_point \<Rightarrow> int" where
  "gp_y_delta p = wrap32 (pt_y (gp_last_touch_position p) - pt_y (gp_first_touch_position p))"

definition gp_Reset :: "'f farith \<Rightarrow> 'f gesture_point \<Rightarrow> 'f gesture_point" where
  "gp_Reset F p =
     p\<lparr>gp_first_touch_time := f_of_int F 0, gp_last_touch_time := f_of_int F 0,
       gp_velocity_calculator := vc_ClearHistory F (gp_velocity_calculator p),
       gp_point_id := -1, gp_enclosing_rect := rect_default\<rparr>"

definition gp_ResetVelocity :: "'f farith \<Rightarrow> 'f gesture_point \<Rightarrow> 'f gesture_point" where
  "gp_ResetVelocity F p = p\<lparr>gp_velocity_calculator := vc_ClearHistory F (gp_velocity_calculator p)\<rparr>"

definition gp_UpdateEnclosingRectangle ::
  "'f farith \<Rightarrow> 'f gesture_configuration \<Rightarrow> 'f touch_event \<Rightarrow> 'f gesture_point \<Rightarrow> 'f gesture_point" where
  "gp_UpdateEnclosingRectangle F cfg e p =
     (if f_less F (fl F (max_radius cfg)) (te_radius_x e) \<or> f_less F (fl F (max_radius cfg)) (te_radius_y e)
      then p
      else let radius =
                 (if \<not> f_eq F (te_radius_x e) (fl F 0) \<or> \<not> f_eq F (te_radius_y e) (fl F 0)
                  then f_trunc F (if f_less F (te_radius_x e) (te_radius_y e) then te_radius_y e
                                  else te_radius_x e)
                  else default_radius cfg)
           in p\<lparr>gp_enclosing_rect :=
                  rect_Union (gp_enclosing_rect p)
                    (mk_rect (pt_x (te_location e) - radius) (pt_y (te_location e) - radius)
                       (radius * 2) (radius * 2))\<rparr>)"

definition gp_UpdateValues ::
  "'f farith \<Rightarrow> 'f gesture_configuration \<Rightarrow> 'f touch_event \<Rightarrow> 'f gesture_point \<Rightarrow> 'f gesture_point" where
  "gp_UpdateValues F cfg e p =
     (let seen = vc_PointSeen (pt_x (te_location e)) (pt_y (te_location e)) (te_timestamp e);
          p1 = (if te_type e = ET_TOUCH_MOVED
                then p\<lparr>gp_velocity_calculator := seen (gp_velocity_calculator p)\<rparr> else p);
          p2 = p1\<lparr>gp_last_touch_time := in_seconds F (te_timestamp e),
                  gp_last_touch_position := te_location e\<rparr>;
          p3 = (if te_type e = ET_TOUCH_PRESSED
                then p2\<lparr>gp_first_touch_time := gp_last_touch_time p2,
                        gp_first_touch_position := te_location e,
                        gp_velocity_calculator := seen (vc_ClearHistory F (gp_velocity_calculator p2)),
                        gp_enclosing_rect := rect_default\<rparr>
                else p2)
      in gp_UpdateEnclosingRectangle F cfg e p3)"

definition gp_UpdateForTap :: "'f gesture_point \<Rightarrow> 'f gesture_point" where
  "gp_UpdateForTap p =
     p\<lparr>gp_last_tap_time := gp_last_touch_time p, gp_last_tap_position := gp_last_touch_position p\<rparr>"

definition gp_UpdateForScroll :: "'f gesture_point \<Rightarrow> 'f gesture_point" where
  "gp_UpdateForScroll p =
     p\<lparr>gp_first_touch_position := gp_last_touch_position p, gp_first_touch_time := gp_last_touch_time p\<rparr>"

text \<open>\<open>a >= b\<close> on doubles.\<close>

definition f_ge :: "'f farith \<Rightarrow> 'f \<Rightarrow> 'f \<Rightarrow> bool" where
  "f_ge F a b \<longleftrightarrow> f_less F b a \<or> f_eq F a b"

definition gp_IsInClickTimeWindow :: "'f farith \<Rightarrow> 'f gesture_configuration \<Rightarrow> 'f gesture_point \<Rightarrow> bool" where
  "gp_IsInClickTimeWindow F cfg p =
     (let duration = f_sub F (gp_last_touch_time p) (gp_first_touch_time p)
      in f_ge F duration (min_touch_down_duration_in_seconds_for_click cfg) \<and>
         f_less F duration (max_touch_down_duration_in_seconds_for_click cfg))"

definition gp_IsInSecondClickTimeWindow :: "'f farith \<Rightarrow> 'f gesture_configuration \<Rightarrow> 'f gesture_point \<Rightarrow> bool" where
  "gp_IsInSecondClickTimeWindow F cfg p =
     (let duration = f_sub F (gp_last_touch_time p) (gp_last_tap_time p)
      in f_less F duration (max_seconds_between_double_click cfg))"

text \<open>\<open>abs(a.x() - b.x()) + abs(a.y() - b.y())\<close>.\<close>

definition manhattan :: "point \<Rightarrow> point \<Rightarrow> int" where
  "manhattan a b = wrap32 (\<bar>wrap32 (pt_x a - pt_x b)\<bar> + \<bar>wrap32 (pt_y a - pt_y b)\<bar>)"

definition gp_IsInsideManhattanSquare ::
  "'f farith \<Rightarrow> 'f gesture_configuration \<Rightarrow> 'f touch_event \<Rightarrow> 'f gesture_point \<Rightarrow> bool" where
  "gp_IsInsideManhattanSquare F cfg e p \<longleftrightarrow>
     f_less F (f_of_int F (manhattan (te_location e) (gp_first_touch_position p)))
       (max_touch_move_in_pixels_for_click cfg)"

definition gp_IsSecondClickInsideManhattanSquare ::
  "'f farith \<Rightarrow> 'f gesture_configuration \<Rightarrow> 'f touch_event \<Rightarrow> 'f gesture_point \<Rightarrow> bool" where
  "gp_IsSecondClickInsideManhattanSquare F cfg e p \<longleftrightarrow>
     f_less F (f_of_int F (manhattan (te_location e) (gp_last_tap_position p)))
       (max_touch_move_in_pixels_for_click cfg)"

definition gp_IsInClickWindow ::
  "'f farith \<Rightarrow> 'f gesture_configuration \<Rightarrow> 'f touch_event \<Rightarrow> 'f gesture_point \<Rightarrow> bool" where
  "gp_IsInClickWindow F cfg e p \<longleftrightarrow>
     gp_IsInClickTimeWindow F cfg p \<and> gp_IsInsideManhattanSquare F cfg e p"

definition gp_IsInDoubleClickWindow ::
  "'f farith \<Rightarrow> 'f gesture_configuration \<Rightarrow> 'f touch_event \<Rightarrow> 'f gesture_point \<Rightarrow> bool" where
  "gp_IsInDoubleClickWindow F cfg e p \<longleftrightarrow>
     gp_IsInSecondClickTimeWindow F cfg p \<and> gp_IsSecondClickInsideManhattanSquare F cfg e p"

definition gp_IsInScrollWindow ::
  "'f farith \<Rightarrow> 'f gesture_configuration \<Rightarrow> 'f touch_event \<Rightarrow> 'f gesture_point \<Rightarrow> bool" where
  "gp_IsInScrollWindow F cfg e p \<longleftrightarrow>
     te_type e = ET_TOUCH_MOVED \<and> \<not> gp_IsInsideManhattanSquare F cfg e p"

definition gp_DidScroll :: "int \<Rightarrow> 'f gesture_point \<Rightarrow> bool" where
  "gp_DidScroll dist p \<longleftrightarrow> \<bar>gp_x_delta p\<bar> > dist \<or> \<bar>gp_y_delta p\<bar> > dist"

definition gp_HasEnoughDataToEstablishRail ::
  "'f farith \<Rightarrow> 'f gesture_configuration \<Rightarrow> 'f gesture_point \<Rightarrow> bool" where
  "gp_HasEnoughDataToEstablishRail F cfg p =
     (let dx = gp_x_delta p; dy = gp_y_delta p;
          delta_squared = wrap32 (wrap32 (dx * dx) + wrap32 (dy * dy))
      in f_less F (min_scroll_delta_squared cfg) (f_of_int F delta_squared))"

definition gp_IsInHorizontalRailWindow ::
  "'f farith \<Rightarrow> 'f gesture_configuration \<Rightarrow> 'f gesture_point \<Rightarrow> bool" where
  "gp_IsInHorizontalRailWindow F cfg p \<longleftrightarrow>
     f_less F (f_mul F (rail_start_proportion cfg) (f_of_int F \<bar>gp_y_delta p\<bar>)) (f_of_int F \<bar>gp_x_delta p\<bar>)"

definition gp_IsInVerticalRailWindow ::
  "'f farith \<Rightarrow> 'f gesture_configuration \<Rightarrow> 'f gesture_point \<Rightarrow> bool" where
  "gp_IsInVerticalRailWindow F cfg p \<longleftrightarrow>
     f_less F (f_mul F (rail_start_proportion cfg) (f_of_int F \<bar>gp_x_delta p\<bar>)) (f_of_int F \<bar>gp_y_delta p\<bar>)"

text \<open>The operations that read the velocity refresh it and so change the point.\<close>

definition gp_refresh :: "'f farith \<Rightarrow> 'f gesture_point \<Rightarrow> 'f gesture_point" where
  "gp_refresh F p = p\<lparr>gp_velocity_calculator := vc_refresh F (gp_velocity_calculator p)\<rparr>"

definition gp_XVelocity :: "'f farith \<Rightarrow> 'f gesture_point \<Rightarrow> 'f" where
  "gp_XVelocity F p = fst (vc_XVelocity F (gp_velocity_calculator p))"

definition gp_YVelocity :: "'f farith \<Rightarrow> 'f gesture_point \<Rightarrow> 'f" where
  "gp_YVelocity F p = fst (vc_YVelocity F (gp_velocity_calculator p))"

definition gp_BreaksHorizontalRail ::
  "'f farith \<Rightarrow> 'f gesture_configuration \<Rightarrow> 'f gesture_point \<Rightarrow> bool \<times> 'f gesture_point" where
  "gp_BreaksHorizontalRail F cfg p =
     (let vx = gp_XVelocity F p; vy = gp_YVelocity F p
      in (f_less F (f_add F (f_mul F (rail_break_proportion cfg) (f_abs F vx)) (min_rail_break_velocity cfg))
            (f_abs F vy), gp_refresh F p))"

definition gp_BreaksVerticalRail ::
  "'f farith \<Rightarrow> 'f gesture_configuration \<Rightarrow> 'f gesture_point \<Rightarrow> bool \<times> 'f gesture_point" where
  "gp_BreaksVerticalRail F cfg p =
     (let vx = gp_XVelocity F p; vy = gp_YVelocity F p
      in (f_less F (f_add F (f_mul F (rail_break_proportion cfg) (f_abs F vy)) (min_rail_break_velocity cfg))
            (f_abs F vx), gp_refresh F p))"

definition gp_IsOverMinFlickSpeed ::
  "'f farith \<Rightarrow> 'f gesture_configuration \<Rightarrow> 'f gesture_point \<Rightarrow> bool \<times> 'f gesture_point" where
  "gp_IsOverMinFlickSpeed F cfg p =
     (f_less F (min_flick_speed_squared cfg) (fst (vc_VelocitySquared F (gp_velocity_calculator p))),
      gp_refresh F p)"

definition gp_IsInFlickWindow ::
  "'f farith \<Rightarrow> 'f gesture_configuration \<Rightarrow> 'f touch_event \<Rightarrow> 'f gesture_point \<Rightarrow> bool \<times> 'f gesture_point" where
  "gp_IsInFlickWindow F cfg e p =
     (let (over, p') = gp_IsOverMinFlickSpeed F cfg p
      in (over \<and> te_type e \<noteq> ET_TOUCH_CANCELLED, p'))"

section \<open>The velocity window\<close>

text \<open>The state after a sequence of points.\<close>

definition vc_feed :: "vc_point list \<Rightarrow> 'f velocity_calculator \<Rightarrow> 'f velocity_calculator" where
  "vc_feed ps v = fold (\<lambda>p. vc_PointSeen (vp_x p) (vp_y p) (vp_time p)) ps v"

lemma vc_feed_snoc: "vc_feed (ps @ [p]) v = vc_PointSeen (vp_x p) (vp_y p) (vp_time p) (vc_feed ps v)"
  by (simp add: vc_feed_def)

lemma mod_window:
  assumes "j < k" and "k < j + n" and "0 < (n::nat)"
  shows "j mod n \<noteq> k mod n"
proof
  assume "j mod n = k mod n"
  then have "n dvd k - j" using assms(1) by (metis less_imp_le mod_eq_dvd_iff_nat)
  then show False using assms by (auto dest: dvd_imp_le)
qed

lemma vc_feed_window:
  assumes "0 < n" and "vc_buffer_size v = n" and "length (vc_buffer v) = n" and "vc_index v = 0"
    and "vc_num_valid_entries v = 0"
  shows "vc_buffer_size (vc_feed ps v) = n \<and> length (vc_buffer (vc_feed ps v)) = n \<and>
    vc_index (vc_feed ps v) = length ps mod n \<and> vc_num_valid_entries (vc_feed ps v) = min (length ps) n \<and>
    (\<forall>j < length ps. length ps \<le> j + n \<longrightarrow> vc_buffer (vc_feed ps v) ! (j mod n) = ps ! j)"
proof (induction ps rule: rev_induct)
  case Nil
  then show ?case using assms by (simp add: vc_feed_def)
next
  case (snoc p ps)
  let ?w = "vc_feed ps v"
  have IH: "vc_buffer_size ?w = n" "length (vc_buffer ?w) = n" "vc_index ?w = length ps mod n"
      "vc_num_valid_entries ?w = min (length ps) n"
      "\<And>j. j < length ps \<Longrightarrow> length ps \<le> j + n \<Longrightarrow> vc_buffer ?w ! (j mod n) = ps ! j"
    using snoc by auto
  have "vc_buffer (vc_PointSeen (vp_x p) (vp_y p) (vp_time p) ?w) ! (j mod n) = (ps @ [p]) ! j"
    if "j < Suc (length ps)" "Suc (length ps) \<le> j + n" for j
  proof (cases "j = length ps")
    case True
    then show ?thesis using IH assms(1) by (simp add: vc_PointSeen_def)
  next
    case False
    with that have "j < length ps" by simp
    then have "j mod n \<noteq> length ps mod n" using that assms(1) by (intro mod_window) auto
    with \<open>j < length ps\<close> that IH(3,5) show ?thesis by (simp add: vc_PointSeen_def nth_append)
  qed
  then show ?case
    using IH by (auto simp: vc_feed_snoc vc_PointSeen_def mod_Suc_eq)
qed

text \<open>After any number of touch positions the velocity calculator holds exactly the most recent
  ones, as many as its buffer has room for: the \<open>j\<close>-th of the last \<open>n\<close> positions is in slot \<open>j mod n\<close>,
  and the number of valid entries is the number of positions seen, up to \<open>n\<close>.\<close>

theorem velocity_window:
  assumes "0 < n"
  shows "vc_num_valid_entries (vc_feed ps (vc_init F n)) = min (length ps) n \<and>
    (\<forall>j < length ps. length ps \<le> j + n \<longrightarrow> vc_buffer (vc_feed ps (vc_init F n)) ! (j mod n) = ps ! j)"
  using vc_feed_window [OF assms, of "vc_init F n" ps] by (simp add: vc_init_def)

text \<open>Whole numbers as a machine arithmetic, for concrete runs.\<close>

definition int_arith :: "int farith" where
  "int_arith =
     \<lparr>f_of_int = id, f_trunc = id, f_round = id, f_add = (+), f_sub = (-), f_mul = (*),
      f_div = (sdiv), f_sqrt = (\<lambda>x. x), f_abs = abs, f_less = (<), f_eq = (=)\<rparr>"

theorem velocity_window_witness:
  "vc_num_valid_entries (vc_feed [\<lparr>vp_x = 1, vp_y = 2, vp_time = 3\<rparr>] (vc_init int_arith 2)) = 1"
  using velocity_window [of 2 "[\<lparr>vp_x = 1, vp_y = 2, vp_time = 3\<rparr>]" int_arith] by simp

text \<open>The point identity is not touched by updates of the touch data.\<close>

lemma gp_ids [simp]:
  "gp_point_id (gp_UpdateValues F cfg e p) = gp_point_id p"
  "gp_touch_id (gp_UpdateValues F cfg e p) = gp_touch_id p"
  "gp_point_id (gp_UpdateForTap p) = gp_point_id p" "gp_touch_id (gp_UpdateForTap p) = gp_touch_id p"
  "gp_point_id (gp_UpdateForScroll p) = gp_point_id p" "gp_touch_id (gp_UpdateForScroll p) = gp_touch_id p"
  "gp_point_id (gp_refresh F p) = gp_point_id p" "gp_touch_id (gp_refresh F p) = gp_touch_id p"
  "gp_point_id (gp_ResetVelocity F p) = gp_point_id p" "gp_touch_id (gp_ResetVelocity F p) = gp_touch_id p"
  "gp_point_id (gp_Reset F p) = -1" "gp_touch_id (gp_Reset F p) = gp_touch_id p"
  by (simp_all add: gp_UpdateValues_def gp_UpdateEnclosingRectangle_def Let_def gp_UpdateForTap_def
      gp_UpdateForScroll_def gp_refresh_def gp_ResetVelocity_def gp_Reset_def)

end
