(* ===== verification/Gesture_Sequence.thy ===== *)
theory Gesture_Sequence
  imports Gesture_Point
begin

text \<open>
  The gesture recognizer of one touch sequence: \<open>GestureSequence\<close>
  (\<open>src/ui/base/gestures/gesture_sequence.h\<close>, \<open>gesture_sequence.cc\<close>). Twelve gesture points, a state
  machine driven by a signature of state, point id and touch type, and the gesture events it
  produces.

  The dereference of the null pointer that \<open>GetPointByPointId\<close> returns when it finds no point, and
  a failed \<open>CHECK\<close>, are \<open>None\<close>. The long press timer is the flag that it is running; its callback is
  \<open>gs_AppendLongPressGestureEvent\<close>. The arguments of \<open>helper_->CreateGestureEvent\<close> are a record; the
  time is kept as the double that is passed to \<open>Time::FromDoubleT\<close>.
\<close>

unbundle bit_operations_syntax

section \<open>Signatures\<close>

datatype GestureState =
    GS_NO_GESTURE | GS_PENDING_SYNTHETIC_CLICK | GS_SCROLL | GS_PINCH | GS_PENDING_TWO_FINGER_TAP

datatype ScrollType = ST_FREE | ST_HORIZONTAL | ST_VERTICAL

datatype TouchState = TS_RELEASED | TS_PRESSED | TS_MOVED | TS_STATIONARY | TS_CANCELLED | TS_UNKNOWN

datatype TouchStatus =
    TOUCH_STATUS_UNKNOWN | TOUCH_STATUS_START | TOUCH_STATUS_CONTINUE | TOUCH_STATUS_END
  | TOUCH_STATUS_SYNTH_MOUSE | TOUCH_STATUS_QUEUED | TOUCH_STATUS_QUEUED_END

primrec gesture_state_code :: "GestureState \<Rightarrow> 32 word" where
  "gesture_state_code GS_NO_GESTURE = 0"
| "gesture_state_code GS_PENDING_SYNTHETIC_CLICK = 1"
| "gesture_state_code GS_SCROLL = 2"
| "gesture_state_code GS_PINCH = 3"
| "gesture_state_code GS_PENDING_TWO_FINGER_TAP = 4"

primrec touch_state_code :: "TouchState \<Rightarrow> 32 word" where
  "touch_state_code TS_RELEASED = 0"
| "touch_state_code TS_PRESSED = 1"
| "touch_state_code TS_MOVED = 2"
| "touch_state_code TS_STATIONARY = 3"
| "touch_state_code TS_CANCELLED = 4"
| "touch_state_code TS_UNKNOWN = 5"

definition TouchEventTypeToTouchState :: "EventType \<Rightarrow> TouchState" where
  "TouchEventTypeToTouchState type =
     (if type = ET_TOUCH_RELEASED then TS_RELEASED else if type = ET_TOUCH_PRESSED then TS_PRESSED
      else if type = ET_TOUCH_MOVED then TS_MOVED else if type = ET_TOUCH_STATIONARY then TS_STATIONARY
      else if type = ET_TOUCH_CANCELLED then TS_CANCELLED else TS_UNKNOWN)"

text \<open>The macro \<open>G\<close>, whose values are the enumerators of \<open>EdgeStateSignatureType\<close>.\<close>

definition sig_G :: "GestureState \<Rightarrow> 32 word \<Rightarrow> TouchState \<Rightarrow> bool \<Rightarrow> 32 word" where
  "sig_G gesture_state i touch_state handled =
     1 + (push_bit 1 (touch_state_code touch_state AND 0x7) OR
          (if handled then push_bit 4 1 else 0) OR
          push_bit 5 (i AND 0xfff) OR
          push_bit 17 (gesture_state_code gesture_state))"

definition Signature :: "GestureState \<Rightarrow> int \<Rightarrow> EventType \<Rightarrow> bool \<Rightarrow> 32 word option" where
  "Signature gesture_state touch_id type touch_handled =
     (let i = word_of_int touch_id
      in if i AND 0xfff = i
         then Some (sig_G gesture_state i (TouchEventTypeToTouchState type) touch_handled)
         else None)"

text \<open>A case label: the point with id \<open>i\<close> in the given gesture and touch state.\<close>

definition GST :: "GestureState \<Rightarrow> 32 word \<Rightarrow> TouchState \<Rightarrow> 32 word" where
  "GST st i ts = sig_G st i ts False"

text \<open>The fields of a signature can be read back, so different edges have different labels.\<close>

lemma code_bits:
  "bit (gesture_state_code st) k \<Longrightarrow> k < 3" "bit (touch_state_code ts) k \<Longrightarrow> k < 3"
proof -
  have *: "bit (w :: 32 word) k \<Longrightarrow> w AND mask 3 = w \<Longrightarrow> k < 3" for w
    by (metis bit_and_iff bit_mask_iff)
  show "bit (gesture_state_code st) k \<Longrightarrow> k < 3"
    by (cases st; erule *) (simp_all add: mask_eq_exp_minus_1)
  show "bit (touch_state_code ts) k \<Longrightarrow> k < 3"
    by (cases ts; erule *) (simp_all add: mask_eq_exp_minus_1)
qed

lemma hex_masks: "(0xfff :: 32 word) = mask 12" "(0x7 :: 32 word) = mask 3"
  by (simp_all add: mask_eq_exp_minus_1)

lemma sig_fields:
  "drop_bit 17 (sig_G st i ts False - 1) = gesture_state_code st"
  "drop_bit 5 (sig_G st i ts False - 1) AND 0xfff = i AND 0xfff"
  "drop_bit 1 (sig_G st i ts False - 1) AND 0x7 = touch_state_code ts"
proof -
  have s: "sig_G st i ts False - 1 = push_bit 1 (touch_state_code ts AND mask 3) OR
      push_bit 5 (i AND mask 12) OR push_bit 17 (gesture_state_code st)"
    unfolding sig_G_def hex_masks by simp
  have b: "bit (sig_G st i ts False - 1) k \<longleftrightarrow> k < 32 \<and>
      (1 \<le> k \<and> k < 4 \<and> bit (touch_state_code ts) (k - 1) \<or>
       5 \<le> k \<and> k < 17 \<and> bit i (k - 5) \<or> 17 \<le> k \<and> k < 20 \<and> bit (gesture_state_code st) (k - 17))" for k
    unfolding s bit_or_iff bit_push_bit_iff bit_and_iff bit_mask_iff
    using code_bits(1) [of st "k - 17"] by auto
  show "drop_bit 17 (sig_G st i ts False - 1) = gesture_state_code st"
  proof (rule bit_word_eqI)
    fix k assume "k < LENGTH(32)"
    then show "bit (drop_bit 17 (sig_G st i ts False - 1)) k \<longleftrightarrow> bit (gesture_state_code st) k"
      using code_bits(1) [of st k] by (auto simp: bit_drop_bit_eq b)
  qed
  show "drop_bit 5 (sig_G st i ts False - 1) AND 0xfff = i AND 0xfff"
  proof (rule bit_word_eqI)
    fix k assume "k < LENGTH(32)"
    then show "bit (drop_bit 5 (sig_G st i ts False - 1) AND 0xfff) k \<longleftrightarrow> bit (i AND 0xfff) k"
      unfolding hex_masks by (auto simp: bit_drop_bit_eq b bit_and_iff bit_mask_iff)
  qed
  show "drop_bit 1 (sig_G st i ts False - 1) AND 0x7 = touch_state_code ts"
  proof (rule bit_word_eqI)
    fix k assume "k < LENGTH(32)"
    then show "bit (drop_bit 1 (sig_G st i ts False - 1) AND 0x7) k \<longleftrightarrow> bit (touch_state_code ts) k"
      using code_bits(2) [of ts k]
      unfolding hex_masks by (auto simp: bit_drop_bit_eq b bit_and_iff bit_mask_iff)
  qed
qed

section \<open>State\<close>

record 'f gesture =
  ge_type :: EventType
  ge_location :: point
  ge_flags :: int
  ge_time :: 'f
  ge_param_first :: 'f
  ge_param_second :: 'f
  ge_touch_ids :: "32 word"

record 'f gesture_sequence =
  gs_state :: GestureState
  gs_flags :: int
  gs_bounding_box :: rect
  gs_bounding_box_last_center :: point
  gs_pinch_distance_start :: 'f
  gs_pinch_distance_current :: 'f
  gs_second_touch_time :: int
  gs_scroll_type :: ScrollType
  gs_long_press_timer :: bool
  gs_points :: "'f gesture_point list"
  gs_point_count :: int
  gs_last_touch_location :: point

definition kMaxGesturePoints :: nat where
  "kMaxGesturePoints = 12"

definition gs_init :: "'f farith \<Rightarrow> 'f gesture_configuration \<Rightarrow> 'f gesture_sequence" where
  "gs_init F cfg =
     \<lparr>gs_state = GS_NO_GESTURE, gs_flags = 0, gs_bounding_box = rect_default,
      gs_bounding_box_last_center = point_default, gs_pinch_distance_start = fl F 0,
      gs_pinch_distance_current = fl F 0, gs_second_touch_time = 0, gs_scroll_type = ST_FREE,
      gs_long_press_timer = False, gs_points = replicate kMaxGesturePoints (gp_init F cfg),
      gs_point_count = 0, gs_last_touch_location = point_default\<rparr>"

definition set_state :: "GestureState \<Rightarrow> 'f gesture_sequence \<Rightarrow> 'f gesture_sequence" where
  "set_state st s = s\<lparr>gs_state := st\<rparr>"

definition upd_point ::
  "nat \<Rightarrow> ('f gesture_point \<Rightarrow> 'f gesture_point) \<Rightarrow> 'f gesture_sequence \<Rightarrow> 'f gesture_sequence" where
  "upd_point i f s = s\<lparr>gs_points := (gs_points s)[i := f (gs_points s ! i)]\<rparr>"

definition BoundingBoxDiagonal :: "'f farith \<Rightarrow> rect \<Rightarrow> 'f" where
  "BoundingBoxDiagonal F r =
     (let width = fl F (wrap32 (rect_width r * rect_width r));
          height = fl F (wrap32 (rect_height r * rect_height r))
      in f_round F (f_sqrt F (fl_add F width height)))"

definition touch_bit :: "'f gesture_point \<Rightarrow> 32 word" where
  "touch_bit p = push_bit (nat (gp_touch_id p)) 1"

fun ComputeTouchBitmask :: "'f gesture_point list \<Rightarrow> 32 word" where
  "ComputeTouchBitmask [] = 0"
| "ComputeTouchBitmask (p # ps) =
     (if gp_in_use p then touch_bit p OR ComputeTouchBitmask ps else ComputeTouchBitmask ps)"

text \<open>The loop of \<open>RecreateBoundingBox\<close> over left, top, right and bottom.\<close>

fun bounds_loop :: "'f gesture_point list \<Rightarrow> int \<times> int \<times> int \<times> int \<Rightarrow> int \<times> int \<times> int \<times> int" where
  "bounds_loop [] acc = acc"
| "bounds_loop (p # ps) (l, t, r, b) =
     (if \<not> gp_in_use p then bounds_loop ps (l, t, r, b)
      else bounds_loop ps (if l > gp_x p then gp_x p else l, if t > gp_y p then gp_y p else t,
                           if r < gp_x p then gp_x p else r, if b < gp_y p then gp_y p else b))"

definition gs_RecreateBoundingBox :: "'f gesture_sequence \<Rightarrow> 'f gesture_sequence" where
  "gs_RecreateBoundingBox s =
     (let (l, t, r, b) = bounds_loop (gs_points s) (INT_MAX, INT_MAX, INT_MIN, INT_MIN)
      in s\<lparr>gs_bounding_box_last_center := rect_CenterPoint (gs_bounding_box s),
           gs_bounding_box := rect_SetRect l t (wrap32 (r - l)) (wrap32 (b - t)) (gs_bounding_box s)\<rparr>)"

definition gs_ResetVelocities :: "'f farith \<Rightarrow> 'f gesture_sequence \<Rightarrow> 'f gesture_sequence" where
  "gs_ResetVelocities F s =
     s\<lparr>gs_points := map (\<lambda>p. if gp_in_use p then gp_ResetVelocity F p else p) (gs_points s)\<rparr>"

definition gs_Reset :: "'f farith \<Rightarrow> 'f gesture_sequence \<Rightarrow> 'f gesture_sequence" where
  "gs_Reset F s =
     (set_state GS_NO_GESTURE s)\<lparr>gs_points := map (gp_Reset F) (gs_points s), gs_point_count := 0\<rparr>"

text \<open>The index of the point with a point id, \<open>None\<close> for the null pointer.\<close>

fun point_index :: "int \<Rightarrow> 'f gesture_point list \<Rightarrow> nat option" where
  "point_index pid [] = None"
| "point_index pid (p # ps) =
     (if gp_in_use p \<and> gp_point_id p = pid then Some 0 else map_option Suc (point_index pid ps))"

definition gs_GetPointByPointId :: "int \<Rightarrow> 'f gesture_sequence \<Rightarrow> nat option" where
  "gs_GetPointByPointId pid s = point_index pid (gs_points s)"

definition gs_IsSecondTouchDownCloseEnoughForTwoFingerTap ::
  "'f farith \<Rightarrow> 'f gesture_configuration \<Rightarrow> 'f gesture_sequence \<Rightarrow> bool option" where
  "gs_IsSecondTouchDownCloseEnoughForTwoFingerTap F cfg s = do {
     i1 \<leftarrow> gs_GetPointByPointId 0 s;
     i2 \<leftarrow> gs_GetPointByPointId 1 s;
     let p1 = gp_last_touch_position (gs_points s ! i1);
     let p2 = gp_last_touch_position (gs_points s ! i2);
     let max_distance = max_distance_for_two_finger_tap_in_pixels cfg;
     let dx = wrap32 (pt_x p1 - pt_x p2);
     let dy = wrap32 (pt_y p1 - pt_y p2);
     let distance = f_of_int F (wrap32 (wrap32 (dx * dx) + wrap32 (dy * dy)));
     Some (f_less F distance (f_mul F max_distance max_distance))
   }"

section \<open>Gesture events\<close>

definition mk_gesture ::
  "EventType \<Rightarrow> point \<Rightarrow> 'f gesture_sequence \<Rightarrow> 'f \<Rightarrow> 'f \<Rightarrow> 'f \<Rightarrow> 32 word \<Rightarrow> 'f gesture" where
  "mk_gesture type loc s time a b ids =
     \<lparr>ge_type = type, ge_location = loc, ge_flags = gs_flags s, ge_time = time, ge_param_first = a,
      ge_param_second = b, ge_touch_ids = ids\<rparr>"

definition tap_down_gesture :: "'f farith \<Rightarrow> 'f gesture_point \<Rightarrow> 'f gesture_sequence \<Rightarrow> 'f gesture" where
  "tap_down_gesture F p s =
     mk_gesture ET_GESTURE_TAP_DOWN (gp_first_touch_position p) s (gp_last_touch_time p) (fl F 0) (fl F 0) (touch_bit p)"

definition begin_gesture :: "'f farith \<Rightarrow> 'f gesture_point \<Rightarrow> 'f gesture_sequence \<Rightarrow> 'f gesture" where
  "begin_gesture F p s =
     mk_gesture ET_GESTURE_BEGIN (gp_first_touch_position p) s (gp_last_touch_time p)
       (fl F (gs_point_count s)) (fl F 0) (touch_bit p)"

definition end_gesture :: "'f farith \<Rightarrow> 'f gesture_point \<Rightarrow> 'f gesture_sequence \<Rightarrow> 'f gesture" where
  "end_gesture F p s =
     mk_gesture ET_GESTURE_END (gp_first_touch_position p) s (gp_last_touch_time p)
       (fl F (gs_point_count s)) (fl F 0) (touch_bit p)"

definition click_gesture :: "'f farith \<Rightarrow> 'f gesture_point \<Rightarrow> 'f gesture_sequence \<Rightarrow> 'f gesture" where
  "click_gesture F p s =
     (let er = gp_enclosing_rect p
      in mk_gesture ET_GESTURE_TAP (rect_CenterPoint er) s (gp_last_touch_time p)
           (fl F (rect_width er sdiv 2)) (fl F (rect_height er sdiv 2)) (touch_bit p))"

definition double_click_gesture :: "'f farith \<Rightarrow> 'f gesture_point \<Rightarrow> 'f gesture_sequence \<Rightarrow> 'f gesture" where
  "double_click_gesture F p s =
     mk_gesture ET_GESTURE_DOUBLE_TAP (gp_first_touch_position p) s (gp_last_touch_time p) (fl F 0) (fl F 0) (touch_bit p)"

definition scroll_begin_gesture ::
  "'f farith \<Rightarrow> 'f gesture_point \<Rightarrow> point \<Rightarrow> 'f gesture_sequence \<Rightarrow> 'f gesture" where
  "scroll_begin_gesture F p loc s =
     mk_gesture ET_GESTURE_SCROLL_BEGIN loc s (gp_last_touch_time p) (fl F 0) (fl F 0) (touch_bit p)"

definition scroll_end_gestures ::
  "'f farith \<Rightarrow> 'f gesture_point \<Rightarrow> point \<Rightarrow> 'f \<Rightarrow> 'f \<Rightarrow> 'f gesture_sequence \<Rightarrow> 'f gesture list" where
  "scroll_end_gestures F p loc x_velocity y_velocity s =
     (let vx = (if gs_scroll_type s = ST_VERTICAL then fl F 0 else x_velocity);
          vy = (if gs_scroll_type s = ST_HORIZONTAL then fl F 0 else y_velocity);
          scaling = fl_div F (fl F 1) (fl F 900)
      in mk_gesture ET_GESTURE_SCROLL_END loc s (gp_last_touch_time p) (fl F 0) (fl F 0) (touch_bit p) #
         (if \<not> f_eq F vx (fl F 0) \<or> \<not> f_eq F vy (fl F 0)
          then [mk_gesture ET_SCROLL_FLING_START loc s (gp_last_touch_time p)
                  (fl_mul F (fl_mul F scaling vx) (f_abs F vx)) (fl_mul F (fl_mul F scaling vy) (f_abs F vy))
                  (touch_bit p)]
          else []))"

definition scroll_update_gestures ::
  "'f farith \<Rightarrow> 'f gesture_point \<Rightarrow> point \<Rightarrow> 'f gesture_sequence \<Rightarrow> 'f gesture list" where
  "scroll_update_gestures F p loc s =
     (let dx = wrap32 (pt_x loc - pt_x (gs_bounding_box_last_center s));
          dy = wrap32 (pt_y loc - pt_y (gs_bounding_box_last_center s))
      in if dx = 0 \<and> dy = 0 then []
         else [mk_gesture ET_GESTURE_SCROLL_UPDATE loc s (gp_last_touch_time p)
                 (fl F (if gs_scroll_type s = ST_VERTICAL then 0 else dx))
                 (fl F (if gs_scroll_type s = ST_HORIZONTAL then 0 else dy))
                 (ComputeTouchBitmask (gs_points s))])"

definition pinch_gesture ::
  "'f farith \<Rightarrow> EventType \<Rightarrow> 'f gesture_point \<Rightarrow> 'f gesture_point \<Rightarrow> 'f gesture_sequence \<Rightarrow> 'f gesture" where
  "pinch_gesture F type p1 p2 s =
     mk_gesture type (rect_CenterPoint (gs_bounding_box s)) s (gp_last_touch_time p1) (fl F 0) (fl F 0)
       (touch_bit p1 OR touch_bit p2)"

definition pinch_update_gesture ::
  "'f farith \<Rightarrow> 'f gesture_point \<Rightarrow> 'f \<Rightarrow> 'f gesture_sequence \<Rightarrow> 'f gesture" where
  "pinch_update_gesture F p scale s =
     mk_gesture ET_GESTURE_PINCH_UPDATE (rect_CenterPoint (gs_bounding_box s)) s (gp_last_touch_time p)
       scale (fl F 0) (ComputeTouchBitmask (gs_points s))"

definition swipe_gesture ::
  "'f farith \<Rightarrow> 'f gesture_point \<Rightarrow> int \<Rightarrow> int \<Rightarrow> 'f gesture_sequence \<Rightarrow> 'f gesture" where
  "swipe_gesture F p swipe_x swipe_y s =
     mk_gesture ET_GESTURE_MULTIFINGER_SWIPE (rect_CenterPoint (gs_bounding_box s)) s (gp_last_touch_time p)
       (fl F swipe_x) (fl F swipe_y) (ComputeTouchBitmask (gs_points s))"

definition two_finger_tap_gesture :: "'f farith \<Rightarrow> 'f gesture_sequence \<Rightarrow> 'f gesture option" where
  "two_finger_tap_gesture F s = do {
     i \<leftarrow> gs_GetPointByPointId 0 s;
     let p = gs_points s ! i;
     Some (mk_gesture ET_GESTURE_TWO_FINGER_TAP (rect_CenterPoint (gp_enclosing_rect p)) s
             (gp_last_touch_time p) (fl F 0) (fl F 0) (touch_bit p))
   }"

text \<open>The callback of the long press timer; the one-shot timer stops when it fires.\<close>

definition gs_AppendLongPressGestureEvent ::
  "'f farith \<Rightarrow> 'f gesture_sequence \<Rightarrow> ('f gesture_sequence \<times> 'f gesture) option" where
  "gs_AppendLongPressGestureEvent F s = do {
     i \<leftarrow> gs_GetPointByPointId 0 s;
     let p = gs_points s ! i;
     Some (s\<lparr>gs_long_press_timer := False\<rparr>,
           mk_gesture ET_GESTURE_LONG_PRESS (gp_first_touch_position p) s (gp_last_touch_time p)
             (fl F 0) (fl F 0) (touch_bit p))
   }"

section \<open>Transitions\<close>

definition gs_Click ::
  "'f farith \<Rightarrow> 'f gesture_configuration \<Rightarrow> 'f touch_event \<Rightarrow> 'f gesture_point \<Rightarrow> 'f gesture_sequence \<Rightarrow>
   bool \<times> 'f gesture list" where
  "gs_Click F cfg e p s =
     (if gp_IsInClickWindow F cfg e p
      then (True, click_gesture F p s #
              (if gp_IsInDoubleClickWindow F cfg e p then [double_click_gesture F p s] else []))
      else (False, []))"

definition gs_ScrollStart ::
  "'f farith \<Rightarrow> 'f gesture_configuration \<Rightarrow> 'f touch_event \<Rightarrow> 'f gesture_point \<Rightarrow> 'f gesture_sequence \<Rightarrow>
   bool \<times> 'f gesture_sequence \<times> 'f gesture list" where
  "gs_ScrollStart F cfg e p s =
     (if gp_IsInClickWindow F cfg e p \<or> \<not> gp_IsInScrollWindow F cfg e p \<or>
         \<not> gp_HasEnoughDataToEstablishRail F cfg p
      then (False, s, [])
      else (True,
            s\<lparr>gs_scroll_type := (if gp_IsInHorizontalRailWindow F cfg p then ST_HORIZONTAL
                                 else if gp_IsInVerticalRailWindow F cfg p then ST_VERTICAL else ST_FREE)\<rparr>,
            [scroll_begin_gesture F p (gp_first_touch_position p) s]))"

definition gs_BreakRailScroll ::
  "'f farith \<Rightarrow> 'f gesture_configuration \<Rightarrow> nat \<Rightarrow> 'f gesture_sequence \<Rightarrow> 'f gesture_sequence" where
  "gs_BreakRailScroll F cfg i s =
     (let p = gs_points s ! i
      in if gs_scroll_type s = ST_HORIZONTAL
         then let (breaks, p') = gp_BreaksHorizontalRail F cfg p; s' = upd_point i (\<lambda>_. p') s
              in if breaks then s'\<lparr>gs_scroll_type := ST_FREE\<rparr> else s'
         else if gs_scroll_type s = ST_VERTICAL
         then let (breaks, p') = gp_BreaksVerticalRail F cfg p; s' = upd_point i (\<lambda>_. p') s
              in if breaks then s'\<lparr>gs_scroll_type := ST_FREE\<rparr> else s'
         else s)"

definition gs_ScrollUpdate ::
  "'f farith \<Rightarrow> 'f gesture_point \<Rightarrow> 'f gesture_sequence \<Rightarrow> bool \<times> 'f gesture list" where
  "gs_ScrollUpdate F p s =
     (if \<not> gp_DidScroll 0 p then (False, [])
      else (True, scroll_update_gestures F p (gp_last_touch_position p) s))"

definition gs_TouchDown ::
  "'f farith \<Rightarrow> 'f gesture_point \<Rightarrow> 'f gesture_sequence \<Rightarrow> 'f gesture_sequence \<times> 'f gesture list" where
  "gs_TouchDown F p s = (s\<lparr>gs_long_press_timer := True\<rparr>, [tap_down_gesture F p s])"

definition gs_TwoFingerTouchDown ::
  "'f farith \<Rightarrow> 'f touch_event \<Rightarrow> 'f gesture_point \<Rightarrow> 'f gesture_sequence \<Rightarrow> 'f gesture_sequence \<times> 'f gesture list" where
  "gs_TwoFingerTouchDown F e p s =
     (s\<lparr>gs_second_touch_time := te_timestamp e\<rparr>,
      if gs_state s = GS_SCROLL
      then scroll_end_gestures F p (gp_last_touch_position p) (fl F 0) (fl F 0) s else [])"

definition gs_PinchStart ::
  "'f farith \<Rightarrow> 'f gesture_point \<Rightarrow> 'f gesture_sequence \<Rightarrow> ('f gesture_sequence \<times> 'f gesture list) option" where
  "gs_PinchStart F p s = do {
     i1 \<leftarrow> gs_GetPointByPointId 0 s;
     i2 \<leftarrow> gs_GetPointByPointId 1 s;
     let d = BoundingBoxDiagonal F (gs_bounding_box s);
     let s' = s\<lparr>gs_scroll_type := ST_FREE, gs_pinch_distance_current := d, gs_pinch_distance_start := d\<rparr>;
     Some (s', pinch_gesture F ET_GESTURE_PINCH_BEGIN (gs_points s ! i1) (gs_points s ! i2) s' #
       (if gs_state s = GS_PENDING_SYNTHETIC_CLICK \<or> gs_state s = GS_PENDING_TWO_FINGER_TAP
        then [scroll_begin_gesture F p (rect_CenterPoint (gs_bounding_box s)) s'] else []))
   }"

text \<open>\<open>TimeDelta::FromMilliseconds(1000 * max_touch_down_duration_in_seconds_for_click())\<close>.\<close>

definition two_finger_max_delta :: "'f farith \<Rightarrow> 'f gesture_configuration \<Rightarrow> int" where
  "two_finger_max_delta F cfg =
     f_trunc F (f_mul F (f_of_int F 1000) (max_touch_down_duration_in_seconds_for_click cfg)) * 1000"

definition gs_TwoFingerTouchMove ::
  "'f farith \<Rightarrow> 'f gesture_configuration \<Rightarrow> 'f touch_event \<Rightarrow> 'f gesture_point \<Rightarrow> 'f gesture_sequence \<Rightarrow>
   (bool \<times> 'f gesture_sequence \<times> 'f gesture list) option" where
  "gs_TwoFingerTouchMove F cfg e p s =
     (let time_delta = te_timestamp e - gs_second_touch_time s
      in if time_delta > two_finger_max_delta F cfg \<or> \<not> gp_IsInsideManhattanSquare F cfg e p
         then map_option (\<lambda>(s', g). (True, s', g)) (gs_PinchStart F p s)
         else Some (False, s, []))"

definition gs_TwoFingerTouchReleased ::
  "'f farith \<Rightarrow> 'f gesture_configuration \<Rightarrow> 'f touch_event \<Rightarrow> 'f gesture_point \<Rightarrow> 'f gesture_sequence \<Rightarrow>
   'f gesture list option" where
  "gs_TwoFingerTouchReleased F cfg e p s =
     (let time_delta = te_timestamp e - gs_second_touch_time s
      in if time_delta < two_finger_max_delta F cfg \<and> gp_IsInsideManhattanSquare F cfg e p
         then map_option (\<lambda>g. [g]) (two_finger_tap_gesture F s)
         else Some [])"

definition gs_ScrollEnd ::
  "'f farith \<Rightarrow> 'f gesture_configuration \<Rightarrow> 'f touch_event \<Rightarrow> nat \<Rightarrow> 'f gesture_sequence \<Rightarrow>
   'f gesture_sequence \<times> 'f gesture list" where
  "gs_ScrollEnd F cfg e i s =
     (let (flick, p) = gp_IsInFlickWindow F cfg e (gs_points s ! i);
          s' = upd_point i (\<lambda>_. p) s
      in (s', scroll_end_gestures F p (gp_last_touch_position p)
                (if flick then gp_XVelocity F p else fl F 0) (if flick then gp_YVelocity F p else fl F 0) s'))"

definition gs_PinchUpdate ::
  "'f farith \<Rightarrow> 'f gesture_configuration \<Rightarrow> 'f gesture_point \<Rightarrow> 'f gesture_sequence \<Rightarrow>
   'f gesture_sequence \<times> 'f gesture list" where
  "gs_PinchUpdate F cfg p s =
     (let distance = BoundingBoxDiagonal F (gs_bounding_box s);
          cur = gs_pinch_distance_current s
      in if f_ge F (f_abs F (fl_sub F distance cur)) (min_pinch_update_distance_in_pixels cfg)
         then (s\<lparr>gs_pinch_distance_current := distance\<rparr>,
               [pinch_update_gesture F p (fl_div F distance cur) s])
         else (s, scroll_update_gestures F p (rect_CenterPoint (gs_bounding_box s)) s))"

definition gs_PinchEnd ::
  "'f farith \<Rightarrow> 'f gesture_sequence \<Rightarrow> ('f gesture_sequence \<times> 'f gesture list) option" where
  "gs_PinchEnd F s = do {
     i1 \<leftarrow> gs_GetPointByPointId 0 s;
     i2 \<leftarrow> gs_GetPointByPointId 1 s;
     Some (s\<lparr>gs_pinch_distance_start := fl F 0, gs_pinch_distance_current := fl F 0\<rparr>,
           [pinch_gesture F ET_GESTURE_PINCH_END (gs_points s ! i1) (gs_points s ! i2) s])
   }"

text \<open>The loop of \<open>MaybeSwipe\<close> over the points after the first one in use.\<close>

fun swipe_loop ::
  "'f farith \<Rightarrow> int \<Rightarrow> int \<Rightarrow> 'f gesture_point list \<Rightarrow> bool \<times> bool \<times> 'f \<times> 'f \<Rightarrow> bool \<times> bool \<times> 'f \<times> 'f" where
  "swipe_loop F sign_x sign_y [] acc = acc"
| "swipe_loop F sign_x sign_y (p # ps) (swipe_x, swipe_y, vx, vy) =
     (if \<not> gp_in_use p then swipe_loop F sign_x sign_y ps (swipe_x, swipe_y, vx, vy)
      else swipe_loop F sign_x sign_y ps
             (swipe_x \<and> \<not> f_less F (fl_mul F (fl F sign_x) (gp_XVelocity F p)) (fl F 0),
              swipe_y \<and> \<not> f_less F (fl_mul F (fl F sign_y) (gp_YVelocity F p)) (fl F 0),
              fl_add F vx (gp_XVelocity F p), fl_add F vy (gp_YVelocity F p)))"

text \<open>The swipe reported when \<open>q\<close> is the first point in use and \<open>qs\<close> are the points after it.\<close>

definition swipe_events ::
  "'f farith \<Rightarrow> 'f gesture_configuration \<Rightarrow> 'f gesture_point \<Rightarrow> 'f gesture_point \<Rightarrow> 'f gesture_point list \<Rightarrow>
   'f gesture_sequence \<Rightarrow> 'f gesture list" where
  "swipe_events F cfg p q qs s =
     (let sign_x = (if f_less F (gp_XVelocity F q) (fl F 0) then -1 else 1);
          sign_y = (if f_less F (gp_YVelocity F q) (fl F 0) then -1 else 1);
          (swipe_x1, swipe_y1, vx1, vy1) =
            swipe_loop F sign_x sign_y qs (True, True, gp_XVelocity F q, gp_YVelocity F q);
          min_velocity = fl_mul F (f_round F (min_swipe_speed cfg)) (f_round F (min_swipe_speed cfg));
          vx2 = f_abs F (fl_div F vx1 (fl F (gs_point_count s)));
          vy2 = f_abs F (fl_div F vy1 (fl F (gs_point_count s)));
          swipe_x = (swipe_x1 \<and> \<not> f_less F vx2 min_velocity);
          swipe_y = (swipe_y1 \<and> \<not> f_less F vy2 min_velocity)
      in if \<not> swipe_x \<and> \<not> swipe_y then []
         else let small = fl_div F (fl F 1) (fl F 1000);
                  vx = (if swipe_x then vx2 else small);
                  vy = (if swipe_y then vy2 else small);
                  ratio = (if f_less F vy vx then fl_div F vx vy else fl_div F vy vx)
              in if f_less F ratio (max_swipe_deviation_ratio cfg) then []
                 else if f_less F vy vx then [swipe_gesture F p sign_x 0 s]
                 else [swipe_gesture F p 0 sign_y s])"

definition gs_MaybeSwipe ::
  "'f farith \<Rightarrow> 'f gesture_configuration \<Rightarrow> 'f gesture_point \<Rightarrow> 'f gesture_sequence \<Rightarrow>
   ('f gesture_sequence \<times> 'f gesture list) option" where
  "gs_MaybeSwipe F cfg p s =
     (case dropWhile (\<lambda>q. \<not> gp_in_use q) (gs_points s) of
        [] \<Rightarrow> None
      | q # qs \<Rightarrow>
          let s' = s\<lparr>gs_points := map (\<lambda>q. if gp_in_use q then gp_refresh F q else q) (gs_points s)\<rparr>
          in Some (s', swipe_events F cfg p q qs s'))"

text \<open>\<open>for (int i = 0; i < point_count_; ++i) GetPointByPointId(i)->UpdateForScroll();\<close>\<close>

fun update_all_for_scroll :: "nat \<Rightarrow> nat \<Rightarrow> 'f gesture_sequence \<Rightarrow> 'f gesture_sequence option" where
  "update_all_for_scroll i 0 s = Some s"
| "update_all_for_scroll i (Suc n) s = do {
     j \<leftarrow> gs_GetPointByPointId (int i) s;
     update_all_for_scroll (Suc i) n (upd_point j gp_UpdateForScroll s)
   }"

section \<open>The state machine\<close>

text \<open>The \<open>switch\<close> of \<open>ProcessTouchEventForGesture\<close>; \<open>i\<close> is the index of the point of the event.\<close>

definition gs_switch ::
  "'f farith \<Rightarrow> 'f gesture_configuration \<Rightarrow> 32 word \<Rightarrow> 'f touch_event \<Rightarrow> nat \<Rightarrow> 'f gesture_sequence \<Rightarrow>
   ('f gesture_sequence \<times> 'f gesture list) option" where
  "gs_switch F cfg sig e i s =
     (let p = gs_points s ! i
      in if sig = GST GS_NO_GESTURE 0 TS_PRESSED
         then let (s1, g) = gs_TouchDown F p s in Some (set_state GS_PENDING_SYNTHETIC_CLICK s1, g)
         else if sig = GST GS_PENDING_SYNTHETIC_CLICK 0 TS_RELEASED
         then let (clicked, g) = gs_Click F cfg e p s;
                  s1 = (if clicked then upd_point i gp_UpdateForTap s else s)
              in Some (set_state GS_NO_GESTURE s1, g)
         else if sig = GST GS_PENDING_SYNTHETIC_CLICK 0 TS_MOVED \<or>
                 sig = GST GS_PENDING_SYNTHETIC_CLICK 0 TS_STATIONARY
         then let (started, s1, g1) = gs_ScrollStart F cfg e p s
              in if started
                 then let s2 = set_state GS_SCROLL s1; (moved, g2) = gs_ScrollUpdate F (gs_points s2 ! i) s2
                      in Some (if moved then upd_point i gp_UpdateForScroll s2 else s2, g1 @ g2)
                 else Some (s1, g1)
         else if sig = GST GS_PENDING_SYNTHETIC_CLICK 0 TS_CANCELLED
         then Some (gs_Reset F s, [])
         else if sig = GST GS_SCROLL 0 TS_MOVED
         then let s1 = gs_BreakRailScroll F cfg i s;
                  (moved, g) = gs_ScrollUpdate F (gs_points s1 ! i) s1
              in Some (if moved then upd_point i gp_UpdateForScroll s1 else s1, g)
         else if sig = GST GS_SCROLL 0 TS_RELEASED \<or> sig = GST GS_SCROLL 0 TS_CANCELLED
         then let (s1, g) = gs_ScrollEnd F cfg e i s in Some (set_state GS_NO_GESTURE s1, g)
         else if sig = GST GS_SCROLL 1 TS_PRESSED \<or> sig = GST GS_PENDING_SYNTHETIC_CLICK 1 TS_PRESSED
         then do {
           close_enough \<leftarrow> gs_IsSecondTouchDownCloseEnoughForTwoFingerTap F cfg s;
           if close_enough
           then let (s1, g) = gs_TwoFingerTouchDown F e p s
                in Some (set_state GS_PENDING_TWO_FINGER_TAP s1, g)
           else map_option (\<lambda>(s1, g). (set_state GS_PINCH s1, g)) (gs_PinchStart F p s)
         }
         else if sig = GST GS_PENDING_TWO_FINGER_TAP 0 TS_RELEASED \<or>
                 sig = GST GS_PENDING_TWO_FINGER_TAP 1 TS_RELEASED
         then map_option (\<lambda>g. (set_state GS_SCROLL s, g)) (gs_TwoFingerTouchReleased F cfg e p s)
         else if sig = GST GS_PENDING_TWO_FINGER_TAP 0 TS_MOVED \<or>
                 sig = GST GS_PENDING_TWO_FINGER_TAP 1 TS_MOVED
         then map_option (\<lambda>(pinch, s1, g). (if pinch then set_state GS_PINCH s1 else s1, g))
                (gs_TwoFingerTouchMove F cfg e p s)
         else if sig = GST GS_PENDING_TWO_FINGER_TAP 0 TS_CANCELLED \<or>
                 sig = GST GS_PENDING_TWO_FINGER_TAP 1 TS_CANCELLED
         then Some (set_state GS_SCROLL (s\<lparr>gs_scroll_type := ST_FREE\<rparr>), [])
         else if sig = GST GS_PENDING_TWO_FINGER_TAP 2 TS_PRESSED
         then map_option (\<lambda>(s1, g). (set_state GS_PINCH s1, g)) (gs_PinchStart F p s)
         else if \<exists>k \<in> {0, 1, 2, 3, 4}. sig = GST GS_PINCH k TS_MOVED
         then let (s1, g) = gs_PinchUpdate F cfg p s
              in map_option (\<lambda>s2. (s2, g)) (update_all_for_scroll 0 (nat (gs_point_count s1)) s1)
         else if \<exists>k \<in> {0, 1, 2, 3, 4}. sig = GST GS_PINCH k TS_RELEASED \<or> sig = GST GS_PINCH k TS_CANCELLED
         then map_option (\<lambda>(s1, g). (gs_ResetVelocities F s1, g))
                (if gs_point_count s = 2
                 then map_option (\<lambda>(s1, g). (set_state GS_SCROLL s1, g)) (gs_PinchEnd F s)
                 else gs_MaybeSwipe F cfg p s)
         else if \<exists>k \<in> {2, 3, 4}. sig = GST GS_PINCH k TS_PRESSED
         then let d = BoundingBoxDiagonal F (gs_bounding_box s)
              in Some (s\<lparr>gs_pinch_distance_current := d, gs_pinch_distance_start := d\<rparr>, [])
         else Some (s, []))"

definition is_lift :: "'f touch_event \<Rightarrow> bool" where
  "is_lift e \<longleftrightarrow> te_type e = ET_TOUCH_RELEASED \<or> te_type e = ET_TOUCH_CANCELLED"

text \<open>The renumbering of the points when a finger is lifted.\<close>

definition gs_lift_point :: "'f farith \<Rightarrow> nat \<Rightarrow> 'f gesture_sequence \<Rightarrow> 'f gesture_sequence" where
  "gs_lift_point F i s =
     (let old_id = gp_point_id (gs_points s ! i);
          s1 = s\<lparr>gs_points := map (\<lambda>p. if gp_point_id p > old_id then p\<lparr>gp_point_id := gp_point_id p - 1\<rparr> else p)
                               (gs_points s)\<rparr>
      in if gp_in_use (gs_points s1 ! i)
         then let s2 = gs_RecreateBoundingBox ((upd_point i (gp_Reset F) s1)\<lparr>gs_point_count := gs_point_count s1 - 1\<rparr>)
              in if gs_state s2 = GS_PINCH
                 then let d = BoundingBoxDiagonal F (gs_bounding_box s2)
                      in s2\<lparr>gs_pinch_distance_current := d, gs_pinch_distance_start := d\<rparr>
                 else s2
         else s1)"

text \<open>The handler. The inner \<open>None\<close> is the \<open>NULL\<close> it returns, the outer one a crash.\<close>

definition gs_ProcessTouchEventForGesture ::
  "'f farith \<Rightarrow> 'f gesture_configuration \<Rightarrow> 'f touch_event \<Rightarrow> TouchStatus \<Rightarrow> 'f gesture_sequence \<Rightarrow>
   ('f gesture_sequence \<times> 'f gesture list option) option" where
  "gs_ProcessTouchEventForGesture F cfg e status s =
     (let s0 = s\<lparr>gs_last_touch_location := te_location e\<rparr>; i = nat (te_touch_id e)
      in if status \<noteq> TOUCH_STATUS_UNKNOWN then Some (s0, None)
         else if te_touch_id e \<ge> int kMaxGesturePoints then Some (s0, None)
         else if te_touch_id e < 0 then None
         else if te_type e = ET_TOUCH_PRESSED \<and> gs_point_count s0 = int kMaxGesturePoints then Some (s0, None)
         else
           let s1 = (if te_type e = ET_TOUCH_PRESSED
                     then (upd_point i (\<lambda>p. p\<lparr>gp_point_id := gs_point_count s0, gp_touch_id := te_touch_id e\<rparr>) s0)
                            \<lparr>gs_point_count := gs_point_count s0 + 1\<rparr>
                     else s0);
               last_state = gs_state s1;
               s2 = (gs_RecreateBoundingBox (upd_point i (gp_UpdateValues F cfg e) s1))\<lparr>gs_flags := te_flags e\<rparr>;
               point_id = gp_point_id (gs_points s2 ! i)
           in if point_id < 0 then Some (s2, None)
              else do {
                let g1 = (if te_type e = ET_TOUCH_PRESSED then [begin_gesture F (gs_points s2 ! i) s2] else []);
                sig \<leftarrow> Signature (gs_state s2) point_id (te_type e) False;
                (s3, g2) \<leftarrow> gs_switch F cfg sig e i s2;
                let g3 = (if is_lift e then [end_gesture F (gs_points s3 ! i) s3] else []);
                let s4 = (if last_state = GS_PENDING_SYNTHETIC_CLICK \<and> gs_state s3 \<noteq> last_state
                          then s3\<lparr>gs_long_press_timer := False\<rparr> else s3);
                Some (if is_lift e then gs_lift_point F i s4 else s4, Some (g1 @ g2 @ g3))
              })"

end
