(* ===== verification/Gesture_Events.thy ===== *)
theory Gesture_Events
  imports Gesture_Sequence
begin

text \<open>
  The \<open>ET_GESTURE_BEGIN\<close> and \<open>ET_GESTURE_END\<close> events of the gesture recognizer: how a list of gesture
  events counts fingers, and that none of the transitions reports one, so the handler alone does.
\<close>

definition is_begin :: "'f gesture \<Rightarrow> bool" where
  "is_begin g \<longleftrightarrow> ge_type g = ET_GESTURE_BEGIN"

definition is_end :: "'f gesture \<Rightarrow> bool" where
  "is_end g \<longleftrightarrow> ge_type g = ET_GESTURE_END"

definition finger_balance :: "'f gesture list \<Rightarrow> int" where
  "finger_balance gs = int (length (filter is_begin gs)) - int (length (filter is_end gs))"

lemma finger_balance_simps [simp]:
  "finger_balance [] = 0"
  "finger_balance (g # gs) = (if is_begin g then 1 else 0) - (if is_end g then 1 else 0) + finger_balance gs"
  "finger_balance (gs @ gs') = finger_balance gs + finger_balance gs'"
  by (simp_all add: finger_balance_def)

lemma is_begin_end_mk [simp]:
  "is_begin (mk_gesture t l s tm a b ids) = (t = ET_GESTURE_BEGIN)"
  "is_end (mk_gesture t l s tm a b ids) = (t = ET_GESTURE_END)"
  by (simp_all add: is_begin_def is_end_def mk_gesture_def)

lemmas gesture_defs = tap_down_gesture_def click_gesture_def double_click_gesture_def scroll_begin_gesture_def
  scroll_end_gestures_def scroll_update_gestures_def pinch_gesture_def pinch_update_gesture_def swipe_gesture_def
  two_finger_tap_gesture_def Let_def

lemma quiet_Click: "gs_Click F cfg e p s = (b, g) \<Longrightarrow> finger_balance g = 0"
  by (auto simp: gs_Click_def gesture_defs split: if_splits)

lemma quiet_ScrollStart: "gs_ScrollStart F cfg e p s = (b, s', g) \<Longrightarrow> finger_balance g = 0"
  by (auto simp: gs_ScrollStart_def gesture_defs split: if_splits)

lemma quiet_ScrollUpdate: "gs_ScrollUpdate F p s = (b, g) \<Longrightarrow> finger_balance g = 0"
  by (auto simp: gs_ScrollUpdate_def gesture_defs split: if_splits)

lemma quiet_ScrollEnd: "gs_ScrollEnd F cfg e i s = (s', g) \<Longrightarrow> finger_balance g = 0"
  by (auto simp: gs_ScrollEnd_def gesture_defs split: if_splits prod.splits)

lemma quiet_TouchDown: "gs_TouchDown F p s = (s', g) \<Longrightarrow> finger_balance g = 0"
  by (auto simp: gs_TouchDown_def gesture_defs)

lemma quiet_TwoFingerTouchDown: "gs_TwoFingerTouchDown F e p s = (s', g) \<Longrightarrow> finger_balance g = 0"
  by (auto simp: gs_TwoFingerTouchDown_def gesture_defs split: if_splits)

lemma quiet_PinchStart: "gs_PinchStart F p s = Some (s', g) \<Longrightarrow> finger_balance g = 0"
  by (auto simp: gs_PinchStart_def gesture_defs split: if_splits bind_splits)

lemma quiet_TwoFingerTouchMove: "gs_TwoFingerTouchMove F cfg e p s = Some (b, s', g) \<Longrightarrow> finger_balance g = 0"
  by (auto simp: gs_TwoFingerTouchMove_def Let_def quiet_PinchStart split: if_splits)

lemma quiet_TwoFingerTouchReleased: "gs_TwoFingerTouchReleased F cfg e p s = Some g \<Longrightarrow> finger_balance g = 0"
  by (auto simp: gs_TwoFingerTouchReleased_def gesture_defs split: if_splits bind_splits)

lemma quiet_PinchUpdate: "gs_PinchUpdate F cfg p s = (s', g) \<Longrightarrow> finger_balance g = 0"
  by (auto simp: gs_PinchUpdate_def gesture_defs split: if_splits)

lemma quiet_PinchEnd: "gs_PinchEnd F s = Some (s', g) \<Longrightarrow> finger_balance g = 0"
  by (auto simp: gs_PinchEnd_def gesture_defs split: bind_splits)

lemma quiet_MaybeSwipe: "gs_MaybeSwipe F cfg p s = Some (s', g) \<Longrightarrow> finger_balance g = 0"
  by (auto simp: gs_MaybeSwipe_def swipe_events_def gesture_defs split: list.splits prod.splits if_splits)

lemmas quiet = quiet_Click quiet_ScrollStart quiet_ScrollUpdate quiet_ScrollEnd quiet_TouchDown
  quiet_TwoFingerTouchDown quiet_PinchStart quiet_TwoFingerTouchMove quiet_TwoFingerTouchReleased
  quiet_PinchUpdate quiet_PinchEnd quiet_MaybeSwipe

lemma quiet_switch: "gs_switch F cfg sig e i s = Some (s', g) \<Longrightarrow> finger_balance g = 0"
  unfolding gs_switch_def Let_def
  by (auto simp: quiet split: if_splits prod.splits bind_splits)

text \<open>The events of a call, none when it returns \<open>NULL\<close>.\<close>

definition gestures_of :: "'f gesture list option \<Rightarrow> 'f gesture list" where
  "gestures_of g = (case g of None \<Rightarrow> [] | Some gs \<Rightarrow> gs)"

lemma gestures_of_simps [simp]: "gestures_of None = []" "gestures_of (Some gs) = gs"
  by (simp_all add: gestures_of_def)

lemma begin_end_gesture [simp]:
  "is_begin (begin_gesture F p s)" "\<not> is_end (begin_gesture F p s)"
  "\<not> is_begin (end_gesture F p s)" "is_end (end_gesture F p s)"
  by (simp_all add: begin_gesture_def end_gesture_def)

end
