(* ===== verification/Gesture_Invariant.thy ===== *)
theory Gesture_Invariant
  imports Gesture_Events
begin

text \<open>
  The invariant of a gesture sequence and what follows from it: the point ids of the fingers that
  are down are exactly 0 to the number of fingers minus one, the number of fingers fits the state,
  and the long press timer runs only while a click is pending. Hence no event and no timer
  dereferences a null pointer.
\<close>

unbundle bit_operations_syntax

section \<open>Labels of the switch\<close>

lemma and_fff: "uint (w AND (0xfff :: 32 word)) = uint w mod 4096"
  unfolding hex_masks by (simp add: take_bit_eq_mask [symmetric] unsigned_take_bit_eq take_bit_eq_mod uint_mod_distrib)

lemma codes_inj [simp]: "gesture_state_code a = gesture_state_code b \<longleftrightarrow> a = b"
  "touch_state_code c = touch_state_code d \<longleftrightarrow> c = d"
  by (cases a; cases b; simp) (cases c; cases d; simp)

lemma sig_eq_iff:
  assumes "0 \<le> a" and "a < 4096" and "uint k < 4096"
  shows "sig_G st (word_of_int a) ts False = GST st' k ts' \<longleftrightarrow> st = st' \<and> a = uint k \<and> ts = ts'"
proof
  assume *: "sig_G st (word_of_int a) ts False = GST st' k ts'"
  have "st = st'" "ts = ts'"
    using sig_fields(1,3) [of st "word_of_int a" ts] sig_fields(1,3) [of st' k ts'] *
    by (metis GST_def codes_inj)+
  moreover have "(word_of_int a :: 32 word) AND 0xfff = k AND 0xfff"
    using sig_fields(2) [of st "word_of_int a" ts] sig_fields(2) [of st' k ts'] * by (metis GST_def)
  then have "uint (word_of_int a :: 32 word) mod 4096 = uint k mod 4096"
    by (metis and_fff)
  then have "a = uint k"
    using assms by (simp add: uint_word_of_int)
  ultimately show "st = st' \<and> a = uint k \<and> ts = ts'" by simp
next
  assume "st = st' \<and> a = uint k \<and> ts = ts'"
  then show "sig_G st (word_of_int a) ts False = GST st' k ts'" by (simp add: GST_def)
qed

lemma Signature_Some:
  assumes "0 \<le> a" and "a < 4096"
  shows "Signature st a type False = Some (sig_G st (word_of_int a) (TouchEventTypeToTouchState type) False)"
proof -
  have "uint ((word_of_int a :: 32 word) AND 0xfff) = uint (word_of_int a :: 32 word)"
    using assms by (simp add: and_fff uint_word_of_int)
  then have "(word_of_int a :: 32 word) AND 0xfff = word_of_int a"
    by (simp add: word_uint_eq_iff)
  then show ?thesis by (simp add: Signature_def Let_def)
qed

section \<open>Contiguous point ids\<close>

definition ids_ok :: "int \<Rightarrow> int list \<Rightarrow> bool" where
  "ids_ok n xs \<longleftrightarrow> 0 \<le> n \<and> (\<forall>i < length xs. xs ! i < n) \<and>
     (\<forall>i < length xs. \<forall>j < length xs. 0 \<le> xs ! i \<and> xs ! i = xs ! j \<longrightarrow> i = j) \<and>
     (\<forall>k. 0 \<le> k \<and> k < n \<longrightarrow> (\<exists>i < length xs. xs ! i = k))"

lemma ids_ok_le: "ids_ok n xs \<Longrightarrow> n \<le> int (length xs)"
proof -
  assume ok: "ids_ok n xs"
  have "int ` {..< nat n} \<subseteq> set xs"
  proof
    fix k assume "k \<in> int ` {..< nat n}"
    then have "0 \<le> k \<and> k < n" by auto
    then obtain i where "i < length xs" "xs ! i = k" using ok unfolding ids_ok_def by blast
    then show "k \<in> set xs" by auto
  qed
  then have "card (int ` {..< nat n}) \<le> card (set xs)" by (rule card_mono [rotated]) simp
  also have "\<dots> \<le> length xs" by (rule card_length)
  finally show "n \<le> int (length xs)" by (simp add: card_image)
qed

lemma ids_press:
  assumes "ids_ok n xs" and "i < length xs" and "xs ! i < 0"
  shows "ids_ok (n + 1) (xs[i := n])"
proof -
  have n: "0 \<le> n" and lt: "\<And>j. j < length xs \<Longrightarrow> xs ! j < n"
    and inj: "\<And>j k. j < length xs \<Longrightarrow> k < length xs \<Longrightarrow> 0 \<le> xs ! j \<Longrightarrow> xs ! j = xs ! k \<Longrightarrow> j = k"
    and ex: "\<And>k. 0 \<le> k \<Longrightarrow> k < n \<Longrightarrow> \<exists>j < length xs. xs ! j = k"
    using assms(1) unfolding ids_ok_def by blast+
  have "\<exists>j < length xs. xs[i := n] ! j = k" if k: "0 \<le> k" "k < n + 1" for k
  proof (cases "k = n")
    case True
    then show ?thesis using assms(2) by auto
  next
    case False
    then obtain j where "j < length xs" "xs ! j = k" using ex k by force
    moreover have "j \<noteq> i" using assms(3) \<open>xs ! j = k\<close> k by auto
    ultimately show ?thesis by (intro exI [of _ j]) simp
  qed
  moreover have "xs[i := n] ! j < n + 1" if "j < length xs" for j
    using lt [OF that] that by (cases "j = i") simp_all
  moreover have "j = k" if jk: "j < length xs" "k < length xs" "0 \<le> xs[i := n] ! j" "xs[i := n] ! j = xs[i := n] ! k" for j k
    using jk inj [of j k] lt [of j] lt [of k] by (cases "j = i"; cases "k = i") auto
  ultimately show ?thesis
    using n unfolding ids_ok_def by simp
qed

lemma ids_lift:
  assumes "ids_ok n xs" and i: "i < length xs" and u: "0 \<le> xs ! i"
  shows "ids_ok (n - 1) ((map (\<lambda>x. if x > xs ! i then x - 1 else x) xs)[i := - 1])"
proof -
  define ys where "ys = (map (\<lambda>x. if x > xs ! i then x - 1 else x) xs)[i := - 1]"
  have lt: "\<And>j. j < length xs \<Longrightarrow> xs ! j < n"
    and inj: "\<And>j k. j < length xs \<Longrightarrow> k < length xs \<Longrightarrow> 0 \<le> xs ! j \<Longrightarrow> xs ! j = xs ! k \<Longrightarrow> j = k"
    and ex: "\<And>k. 0 \<le> k \<Longrightarrow> k < n \<Longrightarrow> \<exists>j < length xs. xs ! j = k"
    using assms(1) unfolding ids_ok_def by blast+
  have len: "length ys = length xs" by (simp add: ys_def)
  have ys: "ys ! j = (if j = i then - 1 else if xs ! j > xs ! i then xs ! j - 1 else xs ! j)"
    if "j < length xs" for j
    using that by (simp add: ys_def nth_list_update)
  have ne: "xs ! j \<noteq> xs ! i" if "j < length xs" "j \<noteq> i" for j
    using inj [of i j] that i u by auto
  have "\<exists>j < length xs. ys ! j = k" if k: "0 \<le> k" "k < n - 1" for k
  proof (cases "k < xs ! i")
    case True
    then obtain j where "j < length xs" "xs ! j = k" using ex [of k] k by auto
    then show ?thesis using True by (intro exI [of _ j]) (auto simp: ys)
  next
    case False
    then obtain j where "j < length xs" "xs ! j = k + 1" using ex [of "k + 1"] k by auto
    then show ?thesis using False by (intro exI [of _ j]) (auto simp: ys)
  qed
  moreover have "ys ! j < n - 1" if "j < length xs" for j
    using lt [OF that] lt [OF i] u ne [OF that] by (auto simp: ys [OF that])
  moreover have "j = k" if jk: "j < length xs" "k < length xs" "0 \<le> ys ! j" "ys ! j = ys ! k" for j k
    using jk(3,4) inj [OF jk(1,2)] ne [OF jk(1)] ne [OF jk(2)] u
    by (auto simp: ys [OF jk(1)] ys [OF jk(2)] split: if_splits)
  moreover have "0 \<le> n - 1" using lt [OF i] u by simp
  ultimately show ?thesis
    unfolding ys_def [symmetric] ids_ok_def len by blast
qed

lemma point_index_Some:
  assumes "j < length ps" and "gp_point_id (ps ! j) = k" and "0 \<le> k"
  shows "\<exists>i. point_index k ps = Some i \<and> i < length ps \<and> gp_point_id (ps ! i) = k"
  using assms
proof (induction ps arbitrary: j)
  case (Cons p ps)
  show ?case
  proof (cases "gp_in_use p \<and> gp_point_id p = k")
    case False
    then have "j \<noteq> 0" using Cons.prems by (cases j) (auto simp: gp_in_use_def)
    then obtain j' where "j = Suc j'" by (cases j) auto
    then show ?thesis using Cons.IH [of j'] Cons.prems False by auto
  qed simp
qed simp

definition gs_ids :: "'f gesture_sequence \<Rightarrow> int list" where
  "gs_ids s = map gp_point_id (gs_points s)"

lemma GetPoint_Some:
  assumes "ids_ok n (gs_ids s)" and "0 \<le> k" and "k < n"
  shows "\<exists>i. gs_GetPointByPointId k s = Some i \<and> i < length (gs_points s) \<and>
             gp_point_id (gs_points s ! i) = k"
proof -
  obtain j where "j < length (gs_points s)" "gp_point_id (gs_points s ! j) = k"
    using assms unfolding ids_ok_def gs_ids_def by auto
  from point_index_Some [OF this assms(2)] show ?thesis
    by (simp add: gs_GetPointByPointId_def)
qed

section \<open>Frames of the transitions\<close>

definition gs_frame :: "'f gesture_sequence \<Rightarrow> 'f gesture_sequence \<Rightarrow> bool" where
  "gs_frame s s' \<longleftrightarrow> gs_ids s' = gs_ids s \<and>
     map gp_touch_id (gs_points s') = map gp_touch_id (gs_points s) \<and>
     gs_point_count s' = gs_point_count s \<and> gs_state s' = gs_state s \<and>
     gs_long_press_timer s' = gs_long_press_timer s"

lemma gs_frame_refl [simp]: "gs_frame s s"
  by (simp add: gs_frame_def)

lemma gs_frame_trans: "gs_frame a b \<Longrightarrow> gs_frame b c \<Longrightarrow> gs_frame a c"
  by (simp add: gs_frame_def)

lemma map_upd_same: "g (f (xs ! i)) = g (xs ! i) \<Longrightarrow> map g (xs[i := f (xs ! i)]) = map g xs"
  by (metis list_update_id map_update)

lemma upd_point_frame:
  assumes "gp_point_id (f (gs_points s ! i)) = gp_point_id (gs_points s ! i)"
    and "gp_touch_id (f (gs_points s ! i)) = gp_touch_id (gs_points s ! i)"
  shows "gs_frame s (upd_point i f s)"
  using assms by (simp add: gs_frame_def upd_point_def gs_ids_def map_upd_same)

lemma gs_frame_upd [simp]:
  "gs_frame s (s\<lparr>gs_scroll_type := st\<rparr>)" "gs_frame s (s\<lparr>gs_second_touch_time := t\<rparr>)"
  "gs_frame s (s\<lparr>gs_pinch_distance_current := a, gs_pinch_distance_start := b\<rparr>)"
  "gs_frame s (s\<lparr>gs_pinch_distance_start := b, gs_pinch_distance_current := a\<rparr>)"
  "gs_frame s (s\<lparr>gs_pinch_distance_current := a\<rparr>)"
  "gs_frame s (s\<lparr>gs_scroll_type := st, gs_pinch_distance_current := a, gs_pinch_distance_start := b\<rparr>)"
  by (simp_all add: gs_frame_def gs_ids_def)

lemma ScrollStart_frame: "gs_ScrollStart F cfg e p s = (b, s', g) \<Longrightarrow> gs_frame s s'"
  by (auto simp: gs_ScrollStart_def split: if_splits)

lemma BreakRail_frame: "gs_frame s (gs_BreakRailScroll F cfg i s)"
proof -
  have "gs_frame s (upd_point i (\<lambda>_. gp_refresh F (gs_points s ! i)) s)"
    by (rule upd_point_frame) simp_all
  then show ?thesis
    by (auto simp: gs_BreakRailScroll_def gp_BreaksHorizontalRail_def gp_BreaksVerticalRail_def Let_def
        intro: gs_frame_trans)
qed

lemma ScrollEnd_frame: "gs_ScrollEnd F cfg e i s = (s', g) \<Longrightarrow> gs_frame s s'"
  using upd_point_frame [of "\<lambda>_. gp_refresh F (gs_points s ! i)" s i]
  by (auto simp: gs_ScrollEnd_def gp_IsInFlickWindow_def gp_IsOverMinFlickSpeed_def Let_def)

lemma ResetVelocities_state [simp]: "gs_state (gs_ResetVelocities F s) = gs_state s"
  by (simp add: gs_ResetVelocities_def)

lemma PinchUpdate_frame: "gs_PinchUpdate F cfg p s = (s', g) \<Longrightarrow> gs_frame s s'"
  by (auto simp: gs_PinchUpdate_def Let_def split: if_splits)

lemma ResetVelocities_frame: "gs_frame s (gs_ResetVelocities F s)"
  by (auto simp: gs_ResetVelocities_def gs_frame_def gs_ids_def)

lemma first_two_points:
  assumes "ids_ok n (gs_ids s)" and "2 \<le> n"
  obtains i1 i2 where "gs_GetPointByPointId 0 s = Some i1" and "gs_GetPointByPointId 1 s = Some i2"
proof -
  have "0 < n" and "1 < n" using assms(2) by simp_all
  then show thesis
    using GetPoint_Some [OF assms(1), of 0] GetPoint_Some [OF assms(1), of 1] that by auto
qed

lemma PinchStart_spec:
  assumes "ids_ok n (gs_ids s)" and "2 \<le> n"
  shows "ensures (gs_PinchStart F p s) (\<lambda>(s', g). gs_frame s s')"
  by (rule first_two_points [OF assms])
    (simp_all add: gs_PinchStart_def Let_def)

lemma PinchEnd_spec:
  assumes "ids_ok n (gs_ids s)" and "2 \<le> n"
  shows "ensures (gs_PinchEnd F s) (\<lambda>(s', g). gs_frame s s')"
  by (rule first_two_points [OF assms])
    (simp_all add: gs_PinchEnd_def Let_def)

lemma CloseEnough_spec:
  assumes "ids_ok n (gs_ids s)" and "2 \<le> n"
  shows "ensures (gs_IsSecondTouchDownCloseEnoughForTwoFingerTap F cfg s) (\<lambda>b. True)"
  by (rule first_two_points [OF assms])
    (simp_all add: gs_IsSecondTouchDownCloseEnoughForTwoFingerTap_def Let_def)

lemma TwoFingerTouchMove_spec:
  assumes "ids_ok n (gs_ids s)" and "2 \<le> n"
  shows "ensures (gs_TwoFingerTouchMove F cfg e p s) (\<lambda>(b, s', g). gs_frame s s' \<and> gs_state s' = gs_state s)"
  using PinchStart_spec [OF assms, of F p]
  by (auto simp: gs_TwoFingerTouchMove_def Let_def case_prod_unfold gs_frame_def elim!: ensures_mono)

lemma TwoFingerTouchReleased_spec:
  assumes "ids_ok n (gs_ids s)" and "1 \<le> n"
  shows "ensures (gs_TwoFingerTouchReleased F cfg e p s) (\<lambda>g. True)"
  using GetPoint_Some [OF assms(1), of 0] assms(2)
  by (auto simp: gs_TwoFingerTouchReleased_def two_finger_tap_gesture_def Let_def)

lemma update_all_spec:
  assumes "ids_ok n (gs_ids s)" and "int i + int k \<le> n"
  shows "ensures (update_all_for_scroll i k s) (gs_frame s)"
  using assms
proof (induction k arbitrary: i s)
  case (Suc k)
  then obtain j where j: "gs_GetPointByPointId (int i) s = Some j"
    using GetPoint_Some [OF Suc.prems(1), of "int i"] by auto
  have f: "gs_frame s (upd_point j gp_UpdateForScroll s)"
    by (rule upd_point_frame) simp_all
  then have "gs_ids (upd_point j gp_UpdateForScroll s) = gs_ids s"
    by (simp add: gs_frame_def)
  then have "ensures (update_all_for_scroll (Suc i) k (upd_point j gp_UpdateForScroll s))
      (gs_frame (upd_point j gp_UpdateForScroll s))"
    using Suc.prems by (intro Suc.IH) simp_all
  then show ?case
    using j f by (auto elim!: ensures_mono intro: gs_frame_trans)
qed simp

lemma MaybeSwipe_spec:
  assumes "ids_ok n (gs_ids s)" and "1 \<le> n"
  shows "ensures (gs_MaybeSwipe F cfg p s) (\<lambda>(s', g). gs_frame s s' \<and> gs_state s' = gs_state s)"
proof -
  obtain i where "i < length (gs_points s)" "gp_point_id (gs_points s ! i) = 0"
    using GetPoint_Some [OF assms(1), of 0] assms(2) by auto
  then have "\<exists>q \<in> set (gs_points s). gp_in_use q"
    by (auto simp: gp_in_use_def intro!: bexI [of _ "gs_points s ! i"])
  then obtain q qs where "dropWhile (\<lambda>q. \<not> gp_in_use q) (gs_points s) = q # qs"
    by (metis dropWhile_eq_Nil_conv list.exhaust)
  then show ?thesis
    by (auto simp: gs_MaybeSwipe_def Let_def gs_frame_def gs_ids_def)
qed

section \<open>The switch\<close>

text \<open>The number of fingers that fits a state.\<close>

definition state_count :: "GestureState \<Rightarrow> int \<Rightarrow> bool" where
  "state_count st n \<longleftrightarrow>
     (case st of GS_NO_GESTURE \<Rightarrow> n = 0 | GS_PENDING_SYNTHETIC_CLICK \<Rightarrow> n = 1 | GS_SCROLL \<Rightarrow> n = 1
      | GS_PENDING_TWO_FINGER_TAP \<Rightarrow> n = 2 | GS_PINCH \<Rightarrow> 2 \<le> n)"

definition sw_post :: "'f gesture_sequence \<Rightarrow> 'f gesture_sequence \<Rightarrow> bool" where
  "sw_post s s' \<longleftrightarrow> gs_ids s' = gs_ids s \<and>
     map gp_touch_id (gs_points s') = map gp_touch_id (gs_points s) \<and>
     gs_point_count s' = gs_point_count s \<and>
     (gs_long_press_timer s' \<longrightarrow> gs_long_press_timer s \<or> gs_state s' = GS_PENDING_SYNTHETIC_CLICK)"

lemma frame_post: "gs_frame s s' \<Longrightarrow> sw_post s s'" "gs_frame s s' \<Longrightarrow> sw_post s (set_state st s')"
  by (simp_all add: gs_frame_def sw_post_def set_state_def gs_ids_def)

lemma frame_state: "gs_frame s s' \<Longrightarrow> gs_state s' = gs_state s"
  by (simp add: gs_frame_def)

lemma set_state_sel [simp]: "gs_state (set_state st s) = st"
  by (simp add: set_state_def)

text \<open>What a signature of a point with id \<open>k\<close> matches.\<close>

definition sig_is :: "32 word \<Rightarrow> GestureState \<Rightarrow> int \<Rightarrow> TouchState \<Rightarrow> bool" where
  "sig_is sig st k ts \<longleftrightarrow>
     (\<forall>st' c ts'. uint c < 4096 \<longrightarrow> (sig = GST st' c ts') = (st' = st \<and> uint c = k \<and> ts' = ts))"

lemma sig_isD: "sig_is sig st k ts \<Longrightarrow> uint c < 4096 \<Longrightarrow> (sig = GST st' c ts') = (st' = st \<and> uint c = k \<and> ts' = ts)"
  unfolding sig_is_def by blast

lemma sig_is_sig_G: "0 \<le> k \<Longrightarrow> k < 4096 \<Longrightarrow> sig_is (sig_G st (word_of_int k) ts False) st k ts"
  unfolding sig_is_def by (auto simp: sig_eq_iff)

lemma switch_press:
  assumes sig: "sig_is sig (gs_state s) n TS_PRESSED"
    and ids: "ids_ok (n + 1) (gs_ids s)" and cnt: "state_count (gs_state s) n"
  shows "ensures (gs_switch F cfg sig e i s) (\<lambda>(s', g). sw_post s s' \<and> state_count (gs_state s') (n + 1))"
proof (cases "gs_state s")
  case GS_NO_GESTURE
  then show ?thesis
    using cnt by (simp add: gs_switch_def sig_isD [OF sig] state_count_def gs_TouchDown_def sw_post_def
        set_state_def gs_ids_def)
next
  case GS_PINCH
  then show ?thesis
    using cnt frame_post(1) [OF gs_frame_upd(3)]
    by (simp add: gs_switch_def sig_isD [OF sig] state_count_def frame_post Let_def)
next
  case GS_PENDING_TWO_FINGER_TAP
  then show ?thesis
    using cnt PinchStart_spec [OF ids, of F "gs_points s ! i"]
    by (auto simp: gs_switch_def sig_isD [OF sig] state_count_def case_prod_unfold frame_post
        elim!: ensures_mono)
next
  case GS_PENDING_SYNTHETIC_CLICK
  then show ?thesis
    using cnt PinchStart_spec [OF ids, of F "gs_points s ! i"]
    by (auto simp: gs_switch_def sig_isD [OF sig] state_count_def case_prod_unfold frame_post
        gs_TwoFingerTouchDown_def Let_def intro!: ensures_bind [OF CloseEnough_spec [OF ids]] elim!: ensures_mono)
next
  case GS_SCROLL
  then show ?thesis
    using cnt PinchStart_spec [OF ids, of F "gs_points s ! i"]
    by (auto simp: gs_switch_def sig_isD [OF sig] state_count_def case_prod_unfold frame_post
        gs_TwoFingerTouchDown_def Let_def intro!: ensures_bind [OF CloseEnough_spec [OF ids]] elim!: ensures_mono)
qed

text \<open>An event of a finger that stays down.\<close>

lemma switch_hold:
  assumes sig: "sig_is sig (gs_state s) k ts" and ts: "ts = TS_MOVED \<or> ts = TS_STATIONARY \<or> ts = TS_UNKNOWN"
    and ids: "ids_ok n (gs_ids s)" and cnt: "state_count (gs_state s) n" and n: "gs_point_count s = n"
  shows "ensures (gs_switch F cfg sig e i s) (\<lambda>(s', g). sw_post s s' \<and> state_count (gs_state s') n)"
proof (cases "gs_state s")
  case GS_NO_GESTURE
  then show ?thesis
    using cnt ts by (auto simp: gs_switch_def sig_isD [OF sig] frame_post)
next
  case GS_PENDING_SYNTHETIC_CLICK
  obtain st s1 g1 where ss: "gs_ScrollStart F cfg e (gs_points s ! i) s = (st, s1, g1)" by (metis prod_cases3)
  note f1 = ScrollStart_frame [OF ss]
  have f2: "sw_post s (upd_point i gp_UpdateForScroll (set_state GS_SCROLL s1))"
    using f1 upd_point_frame [of gp_UpdateForScroll "set_state GS_SCROLL s1" i]
    by (simp add: sw_post_def gs_frame_def set_state_def gs_ids_def)
  have st2: "gs_state (upd_point i gp_UpdateForScroll (set_state GS_SCROLL s1)) = GS_SCROLL"
    by (simp add: upd_point_def)
  show ?thesis
    using GS_PENDING_SYNTHETIC_CLICK cnt ts f1 f2 st2 frame_state [OF f1]
    by (auto simp: gs_switch_def sig_isD [OF sig] ss frame_post state_count_def Let_def split: prod.split)
next
  case GS_SCROLL
  have f1: "gs_frame s (gs_BreakRailScroll F cfg i s)" by (rule BreakRail_frame)
  moreover have "gs_frame (gs_BreakRailScroll F cfg i s) (upd_point i gp_UpdateForScroll (gs_BreakRailScroll F cfg i s))"
    by (rule upd_point_frame) simp_all
  ultimately have f2: "gs_frame s (upd_point i gp_UpdateForScroll (gs_BreakRailScroll F cfg i s))"
    by (rule gs_frame_trans)
  show ?thesis
    using GS_SCROLL cnt ts f1 f2 frame_state [OF f1] frame_state [OF f2]
    by (auto simp: gs_switch_def sig_isD [OF sig] frame_post state_count_def Let_def split: prod.split)
next
  case GS_PENDING_TWO_FINGER_TAP
  then have "2 \<le> n" "n = 2" using cnt by (simp_all add: state_count_def)
  from TwoFingerTouchMove_spec [OF ids this(1), of F cfg e "gs_points s ! i"] show ?thesis
    using GS_PENDING_TWO_FINGER_TAP cnt ts \<open>n = 2\<close>
    by (auto simp: gs_switch_def sig_isD [OF sig] frame_post state_count_def Let_def case_prod_unfold
        elim!: ensures_mono)
next
  case GS_PINCH
  obtain s1 g1 where pu: "gs_PinchUpdate F cfg (gs_points s ! i) s = (s1, g1)" by force
  note f1 = PinchUpdate_frame [OF pu]
  have "0 \<le> n" using ids by (simp add: ids_ok_def)
  then have "ensures (update_all_for_scroll 0 (nat (gs_point_count s1)) s1) (gs_frame s1)"
    using update_all_spec [of n s1 0 "nat (gs_point_count s1)"] f1 ids n by (simp add: gs_frame_def)
  then have a: "ensures (update_all_for_scroll 0 (nat (gs_point_count s1)) s1) (\<lambda>s2. sw_post s s2 \<and> gs_state s2 = GS_PINCH)"
    by (rule ensures_mono) (metis f1 GS_PINCH frame_state frame_post(1) gs_frame_trans)
  have sw: "gs_switch F cfg sig e i s = (if ts = TS_MOVED \<and> k \<in> {0, 1, 2, 3, 4}
      then map_option (\<lambda>s2. (s2, g1)) (update_all_for_scroll 0 (nat (gs_point_count s1)) s1) else Some (s, []))"
    using GS_PINCH ts by (auto simp: gs_switch_def sig_isD [OF sig] pu)
  have c: "state_count GS_PINCH n" using cnt GS_PINCH by simp
  show ?thesis
  proof (cases "ts = TS_MOVED \<and> k \<in> {0, 1, 2, 3, 4}")
    case True
    then show ?thesis
      unfolding sw using ensures_mono [OF a] c by simp
  next
    case False
    then show ?thesis unfolding sw using c GS_PINCH by (auto simp: frame_post)
  qed
qed

text \<open>An event that lifts a finger: either everything is reset, or the rest fits the new state.\<close>

definition gs_cleared :: "'f gesture_sequence \<Rightarrow> 'f gesture_sequence \<Rightarrow> bool" where
  "gs_cleared s s' \<longleftrightarrow> gs_point_count s = 1 \<and> gs_ids s' = replicate (length (gs_points s)) (-1) \<and> gs_point_count s' = 0 \<and>
     gs_state s' = GS_NO_GESTURE \<and> map gp_touch_id (gs_points s') = map gp_touch_id (gs_points s) \<and>
     gs_long_press_timer s' = gs_long_press_timer s"

lemma Reset_cleared: "gs_point_count s = 1 \<Longrightarrow> gs_cleared s (gs_Reset F s)"
  by (simp add: gs_cleared_def gs_Reset_def set_state_def gs_ids_def comp_def map_replicate_const)

lemma switch_lift:
  assumes sig: "sig_is sig (gs_state s) k ts" and ts: "ts = TS_RELEASED \<or> ts = TS_CANCELLED"
    and k: "0 \<le> k" "k < n"
    and ids: "ids_ok n (gs_ids s)" and cnt: "state_count (gs_state s) n" and n: "gs_point_count s = n"
  shows "ensures (gs_switch F cfg sig e i s)
    (\<lambda>(s', g). gs_cleared s s' \<or> sw_post s s' \<and> state_count (gs_state s') (n - 1))"
proof (cases "gs_state s")
  case GS_NO_GESTURE
  then show ?thesis using cnt k by (simp add: state_count_def)
next
  case GS_PENDING_SYNTHETIC_CLICK
  have "gs_frame s (upd_point i gp_UpdateForTap s)" by (rule upd_point_frame) simp_all
  then show ?thesis
    using GS_PENDING_SYNTHETIC_CLICK cnt ts k n
    by (auto simp: gs_switch_def sig_isD [OF sig] frame_post state_count_def Let_def Reset_cleared split: prod.split)
next
  case GS_SCROLL
  then show ?thesis
    using cnt ts k
    by (auto simp: gs_switch_def sig_isD [OF sig] frame_post state_count_def Let_def dest!: ScrollEnd_frame
        split: prod.split)
next
  case GS_PENDING_TWO_FINGER_TAP
  then have n2: "1 \<le> n" "n = 2" using cnt by (simp_all add: state_count_def)
  have k2: "k = 0 \<or> k = 1" using k n2 by linarith
  from TwoFingerTouchReleased_spec [OF ids n2(1), of F cfg e "gs_points s ! i"] show ?thesis
    using GS_PENDING_TWO_FINGER_TAP ts k2 n2
    by (auto simp: gs_switch_def sig_isD [OF sig] frame_post state_count_def Let_def elim!: ensures_mono)
next
  case GS_PINCH
  then have n2: "2 \<le> n" "1 \<le> n" using cnt by (simp_all add: state_count_def)
  have fr: "sw_post s (gs_ResetVelocities F s1) \<and> gs_state (gs_ResetVelocities F s1) = gs_state s1"
    if "gs_frame s s1 \<or> (\<exists>s2. gs_frame s s2 \<and> s1 = set_state st s2)" for s1 st
    using that frame_post ResetVelocities_frame [of s1 F]
    by (auto simp: sw_post_def gs_frame_def set_state_def gs_ids_def)
  show ?thesis
  proof (cases "k \<le> 4")
    case False
    then show ?thesis
      using GS_PINCH ts cnt n2 k by (auto simp: gs_switch_def sig_isD [OF sig] frame_post state_count_def)
  next
    case True
    then have k5: "k = 0 \<or> k = 1 \<or> k = 2 \<or> k = 3 \<or> k = 4" using k by linarith
    have a: "ensures (map_option (\<lambda>(s1, g). (gs_ResetVelocities F s1, g))
                (if gs_point_count s = 2
                 then map_option (\<lambda>(s1, g). (set_state GS_SCROLL s1, g)) (gs_PinchEnd F s)
                 else gs_MaybeSwipe F cfg (gs_points s ! i) s))
       (\<lambda>(s', g). sw_post s s' \<and> state_count (gs_state s') (n - 1))"
    proof (cases "n = 2")
      case True
      then show ?thesis
        using n PinchEnd_spec [OF ids n2(1), of F] fr [of "set_state GS_SCROLL _" GS_SCROLL]
        by (auto simp: case_prod_unfold state_count_def elim!: ensures_mono)
    next
      case False
      then show ?thesis
        using n n2 GS_PINCH MaybeSwipe_spec [OF ids n2(2), of F cfg "gs_points s ! i"] fr
        by (auto simp: case_prod_unfold state_count_def elim!: ensures_mono)
    qed
    have "gs_switch F cfg sig e i s = map_option (\<lambda>(s1, g). (gs_ResetVelocities F s1, g))
                (if gs_point_count s = 2
                 then map_option (\<lambda>(s1, g). (set_state GS_SCROLL s1, g)) (gs_PinchEnd F s)
                 else gs_MaybeSwipe F cfg (gs_points s ! i) s)"
      using GS_PINCH ts k5 by (auto simp: gs_switch_def sig_isD [OF sig] Let_def)
    with a show ?thesis by (auto elim!: ensures_mono)
  qed
qed

section \<open>The handler keeps the invariant\<close>

definition gs_ok :: "'f gesture_sequence \<Rightarrow> bool" where
  "gs_ok s \<longleftrightarrow> length (gs_points s) = 12 \<and> ids_ok (gs_point_count s) (gs_ids s) \<and>
     state_count (gs_state s) (gs_point_count s) \<and>
     (gs_long_press_timer s \<longrightarrow> gs_state s = GS_PENDING_SYNTHETIC_CLICK) \<and>
     (\<forall>i < 12. 0 \<le> gs_ids s ! i \<longrightarrow> gp_touch_id (gs_points s ! i) = int i)"

text \<open>What the caller guarantees: a valid touch id, and no second press of a finger that is down.\<close>

definition touch_ok :: "'f touch_event \<Rightarrow> 'f gesture_sequence \<Rightarrow> bool" where
  "touch_ok e s \<longleftrightarrow> 0 \<le> te_touch_id e \<and>
     (te_type e = ET_TOUCH_PRESSED \<and> te_touch_id e < 12 \<longrightarrow> \<not> gp_in_use (gs_points s ! nat (te_touch_id e)))"

lemma gs_init_ok: "gs_ok (gs_init F cfg)"
  by (simp add: gs_ok_def gs_init_def kMaxGesturePoints_def ids_ok_def gs_ids_def state_count_def gp_init_def
      map_replicate_const)

lemma RecreateBoundingBox_frame: "gs_frame s (gs_RecreateBoundingBox s)"
  by (simp add: gs_RecreateBoundingBox_def gs_frame_def gs_ids_def split: prod.split)

text \<open>Lifting a finger that is down renumbers the others.\<close>

lemma lift_spec:
  fixes F :: "'f farith" and s :: "'f gesture_sequence"
  assumes len: "length (gs_points s) = 12" and i: "i < 12" and u: "0 \<le> gs_ids s ! i"
    and ids: "ids_ok n (gs_ids s)" and n: "gs_point_count s = n"
  defines "s' \<equiv> gs_lift_point F i s"
  shows "length (gs_points s') = 12" and "ids_ok (n - 1) (gs_ids s')" and "gs_point_count s' = n - 1"
    and "gs_state s' = gs_state s" and "gs_long_press_timer s' = gs_long_press_timer s"
    and "map gp_touch_id (gs_points s') = map gp_touch_id (gs_points s)"
    and "\<forall>j < 12. 0 \<le> gs_ids s' ! j \<longrightarrow> 0 \<le> gs_ids s ! j"
proof -
  define old where "old = gs_ids s ! i"
  define ps where "ps = map (\<lambda>p. if gp_point_id p > old then p\<lparr>gp_point_id := gp_point_id p - 1\<rparr> else p) (gs_points s)"
  define s2 where "s2 = (upd_point i (gp_Reset F) (s\<lparr>gs_points := ps\<rparr>))\<lparr>gs_point_count := n - 1\<rparr>"
  have old: "gp_point_id (gs_points s ! i) = old" using len i by (simp add: old_def gs_ids_def)
  have use: "gp_in_use (ps ! i)" using len i old u by (simp add: ps_def gp_in_use_def old_def)
  have psids: "map gp_point_id ps = map (\<lambda>x. if x > old then x - 1 else x) (gs_ids s)"
    by (auto simp: ps_def gs_ids_def)
  have s2: "gs_ids s2 = (map (\<lambda>x. if x > old then x - 1 else x) (gs_ids s))[i := - 1]"
    using psids by (simp add: s2_def upd_point_def gs_ids_def map_update)
  have t2: "map gp_touch_id (gs_points s2) = map gp_touch_id (gs_points s)"
  proof -
    have "map gp_touch_id (gs_points s2) = map gp_touch_id ps"
      by (simp add: s2_def upd_point_def map_upd_same)
    also have "\<dots> = map gp_touch_id (gs_points s)" by (auto simp: ps_def)
    finally show ?thesis .
  qed
  have fr: "gs_frame s2 s'"
    unfolding s'_def gs_lift_point_def Let_def old ps_def [symmetric]
    using use n gs_frame_trans [OF RecreateBoundingBox_frame [of s2] gs_frame_upd(3)] RecreateBoundingBox_frame [of s2]
    by (simp add: s2_def)
  have ids2: "ids_ok (n - 1) (gs_ids s2)"
    unfolding s2 old_def using ids i len u by (intro ids_lift) (simp_all add: gs_ids_def)
  show "ids_ok (n - 1) (gs_ids s')" "map gp_touch_id (gs_points s') = map gp_touch_id (gs_points s)"
    using fr ids2 t2 by (simp_all add: gs_frame_def)
  show "gs_point_count s' = n - 1" "gs_state s' = gs_state s" "gs_long_press_timer s' = gs_long_press_timer s"
    using fr by (simp_all add: gs_frame_def s2_def upd_point_def)
  show "length (gs_points s') = 12"
    using fr t2 len by (metis gs_frame_def length_map)
  have "gs_ids s' = gs_ids s2" using fr by (simp add: gs_frame_def)
  then show "\<forall>j < 12. 0 \<le> gs_ids s' ! j \<longrightarrow> 0 \<le> gs_ids s ! j"
  proof (intro allI impI)
    fix j :: nat assume j: "j < 12" "0 \<le> gs_ids s' ! j"
    then have jl: "j < length (gs_ids s)" using len by (simp add: gs_ids_def)
    show "0 \<le> gs_ids s ! j"
      using j jl u \<open>gs_ids s' = gs_ids s2\<close> unfolding s2
      by (cases "j = i") (auto simp: old_def split: if_splits)
  qed
qed

lemma lift_cleared:
  assumes "gs_ids s = replicate 12 (-1)" and "i < 12"
  shows "gs_ids (gs_lift_point F i s) = replicate 12 (-1)" and "gs_point_count (gs_lift_point F i s) = gs_point_count s"
    and "gs_state (gs_lift_point F i s) = gs_state s" and "gs_long_press_timer (gs_lift_point F i s) = gs_long_press_timer s"
    and "length (gs_points (gs_lift_point F i s)) = length (gs_points s)"
proof -
  have len: "length (gs_points s) = 12" using assms(1) by (metis gs_ids_def length_map length_replicate)
  have all: "gp_point_id p = - 1" if "p \<in> set (gs_points s)" for p
    using assms(1) that by (metis gs_ids_def in_set_replicate image_eqI list.set_map)
  then have "gp_point_id (gs_points s ! i) = - 1" using len assms(2) by simp
  moreover have "map (\<lambda>p. if gp_point_id p > - 1 then p\<lparr>gp_point_id := gp_point_id p - 1\<rparr> else p) (gs_points s) = gs_points s"
    using all by (intro map_idI) simp
  ultimately have "gs_lift_point F i s = s"
    by (simp add: gs_lift_point_def gp_in_use_def)
  then show "gs_ids (gs_lift_point F i s) = replicate 12 (-1)" "gs_point_count (gs_lift_point F i s) = gs_point_count s"
    "gs_state (gs_lift_point F i s) = gs_state s" "gs_long_press_timer (gs_lift_point F i s) = gs_long_press_timer s"
    "length (gs_points (gs_lift_point F i s)) = length (gs_points s)"
    using assms(1) by simp_all
qed

text \<open>The steps of the handler up to the switch: the point is entered, its data and the bounding box
  are updated.\<close>

definition gs_enter :: "'f farith \<Rightarrow> 'f gesture_configuration \<Rightarrow> 'f touch_event \<Rightarrow> 'f gesture_sequence \<Rightarrow> 'f gesture_sequence" where
  "gs_enter F cfg e s =
     (let i = nat (te_touch_id e); s0 = s\<lparr>gs_last_touch_location := te_location e\<rparr>;
          s1 = (if te_type e = ET_TOUCH_PRESSED
                then (upd_point i (\<lambda>p. p\<lparr>gp_point_id := gs_point_count s0, gp_touch_id := te_touch_id e\<rparr>) s0)
                       \<lparr>gs_point_count := gs_point_count s0 + 1\<rparr>
                else s0)
      in (gs_RecreateBoundingBox (upd_point i (gp_UpdateValues F cfg e) s1))\<lparr>gs_flags := te_flags e\<rparr>)"

lemma enter_frame:
  assumes "te_type e \<noteq> ET_TOUCH_PRESSED"
  shows "gs_frame s (gs_enter F cfg e s)"
proof -
  define s0 where "s0 = s\<lparr>gs_last_touch_location := te_location e\<rparr>"
  have "gs_frame s s0" by (simp add: s0_def gs_frame_def gs_ids_def)
  moreover have "gs_frame s0 (upd_point (nat (te_touch_id e)) (gp_UpdateValues F cfg e) s0)"
    by (rule upd_point_frame) simp_all
  ultimately have "gs_frame s (gs_RecreateBoundingBox (upd_point (nat (te_touch_id e)) (gp_UpdateValues F cfg e) s0))"
    using RecreateBoundingBox_frame gs_frame_trans by blast
  then show ?thesis
    using assms by (simp add: gs_enter_def Let_def s0_def gs_frame_def gs_ids_def)
qed

lemma enter_press:
  fixes F :: "'f farith" and cfg :: "'f gesture_configuration" and s :: "'f gesture_sequence"
  assumes ok: "gs_ok s" and press: "te_type e = ET_TOUCH_PRESSED" and i: "i = nat (te_touch_id e)" "i < 12"
    and id: "0 \<le> te_touch_id e" and free: "\<not> gp_in_use (gs_points s ! i)"
  defines "s' \<equiv> gs_enter F cfg e s"
  shows "gs_ids s' = (gs_ids s)[i := gs_point_count s]" and "gs_point_count s' = gs_point_count s + 1"
    and "gs_state s' = gs_state s" and "gs_long_press_timer s' = gs_long_press_timer s"
    and "map gp_touch_id (gs_points s') = (map gp_touch_id (gs_points s))[i := int i]"
    and "ids_ok (gs_point_count s + 1) (gs_ids s')"
proof -
  define s1 where "s1 = (upd_point i (\<lambda>p. p\<lparr>gp_point_id := gs_point_count s, gp_touch_id := te_touch_id e\<rparr>)
      (s\<lparr>gs_last_touch_location := te_location e\<rparr>))\<lparr>gs_point_count := gs_point_count s + 1\<rparr>"
  have "gs_frame s1 (upd_point i (gp_UpdateValues F cfg e) s1)"
    by (rule upd_point_frame) simp_all
  then have "gs_frame s1 (gs_RecreateBoundingBox (upd_point i (gp_UpdateValues F cfg e) s1))"
    using RecreateBoundingBox_frame gs_frame_trans by blast
  then have fr: "gs_frame s1 s'"
    using press by (simp add: s'_def gs_enter_def Let_def i(1) [symmetric] s1_def gs_frame_def gs_ids_def)
  show ids: "gs_ids s' = (gs_ids s)[i := gs_point_count s]"
    using fr by (simp add: gs_frame_def s1_def upd_point_def gs_ids_def map_update)
  show "gs_point_count s' = gs_point_count s + 1" "gs_state s' = gs_state s" "gs_long_press_timer s' = gs_long_press_timer s"
    using fr by (simp_all add: gs_frame_def s1_def upd_point_def)
  show "map gp_touch_id (gs_points s') = (map gp_touch_id (gs_points s))[i := int i]"
    using fr i id by (simp add: gs_frame_def s1_def upd_point_def map_update)
  show "ids_ok (gs_point_count s + 1) (gs_ids s')"
    unfolding ids using ok free i(2)
    by (intro ids_press) (simp_all add: gs_ok_def gs_ids_def gp_in_use_def)
qed

lemma touch_state_cases:
  "TouchEventTypeToTouchState t = TS_PRESSED \<longleftrightarrow> t = ET_TOUCH_PRESSED"
  "TouchEventTypeToTouchState t = TS_RELEASED \<or> TouchEventTypeToTouchState t = TS_CANCELLED \<longleftrightarrow>
   t = ET_TOUCH_RELEASED \<or> t = ET_TOUCH_CANCELLED"
  by (auto simp: TouchEventTypeToTouchState_def)

lemma frame_ok: "gs_frame s s' \<Longrightarrow> gs_ok s \<Longrightarrow> gs_ok s'"
  unfolding gs_ok_def gs_frame_def by (metis length_map nth_map)

text \<open>After the switch: the timer is stopped when the pending click ended.\<close>

definition gs_settle :: "GestureState \<Rightarrow> 'f gesture_sequence \<Rightarrow> 'f gesture_sequence" where
  "gs_settle last_state s =
     (if last_state = GS_PENDING_SYNTHETIC_CLICK \<and> gs_state s \<noteq> last_state
      then s\<lparr>gs_long_press_timer := False\<rparr> else s)"

lemma settle_sel [simp]:
  "gs_ids (gs_settle l s) = gs_ids s" "gs_points (gs_settle l s) = gs_points s"
  "gs_point_count (gs_settle l s) = gs_point_count s" "gs_state (gs_settle l s) = gs_state s"
  by (simp_all add: gs_settle_def gs_ids_def)

lemma settle_ok:
  assumes "sw_post s s'" and "length (gs_points s) = 12" and "ids_ok n (gs_ids s)" and "gs_point_count s = n"
    and "state_count (gs_state s') n" and "gs_long_press_timer s \<longrightarrow> gs_state s = GS_PENDING_SYNTHETIC_CLICK"
    and "\<forall>i < 12. 0 \<le> gs_ids s ! i \<longrightarrow> gp_touch_id (gs_points s ! i) = int i"
  shows "gs_ok (gs_settle (gs_state s) s')"
proof -
  have m: "map gp_touch_id (gs_points s') = map gp_touch_id (gs_points s)" "gs_ids s' = gs_ids s"
      "gs_point_count s' = n"
    using assms(1,4) by (simp_all add: sw_post_def)
  then have len: "length (gs_points s') = 12" using assms(2) by (metis length_map)
  have "gp_touch_id (gs_points s' ! i) = int i" if "i < 12" "0 \<le> gs_ids s' ! i" for i
    using m len that assms(2,7) by (metis nth_map)
  moreover have "gs_long_press_timer (gs_settle (gs_state s) s') \<longrightarrow> gs_state s' = GS_PENDING_SYNTHETIC_CLICK"
    using assms(1,6) by (auto simp: gs_settle_def sw_post_def split: if_splits)
  ultimately show ?thesis
    using m len assms(3,5) by (simp add: gs_ok_def)
qed

lemma lift_ok:
  assumes "sw_post s s'" and "length (gs_points s) = 12" and "ids_ok n (gs_ids s)" and "gs_point_count s = n"
    and "state_count (gs_state s') (n - 1)" and "gs_long_press_timer s \<longrightarrow> gs_state s = GS_PENDING_SYNTHETIC_CLICK"
    and "\<forall>i < 12. 0 \<le> gs_ids s ! i \<longrightarrow> gp_touch_id (gs_points s ! i) = int i"
    and "i < 12" and "0 \<le> gs_ids s ! i"
  shows "gs_ok (gs_lift_point F i (gs_settle (gs_state s) s'))"
proof -
  let ?s4 = "gs_settle (gs_state s) s'"
  have m: "map gp_touch_id (gs_points ?s4) = map gp_touch_id (gs_points s)" "gs_ids ?s4 = gs_ids s"
      "gs_point_count ?s4 = n"
    using assms(1,4) by (simp_all add: sw_post_def)
  then have len: "length (gs_points ?s4) = 12" using assms(2) by (metis length_map)
  have u: "0 \<le> gs_ids ?s4 ! i" and ids: "ids_ok n (gs_ids ?s4)" using m assms(3,9) by simp_all
  note l = lift_spec [OF len assms(8) u ids m(3), of F]
  have "gp_touch_id (gs_points (gs_lift_point F i ?s4) ! j) = int j"
    if "j < 12" "0 \<le> gs_ids (gs_lift_point F i ?s4) ! j" for j
    using l(1,6,7) m that assms(2,7) by (metis nth_map)
  moreover have "gs_long_press_timer ?s4 \<longrightarrow> gs_state s' = GS_PENDING_SYNTHETIC_CLICK"
    using assms(1,6) by (auto simp: gs_settle_def sw_post_def split: if_splits)
  ultimately show ?thesis
    using l assms(5) by (simp add: gs_ok_def)
qed

lemma cleared_ok:
  assumes "gs_cleared s s'" and "length (gs_points s) = 12" and "gs_state s = GS_PENDING_SYNTHETIC_CLICK \<or> \<not> gs_long_press_timer s"
    and "i < 12"
  shows "gs_ok (gs_lift_point F i (gs_settle (gs_state s) s'))"
proof -
  have ids: "gs_ids (gs_settle (gs_state s) s') = replicate 12 (-1)"
    using assms(1,2) by (simp add: gs_cleared_def)
  then have "length (gs_points (gs_settle (gs_state s) s')) = 12" by (metis gs_ids_def length_map length_replicate)
  then show ?thesis
    using lift_cleared [OF ids assms(4), of F] assms(1,3)
    by (auto simp: gs_ok_def gs_cleared_def gs_settle_def state_count_def ids_ok_def split: if_splits)
qed

lemma process_eq:
  fixes F :: "'f farith" and cfg :: "'f gesture_configuration" and s :: "'f gesture_sequence"
  assumes "0 \<le> te_touch_id e" and "te_touch_id e < 12" and "status = TOUCH_STATUS_UNKNOWN"
    and "\<not> (te_type e = ET_TOUCH_PRESSED \<and> gs_point_count s = 12)"
  defines "i \<equiv> nat (te_touch_id e)" and "s2 \<equiv> gs_enter F cfg e s"
  shows "gs_ProcessTouchEventForGesture F cfg e status s =
    (if gp_point_id (gs_points s2 ! i) < 0 then Some (s2, None)
     else Option.bind (Signature (gs_state s2) (gp_point_id (gs_points s2 ! i)) (te_type e) False) (\<lambda>sig.
          Option.bind (gs_switch F cfg sig e i s2) (\<lambda>(s3, g2).
          Some (if is_lift e then gs_lift_point F i (gs_settle (gs_state s) s3) else gs_settle (gs_state s) s3,
                Some ((if te_type e = ET_TOUCH_PRESSED then [begin_gesture F (gs_points s2 ! i) s2] else []) @ g2 @
                      (if is_lift e then [end_gesture F (gs_points s3 ! i) s3] else []))))))"
  using assms(1-4)
  by (simp add: gs_ProcessTouchEventForGesture_def kMaxGesturePoints_def Let_def gs_enter_def s2_def i_def
      gs_settle_def upd_point_def cong: if_cong)

text \<open>The three kinds of events, at the switch.\<close>

lemma switch_quiet:
  "ensures (gs_switch F cfg sig e i s) (\<lambda>(s', g). P s') \<Longrightarrow>
   ensures (gs_switch F cfg sig e i s) (\<lambda>(s', g). P s' \<and> finger_balance g = 0)"
  by (auto simp: ensures_def quiet_switch split: option.splits)

lemma lift_cleared_or_post:
  assumes "gs_cleared s s3 \<or> sw_post s s3" and "ids_ok n (gs_ids s)" and "gs_point_count s = n"
    and len: "length (gs_points s) = 12" and i: "i < 12" and u: "0 \<le> gs_ids s ! i"
  shows "gs_point_count (gs_lift_point F i (gs_settle st s3)) = n - 1"
  using assms(1)
proof
  assume c: "gs_cleared s s3"
  then have "gs_ids (gs_settle st s3) = replicate 12 (-1)" using len by (simp add: gs_cleared_def)
  from lift_cleared(2) [OF this i, of F] c assms(3) show ?thesis by (simp add: gs_cleared_def)
next
  let ?s4 = "gs_settle st s3"
  assume "sw_post s s3"
  then have m: "gs_ids ?s4 = gs_ids s" "gs_point_count ?s4 = n" using assms(3) by (simp_all add: sw_post_def)
  have "length (gs_points ?s4) = 12" using m(1) len by (metis gs_ids_def length_map)
  from lift_spec(3) [OF this i, of n F] m assms(2) u show ?thesis by simp
qed

lemma process_press:
  assumes ok: "gs_ok s" and e: "touch_ok e s" "te_touch_id e < 12" "te_type e = ET_TOUCH_PRESSED" "gs_point_count s \<noteq> 12"
  shows "ensures (gs_ProcessTouchEventForGesture F cfg e TOUCH_STATUS_UNKNOWN s)
    (\<lambda>(s', g). gs_ok s' \<and> gs_point_count s' = gs_point_count s + finger_balance (gestures_of g))"
proof -
  define i where "i = nat (te_touch_id e)"
  define n where "n = gs_point_count s"
  define s2 where "s2 = gs_enter F cfg e s"
  have id: "0 \<le> te_touch_id e" "i < 12" "\<not> gp_in_use (gs_points s ! i)"
    using e by (auto simp: touch_ok_def i_def)
  note p = enter_press [OF ok e(3) i_def id(2,1,3), of F cfg, folded s2_def n_def]
  have len: "length (gs_points s) = 12" and sc: "state_count (gs_state s) n" and n0: "0 \<le> n"
      and tm: "gs_long_press_timer s \<longrightarrow> gs_state s = GS_PENDING_SYNTHETIC_CLICK"
      and tid: "\<forall>i < 12. 0 \<le> gs_ids s ! i \<longrightarrow> gp_touch_id (gs_points s ! i) = int i"
      and idn: "ids_ok n (gs_ids s)"
    using ok by (auto simp: gs_ok_def n_def ids_ok_def)
  have n12: "n < 12" using ids_ok_le [OF idn] e(4) len by (simp add: n_def gs_ids_def)
  have len2: "length (gs_points s2) = 12" using p(5) len by (metis length_list_update length_map)
  have pid: "gp_point_id (gs_points s2 ! i) = n"
  proof -
    have "gp_point_id (gs_points s2 ! i) = gs_ids s2 ! i" using len2 id(2) by (simp add: gs_ids_def)
    then show ?thesis using p(1) len id(2) by (simp add: gs_ids_def)
  qed
  have tid2: "\<forall>j < 12. 0 \<le> gs_ids s2 ! j \<longrightarrow> gp_touch_id (gs_points s2 ! j) = int j"
  proof (intro allI impI)
    fix j :: nat assume j: "j < 12" "0 \<le> gs_ids s2 ! j"
    have "gp_touch_id (gs_points s2 ! j) = ((map gp_touch_id (gs_points s))[i := int i]) ! j"
      using p(5) len2 j(1) by (metis nth_map)
    then show "gp_touch_id (gs_points s2 ! j) = int j"
      using j p(1) len tid id(2) by (cases "j = i") (simp_all add: gs_ids_def)
  qed
  define sig where "sig = sig_G (gs_state s2) (word_of_int n) TS_PRESSED False"
  have sg: "Signature (gs_state s2) n (te_type e) False = Some sig"
    using n0 n12 e(3) by (simp add: Signature_Some sig_def TouchEventTypeToTouchState_def)
  have "sig_is sig (gs_state s2) n TS_PRESSED"
    unfolding sig_def using n0 n12 by (intro sig_is_sig_G) simp_all
  from switch_press [OF this p(6), of F cfg e i] sc p(3)
  have sw: "ensures (gs_switch F cfg sig e i s2)
      (\<lambda>(s3, g). (sw_post s2 s3 \<and> state_count (gs_state s3) (n + 1)) \<and> finger_balance g = 0)"
    by (intro switch_quiet) simp
  have fin: "gs_ok (gs_settle (gs_state s) s3) \<and> gs_point_count s3 = n + 1"
    if "sw_post s2 s3" "state_count (gs_state s3) (n + 1)" for s3
    using settle_ok [OF that(1) len2 p(6,2) that(2) _ tid2] tm p(2,3,4) that(1) by (simp add: sw_post_def)
  have nl: "\<not> is_lift e" using e(3) by (simp add: is_lift_def)
  show ?thesis
    using process_eq [OF id(1) e(2) refl, of s F cfg] e(3,4) pid n0 sg nl fin
    by (auto simp: i_def [symmetric] s2_def [symmetric] n_def intro!: ensures_bind [OF sw])
qed

lemma process_other:
  assumes ok: "gs_ok s" and e: "0 \<le> te_touch_id e" "te_touch_id e < 12" "te_type e \<noteq> ET_TOUCH_PRESSED"
  shows "ensures (gs_ProcessTouchEventForGesture F cfg e TOUCH_STATUS_UNKNOWN s)
    (\<lambda>(s', g). gs_ok s' \<and> gs_point_count s' = gs_point_count s + finger_balance (gestures_of g))"
proof -
  define i where "i = nat (te_touch_id e)"
  define s2 where "s2 = gs_enter F cfg e s"
  define n where "n = gs_point_count s2"
  define k where "k = gp_point_id (gs_points s2 ! i)"
  define ts where "ts = TouchEventTypeToTouchState (te_type e)"
  have fr: "gs_frame s s2" unfolding s2_def using e(3) by (rule enter_frame)
  have ok2: "gs_ok s2" using fr ok by (rule frame_ok)
  have st: "gs_state s2 = gs_state s" using fr by (rule frame_state)
  have cs: "gs_point_count s2 = gs_point_count s" using fr by (simp add: gs_frame_def)
  have i: "i < 12" using e by (simp add: i_def)
  have len: "length (gs_points s2) = 12" and sc: "state_count (gs_state s2) n"
      and tm: "gs_long_press_timer s2 \<longrightarrow> gs_state s2 = GS_PENDING_SYNTHETIC_CLICK"
      and tid: "\<forall>i < 12. 0 \<le> gs_ids s2 ! i \<longrightarrow> gp_touch_id (gs_points s2 ! i) = int i"
      and idn: "ids_ok n (gs_ids s2)"
    using ok2 by (simp_all add: gs_ok_def n_def)
  have ki: "k = gs_ids s2 ! i" using len i by (simp add: k_def gs_ids_def)
  have np: "\<not> (te_type e = ET_TOUCH_PRESSED \<and> gs_point_count s = 12)" using e(3) by simp
  note eq = process_eq [OF e(1,2) refl np, of F cfg, folded i_def s2_def, folded k_def st]
  show ?thesis
  proof (cases "k < 0")
    case True
    then show ?thesis using eq ok2 cs by simp
  next
    case False
    have kn: "k < n" using idn ki i len by (simp add: ids_ok_def gs_ids_def)
    have n12: "n \<le> 12" using ids_ok_le [OF idn] len by (simp add: gs_ids_def)
    define sig where "sig = sig_G (gs_state s2) (word_of_int k) ts False"
    have sg: "Signature (gs_state s2) k (te_type e) False = Some sig"
      using False kn n12 by (simp add: Signature_Some sig_def ts_def)
    have si: "sig_is sig (gs_state s2) k ts"
      unfolding sig_def using False kn n12 by (intro sig_is_sig_G) simp_all
    show ?thesis
    proof (cases "is_lift e")
      case True
      then have "ts = TS_RELEASED \<or> ts = TS_CANCELLED"
        by (auto simp: ts_def is_lift_def TouchEventTypeToTouchState_def)
      then have sw: "ensures (gs_switch F cfg sig e i s2)
          (\<lambda>(s3, g). (gs_cleared s2 s3 \<or> sw_post s2 s3 \<and> state_count (gs_state s3) (n - 1)) \<and> finger_balance g = 0)"
        using False kn by (intro switch_quiet switch_lift [OF si _ _ _ idn sc]) (simp_all add: n_def)
      have "gs_ok (gs_lift_point F i (gs_settle (gs_state s2) s3)) \<and>
          gs_point_count (gs_lift_point F i (gs_settle (gs_state s2) s3)) = n - 1"
        if "gs_cleared s2 s3 \<or> sw_post s2 s3 \<and> state_count (gs_state s3) (n - 1)" for s3
        using that cleared_ok [OF _ len _ i, of s3 F] lift_ok [OF _ len idn n_def [symmetric] _ tm tid i, of s3 F] tm False ki
          lift_cleared_or_post [OF _ idn n_def [symmetric] len i, of s3 F]
        by auto
      with True False e(3) cs show ?thesis
        unfolding eq sg by (auto simp: n_def intro!: ensures_bind [OF sw])
    next
      case nl: False
      then have "ts = TS_MOVED \<or> ts = TS_STATIONARY \<or> ts = TS_UNKNOWN"
        using e(3) by (auto simp: ts_def is_lift_def TouchEventTypeToTouchState_def)
      then have sw: "ensures (gs_switch F cfg sig e i s2) 
          (\<lambda>(s3, g). (sw_post s2 s3 \<and> state_count (gs_state s3) n) \<and> finger_balance g = 0)"
        by (intro switch_quiet switch_hold [OF si _ idn sc]) (simp_all add: n_def)
      have "gs_ok (gs_settle (gs_state s2) s3) \<and> gs_point_count s3 = n"
        if "sw_post s2 s3" "state_count (gs_state s3) n" for s3
        using settle_ok [OF that(1) len idn n_def [symmetric] that(2) tm tid] that(1) by (simp add: sw_post_def n_def)
      with nl False e(3) cs show ?thesis
        unfolding eq sg by (auto simp: n_def intro!: ensures_bind [OF sw])
    qed
  qed
qed

lemma process_ok:
  assumes ok: "gs_ok s" and e: "touch_ok e s"
  shows "ensures (gs_ProcessTouchEventForGesture F cfg e status s)
    (\<lambda>(s', g). gs_ok s' \<and> gs_point_count s' = gs_point_count s + finger_balance (gestures_of g))"
proof -
  have same: "gs_ok (s\<lparr>gs_last_touch_location := te_location e\<rparr>)"
    using ok by (rule frame_ok [rotated]) (simp add: gs_frame_def gs_ids_def)
  consider "status \<noteq> TOUCH_STATUS_UNKNOWN \<or> te_touch_id e \<ge> 12"
    | "status = TOUCH_STATUS_UNKNOWN" "te_touch_id e < 12" "te_type e = ET_TOUCH_PRESSED" "gs_point_count s = 12"
    | "status = TOUCH_STATUS_UNKNOWN" "te_touch_id e < 12" "te_type e = ET_TOUCH_PRESSED" "gs_point_count s \<noteq> 12"
    | "status = TOUCH_STATUS_UNKNOWN" "te_touch_id e < 12" "te_type e \<noteq> ET_TOUCH_PRESSED"
    by linarith
  then show ?thesis
  proof cases
    case 1
    then show ?thesis using same by (auto simp: gs_ProcessTouchEventForGesture_def kMaxGesturePoints_def Let_def)
  next
    case 2
    then show ?thesis
      using same e by (simp add: gs_ProcessTouchEventForGesture_def kMaxGesturePoints_def touch_ok_def)
  next
    case 3
    then show ?thesis using process_press [OF ok e] by simp
  next
    case 4
    then show ?thesis using process_other [OF ok] e by (simp add: touch_ok_def)
  qed
qed

end
