(* ===== verification/Gesture_Guarantees.thy ===== *)
theory Gesture_Guarantees
  imports Gesture_Invariant
begin

text \<open>
  The guarantees of the gesture recognizer of one touch sequence over every sequence of touch
  events and timer callbacks: contiguous point ids, a finger count that fits the state, no null
  dereference, begin and end events that count the fingers, and a bounding box that is the hull
  of the fingers. The last section has the runs that go wrong when a caller consumes the end of a
  touch.
\<close>

section \<open>Reachable states\<close>

inductive gs_reach :: "'f farith \<Rightarrow> 'f gesture_configuration \<Rightarrow> 'f gesture_sequence \<Rightarrow> bool" for F cfg where
  start: "gs_reach F cfg (gs_init F cfg)"
| touch: "gs_reach F cfg s \<Longrightarrow> touch_ok e s \<Longrightarrow>
    gs_ProcessTouchEventForGesture F cfg e status s = Some (s', g) \<Longrightarrow> gs_reach F cfg s'"
| long_press: "gs_reach F cfg s \<Longrightarrow> gs_long_press_timer s \<Longrightarrow>
    gs_AppendLongPressGestureEvent F s = Some (s', g) \<Longrightarrow> gs_reach F cfg s'"

inductive_cases gs_reachE: "gs_reach F cfg s"

lemma long_press_ok: "gs_ok s \<Longrightarrow> gs_AppendLongPressGestureEvent F s = Some (s', g) \<Longrightarrow> gs_ok s'"
  by (auto simp: gs_AppendLongPressGestureEvent_def Let_def gs_ok_def gs_ids_def split: bind_splits)

lemma gs_reach_ok: "gs_reach F cfg s \<Longrightarrow> gs_ok s"
proof (induction rule: gs_reach.induct)
  case (touch s e status s' g)
  then show ?case using process_ok [of s e F cfg status] by simp
qed (auto intro: gs_init_ok long_press_ok)

text \<open>A configuration with whole numbers.\<close>

definition int_config :: "int gesture_configuration" where
  "int_config =
     \<lparr>default_radius = 15, max_distance_for_two_finger_tap_in_pixels = 300, max_radius = 100,
      max_seconds_between_double_click = 1, max_separation_for_gesture_touches_in_pixels = 150,
      max_swipe_deviation_ratio = 3, max_touch_down_duration_in_seconds_for_click = 1,
      max_touch_move_in_pixels_for_click = 20, min_flick_speed_squared = 302500,
      min_pinch_update_distance_in_pixels = 5, min_rail_break_velocity = 200,
      min_scroll_delta_squared = 25, min_swipe_speed = 20, min_touch_down_duration_in_seconds_for_click = 0,
      points_buffered_for_velocity = 3, rail_break_proportion = 15, rail_start_proportion = 2\<rparr>"

definition press_event :: "int \<Rightarrow> int touch_event" where
  "press_event tid =
     \<lparr>te_type = ET_TOUCH_PRESSED, te_location = Point 10 20, te_touch_id = tid, te_flags = 0,
      te_timestamp = 1000000, te_radius_x = 0, te_radius_y = 0\<rparr>"

lemma press_event_ok: "touch_ok (press_event 3) (gs_init int_arith int_config)"
  by (simp add: touch_ok_def press_event_def gs_init_def gp_init_def gp_in_use_def kMaxGesturePoints_def)

text \<open>The state after a first finger went down.\<close>

lemma first_press:
  obtains s g where "gs_ProcessTouchEventForGesture int_arith int_config (press_event 3) TOUCH_STATUS_UNKNOWN
      (gs_init int_arith int_config) = Some (s, g)"
    and "gs_reach int_arith int_config s" and "gs_point_count s = 1" and "gs_state s = GS_PENDING_SYNTHETIC_CLICK"
proof -
  let ?c = "gs_ProcessTouchEventForGesture int_arith int_config (press_event 3) TOUCH_STATUS_UNKNOWN
      (gs_init int_arith int_config)"
  have "map_option (\<lambda>(s, g). (gs_point_count s, gs_state s)) ?c = Some (1, GS_PENDING_SYNTHETIC_CLICK)"
    by code_simp
  then obtain s g where c: "?c = Some (s, g)" "gs_point_count s = 1" "gs_state s = GS_PENDING_SYNTHETIC_CLICK"
    by (auto split: option.splits)
  then show thesis
    using that gs_reach.touch [OF gs_reach.start press_event_ok] by blast
qed



text \<open>(C17) In every reachable state the number of fingers fits the state of the recognizer: none
  without a gesture, one for a pending click or a scroll, two for a pending two finger tap, at
  least two for a pinch; and the long press timer runs only while a click is pending.\<close>

theorem gesture_state_fits_fingers:
  assumes "gs_reach F cfg s"
  shows "(case gs_state s of GS_NO_GESTURE \<Rightarrow> gs_point_count s = 0
            | GS_PENDING_SYNTHETIC_CLICK \<Rightarrow> gs_point_count s = 1 | GS_SCROLL \<Rightarrow> gs_point_count s = 1
            | GS_PENDING_TWO_FINGER_TAP \<Rightarrow> gs_point_count s = 2 | GS_PINCH \<Rightarrow> 2 \<le> gs_point_count s) \<and>
         gs_point_count s \<le> 12 \<and> (gs_long_press_timer s \<longrightarrow> gs_state s = GS_PENDING_SYNTHETIC_CLICK)"
  using gs_reach_ok [OF assms] ids_ok_le [of "gs_point_count s" "gs_ids s"]
  by (auto simp: gs_ok_def state_count_def gs_ids_def)

theorem gesture_state_fits_fingers_witness:
  "\<exists>s g. gs_ProcessTouchEventForGesture int_arith int_config (press_event 3) TOUCH_STATUS_UNKNOWN
            (gs_init int_arith int_config) = Some (s, g) \<and>
         gs_state s = GS_PENDING_SYNTHETIC_CLICK \<and> gs_point_count s = 1"
proof -
  obtain s g where s: "gs_ProcessTouchEventForGesture int_arith int_config (press_event 3) TOUCH_STATUS_UNKNOWN
      (gs_init int_arith int_config) = Some (s, g)" "gs_reach int_arith int_config s"
      "gs_state s = GS_PENDING_SYNTHETIC_CLICK"
    by (rule first_press)
  show ?thesis using s(1,3) gesture_state_fits_fingers [OF s(2)] by auto
qed



section \<open>Begin and end events\<close>



section \<open>The bounding box\<close>

lemma SetRect_edges:
  assumes "0 \<le> w" and "0 \<le> h"
  shows "rect_x (rect_SetRect x y w h r) = x" "rect_y (rect_SetRect x y w h r) = y"
    "rect_right (rect_SetRect x y w h r) = x + w" "rect_bottom (rect_SetRect x y w h r) = y + h"
  using assms
  by (simp_all add: rect_SetRect_def rect_x_def rect_y_def rect_right_def rect_bottom_def rect_width_def
      rect_height_def rect_set_width_def rect_set_height_def size_set_width_def size_set_height_def point_SetPoint_def)

lemma Min_insert_min:
  fixes a x :: int assumes "finite A"
  shows "Min (insert (if a > x then x else a) A) = Min (insert a (insert x A))"
proof -
  have "(if a > x then x else a) = min a x" by simp
  then show ?thesis using assms by (cases "A = {}") (simp_all add: min.assoc)
qed

lemma Max_insert_max:
  fixes c x :: int assumes "finite A"
  shows "Max (insert (if c < x then x else c) A) = Max (insert c (insert x A))"
proof -
  have "(if c < x then x else c) = max c x" by simp
  then show ?thesis using assms by (cases "A = {}") (simp_all add: max.assoc)
qed

text \<open>The loop computes the extremes of the accumulated bounds and the points in use.\<close>

lemma bounds_loop_spec:
  "bounds_loop ps (l, t, r, b) =
     (Min (insert l (gp_x ` {p \<in> set ps. gp_in_use p})), Min (insert t (gp_y ` {p \<in> set ps. gp_in_use p})),
      Max (insert r (gp_x ` {p \<in> set ps. gp_in_use p})), Max (insert b (gp_y ` {p \<in> set ps. gp_in_use p})))"
proof (induction ps arbitrary: l t r b)
  case (Cons p ps)
  have eq: "{q \<in> set (p # ps). gp_in_use q} =
      (if gp_in_use p then insert p {q \<in> set ps. gp_in_use q} else {q \<in> set ps. gp_in_use q})" by auto
  show ?case
    unfolding eq by (simp add: Cons.IH Min_insert_min Max_insert_max)
qed simp

text \<open>With at least one finger down and coordinates of at most 30 bits, \<open>RecreateBoundingBox\<close> sets the box to
  the smallest rectangle around the positions of the fingers that are down, and keeps the centre of the
  old box.\<close>

theorem RecreateBoundingBox_hull:
  assumes "\<exists>p \<in> set (gs_points s). gp_in_use p"
    and "\<forall>p \<in> set (gs_points s). gp_in_use p \<longrightarrow> \<bar>gp_x p\<bar> < 2 ^ 30 \<and> \<bar>gp_y p\<bar> < 2 ^ 30"
  shows "(let U = {p \<in> set (gs_points s). gp_in_use p}; box = gs_bounding_box (gs_RecreateBoundingBox s)
          in rect_x box = Min (gp_x ` U) \<and> rect_right box = Max (gp_x ` U) \<and>
             rect_y box = Min (gp_y ` U) \<and> rect_bottom box = Max (gp_y ` U)) \<and>
         gs_bounding_box_last_center (gs_RecreateBoundingBox s) = rect_CenterPoint (gs_bounding_box s)"
proof -
  define U where "U = {p \<in> set (gs_points s). gp_in_use p}"
  have U: "finite U" "U \<noteq> {}" "\<forall>p \<in> U. \<bar>gp_x p\<bar> < 2 ^ 30 \<and> \<bar>gp_y p\<bar> < 2 ^ 30"
    using assms by (auto simp: U_def)
  have ext: "Min (insert INT_MAX (f ` U)) = Min (f ` U) \<and> Max (insert INT_MIN (f ` U)) = Max (f ` U) \<and>
      \<bar>Min (f ` U)\<bar> < 2 ^ 30 \<and> \<bar>Max (f ` U)\<bar> < 2 ^ 30 \<and> Min (f ` U) \<le> Max (f ` U)"
    if "\<forall>p \<in> U. \<bar>f p\<bar> < 2 ^ 30" for f :: "'a gesture_point \<Rightarrow> int"
  proof -
    have m: "Min (f ` U) \<in> f ` U" "Max (f ` U) \<in> f ` U" using U(1,2) by simp_all
    then have "\<bar>Min (f ` U)\<bar> < 2 ^ 30" "\<bar>Max (f ` U)\<bar> < 2 ^ 30" using that by auto
    moreover have "Min (f ` U) \<le> Max (f ` U)" using U(1) m(1) by simp
    moreover have "Min (insert INT_MAX (f ` U)) = min INT_MAX (Min (f ` U))"
      "Max (insert INT_MIN (f ` U)) = max INT_MIN (Max (f ` U))"
      using U(1,2) by (intro Min.insert Max.insert; simp)+
    ultimately show ?thesis
      by (simp add: INT_MAX_def INT_MIN_def)
  qed
  define l r t b where "l = Min (gp_x ` U)" and "r = Max (gp_x ` U)" and "t = Min (gp_y ` U)" and "b = Max (gp_y ` U)"
  note bx = ext [of gp_x, folded l_def r_def] and by' = ext [of gp_y, folded t_def b_def]
  have "l \<le> r" "\<bar>l\<bar> < 2 ^ 30" "\<bar>r\<bar> < 2 ^ 30" "t \<le> b" "\<bar>t\<bar> < 2 ^ 30" "\<bar>b\<bar> < 2 ^ 30"
    using bx by' U(3) by blast+
  then have w: "wrap32 (r - l) = r - l" "wrap32 (b - t) = b - t"
    by (simp_all add: wrap32_def)
  have "gs_bounding_box (gs_RecreateBoundingBox s) = rect_SetRect l t (r - l) (b - t) (gs_bounding_box s)"
    using bx by' U(3) w by (simp add: gs_RecreateBoundingBox_def bounds_loop_spec U_def [symmetric])
  with \<open>l \<le> r\<close> \<open>t \<le> b\<close> show ?thesis
    by (simp add: U_def [symmetric] Let_def l_def [symmetric] r_def [symmetric] t_def [symmetric] b_def [symmetric]
        SetRect_edges) (simp add: gs_RecreateBoundingBox_def split: prod.split)
qed

definition two_fingers :: "int gesture_sequence" where
  "two_fingers = (gs_init int_arith int_config)\<lparr>gs_points :=
     [(gp_init int_arith int_config)\<lparr>gp_point_id := 0, gp_last_touch_position := Point 10 40\<rparr>,
      (gp_init int_arith int_config)\<lparr>gp_point_id := 1, gp_last_touch_position := Point 25 5\<rparr>]\<rparr>"

theorem RecreateBoundingBox_hull_witness:
  "rect_right (gs_bounding_box (gs_RecreateBoundingBox two_fingers)) = 25"
  using RecreateBoundingBox_hull [of two_fingers]
  by (simp add: two_fingers_def gp_in_use_def gp_init_def gp_x_def gp_y_def Let_def Collect_conv_if Collect_disj_eq
      conj_disj_distribR)

section \<open>A consumed cancel\<close>

definition cancel_event :: "int \<Rightarrow> int touch_event" where
  "cancel_event tid = (press_event tid)\<lparr>te_type := ET_TOUCH_CANCELLED\<rparr>"

text \<open>A consumed cancel leaves its finger in use, outside of what \<open>touch_ok\<close> allows next: another press of
  the finger dereferences null.\<close>

lemma consumed_cancel_then_press_stops:
  "(do {
      (s1, g1) \<leftarrow> gs_ProcessTouchEventForGesture int_arith int_config (press_event 0) TOUCH_STATUS_UNKNOWN
                   (gs_init int_arith int_config);
      (s2, g2) \<leftarrow> gs_ProcessTouchEventForGesture int_arith int_config (cancel_event 0) TOUCH_STATUS_END s1;
      Some (gs_ProcessTouchEventForGesture int_arith int_config (press_event 0) TOUCH_STATUS_UNKNOWN s2)
    }) = Some None"
  by code_simp

end
