(* ===== verification/Std_Map.thy ===== *)
theory Std_Map
  imports UI_Prelude "HOL-Library.RBT" "HOL-Library.Option_ord"
begin

text \<open>
  \<open>std::map\<close> as the recognizer and the caches use it: a search tree read in key order. What the
  components share: \<open>operator[]\<close>, which inserts a default value for an absent key, erasing the entries
  that fulfil a predicate, and the list of keys.
\<close>

definition map_index :: "'v \<Rightarrow> 'k :: linorder \<Rightarrow> ('k, 'v) rbt \<Rightarrow> 'v \<times> ('k, 'v) rbt" where
  "map_index d k m = (case RBT.lookup m k of Some v \<Rightarrow> (v, m) | None \<Rightarrow> (d, RBT.insert k d m))"

lemma map_index_result [simp]:
  "fst (map_index d k m) = (case RBT.lookup m k of Some v \<Rightarrow> v | None \<Rightarrow> d)"
  "RBT.lookup (snd (map_index d k m)) = (RBT.lookup m)(k \<mapsto> fst (map_index d k m))"
  by (auto simp: map_index_def split: option.splits)

text \<open>The loop \<open>if (pred) map->erase(i++); else ++i;\<close>.\<close>

fun erase_loop :: "('v \<Rightarrow> bool) \<Rightarrow> ('k :: linorder \<times> 'v) list \<Rightarrow> ('k, 'v) rbt \<Rightarrow> ('k, 'v) rbt" where
  "erase_loop P [] m = m"
| "erase_loop P ((k, v) # es) m = erase_loop P es (if P v then RBT.delete k m else m)"

lemma erase_loop_lookup:
  "distinct (map fst es) \<Longrightarrow>
   RBT.lookup (erase_loop P es m) k =
     (case map_of es k of Some v \<Rightarrow> if P v then None else RBT.lookup m k | None \<Rightarrow> RBT.lookup m k)"
proof (induction P es m rule: erase_loop.induct)
  case (2 P k' v es m)
  have "map_of es k' = None" using "2.prems" by (simp add: map_of_eq_None_iff)
  then show ?case using 2 by (auto split: option.splits)
qed simp

definition map_erase_if :: "('v \<Rightarrow> bool) \<Rightarrow> ('k :: linorder, 'v) rbt \<Rightarrow> ('k, 'v) rbt" where
  "map_erase_if P m = erase_loop P (RBT.entries m) m"

lemma map_erase_if_lookup [simp]:
  "RBT.lookup (map_erase_if P m) k = (case RBT.lookup m k of Some v \<Rightarrow> if P v then None else Some v | None \<Rightarrow> None)"
  by (simp add: map_erase_if_def erase_loop_lookup RBT.distinct_entries split: option.splits)

lemma keys_lookup: "set (RBT.keys m) = dom (RBT.lookup m)"
  by (simp add: RBT.lookup_keys)

end
