(* ===== verification/Gesture_Recognizer.thy ===== *)
theory Gesture_Recognizer
  imports Gesture_Guarantees Std_Map
begin

text \<open>
  \<open>GestureRecognizerImpl\<close> (\<open>src/ui/base/gestures/gesture_recognizer_impl.cc\<close>): the dispatcher that owns one
  gesture sequence and one queue of touch events for each consumer, remembers which consumer a finger
  is locked to, and moves fingers between consumers when a window captures the touches.

  A consumer is an element of an ordered type (the pointers that key the maps), \<open>None\<close> is \<open>NULL\<close>. The
  interface \<open>GestureEventHelper\<close>, which creates and dispatches touch events, is a record of functions.
\<close>

section \<open>State\<close>

record (overloaded) ('c :: linorder, 'f) gesture_recognizer =
  gr_event_queue :: "('c option, 'f touch_event list option) rbt"
  gr_consumer_sequence :: "('c option, 'f gesture_sequence) rbt"
  gr_touch_id_target :: "(int, 'c option) rbt"
  gr_touch_id_target_for_gestures :: "(int, 'c option) rbt"
  gr_ignorer :: 'c

record (overloaded) ('c :: linorder, 'f) gesture_helper =
  CreateTouchEvent :: "EventType \<Rightarrow> point \<Rightarrow> int \<Rightarrow> int \<Rightarrow> 'f touch_event"
  DispatchCancelTouchEvent ::
    "'f touch_event \<Rightarrow> ('c, 'f) gesture_recognizer \<Rightarrow> ('c, 'f) gesture_recognizer option"

definition gr_init :: "'c :: linorder \<Rightarrow> ('c, 'f) gesture_recognizer" where
  "gr_init ignorer =
     \<lparr>gr_event_queue = RBT.empty, gr_consumer_sequence = RBT.empty, gr_touch_id_target = RBT.empty,
      gr_touch_id_target_for_gestures = RBT.empty, gr_ignorer = ignorer\<rparr>"

definition CancelledTouchEvent :: "'f touch_event \<Rightarrow> 'f touch_event" where
  "CancelledTouchEvent e = e\<lparr>te_type := ET_TOUCH_CANCELLED\<rparr>"

section \<open>Maps\<close>

definition TransferConsumer :: "'c option \<Rightarrow> 'c option \<Rightarrow> ('c :: linorder option, 't) rbt \<Rightarrow> ('c option, 't) rbt" where
  "TransferConsumer current_consumer new_consumer m =
     (case RBT.lookup m current_consumer of None \<Rightarrow> m
      | Some v \<Rightarrow> RBT.delete current_consumer (RBT.insert new_consumer v m))"

definition RemoveConsumerFromMap :: "'c option \<Rightarrow> (int, 'c option) rbt \<Rightarrow> (int, 'c option) rbt" where
  "RemoveConsumerFromMap consumer m = map_erase_if (\<lambda>v. v = consumer) m"

definition TransferTouchIdToConsumerMap :: "'c option \<Rightarrow> 'c option \<Rightarrow> (int, 'c option) rbt \<Rightarrow> (int, 'c option) rbt" where
  "TransferTouchIdToConsumerMap old_consumer new_consumer m =
     RBT.map (\<lambda>_ v. if v = old_consumer then new_consumer else v) m"

section \<open>Targets\<close>

definition gr_GetTouchLockedTarget ::
  "'f touch_event \<Rightarrow> ('c :: linorder, 'f) gesture_recognizer \<Rightarrow> 'c option \<times> ('c, 'f) gesture_recognizer" where
  "gr_GetTouchLockedTarget e g =
     (let (t, m) = map_index None (te_touch_id e) (gr_touch_id_target g) in (t, g\<lparr>gr_touch_id_target := m\<rparr>))"

text \<open>The argument is the lowest touch id of the gesture event.\<close>

definition gr_GetTargetForGestureEvent ::
  "int \<Rightarrow> ('c :: linorder, 'f) gesture_recognizer \<Rightarrow> 'c option \<times> ('c, 'f) gesture_recognizer" where
  "gr_GetTargetForGestureEvent touch_id g =
     (let (t, m) = map_index None touch_id (gr_touch_id_target_for_gestures g)
      in (t, g\<lparr>gr_touch_id_target_for_gestures := m\<rparr>))"

text \<open>The search for the closest finger, over the points of every sequence; the result is the touch id
  of the closest one and its squared distance.\<close>

definition distance_squared :: "point \<Rightarrow> 'f gesture_point \<Rightarrow> int" where
  "distance_squared location p =
     (let delta = point_Subtract (gp_last_touch_position p) location
      in wrap32 (wrap32 (pt_x delta * pt_x delta) + wrap32 (pt_y delta * pt_y delta)))"

fun closest_loop :: "point \<Rightarrow> 'f gesture_point list \<Rightarrow> (int \<times> int) option \<Rightarrow> (int \<times> int) option" where
  "closest_loop location [] closest = closest"
| "closest_loop location (p # ps) closest =
     (if \<not> gp_in_use p then closest_loop location ps closest
      else let distance = distance_squared location p
           in closest_loop location ps
                (case closest of None \<Rightarrow> Some (gp_touch_id p, distance)
                 | Some (t, d) \<Rightarrow> if distance < d then Some (gp_touch_id p, distance) else closest))"

fun closest_sequence :: "point \<Rightarrow> 'f gesture_sequence list \<Rightarrow> (int \<times> int) option \<Rightarrow> (int \<times> int) option" where
  "closest_sequence location [] closest = closest"
| "closest_sequence location (s # ss) closest =
     closest_sequence location ss (closest_loop location (gs_points s) closest)"

definition gr_GetTargetForLocation ::
  "'f gesture_configuration \<Rightarrow> point \<Rightarrow> ('c :: linorder, 'f) gesture_recognizer \<Rightarrow>
   'c option \<times> ('c, 'f) gesture_recognizer" where
  "gr_GetTargetForLocation cfg location g =
     (let max_distance = max_separation_for_gesture_touches_in_pixels cfg
      in case closest_sequence location (map snd (RBT.entries (gr_consumer_sequence g))) None of
           None \<Rightarrow> (None, g)
         | Some (tid, d) \<Rightarrow>
             if d < wrap32 (max_distance * max_distance)
             then let (t, m) = map_index None tid (gr_touch_id_target g) in (t, g\<lparr>gr_touch_id_target := m\<rparr>)
             else (None, g))"

section \<open>Capture\<close>

text \<open>The loop over the fingers; the iterator is invalid when a dispatch erased the entry.\<close>

fun cancel_loop ::
  "('c :: linorder, 'f) gesture_helper \<Rightarrow> int \<Rightarrow> 'c option \<Rightarrow> 'c option \<Rightarrow> int list \<Rightarrow> ('c, 'f) gesture_recognizer \<Rightarrow>
   ('c, 'f) gesture_recognizer option" where
  "cancel_loop h now current_consumer new_consumer [] g = Some g"
| "cancel_loop h now current_consumer new_consumer (i # is) g = do {
     second \<leftarrow> RBT.lookup (gr_touch_id_target g) i;
     g1 \<leftarrow>
       (if second \<noteq> new_consumer \<and> (second \<noteq> current_consumer \<or> new_consumer = None) \<and>
           second \<noteq> Some (gr_ignorer g)
        then do {
          g' \<leftarrow> DispatchCancelTouchEvent h (CreateTouchEvent h ET_TOUCH_CANCELLED (Point 0 0) i now) g;
          _ \<leftarrow> RBT.lookup (gr_touch_id_target g') i;
          Some (g'\<lparr>gr_touch_id_target := RBT.insert i (Some (gr_ignorer g')) (gr_touch_id_target g')\<rparr>)
        }
        else Some g);
     cancel_loop h now current_consumer new_consumer is g1
   }"

definition gr_TransferEventsTo ::
  "('c :: linorder, 'f) gesture_helper \<Rightarrow> int \<Rightarrow> 'c option \<Rightarrow> 'c option \<Rightarrow> ('c, 'f) gesture_recognizer \<Rightarrow>
   ('c, 'f) gesture_recognizer option" where
  "gr_TransferEventsTo h now current_consumer new_consumer g =
     map_option
       (\<lambda>g1. if current_consumer \<noteq> None \<and> new_consumer \<noteq> None
             then g1\<lparr>gr_touch_id_target :=
                       TransferTouchIdToConsumerMap current_consumer new_consumer (gr_touch_id_target g1),
                     gr_touch_id_target_for_gestures :=
                       TransferTouchIdToConsumerMap current_consumer new_consumer (gr_touch_id_target_for_gestures g1),
                     gr_event_queue := TransferConsumer current_consumer new_consumer (gr_event_queue g1),
                     gr_consumer_sequence := TransferConsumer current_consumer new_consumer (gr_consumer_sequence g1)\<rparr>
             else g1)
       (cancel_loop h now current_consumer new_consumer (RBT.keys (gr_touch_id_target g)) g)"

definition gr_GetLastTouchPointForTarget :: "'c :: linorder option \<Rightarrow> ('c, 'f) gesture_recognizer \<Rightarrow> point option" where
  "gr_GetLastTouchPointForTarget consumer g =
     map_option gs_last_touch_location (RBT.lookup (gr_consumer_sequence g) consumer)"

section \<open>Touch events\<close>

definition gr_GetGestureSequenceForConsumer ::
  "'f farith \<Rightarrow> 'f gesture_configuration \<Rightarrow> 'c :: linorder option \<Rightarrow> ('c, 'f) gesture_recognizer \<Rightarrow>
   'f gesture_sequence \<times> ('c, 'f) gesture_recognizer" where
  "gr_GetGestureSequenceForConsumer F cfg consumer g =
     (case RBT.lookup (gr_consumer_sequence g) consumer of
        Some s \<Rightarrow> (s, g)
      | None \<Rightarrow> (gs_init F cfg,
                 g\<lparr>gr_consumer_sequence := RBT.insert consumer (gs_init F cfg) (gr_consumer_sequence g)\<rparr>))"

text \<open>A call of \<open>gesture_sequence->ProcessTouchEventForGesture(event, status)\<close> on the sequence of a consumer.\<close>

definition run_sequence ::
  "'f farith \<Rightarrow> 'f gesture_configuration \<Rightarrow> 'c :: linorder option \<Rightarrow> 'f touch_event \<Rightarrow> TouchStatus \<Rightarrow>
   ('c, 'f) gesture_recognizer \<Rightarrow> (('c, 'f) gesture_recognizer \<times> 'f gesture list option) option" where
  "run_sequence F cfg consumer e status g =
     (let (s, g1) = gr_GetGestureSequenceForConsumer F cfg consumer g
      in map_option (\<lambda>(s', gs). (g1\<lparr>gr_consumer_sequence := RBT.insert consumer s' (gr_consumer_sequence g1)\<rparr>, gs))
           (gs_ProcessTouchEventForGesture F cfg e status s))"

definition gr_ProcessTouchEventForGesture ::
  "'f farith \<Rightarrow> 'f gesture_configuration \<Rightarrow> 'f touch_event \<Rightarrow> TouchStatus \<Rightarrow> 'c :: linorder option \<Rightarrow>
   ('c, 'f) gesture_recognizer \<Rightarrow> (('c, 'f) gesture_recognizer \<times> 'f gesture list option) option" where
  "gr_ProcessTouchEventForGesture F cfg e status target g =
     (let tid = te_touch_id e;
          g1 = (if is_lift e then g\<lparr>gr_touch_id_target := RBT.insert tid None (gr_touch_id_target g)\<rparr>
                else let g0 = g\<lparr>gr_touch_id_target := RBT.insert tid target (gr_touch_id_target g)\<rparr>
                     in if target \<noteq> None
                        then g0\<lparr>gr_touch_id_target_for_gestures :=
                                  RBT.insert tid target (gr_touch_id_target_for_gestures g0)\<rparr>
                        else g0)
      in run_sequence F cfg target e status g1)"

definition gr_QueueTouchEventForGesture ::
  "'c :: linorder option \<Rightarrow> 'f touch_event \<Rightarrow> ('c, 'f) gesture_recognizer \<Rightarrow> ('c, 'f) gesture_recognizer" where
  "gr_QueueTouchEventForGesture consumer e g =
     (let q = (case fst (map_index None consumer (gr_event_queue g)) of None \<Rightarrow> [] | Some q \<Rightarrow> q)
      in g\<lparr>gr_event_queue := RBT.insert consumer (Some (q @ [e])) (gr_event_queue g)\<rparr>)"

definition gr_AdvanceTouchQueue ::
  "'f farith \<Rightarrow> 'f gesture_configuration \<Rightarrow> 'c :: linorder option \<Rightarrow> bool \<Rightarrow>
   ('c, 'f) gesture_recognizer \<Rightarrow> (('c, 'f) gesture_recognizer \<times> 'f gesture list option) option" where
  "gr_AdvanceTouchQueue F cfg consumer processed g =
     (let (q, m) = map_index None consumer (gr_event_queue g); g0 = g\<lparr>gr_event_queue := m\<rparr>
      in case q of
           None \<Rightarrow> Some (g0, None)
         | Some [] \<Rightarrow> Some (g0, None)
         | Some (e # es) \<Rightarrow>
             map_option
               (\<lambda>(g1, gs). (g1\<lparr>gr_event_queue := RBT.insert consumer (Some es) (gr_event_queue g1)\<rparr>, gs))
               (if processed \<and> te_type e = ET_TOUCH_RELEASED
                then run_sequence F cfg consumer (CancelledTouchEvent e) TOUCH_STATUS_UNKNOWN g0
                else run_sequence F cfg consumer e
                       (if processed then TOUCH_STATUS_CONTINUE else TOUCH_STATUS_UNKNOWN) g0))"

definition gr_FlushTouchQueue :: "'c :: linorder option \<Rightarrow> ('c, 'f) gesture_recognizer \<Rightarrow> ('c, 'f) gesture_recognizer" where
  "gr_FlushTouchQueue consumer g =
     g\<lparr>gr_consumer_sequence := RBT.delete consumer (gr_consumer_sequence g),
       gr_event_queue := RBT.delete consumer (gr_event_queue g),
       gr_touch_id_target := RemoveConsumerFromMap consumer (gr_touch_id_target g),
       gr_touch_id_target_for_gestures := RemoveConsumerFromMap consumer (gr_touch_id_target_for_gestures g)\<rparr>"

end
