(* ===== verification/Gesture_Dispatch.thy ===== *)
theory Gesture_Dispatch
  imports Gesture_Recognizer
begin

text \<open>
  The guarantees of the gesture dispatcher: every sequence it owns stays reachable in the sense of
  \<open>Gesture_Guarantees\<close>, so the guarantees of one sequence carry over to all consumers; queued events are
  delivered in order; a capture routes every finger to the new consumer or to the ignorer; a touch near
  a finger goes to the target of the closest one.
\<close>

section \<open>Sequences of the consumers\<close>

definition sequence_of :: "'f farith \<Rightarrow> 'f gesture_configuration \<Rightarrow> 'c :: linorder option \<Rightarrow> ('c, 'f) gesture_recognizer \<Rightarrow> 'f gesture_sequence" where
  "sequence_of F cfg c g = (case RBT.lookup (gr_consumer_sequence g) c of Some s \<Rightarrow> s | None \<Rightarrow> gs_init F cfg)"

lemma run_sequence_eq:
  "run_sequence F cfg c e st g =
     map_option
       (\<lambda>(s', gs). (g\<lparr>gr_consumer_sequence := RBT.insert c s' (snd (map_index (gs_init F cfg) c (gr_consumer_sequence g)))\<rparr>, gs))
       (gs_ProcessTouchEventForGesture F cfg e st (sequence_of F cfg c g))"
  by (cases "RBT.lookup (gr_consumer_sequence g) c")
    (simp_all add: run_sequence_def gr_GetGestureSequenceForConsumer_def sequence_of_def map_index_def)

lemma sequence_of_simps [simp]:
  "sequence_of F cfg c (g\<lparr>gr_event_queue := q\<rparr>) = sequence_of F cfg c g"
  "sequence_of F cfg c (g\<lparr>gr_touch_id_target := m\<rparr>) = sequence_of F cfg c g"
  "sequence_of F cfg c (g\<lparr>gr_touch_id_target_for_gestures := m\<rparr>) = sequence_of F cfg c g"
  by (simp_all add: sequence_of_def)

text \<open>A call on the sequence of a consumer changes that sequence only.\<close>

lemma run_sequence_Some:
  assumes "run_sequence F cfg c e st g = Some (g', gs)"
  shows "gs_ProcessTouchEventForGesture F cfg e st (sequence_of F cfg c g) = Some (sequence_of F cfg c g', gs)"
    and "RBT.lookup (gr_consumer_sequence g') = (RBT.lookup (gr_consumer_sequence g))(c \<mapsto> sequence_of F cfg c g')"
    and "gr_event_queue g' = gr_event_queue g" and "gr_touch_id_target g' = gr_touch_id_target g"
  using assms by (auto simp: run_sequence_eq sequence_of_def)

lemma run_sequence_None:
  "run_sequence F cfg c e st g = None \<longleftrightarrow> gs_ProcessTouchEventForGesture F cfg e st (sequence_of F cfg c g) = None"
  by (simp add: run_sequence_eq)

section \<open>Reachable dispatchers\<close>

definition sequences_ok :: "'f farith \<Rightarrow> 'f gesture_configuration \<Rightarrow> ('c :: linorder, 'f) gesture_recognizer \<Rightarrow> bool" where
  "sequences_ok F cfg g \<longleftrightarrow> (\<forall>c s. RBT.lookup (gr_consumer_sequence g) c = Some s \<longrightarrow> gs_reach F cfg s)"

text \<open>The event and status that advancing the queue hands to the sequence.\<close>

definition delivered :: "bool \<Rightarrow> 'f touch_event \<Rightarrow> 'f touch_event \<times> TouchStatus" where
  "delivered processed e =
     (if processed \<and> te_type e = ET_TOUCH_RELEASED then (CancelledTouchEvent e, TOUCH_STATUS_UNKNOWN)
      else (e, if processed then TOUCH_STATUS_CONTINUE else TOUCH_STATUS_UNKNOWN))"

definition queue_of :: "'c :: linorder option \<Rightarrow> ('c, 'f) gesture_recognizer \<Rightarrow> 'f touch_event list" where
  "queue_of c g = (case RBT.lookup (gr_event_queue g) c of Some (Some q) \<Rightarrow> q | _ \<Rightarrow> [])"

text \<open>Dispatching a cancelled touch leads to further calls of the recognizer, which keep the sequences.\<close>

definition helper_ok :: "'f farith \<Rightarrow> 'f gesture_configuration \<Rightarrow> ('c :: linorder, 'f) gesture_helper \<Rightarrow> bool" where
  "helper_ok F cfg h \<longleftrightarrow>
     (\<forall>e g g'. sequences_ok F cfg g \<and> DispatchCancelTouchEvent h e g = Some g' \<longrightarrow> sequences_ok F cfg g')"

inductive gr_reach :: "'f farith \<Rightarrow> 'f gesture_configuration \<Rightarrow> ('c :: linorder, 'f) gesture_recognizer \<Rightarrow> bool"
  for F cfg where
  start: "gr_reach F cfg (gr_init ignorer)"
| touch: "gr_reach F cfg g \<Longrightarrow> touch_ok e (sequence_of F cfg target g) \<Longrightarrow>
    gr_ProcessTouchEventForGesture F cfg e status target g = Some (g', gs) \<Longrightarrow> gr_reach F cfg g'"
| queue: "gr_reach F cfg g \<Longrightarrow> gr_reach F cfg (gr_QueueTouchEventForGesture c e g)"
| advance: "gr_reach F cfg g \<Longrightarrow>
    (\<forall>e es. queue_of c g = e # es \<longrightarrow> touch_ok (fst (delivered processed e)) (sequence_of F cfg c g)) \<Longrightarrow>
    gr_AdvanceTouchQueue F cfg c processed g = Some (g', gs) \<Longrightarrow> gr_reach F cfg g'"
| flush: "gr_reach F cfg g \<Longrightarrow> gr_reach F cfg (gr_FlushTouchQueue c g)"
| transfer: "gr_reach F cfg g \<Longrightarrow> helper_ok F cfg h \<Longrightarrow>
    gr_TransferEventsTo h now current_consumer new_consumer g = Some g' \<Longrightarrow> gr_reach F cfg g'"
| long_press: "gr_reach F cfg g \<Longrightarrow> RBT.lookup (gr_consumer_sequence g) c = Some s \<Longrightarrow> gs_long_press_timer s \<Longrightarrow>
    gs_AppendLongPressGestureEvent F s = Some (s', ge) \<Longrightarrow>
    gr_reach F cfg (g\<lparr>gr_consumer_sequence := RBT.insert c s' (gr_consumer_sequence g)\<rparr>)"
| locked: "gr_reach F cfg g \<Longrightarrow> gr_reach F cfg (snd (gr_GetTouchLockedTarget e g))"
| gesture_target: "gr_reach F cfg g \<Longrightarrow> gr_reach F cfg (snd (gr_GetTargetForGestureEvent touch_id g))"
| location: "gr_reach F cfg g \<Longrightarrow> gr_reach F cfg (snd (gr_GetTargetForLocation cfg loc g))"

lemma sequence_of_reach: "sequences_ok F cfg g \<Longrightarrow> gs_reach F cfg (sequence_of F cfg c g)"
  by (auto simp: sequences_ok_def sequence_of_def intro: gs_reach.start split: option.splits)

lemma run_sequence_ok:
  assumes "sequences_ok F cfg g" and "touch_ok e (sequence_of F cfg c g)" and "run_sequence F cfg c e st g = Some (g', gs)"
  shows "sequences_ok F cfg g'"
proof -
  note r = run_sequence_Some [OF assms(3)]
  have "gs_reach F cfg (sequence_of F cfg c g')"
    using gs_reach.touch [OF sequence_of_reach [OF assms(1)] assms(2) r(1)] .
  then show ?thesis using assms(1) r(2) by (auto simp: sequences_ok_def split: if_splits)
qed

lemma sequences_ok_simps [simp]:
  "sequences_ok F cfg (g\<lparr>gr_event_queue := q\<rparr>) = sequences_ok F cfg g"
  "sequences_ok F cfg (g\<lparr>gr_touch_id_target := m\<rparr>) = sequences_ok F cfg g"
  "sequences_ok F cfg (g\<lparr>gr_touch_id_target_for_gestures := m\<rparr>) = sequences_ok F cfg g"
  by (simp_all add: sequences_ok_def)

lemma helper_okD: "helper_ok F cfg h \<Longrightarrow> sequences_ok F cfg g \<Longrightarrow> DispatchCancelTouchEvent h e g = Some g' \<Longrightarrow> sequences_ok F cfg g'"
  unfolding helper_ok_def by blast

lemma cancel_loop_ok:
  "helper_ok F cfg h \<Longrightarrow> sequences_ok F cfg g \<Longrightarrow> cancel_loop h now a b is g = Some g' \<Longrightarrow> sequences_ok F cfg g'"
proof (induction "is" arbitrary: g)
  case (Cons i "is")
  from Cons.prems(3) obtain g1 where g1: "cancel_loop h now a b is g1 = Some g'" "sequences_ok F cfg g1"
    using Cons.prems(2) helper_okD [OF Cons.prems(1,2)] by (fastforce split: bind_splits if_splits)
  from Cons.IH [OF Cons.prems(1) g1(2,1)] show ?case .
qed simp

lemma TransferConsumer_lookup:
  "RBT.lookup (TransferConsumer a b m) =
     (case RBT.lookup m a of None \<Rightarrow> RBT.lookup m | Some v \<Rightarrow> ((RBT.lookup m)(b \<mapsto> v))(a := None))"
  by (simp add: TransferConsumer_def split: option.split)

lemma advance_cases:
  "gr_AdvanceTouchQueue F cfg c processed g =
     (case queue_of c g of
        [] \<Rightarrow> Some (g\<lparr>gr_event_queue := snd (map_index None c (gr_event_queue g))\<rparr>, None)
      | e # es \<Rightarrow>
          map_option (\<lambda>(g1, gs). (g1\<lparr>gr_event_queue := RBT.insert c (Some es) (gr_event_queue g1)\<rparr>, gs))
            (run_sequence F cfg c (fst (delivered processed e)) (snd (delivered processed e)) g))"
  by (auto simp: gr_AdvanceTouchQueue_def queue_of_def map_index_def delivered_def split: option.splits list.splits)

text \<open>Processing an event records the target of its finger and runs the sequence of the target.\<close>

lemma process_eq_run:
  obtains m where
    "gr_ProcessTouchEventForGesture F cfg e status target g =
       run_sequence F cfg target e status
         (g\<lparr>gr_touch_id_target := RBT.insert (te_touch_id e) (if is_lift e then None else target) (gr_touch_id_target g),
            gr_touch_id_target_for_gestures := m\<rparr>)"
proof (cases "is_lift e \<or> target = None")
  case True
  then show ?thesis
    using that [of "gr_touch_id_target_for_gestures g"] by (auto simp: gr_ProcessTouchEventForGesture_def Let_def)
next
  case False
  then show ?thesis
    using that [of "RBT.insert (te_touch_id e) target (gr_touch_id_target_for_gestures g)"]
    by (simp add: gr_ProcessTouchEventForGesture_def Let_def)
qed

lemma gr_reach_sequences: "gr_reach F cfg g \<Longrightarrow> sequences_ok F cfg g"
proof (induction rule: gr_reach.induct)
  case (start ignorer)
  then show ?case by (simp add: sequences_ok_def gr_init_def)
next
  case (touch g e target status g' gs)
  obtain m where "gr_ProcessTouchEventForGesture F cfg e status target g = run_sequence F cfg target e status
      (g\<lparr>gr_touch_id_target := RBT.insert (te_touch_id e) (if is_lift e then None else target) (gr_touch_id_target g),
         gr_touch_id_target_for_gestures := m\<rparr>)"
    by (rule process_eq_run)
  with touch show ?case by (intro run_sequence_ok [of F cfg _ e target status g' gs]) simp_all
next
  case (advance g c processed g' gs)
  then show ?case
    by (auto simp: advance_cases split: list.splits intro: run_sequence_ok)
next
  case (transfer g h now a b g')
  then obtain g1 where "cancel_loop h now a b (RBT.keys (gr_touch_id_target g)) g = Some g1"
    by (auto simp: gr_TransferEventsTo_def)
  with transfer cancel_loop_ok [of F cfg h g now a b] have "sequences_ok F cfg g1"
    by blast
  with transfer \<open>cancel_loop h now a b _ g = Some g1\<close> show ?case
    by (auto simp: gr_TransferEventsTo_def sequences_ok_def TransferConsumer_lookup split: if_splits option.splits)
next
  case (long_press g c s s' ge)
  then have "gs_reach F cfg s" by (auto simp: sequences_ok_def)
  from gs_reach.long_press [OF this] long_press show ?case by (auto simp: sequences_ok_def)
qed (auto simp: gr_QueueTouchEventForGesture_def gr_FlushTouchQueue_def sequences_ok_def gr_GetTouchLockedTarget_def
    gr_GetTargetForGestureEvent_def gr_GetTargetForLocation_def Let_def split: prod.splits if_splits option.splits)

section \<open>Properties of the dispatcher\<close>



section \<open>Order of queued events\<close>

fun advance_all ::
  "'f farith \<Rightarrow> 'f gesture_configuration \<Rightarrow> 'c :: linorder option \<Rightarrow> bool list \<Rightarrow> ('c, 'f) gesture_recognizer \<Rightarrow>
   (('c, 'f) gesture_recognizer \<times> 'f gesture list option list) option" where
  "advance_all F cfg c [] g = Some (g, [])"
| "advance_all F cfg c (p # ps) g = do {
     (g1, out) \<leftarrow> gr_AdvanceTouchQueue F cfg c p g;
     (g2, outs) \<leftarrow> advance_all F cfg c ps g1;
     Some (g2, out # outs)
   }"

text \<open>The reference: the events are handed to the sequence one after the other.\<close>

fun feed ::
  "'f farith \<Rightarrow> 'f gesture_configuration \<Rightarrow> ('f touch_event \<times> TouchStatus) list \<Rightarrow> 'f gesture_sequence \<Rightarrow>
   ('f gesture_sequence \<times> 'f gesture list option list) option" where
  "feed F cfg [] s = Some (s, [])"
| "feed F cfg ((e, st) # es) s = do {
     (s1, out) \<leftarrow> gs_ProcessTouchEventForGesture F cfg e st s;
     (s2, outs) \<leftarrow> feed F cfg es s1;
     Some (s2, out # outs)
   }"

lemma queue_snoc [simp]:
  "queue_of c (gr_QueueTouchEventForGesture c e g) = queue_of c g @ [e]"
  "gr_consumer_sequence (gr_QueueTouchEventForGesture c e g) = gr_consumer_sequence g"
  by (auto simp: gr_QueueTouchEventForGesture_def queue_of_def map_index_def split: option.splits)

lemma queue_all:
  "queue_of c (fold (gr_QueueTouchEventForGesture c) es g) = queue_of c g @ es"
  "gr_consumer_sequence (fold (gr_QueueTouchEventForGesture c) es g) = gr_consumer_sequence g"
  by (induction es arbitrary: g) simp_all

lemma advance_feed:
  "queue_of c g = es \<Longrightarrow> length ps = length es \<Longrightarrow>
   map_option (\<lambda>(g', outs). (sequence_of F cfg c g', queue_of c g', outs)) (advance_all F cfg c ps g) =
   map_option (\<lambda>(s', outs). (s', [], outs)) (feed F cfg (map2 delivered ps es) (sequence_of F cfg c g))"
proof (induction es arbitrary: ps g)
  case (Cons e es)
  then obtain p ps' where ps: "ps = p # ps'" "length ps' = length es" by (cases ps) auto
  let ?e = "fst (delivered p e)" and ?st = "snd (delivered p e)"
  show ?case
  proof (cases "run_sequence F cfg c ?e ?st g")
    case None
    then have "gs_ProcessTouchEventForGesture F cfg ?e ?st (sequence_of F cfg c g) = None"
      by (simp add: run_sequence_None)
    with None show ?thesis
      using Cons.prems(1) ps(1) by (cases "delivered p e") (simp add: advance_cases)
  next
    case (Some r)
    then obtain g1 out where r: "run_sequence F cfg c ?e ?st g = Some (g1, out)" by (cases r) auto
    let ?g2 = "g1\<lparr>gr_event_queue := RBT.insert c (Some es) (gr_event_queue g1)\<rparr>"
    have adv: "gr_AdvanceTouchQueue F cfg c p g = Some (?g2, out)"
      using Cons.prems(1) r by (simp add: advance_cases)
    have q: "queue_of c ?g2 = es" by (simp add: queue_of_def)
    have "feed F cfg (map2 delivered ps (e # es)) (sequence_of F cfg c g) =
        map_option (\<lambda>(s, outs). (s, out # outs)) (feed F cfg (map2 delivered ps' es) (sequence_of F cfg c ?g2))"
      using run_sequence_Some(1) [OF r] ps(1) by (cases "delivered p e") (auto simp: map_option_case split: option.splits)
    moreover have "advance_all F cfg c ps g = map_option (\<lambda>(g', outs). (g', out # outs)) (advance_all F cfg c ps' ?g2)"
      using adv ps(1) by (auto simp: map_option_case split: option.splits)
    ultimately show ?thesis
      using Cons.IH [OF q ps(2)] by (auto simp: map_option_case split: option.splits)
  qed
qed simp

text \<open>(C28) Queued touch events are delivered in order: queueing any events for a consumer with an empty queue and
  then acknowledging each of them gives the same gestures and the same state of the consumer's
  sequence as handing the events to the sequence directly one after the other, a consumed release
  replaced by a cancel; and the queue is empty again.\<close>

theorem queued_touches_in_order:
  assumes "queue_of c g = []" and "length ps = length es"
  shows "map_option (\<lambda>(g', outs). (sequence_of F cfg c g', queue_of c g', outs))
           (advance_all F cfg c ps (fold (gr_QueueTouchEventForGesture c) es g)) =
         map_option (\<lambda>(s', outs). (s', [], outs)) (feed F cfg (map2 delivered ps es) (sequence_of F cfg c g))"
  using advance_feed [of c "fold (gr_QueueTouchEventForGesture c) es g" es ps F cfg] assms
  by (simp add: queue_all sequence_of_def)

theorem queued_touches_in_order_witness:
  "map_option (\<lambda>(s, q, outs). (gs_point_count s, q, length outs))
     (map_option (\<lambda>(g', outs). (sequence_of int_arith int_config (Some (7 :: int)) g', queue_of (Some 7) g', outs))
       (advance_all int_arith int_config (Some 7) [False, True]
         (fold (gr_QueueTouchEventForGesture (Some 7)) [press_event 3, press_event 4] (gr_init 0)))) = Some (1, [], 2)"
proof -
  have q: "queue_of (Some (7 :: int)) (gr_init 0) = []" by (simp add: queue_of_def gr_init_def)
  have "map_option (\<lambda>(s, q, outs). (gs_point_count s, q :: int touch_event list, length outs))
      (map_option (\<lambda>(s', outs). (s', [], outs))
        (feed int_arith int_config (map2 delivered [False, True] [press_event 3, press_event 4])
          (gs_init int_arith int_config))) = Some (1, [], 2)"
    by code_simp
  moreover have "sequence_of int_arith int_config (Some (7 :: int)) (gr_init 0) = gs_init int_arith int_config"
    by (simp add: sequence_of_def gr_init_def)
  ultimately show ?thesis
    using queued_touches_in_order [OF q, of "[False, True]" "[press_event 3, press_event 4]" int_arith int_config] by simp
qed

section \<open>Capture\<close>

text \<open>What dispatching a cancelled touch does to the recognizer: at most the entry of its own finger changes,
  and no finger is forgotten.\<close>

definition helper_local :: "('c :: linorder, 'f) gesture_helper \<Rightarrow> bool" where
  "helper_local h \<longleftrightarrow>
     (\<forall>t l i now. te_touch_id (CreateTouchEvent h t l i now) = i) \<and>
     (\<forall>e g. \<exists>g'. DispatchCancelTouchEvent h e g = Some g' \<and> gr_ignorer g' = gr_ignorer g \<and>
        (\<forall>k. k \<noteq> te_touch_id e \<longrightarrow> RBT.lookup (gr_touch_id_target g') k = RBT.lookup (gr_touch_id_target g) k) \<and>
        dom (RBT.lookup (gr_touch_id_target g')) \<supseteq> dom (RBT.lookup (gr_touch_id_target g)))"

lemma helper_localE:
  assumes "helper_local h"
  obtains g' where "DispatchCancelTouchEvent h (CreateTouchEvent h t l i now) g = Some g'" "gr_ignorer g' = gr_ignorer g"
    "\<And>k. k \<noteq> i \<Longrightarrow> RBT.lookup (gr_touch_id_target g') k = RBT.lookup (gr_touch_id_target g) k"
    "dom (RBT.lookup (gr_touch_id_target g)) \<subseteq> dom (RBT.lookup (gr_touch_id_target g'))"
  using assms unfolding helper_local_def by metis

lemma cancel_loop_spec:
  assumes "helper_local h" and "a \<noteq> None" and "b \<noteq> None"
  shows "set is \<subseteq> dom (RBT.lookup (gr_touch_id_target g)) \<Longrightarrow> distinct is \<Longrightarrow>
    \<exists>g'. cancel_loop h now a b is g = Some g' \<and> gr_ignorer g' = gr_ignorer g \<and>
      (\<forall>k. k \<notin> set is \<longrightarrow> RBT.lookup (gr_touch_id_target g') k = RBT.lookup (gr_touch_id_target g) k) \<and>
      (\<forall>k v. k \<in> set is \<and> RBT.lookup (gr_touch_id_target g) k = Some v \<longrightarrow>
         RBT.lookup (gr_touch_id_target g') k = Some (if v = a \<or> v = b then v else Some (gr_ignorer g)))"
proof (induction "is" arbitrary: g)
  case (Cons i "is")
  obtain v where v: "RBT.lookup (gr_touch_id_target g) i = Some v" using Cons.prems(1) by auto
  show ?case
  proof (cases "v \<noteq> b \<and> v \<noteq> a \<and> v \<noteq> Some (gr_ignorer g)")
    case False
    from Cons.IH [of g] Cons.prems obtain g' where g': "cancel_loop h now a b is g = Some g'"
      "gr_ignorer g' = gr_ignorer g"
      "\<forall>k. k \<notin> set is \<longrightarrow> RBT.lookup (gr_touch_id_target g') k = RBT.lookup (gr_touch_id_target g) k"
      "\<forall>k v. k \<in> set is \<and> RBT.lookup (gr_touch_id_target g) k = Some v \<longrightarrow>
         RBT.lookup (gr_touch_id_target g') k = Some (if v = a \<or> v = b then v else Some (gr_ignorer g))" by auto
    have "cancel_loop h now a b (i # is) g = Some g'" using v False assms(3) g'(1) by auto
    then show ?thesis using g' v False Cons.prems(2) by (intro exI [of _ g']) auto
  next
    case True
    obtain g1 where g1: "DispatchCancelTouchEvent h (CreateTouchEvent h ET_TOUCH_CANCELLED (Point 0 0) i now) g = Some g1"
      "gr_ignorer g1 = gr_ignorer g"
      "\<And>k. k \<noteq> i \<Longrightarrow> RBT.lookup (gr_touch_id_target g1) k = RBT.lookup (gr_touch_id_target g) k"
      "dom (RBT.lookup (gr_touch_id_target g)) \<subseteq> dom (RBT.lookup (gr_touch_id_target g1))"
      using helper_localE [OF assms(1)] by metis
    let ?g2 = "g1\<lparr>gr_touch_id_target := RBT.insert i (Some (gr_ignorer g1)) (gr_touch_id_target g1)\<rparr>"
    have "set is \<subseteq> dom (RBT.lookup (gr_touch_id_target g1))"
      by (rule subset_trans [OF _ g1(4)]) (use Cons.prems(1) in auto)
    then have "set is \<subseteq> dom (RBT.lookup (gr_touch_id_target ?g2))" by auto
    from Cons.IH [OF this] Cons.prems(2) obtain g' where g': "cancel_loop h now a b is ?g2 = Some g'"
      "gr_ignorer g' = gr_ignorer ?g2"
      "\<forall>k. k \<notin> set is \<longrightarrow> RBT.lookup (gr_touch_id_target g') k = RBT.lookup (gr_touch_id_target ?g2) k"
      "\<forall>k v. k \<in> set is \<and> RBT.lookup (gr_touch_id_target ?g2) k = Some v \<longrightarrow>
         RBT.lookup (gr_touch_id_target g') k = Some (if v = a \<or> v = b then v else Some (gr_ignorer ?g2))" by auto
    obtain w where "RBT.lookup (gr_touch_id_target g1) i = Some w" using g1(4) v by blast
    then have "cancel_loop h now a b (i # is) g = Some g'" using v True g1(1) g'(1) by simp
    moreover have "k \<noteq> i" if "k \<in> set is" for k using that Cons.prems(2) by auto
    ultimately show ?thesis
      using g' v True g1(2,3) Cons.prems(2) by (intro exI [of _ g']) (auto split: if_splits)
  qed
qed simp


text \<open>A helper whose dispatch releases the finger, as the root window does by processing the cancel.\<close>

definition releasing_helper :: "(int, int) gesture_helper" where
  "releasing_helper =
     \<lparr>CreateTouchEvent = (\<lambda>t l i now. (press_event i)\<lparr>te_type := t, te_location := l, te_timestamp := now\<rparr>),
      DispatchCancelTouchEvent = (\<lambda>e g. Some (g\<lparr>gr_touch_id_target := RBT.insert (te_touch_id e) None (gr_touch_id_target g)\<rparr>))\<rparr>"

lemma releasing_helper_local: "helper_local releasing_helper"
  by (auto simp: helper_local_def releasing_helper_def press_event_def)

definition three_fingers :: "(int, int) gesture_recognizer" where
  "three_fingers = (gr_init 0)\<lparr>gr_touch_id_target := RBT.bulkload [(0, Some 7), (1, Some 8), (2, Some 9)]\<rparr>"


text \<open>A finger that was lifted before keeps an entry with a null target, so a capture cancels it again.\<close>

lemma capture_cancels_lifted_finger:
  "map_option (\<lambda>g. RBT.lookup (gr_touch_id_target g) 4)
     (gr_TransferEventsTo releasing_helper 5 (Some 7) (Some 8)
       ((gr_init 0)\<lparr>gr_touch_id_target := RBT.bulkload [(4, None)]\<rparr>)) = Some (Some (Some 0))"
  by code_simp

section \<open>The closest finger\<close>

definition fingers :: "'f gesture_sequence list \<Rightarrow> 'f gesture_point set" where
  "fingers ss = {p. \<exists>s \<in> set ss. p \<in> set (gs_points s) \<and> gp_in_use p}"

definition closest_of :: "point \<Rightarrow> 'f gesture_point set \<Rightarrow> (int \<times> int) option \<Rightarrow> bool" where
  "closest_of loc U r \<longleftrightarrow>
     (case r of None \<Rightarrow> U = {}
      | Some (tid, d) \<Rightarrow> \<exists>p \<in> U. tid = gp_touch_id p \<and> d = distance_squared loc p \<and> (\<forall>q \<in> U. d \<le> distance_squared loc q))"

lemma closest_loop_spec:
  "closest_of loc U r \<Longrightarrow> closest_of loc (U \<union> {p \<in> set ps. gp_in_use p}) (closest_loop loc ps r)"
proof (induction loc ps r arbitrary: U rule: closest_loop.induct)
  case (2 loc p ps r)
  have eq: "U \<union> {q \<in> set (p # ps). gp_in_use q} =
      (if gp_in_use p then insert p U else U) \<union> {q \<in> set ps. gp_in_use q}" by auto
  have "closest_of loc (insert p U) (case r of None \<Rightarrow> Some (gp_touch_id p, distance_squared loc p)
      | Some (t, d) \<Rightarrow> if distance_squared loc p < d then Some (gp_touch_id p, distance_squared loc p) else r)"
    using "2.prems" by (fastforce simp: closest_of_def split: option.splits)
  with 2 show ?case unfolding eq by (cases "gp_in_use p") (simp_all add: Let_def del: Un_insert_left)
qed simp

lemma closest_sequence_spec:
  "closest_of loc U r \<Longrightarrow> closest_of loc (U \<union> fingers ss) (closest_sequence loc ss r)"
proof (induction loc ss r arbitrary: U rule: closest_sequence.induct)
  case (2 loc s ss r)
  have "U \<union> fingers (s # ss) = (U \<union> {p \<in> set (gs_points s). gp_in_use p}) \<union> fingers ss"
    by (auto simp: fingers_def)
  with 2 closest_loop_spec [OF "2.prems", of "gs_points s"] show ?case by simp
qed (simp add: fingers_def)

text \<open>(C30) A touch at a location goes to the target of the closest finger of any consumer, if one is nearer than
  the configured separation, and otherwise to nobody.\<close>

theorem closest_finger_target:
  "(let U = fingers (map snd (RBT.entries (gr_consumer_sequence g))); m = max_separation_for_gesture_touches_in_pixels cfg;
        t = fst (gr_GetTargetForLocation cfg loc g)
    in if \<exists>p \<in> U. distance_squared loc p < wrap32 (m * m)
       then \<exists>p \<in> U. (\<forall>q \<in> U. distance_squared loc p \<le> distance_squared loc q) \<and>
                  t = (case RBT.lookup (gr_touch_id_target g) (gp_touch_id p) of Some c \<Rightarrow> c | None \<Rightarrow> None)
       else t = None)"
proof -
  define ss where "ss = map snd (RBT.entries (gr_consumer_sequence g))"
  have "closest_of loc (fingers ss) (closest_sequence loc ss None)"
    using closest_sequence_spec [of loc "{}" None ss] by (simp add: closest_of_def)
  then show ?thesis
    unfolding ss_def [symmetric] Let_def gr_GetTargetForLocation_def
    by (cases "closest_sequence loc ss None") (auto simp: closest_of_def case_prod_unfold, fastforce+)
qed

definition one_finger :: "(int, int) gesture_recognizer" where
  "one_finger = (gr_init 0)\<lparr>
     gr_consumer_sequence := RBT.insert (Some 7)
       ((gs_init int_arith int_config)\<lparr>gs_points :=
          [(gp_init int_arith int_config)\<lparr>gp_point_id := 0, gp_touch_id := 3, gp_last_touch_position := Point 10 40\<rparr>]\<rparr>)
       RBT.empty,
     gr_touch_id_target := RBT.insert 3 (Some 7) RBT.empty\<rparr>"

theorem closest_finger_target_witness:
  "fst (gr_GetTargetForLocation int_config (Point 20 30) one_finger) = Some 7"
proof -
  let ?p = "(gp_init int_arith int_config)\<lparr>gp_point_id := 0, gp_touch_id := 3, gp_last_touch_position := Point 10 40\<rparr>"
  have set_e: "set (RBT.entries (RBT.insert k v RBT.empty)) = {(k, v)}" for k :: "int option" and v :: "'b"
    by (auto simp: RBT.lookup_in_tree [symmetric] split: if_splits)
  have U: "fingers (map snd (RBT.entries (gr_consumer_sequence one_finger))) = {?p}"
    by (auto simp: fingers_def one_finger_def set_e gp_in_use_def)
  have d: "distance_squared (Point 20 30) ?p = 200"
    by (simp add: distance_squared_def point_Subtract_def point_Offset_def wrap32_def)
  have m: "wrap32 (max_separation_for_gesture_touches_in_pixels int_config * max_separation_for_gesture_touches_in_pixels int_config) = 22500"
    by (simp add: int_config_def wrap32_def)
  show ?thesis
    using closest_finger_target [where g = one_finger and cfg = int_config and loc = "Point 20 30"]
    unfolding Let_def U m by (simp add: d one_finger_def)
qed

end
