(* ===== verification/Tree_Nodes.thy ===== *)
theory Tree_Nodes
  imports UI_Prelude
begin

text \<open>
  \<open>TreeNode\<close> and \<open>TreeNodeModel\<close> (\<open>src/ui/base/models/tree_node_model.h\<close>) and \<open>TreeNodeIterator\<close>
  (\<open>tree_node_iterator.h\<close>). Nodes are shared mutable objects linked by parent and child pointers, so the
  model has an explicit store from addresses to nodes. An access to an address without a node, an
  iterator past the end of a vector and a failed \<open>find\<close> before \<open>erase\<close> are \<open>None\<close>.

  The abstraction is an ordered tree; the operations refine insertion and removal of subtrees, and the
  iterator refines the preorder of the descendants.
\<close>

section \<open>Nodes\<close>

record tree_node =
  tn_title :: string16
  tn_parent :: "nat option"
  tn_children :: "nat list"

type_synonym node_store = "nat \<Rightarrow> tree_node option"

definition mk_TreeNode :: "string16 \<Rightarrow> tree_node" where
  "mk_TreeNode title = \<lparr>tn_title = title, tn_parent = None, tn_children = []\<rparr>"

definition store_upd :: "nat \<Rightarrow> (tree_node \<Rightarrow> tree_node) \<Rightarrow> node_store \<Rightarrow> node_store" where
  "store_upd a f h = h(a := map_option f (h a))"

definition tn_Remove :: "nat \<Rightarrow> nat \<Rightarrow> node_store \<Rightarrow> node_store option" where
  "tn_Remove this node h = do {
     n \<leftarrow> h this;
     _ \<leftarrow> h node;
     if node \<notin> set (tn_children n) then None
     else Some (store_upd this (\<lambda>n. n\<lparr>tn_children := remove1 node (tn_children n)\<rparr>)
                 (store_upd node (\<lambda>m. m\<lparr>tn_parent := None\<rparr>) h))
   }"

definition tn_Add :: "nat \<Rightarrow> nat \<Rightarrow> nat \<Rightarrow> node_store \<Rightarrow> node_store option" where
  "tn_Add this node index h = do {
     m \<leftarrow> h node;
     h1 \<leftarrow> (case tn_parent m of None \<Rightarrow> Some h | Some parent \<Rightarrow> tn_Remove parent node h);
     let h2 = store_upd node (\<lambda>m. m\<lparr>tn_parent := Some this\<rparr>) h1;
     n \<leftarrow> h2 this;
     if length (tn_children n) < index then None
     else Some (store_upd this (\<lambda>n. n\<lparr>tn_children := list_insert_at index node (tn_children n)\<rparr>) h2)
   }"

fun detach_all :: "nat list \<Rightarrow> node_store \<Rightarrow> node_store" where
  "detach_all [] h = h"
| "detach_all (c # cs) h = detach_all cs (store_upd c (\<lambda>m. m\<lparr>tn_parent := None\<rparr>) h)"

definition tn_RemoveAll :: "nat \<Rightarrow> node_store \<Rightarrow> node_store option" where
  "tn_RemoveAll this h = do {
     n \<leftarrow> h this;
     Some (store_upd this (\<lambda>n. n\<lparr>tn_children := []\<rparr>) (detach_all (tn_children n) h))
   }"

definition tn_is_root :: "nat \<Rightarrow> node_store \<Rightarrow> bool option" where
  "tn_is_root this h = map_option (\<lambda>n. tn_parent n = None) (h this)"

definition tn_child_count :: "nat \<Rightarrow> node_store \<Rightarrow> nat option" where
  "tn_child_count this h = map_option (\<lambda>n. length (tn_children n)) (h this)"

definition tn_empty :: "nat \<Rightarrow> node_store \<Rightarrow> bool option" where
  "tn_empty this h = map_option (\<lambda>n. tn_children n = []) (h this)"

definition tn_GetChild :: "nat \<Rightarrow> nat \<Rightarrow> node_store \<Rightarrow> nat option" where
  "tn_GetChild this index h = do {
     n \<leftarrow> h this;
     if index < length (tn_children n) then Some (tn_children n ! index) else None
   }"

fun find_index :: "'a \<Rightarrow> 'a list \<Rightarrow> int \<Rightarrow> int" where
  "find_index x [] i = -1"
| "find_index x (y # ys) i = (if x = y then i else find_index x ys (i + 1))"

definition tn_GetIndexOf :: "nat \<Rightarrow> nat \<Rightarrow> node_store \<Rightarrow> int option" where
  "tn_GetIndexOf this node h = map_option (\<lambda>n. find_index node (tn_children n) 0) (h this)"

definition tn_SetTitle :: "nat \<Rightarrow> string16 \<Rightarrow> node_store \<Rightarrow> node_store option" where
  "tn_SetTitle this title h = map_option (\<lambda>_. store_upd this (\<lambda>n. n\<lparr>tn_title := title\<rparr>) h) (h this)"

text \<open>The number of nodes below a list of nodes, these included; \<open>None\<close> when the links form a cycle.\<close>

partial_function (option) total_count :: "node_store \<Rightarrow> nat list \<Rightarrow> nat option" where
  "total_count h as =
     (case as of [] \<Rightarrow> Some 0
      | a # as' \<Rightarrow> Option.bind (h a) (\<lambda>n.
          Option.bind (total_count h (tn_children n)) (\<lambda>below.
          Option.bind (total_count h as') (\<lambda>rest. Some (1 + below + rest)))))"

definition tn_GetTotalNodeCount :: "nat \<Rightarrow> node_store \<Rightarrow> nat option" where
  "tn_GetTotalNodeCount this h = total_count h [this]"

partial_function (option) tn_HasAncestor :: "nat option \<Rightarrow> nat \<Rightarrow> node_store \<Rightarrow> bool option" where
  "tn_HasAncestor ancestor this h =
     (if ancestor = Some this then Some True
      else if ancestor = None then Some False
      else Option.bind (h this) (\<lambda>n.
             case tn_parent n of None \<Rightarrow> Some False | Some p \<Rightarrow> tn_HasAncestor ancestor p h))"

section \<open>Model and observers\<close>

datatype tree_notification = TreeNodesAdded nat int nat | TreeNodesRemoved nat int nat | TreeNodeChanged nat

record tree_model =
  tm_store :: node_store
  tm_root :: nat
  tm_notified :: "tree_notification list"

definition tm_notify :: "tree_notification \<Rightarrow> tree_model \<Rightarrow> tree_model" where
  "tm_notify x m = m\<lparr>tm_notified := tm_notified m @ [x]\<rparr>"

definition tm_Add :: "nat \<Rightarrow> nat \<Rightarrow> nat \<Rightarrow> tree_model \<Rightarrow> tree_model option" where
  "tm_Add parent node index m = do {
     h \<leftarrow> tn_Add parent node index (tm_store m);
     Some (tm_notify (TreeNodesAdded parent (int index) 1) (m\<lparr>tm_store := h\<rparr>))
   }"

definition tm_Remove :: "nat \<Rightarrow> nat \<Rightarrow> tree_model \<Rightarrow> tree_model option" where
  "tm_Remove parent node m = do {
     index \<leftarrow> tn_GetIndexOf parent node (tm_store m);
     h \<leftarrow> tn_Remove parent node (tm_store m);
     Some (tm_notify (TreeNodesRemoved parent index 1) (m\<lparr>tm_store := h\<rparr>))
   }"

definition tm_SetTitle :: "nat \<Rightarrow> string16 \<Rightarrow> tree_model \<Rightarrow> tree_model option" where
  "tm_SetTitle node title m = do {
     h \<leftarrow> tn_SetTitle node title (tm_store m);
     Some (tm_notify (TreeNodeChanged node) (m\<lparr>tm_store := h\<rparr>))
   }"

section \<open>Iterator\<close>

text \<open>The stack of positions (node and child index), its top first.\<close>

type_synonym tree_positions = "(nat \<times> nat) list"

definition children_of :: "node_store \<Rightarrow> nat \<Rightarrow> nat list" where
  "children_of h a = (case h a of None \<Rightarrow> [] | Some n \<Rightarrow> tn_children n)"

text \<open>\<open>prune_ && prune_(node)\<close>: the filter is an optional function.\<close>

definition pruned :: "(nat \<Rightarrow> bool) option \<Rightarrow> nat \<Rightarrow> bool" where
  "pruned prune a = (case prune of None \<Rightarrow> False | Some p \<Rightarrow> p a)"

fun first_unpruned :: "(nat \<Rightarrow> bool) option \<Rightarrow> nat list \<Rightarrow> nat" where
  "first_unpruned prune [] = 0"
| "first_unpruned prune (c # cs) =
     (if \<not> pruned prune c then 0 else Suc (first_unpruned prune cs))"

definition it_init :: "(nat \<Rightarrow> bool) option \<Rightarrow> nat \<Rightarrow> node_store \<Rightarrow> tree_positions" where
  "it_init prune node h =
     (let index = first_unpruned prune (children_of h node)
      in if index < length (children_of h node) then [(node, index)] else [])"

definition it_has_next :: "tree_positions \<Rightarrow> bool" where
  "it_has_next ps \<longleftrightarrow> ps \<noteq> []"

text \<open>The loop that advances to the next valid node.\<close>

function it_advance :: "(nat \<Rightarrow> bool) option \<Rightarrow> node_store \<Rightarrow> tree_positions \<Rightarrow> tree_positions" where
  "it_advance prune h [] = []"
| "it_advance prune h ((node, index) # ps) =
     (if length (children_of h node) \<le> index then it_advance prune h ps
      else if pruned prune (children_of h node ! index)
           then it_advance prune h ((node, Suc index) # ps)
           else (node, index) # ps)"
  by pat_completeness auto
termination
  by (relation "measure (\<lambda>(prune, h, ps). length ps + sum_list (map (\<lambda>(a, i). length (children_of h a) - i) ps))") auto

definition it_Next :: "(nat \<Rightarrow> bool) option \<Rightarrow> node_store \<Rightarrow> tree_positions \<Rightarrow> (nat \<times> tree_positions) option" where
  "it_Next prune h ps =
     (case ps of [] \<Rightarrow> None
      | (node, index) # rest \<Rightarrow> do {
          result \<leftarrow> tn_GetChild node index h;
          Some (result, it_advance prune h ((result, 0) # (node, Suc index) # rest))
        })"

text \<open>The loop \<open>while (iterator.has_next()) iterator.Next()\<close> and the nodes it sees.\<close>

partial_function (option) it_collect :: "(nat \<Rightarrow> bool) option \<Rightarrow> node_store \<Rightarrow> tree_positions \<Rightarrow> nat list option" where
  "it_collect prune h ps =
     (if \<not> it_has_next ps then Some []
      else Option.bind (it_Next prune h ps) (\<lambda>(a, ps').
           Option.bind (it_collect prune h ps') (\<lambda>as. Some (a # as))))"

section \<open>Abstract trees\<close>

datatype tree = Node (tr_addr: nat) (tr_title: string16) (tr_subs: "tree list")

fun repr :: "node_store \<Rightarrow> nat option \<Rightarrow> tree \<Rightarrow> bool" where
  "repr h p (Node a ti ts) \<longleftrightarrow>
     h a = Some \<lparr>tn_title = ti, tn_parent = p, tn_children = map tr_addr ts\<rparr> \<and> (\<forall>t \<in> set ts. repr h (Some a) t)"

fun preorder :: "tree \<Rightarrow> nat list" where
  "preorder (Node a ti ts) = a # concat (map preorder ts)"

text \<open>The nodes an iteration with a filter sees: the filtered subtrees are left out.\<close>

fun visible :: "(nat \<Rightarrow> bool) option \<Rightarrow> tree \<Rightarrow> nat list" where
  "visible prune (Node a ti ts) =
     (if pruned prune a then [] else a # concat (map (visible prune) ts))"

definition descendants :: "(nat \<Rightarrow> bool) option \<Rightarrow> tree \<Rightarrow> nat list" where
  "descendants prune t = concat (map (visible prune) (tr_subs t))"

section \<open>The iterator visits the preorder\<close>

lemma repr_children: "repr h p t \<Longrightarrow> children_of h (tr_addr t) = map tr_addr (tr_subs t)"
  by (cases t) (simp add: children_of_def)

lemma repr_store: "repr h p t \<Longrightarrow> h (tr_addr t) = Some \<lparr>tn_title = tr_title t, tn_parent = p, tn_children = map tr_addr (tr_subs t)\<rparr>"
  by (cases t) simp

lemma repr_sub: "repr h p t \<Longrightarrow> s \<in> set (tr_subs t) \<Longrightarrow> repr h (Some (tr_addr t)) s"
  by (cases t) auto

lemma visible_eq: "visible prune t = (if pruned prune (tr_addr t) then [] else tr_addr t # descendants prune t)"
  by (cases t) (simp add: descendants_def)

text \<open>The trees behind a stack of positions, and the nodes that are still to come.\<close>

definition stack_ok :: "node_store \<Rightarrow> tree_positions \<Rightarrow> tree list \<Rightarrow> bool" where
  "stack_ok h ps ts \<longleftrightarrow> list_all2 (\<lambda>(a, i) t. a = tr_addr t \<and> (\<exists>p. repr h p t)) ps ts"

definition to_come :: "(nat \<Rightarrow> bool) option \<Rightarrow> tree_positions \<Rightarrow> tree list \<Rightarrow> nat list" where
  "to_come prune ps ts = concat (map2 (\<lambda>(a, i) t. concat (map (visible prune) (drop i (tr_subs t)))) ps ts)"

definition on_node :: "(nat \<Rightarrow> bool) option \<Rightarrow> node_store \<Rightarrow> tree_positions \<Rightarrow> bool" where
  "on_node prune h ps \<longleftrightarrow>
     (case ps of [] \<Rightarrow> True
      | (a, i) # _ \<Rightarrow> i < length (children_of h a) \<and> \<not> pruned prune (children_of h a ! i))"

lemma stack_simps [simp]:
  "stack_ok h [] ts \<longleftrightarrow> ts = []"
  "stack_ok h ((a, i) # ps) ts \<longleftrightarrow> (\<exists>t ts'. ts = t # ts' \<and> a = tr_addr t \<and> (\<exists>p. repr h p t) \<and> stack_ok h ps ts')"
  "to_come prune [] ts = []"
  "to_come prune ((a, i) # ps) (t # ts) = concat (map (visible prune) (drop i (tr_subs t))) @ to_come prune ps ts"
  by (auto simp: stack_ok_def to_come_def list_all2_Cons1)

lemma advance_spec:
  "stack_ok h ps ts \<Longrightarrow>
   \<exists>ts'. stack_ok h (it_advance prune h ps) ts' \<and> to_come prune (it_advance prune h ps) ts' = to_come prune ps ts \<and>
         on_node prune h (it_advance prune h ps)"
proof (induction prune h ps arbitrary: ts rule: it_advance.induct)
  case (2 prune h node index ps)
  then obtain t ts' p where t: "ts = t # ts'" "node = tr_addr t" "repr h p t" "stack_ok h ps ts'" by auto
  note ch = repr_children [OF t(3)]
  consider (past) "length (tr_subs t) \<le> index"
    | (skip) "index < length (tr_subs t)" "pruned prune (tr_addr (tr_subs t ! index))"
    | (stop) "index < length (tr_subs t)" "\<not> pruned prune (tr_addr (tr_subs t ! index))"
    by linarith
  then show ?case
  proof cases
    case past
    then show ?thesis using "2.IH"(1) [of ts'] t ch by simp
  next
    case skip
    have "drop index (tr_subs t) = tr_subs t ! index # drop (Suc index) (tr_subs t)"
      using skip(1) by (simp add: Cons_nth_drop_Suc)
    moreover have "stack_ok h ((node, Suc index) # ps) ts" using t by auto
    ultimately show ?thesis using "2.IH"(2) [of ts] skip t(1,2) ch by (simp add: visible_eq)
  next
    case stop
    then show ?thesis using t ch by (intro exI [of _ ts]) (auto simp: on_node_def)
  qed
qed (simp add: on_node_def)

lemma next_spec:
  assumes "stack_ok h ps ts" and "on_node prune h ps" and "ps \<noteq> []"
  obtains a ps' ts' where "it_Next prune h ps = Some (a, ps')" "stack_ok h ps' ts'" "on_node prune h ps'"
    "to_come prune ps ts = a # to_come prune ps' ts'"
proof -
  from assms(1,3) obtain i rest t ts1 p where
    t: "ps = (tr_addr t, i) # rest" "ts = t # ts1" "repr h p t" "stack_ok h rest ts1"
    by (cases ps) auto
  note ch = repr_children [OF t(3)]
  have i: "i < length (tr_subs t)" "\<not> pruned prune (tr_addr (tr_subs t ! i))"
    using assms(2) t(1) ch by (auto simp: on_node_def)
  let ?s = "tr_subs t ! i"
  have s: "repr h (Some (tr_addr t)) ?s" using repr_sub [OF t(3)] i(1) by simp
  let ?ps = "(tr_addr ?s, 0) # (tr_addr t, Suc i) # rest"
  have st: "stack_ok h ?ps (?s # t # ts1)" using s t(3,4) by auto
  obtain ts' where ts': "stack_ok h (it_advance prune h ?ps) ts'"
    "to_come prune (it_advance prune h ?ps) ts' = to_come prune ?ps (?s # t # ts1)"
    "on_node prune h (it_advance prune h ?ps)"
    using advance_spec [OF st, of prune] by blast
  have "it_Next prune h ps = Some (tr_addr ?s, it_advance prune h ?ps)"
    using t(1) i(1) repr_store [OF t(3)] by (simp add: it_Next_def tn_GetChild_def)
  moreover have "to_come prune ps ts = tr_addr ?s # to_come prune ?ps (?s # t # ts1)"
  proof -
    have "drop i (tr_subs t) = ?s # drop (Suc i) (tr_subs t)" using i(1) by (simp add: Cons_nth_drop_Suc)
    then show ?thesis using t(1,2) i(2) by (simp add: visible_eq descendants_def)
  qed
  ultimately show thesis using that ts' by simp
qed

lemma collect_spec:
  "stack_ok h ps ts \<Longrightarrow> on_node prune h ps \<Longrightarrow> it_collect prune h ps = Some (to_come prune ps ts)"
proof (induction "to_come prune ps ts" arbitrary: ps ts)
  case Nil
  have "ps = []" using next_spec [OF Nil(2,3)] Nil(1) by (metis list.distinct(1))
  then show ?case by (simp add: it_collect.simps it_has_next_def)
next
  case (Cons a as)
  have "ps \<noteq> []" using Cons.hyps(2) by auto
  from next_spec [OF Cons.prems this] obtain a' ps' ts' where n: "it_Next prune h ps = Some (a', ps')"
    "stack_ok h ps' ts'" "on_node prune h ps'" "to_come prune ps ts = a' # to_come prune ps' ts'" by metis
  then have "it_collect prune h ps' = Some (to_come prune ps' ts')"
    using Cons.hyps by simp
  then show ?case using n \<open>ps \<noteq> []\<close> by (simp add: it_collect.simps [of _ _ ps] it_has_next_def)
qed

lemma init_spec:
  assumes "repr h p t"
  shows "\<exists>ts. stack_ok h (it_init prune (tr_addr t) h) ts \<and> on_node prune h (it_init prune (tr_addr t) h) \<and>
    to_come prune (it_init prune (tr_addr t) h) ts = descendants prune t"
proof -
  let ?i = "first_unpruned prune (map tr_addr (tr_subs t))"
  have skip: "concat (map (visible prune) (drop (first_unpruned prune (map tr_addr ss)) ss)) = concat (map (visible prune) ss) \<and>
      (first_unpruned prune (map tr_addr ss) < length ss \<longrightarrow> \<not> pruned prune (tr_addr (ss ! first_unpruned prune (map tr_addr ss))))" for ss
    by (induction ss) (auto simp: visible_eq)
  show ?thesis
  proof (cases "?i < length (tr_subs t)")
    case True
    then show ?thesis
      using assms skip [of "tr_subs t"]
      by (intro exI [of _ "[t]"]) (auto simp: it_init_def repr_children [OF assms] on_node_def descendants_def)
  next
    case False
    then show ?thesis
      using skip [of "tr_subs t"]
      by (intro exI [of _ "[]"]) (auto simp: it_init_def repr_children [OF assms] on_node_def descendants_def)
  qed
qed

text \<open>(C31) Iterating over a node of a well-formed tree ends and yields exactly the descendants of the node in
  preorder, each parent before its children and siblings in order, without the subtrees whose root
  the filter prunes.\<close>

theorem iterator_preorder:
  assumes "repr h p t"
  shows "it_collect prune h (it_init prune (tr_addr t) h) = Some (descendants prune t)"
  using init_spec [OF assms, of prune] collect_spec by metis

section \<open>Counting\<close>

lemma total_count_spec:
  "\<forall>t \<in> set ts. \<exists>p. repr h p t \<Longrightarrow> total_count h (map tr_addr ts) = Some (length (concat (map preorder ts)))"
proof (induction "length (concat (map preorder ts))" arbitrary: ts rule: less_induct)
  case less
  show ?case
  proof (cases ts)
    case Nil
    then show ?thesis by (simp add: total_count.simps)
  next
    case (Cons t ts')
    obtain p where p: "repr h p t" using less.prems Cons by auto
    have pre: "preorder t = tr_addr t # concat (map preorder (tr_subs t))" by (cases t) simp
    have "\<forall>s \<in> set (tr_subs t). \<exists>p. repr h p s" using repr_sub [OF p] by blast
    then have "total_count h (map tr_addr (tr_subs t)) = Some (length (concat (map preorder (tr_subs t))))"
      using less.hyps Cons pre by simp
    moreover have "total_count h (map tr_addr ts') = Some (length (concat (map preorder ts')))"
      using less.hyps less.prems Cons pre by simp
    ultimately show ?thesis
      using Cons repr_store [OF p] pre by (simp add: total_count.simps [of h "tr_addr t # map tr_addr ts'"])
  qed
qed

lemma GetTotalNodeCount_spec: "repr h p t \<Longrightarrow> tn_GetTotalNodeCount (tr_addr t) h = Some (length (preorder t))"
  using total_count_spec [of "[t]" h] by (auto simp: tn_GetTotalNodeCount_def)

section \<open>Adding and removing\<close>

fun subtrees :: "tree \<Rightarrow> tree set" where
  "subtrees (Node a ti ts) = insert (Node a ti ts) (\<Union> (subtrees ` set ts))"

text \<open>The tree with the children of one node replaced.\<close>

fun tree_upd :: "nat \<Rightarrow> (tree list \<Rightarrow> tree list) \<Rightarrow> tree \<Rightarrow> tree" where
  "tree_upd x f (Node a ti ts) = (if a = x then Node a ti (f ts) else Node a ti (map (tree_upd x f) ts))"

lemma tr_addr_upd [simp]: "tr_addr (tree_upd x f t) = tr_addr t"
  by (cases t) simp

lemma addr_in_preorder [simp]: "tr_addr t \<in> set (preorder t)"
  by (cases t) simp

lemma subtrees_refl [simp]: "t \<in> subtrees t"
  by (cases t) simp

lemma subtree_preorder: "s \<in> subtrees t \<Longrightarrow> set (preorder s) \<subseteq> set (preorder t)"
  by (induction t) auto

lemma subtree_repr: "s \<in> subtrees t \<Longrightarrow> repr h p t \<Longrightarrow> \<exists>q. repr h q s"
  by (induction t arbitrary: p) auto

lemma subtree_at: "x \<in> set (preorder t) \<Longrightarrow> \<exists>s \<in> subtrees t. tr_addr s = x"
  by (induction t) fastforce

lemma subtree_distinct: "s \<in> subtrees t \<Longrightarrow> distinct (preorder t) \<Longrightarrow> distinct (preorder s)"
  by (induction t) (auto simp: distinct_concat_iff)

lemma tree_upd_id: "x \<notin> set (preorder t) \<Longrightarrow> tree_upd x f t = t"
  by (induction t) (auto intro!: map_idI)

lemma repr_cong: "\<forall>a \<in> set (preorder t). h' a = h a \<Longrightarrow> repr h' p t = repr h p t"
  by (induction t arbitrary: p) auto

lemma upd_split:
  assumes "distinct (concat (map preorder (as @ c # bs)))" and "x \<in> set (preorder c)"
  shows "map (tree_upd x f) (as @ c # bs) = as @ tree_upd x f c # bs"
  using assms by (auto intro!: map_idI tree_upd_id)

lemma upd_repr:
  assumes "s \<in> subtrees t" and "distinct (preorder t)" and "repr h q t"
    and "h' (tr_addr s) = map_option (\<lambda>n. n\<lparr>tn_children := map tr_addr (f (tr_subs s))\<rparr>) (h (tr_addr s))"
    and "\<forall>c \<in> set (f (tr_subs s)). repr h' (Some (tr_addr s)) c"
    and "\<forall>a \<in> set (preorder t) - set (preorder s). h' a = h a"
  shows "repr h' q (tree_upd (tr_addr s) f t)"
  using assms(1-3,6)
proof (induction t arbitrary: q)
  case (Node a ti ts)
  show ?case
  proof (cases "s = Node a ti ts")
    case True
    then show ?thesis using Node.prems(3) assms(4,5) by auto
  next
    case False
    then obtain c where c: "c \<in> set ts" "s \<in> subtrees c" using Node.prems(1) by auto
    obtain as bs where ts: "ts = as @ c # bs" using split_list [OF c(1)] by blast
    have sc: "set (preorder s) \<subseteq> set (preorder c)" using subtree_preorder [OF c(2)] .
    have sc': "tr_addr s \<in> set (preorder c)" using sc addr_in_preorder by blast
    have d: "distinct (concat (map preorder (as @ c # bs)))" "a \<notin> set (concat (map preorder ts))" "distinct (preorder c)"
      using Node.prems(2) ts by auto
    have as: "a \<noteq> tr_addr s" "a \<notin> set (preorder s)" using d(2) c(1) sc sc' by auto
    have "h' a = h a" using Node.prems(4) as(2) by simp
    moreover have "repr h' (Some a) (tree_upd (tr_addr s) f c)"
      using Node.IH [OF c(1,2) d(3), of "Some a"] Node.prems(3,4) c(1) by auto
    moreover have "repr h' (Some a) b" if b: "b \<in> set as \<union> set bs" for b
    proof -
      have "set (preorder b) \<inter> set (preorder s) = {}" using d(1) b sc by auto
      then have "\<forall>y \<in> set (preorder b). h' y = h y" using Node.prems(4) b ts by auto
      moreover have "repr h (Some a) b" using Node.prems(3) b ts by auto
      ultimately show ?thesis using repr_cong by blast
    qed
    ultimately show ?thesis
      using as(1) Node.prems(3) upd_split [OF d(1) sc', of f] ts by auto
  qed
qed

lemma upd_preorder:
  assumes "s \<in> subtrees t" and "distinct (preorder t)"
  shows "mset (preorder (tree_upd (tr_addr s) f t)) + mset (concat (map preorder (tr_subs s))) =
         mset (preorder t) + mset (concat (map preorder (f (tr_subs s))))"
  using assms
proof (induction t)
  case (Node a ti ts)
  show ?case
  proof (cases "s = Node a ti ts")
    case True
    then show ?thesis by simp
  next
    case False
    then obtain c where c: "c \<in> set ts" "s \<in> subtrees c" using Node.prems(1) by auto
    obtain as bs where ts: "ts = as @ c # bs" using split_list [OF c(1)] by blast
    have sc: "tr_addr s \<in> set (preorder c)" using subtree_preorder [OF c(2)] addr_in_preorder by blast
    have d: "distinct (concat (map preorder (as @ c # bs)))" "a \<notin> set (concat (map preorder ts))" "distinct (preorder c)"
      using Node.prems(2) ts by auto
    have "a \<noteq> tr_addr s" using d(2) c(1) sc by auto
    then show ?thesis using Node.IH [OF c(1,2) d(3)] upd_split [OF d(1) sc, of f] ts by simp
  qed
qed

lemma store_upd_apply [simp]: "store_upd a f h b = (if b = a then map_option f (h a) else h b)"
  by (simp add: store_upd_def)

lemma repr_detach:
  assumes "repr h q c" and "distinct (preorder c)"
  shows "repr (store_upd (tr_addr c) (\<lambda>m. m\<lparr>tn_parent := p\<rparr>) h) p c"
proof (cases c)
  case (Node a ti ts)
  have "repr (store_upd a (\<lambda>m. m\<lparr>tn_parent := p\<rparr>) h) (Some a) s" if "s \<in> set ts" for s
  proof -
    have "a \<notin> set (preorder s)" using assms(2) Node that by auto
    then show ?thesis using assms(1) Node that repr_cong [of s "store_upd a (\<lambda>m. m\<lparr>tn_parent := p\<rparr>) h" h] by auto
  qed
  then show ?thesis using assms(1) Node by simp
qed

lemma repr_other: "repr h q c \<Longrightarrow> a \<notin> set (preorder c) \<Longrightarrow> repr (store_upd a f h) q c"
  using repr_cong [of c "store_upd a f h" h q] by auto

lemma distinct_addrs: "distinct (concat (map preorder ts)) \<Longrightarrow> distinct (map tr_addr ts)"
proof (induction ts)
  case (Cons t ts)
  have "tr_addr t \<noteq> tr_addr s" if "s \<in> set ts" for s
  proof
    assume "tr_addr t = tr_addr s"
    then have "tr_addr t \<in> set (preorder s)" by simp
    then have "tr_addr t \<in> set (preorder t) \<inter> set (concat (map preorder ts))" using that by auto
    then show False using Cons.prems by (metis concat.simps(2) distinct_append empty_iff list.map(2))
  qed
  then show ?case using Cons by auto
qed simp

lemma map_remove1_addr: "distinct (map tr_addr ts) \<Longrightarrow> c \<in> set ts \<Longrightarrow> map tr_addr (remove1 c ts) = remove1 (tr_addr c) (map tr_addr ts)"
  by (induction ts) (auto, metis image_eqI)

lemma sub_parts:
  assumes "distinct (preorder s)" and "c \<in> set (tr_subs s)"
  shows "set (preorder c) \<subseteq> set (preorder s)" "tr_addr s \<notin> set (preorder c)" "distinct (preorder c)"
    "distinct (map tr_addr (tr_subs s))" "c' \<in> set (remove1 c (tr_subs s)) \<Longrightarrow> set (preorder c') \<inter> set (preorder c) = {}"
proof -
  obtain a ti ts where s: "s = Node a ti ts" by (cases s)
  obtain as bs where ts: "ts = as @ c # bs" "c \<notin> set as" using split_list_first assms(2) s by fastforce
  show "set (preorder c) \<subseteq> set (preorder s)" "tr_addr s \<notin> set (preorder c)" "distinct (preorder c)"
    using assms s by (auto simp: distinct_concat_iff)
  show "distinct (map tr_addr (tr_subs s))" using assms(1) s by (simp add: distinct_addrs)
  show "set (preorder c') \<inter> set (preorder c) = {}" if "c' \<in> set (remove1 c (tr_subs s))"
    using assms(1) s ts that by (auto simp: remove1_append)
qed

lemma mset_concat_remove1: "c \<in> set ts \<Longrightarrow> mset (concat (map preorder ts)) = mset (preorder c) + mset (concat (map preorder (remove1 c ts)))"
  by (induction ts) auto

text \<open>Removing the child \<open>c\<close> of the node \<open>s\<close> takes its subtree out of the tree.\<close>

lemma Remove_refines:
  assumes t: "repr h None t" "distinct (preorder t)" and s: "s \<in> subtrees t" and c: "c \<in> set (tr_subs s)"
  obtains h' where "tn_Remove (tr_addr s) (tr_addr c) h = Some h'"
    "repr h' None (tree_upd (tr_addr s) (remove1 c) t)" "repr h' None c"
    "mset (preorder (tree_upd (tr_addr s) (remove1 c) t)) + mset (preorder c) = mset (preorder t)"
    "\<forall>a. a \<noteq> tr_addr s \<and> a \<noteq> tr_addr c \<longrightarrow> h' a = h a"
proof -
  have ds: "distinct (preorder s)" using subtree_distinct [OF s t(2)] .
  note sp = sub_parts [OF ds c]
  obtain q where q: "repr h q s" using subtree_repr [OF s t(1)] by blast
  have rc: "repr h (Some (tr_addr s)) c" using repr_sub [OF q c] .
  let ?h1 = "store_upd (tr_addr c) (\<lambda>m. m\<lparr>tn_parent := None\<rparr>) h"
  let ?h' = "store_upd (tr_addr s) (\<lambda>n. n\<lparr>tn_children := remove1 (tr_addr c) (tn_children n)\<rparr>) ?h1"
  have ne: "tr_addr c \<noteq> tr_addr s" using sp(2) addr_in_preorder [of c] by metis
  have "tn_Remove (tr_addr s) (tr_addr c) h = Some ?h'"
    using repr_store [OF q] repr_store [OF rc] c by (auto simp: tn_Remove_def)
  moreover have "repr ?h' None c" using repr_other [OF repr_detach [OF rc sp(3)] sp(2)] .
  moreover have "repr ?h' None (tree_upd (tr_addr s) (remove1 c) t)"
  proof (rule upd_repr [OF s t(2,1)])
    show "?h' (tr_addr s) = map_option (\<lambda>n. n\<lparr>tn_children := map tr_addr (remove1 c (tr_subs s))\<rparr>) (h (tr_addr s))"
      using repr_store [OF q] ne map_remove1_addr [OF sp(4) c] by simp
    show "\<forall>c' \<in> set (remove1 c (tr_subs s)). repr ?h' (Some (tr_addr s)) c'"
    proof
      fix c' assume c': "c' \<in> set (remove1 c (tr_subs s))"
      then have in_s: "c' \<in> set (tr_subs s)" using notin_set_remove1 by fast
      have "tr_addr c \<notin> set (preorder c')" using sp(5) [OF c'] addr_in_preorder [of c] by blast
      then show "repr ?h' (Some (tr_addr s)) c'"
        using repr_other [OF repr_other [OF repr_sub [OF q in_s]]] sub_parts(2) [OF ds in_s] by blast
    qed
    show "\<forall>a \<in> set (preorder t) - set (preorder s). ?h' a = h a"
    proof
      fix a assume a: "a \<in> set (preorder t) - set (preorder s)"
      have "tr_addr c \<in> set (preorder s)" using sp(1) addr_in_preorder by blast
      then have "a \<noteq> tr_addr c" "a \<noteq> tr_addr s" using a by auto
      then show "?h' a = h a" by simp
    qed
  qed
  moreover have "mset (preorder (tree_upd (tr_addr s) (remove1 c) t)) + mset (preorder c) = mset (preorder t)"
  proof -
    have "mset (concat (map preorder (tr_subs s))) = mset (preorder c) + mset (concat (map preorder (remove1 c (tr_subs s))))"
      using c by (rule mset_concat_remove1)
    then show ?thesis using upd_preorder [OF s t(2), of "remove1 c"] by simp
  qed
  ultimately show thesis using that by simp
qed

text \<open>Adding a detached tree \<open>u\<close> below the node \<open>s\<close>.\<close>

lemma Add_detached:
  assumes t: "repr h None t" and u: "repr h None u" and d: "distinct (preorder t @ preorder u)"
    and s: "s \<in> subtrees t" and i: "i \<le> length (tr_subs s)"
  obtains h' where "tn_Add (tr_addr s) (tr_addr u) i h = Some h'"
    "repr h' None (tree_upd (tr_addr s) (list_insert_at i u) t)"
    "mset (preorder (tree_upd (tr_addr s) (list_insert_at i u) t)) = mset (preorder t) + mset (preorder u)"
proof -
  obtain q where q: "repr h q s" using subtree_repr [OF s t] by blast
  have dt: "distinct (preorder t)" "distinct (preorder u)" "set (preorder t) \<inter> set (preorder u) = {}" using d by auto
  have ds: "distinct (preorder s)" using subtree_distinct [OF s dt(1)] .
  have su: "set (preorder s) \<inter> set (preorder u) = {}" using subtree_preorder [OF s] dt(3) by blast
  have un: "tr_addr u \<notin> set (preorder s)" "tr_addr s \<notin> set (preorder u)" "tr_addr u \<notin> set (preorder t)"
    using su dt(3) addr_in_preorder by (meson disjoint_iff)+
  then have ne: "tr_addr u \<noteq> tr_addr s" using addr_in_preorder by metis
  let ?h1 = "store_upd (tr_addr u) (\<lambda>m. m\<lparr>tn_parent := Some (tr_addr s)\<rparr>) h"
  let ?h' = "store_upd (tr_addr s) (\<lambda>n. n\<lparr>tn_children := list_insert_at i (tr_addr u) (tn_children n)\<rparr>) ?h1"
  have "tn_Add (tr_addr s) (tr_addr u) i h = Some ?h'"
    using repr_store [OF q] repr_store [OF u] ne i by (simp add: tn_Add_def Let_def)
  moreover have "repr ?h' None (tree_upd (tr_addr s) (list_insert_at i u) t)"
  proof (rule upd_repr [OF s dt(1) t])
    show "?h' (tr_addr s) = map_option (\<lambda>n. n\<lparr>tn_children := map tr_addr (list_insert_at i u (tr_subs s))\<rparr>) (h (tr_addr s))"
      using repr_store [OF q] ne by (simp add: list_insert_at_def take_map drop_map)
    show "\<forall>c \<in> set (list_insert_at i u (tr_subs s)). repr ?h' (Some (tr_addr s)) c"
    proof
      fix c assume "c \<in> set (list_insert_at i u (tr_subs s))"
      then consider "c = u" | "c \<in> set (tr_subs s)" by auto
      then show "repr ?h' (Some (tr_addr s)) c"
      proof cases
        case 1
        then show ?thesis using repr_other [OF repr_detach [OF u dt(2)] un(2)] by simp
      next
        case 2
        note sp = sub_parts [OF ds 2]
        have "tr_addr u \<notin> set (preorder c)" using sp(1) un(1) by blast
        then show ?thesis using repr_other [OF repr_other [OF repr_sub [OF q 2]] sp(2)] by blast
      qed
    qed
    show "\<forall>a \<in> set (preorder t) - set (preorder s). ?h' a = h a"
    proof
      fix a assume a: "a \<in> set (preorder t) - set (preorder s)"
      then have "a \<noteq> tr_addr s" "a \<noteq> tr_addr u" using un(3) by auto
      then show "?h' a = h a" by simp
    qed
  qed
  moreover have "mset (preorder (tree_upd (tr_addr s) (list_insert_at i u) t)) = mset (preorder t) + mset (preorder u)"
  proof -
    have "mset (concat (map preorder (list_insert_at i u (tr_subs s)))) =
        mset (preorder u) + mset (concat (map preorder (take i (tr_subs s) @ drop i (tr_subs s))))"
      unfolding list_insert_at_def map_append concat_append by (simp add: ac_simps)
    then show ?thesis using upd_preorder [OF s dt(1), of "list_insert_at i u"] by simp
  qed
  ultimately show thesis using that by blast
qed

text \<open>(C32) Adding a node to another parent moves its subtree: when the node \<open>c\<close>, a child of \<open>s\<close>, is added below a
  node \<open>p\<close> that is not inside the subtree of \<open>c\<close>, at an index within the children \<open>p\<close> has once \<open>c\<close> is gone,
  then the call completes, the store represents the tree with the subtree taken out below \<open>s\<close> and put
  back at that index below \<open>p\<close>, parent pointers included, and no node is lost, duplicated or shared.\<close>

theorem Add_moves_subtree:
  assumes "repr h None t" and "distinct (preorder t)" and "s \<in> subtrees t" and "c \<in> set (tr_subs s)"
    and "p \<in> subtrees (tree_upd (tr_addr s) (remove1 c) t)" and "i \<le> length (tr_subs p)"
  shows "\<exists>h'. tn_Add (tr_addr p) (tr_addr c) i h = Some h' \<and>
    (let t' = tree_upd (tr_addr p) (list_insert_at i c) (tree_upd (tr_addr s) (remove1 c) t)
     in repr h' None t' \<and> mset (preorder t') = mset (preorder t) \<and> distinct (preorder t'))"
proof -
  let ?t1 = "tree_upd (tr_addr s) (remove1 c) t"
  obtain h1 where h1: "tn_Remove (tr_addr s) (tr_addr c) h = Some h1" "repr h1 None ?t1" "repr h1 None c"
    "mset (preorder ?t1) + mset (preorder c) = mset (preorder t)"
    using Remove_refines [OF assms(1-4)] by metis
  have d: "distinct (preorder ?t1 @ preorder c)"
    using assms(2) mset_eq_imp_distinct_iff [of "preorder ?t1 @ preorder c" "preorder t"] h1(4) by simp
  obtain h' where h': "tn_Add (tr_addr p) (tr_addr c) i h1 = Some h'"
    "repr h' None (tree_upd (tr_addr p) (list_insert_at i c) ?t1)"
    "mset (preorder (tree_upd (tr_addr p) (list_insert_at i c) ?t1)) = mset (preorder ?t1) + mset (preorder c)"
    using Add_detached [OF h1(2,3) d assms(5,6)] by metis
  obtain q where q: "repr h q s" using subtree_repr [OF assms(3,1)] by blast
  have "h (tr_addr c) = Some \<lparr>tn_title = tr_title c, tn_parent = Some (tr_addr s), tn_children = map tr_addr (tr_subs c)\<rparr>"
    using repr_store [OF repr_sub [OF q assms(4)]] .
  then have "tn_Add (tr_addr p) (tr_addr c) i h = tn_Add (tr_addr p) (tr_addr c) i h1"
    using h1(1) repr_store [OF h1(3)] by (simp add: tn_Add_def)
  moreover have "distinct (preorder (tree_upd (tr_addr p) (list_insert_at i c) ?t1))"
    using h'(3) h1(4) assms(2) mset_eq_imp_distinct_iff by (metis (no_types))
  ultimately show ?thesis using h' h1(4) by (auto simp: Let_def)
qed

definition sample_tree :: tree where
  "sample_tree = Node 0 [] [Node 1 [65] [Node 3 [67] []], Node 2 [66] []]"

definition sample_store :: node_store where
  "sample_store =
     [0 \<mapsto> \<lparr>tn_title = [], tn_parent = None, tn_children = [1, 2]\<rparr>,
      1 \<mapsto> \<lparr>tn_title = [65], tn_parent = Some 0, tn_children = [3]\<rparr>,
      2 \<mapsto> \<lparr>tn_title = [66], tn_parent = Some 0, tn_children = []\<rparr>,
      3 \<mapsto> \<lparr>tn_title = [67], tn_parent = Some 1, tn_children = []\<rparr>]"

lemma sample_repr: "repr sample_store None sample_tree" "distinct (preorder sample_tree)"
  by (simp_all add: sample_store_def sample_tree_def)

theorem iterator_preorder_witness:
  "it_collect (Some (\<lambda>a. a = 2)) sample_store (it_init (Some (\<lambda>a. a = 2)) 0 sample_store) = Some [1, 3]"
  using iterator_preorder [OF sample_repr(1), of "Some (\<lambda>a. a = 2)"]
  by (simp add: sample_tree_def descendants_def pruned_def)

theorem Add_moves_subtree_witness:
  "\<exists>h'. tn_Add 2 3 0 sample_store = Some h' \<and> repr h' None (Node 0 [] [Node 1 [65] [], Node 2 [66] [Node 3 [67] []]])"
  using Add_moves_subtree [OF sample_repr, of "Node 1 [65] [Node 3 [67] []]" "Node 3 [67] []" "Node 2 [66] []" 0]
  by (auto simp: sample_tree_def list_insert_at_def Let_def)

text \<open>The index is checked before the node leaves its old parent: moving a child to the end of its own
  parent inserts past the end of the vector.\<close>

lemma Add_own_child_at_end_stops: "tn_child_count 0 sample_store = Some 2" "tn_Add 0 1 2 sample_store = None"
  by (simp_all add: tn_child_count_def sample_store_def tn_Add_def tn_Remove_def Let_def)

section \<open>Ancestors\<close>

lemma HasAncestor_spec:
  assumes "repr h p t" and "case p of None \<Rightarrow> r = False | Some q \<Rightarrow> tn_HasAncestor (Some a) q h = Some r"
    and "x \<in> set (preorder t)" and "distinct (preorder t)" and "r = False \<or> a \<notin> set (preorder t)"
  shows "tn_HasAncestor (Some a) x h = Some (r \<or> (\<exists>s \<in> subtrees t. tr_addr s = a \<and> x \<in> set (preorder s)))"
  using assms
proof (induction t arbitrary: p r)
  case (Node b ti ts)
  have root: "tn_HasAncestor (Some a) b h = Some (r \<or> a = b)"
    using Node.prems(1,2,5) by (subst tn_HasAncestor.simps) (auto split: option.splits)
  show ?case
  proof (cases "x = b")
    case True
    then show ?thesis
      using root Node.prems(4) subtree_preorder by (fastforce simp: subset_iff)
  next
    case False
    then obtain c where c: "c \<in> set ts" "x \<in> set (preorder c)" using Node.prems(3) by auto
    have dc: "distinct (preorder c)" "b \<notin> set (preorder c)" using Node.prems(4) c(1) by (auto simp: distinct_concat_iff)
    have "tn_HasAncestor (Some a) x h = Some ((r \<or> a = b) \<or> (\<exists>s \<in> subtrees c. tr_addr s = a \<and> x \<in> set (preorder s)))"
    proof (rule Node.IH [OF c(1), of "Some b"])
      show "repr h (Some b) c" using Node.prems(1) c(1) by simp
      show "(r \<or> a = b) = False \<or> a \<notin> set (preorder c)" using Node.prems(5) c(1) dc(2) by auto
    qed (use root c(2) dc(1) in simp_all)
    moreover have "x \<notin> set (preorder s)" if "s \<in> subtrees c'" "c' \<in> set ts" "c' \<noteq> c" for s c'
    proof -
      obtain as bs where "ts = as @ c # bs" using split_list [OF c(1)] by blast
      then have "set (preorder c') \<inter> set (preorder c) = {}" using Node.prems(4) that(2,3) by auto
      then show ?thesis using c(2) subtree_preorder [OF that(1)] by blast
    qed
    ultimately show ?thesis using c Node.prems(3) by auto
  qed
qed

end
