(* ===== verification/Pickle.thy ===== *)
theory Pickle
  imports UI_Prelude
begin

text \<open>
  \<open>Pickle\<close> and \<open>PickleIterator\<close> (\<open>src/base/pickle.cc\<close>, \<open>pickle.h\<close>): the binary format in which the toolkit
  passes clipboard and drag data between processes. The model is at the level of bytes: the buffer is a
  list of bytes, pointers are offsets into it, a read or write outside the buffer is \<open>None\<close>, and so is
  the dereference of a null header and a failed \<open>CHECK\<close>. The machine is little-endian with 64 bits.

  The allocator is a parameter: which requests succeed, and the bytes of fresh memory.
\<close>

section \<open>Bytes\<close>

type_synonym byte = "8 word"

primrec le_bytes :: "nat \<Rightarrow> nat \<Rightarrow> byte list" where
  "le_bytes 0 x = []"
| "le_bytes (Suc n) x = of_nat (x mod 256) # le_bytes n (x div 256)"

primrec le_val :: "byte list \<Rightarrow> nat" where
  "le_val [] = 0"
| "le_val (b # bs) = unat b + 256 * le_val bs"

definition mem_read :: "nat \<Rightarrow> nat \<Rightarrow> byte list \<Rightarrow> byte list option" where
  "mem_read off n buf = (if off + n \<le> length buf then Some (take n (drop off buf)) else None)"

definition mem_write :: "nat \<Rightarrow> byte list \<Rightarrow> byte list \<Rightarrow> byte list option" where
  "mem_write off bs buf =
     (if off + length bs \<le> length buf then Some (take off buf @ bs @ drop (off + length bs) buf) else None)"

text \<open>An \<open>int\<close> as its four bytes.\<close>

definition int_bytes :: "int \<Rightarrow> byte list" where
  "int_bytes v = le_bytes 4 (nat (v mod 2 ^ 32))"

definition AlignInt :: "nat \<Rightarrow> nat \<Rightarrow> nat" where
  "AlignInt i alignment = i + (alignment - i mod alignment) mod alignment"

section \<open>Pickle\<close>

record allocator =
  realloc_ok :: "nat \<Rightarrow> bool"
  fresh_byte :: "nat \<Rightarrow> byte"

record pickle =
  pk_header :: "byte list option"
  pk_header_size :: nat
  pk_capacity :: nat
  pk_variable_buffer_offset :: nat

definition kPayloadUnit :: nat where
  "kPayloadUnit = 64"

definition kCapacityReadOnly :: nat where
  "kCapacityReadOnly = size_t_max"

definition pk_payload_size :: "pickle \<Rightarrow> nat option" where
  "pk_payload_size p = do { buf \<leftarrow> pk_header p; bs \<leftarrow> mem_read 0 4 buf; Some (le_val bs) }"

definition set_payload_size :: "nat \<Rightarrow> pickle \<Rightarrow> pickle option" where
  "set_payload_size n p = do {
     buf \<leftarrow> pk_header p;
     buf' \<leftarrow> mem_write 0 (le_bytes 4 (n mod 2 ^ 32)) buf;
     Some (p\<lparr>pk_header := Some buf'\<rparr>)
   }"

definition pk_poke :: "nat \<Rightarrow> byte list \<Rightarrow> pickle \<Rightarrow> pickle option" where
  "pk_poke off bs p = do {
     buf \<leftarrow> pk_header p;
     buf' \<leftarrow> mem_write off bs buf;
     Some (p\<lparr>pk_header := Some buf'\<rparr>)
   }"

definition pk_size :: "pickle \<Rightarrow> nat option" where
  "pk_size p = map_option (\<lambda>n. pk_header_size p + n) (pk_payload_size p)"

definition pk_Resize :: "allocator \<Rightarrow> nat \<Rightarrow> pickle \<Rightarrow> (pickle \<times> bool) option" where
  "pk_Resize A new_capacity p =
     (let cap = AlignInt new_capacity kPayloadUnit
      in if pk_capacity p = kCapacityReadOnly then None
         else if \<not> realloc_ok A cap then Some (p, False)
         else let old = (case pk_header p of None \<Rightarrow> [] | Some b \<Rightarrow> b)
              in Some (p\<lparr>pk_header := Some (take cap old @ map (fresh_byte A) [length old ..< cap]), pk_capacity := cap\<rparr>, True))"

text \<open>The constructors: with the size of the header, over a block of data, and as a copy.\<close>

definition pk_fresh :: "allocator \<Rightarrow> nat \<Rightarrow> pickle option" where
  "pk_fresh A header_size = do {
     (p, _) \<leftarrow> pk_Resize A kPayloadUnit
       \<lparr>pk_header = None, pk_header_size = header_size, pk_capacity = 0, pk_variable_buffer_offset = 0\<rparr>;
     set_payload_size 0 p
   }"

definition pk_init :: "allocator \<Rightarrow> pickle option" where
  "pk_init A = pk_fresh A 4"

definition pk_init_header :: "allocator \<Rightarrow> nat \<Rightarrow> pickle option" where
  "pk_init_header A header_size = pk_fresh A (AlignInt header_size 4)"

definition pk_from_data :: "byte list \<Rightarrow> int \<Rightarrow> pickle option" where
  "pk_from_data data data_len = do {
     hs0 \<leftarrow> (if 4 \<le> data_len
             then map_option (\<lambda>bs. nat ((data_len - int (le_val bs)) mod 2 ^ 32)) (mem_read 0 4 data)
             else Some 0);
     let hs1 = (if int hs0 > data_len mod 2 ^ 32 then 0 else hs0);
     let hs2 = (if hs1 \<noteq> AlignInt hs1 4 then 0 else hs1);
     Some \<lparr>pk_header = (if hs2 = 0 then None else Some data), pk_header_size = hs2,
           pk_capacity = kCapacityReadOnly, pk_variable_buffer_offset = 0\<rparr>
   }"

definition pk_copy :: "allocator \<Rightarrow> pickle \<Rightarrow> pickle option" where
  "pk_copy A other = do {
     ps \<leftarrow> pk_payload_size other;
     let n = pk_header_size other + ps;
     (p, resized) \<leftarrow> pk_Resize A n
       \<lparr>pk_header = None, pk_header_size = pk_header_size other, pk_capacity = 0,
        pk_variable_buffer_offset = pk_variable_buffer_offset other\<rparr>;
     if \<not> resized then None
     else do { buf \<leftarrow> pk_header other; bs \<leftarrow> mem_read 0 n buf; pk_poke 0 bs p }
   }"

definition pk_assign :: "allocator \<Rightarrow> pickle \<Rightarrow> pickle \<Rightarrow> pickle option" where
  "pk_assign A other this = do {
     let t1 = (if pk_capacity this = kCapacityReadOnly then this\<lparr>pk_header := None, pk_capacity := 0\<rparr> else this);
     let t2 = (if pk_header_size t1 \<noteq> pk_header_size other
               then t1\<lparr>pk_header := None, pk_header_size := pk_header_size other\<rparr> else t1);
     ps \<leftarrow> pk_payload_size other;
     (t3, resized) \<leftarrow> pk_Resize A (pk_header_size other + ps) t2;
     if \<not> resized then None
     else do {
       buf \<leftarrow> pk_header other;
       bs \<leftarrow> mem_read 0 (pk_header_size other + ps) buf;
       t4 \<leftarrow> pk_poke 0 bs t3;
       Some (t4\<lparr>pk_variable_buffer_offset := pk_variable_buffer_offset other\<rparr>)
     }
   }"

section \<open>Writing\<close>

text \<open>The result of \<open>BeginWrite\<close> is the offset from the header, \<open>None\<close> for a null pointer.\<close>

definition pk_BeginWrite :: "allocator \<Rightarrow> nat \<Rightarrow> pickle \<Rightarrow> (pickle \<times> nat option) option" where
  "pk_BeginWrite A len p = do {
     ps \<leftarrow> pk_payload_size p;
     let offset = AlignInt ps 4;
     let new_size = offset + len;
     let needed_size = pk_header_size p + new_size;
     (p1, ok) \<leftarrow> (if needed_size > pk_capacity p then pk_Resize A (max (pk_capacity p * 2) needed_size) p
                   else Some (p, True));
     if \<not> ok then Some (p1, None)
     else do { p2 \<leftarrow> set_payload_size new_size p1; Some (p2, Some (pk_header_size p2 + offset)) }
   }"

definition pk_EndWrite :: "nat \<Rightarrow> nat \<Rightarrow> pickle \<Rightarrow> pickle option" where
  "pk_EndWrite dest len p =
     (if len mod 4 \<noteq> 0 then pk_poke (dest + len) (replicate (4 - len mod 4) 0) p else Some p)"

definition pk_WriteBytes :: "allocator \<Rightarrow> byte list \<Rightarrow> int \<Rightarrow> pickle \<Rightarrow> (pickle \<times> bool) option" where
  "pk_WriteBytes A data data_len p =
     (if data_len < 0 then None
      else do {
        (p1, dest) \<leftarrow> pk_BeginWrite A (nat data_len) p;
        case dest of None \<Rightarrow> Some (p1, False)
        | Some d \<Rightarrow> do {
            bs \<leftarrow> mem_read 0 (nat data_len) data;
            p2 \<leftarrow> pk_poke d bs p1;
            p3 \<leftarrow> pk_EndWrite d (nat data_len) p2;
            Some (p3, True)
          }
      })"

definition pk_WriteInt :: "allocator \<Rightarrow> int \<Rightarrow> pickle \<Rightarrow> (pickle \<times> bool) option" where
  "pk_WriteInt A v p = pk_WriteBytes A (int_bytes v) 4 p"

definition pk_WriteBool :: "allocator \<Rightarrow> bool \<Rightarrow> pickle \<Rightarrow> (pickle \<times> bool) option" where
  "pk_WriteBool A v p = pk_WriteInt A (if v then 1 else 0) p"

definition pk_WriteUInt16 :: "allocator \<Rightarrow> 16 word \<Rightarrow> pickle \<Rightarrow> (pickle \<times> bool) option" where
  "pk_WriteUInt16 A v p = pk_WriteBytes A (le_bytes 2 (unat v)) 2 p"

definition pk_WriteUInt32 :: "allocator \<Rightarrow> 32 word \<Rightarrow> pickle \<Rightarrow> (pickle \<times> bool) option" where
  "pk_WriteUInt32 A v p = pk_WriteBytes A (le_bytes 4 (unat v)) 4 p"

definition pk_WriteUInt64 :: "allocator \<Rightarrow> 64 word \<Rightarrow> pickle \<Rightarrow> (pickle \<times> bool) option" where
  "pk_WriteUInt64 A v p = pk_WriteBytes A (le_bytes 8 (unat v)) 8 p"

text \<open>\<open>long\<close> has 64 bits here, so \<open>WriteLong...\<close> and \<open>ReadLong\<close> are the same operations.\<close>

definition pk_WriteInt64 :: "allocator \<Rightarrow> int \<Rightarrow> pickle \<Rightarrow> (pickle \<times> bool) option" where
  "pk_WriteInt64 A v p = pk_WriteBytes A (le_bytes 8 (nat (v mod 2 ^ 64))) 8 p"

text \<open>A call \<open>WriteInt(n) && WriteBytes(data, len)\<close>.\<close>

definition write_sized :: "allocator \<Rightarrow> int \<Rightarrow> byte list \<Rightarrow> int \<Rightarrow> pickle \<Rightarrow> (pickle \<times> bool) option" where
  "write_sized A n data data_len p = do {
     (p1, ok) \<leftarrow> pk_WriteInt A n p;
     if \<not> ok then Some (p1, False) else pk_WriteBytes A data data_len p1
   }"

definition pk_WriteString :: "allocator \<Rightarrow> byte list \<Rightarrow> pickle \<Rightarrow> (pickle \<times> bool) option" where
  "pk_WriteString A value p = write_sized A (wrap32 (int (length value))) value (wrap32 (int (length value))) p"

definition units_bytes :: "nat \<Rightarrow> ('a :: len) word list \<Rightarrow> byte list" where
  "units_bytes n us = concat (map (\<lambda>u. le_bytes n (unat u)) us)"

definition pk_WriteWString :: "allocator \<Rightarrow> 32 word list \<Rightarrow> pickle \<Rightarrow> (pickle \<times> bool) option" where
  "pk_WriteWString A value p =
     write_sized A (wrap32 (int (length value))) (units_bytes 4 value) (wrap32 (int (length value) * 4)) p"

definition pk_WriteString16 :: "allocator \<Rightarrow> string16 \<Rightarrow> pickle \<Rightarrow> (pickle \<times> bool) option" where
  "pk_WriteString16 A value p =
     write_sized A (wrap32 (int (length value))) (units_bytes 2 value) (wrap32 (wrap32 (int (length value)) * 2)) p"

definition pk_WriteData :: "allocator \<Rightarrow> byte list \<Rightarrow> int \<Rightarrow> pickle \<Rightarrow> (pickle \<times> bool) option" where
  "pk_WriteData A data len p = (if len < 0 then Some (p, False) else write_sized A len data len p)"

definition pk_BeginWriteData :: "allocator \<Rightarrow> int \<Rightarrow> pickle \<Rightarrow> (pickle \<times> nat option) option" where
  "pk_BeginWriteData A len p =
     (if len < 0 then Some (p, None)
      else do {
        (p1, ok) \<leftarrow> pk_WriteInt A len p;
        if \<not> ok then Some (p1, None)
        else do {
          (p2, dest) \<leftarrow> pk_BeginWrite A (nat len) p1;
          case dest of None \<Rightarrow> Some (p2, None)
          | Some d \<Rightarrow> do {
              p3 \<leftarrow> pk_EndWrite d (nat len) (p2\<lparr>pk_variable_buffer_offset := d - 4\<rparr>);
              Some (p3, Some d)
            }
        }
      })"

definition pk_TrimWriteData :: "int \<Rightarrow> pickle \<Rightarrow> pickle option" where
  "pk_TrimWriteData new_length p = do {
     buf \<leftarrow> pk_header p;
     bs \<leftarrow> mem_read (pk_variable_buffer_offset p) 4 buf;
     let cur_length = wrap32 (int (le_val bs));
     if new_length < 0 \<or> new_length > cur_length then Some p
     else do {
       ps \<leftarrow> pk_payload_size p;
       p1 \<leftarrow> set_payload_size (nat ((int ps - (cur_length - new_length)) mod 2 ^ 32)) p;
       pk_poke (pk_variable_buffer_offset p) (int_bytes new_length) p1
     }
   }"

section \<open>Reading\<close>

record pickle_iterator =
  pi_data :: "byte list option"
  pi_ptr :: nat
  pi_end :: nat

definition pi_init :: "pickle \<Rightarrow> pickle_iterator option" where
  "pi_init p =
     (case pk_header p of
        None \<Rightarrow> Some \<lparr>pi_data = None, pi_ptr = pk_header_size p, pi_end = 0\<rparr>
      | Some buf \<Rightarrow> do {
          ps \<leftarrow> pk_payload_size p;
          Some \<lparr>pi_data = Some buf, pi_ptr = pk_header_size p, pi_end = pk_header_size p + ps\<rparr>
        })"

definition GetReadPointerAndAdvance_type :: "nat \<Rightarrow> pickle_iterator \<Rightarrow> nat option \<times> pickle_iterator" where
  "GetReadPointerAndAdvance_type sz it =
     (if pi_ptr it + sz > pi_end it then (None, it)
      else (Some (pi_ptr it), it\<lparr>pi_ptr := pi_ptr it + (if sz < 4 then AlignInt sz 4 else sz)\<rparr>))"

definition GetReadPointerAndAdvance_bytes :: "int \<Rightarrow> pickle_iterator \<Rightarrow> nat option \<times> pickle_iterator" where
  "GetReadPointerAndAdvance_bytes num_bytes it =
     (if num_bytes < 0 \<or> int (pi_end it) - int (pi_ptr it) < num_bytes then (None, it)
      else (if pi_data it = None then None else Some (pi_ptr it),
            it\<lparr>pi_ptr := pi_ptr it + AlignInt (nat num_bytes) 4\<rparr>))"

definition GetReadPointerAndAdvance_elements :: "int \<Rightarrow> nat \<Rightarrow> pickle_iterator \<Rightarrow> nat option \<times> pickle_iterator" where
  "GetReadPointerAndAdvance_elements num_elements size_element it =
     (let num_bytes = num_elements * int size_element; num_bytes32 = wrap32 num_bytes
      in if num_bytes \<noteq> num_bytes32 then (None, it) else GetReadPointerAndAdvance_bytes num_bytes32 it)"

text \<open>A read returns \<open>None\<close> as its first component when the method returns false.\<close>

type_synonym 'a read_result = "('a option \<times> pickle_iterator) option"

definition read_at :: "nat option \<times> pickle_iterator \<Rightarrow> nat \<Rightarrow> (byte list \<Rightarrow> 'a) \<Rightarrow> 'a read_result" where
  "read_at r n f =
     (case r of (None, it) \<Rightarrow> Some (None, it)
      | (Some off, it) \<Rightarrow> do { buf \<leftarrow> pi_data it; bs \<leftarrow> mem_read off n buf; Some (Some (f bs), it) })"

definition ReadBuiltinType :: "nat \<Rightarrow> pickle_iterator \<Rightarrow> nat read_result" where
  "ReadBuiltinType sz it = read_at (GetReadPointerAndAdvance_type sz it) sz le_val"

definition map_result :: "('a \<Rightarrow> 'b) \<Rightarrow> 'a read_result \<Rightarrow> 'b read_result" where
  "map_result f r = map_option (\<lambda>(x, it). (map_option f x, it)) r"

definition pi_ReadBool :: "pickle_iterator \<Rightarrow> bool read_result" where
  "pi_ReadBool it = map_result (\<lambda>x. x \<noteq> 0) (ReadBuiltinType 1 it)"

definition pi_ReadInt :: "pickle_iterator \<Rightarrow> int read_result" where
  "pi_ReadInt it = map_result (\<lambda>x. wrap32 (int x)) (ReadBuiltinType 4 it)"

definition pi_ReadUInt16 :: "pickle_iterator \<Rightarrow> 16 word read_result" where
  "pi_ReadUInt16 it = map_result of_nat (ReadBuiltinType 2 it)"

definition pi_ReadUInt32 :: "pickle_iterator \<Rightarrow> 32 word read_result" where
  "pi_ReadUInt32 it = map_result of_nat (ReadBuiltinType 4 it)"

definition pi_ReadUInt64 :: "pickle_iterator \<Rightarrow> 64 word read_result" where
  "pi_ReadUInt64 it = map_result of_nat (ReadBuiltinType 8 it)"

definition pi_ReadInt64 :: "pickle_iterator \<Rightarrow> int read_result" where
  "pi_ReadInt64 it = map_result (\<lambda>x. (int x + 2 ^ 63) mod 2 ^ 64 - 2 ^ 63) (ReadBuiltinType 8 it)"

text \<open>Reading a length and then that many elements; \<open>f\<close> makes the result of the bytes.\<close>

definition read_sized :: "nat \<Rightarrow> (byte list \<Rightarrow> 'a) \<Rightarrow> pickle_iterator \<Rightarrow> 'a read_result" where
  "read_sized size_element f it = do {
     (len, it1) \<leftarrow> pi_ReadInt it;
     case len of None \<Rightarrow> Some (None, it1)
     | Some n \<Rightarrow> read_at (GetReadPointerAndAdvance_elements n size_element it1) (nat n * size_element) f
   }"

text \<open>The units of a string in memory.\<close>

function units_of :: "nat \<Rightarrow> byte list \<Rightarrow> ('a :: len) word list" where
  "units_of n bs = (if n = 0 \<or> bs = [] then [] else of_nat (le_val (take n bs)) # units_of n (drop n bs))"
  by pat_completeness auto
termination by (relation "measure (\<lambda>(n, bs). length bs)") auto

declare units_of.simps [simp del]

definition pi_ReadBytes :: "int \<Rightarrow> pickle_iterator \<Rightarrow> byte list read_result" where
  "pi_ReadBytes len it = read_at (GetReadPointerAndAdvance_bytes len it) (nat len) (\<lambda>bs. bs)"

definition pi_ReadString :: "pickle_iterator \<Rightarrow> byte list read_result" where
  "pi_ReadString it = do {
     (len, it1) \<leftarrow> pi_ReadInt it;
     case len of None \<Rightarrow> Some (None, it1)
     | Some n \<Rightarrow> read_at (GetReadPointerAndAdvance_bytes n it1) (nat n) (\<lambda>bs. bs)
   }"

definition pi_ReadWString :: "pickle_iterator \<Rightarrow> 32 word list read_result" where
  "pi_ReadWString it = read_sized 4 (units_of 4) it"

definition pi_ReadString16 :: "pickle_iterator \<Rightarrow> string16 read_result" where
  "pi_ReadString16 it = read_sized 2 (units_of 2) it"

definition pi_ReadData :: "pickle_iterator \<Rightarrow> byte list read_result" where
  "pi_ReadData it = do {
     (len, it1) \<leftarrow> pi_ReadInt it;
     case len of None \<Rightarrow> Some (None, it1) | Some n \<Rightarrow> pi_ReadBytes n it1
   }"

definition pi_ReadLength :: "pickle_iterator \<Rightarrow> int read_result" where
  "pi_ReadLength it = map_option (\<lambda>(x, it'). (Option.bind x (\<lambda>n. if 0 \<le> n then Some n else None), it')) (pi_ReadInt it)"

definition pi_SkipBytes :: "int \<Rightarrow> pickle_iterator \<Rightarrow> bool \<times> pickle_iterator" where
  "pi_SkipBytes num_bytes it =
     (case GetReadPointerAndAdvance_bytes num_bytes it of (r, it') \<Rightarrow> (r \<noteq> None, it'))"

text \<open>The end of a pickle that starts at the beginning of the range \<open>bs\<close>.\<close>

definition pk_FindNext :: "nat \<Rightarrow> byte list \<Rightarrow> nat option" where
  "pk_FindNext header_size bs =
     (if length bs < 4 then None
      else let payload_end = header_size + le_val (take 4 bs) in if payload_end > length bs then None else Some payload_end)"

end
