(* ===== verification/Pickle_Guarantees.thy ===== *)
theory Pickle_Guarantees
  imports Pickle
begin

text \<open>
  What the pickle format promises. The buffer of a pickle is described by the list of chunks written to
  it (\<open>pk_holds\<close>), each padded to four bytes except the last; every write appends one chunk, whatever the
  allocator does, and an iterator reads the chunks off again (\<open>pi_holds\<close>). The round trip is over sequences
  of values of all the types the class has methods for. The last section reads from arbitrary bytes.
\<close>


section \<open>Bytes and alignment\<close>

lemma length_le_bytes [simp]: "length (le_bytes n x) = n"
  by (induction n arbitrary: x) simp_all

lemma le_bytes_Nil [simp]: "le_bytes n x = [] \<longleftrightarrow> n = 0"
  by (metis length_0_conv length_le_bytes)

lemma le_val_le_bytes: "le_val (le_bytes n x) = x mod 256 ^ n"
proof (induction n arbitrary: x)
  case (Suc n)
  have "unat (of_nat (x mod 256) :: byte) = x mod 256" by (simp add: unat_of_nat)
  then show ?case using Suc by (simp add: mod_mult2_eq)
qed simp

lemma le_val_less: "le_val bs < 256 ^ length bs"
proof (induction bs)
  case (Cons b bs)
  have "unat b < 256" using unsigned_less [of b, where ?'a = nat] by simp
  then show ?case using Cons by simp
qed simp

lemma AlignInt_cases: "0 < a \<Longrightarrow> AlignInt i a = (if i mod a = 0 then i else i + (a - i mod a))"
  by (simp add: AlignInt_def)

lemma AlignInt_mod: "0 < a \<Longrightarrow> AlignInt i a mod a = 0"
proof -
  assume a: "0 < a"
  have "i + (a - i mod a) = a * (i div a + 1)" if "i mod a \<noteq> 0"
    unfolding distrib_left mult_1_right using mult_div_mod_eq [of a i] mod_less_divisor [OF a, of i] by linarith
  then show ?thesis by (simp add: AlignInt_cases [OF a])
qed

lemma AlignInt_ge: "i \<le> AlignInt i a"
  by (simp add: AlignInt_def)

lemma AlignInt_same: "i mod a = 0 \<Longrightarrow> AlignInt i a = i"
  by (simp add: AlignInt_def)

lemma AlignInt_add: "j mod 4 = 0 \<Longrightarrow> AlignInt (j + i) 4 = j + AlignInt i 4"
  by (auto simp: AlignInt_cases mod_add_eq [symmetric, of j])

lemma AlignInt_le: "n mod 4 = 0 \<Longrightarrow> i \<le> n \<Longrightarrow> AlignInt i 4 \<le> n"
proof (cases "i mod 4 = 0")
  case False
  assume "n mod 4 = 0" "i \<le> n"
  then obtain q where q: "n = q * 4" by (metis dvdE dvd_eq_mod_eq_0 mult.commute)
  have "i \<noteq> n" using False \<open>n mod 4 = 0\<close> by auto
  then have "i div 4 < q" using \<open>i \<le> n\<close> q by (intro div_less_iff_less_mult [THEN iffD2]) simp_all
  moreover have "i = 4 * (i div 4) + i mod 4" "i mod 4 < 4" by simp_all
  ultimately have "i + (4 - i mod 4) \<le> n" using q by linarith
  then show ?thesis using False by (simp add: AlignInt_cases)
qed (simp add: AlignInt_same)

lemma mem_write_at: "length x = length bs \<Longrightarrow> mem_write (length a) bs (a @ x @ b) = Some (a @ bs @ b)"
  by (simp add: mem_write_def)

lemma mem_read_at: "n = length bs \<Longrightarrow> mem_read (length a) n (a @ bs @ b) = Some bs"
  by (simp add: mem_read_def)

section \<open>Layout of the payload\<close>

text \<open>The payload is a sequence of chunks, each but the last padded to four bytes.\<close>

definition padded :: "byte list \<Rightarrow> byte list" where
  "padded c = c @ replicate (AlignInt (length c) 4 - length c) 0"

lemma length_padded [simp]: "length (padded c) = AlignInt (length c) 4"
  using AlignInt_ge [of "length c" 4] by (simp add: padded_def)

fun layout :: "byte list list \<Rightarrow> byte list" where
  "layout [] = []"
| "layout [c] = c"
| "layout (c # cs) = padded c @ layout cs"

abbreviation padded_all :: "byte list list \<Rightarrow> byte list" where
  "padded_all cs \<equiv> concat (map padded cs)"

lemma padded_all_4: "length (padded_all cs) mod 4 = 0"
  by (induction cs) (simp_all add: AlignInt_mod mod_add_eq [symmetric])

lemma layout_snoc: "layout (cs @ [c]) = padded_all cs @ c"
  by (induction cs rule: layout.induct) simp_all

lemma layout_Cons: "layout (c # cs) = (if cs = [] then c else padded c @ layout cs)"
  by (cases cs) simp_all

lemma layout_padded: "\<exists>zs. padded_all cs = layout cs @ zs" and layout_align: "AlignInt (length (layout cs)) 4 = length (padded_all cs)"
proof -
  show "\<exists>zs. padded_all cs = layout cs @ zs"
    by (cases cs rule: rev_cases) (auto simp: layout_snoc padded_def)
  show "AlignInt (length (layout cs)) 4 = length (padded_all cs)"
    by (cases cs rule: rev_cases) (simp_all add: layout_snoc AlignInt_add [OF padded_all_4] AlignInt_def [of 0])
qed

lemma layout_le: "length (layout cs) \<le> length (padded_all cs)"
  using layout_align [of cs] AlignInt_ge [of "length (layout cs)" 4] by simp

section \<open>Writing appends a chunk\<close>

definition pk_holds :: "nat \<Rightarrow> byte list list \<Rightarrow> pickle \<Rightarrow> bool" where
  "pk_holds hs cs p \<longleftrightarrow>
     (\<exists>h0 rest. pk_header p = Some (le_bytes 4 (length (layout cs)) @ h0 @ padded_all cs @ rest) \<and>
        hs = 4 + length h0 \<and> pk_capacity p = 4 + length h0 + length (padded_all cs) + length rest) \<and>
     pk_header_size p = hs \<and> hs mod 4 = 0 \<and> pk_capacity p mod 64 = 0 \<and> length (layout cs) < 2 ^ 32"

lemma pk_holdsI:
  assumes "pk_header p = Some (le_bytes 4 (length (layout cs)) @ h0 @ padded_all cs @ rest)" and "hs = 4 + length h0"
    and "pk_capacity p = 4 + length h0 + length (padded_all cs) + length rest" and "pk_header_size p = hs"
    and "hs mod 4 = 0" and "pk_capacity p mod 64 = 0" and "length (layout cs) < 2 ^ 32"
  shows "pk_holds hs cs p"
  using assms unfolding pk_holds_def by blast

lemma numeral_dvd_64: "(4::nat) dvd 64"
  by simp

lemma not_read_only: "n mod 64 = 0 \<Longrightarrow> n \<noteq> kCapacityReadOnly"
  by (auto simp: kCapacityReadOnly_def size_t_max_def)

lemma payload_size_holds: "pk_holds hs cs p \<Longrightarrow> pk_payload_size p = Some (length (layout cs))"
  using mem_read_at [of 4 "le_bytes 4 (length (layout cs))" "[]"]
  by (auto simp: pk_holds_def pk_payload_size_def le_val_le_bytes)

text \<open>Growing the buffer keeps what it holds and makes room.\<close>

lemma Resize_holds:
  assumes "pk_holds hs cs p" and "pk_capacity p \<le> n"
  shows "\<exists>p' ok. pk_Resize A n p = Some (p', ok) \<and>
    (if ok then pk_holds hs cs p' \<and> n \<le> pk_capacity p' else p' = p \<and> \<not> realloc_ok A (AlignInt n 64))"
proof -
  obtain h0 rest where p: "pk_header p = Some (le_bytes 4 (length (layout cs)) @ h0 @ padded_all cs @ rest)"
    "hs = 4 + length h0" "pk_capacity p = 4 + length h0 + length (padded_all cs) + length rest"
    "pk_header_size p = hs" "hs mod 4 = 0" "pk_capacity p mod 64 = 0" "length (layout cs) < 2 ^ 32"
    using assms(1) by (auto simp: pk_holds_def)
  let ?cap = "AlignInt n 64"
  let ?new = "map (fresh_byte A) [pk_capacity p ..< ?cap]"
  let ?p = "p\<lparr>pk_header := Some (le_bytes 4 (length (layout cs)) @ h0 @ padded_all cs @ (rest @ ?new)), pk_capacity := ?cap\<rparr>"
  have cap: "pk_capacity p \<le> ?cap" "n \<le> ?cap" using AlignInt_ge [of n 64] assms(2) by linarith+
  have "pk_Resize A n p = (if realloc_ok A ?cap then Some (?p, True) else Some (p, False))"
    using p(1,3) cap(1) not_read_only [OF p(6)] by (auto simp: pk_Resize_def kPayloadUnit_def Let_def add.assoc)
  moreover have "pk_holds hs cs ?p"
    using p cap AlignInt_mod [of 64 n] by (intro pk_holdsI [of _ _ h0 "rest @ ?new"]) simp_all
  ultimately show ?thesis using cap(2) by auto
qed

lemma pk_poke_at: "pk_header p = Some (a @ x @ b) \<Longrightarrow> length a = n \<Longrightarrow> length x = length bs \<Longrightarrow>
    pk_poke n bs p = Some (p\<lparr>pk_header := Some (a @ bs @ b)\<rparr>)"
  using mem_write_at [of x bs a b] by (simp add: pk_poke_def)

text \<open>Writing a chunk into a buffer with enough room.\<close>

lemma write_in_place:
  assumes p: "pk_header p = Some (le_bytes 4 m @ h0 @ padded_all cs @ rest)" "hs = 4 + length h0"
      "pk_header_size p = hs" and room: "AlignInt (length c) 4 \<le> length rest"
    and small: "length (layout (cs @ [c])) < 2 ^ 32"
  shows "\<exists>p1 p2 rest'. set_payload_size (length (layout (cs @ [c]))) p = Some p1 \<and>
    pk_header_size p1 = hs \<and> pk_capacity p1 = pk_capacity p \<and>
    pk_poke (hs + length (padded_all cs)) c p1 = Some p2 \<and>
    pk_EndWrite (hs + length (padded_all cs)) (length c) p2 =
      Some (p2\<lparr>pk_header := Some (le_bytes 4 (length (layout (cs @ [c]))) @ h0 @ padded_all (cs @ [c]) @ rest')\<rparr>) \<and>
    pk_header_size p2 = hs \<and> pk_capacity p2 = pk_capacity p \<and> AlignInt (length c) 4 + length rest' = length rest"
proof -
  let ?k = "AlignInt (length c) 4 - length c"
  define x y rest' where "x = take (length c) rest" and "y = take ?k (drop (length c) rest)" and "rest' = drop (AlignInt (length c) 4) rest"
  have al: "length c \<le> AlignInt (length c) 4" by (rule AlignInt_ge)
  have len: "length x = length c" "length y = ?k" "AlignInt (length c) 4 + length rest' = length rest"
    using room al by (simp_all add: x_def y_def rest'_def)
  have rest: "rest = x @ y @ rest'"
  proof -
    have "drop (length c) rest = y @ drop ?k (drop (length c) rest)" unfolding y_def by (rule append_take_drop_id [symmetric])
    also have "drop ?k (drop (length c) rest) = rest'" using al by (simp add: rest'_def)
    finally show ?thesis by (metis append_take_drop_id x_def)
  qed
  let ?sz = "le_bytes 4 (length (layout (cs @ [c])))"
  let ?p1 = "p\<lparr>pk_header := Some (?sz @ h0 @ padded_all cs @ rest)\<rparr>"
  let ?p2 = "p\<lparr>pk_header := Some (?sz @ h0 @ padded_all cs @ c @ y @ rest')\<rparr>"
  have 1: "set_payload_size (length (layout (cs @ [c]))) p = Some ?p1"
    using p(1) small mem_write_at [of "le_bytes 4 m" ?sz "[]" "h0 @ padded_all cs @ rest"]
    by (simp add: set_payload_size_def)
  have 2: "pk_poke (hs + length (padded_all cs)) c ?p1 = Some ?p2"
    using pk_poke_at [of ?p1 "?sz @ h0 @ padded_all cs" x "y @ rest'" "hs + length (padded_all cs)" c] rest len(1) p(2)
    by simp
  have k: "?k = (if length c mod 4 = 0 then 0 else 4 - length c mod 4)"
    by (simp add: AlignInt_cases)
  have 3: "pk_EndWrite (hs + length (padded_all cs)) (length c) ?p2 =
      Some (?p2\<lparr>pk_header := Some (?sz @ h0 @ padded_all (cs @ [c]) @ rest')\<rparr>)"
  proof (cases "length c mod 4 = 0")
    case True
    then have "y = []" "?k = 0" using len(2) k by simp_all
    then show ?thesis using True by (simp add: pk_EndWrite_def padded_def)
  next
    case False
    then show ?thesis
      using pk_poke_at [of ?p2 "?sz @ h0 @ padded_all cs @ c" y rest' "hs + length (padded_all cs) + length c" "replicate ?k 0"]
        len(2) k p(2) by (simp add: pk_EndWrite_def padded_def)
  qed
  show ?thesis
    using 1 2 3 len(3) p(3) by (intro exI [of _ ?p1] exI [of _ ?p2] exI [of _ rest']) simp
qed

lemma WriteBytes_holds:
  assumes h: "pk_holds hs cs p" and small: "length (layout (cs @ [c])) < 2 ^ 32"
  shows "\<exists>p' ok. pk_WriteBytes A c (int (length c)) p = Some (p', ok) \<and>
    (if ok then pk_holds hs (cs @ [c]) p' else p' = p \<and> (\<exists>n. \<not> realloc_ok A n))"
proof -
  let ?off = "length (padded_all cs)"
  let ?need = "hs + (?off + length c)"
  have hs: "pk_header_size p = hs" using h by (simp add: pk_holds_def)
  note ps = payload_size_holds [OF h]
  have new: "?off + length c = length (layout (cs @ [c]))" by (simp add: layout_snoc)
  define grow where "grow = (if ?need > pk_capacity p then pk_Resize A (max (pk_capacity p * 2) ?need) p else Some (p, True))"
  have "\<exists>p1 ok. grow = Some (p1, ok) \<and>
      (if ok then pk_holds hs cs p1 \<and> ?need \<le> pk_capacity p1 else p1 = p \<and> (\<exists>n. \<not> realloc_ok A n))"
  proof (cases "?need > pk_capacity p")
    case True
    have "pk_capacity p \<le> max (pk_capacity p * 2) ?need" by simp
    from Resize_holds [OF h this, of A] obtain p1 ok where r: "pk_Resize A (max (pk_capacity p * 2) ?need) p = Some (p1, ok)"
      "if ok then pk_holds hs cs p1 \<and> max (pk_capacity p * 2) ?need \<le> pk_capacity p1
       else p1 = p \<and> \<not> realloc_ok A (AlignInt (max (pk_capacity p * 2) ?need) 64)" by blast
    have "grow = Some (p1, ok)" using True r(1) by (simp add: grow_def)
    then show ?thesis using r(2) by (cases ok) auto
  next
    case False
    then show ?thesis using h by (intro exI [of _ p] exI [of _ True]) (simp add: grow_def)
  qed
  moreover have bw: "pk_BeginWrite A (length c) p = Option.bind grow (\<lambda>(p1, ok). if \<not> ok then Some (p1, None)
      else Option.bind (set_payload_size (length (layout (cs @ [c]))) p1) (\<lambda>p2. Some (p2, Some (pk_header_size p2 + ?off))))"
    unfolding pk_BeginWrite_def grow_def ps hs by (simp add: Let_def layout_align new cong: if_cong)
  ultimately obtain p1 ok where g: "grow = Some (p1, ok)"
    "if ok then pk_holds hs cs p1 \<and> ?need \<le> pk_capacity p1 else p1 = p \<and> (\<exists>n. \<not> realloc_ok A n)" by blast
  show ?thesis
  proof (cases ok)
    case False
    then have "pk_WriteBytes A c (int (length c)) p = Some (p1, False)"
      using g(1) bw by (simp add: pk_WriteBytes_def)
    then show ?thesis using g(2) False by auto
  next
    case True
    then have h1: "pk_holds hs cs p1" "?need \<le> pk_capacity p1" using g(2) by simp_all
    obtain h0 rest where p1: "pk_header p1 = Some (le_bytes 4 (length (layout cs)) @ h0 @ padded_all cs @ rest)"
      "hs = 4 + length h0" "pk_capacity p1 = 4 + length h0 + ?off + length rest"
      "pk_header_size p1 = hs" "hs mod 4 = 0" "pk_capacity p1 mod 64 = 0"
      using h1(1) by (auto simp: pk_holds_def)
    have "length rest mod 4 = 0"
    proof -
      have "4 dvd pk_capacity p1" using p1(6) by (metis dvd_eq_mod_eq_0 dvd_trans numeral_dvd_64)
      moreover have "pk_capacity p1 = hs + ?off + length rest" using p1(2,3) by simp
      moreover have "4 dvd hs + ?off" using p1(5) padded_all_4 [of cs] by (intro dvd_add) (simp_all only: dvd_eq_mod_eq_0)
      ultimately show ?thesis by (metis dvd_add_right_iff dvd_eq_mod_eq_0)
    qed
    moreover have "length c \<le> length rest" using h1(2) p1(2,3) by simp
    ultimately have room: "AlignInt (length c) 4 \<le> length rest" by (rule AlignInt_le)
    obtain p2 p3 rest' where w: "set_payload_size (length (layout (cs @ [c]))) p1 = Some p2"
      "pk_header_size p2 = hs" "pk_poke (hs + ?off) c p2 = Some p3"
      "pk_EndWrite (hs + ?off) (length c) p3 =
         Some (p3\<lparr>pk_header := Some (le_bytes 4 (length (layout (cs @ [c]))) @ h0 @ padded_all (cs @ [c]) @ rest')\<rparr>)"
      "pk_header_size p3 = hs" "pk_capacity p3 = pk_capacity p1" "AlignInt (length c) 4 + length rest' = length rest"
      using write_in_place [OF p1(1,2,4) room small] by blast
    let ?p4 = "p3\<lparr>pk_header := Some (le_bytes 4 (length (layout (cs @ [c]))) @ h0 @ padded_all (cs @ [c]) @ rest')\<rparr>"
    have "pk_WriteBytes A c (int (length c)) p = Some (?p4, True)"
      using True g(1) bw w(1-4) by (simp add: pk_WriteBytes_def mem_read_def)
    moreover have "pk_holds hs (cs @ [c]) ?p4"
      using p1(2,3,5,6) w(5-7) small by (intro pk_holdsI [of _ _ h0 rest']) simp_all
    ultimately show ?thesis by auto
  qed
qed

section \<open>Reading takes a chunk off\<close>

definition pi_holds :: "byte list list \<Rightarrow> pickle_iterator \<Rightarrow> bool" where
  "pi_holds cs it \<longleftrightarrow>
     (\<exists>buf. pi_data it = Some buf \<and>
        (cs \<noteq> [] \<longrightarrow> pi_end it = pi_ptr it + length (layout cs) \<and> mem_read (pi_ptr it) (length (layout cs)) buf = Some (layout cs)))"

lemma mem_read_append:
  "mem_read off (length (xs @ ys)) buf = Some (xs @ ys) \<longleftrightarrow>
   mem_read off (length xs) buf = Some xs \<and> mem_read (off + length xs) (length ys) buf = Some ys"
  by (auto simp: mem_read_def take_add add.assoc add.commute append_eq_append_conv)

lemma pi_holds_Cons:
  assumes "pi_holds (c # cs) it"
  obtains buf where "pi_data it = Some buf" "mem_read (pi_ptr it) (length c) buf = Some c"
    "pi_ptr it + length c \<le> pi_end it" "pi_holds cs (it\<lparr>pi_ptr := pi_ptr it + AlignInt (length c) 4\<rparr>)"
proof -
  obtain buf where b: "pi_data it = Some buf" "pi_end it = pi_ptr it + length (layout (c # cs))"
    "mem_read (pi_ptr it) (length (layout (c # cs))) buf = Some (layout (c # cs))"
    using assms by (auto simp: pi_holds_def)
  show thesis
  proof (cases "cs = []")
    case True
    then show ?thesis using that [OF b(1)] b by (simp add: pi_holds_def)
  next
    case False
    then have lay: "layout (c # cs) = padded c @ layout cs" by (simp add: layout_Cons)
    have r: "mem_read (pi_ptr it) (length (padded c)) buf = Some (padded c)"
      "mem_read (pi_ptr it + length (padded c)) (length (layout cs)) buf = Some (layout cs)"
      using b(3) unfolding lay mem_read_append by simp_all
    from r(1) have "mem_read (pi_ptr it) (length c) buf = Some c"
      unfolding padded_def mem_read_append by simp
    moreover have "length c \<le> length (padded c)" by (simp add: AlignInt_ge)
    ultimately show ?thesis using that [OF b(1)] r(2) b(1,2) lay by (simp add: pi_holds_def)
  qed
qed

lemma read_type:
  assumes h: "pi_holds (c # cs) it" and sz: "0 < sz" "sz \<le> length c" "AlignInt sz 4 = AlignInt (length c) 4"
    and "sz < 4 \<or> sz mod 4 = 0"
  shows "\<exists>it'. ReadBuiltinType sz it = Some (Some (le_val (take sz c)), it') \<and> pi_holds cs it'"
proof -
  obtain buf where b: "pi_data it = Some buf" "mem_read (pi_ptr it) (length c) buf = Some c"
    "pi_ptr it + length c \<le> pi_end it" "pi_holds cs (it\<lparr>pi_ptr := pi_ptr it + AlignInt (length c) 4\<rparr>)"
    using pi_holds_Cons [OF h] .
  have "(if sz < 4 then AlignInt sz 4 else sz) = AlignInt (length c) 4"
    using assms(5) sz(3) AlignInt_same [of sz 4] by auto
  moreover have "mem_read (pi_ptr it) sz buf = Some (take sz c)"
    using b(2) sz(2) by (auto simp: mem_read_def split: if_splits) (metis min.absorb1 take_take)
  ultimately show ?thesis
    using b sz(2) by (simp add: ReadBuiltinType_def GetReadPointerAndAdvance_type_def read_at_def)
qed

lemma read_bytes:
  assumes h: "pi_holds (c # cs) it"
  shows "\<exists>it'. read_at (GetReadPointerAndAdvance_bytes (int (length c)) it) (length c) f = Some (Some (f c), it') \<and> pi_holds cs it'"
proof -
  obtain buf where b: "pi_data it = Some buf" "mem_read (pi_ptr it) (length c) buf = Some c"
    "pi_ptr it + length c \<le> pi_end it" "pi_holds cs (it\<lparr>pi_ptr := pi_ptr it + AlignInt (length c) 4\<rparr>)"
    using pi_holds_Cons [OF h] .
  then show ?thesis by (simp add: read_at_def GetReadPointerAndAdvance_bytes_def)
qed

section \<open>Values\<close>

datatype pickle_value =
  PBool bool | PInt int | PUInt16 "16 word" | PUInt32 "32 word" | PInt64 int | PUInt64 "64 word"
| PString "byte list" | PString16 string16 | PWString "32 word list" | PData "byte list"

datatype pickle_type = TBool | TInt | TUInt16 | TUInt32 | TInt64 | TUInt64 | TString | TString16 | TWString | TData

fun type_of_value :: "pickle_value \<Rightarrow> pickle_type" where
  "type_of_value (PBool _) = TBool" | "type_of_value (PInt _) = TInt" | "type_of_value (PUInt16 _) = TUInt16"
| "type_of_value (PUInt32 _) = TUInt32" | "type_of_value (PInt64 _) = TInt64" | "type_of_value (PUInt64 _) = TUInt64"
| "type_of_value (PString _) = TString" | "type_of_value (PString16 _) = TString16"
| "type_of_value (PWString _) = TWString" | "type_of_value (PData _) = TData"

fun write_value :: "allocator \<Rightarrow> pickle_value \<Rightarrow> pickle \<Rightarrow> (pickle \<times> bool) option" where
  "write_value A (PBool b) = pk_WriteBool A b"
| "write_value A (PInt i) = pk_WriteInt A i"
| "write_value A (PUInt16 w) = pk_WriteUInt16 A w"
| "write_value A (PUInt32 w) = pk_WriteUInt32 A w"
| "write_value A (PInt64 i) = pk_WriteInt64 A i"
| "write_value A (PUInt64 w) = pk_WriteUInt64 A w"
| "write_value A (PString s) = pk_WriteString A s"
| "write_value A (PString16 s) = pk_WriteString16 A s"
| "write_value A (PWString s) = pk_WriteWString A s"
| "write_value A (PData d) = pk_WriteData A d (int (length d))"

fun read_value :: "pickle_type \<Rightarrow> pickle_iterator \<Rightarrow> pickle_value read_result" where
  "read_value TBool it = map_result PBool (pi_ReadBool it)"
| "read_value TInt it = map_result PInt (pi_ReadInt it)"
| "read_value TUInt16 it = map_result PUInt16 (pi_ReadUInt16 it)"
| "read_value TUInt32 it = map_result PUInt32 (pi_ReadUInt32 it)"
| "read_value TInt64 it = map_result PInt64 (pi_ReadInt64 it)"
| "read_value TUInt64 it = map_result PUInt64 (pi_ReadUInt64 it)"
| "read_value TString it = map_result PString (pi_ReadString it)"
| "read_value TString16 it = map_result PString16 (pi_ReadString16 it)"
| "read_value TWString it = map_result PWString (pi_ReadWString it)"
| "read_value TData it = map_result PData (pi_ReadData it)"

fun chunks :: "pickle_value \<Rightarrow> byte list list" where
  "chunks (PBool b) = [int_bytes (if b then 1 else 0)]"
| "chunks (PInt i) = [int_bytes i]"
| "chunks (PUInt16 w) = [le_bytes 2 (unat w)]"
| "chunks (PUInt32 w) = [le_bytes 4 (unat w)]"
| "chunks (PInt64 i) = [le_bytes 8 (nat (i mod 2 ^ 64))]"
| "chunks (PUInt64 w) = [le_bytes 8 (unat w)]"
| "chunks (PString s) = [int_bytes (int (length s)), s]"
| "chunks (PString16 s) = [int_bytes (int (length s)), units_bytes 2 s]"
| "chunks (PWString s) = [int_bytes (int (length s)), units_bytes 4 s]"
| "chunks (PData d) = [int_bytes (int (length d)), d]"

text \<open>The values the C++ types have, with strings of less than 512 MB.\<close>

fun value_ok :: "pickle_value \<Rightarrow> bool" where
  "value_ok (PInt i) \<longleftrightarrow> int_ok i"
| "value_ok (PInt64 i) \<longleftrightarrow> - (2 ^ 63) \<le> i \<and> i < 2 ^ 63"
| "value_ok (PString s) \<longleftrightarrow> length s < 2 ^ 29"
| "value_ok (PString16 s) \<longleftrightarrow> length s < 2 ^ 29"
| "value_ok (PWString s) \<longleftrightarrow> length s < 2 ^ 29"
| "value_ok (PData d) \<longleftrightarrow> length d < 2 ^ 29"
| "value_ok _ \<longleftrightarrow> True"

lemma length_units [simp]: "length (units_bytes n us) = length us * n"
  by (induction us) (simp_all add: units_bytes_def)

lemma units_of_bytes:
  "0 < n \<Longrightarrow> LENGTH('a) \<le> 8 * n \<Longrightarrow> units_of n (units_bytes n us) = (us :: ('a :: len) word list)"
proof (induction us)
  case Nil
  then show ?case by (simp add: units_bytes_def units_of.simps)
next
  case (Cons u us)
  have "unat u < 2 ^ LENGTH('a)" by (rule unsigned_less)
  also have "\<dots> \<le> 2 ^ (8 * n)" using Cons.prems by (intro power_increasing) simp_all
  finally have "unat u mod 256 ^ n = unat u" by (simp add: power_mult)
  then show ?case
    using Cons by (subst units_of.simps) (simp add: units_bytes_def le_val_le_bytes)
qed

text \<open>A write completed: it appended its chunks, or the allocator refused.\<close>

definition wrote :: "allocator \<Rightarrow> nat \<Rightarrow> byte list list \<Rightarrow> (pickle \<times> bool) option \<Rightarrow> bool" where
  "wrote A hs cs r \<longleftrightarrow> (\<exists>p' ok. r = Some (p', ok) \<and> (if ok then pk_holds hs cs p' else \<exists>n. \<not> realloc_ok A n))"

lemma write_chunk1:
  assumes "pk_holds hs cs p" and "length (layout (cs @ [c])) < 2 ^ 32" and "length c = n"
  shows "wrote A hs (cs @ [c]) (pk_WriteBytes A c (int n) p)"
  using WriteBytes_holds [OF assms(1,2), of A] assms(3) unfolding wrote_def by metis

lemma write_chunk2:
  assumes h: "pk_holds hs cs p" and small: "length (layout (cs @ [int_bytes n, c])) < 2 ^ 32"
  shows "wrote A hs (cs @ [int_bytes n, c]) (write_sized A n c (int (length c)) p)"
proof -
  have l: "length (layout (cs @ [int_bytes n])) < 2 ^ 32"
    using small layout_snoc [of "cs @ [int_bytes n]" c] layout_le [of "cs @ [int_bytes n]"] by simp
  obtain p1 ok where w: "pk_WriteInt A n p = Some (p1, ok)"
    "if ok then pk_holds hs (cs @ [int_bytes n]) p1 else p1 = p \<and> (\<exists>n. \<not> realloc_ok A n)"
    using WriteBytes_holds [OF h l, of A] by (auto simp: pk_WriteInt_def int_bytes_def)
  show ?thesis
  proof (cases ok)
    case False
    then show ?thesis using w by (auto simp: write_sized_def wrote_def)
  next
    case True
    then have "wrote A hs ((cs @ [int_bytes n]) @ [c]) (pk_WriteBytes A c (int (length c)) p1)"
      using w(2) small by (intro write_chunk1) simp_all
    then show ?thesis using True w(1) by (simp add: write_sized_def)
  qed
qed

lemma wrap32_small: "n < 2 ^ 31 \<Longrightarrow> wrap32 (int n) = int n"
  by (simp add: wrap32_def)

lemma write_value_holds:
  assumes "pk_holds hs cs p" and "length (layout (cs @ chunks v)) < 2 ^ 32" and "value_ok v"
  shows "wrote A hs (cs @ chunks v) (write_value A v p)"
proof -
  note one = write_chunk1 [OF assms(1), where A = A] and two = write_chunk2 [OF assms(1), where A = A]
  show ?thesis
    using assms(2,3)
  proof (cases v)
    case (PString s)
    then show ?thesis using two [of "int (length s)" s] assms(2,3) by (simp add: pk_WriteString_def wrap32_small)
  next
    case (PString16 s)
    then have "wrap32 (int (length s) * 2) = int (length (units_bytes 2 s))"
      using assms(3) wrap32_small [of "length s * 2"] by simp
    then show ?thesis
      using PString16 two [of "int (length s)" "units_bytes 2 s"] assms(2,3)
      by (simp add: pk_WriteString16_def wrap32_small)
  next
    case (PWString s)
    then have "wrap32 (int (length s) * 4) = int (length (units_bytes 4 s))"
      using assms(3) wrap32_small [of "length s * 4"] by simp
    then show ?thesis
      using PWString two [of "int (length s)" "units_bytes 4 s"] assms(2,3)
      by (simp add: pk_WriteWString_def wrap32_small)
  next
    case (PData d)
    then show ?thesis using two [of "int (length d)" d] assms(2,3) by (simp add: pk_WriteData_def)
  qed (use one [where n = 4] one [where n = 2] one [where n = 8] in
      \<open>simp_all add: pk_WriteBool_def pk_WriteInt_def pk_WriteUInt16_def pk_WriteUInt32_def pk_WriteInt64_def
        pk_WriteUInt64_def int_bytes_def\<close>)
qed

lemma le_val_int_bytes: "le_val (int_bytes i) = nat (i mod 2 ^ 32)"
proof -
  have "nat (i mod 2 ^ 32) < 2 ^ 32" by (simp add: nat_less_iff)
  then show ?thesis by (simp add: int_bytes_def le_val_le_bytes)
qed

lemma ReadInt_holds:
  assumes "pi_holds (int_bytes i # cs) it" and "int_ok i"
  shows "\<exists>it'. pi_ReadInt it = Some (Some i, it') \<and> pi_holds cs it'"
proof -
  have "wrap32 (int (nat (i mod 2 ^ 32))) = i"
    using assms(2) by (simp add: wrap32_def int_ok_def INT_MIN_def INT_MAX_def mod_simps)
  then show ?thesis
    using read_type [OF assms(1), of 4] le_val_int_bytes [of i] by (auto simp: pi_ReadInt_def map_result_def int_bytes_def)
qed

lemma int_ok_small: "n < 2 ^ 31 \<Longrightarrow> int_ok (int n)"
  by (simp add: int_ok_def INT_MIN_def INT_MAX_def)

lemma read_sized_holds:
  assumes "pi_holds (int_bytes (int n) # c # cs) it" and "length c = n * k" and "n * k < 2 ^ 31" and "0 < k"
  shows "\<exists>it'. read_sized k f it = Some (Some (f c), it') \<and> pi_holds cs it'"
proof -
  have "n \<le> n * k" using assms(4) by simp
  then have "int_ok (int n)" using assms(3) by (intro int_ok_small) linarith
  from ReadInt_holds [OF assms(1) this] obtain it1 where it1: "pi_ReadInt it = Some (Some (int n), it1)" "pi_holds (c # cs) it1"
    by blast
  have "GetReadPointerAndAdvance_elements (int n) k it1 = GetReadPointerAndAdvance_bytes (int (length c)) it1"
    using wrap32_small [OF assms(3)] assms(2) by (simp add: GetReadPointerAndAdvance_elements_def)
  then show ?thesis using it1 read_bytes [OF it1(2), of f] assms(2) by (simp add: read_sized_def)
qed

lemma read_bytes_holds:
  assumes "pi_holds (int_bytes (int (length c)) # c # cs) it" and "length c < 2 ^ 31"
  shows "\<exists>it'. pi_ReadString it = Some (Some c, it') \<and> pi_holds cs it'"
    and "\<exists>it'. pi_ReadData it = Some (Some c, it') \<and> pi_holds cs it'"
proof -
  from ReadInt_holds [OF assms(1) int_ok_small [OF assms(2)]] obtain it1 where
    it1: "pi_ReadInt it = Some (Some (int (length c)), it1)" "pi_holds (c # cs) it1" by blast
  then show "\<exists>it'. pi_ReadString it = Some (Some c, it') \<and> pi_holds cs it'"
    "\<exists>it'. pi_ReadData it = Some (Some c, it') \<and> pi_holds cs it'"
    using read_bytes [OF it1(2), of "\<lambda>bs. bs"] by (simp_all add: pi_ReadString_def pi_ReadData_def pi_ReadBytes_def)
qed

lemma of_nat_word: "LENGTH('a) \<le> 8 * n \<Longrightarrow> (of_nat (le_val (le_bytes n (unat w))) :: ('a :: len) word) = w"
proof -
  assume "LENGTH('a) \<le> 8 * n"
  then have "(2 :: nat) ^ LENGTH('a) \<le> 2 ^ (8 * n)" by (intro power_increasing) simp_all
  moreover have "unat w < 2 ^ LENGTH('a)" by (rule unsigned_less)
  ultimately have "unat w < 2 ^ (8 * n)" by (rule order_less_le_trans [rotated])
  then have "unat w < 256 ^ n" by (simp add: power_mult)
  then show ?thesis by (simp add: le_val_le_bytes)
qed

lemma AlignInt_small [simp]: "AlignInt 1 4 = 4" "AlignInt (Suc 0) 4 = 4" "AlignInt 2 4 = 4" "AlignInt 4 4 = 4" "AlignInt 8 4 = 8"
  by (simp_all add: AlignInt_def)

lemma read_value_holds:
  assumes "pi_holds (chunks v @ cs) it" and "value_ok v"
  shows "\<exists>it'. read_value (type_of_value v) it = Some (Some v, it') \<and> pi_holds cs it'"
proof (cases v)
  case (PBool b)
  let ?c = "int_bytes (if b then 1 else 0)"
  have "take 1 (le_bytes 4 x) = [of_nat (x mod 256)]" for x
    using le_bytes.simps(2) [of 3 x] by simp
  then have "take 1 ?c = [of_bool b]" by (cases b) (simp_all add: int_bytes_def)
  then have lv: "le_val (take 1 ?c) = of_bool b" by simp
  have "pi_holds (?c # cs) it" using assms(1) PBool by simp
  from read_type [OF this, of 1] obtain it' where
    "ReadBuiltinType 1 it = Some (Some (le_val (take 1 ?c)), it')" "pi_holds cs it'"
    by (auto simp: int_bytes_def)
  then show ?thesis unfolding lv using PBool by (simp add: pi_ReadBool_def map_result_def)
next
  case (PInt i)
  then show ?thesis using assms ReadInt_holds [of i cs it] by (auto simp: map_result_def)
next
  case (PUInt16 w)
  then show ?thesis
    using assms read_type [of "le_bytes 2 (unat w)" cs it 2] of_nat_word [of 2 w]
    by (auto simp: pi_ReadUInt16_def map_result_def)
next
  case (PUInt32 w)
  then show ?thesis
    using assms read_type [of "le_bytes 4 (unat w)" cs it 4] of_nat_word [of 4 w]
    by (auto simp: pi_ReadUInt32_def map_result_def)
next
  case (PInt64 i)
  have "nat (i mod 2 ^ 64) < 2 ^ 64" by (simp add: nat_less_iff)
  then have "le_val (le_bytes 8 (nat (i mod 2 ^ 64))) = nat (i mod 2 ^ 64)" by (simp add: le_val_le_bytes)
  moreover have "(int (nat (i mod 2 ^ 64)) + 2 ^ 63) mod 2 ^ 64 - 2 ^ 63 = i"
    using PInt64 assms(2) by (simp add: mod_simps)
  ultimately show ?thesis
    using PInt64 assms read_type [of "le_bytes 8 (nat (i mod 2 ^ 64))" cs it 8]
    by (auto simp: pi_ReadInt64_def map_result_def)
next
  case (PUInt64 w)
  then show ?thesis
    using assms read_type [of "le_bytes 8 (unat w)" cs it 8] of_nat_word [of 8 w]
    by (auto simp: pi_ReadUInt64_def map_result_def)
next
  case (PString s)
  then show ?thesis using assms read_bytes_holds(1) [of s cs it] by (auto simp: map_result_def)
next
  case (PString16 s)
  then show ?thesis
    using assms read_sized_holds [of "length s" "units_bytes 2 s" cs it 2 "units_of 2 :: byte list \<Rightarrow> string16"] units_of_bytes [of 2 s]
    by (auto simp: map_result_def pi_ReadString16_def)
next
  case (PWString s)
  then show ?thesis
    using assms read_sized_holds [of "length s" "units_bytes 4 s" cs it 4 "units_of 4 :: byte list \<Rightarrow> 32 word list"] units_of_bytes [of 4 s]
    by (auto simp: map_result_def pi_ReadWString_def)
next
  case (PData d)
  then show ?thesis using assms read_bytes_holds(2) [of d cs it] by (auto simp: map_result_def)
qed

section \<open>Sequences of values\<close>

fun write_all :: "allocator \<Rightarrow> pickle_value list \<Rightarrow> pickle \<Rightarrow> (pickle \<times> bool) option" where
  "write_all A [] p = Some (p, True)"
| "write_all A (v # vs) p = do {
     (p1, ok) \<leftarrow> write_value A v p;
     if ok then write_all A vs p1 else Some (p1, False)
   }"

fun read_all :: "pickle_type list \<Rightarrow> pickle_iterator \<Rightarrow> pickle_value list read_result" where
  "read_all [] it = Some (Some [], it)"
| "read_all (t # ts) it = do {
     (v, it1) \<leftarrow> read_value t it;
     (case v of None \<Rightarrow> Some (None, it1) | Some x \<Rightarrow> map_result (\<lambda>xs. x # xs) (read_all ts it1))
   }"

definition read_back :: "pickle_type list \<Rightarrow> pickle \<Rightarrow> pickle_value list option" where
  "read_back ts p = do { it \<leftarrow> pi_init p; (r, _) \<leftarrow> read_all ts it; r }"

text \<open>The bytes \<open>data()\<close> to \<open>data() + size()\<close>, as sent to another process.\<close>

definition wire :: "pickle \<Rightarrow> byte list option" where
  "wire p = do { n \<leftarrow> pk_size p; buf \<leftarrow> pk_header p; mem_read 0 n buf }"

lemma layout_prefix: "length (layout cs) \<le> length (layout (cs @ ds))"
proof (cases ds rule: rev_cases)
  case (snoc ds' d)
  then show ?thesis using layout_le [of cs] layout_snoc [of "cs @ ds'" d] by simp
qed simp

lemma write_all_holds:
  "pk_holds hs cs p \<Longrightarrow> length (layout (cs @ concat (map chunks vs))) < 2 ^ 32 \<Longrightarrow> list_all value_ok vs \<Longrightarrow>
   \<forall>n. realloc_ok A n \<Longrightarrow> \<exists>p'. write_all A vs p = Some (p', True) \<and> pk_holds hs (cs @ concat (map chunks vs)) p'"
proof (induction vs arbitrary: cs p)
  case (Cons v vs)
  have "length (layout (cs @ chunks v)) < 2 ^ 32"
    using Cons.prems(2) layout_prefix [of "cs @ chunks v" "concat (map chunks vs)"] by simp
  then obtain p1 where "write_value A v p = Some (p1, True)" "pk_holds hs (cs @ chunks v) p1"
    using write_value_holds [OF Cons.prems(1), of v A] Cons.prems(3,4) by (auto simp: wrote_def split: if_splits)
  then show ?case using Cons.IH [of "cs @ chunks v" p1] Cons.prems by simp
qed simp

lemma read_all_holds:
  "pi_holds (concat (map chunks vs)) it \<Longrightarrow> list_all value_ok vs \<Longrightarrow>
   \<exists>it'. read_all (map type_of_value vs) it = Some (Some vs, it')"
proof (induction vs arbitrary: it)
  case (Cons v vs)
  then obtain it1 where "read_value (type_of_value v) it = Some (Some v, it1)" "pi_holds (concat (map chunks vs)) it1"
    using read_value_holds [of v "concat (map chunks vs)" it] by auto
  then show ?case using Cons.IH [of it1] Cons.prems by (auto simp: map_result_def)
qed simp

lemma fresh_holds:
  assumes "realloc_ok A 64" and "4 \<le> hs" and "hs \<le> 64" and "hs mod 4 = 0"
  shows "\<exists>p. pk_fresh A hs = Some p \<and> pk_holds hs [] p"
proof -
  let ?buf = "map (fresh_byte A) [0 ..< 64]"
  let ?p = "\<lparr>pk_header = Some (le_bytes 4 0 @ drop 4 ?buf), pk_header_size = hs, pk_capacity = 64, pk_variable_buffer_offset = 0\<rparr>"
  have "pk_fresh A hs = Some ?p"
    using assms(1) mem_write_at [of "take 4 ?buf" "le_bytes 4 0" "[]" "drop 4 ?buf"]
    by (simp add: pk_fresh_def pk_Resize_def kPayloadUnit_def AlignInt_def kCapacityReadOnly_def size_t_max_def
        set_payload_size_def Let_def del: upt_conv_Cons)
  moreover have "pk_holds hs [] ?p"
    using assms(2-4)
    by (intro pk_holdsI [of _ _ "take (hs - 4) (drop 4 ?buf)" "drop (hs - 4) (drop 4 ?buf)"]) (simp_all del: upt_conv_Cons drop_drop)
  ultimately show ?thesis by blast
qed

lemma pi_init_holds: "pk_holds hs cs p \<Longrightarrow> \<exists>it. pi_init p = Some it \<and> pi_holds cs it"
proof -
  assume h: "pk_holds hs cs p"
  then obtain h0 rest where p: "pk_header p = Some (le_bytes 4 (length (layout cs)) @ h0 @ padded_all cs @ rest)"
    "pk_header_size p = 4 + length h0" by (auto simp: pk_holds_def)
  obtain zs where zs: "padded_all cs = layout cs @ zs" using layout_padded by blast
  have "mem_read (4 + length h0) (length (layout cs)) (le_bytes 4 (length (layout cs)) @ h0 @ padded_all cs @ rest) = Some (layout cs)"
    using mem_read_at [of "length (layout cs)" "layout cs" "le_bytes 4 (length (layout cs)) @ h0" "zs @ rest"] zs by simp
  then show ?thesis using p payload_size_holds [OF h] by (simp add: pi_init_def pi_holds_def)
qed

lemma wire_holds:
  assumes h: "pk_holds hs cs p" and small: "hs + length (layout cs) < 2 ^ 31"
  shows "\<exists>bs q it. wire p = Some bs \<and> length bs = hs + length (layout cs) \<and>
    pk_from_data bs (int (length bs)) = Some q \<and> pi_init q = Some it \<and> pi_holds cs it"
proof -
  obtain h0 rest where p: "pk_header p = Some (le_bytes 4 (length (layout cs)) @ h0 @ padded_all cs @ rest)"
    "pk_header_size p = hs" "hs = 4 + length h0" "hs mod 4 = 0" using h by (auto simp: pk_holds_def)
  obtain zs where zs: "padded_all cs = layout cs @ zs" using layout_padded by blast
  let ?bs = "le_bytes 4 (length (layout cs)) @ h0 @ layout cs"
  have len: "length ?bs = hs + length (layout cs)" using p(3) by simp
  have w: "wire p = Some ?bs"
    using p(1,2,3) payload_size_holds [OF h] mem_read_at [OF len [symmetric], of "[]" "zs @ rest"] zs
    by (simp add: wire_def pk_size_def)
  let ?q = "\<lparr>pk_header = Some ?bs, pk_header_size = hs, pk_capacity = kCapacityReadOnly, pk_variable_buffer_offset = 0\<rparr>"
  have rd: "mem_read 0 4 ?bs = Some (le_bytes 4 (length (layout cs)))" by (simp add: mem_read_def)
  have lv: "le_val (le_bytes 4 (length (layout cs))) = length (layout cs)" using small by (simp add: le_val_le_bytes)
  have q: "pk_from_data ?bs (int (length ?bs)) = Some ?q"
    unfolding pk_from_data_def rd using lv p(3,4) small AlignInt_same [OF p(4)]
    by (simp add: Let_def nat_add_distrib)
  have "pi_init ?q = Some \<lparr>pi_data = Some ?bs, pi_ptr = hs, pi_end = hs + length (layout cs)\<rparr>"
    using rd lv by (simp add: pi_init_def pk_payload_size_def)
  moreover have "pi_holds cs \<lparr>pi_data = Some ?bs, pi_ptr = hs, pi_end = hs + length (layout cs)\<rparr>"
    using mem_read_at [of "length (layout cs)" "layout cs" "le_bytes 4 (length (layout cs)) @ h0" "[]"] p(3) by (simp add: pi_holds_def)
  ultimately show ?thesis using w q len by blast
qed

text \<open>(C21) Round trip: any sequence of values written to a new pickle is read back unchanged by reading the same
  types in the same order, from the pickle itself and from a pickle that another process makes of its
  bytes; no write leaves the buffer, however often the buffer has to grow.\<close>

theorem pickle_roundtrip:
  assumes "\<forall>n. realloc_ok A n" and "list_all value_ok vs" and "length (layout (concat (map chunks vs))) < 2 ^ 30"
  shows "\<exists>p bs. Option.bind (pk_init A) (write_all A vs) = Some (p, True) \<and>
    read_back (map type_of_value vs) p = Some vs \<and> wire p = Some bs \<and>
    Option.bind (pk_from_data bs (int (length bs))) (read_back (map type_of_value vs)) = Some vs"
proof -
  obtain p0 where p0: "pk_init A = Some p0" "pk_holds 4 [] p0"
    using fresh_holds [of A 4] assms(1) by (auto simp: pk_init_def)
  obtain p where p: "write_all A vs p0 = Some (p, True)" "pk_holds 4 (concat (map chunks vs)) p"
    using write_all_holds [OF p0(2), of vs A] assms by auto
  obtain it where it: "pi_init p = Some it" "pi_holds (concat (map chunks vs)) it" using pi_init_holds [OF p(2)] by blast
  obtain bs q it2 where w: "wire p = Some bs" "pk_from_data bs (int (length bs)) = Some q" "pi_init q = Some it2"
    "pi_holds (concat (map chunks vs)) it2"
    using wire_holds [OF p(2)] assms(3) by auto
  obtain i1 i2 where "read_all (map type_of_value vs) it = Some (Some vs, i1)" "read_all (map type_of_value vs) it2 = Some (Some vs, i2)"
    using read_all_holds [OF it(2) assms(2)] read_all_holds [OF w(4) assms(2)] by blast
  then show ?thesis using p0(1) p(1) it(1) w(1,2,3) by (intro exI [of _ p] exI [of _ bs]) (simp add: read_back_def)
qed

definition roomy :: allocator where
  "roomy = \<lparr>realloc_ok = (\<lambda>_. True), fresh_byte = (\<lambda>_. 205)\<rparr>"

lemma pickle_roundtrip_witness:
  "\<exists>p bs. Option.bind (pk_init roomy) (write_all roomy [PInt (-7), PString [104, 105, 33], PBool True, PString16 [0xD83D, 0xDE00, 65]])
      = Some (p, True) \<and>
    read_back [TInt, TString, TBool, TString16] p = Some [PInt (-7), PString [104, 105, 33], PBool True, PString16 [0xD83D, 0xDE00, 65]] \<and>
    wire p = Some bs \<and>
    Option.bind (pk_from_data bs (int (length bs))) (read_back [TInt, TString, TBool, TString16])
      = Some [PInt (-7), PString [104, 105, 33], PBool True, PString16 [0xD83D, 0xDE00, 65]]"
  using pickle_roundtrip [of roomy "[PInt (-7), PString [104, 105, 33], PBool True, PString16 [0xD83D, 0xDE00, 65]]"]
  by (simp add: roomy_def int_ok_def INT_MIN_def INT_MAX_def padded_def AlignInt_def int_bytes_def)

section \<open>Reading from untrusted bytes\<close>

text \<open>An iterator stays within the memory it reads from; one over a pickle without a header reads nothing.\<close>

definition pi_safe :: "pickle_iterator \<Rightarrow> bool" where
  "pi_safe it = (case pi_data it of None \<Rightarrow> pi_end it \<le> pi_ptr it | Some buf \<Rightarrow> pi_end it \<le> length buf)"

definition safe_result :: "'a read_result \<Rightarrow> bool" where
  "safe_result r = (case r of None \<Rightarrow> False | Some (_, it) \<Rightarrow> pi_safe it)"

definition safe_pointer :: "nat \<Rightarrow> nat option \<times> pickle_iterator \<Rightarrow> bool" where
  "safe_pointer n r = (pi_safe (snd r) \<and>
     (\<forall>off. fst r = Some off \<longrightarrow> (\<exists>buf. pi_data (snd r) = Some buf \<and> off + n \<le> length buf)))"

lemma read_at_safe: "safe_pointer n r \<Longrightarrow> safe_result (read_at r n f)"
  by (cases r) (auto simp: safe_pointer_def read_at_def safe_result_def mem_read_def split: option.splits)

lemma nat_times: "nat (n * int k) = nat n * k"
  by (cases "0 \<le> n") (simp_all add: nat_mult_distrib mult_nonpos_nonneg)

lemma safe_pointers:
  assumes "pi_safe it"
  shows "0 < sz \<Longrightarrow> safe_pointer sz (GetReadPointerAndAdvance_type sz it)"
    and "safe_pointer (nat n) (GetReadPointerAndAdvance_bytes n it)"
    and "safe_pointer (nat n * k) (GetReadPointerAndAdvance_elements n k it)"
proof -
  show "0 < sz \<Longrightarrow> safe_pointer sz (GetReadPointerAndAdvance_type sz it)"
    using assms by (auto simp: safe_pointer_def GetReadPointerAndAdvance_type_def pi_safe_def split: option.splits)
  have bytes: "safe_pointer (nat n) (GetReadPointerAndAdvance_bytes n it)" for n
    using assms by (auto simp: safe_pointer_def GetReadPointerAndAdvance_bytes_def pi_safe_def split: option.splits)
  then show "safe_pointer (nat n) (GetReadPointerAndAdvance_bytes n it)" .
  show "safe_pointer (nat n * k) (GetReadPointerAndAdvance_elements n k it)"
    using bytes [of "n * int k"] assms
    by (auto simp: GetReadPointerAndAdvance_elements_def Let_def nat_times safe_pointer_def)
qed

lemma ReadBuiltinType_safe: "pi_safe it \<Longrightarrow> 0 < sz \<Longrightarrow> safe_result (ReadBuiltinType sz it)"
  by (simp add: ReadBuiltinType_def read_at_safe safe_pointers)

lemma map_result_safe: "safe_result r \<Longrightarrow> safe_result (map_result f r)"
  by (auto simp: safe_result_def map_result_def split: option.splits)

lemma bind_safe: "safe_result r \<Longrightarrow> (\<And>x it'. pi_safe it' \<Longrightarrow> safe_result (f x it')) \<Longrightarrow> safe_result (do { (x, it') \<leftarrow> r; f x it' })"
  by (cases r) (auto simp: safe_result_def [of "Some _"] safe_result_def [of None])

lemma then_safe: "pi_safe it \<Longrightarrow> (\<And>n. safe_result (f n)) \<Longrightarrow> safe_result (case v of None \<Rightarrow> Some (None, it) | Some n \<Rightarrow> f n)"
  by (cases v) (auto simp: safe_result_def [of "Some _"])

lemmas read_safe = ReadBuiltinType_safe map_result_safe bind_safe then_safe read_at_safe safe_pointers

lemma read_value_safe: "pi_safe it \<Longrightarrow> safe_result (read_value t it)"
proof -
  assume safe: "pi_safe it"
  have int: "safe_result (pi_ReadInt it)" using safe by (simp add: pi_ReadInt_def read_safe)
  have sized: "safe_result (read_sized k f it)" for k :: nat and f :: "byte list \<Rightarrow> 'a"
    unfolding read_sized_def by (intro read_safe int)
  have string: "safe_result (pi_ReadString it)" unfolding pi_ReadString_def by (intro read_safe int)
  have data: "safe_result (pi_ReadData it)" unfolding pi_ReadData_def pi_ReadBytes_def by (intro read_safe int)
  show ?thesis
    using safe int string data
    by (cases t) (simp_all add: sized map_result_safe ReadBuiltinType_safe pi_ReadBool_def pi_ReadUInt16_def pi_ReadUInt32_def pi_ReadInt64_def
        pi_ReadUInt64_def pi_ReadString16_def pi_ReadWString_def)
qed

lemma read_all_safe: "pi_safe it \<Longrightarrow> safe_result (read_all ts it)"
proof (induction ts arbitrary: it)
  case (Cons t ts)
  show ?case unfolding read_all.simps by (intro read_safe Cons.IH read_value_safe Cons.prems)
qed (simp add: safe_result_def)

lemma from_data_safe:
  assumes "length bs < 2 ^ 31"
  shows "\<exists>p it. pk_from_data bs (int (length bs)) = Some p \<and> pi_init p = Some it \<and> pi_safe it"
proof (cases "4 \<le> length bs")
  case False
  then show ?thesis by (simp add: pk_from_data_def pi_init_def pi_safe_def AlignInt_def)
next
  case True
  let ?n = "le_val (take 4 bs)"
  have n: "?n < 2 ^ 32" using le_val_less [of "take 4 bs"] True by simp
  have rd: "mem_read 0 4 bs = Some (take 4 bs)" using True by (simp add: mem_read_def)
  show ?thesis
  proof (cases "?n \<le> length bs")
    case le: True
    then have "nat ((int (length bs) - int ?n) mod 2 ^ 32) = length bs - ?n" using assms by (simp add: of_nat_diff)
    then show ?thesis using True rd le assms
      by (cases "length bs - ?n = 0 \<or> length bs - ?n \<noteq> AlignInt (length bs - ?n) 4")
        (auto simp: pk_from_data_def pi_init_def pi_safe_def pk_payload_size_def Let_def)
  next
    case False
    have "(int (length bs) - int ?n) mod 2 ^ 32 = (int (length bs) - int ?n + 2 ^ 32) mod 2 ^ 32" by simp
    also have "\<dots> = int (length bs) - int ?n + 2 ^ 32" using False n by (intro mod_pos_pos_trivial) simp_all
    finally have "int (nat ((int (length bs) - int ?n) mod 2 ^ 32)) = int (length bs) - int ?n + 2 ^ 32" using n by simp
    moreover have "int (length bs) mod 2 ^ 32 = int (length bs)" using assms by simp
    ultimately show ?thesis using True rd n
      by (simp add: pk_from_data_def pi_init_def pi_safe_def Let_def AlignInt_same)
  qed
qed



end
