(* ===== verification/Layer_Animation.thy ===== *)
theory Layer_Animation
  imports Geometry Floating
begin

text \<open>
  The parts of a layer animation: the tweens (\<open>src/ui/base/animation/tween.cc\<close>), the elements
  (\<open>src/ui/compositor/layer_animation_element.cc\<close>), each moving one property of a layer to a target, and
  the sequences of elements (\<open>layer_animation_sequence.cc\<close>).

  Transforms are values of a type \<open>'tr\<close>; their interpolation strictly between the ends
  (\<open>InterpolatedTransform\<close>, over Skia's matrices) is the field \<open>tr_blend\<close>. Times are in microseconds.
  Observers are numbers: they are told, in order, what happened, and do not call back. The delegate is
  \<open>None\<close> when the pointer is null; using it then is a result of \<open>None\<close>.
\<close>

section \<open>Tweens\<close>

record ('f, 'tr) tween_ops = "'f farith" +
  f_pow :: "'f \<Rightarrow> 'f \<Rightarrow> 'f"
  f_sin :: "'f \<Rightarrow> 'f"
  f_nextafter :: "'f \<Rightarrow> 'f \<Rightarrow> 'f"
  tr_blend :: "'f \<Rightarrow> 'tr \<Rightarrow> 'tr \<Rightarrow> 'tr"
  tr_identity :: 'tr

datatype tween_type = LINEAR | EASE_OUT | EASE_IN | EASE_IN_OUT | FAST_IN_OUT | EASE_OUT_SNAP | SMOOTH_IN_OUT | ZERO

text \<open>The double nearest to a decimal literal \<open>p / q\<close>.\<close>

definition f_lit :: "('f, 'tr) tween_ops \<Rightarrow> int \<Rightarrow> int \<Rightarrow> 'f" where
  "f_lit M p q = f_div M (f_of_int M p) (f_of_int M q)"

abbreviation f_one :: "('f, 'tr) tween_ops \<Rightarrow> 'f" where
  "f_one M \<equiv> f_of_int M 1"

abbreviation f_two :: "('f, 'tr) tween_ops \<Rightarrow> 'f" where
  "f_two M \<equiv> f_of_int M 2"

definition CalculateValue :: "('f, 'tr) tween_ops \<Rightarrow> tween_type \<Rightarrow> 'f \<Rightarrow> 'f" where
  "CalculateValue M type state =
     (case type of
        EASE_IN \<Rightarrow> f_pow M state (f_two M)
      | EASE_IN_OUT \<Rightarrow>
          (if f_less M state (f_lit M 1 2) then f_div M (f_pow M (f_mul M state (f_two M)) (f_two M)) (f_two M)
           else f_sub M (f_one M) (f_div M (f_pow M (f_mul M (f_sub M state (f_one M)) (f_two M)) (f_two M)) (f_two M)))
      | FAST_IN_OUT \<Rightarrow>
          f_div M (f_add M (f_pow M (f_sub M state (f_lit M 1 2)) (f_of_int M 3)) (f_lit M 1 8)) (f_lit M 1 4)
      | LINEAR \<Rightarrow> state
      | EASE_OUT_SNAP \<Rightarrow>
          f_mul M (f_lit M 95 100) (f_sub M (f_one M) (f_pow M (f_sub M (f_one M) state) (f_two M)))
      | EASE_OUT \<Rightarrow> f_sub M (f_one M) (f_pow M (f_sub M (f_one M) state) (f_two M))
      | SMOOTH_IN_OUT \<Rightarrow> f_sin M state
      | ZERO \<Rightarrow> f_of_int M 0)"

definition ValueBetween :: "('f, 'tr) tween_ops \<Rightarrow> 'f \<Rightarrow> 'f \<Rightarrow> 'f \<Rightarrow> 'f" where
  "ValueBetween M v start target = f_add M start (f_mul M (f_sub M target start) v)"

definition ValueBetween_int :: "('f, 'tr) tween_ops \<Rightarrow> 'f \<Rightarrow> int \<Rightarrow> int \<Rightarrow> int" where
  "ValueBetween_int M v start target =
     (if start = target then start
      else let delta = f_of_int M (target - start);
               delta1 = (if f_less M delta (f_of_int M 0) then f_sub M delta (f_one M) else f_add M delta (f_one M))
           in start + f_trunc M (f_mul M v (f_nextafter M delta1 (f_of_int M 0))))"

definition ValueBetween_rect :: "('f, 'tr) tween_ops \<Rightarrow> 'f \<Rightarrow> rect \<Rightarrow> rect \<Rightarrow> rect" where
  "ValueBetween_rect M v start target =
     mk_rect (ValueBetween_int M v (rect_x start) (rect_x target)) (ValueBetween_int M v (rect_y start) (rect_y target))
       (ValueBetween_int M v (rect_width start) (rect_width target)) (ValueBetween_int M v (rect_height start) (rect_height target))"

definition ValueBetween_transform :: "('f, 'tr) tween_ops \<Rightarrow> 'f \<Rightarrow> 'tr \<Rightarrow> 'tr \<Rightarrow> 'tr" where
  "ValueBetween_transform M v start target =
     (if f_less M (f_one M) v \<or> f_eq M v (f_one M) then target
      else if f_less M v (f_of_int M 0) \<or> f_eq M v (f_of_int M 0) then start
      else tr_blend M v start target)"

section \<open>Elements\<close>

datatype AnimatableProperty = TRANSFORM | BOUNDS | OPACITY | VISIBILITY

record ('f, 'tr) target_value =
  tv_bounds :: rect
  tv_transform :: 'tr
  tv_opacity :: 'f
  tv_visibility :: bool

text \<open>The layer behind the animator: its properties, and how often it was asked to draw.\<close>

record ('f, 'tr) layer = "('f, 'tr) target_value" +
  ly_draws :: nat

text \<open>The subclasses of \<open>LayerAnimationElement\<close>, with \<open>start_\<close> before \<open>target_\<close>.\<close>

datatype ('f, 'tr) transition =
  Pause
| TransformTransition 'tr 'tr
| InterpolatedTransformTransition "'f \<Rightarrow> 'tr"
| BoundsTransition rect rect
| OpacityTransition 'f 'f
| VisibilityTransition bool bool

record ('f, 'tr) layer_element =
  el_first_frame :: bool
  el_properties :: "AnimatableProperty set"
  el_duration :: int
  el_tween_type :: tween_type
  el_transition :: "('f, 'tr) transition"

definition OnStart :: "('f, 'tr) layer option \<Rightarrow> ('f, 'tr) transition \<Rightarrow> ('f, 'tr) transition option" where
  "OnStart delegate k =
     (case k of
        TransformTransition start target \<Rightarrow> map_option (\<lambda>d. TransformTransition (tv_transform d) target) delegate
      | BoundsTransition start target \<Rightarrow> map_option (\<lambda>d. BoundsTransition (tv_bounds d) target) delegate
      | OpacityTransition start target \<Rightarrow> map_option (\<lambda>d. OpacityTransition (tv_opacity d) target) delegate
      | VisibilityTransition start target \<Rightarrow> map_option (\<lambda>d. VisibilityTransition (tv_visibility d) target) delegate
      | _ \<Rightarrow> Some k)"

definition OnProgress ::
  "('f, 'tr) tween_ops \<Rightarrow> 'f \<Rightarrow> ('f, 'tr) layer option \<Rightarrow> ('f, 'tr) transition \<Rightarrow> (('f, 'tr) layer option \<times> bool) option" where
  "OnProgress M t delegate k =
     (case k of
        Pause \<Rightarrow> Some (delegate, False)
      | TransformTransition start target \<Rightarrow>
          map_option (\<lambda>d. (Some (d\<lparr>tv_transform := ValueBetween_transform M t start target\<rparr>), True)) delegate
      | InterpolatedTransformTransition f \<Rightarrow> map_option (\<lambda>d. (Some (d\<lparr>tv_transform := f (f_round M t)\<rparr>), True)) delegate
      | BoundsTransition start target \<Rightarrow>
          map_option (\<lambda>d. (Some (d\<lparr>tv_bounds := ValueBetween_rect M t start target\<rparr>), True)) delegate
      | OpacityTransition start target \<Rightarrow>
          map_option (\<lambda>d. (Some (d\<lparr>tv_opacity := f_round M (ValueBetween M t start target)\<rparr>), True)) delegate
      | VisibilityTransition start target \<Rightarrow>
          map_option (\<lambda>d. (Some (d\<lparr>tv_visibility := (if f_eq M t (f_one M) then target else start)\<rparr>), f_eq M t (f_one M))) delegate)"

definition OnGetTarget :: "('f, 'tr) tween_ops \<Rightarrow> ('f, 'tr) transition \<Rightarrow> ('f, 'tr, 'z) target_value_scheme \<Rightarrow> ('f, 'tr, 'z) target_value_scheme" where
  "OnGetTarget M k v =
     (case k of
        Pause \<Rightarrow> v
      | TransformTransition start target \<Rightarrow> v\<lparr>tv_transform := target\<rparr>
      | InterpolatedTransformTransition f \<Rightarrow> v\<lparr>tv_transform := f (f_one M)\<rparr>
      | BoundsTransition start target \<Rightarrow> v\<lparr>tv_bounds := target\<rparr>
      | OpacityTransition start target \<Rightarrow> v\<lparr>tv_opacity := target\<rparr>
      | VisibilityTransition start target \<Rightarrow> v\<lparr>tv_visibility := target\<rparr>)"

text \<open>The static switches of the animator that change durations: \<open>disable_animations_for_test\<close> and
  \<open>slow_animation_mode\<close>.\<close>

record animation_switches =
  disable_animations :: bool
  slow_animation_mode :: bool

definition kSlowAnimationScaleFactor :: int where
  "kSlowAnimationScaleFactor = 4"

definition GetEffectiveDuration :: "animation_switches \<Rightarrow> int \<Rightarrow> int" where
  "GetEffectiveDuration W duration =
     (if disable_animations W then 0
      else if slow_animation_mode W then duration * kSlowAnimationScaleFactor
      else duration)"

definition mk_element ::
  "animation_switches \<Rightarrow> AnimatableProperty set \<Rightarrow> int \<Rightarrow> ('f, 'tr) transition \<Rightarrow> ('f, 'tr) layer_element" where
  "mk_element W properties duration k =
     \<lparr>el_first_frame = True, el_properties = properties, el_duration = GetEffectiveDuration W duration,
      el_tween_type = LINEAR, el_transition = k\<rparr>"

definition CreateTransformElement :: "('f, 'tr) tween_ops \<Rightarrow> animation_switches \<Rightarrow> 'tr \<Rightarrow> int \<Rightarrow> ('f, 'tr) layer_element" where
  "CreateTransformElement M W transform duration =
     mk_element W {TRANSFORM} duration (TransformTransition (tr_identity M) transform)"

definition CreateInterpolatedTransformElement :: "animation_switches \<Rightarrow> ('f \<Rightarrow> 'tr) \<Rightarrow> int \<Rightarrow> ('f, 'tr) layer_element" where
  "CreateInterpolatedTransformElement W f duration =
     mk_element W {TRANSFORM} duration (InterpolatedTransformTransition f)"

definition CreateBoundsElement :: "animation_switches \<Rightarrow> rect \<Rightarrow> int \<Rightarrow> ('f, 'tr) layer_element" where
  "CreateBoundsElement W bounds duration =
     mk_element W {BOUNDS} duration (BoundsTransition rect_default bounds)"

definition CreateOpacityElement :: "('f, 'tr) tween_ops \<Rightarrow> animation_switches \<Rightarrow> 'f \<Rightarrow> int \<Rightarrow> ('f, 'tr) layer_element" where
  "CreateOpacityElement M W opacity duration =
     mk_element W {OPACITY} duration (OpacityTransition (f_of_int M 0) opacity)"

definition CreateVisibilityElement :: "animation_switches \<Rightarrow> bool \<Rightarrow> int \<Rightarrow> ('f, 'tr) layer_element" where
  "CreateVisibilityElement W visibility duration =
     mk_element W {VISIBILITY} duration (VisibilityTransition False visibility)"

definition CreatePauseElement :: "animation_switches \<Rightarrow> AnimatableProperty set \<Rightarrow> int \<Rightarrow> ('f, 'tr) layer_element" where
  "CreatePauseElement W properties duration = mk_element W properties duration Pause"

definition el_Progress ::
  "('f, 'tr) tween_ops \<Rightarrow> 'f \<Rightarrow> ('f, 'tr) layer option \<Rightarrow> ('f, 'tr) layer_element \<Rightarrow>
   (('f, 'tr) layer_element \<times> ('f, 'tr) layer option \<times> bool) option" where
  "el_Progress M t delegate e = do {
     k \<leftarrow> (if el_first_frame e then OnStart delegate (el_transition e) else Some (el_transition e));
     (delegate', need_draw) \<leftarrow> OnProgress M (CalculateValue M (el_tween_type e) t) delegate k;
     Some (e\<lparr>el_transition := k, el_first_frame := f_eq M t (f_one M)\<rparr>, delegate', need_draw)
   }"

definition el_GetTargetValue ::
  "('f, 'tr) tween_ops \<Rightarrow> ('f, 'tr) layer_element \<Rightarrow> ('f, 'tr, 'z) target_value_scheme \<Rightarrow> ('f, 'tr, 'z) target_value_scheme" where
  "el_GetTargetValue M e target = OnGetTarget M (el_transition e) target"

definition el_Abort :: "('f, 'tr) layer_element \<Rightarrow> ('f, 'tr) layer_element" where
  "el_Abort e = e\<lparr>el_first_frame := True\<rparr>"

section \<open>Sequences\<close>

record ('f, 'tr) layer_sequence =
  sq_duration :: int
  sq_properties :: "AnimatableProperty set"
  sq_elements :: "('f, 'tr) layer_element list"
  sq_is_cyclic :: bool
  sq_last_element :: nat
  sq_last_start :: int
  sq_observers :: "nat list"

text \<open>What an observer is told about the sequence at an address.\<close>

datatype animation_note =
  OnLayerAnimationScheduled nat nat
| OnLayerAnimationEnded nat nat
| OnLayerAnimationAborted nat nat
| AttachedToSequence nat nat
| DetachedFromSequence nat nat bool

definition sq_empty :: "('f, 'tr) layer_sequence" where
  "sq_empty = \<lparr>sq_duration = 0, sq_properties = {}, sq_elements = [], sq_is_cyclic = False, sq_last_element = 0,
     sq_last_start = 0, sq_observers = []\<rparr>"

definition sq_AddElement :: "('f, 'tr) layer_element \<Rightarrow> ('f, 'tr) layer_sequence \<Rightarrow> ('f, 'tr) layer_sequence" where
  "sq_AddElement e s =
     s\<lparr>sq_duration := sq_duration s + el_duration e, sq_properties := sq_properties s \<union> el_properties e,
       sq_elements := sq_elements s @ [e]\<rparr>"

definition sq_single :: "('f, 'tr) layer_element \<Rightarrow> ('f, 'tr) layer_sequence" where
  "sq_single e = sq_AddElement e sq_empty"

partial_function (option) progress_loop ::
  "('f, 'tr) tween_ops \<Rightarrow> bool \<Rightarrow> int \<Rightarrow> ('f, 'tr) layer_element list \<Rightarrow> nat \<Rightarrow> int \<Rightarrow> ('f, 'tr) layer option \<Rightarrow> bool \<Rightarrow>
   (('f, 'tr) layer_element list \<times> nat \<times> int \<times> ('f, 'tr) layer option \<times> bool) option" where
  "progress_loop M cyclic elapsed es last_element last_start delegate redraw =
     (let i = last_element mod length es
      in if (cyclic \<or> last_element < length es) \<and> last_start + el_duration (es ! i) < elapsed
         then do {
           (e, delegate', r) \<leftarrow> el_Progress M (f_one M) delegate (es ! i);
           progress_loop M cyclic elapsed (es[i := e]) (Suc last_element) (last_start + el_duration (es ! i)) delegate' (redraw \<or> r)
         }
         else Some (es, last_element, last_start, delegate, redraw))"

declare progress_loop.simps [code]

definition in_milliseconds :: "('f, 'tr) tween_ops \<Rightarrow> int \<Rightarrow> 'f" where
  "in_milliseconds M us = f_div M (f_of_int M us) (f_of_int M 1000)"

definition NotifyEnded :: "nat \<Rightarrow> ('f, 'tr) layer_sequence \<Rightarrow> animation_note list" where
  "NotifyEnded this s = map (\<lambda>obs. OnLayerAnimationEnded obs this) (sq_observers s)"

definition NotifyAborted :: "nat \<Rightarrow> ('f, 'tr) layer_sequence \<Rightarrow> animation_note list" where
  "NotifyAborted this s = map (\<lambda>obs. OnLayerAnimationAborted obs this) (sq_observers s)"

definition NotifyScheduled :: "nat \<Rightarrow> ('f, 'tr) layer_sequence \<Rightarrow> animation_note list" where
  "NotifyScheduled this s = map (\<lambda>obs. OnLayerAnimationScheduled obs this) (sq_observers s)"

definition skip_cycles :: "int \<Rightarrow> ('f, 'tr) layer_sequence \<Rightarrow> int" where
  "skip_cycles elapsed s =
     (if sq_is_cyclic s \<and> sq_duration s > 0
      then sq_last_start s + ((elapsed - sq_last_start s) sdiv sq_duration s - 1) * sq_duration s
      else sq_last_start s)"

definition sq_Progress ::
  "('f, 'tr) tween_ops \<Rightarrow> nat \<Rightarrow> int \<Rightarrow> ('f, 'tr) layer option \<Rightarrow> ('f, 'tr) layer_sequence \<Rightarrow>
   (('f, 'tr) layer_sequence \<times> ('f, 'tr) layer option \<times> bool \<times> animation_note list) option" where
  "sq_Progress M this elapsed delegate s =
     (if sq_elements s = [] then Some (s, delegate, False, [])
      else do {
        (es, last_element, last_start, d1, redraw) \<leftarrow>
          progress_loop M (sq_is_cyclic s) elapsed (sq_elements s) (sq_last_element s) (skip_cycles elapsed s) delegate False;
        let i = last_element mod length es;
        (es2, d2, redraw2) \<leftarrow>
          (if sq_is_cyclic s \<or> last_element < length es
           then let t = (if el_duration (es ! i) > 0
                         then f_div M (in_milliseconds M (elapsed - last_start)) (in_milliseconds M (el_duration (es ! i)))
                         else f_one M)
                in map_option (\<lambda>(e, d, r). (es[i := e], d, redraw \<or> r)) (el_Progress M t d1 (es ! i))
           else Some (es, d1, redraw));
        let s2 = s\<lparr>sq_elements := es2, sq_last_element := last_element, sq_last_start := last_start\<rparr>;
        if \<not> sq_is_cyclic s \<and> elapsed = sq_duration s
        then Some (s2\<lparr>sq_last_element := 0, sq_last_start := 0\<rparr>, d2, redraw2, NotifyEnded this s2)
        else Some (s2, d2, redraw2, [])
      })"

definition sq_GetTargetValue ::
  "('f, 'tr) tween_ops \<Rightarrow> ('f, 'tr) layer_sequence \<Rightarrow> ('f, 'tr, 'z) target_value_scheme \<Rightarrow> ('f, 'tr, 'z) target_value_scheme" where
  "sq_GetTargetValue M s target =
     (if sq_is_cyclic s then target
      else fold (el_GetTargetValue M) (drop (sq_last_element s) (sq_elements s)) target)"

text \<open>\<open>Abort\<close> divides by the number of elements.\<close>

definition sq_Abort :: "nat \<Rightarrow> ('f, 'tr) layer_sequence \<Rightarrow> (('f, 'tr) layer_sequence \<times> animation_note list) option" where
  "sq_Abort this s =
     (if sq_elements s = [] then None
      else let i = sq_last_element s mod length (sq_elements s)
           in Some (s\<lparr>sq_elements := take i (sq_elements s) @ map el_Abort (drop i (sq_elements s)),
                      sq_last_element := 0, sq_last_start := 0\<rparr>, NotifyAborted this s))"

definition sq_HasCommonProperty :: "AnimatableProperty set \<Rightarrow> ('f, 'tr) layer_sequence \<Rightarrow> bool" where
  "sq_HasCommonProperty other s \<longleftrightarrow> sq_properties s \<inter> other \<noteq> {}"

definition sq_AddObserver :: "nat \<Rightarrow> nat \<Rightarrow> ('f, 'tr) layer_sequence \<Rightarrow> ('f, 'tr) layer_sequence \<times> animation_note list" where
  "sq_AddObserver this obs s =
     (if obs \<in> set (sq_observers s) then (s, [])
      else (s\<lparr>sq_observers := sq_observers s @ [obs]\<rparr>, [AttachedToSequence obs this]))"

definition sq_RemoveObserver :: "nat \<Rightarrow> nat \<Rightarrow> ('f, 'tr) layer_sequence \<Rightarrow> ('f, 'tr) layer_sequence \<times> animation_note list" where
  "sq_RemoveObserver this obs s =
     (s\<lparr>sq_observers := remove1 obs (sq_observers s)\<rparr>, [DetachedFromSequence obs this True])"

text \<open>\<open>keeps\<close> is \<open>RequiresNotificationWhenAnimatorDestroyed\<close>.\<close>

definition sq_OnAnimatorDestroyed ::
  "(nat \<Rightarrow> bool) \<Rightarrow> nat \<Rightarrow> ('f, 'tr) layer_sequence \<Rightarrow> ('f, 'tr) layer_sequence \<times> animation_note list" where
  "sq_OnAnimatorDestroyed keeps this s =
     (s\<lparr>sq_observers := filter keeps (sq_observers s)\<rparr>,
      map (\<lambda>obs. DetachedFromSequence obs this False) (filter (\<lambda>obs. \<not> keeps obs) (sq_observers s)))"

text \<open>The notes of the destructor.\<close>

definition sq_destroy :: "nat \<Rightarrow> ('f, 'tr) layer_sequence \<Rightarrow> animation_note list" where
  "sq_destroy this s = map (\<lambda>obs. DetachedFromSequence obs this True) (sq_observers s)"

end
