(* ===== verification/Layer_Animator.thy ===== *)
theory Layer_Animator
  imports Layer_Animation
begin

text \<open>
  \<open>LayerAnimator\<close> (\<open>src/ui/compositor/layer_animator.cc\<close>): the queue of animation sequences of a layer and
  those of them that run. The sequences live in a store; an address whose sequence was deleted is unmapped,
  and following it is a result of \<open>None\<close>, as is a null delegate.

  The methods call each other in a circle: starting a sequence steps the animator, a step finishes
  sequences, finishing one processes the queue, and that starts sequences. The methods below take
  \<open>ProcessQueue\<close> as the argument \<open>pq\<close>, and \<open>la_ProcessQueue\<close> closes the circle. \<open>la_clock\<close> holds the readings
  of the system clock.
\<close>

section \<open>State\<close>

datatype PreemptionStrategy =
  IMMEDIATELY_SET_NEW_TARGET
| IMMEDIATELY_ANIMATE_TO_NEW_TARGET
| ENQUEUE_NEW_ANIMATION
| REPLACE_QUEUED_ANIMATIONS
| BLEND_WITH_CURRENT_ANIMATION

record ('f, 'tr) layer_animator =
  la_store :: "nat \<Rightarrow> ('f, 'tr) layer_sequence option"
  la_next :: nat
  la_queue :: "nat list"
  la_delegate :: "('f, 'tr) layer option"
  la_running :: "(nat \<times> int) list"
  la_preemption_strategy :: PreemptionStrategy
  la_transition_duration :: int
  la_tween_type :: tween_type
  la_last_step_time :: int
  la_is_started :: bool
  la_disable_timer_for_test :: bool
  la_observers :: "nat list"
  la_in_container :: bool
  la_clock :: "nat \<Rightarrow> int"
  la_reads :: nat
  la_notes :: "animation_note list"

definition mk_LayerAnimator :: "(nat \<Rightarrow> int) \<Rightarrow> int \<Rightarrow> ('f, 'tr) layer_animator" where
  "mk_LayerAnimator clock transition_duration =
     \<lparr>la_store = (\<lambda>_. None), la_next = 0, la_queue = [], la_delegate = None, la_running = [],
      la_preemption_strategy = IMMEDIATELY_SET_NEW_TARGET, la_transition_duration = transition_duration,
      la_tween_type = LINEAR, la_last_step_time = 0, la_is_started = False, la_disable_timer_for_test = False,
      la_observers = [], la_in_container = False, la_clock = clock, la_reads = 0, la_notes = []\<rparr>"

definition kDefaultTransitionDuration :: int where
  "kDefaultTransitionDuration = 120000"

definition CreateDefaultAnimator :: "(nat \<Rightarrow> int) \<Rightarrow> ('f, 'tr) layer_animator" where
  "CreateDefaultAnimator clock = mk_LayerAnimator clock 0"

definition CreateImplicitAnimator :: "(nat \<Rightarrow> int) \<Rightarrow> ('f, 'tr) layer_animator" where
  "CreateImplicitAnimator clock = mk_LayerAnimator clock kDefaultTransitionDuration"

text \<open>\<open>new\<close> and \<open>delete\<close> of a sequence, \<open>TimeTicks::Now\<close>, and the notes to observers.\<close>

definition la_note :: "animation_note list \<Rightarrow> ('f, 'tr) layer_animator \<Rightarrow> ('f, 'tr) layer_animator" where
  "la_note ns A = A\<lparr>la_notes := la_notes A @ ns\<rparr>"

definition la_put :: "nat \<Rightarrow> ('f, 'tr) layer_sequence \<Rightarrow> ('f, 'tr) layer_animator \<Rightarrow> ('f, 'tr) layer_animator" where
  "la_put sid s A = A\<lparr>la_store := (la_store A)(sid \<mapsto> s)\<rparr>"

definition la_new :: "('f, 'tr) layer_sequence \<Rightarrow> ('f, 'tr) layer_animator \<Rightarrow> ('f, 'tr) layer_animator" where
  "la_new s A = A\<lparr>la_store := (la_store A)(la_next A \<mapsto> s), la_next := Suc (la_next A)\<rparr>"

definition la_delete :: "nat \<Rightarrow> ('f, 'tr) layer_animator \<Rightarrow> ('f, 'tr) layer_animator option" where
  "la_delete sid A =
     map_option (\<lambda>s. la_note (sq_destroy sid s) (A\<lparr>la_store := (la_store A)(sid := None)\<rparr>)) (la_store A sid)"

definition la_Now :: "('f, 'tr) layer_animator \<Rightarrow> int \<times> ('f, 'tr) layer_animator" where
  "la_Now A = (la_clock A (la_reads A), A\<lparr>la_reads := Suc (la_reads A)\<rparr>)"

section \<open>Running animations\<close>

definition la_is_animating :: "('f, 'tr) layer_animator \<Rightarrow> bool" where
  "la_is_animating A \<longleftrightarrow> la_queue A \<noteq> []"

definition la_HasAnimation :: "nat \<Rightarrow> ('f, 'tr) layer_animator \<Rightarrow> bool" where
  "la_HasAnimation sid A \<longleftrightarrow> sid \<in> set (la_queue A)"

definition la_ProgressAnimation ::
  "('f, 'tr) tween_ops \<Rightarrow> nat \<Rightarrow> int \<Rightarrow> ('f, 'tr) layer_animator \<Rightarrow> (('f, 'tr) layer_animator \<times> bool) option" where
  "la_ProgressAnimation M sid delta A = do {
     s \<leftarrow> la_store A sid;
     (s', d, redraw, ns) \<leftarrow> sq_Progress M sid delta (la_delegate A) s;
     Some (la_note ns ((la_put sid s' A)\<lparr>la_delegate := d\<rparr>), redraw)
   }"

definition la_UpdateAnimationState :: "('f, 'tr) layer_animator \<Rightarrow> ('f, 'tr) layer_animator" where
  "la_UpdateAnimationState A =
     (if la_disable_timer_for_test A then A
      else let should_start = la_is_animating A
           in A\<lparr>la_in_container :=
                  (if should_start \<and> \<not> la_is_started A then True
                   else if \<not> should_start \<and> la_is_started A then False
                   else la_in_container A),
                la_is_started := should_start\<rparr>)"

fun remove_running :: "nat \<Rightarrow> (nat \<times> int) list \<Rightarrow> (nat \<times> int) list" where
  "remove_running sid [] = []"
| "remove_running sid (r # rs) = (if fst r = sid then rs else r # remove_running sid rs)"

text \<open>The result says whether the sequence was owned by the queue.\<close>

definition la_RemoveAnimation :: "nat \<Rightarrow> ('f, 'tr) layer_animator \<Rightarrow> ('f, 'tr) layer_animator \<times> bool" where
  "la_RemoveAnimation sid A =
     (A\<lparr>la_running := remove_running sid (la_running A), la_queue := remove1 sid (la_queue A)\<rparr>, sid \<in> set (la_queue A))"

definition la_FinishAnimation ::
  "(('f, 'tr) layer_animator \<Rightarrow> ('f, 'tr) layer_animator option) \<Rightarrow> ('f, 'tr) tween_ops \<Rightarrow> nat \<Rightarrow> ('f, 'tr) layer_animator \<Rightarrow>
   ('f, 'tr) layer_animator option" where
  "la_FinishAnimation pq M sid A = do {
     let (A1, removed) = la_RemoveAnimation sid A;
     s \<leftarrow> la_store A1 sid;
     (A2, _) \<leftarrow> la_ProgressAnimation M sid (sq_duration s) A1;
     A3 \<leftarrow> pq A2;
     let A4 = la_UpdateAnimationState A3;
     if removed then la_delete sid A4 else Some A4
   }"

fun step_loop ::
  "(('f, 'tr) layer_animator \<Rightarrow> ('f, 'tr) layer_animator option) \<Rightarrow> ('f, 'tr) tween_ops \<Rightarrow> int \<Rightarrow> (nat \<times> int) list \<Rightarrow> bool \<Rightarrow>
   ('f, 'tr) layer_animator \<Rightarrow> (('f, 'tr) layer_animator \<times> bool) option" where
  "step_loop pq M now [] needs_redraw A = Some (A, needs_redraw)"
| "step_loop pq M now ((sid, start_time) # rs) needs_redraw A =
     (if \<not> la_HasAnimation sid A then step_loop pq M now rs needs_redraw A
      else do {
        s \<leftarrow> la_store A sid;
        if now - start_time \<ge> sq_duration s \<and> \<not> sq_is_cyclic s
        then do { A1 \<leftarrow> la_FinishAnimation pq M sid A; step_loop pq M now rs needs_redraw A1 }
        else do {
          (A1, redraw) \<leftarrow> la_ProgressAnimation M sid (now - start_time) A;
          step_loop pq M now rs (needs_redraw \<or> redraw) A1
        }
      })"

definition step_with ::
  "(('f, 'tr) layer_animator \<Rightarrow> ('f, 'tr) layer_animator option) \<Rightarrow> ('f, 'tr) tween_ops \<Rightarrow> int \<Rightarrow> ('f, 'tr) layer_animator \<Rightarrow>
   ('f, 'tr) layer_animator option" where
  "step_with pq M now A = do {
     (A1, needs_redraw) \<leftarrow> step_loop pq M now (la_running A) False (A\<lparr>la_last_step_time := now\<rparr>);
     if needs_redraw
     then map_option (\<lambda>d. A1\<lparr>la_delegate := Some (d\<lparr>ly_draws := Suc (ly_draws d)\<rparr>)\<rparr>) (la_delegate A1)
     else Some A1
   }"

fun conflict_loop :: "AnimatableProperty set \<Rightarrow> (nat \<times> int) list \<Rightarrow> ('f, 'tr) layer_animator \<Rightarrow> bool option" where
  "conflict_loop properties [] A = Some False"
| "conflict_loop properties ((sid, _) # rs) A = do {
     s \<leftarrow> la_store A sid;
     if sq_HasCommonProperty properties s then Some True else conflict_loop properties rs A
   }"

definition la_AddToQueueIfNotPresent :: "nat \<Rightarrow> ('f, 'tr) layer_animator \<Rightarrow> ('f, 'tr) layer_animator" where
  "la_AddToQueueIfNotPresent sid A = (if sid \<in> set (la_queue A) then A else A\<lparr>la_queue := sid # la_queue A\<rparr>)"

definition start_with ::
  "(('f, 'tr) layer_animator \<Rightarrow> ('f, 'tr) layer_animator option) \<Rightarrow> ('f, 'tr) tween_ops \<Rightarrow> nat \<Rightarrow> ('f, 'tr) layer_animator \<Rightarrow>
   (('f, 'tr) layer_animator \<times> bool) option" where
  "start_with pq M sid A = do {
     s \<leftarrow> la_store A sid;
     conflict \<leftarrow> conflict_loop (sq_properties s) (la_running A) A;
     if conflict then Some (A, False)
     else do {
       let (start_time, A1) = (if la_is_animating A then (la_last_step_time A, A) else la_Now A);
       let A2 = la_AddToQueueIfNotPresent sid (A1\<lparr>la_running := la_running A1 @ [(sid, start_time)]\<rparr>);
       A3 \<leftarrow> step_with pq M start_time A2;
       Some (A3, True)
     }
   }"

section \<open>The queue\<close>

fun running_properties :: "(nat \<times> int) list \<Rightarrow> ('f, 'tr) layer_animator \<Rightarrow> AnimatableProperty set option" where
  "running_properties [] A = Some {}"
| "running_properties ((sid, _) # rs) A = do {
     s \<leftarrow> la_store A sid;
     ps \<leftarrow> running_properties rs A;
     Some (sq_properties s \<union> ps)
   }"

fun find_startable :: "AnimatableProperty set \<Rightarrow> nat list \<Rightarrow> ('f, 'tr) layer_animator \<Rightarrow> nat option option" where
  "find_startable animated [] A = Some None"
| "find_startable animated (sid # sids) A = do {
     s \<leftarrow> la_store A sid;
     if \<not> sq_HasCommonProperty animated s then Some (Some sid)
     else find_startable (animated \<union> sq_properties s) sids A
   }"

text \<open>A function that takes \<open>pq\<close> is monotone in it, as the recursion through \<open>pq\<close> needs.\<close>

lemma FinishAnimation_mono [partial_function_mono]:
  assumes "\<And>x. mono_option (\<lambda>f. F f x)"
  shows "mono_option (\<lambda>f. la_FinishAnimation (F f) M sid A)"
  unfolding la_FinishAnimation_def Let_def split_def by (intro partial_function_mono assms)

lemma step_loop_mono [partial_function_mono]:
  assumes "\<And>x. mono_option (\<lambda>f. F f x)"
  shows "mono_option (\<lambda>f. step_loop (F f) M now rs b A)"
proof (induction rs arbitrary: b A)
  case Nil
  show ?case by (simp, rule partial_function_mono)
next
  case (Cons r rs)
  obtain sid t where r: "r = (sid, t)" by (cases r)
  show ?case unfolding r step_loop.simps split_def by (intro partial_function_mono assms Cons.IH)
qed

lemma start_with_mono [partial_function_mono]:
  assumes "\<And>x. mono_option (\<lambda>f. F f x)"
  shows "mono_option (\<lambda>f. start_with (F f) M sid A)"
  unfolding start_with_def step_with_def Let_def split_def by (intro partial_function_mono assms)

partial_function (option) la_ProcessQueue ::
  "('f, 'tr) tween_ops \<Rightarrow> ('f, 'tr) layer_animator \<Rightarrow> ('f, 'tr) layer_animator option" where
  "la_ProcessQueue M A = do {
     animated \<leftarrow> running_properties (la_running A) A;
     startable \<leftarrow> find_startable animated (la_queue A) A;
     case startable of
       None \<Rightarrow> Some A
     | Some sid \<Rightarrow> do {
         (A1, _) \<leftarrow> start_with (la_ProcessQueue M) M sid A;
         la_ProcessQueue M A1
       }
   }"

declare la_ProcessQueue.simps [code]

definition la_Step :: "('f, 'tr) tween_ops \<Rightarrow> int \<Rightarrow> ('f, 'tr) layer_animator \<Rightarrow> ('f, 'tr) layer_animator option" where
  "la_Step M now A = step_with (la_ProcessQueue M) M now A"

definition la_StartSequenceImmediately ::
  "('f, 'tr) tween_ops \<Rightarrow> nat \<Rightarrow> ('f, 'tr) layer_animator \<Rightarrow> (('f, 'tr) layer_animator \<times> bool) option" where
  "la_StartSequenceImmediately M sid A = start_with (la_ProcessQueue M) M sid A"

fun zero_duration_loop ::
  "('f, 'tr) tween_ops \<Rightarrow> (nat \<times> int) list \<Rightarrow> ('f, 'tr) layer_animator \<Rightarrow> ('f, 'tr) layer_animator option" where
  "zero_duration_loop M [] A = Some A"
| "zero_duration_loop M ((sid, _) # rs) A =
     (if \<not> la_HasAnimation sid A then zero_duration_loop M rs A
      else do {
        s \<leftarrow> la_store A sid;
        if sq_duration s = 0
        then do {
          (A1, _) \<leftarrow> la_ProgressAnimation M sid (sq_duration s) A;
          let (A2, removed) = la_RemoveAnimation sid A1;
          A3 \<leftarrow> (if removed then la_delete sid A2 else Some A2);
          zero_duration_loop M rs A3
        }
        else zero_duration_loop M rs A
      })"

definition la_FinishAnyAnimationWithZeroDuration ::
  "('f, 'tr) tween_ops \<Rightarrow> ('f, 'tr) layer_animator \<Rightarrow> ('f, 'tr) layer_animator option" where
  "la_FinishAnyAnimationWithZeroDuration M A = do {
     A1 \<leftarrow> zero_duration_loop M (la_running A) A;
     A2 \<leftarrow> la_ProcessQueue M A1;
     Some (la_UpdateAnimationState A2)
   }"

section \<open>Preemption\<close>

definition la_Abort :: "nat \<Rightarrow> ('f, 'tr) layer_animator \<Rightarrow> ('f, 'tr) layer_animator option" where
  "la_Abort sid A = do {
     s \<leftarrow> la_store A sid;
     (s', ns) \<leftarrow> sq_Abort sid s;
     Some (la_note ns (la_put sid s' A))
   }"

text \<open>The body of both loops of \<open>RemoveAllAnimationsWithACommonProperty\<close>.\<close>

fun remove_common_loop ::
  "('f, 'tr) tween_ops \<Rightarrow> bool \<Rightarrow> nat \<Rightarrow> nat list \<Rightarrow> ('f, 'tr) layer_animator \<Rightarrow> ('f, 'tr) layer_animator option" where
  "remove_common_loop M abort sequence [] A = Some A"
| "remove_common_loop M abort sequence (sid # sids) A =
     (if \<not> la_HasAnimation sid A then remove_common_loop M abort sequence sids A
      else do {
        s \<leftarrow> la_store A sid;
        q \<leftarrow> la_store A sequence;
        if sq_HasCommonProperty (sq_properties q) s
        then do {
          let (A1, removed) = la_RemoveAnimation sid A;
          A2 \<leftarrow> (if abort then la_Abort sid A1 else map_option fst (la_ProgressAnimation M sid (sq_duration s) A1));
          A3 \<leftarrow> (if removed then la_delete sid A2 else Some A2);
          remove_common_loop M abort sequence sids A3
        }
        else remove_common_loop M abort sequence sids A
      })"

definition la_RemoveAllAnimationsWithACommonProperty ::
  "('f, 'tr) tween_ops \<Rightarrow> nat \<Rightarrow> bool \<Rightarrow> ('f, 'tr) layer_animator \<Rightarrow> ('f, 'tr) layer_animator option" where
  "la_RemoveAllAnimationsWithACommonProperty M sequence abort A = do {
     A1 \<leftarrow> remove_common_loop M abort sequence (map fst (la_running A)) A;
     remove_common_loop M abort sequence (la_queue A1) A1
   }"

definition la_ImmediatelySetNewTarget ::
  "('f, 'tr) tween_ops \<Rightarrow> nat \<Rightarrow> ('f, 'tr) layer_animator \<Rightarrow> ('f, 'tr) layer_animator option" where
  "la_ImmediatelySetNewTarget M sequence A = do {
     A1 \<leftarrow> la_RemoveAllAnimationsWithACommonProperty M sequence False A;
     let (A2, _) = la_RemoveAnimation sequence A1;
     s \<leftarrow> la_store A2 sequence;
     (A3, _) \<leftarrow> la_ProgressAnimation M sequence (sq_duration s) A2;
     la_delete sequence A3
   }"

definition la_ImmediatelyAnimateToNewTarget ::
  "('f, 'tr) tween_ops \<Rightarrow> nat \<Rightarrow> ('f, 'tr) layer_animator \<Rightarrow> ('f, 'tr) layer_animator option" where
  "la_ImmediatelyAnimateToNewTarget M sequence A = do {
     A1 \<leftarrow> la_RemoveAllAnimationsWithACommonProperty M sequence True A;
     map_option fst (la_StartSequenceImmediately M sequence (la_AddToQueueIfNotPresent sequence A1))
   }"

definition la_EnqueueNewAnimation ::
  "('f, 'tr) tween_ops \<Rightarrow> nat \<Rightarrow> ('f, 'tr) layer_animator \<Rightarrow> ('f, 'tr) layer_animator option" where
  "la_EnqueueNewAnimation M sequence A = la_ProcessQueue M (A\<lparr>la_queue := la_queue A @ [sequence]\<rparr>)"

text \<open>The loop visits the queue in order; a sequence that does not run is removed and deleted.\<close>

fun replace_loop :: "nat list \<Rightarrow> ('f, 'tr) layer_animator \<Rightarrow> ('f, 'tr) layer_animator option" where
  "replace_loop [] A = Some A"
| "replace_loop (sid # sids) A =
     (if sid \<in> fst ` set (la_running A) then replace_loop sids A
      else do {
        let (A1, removed) = la_RemoveAnimation sid A;
        A2 \<leftarrow> (if removed then la_delete sid A1 else Some A1);
        replace_loop sids A2
      })"

definition la_ReplaceQueuedAnimations ::
  "('f, 'tr) tween_ops \<Rightarrow> nat \<Rightarrow> ('f, 'tr) layer_animator \<Rightarrow> ('f, 'tr) layer_animator option" where
  "la_ReplaceQueuedAnimations M sequence A = do {
     A1 \<leftarrow> replace_loop (la_queue A) A;
     la_ProcessQueue M (A1\<lparr>la_queue := la_queue A1 @ [sequence]\<rparr>)
   }"

section \<open>Starting, scheduling and stopping\<close>

fun attach_loop :: "nat list \<Rightarrow> nat \<Rightarrow> ('f, 'tr) layer_animator \<Rightarrow> ('f, 'tr) layer_animator option" where
  "attach_loop [] sid A = Some A"
| "attach_loop (obs # os) sid A = do {
     s \<leftarrow> la_store A sid;
     let (s', ns) = sq_AddObserver sid obs s;
     attach_loop os sid (la_note ns (la_put sid s' A))
   }"

definition la_OnScheduled :: "nat \<Rightarrow> ('f, 'tr) layer_animator \<Rightarrow> ('f, 'tr) layer_animator option" where
  "la_OnScheduled sid A = do {
     A1 \<leftarrow> attach_loop (la_observers A) sid A;
     s \<leftarrow> la_store A1 sid;
     Some (la_note (NotifyScheduled sid s) A1)
   }"

definition la_StartAnimation ::
  "('f, 'tr) tween_ops \<Rightarrow> nat \<Rightarrow> ('f, 'tr) layer_animator \<Rightarrow> ('f, 'tr) layer_animator option" where
  "la_StartAnimation M animation A = do {
     A1 \<leftarrow> la_OnScheduled animation A;
     (A2, started) \<leftarrow> la_StartSequenceImmediately M animation A1;
     A3 \<leftarrow> (if started then Some A2
           else case la_preemption_strategy A2 of
                  IMMEDIATELY_SET_NEW_TARGET \<Rightarrow> la_ImmediatelySetNewTarget M animation A2
                | IMMEDIATELY_ANIMATE_TO_NEW_TARGET \<Rightarrow> la_ImmediatelyAnimateToNewTarget M animation A2
                | ENQUEUE_NEW_ANIMATION \<Rightarrow> la_EnqueueNewAnimation M animation A2
                | REPLACE_QUEUED_ANIMATIONS \<Rightarrow> la_ReplaceQueuedAnimations M animation A2
                | BLEND_WITH_CURRENT_ANIMATION \<Rightarrow> Some A2);
     A4 \<leftarrow> la_FinishAnyAnimationWithZeroDuration M A3;
     Some (la_UpdateAnimationState A4)
   }"

definition la_ScheduleAnimation ::
  "('f, 'tr) tween_ops \<Rightarrow> nat \<Rightarrow> ('f, 'tr) layer_animator \<Rightarrow> ('f, 'tr) layer_animator option" where
  "la_ScheduleAnimation M animation A = do {
     A1 \<leftarrow> la_OnScheduled animation A;
     A2 \<leftarrow> (if la_is_animating A1 then la_ProcessQueue M (A1\<lparr>la_queue := la_queue A1 @ [animation]\<rparr>)
           else map_option fst (la_StartSequenceImmediately M animation A1));
     Some (la_UpdateAnimationState A2)
   }"

fun union_properties :: "nat list \<Rightarrow> ('f, 'tr) layer_animator \<Rightarrow> AnimatableProperty set option" where
  "union_properties [] A = Some {}"
| "union_properties (sid # sids) A = do {
     s \<leftarrow> la_store A sid;
     ps \<leftarrow> union_properties sids A;
     Some (sq_properties s \<union> ps)
   }"

fun schedule_all :: "('f, 'tr) tween_ops \<Rightarrow> nat list \<Rightarrow> ('f, 'tr) layer_animator \<Rightarrow> ('f, 'tr) layer_animator option" where
  "schedule_all M [] A = Some A"
| "schedule_all M (sid # sids) A = Option.bind (la_ScheduleAnimation M sid A) (schedule_all M sids)"

definition la_ScheduleTogether ::
  "('f, 'tr) tween_ops \<Rightarrow> animation_switches \<Rightarrow> nat list \<Rightarrow> ('f, 'tr) layer_animator \<Rightarrow> ('f, 'tr) layer_animator option" where
  "la_ScheduleTogether M W animations A = do {
     animated_properties \<leftarrow> union_properties animations A;
     A1 \<leftarrow> la_ScheduleAnimation M (la_next A) (la_new (sq_single (CreatePauseElement W animated_properties 0)) A);
     A2 \<leftarrow> schedule_all M animations A1;
     Some (la_UpdateAnimationState A2)
   }"

definition la_IsAnimatingProperty :: "AnimatableProperty \<Rightarrow> ('f, 'tr) layer_animator \<Rightarrow> bool" where
  "la_IsAnimatingProperty property A \<longleftrightarrow>
     list_ex (\<lambda>sid. case la_store A sid of None \<Rightarrow> False | Some s \<Rightarrow> property \<in> sq_properties s) (la_queue A)"

fun running_loop :: "AnimatableProperty \<Rightarrow> (nat \<times> int) list \<Rightarrow> ('f, 'tr) layer_animator \<Rightarrow> nat option option" where
  "running_loop property [] A = Some None"
| "running_loop property ((sid, _) # rs) A = do {
     s \<leftarrow> la_store A sid;
     if property \<in> sq_properties s then Some (Some sid) else running_loop property rs A
   }"

definition la_GetRunningAnimation :: "AnimatableProperty \<Rightarrow> ('f, 'tr) layer_animator \<Rightarrow> nat option option" where
  "la_GetRunningAnimation property A = running_loop property (la_running A) A"

partial_function (option) la_StopAnimatingProperty ::
  "('f, 'tr) tween_ops \<Rightarrow> AnimatableProperty \<Rightarrow> ('f, 'tr) layer_animator \<Rightarrow> ('f, 'tr) layer_animator option" where
  "la_StopAnimatingProperty M property A = do {
     running \<leftarrow> la_GetRunningAnimation property A;
     case running of
       None \<Rightarrow> Some A
     | Some sid \<Rightarrow> do {
         A1 \<leftarrow> la_FinishAnimation (la_ProcessQueue M) M sid A;
         la_StopAnimatingProperty M property A1
       }
   }"

declare la_StopAnimatingProperty.simps [code]

text \<open>\<open>running_animations_[0]\<close> of an empty vector is not defined.\<close>

partial_function (option) la_StopAnimating ::
  "('f, 'tr) tween_ops \<Rightarrow> ('f, 'tr) layer_animator \<Rightarrow> ('f, 'tr) layer_animator option" where
  "la_StopAnimating M A =
     (if \<not> la_is_animating A then Some A
      else case la_running A of
             [] \<Rightarrow> None
           | (sid, _) # _ \<Rightarrow> do {
               A1 \<leftarrow> la_FinishAnimation (la_ProcessQueue M) M sid A;
               la_StopAnimating M A1
             })"

declare la_StopAnimating.simps [code]

fun clear_loop :: "(nat \<times> int) list \<Rightarrow> ('f, 'tr) layer_animator \<Rightarrow> ('f, 'tr) layer_animator option" where
  "clear_loop [] A = Some A"
| "clear_loop ((sid, _) # rs) A =
     (if \<not> la_HasAnimation sid A then clear_loop rs A
      else do {
        let (A1, removed) = la_RemoveAnimation sid A;
        A2 \<leftarrow> (if removed then Option.bind (la_Abort sid A1) (la_delete sid) else Some A1);
        clear_loop rs A2
      })"

fun delete_all :: "nat list \<Rightarrow> ('f, 'tr) layer_animator \<Rightarrow> ('f, 'tr) layer_animator option" where
  "delete_all [] A = Some A"
| "delete_all (sid # sids) A = Option.bind (la_delete sid A) (delete_all sids)"

definition la_ClearAnimations :: "('f, 'tr) layer_animator \<Rightarrow> ('f, 'tr) layer_animator option" where
  "la_ClearAnimations A = do {
     A1 \<leftarrow> clear_loop (la_running A) A;
     A2 \<leftarrow> delete_all (la_queue A1) (A1\<lparr>la_running := []\<rparr>);
     Some (la_UpdateAnimationState (A2\<lparr>la_queue := []\<rparr>))
   }"

fun destroyed_loop :: "(nat \<Rightarrow> bool) \<Rightarrow> (nat \<times> int) list \<Rightarrow> ('f, 'tr) layer_animator \<Rightarrow> ('f, 'tr) layer_animator option" where
  "destroyed_loop keeps [] A = Some A"
| "destroyed_loop keeps ((sid, _) # rs) A = do {
     s \<leftarrow> la_store A sid;
     let (s', ns) = sq_OnAnimatorDestroyed keeps sid s;
     destroyed_loop keeps rs (la_note ns (la_put sid s' A))
   }"

text \<open>The destructor.\<close>

definition la_destroy :: "(nat \<Rightarrow> bool) \<Rightarrow> ('f, 'tr) layer_animator \<Rightarrow> ('f, 'tr) layer_animator option" where
  "la_destroy keeps A = Option.bind (destroyed_loop keeps (la_running A) A) la_ClearAnimations"

section \<open>Observers and properties of the layer\<close>

definition la_AddObserver :: "nat \<Rightarrow> ('f, 'tr) layer_animator \<Rightarrow> ('f, 'tr) layer_animator" where
  "la_AddObserver obs A =
     (if obs \<in> set (la_observers A) then A else A\<lparr>la_observers := la_observers A @ [obs]\<rparr>)"

fun detach_loop :: "nat \<Rightarrow> nat list \<Rightarrow> ('f, 'tr) layer_animator \<Rightarrow> ('f, 'tr) layer_animator option" where
  "detach_loop obs [] A = Some A"
| "detach_loop obs (sid # sids) A = do {
     s \<leftarrow> la_store A sid;
     let (s', ns) = sq_RemoveObserver sid obs s;
     detach_loop obs sids (la_note ns (la_put sid s' A))
   }"

definition la_RemoveObserver :: "nat \<Rightarrow> ('f, 'tr) layer_animator \<Rightarrow> ('f, 'tr) layer_animator option" where
  "la_RemoveObserver obs A = detach_loop obs (la_queue A) (A\<lparr>la_observers := remove1 obs (la_observers A)\<rparr>)"

definition la_SetDelegate :: "('f, 'tr) layer \<Rightarrow> ('f, 'tr) layer_animator \<Rightarrow> ('f, 'tr) layer_animator" where
  "la_SetDelegate d A = A\<lparr>la_delegate := Some d\<rparr>"

definition start_new ::
  "('f, 'tr) tween_ops \<Rightarrow> ('f, 'tr) layer_element \<Rightarrow> ('f, 'tr) layer_animator \<Rightarrow> ('f, 'tr) layer_animator option" where
  "start_new M e A = la_StartAnimation M (la_next A) (la_new (sq_single e) A)"

definition la_SetTransform ::
  "('f, 'tr) tween_ops \<Rightarrow> animation_switches \<Rightarrow> 'tr \<Rightarrow> ('f, 'tr) layer_animator \<Rightarrow> ('f, 'tr) layer_animator option" where
  "la_SetTransform M W transform A =
     start_new M ((CreateTransformElement M W transform (la_transition_duration A))\<lparr>el_tween_type := la_tween_type A\<rparr>) A"

definition la_SetBounds ::
  "('f, 'tr) tween_ops \<Rightarrow> animation_switches \<Rightarrow> rect \<Rightarrow> ('f, 'tr) layer_animator \<Rightarrow> ('f, 'tr) layer_animator option" where
  "la_SetBounds M W bounds A =
     start_new M ((CreateBoundsElement W bounds (la_transition_duration A))\<lparr>el_tween_type := la_tween_type A\<rparr>) A"

definition la_SetOpacity ::
  "('f, 'tr) tween_ops \<Rightarrow> animation_switches \<Rightarrow> 'f \<Rightarrow> ('f, 'tr) layer_animator \<Rightarrow> ('f, 'tr) layer_animator option" where
  "la_SetOpacity M W opacity A =
     start_new M ((CreateOpacityElement M W opacity (la_transition_duration A))\<lparr>el_tween_type := la_tween_type A\<rparr>) A"

definition la_SetVisibility ::
  "('f, 'tr) tween_ops \<Rightarrow> animation_switches \<Rightarrow> bool \<Rightarrow> ('f, 'tr) layer_animator \<Rightarrow> ('f, 'tr) layer_animator option" where
  "la_SetVisibility M W visibility A = start_new M (CreateVisibilityElement W visibility (la_transition_duration A)) A"

text \<open>The target of the layer, as \<open>GetTargetBounds\<close> and the like read it.\<close>

definition mk_TargetValue :: "('f, 'tr) tween_ops \<Rightarrow> ('f, 'tr) layer option \<Rightarrow> ('f, 'tr) target_value" where
  "mk_TargetValue M delegate =
     (case delegate of
        None \<Rightarrow> \<lparr>tv_bounds = rect_default, tv_transform = tr_identity M, tv_opacity = f_of_int M 0, tv_visibility = False\<rparr>
      | Some d \<Rightarrow> target_value.truncate d)"

fun target_loop :: "('f, 'tr) tween_ops \<Rightarrow> nat list \<Rightarrow> ('f, 'tr) layer_animator \<Rightarrow> ('f, 'tr) target_value \<Rightarrow> ('f, 'tr) target_value option" where
  "target_loop M [] A target = Some target"
| "target_loop M (sid # sids) A target = do {
     s \<leftarrow> la_store A sid;
     target_loop M sids A (sq_GetTargetValue M s target)
   }"

definition la_GetTargetValue :: "('f, 'tr) tween_ops \<Rightarrow> ('f, 'tr) layer_animator \<Rightarrow> ('f, 'tr) target_value option" where
  "la_GetTargetValue M A = target_loop M (la_queue A) A (mk_TargetValue M (la_delegate A))"

definition la_GetTargetTransform :: "('f, 'tr) tween_ops \<Rightarrow> ('f, 'tr) layer_animator \<Rightarrow> 'tr option" where
  "la_GetTargetTransform M A = map_option tv_transform (la_GetTargetValue M A)"

definition la_GetTargetBounds :: "('f, 'tr) tween_ops \<Rightarrow> ('f, 'tr) layer_animator \<Rightarrow> rect option" where
  "la_GetTargetBounds M A = map_option tv_bounds (la_GetTargetValue M A)"

definition la_GetTargetOpacity :: "('f, 'tr) tween_ops \<Rightarrow> ('f, 'tr) layer_animator \<Rightarrow> 'f option" where
  "la_GetTargetOpacity M A = map_option tv_opacity (la_GetTargetValue M A)"

definition la_GetTargetVisibility :: "('f, 'tr) tween_ops \<Rightarrow> ('f, 'tr) layer_animator \<Rightarrow> bool option" where
  "la_GetTargetVisibility M A = map_option tv_visibility (la_GetTargetValue M A)"

end
