(* ===== verification/Layer_Progress.thy ===== *)
theory Layer_Progress
  imports Layer_Animation
begin

text \<open>
  How an animation sequence progresses: it ends its loop, keeps its shape, and a sequence that is brought
  to its end leaves every property it animates at its target.
\<close>

section \<open>What progress does not change\<close>

text \<open>A transition up to the value it started from.\<close>

definition goal :: "('f, 'tr) transition \<Rightarrow> ('f, 'tr) transition" where
  "goal k = (case k of TransformTransition s t \<Rightarrow> TransformTransition t t | BoundsTransition s t \<Rightarrow> BoundsTransition t t
     | OpacityTransition s t \<Rightarrow> OpacityTransition t t | VisibilityTransition s t \<Rightarrow> VisibilityTransition t t | _ \<Rightarrow> k)"

definition el_sig :: "('f, 'tr) layer_element \<Rightarrow> AnimatableProperty set \<times> int \<times> tween_type \<times> ('f, 'tr) transition" where
  "el_sig e = (el_properties e, el_duration e, el_tween_type e, goal (el_transition e))"

lemma OnGetTarget_goal: "goal k = goal k' \<Longrightarrow> OnGetTarget M k v = OnGetTarget M k' v"
  by (cases k; cases k'; simp add: goal_def OnGetTarget_def)

lemma el_sig_GetTarget: "el_sig e = el_sig e' \<Longrightarrow> el_GetTargetValue M e v = el_GetTargetValue M e' v"
  using OnGetTarget_goal [of "el_transition e" "el_transition e'" M v] by (simp add: el_sig_def el_GetTargetValue_def)

lemma OnStart_goal: "\<exists>k'. OnStart (Some d) k = Some k' \<and> goal k' = goal k"
  by (cases k) (simp_all add: OnStart_def goal_def)

lemma OnProgress_some: "\<exists>d' r. OnProgress M t (Some d) k = Some (Some d', r)"
  by (cases k) (auto simp: OnProgress_def)

lemma el_Progress_some:
  "\<exists>e' d' r. el_Progress M t (Some d) e = Some (e', Some d', r) \<and> el_sig e' = el_sig e"
proof -
  obtain k where k: "(if el_first_frame e then OnStart (Some d) (el_transition e) else Some (el_transition e)) = Some k"
    "goal k = goal (el_transition e)"
    using OnStart_goal [of d "el_transition e"] by (cases "el_first_frame e") auto
  obtain d' r where "OnProgress M (CalculateValue M (el_tween_type e) t) (Some d) k = Some (Some d', r)"
    using OnProgress_some [of M "CalculateValue M (el_tween_type e) t" d k] by auto
  then show ?thesis using k by (simp add: el_Progress_def el_sig_def)
qed

section \<open>The loop over the elements ends\<close>

abbreviation durations :: "('f, 'tr) layer_element list \<Rightarrow> int list" where
  "durations es \<equiv> map el_duration es"

lemma durations_sig: "durations es = map (fst \<circ> snd) (map el_sig es)"
  by (simp add: el_sig_def)

lemma sig_durations: "map el_sig es' = map el_sig es \<Longrightarrow> durations es' = durations es"
  unfolding durations_sig by simp

lemma sig_update: "i < length es \<Longrightarrow> el_sig e = el_sig (es ! i) \<Longrightarrow> map el_sig (es[i := e]) = map el_sig es"
  using list_update_id [of "map el_sig es" i] by (simp add: map_update)

definition loop_ok :: "('f, 'tr) layer_element list \<Rightarrow> ('f, 'tr) layer_element list \<times> nat \<times> int \<times> ('f, 'tr) layer option \<times> bool \<Rightarrow> bool" where
  "loop_ok es r = (case r of (es', le, ls, d, _) \<Rightarrow> map el_sig es' = map el_sig es \<and> d \<noteq> None)"

lemma progress_loop_step:
  assumes "es \<noteq> []" and "\<And>e d' r. map el_sig (es[i := e]) = map el_sig es \<Longrightarrow>
      ensures (progress_loop M cyclic elapsed (es[i := e]) (Suc le) (ls + el_duration (es ! i)) (Some d') (redraw \<or> r)) (loop_ok (es[i := e]))"
    and "i = le mod length es"
  shows "ensures (el_Progress M (f_one M) (Some d) (es ! i) \<bind>
    (\<lambda>(e, delegate', r). progress_loop M cyclic elapsed (es[i := e]) (Suc le) (ls + el_duration (es ! i)) delegate' (redraw \<or> r))) (loop_ok es)"
proof -
  obtain e d' r where e: "el_Progress M (f_one M) (Some d) (es ! i) = Some (e, Some d', r)" "el_sig e = el_sig (es ! i)"
    using el_Progress_some [of M "f_one M" d "es ! i"] by auto
  have "i < length es" using assms(1,3) by simp
  then have sig: "map el_sig (es[i := e]) = map el_sig es" using e(2) sig_update by blast
  show ?thesis using assms(2) [OF sig, of d' r] e(1) sig by (auto simp: ensures_def loop_ok_def split: option.splits)
qed

lemma progress_loop_once:
  "es \<noteq> [] \<Longrightarrow> ensures (progress_loop M False elapsed es le ls (Some d) redraw) (loop_ok es)"
proof (induction "length es - le" arbitrary: es le ls d redraw rule: less_induct)
  case less
  show ?case
  proof (cases "le < length es \<and> ls + el_duration (es ! le) < elapsed")
    case False
    then show ?thesis by (subst progress_loop.simps) (auto simp: Let_def loop_ok_def)
  next
    case True
    have "ensures (progress_loop M False elapsed (es[le := e]) (Suc le) (ls + el_duration (es ! le)) (Some d') (redraw \<or> r)) (loop_ok (es[le := e]))"
      for e d' r using less.prems True by (intro less.hyps) auto
    then show ?thesis
      using True progress_loop_step [OF less.prems, of le M False elapsed le ls redraw d]
      by (subst progress_loop.simps) (simp add: Let_def)
  qed
qed

text \<open>A cyclic sequence: the start of the current round only moves forward.\<close>

definition round_start :: "('f, 'tr) layer_element list \<Rightarrow> nat \<Rightarrow> int \<Rightarrow> int" where
  "round_start es le ls = ls - sum_list (take (le mod length es) (durations es))"

lemma round_start_step:
  assumes "es \<noteq> []" and "i = le mod length es"
  shows "round_start es (Suc le) (ls + el_duration (es ! i)) =
    round_start es le ls + (if Suc i = length es then sum_list (durations es) else 0)"
proof -
  have "i < length es" using assms by simp
  then have "sum_list (take (Suc i) (durations es)) = sum_list (take i (durations es)) + el_duration (es ! i)"
    by (simp add: take_Suc_conv_app_nth)
  then show ?thesis using assms(2) by (cases "Suc i = length es") (simp_all add: round_start_def mod_Suc)
qed

lemma sum_list_take_nonneg: "\<forall>x \<in> set xs. 0 \<le> (x :: int) \<Longrightarrow> 0 \<le> sum_list (take n xs)"
  by (intro sum_list_nonneg) (auto dest: in_set_takeD)

lemma round_measure:
  fixes n i x y :: nat
  assumes "i < n" and "y \<le> x" and "Suc i = n \<Longrightarrow> y < x"
  shows "y * n + (n - Suc i mod n) < x * n + (n - i)"
proof (cases "Suc i = n")
  case True
  then have "y * n + n \<le> x * n" using assms(3) by (metis Suc_leI add.commute mult_Suc mult_le_mono1)
  then show ?thesis using True by auto
next
  case False
  then have "Suc i mod n = Suc i" using assms(1) by simp
  moreover have "y * n \<le> x * n" using assms(2) by simp
  ultimately show ?thesis using assms(1) by linarith
qed

lemma progress_loop_cyclic:
  assumes "es \<noteq> []" and "\<forall>x \<in> set (durations es). 0 \<le> x" and "0 < sum_list (durations es)"
  shows "ensures (progress_loop M True elapsed es le ls (Some d) redraw) (loop_ok es)"
  using assms
proof (induction "nat (elapsed - round_start es le ls) * length es + (length es - le mod length es)"
    arbitrary: es le ls d redraw rule: less_induct)
  case less
  let ?i = "le mod length es" and ?ls = "ls + el_duration (es ! (le mod length es))"
  show ?case
  proof (cases "?ls < elapsed")
    case False
    then show ?thesis by (subst progress_loop.simps) (simp add: Let_def loop_ok_def)
  next
    case True
    have i: "?i < length es" using less.prems(1) by simp
    have "0 \<le> el_duration (es ! ?i)" using less.prems(2) i by simp
    then have before: "round_start es le ls < elapsed"
      using sum_list_take_nonneg [OF less.prems(2), of ?i] True by (simp add: round_start_def)
    let ?x = "nat (elapsed - round_start es le ls)" and ?y = "nat (elapsed - round_start es (Suc le) ?ls)"
    have "?y \<le> ?x" and "Suc ?i = length es \<Longrightarrow> ?y < ?x"
      using round_start_step [OF less.prems(1) refl, of le ls] before less.prems(3) by auto
    then have m: "?y * length es + (length es - Suc le mod length es) < ?x * length es + (length es - ?i)"
      using round_measure [OF i, of ?y ?x] by (simp add: mod_Suc_eq)
    have "ensures (progress_loop M True elapsed (es[?i := e]) (Suc le) ?ls (Some d') (redraw \<or> r)) (loop_ok (es[?i := e]))"
      if sig: "map el_sig (es[?i := e]) = map el_sig es" for e d' r
      using m less.prems sig_durations [OF sig]
      by (intro less.hyps) (simp_all add: round_start_def)
    from progress_loop_step [OF less.prems(1) this refl, of d]
    show ?thesis using True by (subst progress_loop.simps) (simp add: Let_def)
  qed
qed

section \<open>A sequence always progresses\<close>

definition sq_ok :: "('f, 'tr) layer_sequence \<Rightarrow> bool" where
  "sq_ok s \<longleftrightarrow> sq_elements s \<noteq> [] \<and> sq_properties s \<noteq> {} \<and> (\<forall>x \<in> set (durations (sq_elements s)). 0 \<le> x) \<and>
     sq_duration s = sum_list (durations (sq_elements s)) \<and> (sq_is_cyclic s \<longrightarrow> 0 < sq_duration s)"

definition sq_sig :: "('f, 'tr) layer_sequence \<Rightarrow>
    int \<times> AnimatableProperty set \<times> bool \<times> (AnimatableProperty set \<times> int \<times> tween_type \<times> ('f, 'tr) transition) list" where
  "sq_sig s = (sq_duration s, sq_properties s, sq_is_cyclic s, map el_sig (sq_elements s))"

lemma sq_sig_ok: "sq_sig s' = sq_sig s \<Longrightarrow> sq_ok s' = sq_ok s"
  using sig_durations [of "sq_elements s'" "sq_elements s"] map_is_Nil_conv [of el_sig] by (auto simp: sq_ok_def sq_sig_def)

lemma progress_loop_ok:
  "sq_ok s \<Longrightarrow> ensures (progress_loop M (sq_is_cyclic s) elapsed (sq_elements s) le ls (Some d) redraw) (loop_ok (sq_elements s))"
  using progress_loop_once [of "sq_elements s" M elapsed le ls d redraw] progress_loop_cyclic [of "sq_elements s" M elapsed le ls d redraw]
  by (cases "sq_is_cyclic s") (simp_all add: sq_ok_def)

lemma sq_Progress_ok:
  assumes "sq_ok s"
  shows "ensures (sq_Progress M this elapsed (Some d) s) (\<lambda>(s', d', r, ns). sq_sig s' = sq_sig s \<and> d' \<noteq> None)"
proof -
  have "sq_elements s \<noteq> []" using assms by (simp add: sq_ok_def)
  moreover obtain es le ls d1 r1 where l:
    "progress_loop M (sq_is_cyclic s) elapsed (sq_elements s) (sq_last_element s) (skip_cycles elapsed s) (Some d) False
       = Some (es, le, ls, Some d1, r1)" "map el_sig es = map el_sig (sq_elements s)"
    using progress_loop_ok [OF assms, of M elapsed "sq_last_element s" "skip_cycles elapsed s" d False]
    by (auto simp: ensures_def loop_ok_def split: option.splits)
  let ?i = "le mod length es"
  have "es \<noteq> []" using l(2) calculation by auto
  then have i: "?i < length es" by simp
  have "\<exists>e2 d2 r2. el_Progress M t (Some d1) (es ! ?i) = Some (e2, Some d2, r2) \<and> map el_sig (es[?i := e2]) = map el_sig es" for t
    using el_Progress_some [of M t d1 "es ! ?i"] sig_update [OF i] by blast
  then have "\<exists>es2 d2 r2. map_option (\<lambda>(e, d, r). (es[?i := e], d, r1 \<or> r)) (el_Progress M t (Some d1) (es ! ?i)) = Some (es2, Some d2, r2) \<and>
      map el_sig es2 = map el_sig es" for t
    by (metis (no_types, lifting) case_prod_conv option.simps(9))
  note last = this
  obtain es2 d2 r2 where e2:
    "(if sq_is_cyclic s \<or> le < length es
      then let t = (if el_duration (es ! ?i) > 0
                    then f_div M (in_milliseconds M (elapsed - ls)) (in_milliseconds M (el_duration (es ! ?i)))
                    else f_one M)
           in map_option (\<lambda>(e, d, r). (es[?i := e], d, r1 \<or> r)) (el_Progress M t (Some d1) (es ! ?i))
      else Some (es, Some d1, r1)) = Some (es2, Some d2, r2)" "map el_sig es2 = map el_sig es"
  proof (cases "sq_is_cyclic s \<or> le < length es")
    case True
    then show thesis using that last [of "if el_duration (es ! ?i) > 0 then f_div M (in_milliseconds M (elapsed - ls)) (in_milliseconds M (el_duration (es ! ?i))) else f_one M"]
      by (simp only: Let_def if_True) blast
  next
    case False
    then show thesis using that [of es d1 r1] by simp
  qed
  show ?thesis
    unfolding sq_Progress_def l(1) using e2 l(2) calculation by (simp add: Let_def sq_sig_def)
qed

section \<open>Progress and the target\<close>

text \<open>At the end of its time an element is at its target, wherever it started.\<close>

definition el_lands :: "('f, 'tr) tween_ops \<Rightarrow> ('f, 'tr) layer_element \<Rightarrow> bool" where
  "el_lands M e \<longleftrightarrow> (\<forall>k d. goal k = goal (el_transition e) \<longrightarrow>
     map_option fst (OnProgress M (CalculateValue M (el_tween_type e) (f_one M)) (Some d) k) = Some (Some (OnGetTarget M k d)))"

lemma OnProgress_overridden: "OnProgress M t (Some d) k = Some (Some d', r) \<Longrightarrow> OnGetTarget M k d' = OnGetTarget M k d"
  by (cases k) (auto simp: OnProgress_def OnGetTarget_def)

lemma el_Progress_target:
  assumes "el_Progress M t (Some d) e = Some (e', Some d', r)"
  shows "el_GetTargetValue M e d' = el_GetTargetValue M e d"
    and "el_lands M e \<Longrightarrow> t = f_one M \<Longrightarrow> d' = el_GetTargetValue M e d"
proof -
  obtain k where k: "(if el_first_frame e then OnStart (Some d) (el_transition e) else Some (el_transition e)) = Some k"
    "goal k = goal (el_transition e)"
    using OnStart_goal [of d "el_transition e"] by (cases "el_first_frame e") auto
  have p: "OnProgress M (CalculateValue M (el_tween_type e) t) (Some d) k = Some (Some d', r)"
    using assms k(1) by (cases "OnProgress M (CalculateValue M (el_tween_type e) t) (Some d) k") (auto simp: el_Progress_def)
  show "el_GetTargetValue M e d' = el_GetTargetValue M e d"
    using OnProgress_overridden [OF p] by (simp add: el_GetTargetValue_def OnGetTarget_goal [OF k(2), symmetric])
  assume "el_lands M e" and "t = f_one M"
  then have "map_option fst (OnProgress M (CalculateValue M (el_tween_type e) t) (Some d) k) = Some (Some (OnGetTarget M k d))"
    using k(2) unfolding el_lands_def by simp
  then have "d' = OnGetTarget M k d" using p by simp
  then show "d' = el_GetTargetValue M e d" by (simp add: el_GetTargetValue_def OnGetTarget_goal [OF k(2), symmetric])
qed

definition rest_target :: "('f, 'tr) tween_ops \<Rightarrow> ('f, 'tr) layer_element list \<Rightarrow> nat \<Rightarrow> ('f, 'tr) layer \<Rightarrow> ('f, 'tr) layer" where
  "rest_target M es le d = fold (el_GetTargetValue M) (drop le es) d"

lemma fold_sig: "map el_sig es' = map el_sig es \<Longrightarrow> fold (el_GetTargetValue M) es' d = fold (el_GetTargetValue M) es d"
proof (induction es' arbitrary: es d)
  case (Cons e' es')
  then obtain e es0 where "es = e # es0" "el_sig e' = el_sig e" "map el_sig es' = map el_sig es0" by auto
  then show ?case using Cons.IH el_sig_GetTarget [of e' e M d] by simp
qed simp

lemma rest_target_sig: "map el_sig es' = map el_sig es \<Longrightarrow> rest_target M es' le d = rest_target M es le d"
  unfolding rest_target_def by (rule fold_sig) (metis drop_map)

lemma rest_target_step: "le < length es \<Longrightarrow> rest_target M es le d = rest_target M es (Suc le) (el_GetTargetValue M (es ! le) d)"
  by (simp add: rest_target_def Cons_nth_drop_Suc [symmetric])

text \<open>Where the loop leaves a sequence that is not cyclic.\<close>

definition loop_at :: "('f, 'tr) tween_ops \<Rightarrow> int \<Rightarrow> ('f, 'tr) layer_element list \<Rightarrow> nat \<Rightarrow> ('f, 'tr) layer \<Rightarrow>
    ('f, 'tr) layer_element list \<times> nat \<times> int \<times> ('f, 'tr) layer option \<times> bool \<Rightarrow> bool" where
  "loop_at M elapsed es le d r = (case r of (es', le', ls', d', _) \<Rightarrow>
     map el_sig es' = map el_sig es \<and> le' \<le> length es \<and> ls' = sum_list (take le' (durations es)) \<and>
     (le' = le \<or> ls' < elapsed) \<and> (le' < length es \<longrightarrow> elapsed \<le> ls' + el_duration (es ! le')) \<and>
     (\<exists>d1. d' = Some d1 \<and> rest_target M es le' d1 = rest_target M es le d))"

lemma progress_loop_target:
  assumes "\<forall>e \<in> set es. el_lands M e" and "le \<le> length es" and "ls = sum_list (take le (durations es))"
  shows "ensures (progress_loop M False elapsed es le ls (Some d) redraw) (loop_at M elapsed es le d)"
  using assms
proof (induction "length es - le" arbitrary: es le ls d redraw rule: less_induct)
  case less
  show ?case
  proof (cases "le < length es \<and> ls + el_duration (es ! le) < elapsed")
    case False
    then show ?thesis using less.prems by (subst progress_loop.simps) (auto simp: Let_def loop_at_def)
  next
    case True
    obtain e d1 r where e: "el_Progress M (f_one M) (Some d) (es ! le) = Some (e, Some d1, r)" "el_sig e = el_sig (es ! le)"
      using el_Progress_some [of M "f_one M" d "es ! le"] by auto
    let ?es = "es[le := e]" and ?ls = "ls + el_duration (es ! le)"
    have sig: "map el_sig ?es = map el_sig es" using True e(2) sig_update by blast
    have lands: "el_lands M e = el_lands M (es ! le)" using e(2) by (simp add: el_lands_def el_sig_def)
    have d1: "d1 = el_GetTargetValue M (es ! le) d" using el_Progress_target(2) [OF e(1)] less.prems(1) True by simp
    have "?ls = sum_list (take (Suc le) (durations ?es))"
      using less.prems(3) True by (simp add: sig_durations [OF sig] take_Suc_conv_app_nth)
    moreover have "\<forall>e \<in> set ?es. el_lands M e" using less.prems(1) True lands by (auto dest!: set_update_subset_insert [THEN subsetD])
    ultimately have "ensures (progress_loop M False elapsed ?es (Suc le) ?ls (Some d1) (redraw \<or> r)) (loop_at M elapsed ?es (Suc le) d1)"
      using True by (intro less.hyps) auto
    then have "ensures (progress_loop M False elapsed ?es (Suc le) ?ls (Some d1) (redraw \<or> r)) (loop_at M elapsed es le d)"
    proof (rule ensures_mono)
      fix x
      assume x: "loop_at M elapsed ?es (Suc le) d1 x"
      obtain es' le' ls' d' b where xx: "x = (es', le', ls', d', b)" by (cases x)
      have dur: "el_duration (?es ! le') = el_duration (es ! le')" if "le' < length es"
        using sig_durations [OF sig] that by (metis length_list_update nth_map)
      have "rest_target M ?es (Suc le) d1 = rest_target M es le d"
        using rest_target_step [of le es M d] True d1 rest_target_sig [OF sig, of M "Suc le" d1] by simp
      moreover have "sum_list (take (Suc le) (durations es)) < elapsed"
        using True less.prems(3) by (simp add: take_Suc_conv_app_nth)
      ultimately show "loop_at M elapsed es le d x"
        using x dur sig less.prems(3) True unfolding xx loop_at_def rest_target_sig [OF sig] sig_durations [OF sig] sig
        by auto
    qed
    then show ?thesis using True e(1) by (subst progress_loop.simps) (simp add: Let_def)
  qed
qed

text \<open>The property a transition writes.\<close>

definition prop_of :: "('f, 'tr) transition \<Rightarrow> AnimatableProperty set" where
  "prop_of k = (case k of Pause \<Rightarrow> {} | TransformTransition _ _ \<Rightarrow> {TRANSFORM} | InterpolatedTransformTransition _ \<Rightarrow> {TRANSFORM}
     | BoundsTransition _ _ \<Rightarrow> {BOUNDS} | OpacityTransition _ _ \<Rightarrow> {OPACITY} | VisibilityTransition _ _ \<Rightarrow> {VISIBILITY})"

text \<open>A sequence that can be brought to its end: it is not cyclic, does not end in elements without
  duration, every element lands and declares the property it writes.\<close>

definition sq_lands :: "('f, 'tr) tween_ops \<Rightarrow> ('f, 'tr) layer_sequence \<Rightarrow> bool" where
  "sq_lands M s \<longleftrightarrow> \<not> sq_is_cyclic s \<and> (length (sq_elements s) = 1 \<or> 0 < el_duration (last (sq_elements s))) \<and>
     (\<forall>e \<in> set (sq_elements s). el_lands M e \<and> prop_of (el_transition e) \<subseteq> el_properties e \<and> el_properties e \<subseteq> sq_properties s)"

text \<open>How far it got.\<close>

definition sq_phase :: "('f, 'tr) layer_sequence \<Rightarrow> bool" where
  "sq_phase s \<longleftrightarrow> sq_last_element s < length (sq_elements s) \<and>
     sq_last_start s = sum_list (take (sq_last_element s) (durations (sq_elements s)))"

lemma prop_of_goal: "goal k = goal k' \<Longrightarrow> prop_of k = prop_of k'"
  by (cases k; cases k'; simp add: goal_def prop_of_def)

definition el_fits :: "('f, 'tr) tween_ops \<Rightarrow> AnimatableProperty set \<Rightarrow> ('f, 'tr) layer_element \<Rightarrow> bool" where
  "el_fits M ps e \<longleftrightarrow> el_lands M e \<and> prop_of (el_transition e) \<subseteq> el_properties e \<and> el_properties e \<subseteq> ps"

lemma el_fits_sig: "el_sig e' = el_sig e \<Longrightarrow> el_fits M ps e' = el_fits M ps e"
  using prop_of_goal [of "el_transition e'" "el_transition e"] by (simp add: el_fits_def el_lands_def el_sig_def)

lemma sq_lands_sig: "sq_sig s' = sq_sig s \<Longrightarrow> sq_lands M s' = sq_lands M s"
proof -
  assume a: "sq_sig s' = sq_sig s"
  then have sig: "map el_sig (sq_elements s') = map el_sig (sq_elements s)" by (simp add: sq_sig_def)
  then have len: "length (sq_elements s') = length (sq_elements s)" by (metis length_map)
  have "(\<forall>e \<in> set (sq_elements s'). el_fits M ps e) = (\<forall>e \<in> set (sq_elements s). el_fits M ps e)" for ps
  proof -
    have "el_sig (sq_elements s' ! i) = el_sig (sq_elements s ! i)" if "i < length (sq_elements s)" for i
      using sig len that by (metis nth_map)
    then show ?thesis unfolding all_set_conv_all_nth len using el_fits_sig by blast
  qed
  moreover have "el_duration (last (sq_elements s')) = el_duration (last (sq_elements s))" if "sq_elements s \<noteq> []"
    using sig_durations [OF sig] len that by (metis last_map length_0_conv)
  ultimately show ?thesis
    using a len unfolding sq_lands_def el_fits_def [symmetric] by (cases "sq_elements s = []") (auto simp: sq_sig_def)
qed

lemma sum_take_less:
  assumes "\<forall>x \<in> set xs. 0 \<le> (x :: int)" and "Suc n < length xs" and "0 < last xs"
  shows "sum_list (take (Suc n) xs) < sum_list xs"
proof -
  have ne: "drop (Suc n) xs \<noteq> []" using assms(2) by simp
  have "sum_list (drop (Suc n) xs) = sum_list (butlast (drop (Suc n) xs)) + last xs"
    using append_butlast_last_id [OF ne] last_drop [OF assms(2)] by (metis sum_list_append sum_list.Cons sum_list.Nil add.right_neutral)
  moreover have "0 \<le> sum_list (butlast (drop (Suc n) xs))"
    using assms(1) by (intro sum_list_nonneg) (meson in_set_butlastD in_set_dropD)
  moreover have "sum_list xs = sum_list (take (Suc n) xs) + sum_list (drop (Suc n) xs)"
    by (metis append_take_drop_id sum_list_append)
  ultimately show ?thesis using assms(3) by linarith
qed

text \<open>Full time is one.\<close>

definition full_time :: "('f, 'tr) tween_ops \<Rightarrow> bool" where
  "full_time M \<longleftrightarrow> (\<forall>us > 0. f_div M (in_milliseconds M us) (in_milliseconds M us) = f_one M)"

lemma loop_not_past:
  assumes "sq_ok s" and "sq_phase s" and "elapsed \<le> sq_duration s"
    and "le \<le> length (sq_elements s)" and "le = sq_last_element s \<or> sum_list (take le (durations (sq_elements s))) < elapsed"
  shows "le < length (sq_elements s)"
  using assms by (cases "le = length (sq_elements s)") (auto simp: sq_ok_def sq_phase_def)

lemma loop_at_end:
  assumes "sq_ok s" and "sq_lands M s" and "le < length (sq_elements s)"
    and "sq_duration s \<le> sum_list (take le (durations (sq_elements s))) + el_duration (sq_elements s ! le)"
  shows "Suc le = length (sq_elements s)"
proof (rule ccontr)
  assume "Suc le \<noteq> length (sq_elements s)"
  then have le: "Suc le < length (sq_elements s)" using assms(3) by simp
  then have "length (sq_elements s) \<noteq> 1" by simp
  then have "0 < last (durations (sq_elements s))" using assms(2) le last_map [of "sq_elements s" el_duration] by (cases "sq_elements s = []") (simp_all add: sq_lands_def)
  moreover have "\<forall>x \<in> set (durations (sq_elements s)). 0 \<le> x" using assms(1) by (simp add: sq_ok_def)
  ultimately have "sum_list (take (Suc le) (durations (sq_elements s))) < sum_list (durations (sq_elements s))"
    using le by (intro sum_take_less) simp_all
  then show False using assms(1,3,4) by (simp add: sq_ok_def take_Suc_conv_app_nth)
qed

lemma sq_target_rest: "\<not> sq_is_cyclic s \<Longrightarrow> sq_GetTargetValue M s d = rest_target M (sq_elements s) (sq_last_element s) d"
  by (simp add: sq_GetTargetValue_def rest_target_def)

lemma sq_Progress_target:
  assumes ok: "sq_ok s" and lands: "sq_lands M s" and phase: "sq_phase s" and le: "elapsed \<le> sq_duration s" and full: "full_time M"
  shows "ensures (sq_Progress M this elapsed (Some d) s) (\<lambda>(s', d', r, ns). sq_phase s' \<and> (\<exists>d1. d' = Some d1 \<and>
    (if elapsed = sq_duration s then d1 = sq_GetTargetValue M s d else sq_GetTargetValue M s' d1 = sq_GetTargetValue M s d)))"
proof -
  let ?es = "sq_elements s"
  have ne: "?es \<noteq> []" and nc: "\<not> sq_is_cyclic s" and skip: "skip_cycles elapsed s = sq_last_start s"
    using ok lands by (simp_all add: sq_ok_def sq_lands_def skip_cycles_def)
  have "ensures (progress_loop M False elapsed ?es (sq_last_element s) (sq_last_start s) (Some d) False) (loop_at M elapsed ?es (sq_last_element s) d)"
    using lands phase by (intro progress_loop_target) (auto simp: sq_lands_def sq_phase_def)
  then obtain es i ls d1 r1 where l: "progress_loop M False elapsed ?es (sq_last_element s) (sq_last_start s) (Some d) False = Some (es, i, ls, Some d1, r1)"
    and at: "loop_at M elapsed ?es (sq_last_element s) d (es, i, ls, Some d1, r1)"
    by (auto simp: ensures_def loop_at_def split: option.splits)
  have sig: "map el_sig es = map el_sig ?es" and ls: "ls = sum_list (take i (durations ?es))"
    and t1: "rest_target M ?es i d1 = rest_target M ?es (sq_last_element s) d" using at by (auto simp: loop_at_def)
  have i: "i < length ?es" using at loop_not_past [OF ok phase le, of i] by (auto simp: loop_at_def)
  have len: "length es = length ?es" and dur: "el_duration (es ! i) = el_duration (?es ! i)"
    using sig sig_durations [OF sig] i by (metis length_map, metis length_map nth_map)
  let ?t = "if el_duration (es ! i) > 0 then f_div M (in_milliseconds M (elapsed - ls)) (in_milliseconds M (el_duration (es ! i))) else f_one M"
  obtain e d2 r2 where e: "el_Progress M ?t (Some d1) (es ! i) = Some (e, Some d2, r2)" "el_sig e = el_sig (es ! i)"
    using el_Progress_some [of M ?t d1 "es ! i"] by blast
  have sigi: "el_sig (es ! i) = el_sig (?es ! i)" using sig i len by (metis nth_map)
  have sig2: "map el_sig (es[i := e]) = map el_sig ?es" using sig sig_update [of i es e] e(2) i len by simp
  have t2: "rest_target M ?es i d2 = rest_target M ?es i d1"
    using el_Progress_target(1) [OF e(1)] unfolding rest_target_step [OF i, of M] el_sig_GetTarget [OF sigi] by simp
  have fin: "d2 = rest_target M ?es i d1" if "elapsed = sq_duration s"
  proof -
    have last: "Suc i = length ?es" using loop_at_end [OF ok lands i] at i that by (simp add: loop_at_def)
    have "sq_duration s = sum_list (take (Suc i) (durations ?es))" using ok last by (simp add: sq_ok_def)
    then have "elapsed - ls = el_duration (es ! i)" using that ls i dur by (simp add: take_Suc_conv_app_nth)
    then have "?t = f_one M" using full by (simp add: full_time_def)
    moreover have "el_lands M (es ! i)" using lands i sigi by (auto simp: sq_lands_def el_lands_def el_sig_def)
    ultimately have "d2 = el_GetTargetValue M (es ! i) d1" using el_Progress_target(2) [OF e(1)] by simp
    then show ?thesis using rest_target_step [OF i, of M d1] last el_sig_GetTarget [OF sigi, of M d1] by (simp add: rest_target_def)
  qed
  have "sum_list (take i (durations (es[i := e]))) = ls" using ls sig_durations [OF sig2] by simp
  moreover have "rest_target M (es[i := e]) i d2 = rest_target M ?es i d2" by (rule rest_target_sig [OF sig2])
  ultimately show ?thesis
    unfolding sq_Progress_def skip using nc ne l i len e(1) t1 t2 fin
    by (cases "el_duration (es ! i) > 0"; cases "elapsed = sq_duration s") (simp_all add: Let_def sq_phase_def sq_target_rest)
qed

section \<open>Sequences without a common property\<close>

lemma OnGetTarget_commute:
  "prop_of k \<inter> prop_of k' = {} \<Longrightarrow> OnGetTarget M k (OnGetTarget M k' v) = OnGetTarget M k' (OnGetTarget M k v)"
  by (cases k; cases k'; simp add: prop_of_def OnGetTarget_def)

lemma fold_el_commute:
  "(\<And>e. e \<in> set es \<Longrightarrow> prop_of (el_transition e) \<inter> prop_of k = {}) \<Longrightarrow>
   fold (el_GetTargetValue M) es (OnGetTarget M k v) = OnGetTarget M k (fold (el_GetTargetValue M) es v)"
proof (induction es arbitrary: v)
  case (Cons e es)
  then have "el_GetTargetValue M e (OnGetTarget M k v) = OnGetTarget M k (el_GetTargetValue M e v)"
    using OnGetTarget_commute [of "el_transition e" k M v] by (simp add: el_GetTargetValue_def)
  then show ?case using Cons by simp
qed simp

lemma fold_fold_commute:
  "(\<And>e e'. e \<in> set es \<Longrightarrow> e' \<in> set es' \<Longrightarrow> prop_of (el_transition e) \<inter> prop_of (el_transition e') = {}) \<Longrightarrow>
   fold (el_GetTargetValue M) es (fold (el_GetTargetValue M) es' v) = fold (el_GetTargetValue M) es' (fold (el_GetTargetValue M) es v)"
proof (induction es' arbitrary: v)
  case (Cons e' es')
  then show ?case
    using fold_el_commute [of es "el_transition e'" M v] by (simp add: el_GetTargetValue_def [of M e'])
qed simp

lemma sq_target_commute:
  assumes "sq_lands M s" and "sq_lands M s'" and "sq_properties s \<inter> sq_properties s' = {}"
  shows "sq_GetTargetValue M s (sq_GetTargetValue M s' v) = sq_GetTargetValue M s' (sq_GetTargetValue M s v)"
proof -
  have "prop_of (el_transition e) \<inter> prop_of (el_transition e') = {}"
    if "e \<in> set (sq_elements s)" and "e' \<in> set (sq_elements s')" for e e'
    using assms that by (fastforce simp: sq_lands_def)
  then have "fold (el_GetTargetValue M) (drop m (sq_elements s)) (fold (el_GetTargetValue M) (drop n (sq_elements s')) v)
      = fold (el_GetTargetValue M) (drop n (sq_elements s')) (fold (el_GetTargetValue M) (drop m (sq_elements s)) v)" for m n
    by (intro fold_fold_commute) (meson in_set_dropD)
  then show ?thesis using assms(1,2) by (simp add: sq_GetTargetValue_def sq_lands_def)
qed

end
