(* ===== verification/Layer_Queue.thy ===== *)
theory Layer_Queue
  imports Layer_Animator Layer_Progress
begin

text \<open>
  The invariant of the animator and the proof that its circle of calls ends. Running sequences are in the
  queue, and a running sequence shares no property with a sequence before it in the queue. Each round of
  the circle starts a queued sequence or removes a running one, so that twice the length of the queue
  less the number of running sequences gets smaller.
\<close>

section \<open>Invariant\<close>

definition la_props :: "('f, 'tr) layer_animator \<Rightarrow> nat \<Rightarrow> AnimatableProperty set" where
  "la_props A sid = (case la_store A sid of None \<Rightarrow> {} | Some s \<Rightarrow> sq_properties s)"

abbreviation la_run :: "('f, 'tr) layer_animator \<Rightarrow> nat set" where
  "la_run A \<equiv> fst ` set (la_running A)"

definition la_seq :: "('f, 'tr) layer_animator \<Rightarrow> nat \<Rightarrow> bool" where
  "la_seq A sid \<longleftrightarrow> (\<exists>s. la_store A sid = Some s \<and> sq_ok s)"

definition la_ok :: "('f, 'tr) layer_animator \<Rightarrow> bool" where
  "la_ok A \<longleftrightarrow> distinct (la_queue A) \<and> distinct (map fst (la_running A)) \<and> la_run A \<subseteq> set (la_queue A) \<and>
     (\<forall>sid \<in> set (la_queue A). la_seq A sid) \<and>
     sorted_wrt (\<lambda>a b. b \<in> la_run A \<longrightarrow> la_props A a \<inter> la_props A b = {}) (la_queue A) \<and> la_delegate A \<noteq> None"

definition la_work :: "('f, 'tr) layer_animator \<Rightarrow> nat" where
  "la_work A = 2 * length (la_queue A) - length (la_running A)"

lemma la_okD:
  assumes "la_ok A"
  shows "distinct (la_queue A)" "distinct (map fst (la_running A))" "la_run A \<subseteq> set (la_queue A)"
    "\<And>sid. sid \<in> set (la_queue A) \<Longrightarrow> la_seq A sid" "\<exists>d. la_delegate A = Some d"
  using assms by (auto simp: la_ok_def)

lemma running_le_queue: "la_ok A \<Longrightarrow> length (la_running A) \<le> length (la_queue A)"
  using card_mono [of "set (la_queue A)" "la_run A"] distinct_card [of "map fst (la_running A)"] distinct_card [of "la_queue A"]
  by (simp add: la_ok_def)

lemma running_disjoint:
  assumes "la_ok A" and "a \<in> la_run A" and "b \<in> la_run A" and "a \<noteq> b"
  shows "la_props A a \<inter> la_props A b = {}"
proof -
  have q: "a \<in> set (la_queue A)" "b \<in> set (la_queue A)" using assms by (auto simp: la_ok_def)
  then obtain i j where ij: "i < length (la_queue A)" "la_queue A ! i = a" "j < length (la_queue A)" "la_queue A ! j = b"
    by (metis in_set_conv_nth)
  then have "i \<noteq> j" using assms(4) by auto
  then show ?thesis
    using assms(1-3) ij unfolding la_ok_def sorted_wrt_iff_nth_less by (metis Int_commute nat_neq_iff)
qed

text \<open>Two animators with the same queue, whose sequences differ only in how far they got.\<close>

definition la_same :: "('f, 'tr) layer_animator \<Rightarrow> ('f, 'tr) layer_animator \<Rightarrow> bool" where
  "la_same A A' \<longleftrightarrow> la_queue A' = la_queue A \<and> la_running A' = la_running A \<and> la_delegate A' \<noteq> None \<and>
     (\<forall>sid \<in> set (la_queue A). la_store A' sid \<noteq> None \<and> sq_sig (the (la_store A' sid)) = sq_sig (the (la_store A sid)))"

lemma sig_props: "sq_sig s' = sq_sig s \<Longrightarrow> sq_properties s' = sq_properties s"
  by (simp add: sq_sig_def)

lemma la_sameE:
  assumes "la_ok A" and "la_same A A'" and "sid \<in> set (la_queue A)"
  obtains s s' where "la_store A sid = Some s" "sq_ok s" "la_store A' sid = Some s'" "sq_sig s' = sq_sig s"
  using la_okD(4) [OF assms(1,3)] assms(2,3) by (auto simp: la_same_def la_seq_def)

lemma la_same_props:
  assumes "la_ok A" and "la_same A A'" and "sid \<in> set (la_queue A)"
  shows "la_props A' sid = la_props A sid"
proof -
  obtain s s' where "la_store A sid = Some s" "la_store A' sid = Some s'" "sq_sig s' = sq_sig s"
    using la_sameE [OF assms] .
  then show ?thesis using sig_props [of s' s] by (simp add: la_props_def)
qed

lemma la_same_ok:
  assumes "la_ok A" and "la_same A A'"
  shows "la_ok A'"
proof -
  have "la_seq A' sid" if q: "sid \<in> set (la_queue A)" for sid
  proof -
    obtain s s' where "la_store A sid = Some s" "sq_ok s" "la_store A' sid = Some s'" "sq_sig s' = sq_sig s"
      using la_sameE [OF assms q] .
    then show ?thesis using sq_sig_ok [of s' s] by (simp add: la_seq_def)
  qed
  moreover have "sorted_wrt (\<lambda>a b. b \<in> la_run A \<longrightarrow> la_props A' a \<inter> la_props A' b = {}) (la_queue A)"
    by (rule sorted_wrt_mono_rel [where P = "\<lambda>a b. b \<in> la_run A \<longrightarrow> la_props A a \<inter> la_props A b = {}"])
      (use assms(1) in \<open>simp_all add: la_same_props [OF assms] la_ok_def\<close>)
  ultimately show ?thesis using assms by (auto simp: la_ok_def la_same_def)
qed

section \<open>Removing a sequence\<close>

lemma remove_running_filter: "distinct (map fst rs) \<Longrightarrow> remove_running sid rs = filter (\<lambda>r. fst r \<noteq> sid) rs"
proof (induction rs)
  case (Cons r rs)
  have "filter (\<lambda>r. fst r \<noteq> sid) rs = rs" if "fst r = sid"
    using Cons.prems that by (intro filter_True) (auto simp: rev_image_eqI)
  then show ?case using Cons by simp
qed simp

lemma RemoveAnimation_eq:
  assumes "la_ok A"
  shows "la_RemoveAnimation sid A = (A\<lparr>la_running := filter (\<lambda>r. fst r \<noteq> sid) (la_running A),
    la_queue := filter (\<lambda>q. q \<noteq> sid) (la_queue A)\<rparr>, sid \<in> set (la_queue A))"
proof -
  have "remove1 sid (la_queue A) = filter (\<lambda>q. q \<noteq> sid) (la_queue A)"
    using la_okD(1) [OF assms] by (simp add: distinct_remove1_removeAll removeAll_filter_not_eq eq_commute)
  then show ?thesis using remove_running_filter [OF la_okD(2) [OF assms], of sid] by (simp add: la_RemoveAnimation_def)
qed

definition la_without :: "nat \<Rightarrow> ('f, 'tr) layer_animator \<Rightarrow> ('f, 'tr) layer_animator" where
  "la_without sid A = fst (la_RemoveAnimation sid A)"

lemma without_fields:
  assumes "la_ok A"
  shows "la_queue (la_without sid A) = filter (\<lambda>q. q \<noteq> sid) (la_queue A)"
    "la_run (la_without sid A) = la_run A - {sid}"
    "la_running (la_without sid A) = filter (\<lambda>r. fst r \<noteq> sid) (la_running A)"
    "la_store (la_without sid A) = la_store A" "la_delegate (la_without sid A) = la_delegate A"
    "la_props (la_without sid A) = la_props A"
  using RemoveAnimation_eq [OF assms, of sid] by (auto simp: la_without_def la_props_def fun_eq_iff)

lemma without_ok: "la_ok A \<Longrightarrow> la_ok (la_without sid A)"
proof -
  assume ok: "la_ok A"
  have "distinct (map fst (filter (\<lambda>r. fst r \<noteq> sid) (la_running A)))"
    using la_okD(2) [OF ok] by (rule distinct_map_filter)
  moreover have "sorted_wrt (\<lambda>a b. b \<in> la_run A \<longrightarrow> la_props A a \<inter> la_props A b = {}) (filter (\<lambda>q. q \<noteq> sid) (la_queue A))"
    using ok by (intro sorted_wrt_filter) (simp add: la_ok_def)
  then have "sorted_wrt (\<lambda>a b. b \<in> la_run A - {sid} \<longrightarrow> la_props A a \<inter> la_props A b = {}) (filter (\<lambda>q. q \<noteq> sid) (la_queue A))"
    by (rule sorted_wrt_mono_rel [rotated]) auto
  ultimately show ?thesis
    using ok unfolding la_ok_def without_fields(2) [OF ok] unfolding without_fields [OF ok]
    by (auto simp: la_seq_def without_fields(4) [OF ok])
qed

lemma length_filter_one:
  "distinct (map f xs) \<Longrightarrow> y \<in> f ` set xs \<Longrightarrow> Suc (length (filter (\<lambda>x. f x \<noteq> y) xs)) = length xs"
proof (induction xs)
  case (Cons x xs)
  have "filter (\<lambda>z. f z \<noteq> f x) xs = xs" using Cons.prems by (intro filter_True) (auto simp: rev_image_eqI)
  then show ?case using Cons by (cases "f x = y") auto
qed simp

lemma without_work:
  assumes "la_ok A" and "sid \<in> la_run A"
  shows "la_work (la_without sid A) < la_work A"
proof -
  have "Suc (length (filter (\<lambda>r. fst r \<noteq> sid) (la_running A))) = length (la_running A)"
    using la_okD(2) [OF assms(1)] assms(2) by (rule length_filter_one)
  moreover have "Suc (length (filter (\<lambda>q. q \<noteq> sid) (la_queue A))) = length (la_queue A)"
    using la_okD(1,3) [OF assms(1)] assms(2) length_filter_one [of "\<lambda>x. x" "la_queue A" sid] by auto
  ultimately show ?thesis using running_le_queue [OF assms(1)] by (simp add: la_work_def without_fields [OF assms(1)])
qed

lemma without_work_le: "la_ok A \<Longrightarrow> la_work (la_without sid A) \<le> la_work A"
proof (cases "sid \<in> la_run A")
  case False
  assume ok: "la_ok A"
  then have "filter (\<lambda>r. fst r \<noteq> sid) (la_running A) = la_running A" using False by (intro filter_True) auto
  then show ?thesis by (simp add: la_work_def without_fields [OF ok] diff_le_mono)
qed (simp add: without_work order_less_imp_le)

section \<open>The target of the layer\<close>

definition la_target :: "('f, 'tr) tween_ops \<Rightarrow> ('f, 'tr) layer_animator \<Rightarrow> ('f, 'tr) target_value" where
  "la_target M A = fold (\<lambda>sid. sq_GetTargetValue M (the (la_store A sid))) (la_queue A) (target_value.truncate (the (la_delegate A)))"

definition la_lands :: "('f, 'tr) tween_ops \<Rightarrow> ('f, 'tr) layer_animator \<Rightarrow> bool" where
  "la_lands M A \<longleftrightarrow> full_time M \<and>
     (\<forall>sid \<in> set (la_queue A). sq_lands M (the (la_store A sid)) \<and> sq_phase (the (la_store A sid)))"

lemma OnGetTarget_truncate: "target_value.truncate (OnGetTarget M k d) = OnGetTarget M k (target_value.truncate d)"
  by (cases k) (simp_all add: OnGetTarget_def target_value.truncate_def)

lemma truncate_target: "target_value.truncate (sq_GetTargetValue M s d) = sq_GetTargetValue M s (target_value.truncate d)"
proof -
  have "target_value.truncate (fold (el_GetTargetValue M) es d) = fold (el_GetTargetValue M) es (target_value.truncate d)" for es
    by (induction es arbitrary: d) (simp_all add: el_GetTargetValue_def OnGetTarget_truncate)
  then show ?thesis by (simp add: sq_GetTargetValue_def)
qed

text \<open>A running sequence can be applied before all others.\<close>

lemma la_target_first:
  fixes A :: "('f, 'tr) layer_animator" and v :: "('f, 'tr) target_value"
  assumes ok: "la_ok A" and lands: "la_lands M A" and run: "sid \<in> la_run A"
  shows "fold (\<lambda>q. sq_GetTargetValue M (the (la_store A q))) (la_queue A) v =
    fold (\<lambda>q. sq_GetTargetValue M (the (la_store A q))) (la_queue (la_without sid A)) (sq_GetTargetValue M (the (la_store A sid)) v)"
proof -
  have "sid \<in> set (la_queue A)" using la_okD(3) [OF ok] run by blast
  then obtain xs ys where q: "la_queue A = xs @ sid # ys" by (meson split_list)
  have "distinct (xs @ sid # ys)" using la_okD(1) [OF ok] q by simp
  then have nin: "sid \<notin> set xs" "sid \<notin> set ys" by auto
  then have w: "la_queue (la_without sid A) = xs @ ys"
    unfolding without_fields(1) [OF ok] q by (auto simp: filter_id_conv intro!: arg_cong2 [of _ _ _ _ "(@)"] filter_True)
  have sid: "la_seq A sid" "sq_lands M (the (la_store A sid))" using ok lands q by (auto simp: la_ok_def la_lands_def)
  have com: "sq_GetTargetValue M (the (la_store A sid)) (sq_GetTargetValue M (the (la_store A x)) u) =
      sq_GetTargetValue M (the (la_store A x)) (sq_GetTargetValue M (the (la_store A sid)) u)" if "x \<in> set xs" for x and u :: "('f, 'tr) target_value"
  proof (rule sq_target_commute)
    have "la_props A x \<inter> la_props A sid = {}"
      using ok run that unfolding la_ok_def q by (auto simp: sorted_wrt_append)
    moreover have "la_seq A x" using ok that q by (simp add: la_ok_def)
    ultimately show "sq_properties (the (la_store A sid)) \<inter> sq_properties (the (la_store A x)) = {}"
      using sid(1) by (auto simp: la_props_def la_seq_def)
    show "sq_lands M (the (la_store A x))" using lands that q by (simp add: la_lands_def)
  qed (rule sid(2))
  have "sq_GetTargetValue M (the (la_store A sid)) (fold (\<lambda>q. sq_GetTargetValue M (the (la_store A q))) xs v) =
      fold (\<lambda>q. sq_GetTargetValue M (the (la_store A q))) xs (sq_GetTargetValue M (the (la_store A sid)) v)"
    using com by (intro fold_commute_apply) (auto simp: fun_eq_iff)
  then show ?thesis unfolding w q by simp
qed

section \<open>What a call does to the animator\<close>

definition la_static :: "('f, 'tr) layer_animator \<Rightarrow> nat \<times> PreemptionStrategy \<times> int \<times> tween_type \<times> bool \<times> nat list" where
  "la_static A = (la_next A, la_preemption_strategy A, la_transition_duration A, la_tween_type A, la_disable_timer_for_test A, la_observers A)"

definition advances :: "('f, 'tr) tween_ops \<Rightarrow> ('f, 'tr) layer_animator \<Rightarrow> ('f, 'tr) layer_animator \<Rightarrow> bool" where
  "advances M A A' \<longleftrightarrow> set (la_queue A') \<subseteq> set (la_queue A) \<and>
     (\<forall>sid. sid \<notin> set (la_queue A) \<longrightarrow> la_store A' sid = la_store A sid) \<and>
     (\<forall>sid. sid \<in> set (la_queue A) \<and> sid \<notin> set (la_queue A') \<longrightarrow> la_store A' sid = None) \<and>
     (\<forall>sid \<in> set (la_queue A'). sq_sig (the (la_store A' sid)) = sq_sig (the (la_store A sid))) \<and>
     la_run A \<inter> set (la_queue A') \<subseteq> la_run A' \<and> la_static A' = la_static A \<and> la_work A' \<le> la_work A \<and>
     (la_lands M A \<longrightarrow> la_lands M A' \<and> la_target M A' = la_target M A)"

lemma advances_refl: "advances M A A"
  by (simp add: advances_def)

lemma advancesD:
  assumes "advances M A A'"
  shows "set (la_queue A') \<subseteq> set (la_queue A)"
    "\<And>sid. sid \<notin> set (la_queue A) \<Longrightarrow> la_store A' sid = la_store A sid"
    "\<And>sid. sid \<in> set (la_queue A) \<Longrightarrow> sid \<notin> set (la_queue A') \<Longrightarrow> la_store A' sid = None"
    "\<And>sid. sid \<in> set (la_queue A') \<Longrightarrow> sq_sig (the (la_store A' sid)) = sq_sig (the (la_store A sid))"
    "la_run A \<inter> set (la_queue A') \<subseteq> la_run A'" "la_static A' = la_static A" "la_work A' \<le> la_work A"
    "la_lands M A \<Longrightarrow> la_lands M A'" "la_lands M A \<Longrightarrow> la_target M A' = la_target M A"
  using assms by (simp_all add: advances_def)

lemma advancesI:
  assumes "set (la_queue A') \<subseteq> set (la_queue A)"
    "\<And>sid. sid \<notin> set (la_queue A) \<Longrightarrow> la_store A' sid = la_store A sid"
    "\<And>sid. sid \<in> set (la_queue A) \<Longrightarrow> sid \<notin> set (la_queue A') \<Longrightarrow> la_store A' sid = None"
    "\<And>sid. sid \<in> set (la_queue A') \<Longrightarrow> sq_sig (the (la_store A' sid)) = sq_sig (the (la_store A sid))"
    "la_run A \<inter> set (la_queue A') \<subseteq> la_run A'" "la_static A' = la_static A" "la_work A' \<le> la_work A"
    "la_lands M A \<Longrightarrow> la_lands M A'" "la_lands M A \<Longrightarrow> la_target M A' = la_target M A"
  shows "advances M A A'"
  unfolding advances_def using assms by simp

lemma advances_trans:
  assumes a: "advances M A B" and b: "advances M B C"
  shows "advances M A C"
proof (rule advancesI)
  show "set (la_queue C) \<subseteq> set (la_queue A)" using advancesD(1) [OF a] advancesD(1) [OF b] by blast
  show "la_run A \<inter> set (la_queue C) \<subseteq> la_run C"
  proof
    fix sid
    assume c: "sid \<in> la_run A \<inter> set (la_queue C)"
    have "sid \<in> set (la_queue B)" using subsetD [OF advancesD(1) [OF b]] c by (simp only: Int_iff)
    then show "sid \<in> la_run C" using subsetD [OF advancesD(5) [OF b]] subsetD [OF advancesD(5) [OF a]] c by (simp only: Int_iff)
  qed
  show "la_static C = la_static A" using advancesD(6) [OF a] advancesD(6) [OF b] by simp
  show "la_work C \<le> la_work A" using advancesD(7) [OF a] advancesD(7) [OF b] by linarith
next
  fix sid
  show "la_store C sid = la_store A sid" if "sid \<notin> set (la_queue A)"
    using advancesD(1,2) [OF a] advancesD(2) [OF b, of sid] that by auto
  show "la_store C sid = None" if "sid \<in> set (la_queue A)" and "sid \<notin> set (la_queue C)"
    using advancesD(3) [OF a that(1)] advancesD(2,3) [OF b, of sid] that(2) by (cases "sid \<in> set (la_queue B)") simp_all
  show "sq_sig (the (la_store C sid)) = sq_sig (the (la_store A sid))" if "sid \<in> set (la_queue C)"
    using advancesD(4) [OF a, of sid] advancesD(4) [OF b that] advancesD(1) [OF b] that by auto
next
  assume l: "la_lands M A"
  show "la_lands M C" using advancesD(8) [OF b advancesD(8) [OF a l]] .
  show "la_target M C = la_target M A" using advancesD(9) [OF b advancesD(8) [OF a l]] advancesD(9) [OF a l] by simp
qed

text \<open>A call that keeps the queue.\<close>

lemma la_same_advances:
  assumes "la_same A A'" and "\<forall>sid. sid \<notin> set (la_queue A) \<longrightarrow> la_store A' sid = la_store A sid" and "la_static A' = la_static A"
    and "la_lands M A \<Longrightarrow> la_lands M A' \<and> la_target M A' = la_target M A"
  shows "advances M A A'"
  using assms by (auto simp: advances_def la_same_def la_work_def)

lemma la_same_frame:
  assumes "la_ok A" and "la_queue A' = la_queue A" "la_running A' = la_running A" "la_store A' = la_store A"
    "la_delegate A' \<noteq> None" "target_value.truncate (the (la_delegate A')) = target_value.truncate (the (la_delegate A))" "la_static A' = la_static A"
  shows "la_same A A'" and "advances M A A'"
proof -
  show same: "la_same A A'" using assms(2-5) la_okD(4) [OF assms(1)] by (auto simp: la_same_def la_seq_def)
  show "advances M A A'"
    by (rule la_same_advances [OF same]) (use assms in \<open>simp_all add: la_lands_def la_target_def\<close>)
qed

definition progressed :: "nat \<Rightarrow> ('f, 'tr) layer_sequence \<Rightarrow> ('f, 'tr) layer \<Rightarrow> animation_note list \<Rightarrow> ('f, 'tr) layer_animator \<Rightarrow> ('f, 'tr) layer_animator" where
  "progressed sid s d ns A = la_note ns ((la_put sid s A)\<lparr>la_delegate := Some d\<rparr>)"

lemma progressed_fields [simp]:
  "la_queue (progressed sid s d ns A) = la_queue A" "la_running (progressed sid s d ns A) = la_running A"
  "la_store (progressed sid s d ns A) = (la_store A)(sid \<mapsto> s)" "la_delegate (progressed sid s d ns A) = Some d"
  "la_static (progressed sid s d ns A) = la_static A" "la_is_started (progressed sid s d ns A) = la_is_started A"
  by (simp_all add: progressed_def la_note_def la_put_def la_static_def)

lemma Progress_ok:
  assumes "la_store A sid = Some s" and "sq_ok s" and "la_delegate A = Some d"
  obtains s' d' r ns where "la_ProgressAnimation M sid delta A = Some (progressed sid s' d' ns A, r)" "sq_sig s' = sq_sig s"
    "sq_lands M s \<and> sq_phase s \<and> full_time M \<and> delta \<le> sq_duration s \<longrightarrow> sq_phase s' \<and>
      (if delta = sq_duration s then d' = sq_GetTargetValue M s d else sq_GetTargetValue M s' d' = sq_GetTargetValue M s d)"
proof -
  obtain s' d' r ns where p: "sq_Progress M sid delta (Some d) s = Some (s', Some d', r, ns)" "sq_sig s' = sq_sig s"
  proof (rule ensuresE [OF sq_Progress_ok [OF assms(2), of M sid delta d]])
    fix x
    assume x: "sq_Progress M sid delta (Some d) s = Some x" "case x of (s', d', r, ns) \<Rightarrow> sq_sig s' = sq_sig s \<and> d' \<noteq> None"
    obtain s' d' r ns where "x = (s', d', r, ns)" by (cases x)
    then show thesis using x that [of s' "the d'" r ns] by simp
  qed
  have "la_ProgressAnimation M sid delta A = Some (progressed sid s' d' ns A, r)"
    using assms(1,3) p(1) by (simp add: la_ProgressAnimation_def progressed_def)
  moreover have "sq_phase s' \<and> (if delta = sq_duration s then d' = sq_GetTargetValue M s d else sq_GetTargetValue M s' d' = sq_GetTargetValue M s d)"
    if "sq_lands M s" "sq_phase s" "full_time M" "delta \<le> sq_duration s"
    using sq_Progress_target [OF assms(2) that(1,2,4,3), of sid d] unfolding p(1) by simp
  ultimately show thesis using that [of s' d' ns r] p(2) by simp
qed

lemma Progress_running:
  fixes A :: "('f, 'tr) layer_animator"
  assumes ok: "la_ok A" and run: "sid \<in> la_run A" and before: "\<And>s. la_store A sid = Some s \<Longrightarrow> delta < sq_duration s \<or> sq_is_cyclic s"
  shows "ensures (la_ProgressAnimation M sid delta A) (\<lambda>(A', r). la_same A A' \<and> advances M A A' \<and> la_is_started A' = la_is_started A)"
proof -
  have q: "sid \<in> set (la_queue A)" using la_okD(3) [OF ok] run by blast
  then obtain s where s: "la_store A sid = Some s" "sq_ok s" using la_okD(4) [OF ok] by (auto simp: la_seq_def)
  obtain d where d: "la_delegate A = Some d" using la_okD(5) [OF ok] by blast
  obtain s' d' r ns where
    p: "la_ProgressAnimation M sid delta A = Some (progressed sid s' d' ns A, r)" "sq_sig s' = sq_sig s" and
    t: "sq_lands M s \<and> sq_phase s \<and> full_time M \<and> delta \<le> sq_duration s \<longrightarrow> sq_phase s' \<and>
      (if delta = sq_duration s then d' = sq_GetTargetValue M s d else sq_GetTargetValue M s' d' = sq_GetTargetValue M s d)"
    by (rule Progress_ok [OF s d, of M delta]) (rule that, assumption+)
  let ?A = "progressed sid s' d' ns A"
  have same: "la_same A ?A" using p(2) s(1) la_okD(4) [OF ok] by (auto simp: la_same_def la_seq_def)
  have "la_lands M ?A \<and> la_target M ?A = la_target M A" if lands: "la_lands M A"
  proof -
    have ls: "sq_lands M s" "sq_phase s" "full_time M" using lands q s(1) by (auto simp: la_lands_def)
    then have "delta < sq_duration s" using before [OF s(1)] by (auto simp: sq_lands_def)
    then have t: "sq_phase s'" "sq_GetTargetValue M s' d' = sq_GetTargetValue M s d" using t ls by (auto split: if_splits)
    then have lands': "la_lands M ?A" using lands sq_lands_sig [OF p(2), of M] ls by (auto simp: la_lands_def)
    have "sid \<in> la_run ?A" using run by simp
    note first = la_target_first [OF ok lands run] la_target_first [OF la_same_ok [OF ok same] lands' this]
    have w: "la_queue (la_without sid ?A) = la_queue (la_without sid A)" by (simp add: la_without_def la_RemoveAnimation_def)
    have "fold (\<lambda>q. sq_GetTargetValue M (the (la_store ?A q))) (la_queue (la_without sid A)) v =
        fold (\<lambda>q. sq_GetTargetValue M (the (la_store A q))) (la_queue (la_without sid A)) v" for v :: "('f, 'tr) target_value"
      by (rule fold_cong) (auto simp: without_fields [OF ok])
    moreover have "sq_GetTargetValue M s' (target_value.truncate d') = sq_GetTargetValue M s (target_value.truncate d)"
      using arg_cong [OF t(2), of target_value.truncate] by (simp add: truncate_target)
    ultimately show ?thesis using lands' first d s(1) w by (simp add: la_target_def)
  qed
  then have "advances M A ?A" using s(1) q by (intro la_same_advances [OF same]) auto
  then show ?thesis using p(1) same by simp
qed

end
