(* ===== verification/Layer_Process.thy ===== *)
theory Layer_Process
  imports Layer_Queue
begin

text \<open>
  The circle of calls of the animator: finishing a sequence, stepping, starting a sequence, processing the
  queue. Each lemma holds for every \<open>pq\<close> that is right on animators with less work; an induction on the work
  closes the circle.
\<close>

section \<open>Nothing can be started\<close>

definition run_props :: "('f, 'tr) layer_animator \<Rightarrow> AnimatableProperty set" where
  "run_props A = (\<Union>sid \<in> la_run A. la_props A sid)"

definition idle :: "('f, 'tr) layer_animator \<Rightarrow> bool" where
  "idle A \<longleftrightarrow> find_startable (run_props A) (la_queue A) A = Some None"

lemma la_props_Some: "la_store A sid = Some s \<Longrightarrow> la_props A sid = sq_properties s"
  by (simp add: la_props_def)

lemma running_properties_eq: "la_ok A \<Longrightarrow> running_properties (la_running A) A = Some (run_props A)"
proof -
  assume ok: "la_ok A"
  have "running_properties rs A = Some (\<Union>sid \<in> fst ` set rs. la_props A sid)" if "fst ` set rs \<subseteq> set (la_queue A)" for rs
    using that
  proof (induction rs)
    case (Cons r rs)
    then obtain s where "la_store A (fst r) = Some s" using la_okD(4) [OF ok, of "fst r"] by (auto simp: la_seq_def)
    then show ?case using Cons by (cases r) (simp add: la_props_def)
  qed simp
  then show ?thesis using la_okD(3) [OF ok] by (simp add: run_props_def)
qed

text \<open>The search stops at the first sequence that shares no property with a running one or one before it.\<close>

lemma find_startable_spec:
  assumes "\<forall>sid \<in> set qs. la_seq A sid"
  shows "(find_startable acc qs A = Some None \<and>
      (\<forall>xs sid ys. qs = xs @ sid # ys \<longrightarrow> la_props A sid \<inter> (acc \<union> (\<Union>x \<in> set xs. la_props A x)) \<noteq> {})) \<or>
    (\<exists>xs sid ys. find_startable acc qs A = Some (Some sid) \<and> qs = xs @ sid # ys \<and>
      la_props A sid \<inter> (acc \<union> (\<Union>x \<in> set xs. la_props A x)) = {})"
  using assms
proof (induction qs arbitrary: acc)
  case (Cons q qs)
  then obtain s where s: "la_store A q = Some s" by (auto simp: la_seq_def)
  note p = la_props_Some [OF s]
  show ?case
  proof (cases "sq_properties s \<inter> acc = {}")
    case True
    then have "find_startable acc (q # qs) A = Some (Some q)" using s by (simp add: sq_HasCommonProperty_def)
    then show ?thesis using True p by (intro disjI2 exI [of _ "[]"] exI [of _ q] exI [of _ qs]) simp
  next
    case False
    then have f: "find_startable acc (q # qs) A = find_startable (acc \<union> sq_properties s) qs A"
      using s by (simp add: sq_HasCommonProperty_def)
    from Cons.IH [of "acc \<union> sq_properties s"] Cons.prems consider
      (none) "find_startable (acc \<union> sq_properties s) qs A = Some None"
        "\<forall>xs sid ys. qs = xs @ sid # ys \<longrightarrow> la_props A sid \<inter> ((acc \<union> sq_properties s) \<union> (\<Union>x \<in> set xs. la_props A x)) \<noteq> {}"
    | (some) xs sid ys where "find_startable (acc \<union> sq_properties s) qs A = Some (Some sid)" "qs = xs @ sid # ys"
        "la_props A sid \<inter> ((acc \<union> sq_properties s) \<union> (\<Union>x \<in> set xs. la_props A x)) = {}" by auto
    then show ?thesis
    proof cases
      case none
      have "la_props A sid \<inter> (acc \<union> (\<Union>x \<in> set xs. la_props A x)) \<noteq> {}" if "q # qs = xs @ sid # ys" for xs sid ys
      proof (cases xs)
        case Nil
        then show ?thesis using that False p by auto
      next
        case (Cons x xs')
        then have "x = q" "qs = xs' @ sid # ys" using that by auto
        then show ?thesis using none(2) Cons p by (simp add: Un_assoc)
      qed
      then show ?thesis using none(1) f by simp
    next
      case some
      then show ?thesis using f p
        by (intro disjI2 exI [of _ "q # xs"] exI [of _ sid] exI [of _ ys]) (simp add: Un_assoc)
    qed
  qed
qed simp

lemma idle_waits: "la_ok A \<Longrightarrow> idle A \<Longrightarrow> la_queue A = xs @ sid # ys \<Longrightarrow>
    la_props A sid \<inter> (run_props A \<union> (\<Union>x \<in> set xs. la_props A x)) \<noteq> {}"
  using find_startable_spec [of "la_queue A" A "run_props A"] la_okD(4) [of A] unfolding idle_def by auto

lemma idle_running:
  assumes "la_ok A" and "idle A" and "la_queue A \<noteq> []"
  shows "la_running A \<noteq> []"
proof
  assume "la_running A = []"
  then have "run_props A = {}" by (simp add: run_props_def)
  moreover obtain sid ys where "la_queue A = [] @ sid # ys" using assms(3) by (cases "la_queue A") auto
  ultimately show False using idle_waits [OF assms(1,2), of "[]" sid ys] by simp
qed

lemma find_startable_cong:
  "(\<And>sid. sid \<in> set qs \<Longrightarrow> la_seq A sid \<and> la_seq A' sid \<and> la_props A' sid = la_props A sid) \<Longrightarrow>
   find_startable acc qs A' = find_startable acc qs A"
proof (induction qs arbitrary: acc)
  case (Cons q qs)
  obtain s s' where "la_store A q = Some s" "la_store A' q = Some s'" using Cons.prems [of q] by (auto simp: la_seq_def)
  moreover have "sq_properties s' = sq_properties s" using Cons.prems [of q] calculation by (simp add: la_props_def)
  ultimately show ?case using Cons by (simp add: sq_HasCommonProperty_def)
qed simp

lemma la_same_idle:
  assumes "la_ok A" and "la_same A A'"
  shows "idle A' = idle A"
proof -
  have "run_props A' = run_props A"
    using la_same_props [OF assms] la_okD(3) [OF assms(1)] assms(2) by (auto simp: run_props_def la_same_def)
  moreover have "find_startable acc (la_queue A) A' = find_startable acc (la_queue A) A" for acc
    using assms la_same_ok [OF assms] la_same_props [OF assms] by (intro find_startable_cong) (simp add: la_ok_def la_same_def)
  ultimately show ?thesis using assms(2) by (simp add: idle_def la_same_def)
qed

section \<open>Finishing and stepping\<close>

definition timer_ok :: "('f, 'tr) layer_animator \<Rightarrow> bool" where
  "timer_ok A \<longleftrightarrow> la_disable_timer_for_test A \<or> la_is_started A = (la_queue A \<noteq> [])"

definition pq_good :: "('f, 'tr) tween_ops \<Rightarrow> nat \<Rightarrow> (('f, 'tr) layer_animator \<Rightarrow> ('f, 'tr) layer_animator option) \<Rightarrow> bool" where
  "pq_good M k pq \<longleftrightarrow> (\<forall>A. la_ok A \<and> la_work A < k \<longrightarrow> ensures (pq A) (\<lambda>A'. la_ok A' \<and> advances M A A' \<and> idle A'))"

lemma update_fields [simp]:
  "la_queue (la_UpdateAnimationState A) = la_queue A" "la_running (la_UpdateAnimationState A) = la_running A"
  "la_store (la_UpdateAnimationState A) = la_store A" "la_delegate (la_UpdateAnimationState A) = la_delegate A"
  "la_static (la_UpdateAnimationState A) = la_static A" "timer_ok (la_UpdateAnimationState A)"
  by (simp_all add: la_UpdateAnimationState_def Let_def la_static_def timer_ok_def la_is_animating_def)

lemma delete_eq:
  "la_store A sid = Some s \<Longrightarrow>
   la_delete sid A = Some (la_note (sq_destroy sid s) (A\<lparr>la_store := (la_store A)(sid := None)\<rparr>))"
  by (simp add: la_delete_def)

lemma timer_ok_cong: "la_static A' = la_static A \<Longrightarrow> la_queue A' = la_queue A \<Longrightarrow> la_is_started A' = la_is_started A \<Longrightarrow> timer_ok A' = timer_ok A"
  by (simp add: timer_ok_def la_static_def)

lemma without_lands: "la_ok A \<Longrightarrow> la_lands M A \<Longrightarrow> la_lands M (la_without sid A)"
  by (auto simp: la_lands_def without_fields)

text \<open>The animator after a sequence outside its queue was deleted.\<close>

lemma drop_deleted:
  assumes ok: "la_ok A" and "sid \<notin> set (la_queue A)" and "A' = la_note ns (A\<lparr>la_store := (la_store A)(sid := None)\<rparr>)"
  shows "la_same A A'" and "la_lands M A' = la_lands M A" and "la_target M A' = la_target M A"
    and "la_work A' = la_work A" and "la_static A' = la_static A" and "timer_ok A' = timer_ok A"
proof -
  have ne: "q \<noteq> sid" if "q \<in> set (la_queue A)" for q using assms(2) that by auto
  show "la_same A A'" using la_okD(4,5) [OF ok] ne assms(3) by (auto simp: la_same_def la_note_def la_seq_def)
  show "la_lands M A' = la_lands M A" using ne assms(3) by (auto simp: la_lands_def la_note_def)
  show "la_target M A' = la_target M A"
    using assms(3) ne unfolding la_target_def by (intro fold_cong) (auto simp: la_note_def)
  show "la_work A' = la_work A" "la_static A' = la_static A" "timer_ok A' = timer_ok A"
    using assms(3) by (simp_all add: la_work_def la_note_def la_static_def timer_ok_def)
qed

text \<open>A sequence is taken from the queue, brought to its end, something else happens to the rest of the
  queue, and the sequence is deleted.\<close>

lemma finish_advances:
  assumes ok: "la_ok A" and run: "sid \<in> la_run A"
    and s: "la_store A sid = Some s" and d: "la_delegate A = Some d"
    and s': "sq_sig s' = sq_sig s" "sq_lands M s \<and> sq_phase s \<and> full_time M \<longrightarrow> d' = sq_GetTargetValue M s d"
    and A2: "A2 = progressed sid s' d' ns (la_without sid A)"
    and A3: "la_ok A3" "advances M A2 A3"
    and A4: "A4 = la_note ns' (A3\<lparr>la_store := (la_store A3)(sid := None)\<rparr>)"
  shows "advances M A A4"
proof -
  have q2: "la_queue A2 = filter (\<lambda>q. q \<noteq> sid) (la_queue A)" by (simp add: A2 without_fields [OF ok])
  then have sid2: "sid \<notin> set (la_queue A2)" by simp
  then have sid3: "sid \<notin> set (la_queue A3)" using A3(2) by (auto simp: advances_def)
  note dd = drop_deleted [OF A3(1) sid3 A4]
  have st2: "la_store A2 q = la_store A q" if "q \<noteq> sid" for q using that by (simp add: A2 without_fields [OF ok])
  have "la_queue A4 = la_queue A3" using A4 by (simp add: la_note_def)
  moreover have "la_store A4 q = (if q = sid then None else la_store A3 q)" for q using A4 by (simp add: la_note_def)
  moreover have "la_work A2 < la_work A" using without_work [OF ok run] by (simp add: A2 la_work_def)
  moreover have "la_static (la_without sid A) = la_static A"
    by (simp add: la_without_def la_RemoveAnimation_def la_static_def)
  then have "la_static A2 = la_static A" by (simp add: A2)
  moreover have "la_lands M A4 \<and> la_target M A4 = la_target M A" if lands: "la_lands M A"
  proof -
    have "sid \<in> set (la_queue A)" using la_okD(3) [OF ok] run by blast
    then have "d' = sq_GetTargetValue M s d" using s'(2) lands s by (auto simp: la_lands_def)
    then have tr: "target_value.truncate d' = sq_GetTargetValue M s (target_value.truncate d)" by (simp add: truncate_target)
    have "la_lands M A2" using without_lands [OF ok lands, of sid] sid2 by (auto simp: la_lands_def A2)
    moreover have "la_target M A2 = la_target M A"
    proof -
      have "la_target M A2 = fold (\<lambda>q. sq_GetTargetValue M (the (la_store A q))) (la_queue (la_without sid A)) (target_value.truncate d')"
        unfolding la_target_def A2 progressed_fields by (rule fold_cong) (auto simp: without_fields [OF ok])
      then show ?thesis using la_target_first [OF ok lands run] tr s d by (simp add: la_target_def)
    qed
    ultimately show ?thesis using A3(2) dd(2,3) by (simp add: advances_def)
  qed
  moreover have "sid \<in> set (la_queue A)" using la_okD(3) [OF ok] run by blast
  moreover have "la_run A2 = la_run A - {sid}" unfolding A2 progressed_fields by (rule without_fields(2) [OF ok])
  then have "la_run A \<inter> set (la_queue A4) \<subseteq> la_run A4" using A3(2) sid3 A4 by (auto simp: advances_def la_note_def)
  ultimately show ?thesis
    using A3(2) q2 sid2 sid3 st2 dd(4,5) unfolding advances_def by (auto split: if_splits)
qed

lemma Finish_ok:
  assumes ok: "la_ok A" and run: "sid \<in> la_run A" and good: "pq_good M k pq" and work: "la_work A \<le> k"
  shows "ensures (la_FinishAnimation pq M sid A) (\<lambda>A'. la_ok A' \<and> advances M A A' \<and> idle A' \<and> timer_ok A' \<and> sid \<notin> set (la_queue A'))"
proof -
  let ?A1 = "la_without sid A"
  have q: "sid \<in> set (la_queue A)" using la_okD(3) [OF ok] run by blast
  then obtain s where s: "la_store A sid = Some s" "sq_ok s" using la_okD(4) [OF ok] by (auto simp: la_seq_def)
  obtain d where d: "la_delegate A = Some d" using la_okD(5) [OF ok] by blast
  have s1: "la_store ?A1 sid = Some s" "la_delegate ?A1 = Some d" using s(1) d by (simp_all add: without_fields [OF ok])
  obtain s' d' r ns where
    p: "la_ProgressAnimation M sid (sq_duration s) ?A1 = Some (progressed sid s' d' ns ?A1, r)" "sq_sig s' = sq_sig s" and
    t: "sq_lands M s \<and> sq_phase s \<and> full_time M \<and> sq_duration s \<le> sq_duration s \<longrightarrow> sq_phase s' \<and>
      (if sq_duration s = sq_duration s then d' = sq_GetTargetValue M s d else sq_GetTargetValue M s' d' = sq_GetTargetValue M s d)"
    by (rule Progress_ok [OF s1(1) s(2) s1(2), of M "sq_duration s"]) (rule that, assumption+)
  define A2 where "A2 = progressed sid s' d' ns ?A1"
  have sid2: "sid \<notin> set (la_queue A2)" by (simp add: A2_def without_fields [OF ok])
  have "la_same ?A1 A2"
    using without_ok [OF ok, of sid] sid2 by (auto simp: la_same_def A2_def la_ok_def la_seq_def)
  then have ok2: "la_ok A2" using la_same_ok without_ok [OF ok] by blast
  have "la_work A2 < k" using without_work [OF ok run] work by (simp add: A2_def la_work_def)
  then obtain A3 where A3: "pq A2 = Some A3" "la_ok A3" "advances M A2 A3" "idle A3"
    using good ok2 by (auto simp: pq_good_def ensures_def split: option.splits)
  let ?A4 = "la_UpdateAnimationState A3"
  have same4: "la_same A3 ?A4" and adv4: "advances M A3 ?A4"
    by (rule la_same_frame [OF A3(2)]; use la_okD(5) [OF A3(2)] in simp)+
  have ok4: "la_ok ?A4" using la_same_ok [OF A3(2) same4] .
  have sid4: "sid \<notin> set (la_queue ?A4)" using A3(3) sid2 by (auto simp: advances_def)
  have st4: "la_store ?A4 sid = Some s'" using A3(3) sid2 by (simp add: advances_def A2_def)
  define A5 where "A5 = la_note (sq_destroy sid s') (?A4\<lparr>la_store := (la_store ?A4)(sid := None)\<rparr>)"
  have res: "la_FinishAnimation pq M sid A = Some A5"
    using RemoveAnimation_eq [OF ok, of sid] q s1(1) p(1) A3(1) delete_eq [OF st4]
    by (simp add: la_FinishAnimation_def la_without_def A2_def A5_def)
  note dd = drop_deleted [OF ok4 sid4 A5_def]
  have "advances M A A5"
    using finish_advances [OF ok run s(1) d p(2) _ A2_def ok4 advances_trans [OF A3(3) adv4] A5_def] t by simp
  moreover have "idle A5" using la_same_idle [OF A3(2) same4] la_same_idle [OF ok4 dd(1)] A3(4) by simp
  moreover have "sid \<notin> set (la_queue A5)" using sid4 by (simp add: A5_def la_note_def)
  ultimately show ?thesis using res la_same_ok [OF ok4 dd(1)] dd(6) by simp
qed

definition keeps_settled :: "('f, 'tr) layer_animator \<Rightarrow> ('f, 'tr) layer_animator \<Rightarrow> bool" where
  "keeps_settled A A' \<longleftrightarrow> (idle A \<longrightarrow> idle A') \<and> (timer_ok A \<longrightarrow> timer_ok A')"

lemma keeps_settled_trans: "keeps_settled A B \<Longrightarrow> keeps_settled B C \<Longrightarrow> keeps_settled A C"
  by (simp add: keeps_settled_def)

lemma la_same_settled:
  "la_ok A \<Longrightarrow> la_same A A' \<Longrightarrow> la_is_started A' = la_is_started A \<Longrightarrow> la_static A' = la_static A \<Longrightarrow> keeps_settled A A'"
  using la_same_idle [of A A'] timer_ok_cong [of A' A] by (simp add: keeps_settled_def la_same_def)

abbreviation stepped :: "('f, 'tr) tween_ops \<Rightarrow> ('f, 'tr) layer_animator \<Rightarrow> ('f, 'tr) layer_animator \<Rightarrow> bool" where
  "stepped M A A' \<equiv> la_ok A' \<and> advances M A A' \<and> keeps_settled A A'"

lemma stepped_trans: "stepped M A B \<Longrightarrow> stepped M B C \<Longrightarrow> stepped M A C"
  using advances_trans keeps_settled_trans by blast

lemma step_loop_ok:
  assumes "pq_good M k pq" and "la_ok A" and "la_work A \<le> k" and "fst ` set rs \<inter> set (la_queue A) \<subseteq> la_run A"
  shows "ensures (step_loop pq M now rs redraw A) (\<lambda>(A', r). stepped M A A')"
  using assms(2-4)
proof (induction rs arbitrary: A redraw)
  case Nil
  then show ?case by (simp add: advances_refl keeps_settled_def)
next
  case (Cons r rs)
  obtain sid t where r: "r = (sid, t)" by (cases r)
  have rest: "ensures (step_loop pq M now rs redraw' A1) (\<lambda>(A', r). stepped M A A')" if "stepped M A A1" for redraw' A1
  proof -
    have adv: "advances M A A1" using that by blast
    then have "la_work A1 \<le> k" using advancesD(7) Cons.prems(2) order_trans by blast
    moreover have "fst ` set rs \<inter> set (la_queue A) \<subseteq> la_run A" using Cons.prems(3) by auto
    then have "fst ` set rs \<inter> set (la_queue A1) \<subseteq> la_run A1" using advancesD(1,5) [OF adv] by blast
    ultimately have "ensures (step_loop pq M now rs redraw' A1) (\<lambda>(A', r). stepped M A1 A')" using Cons.IH that by blast
    then show ?thesis by (rule ensures_mono) (use stepped_trans [OF that] in auto)
  qed
  show ?case
  proof (cases "la_HasAnimation sid A")
    case False
    have "stepped M A A" using Cons.prems(1) by (simp add: advances_refl keeps_settled_def)
    from rest [OF this] show ?thesis using r False by simp
  next
    case True
    then have q: "sid \<in> set (la_queue A)" and run: "sid \<in> la_run A" using Cons.prems(3) r by (auto simp: la_HasAnimation_def)
    then obtain s where s: "la_store A sid = Some s" using la_okD(4) [OF Cons.prems(1)] by (auto simp: la_seq_def)
    show ?thesis
    proof (cases "now - t \<ge> sq_duration s \<and> \<not> sq_is_cyclic s")
      case fin: True
      have "ensures (la_FinishAnimation pq M sid A) (\<lambda>A1. stepped M A A1)"
        using Finish_ok [OF Cons.prems(1) run assms(1) Cons.prems(2)] by (rule ensures_mono) (simp add: keeps_settled_def)
      then have "ensures (la_FinishAnimation pq M sid A \<bind> step_loop pq M now rs redraw) (\<lambda>(A', r). stepped M A A')"
        by (rule ensures_bind) (rule rest)
      then show ?thesis using r s True fin by simp
    next
      case False
      then have "ensures (la_ProgressAnimation M sid (now - t) A) (\<lambda>(A', r). la_same A A' \<and> advances M A A' \<and> la_is_started A' = la_is_started A)"
        using s by (intro Progress_running [OF Cons.prems(1) run]) auto
      then have "ensures (la_ProgressAnimation M sid (now - t) A) (\<lambda>(A', r). stepped M A A')"
        by (rule ensures_mono) (use la_same_ok la_same_settled Cons.prems(1) in \<open>auto simp: advances_def\<close>)
      then have "ensures (la_ProgressAnimation M sid (now - t) A \<bind> (\<lambda>(A1, re). step_loop pq M now rs (redraw \<or> re) A1)) (\<lambda>(A', r). stepped M A A')"
        by (rule ensures_bind) (auto intro!: rest)
      then show ?thesis using r s True False by auto
    qed
  qed
qed

lemma step_with_ok:
  assumes "pq_good M k pq" and "la_ok A" and "la_work A \<le> k"
  shows "ensures (step_with pq M now A) (stepped M A)"
proof -
  let ?A = "A\<lparr>la_last_step_time := now\<rparr>"
  have same: "la_same A ?A" and adv: "advances M A ?A"
    by (rule la_same_frame [OF assms(2)]; use la_okD(5) [OF assms(2)] in \<open>simp add: la_static_def\<close>)+
  then have st: "stepped M A ?A" using la_same_ok [OF assms(2) same] la_same_settled [OF assms(2) same] by (simp add: la_static_def)
  have "ensures (step_loop pq M now (la_running A) False ?A) (\<lambda>(A', r). stepped M ?A A')"
    using st assms by (intro step_loop_ok [OF assms(1)]) (auto simp: la_work_def)
  then obtain A1 r where A1: "step_loop pq M now (la_running A) False ?A = Some (A1, r)" "stepped M A A1"
    using stepped_trans [OF st] by (auto simp: ensures_def split: option.splits)
  show ?thesis
  proof (cases r)
    case True
    obtain d where d: "la_delegate A1 = Some d" using la_okD(5) A1(2) by blast
    let ?B = "A1\<lparr>la_delegate := Some (d\<lparr>ly_draws := Suc (ly_draws d)\<rparr>)\<rparr>"
    have ok1: "la_ok A1" using A1(2) by blast
    have "la_same A1 ?B" and "advances M A1 ?B"
      by (rule la_same_frame [OF ok1]; use d in \<open>simp add: la_static_def target_value.truncate_def\<close>)+
    then have "stepped M A1 ?B" using la_same_ok [OF ok1] la_same_settled [OF ok1] by (simp add: la_static_def)
    then show ?thesis using stepped_trans [OF A1(2)] A1(1) True d by (simp add: step_with_def)
  next
    case False
    then show ?thesis using A1 by (simp add: step_with_def)
  qed
qed

section \<open>Starting a sequence\<close>

lemma conflict_loop_eq:
  assumes "la_ok A"
  shows "conflict_loop ps (la_running A) A = Some (ps \<inter> run_props A \<noteq> {})"
proof -
  have "conflict_loop ps rs A = Some (ps \<inter> (\<Union>sid \<in> fst ` set rs. la_props A sid) \<noteq> {})" if "fst ` set rs \<subseteq> set (la_queue A)" for rs
    using that
  proof (induction rs)
    case (Cons r rs)
    then obtain s where s: "la_store A (fst r) = Some s" using la_okD(4) [OF assms, of "fst r"] by (auto simp: la_seq_def)
    have "conflict_loop ps (r # rs) A = (if sq_HasCommonProperty ps s then Some True else conflict_loop ps rs A)"
      using s by (cases r) simp
    then show ?case using Cons la_props_Some [OF s] by (auto simp: sq_HasCommonProperty_def)
  qed simp
  then show ?thesis using la_okD(3) [OF assms] by (simp add: run_props_def)
qed

text \<open>A sequence that may start: no running sequence and none before it in the queue shares a property.\<close>

definition can_start :: "nat \<Rightarrow> ('f, 'tr) layer_animator \<Rightarrow> bool" where
  "can_start sid A \<longleftrightarrow> la_ok A \<and> sid \<in> set (la_queue A) \<and> sid \<notin> la_run A \<and> la_props A sid \<inter> run_props A = {} \<and>
     (\<forall>xs ys. la_queue A = xs @ sid # ys \<longrightarrow> la_props A sid \<inter> (\<Union>x \<in> set xs. la_props A x) = {})"

definition la_begin :: "nat \<Rightarrow> int \<Rightarrow> ('f, 'tr) layer_animator \<Rightarrow> ('f, 'tr) layer_animator" where
  "la_begin sid t A = A\<lparr>la_running := la_running A @ [(sid, t)]\<rparr>"

lemma begin_ok:
  assumes "can_start sid A"
  shows "la_ok (la_begin sid t A)"
proof -
  have ok: "la_ok A" and q: "sid \<in> set (la_queue A)" and nr: "sid \<notin> la_run A" using assms by (simp_all add: can_start_def)
  obtain xs ys where split: "la_queue A = xs @ sid # ys" using q by (meson split_list)
  have "distinct (xs @ sid # ys)" using la_okD(1) [OF ok] split by simp
  then have nin: "sid \<notin> set xs" "sid \<notin> set ys" by auto
  have before: "la_props A x \<inter> la_props A sid = {}" if "x \<in> set xs" for x
    using assms split that by (fastforce simp: can_start_def)
  have srt: "sorted_wrt (\<lambda>a b. b \<in> la_run A \<longrightarrow> la_props A a \<inter> la_props A b = {}) (xs @ sid # ys)"
    using ok split by (simp add: la_ok_def)
  have weaken: "sorted_wrt (\<lambda>a b. b \<in> la_run A \<longrightarrow> la_props A a \<inter> la_props A b = {}) zs \<Longrightarrow> sid \<notin> set zs \<Longrightarrow>
      sorted_wrt (\<lambda>a b. b = sid \<or> b \<in> la_run A \<longrightarrow> la_props A a \<inter> la_props A b = {}) zs" for zs
    by (erule sorted_wrt_mono_rel [rotated]) auto
  have "sorted_wrt (\<lambda>a b. b = sid \<or> b \<in> la_run A \<longrightarrow> la_props A a \<inter> la_props A b = {}) (xs @ sid # ys)"
    using srt weaken [of xs] weaken [of ys] nin before by (auto simp: sorted_wrt_append)
  moreover have "la_props (la_begin sid t A) = la_props A" by (simp add: la_begin_def la_props_def fun_eq_iff)
  ultimately show ?thesis
    using ok q nr split by (auto simp: la_ok_def la_begin_def la_seq_def)
qed

lemma begin_advances:
  assumes "can_start sid A"
  shows "advances M A (la_begin sid t A)" and "la_work (la_begin sid t A) < la_work A"
proof -
  have ok: "la_ok A" using assms by (simp add: can_start_def)
  have "length (la_running (la_begin sid t A)) \<le> length (la_queue (la_begin sid t A))" using running_le_queue [OF begin_ok [OF assms]] .
  then show work: "la_work (la_begin sid t A) < la_work A" by (simp add: la_work_def la_begin_def)
  show "advances M A (la_begin sid t A)"
    using work by (intro advancesI) (auto simp: la_begin_def la_static_def la_lands_def la_target_def)
qed

lemma can_startI:
  assumes "la_ok A" and "sid \<notin> set (la_queue A)" and "la_seq A sid" and "la_props A sid \<inter> run_props A = {}"
  shows "can_start sid (A\<lparr>la_queue := sid # la_queue A\<rparr>)"
proof -
  let ?A = "A\<lparr>la_queue := sid # la_queue A\<rparr>"
  have p: "la_props ?A = la_props A" "run_props ?A = run_props A" by (simp_all add: la_props_def run_props_def fun_eq_iff)
  have "la_props A sid \<inter> la_props A b = {}" if "b \<in> la_run A" for b using assms(4) that unfolding run_props_def by blast
  then have "la_ok ?A" using assms(1-3) p by (auto simp: la_ok_def la_seq_def)
  moreover have "\<forall>xs ys. sid # la_queue A = xs @ sid # ys \<longrightarrow> la_props A sid \<inter> (\<Union>x \<in> set xs. la_props A x) = {}"
    using assms(2) by (auto simp: Cons_eq_append_conv)
  moreover have "sid \<notin> la_run A" using la_okD(3) [OF assms(1)] assms(2) by blast
  ultimately show ?thesis using assms(4) unfolding can_start_def p by simp
qed

definition la_start_time :: "('f, 'tr) layer_animator \<Rightarrow> int" where
  "la_start_time A = (if la_is_animating A then la_last_step_time A else la_clock A (la_reads A))"

lemma start_with_ok:
  assumes A: "la_ok A" and sid: "la_store A sid = Some s" and add: "can_start sid (la_AddToQueueIfNotPresent sid A)"
    and good: "pq_good M k pq" and work: "la_work (la_AddToQueueIfNotPresent sid A) \<le> Suc k"
  shows "ensures (start_with pq M sid A) (\<lambda>(A', ok). ok \<and> la_ok A' \<and> advances M (la_AddToQueueIfNotPresent sid A) A' \<and>
    la_work A' < la_work (la_AddToQueueIfNotPresent sid A) \<and> (la_queue A = [] \<longrightarrow> idle A'))"
proof -
  let ?Q = "la_AddToQueueIfNotPresent sid A"
  define A0 where "A0 = (if la_is_animating A then ?Q else ?Q\<lparr>la_reads := Suc (la_reads A)\<rparr>)"
  define A2 where "A2 = la_begin sid (la_start_time A) A0"
  have f: "la_queue A0 = la_queue ?Q" "la_running A0 = la_running A" "la_store A0 = la_store A" "la_delegate A0 = la_delegate ?Q"
    "la_static A0 = la_static ?Q" "la_running ?Q = la_running A" "la_store ?Q = la_store A"
    by (simp_all add: A0_def la_static_def la_AddToQueueIfNotPresent_def)
  have okQ: "la_ok ?Q" using add by (simp add: can_start_def)
  have same: "la_same ?Q A0" and adv0: "advances M ?Q A0"
    by (rule la_same_frame [OF okQ]; use f la_okD(5) [OF okQ] in simp)+
  have p: "la_props A0 = la_props ?Q" "run_props A0 = run_props ?Q" using f by (simp_all add: la_props_def run_props_def fun_eq_iff)
  have can: "can_start sid A0" using add la_same_ok [OF okQ same] f p by (simp add: can_start_def)
  have "la_work A0 = la_work ?Q" using f by (simp add: la_work_def)
  then have w2: "la_work A2 < la_work ?Q" using begin_advances(2) [OF can] by (simp add: A2_def)
  have adv2: "advances M ?Q A2" using advances_trans [OF adv0 begin_advances(1) [OF can]] by (simp add: A2_def)
  have step: "ensures (step_with pq M (la_start_time A) A2) (stepped M A2)"
    using w2 work begin_ok [OF can] by (intro step_with_ok [OF good]) (simp_all add: A2_def)
  have "run_props ?Q = run_props A" "la_props ?Q = la_props A" using f by (simp_all add: run_props_def la_props_def fun_eq_iff)
  then have "sq_properties s \<inter> run_props A = {}" using add sid la_props_Some [OF sid] by (simp add: can_start_def)
  then have nc: "conflict_loop (sq_properties s) (la_running A) A = Some False"
    using conflict_loop_eq [OF A, of "sq_properties s"] by simp
  define B where "B = (if la_is_animating A then A else A\<lparr>la_reads := Suc (la_reads A)\<rparr>)"
  have B: "(if la_is_animating A then (la_last_step_time A, A) else la_Now A) = (la_start_time A, B)"
    by (simp add: B_def la_start_time_def la_Now_def)
  have "la_AddToQueueIfNotPresent sid (B\<lparr>la_running := la_running B @ [(sid, la_start_time A)]\<rparr>) = A2"
    by (cases A) (simp add: A2_def A0_def B_def la_begin_def la_AddToQueueIfNotPresent_def la_is_animating_def)
  then have res: "start_with pq M sid A = map_option (\<lambda>A3. (A3, True)) (step_with pq M (la_start_time A) A2)"
    unfolding start_with_def sid B using nc by (cases "step_with pq M (la_start_time A) A2") simp_all
  have idle2: "idle A2" if "la_queue A = []"
  proof -
    have "la_running A = []" using la_okD(3) [OF A] that by auto
    then have "la_running A2 = [(sid, la_start_time A)]" "la_queue A2 = [sid]" "la_store A2 = la_store A"
      using that f by (simp_all add: A2_def la_begin_def la_AddToQueueIfNotPresent_def)
    moreover have "sq_properties s \<noteq> {}" using add f sid by (auto simp: can_start_def la_ok_def la_seq_def sq_ok_def)
    ultimately show ?thesis using sid by (simp add: idle_def run_props_def la_props_def sq_HasCommonProperty_def)
  qed
  show ?thesis
    unfolding res ensures_map using step
  proof (rule ensures_mono)
    fix A3
    assume A3: "stepped M A2 A3"
    then have "advances M ?Q A3" "la_work A3 < la_work ?Q" using advances_trans [OF adv2] advancesD(7) w2 by (blast, meson order_le_less_trans)
    then show "case (A3, True) of (A', ok) \<Rightarrow> ok \<and> la_ok A' \<and> advances M ?Q A' \<and> la_work A' < la_work ?Q \<and> (la_queue A = [] \<longrightarrow> idle A')"
      using A3 idle2 by (simp add: keeps_settled_def)
  qed
qed

section \<open>Processing the queue\<close>

lemma find_can_start:
  assumes "la_ok A" and "find_startable (run_props A) (la_queue A) A = Some (Some sid)"
  shows "can_start sid A"
proof -
  from find_startable_spec [of "la_queue A" A "run_props A"] assms obtain xs ys where
    f: "la_queue A = xs @ sid # ys" "la_props A sid \<inter> (run_props A \<union> (\<Union>x \<in> set xs. la_props A x)) = {}"
    using la_okD(4) [OF assms(1)] by auto
  have q: "sid \<in> set (la_queue A)" using f(1) by simp
  obtain s where "la_store A sid = Some s" "sq_ok s" using la_okD(4) [OF assms(1) q] by (auto simp: la_seq_def)
  then have "la_props A sid \<noteq> {}" by (simp add: la_props_def sq_ok_def)
  then have nr: "sid \<notin> la_run A" using f(2) unfolding run_props_def by blast
  have "xs' = xs" if "la_queue A = xs' @ sid # ys'" for xs' ys'
    using that f(1) la_okD(1) [OF assms(1)] by (metis append_Cons_eq_iff distinct_append distinct.simps(2) disjoint_insert(1) list.simps(15) not_distinct_conv_prefix)
  then show ?thesis using assms(1) q nr f(2) unfolding can_start_def by blast
qed

lemma ProcessQueue_good: "pq_good M k (la_ProcessQueue M)"
proof (induction k)
  case 0
  show ?case by (simp add: pq_good_def)
next
  case (Suc k)
  show ?case
    unfolding pq_good_def
  proof (intro allI impI)
    fix A :: "('a, 'b) layer_animator"
    assume "la_ok A \<and> la_work A < Suc k"
    then have ok: "la_ok A" and work: "la_work A \<le> k" by simp_all
    note run = running_properties_eq [OF ok]
    from find_startable_spec [of "la_queue A" A "run_props A"] la_okD(4) [OF ok] obtain r where
      r: "find_startable (run_props A) (la_queue A) A = Some r" by auto
    show "ensures (la_ProcessQueue M A) (\<lambda>A'. la_ok A' \<and> advances M A A' \<and> idle A')"
    proof (cases r)
      case None
      then show ?thesis using ok run r by (subst la_ProcessQueue.simps) (simp add: advances_refl idle_def)
    next
      case (Some sid)
      then have can: "can_start sid A" using find_can_start [OF ok] r by simp
      then have q: "sid \<in> set (la_queue A)" by (simp add: can_start_def)
      then have add: "la_AddToQueueIfNotPresent sid A = A" by (simp add: la_AddToQueueIfNotPresent_def)
      obtain s where s: "la_store A sid = Some s" using la_okD(4) [OF ok q] by (auto simp: la_seq_def)
      have "ensures (start_with (la_ProcessQueue M) M sid A) (\<lambda>(A', ok). ok \<and> la_ok A' \<and> advances M A A' \<and> la_work A' < la_work A \<and> (la_queue A = [] \<longrightarrow> idle A'))"
        using start_with_ok [OF ok s _ Suc.IH, unfolded add, OF can] work by simp
      then obtain A1 where A1: "start_with (la_ProcessQueue M) M sid A = Some (A1, True)" "la_ok A1" "advances M A A1" "la_work A1 < la_work A"
        by (auto simp: ensures_def split: option.splits)
      have "ensures (la_ProcessQueue M A1) (\<lambda>A'. la_ok A' \<and> advances M A1 A' \<and> idle A')"
        using Suc.IH A1(2,4) work by (simp add: pq_good_def)
      then have "ensures (la_ProcessQueue M A1) (\<lambda>A'. la_ok A' \<and> advances M A A' \<and> idle A')"
        by (rule ensures_mono) (use advances_trans [OF A1(3)] in blast)
      then show ?thesis using run r Some A1(1) by (subst la_ProcessQueue.simps) simp
    qed
  qed
qed

lemma ProcessQueue_ok: "la_ok A \<Longrightarrow> ensures (la_ProcessQueue M A) (\<lambda>A'. la_ok A' \<and> advances M A A' \<and> idle A')"
  using ProcessQueue_good [of M "Suc (la_work A)"] by (simp add: pq_good_def)

end
