(* ===== verification/Layer_Operations.thy ===== *)
theory Layer_Operations
  imports Layer_Process
begin

text \<open>
  The operations a client calls on an animator: each returns, keeps the invariant, and leaves nothing in
  the queue that could be started.
\<close>

section \<open>Frames\<close>

text \<open>A call that touches the queue and the sequences \<open>X\<close> only.\<close>

definition frame :: "nat set \<Rightarrow> ('f, 'tr) layer_animator \<Rightarrow> ('f, 'tr) layer_animator \<Rightarrow> bool" where
  "frame X A A' \<longleftrightarrow> la_static A' = la_static A \<and> set (la_queue A') \<subseteq> set (la_queue A) \<union> X \<and>
     (\<forall>sid. sid \<notin> set (la_queue A) \<and> sid \<notin> X \<longrightarrow> la_store A' sid = la_store A sid)"

lemma frameD:
  assumes "frame X A A'"
  shows "la_static A' = la_static A" "set (la_queue A') \<subseteq> set (la_queue A) \<union> X"
    "\<And>sid. sid \<notin> set (la_queue A) \<Longrightarrow> sid \<notin> X \<Longrightarrow> la_store A' sid = la_store A sid"
  using assms by (simp_all add: frame_def)

lemma frame_trans:
  assumes a: "frame X A B" and b: "frame X B C"
  shows "frame X A C"
  unfolding frame_def
proof (intro conjI allI impI)
  show "la_static C = la_static A" using frameD(1) [OF a] frameD(1) [OF b] by simp
  show "set (la_queue C) \<subseteq> set (la_queue A) \<union> X" using frameD(2) [OF a] frameD(2) [OF b] by blast
  show "la_store C sid = la_store A sid" if "sid \<notin> set (la_queue A) \<and> sid \<notin> X" for sid
    using frameD(2) [OF a] frameD(3) [OF a, of sid] frameD(3) [OF b, of sid] that by auto
qed

lemma frame_refl: "frame X A A"
  by (simp add: frame_def)

lemma frame_mono: "frame X A A' \<Longrightarrow> X \<subseteq> Y \<Longrightarrow> frame Y A A'"
  unfolding frame_def by blast

lemma advances_frame: "advances M A A' \<Longrightarrow> frame X A A'"
  using advancesD(1,2,6) [of M A A'] unfolding frame_def by blast

lemma ok_frame:
  assumes "la_ok A" and "la_queue A' = la_queue A" "la_running A' = la_running A" "la_store A' = la_store A" "la_delegate A' = la_delegate A"
  shows "la_ok A'"
  by (rule la_same_ok [OF assms(1)]) (use assms la_okD(4,5) [OF assms(1)] in \<open>auto simp: la_same_def la_seq_def\<close>)

text \<open>Taking a sequence out of the queue and deleting it, after something was done with it.\<close>

lemma remove_delete:
  assumes ok: "la_ok A" and A1: "A1 = la_note ns ((la_without sid A)\<lparr>la_store := (la_store A)(sid := x), la_delegate := Some d\<rparr>)"
    and A2: "A2 = la_note ns' (A1\<lparr>la_store := (la_store A1)(sid := None)\<rparr>)"
  shows "la_ok A2" and "frame {sid} A A2" and "la_queue A2 = filter (\<lambda>q. q \<noteq> sid) (la_queue A)"
    and "\<And>q. q \<noteq> sid \<Longrightarrow> la_store A2 q = la_store A q" and "la_run A2 = la_run A - {sid}"
proof -
  have f: "la_queue A2 = la_queue (la_without sid A)" "la_running A2 = la_running (la_without sid A)"
    "la_store A2 = (la_store A)(sid := None)" "la_delegate A2 = Some d"
    using A1 A2 by (simp_all add: la_note_def)
  have "la_same (la_without sid A) A2"
    using la_okD(4) [OF without_ok [OF ok, of sid]] f by (auto simp: la_same_def la_seq_def without_fields [OF ok])
  then show "la_ok A2" by (rule la_same_ok [OF without_ok [OF ok]])
  show q: "la_queue A2 = filter (\<lambda>q. q \<noteq> sid) (la_queue A)" using f without_fields [OF ok] by simp
  show "la_store A2 q = la_store A q" if "q \<noteq> sid" for q using f that by simp
  show "la_run A2 = la_run A - {sid}" unfolding f by (rule without_fields(2) [OF ok])
  have "la_static A2 = la_static A" using A1 A2 by (simp add: la_note_def la_static_def la_without_def la_RemoveAnimation_def)
  then show "frame {sid} A A2" using q f by (auto simp: frame_def)
qed

section \<open>Loops over the queue\<close>

lemma Progress_delete:
  assumes ok: "la_ok A" and q: "sid \<in> set (la_queue A)" and s: "la_store A sid = Some s"
  shows "ensures (la_ProgressAnimation M sid (sq_duration s) (la_without sid A) \<bind> (\<lambda>(A2, _). la_delete sid A2))
    (\<lambda>A'. la_ok A' \<and> frame {} A A' \<and> la_queue A' = filter (\<lambda>q. q \<noteq> sid) (la_queue A) \<and> (\<forall>q. q \<noteq> sid \<longrightarrow> la_store A' q = la_store A q) \<and>
      la_run A' = la_run A - {sid})"
proof -
  have sok: "sq_ok s" using la_okD(4) [OF ok q] s by (auto simp: la_seq_def)
  obtain d where d: "la_delegate A = Some d" using la_okD(5) [OF ok] by blast
  have s1: "la_store (la_without sid A) sid = Some s" "la_delegate (la_without sid A) = Some d" using s d by (simp_all add: without_fields [OF ok])
  obtain s' d' r ns where p: "la_ProgressAnimation M sid (sq_duration s) (la_without sid A) = Some (progressed sid s' d' ns (la_without sid A), r)"
    by (rule Progress_ok [OF s1(1) sok s1(2), of M "sq_duration s"])
  let ?A1 = "la_note ns ((la_without sid A)\<lparr>la_store := (la_store A)(sid := Some s'), la_delegate := Some d'\<rparr>)"
  have A1: "progressed sid s' d' ns (la_without sid A) = ?A1" by (simp add: progressed_def la_put_def without_fields [OF ok])
  have "la_store ?A1 sid = Some s'" by (simp add: la_note_def)
  note del = delete_eq [OF this] and rd = remove_delete [OF ok refl refl, where sid = sid]
  have fr: "frame {} A A'" if "frame {sid} A A'" for A' using that q unfolding frame_def by blast
  show ?thesis unfolding p A1 using del rd fr by simp
qed

lemma remove_eq: "la_ok A \<Longrightarrow> sid \<in> set (la_queue A) \<Longrightarrow> la_RemoveAnimation sid A = (la_without sid A, True)"
  by (simp add: la_without_def la_RemoveAnimation_def)

text \<open>What the loops below keep: they only take sequences out of the queue.\<close>

definition prunes :: "('f, 'tr) layer_animator \<Rightarrow> ('f, 'tr) layer_animator \<Rightarrow> bool" where
  "prunes A A' \<longleftrightarrow> la_ok A' \<and> frame {} A A' \<and> set (la_queue A') \<subseteq> set (la_queue A) \<and> la_run A' \<subseteq> la_run A \<and>
     (\<forall>sid \<in> set (la_queue A'). la_props A' sid = la_props A sid)"

lemma prunes_refl: "la_ok A \<Longrightarrow> prunes A A"
  by (simp add: prunes_def frame_refl)

lemma prunes_trans: "prunes A B \<Longrightarrow> prunes B C \<Longrightarrow> prunes A C"
  unfolding prunes_def using frame_trans [of "{}" A B C] by (metis subsetD subset_trans)

lemma prunesD:
  assumes "prunes A A'"
  shows "la_ok A'" "frame {} A A'" "set (la_queue A') \<subseteq> set (la_queue A)" "la_run A' \<subseteq> la_run A"
    "\<And>sid. sid \<in> set (la_queue A') \<Longrightarrow> la_props A' sid = la_props A sid"
    "\<And>sid. sid \<notin> set (la_queue A) \<Longrightarrow> la_store A' sid = la_store A sid"
  using assms frameD(3) [of "{}" A A'] by (auto simp: prunes_def)

lemma deleted_prunes:
  assumes "la_ok A'" "frame {} A A'" "la_queue A' = filter (\<lambda>q. q \<noteq> sid) (la_queue A)" "\<forall>q. q \<noteq> sid \<longrightarrow> la_store A' q = la_store A q"
    "la_run A' = la_run A - {sid}"
  shows "prunes A A'"
  unfolding prunes_def using assms by (auto simp: la_props_def)

lemma delete_prunes:
  assumes ok: "la_ok A" and q: "sid \<in> set (la_queue A)"
  shows "ensures (la_delete sid (la_without sid A)) (\<lambda>A'. prunes A A' \<and> sid \<notin> set (la_queue A'))"
proof -
  obtain s where s: "la_store A sid = Some s" using la_okD(4) [OF ok q] by (auto simp: la_seq_def)
  obtain d where d: "la_delegate A = Some d" using la_okD(5) [OF ok] by blast
  let ?A1 = "la_note [] ((la_without sid A)\<lparr>la_store := (la_store A)(sid := Some s), la_delegate := Some d\<rparr>)"
  have "(la_store A)(sid := Some s) = la_store A" using s by auto
  then have "?A1 = la_without sid A" using without_fields(4,5) [OF ok, of sid] d by (simp add: la_note_def)
  then have A1: "la_without sid A = ?A1" by simp
  have "la_store ?A1 sid = Some s" by (simp add: la_note_def)
  note del = delete_eq [OF this] and rd = remove_delete [OF ok refl refl, where sid = sid and x = "Some s" and d = d and ns = "[]"]
  have fr: "frame {} A A'" if "frame {sid} A A'" for A' using that q unfolding frame_def by blast
  have "prunes A (la_note ns' (?A1\<lparr>la_store := (la_store ?A1)(sid := None)\<rparr>))" for ns'
    by (rule deleted_prunes [OF rd(1) fr [OF rd(2)] rd(3) _ rd(5)]) (use rd(4) in blast)
  moreover have "la_delete sid (la_without sid A) = la_delete sid ?A1" using A1 by (rule arg_cong)
  ultimately show ?thesis using del rd(3) by simp
qed

lemma Progress_prunes:
  assumes ok: "la_ok A" and q: "sid \<in> set (la_queue A)" and s: "la_store A sid = Some s"
  shows "ensures (la_ProgressAnimation M sid (sq_duration s) (la_without sid A) \<bind> (\<lambda>(A2, _). la_delete sid A2))
    (\<lambda>A'. prunes A A' \<and> sid \<notin> set (la_queue A'))"
  by (rule ensures_mono [OF Progress_delete [OF assms]]) (use deleted_prunes in auto)

lemma Abort_prunes:
  assumes ok: "la_ok A" and q: "sid \<in> set (la_queue A)"
  shows "ensures (la_Abort sid (la_without sid A) \<bind> la_delete sid) (\<lambda>A'. prunes A A' \<and> sid \<notin> set (la_queue A'))"
proof -
  obtain s where s: "la_store A sid = Some s" "sq_ok s" using la_okD(4) [OF ok q] by (auto simp: la_seq_def)
  obtain d where d: "la_delegate A = Some d" using la_okD(5) [OF ok] by blast
  obtain s' ns where ab: "sq_Abort sid s = Some (s', ns)" using s(2) by (auto simp: sq_Abort_def sq_ok_def Let_def)
  let ?A1 = "la_note ns ((la_without sid A)\<lparr>la_store := (la_store A)(sid := Some s'), la_delegate := Some d\<rparr>)"
  have A1: "la_Abort sid (la_without sid A) = Some ?A1"
    using ab s d without_fields(4,5) [OF ok, of sid] by (simp add: la_Abort_def la_put_def la_note_def)
  have "la_store ?A1 sid = Some s'" by (simp add: la_note_def)
  note del = delete_eq [OF this] and rd = remove_delete [OF ok refl refl, where sid = sid and x = "Some s'" and d = d and ns = ns]
  have fr: "frame {} A A'" if "frame {sid} A A'" for A' using that q unfolding frame_def by blast
  have "prunes A (la_note ns' (?A1\<lparr>la_store := (la_store ?A1)(sid := None)\<rparr>))" for ns'
    by (rule deleted_prunes [OF rd(1) fr [OF rd(2)] rd(3) _ rd(5)]) (use rd(4) in blast)
  then show ?thesis unfolding A1 using del rd(3) by simp
qed

text \<open>A loop whose body takes one sequence out of the queue or leaves it.\<close>

lemma ensures_prunes_trans:
  assumes "prunes A B" and "ensures c (\<lambda>A'. prunes B A' \<and> P A')"
  shows "ensures c (\<lambda>A'. prunes A A' \<and> P A')"
  by (rule ensures_mono [OF assms(2)]) (use prunes_trans [OF assms(1)] in blast)

lemma zero_duration_loop_ok:
  "la_ok A \<Longrightarrow> ensures (zero_duration_loop M rs A) (prunes A)"
proof (induction rs arbitrary: A)
  case Nil
  then show ?case by (simp add: prunes_refl)
next
  case (Cons r rs)
  obtain sid t where r: "r = (sid, t)" by (cases r)
  have rest: "ensures (zero_duration_loop M rs A1) (prunes A)" if "prunes A A1" for A1
    by (rule ensures_mono [OF Cons.IH [OF prunesD(1) [OF that]]]) (rule prunes_trans [OF that])
  show ?case
  proof (cases "la_HasAnimation sid A")
    case False
    then show ?thesis using rest [OF prunes_refl [OF Cons.prems]] r by simp
  next
    case True
    then have q: "sid \<in> set (la_queue A)" by (simp add: la_HasAnimation_def)
    then obtain s where s: "la_store A sid = Some s" "sq_ok s" using la_okD(4) [OF Cons.prems] by (auto simp: la_seq_def)
    obtain d where d: "la_delegate A = Some d" using la_okD(5) [OF Cons.prems] by blast
    show ?thesis
    proof (cases "sq_duration s = 0")
      case False
      then show ?thesis using rest [OF prunes_refl [OF Cons.prems]] r True s by simp
    next
      case zero: True
      obtain s' d' re ns where p: "la_ProgressAnimation M sid (sq_duration s) A = Some (progressed sid s' d' ns A, re)" "sq_sig s' = sq_sig s"
        by (rule Progress_ok [OF s d, of M "sq_duration s"])
      let ?P = "progressed sid s' d' ns A"
      have same: "la_same A ?P" using p(2) s(1) la_okD(4) [OF Cons.prems] by (auto simp: la_same_def la_seq_def)
      have okP: "la_ok ?P" using la_same_ok [OF Cons.prems same] .
      have AP: "prunes A ?P"
        unfolding prunes_def using okP q la_same_props [OF Cons.prems same] by (auto simp: frame_def)
      have "ensures (la_delete sid (la_without sid ?P)) (\<lambda>A'. prunes A A' \<and> sid \<notin> set (la_queue A'))"
        using q by (intro ensures_prunes_trans [OF AP] delete_prunes [OF okP]) simp
      then have "ensures (la_delete sid (la_without sid ?P) \<bind> zero_duration_loop M rs) (prunes A)"
        by (rule ensures_bind) (use rest in blast)
      moreover have "la_RemoveAnimation sid ?P = (la_without sid ?P, True)" using okP q by (intro remove_eq) simp_all
      ultimately show ?thesis using r True s p(1) zero by simp
    qed
  qed
qed

lemma remove_common_loop_ok:
  assumes "la_store A sequence = Some qs" and "sequence \<notin> set (la_queue A)" and "la_ok A"
  shows "ensures (remove_common_loop M abort sequence sids A)
    (\<lambda>A'. prunes A A' \<and> (\<forall>sid \<in> set (la_queue A') \<inter> set sids. la_props A sid \<inter> sq_properties qs = {}))"
  using assms
proof (induction sids arbitrary: A)
  case Nil
  then show ?case by (simp add: prunes_refl)
next
  case (Cons sid sids)
  have rest: "ensures (remove_common_loop M abort sequence sids A1)
      (\<lambda>A'. prunes A A' \<and> (\<forall>x \<in> set (la_queue A') \<inter> set (sid # sids). la_props A x \<inter> sq_properties qs = {}))"
    if A1: "prunes A A1" "sid \<in> set (la_queue A1) \<longrightarrow> la_props A sid \<inter> sq_properties qs = {}" for A1
  proof -
    have "la_store A1 sequence = Some qs" "sequence \<notin> set (la_queue A1)"
      using prunesD(3,6) [OF A1(1)] Cons.prems(1,2) by auto
    from Cons.IH [OF this prunesD(1) [OF A1(1)]] show ?thesis
    proof (rule ensures_mono)
      fix A'
      assume a: "prunes A1 A' \<and> (\<forall>x \<in> set (la_queue A') \<inter> set sids. la_props A1 x \<inter> sq_properties qs = {})"
      then have sub: "x \<in> set (la_queue A1)" if "x \<in> set (la_queue A')" for x using that prunesD(3) by blast
      have "la_props A x \<inter> sq_properties qs = {}" if x: "x \<in> set (la_queue A')" "x \<in> set (sid # sids)" for x
      proof (cases "x = sid")
        case False
        then have "la_props A1 x \<inter> sq_properties qs = {}" using a x by auto
        then show ?thesis using prunesD(5) [OF A1(1) sub [OF x(1)]] by simp
      qed (use A1(2) sub x in blast)
      then show "prunes A A' \<and> (\<forall>x \<in> set (la_queue A') \<inter> set (sid # sids). la_props A x \<inter> sq_properties qs = {})"
        using a prunes_trans [OF A1(1)] by blast
    qed
  qed
  show ?case
  proof (cases "la_HasAnimation sid A")
    case False
    then show ?thesis using rest [OF prunes_refl [OF Cons.prems(3)]] by (simp add: la_HasAnimation_def)
  next
    case True
    then have q: "sid \<in> set (la_queue A)" by (simp add: la_HasAnimation_def)
    then obtain s where s: "la_store A sid = Some s" using la_okD(4) [OF Cons.prems(3)] by (auto simp: la_seq_def)
    show ?thesis
    proof (cases "sq_properties s \<inter> sq_properties qs = {}")
      case disj: True
      then show ?thesis using rest [OF prunes_refl [OF Cons.prems(3)]] True s Cons.prems(1) la_props_Some [OF s]
        by (simp add: sq_HasCommonProperty_def)
    next
      case False
      let ?c = "(if abort then la_Abort sid (la_without sid A)
        else map_option fst (la_ProgressAnimation M sid (sq_duration s) (la_without sid A))) \<bind> la_delete sid"
      have "map_option fst c \<bind> f = c \<bind> (\<lambda>(a, _). f a)" for c :: "(('a, 'b) layer_animator \<times> bool) option" and f :: "('a, 'b) layer_animator \<Rightarrow> ('a, 'b) layer_animator option"
        by (cases c) auto
      then have "ensures ?c (\<lambda>A'. prunes A A' \<and> sid \<notin> set (la_queue A'))"
        using Abort_prunes [OF Cons.prems(3) q] Progress_prunes [OF Cons.prems(3) q s, of M] by (cases abort) simp_all
      then have "ensures (?c \<bind> remove_common_loop M abort sequence sids)
          (\<lambda>A'. prunes A A' \<and> (\<forall>x \<in> set (la_queue A') \<inter> set (sid # sids). la_props A x \<inter> sq_properties qs = {}))"
        by (rule ensures_bind) (use rest in blast)
      then show ?thesis using True s Cons.prems(1) False remove_eq [OF Cons.prems(3) q]
        by (simp add: sq_HasCommonProperty_def del: remove_common_loop.simps(1))
    qed
  qed
qed

lemma replace_loop_ok: "la_ok A \<Longrightarrow> ensures (replace_loop sids A) (prunes A)"
proof (induction sids arbitrary: A)
  case Nil
  then show ?case by (simp add: prunes_refl)
next
  case (Cons sid sids)
  have rest: "ensures (replace_loop sids A1) (prunes A)" if "prunes A A1" for A1
    by (rule ensures_mono [OF Cons.IH [OF prunesD(1) [OF that]]]) (rule prunes_trans [OF that])
  show ?case
  proof (cases "sid \<in> la_run A")
    case True
    then show ?thesis using rest [OF prunes_refl [OF Cons.prems]] by simp
  next
    case nr: False
    show ?thesis
    proof (cases "sid \<in> set (la_queue A)")
      case True
      have "ensures (la_delete sid (la_without sid A) \<bind> replace_loop sids) (prunes A)"
        by (rule ensures_bind [OF delete_prunes [OF Cons.prems True]]) (use rest in blast)
      then show ?thesis using nr True remove_eq [OF Cons.prems True] by simp
    next
      case False
      have "filter (\<lambda>q. q \<noteq> sid) (la_queue A) = la_queue A" "filter (\<lambda>r. fst r \<noteq> sid) (la_running A) = la_running A"
        using False nr by (auto intro!: filter_True)
      then have "la_RemoveAnimation sid A = (A, False)" using RemoveAnimation_eq [OF Cons.prems, of sid] False by simp
      then show ?thesis using rest [OF prunes_refl [OF Cons.prems]] nr by simp
    qed
  qed
qed

section \<open>Handing a sequence to the animator\<close>

text \<open>\<open>OnScheduled\<close> only adds observers to the sequence.\<close>

definition touched :: "nat \<Rightarrow> ('f, 'tr) layer_animator \<Rightarrow> ('f, 'tr) layer_animator \<Rightarrow> bool" where
  "touched sid A A' \<longleftrightarrow> la_queue A' = la_queue A \<and> la_running A' = la_running A \<and> la_delegate A' = la_delegate A \<and>
     la_static A' = la_static A \<and> la_is_started A' = la_is_started A \<and> (\<forall>q. q \<noteq> sid \<longrightarrow> la_store A' q = la_store A q) \<and>
     la_store A' sid \<noteq> None \<and> sq_sig (the (la_store A' sid)) = sq_sig (the (la_store A sid))"

lemma attach_loop_ok: "la_store A sid \<noteq> None \<Longrightarrow> ensures (attach_loop os sid A) (touched sid A)"
proof (induction os arbitrary: A)
  case Nil
  then show ?case by (simp add: touched_def)
next
  case (Cons obs os)
  then obtain s where s: "la_store A sid = Some s" by auto
  obtain s' ns where s': "sq_AddObserver sid obs s = (s', ns)" "sq_sig s' = sq_sig s"
    by (cases "obs \<in> set (sq_observers s)") (simp_all add: sq_AddObserver_def sq_sig_def)
  let ?A = "la_note ns (la_put sid s' A)"
  have t: "touched sid A ?A" using s s'(2) by (simp add: touched_def la_note_def la_put_def la_static_def)
  have "ensures (attach_loop os sid ?A) (touched sid ?A)" by (rule Cons.IH) (simp add: la_note_def la_put_def)
  then have "ensures (attach_loop os sid ?A) (touched sid A)" by (rule ensures_mono) (use t in \<open>simp add: touched_def\<close>)
  then show ?case using s s'(1) by simp
qed

lemma OnScheduled_ok: "la_store A sid \<noteq> None \<Longrightarrow> ensures (la_OnScheduled sid A) (touched sid A)"
  unfolding la_OnScheduled_def
  by (rule ensures_bind [OF attach_loop_ok], assumption) (auto simp: touched_def la_note_def la_static_def)

lemma touched_seq: "la_seq A sid \<Longrightarrow> touched sid A A' \<Longrightarrow> la_seq A' sid \<and> la_props A' sid = la_props A sid"
proof -
  assume "la_seq A sid" and t: "touched sid A A'"
  then obtain s s' where s: "la_store A sid = Some s" "sq_ok s" "la_store A' sid = Some s'" "sq_sig s' = sq_sig s"
    by (auto simp: la_seq_def touched_def)
  then show ?thesis using sq_sig_ok [of s' s] sig_props [of s' s] by (simp add: la_seq_def la_props_def)
qed

lemma touched_same:
  assumes "la_ok A" and "sid \<notin> set (la_queue A)" and "touched sid A A'"
  shows "la_same A A'" and "la_ok A'" and "frame {sid} A A'" and "keeps_settled A A'"
proof -
  have "q \<noteq> sid" if "q \<in> set (la_queue A)" for q using that assms(2) by auto
  moreover have "la_store A q \<noteq> None" if "q \<in> set (la_queue A)" for q using la_okD(4) [OF assms(1) that] by (auto simp: la_seq_def)
  ultimately show same: "la_same A A'" using assms(3) la_okD(5) [OF assms(1)] by (simp add: la_same_def touched_def)
  then show "la_ok A'" by (rule la_same_ok [OF assms(1)])
  show "frame {sid} A A'" using assms(3) by (auto simp: touched_def frame_def)
  show "keeps_settled A A'" using la_same_settled [OF assms(1) same] assms(3) by (simp add: touched_def)
qed

lemma append_ok:
  assumes "la_ok A" and "la_seq A sid" and "sid \<notin> set (la_queue A)"
  shows "la_ok (A\<lparr>la_queue := la_queue A @ [sid]\<rparr>)" and "frame {sid} A (A\<lparr>la_queue := la_queue A @ [sid]\<rparr>)"
proof -
  have "sid \<notin> la_run A" using la_okD(3) [OF assms(1)] assms(3) by blast
  moreover have "la_props (A\<lparr>la_queue := la_queue A @ [sid]\<rparr>) = la_props A" by (simp add: la_props_def fun_eq_iff)
  ultimately show "la_ok (A\<lparr>la_queue := la_queue A @ [sid]\<rparr>)"
    using assms by (auto simp: la_ok_def la_seq_def sorted_wrt_append)
qed (simp add: frame_def la_static_def)

text \<open>Handing over a sequence: it runs or waits, or it was dealt with at once.\<close>

definition accepts :: "nat \<Rightarrow> ('f, 'tr) layer_animator \<Rightarrow> ('f, 'tr) layer_animator \<Rightarrow> bool" where
  "accepts sid A A' \<longleftrightarrow> la_ok A' \<and> frame {sid} A A'"

lemma accepts_frame: "accepts sid A B \<Longrightarrow> la_ok C \<Longrightarrow> frame {sid} B C \<Longrightarrow> accepts sid A C"
  unfolding accepts_def using frame_trans by blast

lemma ProcessQueue_accepts:
  assumes "accepts sid A B"
  shows "ensures (la_ProcessQueue M B) (\<lambda>C. accepts sid A C \<and> idle C)"
proof -
  have "la_ok B" using assms by (simp add: accepts_def)
  from ProcessQueue_ok [OF this, of M] show ?thesis
    by (rule ensures_mono) (use accepts_frame [OF assms] advances_frame in blast)
qed

lemma prunes_accepts: "accepts sid A B \<Longrightarrow> prunes B C \<Longrightarrow> accepts sid A C"
  using accepts_frame prunesD(1,2) frame_mono by blast

lemma Start_ok:
  assumes ok: "la_ok A" and seq: "la_seq A sid" and add: "can_start sid (la_AddToQueueIfNotPresent sid A)"
  shows "ensures (la_StartSequenceImmediately M sid A) (\<lambda>(A', started). started \<and> accepts sid A A' \<and> (la_queue A = [] \<longrightarrow> idle A'))"
proof -
  obtain s where s: "la_store A sid = Some s" using seq by (auto simp: la_seq_def)
  let ?Q = "la_AddToQueueIfNotPresent sid A"
  have Q: "frame {sid} A ?Q" by (auto simp: frame_def la_AddToQueueIfNotPresent_def la_static_def)
  show ?thesis
    unfolding la_StartSequenceImmediately_def
    by (rule ensures_mono [OF start_with_ok [OF ok s add ProcessQueue_good [of M "la_work ?Q"]]])
      (use frame_trans [OF Q] advances_frame [of M ?Q] in \<open>auto simp: accepts_def\<close>)
qed

lemma Start_conflict:
  assumes ok: "la_ok A" and seq: "la_seq A sid" and "la_props A sid \<inter> run_props A \<noteq> {}"
  shows "la_StartSequenceImmediately M sid A = Some (A, False)"
proof -
  obtain s where s: "la_store A sid = Some s" using seq by (auto simp: la_seq_def)
  then show ?thesis
    using conflict_loop_eq [OF ok, of "sq_properties s"] assms(3) la_props_Some [OF s]
    by (simp add: la_StartSequenceImmediately_def start_with_def)
qed

lemma add_new: "sid \<notin> set (la_queue A) \<Longrightarrow> la_AddToQueueIfNotPresent sid A = A\<lparr>la_queue := sid # la_queue A\<rparr>"
  by (simp add: la_AddToQueueIfNotPresent_def)

section \<open>Preemption\<close>

lemma RemoveAll_ok:
  assumes "la_ok A" and "la_store A sid = Some qs" and "sid \<notin> set (la_queue A)"
  shows "ensures (la_RemoveAllAnimationsWithACommonProperty M sid abort A)
    (\<lambda>A'. prunes A A' \<and> (\<forall>x \<in> set (la_queue A'). la_props A' x \<inter> sq_properties qs = {}))"
  unfolding la_RemoveAllAnimationsWithACommonProperty_def
proof (rule ensures_bind [OF remove_common_loop_ok [OF assms(2,3,1)]])
  fix A1
  assume "prunes A A1 \<and> (\<forall>x \<in> set (la_queue A1) \<inter> set (map fst (la_running A)). la_props A x \<inter> sq_properties qs = {})"
  then have A1: "prunes A A1" by blast
  then have "la_store A1 sid = Some qs" "sid \<notin> set (la_queue A1)" using prunesD(3,6) [OF A1] assms(2,3) by auto
  from remove_common_loop_ok [OF this prunesD(1) [OF A1], of M abort "la_queue A1"]
  show "ensures (remove_common_loop M abort sid (la_queue A1) A1) (\<lambda>A'. prunes A A' \<and> (\<forall>x \<in> set (la_queue A'). la_props A' x \<inter> sq_properties qs = {}))"
  proof (rule ensures_mono)
    fix A'
    assume a: "prunes A1 A' \<and> (\<forall>x \<in> set (la_queue A') \<inter> set (la_queue A1). la_props A1 x \<inter> sq_properties qs = {})"
    then have "la_props A' x \<inter> sq_properties qs = {}" if "x \<in> set (la_queue A')" for x
      using that prunesD(3,5) [of A1 A'] by (metis IntI subsetD)
    then show "prunes A A' \<and> (\<forall>x \<in> set (la_queue A'). la_props A' x \<inter> sq_properties qs = {})"
      using a prunes_trans [OF A1] by blast
  qed
qed

lemma remove_absent:
  assumes "la_ok A" and "sid \<notin> set (la_queue A)"
  shows "la_RemoveAnimation sid A = (A, False)"
proof -
  have "filter (\<lambda>q. q \<noteq> sid) (la_queue A) = la_queue A" "filter (\<lambda>r. fst r \<noteq> sid) (la_running A) = la_running A"
    using assms(2) la_okD(3) [OF assms(1)] by (auto intro!: filter_True)
  then show ?thesis using RemoveAnimation_eq [OF assms(1), of sid] assms(2) by simp
qed

lemma SetNewTarget_ok:
  assumes ok: "la_ok A" and seq: "la_seq A sid" and nq: "sid \<notin> set (la_queue A)"
  shows "ensures (la_ImmediatelySetNewTarget M sid A) (accepts sid A)"
proof -
  obtain s where s: "la_store A sid = Some s" "sq_ok s" using seq by (auto simp: la_seq_def)
  show ?thesis
    unfolding la_ImmediatelySetNewTarget_def
  proof (rule ensures_bind [OF RemoveAll_ok [OF ok s(1) nq]])
    fix A1
    assume "prunes A A1 \<and> (\<forall>x \<in> set (la_queue A1). la_props A1 x \<inter> sq_properties s = {})"
    then have A1: "prunes A A1" by blast
    note ok1 = prunesD(1) [OF A1]
    have s1: "la_store A1 sid = Some s" and nq1: "sid \<notin> set (la_queue A1)" using prunesD(3,6) [OF A1] s(1) nq by auto
    obtain d where d: "la_delegate A1 = Some d" using la_okD(5) [OF ok1] by blast
    obtain s' d' r ns where p: "la_ProgressAnimation M sid (sq_duration s) A1 = Some (progressed sid s' d' ns A1, r)"
      by (rule Progress_ok [OF s1 s(2) d, of M "sq_duration s"])
    let ?A2 = "progressed sid s' d' ns A1"
    let ?A3 = "la_note (sq_destroy sid s') (?A2\<lparr>la_store := (la_store ?A2)(sid := None)\<rparr>)"
    have del: "la_delete sid ?A2 = Some ?A3" by (rule delete_eq) simp
    have ne: "q \<noteq> sid" if "q \<in> set (la_queue A1)" for q using that nq1 by auto
    have "la_same A1 ?A3" using la_okD(4) [OF ok1] ne by (auto simp: la_same_def la_note_def la_seq_def)
    then have "la_ok ?A3" by (rule la_same_ok [OF ok1])
    moreover have "frame {sid} A1 ?A3" by (auto simp: frame_def la_note_def la_static_def progressed_def la_put_def)
    then have "frame {sid} A ?A3" using frame_trans frame_mono [OF prunesD(2) [OF A1]] by blast
    ultimately show "ensures (let (A2, _) = la_RemoveAnimation sid A1 in
        la_store A2 sid \<bind> (\<lambda>s. la_ProgressAnimation M sid (sq_duration s) A2 \<bind> (\<lambda>(A3, _). la_delete sid A3))) (accepts sid A)"
      using remove_absent [OF ok1 nq1] s1 p del by (simp add: accepts_def)
  qed
qed

lemma AnimateToNewTarget_ok:
  assumes ok: "la_ok A" and seq: "la_seq A sid" and nq: "sid \<notin> set (la_queue A)"
  shows "ensures (la_ImmediatelyAnimateToNewTarget M sid A) (accepts sid A)"
proof -
  obtain s where s: "la_store A sid = Some s" "sq_ok s" using seq by (auto simp: la_seq_def)
  show ?thesis
    unfolding la_ImmediatelyAnimateToNewTarget_def
  proof (rule ensures_bind [OF RemoveAll_ok [OF ok s(1) nq]])
    fix A1
    assume a: "prunes A A1 \<and> (\<forall>x \<in> set (la_queue A1). la_props A1 x \<inter> sq_properties s = {})"
    then have A1: "prunes A A1" by blast
    note ok1 = prunesD(1) [OF A1]
    have s1: "la_store A1 sid = Some s" and nq1: "sid \<notin> set (la_queue A1)" using prunesD(3,6) [OF A1] s(1) nq by auto
    have seq1: "la_seq A1 sid" using s1 s(2) by (simp add: la_seq_def)
    have "la_props A1 x \<inter> sq_properties s = {}" if "x \<in> la_run A1" for x using a la_okD(3) [OF ok1] that by blast
    then have "la_props A1 sid \<inter> run_props A1 = {}" using la_props_Some [OF s1] unfolding run_props_def by blast
    note can = can_startI [OF ok1 nq1 seq1 this]
    let ?B = "la_AddToQueueIfNotPresent sid A1"
    have B: "?B = A1\<lparr>la_queue := sid # la_queue A1\<rparr>" using nq1 by (rule add_new)
    have okB: "la_ok ?B" using can B by (simp add: can_start_def)
    moreover have seqB: "la_seq ?B sid" using seq1 B by (simp add: la_seq_def)
    moreover have BB: "la_AddToQueueIfNotPresent sid ?B = ?B" using B by (simp add: la_AddToQueueIfNotPresent_def)
    ultimately have "ensures (la_StartSequenceImmediately M sid ?B) (\<lambda>(A', started). started \<and> accepts sid ?B A' \<and> (la_queue ?B = [] \<longrightarrow> idle A'))"
      using can B by (intro Start_ok) simp_all
    moreover have "frame {sid} A1 ?B" using B by (auto simp: frame_def la_static_def)
    then have "frame {sid} A ?B" using frame_trans frame_mono [OF prunesD(2) [OF A1]] by blast
    ultimately show "ensures (map_option fst (la_StartSequenceImmediately M sid ?B)) (accepts sid A)"
      unfolding ensures_map by (elim ensures_mono) (auto simp: accepts_def intro: frame_trans)
  qed
qed

lemma Enqueue_ok:
  assumes "la_ok A" and "la_seq A sid" and "sid \<notin> set (la_queue A)"
  shows "ensures (la_EnqueueNewAnimation M sid A) (\<lambda>A'. accepts sid A A' \<and> idle A')"
  unfolding la_EnqueueNewAnimation_def using append_ok [OF assms] by (intro ProcessQueue_accepts) (simp add: accepts_def)

lemma Replace_ok:
  assumes "la_ok A" and seq: "la_seq A sid" and "sid \<notin> set (la_queue A)"
  shows "ensures (la_ReplaceQueuedAnimations M sid A) (\<lambda>A'. accepts sid A A' \<and> idle A')"
  unfolding la_ReplaceQueuedAnimations_def
proof (rule ensures_bind [OF replace_loop_ok [OF assms(1)]])
  fix A1
  assume A1: "prunes A A1"
  then have "la_seq A1 sid" "sid \<notin> set (la_queue A1)" using prunesD(3,6) [OF A1] seq assms(3) by (auto simp: la_seq_def)
  note app = append_ok [OF prunesD(1) [OF A1] this]
  have "frame {sid} A (A1\<lparr>la_queue := la_queue A1 @ [sid]\<rparr>)"
    using frame_trans [OF frame_mono [OF prunesD(2) [OF A1]] app(2)] by blast
  then show "ensures (la_ProcessQueue M (A1\<lparr>la_queue := la_queue A1 @ [sid]\<rparr>)) (\<lambda>A'. accepts sid A A' \<and> idle A')"
    using app(1) by (intro ProcessQueue_accepts) (simp add: accepts_def)
qed

section \<open>Starting and scheduling\<close>

lemma update_ok: "la_ok A \<Longrightarrow> la_ok (la_UpdateAnimationState A)"
  by (erule ok_frame) simp_all

lemma update_idle: "la_ok A \<Longrightarrow> idle (la_UpdateAnimationState A) = idle A"
  by (rule la_same_idle, assumption, rule la_same_frame(1)) (use la_okD(5) [of A] in auto)

lemma update_accepts: "accepts sid A B \<Longrightarrow> accepts sid A (la_UpdateAnimationState B)"
  by (rule accepts_frame, assumption) (auto simp: accepts_def update_ok frame_def)

lemma update_done:
  "accepts sid A B \<Longrightarrow> idle B \<Longrightarrow>
   accepts sid A (la_UpdateAnimationState B) \<and> idle (la_UpdateAnimationState B) \<and> timer_ok (la_UpdateAnimationState B)"
  using update_accepts [of sid A B] update_idle [of B] by (simp add: accepts_def)

lemma FinishAny_ok:
  assumes "accepts sid A B"
  shows "ensures (la_FinishAnyAnimationWithZeroDuration M B) (\<lambda>C. accepts sid A C \<and> idle C)"
  unfolding la_FinishAnyAnimationWithZeroDuration_def
proof (rule ensures_bind [OF zero_duration_loop_ok])
  show "la_ok B" using assms by (simp add: accepts_def)
  fix C
  assume "prunes B C"
  then have "accepts sid A C" by (rule prunes_accepts [OF assms])
  then show "ensures (la_ProcessQueue M C \<bind> (\<lambda>D. Some (la_UpdateAnimationState D))) (\<lambda>C. accepts sid A C \<and> idle C)"
    by (rule ensures_bind [OF ProcessQueue_accepts]) (use update_done [of sid A] in simp)
qed

lemma StartAnimation_ok:
  assumes ok: "la_ok A" and seq: "la_seq A sid" and nq: "sid \<notin> set (la_queue A)"
  shows "ensures (la_StartAnimation M sid A) (\<lambda>A'. accepts sid A A' \<and> idle A' \<and> timer_ok A')"
proof -
  have "la_store A sid \<noteq> None" using seq by (auto simp: la_seq_def)
  from OnScheduled_ok [OF this] obtain A1 where A1: "la_OnScheduled sid A = Some A1" "touched sid A A1"
    by (auto simp: ensures_def split: option.splits)
  note t = touched_same [OF ok nq A1(2)] and s1 = touched_seq [OF seq A1(2)]
  have nq1: "sid \<notin> set (la_queue A1)" using A1(2) nq by (simp add: touched_def)
  have acc: "accepts sid A B" if "accepts sid A1 B" for B using that frame_trans [OF t(3)] by (auto simp: accepts_def)
  have fin: "ensures (la_FinishAnyAnimationWithZeroDuration M A3 \<bind> (\<lambda>A4. Some (la_UpdateAnimationState A4)))
      (\<lambda>A'. accepts sid A A' \<and> idle A' \<and> timer_ok A')" if "accepts sid A1 A3" for A3
    by (rule ensures_bind [OF FinishAny_ok [OF acc [OF that]]]) (use update_done [of sid A] in simp)
  show ?thesis
  proof (cases "la_props A1 sid \<inter> run_props A1 = {}")
    case True
    have "ensures (la_StartSequenceImmediately M sid A1) (\<lambda>(A', started). started \<and> accepts sid A1 A' \<and> (la_queue A1 = [] \<longrightarrow> idle A'))"
      using can_startI [OF t(2) nq1 _ True] s1 add_new [OF nq1] t(2) by (intro Start_ok) simp_all
    then obtain A2 where A2: "la_StartSequenceImmediately M sid A1 = Some (A2, True)" "accepts sid A1 A2"
      by (auto simp: ensures_def split: option.splits)
    then show ?thesis using A1(1) fin [OF A2(2)] by (simp add: la_StartAnimation_def)
  next
    case False
    note start = Start_conflict [OF t(2) conjunct1 [OF s1] False, of M]
    let ?c = "case la_preemption_strategy A1 of
        IMMEDIATELY_SET_NEW_TARGET \<Rightarrow> la_ImmediatelySetNewTarget M sid A1
      | IMMEDIATELY_ANIMATE_TO_NEW_TARGET \<Rightarrow> la_ImmediatelyAnimateToNewTarget M sid A1
      | ENQUEUE_NEW_ANIMATION \<Rightarrow> la_EnqueueNewAnimation M sid A1
      | REPLACE_QUEUED_ANIMATIONS \<Rightarrow> la_ReplaceQueuedAnimations M sid A1
      | BLEND_WITH_CURRENT_ANIMATION \<Rightarrow> Some A1"
    have "ensures ?c (accepts sid A1)"
      using SetNewTarget_ok [OF t(2) conjunct1 [OF s1] nq1, of M] AnimateToNewTarget_ok [OF t(2) conjunct1 [OF s1] nq1, of M]
        ensures_mono [OF Enqueue_ok [OF t(2) conjunct1 [OF s1] nq1, of M], of "accepts sid A1"]
        ensures_mono [OF Replace_ok [OF t(2) conjunct1 [OF s1] nq1, of M], of "accepts sid A1"] t(2)
      by (cases "la_preemption_strategy A1") (simp_all add: accepts_def frame_refl)
    then have "ensures (?c \<bind> (\<lambda>A3. la_FinishAnyAnimationWithZeroDuration M A3 \<bind> (\<lambda>A4. Some (la_UpdateAnimationState A4))))
        (\<lambda>A'. accepts sid A A' \<and> idle A' \<and> timer_ok A')"
      by (rule ensures_bind) (rule fin)
    then show ?thesis using A1(1) start by (simp add: la_StartAnimation_def)
  qed
qed

lemma ScheduleAnimation_ok:
  assumes ok: "la_ok A" and seq: "la_seq A sid" and nq: "sid \<notin> set (la_queue A)"
  shows "ensures (la_ScheduleAnimation M sid A) (\<lambda>A'. accepts sid A A' \<and> idle A' \<and> timer_ok A')"
proof -
  have "la_store A sid \<noteq> None" using seq by (auto simp: la_seq_def)
  from OnScheduled_ok [OF this] obtain A1 where A1: "la_OnScheduled sid A = Some A1" "touched sid A A1"
    by (auto simp: ensures_def split: option.splits)
  note t = touched_same [OF ok nq A1(2)] and s1 = touched_seq [OF seq A1(2)]
  have nq1: "sid \<notin> set (la_queue A1)" using A1(2) nq by (simp add: touched_def)
  have acc: "accepts sid A B" if "accepts sid A1 B" for B using that frame_trans [OF t(3)] by (auto simp: accepts_def)
  have "ensures (if la_is_animating A1 then la_ProcessQueue M (A1\<lparr>la_queue := la_queue A1 @ [sid]\<rparr>)
      else map_option fst (la_StartSequenceImmediately M sid A1)) (\<lambda>A'. accepts sid A1 A' \<and> idle A')"
  proof (cases "la_is_animating A1")
    case True
    then show ?thesis using Enqueue_ok [OF t(2) conjunct1 [OF s1] nq1, of M] by (simp add: la_EnqueueNewAnimation_def)
  next
    case False
    then have q: "la_queue A1 = []" by (simp add: la_is_animating_def)
    then have "run_props A1 = {}" using la_okD(3) [OF t(2)] by (simp add: run_props_def)
    then have "ensures (la_StartSequenceImmediately M sid A1) (\<lambda>(A', started). started \<and> accepts sid A1 A' \<and> (la_queue A1 = [] \<longrightarrow> idle A'))"
      using can_startI [OF t(2) nq1 conjunct1 [OF s1]] s1 add_new [OF nq1] t(2) by (intro Start_ok) simp_all
    then show ?thesis using False q unfolding la_is_animating_def by simp (erule ensures_mono, auto)
  qed
  then show ?thesis
    unfolding la_ScheduleAnimation_def A1(1) bind.bind_lunit
    by (rule ensures_bind) (use update_done [OF acc] in simp)
qed

end
