(* ===== verification/Layer_Guarantees.thy ===== *)
theory Layer_Guarantees
  imports Layer_Operations
begin

text \<open>
  What the animator guarantees to its layer, over all sequences of calls. The calls are those of
  \<open>Layer\<close> and of the clients of the animator; the timer calls \<open>Step\<close> with an arbitrary time. A client must
  not hand over a sequence that animates nothing, has a negative duration, or is cyclic without duration.
\<close>

section \<open>Stopping\<close>

lemma finish_shorter:
  assumes "la_ok A" and "sid \<in> la_run A" and "la_ok A'" and "advances M A A'" and "sid \<notin> set (la_queue A')"
  shows "length (la_queue A') < length (la_queue A)"
proof -
  have "sid \<in> set (la_queue A)" using la_okD(3) [OF assms(1)] assms(2) by blast
  then have "set (la_queue A') \<subset> set (la_queue A)" using advancesD(1) [OF assms(4)] assms(5) by blast
  then have "card (set (la_queue A')) < card (set (la_queue A))" by (intro psubset_card_mono) simp_all
  then show ?thesis using distinct_card [OF la_okD(1) [OF assms(1)]] distinct_card [OF la_okD(1) [OF assms(3)]] by simp
qed

definition settled :: "('f, 'tr) layer_animator \<Rightarrow> bool" where
  "settled A \<longleftrightarrow> la_ok A \<and> idle A \<and> timer_ok A"

lemma Finish_settled:
  assumes "la_ok A" and "sid \<in> la_run A"
  obtains A' where "la_FinishAnimation (la_ProcessQueue M) M sid A = Some A'" "settled A'" "advances M A A'"
    "length (la_queue A') < length (la_queue A)"
proof -
  from Finish_ok [OF assms ProcessQueue_good order_refl] obtain A' where
    "la_FinishAnimation (la_ProcessQueue M) M sid A = Some A'" "la_ok A' \<and> advances M A A' \<and> idle A' \<and> timer_ok A' \<and> sid \<notin> set (la_queue A')"
    by (rule ensuresE)
  then show thesis using that finish_shorter [OF assms, of A' M] by (simp add: settled_def)
qed

lemma StopAnimating_ok:
  "settled A \<Longrightarrow> ensures (la_StopAnimating M A) (\<lambda>A'. settled A' \<and> advances M A A' \<and> la_queue A' = [])"
proof (induction "length (la_queue A)" arbitrary: A rule: less_induct)
  case less
  show ?case
  proof (cases "la_queue A = []")
    case True
    then show ?thesis using less.prems by (subst la_StopAnimating.simps) (simp add: la_is_animating_def advances_refl)
  next
    case False
    then obtain sid t rs where r: "la_running A = (sid, t) # rs"
      using idle_running [of A] less.prems by (cases "la_running A") (auto simp: settled_def)
    then obtain A1 where A1: "la_FinishAnimation (la_ProcessQueue M) M sid A = Some A1" "settled A1" "advances M A A1"
      "length (la_queue A1) < length (la_queue A)"
      using Finish_settled [of A sid M] less.prems by (auto simp: settled_def)
    have "ensures (la_StopAnimating M A1) (\<lambda>A'. settled A' \<and> advances M A A' \<and> la_queue A' = [])"
      by (rule ensures_mono [OF less.hyps [OF A1(4,2)]]) (use advances_trans [OF A1(3)] in blast)
    then show ?thesis using False r A1(1) by (subst la_StopAnimating.simps) (simp add: la_is_animating_def)
  qed
qed

lemma running_loop_eq:
  assumes ok: "la_ok A"
  obtains "la_GetRunningAnimation p A = Some None" "\<forall>sid \<in> la_run A. p \<notin> la_props A sid"
  | sid where "la_GetRunningAnimation p A = Some (Some sid)" "sid \<in> la_run A"
proof -
  have "running_loop p rs A = Some None \<and> (\<forall>sid \<in> fst ` set rs. p \<notin> la_props A sid) \<or>
      (\<exists>sid \<in> fst ` set rs. running_loop p rs A = Some (Some sid))" if "fst ` set rs \<subseteq> set (la_queue A)" for rs
    using that
  proof (induction rs)
    case (Cons r rs)
    then obtain s where s: "la_store A (fst r) = Some s" using la_okD(4) [OF ok, of "fst r"] by (auto simp: la_seq_def)
    have "running_loop p (r # rs) A = (if p \<in> sq_properties s then Some (Some (fst r)) else running_loop p rs A)"
      using s by (cases r) simp
    then show ?case using Cons la_props_Some [OF s] by (cases "p \<in> sq_properties s") auto
  qed simp
  then show thesis using that la_okD(3) [OF ok] unfolding la_GetRunningAnimation_def by blast
qed

lemma StopAnimatingProperty_ok:
  "settled A \<Longrightarrow> ensures (la_StopAnimatingProperty M p A) (\<lambda>A'. settled A' \<and> advances M A A' \<and> (\<forall>sid \<in> la_run A'. p \<notin> la_props A' sid))"
proof (induction "length (la_queue A)" arbitrary: A rule: less_induct)
  case less
  then have ok: "la_ok A" by (simp add: settled_def)
  then show ?case
  proof (cases rule: running_loop_eq [where p = p])
    case 1
    then show ?thesis using less.prems by (subst la_StopAnimatingProperty.simps) (simp add: advances_refl)
  next
    case (2 sid)
    obtain A1 where A1: "la_FinishAnimation (la_ProcessQueue M) M sid A = Some A1" "settled A1" "advances M A A1"
      "length (la_queue A1) < length (la_queue A)"
      by (rule Finish_settled [OF ok 2(2), of M])
    have "ensures (la_StopAnimatingProperty M p A1) (\<lambda>A'. settled A' \<and> advances M A A' \<and> (\<forall>sid \<in> la_run A'. p \<notin> la_props A' sid))"
      by (rule ensures_mono [OF less.hyps [OF A1(4,2)]]) (use advances_trans [OF A1(3)] in blast)
    then show ?thesis using 2 A1(1) by (subst la_StopAnimatingProperty.simps) simp
  qed
qed

section \<open>Clearing\<close>

lemma clear_loop_ok: "la_ok A \<Longrightarrow> ensures (clear_loop rs A) (prunes A)"
proof (induction rs arbitrary: A)
  case Nil
  then show ?case by (simp add: prunes_refl)
next
  case (Cons r rs)
  obtain sid t where r: "r = (sid, t)" by (cases r)
  have rest: "ensures (clear_loop rs A1) (prunes A)" if "prunes A A1" for A1
    by (rule ensures_mono [OF Cons.IH [OF prunesD(1) [OF that]]]) (rule prunes_trans [OF that])
  show ?case
  proof (cases "sid \<in> set (la_queue A)")
    case False
    then show ?thesis using rest [OF prunes_refl [OF Cons.prems]] r by (simp add: la_HasAnimation_def)
  next
    case True
    have "ensures ((la_Abort sid (la_without sid A) \<bind> la_delete sid) \<bind> clear_loop rs) (prunes A)"
      by (rule ensures_bind [OF Abort_prunes [OF Cons.prems True]]) (use rest in blast)
    then show ?thesis using r True remove_eq [OF Cons.prems True] by (simp add: la_HasAnimation_def)
  qed
qed

lemma delete_all_ok:
  "distinct sids \<Longrightarrow> (\<And>sid. sid \<in> set sids \<Longrightarrow> la_store A sid \<noteq> None) \<Longrightarrow>
   ensures (delete_all sids A) (\<lambda>A'. la_delegate A' = la_delegate A \<and> la_static A' = la_static A \<and> la_running A' = la_running A \<and>
     (\<forall>sid. la_store A' sid = (if sid \<in> set sids then None else la_store A sid)))"
proof (induction sids arbitrary: A)
  case (Cons sid sids)
  then obtain s where s: "la_store A sid = Some s" by fastforce
  let ?A = "la_note (sq_destroy sid s) (A\<lparr>la_store := (la_store A)(sid := None)\<rparr>)"
  have "la_store ?A q \<noteq> None" if "q \<in> set sids" for q using Cons.prems that by (auto simp: la_note_def)
  then have "ensures (delete_all sids ?A) (\<lambda>A'. la_delegate A' = la_delegate ?A \<and> la_static A' = la_static ?A \<and> la_running A' = la_running ?A \<and>
     (\<forall>sid. la_store A' sid = (if sid \<in> set sids then None else la_store ?A sid)))"
    using Cons.prems(1) by (intro Cons.IH) simp_all
  then have "ensures (delete_all sids ?A) (\<lambda>A'. la_delegate A' = la_delegate A \<and> la_static A' = la_static A \<and> la_running A' = la_running A \<and>
     (\<forall>q. la_store A' q = (if q \<in> set (sid # sids) then None else la_store A q)))"
    by (rule ensures_mono) (simp add: la_note_def la_static_def)
  then show ?case using delete_eq [OF s] by simp
qed simp

lemma empty_settled: "la_queue A = [] \<Longrightarrow> la_running A = [] \<Longrightarrow> la_delegate A \<noteq> None \<Longrightarrow> timer_ok A \<Longrightarrow> settled A"
  by (simp add: settled_def la_ok_def idle_def run_props_def)

lemma ClearAnimations_ok:
  assumes ok: "la_ok A"
  shows "ensures (la_ClearAnimations A) (\<lambda>A'. settled A' \<and> la_queue A' = [] \<and> frame {} A A')"
  unfolding la_ClearAnimations_def
proof (rule ensures_bind [OF clear_loop_ok [OF ok]])
  fix A1
  assume A1: "prunes A A1"
  let ?B = "A1\<lparr>la_running := []\<rparr>"
  have ex: "la_store ?B sid \<noteq> None" if "sid \<in> set (la_queue A1)" for sid
    using la_okD(4) [OF prunesD(1) [OF A1] that] by (auto simp: la_seq_def)
  show "ensures (delete_all (la_queue A1) ?B \<bind> (\<lambda>A2. Some (la_UpdateAnimationState (A2\<lparr>la_queue := []\<rparr>))))
      (\<lambda>A'. settled A' \<and> la_queue A' = [] \<and> frame {} A A')"
  proof (rule ensures_bind [OF delete_all_ok [OF la_okD(1) [OF prunesD(1) [OF A1]] ex]])
    fix A2
    assume A2: "la_delegate A2 = la_delegate ?B \<and> la_static A2 = la_static ?B \<and> la_running A2 = la_running ?B \<and>
      (\<forall>sid. la_store A2 sid = (if sid \<in> set (la_queue A1) then None else la_store ?B sid))"
    let ?C = "la_UpdateAnimationState (A2\<lparr>la_queue := []\<rparr>)"
    have "settled ?C" using A2 la_okD(5) [OF prunesD(1) [OF A1]] by (intro empty_settled) auto
    moreover have "la_static (A2\<lparr>la_queue := []\<rparr>) = la_static A" using A2 frameD(1) [OF prunesD(2) [OF A1]] by (simp add: la_static_def)
    then have "frame {} A ?C" using A2 prunesD(3,6) [OF A1] unfolding frame_def by auto
    ultimately show "ensures (Some ?C) (\<lambda>A'. settled A' \<and> la_queue A' = [] \<and> frame {} A A')" by simp
  qed
qed

section \<open>Calls\<close>

datatype ('f, 'tr) la_call =
  Call_Start "('f, 'tr) layer_sequence"
| Call_Schedule "('f, 'tr) layer_sequence"
| Call_Together "('f, 'tr) layer_sequence list"
| Call_SetTransform 'tr
| Call_SetBounds rect
| Call_SetOpacity 'f
| Call_SetVisibility bool
| Call_Step int
| Call_StopProperty AnimatableProperty
| Call_Stop
| Call_Clear
| Call_SetStrategy PreemptionStrategy
| Call_SetTween tween_type
| Call_AddObserver nat
| Call_RemoveObserver nat

text \<open>\<open>new\<close> of several sequences; their addresses are the next ones.\<close>

definition la_new_all :: "('f, 'tr) layer_sequence list \<Rightarrow> ('f, 'tr) layer_animator \<Rightarrow> ('f, 'tr) layer_animator" where
  "la_new_all ss A = fold la_new ss A"

fun la_exec :: "('f, 'tr) tween_ops \<Rightarrow> animation_switches \<Rightarrow> ('f, 'tr) la_call \<Rightarrow> ('f, 'tr) layer_animator \<Rightarrow> ('f, 'tr) layer_animator option" where
  "la_exec M W (Call_Start s) A = la_StartAnimation M (la_next A) (la_new s A)"
| "la_exec M W (Call_Schedule s) A = la_ScheduleAnimation M (la_next A) (la_new s A)"
| "la_exec M W (Call_Together ss) A = la_ScheduleTogether M W [la_next A ..< la_next A + length ss] (la_new_all ss A)"
| "la_exec M W (Call_SetTransform t) A = la_SetTransform M W t A"
| "la_exec M W (Call_SetBounds r) A = la_SetBounds M W r A"
| "la_exec M W (Call_SetOpacity v) A = la_SetOpacity M W v A"
| "la_exec M W (Call_SetVisibility v) A = la_SetVisibility M W v A"
| "la_exec M W (Call_Step now) A = la_Step M now A"
| "la_exec M W (Call_StopProperty p) A = la_StopAnimatingProperty M p A"
| "la_exec M W Call_Stop A = la_StopAnimating M A"
| "la_exec M W Call_Clear A = la_ClearAnimations A"
| "la_exec M W (Call_SetStrategy p) A = Some (A\<lparr>la_preemption_strategy := p\<rparr>)"
| "la_exec M W (Call_SetTween t) A = Some (A\<lparr>la_tween_type := t\<rparr>)"
| "la_exec M W (Call_AddObserver obs) A = Some (la_AddObserver obs A)"
| "la_exec M W (Call_RemoveObserver obs) A = la_RemoveObserver obs A"

fun la_run_calls :: "('f, 'tr) tween_ops \<Rightarrow> animation_switches \<Rightarrow> ('f, 'tr) la_call list \<Rightarrow> ('f, 'tr) layer_animator \<Rightarrow> ('f, 'tr) layer_animator option" where
  "la_run_calls M W [] A = Some A"
| "la_run_calls M W (c # cs) A = Option.bind (la_exec M W c A) (la_run_calls M W cs)"

fun call_ok :: "('f, 'tr) la_call \<Rightarrow> bool" where
  "call_ok (Call_Start s) = sq_ok s"
| "call_ok (Call_Schedule s) = sq_ok s"
| "call_ok (Call_Together ss) = (ss \<noteq> [] \<and> list_all sq_ok ss)"
| "call_ok _ = True"

definition la_fresh :: "('f, 'tr) layer_animator \<Rightarrow> bool" where
  "la_fresh A \<longleftrightarrow> (\<forall>sid \<ge> la_next A. la_store A sid = None)"

definition la_inv :: "('f, 'tr) layer_animator \<Rightarrow> bool" where
  "la_inv A \<longleftrightarrow> settled A \<and> la_fresh A \<and> 0 \<le> la_transition_duration A \<and> \<not> la_disable_timer_for_test A"

lemma queue_below: "la_ok A \<Longrightarrow> la_fresh A \<Longrightarrow> sid \<in> set (la_queue A) \<Longrightarrow> sid < la_next A"
  using la_okD(4) [of A sid] by (auto simp: la_fresh_def la_seq_def intro: ccontr)

lemma frame_fresh:
  assumes "la_ok A" and "la_fresh A" and "frame X A A'" and "\<And>x. x \<in> X \<Longrightarrow> x < la_next A"
  shows "la_fresh A'"
  unfolding la_fresh_def
proof (intro allI impI)
  fix sid
  assume "la_next A' \<le> sid"
  then have n: "la_next A \<le> sid" using frameD(1) [OF assms(3)] by (simp add: la_static_def)
  then have "sid \<notin> set (la_queue A)" "sid \<notin> X" using queue_below [OF assms(1,2), of sid] assms(4) [of sid] by auto
  then show "la_store A' sid = None" using frameD(3) [OF assms(3)] assms(2) n by (simp add: la_fresh_def)
qed

lemma frame_inv:
  assumes "la_inv A" and "settled A'" and "frame X A A'" and "\<And>x. x \<in> X \<Longrightarrow> x < la_next A"
  shows "la_inv A'"
  using assms frame_fresh [of A X A'] frameD(1) [OF assms(3)] by (auto simp: la_inv_def settled_def la_static_def)

text \<open>The animator just before the sequence at the next address is handed over.\<close>

lemma new_ok:
  assumes "la_inv A" and "sq_ok s"
  shows "la_ok (la_new s A)" "la_seq (la_new s A) (la_next A)" "la_next A \<notin> set (la_queue (la_new s A))"
    "la_fresh (la_new s A)" "la_next (la_new s A) = Suc (la_next A)"
    "0 \<le> la_transition_duration (la_new s A) \<and> \<not> la_disable_timer_for_test (la_new s A)"
proof -
  have ok: "la_ok A" and fr: "la_fresh A" using assms(1) by (simp_all add: la_inv_def settled_def)
  have ne: "q \<noteq> la_next A" if "q \<in> set (la_queue A)" for q using queue_below [OF ok fr that] by simp
  have "la_same A (la_new s A)" using la_okD(4,5) [OF ok] ne by (auto simp: la_same_def la_new_def la_seq_def)
  then show "la_ok (la_new s A)" by (rule la_same_ok [OF ok])
  show "la_seq (la_new s A) (la_next A)" using assms(2) by (simp add: la_seq_def la_new_def)
  show "la_next A \<notin> set (la_queue (la_new s A))" using ne by (auto simp: la_new_def)
  show "la_fresh (la_new s A)" using fr by (simp add: la_fresh_def la_new_def)
qed (use assms(1) in \<open>simp_all add: la_new_def la_inv_def\<close>)

lemma hand_over:
  assumes "la_ok B" "la_fresh B" "0 \<le> la_transition_duration B \<and> \<not> la_disable_timer_for_test B" "sid < la_next B" "accepts sid B A'" "idle A'" "timer_ok A'"
  shows "la_inv A'"
  using assms frame_fresh [of B "{sid}" A'] frameD(1) [of "{sid}" B A'] by (simp add: la_inv_def settled_def accepts_def la_static_def)

lemma Start_inv:
  assumes "la_inv A" and "sq_ok s"
  shows "ensures (la_StartAnimation M (la_next A) (la_new s A)) la_inv"
  by (rule ensures_mono [OF StartAnimation_ok [OF new_ok(1-3) [OF assms]]])
    (use hand_over [OF new_ok(1,4,6) [OF assms], of "la_next A"] new_ok(5) [OF assms] in simp)

lemma Schedule_inv:
  assumes "la_inv A" and "sq_ok s"
  shows "ensures (la_ScheduleAnimation M (la_next A) (la_new s A)) la_inv"
  by (rule ensures_mono [OF ScheduleAnimation_ok [OF new_ok(1-3) [OF assms]]])
    (use hand_over [OF new_ok(1,4,6) [OF assms], of "la_next A"] new_ok(5) [OF assms] in simp)

lemma single_ok: "0 \<le> el_duration e \<Longrightarrow> el_properties e \<noteq> {} \<Longrightarrow> sq_ok (sq_single e)"
  by (simp add: sq_ok_def sq_single_def sq_AddElement_def sq_empty_def)

lemma effective_nonneg: "0 \<le> d \<Longrightarrow> 0 \<le> GetEffectiveDuration W d"
  by (simp add: GetEffectiveDuration_def kSlowAnimationScaleFactor_def)

lemma start_new_inv: "la_inv A \<Longrightarrow> 0 \<le> el_duration e \<Longrightarrow> el_properties e \<noteq> {} \<Longrightarrow> ensures (start_new M e A) la_inv"
  unfolding start_new_def by (intro Start_inv single_ok)

lemma setters_inv:
  assumes "la_inv A"
  shows "ensures (la_SetTransform M W t A) la_inv" "ensures (la_SetBounds M W r A) la_inv"
    "ensures (la_SetOpacity M W v A) la_inv" "ensures (la_SetVisibility M W b A) la_inv"
proof -
  have "0 \<le> GetEffectiveDuration W (la_transition_duration A)" using assms by (simp add: la_inv_def effective_nonneg)
  then show "ensures (la_SetTransform M W t A) la_inv" "ensures (la_SetBounds M W r A) la_inv"
    "ensures (la_SetOpacity M W v A) la_inv" "ensures (la_SetVisibility M W b A) la_inv"
    unfolding la_SetTransform_def la_SetBounds_def la_SetOpacity_def la_SetVisibility_def
    by (intro start_new_inv [OF assms]; simp add: CreateTransformElement_def CreateBoundsElement_def CreateOpacityElement_def
        CreateVisibilityElement_def mk_element_def)+
qed

lemma advances_inv: "la_inv A \<Longrightarrow> settled A' \<Longrightarrow> advances M A A' \<Longrightarrow> la_inv A'"
  by (rule frame_inv [of A A' "{}"]) (auto intro: advances_frame)

lemma Step_inv:
  assumes "la_inv A"
  shows "ensures (la_Step M now A) (\<lambda>A'. la_inv A' \<and> advances M A A')"
proof -
  have "la_ok A" using assms by (simp add: la_inv_def settled_def)
  from step_with_ok [OF ProcessQueue_good this order_refl, of M now] show ?thesis
    unfolding la_Step_def
  proof (rule ensures_mono)
    fix A'
    assume A': "stepped M A A'"
    then have "settled A'" using assms by (simp add: la_inv_def settled_def keeps_settled_def)
    then show "la_inv A' \<and> advances M A A'" using A' advances_inv [OF assms] by blast
  qed
qed

lemma detach_loop_ok:
  "la_ok A \<Longrightarrow> set sids \<subseteq> set (la_queue A) \<Longrightarrow>
   ensures (detach_loop obs sids A) (\<lambda>A'. la_same A A' \<and> la_static A' = la_static A \<and> la_is_started A' = la_is_started A \<and>
     (\<forall>q. q \<notin> set (la_queue A) \<longrightarrow> la_store A' q = la_store A q))"
proof (induction sids arbitrary: A)
  case Nil
  then show ?case using la_okD(4,5) [of A] by (auto simp: la_same_def la_seq_def)
next
  case (Cons sid sids)
  then obtain s where s: "la_store A sid = Some s" using la_okD(4) [OF Cons.prems(1)] by (fastforce simp: la_seq_def)
  let ?s = "s\<lparr>sq_observers := remove1 obs (sq_observers s)\<rparr>"
  let ?A = "la_note [DetachedFromSequence obs sid True] (la_put sid ?s A)"
  have same: "la_same A ?A"
    using s la_okD(4,5) [OF Cons.prems(1)] by (auto simp: la_same_def la_note_def la_put_def la_seq_def sq_sig_def)
  have "ensures (detach_loop obs sids ?A) (\<lambda>A'. la_same ?A A' \<and> la_static A' = la_static ?A \<and> la_is_started A' = la_is_started ?A \<and>
     (\<forall>q. q \<notin> set (la_queue ?A) \<longrightarrow> la_store A' q = la_store ?A q))"
    using Cons.prems same by (intro Cons.IH la_same_ok [OF Cons.prems(1)]) (auto simp: la_same_def)
  then have "ensures (detach_loop obs sids ?A) (\<lambda>A'. la_same A A' \<and> la_static A' = la_static A \<and> la_is_started A' = la_is_started A \<and>
     (\<forall>q. q \<notin> set (la_queue A) \<longrightarrow> la_store A' q = la_store A q))"
    by (rule ensures_mono) (use same Cons.prems(2) in \<open>auto simp: la_same_def la_note_def la_put_def la_static_def\<close>)
  then show ?case using s by (simp add: sq_RemoveObserver_def)
qed

lemma same_inv:
  assumes "la_inv A" and "la_same A A'" and "la_is_started A' = la_is_started A" and "la_next A' = la_next A"
    and "la_disable_timer_for_test A' = la_disable_timer_for_test A" and "la_transition_duration A' = la_transition_duration A"
    and "\<And>q. q \<notin> set (la_queue A) \<Longrightarrow> la_store A' q = la_store A q"
  shows "la_inv A'"
proof -
  have ok: "la_ok A" and fr: "la_fresh A" and id: "idle A" and tm: "timer_ok A" using assms(1) by (simp_all add: la_inv_def settled_def)
  have "la_store A' sid = None" if "la_next A' \<le> sid" for sid
    using assms(4,7) queue_below [OF ok fr, of sid] fr that by (force simp: la_fresh_def)
  then show ?thesis
    using la_same_ok [OF ok assms(2)] la_same_idle [OF ok assms(2)] id tm assms
    by (simp add: la_inv_def settled_def la_fresh_def timer_ok_def la_same_def)
qed

lemma fields_inv:
  assumes "la_inv A" and "la_queue A' = la_queue A" "la_running A' = la_running A" "la_store A' = la_store A" "la_delegate A' = la_delegate A"
    "la_is_started A' = la_is_started A" "la_next A' = la_next A" "la_disable_timer_for_test A' = la_disable_timer_for_test A"
    "la_transition_duration A' = la_transition_duration A"
  shows "la_inv A'"
proof -
  have "la_ok A" using assms(1) by (simp add: la_inv_def settled_def)
  then have "la_same A A'" using la_okD(4,5) [of A] assms(2-5) by (auto simp: la_same_def la_seq_def)
  then show ?thesis by (rule same_inv [OF assms(1)]) (use assms in simp_all)
qed

lemma RemoveObserver_inv:
  assumes "la_inv A"
  shows "ensures (la_RemoveObserver obs A) la_inv"
proof -
  let ?A = "A\<lparr>la_observers := remove1 obs (la_observers A)\<rparr>"
  have inv: "la_inv ?A" by (rule fields_inv [OF assms]) simp_all
  then have "la_ok ?A" by (simp add: la_inv_def settled_def)
  from detach_loop_ok [OF this, of "la_queue A" obs] have
    "ensures (detach_loop obs (la_queue A) ?A) (\<lambda>A'. la_same ?A A' \<and> la_static A' = la_static ?A \<and> la_is_started A' = la_is_started ?A \<and>
      (\<forall>q. q \<notin> set (la_queue ?A) \<longrightarrow> la_store A' q = la_store ?A q))" by simp
  then show ?thesis
    unfolding la_RemoveObserver_def by (rule ensures_mono) (auto intro!: same_inv [OF inv] simp: la_static_def)
qed

section \<open>Scheduling together\<close>

lemma new_all_ok:
  assumes "la_inv A" and "list_all sq_ok ss"
  shows "la_inv (la_new_all ss A) \<and> la_next (la_new_all ss A) = la_next A + length ss \<and> la_queue (la_new_all ss A) = la_queue A \<and>
    (\<forall>sid \<in> {la_next A ..< la_next A + length ss}. la_seq (la_new_all ss A) sid)"
  using assms
proof (induction ss arbitrary: A)
  case (Cons s ss)
  note n = new_ok [OF Cons.prems(1), of s]
  have ok: "la_ok A" using Cons.prems(1) by (simp add: la_inv_def settled_def)
  have "la_same A (la_new s A)"
    using la_okD(4,5) [OF ok] queue_below [of A] Cons.prems(1) by (auto simp: la_same_def la_new_def la_seq_def la_inv_def settled_def)
  then have "idle (la_new s A)" using la_same_idle [OF ok] Cons.prems(1) by (simp add: la_inv_def settled_def)
  then have inv: "la_inv (la_new s A)"
    using n Cons.prems by (auto simp: la_inv_def settled_def timer_ok_def la_new_def)
  note IH = Cons.IH [OF inv]
  have keep: "la_store (la_new_all ts B) q = la_store B q" if "q < la_next B" for ts q and B :: "('a, 'b) layer_animator"
    using that by (induction ts arbitrary: B) (simp_all add: la_new_all_def la_new_def)
  have "la_seq (la_new_all ss (la_new s A)) (la_next A)"
    using n(2) Cons.prems(2) keep [of "la_next A" "la_new s A" ss] by (simp add: la_seq_def la_new_def)
  moreover have "la_new_all (s # ss) A = la_new_all ss (la_new s A)" by (simp add: la_new_all_def)
  moreover have "{la_next A ..< la_next A + length (s # ss)} = insert (la_next A) {la_next (la_new s A) ..< la_next (la_new s A) + length ss}"
    by (auto simp: la_new_def)
  moreover have "la_next (la_new s A) + length ss = la_next A + length (s # ss)" "la_queue (la_new s A) = la_queue A"
    by (simp_all add: la_new_def)
  ultimately show ?case using IH Cons.prems(2) by simp
qed (simp add: la_new_all_def)

lemma union_properties_ok:
  "(\<And>sid. sid \<in> set sids \<Longrightarrow> la_seq A sid) \<Longrightarrow>
   \<exists>ps. union_properties sids A = Some ps \<and> (sids \<noteq> [] \<longrightarrow> ps \<noteq> {})"
proof (induction sids)
  case (Cons sid sids)
  then obtain s where "la_store A sid = Some s" "sq_ok s" by (fastforce simp: la_seq_def)
  then show ?case using Cons by (auto simp: sq_ok_def)
qed simp

lemma schedule_all_ok:
  assumes "la_inv A" and "distinct sids" and "\<And>sid. sid \<in> set sids \<Longrightarrow> la_seq A sid \<and> sid \<notin> set (la_queue A) \<and> sid < la_next A"
  shows "ensures (schedule_all M sids A) la_inv"
  using assms
proof (induction sids arbitrary: A)
  case (Cons sid sids)
  have ok: "la_ok A" "la_fresh A" "0 \<le> la_transition_duration A \<and> \<not> la_disable_timer_for_test A" using Cons.prems(1) by (simp_all add: la_inv_def settled_def)
  have sid: "la_seq A sid" "sid \<notin> set (la_queue A)" "sid < la_next A" using Cons.prems(3) by auto
  have "ensures (la_ScheduleAnimation M sid A \<bind> schedule_all M sids) la_inv"
  proof (rule ensures_bind [OF ScheduleAnimation_ok [OF ok(1) sid(1,2)]])
    fix A1
    assume A1: "accepts sid A A1 \<and> idle A1 \<and> timer_ok A1"
    then have inv: "la_inv A1" using hand_over [OF ok sid(3)] by blast
    have fr: "frame {sid} A A1" using A1 by (simp add: accepts_def)
    have "la_seq A1 q \<and> q \<notin> set (la_queue A1) \<and> q < la_next A1" if "q \<in> set sids" for q
    proof -
      have q: "q \<noteq> sid" "la_seq A q" "q \<notin> set (la_queue A)" "q < la_next A" using Cons.prems(2,3) that by auto
      then show ?thesis using frameD(1,2) [OF fr] frameD(3) [OF fr q(3)] by (auto simp: la_seq_def la_static_def)
    qed
    then show "ensures (schedule_all M sids A1) la_inv" using Cons.IH [OF inv] Cons.prems(2) by simp
  qed
  then show ?case by simp
qed simp

lemma update_inv: "la_inv A \<Longrightarrow> la_inv (la_UpdateAnimationState A)"
  using update_ok [of A] update_idle [of A] update_fields(5) [of A] by (simp add: la_inv_def settled_def la_fresh_def la_static_def)

lemma Together_inv:
  assumes "la_inv A" and "ss \<noteq> []" and "list_all sq_ok ss"
  shows "ensures (la_ScheduleTogether M W [la_next A ..< la_next A + length ss] (la_new_all ss A)) la_inv"
proof -
  let ?B = "la_new_all ss A" and ?sids = "[la_next A ..< la_next A + length ss]"
  note B = new_all_ok [OF assms(1,3)]
  then have invB: "la_inv ?B" and nB: "la_next ?B = la_next A + length ss" by simp_all
  obtain ps where ps: "union_properties ?sids ?B = Some ps" "ps \<noteq> {}"
    using union_properties_ok [of ?sids ?B] B assms(2) by auto
  let ?e = "CreatePauseElement W ps 0 :: ('a, 'b) layer_element"
  have e: "sq_ok (sq_single ?e)" using ps(2) effective_nonneg [of 0 W] by (intro single_ok) (simp_all add: CreatePauseElement_def mk_element_def)
  note n = new_ok [OF invB e]
  have "ensures (la_ScheduleAnimation M (la_next ?B) (la_new (sq_single ?e) ?B) \<bind> (\<lambda>A1. schedule_all M ?sids A1 \<bind> (\<lambda>A2. Some (la_UpdateAnimationState A2)))) la_inv"
  proof (rule ensures_bind [OF ScheduleAnimation_ok [OF n(1-3)]])
    fix A1
    assume A1: "accepts (la_next ?B) (la_new (sq_single ?e) ?B) A1 \<and> idle A1 \<and> timer_ok A1"
    then have inv: "la_inv A1" using hand_over [OF n(1,4,6), of "la_next ?B" A1] n(5) by simp
    have fr: "frame {la_next ?B} (la_new (sq_single ?e) ?B) A1" using A1 by (simp add: accepts_def)
    have "la_seq A1 q \<and> q \<notin> set (la_queue A1) \<and> q < la_next A1" if "q \<in> set ?sids" for q
    proof -
      have q: "q \<noteq> la_next ?B" "q < la_next ?B" "la_seq ?B q" using that nB B by auto
      have "q \<notin> set (la_queue A)" using that queue_below [of A q] assms(1) by (auto simp: la_inv_def settled_def)
      then have nq: "q \<notin> set (la_queue (la_new (sq_single ?e) ?B))" using B by (simp add: la_new_def)
      then show ?thesis using q frameD(1,2) [OF fr] frameD(3) [OF fr nq] n(5) by (auto simp: la_seq_def la_static_def la_new_def)
    qed
    then have "ensures (schedule_all M ?sids A1) la_inv" by (intro schedule_all_ok inv) auto
    then show "ensures (schedule_all M ?sids A1 \<bind> (\<lambda>A2. Some (la_UpdateAnimationState A2))) la_inv"
      by (rule ensures_bind) (simp add: update_inv)
  qed
  then show ?thesis using ps(1) by (simp add: la_ScheduleTogether_def)
qed

lemma exec_inv: "la_inv A \<Longrightarrow> call_ok c \<Longrightarrow> ensures (la_exec M W c A) la_inv"
proof -
  assume inv: "la_inv A" and ok: "call_ok c"
  have st: "settled A" using inv by (simp add: la_inv_def)
  show ?thesis
  proof (cases c)
    case (Call_Step now)
    then show ?thesis using ensures_mono [OF Step_inv [OF inv, of M now], of la_inv] by simp
  next
    case (Call_StopProperty p)
    then show ?thesis using ensures_mono [OF StopAnimatingProperty_ok [OF st, of M p], of la_inv] advances_inv [OF inv] by auto
  next
    case Call_Stop
    then show ?thesis using ensures_mono [OF StopAnimating_ok [OF st, of M], of la_inv] advances_inv [OF inv] by auto
  next
    case Call_Clear
    have "ensures (la_ClearAnimations A) la_inv"
      by (rule ensures_mono [OF ClearAnimations_ok]) (use inv frame_inv [OF inv, where X = "{}"] in \<open>auto simp: la_inv_def settled_def\<close>)
    then show ?thesis using Call_Clear by simp
  qed (use inv ok setters_inv Start_inv Schedule_inv Together_inv RemoveObserver_inv in
      \<open>auto simp: la_AddObserver_def intro: fields_inv\<close>)
qed

lemma run_calls_inv: "la_inv A \<Longrightarrow> list_all call_ok cs \<Longrightarrow> ensures (la_run_calls M W cs A) la_inv"
proof (induction cs arbitrary: A)
  case (Cons c cs)
  then have "ensures (la_exec M W c A \<bind> la_run_calls M W cs) la_inv" by (intro ensures_bind [OF exec_inv]) simp_all
  then show ?case by simp
qed simp

lemma init_inv: "0 \<le> duration \<Longrightarrow> la_inv (la_SetDelegate d (mk_LayerAnimator clock duration))"
  by (simp add: la_inv_def la_fresh_def la_SetDelegate_def mk_LayerAnimator_def empty_settled timer_ok_def)

section \<open>Guarantees\<close>


lemma GetTargetValue_eq: "la_ok A \<Longrightarrow> la_GetTargetValue M A = Some (la_target M A)"
proof -
  assume ok: "la_ok A"
  have "target_loop M sids A v = Some (fold (\<lambda>sid. sq_GetTargetValue M (the (la_store A sid))) sids v)"
    if "set sids \<subseteq> set (la_queue A)" for sids v
    using that
  proof (induction sids arbitrary: v)
    case (Cons sid sids)
    then obtain s where "la_store A sid = Some s" using la_okD(4) [OF ok, of sid] by (auto simp: la_seq_def)
    then show ?case using Cons by simp
  qed simp
  then show ?thesis using la_okD(5) [OF ok] by (auto simp: la_GetTargetValue_def la_target_def mk_TargetValue_def)
qed

text \<open>(C5) Stopping ends: after any calls, \<open>StopAnimating\<close> finishes every running animation and all that were
  queued behind them, and stops the timer. When every animation lands at its target at the end of its
  time, the layer is then exactly at the target that \<open>GetTargetBounds\<close> and its siblings announced before.\<close>

theorem animator_stops_at_target:
  assumes "0 \<le> duration" and "list_all call_ok cs"
    and "la_run_calls M W cs (la_SetDelegate d0 (mk_LayerAnimator clock duration)) = Some A"
  shows "\<exists>A' d. la_StopAnimating M A = Some A' \<and> la_queue A' = [] \<and> la_running A' = [] \<and> \<not> la_is_started A' \<and>
    la_delegate A' = Some d \<and> (la_lands M A \<longrightarrow> la_GetTargetValue M A = Some (target_value.truncate d))"
proof -
  have inv: "la_inv A" using run_calls_inv [OF init_inv [OF assms(1)] assms(2), of M W d0 clock] assms(3) by simp
  then obtain A' where A': "la_StopAnimating M A = Some A'" "settled A'" "advances M A A'" "la_queue A' = []"
    using ensuresE [OF StopAnimating_ok [of A M]] by (metis la_inv_def)
  have ok': "la_ok A'" using A'(2) by (simp add: settled_def)
  then obtain d where d: "la_delegate A' = Some d" using la_okD(5) by blast
  have "la_target M A' = target_value.truncate d" using A'(4) d by (simp add: la_target_def)
  moreover have "la_running A' = []" using la_okD(3) [OF ok'] A'(4) by simp
  moreover have "\<not> la_is_started A'"
    using advances_inv [OF inv A'(2,3)] A'(4) by (auto simp: la_inv_def settled_def timer_ok_def)
  ultimately show ?thesis
    using A'(1,4) d GetTargetValue_eq [of A M] advancesD(9) [OF A'(3)] inv by (simp add: la_inv_def settled_def)
qed


section \<open>Elements that land\<close>

text \<open>What is needed of the machine: multiplication with one is exact, and the double next to an integer
  towards zero truncates to the integer before it.\<close>

definition exact_ends :: "('f, 'tr) tween_ops \<Rightarrow> bool" where
  "exact_ends M \<longleftrightarrow> (\<forall>x. f_mul M (f_one M) x = x) \<and> f_eq M (f_one M) (f_one M) \<and>
     (\<forall>n. f_less M (f_of_int M n) (f_of_int M 0) = (n < 0)) \<and>
     (\<forall>n > 0. f_trunc M (f_nextafter M (f_add M (f_of_int M n) (f_one M)) (f_of_int M 0)) = n) \<and>
     (\<forall>n < 0. f_trunc M (f_nextafter M (f_sub M (f_of_int M n) (f_one M)) (f_of_int M 0)) = n)"

lemma ValueBetween_int_end: "exact_ends M \<Longrightarrow> ValueBetween_int M (f_one M) a b = b"
  by (cases "a < b") (auto simp: ValueBetween_int_def exact_ends_def Let_def)

lemma ValueBetween_rect_end:
  "exact_ends M \<Longrightarrow> 0 \<le> rect_width r \<Longrightarrow> 0 \<le> rect_height r \<Longrightarrow> ValueBetween_rect M (f_one M) r0 r = r"
  by (cases r) (simp add: ValueBetween_rect_def ValueBetween_int_end mk_rect_def mk_size_def geom_defs rect_x_def rect_y_def
      rect_width_def rect_height_def)

lemma goal_cases:
  "goal k = goal (BoundsTransition a t) \<Longrightarrow> \<exists>s. k = BoundsTransition s t"
  "goal k = goal (TransformTransition b u) \<Longrightarrow> \<exists>s. k = TransformTransition s u"
  "goal k = goal (VisibilityTransition c v) \<Longrightarrow> \<exists>s. k = VisibilityTransition s v"
  "goal k = goal (OpacityTransition d w) \<Longrightarrow> \<exists>s. k = OpacityTransition s w"
  "goal k = goal Pause \<Longrightarrow> k = Pause"
  by (cases k; simp add: goal_def)+

lemma landsI:
  assumes "el_tween_type e = LINEAR"
    and "\<And>k d. goal k = goal (el_transition e) \<Longrightarrow> map_option fst (OnProgress M (f_one M) (Some d) k) = Some (Some (OnGetTarget M k d))"
  shows "el_lands M e"
  using assms by (simp add: el_lands_def CalculateValue_def)

lemma lands_linear:
  assumes ex: "exact_ends M" and lin: "el_tween_type e = LINEAR"
  shows "el_transition e = BoundsTransition r0 r \<Longrightarrow> 0 \<le> rect_width r \<Longrightarrow> 0 \<le> rect_height r \<Longrightarrow> el_lands M e"
    and "el_transition e = TransformTransition t0 t \<Longrightarrow> el_lands M e"
    and "el_transition e = VisibilityTransition v0 v \<Longrightarrow> el_lands M e"
    and "el_transition e = OpacityTransition w0 w \<Longrightarrow> (\<And>a. f_round M (ValueBetween M (f_one M) a w) = w) \<Longrightarrow> el_lands M e"
    and "el_transition e = Pause \<Longrightarrow> el_lands M e"
proof -
  have eq: "f_eq M (f_one M) (f_one M)" using ex by (simp add: exact_ends_def)
  show "el_lands M e" if h: "el_transition e = BoundsTransition r0 r" "0 \<le> rect_width r" "0 \<le> rect_height r"
    by (rule landsI [OF lin], unfold h(1), drule goal_cases(1))
      (use ValueBetween_rect_end [OF ex h(2,3)] in \<open>auto simp: OnProgress_def OnGetTarget_def\<close>)
  show "el_lands M e" if h: "el_transition e = TransformTransition t0 t"
    by (rule landsI [OF lin], unfold h(1), drule goal_cases(2)) (use eq in \<open>auto simp: OnProgress_def OnGetTarget_def ValueBetween_transform_def\<close>)
  show "el_lands M e" if h: "el_transition e = VisibilityTransition v0 v"
    by (rule landsI [OF lin], unfold h(1), drule goal_cases(3)) (use eq in \<open>auto simp: OnProgress_def OnGetTarget_def\<close>)
  show "el_lands M e" if h: "el_transition e = OpacityTransition w0 w" "\<And>a. f_round M (ValueBetween M (f_one M) a w) = w"
    by (rule landsI [OF lin], unfold h(1), drule goal_cases(4)) (auto simp: OnProgress_def OnGetTarget_def h(2))
  show "el_lands M e" if h: "el_transition e = Pause"
    by (rule landsI [OF lin], unfold h(1), drule goal_cases(5)) (auto simp: OnProgress_def OnGetTarget_def)
qed

section \<open>Witnesses\<close>

text \<open>A machine with fixed-point numbers, in units of 1/1024.\<close>

definition fixed_ops :: "(int, nat) tween_ops" where
  "fixed_ops = \<lparr>f_of_int = (\<lambda>n. n * 1024), f_trunc = (\<lambda>x. x sdiv 1024), f_round = (\<lambda>x. x), f_add = (+), f_sub = (-),
     f_mul = (\<lambda>x y. x * y div 1024), f_div = (\<lambda>x y. x * 1024 div y), f_sqrt = (\<lambda>x. x), f_abs = abs, f_less = (<), f_eq = (=),
     f_pow = (\<lambda>x y. if y = 2048 then x * x div 1024 else x * x * x div 1048576), f_sin = (\<lambda>x. x),
     f_nextafter = (\<lambda>x y. if 0 < x then x - 1 else x + 1), tr_blend = (\<lambda>v a b. a), tr_identity = 0\<rparr>"

lemma fixed_exact: "exact_ends fixed_ops"
proof -
  have "(n * 1024 + 1024 - 1) sdiv 1024 = n" if "0 < n" for n :: int using that by (simp add: signed_divide_int_def sgn_if)
  moreover have "(n * 1024 - 1024 + 1) sdiv 1024 = n" if "n < 0" for n :: int
  proof -
    have "\<bar>n * 1024 - 1024 + 1\<bar> div 1024 = - n" using that by simp
    then show ?thesis using that by (simp add: signed_divide_int_def sgn_if)
  qed
  ultimately show ?thesis by (simp add: exact_ends_def fixed_ops_def)
qed

lemma fixed_full_time: "full_time fixed_ops"
proof -
  have "0 < us * 1024 * 1024 div (1000 * 1024)" if "0 < us" for us :: int using that by (simp add: pos_imp_zdiv_pos_iff)
  then show ?thesis by (simp add: full_time_def in_milliseconds_def fixed_ops_def)
qed

definition plain_element :: "(int, nat) layer_element \<Rightarrow> bool" where
  "plain_element e \<longleftrightarrow> el_tween_type e = LINEAR \<and>
     (case el_transition e of
        BoundsTransition _ r \<Rightarrow> 0 \<le> rect_width r \<and> 0 \<le> rect_height r \<and> BOUNDS \<in> el_properties e
      | OpacityTransition _ _ \<Rightarrow> OPACITY \<in> el_properties e
      | _ \<Rightarrow> False)"

definition plain_sequence :: "(int, nat) layer_sequence \<Rightarrow> bool" where
  "plain_sequence s \<longleftrightarrow> \<not> sq_is_cyclic s \<and> length (sq_elements s) = 1 \<and>
     list_all (\<lambda>e. plain_element e \<and> el_properties e \<subseteq> sq_properties s) (sq_elements s) \<and>
     sq_last_element s = 0 \<and> sq_last_start s = 0"

lemma plain_lands: "plain_sequence s \<Longrightarrow> sq_lands fixed_ops s \<and> sq_phase s"
proof -
  assume p: "plain_sequence s"
  have "el_lands fixed_ops e \<and> prop_of (el_transition e) \<subseteq> el_properties e" if "plain_element e" for e
    using that lands_linear(1,4) [OF fixed_exact, of e]
    by (cases "el_transition e") (auto simp: plain_element_def prop_of_def ValueBetween_def fixed_ops_def)
  then show ?thesis using p by (auto simp: plain_sequence_def sq_lands_def sq_phase_def list_all_iff)
qed

definition sample_layer :: "(int, nat) layer" where
  "sample_layer = \<lparr>tv_bounds = mk_rect 0 0 10 10, tv_transform = 0, tv_opacity = 0, tv_visibility = True, ly_draws = 0\<rparr>"

definition sample_switches :: animation_switches where
  "sample_switches = \<lparr>disable_animations = False, slow_animation_mode = False\<rparr>"

definition sample_calls :: "(int, nat) la_call list" where
  "sample_calls = [Call_SetStrategy ENQUEUE_NEW_ANIMATION, Call_SetOpacity 1024, Call_SetOpacity 512, Call_SetBounds (mk_rect 5 (-5) 20 20)]"

definition sample_run :: "(int, nat) layer_animator option" where
  "sample_run = la_run_calls fixed_ops sample_switches sample_calls (la_SetDelegate sample_layer (mk_LayerAnimator (\<lambda>n. 1000 * int n) 120000))"

lemma sample_calls_ok: "list_all call_ok sample_calls"
  by (simp add: sample_calls_def)

lemma sample_queue: "map_option la_queue sample_run = Some [2, 0, 1]"
  unfolding sample_run_def by code_simp

lemma sample_plain:
  "map_option (\<lambda>A. list_all (\<lambda>sid. case la_store A sid of None \<Rightarrow> False | Some s \<Rightarrow> plain_sequence s) (la_queue A)) sample_run = Some True"
  unfolding sample_run_def by code_simp

lemma sample_lands: "sample_run = Some A \<Longrightarrow> la_lands fixed_ops A"
proof -
  assume run: "sample_run = Some A"
  have "\<exists>s. la_store A sid = Some s \<and> plain_sequence s" if "sid \<in> set (la_queue A)" for sid
    using sample_plain that by (cases "la_store A sid") (auto simp: run list_all_iff)
  then show ?thesis using plain_lands fixed_full_time by (fastforce simp: la_lands_def)
qed


lemma animator_stops_at_target_witness:
  "\<exists>A A' d. sample_run = Some A \<and> la_lands fixed_ops A \<and> la_StopAnimating fixed_ops A = Some A' \<and> la_queue A' = [] \<and>
     la_delegate A' = Some d \<and> la_GetTargetValue fixed_ops A = Some (target_value.truncate d)"
proof -
  obtain A where A: "sample_run = Some A" using sample_queue by auto
  from animator_stops_at_target [OF _ sample_calls_ok A [unfolded sample_run_def]] sample_lands [OF A] A show ?thesis by auto
qed


section \<open>Where the guarantees end\<close>

text \<open>A sequence that ends in an element without duration skips that element: the layer of this sequence,
  which fades out and then hides, stays visible.\<close>

lemma trailing_element_skipped:
  "map_option (\<lambda>(s, d, r, ns). map_option (\<lambda>d. (tv_opacity d, tv_visibility d)) d)
     (sq_Progress fixed_ops 0 100000 (Some (sample_layer\<lparr>tv_opacity := 1024\<rparr>))
       (sq_AddElement (CreateVisibilityElement sample_switches False 0)
         (sq_single (CreateOpacityElement fixed_ops sample_switches 0 100000)))) = Some (Some (0, True))"
  by code_simp

text \<open>With animations disabled for tests every element has no duration, and only the first one is applied.\<close>

lemma disabled_sequence_stops_at_first:
  "map_option (\<lambda>(s, d, r, ns). map_option tv_opacity d)
     (let W = sample_switches\<lparr>disable_animations := True\<rparr> in
      sq_Progress fixed_ops 0 0 (Some sample_layer)
       (sq_AddElement (CreateOpacityElement fixed_ops W 512 100000) (sq_single (CreateOpacityElement fixed_ops W 1024 100000)))) = Some (Some 1024)"
  by code_simp

text \<open>A cyclic sequence without duration never leaves the loop of \<open>Progress\<close> once time has passed.\<close>

lemma el_Progress_duration: "el_Progress M t d e = Some (e', d', b) \<Longrightarrow> el_duration e' = el_duration e"
  unfolding el_Progress_def by (auto simp: bind_eq_Some_conv)

lemma zero_cycle_none:
  assumes "progress_loop M cyclic elapsed es le ls d redraw = Some r"
  shows "cyclic \<longrightarrow> es \<noteq> [] \<longrightarrow> (\<forall>e \<in> set es. el_duration e = 0) \<longrightarrow> \<not> ls < elapsed"
  apply (rule progress_loop.raw_induct [where P = "\<lambda>M cyclic elapsed es le ls d redraw r.
    cyclic \<longrightarrow> es \<noteq> [] \<longrightarrow> (\<forall>e \<in> set es. el_duration e = 0) \<longrightarrow> \<not> ls < elapsed", OF _ assms], intro impI notI)
  subgoal premises a for f M cyclic elapsed es le ls d redraw r
  proof -
    let ?i = "le mod length es"
    have i: "es ! ?i \<in> set es" using a(4) by simp
    then have z: "el_duration (es ! ?i) = 0" using a(5) by blast
    have "el_Progress M (f_one M) d (es ! ?i) \<bind> (\<lambda>(e, d', b). f M cyclic elapsed (es[?i := e]) (Suc le) ls d' (redraw \<or> b)) = Some r"
      using a(2) by (simp add: Let_def a(3,6) z)
    then obtain e d' b where e: "el_Progress M (f_one M) d (es ! ?i) = Some (e, d', b)"
      and f: "f M cyclic elapsed (es[?i := e]) (Suc le) ls d' (redraw \<or> b) = Some r"
      by (cases "el_Progress M (f_one M) d (es ! ?i)") (simp, force)
    have "el_duration e = 0" using el_Progress_duration [OF e] z by simp
    then have "\<forall>e' \<in> set (es[?i := e]). el_duration e' = 0" using a(5) set_update_subset_insert [of es ?i e] by blast
    then show False using a(1) [OF f] a(3,4,6) by simp
  qed
  done

lemma cyclic_without_duration_hangs:
  assumes "es \<noteq> []" and "\<forall>e \<in> set es. el_duration e = 0" and "ls < elapsed"
  shows "progress_loop M True elapsed es le ls d redraw = None"
  using assms zero_cycle_none [of M True elapsed es le ls d redraw] by (cases "progress_loop M True elapsed es le ls d redraw") auto

text \<open>Not every tween ends at one, although the last step of an animation is announced as the final value.\<close>

lemma snap_ends_short: "CalculateValue fixed_ops EASE_OUT_SNAP (f_one fixed_ops) = 972" "CalculateValue fixed_ops ZERO (f_one fixed_ops) = 0"
  by code_simp+

text \<open>Skipping whole cycles steps back by one when less than a cycle has passed: the first step of a cyclic
  sequence plays all its elements to their ends before it shows the one it is at.\<close>

lemma cyclic_step_replays:
  "map_option (\<lambda>(s, d, r, ns). (sq_last_element s, sq_last_start s, map_option (\<lambda>d. (tv_opacity d, tv_visibility d)) d))
     (sq_Progress fixed_ops 0 50000 (Some (sample_layer\<lparr>tv_opacity := 1024\<rparr>))
       ((sq_AddElement (CreateVisibilityElement sample_switches False 100000)
         (sq_single (CreateOpacityElement fixed_ops sample_switches 0 100000)))\<lparr>sq_is_cyclic := True\<rparr>)) = Some (2, 0, Some (0, False))"
  by code_simp

end
