(* ===== verification/String_Numbers.thy ===== *)
theory String_Numbers
  imports UI_Prelude
begin

unbundle bit_operations_syntax

text \<open>
  \<open>src/base/string_number_conversions.cc\<close>: numbers as text. The templates are functions of the traits they
  are instantiated with; characters are words of any width, for \<open>std::string\<close> (8 bits) and \<open>string16\<close>.
  A parsed number is a pair of the returned \<open>bool\<close> and the value stored through the output pointer, which
  is set on failure too. Arithmetic on the output is reduced to the value type after every operation, as
  the compiled code does. The conversions of \<open>double\<close> call David Gay's library (\<open>dmg_fp\<close>), a parameter.
\<close>

type_synonym std_string = "8 word list"

text \<open>The bytes of a literal of the source.\<close>

definition lit :: "string \<Rightarrow> 'c :: len word list" where
  "lit s = map of_char s"

section \<open>Printing\<close>

text \<open>The loop writes from the back of a buffer; \<open>it\<close> counts the places left in front. A write before the
  buffer is \<open>None\<close>.\<close>

fun int_to_string_loop :: "nat \<Rightarrow> bool \<Rightarrow> int \<Rightarrow> 'c :: len word list \<Rightarrow> 'c word list option" where
  "int_to_string_loop 0 is_neg res out = None"
| "int_to_string_loop (Suc it) is_neg res out =
     (let out = of_int (res mod 10 + 48) # out; res = res div 10
      in if res = 0
         then if is_neg then (if it = 0 then None else Some (45 # out)) else Some out
         else int_to_string_loop it is_neg res out)"

definition ToUnsigned :: "nat \<Rightarrow> bool \<Rightarrow> int \<Rightarrow> int" where
  "ToUnsigned bits neg value = (if neg \<and> value < 0 then - value else value) mod 2 ^ bits"

definition TestNeg :: "bool \<Rightarrow> int \<Rightarrow> bool" where
  "TestNeg neg value \<longleftrightarrow> neg \<and> value < 0"

definition IntToStringT :: "nat \<Rightarrow> bool \<Rightarrow> int \<Rightarrow> 'c :: len word list option" where
  "IntToStringT bits neg value =
     int_to_string_loop (3 * (bits div 8) + 1) (TestNeg neg value) (ToUnsigned bits neg value) []"

definition IntToString :: "int \<Rightarrow> 'c :: len word list option" where
  "IntToString = IntToStringT 32 True"

definition UintToString :: "int \<Rightarrow> 'c :: len word list option" where
  "UintToString = IntToStringT 32 False"

definition Int64ToString :: "int \<Rightarrow> 'c :: len word list option" where
  "Int64ToString = IntToStringT 64 True"

definition Uint64ToString :: "int \<Rightarrow> 'c :: len word list option" where
  "Uint64ToString = IntToStringT 64 False"

section \<open>Parsing\<close>

definition CharToDigit :: "int \<Rightarrow> 'c :: len word \<Rightarrow> int option" where
  "CharToDigit base ch =
     (let c = uint ch
      in if base \<le> 10 then if 48 \<le> c \<and> c < 48 + base then Some (c - 48) else None
         else if 48 \<le> c \<and> c \<le> 57 then Some (c - 48)
         else if 97 \<le> c \<and> c < 97 + base - 10 then Some (c - 97 + 10)
         else if 65 \<le> c \<and> c < 65 + base - 10 then Some (c - 65 + 10)
         else None)"

text \<open>The traits: the limits of the number, the base, and the reduction to the value type.\<close>

record number_traits =
  nt_min :: int
  nt_max :: int
  nt_base :: int
  nt_cast :: "int \<Rightarrow> int"

definition Positive_CheckBounds :: "number_traits \<Rightarrow> int \<Rightarrow> int \<Rightarrow> bool \<times> int" where
  "Positive_CheckBounds t output new_digit =
     (let q = nt_cast t (nt_max t div nt_base t)
      in if output > q \<or> (output = q \<and> new_digit > nt_max t mod nt_base t) then (False, nt_cast t (nt_max t))
         else (True, output))"

definition Negative_CheckBounds :: "number_traits \<Rightarrow> int \<Rightarrow> int \<Rightarrow> bool \<times> int" where
  "Negative_CheckBounds t output new_digit =
     (let q = nt_min t sdiv nt_base t
      in if output < q \<or> (output = q \<and> new_digit > 0 - nt_min t smod nt_base t) then (False, nt_min t)
         else (True, output))"

definition CheckBounds :: "bool \<Rightarrow> number_traits \<Rightarrow> int \<Rightarrow> int \<Rightarrow> bool \<times> int" where
  "CheckBounds negative = (if negative then Negative_CheckBounds else Positive_CheckBounds)"

definition Increment :: "bool \<Rightarrow> number_traits \<Rightarrow> int \<Rightarrow> int \<Rightarrow> int" where
  "Increment negative t increment output =
     nt_cast t (if negative then output - increment else output + increment)"

fun digit_loop :: "bool \<Rightarrow> number_traits \<Rightarrow> bool \<Rightarrow> 'c :: len word list \<Rightarrow> int \<Rightarrow> bool \<times> int" where
  "digit_loop negative t first [] output = (True, output)"
| "digit_loop negative t first (c # cs) output =
     (case CharToDigit (nt_base t) c of
        None \<Rightarrow> (False, output)
      | Some new_digit \<Rightarrow>
          if first then digit_loop negative t False cs (Increment negative t new_digit output)
          else (case CheckBounds negative t output new_digit of
                  (False, output') \<Rightarrow> (False, output')
                | (True, output') \<Rightarrow>
                    digit_loop negative t False cs (Increment negative t new_digit (nt_cast t (output' * nt_base t)))))"

text \<open>\<open>IteratorRangeToNumber::Base::Invoke\<close>, for both signs.\<close>

definition skip_hex_prefix :: "int \<Rightarrow> 'c :: len word list \<Rightarrow> 'c word list" where
  "skip_hex_prefix base s =
     (if base = 16 \<and> length s > 2 \<and> s ! 0 = 48 \<and> (s ! 1 = 120 \<or> s ! 1 = 88) then drop 2 s else s)"

definition Base_Invoke :: "bool \<Rightarrow> number_traits \<Rightarrow> 'c :: len word list \<Rightarrow> bool \<times> int" where
  "Base_Invoke negative t s = (if s = [] then (False, 0) else digit_loop negative t True (skip_hex_prefix (nt_base t) s) 0)"

fun skip_whitespace :: "('c :: len word \<Rightarrow> bool) \<Rightarrow> bool \<Rightarrow> 'c word list \<Rightarrow> bool \<times> 'c word list" where
  "skip_whitespace ws valid [] = (valid, [])"
| "skip_whitespace ws valid (c # cs) = (if ws c then skip_whitespace ws False cs else (valid, c # cs))"

definition IteratorRangeToNumber :: "('c :: len word \<Rightarrow> bool) \<Rightarrow> number_traits \<Rightarrow> 'c word list \<Rightarrow> bool \<times> int" where
  "IteratorRangeToNumber ws t s =
     (let (valid, s) = skip_whitespace ws True s;
          (ok, output) =
            (case s of
               c # cs \<Rightarrow> if c = 45 then Base_Invoke True t cs
                         else if c = 43 then Base_Invoke False t cs
                         else Base_Invoke False t s
             | [] \<Rightarrow> Base_Invoke False t s)
      in (valid \<and> ok, output))"

text \<open>\<open>isspace\<close> of the C locale. \<open>iswspace\<close>, for \<open>string16\<close>, depends on the locale and is a parameter.\<close>

definition isspace :: "8 word \<Rightarrow> bool" where
  "isspace c \<longleftrightarrow> c = 32 \<or> (9 \<le> c \<and> c \<le> 13)"

definition wrap64 :: "int \<Rightarrow> int" where
  "wrap64 i = (i + 2 ^ 63) mod 2 ^ 64 - 2 ^ 63"

definition int_traits :: number_traits where
  "int_traits = \<lparr>nt_min = INT_MIN, nt_max = INT_MAX, nt_base = 10, nt_cast = wrap32\<rparr>"

definition uint_traits :: number_traits where
  "uint_traits = \<lparr>nt_min = 0, nt_max = 2 ^ 32 - 1, nt_base = 10, nt_cast = (\<lambda>i. i mod 2 ^ 32)\<rparr>"

definition int64_traits :: number_traits where
  "int64_traits = \<lparr>nt_min = - (2 ^ 63), nt_max = 2 ^ 63 - 1, nt_base = 10, nt_cast = wrap64\<rparr>"

definition uint64_traits :: number_traits where
  "uint64_traits = \<lparr>nt_min = 0, nt_max = 2 ^ 64 - 1, nt_base = 10, nt_cast = (\<lambda>i. i mod 2 ^ 64)\<rparr>"

definition hex_int_traits :: number_traits where
  "hex_int_traits = \<lparr>nt_min = INT_MIN, nt_max = 2 ^ 32 - 1, nt_base = 16, nt_cast = wrap32\<rparr>"

definition StringToInt :: "std_string \<Rightarrow> bool \<times> int" where
  "StringToInt = IteratorRangeToNumber isspace int_traits"

definition StringToUint :: "std_string \<Rightarrow> bool \<times> int" where
  "StringToUint = IteratorRangeToNumber isspace uint_traits"

definition StringToInt64 :: "std_string \<Rightarrow> bool \<times> int" where
  "StringToInt64 = IteratorRangeToNumber isspace int64_traits"

definition StringToUint64 :: "std_string \<Rightarrow> bool \<times> int" where
  "StringToUint64 = IteratorRangeToNumber isspace uint64_traits"

definition StringToSizeT :: "std_string \<Rightarrow> bool \<times> int" where
  "StringToSizeT = IteratorRangeToNumber isspace uint64_traits"

definition String16ToInt :: "(char16 \<Rightarrow> bool) \<Rightarrow> string16 \<Rightarrow> bool \<times> int" where
  "String16ToInt iswspace = IteratorRangeToNumber iswspace int_traits"

definition String16ToUint :: "(char16 \<Rightarrow> bool) \<Rightarrow> string16 \<Rightarrow> bool \<times> int" where
  "String16ToUint iswspace = IteratorRangeToNumber iswspace uint_traits"

definition String16ToInt64 :: "(char16 \<Rightarrow> bool) \<Rightarrow> string16 \<Rightarrow> bool \<times> int" where
  "String16ToInt64 iswspace = IteratorRangeToNumber iswspace int64_traits"

definition String16ToUint64 :: "(char16 \<Rightarrow> bool) \<Rightarrow> string16 \<Rightarrow> bool \<times> int" where
  "String16ToUint64 iswspace = IteratorRangeToNumber iswspace uint64_traits"

definition HexStringToInt :: "std_string \<Rightarrow> bool \<times> int" where
  "HexStringToInt = IteratorRangeToNumber isspace hex_int_traits"

section \<open>Bytes in hexadecimal\<close>

definition hex_digit :: "int \<Rightarrow> 8 word" where
  "hex_digit n = lit ''0123456789ABCDEF'' ! nat n"

definition HexEncode :: "std_string \<Rightarrow> std_string" where
  "HexEncode bytes = concat (map (\<lambda>b. [hex_digit (uint (drop_bit 4 b AND 15)), hex_digit (uint (b AND 15))]) bytes)"

fun hex_pairs :: "'c :: len word list \<Rightarrow> std_string \<Rightarrow> bool \<times> std_string" where
  "hex_pairs (c # d # cs) output =
     (case (CharToDigit 16 c, CharToDigit 16 d) of
        (Some msb, Some lsb) \<Rightarrow> hex_pairs cs (output @ [of_int (push_bit 4 msb OR lsb)])
      | _ \<Rightarrow> (False, output))"
| "hex_pairs _ output = (True, output)"

definition HexStringToBytes :: "'c :: len word list \<Rightarrow> bool \<times> std_string" where
  "HexStringToBytes input = (if length input = 0 \<or> length input mod 2 \<noteq> 0 then (False, []) else hex_pairs input [])"

section \<open>Floating-point numbers\<close>

text \<open>\<open>dmg_fp::strtod\<close> gives the value, the number of bytes read and whether \<open>errno\<close> was set.\<close>

record 'd dmg_fp =
  strtod :: "std_string \<Rightarrow> 'd \<times> nat \<times> bool"
  g_fmt :: "'d \<Rightarrow> std_string"
  IsFinite :: "'d \<Rightarrow> bool"

definition StringToDouble :: "('d, 'z) dmg_fp_scheme \<Rightarrow> std_string \<Rightarrow> bool \<times> 'd" where
  "StringToDouble F input =
     (let (output, endptr, errno) = strtod F input
      in (\<not> errno \<and> input \<noteq> [] \<and> endptr = length input \<and> \<not> isspace (input ! 0), output))"

definition DoubleToString :: "('d, 'z) dmg_fp_scheme \<Rightarrow> 'd \<Rightarrow> std_string" where
  "DoubleToString F value = g_fmt F value"

section \<open>Bits\<close>

lemma and_low: "x AND (2 ^ n - 1) = x mod 2 ^ n" for x :: int
  by (metis mask_eq_exp_minus_1 take_bit_eq_mask take_bit_eq_mod)

lemma high_or_low: "0 \<le> lo \<Longrightarrow> lo < 2 ^ n \<Longrightarrow> hi * 2 ^ n OR lo = hi * 2 ^ n + lo" for lo hi :: int
proof -
  assume lo: "0 \<le> lo" "lo < 2 ^ n"
  then have "take_bit n lo = lo" by (simp add: take_bit_int_eq_self)
  moreover have "push_bit n hi AND take_bit n lo = 0"
    by (rule bit_eqI) (auto simp: bit_and_iff bit_push_bit_iff bit_take_bit_iff)
  ultimately have "hi * 2 ^ n AND lo = 0" by (simp add: push_bit_eq_mult)
  then show ?thesis by (simp add: disjunctive_add_eq_or)
qed
section \<open>What the parser computes\<close>

definition is_digit :: "int \<Rightarrow> 'c :: len word \<Rightarrow> bool" where
  "is_digit base c \<longleftrightarrow> CharToDigit base c \<noteq> None"

definition horner :: "int \<Rightarrow> int \<Rightarrow> 'c :: len word list \<Rightarrow> int" where
  "horner base v cs = foldl (\<lambda>v c. v * base + the (CharToDigit base c)) v (takeWhile (is_digit base) cs)"

lemma horner_Nil [simp]: "horner base v [] = v"
  by (simp add: horner_def)

lemma horner_Cons [simp]:
  "horner base v (c # cs) = (case CharToDigit base c of None \<Rightarrow> v | Some d \<Rightarrow> horner base (v * base + d) cs)"
  by (simp add: horner_def is_digit_def split: option.splits)

lemma CharToDigit_bounds: "CharToDigit base c = Some d \<Longrightarrow> base \<le> 36 \<Longrightarrow> 1 \<le> base \<Longrightarrow> 0 \<le> d \<and> d < base"
  by (auto simp: CharToDigit_def Let_def split: if_splits)

lemma horner_mono: "1 \<le> base \<Longrightarrow> base \<le> 36 \<Longrightarrow> 0 \<le> v \<Longrightarrow> v \<le> horner base v cs"
proof (induction cs arbitrary: v)
  case (Cons c cs)
  show ?case
  proof (cases "CharToDigit base c")
    case (Some d)
    then have d: "0 \<le> d" using CharToDigit_bounds Cons.prems by blast
    have "v * 1 \<le> v * base" using Cons.prems by (intro mult_left_mono) auto
    then have "v \<le> v * base + d" using d by simp
    then show ?thesis using Some Cons.IH [of "v * base + d"] Cons.prems by simp
  qed simp
qed simp

text \<open>A number type whose operations are exact within its limits.\<close>

definition exact_traits :: "number_traits \<Rightarrow> bool" where
  "exact_traits t \<longleftrightarrow> 2 \<le> nt_base t \<and> nt_base t \<le> 36 \<and> nt_base t \<le> nt_max t \<and>
     (\<forall>v. nt_min t \<le> v \<and> v \<le> nt_max t \<longrightarrow> nt_cast t v = v) \<and> nt_min t \<le> 0"

lemma over_limit:
  fixes m b v d :: int
  assumes "0 \<le> d" and "d < b"
  shows "v > m div b \<or> v = m div b \<and> d > m mod b \<longleftrightarrow> v * b + d > m"
proof -
  have m: "m = m div b * b + m mod b" "0 \<le> m mod b" "m mod b < b" using assms by simp_all
  consider "v < m div b" | "v = m div b" | "v > m div b" by linarith
  then show ?thesis
  proof cases
    case 1
    then have "(v + 1) * b \<le> m div b * b" using assms by (intro mult_right_mono) auto
    then have "v * b + b \<le> m div b * b" by (simp add: algebra_simps)
    then have "v * b + d < m" using m assms by linarith
    then show ?thesis using 1 by simp
  next
    case 2
    have "m < m div b * b + d \<longleftrightarrow> m mod b < d" using m(1) by linarith
    then show ?thesis using 2 by simp
  next
    case 3
    then have "(m div b + 1) * b \<le> v * b" using assms by (intro mult_right_mono) auto
    then have "m div b * b + b \<le> v * b" by (simp add: algebra_simps)
    then have "m < v * b + d" using m assms by linarith
    then show ?thesis using 3 by simp
  qed
qed

lemma Positive_CheckBounds_eq:
  assumes "exact_traits t" and "0 \<le> d" and "d < nt_base t"
  shows "Positive_CheckBounds t v d = (if v * nt_base t + d > nt_max t then (False, nt_max t) else (True, v))"
proof -
  have t: "nt_cast t (nt_max t) = nt_max t" "nt_cast t (nt_max t div nt_base t) = nt_max t div nt_base t"
  proof -
    have b: "2 \<le> nt_base t" "nt_base t \<le> nt_max t" "nt_min t \<le> 0" using assms(1) by (auto simp: exact_traits_def)
    have "0 \<le> nt_max t div nt_base t" "nt_max t div nt_base t \<le> nt_max t"
      using b by (auto simp: pos_imp_zdiv_nonneg_iff intro: order_trans [OF zdiv_mono2 [of _ 1]])
    then show "nt_cast t (nt_max t) = nt_max t" "nt_cast t (nt_max t div nt_base t) = nt_max t div nt_base t"
      using assms(1) b by (auto simp: exact_traits_def)
  qed
  show ?thesis using over_limit [OF assms(2,3), where v = v and m = "nt_max t"] t by (auto simp: Positive_CheckBounds_def Let_def)
qed

lemma Negative_CheckBounds_eq:
  assumes "exact_traits t" and "0 \<le> d" and "d < nt_base t"
  shows "Negative_CheckBounds t (- v) d = (if v * nt_base t + d > - nt_min t then (False, nt_min t) else (True, - v))"
proof -
  have b: "2 \<le> nt_base t" "nt_min t \<le> 0" using assms(1) by (auto simp: exact_traits_def)
  have q: "nt_min t sdiv nt_base t = - ((- nt_min t) div nt_base t)"
    using b by (cases "nt_min t = 0") (auto simp: signed_divide_int_def)
  have r: "nt_min t smod nt_base t = - ((- nt_min t) mod nt_base t)"
    using b by (cases "nt_min t = 0") (auto simp: signed_modulo_int_def)
  show ?thesis using over_limit [OF assms(2,3), where v = v and m = "- nt_min t"] by (auto simp: Negative_CheckBounds_def Let_def q r)
qed

text \<open>The loops parse the digits in front and stop at the limit.\<close>

lemma digit_loop_positive:
  assumes "exact_traits t" and "0 \<le> v" and "v \<le> nt_max t"
  shows "digit_loop False t False cs v =
    (list_all (is_digit (nt_base t)) cs \<and> horner (nt_base t) v cs \<le> nt_max t, min (horner (nt_base t) v cs) (nt_max t))"
  using assms(2,3)
proof (induction cs arbitrary: v)
  case (Cons c cs)
  have t: "1 \<le> nt_base t" "nt_base t \<le> 36" "nt_min t \<le> 0" using assms(1) by (auto simp: exact_traits_def)
  show ?case
  proof (cases "CharToDigit (nt_base t) c")
    case None
    then show ?thesis using Cons.prems by (simp add: is_digit_def)
  next
    case (Some d)
    then have d: "0 \<le> d" "d < nt_base t" using CharToDigit_bounds t by blast+
    let ?v = "v * nt_base t + d"
    have nn: "0 \<le> v * nt_base t" using Cons.prems t by simp
    note chk = Positive_CheckBounds_eq [OF assms(1) d, of v]
    show ?thesis
    proof (cases "?v > nt_max t")
      case True
      then have "horner (nt_base t) ?v cs > nt_max t" using horner_mono [OF t(1,2), of ?v cs] nn d by linarith
      then show ?thesis using Some True chk by (simp add: CheckBounds_def is_digit_def)
    next
      case False
      then have cast: "nt_cast t (v * nt_base t) = v * nt_base t" "nt_cast t ?v = ?v"
        using assms(1) nn d t by (auto simp: exact_traits_def)
      then show ?thesis using Some False chk Cons.IH [of ?v] nn d by (simp add: CheckBounds_def is_digit_def Increment_def)
    qed
  qed
qed simp

lemma digit_loop_negative:
  assumes "exact_traits t" and "0 \<le> v" and "v \<le> - nt_min t"
  shows "digit_loop True t False cs (- v) =
    (list_all (is_digit (nt_base t)) cs \<and> horner (nt_base t) v cs \<le> - nt_min t, - min (horner (nt_base t) v cs) (- nt_min t))"
  using assms(2,3)
proof (induction cs arbitrary: v)
  case (Cons c cs)
  have t: "1 \<le> nt_base t" "nt_base t \<le> 36" "0 \<le> nt_max t" using assms(1) by (auto simp: exact_traits_def)
  show ?case
  proof (cases "CharToDigit (nt_base t) c")
    case None
    then show ?thesis using Cons.prems by (simp add: is_digit_def)
  next
    case (Some d)
    then have d: "0 \<le> d" "d < nt_base t" using CharToDigit_bounds t by blast+
    let ?v = "v * nt_base t + d"
    have nn: "0 \<le> v * nt_base t" using Cons.prems t by simp
    note chk = Negative_CheckBounds_eq [OF assms(1) d, of v]
    show ?thesis
    proof (cases "?v > - nt_min t")
      case True
      then have "horner (nt_base t) ?v cs > - nt_min t" using horner_mono [OF t(1,2), of ?v cs] nn d by linarith
      then show ?thesis using Some True chk by (simp add: CheckBounds_def is_digit_def)
    next
      case False
      then have cast: "nt_cast t (- v * nt_base t) = - v * nt_base t" "nt_cast t (- v * nt_base t - d) = - ?v"
        using assms(1) nn d t by (auto simp: exact_traits_def)
      then show ?thesis using Some False chk Cons.IH [of ?v] nn d by (simp add: CheckBounds_def is_digit_def Increment_def)
    qed
  qed
qed simp

lemma Base_Invoke_eq:
  assumes "exact_traits t" and "nt_base t \<noteq> 16" and "limit = (if neg then - nt_min t else nt_max t)" and "nt_base t \<le> limit"
  shows "Base_Invoke neg t s =
    (s \<noteq> [] \<and> list_all (is_digit (nt_base t)) s \<and> horner (nt_base t) 0 s \<le> limit,
     (if neg then - 1 else 1) * min (horner (nt_base t) 0 s) limit)"
proof (cases s)
  case Nil
  then show ?thesis using assms by (auto simp: Base_Invoke_def exact_traits_def)
next
  case (Cons c cs)
  have t: "1 \<le> nt_base t" "nt_base t \<le> 36" "nt_min t \<le> 0" "0 \<le> nt_max t" using assms(1) by (auto simp: exact_traits_def)
  show ?thesis
  proof (cases "CharToDigit (nt_base t) c")
    case None
    then show ?thesis using assms(2,4) t Cons by (auto simp: Base_Invoke_def skip_hex_prefix_def is_digit_def)
  next
    case (Some d)
    then have d: "0 \<le> d" "d \<le> limit" using CharToDigit_bounds [OF Some] t assms(4) by auto
    have cast: "nt_cast t (if neg then - d else d) = (if neg then - d else d)"
      using assms(1,3) d t by (auto simp: exact_traits_def)
    show ?thesis
    proof (cases neg)
      case True
      then show ?thesis using Some cast d digit_loop_negative [OF assms(1), of d cs] assms(2,3) Cons
        by (simp add: Base_Invoke_def skip_hex_prefix_def is_digit_def Increment_def)
    next
      case False
      then show ?thesis using Some cast d digit_loop_positive [OF assms(1), of d cs] assms(2,3) Cons
        by (simp add: Base_Invoke_def skip_hex_prefix_def is_digit_def Increment_def)
    qed
  qed
qed

lemma skip_whitespace_eq: "skip_whitespace ws valid s = (valid \<and> dropWhile ws s = s, dropWhile ws s)"
proof (induction s arbitrary: valid)
  case (Cons c cs)
  have "dropWhile ws cs \<noteq> c # cs" by (metis length_dropWhile_le length_Cons not_less_eq_eq order_refl)
  then show ?case using Cons by simp
qed simp

text \<open>The sign and the rest of a number.\<close>

definition split_sign :: "'c :: len word list \<Rightarrow> bool \<times> 'c word list" where
  "split_sign s = (case s of [] \<Rightarrow> (False, []) | c # cs \<Rightarrow> if c = 45 then (True, cs) else if c = 43 then (False, cs) else (False, s))"

lemma IteratorRangeToNumber_parts:
  "IteratorRangeToNumber ws t s =
    (let (neg, ds) = split_sign (dropWhile ws s); (ok, output) = Base_Invoke neg t ds in (dropWhile ws s = s \<and> ok, output))"
proof -
  define u where "u = dropWhile ws s"
  show ?thesis
    unfolding IteratorRangeToNumber_def skip_whitespace_eq u_def [symmetric]
    by (cases u) (simp_all add: split_sign_def split: prod.split)
qed

lemma IteratorRangeToNumber_eq:
  fixes s :: "'c :: len word list"
  assumes "exact_traits t" and "nt_base t \<noteq> 16" and "nt_base t \<le> - nt_min t"
  shows "IteratorRangeToNumber ws t s =
    (let (neg, ds) = split_sign (dropWhile ws s); v = (if neg then - 1 else 1) * horner (nt_base t) 0 ds
     in (dropWhile ws s = s \<and> ds \<noteq> [] \<and> list_all (is_digit (nt_base t)) ds \<and> nt_min t \<le> v \<and> v \<le> nt_max t,
         max (nt_min t) (min (nt_max t) v)))"
proof -
  have t: "1 \<le> nt_base t" "nt_base t \<le> 36" "nt_min t \<le> 0" "nt_base t \<le> nt_max t" using assms(1) by (auto simp: exact_traits_def)
  note nn = horner_mono [OF t(1,2), of 0]
  have "Base_Invoke neg t ds = (let v = (if neg then - 1 else 1) * horner (nt_base t) 0 ds
     in (ds \<noteq> [] \<and> list_all (is_digit (nt_base t)) ds \<and> nt_min t \<le> v \<and> v \<le> nt_max t, max (nt_min t) (min (nt_max t) v)))" for neg and ds :: "'c word list"
    using nn [of ds] t assms(3) Base_Invoke_eq [OF assms(1,2) refl, of neg ds] by (cases neg) (auto simp: Let_def)
  then show ?thesis by (cases "split_sign (dropWhile ws s)") (simp add: IteratorRangeToNumber_parts Let_def)
qed

lemma wrap64_id: "- (2 ^ 63) \<le> i \<Longrightarrow> i \<le> 2 ^ 63 - 1 \<Longrightarrow> wrap64 i = i"
  by (simp add: wrap64_def)

lemma exact_signed: "exact_traits int_traits" "exact_traits int64_traits"
  using wrap64_id wrap32_id by (auto simp: exact_traits_def int_traits_def int64_traits_def INT_MAX_def INT_MIN_def int_ok_def)

text \<open>(C26) \<open>StringToInt\<close> is exact on every input: it accepts a decimal number with an optional sign and nothing
  before or after it, if the number fits; and whatever it returns, it stores the value of the digits in
  front, moved to the nearest limit when that does not fit. No intermediate overflow changes the result.\<close>

theorem StringToInt_exact:
  "StringToInt s =
    (let (neg, ds) = split_sign (dropWhile isspace s); v = (if neg then - 1 else 1) * horner 10 0 ds
     in (dropWhile isspace s = s \<and> ds \<noteq> [] \<and> list_all (is_digit 10) ds \<and> INT_MIN \<le> v \<and> v \<le> INT_MAX,
         max INT_MIN (min INT_MAX v)))"
  using IteratorRangeToNumber_eq [OF exact_signed(1), of isspace s]
  by (simp add: StringToInt_def int_traits_def INT_MIN_def INT_MAX_def)

section \<open>Printing and parsing back\<close>

fun decimal :: "nat \<Rightarrow> 'c :: len word list" where
  "decimal n = (if n < 10 then [of_nat (n + 48)] else decimal (n div 10) @ [of_nat (n mod 10 + 48)])"

declare decimal.simps [simp del]

lemma int_to_string_loop_eq:
  "res < 10 ^ k \<Longrightarrow> (if is_neg then k < it else k \<le> it) \<Longrightarrow> 0 < k \<Longrightarrow>
   int_to_string_loop it is_neg (int res) out = Some ((if is_neg then [45] else []) @ decimal res @ out)"
proof (induction it arbitrary: res k out)
  case (Suc it)
  have "int res mod 10 + 48 = int (res mod 10 + 48)" by (simp add: zmod_int)
  then have d: "of_int (int res mod 10 + 48) = (of_nat (res mod 10 + 48) :: 'a word)" by (metis of_int_of_nat_eq)
  have q: "int res div 10 = int (res div 10)" by (simp add: zdiv_int)
  show ?case
  proof (cases "res < 10")
    case True
    then show ?thesis using Suc.prems d q by (auto simp: decimal.simps [of res] Let_def)
  next
    case False
    then have nz: "res div 10 \<noteq> 0" by (simp add: div_eq_0_iff)
    obtain k' where k: "k = Suc k'" "0 < k'" using False Suc.prems by (cases k; cases "k - 1") auto
    then have "res div 10 < 10 ^ k'" using Suc.prems(1) by (simp add: less_mult_imp_div_less mult.commute)
    then show ?thesis
      using False Suc.IH [of "res div 10" k' "of_nat (res mod 10 + 48) # out"] Suc.prems(2) k d q nz
      by (simp add: decimal.simps [of res] Let_def split: if_splits)
  qed
qed (auto split: if_splits)

lemma digit_char: "d < 10 \<Longrightarrow> CharToDigit 10 (of_nat (d + 48) :: 8 word) = Some (int d)"
proof -
  assume "d < 10"
  then have "uint (of_nat (d + 48) :: 8 word) = int (d + 48)"
    by (simp only: unsigned_of_nat) (simp add: take_bit_nat_eq_self)
  then show ?thesis using \<open>d < 10\<close> unfolding CharToDigit_def by (simp del: of_nat_add)
qed

lemma horner_append: "list_all (is_digit base) s \<Longrightarrow> horner base v (s @ t) = horner base (horner base v s) t"
  by (induction s arbitrary: v) (auto simp: is_digit_def)

lemma decimal_digits: "list_all (is_digit 10) (decimal n :: std_string) \<and> horner 10 0 (decimal n :: std_string) = int n"
proof (induction n rule: decimal.induct)
  case (1 n)
  show ?case
  proof (cases "n < 10")
    case True
    then show ?thesis using digit_char by (simp add: decimal.simps [of n] is_digit_def)
  next
    case False
    have "int (n div 10) * 10 + int (n mod 10) = int n" by (metis div_mult_mod_eq of_nat_add of_nat_mult of_nat_numeral)
    moreover have "is_digit 10 (of_nat (n mod 10 + 48) :: 8 word)" using digit_char [of "n mod 10"] by (simp add: is_digit_def)
    ultimately show ?thesis
      using False 1 digit_char [of "n mod 10"] by (simp add: decimal.simps [of n] horner_append del: of_nat_add)
  qed
qed

lemma decimal_first: "\<exists>c cs. decimal n = (c :: 8 word) # cs \<and> c \<noteq> 45 \<and> c \<noteq> 43 \<and> \<not> isspace c"
proof -
  have "decimal n \<noteq> ([] :: std_string)" by (simp add: decimal.simps [of n])
  then obtain c cs where c: "decimal n = (c :: 8 word) # cs" by (cases "decimal n :: std_string") auto
  then have "is_digit 10 c" using decimal_digits [of n] by simp
  then have "48 \<le> uint c" by (auto simp: is_digit_def CharToDigit_def Let_def split: if_splits)
  then have "48 \<le> c" by (simp add: word_le_def)
  then show ?thesis using c by (auto simp: isspace_def word_le_def)
qed

lemma IntToStringT_eq:
  assumes "bits \<in> {32, 64}" and "if neg then - (2 ^ (bits - 1)) \<le> n \<and> n < 2 ^ (bits - 1) else 0 \<le> n \<and> n < 2 ^ bits"
  shows "IntToStringT bits neg n = Some ((if n < 0 then [45] else []) @ decimal (nat \<bar>n\<bar>))"
proof -
  let ?k = "if bits = 32 then 10 else 20 :: nat"
  have "nat \<bar>n\<bar> < 10 ^ ?k" using assms by (auto split: if_splits)
  moreover have "ToUnsigned bits neg n = int (nat \<bar>n\<bar>)" using assms by (auto simp: ToUnsigned_def split: if_splits)
  moreover have "TestNeg neg n = (n < 0)" using assms(2) by (auto simp: TestNeg_def split: if_splits)
  ultimately show ?thesis
    using int_to_string_loop_eq [of "nat \<bar>n\<bar>" ?k "n < 0" "3 * (bits div 8) + 1" "[]"] assms(1) by (auto simp: IntToStringT_def)
qed

text \<open>Numbers survive printing and parsing, for every value of the type, the most negative one included, and
  the buffer of the printer is never left.\<close>

theorem number_roundtrip:
  "int_ok n \<Longrightarrow> \<exists>s. IntToString n = Some s \<and> StringToInt s = (True, n)"
  "- (2 ^ 63) \<le> m \<Longrightarrow> m < 2 ^ 63 \<Longrightarrow> \<exists>s. Int64ToString m = Some s \<and> StringToInt64 s = (True, m)"
proof -
  have parsed: "dropWhile isspace s = s \<and> split_sign s = (n < 0, decimal (nat \<bar>n\<bar>))"
    if "s = (if n < 0 then [45] else []) @ decimal (nat \<bar>n\<bar>)" for s n
    using that decimal_first [of "nat \<bar>n\<bar>"] by (auto simp: split_sign_def isspace_def)
  show "\<exists>s. IntToString n = Some s \<and> StringToInt s = (True, n)" if n: "int_ok n"
    using IntToStringT_eq [of 32 True n] n parsed [OF refl, of n] decimal_digits [of "nat \<bar>n\<bar>"] decimal_first [of "nat \<bar>n\<bar>"]
      IteratorRangeToNumber_eq [OF exact_signed(1), of isspace]
    by (auto simp: IntToString_def StringToInt_def int_traits_def int_ok_def INT_MIN_def INT_MAX_def)
  show "\<exists>s. Int64ToString m = Some s \<and> StringToInt64 s = (True, m)" if m: "- (2 ^ 63) \<le> m" "m < 2 ^ 63"
    using IntToStringT_eq [of 64 True m] m parsed [OF refl, of m] decimal_digits [of "nat \<bar>m\<bar>"] decimal_first [of "nat \<bar>m\<bar>"]
      IteratorRangeToNumber_eq [OF exact_signed(2), of isspace]
    by (auto simp: Int64ToString_def StringToInt64_def int64_traits_def)
qed

lemma number_roundtrip_witness:
  "(\<exists>s. IntToString (- 2147483648) = Some s \<and> StringToInt s = (True, - 2147483648)) \<and>
   (\<exists>s. Int64ToString 9223372036854775807 = Some s \<and> StringToInt64 s = (True, 9223372036854775807))"
proof
  show "\<exists>s. IntToString (- 2147483648) = Some s \<and> StringToInt s = (True, - 2147483648)"
    by (rule number_roundtrip(1)) (simp add: int_ok_def INT_MIN_def INT_MAX_def)
  show "\<exists>s. Int64ToString 9223372036854775807 = Some s \<and> StringToInt64 s = (True, 9223372036854775807)"
    by (rule number_roundtrip(2)) simp_all
qed

section \<open>Hexadecimal\<close>

lemma nibbles: "uint (drop_bit 4 b) mod 16 = uint b div 16" "uint (b AND 15) = uint b mod 16" for b :: "8 word"
proof -
  show "uint (b AND 15) = uint b mod 16" using and_low [of "uint b" 4] by (simp add: uint_and)
  have "uint (drop_bit 4 b) = uint b div 16"
    using uint_lt2p [of b] by (simp only: unsigned_drop_bit_eq) (simp add: drop_bit_eq_div take_bit_eq_mod)
  then show "uint (drop_bit 4 b) mod 16 = uint b div 16" using uint_lt2p [of b] by (simp add: pos_imp_zdiv_nonneg_iff)
qed

lemma hex_byte: "of_int (push_bit 4 (uint b div 16) OR uint b mod 16) = b" for b :: "8 word"
proof -
  have "push_bit 4 (uint b div 16) OR uint b mod 16 = uint b"
    using high_or_low [of "uint b mod 16" 4 "uint b div 16"] by (simp add: push_bit_eq_mult)
  then show ?thesis by simp
qed

lemma hex_digits_chars: "list_all (\<lambda>n. CharToDigit 16 (hex_digit (int n)) = Some (int n)) [0..<16]"
  by (simp add: upt_rec hex_digit_def lit_def CharToDigit_def Let_def)

lemma hex_digit_char: "0 \<le> n \<Longrightarrow> n < 16 \<Longrightarrow> CharToDigit 16 (hex_digit n) = Some n"
  using hex_digits_chars by (auto simp: list_all_iff dest: bspec [of _ _ "nat n"])

lemma hex_pairs_HexEncode: "hex_pairs (HexEncode bytes) acc = (True, acc @ bytes)"
proof (induction bytes arbitrary: acc)
  case (Cons b bytes)
  have "uint b div 16 < 16" "0 \<le> uint b div 16" using uint_lt2p [of b] by (simp_all add: pos_imp_zdiv_nonneg_iff)
  then show ?case using Cons by (simp add: HexEncode_def nibbles hex_digit_char hex_byte)
qed (simp add: HexEncode_def)

lemma hex_roundtrip: "bytes \<noteq> [] \<Longrightarrow> HexStringToBytes (HexEncode bytes) = (True, bytes)"
proof -
  have "length (HexEncode bytes) = 2 * length bytes" by (induction bytes) (auto simp: HexEncode_def)
  then show "bytes \<noteq> [] \<Longrightarrow> ?thesis" by (simp add: HexStringToBytes_def hex_pairs_HexEncode)
qed

section \<open>Where the guarantees end\<close>

text \<open>A negative number is accepted for an unsigned type, and wraps around.\<close>

lemma negative_unsigned_accepted: "StringToUint (lit ''-42'') = (True, 4294967254)"
  by code_simp

text \<open>The limit of hexadecimal numbers is unsigned and the value is signed: once the value has turned negative
  no further digit is refused.\<close>

lemma long_hex_accepted: "HexStringToInt (lit ''800000000'') = (True, 0)" "HexStringToInt (lit ''FFFFFFFFF'') = (True, - 1)"
  by code_simp+

end
