(* ===== verification/Utf_Strings.thy ===== *)
theory Utf_Strings
  imports String_Numbers Utf16_Indexing
begin

unbundle bit_operations_syntax

text \<open>
  UTF-8 and UTF-16: the macros of \<open>src/base/third_party/icu/icu_utf.h\<close> and \<open>icu_utf.cc\<close>, the reading and
  writing of one character (\<open>src/base/utf_string_conversion_utils.cc\<close>) and the conversions of strings
  (\<open>src/base/utf_string_conversions.cc\<close>). A code point is the \<open>int32\<close> of the macros, an \<open>int\<close>, with the
  value -1 for an error. A reading function takes the string and an index and returns the new index with
  its result.
\<close>

section \<open>The macros\<close>

definition uint32 :: "int \<Rightarrow> int" where
  "uint32 c = c mod 2 ^ 32"

definition CBU_SENTINEL :: int where
  "CBU_SENTINEL = - 1"

definition CBU_IS_SURROGATE :: "int \<Rightarrow> bool" where
  "CBU_IS_SURROGATE c \<longleftrightarrow> c AND 0xfffff800 = 0xd800"

definition CBU16_IS_SURROGATE_LEAD :: "int \<Rightarrow> bool" where
  "CBU16_IS_SURROGATE_LEAD c \<longleftrightarrow> c AND 0x400 = 0"

text \<open>\<open>CBU16_IS_TRAIL\<close> on an \<open>int\<close>.\<close>

definition CBU16_IS_TRAIL32 :: "int \<Rightarrow> bool" where
  "CBU16_IS_TRAIL32 c \<longleftrightarrow> c AND 0xfffffc00 = 0xdc00"

definition CBU16_GET_SUPPLEMENTARY :: "int \<Rightarrow> int \<Rightarrow> int" where
  "CBU16_GET_SUPPLEMENTARY lead trail = uint32 (push_bit 10 lead + trail - (push_bit 10 0xd800 + 0xdc00 - 0x10000))"

definition CBU16_LENGTH :: "int \<Rightarrow> nat" where
  "CBU16_LENGTH c = (if uint32 c \<le> 0xffff then 1 else 2)"

definition CBU16_APPEND_UNSAFE :: "int \<Rightarrow> string16" where
  "CBU16_APPEND_UNSAFE c =
     (if uint32 c \<le> 0xffff then [of_int c] else [of_int (drop_bit 10 c + 0xd7c0), of_int ((c AND 0x3ff) OR 0xdc00)])"

definition CBU8_COUNT_TRAIL_BYTES :: "int \<Rightarrow> nat" where
  "CBU8_COUNT_TRAIL_BYTES lead =
     (if lead < 0xc0 then 0 else if lead < 0xe0 then 1 else if lead < 0xf0 then 2 else if lead < 0xf8 then 3
      else if lead < 0xfc then 4 else if lead < 0xfe then 5 else 0)"

definition CBU8_IS_LEAD :: "int \<Rightarrow> bool" where
  "CBU8_IS_LEAD c \<longleftrightarrow> (c - 0xc0) mod 256 < 0x3e"

definition CBU8_IS_TRAIL :: "8 word \<Rightarrow> bool" where
  "CBU8_IS_TRAIL b \<longleftrightarrow> uint b AND 0xc0 = 0x80"

definition utf8_minLegal :: "nat \<Rightarrow> int" where
  "utf8_minLegal n = [0, 0x80, 0x800, 0x10000] ! n"

text \<open>One trail byte is taken: the index, the code point so far and whether the sequence is illegal.\<close>

definition take_trail :: "std_string \<Rightarrow> nat \<times> int \<times> bool \<Rightarrow> nat \<times> int \<times> bool" where
  "take_trail s = (\<lambda>(i, c, illegal). (Suc i, push_bit 6 c OR (uint (s ! i) AND 0x3f), illegal \<or> \<not> CBU8_IS_TRAIL (s ! i)))"

definition take_trails :: "std_string \<Rightarrow> nat \<Rightarrow> nat \<times> int \<times> bool \<Rightarrow> nat \<times> int \<times> bool" where
  "take_trails s n st =
     (if n = 3
      then (let (i, c, illegal) = take_trail s st
            in if c < 0x110 then take_trail s (take_trail s (i, c, illegal)) else (i, c, True))
      else if n = 2 then take_trail s (take_trail s st)
      else if n = 1 then take_trail s st
      else (case st of (i, c, _) \<Rightarrow> (i, c, True)))"

fun skip_trails :: "std_string \<Rightarrow> nat \<Rightarrow> nat \<Rightarrow> nat" where
  "skip_trails s i 0 = i"
| "skip_trails s i (Suc n) = (if CBU8_IS_TRAIL (s ! i) then skip_trails s (Suc i) n else i)"

text \<open>With the argument \<open>strict\<close> -1 that all callers pass.\<close>

definition utf8_nextCharSafeBody :: "std_string \<Rightarrow> nat \<Rightarrow> int \<Rightarrow> nat \<times> int" where
  "utf8_nextCharSafeBody s i c =
     (let count = CBU8_COUNT_TRAIL_BYTES c
      in if i + count \<le> length s
         then if count = 0 then (i, CBU_SENTINEL)
              else (let (i', c', illegal) = take_trails s count (i, c AND (2 ^ (6 - count) - 1), False)
                    in if illegal \<or> c' < utf8_minLegal count \<or> CBU_IS_SURROGATE c'
                       then (skip_trails s i count, CBU_SENTINEL) else (i', c'))
         else (skip_trails s i (length s - i), CBU_SENTINEL))"

definition CBU8_NEXT :: "std_string \<Rightarrow> nat \<Rightarrow> nat \<times> int" where
  "CBU8_NEXT s i =
     (let c = uint (s ! i)
      in if c \<ge> 0x80 then if CBU8_IS_LEAD c then utf8_nextCharSafeBody s (Suc i) c else (Suc i, CBU_SENTINEL)
         else (Suc i, c))"

definition CBU8_APPEND_UNSAFE :: "int \<Rightarrow> std_string" where
  "CBU8_APPEND_UNSAFE c =
     (if uint32 c \<le> 0x7f then [of_int c]
      else if uint32 c \<le> 0x7ff then [of_int (drop_bit 6 c OR 0xc0), of_int ((c AND 0x3f) OR 0x80)]
      else if uint32 c \<le> 0xffff
      then [of_int (drop_bit 12 c OR 0xe0), of_int ((drop_bit 6 c AND 0x3f) OR 0x80), of_int ((c AND 0x3f) OR 0x80)]
      else [of_int (drop_bit 18 c OR 0xf0), of_int ((drop_bit 12 c AND 0x3f) OR 0x80),
            of_int ((drop_bit 6 c AND 0x3f) OR 0x80), of_int ((c AND 0x3f) OR 0x80)])"

section \<open>Characters\<close>

definition IsValidCodepoint :: "int \<Rightarrow> bool" where
  "IsValidCodepoint c \<longleftrightarrow> (let u = uint32 c in u < 0xD800 \<or> (u \<ge> 0xE000 \<and> u \<le> 0x10FFFF))"

definition IsValidCharacter :: "int \<Rightarrow> bool" where
  "IsValidCharacter c \<longleftrightarrow>
     (let u = uint32 c
      in u < 0xD800 \<or> (u \<ge> 0xE000 \<and> u < 0xFDD0) \<or> (u > 0xFDEF \<and> u \<le> 0x10FFFF \<and> u AND 0xFFFE \<noteq> 0xFFFE))"

text \<open>Each returns the index of the last unit read, the code point and whether it is valid.\<close>

definition ReadUnicodeCharacter8 :: "std_string \<Rightarrow> nat \<Rightarrow> nat \<times> int \<times> bool" where
  "ReadUnicodeCharacter8 src i = (let (i', c) = CBU8_NEXT src i in (i' - 1, uint32 c, IsValidCodepoint c))"

definition ReadUnicodeCharacter16 :: "string16 \<Rightarrow> nat \<Rightarrow> nat \<times> int \<times> bool" where
  "ReadUnicodeCharacter16 src i =
     (let c = uint (src ! i)
      in if CBU_IS_SURROGATE c
         then if \<not> CBU16_IS_SURROGATE_LEAD c \<or> Suc i \<ge> length src \<or> \<not> CBU16_IS_TRAIL (src ! Suc i) then (i, c, False)
              else (let cp = CBU16_GET_SUPPLEMENTARY c (uint (src ! Suc i)) in (Suc i, cp, IsValidCodepoint cp))
         else (i, c, IsValidCodepoint c))"

definition WriteUnicodeCharacter8 :: "int \<Rightarrow> std_string \<Rightarrow> std_string" where
  "WriteUnicodeCharacter8 code_point dst =
     (if code_point \<le> 0x7f then dst @ [of_int code_point] else dst @ CBU8_APPEND_UNSAFE code_point)"

definition WriteUnicodeCharacter16 :: "int \<Rightarrow> string16 \<Rightarrow> string16" where
  "WriteUnicodeCharacter16 code_point dst =
     (if CBU16_LENGTH code_point = 1 then dst @ [of_int code_point] else dst @ CBU16_APPEND_UNSAFE code_point)"

section \<open>Strings\<close>

lemma skip_trails_ge: "i \<le> skip_trails s i n"
  by (induction s i n rule: skip_trails.induct) (auto intro: Suc_leD)

lemma take_trails_ge: "i \<le> fst (take_trails s n (i, c, illegal))"
  by (auto simp: take_trails_def take_trail_def Let_def split: prod.split)

lemma CBU8_NEXT_advances: "i < fst (CBU8_NEXT s i)"
proof -
  have "Suc i \<le> fst (utf8_nextCharSafeBody s (Suc i) c)" for c
    using skip_trails_ge [of "Suc i"] take_trails_ge [of "Suc i"]
    by (auto simp: utf8_nextCharSafeBody_def Let_def split_def)
  then show ?thesis by (auto simp: CBU8_NEXT_def Let_def Suc_le_eq)
qed

lemma read_advances:
  "(i', r) = ReadUnicodeCharacter8 s i \<Longrightarrow> i \<le> i'" "(i', r) = ReadUnicodeCharacter16 t i \<Longrightarrow> i \<le> i'"
  using CBU8_NEXT_advances [of i s]
  by (auto simp: ReadUnicodeCharacter8_def ReadUnicodeCharacter16_def Let_def split: prod.splits if_splits)

text \<open>\<open>ConvertUnicode\<close>, once for each type of the source.\<close>

function ConvertUnicode8 :: "(int \<Rightarrow> 'c list \<Rightarrow> 'c list) \<Rightarrow> std_string \<Rightarrow> nat \<Rightarrow> bool \<Rightarrow> 'c list \<Rightarrow> bool \<times> 'c list" where
  "ConvertUnicode8 write src i success dst =
     (if i < length src
      then (let (i', code_point, ok) = ReadUnicodeCharacter8 src i
            in if ok then ConvertUnicode8 write src (Suc i') success (write code_point dst)
               else ConvertUnicode8 write src (Suc i') False (write 0xFFFD dst))
      else (success, dst))"
  by pat_completeness auto
termination
  by (relation "measure (\<lambda>(write, src, i, success, dst). length src - i)") (auto dest!: read_advances)

function ConvertUnicode16 :: "(int \<Rightarrow> 'c list \<Rightarrow> 'c list) \<Rightarrow> string16 \<Rightarrow> nat \<Rightarrow> bool \<Rightarrow> 'c list \<Rightarrow> bool \<times> 'c list" where
  "ConvertUnicode16 write src i success dst =
     (if i < length src
      then (let (i', code_point, ok) = ReadUnicodeCharacter16 src i
            in if ok then ConvertUnicode16 write src (Suc i') success (write code_point dst)
               else ConvertUnicode16 write src (Suc i') False (write 0xFFFD dst))
      else (success, dst))"
  by pat_completeness auto
termination
  by (relation "measure (\<lambda>(write, src, i, success, dst). length src - i)") (auto dest!: read_advances)

declare ConvertUnicode8.simps [simp del] ConvertUnicode16.simps [simp del]

definition UTF8ToUTF16 :: "std_string \<Rightarrow> bool \<times> string16" where
  "UTF8ToUTF16 src = ConvertUnicode8 WriteUnicodeCharacter16 src 0 True []"

definition UTF16ToUTF8 :: "string16 \<Rightarrow> bool \<times> std_string" where
  "UTF16ToUTF8 src = ConvertUnicode16 WriteUnicodeCharacter8 src 0 True []"

text \<open>The variants for \<open>wchar_t\<close>, of 32 bits.\<close>

type_synonym wstring = "32 word list"

definition ReadUnicodeCharacter32 :: "wstring \<Rightarrow> nat \<Rightarrow> nat \<times> int \<times> bool" where
  "ReadUnicodeCharacter32 src i = (i, uint (src ! i), IsValidCodepoint (uint (src ! i)))"

definition WriteUnicodeCharacter32 :: "int \<Rightarrow> wstring \<Rightarrow> wstring" where
  "WriteUnicodeCharacter32 code_point dst = dst @ [of_int code_point]"

function ConvertUnicode32 :: "(int \<Rightarrow> 'c list \<Rightarrow> 'c list) \<Rightarrow> wstring \<Rightarrow> nat \<Rightarrow> bool \<Rightarrow> 'c list \<Rightarrow> bool \<times> 'c list" where
  "ConvertUnicode32 write src i success dst =
     (if i < length src
      then (let (i', code_point, ok) = ReadUnicodeCharacter32 src i
            in if ok then ConvertUnicode32 write src (Suc i') success (write code_point dst)
               else ConvertUnicode32 write src (Suc i') False (write 0xFFFD dst))
      else (success, dst))"
  by pat_completeness auto
termination
  by (relation "measure (\<lambda>(write, src, i, success, dst). length src - i)") (auto simp: ReadUnicodeCharacter32_def)

declare ConvertUnicode32.simps [simp del]

definition WideToUTF8 :: "wstring \<Rightarrow> bool \<times> std_string" where
  "WideToUTF8 src = ConvertUnicode32 WriteUnicodeCharacter8 src 0 True []"

definition UTF8ToWide :: "std_string \<Rightarrow> bool \<times> wstring" where
  "UTF8ToWide src = ConvertUnicode8 WriteUnicodeCharacter32 src 0 True []"

definition WideToUTF16 :: "wstring \<Rightarrow> bool \<times> string16" where
  "WideToUTF16 src = ConvertUnicode32 WriteUnicodeCharacter16 src 0 True []"

definition UTF16ToWide :: "string16 \<Rightarrow> bool \<times> wstring" where
  "UTF16ToWide src = ConvertUnicode16 WriteUnicodeCharacter32 src 0 True []"

section \<open>Bits as arithmetic\<close>

lemma and_high: "0 \<le> x \<Longrightarrow> x < 2 ^ (k + n) \<Longrightarrow> x AND ((2 ^ k - 1) * 2 ^ n) = x div 2 ^ n * 2 ^ n" for x :: int
proof -
  assume x: "0 \<le> x" "x < 2 ^ (k + n)"
  have "x AND ((2 ^ k - 1) * 2 ^ n) = x AND push_bit n (mask k)" by (simp add: push_bit_eq_mult mask_eq_exp_minus_1)
  also have "\<dots> = x AND mask (k + n) AND NOT (mask n)" by (simp add: push_bit_mask_eq and.assoc)
  also have "\<dots> = push_bit n (take_bit k (drop_bit n x))" by (simp add: slice_eq_mask)
  also have "take_bit k (drop_bit n x) = drop_bit n x"
  proof -
    have "0 \<le> x mod 2 ^ n" by simp
    then have "x div 2 ^ n * 2 ^ n \<le> x" using div_mult_mod_eq [of x "2 ^ n"] by linarith
    then have "x div 2 ^ n * 2 ^ n < 2 ^ k * 2 ^ n" by (rule le_less_trans) (use x in \<open>simp add: power_add\<close>)
    then have "x div 2 ^ n < 2 ^ k" by simp
    moreover have "0 \<le> x div 2 ^ n" using x by (simp add: pos_imp_zdiv_nonneg_iff)
    ultimately show ?thesis by (simp add: drop_bit_eq_div take_bit_int_eq_self)
  qed
  finally show ?thesis by (simp add: push_bit_eq_mult drop_bit_eq_div)
qed

lemma div_mult_eq_iff: "0 < n \<Longrightarrow> x div n * n = q * n \<longleftrightarrow> q * n \<le> x \<and> x < q * n + n" for x n q :: int
proof -
  assume n: "0 < n"
  then have "x div n * n = q * n \<longleftrightarrow> x div n = q" by simp
  also have "\<dots> \<longleftrightarrow> q * n \<le> x \<and> x < q * n + n"
    using n by (metis div_pos_geq le_less_linear minus_div_mult_eq_mod pos_mod_bound pos_mod_sign add.commute int_div_pos_eq mult.commute diff_ge_0_iff_ge add_less_cancel_left diff_add_cancel)
  finally show ?thesis .
qed

lemma surrogate_iff: "0 \<le> c \<Longrightarrow> c < 2 ^ 32 \<Longrightarrow> CBU_IS_SURROGATE c \<longleftrightarrow> 0xD800 \<le> c \<and> c < 0xE000"
  using and_high [of c 21 11] div_mult_eq_iff [of "2 ^ 11" c 27] by (simp add: CBU_IS_SURROGATE_def)

lemma trail32_iff: "0 \<le> c \<Longrightarrow> c < 2 ^ 32 \<Longrightarrow> CBU16_IS_TRAIL32 c \<longleftrightarrow> 0xDC00 \<le> c \<and> c < 0xE000"
  using and_high [of c 22 10] div_mult_eq_iff [of "2 ^ 10" c 55] by (simp add: CBU16_IS_TRAIL32_def)

lemma trail_byte_iff: "CBU8_IS_TRAIL b \<longleftrightarrow> 128 \<le> uint b \<and> uint b < 192"
  using and_high [of "uint b" 2 6] div_mult_eq_iff [of "2 ^ 6" "uint b" 2] uint_lt2p [of b] by (simp add: CBU8_IS_TRAIL_def)

lemma trail16_iff: "CBU16_IS_TRAIL c \<longleftrightarrow> 0xDC00 \<le> uint c \<and> uint c < 0xE000"
proof -
  have "CBU16_IS_TRAIL c \<longleftrightarrow> uint (c AND 0xfc00) = uint (0xdc00 :: char16)" by (simp add: CBU16_IS_TRAIL_def word_uint_eq_iff)
  then show ?thesis
    using and_high [of "uint c" 6 10] div_mult_eq_iff [of "2 ^ 10" "uint c" 55] uint_lt2p [of c] by (simp add: uint_and)
qed

lemma surrogate_lead_iff: "0xD800 \<le> c \<Longrightarrow> c < 0xE000 \<Longrightarrow> CBU16_IS_SURROGATE_LEAD c \<longleftrightarrow> c < 0xDC00"
proof -
  assume c: "0xD800 \<le> c" "c < 0xE000"
  have "c AND 0x400 = (c AND mask 11) AND 0x400" by (simp add: and.assoc mask_eq_exp_minus_1)
  also have "c AND mask 11 = c mod 2 ^ 11" by (simp flip: take_bit_eq_mask add: take_bit_eq_mod)
  also have "(c mod 2 ^ 11) AND 0x400 = c mod 2 ^ 11 div 2 ^ 10 * 2 ^ 10"
    using and_high [of "c mod 2 ^ 11" 1 10] by simp
  also have "c mod 2 ^ 11 = c - 0xD800"
    using c mod_pos_pos_trivial [of "c - 0xD800" 2048] mod_mult_self3 [of 27 2048 "c - 0xD800"] by simp
  finally show ?thesis using c div_mult_eq_iff [of 1024 "c - 0xD800" 0] by (simp add: CBU16_IS_SURROGATE_LEAD_def)
qed

lemma or_high: "0 \<le> lo \<Longrightarrow> lo < 2 ^ n \<Longrightarrow> lo OR q * 2 ^ n = q * 2 ^ n + lo" for lo :: int
  using high_or_low [of lo n q] by (simp add: or.commute)

lemma or_marks:
  "0 \<le> x \<Longrightarrow> x < 64 \<Longrightarrow> x OR 0x80 = 128 + x" "0 \<le> x \<Longrightarrow> x < 64 \<Longrightarrow> x OR 0xc0 = 192 + x"
  "0 \<le> x \<Longrightarrow> x < 16 \<Longrightarrow> x OR 0xe0 = 224 + x" "0 \<le> x \<Longrightarrow> x < 8 \<Longrightarrow> x OR 0xf0 = 240 + x"
  "0 \<le> x \<Longrightarrow> x < 1024 \<Longrightarrow> x OR 0xdc00 = 0xdc00 + x" for x :: int
  using or_high [of x 6 2] or_high [of x 6 3] or_high [of x 4 14] or_high [of x 3 30] or_high [of x 10 55] by simp_all

lemma and_marks: "x AND 0x3f = x mod 64" "x AND 0x3ff = x mod 1024" for x :: int
  using and_low [of x 6] and_low [of x 10] by simp_all

text \<open>The digits of a code point to the base 64.\<close>

lemma digits64:
  fixes c :: int
  assumes "0 \<le> c" and "c < 2 ^ 21"
  obtains w x y z where "c = ((w * 64 + x) * 64 + y) * 64 + z" "0 \<le> w" "w < 8" "0 \<le> x" "x < 64" "0 \<le> y" "y < 64" "0 \<le> z" "z < 64"
proof (rule that)
  show "c = (((c div 64 div 64 div 64) * 64 + c div 64 div 64 mod 64) * 64 + c div 64 mod 64) * 64 + c mod 64" by simp
  show "0 \<le> c div 64 div 64 div 64" "c div 64 div 64 div 64 < 8" using assms by (auto simp: zdiv_zmult2_eq [symmetric])
qed auto

lemma shifts64:
  fixes c :: int
  assumes c: "c = ((w * 64 + x) * 64 + y) * 64 + z" and b: "0 \<le> x" "x < 64" "0 \<le> y" "y < 64" "0 \<le> z" "z < 64"
  shows "drop_bit 6 c = (w * 64 + x) * 64 + y" "drop_bit 12 c = w * 64 + x" "drop_bit 18 c = w"
    and "((w * 64 + x) * 64 + y) mod 64 = y" "(w * 64 + x) mod 64 = x" "c mod 64 = z"
proof -
  have d: "(q * 64 + r) div 64 = q" "(q * 64 + r) mod 64 = r" if "0 \<le> r" "r < 64" for q r :: int
    using that by simp_all
  have s6: "drop_bit 6 v = v div 64" for v :: int by (simp add: drop_bit_eq_div)
  show 6: "drop_bit 6 c = (w * 64 + x) * 64 + y" unfolding s6 c using d b by blast
  have 12: "drop_bit 6 ((w * 64 + x) * 64 + y) = w * 64 + x" "drop_bit 6 (w * 64 + x) = w" unfolding s6 using d b by blast+
  have "drop_bit 12 c = drop_bit 6 (drop_bit 6 c)" by simp
  then show "drop_bit 12 c = w * 64 + x" unfolding 6 12 .
  have "drop_bit 18 c = drop_bit 6 (drop_bit 6 (drop_bit 6 c))" by simp
  then show "drop_bit 18 c = w" unfolding 6 12 .
  show "((w * 64 + x) * 64 + y) mod 64 = y" "(w * 64 + x) mod 64 = x" "c mod 64 = z" using d b c by blast+
qed


section \<open>Encoding and decoding one character\<close>

text \<open>The bytes of a code point that is given by its digits.\<close>

definition encoded :: "int \<Rightarrow> int \<Rightarrow> int \<Rightarrow> int \<Rightarrow> int list" where
  "encoded w x y z =
     (if w = 0 \<and> x = 0 \<and> y < 2 then [y * 64 + z]
      else if w = 0 \<and> x = 0 \<and> y < 32 then [192 + y, 128 + z]
      else if w = 0 \<and> x < 16 then [224 + x, 128 + y, 128 + z]
      else [240 + w, 128 + x, 128 + y, 128 + z])"

lemma append_encoded:
  assumes c: "c = ((w * 64 + x) * 64 + y) * 64 + z" and b: "0 \<le> w" "w < 8" "0 \<le> x" "x < 64" "0 \<le> y" "y < 64" "0 \<le> z" "z < 64"
  shows "CBU8_APPEND_UNSAFE c = map of_int (encoded w x y z)"
proof -
  note sh = shifts64 [OF c b(3-8)]
  have u: "uint32 c = c" using c b by (simp add: uint32_def)
  have r: "c \<le> 0x7f \<longleftrightarrow> w = 0 \<and> x = 0 \<and> y < 2" "c \<le> 0x7ff \<longleftrightarrow> w = 0 \<and> x = 0 \<and> y < 32" "c \<le> 0xffff \<longleftrightarrow> w = 0 \<and> x < 16"
    using c b by auto
  show ?thesis
    unfolding CBU8_APPEND_UNSAFE_def u r encoded_def and_marks sh using b c by (auto simp: or_marks)
qed

lemma byte_of_int: "0 \<le> x \<Longrightarrow> x < 256 \<Longrightarrow> uint (of_int x :: 8 word) = x"
  by (simp add: uint_word_of_int take_bit_eq_mod)

lemma take_trail_eq:
  "take_trail s (i, c, illegal) = (Suc i, c * 64 + uint (s ! i) mod 64, illegal \<or> \<not> (128 \<le> uint (s ! i) \<and> uint (s ! i) < 192))"
  using high_or_low [of "uint (s ! i) mod 64" 6 c] by (simp add: take_trail_def and_marks trail_byte_iff push_bit_eq_mult)

lemma lead_iff: "0 \<le> c \<Longrightarrow> c < 256 \<Longrightarrow> CBU8_IS_LEAD c \<longleftrightarrow> 192 \<le> c \<and> c < 254"
proof (cases "192 \<le> c")
  case False
  assume "0 \<le> c" "c < 256"
  then have "(c - 192) mod 256 = c + 64" using False mod_pos_pos_trivial [of "c + 64" 256] mod_add_self2 [of "c - 192" 256] by simp
  then show ?thesis using False \<open>0 \<le> c\<close> by (simp add: CBU8_IS_LEAD_def)
qed (simp add: CBU8_IS_LEAD_def)


lemma low_of_mark: "0 \<le> x \<Longrightarrow> x < m \<Longrightarrow> (q * m + x) mod m = x" for x m :: int
  by simp

lemmas decode_simps = CBU8_NEXT_def lead_iff utf8_nextCharSafeBody_def CBU8_COUNT_TRAIL_BYTES_def take_trails_def take_trail_eq
  utf8_minLegal_def

lemma next_1: "uint (s ! i) < 128 \<Longrightarrow> CBU8_NEXT s i = (Suc i, uint (s ! i))"
  by (simp add: CBU8_NEXT_def)

lemma next_2:
  assumes "Suc i < length s" "uint (s ! i) = 192 + y" "uint (s ! Suc i) = 128 + z" "2 \<le> y" "y < 32" "0 \<le> z" "z < 64"
  shows "CBU8_NEXT s i = (i + 2, y * 64 + z)"
proof -
  have "(192 + y) AND 31 = y" using and_low [of "192 + y" 5] low_of_mark [of y 32 6] assms by simp
  moreover have "(128 + z) mod 64 = z" using low_of_mark [of z 64 2] assms by simp
  moreover have "\<not> CBU_IS_SURROGATE (y * 64 + z)" using assms surrogate_iff [of "y * 64 + z"] by simp
  ultimately show ?thesis using assms by (simp add: decode_simps)
qed

lemma next_3:
  assumes "i + 2 < length s" "uint (s ! i) = 224 + x" "uint (s ! (i + 1)) = 128 + y" "uint (s ! (i + 2)) = 128 + z"
    and "0 \<le> x" "x < 16" "0 \<le> y" "y < 64" "0 \<le> z" "z < 64" "x \<noteq> 0 \<or> 32 \<le> y" "\<not> CBU_IS_SURROGATE ((x * 64 + y) * 64 + z)"
  shows "CBU8_NEXT s i = (i + 3, (x * 64 + y) * 64 + z)"
proof -
  have "(224 + x) AND 15 = x" using and_low [of "224 + x" 4] low_of_mark [of x 16 14] assms by simp
  moreover have "(128 + z) mod 64 = z" "(128 + y) mod 64 = y" using low_of_mark [of z 64 2] low_of_mark [of y 64 2] assms by simp_all
  moreover have "\<not> (x * 64 + y) * 64 + z < 2048" using assms by auto
  ultimately show ?thesis using assms by (simp add: decode_simps)
qed

lemma next_4:
  assumes "i + 3 < length s" "uint (s ! i) = 240 + w" "uint (s ! (i + 1)) = 128 + x" "uint (s ! (i + 2)) = 128 + y" "uint (s ! (i + 3)) = 128 + z"
    and "0 \<le> w" "w < 8" "0 \<le> x" "x < 64" "0 \<le> y" "y < 64" "0 \<le> z" "z < 64" "w \<noteq> 0 \<or> 16 \<le> x" "w * 64 + x < 0x110"
  shows "CBU8_NEXT s i = (i + 4, ((w * 64 + x) * 64 + y) * 64 + z)"
proof -
  have "(240 + w) AND 7 = w" using and_low [of "240 + w" 3] low_of_mark [of w 8 30] assms by simp
  moreover have "(128 + z) mod 64 = z" "(128 + y) mod 64 = y" "(128 + x) mod 64 = x"
    using low_of_mark [of z 64 2] low_of_mark [of y 64 2] low_of_mark [of x 64 2] assms by simp_all
  moreover have big: "\<not> ((w * 64 + x) * 64 + y) * 64 + z < 65536" using assms by auto
  moreover have "\<not> CBU_IS_SURROGATE (((w * 64 + x) * 64 + y) * 64 + z)"
    using surrogate_iff [of "((w * 64 + x) * 64 + y) * 64 + z"] big assms(6-13) by simp
  ultimately show ?thesis using assms by (simp add: decode_simps numeral_3_eq_3)
qed

definition scalar :: "int \<Rightarrow> bool" where
  "scalar c \<longleftrightarrow> 0 \<le> c \<and> (c < 0xD800 \<or> 0xE000 \<le> c \<and> c \<le> 0x10FFFF)"

lemma next_encoded:
  assumes "scalar c"
  shows "CBU8_NEXT (p @ CBU8_APPEND_UNSAFE c @ q) (length p) = (length p + length (CBU8_APPEND_UNSAFE c), c)"
proof -
  have lim: "0 \<le> c" "c < 2 ^ 21" "c < 0x110000" using assms by (auto simp: scalar_def)
  obtain w x y z where c: "c = ((w * 64 + x) * 64 + y) * 64 + z"
    and b: "0 \<le> w" "w < 8" "0 \<le> x" "x < 64" "0 \<le> y" "y < 64" "0 \<le> z" "z < 64" by (rule digits64 [OF lim(1,2)])
  let ?es = "encoded w x y z" and ?i = "length p"
  define s where "s = p @ map of_int ?es @ q"
  have e: "0 \<le> v \<and> v < 256" if "v \<in> set ?es" for v using that b by (auto simp: encoded_def split: if_splits)
  have at: "uint (s ! (?i + k)) = ?es ! k" if "k < length ?es" for k
    using that e [OF nth_mem [OF that]] by (simp add: s_def nth_append byte_of_int)
  have len: "?i + length ?es \<le> length s" by (simp add: s_def)
  have sur: "\<not> CBU_IS_SURROGATE c" using assms surrogate_iff [of c] lim by (auto simp: scalar_def)
  consider (1) "w = 0" "x = 0" "y < 2" | (2) "w = 0" "x = 0" "2 \<le> y" "y < 32"
    | (3) "w = 0" "x < 16" "x \<noteq> 0 \<or> 32 \<le> y" | (4) "w \<noteq> 0 \<or> 16 \<le> x" by linarith
  then have "CBU8_NEXT s ?i = (?i + length ?es, c)"
  proof cases
    case 1
    then show ?thesis using at [of 0] c b next_1 [of s ?i] by (simp add: encoded_def)
  next
    case 2
    then show ?thesis using at [of 0] at [of 1] len next_2 [of ?i s y z] b c by (simp add: encoded_def)
  next
    case 3
    then have es: "?es = [224 + x, 128 + y, 128 + z]" by (auto simp: encoded_def)
    show ?thesis using at [of 0] at [of 1] at [of 2] len next_3 [of ?i s x y z] b c sur 3 unfolding es by simp
  next
    case 4
    then have es: "?es = [240 + w, 128 + x, 128 + y, 128 + z]" by (auto simp: encoded_def)
    have "(w * 64 + x) * 4096 < 0x110 * 4096" using c b(5,7) lim(3) by simp
    then have "w * 64 + x < 0x110" by simp
    then show ?thesis
      using at [of 0] at [of 1] at [of 2] at [of 3] len next_4 [of ?i s w x y z] b c 4 unfolding es by (simp add: numeral_3_eq_3)
  qed
  then show ?thesis by (simp add: append_encoded [OF c b] s_def)
qed


text \<open>What is decoded is the encoding of its result.\<close>

lemma trail_digit: "128 \<le> uint b \<Longrightarrow> uint b < 192 \<Longrightarrow> \<exists>z. uint b = 128 + z \<and> 0 \<le> z \<and> z < 64 \<and> uint b mod 64 = z" for b :: "8 word"
  using low_of_mark [of "uint b - 128" 64 2] by (intro exI [of _ "uint b - 128"]) simp

lemma sound_from_bytes:
  assumes "c = ((w * 64 + x) * 64 + y) * 64 + z" "0 \<le> w" "w < 8" "0 \<le> x" "x < 64" "0 \<le> y" "y < 64" "0 \<le> z" "z < 64"
    and "i + length (encoded w x y z) \<le> length s" and "\<forall>k < length (encoded w x y z). uint (s ! (i + k)) = encoded w x y z ! k"
  shows "take (length (CBU8_APPEND_UNSAFE c)) (drop i s) = CBU8_APPEND_UNSAFE c" "i + length (CBU8_APPEND_UNSAFE c) \<le> length s"
    and "length (CBU8_APPEND_UNSAFE c) = length (encoded w x y z)"
proof -
  have a: "CBU8_APPEND_UNSAFE c = map of_int (encoded w x y z)" by (rule append_encoded [OF assms(1-9)])
  show "i + length (CBU8_APPEND_UNSAFE c) \<le> length s" "length (CBU8_APPEND_UNSAFE c) = length (encoded w x y z)" using a assms(10) by simp_all
  have "s ! (i + k) = of_int (encoded w x y z ! k)" if "k < length (encoded w x y z)" for k
    using assms(11) that by (metis word_of_int_uint)
  then show "take (length (CBU8_APPEND_UNSAFE c)) (drop i s) = CBU8_APPEND_UNSAFE c"
    unfolding a using assms(10) by (intro nth_equalityI) simp_all
qed

lemma next_sound:
  assumes "i < length s" and "CBU8_NEXT s i = (i', c)" and "c \<noteq> CBU_SENTINEL"
  shows "scalar c \<and> i' = i + length (CBU8_APPEND_UNSAFE c) \<and> i' \<le> length s \<and> take (length (CBU8_APPEND_UNSAFE c)) (drop i s) = CBU8_APPEND_UNSAFE c"
proof -
  let ?L = "uint (s ! i)"
  have L: "0 \<le> ?L" "?L < 256" using uint_lt2p [of "s ! i"] by simp_all
  consider "?L < 128" | "128 \<le> ?L" "?L < 192" | "192 \<le> ?L" "?L < 224" | "224 \<le> ?L" "?L < 240" | "240 \<le> ?L" "?L < 248" | "248 \<le> ?L"
    by linarith
  then show ?thesis
  proof cases
    case 1
    then have c: "c = ?L" "i' = Suc i" using assms(2) by (simp_all add: next_1)
    have "c = ((0 * 64 + 0) * 64 + ?L div 64) * 64 + ?L mod 64" using c by simp
    note sb = sound_from_bytes [OF this, of i s]
    have e: "encoded 0 0 (?L div 64) (?L mod 64) = [?L]" using 1 by (simp add: encoded_def)
    show ?thesis using sb 1 c L assms(1) e by (simp add: scalar_def pos_imp_zdiv_nonneg_iff)
  next
    case 2
    then show ?thesis using assms(2,3) L by (simp add: CBU8_NEXT_def lead_iff)
  next
    case 3
    define y where "y = ?L - 192"
    have y: "?L = 192 + y" "0 \<le> y" "y < 32" using 3 by (simp_all add: y_def)
    have m: "(192 + y) AND 31 = y" using and_low [of "192 + y" 5] low_of_mark [of y 32 6] y by simp
    let ?t = "uint (s ! Suc i)"
    have d: "Suc i < length s" "128 \<le> ?t" "?t < 192" "c = y * 64 + ?t mod 64" "128 \<le> c" "i' = i + 2"
      using assms(2,3) 3 y m by (auto simp: decode_simps Let_def split: if_splits)
    obtain z where z: "?t = 128 + z" "0 \<le> z" "z < 64" "?t mod 64 = z" using trail_digit d by blast
    have c: "c = ((0 * 64 + 0) * 64 + y) * 64 + z" using d(4) unfolding z(4) by simp
    note sb = sound_from_bytes [OF this, of i s]
    have "2 \<le> y" using d(5) z(3) unfolding c by simp
    then have e: "encoded 0 0 y z = [192 + y, 128 + z]" using y(3) by (simp add: encoded_def)
    have "scalar c" using d(5) y(3) z(3) unfolding c by (simp add: scalar_def)
    then show ?thesis using sb [OF _ _ _ _ y(2) _ z(2,3)] d(1,6) y(1,3) z(1) unfolding e by (simp add: less_Suc_eq)
  next
    case 4
    define x where "x = ?L - 224"
    have x: "?L = 224 + x" "0 \<le> x" "x < 16" using 4 by (simp_all add: x_def)
    have m: "(224 + x) AND 15 = x" using and_low [of "224 + x" 4] low_of_mark [of x 16 14] x by simp
    let ?t = "uint (s ! Suc i)" and ?u = "uint (s ! Suc (Suc i))"
    have "Suc (Suc i) < length s \<and> (128 \<le> ?t \<and> ?t < 192) \<and> (128 \<le> ?u \<and> ?u < 192) \<and>
      c = (x * 64 + ?t mod 64) * 64 + ?u mod 64 \<and> 2048 \<le> c \<and> \<not> CBU_IS_SURROGATE c \<and> i' = i + 3"
      using assms(2,3) 4 x m by (auto simp: decode_simps Let_def split: if_splits)
    then have d: "Suc (Suc i) < length s" "128 \<le> ?t" "?t < 192" "128 \<le> ?u" "?u < 192" "c = (x * 64 + ?t mod 64) * 64 + ?u mod 64"
      "2048 \<le> c" "\<not> CBU_IS_SURROGATE c" "i' = i + 3"
      by blast+
    obtain y where y: "?t = 128 + y" "0 \<le> y" "y < 64" "?t mod 64 = y" using trail_digit d by blast
    obtain z where z: "?u = 128 + z" "0 \<le> z" "z < 64" "?u mod 64 = z" using trail_digit d by blast
    have c: "c = ((0 * 64 + x) * 64 + y) * 64 + z" using d(6) unfolding y(4) z(4) by simp
    note sb = sound_from_bytes [OF this, of i s]
    have "x \<noteq> 0 \<or> 32 \<le> y" using d(7) z(3) unfolding c by (cases "x = 0") simp_all
    then have e: "encoded 0 x y z = [224 + x, 128 + y, 128 + z]" using x(3) by (auto simp: encoded_def)
    have "scalar c" using d(7,8) c x y z surrogate_iff [of c] by (auto simp: scalar_def)
    then show ?thesis using sb [OF _ _ x(2) _ y(2,3) z(2,3)] d(1,9) x(1,3) y(1) z(1) unfolding e by (simp add: less_Suc_eq)
  next
    case 5
    define w where "w = ?L - 240"
    have w: "?L = 240 + w" "0 \<le> w" "w < 8" using 5 by (simp_all add: w_def)
    have m: "(240 + w) AND 7 = w" using and_low [of "240 + w" 3] low_of_mark [of w 8 30] w by simp
    let ?r = "uint (s ! Suc i)" and ?t = "uint (s ! Suc (Suc i))" and ?u = "uint (s ! Suc (Suc (Suc i)))"
    have "Suc (Suc (Suc i)) < length s \<and> (128 \<le> ?r \<and> ?r < 192) \<and> (128 \<le> ?t \<and> ?t < 192) \<and> (128 \<le> ?u \<and> ?u < 192) \<and>
      w * 64 + ?r mod 64 < 0x110 \<and> c = ((w * 64 + ?r mod 64) * 64 + ?t mod 64) * 64 + ?u mod 64 \<and> 65536 \<le> c \<and> i' = i + 4"
      using assms(2,3) 5 w m by (auto simp: decode_simps Let_def split: if_splits)
    then have d: "Suc (Suc (Suc i)) < length s" "128 \<le> ?r" "?r < 192" "128 \<le> ?t" "?t < 192" "128 \<le> ?u" "?u < 192"
      "w * 64 + ?r mod 64 < 0x110" "c = ((w * 64 + ?r mod 64) * 64 + ?t mod 64) * 64 + ?u mod 64" "65536 \<le> c" "i' = i + 4"
      by simp_all
    obtain x where x: "?r = 128 + x" "0 \<le> x" "x < 64" "?r mod 64 = x" using trail_digit d by blast
    obtain y where y: "?t = 128 + y" "0 \<le> y" "y < 64" "?t mod 64 = y" using trail_digit d by blast
    obtain z where z: "?u = 128 + z" "0 \<le> z" "z < 64" "?u mod 64 = z" using trail_digit d by blast
    have c: "c = ((w * 64 + x) * 64 + y) * 64 + z" using d(9) unfolding x(4) y(4) z(4) .
    note sb = sound_from_bytes [OF this, of i s]
    have "w \<noteq> 0 \<or> 16 \<le> x" using d(10) y(3) z(3) unfolding c by (cases "w = 0") simp_all
    then have e: "encoded w x y z = [240 + w, 128 + x, 128 + y, 128 + z]" by (auto simp: encoded_def)
    have "w * 64 + x < 0x110" using d(8) unfolding x(4) .
    then have "scalar c" using d(10) c y(3) z(3) by (simp add: scalar_def)
    then show ?thesis using sb [OF w(2,3) x(2,3) y(2,3) z(2,3)] d(1,11) x(1) y(1) z(1) w(1) unfolding e by (simp add: less_Suc_eq)
  next
    case 6
    then show ?thesis using assms(2,3) L by (auto simp: decode_simps Let_def split: if_splits)
  qed
qed


section \<open>Strings of characters\<close>

definition utf8 :: "int list \<Rightarrow> std_string" where
  "utf8 cs = concat (map CBU8_APPEND_UNSAFE cs)"

definition utf16 :: "int list \<Rightarrow> string16" where
  "utf16 cs = concat (map CBU16_APPEND_UNSAFE cs)"

lemma utf_simps [simp]:
  "utf8 [] = []" "utf8 (c # cs) = CBU8_APPEND_UNSAFE c @ utf8 cs" "utf8 (cs @ ds) = utf8 cs @ utf8 ds"
  "utf16 [] = []" "utf16 (c # cs) = CBU16_APPEND_UNSAFE c @ utf16 cs"
  by (simp_all add: utf8_def utf16_def)

lemma append_not_Nil [simp]: "CBU8_APPEND_UNSAFE c \<noteq> []" "CBU16_APPEND_UNSAFE c \<noteq> []"
  by (simp_all add: CBU8_APPEND_UNSAFE_def CBU16_APPEND_UNSAFE_def)

lemma valid_iff: "0 \<le> c \<Longrightarrow> c < 2 ^ 32 \<Longrightarrow> IsValidCodepoint c \<longleftrightarrow> scalar c"
  by (auto simp: IsValidCodepoint_def scalar_def uint32_def)

lemma scalar_limits: "scalar c \<Longrightarrow> 0 \<le> c \<and> c < 2 ^ 32 \<and> uint32 c = c"
  by (auto simp: scalar_def uint32_def)

lemma read8_encoded:
  "scalar c \<Longrightarrow> ReadUnicodeCharacter8 (p @ CBU8_APPEND_UNSAFE c @ q) (length p) = (length p + length (CBU8_APPEND_UNSAFE c) - 1, c, True)"
  using next_encoded [of c p q] scalar_limits [of c] valid_iff [of c] by (simp add: ReadUnicodeCharacter8_def)

lemma read8_sound:
  assumes "i < length s" and "ReadUnicodeCharacter8 s i = (i', c, True)"
  shows "scalar c \<and> Suc i' = i + length (CBU8_APPEND_UNSAFE c) \<and> Suc i' \<le> length s \<and> drop i s = CBU8_APPEND_UNSAFE c @ drop (Suc i') s"
proof -
  obtain j d where d: "CBU8_NEXT s i = (j, d)" by (cases "CBU8_NEXT s i")
  then have r: "i' = j - 1" "c = uint32 d" "IsValidCodepoint d" using assms(2) by (auto simp: ReadUnicodeCharacter8_def)
  then have "d \<noteq> CBU_SENTINEL" by (auto simp: IsValidCodepoint_def CBU_SENTINEL_def uint32_def)
  note n = next_sound [OF assms(1) d this]
  then have c: "c = d" using r scalar_limits by simp
  have j: "Suc i' = j" using n r by (cases "CBU8_APPEND_UNSAFE d") auto
  have "drop i s = take (length (CBU8_APPEND_UNSAFE d)) (drop i s) @ drop j s"
    using n by (metis append_take_drop_id drop_drop add.commute)
  then show ?thesis using n c j by simp
qed

lemma unit_of_int: "0 \<le> x \<Longrightarrow> x < 65536 \<Longrightarrow> uint (of_int x :: char16) = x"
  by (simp add: uint_word_of_int take_bit_eq_mod)

lemma pair_of_code_point:
  assumes "0x10000 \<le> c" and "c \<le> 0x10FFFF"
  shows "uint (of_int (drop_bit 10 c + 0xd7c0) :: char16) = c div 1024 + 0xd7c0" "0xD800 \<le> c div 1024 + 0xd7c0" "c div 1024 + 0xd7c0 < 0xDC00"
    and "uint (of_int ((c AND 0x3ff) OR 0xdc00) :: char16) = 0xdc00 + c mod 1024"
    and "CBU16_GET_SUPPLEMENTARY (c div 1024 + 0xd7c0) (0xdc00 + c mod 1024) = c"
proof -
  have b: "64 \<le> c div 1024" "c div 1024 < 1088" using assms by auto
  then show "0xD800 \<le> c div 1024 + 0xd7c0" "c div 1024 + 0xd7c0 < 0xDC00" by simp_all
  show "uint (of_int (drop_bit 10 c + 0xd7c0) :: char16) = c div 1024 + 0xd7c0"
    using b unit_of_int [of "c div 1024 + 0xd7c0"] by (simp add: drop_bit_eq_div)
  have "c mod 1024 < 1024" "0 \<le> c mod 1024" by simp_all
  then show "uint (of_int ((c AND 0x3ff) OR 0xdc00) :: char16) = 0xdc00 + c mod 1024"
    unfolding and_marks using or_marks(5) [of "c mod 1024"] unit_of_int [of "0xdc00 + c mod 1024"] by simp
  have "(c div 1024 + 0xd7c0) * 1024 + (0xdc00 + c mod 1024) - 0x35fdc00 = c" by simp
  then show "CBU16_GET_SUPPLEMENTARY (c div 1024 + 0xd7c0) (0xdc00 + c mod 1024) = c"
    using assms by (simp add: CBU16_GET_SUPPLEMENTARY_def push_bit_eq_mult uint32_def)
qed

lemma read16_encoded:
  assumes "scalar c"
  shows "ReadUnicodeCharacter16 (p @ CBU16_APPEND_UNSAFE c @ q) (length p) = (length p + length (CBU16_APPEND_UNSAFE c) - 1, c, True)"
proof (cases "c \<le> 0xffff")
  case True
  then have "uint (of_int c :: char16) = c" using assms unit_of_int by (simp add: scalar_def)
  then show ?thesis using True assms scalar_limits [OF assms] valid_iff [of c] surrogate_iff [of c]
    by (auto simp: ReadUnicodeCharacter16_def CBU16_APPEND_UNSAFE_def scalar_def)
next
  case False
  then have c: "0x10000 \<le> c" "c \<le> 0x10FFFF" using assms by (auto simp: scalar_def)
  note pr = pair_of_code_point [OF c]
  have "0 \<le> c mod 1024" "c mod 1024 < 1024" by simp_all
  then have t: "CBU16_IS_TRAIL (of_int ((c AND 0x3ff) OR 0xdc00))" using pr(4) by (simp add: trail16_iff)
  have "CBU_IS_SURROGATE (c div 1024 + 0xd7c0)" "CBU16_IS_SURROGATE_LEAD (c div 1024 + 0xd7c0)"
    using pr(2,3) surrogate_iff [of "c div 1024 + 0xd7c0"] surrogate_lead_iff [of "c div 1024 + 0xd7c0"] by simp_all
  then show ?thesis using False assms scalar_limits [OF assms] valid_iff [of c] pr t
    by (simp add: ReadUnicodeCharacter16_def CBU16_APPEND_UNSAFE_def nth_append)
qed


lemma read16_sound:
  assumes "i < length s" and "ReadUnicodeCharacter16 s i = (i', c, True)"
  shows "scalar c \<and> Suc i' = i + length (CBU16_APPEND_UNSAFE c) \<and> Suc i' \<le> length s \<and> drop i s = CBU16_APPEND_UNSAFE c @ drop (Suc i') s"
proof -
  let ?L = "uint (s ! i)"
  have L: "0 \<le> ?L" "?L < 65536" using uint_lt2p [of "s ! i"] by simp_all
  show ?thesis
  proof (cases "CBU_IS_SURROGATE ?L")
    case False
    then have c: "c = ?L" "i' = i" "IsValidCodepoint c" using assms(2) by (auto simp: ReadUnicodeCharacter16_def Let_def)
    then have "CBU16_APPEND_UNSAFE c = [s ! i]" using L by (simp add: CBU16_APPEND_UNSAFE_def uint32_def)
    then show ?thesis using c L valid_iff [of c] assms(1) by (simp add: Cons_nth_drop_Suc)
  next
    case True
    let ?T = "uint (s ! Suc i)"
    have r: "CBU16_IS_SURROGATE_LEAD ?L" "Suc i < length s" "CBU16_IS_TRAIL (s ! Suc i)" "c = CBU16_GET_SUPPLEMENTARY ?L ?T" "i' = Suc i"
      using assms(2) True by (auto simp: ReadUnicodeCharacter16_def Let_def split: if_splits)
    have LT: "0xD800 \<le> ?L" "?L < 0xDC00" "0xDC00 \<le> ?T" "?T < 0xE000"
      using r True L surrogate_iff [of ?L] surrogate_lead_iff [of ?L] trail16_iff [of "s ! Suc i"] by auto
    have c: "c = (?L - 0xd7c0) * 1024 + (?T - 0xdc00)"
      using r(4) LT by (simp add: CBU16_GET_SUPPLEMENTARY_def push_bit_eq_mult uint32_def)
    have "c mod 1024 = ?T - 0xdc00" unfolding c by (rule low_of_mark) (use LT in simp_all)
    moreover have "c div 1024 = ?L - 0xd7c0" "0x10000 \<le> c" "c \<le> 0x10FFFF" using c LT by simp_all
    ultimately have cr: "0x10000 \<le> c" "c \<le> 0x10FFFF" "c div 1024 = ?L - 0xd7c0" "c mod 1024 = ?T - 0xdc00" by simp_all
    have "uint (of_int (drop_bit 10 c + 0xd7c0) :: char16) = ?L" "uint (of_int ((c AND 0x3ff) OR 0xdc00) :: char16) = ?T"
      using pair_of_code_point(1,4) [OF cr(1,2)] cr(3,4) by simp_all
    then have "CBU16_APPEND_UNSAFE c = [s ! i, s ! Suc i]" using cr(1,2) by (simp add: CBU16_APPEND_UNSAFE_def uint32_def word_uint_eq_iff)
    moreover have "drop i s = s ! i # s ! Suc i # drop (Suc (Suc i)) s" using r(2) by (simp add: Cons_nth_drop_Suc)
    ultimately show ?thesis using r(2,5) cr by (simp add: scalar_def)
  qed
qed

text \<open>A reader of characters, and what the conversion of a whole string computes with it.\<close>

locale unicode_source =
  fixes read :: "'u list \<Rightarrow> nat \<Rightarrow> nat \<times> int \<times> bool"
    and enc :: "int \<Rightarrow> 'u list"
    and convert :: "(int \<Rightarrow> 'c list \<Rightarrow> 'c list) \<Rightarrow> 'u list \<Rightarrow> nat \<Rightarrow> bool \<Rightarrow> 'c list \<Rightarrow> bool \<times> 'c list"
  assumes convert_eq: "convert wr s i success dst =
      (if i < length s
       then (let (i', c, ok) = read s i
             in if ok then convert wr s (Suc i') success (wr c dst) else convert wr s (Suc i') False (wr 0xFFFD dst))
       else (success, dst))"
    and enc_not_Nil: "enc c \<noteq> []"
    and read_encoded: "scalar c \<Longrightarrow> read (p @ enc c @ q) (length p) = (length p + length (enc c) - 1, c, True)"
    and read_sound: "i < length s \<Longrightarrow> read s i = (i', c, True) \<Longrightarrow>
      scalar c \<and> Suc i' = i + length (enc c) \<and> Suc i' \<le> length s \<and> drop i s = enc c @ drop (Suc i') s"
    and read_moves: "read s i = (i', r) \<Longrightarrow> i \<le> i'"
begin

lemma encoded_converts:
  "list_all scalar cs \<Longrightarrow> convert wr (p @ concat (map enc cs)) (length p) success dst = (success, fold wr cs dst)"
proof (induction cs arbitrary: p dst)
  case Nil
  show ?case by (subst convert_eq) simp
next
  case (Cons c cs)
  have "read (p @ enc c @ concat (map enc cs)) (length p) = (length p + length (enc c) - 1, c, True)"
    using Cons.prems by (simp add: read_encoded)
  moreover have "Suc (length p + length (enc c) - 1) = length (p @ enc c)" using enc_not_Nil [of c] by (cases "enc c") simp_all
  ultimately show ?case using Cons.IH [of "p @ enc c"] Cons.prems enc_not_Nil [of c] by (subst convert_eq) simp
qed

lemma failure_stays: "\<not> fst (convert wr s i False dst)"
proof (induction "length s - i" arbitrary: i dst rule: less_induct)
  case less
  show ?case
  proof (cases "i < length s")
    case True
    obtain i' c ok where rd: "read s i = (i', c, ok)" by (cases "read s i")
    then have "length s - Suc i' < length s - i" using read_moves [OF rd] True by simp
    then show ?thesis using less True rd by (subst convert_eq) simp
  qed (subst convert_eq, simp)
qed

lemma converts_encoded:
  "convert wr s i True dst = (True, r) \<Longrightarrow> i \<le> length s \<Longrightarrow>
   \<exists>cs. list_all scalar cs \<and> drop i s = concat (map enc cs) \<and> r = fold wr cs dst"
proof (induction "length s - i" arbitrary: i dst rule: less_induct)
  case less
  show ?case
  proof (cases "i < length s")
    case False
    then have "r = dst \<and> drop i s = []" using less.prems(1) by (subst (asm) convert_eq) simp
    then show ?thesis by (intro exI [of _ "[]"]) simp
  next
    case True
    obtain i' c ok where rd: "read s i = (i', c, ok)" by (cases "read s i")
    then have c: "(if ok then convert wr s (Suc i') True (wr c dst) else convert wr s (Suc i') False (wr 0xFFFD dst)) = (True, r)"
      using less.prems(1) True by (subst (asm) convert_eq) simp
    then have ok: "ok" using failure_stays [of wr s "Suc i'" "wr 0xFFFD dst"] by (cases ok) auto
    note rs = read_sound [OF True rd [unfolded eqTrueI [OF ok]]]
    have "length s - Suc i' < length s - i" using True read_moves [OF rd] by simp
    then obtain cs where "list_all scalar cs" "drop (Suc i') s = concat (map enc cs)" "r = fold wr cs (wr c dst)"
      using less.hyps [of "Suc i'" "wr c dst"] c ok rs by auto
    then show ?thesis using rs by (intro exI [of _ "c # cs"]) simp
  qed
qed

lemma convert_exact:
  "convert wr s 0 True dst = (True, r) \<longleftrightarrow> (\<exists>cs. list_all scalar cs \<and> s = concat (map enc cs) \<and> r = fold wr cs dst)"
  using encoded_converts [of _ wr "[]" True dst] converts_encoded [of wr s 0 dst r] by auto

end

interpretation u8: unicode_source ReadUnicodeCharacter8 CBU8_APPEND_UNSAFE ConvertUnicode8
  by (unfold_locales, rule ConvertUnicode8.simps, rule append_not_Nil, erule read8_encoded, erule (1) read8_sound,
      erule read_advances(1) [OF sym])

interpretation u16: unicode_source ReadUnicodeCharacter16 CBU16_APPEND_UNSAFE ConvertUnicode16
  by (unfold_locales, rule ConvertUnicode16.simps, rule append_not_Nil, erule read16_encoded, erule (1) read16_sound,
      erule read_advances(2) [OF sym])

lemma write_eq:
  "scalar c \<Longrightarrow> WriteUnicodeCharacter8 c dst = dst @ CBU8_APPEND_UNSAFE c"
  "scalar c \<Longrightarrow> WriteUnicodeCharacter16 c dst' = dst' @ CBU16_APPEND_UNSAFE c"
  using scalar_limits [of c]
  by (auto simp: WriteUnicodeCharacter8_def WriteUnicodeCharacter16_def CBU8_APPEND_UNSAFE_def CBU16_APPEND_UNSAFE_def CBU16_LENGTH_def)

lemma write_all:
  "list_all scalar cs \<Longrightarrow> fold WriteUnicodeCharacter8 cs dst = dst @ utf8 cs"
  "list_all scalar cs \<Longrightarrow> fold WriteUnicodeCharacter16 cs dst' = dst' @ utf16 cs"
  by (induction cs arbitrary: dst dst') (simp_all add: write_eq)

lemma UTF8ToUTF16_eq: "UTF8ToUTF16 s = (True, t) \<longleftrightarrow> (\<exists>cs. list_all scalar cs \<and> s = utf8 cs \<and> t = utf16 cs)"
  unfolding UTF8ToUTF16_def u8.convert_exact using write_all(2) [of _ "[]"] by (auto simp: utf8_def)


text \<open>The same for \<open>wchar_t\<close>, whose units are the code points.\<close>

lemma read32_encoded: "scalar c \<Longrightarrow> ReadUnicodeCharacter32 (p @ [of_int c] @ q) (length p) = (length p + length [of_int c :: 32 word] - 1, c, True)"
  using scalar_limits [of c] valid_iff [of c] by (simp add: ReadUnicodeCharacter32_def uint_word_of_int take_bit_eq_mod)

lemma read32_sound:
  "i < length s \<Longrightarrow> ReadUnicodeCharacter32 s i = (i', c, True) \<Longrightarrow>
   scalar c \<and> Suc i' = i + length [of_int c :: 32 word] \<and> Suc i' \<le> length s \<and> drop i s = [of_int c] @ drop (Suc i') s"
  using uint_lt2p [of "s ! i"] valid_iff [of "uint (s ! i)"] by (auto simp: ReadUnicodeCharacter32_def Cons_nth_drop_Suc)

interpretation u32: unicode_source ReadUnicodeCharacter32 "\<lambda>c. [of_int c]" ConvertUnicode32
  by (unfold_locales, rule ConvertUnicode32.simps, rule list.distinct(2), erule read32_encoded, erule (1) read32_sound)
    (simp add: ReadUnicodeCharacter32_def)

lemma wide_conversions_exact: "(UTF8ToWide s = (True, w)) = (WideToUTF8 w = (True, s))"
proof -
  have "list_all scalar cs \<Longrightarrow> fold WriteUnicodeCharacter32 cs dst = dst @ map of_int cs" for cs dst
    by (induction cs arbitrary: dst) (simp_all add: WriteUnicodeCharacter32_def)
  moreover have "concat (map (\<lambda>c. [of_int c :: 32 word]) cs) = map of_int cs" for cs by (induction cs) simp_all
  ultimately show ?thesis
    unfolding UTF8ToWide_def WideToUTF8_def u8.convert_exact u32.convert_exact using write_all(1) [of _ "[]"] by (auto simp: utf8_def)
qed

end
