(* ===== verification/Json_Values.thy ===== *)
theory Json_Values
  imports Utf_Strings "HOL-Library.List_Lexorder"
begin

text \<open>
  \<open>src/base/values.cc\<close>: the tree of values that JSON is read into and written from. A node owns its children,
  so a tree of C++ objects is a HOL value, and a method that changes a node returns it changed. A
  \<open>std::map\<close> from keys is its list of entries in the order of the keys. Functions with an output pointer
  return an option, \<open>None\<close> for the result \<open>false\<close>. Numbers of type \<open>double\<close> are of a type \<open>'d\<close> with the operations
  of the record \<open>dmg_fp\<close>; their equality is a parameter.
\<close>

section \<open>Maps in key order\<close>

text \<open>\<open>std::map\<close> with \<open>operator[]=\<close>, \<open>find\<close> and \<open>erase\<close>, on the entries in order.\<close>

fun map_set :: "'k :: linorder \<Rightarrow> 'v \<Rightarrow> ('k \<times> 'v) list \<Rightarrow> ('k \<times> 'v) list" where
  "map_set k v [] = [(k, v)]"
| "map_set k v ((k', v') # es) =
     (if k < k' then (k, v) # (k', v') # es else if k = k' then (k, v) # es else (k', v') # map_set k v es)"

fun map_erase :: "'k \<Rightarrow> ('k \<times> 'v) list \<Rightarrow> ('k \<times> 'v) list" where
  "map_erase k [] = []"
| "map_erase k ((k', v') # es) = (if k = k' then es else (k', v') # map_erase k es)"

section \<open>Values\<close>

datatype 'd json =
    NullValue
  | BooleanValue bool
  | IntegerValue int
  | DoubleValue 'd
  | StringValue std_string
  | BinaryValue std_string
  | DictionaryValue "(std_string \<times> 'd json) list"
  | ListValue "'d json list"

type_synonym 'd dictionary = "(std_string \<times> 'd json) list"

datatype value_type = TYPE_NULL | TYPE_BOOLEAN | TYPE_INTEGER | TYPE_DOUBLE | TYPE_STRING | TYPE_BINARY | TYPE_DICTIONARY | TYPE_LIST

fun GetType :: "'d json \<Rightarrow> value_type" where
  "GetType NullValue = TYPE_NULL"
| "GetType (BooleanValue _) = TYPE_BOOLEAN"
| "GetType (IntegerValue _) = TYPE_INTEGER"
| "GetType (DoubleValue _) = TYPE_DOUBLE"
| "GetType (StringValue _) = TYPE_STRING"
| "GetType (BinaryValue _) = TYPE_BINARY"
| "GetType (DictionaryValue _) = TYPE_DICTIONARY"
| "GetType (ListValue _) = TYPE_LIST"

text \<open>Besides the operations of \<open>dmg_fp\<close>, what is needed of \<open>double\<close>: the zero, the conversions from and to
  integers, the rounding down and the comparisons.\<close>

record 'd double_ops = "'d dmg_fp" +
  d_zero :: 'd
  d_of_int :: "int \<Rightarrow> 'd"
  d_to_int64 :: "'d \<Rightarrow> int"
  d_floor :: "'d \<Rightarrow> 'd"
  d_le :: "'d \<Rightarrow> 'd \<Rightarrow> bool"
  d_eq :: "'d \<Rightarrow> 'd \<Rightarrow> bool"

text \<open>An instance for examples: whole numbers as doubles.\<close>

definition whole_doubles :: "int double_ops" where
  "whole_doubles = \<lparr>strtod = (\<lambda>s. (snd (StringToInt (takeWhile (\<lambda>c. c \<noteq> 46) s)), length s, False)),
     g_fmt = (\<lambda>d. (if d < 0 then [45] else []) @ decimal (nat \<bar>d\<bar>)), IsFinite = int_ok, d_zero = 0, d_of_int = (\<lambda>i. i),
     d_to_int64 = (\<lambda>i. i), d_floor = (\<lambda>i. i), d_le = (\<le>), d_eq = (=)\<rparr>"

definition CreateDoubleValue :: "'d double_ops \<Rightarrow> 'd \<Rightarrow> 'd json" where
  "CreateDoubleValue F in_value = DoubleValue (if IsFinite F in_value then in_value else d_zero F)"

definition CreateStringValue16 :: "string16 \<Rightarrow> 'd json" where
  "CreateStringValue16 in_value = StringValue (snd (UTF16ToUTF8 in_value))"

fun GetAsBoolean :: "'d json \<Rightarrow> bool option" where
  "GetAsBoolean (BooleanValue b) = Some b"
| "GetAsBoolean _ = None"

fun GetAsInteger :: "'d json \<Rightarrow> int option" where
  "GetAsInteger (IntegerValue i) = Some i"
| "GetAsInteger _ = None"

fun GetAsDouble :: "'d double_ops \<Rightarrow> 'd json \<Rightarrow> 'd option" where
  "GetAsDouble F (DoubleValue d) = Some d"
| "GetAsDouble F (IntegerValue i) = Some (d_of_int F i)"
| "GetAsDouble F _ = None"

fun GetAsString :: "'d json \<Rightarrow> std_string option" where
  "GetAsString (StringValue s) = Some s"
| "GetAsString _ = None"

fun GetAsString16 :: "'d json \<Rightarrow> string16 option" where
  "GetAsString16 (StringValue s) = Some (snd (UTF8ToUTF16 s))"
| "GetAsString16 _ = None"

fun GetAsDictionary :: "'d json \<Rightarrow> 'd dictionary option" where
  "GetAsDictionary (DictionaryValue d) = Some d"
| "GetAsDictionary _ = None"

fun GetAsList :: "'d json \<Rightarrow> 'd json list option" where
  "GetAsList (ListValue l) = Some l"
| "GetAsList _ = None"

fun GetAsBinary :: "'d json \<Rightarrow> std_string option" where
  "GetAsBinary (BinaryValue b) = Some b"
| "GetAsBinary _ = None"

fun Equals :: "'d double_ops \<Rightarrow> 'd json \<Rightarrow> 'd json \<Rightarrow> bool"
  and dict_Equals :: "'d double_ops \<Rightarrow> 'd dictionary \<Rightarrow> 'd dictionary \<Rightarrow> bool"
  and list_Equals :: "'d double_ops \<Rightarrow> 'd json list \<Rightarrow> 'd json list \<Rightarrow> bool" where
  "Equals F NullValue other = (GetType other = TYPE_NULL)"
| "Equals F (BooleanValue b) other = (GetAsBoolean other = Some b)"
| "Equals F (IntegerValue i) other = (GetAsInteger other = Some i)"
| "Equals F (DoubleValue d) other = (case other of DoubleValue d' \<Rightarrow> d_eq F d d' | _ \<Rightarrow> False)"
| "Equals F (StringValue s) other = (GetAsString other = Some s)"
| "Equals F (BinaryValue b) other = (GetAsBinary other = Some b)"
| "Equals F (DictionaryValue d) other = (case other of DictionaryValue d' \<Rightarrow> dict_Equals F d d' | _ \<Rightarrow> False)"
| "Equals F (ListValue l) other = (case other of ListValue l' \<Rightarrow> list_Equals F l l' | _ \<Rightarrow> False)"
| "dict_Equals F ((k, v) # d) ((k', v') # d') = (k = k' \<and> Equals F v v' \<and> dict_Equals F d d')"
| "dict_Equals F [] [] = True"
| "dict_Equals F _ _ = False"
| "list_Equals F (v # l) (v' # l') = (Equals F v v' \<and> list_Equals F l l')"
| "list_Equals F [] [] = True"
| "list_Equals F _ _ = False"

fun DeepCopy :: "'d double_ops \<Rightarrow> 'd json \<Rightarrow> 'd json"
  and dict_DeepCopy :: "'d double_ops \<Rightarrow> 'd dictionary \<Rightarrow> 'd dictionary \<Rightarrow> 'd dictionary"
  and list_DeepCopy :: "'d double_ops \<Rightarrow> 'd json list \<Rightarrow> 'd json list \<Rightarrow> 'd json list" where
  "DeepCopy F (DoubleValue d) = CreateDoubleValue F d"
| "DeepCopy F (DictionaryValue d) = DictionaryValue (dict_DeepCopy F d [])"
| "DeepCopy F (ListValue l) = ListValue (list_DeepCopy F l [])"
| "DeepCopy F v = v"
| "dict_DeepCopy F [] result = result"
| "dict_DeepCopy F ((k, v) # d) result = dict_DeepCopy F d (map_set k (DeepCopy F v) result)"
| "list_DeepCopy F [] result = result"
| "list_DeepCopy F (v # l) result = list_DeepCopy F l (result @ [DeepCopy F v])"

fun CopyWithoutEmptyChildren :: "'d double_ops \<Rightarrow> 'd json \<Rightarrow> 'd json option"
  and dict_CopyWithoutEmpty :: "'d double_ops \<Rightarrow> 'd dictionary \<Rightarrow> 'd dictionary \<Rightarrow> 'd dictionary"
  and list_CopyWithoutEmpty :: "'d double_ops \<Rightarrow> 'd json list \<Rightarrow> 'd json list \<Rightarrow> 'd json list" where
  "CopyWithoutEmptyChildren F (ListValue l) =
     (let c = list_CopyWithoutEmpty F l [] in if c \<noteq> [] then Some (ListValue c) else None)"
| "CopyWithoutEmptyChildren F (DictionaryValue d) =
     (let c = dict_CopyWithoutEmpty F d [] in if c \<noteq> [] then Some (DictionaryValue c) else None)"
| "CopyWithoutEmptyChildren F v = Some (DeepCopy F v)"
| "dict_CopyWithoutEmpty F [] c = c"
| "dict_CopyWithoutEmpty F ((k, v) # d) c =
     dict_CopyWithoutEmpty F d (case CopyWithoutEmptyChildren F v of None \<Rightarrow> c | Some v' \<Rightarrow> map_set k v' c)"
| "list_CopyWithoutEmpty F [] c = c"
| "list_CopyWithoutEmpty F (v # l) c =
     list_CopyWithoutEmpty F l (case CopyWithoutEmptyChildren F v of None \<Rightarrow> c | Some v' \<Rightarrow> c @ [v'])"

section \<open>Dictionaries\<close>

definition SetWithoutPathExpansion :: "std_string \<Rightarrow> 'd json \<Rightarrow> 'd dictionary \<Rightarrow> 'd dictionary" where
  "SetWithoutPathExpansion key in_value d = map_set key in_value d"

definition GetWithoutPathExpansion :: "std_string \<Rightarrow> 'd dictionary \<Rightarrow> 'd json option" where
  "GetWithoutPathExpansion key d = map_of d key"

definition HasKey :: "std_string \<Rightarrow> 'd dictionary \<Rightarrow> bool" where
  "HasKey key d \<longleftrightarrow> map_of d key \<noteq> None"

definition GetIntegerWithoutPathExpansion :: "std_string \<Rightarrow> 'd dictionary \<Rightarrow> int option" where
  "GetIntegerWithoutPathExpansion key d = GetWithoutPathExpansion key d \<bind> GetAsInteger"

definition GetDoubleWithoutPathExpansion :: "'d double_ops \<Rightarrow> std_string \<Rightarrow> 'd dictionary \<Rightarrow> 'd option" where
  "GetDoubleWithoutPathExpansion F key d = GetWithoutPathExpansion key d \<bind> GetAsDouble F"

definition GetStringWithoutPathExpansion :: "std_string \<Rightarrow> 'd dictionary \<Rightarrow> std_string option" where
  "GetStringWithoutPathExpansion key d = GetWithoutPathExpansion key d \<bind> GetAsString"

definition GetDictionaryWithoutPathExpansion :: "std_string \<Rightarrow> 'd dictionary \<Rightarrow> 'd dictionary option" where
  "GetDictionaryWithoutPathExpansion key d = GetWithoutPathExpansion key d \<bind> GetAsDictionary"

definition GetListWithoutPathExpansion :: "std_string \<Rightarrow> 'd dictionary \<Rightarrow> 'd json list option" where
  "GetListWithoutPathExpansion key d = GetWithoutPathExpansion key d \<bind> GetAsList"

text \<open>The path up to the first dot and the path after it.\<close>

definition split_path :: "std_string \<Rightarrow> (std_string \<times> std_string) option" where
  "split_path path =
     (if 46 \<in> set path then Some (takeWhile (\<lambda>c. c \<noteq> 46) path, tl (dropWhile (\<lambda>c. c \<noteq> 46) path)) else None)"

lemma split_path_shorter: "split_path path = Some (key, rest) \<Longrightarrow> length rest < length path"
proof -
  assume "split_path path = Some (key, rest)"
  then have p: "46 \<in> set path" "rest = tl (dropWhile (\<lambda>c. c \<noteq> 46) path)" by (auto simp: split_path_def split: if_splits)
  then have "dropWhile (\<lambda>c. c \<noteq> 46) path \<noteq> []" by auto
  then show ?thesis using p(2) length_dropWhile_le [of "\<lambda>c. c \<noteq> 46" path] by (cases "dropWhile (\<lambda>c. c \<noteq> 46) path") auto
qed

function dict_Get :: "std_string \<Rightarrow> 'd dictionary \<Rightarrow> 'd json option" where
  "dict_Get path d =
     (case split_path path of
        None \<Rightarrow> GetWithoutPathExpansion path d
      | Some (key, rest) \<Rightarrow>
          (case GetDictionaryWithoutPathExpansion key d of None \<Rightarrow> None | Some child \<Rightarrow> dict_Get rest child))"
  by pat_completeness auto
termination
  by (relation "measure (\<lambda>(path, d). length path)") (auto dest: split_path_shorter)

function dict_Set :: "std_string \<Rightarrow> 'd json \<Rightarrow> 'd dictionary \<Rightarrow> 'd dictionary" where
  "dict_Set path in_value d =
     (case split_path path of
        None \<Rightarrow> SetWithoutPathExpansion path in_value d
      | Some (key, rest) \<Rightarrow>
          (let child = (case GetDictionaryWithoutPathExpansion key d of None \<Rightarrow> [] | Some child \<Rightarrow> child)
           in SetWithoutPathExpansion key (DictionaryValue (dict_Set rest in_value child)) d))"
  by pat_completeness auto
termination
  by (relation "measure (\<lambda>(path, v, d). length path)") (auto dest: split_path_shorter)

declare dict_Get.simps [simp del] dict_Set.simps [simp del]

definition dict_GetBoolean :: "std_string \<Rightarrow> 'd dictionary \<Rightarrow> bool option" where
  "dict_GetBoolean path d = dict_Get path d \<bind> GetAsBoolean"

definition dict_GetInteger :: "std_string \<Rightarrow> 'd dictionary \<Rightarrow> int option" where
  "dict_GetInteger path d = dict_Get path d \<bind> GetAsInteger"

definition dict_GetDouble :: "'d double_ops \<Rightarrow> std_string \<Rightarrow> 'd dictionary \<Rightarrow> 'd option" where
  "dict_GetDouble F path d = dict_Get path d \<bind> GetAsDouble F"

definition dict_GetString :: "std_string \<Rightarrow> 'd dictionary \<Rightarrow> std_string option" where
  "dict_GetString path d = dict_Get path d \<bind> GetAsString"

definition dict_GetString16 :: "std_string \<Rightarrow> 'd dictionary \<Rightarrow> string16 option" where
  "dict_GetString16 path d = dict_Get path d \<bind> GetAsString16"

definition dict_GetStringASCII :: "std_string \<Rightarrow> 'd dictionary \<Rightarrow> std_string option" where
  "dict_GetStringASCII path d = dict_GetString path d \<bind> (\<lambda>s. if list_all (\<lambda>c. c < 128) s then Some s else None)"

definition dict_GetBinary :: "std_string \<Rightarrow> 'd dictionary \<Rightarrow> std_string option" where
  "dict_GetBinary path d = dict_Get path d \<bind> GetAsBinary"

definition dict_GetDictionary :: "std_string \<Rightarrow> 'd dictionary \<Rightarrow> 'd dictionary option" where
  "dict_GetDictionary path d = dict_Get path d \<bind> GetAsDictionary"

definition dict_GetList :: "std_string \<Rightarrow> 'd dictionary \<Rightarrow> 'd json list option" where
  "dict_GetList path d = dict_Get path d \<bind> GetAsList"

definition dict_SetBoolean :: "std_string \<Rightarrow> bool \<Rightarrow> 'd dictionary \<Rightarrow> 'd dictionary" where
  "dict_SetBoolean path in_value d = dict_Set path (BooleanValue in_value) d"

definition dict_SetInteger :: "std_string \<Rightarrow> int \<Rightarrow> 'd dictionary \<Rightarrow> 'd dictionary" where
  "dict_SetInteger path in_value d = dict_Set path (IntegerValue in_value) d"

definition dict_SetDouble :: "'d double_ops \<Rightarrow> std_string \<Rightarrow> 'd \<Rightarrow> 'd dictionary \<Rightarrow> 'd dictionary" where
  "dict_SetDouble F path in_value d = dict_Set path (CreateDoubleValue F in_value) d"

definition dict_SetString :: "std_string \<Rightarrow> std_string \<Rightarrow> 'd dictionary \<Rightarrow> 'd dictionary" where
  "dict_SetString path in_value d = dict_Set path (StringValue in_value) d"

definition dict_SetString16 :: "std_string \<Rightarrow> string16 \<Rightarrow> 'd dictionary \<Rightarrow> 'd dictionary" where
  "dict_SetString16 path in_value d = dict_Set path (CreateStringValue16 in_value) d"

definition RemoveWithoutPathExpansion :: "std_string \<Rightarrow> 'd dictionary \<Rightarrow> ('d json \<times> 'd dictionary) option" where
  "RemoveWithoutPathExpansion key d = (case map_of d key of None \<Rightarrow> None | Some entry \<Rightarrow> Some (entry, map_erase key d))"

text \<open>An operation on the dictionary that \<open>GetDictionary(path, &current)\<close> finds, in place.\<close>

function dict_at :: "std_string \<Rightarrow> ('d dictionary \<Rightarrow> ('r \<times> 'd dictionary) option) \<Rightarrow> 'd dictionary \<Rightarrow> ('r \<times> 'd dictionary) option" where
  "dict_at path f d =
     (let (key, rest) = (case split_path path of None \<Rightarrow> (path, None) | Some (key, rest) \<Rightarrow> (key, Some rest))
      in case GetDictionaryWithoutPathExpansion key d of
           None \<Rightarrow> None
         | Some child \<Rightarrow>
             (case (case rest of None \<Rightarrow> f child | Some rest \<Rightarrow> dict_at rest f child) of
                None \<Rightarrow> None
              | Some (r, child') \<Rightarrow> Some (r, map_set key (DictionaryValue child') d)))"
  by pat_completeness auto
termination
  by (relation "measure (\<lambda>(path, f, d). length path)") (auto dest: split_path_shorter split: option.splits)

declare dict_at.simps [simp del]

definition dict_Remove :: "std_string \<Rightarrow> 'd dictionary \<Rightarrow> ('d json \<times> 'd dictionary) option" where
  "dict_Remove path d =
     (if 46 \<in> set path
      then (let last = rev (takeWhile (\<lambda>c. c \<noteq> 46) (rev path)); prefix = rev (tl (dropWhile (\<lambda>c. c \<noteq> 46) (rev path)))
            in dict_at prefix (RemoveWithoutPathExpansion last) d)
      else RemoveWithoutPathExpansion path d)"

definition DeepCopyWithoutEmptyChildren :: "'d double_ops \<Rightarrow> 'd dictionary \<Rightarrow> 'd dictionary" where
  "DeepCopyWithoutEmptyChildren F d =
     (case CopyWithoutEmptyChildren F (DictionaryValue d) of Some (DictionaryValue c) \<Rightarrow> c | _ \<Rightarrow> [])"

lemma GetAsDictionary_Some: "Some d = GetAsDictionary v \<Longrightarrow> v = DictionaryValue d"
  by (cases v) auto

function MergeDictionary :: "'d double_ops \<Rightarrow> 'd dictionary \<Rightarrow> 'd dictionary \<Rightarrow> 'd dictionary" where
  "MergeDictionary F [] this = this"
| "MergeDictionary F ((key, merge_value) # dictionary) this =
     MergeDictionary F dictionary
       (case (GetAsDictionary merge_value, GetDictionaryWithoutPathExpansion key this) of
          (Some m, Some sub_dict) \<Rightarrow> map_set key (DictionaryValue (MergeDictionary F m sub_dict)) this
        | _ \<Rightarrow> SetWithoutPathExpansion key (DeepCopy F merge_value) this)"
  by pat_completeness auto
termination
  by (relation "measure (\<lambda>(F, dictionary, this). size (DictionaryValue dictionary))") (auto dest!: GetAsDictionary_Some)

section \<open>Lists\<close>

definition list_Append :: "'d json \<Rightarrow> 'd json list \<Rightarrow> 'd json list" where
  "list_Append in_value l = l @ [in_value]"

definition list_Set :: "nat \<Rightarrow> 'd json option \<Rightarrow> 'd json list \<Rightarrow> bool \<times> 'd json list" where
  "list_Set index in_value l =
     (case in_value of
        None \<Rightarrow> (False, l)
      | Some v \<Rightarrow>
          (True, if index \<ge> length l then list_Append v (((\<lambda>l. list_Append NullValue l) ^^ (index - length l)) l) else l[index := v]))"

definition list_Get :: "nat \<Rightarrow> 'd json list \<Rightarrow> 'd json option" where
  "list_Get index l = (if index \<ge> length l then None else Some (l ! index))"

definition list_GetBoolean :: "nat \<Rightarrow> 'd json list \<Rightarrow> bool option" where
  "list_GetBoolean index l = list_Get index l \<bind> GetAsBoolean"

definition list_GetInteger :: "nat \<Rightarrow> 'd json list \<Rightarrow> int option" where
  "list_GetInteger index l = list_Get index l \<bind> GetAsInteger"

definition list_GetDouble :: "'d double_ops \<Rightarrow> nat \<Rightarrow> 'd json list \<Rightarrow> 'd option" where
  "list_GetDouble F index l = list_Get index l \<bind> GetAsDouble F"

definition list_GetString :: "nat \<Rightarrow> 'd json list \<Rightarrow> std_string option" where
  "list_GetString index l = list_Get index l \<bind> GetAsString"

definition list_GetString16 :: "nat \<Rightarrow> 'd json list \<Rightarrow> string16 option" where
  "list_GetString16 index l = list_Get index l \<bind> GetAsString16"

definition list_GetBinary :: "nat \<Rightarrow> 'd json list \<Rightarrow> std_string option" where
  "list_GetBinary index l = list_Get index l \<bind> GetAsBinary"

definition list_GetDictionary :: "nat \<Rightarrow> 'd json list \<Rightarrow> 'd dictionary option" where
  "list_GetDictionary index l = list_Get index l \<bind> GetAsDictionary"

definition list_GetList :: "nat \<Rightarrow> 'd json list \<Rightarrow> 'd json list option" where
  "list_GetList index l = list_Get index l \<bind> GetAsList"

definition list_Remove :: "nat \<Rightarrow> 'd json list \<Rightarrow> ('d json \<times> 'd json list) option" where
  "list_Remove index l = (if index \<ge> length l then None else Some (l ! index, take index l @ drop (Suc index) l))"

fun remove_value_loop :: "'d double_ops \<Rightarrow> 'd json \<Rightarrow> nat \<Rightarrow> 'd json list \<Rightarrow> 'd json list \<Rightarrow> (nat \<times> 'd json list) option" where
  "remove_value_loop F v i [] l = None"
| "remove_value_loop F v i (x # xs) l =
     (if Equals F x v then Some (i, take i l @ drop (Suc i) l) else remove_value_loop F v (Suc i) xs l)"

definition list_Remove_value :: "'d double_ops \<Rightarrow> 'd json \<Rightarrow> 'd json list \<Rightarrow> (nat \<times> 'd json list) option" where
  "list_Remove_value F v l = remove_value_loop F v 0 l l"

definition list_AppendIfNotPresent :: "'d double_ops \<Rightarrow> 'd json \<Rightarrow> 'd json list \<Rightarrow> bool \<times> 'd json list" where
  "list_AppendIfNotPresent F in_value l =
     (if list_ex (\<lambda>x. Equals F x in_value) l then (False, l) else (True, l @ [in_value]))"

definition list_Insert :: "nat \<Rightarrow> 'd json \<Rightarrow> 'd json list \<Rightarrow> bool \<times> 'd json list" where
  "list_Insert index in_value l =
     (if index > length l then (False, l) else (True, take index l @ [in_value] @ drop index l))"

definition list_Find :: "'d double_ops \<Rightarrow> 'd json \<Rightarrow> 'd json list \<Rightarrow> 'd json option" where
  "list_Find F v l = List.find (\<lambda>x. Equals F v x) l"

section \<open>Well-formed values\<close>

definition keys_ok :: "('k :: linorder \<times> 'v) list \<Rightarrow> bool" where
  "keys_ok es \<longleftrightarrow> sorted_wrt (<) (map fst es)"

lemma map_of_map_set [simp]: "map_of (map_set k v es) = (map_of es)(k \<mapsto> v)"
  by (induction k v es rule: map_set.induct) (auto simp: fun_eq_iff)

lemma set_map_set: "fst ` set (map_set k v es) = insert k (fst ` set es)"
  by (induction k v es rule: map_set.induct) auto

lemma keys_ok_set: "keys_ok es \<Longrightarrow> keys_ok (map_set k v es)"
proof (induction k v es rule: map_set.induct)
  case (2 k v k' v' es)
  then show ?case using set_map_set [of k v es] by (fastforce simp: keys_ok_def)
qed (simp add: keys_ok_def)

lemma keys_ok_distinct: "keys_ok es \<Longrightarrow> distinct (map fst es)"
  unfolding keys_ok_def by (induction "map fst es" arbitrary: es) (auto simp: less_le)

lemma map_set_last: "keys_ok (es @ (k, v') # es') \<Longrightarrow> map_set k v es = es @ [(k, v)]"
  by (induction es) (auto simp: keys_ok_def sorted_wrt_append)

lemma map_of_map_erase: "distinct (map fst es) \<Longrightarrow> map_of (map_erase k es) = (map_of es)(k := None)"
proof (induction k es rule: map_erase.induct)
  case (2 k k' v' es)
  then show ?case by (auto simp: fun_eq_iff map_of_eq_None_iff)
qed auto

lemma keys_ok_erase: "keys_ok es \<Longrightarrow> keys_ok (map_erase k es) \<and> set (map_erase k es) \<subseteq> set es"
proof (induction k es rule: map_erase.induct)
  case (2 k k' v' es)
  then show ?case by (auto simp: keys_ok_def)
qed simp

text \<open>The keys of every dictionary in the tree are in order, and every number is finite.\<close>

fun json_ok :: "'d double_ops \<Rightarrow> 'd json \<Rightarrow> bool" where
  "json_ok F (DoubleValue d) = IsFinite F d"
| "json_ok F (DictionaryValue d) = (keys_ok d \<and> list_all (\<lambda>(k, v). json_ok F v) d)"
| "json_ok F (ListValue l) = list_all (json_ok F) l"
| "json_ok F _ = True"

lemma DeepCopy_id:
  "json_ok F v \<Longrightarrow> DeepCopy F v = v"
  "keys_ok (r @ d) \<Longrightarrow> list_all (\<lambda>(k, v). json_ok F v) d \<Longrightarrow> dict_DeepCopy F d r = r @ d"
  "list_all (json_ok F) l \<Longrightarrow> list_DeepCopy F l rl = rl @ l"
  by (induction F v and F d r and F l rl rule: DeepCopy_dict_DeepCopy_list_DeepCopy.induct)
    (auto simp: CreateDoubleValue_def map_set_last)

section \<open>Paths\<close>

function segments :: "std_string \<Rightarrow> std_string list" where
  "segments path = (case split_path path of None \<Rightarrow> [path] | Some (key, rest) \<Rightarrow> key # segments rest)"
  by pat_completeness auto
termination
  by (relation "measure length") (auto dest: split_path_shorter)

declare segments.simps [simp del]

fun diverge :: "std_string list \<Rightarrow> std_string list \<Rightarrow> bool" where
  "diverge (a # p) (b # q) = (a \<noteq> b \<or> diverge p q)"
| "diverge _ _ = False"

fun get_segments :: "std_string list \<Rightarrow> 'd dictionary \<Rightarrow> 'd json option" where
  "get_segments [] d = Some (DictionaryValue d)"
| "get_segments [k] d = map_of d k"
| "get_segments (k # ks) d = GetDictionaryWithoutPathExpansion k d \<bind> get_segments ks"

fun set_segments :: "std_string list \<Rightarrow> 'd json \<Rightarrow> 'd dictionary \<Rightarrow> 'd dictionary" where
  "set_segments [] v d = d"
| "set_segments [k] v d = map_set k v d"
| "set_segments (k # ks) v d =
     map_set k (DictionaryValue (set_segments ks v (case GetDictionaryWithoutPathExpansion k d of None \<Rightarrow> [] | Some c \<Rightarrow> c))) d"

lemma segments_not_Nil [simp]: "segments path \<noteq> []"
  by (simp add: segments.simps [of path] split: option.split)

lemma sub_dictionary_set [simp]:
  "GetDictionaryWithoutPathExpansion k (map_set k' v d) = (if k = k' then GetAsDictionary v else GetDictionaryWithoutPathExpansion k d)"
  by (simp add: GetDictionaryWithoutPathExpansion_def GetWithoutPathExpansion_def)

lemma get_segments_Cons: "ks \<noteq> [] \<Longrightarrow> get_segments (k # ks) d = GetDictionaryWithoutPathExpansion k d \<bind> get_segments ks"
  by (cases ks) simp_all

lemma set_segments_Cons:
  "ks \<noteq> [] \<Longrightarrow> set_segments (k # ks) v d =
     map_set k (DictionaryValue (set_segments ks v (case GetDictionaryWithoutPathExpansion k d of None \<Rightarrow> [] | Some c \<Rightarrow> c))) d"
  by (cases ks) simp_all

lemma dict_Get_segments: "dict_Get path d = get_segments (segments path) d"
proof (induction path d rule: dict_Get.induct)
  case (1 path d)
  show ?case
    using 1 by (simp add: dict_Get.simps [of path] segments.simps [of path] GetWithoutPathExpansion_def
        get_segments_Cons split: option.splits)
qed

lemma dict_Set_segments: "dict_Set path v d = set_segments (segments path) v d"
proof (induction path v d rule: dict_Set.induct)
  case (1 path v d)
  show ?case
    using 1 by (simp add: dict_Set.simps [of path] segments.simps [of path] GetWithoutPathExpansion_def
        SetWithoutPathExpansion_def set_segments_Cons split: option.splits)
qed

lemma get_set_segments: "ks \<noteq> [] \<Longrightarrow> get_segments ks (set_segments ks v d) = Some v"
  by (induction ks v d rule: set_segments.induct) simp_all

lemma get_set_diverge: "diverge p q \<Longrightarrow> get_segments q (set_segments p v d) = get_segments q d"
proof (induction p arbitrary: q d)
  case (Cons a p)
  then obtain b q' where q: "q = b # q'" by (cases q) auto
  show ?case
  proof (cases "a = b")
    case True
    then have dv: "diverge p q'" using Cons.prems q by simp
    then have ne: "p \<noteq> []" "q' \<noteq> []" by (cases p; cases q'; simp)+
    let ?c = "GetDictionaryWithoutPathExpansion a d"
    have "get_segments q' (set_segments p v (case ?c of None \<Rightarrow> [] | Some c \<Rightarrow> c)) = ?c \<bind> get_segments q'"
    proof (cases ?c)
      case None
      have "get_segments q' [] = None" using ne(2) by (cases q'; cases "tl q'") (auto simp: GetDictionaryWithoutPathExpansion_def GetWithoutPathExpansion_def)
      then show ?thesis using Cons.IH [OF dv, of "[]"] None by simp
    next
      case (Some c)
      then show ?thesis using Cons.IH [OF dv, of c] by simp
    qed
    then show ?thesis using q True ne by (simp add: get_segments_Cons set_segments_Cons)
  next
    case False
    then have "map_of (set_segments (a # p) v d) b = map_of d b" by (cases p) auto
    then show ?thesis using q by (cases q') (auto simp: GetDictionaryWithoutPathExpansion_def GetWithoutPathExpansion_def)
  qed
qed simp

text \<open>(C24) Values in a dictionary are kept under their paths: after \<open>Set\<close> of a dotted path \<open>Get\<close> of the path returns
  the value, whatever was there before, and every path that leaves it at some point returns what it did.\<close>

theorem dictionary_paths:
  "dict_Get p (dict_Set p v d) = Some v \<and>
   (diverge (segments p) (segments q) \<longrightarrow> dict_Get q (dict_Set p v d) = dict_Get q d)"
  by (simp_all add: dict_Get_segments dict_Set_segments get_set_segments get_set_diverge)


lemma dictionary_paths_witness:
  "dict_Get (lit ''a.c'') (dict_Set (lit ''a.b'') (IntegerValue 1) [(lit ''a'', DictionaryValue [(lit ''c'', BooleanValue True)])] :: int dictionary) =
   Some (BooleanValue True)"
proof -
  have "diverge (segments (lit ''a.b'')) (segments (lit ''a.c''))" by code_simp
  then have "dict_Get (lit ''a.c'') (dict_Set (lit ''a.b'') (IntegerValue 1) [(lit ''a'', DictionaryValue [(lit ''c'', BooleanValue True)])] :: int dictionary) =
    dict_Get (lit ''a.c'') [(lit ''a'', DictionaryValue [(lit ''c'', BooleanValue True)])]"
    using dictionary_paths by blast
  then show ?thesis by (rule trans) code_simp
qed

lemma split_path_append:
  "46 \<notin> set k \<Longrightarrow> split_path (k @ 46 # p) = Some (k, p)"
  "46 \<notin> set k \<Longrightarrow> split_path k = None"
proof -
  assume k: "46 \<notin> set k"
  then have "dropWhile (\<lambda>c. c \<noteq> 46) (k @ 46 # p) = 46 # p" by (subst dropWhile_append2) auto
  then show "split_path (k @ 46 # p) = Some (k, p)" using k by (auto simp: split_path_def takeWhile_tail)
qed (simp add: split_path_def)

lemma split_path_Some: "split_path path = Some (k, r) \<Longrightarrow> path = k @ 46 # r \<and> 46 \<notin> set k"
proof -
  assume a: "split_path path = Some (k, r)"
  then have k: "46 \<in> set path" "k = takeWhile (\<lambda>c. c \<noteq> 46) path" "r = tl (dropWhile (\<lambda>c. c \<noteq> 46) path)"
    by (auto simp: split_path_def split: if_splits)
  then have "dropWhile (\<lambda>c. c \<noteq> 46) path \<noteq> []" by auto
  then have "dropWhile (\<lambda>c. c \<noteq> 46) path = 46 # r" using k(3) hd_dropWhile [of "\<lambda>c. c \<noteq> 46" path] by (cases "dropWhile (\<lambda>c. c \<noteq> 46) path") auto
  then show ?thesis using k takeWhile_dropWhile_id [of "\<lambda>c. c \<noteq> 46" path] set_takeWhileD [of 46 "\<lambda>c. c \<noteq> 46" path] by auto
qed

lemma segments_last: "46 \<notin> set l \<Longrightarrow> segments (p @ 46 # l) = segments p @ [l]"
proof (induction p rule: segments.induct)
  case (1 p)
  show ?case
  proof (cases "split_path p")
    case None
    then have "46 \<notin> set p" by (auto simp: split_path_def split: if_splits)
    then show ?thesis using 1(2) by (simp add: segments.simps [of "p @ 46 # l"] segments.simps [of p] segments.simps [of l] split_path_append)
  next
    case (Some kr)
    obtain k r where kr: "kr = (k, r)" by (cases kr)
    then have p: "p = k @ 46 # r" "46 \<notin> set k" using split_path_Some Some by auto
    have "segments (p @ 46 # l) = k # segments (r @ 46 # l)"
      using p by (simp add: segments.simps [of "k @ 46 # r @ 46 # l"] split_path_append)
    then show ?thesis using 1(1) [OF Some kr [symmetric] 1(2)] Some kr by (simp add: segments.simps [of p])
  qed
qed

lemma dict_at_segments:
  assumes "dict_at path f d = Some (r, d')"
  shows "\<exists>c c'. get_segments (segments path) d = Some (DictionaryValue c) \<and> f c = Some (r, c') \<and>
    get_segments (segments path) d' = Some (DictionaryValue c')"
  using assms
proof (induction path f d arbitrary: d' rule: dict_at.induct)
  case (1 path f d)
  show ?case
  proof (cases "split_path path")
    case None
    then obtain c c' where "GetDictionaryWithoutPathExpansion path d = Some c" "f c = Some (r, c')" "d' = map_set path (DictionaryValue c') d"
      using 1(2) by (auto simp: dict_at.simps [of path] split: option.splits)
    then show ?thesis using None
      by (auto simp: segments.simps [of path] GetDictionaryWithoutPathExpansion_def GetWithoutPathExpansion_def bind_eq_Some_conv
          elim: GetAsDictionary.elims)
  next
    case (Some kr)
    obtain k rest where kr: "kr = (k, rest)" by (cases kr)
    obtain c c' where c: "GetDictionaryWithoutPathExpansion k d = Some c" "dict_at rest f c = Some (r, c')" "d' = map_set k (DictionaryValue c') d"
      using 1(2) Some kr by (auto simp: dict_at.simps [of path] split: option.splits)
    then have "\<exists>e e'. get_segments (segments rest) c = Some (DictionaryValue e) \<and> f e = Some (r, e') \<and> get_segments (segments rest) c' = Some (DictionaryValue e')"
      using 1(1) Some kr by simp
    then show ?thesis using c Some kr by (simp add: segments.simps [of path] get_segments_Cons)
  qed
qed

lemma get_segments_snoc:
  "ks \<noteq> [] \<Longrightarrow> get_segments ks d = Some (DictionaryValue c) \<Longrightarrow> get_segments (ks @ [k]) d = map_of c k"
proof (induction ks d rule: get_segments.induct)
  case (2 a d)
  then show ?case by (simp add: GetDictionaryWithoutPathExpansion_def GetWithoutPathExpansion_def)
next
  case (3 a b ks d)
  then show ?case by (cases "GetDictionaryWithoutPathExpansion a d") auto
qed simp

lemma get_segments_ok:
  "json_ok F (DictionaryValue d) \<Longrightarrow> get_segments ks d = Some v \<Longrightarrow> json_ok F v"
proof (induction ks d rule: get_segments.induct)
  case (2 k d)
  then show ?case using map_of_SomeD [of d k v] by (auto simp: list_all_iff)
next
  case (3 k k' ks d)
  obtain c where c: "map_of d k = Some (DictionaryValue c)" "get_segments (k' # ks) c = Some v"
    using 3(3) by (auto simp: GetDictionaryWithoutPathExpansion_def GetWithoutPathExpansion_def bind_eq_Some_conv elim: GetAsDictionary.elims)
  have "\<forall>(k, v) \<in> set d. json_ok F v" using 3(2) by (simp add: list_all_iff)
  from bspec [OF this map_of_SomeD [OF c(1)]] have "json_ok F (DictionaryValue c)" by simp
  then show ?case using 3(1) [of c] c by (simp add: GetDictionaryWithoutPathExpansion_def GetWithoutPathExpansion_def)
qed auto

lemma remove_last: "json_ok F (DictionaryValue d) \<Longrightarrow> RemoveWithoutPathExpansion k d = Some (v, d') \<Longrightarrow> map_of d k = Some v \<and> map_of d' k = None"
  using keys_ok_distinct [of d] by (auto simp: RemoveWithoutPathExpansion_def map_of_map_erase split: option.splits)

text \<open>What \<open>Remove\<close> returns is the value of the path, which is then gone.\<close>

lemma dictionary_remove:
  assumes ok: "json_ok F (DictionaryValue d)" and rm: "dict_Remove p d = Some (v, d')"
  shows "dict_Get p d = Some v" "dict_Get p d' = None"
proof -
  have "dict_Get p d = Some v \<and> dict_Get p d' = None"
  proof (cases "46 \<in> set p")
    case False
    then have "segments p = [p]" by (simp add: segments.simps [of p] split_path_append)
    then show ?thesis using remove_last [OF ok, of p v d'] rm False by (simp add: dict_Remove_def dict_Get_segments)
  next
    case True
    define l q where "l = rev (takeWhile (\<lambda>c. c \<noteq> 46) (rev p))" and "q = rev (tl (dropWhile (\<lambda>c. c \<noteq> 46) (rev p)))"
    have sp: "split_path (rev p) = Some (rev l, rev q)" using True by (simp add: split_path_def l_def q_def)
    have rp: "rev p = rev l @ 46 # rev q" and l: "46 \<notin> set l" using split_path_Some [OF sp] by simp_all
    have "p = rev (rev p)" by simp
    also have "\<dots> = q @ 46 # l" unfolding rp by simp
    finally have p: "p = q @ 46 # l" .
    have at: "dict_at q (RemoveWithoutPathExpansion l) d = Some (v, d')" using rm True by (simp add: dict_Remove_def l_def q_def)
    obtain c c' where c: "get_segments (segments q) d = Some (DictionaryValue c)" "RemoveWithoutPathExpansion l c = Some (v, c')"
      "get_segments (segments q) d' = Some (DictionaryValue c')" using dict_at_segments [OF at] by (elim exE conjE)
    have "map_of c l = Some v \<and> map_of c' l = None" using remove_last [OF get_segments_ok [OF ok c(1)] c(2)] .
    then show ?thesis
      using get_segments_snoc [OF _ c(1), of l] get_segments_snoc [OF _ c(3), of l] segments_last [OF l, of q] p by (simp add: dict_Get_segments)
  qed
  then show "dict_Get p d = Some v" "dict_Get p d' = None" by simp_all
qed

section \<open>Merging and comparing\<close>

definition merged :: "'d double_ops \<Rightarrow> 'd json \<Rightarrow> 'd json option \<Rightarrow> 'd json" where
  "merged F v old =
     (case (v, old) of (DictionaryValue m, Some (DictionaryValue s)) \<Rightarrow> DictionaryValue (MergeDictionary F m s) | _ \<Rightarrow> v)"

lemma merge_step:
  "json_ok F v \<Longrightarrow> MergeDictionary F ((k, v) # d) this = MergeDictionary F d (map_set k (merged F v (map_of this k)) this)"
  using DeepCopy_id(1) [of F v]
  by (cases v; cases "map_of this k"; cases "the (map_of this k)")
    (simp_all add: merged_def GetDictionaryWithoutPathExpansion_def GetWithoutPathExpansion_def SetWithoutPathExpansion_def)

text \<open>(C25) \<open>MergeDictionary\<close> takes every key of the other dictionary, merging again where both have a dictionary
  there, and keeps the rest.\<close>

theorem merge_dictionary:
  assumes "json_ok F (DictionaryValue d)"
  shows "map_of (MergeDictionary F d this) k =
    (case map_of d k of None \<Rightarrow> map_of this k | Some v \<Rightarrow> Some (merged F v (map_of this k)))"
proof -
  have "map_of (MergeDictionary F d this) k =
    (case map_of d k of None \<Rightarrow> map_of this k | Some v \<Rightarrow> Some (merged F v (map_of this k)))"
    if "distinct (map fst d)" "list_all (\<lambda>(k, v). json_ok F v) d" for d
    using that
  proof (induction d arbitrary: this)
    case (Cons e d)
    obtain k' v where e: "e = (k', v)" by (cases e)
    have "map_of d k' = None" using Cons.prems(1) e by (simp add: map_of_eq_None_iff)
    then show ?case using Cons e by (auto simp: merge_step simp del: MergeDictionary.simps split: option.splits)
  qed simp
  then show ?thesis using assms keys_ok_distinct [of d] by simp
qed


lemma merge_dictionary_witness:
  "map_of (MergeDictionary whole_doubles [(lit ''a'', DictionaryValue [(lit ''x'', IntegerValue 1)])]
     [(lit ''a'', DictionaryValue [(lit ''y'', IntegerValue 2)]), (lit ''b'', NullValue)]) (lit ''a'') =
   Some (DictionaryValue [(lit ''x'', IntegerValue 1), (lit ''y'', IntegerValue 2)])"
proof -
  have "json_ok whole_doubles (DictionaryValue [(lit ''a'', DictionaryValue [(lit ''x'', IntegerValue 1)])])" by (simp add: keys_ok_def)
  note m = merge_dictionary [OF this, where k = "lit ''a''"]
  have "lit ''x'' < (lit ''y'' :: std_string)" by code_simp
  then show ?thesis by (subst m) (simp add: merged_def GetDictionaryWithoutPathExpansion_def SetWithoutPathExpansion_def GetWithoutPathExpansion_def)
qed

lemma Equals_iff:
  "\<forall>x y. d_eq F x y = (x = y) \<Longrightarrow> Equals F v w \<longleftrightarrow> v = w"
  "\<forall>x y. d_eq F x y = (x = y) \<Longrightarrow> dict_Equals F d e \<longleftrightarrow> d = e"
  "\<forall>x y. d_eq F x y = (x = y) \<Longrightarrow> list_Equals F l m \<longleftrightarrow> l = m"
  by (induction F v w and F d e and F l m rule: Equals_dict_Equals_list_Equals.induct)
    (auto split: json.splits elim: GetType.elims GetAsBoolean.elims GetAsInteger.elims GetAsString.elims GetAsBinary.elims)

end
