(* ===== verification/Json_Parser.thy ===== *)
theory Json_Parser
  imports Json_Values
begin

unbundle bit_operations_syntax

text \<open>
  The JSON parser (\<open>src/base/json/json_parser.cc\<close>, \<open>json_reader.cc\<close>). The parser walks over the bytes of its
  input with the pointer \<open>pos_\<close> and the number \<open>index_\<close>, which agree except inside of strings. The input is the
  list of bytes between \<open>start_pos_\<close> and \<open>end_pos_\<close>. Unless children are detachable the parser copies its input
  to a \<open>std::string\<close>, whose data ends in a zero byte that may be read; every other access outside of the
  input is \<open>None\<close>. A parsed value is \<open>Some\<close>, and \<open>None\<close> is the null pointer of an error. The values
  that refer to the input (\<open>JSONStringValue\<close>) and the hidden roots that own it are the values they stand for.
\<close>

section \<open>The parser\<close>

datatype JsonParseError =
    JSON_NO_ERROR | JSON_INVALID_ESCAPE | JSON_SYNTAX_ERROR | JSON_UNEXPECTED_TOKEN | JSON_TRAILING_COMMA
  | JSON_TOO_MUCH_NESTING | JSON_UNEXPECTED_DATA_AFTER_ROOT | JSON_UNSUPPORTED_ENCODING | JSON_UNQUOTED_DICTIONARY_KEY

datatype json_token =
    T_OBJECT_BEGIN | T_OBJECT_END | T_ARRAY_BEGIN | T_ARRAY_END | T_STRING | T_NUMBER | T_BOOL_TRUE | T_BOOL_FALSE
  | T_NULL | T_LIST_SEPARATOR | T_OBJECT_PAIR_SEPARATOR | T_END_OF_INPUT | T_INVALID_TOKEN

record json_parser =
  jp_allow_trailing_commas :: bool
  jp_detachable_children :: bool
  jp_input :: std_string
  jp_pos :: nat
  jp_index :: nat
  jp_stack_depth :: nat
  jp_line_number :: nat
  jp_index_last_line :: nat
  jp_error_code :: JsonParseError
  jp_error_line :: nat
  jp_error_column :: int

definition kStackMaxDepth :: nat where
  "kStackMaxDepth = 100"

definition kExtendedASCIIStart :: int where
  "kExtendedASCIIStart = 0x80"

definition mk_JSONParser :: "int \<Rightarrow> json_parser" where
  "mk_JSONParser options =
     \<lparr>jp_allow_trailing_commas = (options AND 1 \<noteq> 0), jp_detachable_children = (options AND 2 \<noteq> 0), jp_input = [],
      jp_pos = 0, jp_index = 0, jp_stack_depth = 0, jp_line_number = 0, jp_index_last_line = 0,
      jp_error_code = JSON_NO_ERROR, jp_error_line = 0, jp_error_column = 0\<rparr>"

text \<open>A read of the byte at an offset of \<open>start_pos_\<close>.\<close>

definition jp_byte :: "json_parser \<Rightarrow> nat \<Rightarrow> 8 word option" where
  "jp_byte p i =
     (if i < length (jp_input p) then Some (jp_input p ! i)
      else if i = length (jp_input p) \<and> \<not> jp_detachable_children p then Some 0 else None)"

abbreviation jp_at :: "json_parser \<Rightarrow> 8 word option" where
  "jp_at p \<equiv> jp_byte p (jp_pos p)"

text \<open>The bytes of \<open>StringPiece(pos, n)\<close>.\<close>

fun jp_bytes :: "json_parser \<Rightarrow> nat \<Rightarrow> nat \<Rightarrow> std_string option" where
  "jp_bytes p i 0 = Some []"
| "jp_bytes p i (Suc n) = do { c \<leftarrow> jp_byte p i; cs \<leftarrow> jp_bytes p (Suc i) n; Some (c # cs) }"

definition CanConsume :: "nat \<Rightarrow> json_parser \<Rightarrow> bool" where
  "CanConsume len p \<longleftrightarrow> jp_pos p + len \<le> length (jp_input p)"

definition NextNChars :: "nat \<Rightarrow> json_parser \<Rightarrow> json_parser" where
  "NextNChars n p = p\<lparr>jp_index := jp_index p + n, jp_pos := jp_pos p + n\<rparr>"

definition NextChar :: "json_parser \<Rightarrow> json_parser" where
  "NextChar p = p\<lparr>jp_index := jp_index p + 1, jp_pos := jp_pos p + 1\<rparr>"

definition ReportError :: "JsonParseError \<Rightarrow> int \<Rightarrow> json_parser \<Rightarrow> json_parser" where
  "ReportError code column_adjust p =
     p\<lparr>jp_error_code := code, jp_error_line := jp_line_number p,
       jp_error_column := int (jp_index p) - int (jp_index_last_line p) + column_adjust\<rparr>"

section \<open>Tokens\<close>

function line_comment_loop :: "json_parser \<Rightarrow> (bool \<times> json_parser) option" where
  "line_comment_loop p =
     (if CanConsume 1 p
      then let p = NextChar p
           in do { c \<leftarrow> jp_at p; if c = 10 \<or> c = 13 then Some (True, p) else line_comment_loop p }
      else Some (False, p))"
  by pat_completeness auto
termination
  by (relation "measure (\<lambda>p. length (jp_input p) - jp_pos p)") (auto simp: CanConsume_def NextChar_def)

function block_comment_loop :: "json_parser \<Rightarrow> (bool \<times> json_parser) option" where
  "block_comment_loop p =
     (if CanConsume 2 p
      then let p1 = NextChar p
           in do {
             c \<leftarrow> jp_at p1;
             if c = 42
             then let p2 = NextChar p1
                  in do { d \<leftarrow> jp_at p2; if d = 47 then Some (True, NextChar p2) else block_comment_loop p2 }
             else block_comment_loop p1
           }
      else Some (False, p))"
  by pat_completeness auto
termination
  by (relation "measure (\<lambda>p. length (jp_input p) - jp_pos p)") (auto simp: CanConsume_def NextChar_def)

declare line_comment_loop.simps [simp del] block_comment_loop.simps [simp del]

definition EatComment :: "json_parser \<Rightarrow> (bool \<times> json_parser) option" where
  "EatComment p = do {
     c \<leftarrow> jp_at p;
     if c \<noteq> 47 \<or> \<not> CanConsume 1 p then Some (False, p)
     else let p = NextChar p
          in do {
            next_char \<leftarrow> jp_at p;
            if next_char = 47 then line_comment_loop p
            else if next_char = 42 then block_comment_loop p
            else Some (False, p)
          }
   }"

lemma line_comment_moves: "line_comment_loop p = Some (b, p') \<Longrightarrow> jp_pos p \<le> jp_pos p' \<and> jp_input p' = jp_input p"
proof (induction p rule: line_comment_loop.induct)
  case (1 p)
  show ?case
    using 1(2) 1(1) [OF _ refl] by (subst (asm) line_comment_loop.simps)
      (fastforce simp: Let_def NextChar_def split: if_splits bind_splits)
qed

lemma block_comment_moves: "block_comment_loop p = Some (b, p') \<Longrightarrow> jp_pos p \<le> jp_pos p' \<and> jp_input p' = jp_input p"
proof (induction p rule: block_comment_loop.induct)
  case (1 p)
  show ?case
    using 1(3) 1(1,2) [OF _ refl] by (subst (asm) block_comment_loop.simps)
      (fastforce simp: Let_def NextChar_def split: if_splits bind_splits)
qed

lemma EatComment_moves: "EatComment p = Some (True, p') \<Longrightarrow> jp_pos p < jp_pos p' \<and> jp_input p' = jp_input p"
  by (auto simp: EatComment_def Let_def NextChar_def split: bind_splits if_splits dest!: line_comment_moves block_comment_moves)

function EatWhitespaceAndComments :: "json_parser \<Rightarrow> json_parser option" where
  "EatWhitespaceAndComments p =
     (if jp_pos p < length (jp_input p)
      then do {
        c \<leftarrow> jp_at p;
        if c = 13 \<or> c = 10
        then EatWhitespaceAndComments (NextChar (p\<lparr>jp_index_last_line := jp_index p, jp_line_number := jp_line_number p + 1\<rparr>))
        else if c = 32 \<or> c = 9 then EatWhitespaceAndComments (NextChar p)
        else if c = 47
        then (case EatComment p of
                None \<Rightarrow> None
              | Some (eaten, p') \<Rightarrow> if eaten then EatWhitespaceAndComments p' else Some p')
        else Some p
      }
      else Some p)"
  by pat_completeness auto
termination
  by (relation "measure (\<lambda>p. length (jp_input p) - jp_pos p)") (auto simp: NextChar_def dest: EatComment_moves)

declare EatWhitespaceAndComments.simps [simp del]

definition token_of :: "8 word \<Rightarrow> json_token" where
  "token_of c =
     (if c = 123 then T_OBJECT_BEGIN else if c = 125 then T_OBJECT_END
      else if c = 91 then T_ARRAY_BEGIN else if c = 93 then T_ARRAY_END
      else if c = 34 then T_STRING
      else if 48 \<le> c \<and> c \<le> 57 \<or> c = 45 then T_NUMBER
      else if c = 116 then T_BOOL_TRUE else if c = 102 then T_BOOL_FALSE else if c = 110 then T_NULL
      else if c = 44 then T_LIST_SEPARATOR else if c = 58 then T_OBJECT_PAIR_SEPARATOR
      else T_INVALID_TOKEN)"

definition GetNextToken :: "json_parser \<Rightarrow> (json_token \<times> json_parser) option" where
  "GetNextToken p = do {
     p \<leftarrow> EatWhitespaceAndComments p;
     if \<not> CanConsume 1 p then Some (T_END_OF_INPUT, p)
     else do { c \<leftarrow> jp_at p; Some (token_of c, p) }
   }"

section \<open>Strings\<close>

text \<open>\<open>StringBuilder\<close>: a piece of the input until it has to be converted to a string of its own.\<close>

record string_builder =
  sb_pos :: nat
  sb_length :: nat
  sb_string :: "std_string option"

definition sb_at :: "nat \<Rightarrow> string_builder" where
  "sb_at pos = \<lparr>sb_pos = pos, sb_length = 0, sb_string = None\<rparr>"

definition sb_Append :: "8 word \<Rightarrow> string_builder \<Rightarrow> string_builder" where
  "sb_Append c b =
     (case sb_string b of Some s \<Rightarrow> b\<lparr>sb_string := Some (s @ [c])\<rparr> | None \<Rightarrow> b\<lparr>sb_length := sb_length b + 1\<rparr>)"

definition sb_AppendString :: "std_string \<Rightarrow> string_builder \<Rightarrow> string_builder option" where
  "sb_AppendString str b = map_option (\<lambda>s. b\<lparr>sb_string := Some (s @ str)\<rparr>) (sb_string b)"

definition sb_Convert :: "json_parser \<Rightarrow> string_builder \<Rightarrow> string_builder option" where
  "sb_Convert p b =
     (case sb_string b of
        Some _ \<Rightarrow> Some b
      | None \<Rightarrow> map_option (\<lambda>s. b\<lparr>sb_string := Some s\<rparr>) (jp_bytes p (sb_pos b) (sb_length b)))"

definition sb_CanBeStringPiece :: "string_builder \<Rightarrow> bool" where
  "sb_CanBeStringPiece b \<longleftrightarrow> sb_string b = None"

definition sb_AsStringPiece :: "json_parser \<Rightarrow> string_builder \<Rightarrow> std_string option" where
  "sb_AsStringPiece p b = (case sb_string b of Some _ \<Rightarrow> Some [] | None \<Rightarrow> jp_bytes p (sb_pos b) (sb_length b))"

definition sb_AsString :: "json_parser \<Rightarrow> string_builder \<Rightarrow> std_string option" where
  "sb_AsString p b = sb_Convert p b \<bind> sb_string"

definition DecodeUTF8 :: "json_parser \<Rightarrow> int \<Rightarrow> string_builder \<Rightarrow> string_builder option" where
  "DecodeUTF8 p point dest =
     (if point < kExtendedASCIIStart then Some (sb_Append (of_int point) dest)
      else sb_Convert p dest \<bind> sb_AppendString (CBU8_APPEND_UNSAFE point))"

text \<open>\<open>dest_string->append(code_unit8)\<close> takes the buffer up to its first zero.\<close>

definition c_string :: "std_string \<Rightarrow> std_string" where
  "c_string s = takeWhile (\<lambda>c. c \<noteq> 0) s"

definition DecodeUTF16_low :: "int \<Rightarrow> json_parser \<Rightarrow> (std_string option \<times> json_parser) option" where
  "DecodeUTF16_low code_unit16_high p =
     (if \<not> CBU16_IS_SURROGATE_LEAD code_unit16_high \<or> \<not> CanConsume 6 p then Some (None, p)
      else do {
        let p = NextChar p;
        c \<leftarrow> jp_at p;
        if c \<noteq> 92 then Some (None, p)
        else do {
          let p = NextChar p;
          c \<leftarrow> jp_at p;
          if c \<noteq> 117 then Some (None, p)
          else do {
            let p = NextChar p;
            digits \<leftarrow> jp_bytes p (jp_pos p) 4;
            let (ok, code_unit16_low) = HexStringToInt digits;
            if \<not> ok then Some (None, p)
            else let p = NextNChars 3 p
                 in if \<not> CBU16_IS_TRAIL32 code_unit16_low then Some (None, p)
                    else Some (Some (c_string (CBU8_APPEND_UNSAFE (CBU16_GET_SUPPLEMENTARY code_unit16_high code_unit16_low))), p)
          }
        }
      })"

text \<open>The result \<open>None\<close> is a failure.\<close>

definition DecodeUTF16 :: "json_parser \<Rightarrow> (std_string option \<times> json_parser) option" where
  "DecodeUTF16 p =
     (if \<not> CanConsume 4 p then Some (None, p)
      else do {
        digits \<leftarrow> jp_bytes p (jp_pos p) 4;
        let (ok, code_unit16_high) = HexStringToInt digits;
        if \<not> ok then Some (None, p)
        else let p = NextNChars 3 p
             in if CBU_IS_SURROGATE (uint32 code_unit16_high) then DecodeUTF16_low code_unit16_high p
                else Some (Some (c_string (CBU8_APPEND_UNSAFE code_unit16_high)), p)
      })"

text \<open>The \<open>switch\<close> over the character after a backslash: the letters that stand for one character.\<close>

definition simple_escape :: "8 word \<Rightarrow> 8 word option" where
  "simple_escape c =
     (if c = 34 \<or> c = 92 \<or> c = 47 then Some c
      else if c = 98 then Some 8 else if c = 102 then Some 12 else if c = 110 then Some 10
      else if c = 114 then Some 13 else if c = 116 then Some 9 else if c = 118 then Some 11
      else None)"

definition consume_escape :: "string_builder \<Rightarrow> json_parser \<Rightarrow> (string_builder option \<times> json_parser) option" where
  "consume_escape string p =
     (if \<not> CanConsume 1 p then Some (None, ReportError JSON_INVALID_ESCAPE 0 p)
      else do {
        let p = NextChar p;
        c \<leftarrow> jp_at p;
        if c = 120
        then if \<not> CanConsume 2 p then Some (None, ReportError JSON_INVALID_ESCAPE 1 p)
             else do {
               let p = NextChar p;
               digits \<leftarrow> jp_bytes p (jp_pos p) 2;
               let (ok, hex_digit) = HexStringToInt digits;
               if \<not> ok then Some (None, ReportError JSON_INVALID_ESCAPE (- 1) p)
               else do {
                 string' \<leftarrow> (if hex_digit < kExtendedASCIIStart then Some (sb_Append (of_int hex_digit) string)
                             else DecodeUTF8 p hex_digit string);
                 Some (Some string', NextChar p)
               }
             }
        else if c = 117
        then if \<not> CanConsume 5 p then Some (None, ReportError JSON_INVALID_ESCAPE 0 p)
             else do {
               (units, p) \<leftarrow> DecodeUTF16 (NextChar p);
               case units of
                 None \<Rightarrow> Some (None, ReportError JSON_INVALID_ESCAPE (- 1) p)
               | Some utf8_units \<Rightarrow> map_option (\<lambda>string'. (Some string', p)) (sb_AppendString utf8_units string)
             }
        else (case simple_escape c of
                Some e \<Rightarrow> Some (Some (sb_Append e string), p)
              | None \<Rightarrow> Some (None, ReportError JSON_INVALID_ESCAPE 0 p))
      })"

text \<open>\<open>CBU8_NEXT(start_pos_, index_, length, next_char)\<close>, which may read the zero after the input.\<close>

definition jp_next :: "json_parser \<Rightarrow> (nat \<times> int) option" where
  "jp_next p =
     (if jp_index p < length (jp_input p) then Some (CBU8_NEXT (jp_input p) (jp_index p))
      else if jp_index p = length (jp_input p) \<and> \<not> jp_detachable_children p then Some (Suc (jp_index p), 0)
      else None)"

partial_function (option) string_loop :: "string_builder \<Rightarrow> json_parser \<Rightarrow> (string_builder option \<times> json_parser) option" where
  "string_loop string p =
     (if CanConsume 1 p
      then do {
        (index, next_char) \<leftarrow> jp_next p;
        let p = p\<lparr>jp_pos := jp_index p, jp_index := index\<rparr>;
        if next_char < 0 \<or> \<not> IsValidCharacter next_char then Some (None, ReportError JSON_UNSUPPORTED_ENCODING 1 p)
        else if next_char = 92
        then do {
          string \<leftarrow> sb_Convert p string;
          (string', p) \<leftarrow> consume_escape string p;
          case string' of None \<Rightarrow> Some (None, p) | Some string \<Rightarrow> string_loop string p
        }
        else if next_char = 34 then Some (Some string, p\<lparr>jp_index := jp_index p - 1\<rparr>)
        else do {
          string \<leftarrow> (if next_char < kExtendedASCIIStart then Some (sb_Append (of_int next_char) string)
                    else DecodeUTF8 p next_char string);
          string_loop string p
        }
      }
      else Some (None, ReportError JSON_SYNTAX_ERROR 0 p))"

declare string_loop.simps [code]

definition ConsumeStringRaw :: "json_parser \<Rightarrow> (string_builder option \<times> json_parser) option" where
  "ConsumeStringRaw p = do {
     c \<leftarrow> jp_at p;
     if c \<noteq> 34 then Some (None, ReportError JSON_UNEXPECTED_TOKEN 1 p)
     else let p = NextChar p in string_loop (sb_at (jp_pos p)) p
   }"

definition ConsumeString :: "json_parser \<Rightarrow> ('d json option \<times> json_parser) option" where
  "ConsumeString p = do {
     (string, p) \<leftarrow> ConsumeStringRaw p;
     case string of
       None \<Rightarrow> Some (None, p)
     | Some b \<Rightarrow>
         if sb_CanBeStringPiece b \<and> \<not> jp_detachable_children p
         then map_option (\<lambda>s. (Some (StringValue s), p)) (sb_AsStringPiece p b)
         else do { s \<leftarrow> sb_AsString p b; Some (Some (StringValue s), p) }
   }"

section \<open>Numbers and literals\<close>

definition IsAsciiDigit :: "8 word \<Rightarrow> bool" where
  "IsAsciiDigit c \<longleftrightarrow> 48 \<le> c \<and> c \<le> 57"

function read_int_loop :: "8 word \<Rightarrow> nat \<Rightarrow> json_parser \<Rightarrow> (nat \<times> json_parser) option" where
  "read_int_loop c len p =
     (if CanConsume 1 p \<and> IsAsciiDigit c
      then let p = NextChar p in do { c \<leftarrow> jp_at p; read_int_loop c (len + 1) p }
      else Some (len, p))"
  by pat_completeness auto
termination
  by (relation "measure (\<lambda>(c, len, p). length (jp_input p) - jp_pos p)") (auto simp: CanConsume_def NextChar_def)

declare read_int_loop.simps [simp del]

definition jp_ReadInt :: "bool \<Rightarrow> json_parser \<Rightarrow> (bool \<times> json_parser) option" where
  "jp_ReadInt allow_leading_zeros p = do {
     first \<leftarrow> jp_at p;
     (len, p) \<leftarrow> read_int_loop first 0 p;
     Some (len \<noteq> 0 \<and> \<not> (\<not> allow_leading_zeros \<and> len > 1 \<and> first = 48), p)
   }"

text \<open>The parts of a number: each returns the end of the number so far, or an error.\<close>

definition read_fraction :: "nat \<Rightarrow> json_parser \<Rightarrow> (nat option \<times> json_parser) option" where
  "read_fraction end_index p = do {
     c \<leftarrow> jp_at p;
     if c \<noteq> 46 then Some (Some end_index, p)
     else if \<not> CanConsume 1 p then Some (None, ReportError JSON_SYNTAX_ERROR 1 p)
     else do {
       (ok, p) \<leftarrow> jp_ReadInt True (NextChar p);
       Some (if ok then (Some (jp_index p), p) else (None, ReportError JSON_SYNTAX_ERROR 1 p))
     }
   }"

definition read_exponent :: "nat \<Rightarrow> json_parser \<Rightarrow> (nat option \<times> json_parser) option" where
  "read_exponent end_index p = do {
     c \<leftarrow> jp_at p;
     if c \<noteq> 101 \<and> c \<noteq> 69 then Some (Some end_index, p)
     else do {
       let p = NextChar p;
       d \<leftarrow> jp_at p;
       (ok, p) \<leftarrow> jp_ReadInt True (if d = 45 \<or> d = 43 then NextChar p else p);
       Some (if ok then (Some (jp_index p), p) else (None, ReportError JSON_SYNTAX_ERROR 1 p))
     }
   }"

definition number_value :: "'d double_ops \<Rightarrow> std_string \<Rightarrow> 'd json option" where
  "number_value F num_string =
     (let (ok, num_int) = StringToInt num_string
      in if ok then Some (IntegerValue num_int)
         else let (ok, num_double) = StringToDouble F num_string
              in if ok \<and> IsFinite F num_double then Some (CreateDoubleValue F num_double) else None)"

definition ConsumeNumber :: "'d double_ops \<Rightarrow> json_parser \<Rightarrow> ('d json option \<times> json_parser) option" where
  "ConsumeNumber F p = do {
     let num_start = jp_pos p;
     let start_index = jp_index p;
     c \<leftarrow> jp_at p;
     (ok, p) \<leftarrow> jp_ReadInt False (if c = 45 then NextChar p else p);
     if \<not> ok then Some (None, ReportError JSON_SYNTAX_ERROR 1 p)
     else do {
       (end_index, p) \<leftarrow> read_fraction (jp_index p) p;
       case end_index of
         None \<Rightarrow> Some (None, p)
       | Some end_index \<Rightarrow> do {
           (end_index, p) \<leftarrow> read_exponent end_index p;
           case end_index of
             None \<Rightarrow> Some (None, p)
           | Some end_index \<Rightarrow> do {
               let exit_pos = jp_pos p - 1;
               let exit_index = jp_index p - 1;
               (token, p) \<leftarrow> GetNextToken p;
               if token \<notin> {T_OBJECT_END, T_ARRAY_END, T_LIST_SEPARATOR, T_END_OF_INPUT}
               then Some (None, ReportError JSON_SYNTAX_ERROR 1 p)
               else do {
                 let p = p\<lparr>jp_pos := exit_pos, jp_index := exit_index\<rparr>;
                 num_string \<leftarrow> jp_bytes p num_start (end_index - start_index);
                 Some (number_value F num_string, p)
               }
             }
         }
     }
   }"

text \<open>\<open>StringsAreEqual(pos_, literal, len)\<close> reads up to the first difference.\<close>

fun StringsAreEqual :: "json_parser \<Rightarrow> nat \<Rightarrow> std_string \<Rightarrow> bool option" where
  "StringsAreEqual p i [] = Some True"
| "StringsAreEqual p i (c # cs) = do { d \<leftarrow> jp_byte p i; if d = c then StringsAreEqual p (Suc i) cs else Some False }"

definition consume_literal :: "std_string \<Rightarrow> 'd json \<Rightarrow> json_parser \<Rightarrow> ('d json option \<times> json_parser) option" where
  "consume_literal literal value p =
     (if \<not> CanConsume (length literal - 1) p then Some (None, ReportError JSON_SYNTAX_ERROR 1 p)
      else do {
        equal \<leftarrow> StringsAreEqual p (jp_pos p) literal;
        Some (if equal then (Some value, NextNChars (length literal - 1) p) else (None, ReportError JSON_SYNTAX_ERROR 1 p))
      })"

definition ConsumeLiteral :: "json_parser \<Rightarrow> ('d json option \<times> json_parser) option" where
  "ConsumeLiteral p = do {
     c \<leftarrow> jp_at p;
     if c = 116 then consume_literal (lit ''true'') (BooleanValue True) p
     else if c = 102 then consume_literal (lit ''false'') (BooleanValue False) p
     else if c = 110 then consume_literal (lit ''null'') NullValue p
     else Some (None, ReportError JSON_UNEXPECTED_TOKEN 1 p)
   }"

section \<open>Values\<close>

text \<open>
  \<open>ParseToken\<close>, \<open>ConsumeDictionary\<close> and \<open>ConsumeList\<close> call each other. A job is a call of \<open>ParseToken\<close> or a round of
  the loop of \<open>ConsumeDictionary\<close> or \<open>ConsumeList\<close> with the children so far; \<open>run\<close> is the recursive call. The depth
  of the stack is counted up by the constructor of \<open>StackMarker\<close> and down by its destructor.
\<close>

datatype 'd job = Token_job json_token | Dictionary_job "'d dictionary" json_token | List_job "'d json list" json_token

type_synonym 'd runner = "'d job \<Rightarrow> json_parser \<Rightarrow> ('d json option \<times> json_parser) option"

definition StackMarker :: "json_parser \<Rightarrow> json_parser" where
  "StackMarker p = p\<lparr>jp_stack_depth := jp_stack_depth p + 1\<rparr>"

definition drop_StackMarker :: "json_parser \<Rightarrow> json_parser" where
  "drop_StackMarker p = p\<lparr>jp_stack_depth := jp_stack_depth p - 1\<rparr>"

definition IsTooDeep :: "json_parser \<Rightarrow> bool" where
  "IsTooDeep p \<longleftrightarrow> jp_stack_depth p \<ge> kStackMaxDepth"

definition consume_children :: "'d runner \<Rightarrow> 8 word \<Rightarrow> (json_token \<Rightarrow> 'd job) \<Rightarrow> json_parser \<Rightarrow> ('d json option \<times> json_parser) option" where
  "consume_children run start_char mk_job p = do {
     c \<leftarrow> jp_at p;
     if c \<noteq> start_char then Some (None, ReportError JSON_UNEXPECTED_TOKEN 1 p)
     else let p = StackMarker p
          in if IsTooDeep p then Some (None, drop_StackMarker (ReportError JSON_TOO_MUCH_NESTING 1 p))
             else do {
               (token, p) \<leftarrow> GetNextToken (NextChar p);
               (value, p) \<leftarrow> run (mk_job token) p;
               Some (value, drop_StackMarker p)
             }
   }"

definition ConsumeDictionary :: "'d runner \<Rightarrow> json_parser \<Rightarrow> ('d json option \<times> json_parser) option" where
  "ConsumeDictionary run p = consume_children run 123 (Dictionary_job []) p"

definition ConsumeList :: "'d runner \<Rightarrow> json_parser \<Rightarrow> ('d json option \<times> json_parser) option" where
  "ConsumeList run p = consume_children run 91 (List_job []) p"

text \<open>The separator after a child: the next token of the loop, or an error (\<open>adjust\<close> is its column).\<close>

definition next_child :: "json_token \<Rightarrow> int \<Rightarrow> json_parser \<Rightarrow> (json_token option \<times> json_parser) option" where
  "next_child end_token adjust p = do {
     (token, p) \<leftarrow> GetNextToken (NextChar p);
     if token = T_LIST_SEPARATOR
     then do {
       (token, p) \<leftarrow> GetNextToken (NextChar p);
       Some (if token = end_token \<and> \<not> jp_allow_trailing_commas p
             then (None, ReportError JSON_TRAILING_COMMA 1 p) else (Some token, p))
     }
     else Some (if token \<noteq> end_token then (None, ReportError JSON_SYNTAX_ERROR adjust p) else (Some token, p))
   }"

definition dictionary_round :: "'d runner \<Rightarrow> 'd dictionary \<Rightarrow> json_token \<Rightarrow> json_parser \<Rightarrow> ('d json option \<times> json_parser) option" where
  "dictionary_round run dict token p =
     (if token = T_OBJECT_END then Some (Some (DictionaryValue dict), p)
      else if token \<noteq> T_STRING then Some (None, ReportError JSON_UNQUOTED_DICTIONARY_KEY 1 p)
      else do {
        (key, p) \<leftarrow> ConsumeStringRaw p;
        case key of
          None \<Rightarrow> Some (None, p)
        | Some key \<Rightarrow> do {
            (token, p) \<leftarrow> GetNextToken (NextChar p);
            if token \<noteq> T_OBJECT_PAIR_SEPARATOR then Some (None, ReportError JSON_SYNTAX_ERROR 1 p)
            else do {
              (token, p) \<leftarrow> GetNextToken (NextChar p);
              (value, p) \<leftarrow> run (Token_job token) p;
              case value of
                None \<Rightarrow> Some (None, p)
              | Some value \<Rightarrow> do {
                  key \<leftarrow> sb_AsString p key;
                  let dict = SetWithoutPathExpansion key value dict;
                  (token, p) \<leftarrow> next_child T_OBJECT_END 0 p;
                  case token of None \<Rightarrow> Some (None, p) | Some token \<Rightarrow> run (Dictionary_job dict token) p
                }
            }
          }
      })"

definition list_round :: "'d runner \<Rightarrow> 'd json list \<Rightarrow> json_token \<Rightarrow> json_parser \<Rightarrow> ('d json option \<times> json_parser) option" where
  "list_round run list token p =
     (if token = T_ARRAY_END then Some (Some (ListValue list), p)
      else do {
        (item, p) \<leftarrow> run (Token_job token) p;
        case item of
          None \<Rightarrow> Some (None, p)
        | Some item \<Rightarrow> do {
            let list = list_Append item list;
            (token, p) \<leftarrow> next_child T_ARRAY_END 1 p;
            case token of None \<Rightarrow> Some (None, p) | Some token \<Rightarrow> run (List_job list token) p
          }
      })"

definition ParseToken :: "'d runner \<Rightarrow> 'd double_ops \<Rightarrow> json_token \<Rightarrow> json_parser \<Rightarrow> ('d json option \<times> json_parser) option" where
  "ParseToken run F token p =
     (if token = T_OBJECT_BEGIN then ConsumeDictionary run p
      else if token = T_ARRAY_BEGIN then ConsumeList run p
      else if token = T_STRING then ConsumeString p
      else if token = T_NUMBER then ConsumeNumber F p
      else if token \<in> {T_BOOL_TRUE, T_BOOL_FALSE, T_NULL} then ConsumeLiteral p
      else Some (None, ReportError JSON_UNEXPECTED_TOKEN 1 p))"

definition run_with :: "'d runner \<Rightarrow> 'd double_ops \<Rightarrow> 'd runner" where
  "run_with run F job p =
     (case job of
        Token_job token \<Rightarrow> ParseToken run F token p
      | Dictionary_job dict token \<Rightarrow> dictionary_round run dict token p
      | List_job list token \<Rightarrow> list_round run list token p)"

lemma case_option_mono [partial_function_mono]:
  assumes "mono_option N" "\<And>x. mono_option (\<lambda>f. S f x)"
  shows "mono_option (\<lambda>f. case e of None \<Rightarrow> N f | Some x \<Rightarrow> S f x)"
  using assms by (cases e) auto

lemma consume_children_mono [partial_function_mono]:
  assumes "\<And>j q. mono_option (\<lambda>f. R f j q)"
  shows "mono_option (\<lambda>f. consume_children (R f) c m p)"
  unfolding consume_children_def Let_def split_def by (intro partial_function_mono assms)

lemma dictionary_round_mono [partial_function_mono]:
  assumes "\<And>j q. mono_option (\<lambda>f. R f j q)"
  shows "mono_option (\<lambda>f. dictionary_round (R f) dict token p)"
  unfolding dictionary_round_def Let_def split_def by (intro partial_function_mono assms)

lemma list_round_mono [partial_function_mono]:
  assumes "\<And>j q. mono_option (\<lambda>f. R f j q)"
  shows "mono_option (\<lambda>f. list_round (R f) xs token p)"
  unfolding list_round_def Let_def split_def by (intro partial_function_mono assms)

lemma run_with_mono [partial_function_mono]:
  assumes "\<And>j q. mono_option (\<lambda>f. R f j q)"
  shows "mono_option (\<lambda>f. run_with (R f) F job p)"
  unfolding run_with_def ParseToken_def ConsumeDictionary_def ConsumeList_def
  by (cases job) (simp_all only: job.case, (intro partial_function_mono assms)+)

partial_function (option) run_job :: "'d double_ops \<Rightarrow> 'd job \<Rightarrow> json_parser \<Rightarrow> ('d json option \<times> json_parser) option" where
  "run_job F job p = run_with (run_job F) F job p"

declare run_job.simps [code]

definition ParseNextToken :: "'d double_ops \<Rightarrow> json_parser \<Rightarrow> ('d json option \<times> json_parser) option" where
  "ParseNextToken F p = do { (token, p) \<leftarrow> GetNextToken p; run_job F (Token_job token) p }"

section \<open>The root\<close>

definition start_parse :: "std_string \<Rightarrow> json_parser \<Rightarrow> json_parser" where
  "start_parse input p =
     p\<lparr>jp_input := input, jp_pos := 0, jp_index := 0, jp_line_number := 1, jp_index_last_line := 0,
       jp_error_code := JSON_NO_ERROR, jp_error_line := 0, jp_error_column := 0\<rparr>"

definition skip_bom :: "json_parser \<Rightarrow> json_parser option" where
  "skip_bom p =
     (if CanConsume 3 p
      then do { bytes \<leftarrow> jp_bytes p (jp_pos p) 3; Some (if bytes = [0xEF, 0xBB, 0xBF] then NextNChars 3 p else p) }
      else Some p)"

definition at_end :: "json_parser \<Rightarrow> (bool \<times> json_parser) option" where
  "at_end p = do {
     (token, p) \<leftarrow> GetNextToken p;
     if token = T_END_OF_INPUT then Some (True, p)
     else if \<not> CanConsume 1 p then Some (False, p)
     else do { (token, p) \<leftarrow> GetNextToken (NextChar p); Some (token = T_END_OF_INPUT, p) }
   }"

text \<open>A string root is copied (\<open>DeepCopy\<close>); a dictionary or list root becomes a hidden root with the same children.\<close>

definition Parse :: "'d double_ops \<Rightarrow> std_string \<Rightarrow> json_parser \<Rightarrow> ('d json option \<times> json_parser) option" where
  "Parse F input p = do {
     p \<leftarrow> skip_bom (start_parse input p);
     (root, p) \<leftarrow> ParseNextToken F p;
     case root of
       None \<Rightarrow> Some (None, p)
     | Some root \<Rightarrow> do {
         (ok, p) \<leftarrow> at_end p;
         Some (if \<not> ok then (None, ReportError JSON_UNEXPECTED_DATA_AFTER_ROOT 1 p)
               else if \<not> jp_detachable_children p \<and> GetType root = TYPE_STRING then (Some (DeepCopy F root), p)
               else (Some root, p))
       }
   }"

section \<open>The reader\<close>

fun ErrorCodeToString :: "JsonParseError \<Rightarrow> std_string" where
  "ErrorCodeToString JSON_NO_ERROR = []"
| "ErrorCodeToString JSON_INVALID_ESCAPE = lit ''Invalid escape sequence.''"
| "ErrorCodeToString JSON_SYNTAX_ERROR = lit ''Syntax error.''"
| "ErrorCodeToString JSON_UNEXPECTED_TOKEN = lit ''Unexpected token.''"
| "ErrorCodeToString JSON_TRAILING_COMMA = lit ''Trailing comma not allowed.''"
| "ErrorCodeToString JSON_TOO_MUCH_NESTING = lit ''Too much nesting.''"
| "ErrorCodeToString JSON_UNEXPECTED_DATA_AFTER_ROOT = lit ''Unexpected data after root element.''"
| "ErrorCodeToString JSON_UNSUPPORTED_ENCODING = lit ''Unsupported encoding. JSON must be UTF-8.''"
| "ErrorCodeToString JSON_UNQUOTED_DICTIONARY_KEY = lit ''Dictionary keys must be quoted.''"

text \<open>\<open>%i\<close> of a number.\<close>

definition format_i :: "int \<Rightarrow> std_string" where
  "format_i n = (if n < 0 then [45] else []) @ decimal (nat \<bar>n\<bar>)"

definition FormatErrorMessage :: "nat \<Rightarrow> int \<Rightarrow> std_string \<Rightarrow> std_string" where
  "FormatErrorMessage line column description =
     (if line \<noteq> 0 \<or> column \<noteq> 0
      then lit ''Line: '' @ format_i (int line) @ lit '', column: '' @ format_i column @ lit '', '' @ description
      else description)"

definition GetErrorMessage :: "json_parser \<Rightarrow> std_string" where
  "GetErrorMessage p = FormatErrorMessage (jp_error_line p) (jp_error_column p) (ErrorCodeToString (jp_error_code p))"

definition JSONReader_Read :: "'d double_ops \<Rightarrow> std_string \<Rightarrow> int \<Rightarrow> 'd json option option" where
  "JSONReader_Read F json options = map_option fst (Parse F json (mk_JSONParser options))"

definition ReadAndReturnError :: "'d double_ops \<Rightarrow> std_string \<Rightarrow> int \<Rightarrow> (JsonParseError \<times> std_string + 'd json) option" where
  "ReadAndReturnError F json options =
     map_option (\<lambda>(root, p). case root of Some root \<Rightarrow> Inr root | None \<Rightarrow> Inl (jp_error_code p, GetErrorMessage p))
       (Parse F json (mk_JSONParser options))"

end
