(* ===== verification/Json_Safety.thy ===== *)
theory Json_Safety
  imports Json_Parser
begin

text \<open>
  The JSON parser is safe: on a copy of its input it ends, never reads outside of the input and its final zero,
  keeps its settings and the depth of its stack, and reports an error exactly if it returns no value. Every
  operation is shown to be \<open>onward\<close> (the position has not moved back and lies inside of the input) or to fail.
\<close>

section \<open>Positions\<close>

definition setting :: "json_parser \<Rightarrow> std_string \<times> bool \<times> bool \<times> nat" where
  "setting p = (jp_input p, jp_allow_trailing_commas p, jp_detachable_children p, jp_stack_depth p)"

definition in_input :: "json_parser \<Rightarrow> bool" where
  "in_input p \<longleftrightarrow> \<not> jp_detachable_children p \<and> jp_index p = jp_pos p \<and> jp_pos p \<le> length (jp_input p)"

definition onward :: "json_parser \<Rightarrow> json_parser \<Rightarrow> bool" where
  "onward p p' \<longleftrightarrow> setting p' = setting p \<and> jp_error_code p' = jp_error_code p \<and> jp_pos p \<le> jp_pos p' \<and> in_input p'"

definition fails :: "json_parser \<Rightarrow> json_parser \<Rightarrow> bool" where
  "fails p p' \<longleftrightarrow> setting p' = setting p \<and> jp_error_code p' \<noteq> JSON_NO_ERROR"

abbreviation jp_end :: "json_parser \<Rightarrow> nat" where
  "jp_end p \<equiv> length (jp_input p)"

lemma onward_refl: "in_input p \<Longrightarrow> onward p p"
  by (simp add: onward_def)

lemma onward_trans: "onward p q \<Longrightarrow> onward q r \<Longrightarrow> onward p r"
  by (simp add: onward_def)

lemma onward_fails: "onward p q \<Longrightarrow> fails q r \<Longrightarrow> fails p r"
  by (simp add: onward_def fails_def)

lemma onward_end: "onward p q \<Longrightarrow> jp_end q = jp_end p"
  by (simp add: onward_def setting_def)

lemma onwardD: "onward p q \<Longrightarrow> in_input q" "onward p q \<Longrightarrow> jp_pos p \<le> jp_pos q" "onward p q \<Longrightarrow> jp_input q = jp_input p"
  by (simp_all add: onward_def setting_def)

lemma NextChar_onward: "in_input p \<Longrightarrow> jp_pos p < jp_end p \<Longrightarrow> onward p (NextChar p)"
  by (simp add: onward_def setting_def in_input_def NextChar_def)

lemma NextNChars_onward: "in_input p \<Longrightarrow> jp_pos p + n \<le> jp_end p \<Longrightarrow> onward p (NextNChars n p)"
  by (simp add: onward_def setting_def in_input_def NextNChars_def)

lemma NextChar_simps: "jp_pos (NextChar p) = Suc (jp_pos p)" "jp_input (NextChar p) = jp_input p"
  "jp_detachable_children (NextChar p) = jp_detachable_children p"
  by (simp_all add: NextChar_def)

lemma ReportError_fails: "code \<noteq> JSON_NO_ERROR \<Longrightarrow> setting p' = setting p \<Longrightarrow> fails p (ReportError code n p')"
  by (simp add: fails_def ReportError_def setting_def)

lemma onward_report: "onward p q \<Longrightarrow> code \<noteq> JSON_NO_ERROR \<Longrightarrow> fails p (ReportError code n q)"
  by (simp add: ReportError_fails onward_def)

lemma byte_inside: "i < jp_end p \<Longrightarrow> jp_byte p i = Some (jp_input p ! i)"
  by (simp add: jp_byte_def)

lemma byte_ok: "\<not> jp_detachable_children p \<Longrightarrow> i \<le> jp_end p \<Longrightarrow> ensures (jp_byte p i) (\<lambda>c. c \<noteq> 0 \<longrightarrow> i < jp_end p)"
  by (simp add: jp_byte_def)

lemma at_ok: "in_input p \<Longrightarrow> ensures (jp_at p) (\<lambda>c. c \<noteq> 0 \<longrightarrow> jp_pos p < jp_end p)"
  by (simp add: in_input_def byte_ok)

lemma bytes_ok: "\<not> jp_detachable_children p \<Longrightarrow> i + n \<le> Suc (jp_end p) \<Longrightarrow> ensures (jp_bytes p i n) (\<lambda>bs. length bs = n)"
proof (induction n arbitrary: i)
  case (Suc n)
  have "ensures (jp_bytes p (Suc i) n) (\<lambda>bs. length bs = n)" using Suc by simp
  then show ?case
    using Suc.prems by (auto intro!: ensures_bind [OF byte_ok] elim!: ensures_bind)
qed simp

section \<open>Tokens\<close>

lemma onward_step: "onward p q \<Longrightarrow> ensures c (\<lambda>(b, p'). onward q p') \<Longrightarrow> ensures c (\<lambda>(b, p'). onward p p')"
  by (erule ensures_mono) (auto dest: onward_trans)

lemma line_comment_ok: "in_input p \<Longrightarrow> ensures (line_comment_loop p) (\<lambda>(b, p'). onward p p')"
proof (induction p rule: line_comment_loop.induct)
  case (1 p)
  show ?case
  proof (cases "CanConsume 1 p")
    case True
    then have next_p: "onward p (NextChar p)" using 1(2) by (simp add: NextChar_onward CanConsume_def)
    obtain c where c: "jp_at (NextChar p) = Some c" using at_ok [OF onwardD(1) [OF next_p]] by (auto elim: ensuresE)
    show ?thesis
      by (subst line_comment_loop.simps)
        (use True c next_p in \<open>auto simp: Let_def intro!: onward_step [OF next_p 1(1)] onwardD(1) [OF next_p]\<close>)
  qed (use 1 in \<open>simp add: onward_refl line_comment_loop.simps\<close>)
qed

lemma block_comment_ok: "in_input p \<Longrightarrow> ensures (block_comment_loop p) (\<lambda>(b, p'). onward p p')"
proof (induction p rule: block_comment_loop.induct)
  case (1 p)
  show ?case
  proof (cases "CanConsume 2 p")
    case True
    then have n1: "onward p (NextChar p)" using 1(3) by (simp add: NextChar_onward CanConsume_def)
    have n2: "onward p (NextChar (NextChar p))"
      using True by (intro onward_trans [OF n1] NextChar_onward onwardD(1) [OF n1]) (simp add: CanConsume_def NextChar_simps)
    have n3: "onward p (NextChar (NextChar (NextChar p)))" if "Suc (Suc (jp_pos p)) < jp_end p"
      by (intro onward_trans [OF n2] NextChar_onward onwardD(1) [OF n2]) (use that in \<open>simp add: NextChar_simps\<close>)
    obtain c where c: "jp_at (NextChar p) = Some c" using at_ok [OF onwardD(1) [OF n1]] by (auto elim: ensuresE)
    obtain d where d: "jp_at (NextChar (NextChar p)) = Some d" "d \<noteq> 0 \<longrightarrow> Suc (Suc (jp_pos p)) < jp_end p"
      using at_ok [OF onwardD(1) [OF n2]] by (auto simp: NextChar_simps elim: ensuresE)
    show ?thesis
      by (subst block_comment_loop.simps)
        (use True c d n3 in \<open>auto simp: Let_def intro!: onward_step [OF n2 1(1)] onward_step [OF n1 1(2)] onwardD(1) [OF n1] onwardD(1) [OF n2]\<close>)
  qed (use 1 in \<open>simp add: onward_refl block_comment_loop.simps\<close>)
qed

lemma EatComment_ok: "in_input p \<Longrightarrow> ensures (EatComment p) (\<lambda>(b, p'). onward p p')"
  unfolding EatComment_def
proof (rule ensures_bind [OF at_ok])
  fix c :: "8 word"
  assume p: "in_input p"
  then have n: "CanConsume 1 p \<Longrightarrow> onward p (NextChar p)" by (simp add: NextChar_onward CanConsume_def)
  show "ensures (if c \<noteq> 47 \<or> \<not> CanConsume 1 p then Some (False, p)
     else let p = NextChar p in jp_at p \<bind> (\<lambda>d. if d = 47 then line_comment_loop p else if d = 42 then block_comment_loop p else Some (False, p)))
     (\<lambda>(b, p'). onward p p')"
    using p n by (auto simp: Let_def intro!: onward_refl ensures_bind [OF at_ok] line_comment_ok [THEN ensures_mono]
        block_comment_ok [THEN ensures_mono] dest: onwardD(1) onward_trans)
qed

lemma EatWhitespace_ok: "in_input p \<Longrightarrow> ensures (EatWhitespaceAndComments p) (onward p)"
proof (induction p rule: EatWhitespaceAndComments.induct)
  case (1 p)
  let ?l = "p\<lparr>jp_index_last_line := jp_index p, jp_line_number := Suc (jp_line_number p)\<rparr>"
  show ?case
  proof (cases "jp_pos p < jp_end p")
    case True
    have n: "onward p (NextChar p)" by (rule NextChar_onward [OF 1(4) True])
    have l: "onward p (NextChar ?l)" using n by (simp add: onward_def setting_def in_input_def NextChar_def)
    have rest: "ensures (EatWhitespaceAndComments q) (onward p)"
      if "onward p q" "in_input q \<Longrightarrow> ensures (EatWhitespaceAndComments q) (onward q)" for q
      by (rule ensures_mono [OF that(2) [OF onwardD(1) [OF that(1)]]]) (rule onward_trans [OF that(1)])
    obtain b q where q: "EatComment p = Some (b, q)" "onward p q" using EatComment_ok [OF 1(4)] by (auto elim: ensuresE)
    obtain c where c: "jp_at p = Some c" using at_ok [OF 1(4)] by (auto elim: ensuresE)
    show ?thesis
      by (subst EatWhitespaceAndComments.simps)
        (use True c q 1(4) in \<open>auto intro: rest [OF l 1(1) [simplified]] rest [OF n 1(2)] rest [OF q(2) 1(3)] onward_refl\<close>)
  qed (use 1 in \<open>simp add: onward_refl EatWhitespaceAndComments.simps\<close>)
qed

definition token_at :: "json_token \<Rightarrow> json_parser \<Rightarrow> bool" where
  "token_at t p \<longleftrightarrow>
     (if t = T_END_OF_INPUT then jp_pos p = jp_end p else jp_pos p < jp_end p \<and> t = token_of (jp_input p ! jp_pos p))"

lemma GetNextToken_ok:
  assumes "in_input p"
  shows "ensures (GetNextToken p) (\<lambda>(t, q). onward p q \<and> token_at t q)"
  unfolding GetNextToken_def token_at_def
  by (rule ensures_bind [OF EatWhitespace_ok [OF assms]])
    (auto simp: CanConsume_def byte_inside onward_def in_input_def token_of_def)

section \<open>Strings\<close>

text \<open>Inside of a string the position is the start of the last character and the index is behind it.\<close>

definition in_string :: "json_parser \<Rightarrow> bool" where
  "in_string p \<longleftrightarrow> \<not> jp_detachable_children p \<and> jp_pos p \<le> jp_index p \<and> jp_pos p \<le> jp_end p \<and> (jp_pos p < jp_end p \<longrightarrow> jp_index p \<le> jp_end p)"

definition quiet :: "json_parser \<Rightarrow> json_parser \<Rightarrow> bool" where
  "quiet p p' \<longleftrightarrow> setting p' = setting p \<and> jp_error_code p' = jp_error_code p"

lemma quiet_simps: "quiet p p" "quiet p (NextChar p') = quiet p p'" "quiet p (NextNChars n p') = quiet p p'"
  "quiet p (p'\<lparr>jp_pos := i, jp_index := j\<rparr>) = quiet p p'" "quiet p (p'\<lparr>jp_index := j\<rparr>) = quiet p p'"
  "quiet p (p'\<lparr>jp_pos := i\<rparr>) = quiet p p'"
  by (simp_all add: quiet_def setting_def NextChar_def NextNChars_def)

lemma quiet_trans: "quiet p q \<Longrightarrow> quiet q r \<Longrightarrow> quiet p r"
  by (simp add: quiet_def)

lemma quiet_fails: "quiet p q \<Longrightarrow> fails q r \<Longrightarrow> fails p r"
  by (simp add: quiet_def fails_def)

lemma quietD: "quiet p q \<Longrightarrow> jp_input q = jp_input p" "quiet p q \<Longrightarrow> jp_detachable_children q = jp_detachable_children p"
  by (simp_all add: quiet_def setting_def)

lemma quiet_report: "quiet p q \<Longrightarrow> code \<noteq> JSON_NO_ERROR \<Longrightarrow> fails p (ReportError code n q)"
  by (simp add: ReportError_fails quiet_def)

lemma quiet_bytes: "quiet p q \<Longrightarrow> jp_byte q i = jp_byte p i"
  by (simp add: quietD jp_byte_def)

lemma jp_next_ok:
  assumes "in_string p" and "CanConsume 1 p"
  shows "ensures (jp_next p) (\<lambda>(i, c). jp_index p < i \<and> (0 \<le> c \<longrightarrow> (i \<le> jp_end p \<or> jp_index p = jp_end p \<and> c = 0) \<and> (c < 128 \<longrightarrow> i = Suc (jp_index p))))"
proof (cases "jp_index p < jp_end p")
  case True
  obtain i c where n: "CBU8_NEXT (jp_input p) (jp_index p) = (i, c)" by (cases "CBU8_NEXT (jp_input p) (jp_index p)")
  have "jp_index p < i" using CBU8_NEXT_advances [of "jp_index p" "jp_input p"] n by simp
  moreover have "i \<le> jp_end p \<and> (c < 128 \<longrightarrow> i = Suc (jp_index p))" if "0 \<le> c"
    using next_sound [OF True n] scalar_limits [of c] that by (auto simp: CBU_SENTINEL_def CBU8_APPEND_UNSAFE_def)
  ultimately show ?thesis using True n by (simp add: jp_next_def)
qed (use assms in \<open>auto simp: jp_next_def in_string_def CanConsume_def\<close>)

lemma DecodeUTF8_ok:
  assumes "sb_string b = None \<Longrightarrow> \<not> jp_detachable_children p \<and> sb_pos b + sb_length b \<le> Suc (jp_end p)" and "kExtendedASCIIStart \<le> c \<or> sb_string b \<noteq> None"
  shows "ensures (DecodeUTF8 p c b) (\<lambda>b'. sb_string b' \<noteq> None)"
proof (cases "sb_string b")
  case None
  have "ensures (jp_bytes p (sb_pos b) (sb_length b)) (\<lambda>bs. length bs = sb_length b)"
    by (rule bytes_ok) (use assms(1) [OF None] in simp_all)
  then show ?thesis
    using None assms(2) by (auto simp: DecodeUTF8_def sb_Convert_def sb_AppendString_def elim: ensuresE)
qed (auto simp: DecodeUTF8_def sb_Convert_def sb_AppendString_def sb_Append_def)

text \<open>What the branches of an escape and of a surrogate pair leave behind.\<close>

definition escape_post :: "json_parser \<Rightarrow> json_parser \<Rightarrow> bool" where
  "escape_post p q \<longleftrightarrow> quiet p q \<and> jp_pos p < jp_pos q \<and> jp_pos q \<le> jp_end p \<and> jp_index q = Suc (jp_pos q)"

lemma DecodeUTF16_low_ok:
  assumes "\<not> jp_detachable_children p" and "jp_index p = Suc (jp_pos p)" "jp_pos p \<le> jp_end p"
  shows "ensures (DecodeUTF16_low h p) (\<lambda>(r, q). quiet p q \<and> (r \<noteq> None \<longrightarrow> escape_post p q))"
proof (cases "CanConsume 6 p")
  case True
  let ?n = "NextChar (NextChar (NextChar p))"
  obtain c d where "jp_at (NextChar p) = Some c" "jp_at (NextChar (NextChar p)) = Some d"
    using True assms(1) by (auto simp: CanConsume_def jp_byte_def NextChar_simps)
  moreover have "ensures (jp_bytes ?n (jp_pos ?n) 4) (\<lambda>bs. length bs = 4)"
    by (rule bytes_ok) (use True assms(1) in \<open>simp_all add: CanConsume_def NextChar_simps\<close>)
  then obtain bs where "jp_bytes ?n (jp_pos ?n) 4 = Some bs" by (auto elim: ensuresE)
  moreover have "escape_post p (NextNChars 3 ?n)"
    using True assms by (simp add: escape_post_def quiet_simps CanConsume_def NextNChars_def NextChar_def quiet_def setting_def)
  ultimately show ?thesis
    using True by (auto simp: DecodeUTF16_low_def Let_def quiet_simps split: prod.split)
qed (simp add: DecodeUTF16_low_def quiet_simps)

lemma DecodeUTF16_ok:
  assumes "\<not> jp_detachable_children p" and "jp_index p = Suc (jp_pos p)" "jp_pos p + 4 \<le> jp_end p"
  shows "ensures (DecodeUTF16 p) (\<lambda>(r, q). quiet p q \<and> (r \<noteq> None \<longrightarrow> escape_post p q))"
proof -
  let ?n = "NextNChars 3 p"
  have "ensures (jp_bytes p (jp_pos p) 4) (\<lambda>bs. length bs = 4)"
    by (rule bytes_ok) (use assms in simp_all)
  then obtain bs where bs: "jp_bytes p (jp_pos p) 4 = Some bs" by (auto elim: ensuresE)
  have n: "escape_post p ?n"
    using assms by (simp add: escape_post_def quiet_def setting_def NextNChars_def)
  have "ensures (DecodeUTF16_low h ?n) (\<lambda>(r, q). quiet ?n q \<and> (r \<noteq> None \<longrightarrow> escape_post ?n q))" for h
    by (rule DecodeUTF16_low_ok) (use assms in \<open>simp_all add: NextNChars_def\<close>)
  then have "ensures (DecodeUTF16_low h ?n) (\<lambda>(r, q). quiet p q \<and> (r \<noteq> None \<longrightarrow> escape_post p q))" for h
    by (rule ensures_mono) (use n in \<open>auto simp: escape_post_def dest: quietD intro: quiet_trans\<close>)
  then show ?thesis
    using bs n assms(3) by (auto simp: DecodeUTF16_def Let_def CanConsume_def quiet_simps escape_post_def split: prod.split)
qed

lemma consume_escape_ok:
  assumes "\<not> jp_detachable_children p" and "jp_index p = Suc (jp_pos p)" "jp_pos p < jp_end p" and b: "sb_string b = Some s"
  shows "ensures (consume_escape b p) (\<lambda>(r, q). case r of None \<Rightarrow> fails p q | Some b' \<Rightarrow> escape_post p q \<and> sb_string b' \<noteq> None)"
proof -
  let ?n = "NextChar p" and ?n2 = "NextChar (NextChar p)"
  have n: "quiet p ?n" "quiet p ?n2" "quiet p (NextChar ?n2)" by (simp_all add: quiet_simps)
  have "ensures (jp_at ?n) (\<lambda>c. c \<noteq> 0 \<longrightarrow> jp_pos ?n < jp_end ?n)"
    by (rule byte_ok) (use assms in \<open>simp_all add: NextChar_simps\<close>)
  then obtain c where c: "jp_at ?n = Some c" by (rule ensuresE)
  have n1: "escape_post p ?n" using assms(2,3) n by (simp add: escape_post_def NextChar_def quiet_simps)
  have x: "\<exists>bs. jp_bytes ?n2 (jp_pos ?n2) 2 = Some bs \<and> escape_post p (NextChar ?n2)" if "CanConsume 2 ?n"
  proof -
    have "ensures (jp_bytes ?n2 (jp_pos ?n2) 2) (\<lambda>bs. length bs = 2)"
      by (rule bytes_ok) (use that assms(1) in \<open>simp_all add: NextChar_simps CanConsume_def\<close>)
    moreover have "escape_post p (NextChar ?n2)"
      using that assms(2) n by (simp add: escape_post_def quiet_simps CanConsume_def NextChar_def)
    ultimately show ?thesis by (auto elim: ensuresE)
  qed
  have d: "ensures (DecodeUTF8 ?n2 h b) (\<lambda>b'. sb_string b' \<noteq> None)" for h
    by (rule DecodeUTF8_ok) (use b in simp_all)
  have u: "ensures (DecodeUTF16 ?n2) (\<lambda>(r, q). quiet p q \<and> (r \<noteq> None \<longrightarrow> escape_post p q))" if "CanConsume 5 ?n"
  proof -
    have "ensures (DecodeUTF16 ?n2) (\<lambda>(r, q). quiet ?n2 q \<and> (r \<noteq> None \<longrightarrow> escape_post ?n2 q))"
      by (rule DecodeUTF16_ok) (use that assms in \<open>simp_all add: NextChar_def CanConsume_def\<close>)
    then show ?thesis
      by (rule ensures_mono) (use n(2) in \<open>auto simp: escape_post_def NextChar_simps intro: quiet_trans\<close>)
  qed
  have 1: "CanConsume 1 p" using assms(3) by (simp add: CanConsume_def)
  consider (hex) "c = 120" | (utf16) "c = 117" | (other) "c \<noteq> 120" "c \<noteq> 117" by blast
  then show ?thesis
  proof cases
    case hex
    show ?thesis
    proof (cases "CanConsume 2 ?n")
      case True
      then show ?thesis
        using 1 c hex x b n
        by (auto simp: consume_escape_def Let_def sb_Append_def quiet_report split: prod.split intro!: ensures_bind [OF d])
    qed (use 1 c hex n in \<open>simp add: consume_escape_def quiet_report\<close>)
  next
    case utf16
    show ?thesis
    proof (cases "CanConsume 5 ?n")
      case True
      show ?thesis
        using 1 c utf16 True u b
        by (auto simp: consume_escape_def sb_AppendString_def elim!: ensuresE intro!: quiet_report split: option.split)
    qed (use 1 c utf16 n in \<open>simp add: consume_escape_def quiet_report\<close>)
  next
    case other
    then show ?thesis
      using 1 c n1 n b by (auto simp: consume_escape_def Let_def sb_Append_def quiet_report split: option.split)
  qed
qed

text \<open>The result of a string: its builder, with a closing quote at the position.\<close>

definition builder_ok :: "json_parser \<Rightarrow> nat \<Rightarrow> string_builder \<Rightarrow> bool" where
  "builder_ok p i b \<longleftrightarrow> (sb_string b = None \<longrightarrow> sb_pos b + sb_length b = i)"

definition string_post :: "json_parser \<Rightarrow> string_builder option \<Rightarrow> json_parser \<Rightarrow> bool" where
  "string_post p r q \<longleftrightarrow>
     (case r of
        None \<Rightarrow> fails p q
      | Some b \<Rightarrow> quiet p q \<and> in_input q \<and> jp_index p \<le> jp_pos q \<and> jp_pos q < jp_end p \<and> builder_ok p (jp_pos q) b)"

lemma string_post_step:
  assumes "quiet p q" and "jp_index p \<le> jp_index q" and "ensures c (\<lambda>(r, q'). string_post q r q')"
  shows "ensures c (\<lambda>(r, q'). string_post p r q')"
  using assms(3) by (rule ensures_mono)
    (use assms(1,2) in \<open>auto simp: string_post_def builder_ok_def quietD intro: quiet_fails quiet_trans split: option.splits\<close>)

lemma Convert_ok:
  assumes "\<not> jp_detachable_children p" and "builder_ok q i b" and "i \<le> Suc (jp_end p)"
  shows "ensures (sb_Convert p b) (\<lambda>b'. sb_string b' \<noteq> None)"
proof (cases "sb_string b")
  case None
  then have "ensures (jp_bytes p (sb_pos b) (sb_length b)) (\<lambda>bs. length bs = sb_length b)"
    by (intro bytes_ok) (use assms in \<open>simp_all add: builder_ok_def\<close>)
  then show ?thesis using None by (simp add: sb_Convert_def ensures_mono)
qed (simp add: sb_Convert_def)

lemma string_loop_ok:
  "in_string p \<Longrightarrow> builder_ok p (jp_index p) b \<Longrightarrow> ensures (string_loop b p) (\<lambda>(r, q). string_post p r q)"
proof (induction "Suc (Suc (jp_end p)) - jp_index p" arbitrary: b p rule: less_induct)
  case less
  show ?case
  proof (cases "CanConsume 1 p")
    case False
    then show ?thesis by (subst string_loop.simps) (simp add: string_post_def quiet_report quiet_simps)
  next
    case True
    obtain i c where next_c: "jp_next p = Some (i, c)" and i: "jp_index p < i"
      and c: "0 \<le> c \<Longrightarrow> i \<le> jp_end p \<or> jp_index p = jp_end p \<and> c = 0" "0 \<le> c \<Longrightarrow> c < 128 \<Longrightarrow> i = Suc (jp_index p)"
      using jp_next_ok [OF less.prems(1) True] by (auto elim!: ensuresE)
    define p1 where "p1 = p\<lparr>jp_pos := jp_index p, jp_index := i\<rparr>"
    have p1: "quiet p p1" "jp_index p1 = i" "jp_pos p1 = jp_index p" "jp_end p1 = jp_end p" "\<not> jp_detachable_children p1"
      using less.prems(1) by (simp_all add: p1_def quiet_simps in_string_def)
    have len: "jp_index p \<le> jp_end p" using less.prems(1) True by (simp add: in_string_def CanConsume_def)
    have again: "ensures (string_loop b' q) (\<lambda>(r, q'). string_post p r q')"
      if q: "quiet p q" "jp_index p < jp_index q" "in_string q" "builder_ok q (jp_index q) b'" for b' q
    proof (rule string_post_step [OF q(1)])
      show "ensures (string_loop b' q) (\<lambda>(r, q'). string_post q r q')"
        by (rule less.hyps) (use q len in \<open>simp_all add: quietD\<close>)
    qed (use q in simp)
    consider (bad) "c < 0 \<or> \<not> IsValidCharacter c" | (escape) "0 \<le> c" "IsValidCharacter c" "c = 92"
      | (quote) "0 \<le> c" "IsValidCharacter c" "c = 34" | (other) "0 \<le> c" "IsValidCharacter c" "c \<noteq> 92" "c \<noteq> 34" by linarith
    then show ?thesis
    proof cases
      case bad
      then show ?thesis
        by (subst string_loop.simps) (use True next_c p1(1) in \<open>auto simp: p1_def string_post_def quiet_report\<close>)
    next
      case escape
      obtain b1 s where b1: "sb_Convert p1 b = Some b1" "sb_string b1 = Some s"
        using Convert_ok [OF p1(5) less.prems(2)] len p1(4) by (auto elim!: ensuresE)
      have lt: "jp_index p < jp_end p" using c escape i by auto
      have "ensures (consume_escape b1 p1) (\<lambda>(r, q). case r of None \<Rightarrow> fails p1 q | Some b' \<Rightarrow> escape_post p1 q \<and> sb_string b' \<noteq> None)"
        by (rule consume_escape_ok [OF p1(5) _ _ b1(2)]) (use c escape lt p1 in simp_all)
      then obtain r q where q: "consume_escape b1 p1 = Some (r, q)"
        and post: "case r of None \<Rightarrow> fails p1 q | Some b' \<Rightarrow> escape_post p1 q \<and> sb_string b' \<noteq> None" by (auto elim: ensuresE)
      have "ensures (string_loop b' q) (\<lambda>(r, q'). string_post p r q')" if "r = Some b'" for b'
        by (rule again) (use post that p1 lt in \<open>auto simp: escape_post_def in_string_def builder_ok_def quietD intro: quiet_trans\<close>)
      moreover have "string_post p None q" if "r = None"
        using post that quiet_fails [OF p1(1)] by (simp add: string_post_def)
      ultimately show ?thesis
        by (subst string_loop.simps) (use True next_c b1 q escape in \<open>auto simp: p1_def split: option.split\<close>)
    next
      case quote
      have "i = Suc (jp_index p)" "jp_index p < jp_end p" using c quote by auto
      then have "string_post p (Some b) (p1\<lparr>jp_index := i - 1\<rparr>)"
        using p1 less.prems(2) by (simp add: string_post_def quiet_simps in_input_def p1_def builder_ok_def)
      then show ?thesis
        by (subst string_loop.simps) (use True next_c quote in \<open>simp add: p1_def\<close>)
    next
      case other
      have s1: "in_string p1" using other c i len p1 by (auto simp: in_string_def)
      have "ensures (if c < kExtendedASCIIStart then Some (sb_Append (of_int c) b) else DecodeUTF8 p1 c b) (\<lambda>b'. builder_ok p1 (jp_index p1) b')"
      proof (cases "c < kExtendedASCIIStart")
        case True
        then show ?thesis
          using other c(2) less.prems(2) p1 by (auto simp: kExtendedASCIIStart_def builder_ok_def sb_Append_def split: option.split)
      next
        case False
        have "ensures (DecodeUTF8 p1 c b) (\<lambda>b'. sb_string b' \<noteq> None)"
          by (rule DecodeUTF8_ok) (use False less.prems(2) len p1 in \<open>simp_all add: builder_ok_def\<close>)
        then show ?thesis using False by (auto simp: builder_ok_def elim: ensures_mono)
      qed
      then have "ensures ((if c < kExtendedASCIIStart then Some (sb_Append (of_int c) b) else DecodeUTF8 p1 c b) \<bind> (\<lambda>b. string_loop b p1))
        (\<lambda>(r, q). string_post p r q)"
        by (rule ensures_bind) (use p1 i s1 in \<open>auto intro: again\<close>)
      then show ?thesis
        unfolding p1_def by (subst string_loop.simps) (use True next_c other in \<open>auto simp: Let_def split: if_splits\<close>)
    qed
  qed
qed

lemma ConsumeStringRaw_ok:
  assumes "in_input p"
  shows "ensures (ConsumeStringRaw p) (\<lambda>(r, q).
    case r of None \<Rightarrow> fails p q | Some b \<Rightarrow> onward p q \<and> jp_pos q < jp_end q \<and> builder_ok q (jp_pos q) b)"
proof -
  obtain c where c: "jp_at p = Some c" "c \<noteq> 0 \<longrightarrow> jp_pos p < jp_end p" using at_ok [OF assms] by (rule ensuresE)
  show ?thesis
  proof (cases "c = 34")
    case True
    let ?n = "NextChar p"
    have n: "onward p ?n" by (rule NextChar_onward [OF assms]) (use True c in simp)
    have "ensures (string_loop (sb_at (jp_pos ?n)) ?n) (\<lambda>(r, q). string_post ?n r q)"
      by (rule string_loop_ok) (use onwardD(1) [OF n] in \<open>auto simp: in_input_def in_string_def builder_ok_def sb_at_def\<close>)
    then have "ensures (string_loop (sb_at (jp_pos ?n)) ?n) (\<lambda>(r, q).
      case r of None \<Rightarrow> fails p q | Some b \<Rightarrow> onward p q \<and> jp_pos q < jp_end q \<and> builder_ok q (jp_pos q) b)"
      by (rule ensures_mono)
        (use n onward_fails [OF n] in \<open>auto simp: string_post_def onward_def in_input_def quiet_def setting_def builder_ok_def
          NextChar_simps split: option.splits\<close>)
    then show ?thesis using True c by (simp add: ConsumeStringRaw_def Let_def)
  next
    case False
    then show ?thesis using c onward_report [OF onward_refl [OF assms]] by (simp add: ConsumeStringRaw_def)
  qed
qed

section \<open>Values\<close>

text \<open>A parsed value ends at the position; without a value there is an error, unless a number has no value.\<close>

definition value_post :: "'d double_ops \<Rightarrow> json_parser \<Rightarrow> 'd json option \<Rightarrow> json_parser \<Rightarrow> bool" where
  "value_post F p r q \<longleftrightarrow>
     (case r of
        None \<Rightarrow> setting q = setting p \<and> (jp_error_code q \<noteq> JSON_NO_ERROR \<or> (\<exists>s. number_value F s = None))
      | Some v \<Rightarrow> onward p q \<and> jp_pos q < jp_end q)"

lemma fails_post: "fails p q \<Longrightarrow> value_post F p None q"
  by (simp add: fails_def value_post_def)

lemma value_post_step:
  assumes "onward p q" and "ensures c (\<lambda>(r, q'). value_post F q r q')"
  shows "ensures c (\<lambda>(r, q'). value_post F p r q')"
  using assms(2) by (rule ensures_mono)
    (use assms(1) in \<open>auto simp: value_post_def onward_def split: option.splits\<close>)

lemma ConsumeString_ok:
  assumes "in_input p"
  shows "ensures (ConsumeString p) (\<lambda>(r, q). value_post F p r q)"
  unfolding ConsumeString_def
proof (rule ensures_bind [OF ConsumeStringRaw_ok [OF assms]], clarify)
  fix b q
  assume post: "case b of None \<Rightarrow> fails p q | Some b \<Rightarrow> onward p q \<and> jp_pos q < jp_end q \<and> builder_ok q (jp_pos q) b"
  show "ensures (case b of None \<Rightarrow> Some (None, q)
       | Some b \<Rightarrow> if sb_CanBeStringPiece b \<and> \<not> jp_detachable_children q
                   then map_option (\<lambda>s. (Some (StringValue s), q)) (sb_AsStringPiece q b)
                   else sb_AsString q b \<bind> (\<lambda>s. Some (Some (StringValue s), q))) (\<lambda>(r, q). value_post F p r q)"
  proof (cases b)
    case (Some b)
    then have q: "onward p q" "jp_pos q < jp_end q" "builder_ok q (jp_pos q) b" "\<not> jp_detachable_children q"
      using post by (simp_all add: onward_def in_input_def)
    show ?thesis
    proof (cases "sb_string b")
      case None
      then have "ensures (jp_bytes q (sb_pos b) (sb_length b)) (\<lambda>bs. length bs = sb_length b)"
        by (intro bytes_ok) (use q in \<open>simp_all add: builder_ok_def\<close>)
      then show ?thesis
        using Some None q by (auto simp: sb_CanBeStringPiece_def sb_AsStringPiece_def value_post_def elim: ensuresE)
    qed (use Some q in \<open>simp add: sb_CanBeStringPiece_def sb_AsString_def sb_Convert_def value_post_def\<close>)
  qed (use post in \<open>simp add: fails_post\<close>)
qed

lemma read_int_ok: "in_input p \<Longrightarrow> jp_at p = Some c \<Longrightarrow>
    ensures (read_int_loop c len p) (\<lambda>(n, q). onward p q \<and> len \<le> n \<and> jp_pos q = jp_pos p + (n - len))"
proof (induction c len p rule: read_int_loop.induct)
  case (1 c len p)
  show ?case
  proof (cases "CanConsume 1 p \<and> IsAsciiDigit c")
    case True
    then have n: "onward p (NextChar p)" using 1(2) by (simp add: NextChar_onward CanConsume_def)
    obtain d where d: "jp_at (NextChar p) = Some d" using at_ok [OF onwardD(1) [OF n]] by (auto elim: ensuresE)
    have "ensures (read_int_loop d (len + 1) (NextChar p))
      (\<lambda>(m, q). onward (NextChar p) q \<and> len + 1 \<le> m \<and> jp_pos q = jp_pos (NextChar p) + (m - (len + 1)))"
      by (rule 1(1) [OF True refl d onwardD(1) [OF n] d])
    then have "ensures (read_int_loop d (len + 1) (NextChar p)) (\<lambda>(m, q). onward p q \<and> len \<le> m \<and> jp_pos q = jp_pos p + (m - len))"
      by (rule ensures_mono) (use onward_trans [OF n] in \<open>auto simp: NextChar_simps\<close>)
    then show ?thesis by (subst read_int_loop.simps) (use True d in simp)
  qed (use 1(2) in \<open>subst read_int_loop.simps, auto simp: onward_refl\<close>)
qed

lemma ReadInt_ok:
  assumes "in_input p"
  shows "ensures (jp_ReadInt z p) (\<lambda>(ok, q). onward p q \<and> (ok \<longrightarrow> jp_pos p < jp_pos q))"
proof -
  obtain c where c: "jp_at p = Some c" using at_ok [OF assms] by (auto elim: ensuresE)
  show ?thesis
    using read_int_ok [OF assms c, of 0] c by (auto simp: jp_ReadInt_def elim!: ensuresE)
qed

lemma read_fraction_ok:
  assumes "in_input p" and "e = jp_pos p"
  shows "ensures (read_fraction e p) (\<lambda>(r, q). case r of None \<Rightarrow> fails p q | Some e' \<Rightarrow> onward p q \<and> e' = jp_pos q)"
proof -
  obtain c where c: "jp_at p = Some c" "c \<noteq> 0 \<longrightarrow> jp_pos p < jp_end p" using at_ok [OF assms(1)] by (rule ensuresE)
  show ?thesis
  proof (cases "c = 46")
    case True
    then have n: "onward p (NextChar p)" using c by (simp add: NextChar_onward assms)
    have "ensures (jp_ReadInt True (NextChar p)) (\<lambda>(ok, q). onward p q)"
      by (rule ensures_mono [OF ReadInt_ok [OF onwardD(1) [OF n]]]) (use onward_trans [OF n] in auto)
    then show ?thesis
      using True c by (auto simp: read_fraction_def CanConsume_def onward_report in_input_def onward_def elim!: ensuresE)
  qed (use c assms in \<open>simp add: read_fraction_def onward_refl\<close>)
qed

lemma read_exponent_ok:
  assumes "in_input p" and "e = jp_pos p"
  shows "ensures (read_exponent e p) (\<lambda>(r, q). case r of None \<Rightarrow> fails p q | Some e' \<Rightarrow> onward p q \<and> e' = jp_pos q)"
proof -
  obtain c where c: "jp_at p = Some c" "c \<noteq> 0 \<longrightarrow> jp_pos p < jp_end p" using at_ok [OF assms(1)] by (rule ensuresE)
  show ?thesis
  proof (cases "c = 101 \<or> c = 69")
    case True
    let ?n = "NextChar p"
    have n: "onward p ?n" by (rule NextChar_onward [OF assms(1)]) (use True c in auto)
    obtain d where d: "jp_at ?n = Some d" "d \<noteq> 0 \<longrightarrow> jp_pos ?n < jp_end ?n" using at_ok [OF onwardD(1) [OF n]] by (rule ensuresE)
    let ?m = "if d = 45 \<or> d = 43 then NextChar ?n else ?n"
    have m: "onward p ?m"
      by (auto intro!: onward_trans [OF n] NextChar_onward onwardD(1) [OF n] n) (use d in auto)
    have "ensures (jp_ReadInt True ?m) (\<lambda>(ok, q). onward p q)"
      by (rule ensures_mono [OF ReadInt_ok [OF onwardD(1) [OF m]]]) (use onward_trans [OF m] in auto)
    then show ?thesis
      using True c d by (auto simp: read_exponent_def Let_def onward_report in_input_def onward_def elim!: ensuresE)
  qed (use c assms in \<open>simp add: read_exponent_def onward_refl\<close>)
qed

lemma ConsumeNumber_ok:
  assumes "in_input p" and "jp_pos p < jp_end p"
  shows "ensures (ConsumeNumber F p) (\<lambda>(r, q). value_post F p r q)"
proof -
  let ?m = "if jp_input p ! jp_pos p = 45 then NextChar p else p"
  have m: "onward p ?m" using assms by (simp add: onward_refl NextChar_onward)
  obtain ok p1 where p1: "jp_ReadInt False ?m = Some (ok, p1)" "onward p p1" "ok \<Longrightarrow> jp_pos p < jp_pos p1"
    using ReadInt_ok [OF onwardD(1) [OF m]] onward_trans [OF m] onwardD(2) [OF m] by (fastforce elim: ensuresE)
  have idx: "jp_index q = jp_pos q" if "onward p q" for q using that by (simp add: onward_def in_input_def)
  obtain f p2 where p2: "read_fraction (jp_index p1) p1 = Some (f, p2)"
    "case f of None \<Rightarrow> fails p1 p2 | Some e' \<Rightarrow> onward p1 p2 \<and> e' = jp_pos p2"
    using read_fraction_ok [OF onwardD(1) [OF p1(2)] idx [OF p1(2)]] by (auto elim: ensuresE)
  show ?thesis
  proof (cases "ok \<and> f \<noteq> None")
    case False
    then show ?thesis
      using assms p1 p2 onward_fails [OF p1(2)]
      by (auto simp: ConsumeNumber_def Let_def byte_inside intro!: fails_post onward_report split: option.splits)
  next
    case True
    then have o2: "onward p p2" "f = Some (jp_pos p2)" "jp_pos p < jp_pos p2"
      using p1(3) p2(2) onward_trans [OF p1(2)] onwardD(2) [of p1 p2] by auto
    obtain x p3 where p3: "read_exponent (jp_pos p2) p2 = Some (x, p3)"
      "case x of None \<Rightarrow> fails p2 p3 | Some e' \<Rightarrow> onward p2 p3 \<and> e' = jp_pos p3"
      using read_exponent_ok [OF onwardD(1) [OF o2(1)] refl] by (auto elim: ensuresE)
    show ?thesis
    proof (cases x)
      case None
      then show ?thesis
        using assms True p1(1) p2(1) o2(2) p3 onward_fails [OF o2(1)]
        by (auto simp: ConsumeNumber_def Let_def byte_inside intro!: fails_post)
    next
      case (Some e)
      then have o3: "onward p p3" "e = jp_pos p3" "jp_pos p < jp_pos p3"
        using p3(2) onward_trans [OF o2(1)] o2(3) onwardD(2) [of p2 p3] by auto
      obtain t p4 where p4: "GetNextToken p3 = Some (t, p4)" "onward p3 p4"
        using GetNextToken_ok [OF onwardD(1) [OF o3(1)]] by (auto elim: ensuresE)
      have o4: "onward p p4" by (rule onward_trans [OF o3(1) p4(2)])
      let ?q = "p4\<lparr>jp_pos := jp_pos p3 - 1, jp_index := jp_index p3 - 1\<rparr>"
      have q: "onward p ?q" "jp_pos p3 \<le> jp_end p"
        using o3 o4 idx [OF o3(1)] by (auto simp: onward_def setting_def in_input_def)
      then have lt: "jp_pos ?q < jp_end ?q" using o3(3) onward_end [OF q(1)] by simp
      have "ensures (jp_bytes ?q (jp_pos p) (e - jp_pos p)) (\<lambda>bs. length bs = e - jp_pos p)"
        by (rule bytes_ok) (use onwardD(1) [OF q(1)] o3 q onward_end [OF q(1)] in \<open>auto simp: in_input_def\<close>)
      then obtain bs where bs: "jp_bytes ?q (jp_pos p) (e - jp_pos p) = Some bs" by (auto elim: ensuresE)
      have r: "value_post F p (number_value F bs) ?q"
        using q(1) lt by (cases "number_value F bs") (auto simp: value_post_def onward_def)
      have "jp_index p = jp_pos p" using assms(1) by (simp add: in_input_def)
      then show ?thesis
        using assms True p1(1) p2(1) o2(2) p3(1) Some p4(1) bs r onward_report [OF o4]
        by (auto simp: ConsumeNumber_def Let_def byte_inside intro!: fails_post)
    qed
  qed
qed

lemma StringsAreEqual_ok:
  "\<not> jp_detachable_children p \<Longrightarrow> i \<le> jp_end p \<Longrightarrow> 0 \<notin> set cs \<Longrightarrow> ensures (StringsAreEqual p i cs) (\<lambda>b. b \<longrightarrow> i + length cs \<le> jp_end p)"
proof (induction cs arbitrary: i)
  case (Cons c cs)
  then obtain d where d: "jp_byte p i = Some d" "d \<noteq> 0 \<longrightarrow> i < jp_end p" using byte_ok [of p i] by (auto elim: ensuresE)
  show ?case
  proof (cases "d = c")
    case True
    then have "ensures (StringsAreEqual p (Suc i) cs) (\<lambda>b. b \<longrightarrow> Suc i + length cs \<le> jp_end p)"
      using Cons.IH [of "Suc i"] Cons.prems d True by simp
    then show ?thesis using True d by simp
  qed (use d in simp)
qed simp

lemma consume_literal_ok:
  assumes "in_input p" and "0 \<notin> set w" and "w \<noteq> []"
  shows "ensures (consume_literal w v p) (\<lambda>(r, q). value_post F p r q)"
proof (cases "CanConsume (length w - 1) p")
  case True
  have "ensures (StringsAreEqual p (jp_pos p) w) (\<lambda>b. b \<longrightarrow> jp_pos p + length w \<le> jp_end p)"
    by (rule StringsAreEqual_ok) (use assms in \<open>simp_all add: in_input_def\<close>)
  then obtain b where b: "StringsAreEqual p (jp_pos p) w = Some b" "b \<longrightarrow> jp_pos p + length w \<le> jp_end p" by (rule ensuresE)
  have l: "0 < length w" using assms(3) by simp
  have "onward p (NextNChars (length w - 1) p)" if b by (rule NextNChars_onward [OF assms(1)]) (use b(2) that l in linarith)
  moreover have "jp_pos p + (length w - 1) < jp_end p" if b using b(2) that l by linarith
  then have "jp_pos (NextNChars (length w - 1) p) < jp_end p" if b using that by (simp add: NextNChars_def)
  ultimately show ?thesis
    using True b(1) onward_end [of p "NextNChars (length w - 1) p"] onward_report [OF onward_refl [OF assms(1)]]
    by (cases b) (auto simp: consume_literal_def value_post_def [of F p "Some v"] intro!: fails_post)
qed (use onward_report [OF onward_refl [OF assms(1)]] in \<open>auto simp: consume_literal_def intro!: fails_post\<close>)

lemma ConsumeLiteral_ok:
  assumes "in_input p"
  shows "ensures (ConsumeLiteral p) (\<lambda>(r, q). value_post F p r q)"
proof -
  obtain c where "jp_at p = Some c" using at_ok [OF assms] by (auto elim: ensuresE)
  then show ?thesis
    using onward_report [OF onward_refl [OF assms]]
    by (auto simp: ConsumeLiteral_def intro!: fails_post consume_literal_ok [OF assms]) (simp_all add: lit_def)
qed

section \<open>Termination of the parser\<close>

lemma after_ok:
  assumes "in_input p" and "jp_pos p < jp_end p"
  shows "ensures (GetNextToken (NextChar p)) (\<lambda>(t, q). onward p q \<and> token_at t q \<and> jp_pos p < jp_pos q)"
proof -
  have n: "onward p (NextChar p)" by (rule NextChar_onward [OF assms])
  show ?thesis
    by (rule ensures_mono [OF GetNextToken_ok [OF onwardD(1) [OF n]]])
      (use onward_trans [OF n] onwardD(2) [of "NextChar p"] in \<open>fastforce simp: NextChar_simps\<close>)
qed

lemma next_child_ok:
  assumes "in_input p" and "jp_pos p < jp_end p"
  shows "ensures (next_child e a p) (\<lambda>(r, q). case r of None \<Rightarrow> fails p q | Some t \<Rightarrow> onward p q \<and> token_at t q \<and> jp_pos p < jp_pos q)"
proof -
  obtain t q where q: "GetNextToken (NextChar p) = Some (t, q)" "onward p q" "token_at t q" "jp_pos p < jp_pos q"
    using after_ok [OF assms] by (auto elim: ensuresE)
  show ?thesis
  proof (cases "t = T_LIST_SEPARATOR")
    case True
    then have "jp_pos q < jp_end q" using q(3) by (simp add: token_at_def)
    then obtain u r where r: "GetNextToken (NextChar q) = Some (u, r)" "onward q r" "token_at u r" "jp_pos q < jp_pos r"
      using after_ok [OF onwardD(1) [OF q(2)]] by (auto elim: ensuresE)
    then show ?thesis
      using True q onward_trans [OF q(2) r(2)] by (auto simp: next_child_def onward_report)
  qed (use q in \<open>auto simp: next_child_def onward_report\<close>)
qed

definition job_token :: "'d job \<Rightarrow> json_token" where
  "job_token job = (case job of Token_job t \<Rightarrow> t | Dictionary_job _ t \<Rightarrow> t | List_job _ t \<Rightarrow> t)"

definition work :: "'d job \<Rightarrow> json_parser \<Rightarrow> nat" where
  "work job p = 2 * (jp_end p - jp_pos p) + (case job of Token_job _ \<Rightarrow> 0 | _ \<Rightarrow> 1)"

definition runs_ok :: "'d double_ops \<Rightarrow> 'd runner \<Rightarrow> nat \<Rightarrow> bool" where
  "runs_ok F run n \<longleftrightarrow>
     (\<forall>job p. in_input p \<longrightarrow> token_at (job_token job) p \<longrightarrow> work job p < n \<longrightarrow> ensures (run job p) (\<lambda>(r, q). value_post F p r q))"

lemma run_step:
  assumes "runs_ok F run n" and "onward p q" "token_at (job_token job) q" "work job q < n"
  shows "ensures (run job q) (\<lambda>(r, q'). value_post F p r q')"
  by (rule value_post_step [OF assms(2)]) (use assms onwardD(1) [OF assms(2)] in \<open>simp add: runs_ok_def\<close>)

lemma work_less: "onward p q \<Longrightarrow> jp_pos p < jp_pos q \<Longrightarrow> work job q < 2 * (jp_end p - jp_pos p)"
  using onward_end [of p q] by (auto simp: work_def onward_def in_input_def split: job.split)

lemma work_token: "onward p q \<Longrightarrow> work (Token_job t) q \<le> 2 * (jp_end p - jp_pos p)"
  using onward_end [of p q] onwardD(2) [of p q] by (simp add: work_def)

lemma AsString_ok:
  assumes "in_input p" and "builder_ok p i b" and "i \<le> Suc (jp_end p)"
  shows "ensures (sb_AsString p b) (\<lambda>s. True)"
proof -
  have "ensures (sb_Convert p b) (\<lambda>b'. sb_string b' \<noteq> None)"
    by (rule Convert_ok [OF _ assms(2,3)]) (use assms(1) in \<open>simp add: in_input_def\<close>)
  then show ?thesis unfolding sb_AsString_def by (rule ensures_bind) auto
qed

lemma list_round_ok:
  assumes "runs_ok F run (Suc (2 * (jp_end p - jp_pos p)))" and p: "in_input p" "token_at t p"
  shows "ensures (list_round run l t p) (\<lambda>(r, q). value_post F p r q)"
proof (cases "t = T_ARRAY_END")
  case True
  then show ?thesis using p by (simp add: list_round_def value_post_def onward_refl token_at_def)
next
  case False
  have "ensures (run (Token_job t) p) (\<lambda>(r, q). value_post F p r q)"
    by (rule run_step [OF assms(1) onward_refl [OF p(1)]])
      (use p work_token [OF onward_refl [OF p(1)], of t] in \<open>simp_all add: job_token_def less_Suc_eq_le\<close>)
  then obtain r q where q: "run (Token_job t) p = Some (r, q)" "value_post F p r q" by (auto elim: ensuresE)
  show ?thesis
  proof (cases r)
    case (Some v)
    then have o: "onward p q" "jp_pos q < jp_end q" using q(2) by (simp_all add: value_post_def)
    obtain u q2 where q2: "next_child T_ARRAY_END 1 q = Some (u, q2)"
      "case u of None \<Rightarrow> fails q q2 | Some t \<Rightarrow> onward q q2 \<and> token_at t q2 \<and> jp_pos q < jp_pos q2"
      using next_child_ok [OF onwardD(1) [OF o(1)] o(2), of T_ARRAY_END 1] by (auto elim: ensuresE)
    have "ensures (run (List_job l' t') q2) (\<lambda>(r, q). value_post F p r q)" if "u = Some t'" for t' l'
    proof -
      have n: "onward p q2" "jp_pos p < jp_pos q2" using q2(2) that onward_trans [OF o(1)] onwardD(2) [OF o(1)] by auto
      show ?thesis
        by (rule run_step [OF assms(1) n(1)]) (use that q2(2) work_less [OF n, of "List_job l' t'"] in \<open>simp_all add: job_token_def\<close>)
    qed
    then show ?thesis
      using False q(1) Some q2 onward_fails [OF o(1)] by (auto simp: list_round_def Let_def intro!: fails_post split: option.split)
  qed (use False q in \<open>simp add: list_round_def\<close>)
qed

lemma dictionary_round_ok:
  assumes "runs_ok F run (Suc (2 * (jp_end p - jp_pos p)))" and p: "in_input p" "token_at t p"
  shows "ensures (dictionary_round run d t p) (\<lambda>(r, q). value_post F p r q)"
proof -
  consider (finish) "t = T_OBJECT_END" | (error) "t \<noteq> T_OBJECT_END" "t \<noteq> T_STRING" | (key) "t \<noteq> T_OBJECT_END" "t = T_STRING" by blast
  then show ?thesis
  proof cases
    case finish
    then show ?thesis using p by (simp add: dictionary_round_def value_post_def onward_refl token_at_def)
  next
    case error
    then show ?thesis using onward_report [OF onward_refl [OF p(1)]] by (auto simp: dictionary_round_def intro!: fails_post)
  next
    case key
    obtain k q where q: "ConsumeStringRaw p = Some (k, q)"
      "case k of None \<Rightarrow> fails p q | Some b \<Rightarrow> onward p q \<and> jp_pos q < jp_end q \<and> builder_ok q (jp_pos q) b"
      using ConsumeStringRaw_ok [OF p(1)] by (auto elim: ensuresE)
    show ?thesis
    proof (cases k)
      case None
      then show ?thesis using q key by (auto simp: dictionary_round_def intro!: fails_post)
    next
      case (Some b)
      then have o: "onward p q" "jp_pos q < jp_end q" "builder_ok q (jp_pos q) b" using q(2) by simp_all
      obtain t1 q1 where q1: "GetNextToken (NextChar q) = Some (t1, q1)" "onward q q1" "token_at t1 q1" "jp_pos q < jp_pos q1"
        using after_ok [OF onwardD(1) [OF o(1)] o(2)] by (auto elim: ensuresE)
      have o1: "onward p q1" by (rule onward_trans [OF o(1) q1(2)])
      show ?thesis
      proof (cases "t1 = T_OBJECT_PAIR_SEPARATOR")
        case False
        then show ?thesis using key q(1) Some q1(1) onward_report [OF o1] by (auto simp: dictionary_round_def intro!: fails_post)
      next
        case True
        then have "jp_pos q1 < jp_end q1" using q1(3) by (simp add: token_at_def)
        then obtain t2 q2 where q2: "GetNextToken (NextChar q1) = Some (t2, q2)" "onward q1 q2" "token_at t2 q2"
          using after_ok [OF onwardD(1) [OF o1]] by (auto elim: ensuresE)
        have o2: "onward p q2" by (rule onward_trans [OF o1 q2(2)])
        have "ensures (run (Token_job t2) q2) (\<lambda>(r, q'). value_post F q2 r q')"
          by (rule run_step [OF assms(1) onward_refl [OF onwardD(1) [OF o2]]])
            (use q2(3) work_token [OF o2, of t2] in \<open>simp_all add: job_token_def less_Suc_eq_le\<close>)
        then obtain r q3 where q3: "run (Token_job t2) q2 = Some (r, q3)" "value_post F q2 r q3" by (auto elim: ensuresE)
        have pre: "dictionary_round run d t p = (case r of None \<Rightarrow> Some (None, q3)
            | Some value \<Rightarrow> do {
                key \<leftarrow> sb_AsString q3 b;
                (token, p) \<leftarrow> next_child T_OBJECT_END 0 q3;
                case token of None \<Rightarrow> Some (None, p) | Some token \<Rightarrow> run (Dictionary_job (SetWithoutPathExpansion key value d) token) p
              })"
          using key True q(1) Some q1(1) q2(1) q3(1) by (cases r) (simp_all add: dictionary_round_def Let_def)
        show ?thesis
        proof (cases r)
          case None
          then show ?thesis using pre q3(2) o2 by (auto simp: value_post_def onward_def)
        next
          case (Some v)
          then have o3: "onward q2 q3" "jp_pos q3 < jp_end q3" using q3(2) by (simp_all add: value_post_def)
          have p3: "onward p q3" by (rule onward_trans [OF o2 o3(1)])
          have qq3: "onward q q3" by (rule onward_trans [OF onward_trans [OF q1(2) q2(2)] o3(1)])
          have "ensures (sb_AsString q3 b) (\<lambda>s. True)"
            by (rule AsString_ok [OF onwardD(1) [OF p3], of "jp_pos q"]) (use o(2,3) onward_end [OF qq3] in \<open>simp_all add: builder_ok_def\<close>)
          then obtain s where s: "sb_AsString q3 b = Some s" by (rule ensuresE)
          obtain u q4 where q4: "next_child T_OBJECT_END 0 q3 = Some (u, q4)"
            "case u of None \<Rightarrow> fails q3 q4 | Some t \<Rightarrow> onward q3 q4 \<and> token_at t q4 \<and> jp_pos q3 < jp_pos q4"
            using next_child_ok [OF onwardD(1) [OF p3] o3(2), of T_OBJECT_END 0] by (auto elim: ensuresE)
          have "ensures (run (Dictionary_job d' t') q4) (\<lambda>(r, q). value_post F p r q)" if "u = Some t'" for t' d'
          proof -
            have n: "onward p q4" "jp_pos p < jp_pos q4" using q4(2) that onward_trans [OF p3] onwardD(2) [OF p3] by auto
            show ?thesis
              by (rule run_step [OF assms(1) n(1)])
                (use that q4(2) work_less [OF n, of "Dictionary_job d' t'"] in \<open>simp_all add: job_token_def\<close>)
          qed
          then show ?thesis
            using Some s q4 onward_fails [OF p3] by (auto simp: pre intro!: fails_post split: option.split)
        qed
      qed
    qed
  qed
qed

lemma StackMarker_simps: "in_input (StackMarker p) = in_input p" "jp_pos (StackMarker p) = jp_pos p" "jp_end (StackMarker p) = jp_end p"
  by (simp_all add: StackMarker_def in_input_def)

lemma StackMarker_post: "value_post F (StackMarker p) r q \<Longrightarrow> value_post F p r (drop_StackMarker q)"
  by (auto simp: value_post_def onward_def setting_def in_input_def StackMarker_def drop_StackMarker_def split: option.splits)

lemma consume_children_ok:
  assumes "runs_ok F run (2 * (jp_end p - jp_pos p))" and p: "in_input p" "jp_pos p < jp_end p" and m: "\<And>t. job_token (m t) = t"
  shows "ensures (consume_children run c m p) (\<lambda>(r, q). value_post F p r q)"
proof -
  let ?p = "StackMarker p"
  have s: "in_input ?p" "jp_pos ?p < jp_end ?p" using p by (simp_all add: StackMarker_simps)
  obtain t q where q: "GetNextToken (NextChar ?p) = Some (t, q)" "onward ?p q" "token_at t q" "jp_pos ?p < jp_pos q"
    using after_ok [OF s] by (auto elim: ensuresE)
  have "ensures (run (m t) q) (\<lambda>(r, q'). value_post F ?p r q')"
    by (rule run_step [OF assms(1) q(2)]) (use q(3) work_less [OF q(2,4), of "m t"] m in \<open>simp_all add: StackMarker_simps\<close>)
  then obtain r q' where r: "run (m t) q = Some (r, q')" "value_post F p r (drop_StackMarker q')"
    by (auto elim!: ensuresE dest: StackMarker_post)
  have "fails p (ReportError JSON_UNEXPECTED_TOKEN 1 p)" "fails p (drop_StackMarker (ReportError JSON_TOO_MUCH_NESTING 1 ?p))"
    by (simp_all add: fails_def setting_def ReportError_def StackMarker_def drop_StackMarker_def)
  then show ?thesis
    using p(2) q(1) r by (auto simp: consume_children_def Let_def byte_inside intro!: fails_post)
qed

lemma run_job_ok:
  "in_input p \<Longrightarrow> token_at (job_token job) p \<Longrightarrow> ensures (run_job F job p) (\<lambda>(r, q). value_post F p r q)"
proof (induction "work job p" arbitrary: job p rule: less_induct)
  case less
  have ok: "runs_ok F (run_job F) (work job p)" using less.hyps by (auto simp: runs_ok_def)
  show ?case
  proof (cases job)
    case (Dictionary_job d t)
    then show ?thesis
      using dictionary_round_ok [of F "run_job F" p t d] ok less.prems
      by (subst run_job.simps) (simp add: run_with_def job_token_def work_def)
  next
    case (List_job l t)
    then show ?thesis
      using list_round_ok [of F "run_job F" p t l] ok less.prems
      by (subst run_job.simps) (simp add: run_with_def job_token_def work_def)
  next
    case (Token_job t)
    then have ok': "runs_ok F (run_job F) (2 * (jp_end p - jp_pos p))" and t: "token_at t p"
      using ok less.prems by (simp_all add: work_def job_token_def)
    have lt: "t \<noteq> T_END_OF_INPUT \<Longrightarrow> jp_pos p < jp_end p" using t by (simp add: token_at_def)
    have "ensures (ParseToken (run_job F) F t p) (\<lambda>(r, q). value_post F p r q)"
      using lt less.prems(1) onward_report [OF onward_refl [OF less.prems(1)]]
      by (auto simp: ParseToken_def ConsumeDictionary_def ConsumeList_def job_token_def
          intro!: fails_post ConsumeString_ok ConsumeNumber_ok ConsumeLiteral_ok consume_children_ok [OF ok'])
    then show ?thesis using Token_job by (subst run_job.simps) (simp add: run_with_def)
  qed
qed

lemma skip_bom_ok:
  assumes "in_input p"
  shows "ensures (skip_bom p) (onward p)"
proof (cases "CanConsume 3 p")
  case True
  then have "ensures (jp_bytes p (jp_pos p) 3) (\<lambda>bs. length bs = 3)"
    by (intro bytes_ok) (use assms in \<open>simp_all add: in_input_def CanConsume_def\<close>)
  then show ?thesis
    using True assms by (auto simp: skip_bom_def CanConsume_def onward_refl NextNChars_onward elim!: ensuresE)
qed (use assms in \<open>simp add: skip_bom_def onward_refl\<close>)

lemma at_end_ok:
  assumes "in_input p"
  shows "ensures (at_end p) (\<lambda>(ok, q). onward p q)"
proof -
  obtain t q where q: "GetNextToken p = Some (t, q)" "onward p q" using GetNextToken_ok [OF assms] by (auto elim: ensuresE)
  show ?thesis
  proof (cases "CanConsume 1 q")
    case True
    then have n: "onward p (NextChar q)"
      by (intro onward_trans [OF q(2)] NextChar_onward onwardD(1) [OF q(2)]) (simp add: CanConsume_def)
    obtain u r where "GetNextToken (NextChar q) = Some (u, r)" "onward p r"
      using GetNextToken_ok [OF onwardD(1) [OF n]] onward_trans [OF n] by (auto elim: ensuresE)
    then show ?thesis using q True by (simp add: at_end_def)
  qed (use q in \<open>simp add: at_end_def\<close>)
qed



end
