(* ===== verification/Json_Tokens.thy ===== *)
theory Json_Tokens
  imports Json_Safety
begin

text \<open>
  What the parser does on well-formed text, token by token: it skips whitespace and finds the token in front of
  the text that is left (\<open>reads\<close>), and a number or literal of the grammar is read to its last character.
\<close>

section \<open>The text that is left\<close>

definition reads :: "json_parser \<Rightarrow> std_string \<Rightarrow> bool" where
  "reads p rest \<longleftrightarrow> in_input p \<and> drop (jp_pos p) (jp_input p) = rest"

lemma reads_length: "reads p rest \<Longrightarrow> jp_end p = jp_pos p + length rest"
  by (auto simp: reads_def in_input_def)

lemma reads_can: "reads p rest \<Longrightarrow> CanConsume n p \<longleftrightarrow> n \<le> length rest"
  using reads_length [of p rest] by (simp add: CanConsume_def)

lemma reads_nth: "reads p rest \<Longrightarrow> k < length rest \<Longrightarrow> jp_input p ! (jp_pos p + k) = rest ! k"
  by (auto simp: reads_def in_input_def)

lemma reads_at: "reads p (c # cs) \<Longrightarrow> jp_at p = Some c"
  using reads_nth [of p "c # cs" 0] reads_length [of p "c # cs"] by (simp add: byte_inside)

lemma reads_at_end: "reads p [] \<Longrightarrow> jp_at p = Some 0"
proof -
  assume p: "reads p []"
  then have "\<not> jp_detachable_children p" by (simp add: reads_def in_input_def)
  then show ?thesis using reads_length [OF p] by (simp add: jp_byte_def)
qed

lemma reads_skip: "reads p (cs @ ds) \<Longrightarrow> reads (NextNChars (length cs) p) ds"
proof -
  assume p: "reads p (cs @ ds)"
  have "drop (jp_pos p + length cs) (jp_input p) = drop (length cs) (drop (jp_pos p) (jp_input p))" by (simp add: add.commute)
  also have "\<dots> = ds" using p by (simp add: reads_def)
  finally show ?thesis
    using reads_length [OF p] p by (simp add: reads_def in_input_def NextNChars_def)
qed

lemma NextChar_skip: "NextChar p = NextNChars 1 p"
  by (simp add: NextChar_def NextNChars_def)

lemma reads_next: "reads p (c # cs) \<Longrightarrow> reads (NextChar p) cs"
  using reads_skip [of p "[c]" cs] by (simp add: NextChar_skip)

lemma skip_skip: "NextNChars m (NextNChars n p) = NextNChars (n + m) p" "NextNChars 0 p = p"
  by (simp_all add: NextNChars_def)

lemma reads_onward: "reads p (cs @ ds) \<Longrightarrow> onward p (NextNChars (length cs) p)"
  using reads_length [of p "cs @ ds"] by (intro NextNChars_onward) (auto simp: reads_def)

lemma bytes_inside: "i + n \<le> jp_end p \<Longrightarrow> jp_bytes p i n = Some (take n (drop i (jp_input p)))"
proof (induction n arbitrary: i)
  case (Suc n)
  then have "i < jp_end p" by simp
  then show ?case using Suc by (simp add: byte_inside) (simp add: take_Suc_conv_app_nth flip: Cons_nth_drop_Suc)
qed simp

lemma reads_bytes: "reads p (cs @ ds) \<Longrightarrow> n = length cs \<Longrightarrow> jp_bytes p (jp_pos p) n = Some cs"
  using reads_length [of p "cs @ ds"] by (subst bytes_inside) (auto simp: reads_def)

section \<open>Whitespace\<close>

definition blank :: "8 word \<Rightarrow> bool" where
  "blank c \<longleftrightarrow> c = 32 \<or> c = 10"

definition solid :: "8 word \<Rightarrow> bool" where
  "solid c \<longleftrightarrow> c \<notin> {9, 10, 13, 32, 47}"

lemma EatWhitespace_reads:
  "reads p (ws @ rest) \<Longrightarrow> list_all blank ws \<Longrightarrow> (case rest of [] \<Rightarrow> True | c # _ \<Rightarrow> solid c) \<Longrightarrow>
   \<exists>q. EatWhitespaceAndComments p = Some q \<and> reads q rest \<and> onward p q"
proof (induction ws arbitrary: p)
  case Nil
  then have "onward p p" by (simp add: reads_def onward_refl)
  then show ?case
    using Nil reads_length [OF Nil(1)] reads_at [of p]
    by (subst EatWhitespaceAndComments.simps) (auto simp: solid_def split: list.splits)
next
  case (Cons w ws)
  let ?q = "if w = 10 then NextChar (p\<lparr>jp_index_last_line := jp_index p, jp_line_number := jp_line_number p + 1\<rparr>) else NextChar p"
  have n: "reads (NextChar p) (ws @ rest)" "onward p (NextChar p)"
    using Cons.prems(1) reads_next reads_onward [of p "[w]"] by (auto simp: NextChar_skip)
  then have q: "reads ?q (ws @ rest)" "onward p ?q"
    by (auto simp: reads_def in_input_def onward_def setting_def NextChar_def)
  have "EatWhitespaceAndComments p = EatWhitespaceAndComments ?q"
    using Cons.prems reads_length [OF Cons.prems(1)] reads_at [of p w "ws @ rest"]
    by (subst EatWhitespaceAndComments.simps) (auto simp: blank_def)
  moreover obtain r where "EatWhitespaceAndComments ?q = Some r" "reads r rest" "onward ?q r"
    using Cons.IH [OF q(1)] Cons.prems(2,3) by auto
  ultimately show ?case using onward_trans [OF q(2)] by auto
qed

lemma next_token:
  assumes "reads p (ws @ c # rest)" and "list_all blank ws" and "solid c"
  shows "\<exists>q. GetNextToken p = Some (token_of c, q) \<and> reads q (c # rest) \<and> onward p q"
proof -
  obtain q where "EatWhitespaceAndComments p = Some q" "reads q (c # rest)" "onward p q"
    using EatWhitespace_reads [OF assms(1,2)] assms(3) by auto
  then show ?thesis by (auto simp: GetNextToken_def reads_can reads_at)
qed

lemma no_token:
  assumes "reads p ws" and "list_all blank ws"
  shows "\<exists>q. GetNextToken p = Some (T_END_OF_INPUT, q) \<and> onward p q"
proof -
  obtain q where "EatWhitespaceAndComments p = Some q" "reads q []" "onward p q"
    using EatWhitespace_reads [of p ws "[]"] assms by auto
  then show ?thesis by (auto simp: GetNextToken_def reads_can)
qed

text \<open>After a value the position is at its last character, which is no whitespace.\<close>

definition done_at :: "json_parser \<Rightarrow> std_string \<Rightarrow> bool" where
  "done_at q rest \<longleftrightarrow> (\<exists>c. solid c \<and> reads q (c # rest))"

text \<open>What may follow a value: blanks, and then a separator, a closing bracket or the end.\<close>

definition follows :: "std_string \<Rightarrow> bool" where
  "follows rest \<longleftrightarrow> (\<exists>ws r. rest = ws @ r \<and> list_all blank ws \<and> (r = [] \<or> hd r \<in> {44, 93, 125}))"

lemma token_after:
  assumes "done_at p (ws @ c # rest)" and "list_all blank ws" and "solid c"
  shows "\<exists>q. GetNextToken (NextChar p) = Some (token_of c, q) \<and> reads q (c # rest) \<and> onward p q"
proof -
  obtain d where d: "reads p (d # ws @ c # rest)" using assms(1) by (auto simp: done_at_def)
  then have n: "onward p (NextChar p)" using reads_onward [of p "[d]"] by (simp add: NextChar_skip)
  show ?thesis using next_token [OF reads_next [OF d] assms(2,3)] onward_trans [OF n] by auto
qed

section \<open>Numbers and literals\<close>

abbreviation digits :: "std_string \<Rightarrow> bool" where
  "digits \<equiv> list_all IsAsciiDigit"

lemma not_digit_zero: "\<not> IsAsciiDigit 0"
  by (simp add: IsAsciiDigit_def)

lemma read_int_reads:
  "reads p (ds @ rest) \<Longrightarrow> digits ds \<Longrightarrow> (case rest of [] \<Rightarrow> True | c # _ \<Rightarrow> \<not> IsAsciiDigit c) \<Longrightarrow> jp_at p = Some c \<Longrightarrow>
   read_int_loop c n p = Some (n + length ds, NextNChars (length ds) p)"
proof (induction ds arbitrary: p c n)
  case Nil
  then have "\<not> (CanConsume 1 p \<and> IsAsciiDigit c)"
    using reads_at [of p] reads_can [of p rest 1] by (auto split: list.splits)
  then show ?case by (subst read_int_loop.simps) (auto simp: skip_skip)
next
  case (Cons d ds)
  then have c: "c = d" "CanConsume 1 p" "IsAsciiDigit c" using reads_at [of p d] reads_can [OF Cons.prems(1), of 1] by auto
  have n: "reads (NextChar p) (ds @ rest)" using Cons.prems(1) reads_next by auto
  obtain e where e: "jp_at (NextChar p) = Some e" using at_ok [of "NextChar p"] n by (auto simp: reads_def elim: ensuresE)
  have "read_int_loop e (Suc n) (NextChar p) = Some (Suc n + length ds, NextNChars (length ds) (NextChar p))"
    by (rule Cons.IH [OF n _ Cons.prems(3) e]) (use Cons.prems(2) in simp)
  then show ?case
    using c e by (subst read_int_loop.simps) (simp add: Let_def NextChar_skip skip_skip)
qed

lemma ReadInt_reads:
  assumes "reads p (ds @ rest)" and "digits ds" and "case rest of [] \<Rightarrow> True | c # _ \<Rightarrow> \<not> IsAsciiDigit c"
    and "ds \<noteq> []" and "z \<or> length ds = 1 \<or> hd ds \<noteq> 48"
  shows "jp_ReadInt z p = Some (True, NextNChars (length ds) p)"
proof -
  obtain d es where ds: "ds = d # es" using assms(4) by (cases ds) auto
  have "jp_at p = Some d" using assms(1) ds reads_at [of p d] by auto
  then show ?thesis
    using read_int_reads [OF assms(1-3), of d 0] assms(5) ds by (auto simp: jp_ReadInt_def)
qed

definition fraction_text :: "std_string \<Rightarrow> bool" where
  "fraction_text s \<longleftrightarrow> s = [] \<or> hd s = 46 \<and> tl s \<noteq> [] \<and> digits (tl s)"

definition exponent_text :: "std_string \<Rightarrow> bool" where
  "exponent_text s \<longleftrightarrow> s = [] \<or>
     (\<exists>e sign ds. s = e # sign @ ds \<and> e \<in> {101, 69} \<and> sign \<in> {[], [43], [45]} \<and> ds \<noteq> [] \<and> digits ds)"

text \<open>The grammar of numbers: a sign, an integer without leading zeros, a fraction and an exponent.\<close>

definition number_text :: "std_string \<Rightarrow> std_string \<Rightarrow> std_string \<Rightarrow> std_string \<Rightarrow> bool" where
  "number_text sign ip fr ex \<longleftrightarrow> sign \<in> {[], [45]} \<and> ip \<noteq> [] \<and> digits ip \<and> (length ip = 1 \<or> hd ip \<noteq> 48) \<and>
     fraction_text fr \<and> exponent_text ex"

text \<open>What comes after a part of a number does not continue it.\<close>

definition ends_number :: "std_string \<Rightarrow> bool" where
  "ends_number r \<longleftrightarrow> (case r of [] \<Rightarrow> True | c # _ \<Rightarrow> \<not> IsAsciiDigit c \<and> c \<noteq> 46 \<and> c \<noteq> 101 \<and> c \<noteq> 69)"

lemma follows_ends: "follows r \<Longrightarrow> ends_number r"
proof -
  assume "follows r"
  then obtain ws s where "r = ws @ s" "list_all blank ws" "s = [] \<or> hd s \<in> {44, 93, 125}" by (auto simp: follows_def)
  then show ?thesis by (cases ws; cases s) (auto simp: ends_number_def blank_def IsAsciiDigit_def)
qed

lemma exponent_not_digit: "exponent_text ex \<Longrightarrow> ends_number r \<Longrightarrow> case ex @ r of [] \<Rightarrow> True | c # _ \<Rightarrow> \<not> IsAsciiDigit c \<and> c \<noteq> 46"
  by (cases ex) (auto simp: exponent_text_def ends_number_def IsAsciiDigit_def split: list.splits)

lemma read_fraction_reads:
  assumes "reads p (fr @ ex @ r)" and "fraction_text fr" "exponent_text ex" "ends_number r"
  shows "read_fraction (jp_index p) p = Some (Some (jp_index p + length fr), NextNChars (length fr) p)"
proof (cases fr)
  case Nil
  then have "\<exists>c. jp_at p = Some c \<and> c \<noteq> 46"
    using assms(1) exponent_not_digit [OF assms(3,4)] reads_at [of p] reads_at_end [of p] by (cases "ex @ r") auto
  then show ?thesis using Nil by (auto simp: read_fraction_def skip_skip)
next
  case (Cons c ds)
  then have f: "c = 46" "ds \<noteq> []" "digits ds" using assms(2) by (auto simp: fraction_text_def)
  have p: "reads p (c # ds @ ex @ r)" using assms(1) Cons by simp
  have "jp_ReadInt True (NextChar p) = Some (True, NextNChars (length ds) (NextChar p))"
    using exponent_not_digit [OF assms(3,4)] f by (intro ReadInt_reads [OF reads_next [OF p]]) (auto split: list.splits)
  then show ?thesis
    using Cons f reads_at [OF p] reads_can [OF p, of 1]
    by (auto simp: read_fraction_def NextChar_skip skip_skip) (simp add: NextNChars_def)
qed

lemma read_exponent_reads:
  assumes "reads p (ex @ r)" and "exponent_text ex" "ends_number r"
  shows "read_exponent (jp_index p) p = Some (Some (jp_index p + length ex), NextNChars (length ex) p)"
proof (cases ex)
  case Nil
  then have "\<exists>c. jp_at p = Some c \<and> c \<noteq> 101 \<and> c \<noteq> 69"
    using assms(1,3) reads_at [of p] reads_at_end [of p] by (cases r) (auto simp: ends_number_def)
  then show ?thesis using Nil by (auto simp: read_exponent_def skip_skip)
next
  case (Cons c ds)
  then obtain e sign ds where x: "ex = e # sign @ ds" "e \<in> {101, 69}" "sign \<in> {[], [43], [45]}" "ds \<noteq> []" "digits ds"
    using assms(2) by (auto simp: exponent_text_def)
  have p: "reads p (e # sign @ ds @ r)" using assms(1) x by simp
  let ?m = "NextNChars (length sign) (NextChar p)"
  have m: "reads ?m (ds @ r)" by (rule reads_skip [OF reads_next [OF p]])
  have "\<exists>d t. sign @ ds @ r = d # t \<and> (d = 45 \<or> d = 43) = (sign \<noteq> [])"
    using x(3-5) by (cases ds) (auto simp: IsAsciiDigit_def)
  then obtain d where d: "jp_at (NextChar p) = Some d" "(d = 45 \<or> d = 43) = (sign \<noteq> [])"
    using reads_at [of "NextChar p"] reads_next [OF p] by metis
  have "(if d = 45 \<or> d = 43 then NextChar (NextChar p) else NextChar p) = ?m"
    using d(2) x(3) by (auto simp: NextChar_skip skip_skip)
  moreover have "jp_ReadInt True ?m = Some (True, NextNChars (length ds) ?m)"
    by (rule ReadInt_reads [OF m]) (use x assms(3) in \<open>auto simp: ends_number_def split: list.splits\<close>)
  ultimately show ?thesis
    using reads_at [OF p] x d(1) by (auto simp: read_exponent_def Let_def NextChar_skip skip_skip) (auto simp: NextNChars_def)
qed

lemma last_digit:
  assumes "number_text sign ip fr ex"
  shows "sign @ ip @ fr @ ex \<noteq> [] \<and> IsAsciiDigit (last (sign @ ip @ fr @ ex))"
proof -
  have l: "ds \<noteq> [] \<Longrightarrow> digits ds \<Longrightarrow> IsAsciiDigit (last ds)" for ds by (simp add: list_all_iff)
  have "fr = [] \<or> IsAsciiDigit (last fr)"
    using assms l [of "tl fr"] by (cases fr) (auto simp: number_text_def fraction_text_def)
  moreover have "ex = [] \<or> IsAsciiDigit (last ex)" using assms l by (auto simp: number_text_def exponent_text_def)
  ultimately show ?thesis using assms l [of ip] by (auto simp: number_text_def last_append)
qed

lemma digit_solid: "IsAsciiDigit c \<Longrightarrow> solid c"
  by (auto simp: IsAsciiDigit_def solid_def)

lemma reads_same: "reads p rest \<Longrightarrow> in_input q \<Longrightarrow> jp_input q = jp_input p \<Longrightarrow> jp_pos q = jp_pos p \<Longrightarrow> reads q rest"
  by (simp add: reads_def)

lemma follows_token:
  assumes "reads p rest" and "follows rest"
  shows "\<exists>t q. GetNextToken p = Some (t, q) \<and> t \<in> {T_OBJECT_END, T_ARRAY_END, T_LIST_SEPARATOR, T_END_OF_INPUT} \<and> onward p q"
proof -
  obtain ws r where r: "rest = ws @ r" "list_all blank ws" "r = [] \<or> hd r \<in> {44, 93, 125}" using assms(2) by (auto simp: follows_def)
  show ?thesis
  proof (cases r)
    case Nil
    then show ?thesis using no_token [of p ws] assms(1) r by auto
  next
    case (Cons c cs)
    then have "solid c" "token_of c \<in> {T_OBJECT_END, T_ARRAY_END, T_LIST_SEPARATOR}" using r(3) by (auto simp: solid_def token_of_def)
    then show ?thesis using next_token [of p ws c cs] assms(1) r(1,2) Cons by auto
  qed
qed

lemma ConsumeNumber_reads:
  assumes "reads p (s @ rest)" and s: "s = sign @ ip @ fr @ ex" "number_text sign ip fr ex" and "follows rest"
  shows "\<exists>q. ConsumeNumber F p = Some (number_value F s, q) \<and> onward p q \<and> done_at q rest"
proof -
  have n: "sign \<in> {[], [45]}" "ip \<noteq> []" "digits ip" "length ip = 1 \<or> hd ip \<noteq> 48" "fraction_text fr" "exponent_text ex"
    using s(2) by (simp_all add: number_text_def)
  have e: "ends_number rest" by (rule follows_ends [OF assms(4)])
  have p: "reads p (sign @ ip @ fr @ ex @ rest)" using assms(1) s by simp
  have in_p: "jp_index p = jp_pos p" using p by (simp add: reads_def in_input_def)
  have "\<exists>c t. ip = c # t \<and> c \<noteq> 45" using n(2,3) by (cases ip) (auto simp: IsAsciiDigit_def)
  then have "\<exists>c. jp_at p = Some c \<and> (if c = 45 then NextChar p else p) = NextNChars (length sign) p"
    using n(1) p reads_at [of p] by (auto simp: NextChar_skip skip_skip)
  then obtain c where c: "jp_at p = Some c" "(if c = 45 then NextChar p else p) = NextNChars (length sign) p" by blast
  let ?p0 = "NextNChars (length sign) p"
  let ?p1 = "NextNChars (length ip) ?p0"
  let ?p2 = "NextNChars (length fr) ?p1"
  let ?p3 = "NextNChars (length ex) ?p2"
  have p0: "reads ?p0 (ip @ fr @ ex @ rest)" by (rule reads_skip [OF p])
  have p1: "reads ?p1 (fr @ ex @ rest)" by (rule reads_skip [OF p0])
  have p2: "reads ?p2 (ex @ rest)" by (rule reads_skip [OF p1])
  have p3: "reads ?p3 rest" by (rule reads_skip [OF p2])
  have i: "jp_ReadInt False ?p0 = Some (True, ?p1)"
  proof (rule ReadInt_reads [OF p0 n(3)])
    show "case fr @ ex @ rest of [] \<Rightarrow> True | c # _ \<Rightarrow> \<not> IsAsciiDigit c"
    proof (cases fr)
      case Nil
      then show ?thesis using exponent_not_digit [OF n(6) e] by (auto split: list.splits)
    qed (use n(5) in \<open>auto simp: fraction_text_def IsAsciiDigit_def\<close>)
  qed (use n(2,4) in auto)
  have f: "read_fraction (jp_index ?p1) ?p1 = Some (Some (jp_index ?p1 + length fr), ?p2)" by (rule read_fraction_reads [OF p1 n(5,6) e])
  have "jp_index ?p1 + length fr = jp_index ?p2" by (simp add: NextNChars_def)
  then have x: "read_exponent (jp_index ?p1 + length fr) ?p2 = Some (Some (jp_index p + length s), ?p3)"
    using read_exponent_reads [OF p2 n(6) e] s(1) by (simp add: NextNChars_def)
  obtain t p4 where p4: "GetNextToken ?p3 = Some (t, p4)" "t \<in> {T_OBJECT_END, T_ARRAY_END, T_LIST_SEPARATOR, T_END_OF_INPUT}" "onward ?p3 p4"
    using follows_token [OF p3 assms(4)] by blast
  let ?q = "p4\<lparr>jp_pos := jp_pos ?p3 - 1, jp_index := jp_index ?p3 - 1\<rparr>"
  have p3_pos: "jp_pos ?p3 = jp_pos p + length s" "jp_index ?p3 = jp_pos p + length s" "onward p ?p3"
    using s(1) in_p reads_onward [OF assms(1)] by (simp_all add: NextNChars_def add.assoc)
  have o4: "onward p p4" by (rule onward_trans [OF p3_pos(3) p4(3)])
  have ne: "s \<noteq> []" "IsAsciiDigit (last s)" using last_digit [OF s(2)] s(1) by auto
  have len: "jp_end p = jp_pos p + length s + length rest" using reads_length [OF assms(1)] by simp
  have q: "onward p ?q"
    using o4 ne(1) p3_pos(1,2) len by (cases s) (auto simp: onward_def setting_def in_input_def)
  have "s @ rest = butlast s @ [last s] @ rest" using ne(1) by (metis append_assoc append_butlast_last_id)
  then have "reads p (butlast s @ [last s] @ rest)" using assms(1) by (simp only:)
  then have "reads (NextNChars (length (butlast s)) p) (last s # rest)" using reads_skip by fastforce
  then have "reads ?q (last s # rest)"
    by (rule reads_same) (use onwardD(1,3) [OF q] p3_pos(1) ne(1) in \<open>auto simp: NextNChars_def neq_Nil_conv\<close>)
  then have done_q: "done_at ?q rest" using digit_solid [OF ne(2)] by (auto simp: done_at_def)
  have "jp_bytes ?q (jp_pos p) (length s) = Some s"
    by (subst bytes_inside) (use len onwardD(3) [OF q] assms(1) in \<open>simp_all add: reads_def\<close>)
  then have "ConsumeNumber F p = Some (number_value F s, ?q)"
    using c i f x p4(1,2) by (auto simp: ConsumeNumber_def Let_def)
  then show ?thesis using q done_q by blast
qed

lemma StringsAreEqual_reads: "i + length w \<le> jp_end p \<Longrightarrow> take (length w) (drop i (jp_input p)) = w \<Longrightarrow> StringsAreEqual p i w = Some True"
proof (induction w arbitrary: i)
  case (Cons c w)
  then have "i < jp_end p" by simp
  then have "drop i (jp_input p) = jp_input p ! i # drop (Suc i) (jp_input p)" by (rule Cons_nth_drop_Suc [symmetric])
  then show ?case using Cons by (simp add: byte_inside)
qed simp

lemma consume_literal_reads:
  assumes "reads p (w @ rest)" and "w \<noteq> []" "solid (last w)"
  shows "\<exists>q. consume_literal w v p = Some (Some v, q) \<and> onward p q \<and> done_at q rest"
proof -
  let ?q = "NextNChars (length (butlast w)) p"
  have p: "reads p (butlast w @ last w # rest)" using assms(1,2) by (metis append_assoc append_butlast_last_id append_Cons append_Nil)
  have "StringsAreEqual p (jp_pos p) w = Some True"
    by (rule StringsAreEqual_reads) (use assms(1) reads_length [OF assms(1)] in \<open>simp_all add: reads_def\<close>)
  then have "consume_literal w v p = Some (Some v, ?q)"
    using reads_can [OF assms(1), of "length w - 1"] by (simp add: consume_literal_def)
  moreover have "onward p ?q" using reads_onward [OF p] .
  moreover have "done_at ?q rest" using reads_skip [OF p] assms(3) by (auto simp: done_at_def)
  ultimately show ?thesis by blast
qed

lemma ConsumeLiteral_reads:
  assumes "reads p (w @ rest)" and "(w, v) \<in> {(lit ''true'', BooleanValue True), (lit ''false'', BooleanValue False), (lit ''null'', NullValue)}"
  shows "\<exists>q. ConsumeLiteral p = Some (Some v, q) \<and> onward p q \<and> done_at q rest"
proof -
  have w: "w \<noteq> []" "solid (last w)" using assms(2) by (auto simp: lit_def solid_def)
  obtain c cs where "w = c # cs" using w(1) by (cases w) auto
  then have "jp_at p = Some (hd w)" using assms(1) reads_at [of p c] by simp
  then have "ConsumeLiteral p = consume_literal w v p" using assms(2) by (auto simp: ConsumeLiteral_def lit_def)
  then show ?thesis using consume_literal_reads [OF assms(1) w] by simp
qed

end
