(* ===== verification/Json_Writer.thy ===== *)
theory Json_Writer
  imports Json_Values
begin

unbundle bit_operations_syntax

text \<open>
  The JSON writer: quoting of strings (\<open>src/base/json/string_escape.cc\<close>) and the text of a value
  (\<open>src/base/json/json_writer.cc\<close>). A function that appends to an output string takes the string and returns
  it extended. The result is \<open>None\<close> only if the conversion of a number leaves its buffer. Characters are
  written as their codes: 34 is a quote, 92 a backslash, 123 and 125 are braces, 91 and 93 brackets.
\<close>

section \<open>Quoting\<close>

definition JsonSingleEscapeChar :: "'c :: len word \<Rightarrow> std_string \<Rightarrow> std_string option" where
  "JsonSingleEscapeChar c dst =
     (if c = 8 then Some (dst @ [92, 98])
      else if c = 12 then Some (dst @ [92, 102])
      else if c = 10 then Some (dst @ [92, 110])
      else if c = 13 then Some (dst @ [92, 114])
      else if c = 9 then Some (dst @ [92, 116])
      else if c = 92 then Some (dst @ [92, 92])
      else if c = 34 then Some (dst @ [92, 34])
      else None)"

text \<open>\<open>StringAppendF(dst, "\u%04X", c)\<close> for a value of at most 16 bits.\<close>

definition append_u04X :: "int \<Rightarrow> std_string \<Rightarrow> std_string" where
  "append_u04X u dst =
     dst @ [92, 117, hex_digit (u div 4096 mod 16), hex_digit (u div 256 mod 16), hex_digit (u div 16 mod 16), hex_digit (u mod 16)]"

fun quote_loop :: "'c :: len word list \<Rightarrow> std_string \<Rightarrow> std_string" where
  "quote_loop [] dst = dst"
| "quote_loop (c # cs) dst =
     quote_loop cs
       (case JsonSingleEscapeChar c dst of
          Some dst' \<Rightarrow> dst'
        | None \<Rightarrow> if uint c < 32 \<or> uint c > 126 \<or> uint c = 60 \<or> uint c = 62 then append_u04X (uint c) dst
                  else dst @ [of_int (uint c)])"

definition JsonDoubleQuote :: "'c :: len word list \<Rightarrow> bool \<Rightarrow> std_string \<Rightarrow> std_string" where
  "JsonDoubleQuote str put_in_quotes dst =
     (let dst = (if put_in_quotes then dst @ [34] else dst); dst = quote_loop str dst
      in if put_in_quotes then dst @ [34] else dst)"

definition GetDoubleQuotedJson :: "'c :: len word list \<Rightarrow> std_string" where
  "GetDoubleQuotedJson str = JsonDoubleQuote str True []"

section \<open>Writing\<close>

record json_writer =
  jw_escape :: bool
  jw_omit_binary_values :: bool
  jw_omit_double_type_preservation :: bool
  jw_pretty_print :: bool

definition kPrettyPrintLineEnding :: std_string where
  "kPrettyPrintLineEnding = [10]"

definition AppendQuotedString :: "std_string \<Rightarrow> std_string \<Rightarrow> std_string" where
  "AppendQuotedString str json = JsonDoubleQuote (snd (UTF8ToUTF16 str)) True json"

definition IndentLine :: "nat \<Rightarrow> std_string \<Rightarrow> std_string" where
  "IndentLine depth json = json @ replicate (depth * 3) 32"

text \<open>\<open>StringAppendF(json, "%d", value)\<close>.\<close>

definition append_d :: "int \<Rightarrow> std_string \<Rightarrow> std_string" where
  "append_d value json = json @ (if value < 0 then [45] else []) @ decimal (nat \<bar>value\<bar>)"

definition real_text :: "'d double_ops \<Rightarrow> 'd \<Rightarrow> std_string" where
  "real_text F value =
     (let real = DoubleToString F value;
          real = (if 46 \<notin> set real \<and> 101 \<notin> set real \<and> 69 \<notin> set real then real @ [46, 48] else real)
      in if real ! 0 = 46 then 48 # real
         else if length real > 1 \<and> real ! 0 = 45 \<and> real ! 1 = 46 then [45, 48] @ drop 1 real
         else real)"

definition build_double :: "json_writer \<Rightarrow> 'd double_ops \<Rightarrow> 'd \<Rightarrow> std_string \<Rightarrow> std_string option" where
  "build_double W F value json =
     (if jw_omit_double_type_preservation W \<and> d_le F value (d_of_int F (2 ^ 63 - 1)) \<and> d_le F (d_of_int F (- (2 ^ 63))) value \<and>
         d_eq F (d_floor F value) value
      then map_option (\<lambda>s. json @ s) (Int64ToString (d_to_int64 F value))
      else Some (json @ real_text F value))"

definition pretty :: "json_writer \<Rightarrow> std_string \<Rightarrow> std_string \<Rightarrow> std_string" where
  "pretty W s json = (if jw_pretty_print W then json @ s else json)"

fun BuildJSONString :: "json_writer \<Rightarrow> 'd double_ops \<Rightarrow> 'd json \<Rightarrow> nat \<Rightarrow> std_string \<Rightarrow> std_string option"
  and build_list :: "json_writer \<Rightarrow> 'd double_ops \<Rightarrow> 'd json list \<Rightarrow> bool \<Rightarrow> nat \<Rightarrow> std_string \<Rightarrow> std_string option"
  and build_dictionary :: "json_writer \<Rightarrow> 'd double_ops \<Rightarrow> 'd dictionary \<Rightarrow> bool \<Rightarrow> nat \<Rightarrow> std_string \<Rightarrow> std_string option" where
  "BuildJSONString W F NullValue depth json = Some (json @ lit ''null'')"
| "BuildJSONString W F (BooleanValue b) depth json = Some (json @ (if b then lit ''true'' else lit ''false''))"
| "BuildJSONString W F (IntegerValue i) depth json = Some (append_d i json)"
| "BuildJSONString W F (DoubleValue d) depth json = build_double W F d json"
| "BuildJSONString W F (StringValue s) depth json =
     Some (if jw_escape W then JsonDoubleQuote (snd (UTF8ToUTF16 s)) True json else JsonDoubleQuote s True json)"
| "BuildJSONString W F (ListValue l) depth json =
     map_option (\<lambda>json. pretty W [32] json @ [93]) (build_list W F l True depth (pretty W [32] (json @ [91])))"
| "BuildJSONString W F (DictionaryValue d) depth json =
     map_option (\<lambda>json. (if jw_pretty_print W then IndentLine depth (json @ kPrettyPrintLineEnding) else json) @ [125])
       (build_dictionary W F d True depth (pretty W kPrettyPrintLineEnding (json @ [123])))"
| "BuildJSONString W F (BinaryValue b) depth json = Some json"
| "build_list W F [] first depth json = Some json"
| "build_list W F (v # l) first depth json =
     (if jw_omit_binary_values W \<and> GetType v = TYPE_BINARY then build_list W F l False depth json
      else do {
        json \<leftarrow> BuildJSONString W F v depth (if first then json else pretty W [32] (json @ [44]));
        build_list W F l False depth json
      })"
| "build_dictionary W F [] first depth json = Some json"
| "build_dictionary W F ((k, v) # d) first depth json =
     (if jw_omit_binary_values W \<and> GetType v = TYPE_BINARY then build_dictionary W F d False depth json
      else do {
        let json = (if first then json else pretty W kPrettyPrintLineEnding (json @ [44]));
        let json = AppendQuotedString k (if jw_pretty_print W then IndentLine (depth + 1) json else json);
        json \<leftarrow> BuildJSONString W F v (depth + 1) (if jw_pretty_print W then json @ [58, 32] else json @ [58]);
        build_dictionary W F d False depth json
      })"

definition WriteWithOptions :: "'d double_ops \<Rightarrow> 'd json \<Rightarrow> int \<Rightarrow> std_string option" where
  "WriteWithOptions F node options =
     (let W = \<lparr>jw_escape = (options AND 1 = 0), jw_omit_binary_values = (options AND 2 \<noteq> 0),
               jw_omit_double_type_preservation = (options AND 4 \<noteq> 0), jw_pretty_print = (options AND 8 \<noteq> 0)\<rparr>
      in map_option (\<lambda>json. if jw_pretty_print W then json @ kPrettyPrintLineEnding else json) (BuildJSONString W F node 0 []))"

definition JSONWriter_Write :: "'d double_ops \<Rightarrow> 'd json \<Rightarrow> std_string option" where
  "JSONWriter_Write F node = WriteWithOptions F node 0"

end
