(* ===== verification/Json_Strings.thy ===== *)
theory Json_Strings
  imports Json_Tokens Json_Writer
begin

text \<open>
  Quoted strings: what the writer makes of a sequence of code points, and that the parser turns it back. Every
  code point is one step of the loop over the string, or two for an escape.
\<close>

section \<open>What the writer makes of a code point\<close>

definition hex4 :: "int \<Rightarrow> std_string" where
  "hex4 u = [hex_digit (u div 4096 mod 16), hex_digit (u div 256 mod 16), hex_digit (u div 16 mod 16), hex_digit (u mod 16)]"

lemma length_hex4 [simp]: "length (hex4 u) = 4"
  by (simp add: hex4_def)

definition short_escape :: "int \<Rightarrow> 8 word option" where
  "short_escape u =
     (if u = 8 then Some 98 else if u = 12 then Some 102 else if u = 10 then Some 110 else if u = 13 then Some 114
      else if u = 9 then Some 116 else if u = 92 then Some 92 else if u = 34 then Some 34 else None)"

definition unit_text :: "int \<Rightarrow> std_string" where
  "unit_text u =
     (case short_escape u of
        Some e \<Rightarrow> [92, e]
      | None \<Rightarrow> if u < 32 \<or> u > 126 \<or> u = 60 \<or> u = 62 then [92, 117] @ hex4 u else [of_int u])"

definition code_point_text :: "int \<Rightarrow> std_string" where
  "code_point_text c = (if c < 0x10000 then unit_text c else unit_text (c div 1024 + 0xd7c0) @ unit_text (0xdc00 + c mod 1024))"

lemma quote_unit:
  fixes c :: char16
  shows "(case JsonSingleEscapeChar c dst of Some d \<Rightarrow> d
     | None \<Rightarrow> if uint c < 32 \<or> uint c > 126 \<or> uint c = 60 \<or> uint c = 62 then append_u04X (uint c) dst else dst @ [of_int (uint c)]) =
   dst @ unit_text (uint c)"
proof -
  have n: "c = n \<longleftrightarrow> uint c = uint n" for n :: char16 by (simp add: word_uint_eq_iff)
  show ?thesis
    unfolding JsonSingleEscapeChar_def unit_text_def short_escape_def n
    by (simp add: append_u04X_def hex4_def)
qed

lemma quote_loop_text: "quote_loop (cs :: string16) dst = dst @ concat (map (\<lambda>c. unit_text (uint c)) cs)"
  by (induction cs arbitrary: dst) (simp_all only: quote_loop.simps quote_unit list.map concat.simps append_Nil2 append_assoc)

lemma units_of_code_point: "scalar c \<Longrightarrow> concat (map (\<lambda>u. unit_text (uint u)) (CBU16_APPEND_UNSAFE c)) = code_point_text c"
  using unit_of_int [of c] pair_of_code_point [of c] scalar_limits [of c]
  by (auto simp: code_point_text_def CBU16_APPEND_UNSAFE_def scalar_def)

definition quoted :: "std_string \<Rightarrow> std_string" where
  "quoted s = JsonDoubleQuote (snd (UTF8ToUTF16 s)) True []"

lemma quoted_text: "list_all scalar cs \<Longrightarrow> quoted (utf8 cs) = [34] @ concat (map code_point_text cs) @ [34]"
proof -
  assume cs: "list_all scalar cs"
  have "quote_loop (utf16 cs) dst = dst @ concat (map code_point_text cs)" for dst
    using cs units_of_code_point by (induction cs arbitrary: dst) (simp_all add: quote_loop_text)
  moreover have "UTF8ToUTF16 (utf8 cs) = (True, utf16 cs)" using cs UTF8ToUTF16_eq by blast
  ultimately show ?thesis by (simp add: quoted_def JsonDoubleQuote_def Let_def)
qed

lemma JsonDoubleQuote_append: "JsonDoubleQuote (cs :: string16) True dst = dst @ JsonDoubleQuote cs True []"
  by (simp add: JsonDoubleQuote_def Let_def quote_loop_text)

section \<open>Hexadecimal digits\<close>

lemma hex_digit_uint: "list_all (\<lambda>n. uint (hex_digit (int n)) \<in> {48..57} \<union> {65..70}) [0..<16]"
  by (simp add: upt_rec hex_digit_def lit_def)

lemma hex_digit_plain:
  assumes "0 \<le> n" and "n < 16"
  shows "\<not> isspace (hex_digit n) \<and> hex_digit n \<notin> {43, 45, 88, 120, 0}"
proof -
  have "uint (hex_digit n) \<in> {48..57} \<union> {65..70}"
    using hex_digit_uint assms by (auto simp: list_all_iff dest: bspec [of _ _ "nat n"])
  then show ?thesis by (auto simp: isspace_def word_le_def)
qed

lemma hex_step:
  assumes "0 \<le> v" "v < 4096" and "0 \<le> d" "d < 16"
  shows "digit_loop False hex_int_traits False (hex_digit d # cs) v = digit_loop False hex_int_traits False cs (v * 16 + d)"
proof -
  have "wrap32 (v * 16) = v * 16" "wrap32 (v * 16 + d) = v * 16 + d"
    using assms by (auto intro!: wrap32_id simp: int_ok_def INT_MIN_def INT_MAX_def)
  moreover have "wrap32 268435455 = 268435455" by (simp add: wrap32_id int_ok_def INT_MIN_def INT_MAX_def)
  ultimately show ?thesis
    using assms by (simp add: hex_digit_char hex_int_traits_def CheckBounds_def Positive_CheckBounds_def Increment_def)
qed

lemma hex_first: "0 \<le> d \<Longrightarrow> d < 16 \<Longrightarrow> digit_loop False hex_int_traits True (hex_digit d # cs) 0 = digit_loop False hex_int_traits False cs d"
  by (simp add: hex_digit_char hex_int_traits_def Increment_def wrap32_id int_ok_def INT_MIN_def INT_MAX_def)

lemma HexStringToInt_hex4:
  assumes "0 \<le> u" and "u < 0x10000"
  shows "HexStringToInt (hex4 u) = (True, u)"
proof -
  define a b c d where "a = u div 4096 mod 16" and "b = u div 256 mod 16" and "c = u div 16 mod 16" and "d = u mod 16"
  have r: "0 \<le> a" "a < 16" "0 \<le> b" "b < 16" "0 \<le> c" "c < 16" "0 \<le> d" "d < 16" by (simp_all add: a_def b_def c_def d_def)
  have q: "u div 256 = u div 16 div 16" "u div 4096 = u div 256 div 16"
    using zdiv_zmult2_eq [of 16 u 16] zdiv_zmult2_eq [of 16 u 256] by simp_all
  have "u = u div 16 * 16 + d" "u div 16 = u div 256 * 16 + c" "u div 256 = u div 4096 * 16 + b"
    unfolding b_def c_def d_def q(2) by (simp_all only: q(1) div_mult_mod_eq)
  moreover have "u div 4096 = a" using assms by (simp add: a_def)
  ultimately have u: "u = ((a * 16 + b) * 16 + c) * 16 + d" by simp
  have "hex4 u = [hex_digit a, hex_digit b, hex_digit c, hex_digit d]" by (simp add: hex4_def a_def b_def c_def d_def)
  moreover have "digit_loop False hex_int_traits True [hex_digit a, hex_digit b, hex_digit c, hex_digit d] 0 = (True, u)"
  proof -
    have v: "0 \<le> a" "a < 4096" "0 \<le> a * 16 + b" "a * 16 + b < 4096" "0 \<le> (a * 16 + b) * 16 + c" "(a * 16 + b) * 16 + c < 4096"
      using r by simp_all
    show ?thesis
      by (simp only: hex_first [OF r(1,2)] hex_step [OF v(1,2) r(3,4)] hex_step [OF v(3,4) r(5,6)] hex_step [OF v(5,6) r(7,8)]
          digit_loop.simps(1) u [symmetric])
  qed
  ultimately show ?thesis
    using hex_digit_plain [OF r(1,2)] hex_digit_plain [OF r(3,4)]
    by (simp add: HexStringToInt_def IteratorRangeToNumber_def Base_Invoke_def skip_hex_prefix_def hex_int_traits_def)
qed

lemma c_string_encoded: "scalar c \<Longrightarrow> c \<noteq> 0 \<Longrightarrow> c_string (CBU8_APPEND_UNSAFE c) = CBU8_APPEND_UNSAFE c"
proof -
  assume c: "scalar c" "c \<noteq> 0"
  then have "0 \<le> c" "c < 2 ^ 21" by (auto simp: scalar_def)
  then obtain w x y z where d: "c = ((w * 64 + x) * 64 + y) * 64 + z" "0 \<le> w" "w < 8" "0 \<le> x" "x < 64" "0 \<le> y" "y < 64" "0 \<le> z" "z < 64"
    by (rule digits64)
  have "\<forall>b \<in> set (encoded w x y z). 0 < b \<and> b < 256" using d c(2) by (auto simp: encoded_def)
  then have "\<forall>b \<in> set (encoded w x y z). (of_int b :: 8 word) \<noteq> 0" using byte_of_int by (metis order_less_imp_le unsigned_0 less_irrefl)
  then have "0 \<notin> set (CBU8_APPEND_UNSAFE c)" unfolding append_encoded [OF d] by auto
  then show ?thesis unfolding c_string_def by (intro takeWhile_eq_all_conv [THEN iffD2]) auto
qed

section \<open>Reading a string\<close>

definition content :: "json_parser \<Rightarrow> string_builder \<Rightarrow> std_string" where
  "content p b = (case sb_string b of Some s \<Rightarrow> s | None \<Rightarrow> take (sb_length b) (drop (sb_pos b) (jp_input p)))"

text \<open>The state of the loop: the characters read so far and the text that is left.\<close>

definition string_at :: "json_parser \<Rightarrow> string_builder \<Rightarrow> std_string \<Rightarrow> std_string \<Rightarrow> bool" where
  "string_at p b acc rest \<longleftrightarrow> in_string p \<and> jp_index p \<le> jp_end p \<and> builder_ok p (jp_index p) b \<and> content p b = acc \<and>
     drop (jp_index p) (jp_input p) = rest"

lemma string_at_length: "string_at p b acc rest \<Longrightarrow> jp_end p = jp_index p + length rest"
  by (auto simp: string_at_def)

lemma drop_nth: "drop i xs = ys \<Longrightarrow> k < length ys \<Longrightarrow> xs ! (i + k) = ys ! k"
  by auto

lemma bytes_at: "drop i (jp_input p) = ys \<Longrightarrow> k + n \<le> length ys \<Longrightarrow> 0 < n \<Longrightarrow> jp_bytes p (i + k) n = Some (take n (drop k ys))"
  by (subst bytes_inside) (auto simp: add.commute)

lemma byte_at: "drop i (jp_input p) = ys \<Longrightarrow> k < length ys \<Longrightarrow> jp_byte p (i + k) = Some (ys ! k)"
  by (subst byte_inside) (auto intro: drop_nth)

lemma convert_content:
  assumes "builder_ok p i b" and "i \<le> jp_end q" and "jp_input q = jp_input p"
  shows "sb_Convert q b = Some (b\<lparr>sb_string := Some (content p b)\<rparr>)"
proof (cases "sb_string b")
  case None
  then have "sb_pos b + sb_length b \<le> jp_end q" using assms(1,2) by (simp add: builder_ok_def)
  then show ?thesis using None bytes_inside [of "sb_pos b" "sb_length b" q] assms(3) by (simp add: sb_Convert_def content_def)
qed (simp add: sb_Convert_def content_def)

lemma append_content:
  assumes "builder_ok p i b" and "i < jp_end p" and "jp_input q = jp_input p" and "jp_input p ! i = c"
  shows "builder_ok q (Suc i) (sb_Append c b) \<and> content q (sb_Append c b) = content p b @ [c]"
proof (cases "sb_string b")
  case None
  then have "sb_pos b + sb_length b = i" using assms(1) by (simp add: builder_ok_def)
  then show ?thesis
    using None assms by (auto simp: builder_ok_def sb_Append_def content_def take_Suc_conv_app_nth)
qed (simp add: builder_ok_def sb_Append_def content_def)

lemma enter_char:
  assumes "string_at p b acc (d # rest)" and "uint d < 128"
  shows "CanConsume 1 p" "jp_next p = Some (Suc (jp_index p), uint d)" "IsValidCharacter (uint d)"
proof -
  have len: "jp_index p < jp_end p" using string_at_length [OF assms(1)] by simp
  then show "CanConsume 1 p" using assms(1) by (simp add: string_at_def in_string_def CanConsume_def)
  have "jp_input p ! jp_index p = d" using assms(1) drop_nth [of "jp_index p" "jp_input p" "d # rest" 0] by (simp add: string_at_def)
  then show "jp_next p = Some (Suc (jp_index p), uint d)" using len assms(2) next_1 by (simp add: jp_next_def)
  show "IsValidCharacter (uint d)" using assms(2) by (simp add: IsValidCharacter_def uint32_def)
qed

text \<open>A character that stands for itself.\<close>

lemma plain_step:
  assumes "string_at p b acc (d # rest)" and "uint d < 127" "d \<noteq> 92" "d \<noteq> 34"
  shows "\<exists>b' p'. string_loop b p = string_loop b' p' \<and> quiet p p' \<and> string_at p' b' (acc @ [d]) rest \<and> jp_index p \<le> jp_index p'"
proof -
  let ?p = "p\<lparr>jp_pos := jp_index p, jp_index := Suc (jp_index p)\<rparr>"
  have lt: "uint d < 128" using assms(2) by simp
  note e = enter_char [OF assms(1) lt]
  have len: "jp_index p < jp_end p" using string_at_length [OF assms(1)] by simp
  have nq: "uint d \<noteq> 92" "uint d \<noteq> 34" using assms(3,4) by (auto simp: word_uint_eq_iff)
  have "jp_input p ! jp_index p = d" using assms(1) drop_nth [of "jp_index p" "jp_input p" "d # rest" 0] by (simp add: string_at_def)
  then have "builder_ok ?p (Suc (jp_index p)) (sb_Append d b) \<and> content ?p (sb_Append d b) = content p b @ [d]"
    by (intro append_content) (use assms(1) len in \<open>simp_all add: string_at_def\<close>)
  moreover have "drop (Suc (jp_index p)) (jp_input p) = rest"
    using assms(1) by (simp add: string_at_def drop_Suc flip: tl_drop)
  ultimately have "string_at ?p (sb_Append d b) (acc @ [d]) rest"
    using assms(1) len by (simp add: string_at_def in_string_def)
  moreover have "string_loop b p = string_loop (sb_Append d b) ?p"
    using e nq lt by (subst string_loop.simps) (simp add: kExtendedASCIIStart_def)
  moreover have "quiet p ?p" by (simp add: quiet_simps)
  ultimately show ?thesis by (intro exI [of _ "sb_Append d b"] exI [of _ ?p]) simp
qed

text \<open>An escape: \<open>u\<close> are the characters after the backslash, \<open>w\<close> what they stand for.\<close>

definition escapes_to :: "std_string \<Rightarrow> std_string \<Rightarrow> bool" where
  "escapes_to u w \<longleftrightarrow>
     (\<forall>p b acc rest. in_string p \<longrightarrow> jp_index p = Suc (jp_pos p) \<longrightarrow> sb_string b = Some acc \<longrightarrow> drop (Suc (jp_pos p)) (jp_input p) = u @ rest \<longrightarrow>
       consume_escape b p = Some (Some (b\<lparr>sb_string := Some (acc @ w)\<rparr>), NextNChars (length u) p))"

lemma escape_step:
  assumes "string_at p b acc (92 # u @ rest)" and "escapes_to u w"
  shows "\<exists>b' p'. string_loop b p = string_loop b' p' \<and> quiet p p' \<and> string_at p' b' (acc @ w) rest \<and> jp_index p \<le> jp_index p'"
proof -
  have e: "CanConsume 1 p" "jp_next p = Some (Suc (jp_index p), 92)" "IsValidCharacter 92" using enter_char [OF assms(1)] by simp_all
  let ?p = "p\<lparr>jp_pos := jp_index p, jp_index := Suc (jp_index p)\<rparr>"
  let ?b = "b\<lparr>sb_string := Some acc\<rparr>"
  let ?b' = "b\<lparr>sb_string := Some (acc @ w)\<rparr>" and ?q = "NextNChars (length u) ?p"
  have len: "jp_end p = jp_index p + Suc (length u + length rest)" using string_at_length [OF assms(1)] by simp
  have b: "sb_Convert ?p b = Some ?b"
    using convert_content [of p "jp_index p" b ?p] assms(1) by (auto simp: string_at_def)
  have tl: "drop (Suc (jp_index p)) (jp_input p) = u @ rest" using assms(1) by (simp add: string_at_def drop_Suc flip: tl_drop)
  have "in_string ?p" using assms(1) len by (simp add: string_at_def in_string_def)
  then have "consume_escape ?b ?p = Some (Some ?b', ?q)" using assms(2) tl by (auto simp: escapes_to_def)
  then have "string_loop b p = string_loop ?b' ?q"
    using e b by (subst string_loop.simps) simp
  moreover have "drop (length u) (drop (Suc (jp_index p)) (jp_input p)) = rest" by (simp add: tl)
  then have "string_at ?q ?b' (acc @ w) rest"
    using assms(1) len by (simp add: string_at_def in_string_def NextNChars_def builder_ok_def content_def add.commute)
  moreover have "quiet p ?q" by (simp add: quiet_simps)
  ultimately show ?thesis by (intro exI [of _ ?b'] exI [of _ ?q]) (simp add: NextNChars_def)
qed

lemma letter_escapes: "simple_escape e = Some c \<Longrightarrow> escapes_to [e] [c]"
  unfolding escapes_to_def
proof (intro allI impI)
  fix p and b :: string_builder and acc rest
  assume c: "simple_escape e = Some c" and p: "in_string p" "jp_index p = Suc (jp_pos p)" "sb_string b = Some acc"
    "drop (Suc (jp_pos p)) (jp_input p) = [e] @ rest"
  have "e \<noteq> 120" "e \<noteq> 117" using c by (auto simp: simple_escape_def)
  moreover have "jp_byte p (Suc (jp_pos p)) = Some e" using byte_at [OF p(4), of 0] by simp
  then have "jp_at (NextChar p) = Some e" using quiet_bytes [of p "NextChar p"] by (simp add: quiet_simps NextChar_def)
  moreover have "Suc (jp_pos p) \<le> jp_end p" using arg_cong [OF p(4), of length] by simp
  ultimately show "consume_escape b p = Some (Some (b\<lparr>sb_string := Some (acc @ [c])\<rparr>), NextNChars (length [e]) p)"
    using c p(3) by (simp add: consume_escape_def CanConsume_def sb_Append_def NextChar_skip)
qed

lemma unit_escape:
  assumes "0 \<le> c" "c < 0x10000" "scalar c" "c \<noteq> 0"
  shows "escapes_to (117 # hex4 c) (CBU8_APPEND_UNSAFE c)"
  unfolding escapes_to_def
proof (intro allI impI)
  fix p and b :: string_builder and acc rest
  assume p: "in_string p" "jp_index p = Suc (jp_pos p)" "sb_string b = Some acc"
    "drop (Suc (jp_pos p)) (jp_input p) = (117 # hex4 c) @ rest"
  let ?n = "NextChar p" and ?n2 = "NextChar (NextChar p)"
  have len: "jp_pos p + 6 \<le> jp_end p" using arg_cong [OF p(4), of length] by (simp add: hex4_def)
  have "jp_byte p (Suc (jp_pos p)) = Some 117" using byte_at [OF p(4), of 0] by simp
  then have at1: "jp_at ?n = Some 117" using quiet_bytes [of p ?n] by (simp add: quiet_simps NextChar_def)
  have "drop (Suc (Suc (jp_pos p))) (jp_input ?n2) = hex4 c @ rest"
    using p(4) by (simp add: drop_Suc [of "Suc _"] NextChar_simps flip: tl_drop)
  then have "jp_bytes ?n2 (Suc (Suc (jp_pos p)) + 0) 4 = Some (take 4 (drop 0 (hex4 c @ rest)))"
    by (rule bytes_at) (simp_all add: hex4_def)
  then have bytes: "jp_bytes ?n2 (jp_pos ?n2) 4 = Some (hex4 c)" by (simp add: hex4_def NextChar_simps)
  have "\<not> CBU_IS_SURROGATE (uint32 c)" using assms scalar_limits [OF assms(3)] surrogate_iff [of c] by (auto simp: scalar_def)
  then have "DecodeUTF16 ?n2 = Some (Some (CBU8_APPEND_UNSAFE c), NextNChars 3 ?n2)"
    using bytes len HexStringToInt_hex4 [OF assms(1,2)] c_string_encoded [OF assms(3,4)]
    by (simp add: DecodeUTF16_def Let_def CanConsume_def NextChar_simps)
  then show "consume_escape b p = Some (Some (b\<lparr>sb_string := Some (acc @ CBU8_APPEND_UNSAFE c)\<rparr>), NextNChars (length (117 # hex4 c)) p)"
    using at1 len p(3)
    by (simp add: consume_escape_def Let_def CanConsume_def NextChar_simps sb_AppendString_def) (simp add: hex4_def NextChar_skip skip_skip)
qed

lemma pair_escape:
  assumes "0x10000 \<le> c" "c \<le> 0x10FFFF"
  shows "escapes_to (117 # hex4 (c div 1024 + 0xd7c0) @ 92 # 117 # hex4 (0xdc00 + c mod 1024)) (CBU8_APPEND_UNSAFE c)"
  unfolding escapes_to_def
proof (intro allI impI)
  fix p and b :: string_builder and acc rest
  define hi lo where "hi = c div 1024 + 0xd7c0" and "lo = 0xdc00 + c mod 1024"
  assume "in_string p" "jp_index p = Suc (jp_pos p)" "sb_string b = Some acc"
    "drop (Suc (jp_pos p)) (jp_input p) = (117 # hex4 (c div 1024 + 0xd7c0) @ 92 # 117 # hex4 (0xdc00 + c mod 1024)) @ rest"
  then have p: "in_string p" "jp_index p = Suc (jp_pos p)" "sb_string b = Some acc"
    "drop (Suc (jp_pos p)) (jp_input p) = (117 # hex4 hi @ 92 # 117 # hex4 lo) @ rest" by (simp_all only: hi_def lo_def)
  have u: "0xD800 \<le> hi" "hi < 0xDC00" "0xDC00 \<le> lo" "lo < 0xE000" "CBU16_GET_SUPPLEMENTARY hi lo = c"
    using pair_of_code_point [OF assms] by (simp_all add: hi_def lo_def)
  have hi: "0 \<le> hi" "hi < 0x10000" and lo: "0 \<le> lo" "lo < 0x10000" using u by simp_all
  let ?n = "NextChar p" and ?n2 = "NextChar (NextChar p)"
  let ?m = "NextNChars 3 ?n2"
  let ?m3 = "NextChar (NextChar (NextChar ?m))"
  have len: "jp_pos p + 12 \<le> jp_end p" using arg_cong [OF p(4), of length] by (simp add: hex4_def)
  have q: "quiet p ?n" "quiet p ?n2" "quiet p (NextChar ?m)" "quiet p (NextChar (NextChar ?m))" "quiet p ?m3" by (simp_all add: quiet_simps)
  have pos: "jp_pos ?n = Suc (jp_pos p)" "jp_pos ?n2 = Suc (jp_pos p) + 1" "jp_pos ?m = jp_pos p + 5"
    "jp_pos (NextChar ?m) = Suc (jp_pos p) + 5" "jp_pos (NextChar (NextChar ?m)) = Suc (jp_pos p) + 6" "jp_pos ?m3 = Suc (jp_pos p) + 7"
    by (simp_all add: NextChar_def NextNChars_def)
  have nth: "((117 # hex4 hi @ 92 # 117 # hex4 lo) @ rest) ! 5 = 92" "((117 # hex4 hi @ 92 # 117 # hex4 lo) @ rest) ! 6 = 117"
    by (simp_all add: hex4_def)
  have at: "jp_at ?n = Some 117" "jp_at (NextChar ?m) = Some 92" "jp_at (NextChar (NextChar ?m)) = Some 117"
    using byte_at [OF p(4), of 0] byte_at [OF p(4), of 5] byte_at [OF p(4), of 6] nth
    by (simp_all add: quiet_bytes [OF q(1)] quiet_bytes [OF q(3)] quiet_bytes [OF q(4)] pos)
  have d: "drop (Suc (jp_pos p)) (jp_input ?n2) = (117 # hex4 hi @ 92 # 117 # hex4 lo) @ rest"
    "drop (Suc (jp_pos p)) (jp_input ?m3) = (117 # hex4 hi @ 92 # 117 # hex4 lo) @ rest"
    using p(4) by (simp_all add: quietD [OF q(2)] quietD [OF q(5)])
  have bytes: "jp_bytes ?n2 (jp_pos ?n2) 4 = Some (hex4 hi)" "jp_bytes ?m3 (jp_pos ?m3) 4 = Some (hex4 lo)"
    using bytes_at [OF d(1), of 1 4] bytes_at [OF d(2), of 7 4] by (simp_all add: pos hex4_def)
  have s: "CBU_IS_SURROGATE (uint32 hi)" "CBU16_IS_SURROGATE_LEAD hi" "CBU16_IS_TRAIL32 lo"
    using u surrogate_iff [of hi] surrogate_lead_iff [of hi] trail32_iff [of lo] by (simp_all add: uint32_def)
  have "scalar c" "c \<noteq> 0" using assms by (simp_all add: scalar_def)
  note c = c_string_encoded [OF this]
  have e: "jp_end ?n = jp_end p" "jp_end ?n2 = jp_end p" "jp_end ?m = jp_end p" by (simp_all add: NextChar_def NextNChars_def)
  have "DecodeUTF16_low hi ?m = Some (Some (CBU8_APPEND_UNSAFE c), NextNChars 3 ?m3)"
    using s(2,3) at(2,3) bytes(2) HexStringToInt_hex4 [OF lo] u(5) c len
    by (simp add: DecodeUTF16_low_def Let_def CanConsume_def e(3) pos(3))
  then have "DecodeUTF16 ?n2 = Some (Some (CBU8_APPEND_UNSAFE c), NextNChars 3 ?m3)"
    using bytes(1) HexStringToInt_hex4 [OF hi] s(1) len by (simp add: DecodeUTF16_def Let_def CanConsume_def e(2) pos(2))
  then have "consume_escape b p = Some (Some (b\<lparr>sb_string := Some (acc @ CBU8_APPEND_UNSAFE c)\<rparr>), NextNChars 3 ?m3)"
    using at(1) len p(3) by (simp add: consume_escape_def Let_def CanConsume_def e(1) pos(1) sb_AppendString_def)
  then show "consume_escape b p = Some (Some (b\<lparr>sb_string := Some (acc @ CBU8_APPEND_UNSAFE c)\<rparr>),
      NextNChars (length (117 # hex4 (c div 1024 + 0xd7c0) @ 92 # 117 # hex4 (0xdc00 + c mod 1024))) p)"
    by (simp add: NextChar_skip skip_skip)
qed

text \<open>One code point, whichever way it is written.\<close>

lemma code_point_step:
  assumes p: "string_at p b acc (code_point_text c @ rest)" and c: "scalar c" "c \<noteq> 0"
  shows "\<exists>b' p'. string_loop b p = string_loop b' p' \<and> quiet p p' \<and> string_at p' b' (acc @ CBU8_APPEND_UNSAFE c) rest \<and> jp_index p \<le> jp_index p'"
proof (cases "c < 0x10000")
  case False
  then have "0x10000 \<le> c" "c \<le> 0x10FFFF" using c(1) by (simp_all add: scalar_def)
  have high: "unit_text v = 92 # 117 # hex4 v" if "0xD800 \<le> v" for v using that by (simp add: unit_text_def short_escape_def)
  note u = pair_of_code_point(2,3) [OF \<open>0x10000 \<le> c\<close> \<open>c \<le> 0x10FFFF\<close>] and e = pair_escape [OF \<open>0x10000 \<le> c\<close> \<open>c \<le> 0x10FFFF\<close>]
  have "code_point_text c = 92 # (117 # hex4 (c div 1024 + 0xd7c0) @ 92 # 117 # hex4 (0xdc00 + c mod 1024))"
    using False u(1) by (simp add: code_point_text_def high)
  then show ?thesis using escape_step [OF _ e] p by simp
next
  case True
  have c0: "0 \<le> c" using c(1) by (simp add: scalar_def)
  have t: "code_point_text c = unit_text c" using True by (simp add: code_point_text_def)
  have ascii: "CBU8_APPEND_UNSAFE c = [of_int c]" if "c < 128" using that c0 by (simp add: CBU8_APPEND_UNSAFE_def uint32_def)
  consider (letter) e where "short_escape c = Some e" | (unit) "short_escape c = None" "c < 32 \<or> c > 126 \<or> c = 60 \<or> c = 62"
    | (plain) "short_escape c = None" "32 \<le> c" "c \<le> 126" by force
  then show ?thesis
  proof cases
    case letter
    then have e: "simple_escape e = Some (of_int c)" "c < 128" by (auto simp: short_escape_def simple_escape_def split: if_splits)
    show ?thesis
      using escape_step [OF _ letter_escapes [OF e(1)]] p letter ascii [OF e(2)] by (simp add: t unit_text_def)
  next
    case unit
    then have "unit_text c = 92 # (117 # hex4 c)" by (auto simp: unit_text_def)
    then show ?thesis using escape_step [OF _ unit_escape [OF c0 True c]] p by (simp add: t)
  next
    case plain
    show ?thesis
    proof (cases "c = 60 \<or> c = 62")
      case True
      then have "unit_text c = 92 # (117 # hex4 c)" using plain by (auto simp: unit_text_def)
      then show ?thesis using escape_step [OF _ unit_escape [OF c0 _ c]] p \<open>c < 0x10000\<close> by (simp add: t)
    next
      case False
      then have u: "unit_text c = [of_int c]" using plain by (simp add: unit_text_def)
      have i: "uint (of_int c :: 8 word) = c" using byte_of_int [of c] plain by simp
      have "c \<noteq> 92" "c \<noteq> 34" using plain(1) by (auto simp: short_escape_def)
      then have "(of_int c :: 8 word) \<noteq> 92" "(of_int c :: 8 word) \<noteq> 34" using i by (auto simp: word_uint_eq_iff)
      then show ?thesis
        using plain_step [of p b acc "of_int c" rest] p i plain ascii by (simp add: t u)
    qed
  qed
qed

lemma quote_step:
  assumes "string_at p b acc (34 # rest)"
  shows "\<exists>q. string_loop b p = Some (Some b, q) \<and> quiet p q \<and> reads q (34 # rest) \<and> jp_pos q = jp_index p \<and> content q b = acc \<and> builder_ok q (jp_pos q) b"
proof -
  have e: "CanConsume 1 p" "jp_next p = Some (Suc (jp_index p), 34)" "IsValidCharacter 34" using enter_char [OF assms] by simp_all
  let ?q = "p\<lparr>jp_pos := jp_index p\<rparr>"
  have "p\<lparr>jp_pos := jp_index p, jp_index := jp_index p\<rparr> = ?q" by simp
  then have "string_loop b p = Some (Some b, ?q)"
    using e by (subst string_loop.simps) simp
  moreover have "reads ?q (34 # rest)"
    using assms string_at_length [OF assms] by (simp add: reads_def in_input_def string_at_def in_string_def)
  moreover have "content ?q b = acc" "builder_ok ?q (jp_index p) b"
    using assms by (cases "sb_string b"; simp add: string_at_def content_def builder_ok_def)+
  ultimately show ?thesis by (intro exI [of _ ?q]) (simp add: quiet_simps)
qed

lemma string_loop_reads:
  "string_at p b acc (concat (map code_point_text cs) @ 34 # rest) \<Longrightarrow> list_all scalar cs \<Longrightarrow> 0 \<notin> set cs \<Longrightarrow>
   \<exists>b' q. string_loop b p = Some (Some b', q) \<and> quiet p q \<and> reads q (34 # rest) \<and> jp_index p \<le> jp_pos q \<and>
     content q b' = acc @ utf8 cs \<and> builder_ok q (jp_pos q) b'"
proof (induction cs arbitrary: p b acc)
  case Nil
  then have "string_at p b acc (34 # rest)" by simp
  then show ?case using quote_step [of p b acc rest] by fastforce
next
  case (Cons c cs)
  have c: "scalar c" "c \<noteq> 0" using Cons.prems(2,3) by auto
  have "string_at p b acc (code_point_text c @ concat (map code_point_text cs) @ 34 # rest)" using Cons.prems(1) by simp
  then obtain b1 p1 where p1: "string_loop b p = string_loop b1 p1" "quiet p p1" "jp_index p \<le> jp_index p1"
    "string_at p1 b1 (acc @ CBU8_APPEND_UNSAFE c) (concat (map code_point_text cs) @ 34 # rest)"
    using code_point_step [OF _ c] by blast
  have "list_all scalar cs" "0 \<notin> set cs" using Cons.prems(2,3) by simp_all
  then obtain b' q where "string_loop b1 p1 = Some (Some b', q)" "quiet p1 q" "reads q (34 # rest)" "jp_index p1 \<le> jp_pos q"
    "content q b' = (acc @ CBU8_APPEND_UNSAFE c) @ utf8 cs" "builder_ok q (jp_pos q) b'"
    using Cons.IH [OF p1(4)] by blast
  then show ?case using p1(1,3) quiet_trans [OF p1(2)] by (intro exI [of _ b'] exI [of _ q]) simp
qed

definition string_ok :: "std_string \<Rightarrow> bool" where
  "string_ok s \<longleftrightarrow> fst (UTF8ToUTF16 s) \<and> 0 \<notin> set s"

lemma string_ok_code_points: "string_ok s \<Longrightarrow> \<exists>cs. s = utf8 cs \<and> list_all scalar cs \<and> 0 \<notin> set cs"
proof -
  assume s: "string_ok s"
  then have "UTF8ToUTF16 s = (True, snd (UTF8ToUTF16 s))" by (cases "UTF8ToUTF16 s") (simp add: string_ok_def)
  then obtain cs where cs: "list_all scalar cs" "s = utf8 cs" using UTF8ToUTF16_eq by blast
  have "CBU8_APPEND_UNSAFE 0 = [0]" by (simp add: CBU8_APPEND_UNSAFE_def uint32_def)
  then have "0 \<in> set cs \<Longrightarrow> 0 \<in> set (utf8 cs)" by (force simp: utf8_def)
  then show ?thesis using s cs by (auto simp: string_ok_def)
qed

lemma ConsumeStringRaw_reads:
  assumes "reads p (quoted s @ rest)" and "string_ok s"
  shows "\<exists>b q. ConsumeStringRaw p = Some (Some b, q) \<and> onward p q \<and> reads q (34 # rest) \<and> builder_ok q (jp_pos q) b \<and> content q b = s"
proof -
  obtain cs where cs: "s = utf8 cs" "list_all scalar cs" "0 \<notin> set cs" using string_ok_code_points [OF assms(2)] by blast
  have p: "reads p (34 # concat (map code_point_text cs) @ 34 # rest)" using assms(1) quoted_text [OF cs(2)] cs(1) by simp
  let ?n = "NextChar p"
  have n: "onward p ?n" using reads_onward [of p "[34]"] p by (simp add: NextChar_skip)
  have "string_at ?n (sb_at (jp_pos ?n)) [] (concat (map code_point_text cs) @ 34 # rest)"
    using reads_next [OF p] by (auto simp: string_at_def reads_def in_input_def in_string_def builder_ok_def sb_at_def content_def)
  then obtain b q where q: "string_loop (sb_at (jp_pos ?n)) ?n = Some (Some b, q)" "quiet ?n q" "reads q (34 # rest)" "jp_index ?n \<le> jp_pos q"
    "content q b = s" "builder_ok q (jp_pos q) b"
    using string_loop_reads [OF _ cs(2,3)] cs(1) by fastforce
  have "onward p q" using n q(2,3,4) by (auto simp: onward_def quiet_def setting_def reads_def in_input_def)
  then show ?thesis using q reads_at [OF p] by (simp add: ConsumeStringRaw_def Let_def)
qed

lemma AsString_content:
  assumes "builder_ok q i b" and "i \<le> jp_end q" "jp_input q' = jp_input q"
  shows "sb_AsString q' b = Some (content q b)"
  using convert_content [OF assms(1), of q'] assms(2,3) by (simp add: sb_AsString_def)

lemma ConsumeString_reads:
  assumes "reads p (quoted s @ rest)" and "string_ok s"
  shows "\<exists>q. ConsumeString p = Some (Some (StringValue s), q) \<and> onward p q \<and> done_at q rest"
proof -
  obtain b q where q: "ConsumeStringRaw p = Some (Some b, q)" "onward p q" "reads q (34 # rest)" "builder_ok q (jp_pos q) b" "content q b = s"
    using ConsumeStringRaw_reads [OF assms] by blast
  have s: "sb_AsString q b = Some s" using AsString_content [OF q(4)] reads_length [OF q(3)] q(5) by simp
  have "sb_CanBeStringPiece b \<Longrightarrow> sb_AsStringPiece q b = Some s"
    using s by (auto simp: sb_CanBeStringPiece_def sb_AsStringPiece_def sb_AsString_def sb_Convert_def split: bind_splits)
  moreover have "\<not> jp_detachable_children q" using q(3) by (simp add: reads_def in_input_def)
  ultimately have "ConsumeString p = Some (Some (StringValue s), q)" using q(1) s by (simp add: ConsumeString_def)
  moreover have "done_at q rest" using q(3) unfolding done_at_def solid_def by (intro exI [of _ 34]) simp
  ultimately show ?thesis using q(2) by blast
qed

end
