(* ===== verification/Json_Roundtrip.thy ===== *)
theory Json_Roundtrip
  imports Json_Strings
begin

text \<open>
  What is written is read back. The text of a value is first described as a function of its own (\<open>json_text\<close>), which
  the writer computes with an output string; the parser then turns every such text into the value.
\<close>

section \<open>The text of a value\<close>

definition gap :: "bool \<Rightarrow> std_string" where
  "gap pp = (if pp then [32] else [])"

definition newline :: "bool \<Rightarrow> std_string" where
  "newline pp = (if pp then [10] else [])"

definition indent :: "bool \<Rightarrow> nat \<Rightarrow> std_string" where
  "indent pp depth = (if pp then replicate (depth * 3) 32 else [])"

definition int_text :: "int \<Rightarrow> std_string" where
  "int_text i = (if i < 0 then [45] else []) @ decimal (nat \<bar>i\<bar>)"

fun json_text :: "bool \<Rightarrow> 'd double_ops \<Rightarrow> nat \<Rightarrow> 'd json \<Rightarrow> std_string"
  and items_text :: "bool \<Rightarrow> 'd double_ops \<Rightarrow> nat \<Rightarrow> bool \<Rightarrow> 'd json list \<Rightarrow> std_string"
  and members_text :: "bool \<Rightarrow> 'd double_ops \<Rightarrow> nat \<Rightarrow> bool \<Rightarrow> 'd dictionary \<Rightarrow> std_string" where
  "json_text pp F n NullValue = lit ''null''"
| "json_text pp F n (BooleanValue b) = (if b then lit ''true'' else lit ''false'')"
| "json_text pp F n (IntegerValue i) = int_text i"
| "json_text pp F n (DoubleValue d) = real_text F d"
| "json_text pp F n (StringValue s) = quoted s"
| "json_text pp F n (BinaryValue b) = []"
| "json_text pp F n (ListValue l) = [91] @ gap pp @ items_text pp F n True l @ gap pp @ [93]"
| "json_text pp F n (DictionaryValue d) = [123] @ newline pp @ members_text pp F n True d @ newline pp @ indent pp n @ [125]"
| "items_text pp F n first [] = []"
| "items_text pp F n first (v # l) = (if first then [] else [44] @ gap pp) @ json_text pp F n v @ items_text pp F n False l"
| "members_text pp F n first [] = []"
| "members_text pp F n first (m # d) =
     (if first then [] else [44] @ newline pp) @ indent pp (Suc n) @ quoted (fst m) @ [58] @ gap pp @ json_text pp F (Suc n) (snd m) @
     members_text pp F n False d"

text \<open>Values that can be written: no binary values, whole numbers in the range of \<open>int\<close>, strings of Unicode scalar
  values without U+0000, keys in order. For every double in the value the conversion to text has to give a number
  that the conversion from text takes back, which is what \<open>g_fmt\<close> and \<open>strtod\<close> document.\<close>

definition double_ok :: "'d double_ops \<Rightarrow> 'd \<Rightarrow> bool" where
  "double_ok F d \<longleftrightarrow> IsFinite F d \<and> StringToDouble F (real_text F d) = (True, d) \<and>
     (\<exists>sign ip fr ex. real_text F d = sign @ ip @ fr @ ex \<and> number_text sign ip fr ex \<and> (fr \<noteq> [] \<or> ex \<noteq> []))"

fun writable :: "'d double_ops \<Rightarrow> 'd json \<Rightarrow> bool" where
  "writable F (IntegerValue i) = int_ok i"
| "writable F (DoubleValue d) = double_ok F d"
| "writable F (StringValue s) = string_ok s"
| "writable F (BinaryValue b) = False"
| "writable F (ListValue l) = list_all (writable F) l"
| "writable F (DictionaryValue d) = (keys_ok d \<and> list_all (\<lambda>(k, v). string_ok k \<and> writable F v) d)"
| "writable F _ = True"

fun nesting :: "'d json \<Rightarrow> nat" where
  "nesting (ListValue l) = Suc (fold max (map nesting l) 0)"
| "nesting (DictionaryValue d) = Suc (fold max (map (\<lambda>(k, v). nesting v) d) 0)"
| "nesting _ = 0"

lemma fold_max: "fold max xs (m :: nat) \<le> n \<longleftrightarrow> m \<le> n \<and> (\<forall>x \<in> set xs. x \<le> n)"
  by (induction xs arbitrary: m) auto

lemma writable_not_binary: "writable F v \<Longrightarrow> GetType v \<noteq> TYPE_BINARY"
  by (cases v) simp_all

lemma BuildJSONString_text:
  assumes "jw_escape W" and "\<not> jw_omit_double_type_preservation W"
  shows "writable F v \<Longrightarrow> BuildJSONString W F v n json = Some (json @ json_text (jw_pretty_print W) F n v)"
    and "list_all (writable F) l \<Longrightarrow> build_list W F l first n json = Some (json @ items_text (jw_pretty_print W) F n first l)"
    and "list_all (\<lambda>(k, v). string_ok k \<and> writable F v) d \<Longrightarrow>
      build_dictionary W F d first n json = Some (json @ members_text (jw_pretty_print W) F n first d)"
proof -
  have q: "JsonDoubleQuote (snd (UTF8ToUTF16 s)) True json = json @ quoted s" for s json
    unfolding quoted_def by (rule JsonDoubleQuote_append)
  show "writable F v \<Longrightarrow> BuildJSONString W F v n json = Some (json @ json_text (jw_pretty_print W) F n v)"
    and "list_all (writable F) l \<Longrightarrow> build_list W F l first n json = Some (json @ items_text (jw_pretty_print W) F n first l)"
    and "list_all (\<lambda>(k, v). string_ok k \<and> writable F v) d \<Longrightarrow>
      build_dictionary W F d first n json = Some (json @ members_text (jw_pretty_print W) F n first d)"
    using assms
    by (induction W F v n json and W F l first n json and W F d first n json rule: BuildJSONString_build_list_build_dictionary.induct)
      (auto simp: q append_d_def int_text_def build_double_def pretty_def gap_def newline_def indent_def IndentLine_def
        kPrettyPrintLineEnding_def AppendQuotedString_def Let_def dest: writable_not_binary)
qed

section \<open>Numbers\<close>

lemma decimal_is_digit: "is_digit 10 (c :: 8 word) \<longleftrightarrow> IsAsciiDigit c"
  by (auto simp: is_digit_def CharToDigit_def IsAsciiDigit_def word_le_def Let_def)

lemma decimal_leading: "0 < n \<Longrightarrow> hd (decimal n :: std_string) \<noteq> 48" "decimal n \<noteq> ([] :: std_string)"
proof -
  show ne: "decimal n \<noteq> ([] :: std_string)" for n by (subst decimal.simps) simp
  show "0 < n \<Longrightarrow> hd (decimal n :: std_string) \<noteq> 48"
  proof (induction n rule: decimal.induct)
    case (1 n)
    show ?case
    proof (cases "n < 10")
      case True
      have "CharToDigit 10 (48 :: 8 word) = Some 0" by (simp add: CharToDigit_def)
      then have "(of_nat (n + 48) :: 8 word) \<noteq> 48" using digit_char [OF True] 1(2) by (metis of_nat_0_less_iff option.inject less_irrefl)
      then show ?thesis using True by (subst decimal.simps) simp
    next
      case False
      then have "hd (decimal (n div 10) :: std_string) \<noteq> 48" using 1(1) 1(2) by simp
      then show ?thesis using False ne [of "n div 10"] by (subst decimal.simps) simp
    qed
  qed
qed

lemma decimal_number: "digits (decimal n) \<and> decimal n \<noteq> ([] :: std_string) \<and> (length (decimal n :: std_string) = 1 \<or> hd (decimal n :: std_string) \<noteq> 48)"
proof (cases "n < 10")
  case True
  then have "length (decimal n :: std_string) = 1" by (subst decimal.simps) simp
  then show ?thesis using decimal_digits [of n] decimal_leading(2) by (simp add: decimal_is_digit list_all_iff)
qed (use decimal_digits [of n] decimal_leading [of n] in \<open>simp add: decimal_is_digit list_all_iff\<close>)

lemma int_text_number: "number_text (if i < 0 then [45] else []) (decimal (nat \<bar>i\<bar>)) [] []"
  using decimal_number [of "nat \<bar>i\<bar>"] by (cases "i < 0") (simp_all add: number_text_def fraction_text_def exponent_text_def)

lemma int_value: "int_ok i \<Longrightarrow> number_value F (int_text i) = Some (IntegerValue i)"
proof -
  assume i: "int_ok i"
  then have "IntToString i = Some (int_text i)"
    using IntToStringT_eq [of 32 True i] by (simp add: IntToString_def int_text_def int_ok_def INT_MIN_def INT_MAX_def)
  then have "StringToInt (int_text i) = (True, i)" using number_roundtrip(1) [OF i] by auto
  then show ?thesis by (simp add: number_value_def)
qed

lemma not_int:
  assumes "number_text sign ip fr ex" and "fr \<noteq> [] \<or> ex \<noteq> []"
  shows "\<not> fst (StringToInt (sign @ ip @ fr @ ex))"
proof -
  obtain c cs where ip: "ip = c # cs" "IsAsciiDigit c" using assms(1) by (cases ip) (auto simp: number_text_def)
  then have c: "\<not> isspace c" "c \<noteq> 45" "c \<noteq> 43" by (auto simp: IsAsciiDigit_def isspace_def word_le_def)
  have s: "sign \<in> {[], [45]}" using assms(1) by (simp add: number_text_def)
  then have "dropWhile isspace (sign @ ip @ fr @ ex) = sign @ ip @ fr @ ex" using c ip by (auto simp: isspace_def)
  moreover have "snd (split_sign (sign @ ip @ fr @ ex)) = ip @ fr @ ex" using s c ip by (auto simp: split_sign_def)
  moreover have "\<not> list_all (is_digit 10) (ip @ fr @ ex)"
  proof (cases fr)
    case Nil
    then obtain e r where "ex = e # r" "e \<in> {101, 69}" using assms by (auto simp: number_text_def exponent_text_def)
    then show ?thesis by (auto simp: decimal_is_digit IsAsciiDigit_def)
  next
    case (Cons f r)
    then have "f = 46" using assms(1) by (simp add: number_text_def fraction_text_def)
    then show ?thesis using Cons by (simp add: decimal_is_digit IsAsciiDigit_def)
  qed
  ultimately show ?thesis
    using IteratorRangeToNumber_eq [OF exact_signed(1), of isspace "sign @ ip @ fr @ ex"]
    by (auto simp: StringToInt_def int_traits_def INT_MIN_def Let_def split: prod.splits)
qed

lemma double_value: "double_ok F d \<Longrightarrow> number_value F (real_text F d) = Some (DoubleValue d)"
proof -
  assume d: "double_ok F d"
  then have "\<not> fst (StringToInt (real_text F d))" using not_int by (fastforce simp: double_ok_def)
  then show ?thesis using d by (cases "StringToInt (real_text F d)") (simp add: number_value_def double_ok_def CreateDoubleValue_def)
qed

section \<open>The beginning of a text\<close>

definition value_token :: "json_token \<Rightarrow> bool" where
  "value_token t \<longleftrightarrow> t \<in> {T_OBJECT_BEGIN, T_ARRAY_BEGIN, T_STRING, T_NUMBER, T_BOOL_TRUE, T_BOOL_FALSE, T_NULL}"

lemma number_head: "number_text sign ip fr ex \<Longrightarrow> \<exists>c t. sign @ ip @ fr @ ex = c # t \<and> solid c \<and> token_of c = T_NUMBER"
proof -
  assume n: "number_text sign ip fr ex"
  obtain c cs where c: "ip = c # cs" "IsAsciiDigit c" using n by (cases ip) (auto simp: number_text_def)
  have t: "token_of c = T_NUMBER" using c(2) by (auto simp: token_of_def IsAsciiDigit_def)
  show ?thesis
    using n c t digit_solid by (auto simp: number_text_def) (auto simp: token_of_def solid_def)
qed

lemma quoted_head: "string_ok s \<Longrightarrow> \<exists>t. quoted s = 34 # t"
  using string_ok_code_points [of s] quoted_text by auto

lemma text_head: "writable F v \<Longrightarrow> \<exists>c t. json_text pp F n v = c # t \<and> solid c \<and> value_token (token_of c)"
proof (cases v)
  case (IntegerValue i)
  then show ?thesis using number_head [OF int_text_number, of i] by (auto simp: int_text_def value_token_def)
next
  case (DoubleValue d)
  assume "writable F v"
  then obtain sign ip fr ex where d: "real_text F d = sign @ ip @ fr @ ex" "number_text sign ip fr ex"
    using DoubleValue by (auto simp: double_ok_def)
  show ?thesis using number_head [OF d(2)] d(1) DoubleValue by (auto simp: value_token_def)
next
  case (StringValue s)
  assume "writable F v"
  then obtain t where "quoted s = 34 # t" using StringValue quoted_head [of s] by auto
  moreover have "solid 34 \<and> value_token (token_of 34)" by (simp add: solid_def token_of_def value_token_def)
  ultimately show ?thesis using StringValue by simp
qed (auto simp: lit_def solid_def token_of_def value_token_def)

section \<open>The parser on the text\<close>

lemma blanks: "list_all blank (gap pp)" "list_all blank (newline pp)" "list_all blank (indent pp n)"
  by (simp_all add: gap_def newline_def indent_def blank_def list_all_iff)

lemma job_eqs:
  "run_job F (Token_job t) p = ParseToken (run_job F) F t p"
  "run_job F (List_job l t) p = list_round (run_job F) l t p"
  "run_job F (Dictionary_job d t) p = dictionary_round (run_job F) d t p"
  by (subst run_job.simps, simp add: run_with_def)+

lemma bracket_tokens:
  "token_of 93 = T_ARRAY_END" "token_of 125 = T_OBJECT_END" "token_of 44 = T_LIST_SEPARATOR" "token_of 58 = T_OBJECT_PAIR_SEPARATOR"
  "token_of 34 = T_STRING" "token_of 91 = T_ARRAY_BEGIN" "token_of 123 = T_OBJECT_BEGIN"
  "solid 93" "solid 125" "solid 44" "solid 58" "solid 34"
  by (simp_all add: token_of_def solid_def)

lemma next_child_end:
  assumes "done_at p (ws @ c # rest)" "list_all blank ws" "solid c" "token_of c = e" "e \<noteq> T_LIST_SEPARATOR"
  shows "\<exists>q. next_child e a p = Some (Some e, q) \<and> onward p q \<and> reads q (c # rest)"
  using token_after [OF assms(1-3)] assms(4,5) by (auto simp: next_child_def)

lemma next_child_more:
  assumes "done_at p (44 # ws @ c # rest)" "list_all blank ws" "solid c" "token_of c \<noteq> e"
  shows "\<exists>q. next_child e a p = Some (Some (token_of c), q) \<and> onward p q \<and> reads q (c # rest)"
proof -
  obtain p1 where p1: "GetNextToken (NextChar p) = Some (T_LIST_SEPARATOR, p1)" "reads p1 (44 # ws @ c # rest)" "onward p p1"
    using token_after [of p "[]" 44] assms(1) by (auto simp: bracket_tokens)
  have "done_at p1 (ws @ c # rest)" using p1(2) bracket_tokens(10) unfolding done_at_def by blast
  then obtain q where "GetNextToken (NextChar p1) = Some (token_of c, q)" "reads q (c # rest)" "onward p1 q"
    using token_after [OF _ assms(2,3)] by blast
  then show ?thesis using p1 assms(4) onward_trans [OF p1(3)] by (auto simp: next_child_def)
qed

lemma follows_cons: "list_all blank ws \<Longrightarrow> c \<in> {44, 93, 125} \<Longrightarrow> follows (ws @ c # rest)"
  unfolding follows_def by (intro exI [of _ ws] exI [of _ "c # rest"]) simp

text \<open>What has to hold of a value: its text, read at any position with enough room for its nesting, is the value.\<close>

definition parses :: "bool \<Rightarrow> 'd double_ops \<Rightarrow> 'd json \<Rightarrow> bool" where
  "parses pp F v \<longleftrightarrow>
     (\<forall>p n rest. reads p (json_text pp F n v @ rest) \<longrightarrow> follows rest \<longrightarrow> jp_stack_depth p + nesting v < kStackMaxDepth \<longrightarrow>
       (\<exists>q. run_job F (Token_job (token_of (hd (json_text pp F n v)))) p = Some (Some v, q) \<and> onward p q \<and> done_at q rest))"

lemma parsesD:
  assumes "parses pp F v" and "reads p (json_text pp F n v @ rest)" "follows rest" "jp_stack_depth p + nesting v < kStackMaxDepth"
  shows "\<exists>q. run_job F (Token_job (token_of (hd (json_text pp F n v)))) p = Some (Some v, q) \<and> onward p q \<and> done_at q rest"
  using assms unfolding parses_def by blast

lemma onward_depth: "onward p q \<Longrightarrow> jp_stack_depth q = jp_stack_depth p"
  by (simp add: onward_def setting_def)

lemma items_read:
  "reads p (items_text pp F n True (v # l) @ gap pp @ 93 # rest) \<Longrightarrow> \<forall>w \<in> set (v # l). writable F w \<and> parses pp F w \<and> jp_stack_depth p + nesting w < kStackMaxDepth \<Longrightarrow>
   \<exists>q. run_job F (List_job acc (token_of (hd (json_text pp F n v)))) p = Some (Some (ListValue (acc @ v # l)), q) \<and> onward p q \<and> reads q (93 # rest)"
proof (induction l arbitrary: p v acc)
  case Nil
  obtain c t where c: "json_text pp F n v = c # t" "value_token (token_of c)" using text_head Nil.prems(2) by fastforce
  have p: "reads p (json_text pp F n v @ gap pp @ 93 # rest)" using Nil.prems(1) by simp
  obtain q where q: "run_job F (Token_job (token_of c)) p = Some (Some v, q)" "onward p q" "done_at q (gap pp @ 93 # rest)"
    using parsesD [OF _ p follows_cons [OF blanks(1)]] Nil.prems(2) c(1) by auto
  obtain q2 where q2: "next_child T_ARRAY_END 1 q = Some (Some T_ARRAY_END, q2)" "onward q q2" "reads q2 (93 # rest)"
    using next_child_end [OF q(3) blanks(1) bracket_tokens(8,1)] by auto
  have "run_job F (List_job acc (token_of c)) p = Some (Some (ListValue (acc @ [v])), q2)"
    using c(2) q(1) q2(1) by (auto simp: job_eqs list_round_def list_Append_def value_token_def)
  then show ?case using q2(2,3) onward_trans [OF q(2)] c(1) by auto
next
  case (Cons w l)
  obtain c t where c: "json_text pp F n v = c # t" "value_token (token_of c)" using text_head Cons.prems(2) by fastforce
  obtain d u where d: "json_text pp F n w = d # u" "solid d" "value_token (token_of d)" using text_head Cons.prems(2) by fastforce
  have ne: "token_of d \<noteq> T_ARRAY_END" using d(3) by (auto simp: value_token_def)
  let ?more = "items_text pp F n True (w # l) @ gap pp @ 93 # rest"
  have p: "reads p (json_text pp F n v @ [] @ 44 # gap pp @ ?more)" using Cons.prems(1) by simp
  have more: "?more = d # u @ items_text pp F n False l @ gap pp @ 93 # rest" by (simp add: d(1))
  obtain q where q: "run_job F (Token_job (token_of c)) p = Some (Some v, q)" "onward p q" "done_at q (44 # gap pp @ ?more)"
    using parsesD [OF _ p follows_cons] Cons.prems(2) c(1) by auto
  obtain q2 where q2: "next_child T_ARRAY_END 1 q = Some (Some (token_of d), q2)" "onward q q2" "reads q2 ?more"
    using next_child_more [OF q(3) [unfolded more] blanks(1) d(2) ne] unfolding more by blast
  have o2: "onward p q2" by (rule onward_trans [OF q(2) q2(2)])
  have "\<forall>x \<in> set (w # l). writable F x \<and> parses pp F x \<and> jp_stack_depth q2 + nesting x < kStackMaxDepth"
    using Cons.prems(2) onward_depth [OF o2] by simp
  then obtain r where r: "run_job F (List_job (acc @ [v]) (token_of d)) q2 = Some (Some (ListValue ((acc @ [v]) @ w # l)), r)"
    "onward q2 r" "reads r (93 # rest)"
    using Cons.IH [OF q2(3), of "acc @ [v]"] d(1) by auto
  have "run_job F (List_job acc (token_of c)) p = Some (Some (ListValue (acc @ v # w # l)), r)"
    using c(2) q(1) q2(1) r(1) by (auto simp: job_eqs(2) [of F acc] list_round_def list_Append_def value_token_def)
  then show ?case using r(2,3) onward_trans [OF o2] c(1) by auto
qed

lemma member_read:
  assumes p: "reads p (quoted k @ [58] @ gap pp @ json_text pp F (Suc n) v @ rest)" and "follows rest" "string_ok k"
    and v: "writable F v" "parses pp F v" "jp_stack_depth p + nesting v < kStackMaxDepth" and "keys_ok (acc @ (k, v) # d)"
  shows "\<exists>q. run_job F (Dictionary_job acc T_STRING) p =
      next_child T_OBJECT_END 0 q \<bind> (\<lambda>(token, p). case token of None \<Rightarrow> Some (None, p) | Some t \<Rightarrow> run_job F (Dictionary_job (acc @ [(k, v)]) t) p) \<and>
    onward p q \<and> done_at q rest"
proof -
  let ?v = "gap pp @ json_text pp F (Suc n) v @ rest"
  have key: "reads p (quoted k @ 58 # ?v)" using p by simp
  obtain b q where q: "ConsumeStringRaw p = Some (Some b, q)" "onward p q" "reads q (34 # 58 # ?v)" "builder_ok q (jp_pos q) b" "content q b = k"
    using ConsumeStringRaw_reads [OF key assms(3)] by blast
  have "done_at q ([] @ 58 # ?v)" using q(3) bracket_tokens(12) unfolding done_at_def by auto
  then obtain q1 where q1: "GetNextToken (NextChar q) = Some (T_OBJECT_PAIR_SEPARATOR, q1)" "reads q1 (58 # ?v)" "onward q q1"
    using token_after [of q "[]" 58 ?v] by (auto simp: bracket_tokens)
  obtain c t where c: "json_text pp F (Suc n) v = c # t" "solid c" using text_head [OF v(1)] by blast
  have "done_at q1 (gap pp @ c # t @ rest)" using q1(2) bracket_tokens(11) c(1) unfolding done_at_def by auto
  then obtain q2 where q2: "GetNextToken (NextChar q1) = Some (token_of c, q2)" "reads q2 (json_text pp F (Suc n) v @ rest)" "onward q1 q2"
    using token_after [OF _ blanks(1) c(2), of q1 pp "t @ rest"] c(1) by auto
  have o2: "onward p q2" by (rule onward_trans [OF onward_trans [OF q(2) q1(3)] q2(3)])
  then obtain q3 where q3: "run_job F (Token_job (token_of c)) q2 = Some (Some v, q3)" "onward q2 q3" "done_at q3 rest"
    using parsesD [OF v(2) q2(2) assms(2)] v(3) onward_depth [OF o2] c(1) by auto
  have "jp_input q3 = jp_input q" using onwardD(3) [OF q1(3)] onwardD(3) [OF q2(3)] onwardD(3) [OF q3(2)] by simp
  moreover have "jp_pos q \<le> jp_end q" using reads_length [OF q(3)] by simp
  ultimately have s: "sb_AsString q3 b = Some k" using AsString_content [OF q(4)] q(5) by simp
  have m: "SetWithoutPathExpansion k v acc = acc @ [(k, v)]" using map_set_last [OF assms(7)] by (simp add: SetWithoutPathExpansion_def)
  have "run_job F (Dictionary_job acc T_STRING) p =
      next_child T_OBJECT_END 0 q3 \<bind> (\<lambda>(token, p). case token of None \<Rightarrow> Some (None, p) | Some t \<Rightarrow> run_job F (Dictionary_job (acc @ [(k, v)]) t) p)"
    using q(1) q1(1) q2(1) q3(1) s unfolding m [symmetric] by (simp add: job_eqs(3) [of F acc] dictionary_round_def Let_def)
  then show ?thesis using q3(3) onward_trans [OF o2 q3(2)] by blast
qed

lemma members_read:
  "reads p (quoted k @ [58] @ gap pp @ json_text pp F (Suc n) v @ members_text pp F n False d @ newline pp @ indent pp n @ 125 # rest) \<Longrightarrow>
   \<forall>(k, w) \<in> set ((k, v) # d). string_ok k \<and> writable F w \<and> parses pp F w \<and> jp_stack_depth p + nesting w < kStackMaxDepth \<Longrightarrow>
   keys_ok (acc @ (k, v) # d) \<Longrightarrow>
   \<exists>q. run_job F (Dictionary_job acc T_STRING) p = Some (Some (DictionaryValue (acc @ (k, v) # d)), q) \<and> onward p q \<and> reads q (125 # rest)"
proof (induction d arbitrary: p k v acc)
  case Nil
  let ?rest = "(newline pp @ indent pp n) @ 125 # rest"
  have b: "list_all blank (newline pp @ indent pp n)" by (simp add: blanks)
  have p: "reads p (quoted k @ [58] @ gap pp @ json_text pp F (Suc n) v @ ?rest)" using Nil.prems(1) by simp
  obtain q where q: "run_job F (Dictionary_job acc T_STRING) p =
      next_child T_OBJECT_END 0 q \<bind> (\<lambda>(token, p). case token of None \<Rightarrow> Some (None, p) | Some t \<Rightarrow> run_job F (Dictionary_job (acc @ [(k, v)]) t) p)"
    "onward p q" "done_at q ?rest"
    using member_read [OF p follows_cons [OF b], of acc "[]"] Nil.prems(2,3) by auto
  obtain q2 where q2: "next_child T_OBJECT_END 0 q = Some (Some T_OBJECT_END, q2)" "onward q q2" "reads q2 (125 # rest)"
    using next_child_end [OF q(3) b bracket_tokens(9,2)] by auto
  have "run_job F (Dictionary_job acc T_STRING) p = Some (Some (DictionaryValue (acc @ [(k, v)])), q2)"
    using q(1) q2(1) by (simp add: job_eqs(3) [of F "acc @ [(k, v)]"] dictionary_round_def)
  then show ?case using q2(2,3) onward_trans [OF q(2)] by auto
next
  case (Cons m d)
  obtain k' w where m: "m = (k', w)" by (cases m)
  let ?more = "quoted k' @ [58] @ gap pp @ json_text pp F (Suc n) w @ members_text pp F n False d @ newline pp @ indent pp n @ 125 # rest"
  let ?ws = "newline pp @ indent pp (Suc n)"
  have b: "list_all blank ?ws" by (simp add: blanks)
  obtain t where t: "quoted k' = 34 # t" using quoted_head Cons.prems(2) m by auto
  define more where "more = tl ?more"
  have more: "?more = 34 # more" by (simp add: t more_def)
  have p: "reads p (quoted k @ [58] @ gap pp @ json_text pp F (Suc n) v @ [] @ 44 # ?ws @ ?more)" using Cons.prems(1) m by simp
  obtain q where q: "run_job F (Dictionary_job acc T_STRING) p =
      next_child T_OBJECT_END 0 q \<bind> (\<lambda>(token, p). case token of None \<Rightarrow> Some (None, p) | Some t \<Rightarrow> run_job F (Dictionary_job (acc @ [(k, v)]) t) p)"
    "onward p q" "done_at q (44 # ?ws @ ?more)"
    using member_read [OF p follows_cons, of acc "m # d"] Cons.prems(2,3) by auto
  obtain q2 where q2: "next_child T_OBJECT_END 0 q = Some (Some T_STRING, q2)" "onward q q2" "reads q2 ?more"
    using next_child_more [OF q(3) [unfolded more] b bracket_tokens(12), of T_OBJECT_END 0] unfolding more by (auto simp: bracket_tokens)
  have o2: "onward p q2" by (rule onward_trans [OF q(2) q2(2)])
  have "\<forall>(k, x) \<in> set ((k', w) # d). string_ok k \<and> writable F x \<and> parses pp F x \<and> jp_stack_depth q2 + nesting x < kStackMaxDepth"
    using Cons.prems(2) onward_depth [OF o2] m by auto
  moreover have "keys_ok ((acc @ [(k, v)]) @ (k', w) # d)" using Cons.prems(3) m by simp
  ultimately obtain r where r: "run_job F (Dictionary_job (acc @ [(k, v)]) T_STRING) q2 = Some (Some (DictionaryValue ((acc @ [(k, v)]) @ (k', w) # d)), r)"
    "onward q2 r" "reads r (125 # rest)"
    using Cons.IH [OF q2(3)] by blast
  have "run_job F (Dictionary_job acc T_STRING) p = Some (Some (DictionaryValue (acc @ (k, v) # m # d)), r)"
    using q(1) q2(1) r(1) m by simp
  then show ?case using r(2,3) onward_trans [OF o2] by auto
qed

lemma children_room:
  "jp_stack_depth p + nesting (ListValue l) < kStackMaxDepth \<Longrightarrow> w \<in> set l \<Longrightarrow> jp_stack_depth (StackMarker p) + nesting w < kStackMaxDepth"
  "jp_stack_depth p + nesting (DictionaryValue d) < kStackMaxDepth \<Longrightarrow> (k, w) \<in> set d \<Longrightarrow> jp_stack_depth (StackMarker p) + nesting w < kStackMaxDepth"
proof -
  show "jp_stack_depth (StackMarker p) + nesting w < kStackMaxDepth"
    if "jp_stack_depth p + nesting (ListValue l) < kStackMaxDepth" "w \<in> set l"
    using that fold_max [of "map nesting l" 0 "fold max (map nesting l) 0"] by (fastforce simp: StackMarker_def)
  show "jp_stack_depth (StackMarker p) + nesting w < kStackMaxDepth"
    if "jp_stack_depth p + nesting (DictionaryValue d) < kStackMaxDepth" "(k, w) \<in> set d"
    using that fold_max [of "map (\<lambda>(k, v). nesting v) d" 0 "fold max (map (\<lambda>(k, v). nesting v) d) 0"] by (fastforce simp: StackMarker_def)
qed

text \<open>The bracket around the children: what happens between it and the last child is given.\<close>

lemma children_read:
  assumes p: "reads p (c # ws @ d # rest)" and "list_all blank ws" "solid d" "Suc (jp_stack_depth p) < kStackMaxDepth"
    and run: "\<And>q. onward (StackMarker p) q \<Longrightarrow> reads q (d # rest) \<Longrightarrow> \<exists>r. run (m (token_of d)) q = Some (Some v, r) \<and> onward q r \<and> done_at r rest'"
  shows "\<exists>q. consume_children run c m p = Some (Some v, q) \<and> onward p q \<and> done_at q rest'"
proof -
  let ?p = "StackMarker p"
  have p': "reads ?p (c # ws @ d # rest)" using p by (simp add: reads_def StackMarker_def in_input_def)
  have n: "onward ?p (NextChar ?p)" using reads_onward [of ?p "[c]"] p' by (simp add: NextChar_skip)
  obtain q where q: "GetNextToken (NextChar ?p) = Some (token_of d, q)" "reads q (d # rest)" "onward (NextChar ?p) q"
    using next_token [OF reads_next [OF p'] assms(2,3)] by blast
  have o: "onward ?p q" by (rule onward_trans [OF n q(3)])
  obtain r where r: "run (m (token_of d)) q = Some (Some v, r)" "onward q r" "done_at r rest'" using run [OF o q(2)] by blast
  have "consume_children run c m p = Some (Some v, drop_StackMarker r)"
    using reads_at [OF p] q(1) r(1) assms(4) by (simp add: consume_children_def Let_def IsTooDeep_def StackMarker_def)
  moreover have "onward p (drop_StackMarker r)"
    using onward_trans [OF o r(2)] by (auto simp: onward_def setting_def in_input_def StackMarker_def drop_StackMarker_def)
  moreover have "done_at (drop_StackMarker r) rest'"
    using r(3) by (auto simp: done_at_def reads_def in_input_def drop_StackMarker_def)
  ultimately show ?thesis by blast
qed

lemma list_parses:
  assumes "\<forall>w \<in> set l. writable F w \<and> parses pp F w"
  shows "parses pp F (ListValue l)"
  unfolding parses_def
proof (intro allI impI)
  fix p n rest
  assume p: "reads p (json_text pp F n (ListValue l) @ rest)" and depth: "jp_stack_depth p + nesting (ListValue l) < kStackMaxDepth"
  have "\<exists>q. consume_children (run_job F) 91 (List_job []) p = Some (Some (ListValue l), q) \<and> onward p q \<and> done_at q rest"
  proof (cases l)
    case Nil
    then have "reads p (91 # (gap pp @ gap pp) @ 93 # rest)" using p by simp
    then show ?thesis
    proof (rule children_read)
      show "\<exists>r. run_job F (List_job [] (token_of 93)) q = Some (Some (ListValue l), r) \<and> onward q r \<and> done_at r rest"
        if "reads q (93 # rest)" for q
        using that bracket_tokens(8) Nil onward_refl [of q]
        by (auto simp: job_eqs(2) list_round_def bracket_tokens reads_def done_at_def)
    qed (use depth bracket_tokens(8) blanks in simp_all)
  next
    case (Cons v ls)
    have "writable F v" using assms Cons by simp
    then obtain c t where c: "json_text pp F n v = c # t" "solid c" using text_head by blast
    let ?items = "items_text pp F n True (v # ls) @ gap pp @ 93 # rest"
    define more where "more = tl ?items"
    have more: "?items = c # more" by (simp add: c(1) more_def)
    have "json_text pp F n (ListValue l) @ rest = 91 # gap pp @ ?items" using Cons by simp
    then have "reads p (91 # gap pp @ c # more)" using p more by (simp only:)
    then show ?thesis
    proof (rule children_read)
      show "\<exists>r. run_job F (List_job [] (token_of c)) q = Some (Some (ListValue l), r) \<and> onward q r \<and> done_at r rest"
        if q: "onward (StackMarker p) q" "reads q (c # more)" for q
      proof -
        have "\<forall>w \<in> set (v # ls). writable F w \<and> parses pp F w \<and> jp_stack_depth q + nesting w < kStackMaxDepth"
          using assms Cons children_room(1) [OF depth] onward_depth [OF q(1)] by auto
        then obtain r where "run_job F (List_job [] (token_of c)) q = Some (Some (ListValue l), r)" "onward q r" "reads r (93 # rest)"
          using items_read [of q pp F n v ls rest "[]"] q(2) c(1) Cons unfolding more by auto
        then show ?thesis using bracket_tokens(8) unfolding done_at_def by blast
      qed
    qed (use depth c(2) blanks in simp_all)
  qed
  then show "\<exists>q. run_job F (Token_job (token_of (hd (json_text pp F n (ListValue l))))) p = Some (Some (ListValue l), q) \<and> onward p q \<and> done_at q rest"
    by (simp add: job_eqs(1) bracket_tokens ParseToken_def ConsumeList_def)
qed

lemma dictionary_parses:
  assumes "\<forall>(k, w) \<in> set d. string_ok k \<and> writable F w \<and> parses pp F w" and "keys_ok d"
  shows "parses pp F (DictionaryValue d)"
  unfolding parses_def
proof (intro allI impI)
  fix p n rest
  assume p: "reads p (json_text pp F n (DictionaryValue d) @ rest)" and depth: "jp_stack_depth p + nesting (DictionaryValue d) < kStackMaxDepth"
  have "\<exists>q. consume_children (run_job F) 123 (Dictionary_job []) p = Some (Some (DictionaryValue d), q) \<and> onward p q \<and> done_at q rest"
  proof (cases d)
    case Nil
    then have "reads p (123 # (newline pp @ newline pp @ indent pp n) @ 125 # rest)" using p by simp
    then show ?thesis
    proof (rule children_read)
      show "\<exists>r. run_job F (Dictionary_job [] (token_of 125)) q = Some (Some (DictionaryValue d), r) \<and> onward q r \<and> done_at r rest"
        if "reads q (125 # rest)" for q
        using that bracket_tokens(9) Nil onward_refl [of q]
        by (auto simp: job_eqs(3) dictionary_round_def bracket_tokens reads_def done_at_def)
    qed (use depth bracket_tokens(9) blanks in simp_all)
  next
    case (Cons m ds)
    obtain k v where m: "m = (k, v)" by (cases m)
    let ?more = "quoted k @ [58] @ gap pp @ json_text pp F (Suc n) v @ members_text pp F n False ds @ newline pp @ indent pp n @ 125 # rest"
    obtain t where t: "quoted k = 34 # t" using quoted_head assms(1) Cons m by auto
    define more where "more = tl ?more"
    have more: "?more = 34 # more" by (simp add: t more_def)
    have "json_text pp F n (DictionaryValue d) @ rest = 123 # (newline pp @ indent pp (Suc n)) @ ?more" using Cons m by simp
    then have "reads p (123 # (newline pp @ indent pp (Suc n)) @ 34 # more)" using p more by (simp only:)
    then show ?thesis
    proof (rule children_read)
      show "\<exists>r. run_job F (Dictionary_job [] (token_of 34)) q = Some (Some (DictionaryValue d), r) \<and> onward q r \<and> done_at r rest"
        if q: "onward (StackMarker p) q" "reads q (34 # more)" for q
      proof -
        have "\<forall>(k, w) \<in> set ((k, v) # ds). string_ok k \<and> writable F w \<and> parses pp F w \<and> jp_stack_depth q + nesting w < kStackMaxDepth"
          using assms(1) Cons m children_room(2) [OF depth] onward_depth [OF q(1)] by auto
        then obtain r where "run_job F (Dictionary_job [] T_STRING) q = Some (Some (DictionaryValue d), r)" "onward q r" "reads r (125 # rest)"
          using members_read [of q k pp F n v ds rest "[]"] q(2) assms(2) Cons m unfolding more by auto
        then show ?thesis using bracket_tokens(5,9) unfolding done_at_def by auto
      qed
    qed (use depth bracket_tokens(12) blanks in simp_all)
  qed
  then show "\<exists>q. run_job F (Token_job (token_of (hd (json_text pp F n (DictionaryValue d))))) p = Some (Some (DictionaryValue d), q) \<and> onward p q \<and> done_at q rest"
    by (simp add: job_eqs(1) bracket_tokens ParseToken_def ConsumeDictionary_def)
qed

lemma number_parses:
  assumes "\<And>n. json_text pp F n v = s" and s: "s = sign @ ip @ fr @ ex" "number_text sign ip fr ex" and v: "number_value F s = Some v"
  shows "parses pp F v"
proof -
  obtain c t where c: "s = c # t" "token_of c = T_NUMBER" using number_head [OF s(2)] s(1) by auto
  have t: "token_of (hd s) = T_NUMBER" using c by simp
  show ?thesis
    unfolding parses_def assms(1) t using ConsumeNumber_reads [of _ s, OF _ s, where F = F] v by (simp add: job_eqs(1) ParseToken_def)
qed

lemma value_parses: "writable F v \<Longrightarrow> parses pp F v"
proof (induction v)
  case (ListValue l)
  then show ?case by (intro list_parses) (auto simp: list_all_iff)
next
  case (DictionaryValue d)
  have "parses pp F w" if "(k, w) \<in> set d" for k w
    by (rule DictionaryValue.IH [OF that]) (use that DictionaryValue.prems in \<open>auto simp: list_all_iff\<close>)
  then show ?case using DictionaryValue.prems by (intro dictionary_parses) (auto simp: list_all_iff)
next
  case (IntegerValue i)
  then show ?case
    using int_value [of i F] by (intro number_parses [OF _ _ int_text_number [of i]]) (simp_all add: int_text_def)
next
  case (DoubleValue d)
  then obtain sign ip fr ex where d: "real_text F d = sign @ ip @ fr @ ex" "number_text sign ip fr ex" by (auto simp: double_ok_def)
  show ?case using double_value [of F d] DoubleValue d(1) by (intro number_parses [OF _ d]) simp_all
next
  case (StringValue s)
  then obtain t where "quoted s = 34 # t" using quoted_head by auto
  then show ?case
    using ConsumeString_reads [of _ s] StringValue by (auto simp: parses_def job_eqs(1) ParseToken_def bracket_tokens)
next
  case NullValue
  have "token_of (hd (lit ''null'')) = T_NULL" by (simp add: lit_def token_of_def)
  then show ?case using ConsumeLiteral_reads [of _ "lit ''null''" _ "NullValue :: 'a json"] by (simp add: parses_def job_eqs(1) ParseToken_def)
next
  case (BooleanValue b)
  have "token_of (hd (lit ''true'')) = T_BOOL_TRUE" "token_of (hd (lit ''false'')) = T_BOOL_FALSE" by (simp_all add: lit_def token_of_def)
  then show ?case
    using ConsumeLiteral_reads [of _ "lit ''true''" _ "BooleanValue True :: 'a json"]
      ConsumeLiteral_reads [of _ "lit ''false''" _ "BooleanValue False :: 'a json"]
    by (cases b) (simp_all add: parses_def job_eqs(1) ParseToken_def)
qed simp

section \<open>The root\<close>

lemma root_parses:
  assumes "writable F v" and "list_all blank ws" and "\<not> jp_detachable_children p" and "jp_stack_depth p + nesting v < kStackMaxDepth"
  shows "\<exists>q. Parse F (json_text pp F 0 v @ ws) p = Some (Some v, q)"
proof -
  let ?text = "json_text pp F 0 v"
  let ?s = "start_parse (?text @ ws) p"
  have s: "reads ?s (?text @ ws)" using assms(3) by (simp add: reads_def in_input_def start_parse_def)
  obtain c t where c: "?text = c # t" "solid c" "value_token (token_of c)" using text_head [OF assms(1)] by blast
  have "c \<noteq> 0xEF" using c(3) by (auto simp: value_token_def token_of_def)
  then have bom: "skip_bom ?s = Some ?s"
    using bytes_inside [of 0 3 ?s] c(1) by (auto simp: skip_bom_def CanConsume_def start_parse_def)
  obtain p1 where p1: "GetNextToken ?s = Some (token_of c, p1)" "reads p1 (?text @ ws)" "onward ?s p1"
    using next_token [of ?s "[]" c "t @ ws"] s c(1,2) by auto
  have "follows ws" using assms(2) by (auto simp: follows_def)
  moreover have "jp_stack_depth p1 = jp_stack_depth p" using onward_depth [OF p1(3)] by (simp add: start_parse_def)
  ultimately obtain p2 where p2: "run_job F (Token_job (token_of c)) p1 = Some (Some v, p2)" "onward p1 p2" "done_at p2 ws"
    using parsesD [OF value_parses [OF assms(1)] p1(2)] assms(4) c(1) by auto
  obtain d where d: "solid d" "reads p2 (d # ws)" using p2(3) by (auto simp: done_at_def)
  obtain p3 where p3: "GetNextToken p2 = Some (token_of d, p3)" "reads p3 (d # ws)" using next_token [of p2 "[]" d ws] d by auto
  obtain p4 where p4: "GetNextToken (NextChar p3) = Some (T_END_OF_INPUT, p4)" using no_token [OF reads_next [OF p3(2)] assms(2)] by blast
  have "token_of d \<noteq> T_END_OF_INPUT" by (simp add: token_of_def)
  then have e: "at_end p2 = Some (True, p4)" using p3(1) p4 reads_can [OF p3(2), of 1] by (simp add: at_end_def)
  have "GetType v = TYPE_STRING \<Longrightarrow> DeepCopy F v = v" by (cases v) simp_all
  then show ?thesis using bom p1(1) p2(1) e by (simp add: Parse_def ParseNextToken_def)
qed


lemma seven_ok: "double_ok whole_doubles 7"
proof -
  have t: "real_text whole_doubles 7 = [] @ [55] @ [46, 48] @ []" by code_simp
  moreover have "number_text [] [55] [46, 48] []" by (simp add: number_text_def fraction_text_def exponent_text_def IsAsciiDigit_def)
  moreover have "IsFinite whole_doubles 7 \<and> StringToDouble whole_doubles (real_text whole_doubles 7) = (True, 7)" by code_simp
  ultimately show ?thesis unfolding double_ok_def by blast
qed


end
