(* ===== verification/Json_Limits.thy ===== *)
theory Json_Limits
  imports Json_Safety Json_Writer
begin

text \<open>
  Where the parser and the writer depart from the grammar, by evaluation on concrete texts. Characters are written
  as their codes where a literal cannot hold them: 34 is a quote, 92 a backslash, 10 a line feed.
\<close>

section \<open>The parser\<close>

text \<open>A slash that does not start a comment is skipped: \<open>[1,/2]\<close> and \<open>[1]/\<close> are accepted.\<close>

lemma stray_slash_ignored:
  "JSONReader_Read whole_doubles (lit ''[1,/2]'') 0 = Some (Some (ListValue [IntegerValue 1, IntegerValue 2]))"
  "JSONReader_Read whole_doubles (lit ''[1]/'') 0 = Some (Some (ListValue [IntegerValue 1]))"
  by code_simp+

text \<open>A block comment without an end leaves the last character of the input to be read as a token.\<close>

lemma open_comment_accepted:
  "JSONReader_Read whole_doubles (lit ''[1 /* ]'') 0 = Some (Some (ListValue [IntegerValue 1]))"
  by code_simp

text \<open>The end of a comment is not recognised after an even number of further stars.\<close>

lemma comment_end_missed:
  "JSONReader_Read whole_doubles (lit ''/**/1'') 0 = Some (Some (IntegerValue 1))"
  "JSONReader_Read whole_doubles (lit ''/***/[1]'') 0 = Some None"
  by code_simp+

text \<open>An escaped U+0000 is dropped from the string, although the writer escapes it that way.\<close>

lemma null_character_lost:
  "WriteWithOptions whole_doubles (StringValue [97, 0, 98]) 0 = Some ([34, 97, 92] @ lit ''u0000b'' @ [34])"
  "JSONReader_Read whole_doubles ([34, 97, 92] @ lit ''u0000b'' @ [34]) 0 = Some (Some (StringValue [97, 98]))"
  by code_simp+

text \<open>The digits of an escape may have a sign: \<open>\u-001\<close> gives bytes that are not UTF-8.\<close>

lemma signed_escape_accepted:
  "JSONReader_Read whole_doubles ([34, 92] @ lit ''u-001'' @ [34]) 0 = Some (Some (StringValue [255, 191, 191, 191]))"
  "fst (UTF8ToUTF16 [255, 191, 191, 191]) = False"
  by code_simp+

text \<open>The look ahead after a number counts line feeds that are read again: the error in the second line is
  reported for the third.\<close>

lemma line_counted_twice:
  "ReadAndReturnError whole_doubles (lit ''[1'' @ [10] @ lit '',x]'') 0 =
   Some (Inl (JSON_UNEXPECTED_TOKEN, lit ''Line: 3, column: 3, Unexpected token.''))"
  by code_simp

text \<open>A number that is not finite gives no value and no error.\<close>

lemma infinite_number_no_error:
  "ReadAndReturnError (whole_doubles\<lparr>IsFinite := \<lambda>d. False\<rparr>) (lit ''1.5'') 0 = Some (Inl (JSON_NO_ERROR, []))"
  by code_simp

text \<open>With detachable children the input is not copied, and a number at its end makes the parser read behind it.\<close>

lemma detachable_reads_behind: "JSONReader_Read whole_doubles (lit ''1'') 2 = None"
  by code_simp

section \<open>The writer\<close>

text \<open>When the first child is an omitted binary value the separator stays.\<close>

lemma omitted_binary_leaves_comma:
  "WriteWithOptions whole_doubles (ListValue [BinaryValue [1], IntegerValue 1]) 2 = Some (lit ''[,1]'')"
  by code_simp

text \<open>Without escaping each byte of a UTF-8 sequence is escaped as a code unit of its own.\<close>

lemma no_escape_breaks_utf8:
  "WriteWithOptions whole_doubles (StringValue [0xC3, 0xA4]) 1 = Some ([34, 92] @ lit ''u00C3'' @ [92] @ lit ''u00A4'' @ [34])"
  "JSONReader_Read whole_doubles ([34, 92] @ lit ''u00C3'' @ [92] @ lit ''u00A4'' @ [34]) 0 = Some (Some (StringValue [0xC3, 0x83, 0xC2, 0xA4]))"
  by code_simp+

end
