(* ===== verification/Json_Types.thy ===== *)
theory Json_Types
  imports Json_Safety
begin

text \<open>
  The values the parser makes are well formed: what \<open>Value\<close> requires of its children and numbers holds of every value
  that is read, from any input and with any options. This is shown of every call that returns, by induction over
  the recursive calls.
\<close>

fun typed :: "'d double_ops \<Rightarrow> 'd json \<Rightarrow> bool" where
  "typed F (IntegerValue i) = int_ok i"
| "typed F (DoubleValue d) = IsFinite F d"
| "typed F (BinaryValue b) = False"
| "typed F (ListValue l) = list_all (typed F) l"
| "typed F (DictionaryValue d) = (keys_ok d \<and> list_all (\<lambda>(k, v). typed F v) d)"
| "typed F _ = True"

definition job_typed :: "'d double_ops \<Rightarrow> 'd job \<Rightarrow> bool" where
  "job_typed F job = (case job of Token_job t \<Rightarrow> True | Dictionary_job d t \<Rightarrow> typed F (DictionaryValue d) | List_job l t \<Rightarrow> typed F (ListValue l))"

definition result_typed :: "'d double_ops \<Rightarrow> 'd json option \<times> json_parser \<Rightarrow> bool" where
  "result_typed F r = (case fst r of None \<Rightarrow> True | Some v \<Rightarrow> typed F v)"

lemma result_typed_simps [simp]: "result_typed F (None, p)" "result_typed F (Some v, p) = typed F v"
  by (simp_all add: result_typed_def)

lemma StringToInt_int_ok: "StringToInt s = (True, i) \<Longrightarrow> int_ok i"
  using IteratorRangeToNumber_eq [OF exact_signed(1), of isspace s]
  by (auto simp: StringToInt_def int_traits_def int_ok_def INT_MIN_def INT_MAX_def Let_def split: prod.splits)

lemma number_typed: "number_value F s = Some v \<Longrightarrow> typed F v"
  by (auto simp: number_value_def CreateDoubleValue_def dest!: StringToInt_int_ok split: prod.splits if_splits)

lemma ConsumeNumber_typed: "ConsumeNumber F p = Some r \<Longrightarrow> result_typed F r"
  by (auto simp: ConsumeNumber_def Let_def result_typed_def dest: number_typed split: bind_splits prod.splits if_splits option.splits)

lemma ConsumeString_typed: "ConsumeString p = Some r \<Longrightarrow> result_typed F r"
  by (auto simp: ConsumeString_def split: bind_splits prod.splits if_splits option.splits)

lemma consume_literal_typed: "consume_literal w v p = Some r \<Longrightarrow> typed F v \<Longrightarrow> result_typed F r"
  by (auto simp: consume_literal_def split: bind_splits if_splits)

lemma ConsumeLiteral_typed: "ConsumeLiteral p = Some r \<Longrightarrow> result_typed F r"
  by (auto simp: ConsumeLiteral_def dest: consume_literal_typed [where F = F] split: bind_splits if_splits)

lemma typed_set:
  assumes "typed F (DictionaryValue d)" and "typed F v"
  shows "typed F (DictionaryValue (SetWithoutPathExpansion k v d))"
proof -
  have "list_all (\<lambda>(k, v). typed F v) (map_set k v d)"
    using assms by (induction k v d rule: map_set.induct) (auto simp: keys_ok_def)
  then show ?thesis using assms(1) keys_ok_set [of d k v] by (simp add: SetWithoutPathExpansion_def)
qed

definition run_typed :: "'d double_ops \<Rightarrow> 'd runner \<Rightarrow> bool" where
  "run_typed F run \<longleftrightarrow> (\<forall>job p r. run job p = Some r \<longrightarrow> job_typed F job \<longrightarrow> result_typed F r)"

lemma run_typedD: "run_typed F run \<Longrightarrow> run job p = Some (r, q) \<Longrightarrow> job_typed F job \<Longrightarrow> result_typed F (r, q)"
  unfolding run_typed_def by blast

lemma run_token_typed: "run_typed F run \<Longrightarrow> run (Token_job t) p = Some (Some v, q) \<Longrightarrow> typed F v"
  using run_typedD [of F run "Token_job t" p "Some v" q] by (simp add: job_typed_def)

lemma consume_children_typed:
  assumes "run_typed F run" and "\<And>t. job_typed F (m t)" and "consume_children run c m p = Some r"
  shows "result_typed F r"
proof -
  have "run (m t) q = Some (Some v, q') \<Longrightarrow> typed F v" for t q v q'
    using run_typedD [OF assms(1) _ assms(2), of t q "Some v" q'] by simp
  then show ?thesis
    using assms(3) by (auto simp: consume_children_def Let_def result_typed_def split: bind_splits if_splits prod.splits option.splits)
qed

lemma list_round_typed:
  assumes "run_typed F run" and "typed F (ListValue l)" and "list_round run l t p = Some r"
  shows "result_typed F r"
proof -
  note 1 = run_token_typed [OF assms(1)]
  have 2: "run (List_job l' t) q = Some (v, q') \<Longrightarrow> typed F (ListValue l') \<Longrightarrow> result_typed F (v, q')" for l' t q v q'
    using run_typedD [OF assms(1), of "List_job l' t"] by (simp add: job_typed_def)
  show ?thesis
    using assms(2,3) by (cases r) (auto simp: list_round_def list_Append_def Let_def dest!: 1 dest: 2 split: bind_splits if_splits prod.splits option.splits)
qed

lemma dictionary_round_typed:
  assumes "run_typed F run" and "typed F (DictionaryValue d)" and "dictionary_round run d t p = Some r"
  shows "result_typed F r"
proof -
  note 1 = run_token_typed [OF assms(1)]
  have 2: "run (Dictionary_job (SetWithoutPathExpansion k v d) t) q = Some (w, q') \<Longrightarrow> typed F v \<Longrightarrow> result_typed F (w, q')" for k v t q w q'
    using run_typedD [OF assms(1), of "Dictionary_job (SetWithoutPathExpansion k v d) t"] typed_set [OF assms(2)] by (simp add: job_typed_def)
  show ?thesis
    using assms(2,3)
    by (cases r) (auto simp: dictionary_round_def Let_def simp del: typed.simps dest!: 1 dest: 2 split: bind_splits if_splits prod.splits option.splits)
qed

lemma run_with_typed:
  assumes "run_typed F run" and "run_with run F job p = Some r" and "job_typed F job"
  shows "result_typed F r"
proof (cases job)
  case (Token_job t)
  then have "ParseToken run F t p = Some r" using assms(2) by (simp add: run_with_def)
  then consider "consume_children run 123 (Dictionary_job []) p = Some r" | "consume_children run 91 (List_job []) p = Some r"
    | "ConsumeString p = Some r" | "ConsumeNumber F p = Some r" | "ConsumeLiteral p = Some r" | p' where "r = (None, p')"
    by (auto simp: ParseToken_def ConsumeDictionary_def ConsumeList_def split: if_splits)
  then show ?thesis
  proof cases
    case 1 show ?thesis by (rule consume_children_typed [OF assms(1) _ 1]) (simp add: job_typed_def keys_ok_def)
  next
    case 2 show ?thesis by (rule consume_children_typed [OF assms(1) _ 2]) (simp add: job_typed_def)
  qed (simp_all add: ConsumeString_typed ConsumeNumber_typed ConsumeLiteral_typed)
next
  case (Dictionary_job d t)
  then show ?thesis using assms by (intro dictionary_round_typed [of F run d t p]) (simp_all add: run_with_def job_typed_def)
next
  case (List_job l t)
  then show ?thesis using assms by (intro list_round_typed [of F run l t p]) (simp_all add: run_with_def job_typed_def)
qed

lemma run_job_typed: "run_job F job p = Some r \<Longrightarrow> job_typed F job \<Longrightarrow> result_typed F r"
proof -
  assume "run_job F job p = Some r"
  then have "job_typed F job \<longrightarrow> result_typed F r"
  proof (rule run_job.raw_induct [where P = "\<lambda>F job p r. job_typed F job \<longrightarrow> result_typed F r", rotated])
    fix f :: "'a double_ops \<Rightarrow> 'a job \<Rightarrow> json_parser \<Rightarrow> ('a json option \<times> json_parser) option" and F job p r
    assume "\<And>F job p r. f F job p = Some r \<Longrightarrow> job_typed F job \<longrightarrow> result_typed F r" "run_with (f F) F job p = Some r"
    then show "job_typed F job \<longrightarrow> result_typed F r" using run_with_typed [of F "f F"] by (auto simp: run_typed_def)
  qed
  then show "job_typed F job \<Longrightarrow> result_typed F r" by blast
qed

text \<open>(C16) Whatever is read is a well-formed value: integers are in the range of \<open>int\<close>, doubles are finite, the
  keys of every dictionary are distinct and in the order of the map, and there are no binary values.\<close>

theorem read_well_typed:
  assumes "JSONReader_Read F json options = Some (Some v)"
  shows "typed F v"
proof -
  obtain q where "Parse F json (mk_JSONParser options) = Some (Some v, q)" using assms by (auto simp: JSONReader_Read_def)
  then obtain root p t q' where r: "run_job F (Token_job t) p = Some (Some root, q')" and v: "v = DeepCopy F root \<and> GetType root = TYPE_STRING \<or> v = root"
    by (auto simp: Parse_def ParseNextToken_def split: bind_splits option.splits if_splits)
  have "typed F root" using run_job_typed [OF r] by (simp add: job_typed_def)
  moreover have "GetType root = TYPE_STRING \<Longrightarrow> DeepCopy F root = root" by (cases root) simp_all
  ultimately show ?thesis using v by auto
qed

lemma read_well_typed_witness:
  "typed whole_doubles (DictionaryValue [(lit ''A'', ListValue [IntegerValue 1, BooleanValue True])])"
proof (rule read_well_typed)
  show "JSONReader_Read whole_doubles ([123, 34] @ lit ''A'' @ [34] @ lit '':[1,true]'' @ [125]) 0 =
    Some (Some (DictionaryValue [(lit ''A'', ListValue [IntegerValue 1, BooleanValue True])]))" by code_simp
qed

end
