(* ===== verification/View_Tree.thy ===== *)
theory View_Tree
  imports Tree_Nodes Accelerators
begin

text \<open>
  The hierarchy of views (\<open>src/ui/views/view.cc\<close>) with what it keeps consistent: the links of the focus order, the
  accelerators of views in the focus manager (\<open>focus_manager.cc\<close>), the registrations for visible bounds, and the
  pointers to views that the widget, its root view and the view storage hold (\<open>root_view.cc\<close>, \<open>widget.cc\<close>,
  \<open>view_storage.cc\<close>). Views, widgets and focus managers are addresses in stores; an access to an address
  without an object is \<open>None\<close>, and so are an iterator past the end and a failed \<open>find\<close> before \<open>erase\<close>.

  What a subclass decides by overriding a method is a field of the view: whether it is the root view of a widget, its
  focus traversable, whether it belongs to the group traversal, and whether it is notified of changes to its visible
  bounds. Listeners and layout managers are told and do not call back. Layers and painting are left out.
\<close>

section \<open>State\<close>

record view =
  v_owned_by_client :: bool
  v_id :: int
  v_group :: int
  v_parent :: "nat option"
  v_children :: "nat list"
  v_visible :: bool
  v_enabled :: bool
  v_registered_for_visible_bounds :: bool
  v_descendants_to_notify :: "nat list option"
  v_needs_layout :: bool
  v_accelerators :: "accelerator list option"
  v_accelerator_registration_delayed :: bool
  v_accelerator_focus_manager :: "nat option"
  v_registered_accelerator_count :: nat
  v_next_focusable :: "nat option"
  v_previous_focusable :: "nat option"
  v_focusable :: bool
  v_accessibility_focusable :: bool
  v_root_of :: "nat option"
  v_IsGroupFocusTraversable :: bool
  v_focus_traversable :: "nat option"
  v_pane_focus_traversable :: "nat option"
  v_NeedsNotification :: bool

definition mk_View :: view where
  "mk_View =
     \<lparr>v_owned_by_client = False, v_id = 0, v_group = -1, v_parent = None, v_children = [], v_visible = True,
      v_enabled = True, v_registered_for_visible_bounds = False, v_descendants_to_notify = None, v_needs_layout = True,
      v_accelerators = None, v_accelerator_registration_delayed = False, v_accelerator_focus_manager = None,
      v_registered_accelerator_count = 0, v_next_focusable = None, v_previous_focusable = None, v_focusable = False,
      v_accessibility_focusable = False, v_root_of = None, v_IsGroupFocusTraversable = True,
      v_focus_traversable = None, v_pane_focus_traversable = None, v_NeedsNotification = False\<rparr>"

type_synonym view_store = "nat \<rightharpoonup> view"

text \<open>A widget together with its root view's pointers to the views that handle input.\<close>

record widget =
  wd_top_level :: "nat option"
  wd_focus_manager :: "nat option"
  wd_root_view :: nat
  wd_focus_traversable :: nat
  wd_dragged_view :: "nat option"
  rv_mouse_pressed_handler :: "nat option"
  rv_explicit_mouse_handler :: bool
  rv_mouse_move_handler :: "nat option"
  rv_touch_pressed_handler :: "nat option"
  rv_gesture_handler :: "nat option"

datatype FocusChangeReason = kReasonFocusTraversal | kReasonFocusRestore | kReasonDirectFocusChange

datatype focus_notification = OnWillChangeFocus "nat option" "nat option" | OnDidChangeFocus "nat option" "nat option"

record focus_manager =
  fm_widget :: nat
  fm_focused_view :: "nat option"
  fm_accelerator_manager :: "nat accelerator_manager"
  fm_stored_view_id :: int
  fm_focus_change_reason :: FocusChangeReason
  fm_should_handle_menu_key_release :: bool
  fm_notified :: "focus_notification list"

record view_storage =
  vs_next_id :: int
  vs_id_to_view :: "int \<rightharpoonup> nat"
  vs_view_to_ids :: "nat \<rightharpoonup> int list"

text \<open>A \<open>FocusTraversable\<close> with the fields of its \<open>FocusSearch\<close>.\<close>

record focus_traversable =
  fs_root :: nat
  fs_cycle :: bool
  fs_accessibility_mode :: bool
  ft_parent :: "nat option"
  ft_parent_view :: "nat option"

record view_world =
  vw_views :: view_store
  vw_traversables :: "nat \<rightharpoonup> focus_traversable"
  vw_widgets :: "nat \<rightharpoonup> widget"
  vw_managers :: "nat \<rightharpoonup> focus_manager"
  vw_storage :: view_storage

definition upd_view :: "nat \<Rightarrow> (view \<Rightarrow> view) \<Rightarrow> view_world \<Rightarrow> view_world" where
  "upd_view a f W = W\<lparr>vw_views := (vw_views W)(a := map_option f (vw_views W a))\<rparr>"

definition upd_widget :: "nat \<Rightarrow> (widget \<Rightarrow> widget) \<Rightarrow> view_world \<Rightarrow> view_world" where
  "upd_widget a f W = W\<lparr>vw_widgets := (vw_widgets W)(a := map_option f (vw_widgets W a))\<rparr>"

definition upd_manager :: "nat \<Rightarrow> (focus_manager \<Rightarrow> focus_manager) \<Rightarrow> view_world \<Rightarrow> view_world" where
  "upd_manager a f W = W\<lparr>vw_managers := (vw_managers W)(a := map_option f (vw_managers W a))\<rparr>"

section \<open>Walking up\<close>

partial_function (option) GetWidget :: "view_store \<Rightarrow> nat \<Rightarrow> nat option option" where
  "GetWidget s a = Option.bind (s a) (\<lambda>v.
     case v_root_of v of
       Some w \<Rightarrow> Some (Some w)
     | None \<Rightarrow> (case v_parent v of None \<Rightarrow> Some None | Some p \<Rightarrow> GetWidget s p))"

partial_function (option) IsDrawn :: "view_store \<Rightarrow> nat \<Rightarrow> bool option" where
  "IsDrawn s a = Option.bind (s a) (\<lambda>v.
     if v_root_of v \<noteq> None then Some (v_visible v)
     else case v_parent v of Some p \<Rightarrow> (if v_visible v then IsDrawn s p else Some False) | None \<Rightarrow> Some False)"

text \<open>\<open>Contains(view)\<close> walks from the view up to this one.\<close>

partial_function (option) view_Contains :: "view_store \<Rightarrow> nat \<Rightarrow> nat option \<Rightarrow> bool option" where
  "view_Contains s this view =
     (case view of
        None \<Rightarrow> Some False
      | Some v \<Rightarrow> if v = this then Some True else Option.bind (s v) (\<lambda>u. view_Contains s this (v_parent u)))"

definition widget_GetFocusManager :: "view_world \<Rightarrow> nat \<Rightarrow> nat option option" where
  "widget_GetFocusManager W w = do {
     wd \<leftarrow> vw_widgets W w;
     case wd_top_level wd of
       None \<Rightarrow> Some None
     | Some t \<Rightarrow> map_option wd_focus_manager (vw_widgets W t)
   }"

definition GetFocusManager :: "view_world \<Rightarrow> nat \<Rightarrow> nat option option" where
  "GetFocusManager W a = do {
     widget \<leftarrow> GetWidget (vw_views W) a;
     case widget of None \<Rightarrow> Some None | Some w \<Rightarrow> widget_GetFocusManager W w
   }"

definition view_GetIndexOf :: "view_store \<Rightarrow> nat \<Rightarrow> nat \<Rightarrow> int option" where
  "view_GetIndexOf s this view = map_option (\<lambda>v. find_index view (v_children v) 0) (s this)"

definition IsFocusable :: "view_store \<Rightarrow> nat \<Rightarrow> bool option" where
  "IsFocusable s a = do { v \<leftarrow> s a; if v_focusable v \<and> v_enabled v then IsDrawn s a else Some False }"

definition IsAccessibilityFocusable :: "view_store \<Rightarrow> nat \<Rightarrow> bool option" where
  "IsAccessibilityFocusable s a = do {
     v \<leftarrow> s a;
     if (v_focusable v \<or> v_accessibility_focusable v) \<and> v_enabled v then IsDrawn s a else Some False
   }"

section \<open>Groups\<close>

partial_function (option) views_in_group :: "view_store \<Rightarrow> int \<Rightarrow> nat list \<Rightarrow> nat list option" where
  "views_in_group s g as =
     (case as of
        [] \<Rightarrow> Some []
      | a # as' \<Rightarrow> Option.bind (s a) (\<lambda>v.
          Option.bind (views_in_group s g (v_children v)) (\<lambda>below.
          Option.bind (views_in_group s g as') (\<lambda>rest.
          Some ((if v_group v = g then [a] else []) @ below @ rest)))))"

definition GetViewsInGroup :: "view_store \<Rightarrow> nat \<Rightarrow> int \<Rightarrow> nat list option" where
  "GetViewsInGroup s this g = views_in_group s g [this]"

definition GetSelectedViewForGroup :: "view_world \<Rightarrow> nat \<Rightarrow> int \<Rightarrow> nat option option" where
  "GetSelectedViewForGroup W a g = do {
     widget \<leftarrow> GetWidget (vw_views W) a;
     w \<leftarrow> widget;
     wd \<leftarrow> vw_widgets W w;
     views \<leftarrow> GetViewsInGroup (vw_views W) (wd_root_view wd) g;
     Some (case views of [] \<Rightarrow> None | v # _ \<Rightarrow> Some v)
   }"

partial_function (option) view_by_id :: "view_store \<Rightarrow> int \<Rightarrow> nat list \<Rightarrow> nat option option" where
  "view_by_id s i as =
     (case as of
        [] \<Rightarrow> Some None
      | a # as' \<Rightarrow> Option.bind (s a) (\<lambda>v.
          if i = v_id v then Some (Some a)
          else Option.bind (view_by_id s i (v_children v)) (\<lambda>found.
               case found of Some b \<Rightarrow> Some (Some b) | None \<Rightarrow> view_by_id s i as')))"

definition GetViewByID :: "view_store \<Rightarrow> nat \<Rightarrow> int \<Rightarrow> nat option option" where
  "GetViewByID s this i = view_by_id s i [this]"

section \<open>View storage\<close>

definition CreateStorageID :: "view_storage \<Rightarrow> int \<times> view_storage" where
  "CreateStorageID S = (vs_next_id S, S\<lparr>vs_next_id := vs_next_id S + 1\<rparr>)"

definition EraseView :: "int \<Rightarrow> bool \<Rightarrow> view_storage \<Rightarrow> view_storage option" where
  "EraseView storage_id remove_all_ids S =
     (case vs_id_to_view S storage_id of
        None \<Rightarrow> Some S
      | Some view \<Rightarrow> do {
          ids \<leftarrow> vs_view_to_ids S view;
          let erased = (vs_id_to_view S)(storage_id := None);
          (ids', id_to_view) \<leftarrow>
            (if remove_all_ids then Some ([], erased |` (- set ids))
             else if storage_id \<in> set ids then Some (remove1 storage_id ids, erased) else None);
          Some (S\<lparr>vs_id_to_view := id_to_view,
                  vs_view_to_ids := (vs_view_to_ids S)(view := if ids' = [] then None else Some ids')\<rparr>)
        })"

definition RemoveView :: "int \<Rightarrow> view_storage \<Rightarrow> view_storage option" where
  "RemoveView storage_id S = EraseView storage_id False S"

definition StoreView :: "int \<Rightarrow> nat \<Rightarrow> view_storage \<Rightarrow> view_storage option" where
  "StoreView storage_id view S = do {
     S1 \<leftarrow> (if vs_id_to_view S storage_id \<noteq> None then RemoveView storage_id S else Some S);
     let ids = (case vs_view_to_ids S1 view of None \<Rightarrow> [] | Some ids \<Rightarrow> ids);
     Some (S1\<lparr>vs_id_to_view := (vs_id_to_view S1)(storage_id \<mapsto> view),
              vs_view_to_ids := (vs_view_to_ids S1)(view \<mapsto> ids @ [storage_id])\<rparr>)
   }"

definition RetrieveView :: "int \<Rightarrow> view_storage \<Rightarrow> nat option" where
  "RetrieveView storage_id S = vs_id_to_view S storage_id"

definition storage_ViewRemoved :: "nat \<Rightarrow> view_storage \<Rightarrow> view_storage option" where
  "storage_ViewRemoved removed S =
     (case vs_view_to_ids S removed of
        None \<Rightarrow> Some S
      | Some ids \<Rightarrow> (case ids of [] \<Rightarrow> None | i # _ \<Rightarrow> EraseView i True S))"

section \<open>The focused view\<close>

text \<open>\<open>View::Focus\<close> notifies the accessibility services through the widget, which must not be null.\<close>

definition view_Focus :: "nat \<Rightarrow> view_world \<Rightarrow> view_world option" where
  "view_Focus a W = do { widget \<leftarrow> GetWidget (vw_views W) a; _ \<leftarrow> GetFocusManager W a; w \<leftarrow> widget; Some W }"

definition view_Blur :: "nat \<Rightarrow> view_world \<Rightarrow> view_world option" where
  "view_Blur a W = do { _ \<leftarrow> vw_views W a; Some W }"

definition SetFocusedViewWithReason :: "nat \<Rightarrow> nat option \<Rightarrow> FocusChangeReason \<Rightarrow> view_world \<Rightarrow> view_world option" where
  "SetFocusedViewWithReason fm view reason W = do {
     m \<leftarrow> vw_managers W fm;
     let old = fm_focused_view m;
     if old = view then Some W
     else do {
       let W = upd_manager fm (\<lambda>m. m\<lparr>fm_focus_change_reason := reason, fm_focused_view := view,
                                       fm_notified := fm_notified m @ [OnWillChangeFocus old view]\<rparr>) W;
       W \<leftarrow> (case old of None \<Rightarrow> Some W | Some a \<Rightarrow> view_Blur a W);
       W \<leftarrow> (case view of None \<Rightarrow> Some W | Some a \<Rightarrow> view_Focus a W);
       Some (upd_manager fm (\<lambda>m. m\<lparr>fm_notified := fm_notified m @ [OnDidChangeFocus old view]\<rparr>) W)
     }
   }"

definition SetFocusedView :: "nat \<Rightarrow> nat option \<Rightarrow> view_world \<Rightarrow> view_world option" where
  "SetFocusedView fm view W = SetFocusedViewWithReason fm view kReasonDirectFocusChange W"

definition fm_ViewRemoved :: "nat \<Rightarrow> nat \<Rightarrow> view_world \<Rightarrow> view_world option" where
  "fm_ViewRemoved fm removed W = do {
     m \<leftarrow> vw_managers W fm;
     case fm_focused_view m of
       None \<Rightarrow> Some W
     | Some focused \<Rightarrow> do {
         inside \<leftarrow> view_Contains (vw_views W) removed (Some focused);
         if inside then SetFocusedView fm None W else Some W
       }
   }"

section \<open>Accelerators of a view\<close>

fun register_all :: "nat \<Rightarrow> accelerator list \<Rightarrow> nat accelerator_manager \<Rightarrow> nat accelerator_manager option" where
  "register_all this [] m = Some m"
| "register_all this (a # as) m = do { m \<leftarrow> am_Register a kNormalPriority this m; register_all this as m }"

definition RegisterPendingAccelerators :: "nat \<Rightarrow> view_world \<Rightarrow> view_world option" where
  "RegisterPendingAccelerators this W = do {
     v \<leftarrow> vw_views W this;
     case v_accelerators v of
       None \<Rightarrow> Some W
     | Some accels \<Rightarrow>
         if v_registered_accelerator_count v = length accels then Some W
         else do {
           widget \<leftarrow> GetWidget (vw_views W) this;
           if widget = None then Some W
           else do {
             focus_manager \<leftarrow> GetFocusManager W this;
             let W = upd_view this (\<lambda>v. v\<lparr>v_accelerator_focus_manager := focus_manager\<rparr>) W;
             case focus_manager of
               None \<Rightarrow> Some W
             | Some fm \<Rightarrow> do {
                 m \<leftarrow> vw_managers W fm;
                 _ \<leftarrow> (if v_registered_accelerator_count v \<le> length accels then Some () else None);
                 am \<leftarrow> register_all this (drop (v_registered_accelerator_count v) accels) (fm_accelerator_manager m);
                 let W = upd_manager fm (\<lambda>m. m\<lparr>fm_accelerator_manager := am\<rparr>) W;
                 Some (upd_view this (\<lambda>v. v\<lparr>v_registered_accelerator_count := length accels\<rparr>) W)
               }
           }
         }
   }"

definition UnregisterAccelerators :: "bool \<Rightarrow> nat \<Rightarrow> view_world \<Rightarrow> view_world option" where
  "UnregisterAccelerators leave_data_intact this W = do {
     v \<leftarrow> vw_views W this;
     if v_accelerators v = None then Some W
     else do {
       widget \<leftarrow> GetWidget (vw_views W) this;
       if widget = None then Some W
       else do {
         W \<leftarrow> (case v_accelerator_focus_manager v of
                 None \<Rightarrow> Some W
               | Some fm \<Rightarrow> do {
                   m \<leftarrow> vw_managers W fm;
                   Some (upd_view this (\<lambda>v. v\<lparr>v_accelerator_focus_manager := None\<rparr>)
                          (upd_manager fm (\<lambda>m. m\<lparr>fm_accelerator_manager := am_UnregisterAll this (fm_accelerator_manager m)\<rparr>) W))
                 });
         Some (upd_view this (\<lambda>v. v\<lparr>v_accelerators := (if leave_data_intact then v_accelerators v else None),
                                    v_registered_accelerator_count := 0\<rparr>) W)
       }
     }
   }"

definition AddAccelerator :: "accelerator \<Rightarrow> nat \<Rightarrow> view_world \<Rightarrow> view_world option" where
  "AddAccelerator a this W = do {
     v \<leftarrow> vw_views W this;
     let accels = (case v_accelerators v of None \<Rightarrow> [] | Some as \<Rightarrow> as);
     let accels = (if a \<in> set accels then accels else accels @ [a]);
     RegisterPendingAccelerators this (upd_view this (\<lambda>v. v\<lparr>v_accelerators := Some accels\<rparr>) W)
   }"

definition RemoveAccelerator :: "accelerator \<Rightarrow> nat \<Rightarrow> view_world \<Rightarrow> view_world option" where
  "RemoveAccelerator a this W = do {
     v \<leftarrow> vw_views W this;
     case v_accelerators v of
       None \<Rightarrow> Some W
     | Some accels \<Rightarrow>
         if a \<notin> set accels then Some W
         else do {
           let index = find_index a accels 0;
           let W = upd_view this (\<lambda>v. v\<lparr>v_accelerators := Some (remove1 a accels)\<rparr>) W;
           if index \<ge> int (v_registered_accelerator_count v) then Some W
           else do {
             let W = upd_view this (\<lambda>v. v\<lparr>v_registered_accelerator_count := v_registered_accelerator_count v - 1\<rparr>) W;
             widget \<leftarrow> GetWidget (vw_views W) this;
             case (widget, v_accelerator_focus_manager v) of
               (Some w, Some fm) \<Rightarrow> do {
                 m \<leftarrow> vw_managers W fm;
                 Some (upd_manager fm (\<lambda>m. m\<lparr>fm_accelerator_manager := am_Unregister a this (fm_accelerator_manager m)\<rparr>) W)
               }
             | _ \<Rightarrow> Some W
           }
         }
   }"

definition ResetAccelerators :: "nat \<Rightarrow> view_world \<Rightarrow> view_world option" where
  "ResetAccelerators this W = UnregisterAccelerators False this W"

section \<open>Notifications of the hierarchy\<close>

definition widget_ViewHierarchyChanged :: "bool \<Rightarrow> nat \<Rightarrow> nat \<Rightarrow> view_world \<Rightarrow> view_world option" where
  "widget_ViewHierarchyChanged is_add child w W = do {
     wd \<leftarrow> vw_widgets W w;
     if is_add then Some W
     else do {
       let W = upd_widget w (\<lambda>wd. if wd_dragged_view wd = Some child then wd\<lparr>wd_dragged_view := None\<rparr> else wd) W;
       focus_manager \<leftarrow> widget_GetFocusManager W w;
       W \<leftarrow> (case focus_manager of None \<Rightarrow> Some W | Some fm \<Rightarrow> fm_ViewRemoved fm child W);
       S \<leftarrow> storage_ViewRemoved child (vw_storage W);
       Some (W\<lparr>vw_storage := S\<rparr>)
     }
   }"

definition unless :: "nat \<Rightarrow> nat option \<Rightarrow> nat option" where
  "unless child p = (if p = Some child then None else p)"

definition root_ViewHierarchyChanged :: "bool \<Rightarrow> nat \<Rightarrow> nat \<Rightarrow> view_world \<Rightarrow> view_world option" where
  "root_ViewHierarchyChanged is_add child w W = do {
     W \<leftarrow> widget_ViewHierarchyChanged is_add child w W;
     Some (if is_add then W
           else upd_widget w (\<lambda>wd. wd\<lparr>rv_mouse_pressed_handler :=
                                        (if rv_explicit_mouse_handler wd then rv_mouse_pressed_handler wd
                                         else unless child (rv_mouse_pressed_handler wd)),
                                      rv_mouse_move_handler := unless child (rv_mouse_move_handler wd),
                                      rv_touch_pressed_handler := unless child (rv_touch_pressed_handler wd),
                                      rv_gesture_handler := unless child (rv_gesture_handler wd)\<rparr>) W)
   }"

definition ViewHierarchyChangedImpl :: "bool \<Rightarrow> bool \<Rightarrow> nat \<Rightarrow> nat \<Rightarrow> nat \<Rightarrow> view_world \<Rightarrow> view_world option" where
  "ViewHierarchyChangedImpl register_accelerators is_add parent child this W = do {
     v \<leftarrow> vw_views W this;
     W \<leftarrow> (if register_accelerators
           then if is_add
                then do {
                  focus_manager \<leftarrow> GetFocusManager W this;
                  if focus_manager \<noteq> None then RegisterPendingAccelerators this W
                  else Some (upd_view this (\<lambda>v. v\<lparr>v_accelerator_registration_delayed := True\<rparr>) W)
                }
                else if child = this then UnregisterAccelerators True this W else Some W
           else Some W);
     W \<leftarrow> (case v_root_of v of None \<Rightarrow> Some W | Some w \<Rightarrow> root_ViewHierarchyChanged is_add child w W);
     _ \<leftarrow> vw_views W parent;
     Some (upd_view parent (\<lambda>p. p\<lparr>v_needs_layout := True\<rparr>) W)
   }"

text \<open>The loop \<open>for (View* v = this; v; v = v->parent_)\<close> over this view and its ancestors.\<close>

partial_function (option) notify_ancestors :: "bool \<Rightarrow> bool \<Rightarrow> nat \<Rightarrow> nat \<Rightarrow> nat option \<Rightarrow> view_world \<Rightarrow> view_world option" where
  "notify_ancestors register is_add parent child v W =
     (case v of
        None \<Rightarrow> Some W
      | Some a \<Rightarrow> Option.bind (ViewHierarchyChangedImpl register is_add parent child a W) (\<lambda>W.
          Option.bind (vw_views W a) (\<lambda>u. notify_ancestors register is_add parent child (v_parent u) W)))"

text \<open>The recursions over the children take the views that are still to be visited.\<close>

partial_function (option) propagate_remove :: "nat \<Rightarrow> nat list \<Rightarrow> view_world \<Rightarrow> view_world option" where
  "propagate_remove parent as W =
     (case as of
        [] \<Rightarrow> Some W
      | a # as' \<Rightarrow> Option.bind (vw_views W a) (\<lambda>v.
          Option.bind (propagate_remove parent (v_children v) W) (\<lambda>W.
          Option.bind (notify_ancestors True False parent a (Some a) W) (propagate_remove parent as'))))"

definition PropagateRemoveNotifications :: "nat \<Rightarrow> nat \<Rightarrow> view_world \<Rightarrow> view_world option" where
  "PropagateRemoveNotifications parent this W = propagate_remove parent [this] W"

partial_function (option) propagate_add :: "nat \<Rightarrow> nat \<Rightarrow> nat list \<Rightarrow> view_world \<Rightarrow> view_world option" where
  "propagate_add parent child as W =
     (case as of
        [] \<Rightarrow> Some W
      | a # as' \<Rightarrow> Option.bind (vw_views W a) (\<lambda>v.
          Option.bind (propagate_add parent child (v_children v) W) (\<lambda>W.
          Option.bind (ViewHierarchyChangedImpl True True parent child a W) (propagate_add parent child as'))))"

definition PropagateAddNotifications :: "nat \<Rightarrow> nat \<Rightarrow> nat \<Rightarrow> view_world \<Rightarrow> view_world option" where
  "PropagateAddNotifications parent child this W = propagate_add parent child [this] W"

section \<open>Visible bounds\<close>

definition AddDescendantToNotify :: "nat \<Rightarrow> nat \<Rightarrow> view_world \<Rightarrow> view_world option" where
  "AddDescendantToNotify view this W = do {
     _ \<leftarrow> vw_views W this;
     Some (upd_view this (\<lambda>v. v\<lparr>v_descendants_to_notify :=
       Some ((case v_descendants_to_notify v of None \<Rightarrow> [] | Some ds \<Rightarrow> ds) @ [view])\<rparr>) W)
   }"

definition RemoveDescendantToNotify :: "nat \<Rightarrow> nat \<Rightarrow> view_world \<Rightarrow> view_world option" where
  "RemoveDescendantToNotify view this W = do {
     v \<leftarrow> vw_views W this;
     ds \<leftarrow> v_descendants_to_notify v;
     if view \<notin> set ds then None
     else let ds = remove1 view ds
          in Some (upd_view this (\<lambda>v. v\<lparr>v_descendants_to_notify := (if ds = [] then None else Some ds)\<rparr>) W)
   }"

partial_function (option) for_ancestors ::
  "(nat \<Rightarrow> view_world \<Rightarrow> view_world option) \<Rightarrow> nat option \<Rightarrow> view_world \<Rightarrow> view_world option" where
  "for_ancestors f ancestor W =
     (case ancestor of
        None \<Rightarrow> Some W
      | Some a \<Rightarrow> Option.bind (f a W) (\<lambda>W. Option.bind (vw_views W a) (\<lambda>v. for_ancestors f (v_parent v) W)))"

definition RegisterForVisibleBoundsNotification :: "nat \<Rightarrow> view_world \<Rightarrow> view_world option" where
  "RegisterForVisibleBoundsNotification this W = do {
     v \<leftarrow> vw_views W this;
     if v_registered_for_visible_bounds v then Some W
     else for_ancestors (AddDescendantToNotify this) (v_parent v)
            (upd_view this (\<lambda>v. v\<lparr>v_registered_for_visible_bounds := True\<rparr>) W)
   }"

definition UnregisterForVisibleBoundsNotification :: "nat \<Rightarrow> view_world \<Rightarrow> view_world option" where
  "UnregisterForVisibleBoundsNotification this W = do {
     v \<leftarrow> vw_views W this;
     if \<not> v_registered_for_visible_bounds v then Some W
     else for_ancestors (RemoveDescendantToNotify this) (v_parent v)
            (upd_view this (\<lambda>v. v\<lparr>v_registered_for_visible_bounds := False\<rparr>) W)
   }"

text \<open>The two static functions that do this for every view below one that asks to be notified.\<close>

partial_function (option) for_notified ::
  "(nat \<Rightarrow> view_world \<Rightarrow> view_world option) \<Rightarrow> nat list \<Rightarrow> view_world \<Rightarrow> view_world option" where
  "for_notified f as W =
     (case as of
        [] \<Rightarrow> Some W
      | a # as' \<Rightarrow> Option.bind (vw_views W a) (\<lambda>v.
          Option.bind (if v_NeedsNotification v then f a W else Some W) (\<lambda>W.
          Option.bind (for_notified f (v_children v) W) (for_notified f as'))))"

definition RegisterChildrenForVisibleBoundsNotification :: "nat \<Rightarrow> view_world \<Rightarrow> view_world option" where
  "RegisterChildrenForVisibleBoundsNotification view W = for_notified RegisterForVisibleBoundsNotification [view] W"

definition UnregisterChildrenForVisibleBoundsNotification :: "nat \<Rightarrow> view_world \<Rightarrow> view_world option" where
  "UnregisterChildrenForVisibleBoundsNotification view W = for_notified UnregisterForVisibleBoundsNotification [view] W"

section \<open>The focus order of siblings\<close>

definition set_next :: "nat option \<Rightarrow> nat option \<Rightarrow> view_world \<Rightarrow> view_world option" where
  "set_next p n W =
     (case p of None \<Rightarrow> Some W | Some a \<Rightarrow> do { _ \<leftarrow> vw_views W a; Some (upd_view a (\<lambda>v. v\<lparr>v_next_focusable := n\<rparr>) W) })"

definition set_previous :: "nat option \<Rightarrow> nat option \<Rightarrow> view_world \<Rightarrow> view_world option" where
  "set_previous n p W =
     (case n of None \<Rightarrow> Some W | Some a \<Rightarrow> do { _ \<leftarrow> vw_views W a; Some (upd_view a (\<lambda>v. v\<lparr>v_previous_focusable := p\<rparr>) W) })"

text \<open>The first child without a next view; \<open>None\<close> for a pointer that is not a view.\<close>

fun first_without_next :: "view_store \<Rightarrow> nat list \<Rightarrow> nat option option" where
  "first_without_next s [] = Some None"
| "first_without_next s (a # as) = do {
     v \<leftarrow> s a;
     if v_next_focusable v = None then Some (Some a) else first_without_next s as
   }"

definition InitFocusSiblings :: "nat \<Rightarrow> nat \<Rightarrow> nat \<Rightarrow> view_world \<Rightarrow> view_world option" where
  "InitFocusSiblings this v index W = do {
     n \<leftarrow> vw_views W this;
     _ \<leftarrow> vw_views W v;
     let children = v_children n;
     let link = (\<lambda>prev next. upd_view v (\<lambda>v. v\<lparr>v_next_focusable := next, v_previous_focusable := prev\<rparr>));
     if children = [] then Some (link None None W)
     else if index = length children
     then do {
       last_focusable_view \<leftarrow> first_without_next (vw_views W) children;
       case last_focusable_view of
         None \<Rightarrow> do {
           let prev = children ! (index - 1);
           u \<leftarrow> vw_views W prev;
           next \<leftarrow> v_next_focusable u;
           W \<leftarrow> set_previous (Some next) (Some v) (link (Some prev) (Some next) W);
           set_next (Some prev) (Some v) W
         }
       | Some l \<Rightarrow> do { W \<leftarrow> set_next (Some l) (Some v) W; Some (link (Some l) None W) }
     }
     else if index < length children
     then do {
       let next = children ! index;
       u \<leftarrow> vw_views W next;
       let prev = v_previous_focusable u;
       W \<leftarrow> set_next prev (Some v) (link prev (Some next) W);
       set_previous (Some next) (Some v) W
     }
     else None
   }"

definition SetNextFocusableView :: "nat \<Rightarrow> nat option \<Rightarrow> view_world \<Rightarrow> view_world option" where
  "SetNextFocusableView this view W = do { W \<leftarrow> set_previous view (Some this) W; set_next (Some this) view W }"

text \<open>Taking a view out of the focus order: its neighbours are linked to each other.\<close>

definition unlink_view :: "nat \<Rightarrow> view_world \<Rightarrow> view_world option" where
  "unlink_view view W = do {
     v \<leftarrow> vw_views W view;
     W \<leftarrow> set_next (v_previous_focusable v) (v_next_focusable v) W;
     set_previous (v_next_focusable v) (v_previous_focusable v) W
   }"

section \<open>Tree operations\<close>

text \<open>The destructor of a view whose parent is null already, and of the children that views own.\<close>

partial_function (option) destroy_children :: "nat list \<Rightarrow> view_world \<Rightarrow> view_world option" where
  "destroy_children as W =
     (case as of
        [] \<Rightarrow> Some W
      | a # as' \<Rightarrow> Option.bind (vw_views W a) (\<lambda>v.
          let W = upd_view a (\<lambda>v. v\<lparr>v_parent := None\<rparr>) W
          in if v_owned_by_client v then destroy_children as' W
             else Option.bind (destroy_children (v_children v) W) (\<lambda>W.
                  destroy_children as' (W\<lparr>vw_views := (vw_views W)(a := None)\<rparr>))))"

definition destroy_view :: "nat \<Rightarrow> view_world \<Rightarrow> view_world option" where
  "destroy_view a W = do {
     v \<leftarrow> vw_views W a;
     W \<leftarrow> destroy_children (v_children v) W;
     Some (W\<lparr>vw_views := (vw_views W)(a := None)\<rparr>)
   }"

definition DoRemoveChildView :: "nat \<Rightarrow> nat \<Rightarrow> bool \<Rightarrow> bool \<Rightarrow> view_world \<Rightarrow> view_world option" where
  "DoRemoveChildView this view update_focus_cycle delete_removed_view W = do {
     n \<leftarrow> vw_views W this;
     if view \<notin> set (v_children n) then Some W
     else do {
       v \<leftarrow> vw_views W view;
       W \<leftarrow> (if update_focus_cycle then unlink_view view W else Some W);
       widget \<leftarrow> GetWidget (vw_views W) this;
       W \<leftarrow> (if widget \<noteq> None then UnregisterChildrenForVisibleBoundsNotification view W else Some W);
       W \<leftarrow> PropagateRemoveNotifications this view W;
       let W = upd_view view (\<lambda>v. v\<lparr>v_parent := None\<rparr>) W;
       let W = upd_view this (\<lambda>n. n\<lparr>v_children := remove1 view (v_children n)\<rparr>) W;
       if delete_removed_view \<and> \<not> v_owned_by_client v then destroy_view view W else Some W
     }
   }"

definition RemoveChildView :: "nat \<Rightarrow> nat \<Rightarrow> view_world \<Rightarrow> view_world option" where
  "RemoveChildView this view W = DoRemoveChildView this view True False W"

partial_function (option) RemoveAllChildViews :: "nat \<Rightarrow> bool \<Rightarrow> view_world \<Rightarrow> view_world option" where
  "RemoveAllChildViews this delete_children W =
     Option.bind (vw_views W this) (\<lambda>n.
       case v_children n of
         [] \<Rightarrow> Some W
       | front # _ \<Rightarrow> Option.bind (DoRemoveChildView this front False delete_children W) (RemoveAllChildViews this delete_children))"

definition delete_view :: "nat \<Rightarrow> view_world \<Rightarrow> view_world option" where
  "delete_view a W = do {
     v \<leftarrow> vw_views W a;
     W \<leftarrow> (if v_root_of v \<noteq> None \<and> v_children v \<noteq> [] then RemoveAllChildViews a True W else Some W);
     W \<leftarrow> (case v_parent v of None \<Rightarrow> Some W | Some p \<Rightarrow> RemoveChildView p a W);
     destroy_view a W
   }"

definition ReorderChildView :: "nat \<Rightarrow> nat \<Rightarrow> int \<Rightarrow> view_world \<Rightarrow> view_world option" where
  "ReorderChildView this view index W = do {
     n \<leftarrow> vw_views W this;
     let child_count = int (length (v_children n));
     let index = (if index < 0 then child_count - 1 else index);
     if index \<ge> child_count then Some W
     else if index < 0 then None
     else if v_children n ! nat index = view then Some W
     else if view \<notin> set (v_children n) then None
     else do {
       let W = upd_view this (\<lambda>n. n\<lparr>v_children := remove1 view (v_children n)\<rparr>) W;
       W \<leftarrow> unlink_view view W;
       W \<leftarrow> InitFocusSiblings this view (nat index) W;
       Some (upd_view this (\<lambda>n. n\<lparr>v_children := list_insert_at (nat index) view (v_children n)\<rparr>) W)
     }
   }"

definition AddChildViewAt :: "nat \<Rightarrow> nat \<Rightarrow> int \<Rightarrow> view_world \<Rightarrow> view_world option" where
  "AddChildViewAt this view index W =
     (if view = this then None
      else do {
        v \<leftarrow> vw_views W view;
        if v_parent v = Some this then ReorderChildView this view index W
        else do {
          W \<leftarrow> (case v_parent v of None \<Rightarrow> Some W | Some parent \<Rightarrow> RemoveChildView parent view W);
          n \<leftarrow> vw_views W this;
          if index < 0 \<or> int (length (v_children n)) < index then None
          else do {
            W \<leftarrow> InitFocusSiblings this view (nat index) W;
            let W = upd_view view (\<lambda>v. v\<lparr>v_parent := Some this\<rparr>) W;
            let W = upd_view this (\<lambda>n. n\<lparr>v_children := list_insert_at (nat index) view (v_children n)\<rparr>) W;
            W \<leftarrow> notify_ancestors False True this view (Some this) W;
            W \<leftarrow> PropagateAddNotifications this view view W;
            widget \<leftarrow> GetWidget (vw_views W) this;
            if widget \<noteq> None then RegisterChildrenForVisibleBoundsNotification view W else Some W
          }
        }
      })"

definition AddChildView :: "nat \<Rightarrow> nat \<Rightarrow> view_world \<Rightarrow> view_world option" where
  "AddChildView this view W = do {
     v \<leftarrow> vw_views W view;
     if v_parent v = Some this then Some W
     else do { n \<leftarrow> vw_views W this; AddChildViewAt this view (int (length (v_children n))) W }
   }"

section \<open>Attributes\<close>

definition set_attribute :: "(view \<Rightarrow> view) \<Rightarrow> nat \<Rightarrow> view_world \<Rightarrow> view_world option" where
  "set_attribute f this W = do { _ \<leftarrow> vw_views W this; Some (upd_view this f W) }"

definition view_SetVisible :: "bool \<Rightarrow> nat \<Rightarrow> view_world \<Rightarrow> view_world option" where
  "view_SetVisible b this W = set_attribute (\<lambda>v. v\<lparr>v_visible := b\<rparr>) this W"

definition view_SetEnabled :: "bool \<Rightarrow> nat \<Rightarrow> view_world \<Rightarrow> view_world option" where
  "view_SetEnabled enabled this W = set_attribute (\<lambda>v. v\<lparr>v_enabled := enabled\<rparr>) this W"

definition set_focusable :: "bool \<Rightarrow> nat \<Rightarrow> view_world \<Rightarrow> view_world option" where
  "set_focusable focusable this W = set_attribute (\<lambda>v. v\<lparr>v_focusable := focusable\<rparr>) this W"

definition view_SetGroup :: "int \<Rightarrow> nat \<Rightarrow> view_world \<Rightarrow> view_world option" where
  "view_SetGroup gid this W = set_attribute (\<lambda>v. v\<lparr>v_group := gid\<rparr>) this W"

partial_function (option) InvalidateLayout :: "nat \<Rightarrow> view_world \<Rightarrow> view_world option" where
  "InvalidateLayout this W =
     Option.bind (vw_views W this) (\<lambda>v.
       let W = upd_view this (\<lambda>v. v\<lparr>v_needs_layout := True\<rparr>) W
       in case v_parent v of None \<Rightarrow> Some W | Some p \<Rightarrow> InvalidateLayout p W)"

definition RequestFocus :: "nat \<Rightarrow> view_world \<Rightarrow> view_world option" where
  "RequestFocus this W = do {
     focus_manager \<leftarrow> GetFocusManager W this;
     focusable \<leftarrow> IsFocusable (vw_views W) this;
     case focus_manager of
       None \<Rightarrow> Some W
     | Some fm \<Rightarrow> if focusable then SetFocusedView fm (Some this) W else Some W
   }"

definition HasFocus :: "nat \<Rightarrow> view_world \<Rightarrow> bool option" where
  "HasFocus this W = do {
     focus_manager \<leftarrow> GetFocusManager W this;
     case focus_manager of
       None \<Rightarrow> Some False
     | Some fm \<Rightarrow> map_option (\<lambda>m. fm_focused_view m = Some this) (vw_managers W fm)
   }"

end
