(* ===== verification/Focus_Search.thy ===== *)
theory Focus_Search
  imports View_Tree
begin

text \<open>
  The search for the view that gets the focus next (\<open>src/ui/views/focus/focus_search.cc\<close>). The result of a search
  is the view that was found and the focus traversable that has to be searched instead, with the view it belongs to.
  The searches follow the links of the focus order, which need not end: they are partial functions.
\<close>

section \<open>Search\<close>

datatype search_direction = UP | DOWN

type_synonym search_result = "nat option \<times> (nat \<times> nat) option"

definition fs_IsFocusable :: "bool \<Rightarrow> view_world \<Rightarrow> nat option \<Rightarrow> bool option" where
  "fs_IsFocusable accessibility_mode W v =
     (case v of
        None \<Rightarrow> Some False
      | Some a \<Rightarrow> if accessibility_mode then IsAccessibilityFocusable (vw_views W) a else IsFocusable (vw_views W) a)"

definition IsViewFocusableCandidate :: "bool \<Rightarrow> view_world \<Rightarrow> nat \<Rightarrow> int \<Rightarrow> bool option" where
  "IsViewFocusableCandidate mode W a skip_group_id = do {
     focusable \<leftarrow> fs_IsFocusable mode W (Some a);
     v \<leftarrow> vw_views W a;
     Some (focusable \<and> (v_IsGroupFocusTraversable v \<or> skip_group_id = -1 \<or> v_group v \<noteq> skip_group_id))
   }"

definition FindSelectedViewForGroup :: "view_world \<Rightarrow> nat \<Rightarrow> nat option" where
  "FindSelectedViewForGroup W a = do {
     v \<leftarrow> vw_views W a;
     if v_IsGroupFocusTraversable v \<or> v_group v = -1 then Some a
     else do {
       selected \<leftarrow> GetSelectedViewForGroup W a (v_group v);
       Some (case selected of None \<Rightarrow> a | Some s \<Rightarrow> s)
     }
   }"

definition fs_GetParent :: "view_world \<Rightarrow> nat \<Rightarrow> nat \<Rightarrow> nat option option" where
  "fs_GetParent W root a = do {
     inside \<leftarrow> view_Contains (vw_views W) root (Some a);
     if inside then map_option v_parent (vw_views W a) else Some None
   }"

text \<open>The check of a view: \<open>Some\<close> of the view that is selected for it if that may take the focus.\<close>

definition check_candidate :: "bool \<Rightarrow> view_world \<Rightarrow> int \<Rightarrow> nat \<Rightarrow> nat option option" where
  "check_candidate mode W skip_group_id a = do {
     candidate \<leftarrow> IsViewFocusableCandidate mode W a skip_group_id;
     if candidate
     then do {
       v \<leftarrow> FindSelectedViewForGroup W a;
       focusable \<leftarrow> fs_IsFocusable mode W (Some v);
       Some (if focusable then Some v else None)
     }
     else Some None
   }"

definition check_traversable :: "view_world \<Rightarrow> nat \<Rightarrow> (nat \<times> nat) option option" where
  "check_traversable W a = map_option (\<lambda>v. map_option (\<lambda>t. (t, a)) (v_focus_traversable v)) (vw_views W a)"

text \<open>The loop that goes up from a view until an ancestor has a next sibling.\<close>

partial_function (option) next_of_ancestors :: "view_world \<Rightarrow> nat \<Rightarrow> nat option \<Rightarrow> nat option option" where
  "next_of_ancestors W root parent =
     (case parent of
        None \<Rightarrow> Some None
      | Some p \<Rightarrow> Option.bind (vw_views W p) (\<lambda>v.
          case v_next_focusable v of
            Some sibling \<Rightarrow> Some (Some sibling)
          | None \<Rightarrow> Option.bind (fs_GetParent W root p) (next_of_ancestors W root)))"

partial_function (option) FindNextFocusableViewImpl ::
  "bool \<Rightarrow> view_world \<Rightarrow> nat \<Rightarrow> int \<Rightarrow> nat \<Rightarrow> bool \<Rightarrow> bool \<Rightarrow> bool \<Rightarrow> search_result option" where
  "FindNextFocusableViewImpl mode W root g a check_starting_view can_go_up can_go_down =
     Option.bind (vw_views W a) (\<lambda>v.
     Option.bind (if check_starting_view then check_candidate mode W g a else Some None) (\<lambda>found.
     case found of
       Some f \<Rightarrow> Some (Some f, None)
     | None \<Rightarrow>
     Option.bind (if check_starting_view then check_traversable W a else Some None) (\<lambda>traversable.
     case traversable of
       Some t \<Rightarrow> Some (None, Some t)
     | None \<Rightarrow>
     Option.bind (if can_go_down \<and> v_children v \<noteq> []
                  then FindNextFocusableViewImpl mode W root g (hd (v_children v)) True False True
                  else Some (None, None)) (\<lambda>below.
     if below \<noteq> (None, None) then Some below
     else
     Option.bind (case v_next_focusable v of
                    Some sibling \<Rightarrow> FindNextFocusableViewImpl mode W root g sibling True False True
                  | None \<Rightarrow> Some (None, None)) (\<lambda>right.
     if right \<noteq> (None, None) then Some right
     else if \<not> can_go_up then Some (None, None)
     else
     Option.bind (fs_GetParent W root a) (\<lambda>parent.
     Option.bind (next_of_ancestors W root parent) (\<lambda>sibling.
     case sibling of
       Some s \<Rightarrow> FindNextFocusableViewImpl mode W root g s True True True
     | None \<Rightarrow> Some (None, None))))))))"

partial_function (option) FindPreviousFocusableViewImpl ::
  "bool \<Rightarrow> view_world \<Rightarrow> nat \<Rightarrow> int \<Rightarrow> nat \<Rightarrow> bool \<Rightarrow> bool \<Rightarrow> bool \<Rightarrow> search_result option" where
  "FindPreviousFocusableViewImpl mode W root g a check_starting_view can_go_up can_go_down =
     Option.bind (vw_views W a) (\<lambda>v.
     Option.bind (if can_go_down then check_traversable W a else Some None) (\<lambda>traversable.
     case traversable of
       Some t \<Rightarrow> Some (None, Some t)
     | None \<Rightarrow>
     Option.bind (if can_go_down \<and> v_children v \<noteq> []
                  then FindPreviousFocusableViewImpl mode W root g (last (v_children v)) True False True
                  else Some (None, None)) (\<lambda>below.
     if below \<noteq> (None, None) then Some below
     else
     Option.bind (if check_starting_view then check_candidate mode W g a else Some None) (\<lambda>found.
     case found of
       Some f \<Rightarrow> Some (Some f, None)
     | None \<Rightarrow>
     (case v_previous_focusable v of
        Some sibling \<Rightarrow> FindPreviousFocusableViewImpl mode W root g sibling True True True
      | None \<Rightarrow>
     if \<not> can_go_up then Some (None, None)
     else
     Option.bind (fs_GetParent W root a) (\<lambda>parent.
     case parent of
       Some p \<Rightarrow> FindPreviousFocusableViewImpl mode W root g p True True False
     | None \<Rightarrow> Some (None, None)))))))"

text \<open>One call of \<open>FindNextFocusableView\<close> up to the decision to cycle. With no starting view the search starts at the
  first or last child, which is checked itself.\<close>

definition find_once ::
  "focus_traversable \<Rightarrow> view_world \<Rightarrow> nat option \<Rightarrow> bool \<Rightarrow> search_direction \<Rightarrow> bool \<Rightarrow> search_result option" where
  "find_once T W starting_view reverse direction check_starting_view = do {
     let root = fs_root T;
     let mode = fs_accessibility_mode T;
     r \<leftarrow> vw_views W root;
     if v_children r = [] then Some (None, None)
     else do {
       g \<leftarrow> (case starting_view of None \<Rightarrow> Some (-1) | Some a \<Rightarrow> map_option v_group (vw_views W a));
       let start = (case starting_view of
                      Some a \<Rightarrow> a | None \<Rightarrow> if reverse then last (v_children r) else hd (v_children r));
       let check = (starting_view = None \<or> check_starting_view);
       (v, t) \<leftarrow>
         (if \<not> reverse then FindNextFocusableViewImpl mode W root g start check True (direction = DOWN)
          else do {
            focusable \<leftarrow> fs_IsFocusable mode W (Some start);
            FindPreviousFocusableViewImpl mode W root g start check True (direction = DOWN \<and> \<not> focusable)
          });
       v' \<leftarrow> (case v of
                None \<Rightarrow> Some None
              | Some a \<Rightarrow> if a = root then Some (Some a)
                          else do {
                            inside \<leftarrow> view_Contains (vw_views W) root (Some a);
                            Some (if inside then Some a else None)
                          });
       Some (v', t)
     }
   }"

text \<open>A search that cycles is repeated without a starting view; the flag that the starting view is to be checked has
  then been set already if there was none.\<close>

definition FindNextFocusableView ::
  "focus_traversable \<Rightarrow> view_world \<Rightarrow> nat option \<Rightarrow> bool \<Rightarrow> search_direction \<Rightarrow> bool \<Rightarrow> search_result option" where
  "FindNextFocusableView T W starting_view reverse direction check_starting_view = do {
     r \<leftarrow> vw_views W (fs_root T);
     (v, t) \<leftarrow> find_once T W starting_view reverse direction check_starting_view;
     if v_children r \<noteq> [] \<and> fs_cycle T \<and> v = None \<and> starting_view \<noteq> None
     then find_once T W None reverse direction check_starting_view
     else Some (v, t)
   }"

end
