(* ===== verification/Focus_Manager.thy ===== *)
theory Focus_Manager
  imports Focus_Search
begin

text \<open>
  The focus manager of a window (\<open>src/ui/views/focus/focus_manager.cc\<close>, in the build for X11): moving the focus, storing
  and restoring it, and the handling of key events. Focus traversables form chains through their parents; a search goes
  down into a traversable it finds and up to the parent when it finds nothing. What pressing an accelerator does is a
  parameter.
\<close>

section \<open>The focused view\<close>

definition fm_ContainsView :: "nat \<Rightarrow> nat \<Rightarrow> view_world \<Rightarrow> bool option" where
  "fm_ContainsView fm view W = map_option (\<lambda>f. f = Some fm) (GetFocusManager W view)"

definition ClearFocus :: "nat \<Rightarrow> view_world \<Rightarrow> view_world option" where
  "ClearFocus fm W = SetFocusedView fm None W"

definition ValidateFocusedView :: "nat \<Rightarrow> view_world \<Rightarrow> view_world option" where
  "ValidateFocusedView fm W = do {
     m \<leftarrow> vw_managers W fm;
     case fm_focused_view m of
       None \<Rightarrow> Some W
     | Some focused \<Rightarrow> do {
         contained \<leftarrow> fm_ContainsView fm focused W;
         if contained then Some W else ClearFocus fm W
       }
   }"

definition StoreFocusedView :: "nat \<Rightarrow> view_world \<Rightarrow> view_world option" where
  "StoreFocusedView fm W = do {
     m \<leftarrow> vw_managers W fm;
     let W = upd_manager fm (\<lambda>m. m\<lparr>fm_should_handle_menu_key_release := False\<rparr>) W;
     S \<leftarrow> RemoveView (fm_stored_view_id m) (vw_storage W);
     let W = W\<lparr>vw_storage := S\<rparr>;
     case fm_focused_view m of
       None \<Rightarrow> Some W
     | Some focused \<Rightarrow> do {
         S \<leftarrow> StoreView (fm_stored_view_id m) focused (vw_storage W);
         ClearFocus fm (W\<lparr>vw_storage := S\<rparr>)
       }
   }"

definition RestoreFocusedView :: "nat \<Rightarrow> view_world \<Rightarrow> view_world option" where
  "RestoreFocusedView fm W = do {
     m \<leftarrow> vw_managers W fm;
     case RetrieveView (fm_stored_view_id m) (vw_storage W) of
       None \<Rightarrow> Some W
     | Some view \<Rightarrow> do {
         contained \<leftarrow> fm_ContainsView fm view W;
         if \<not> contained then Some W
         else do {
           focusable \<leftarrow> IsFocusable (vw_views W) view;
           accessible \<leftarrow> IsAccessibilityFocusable (vw_views W) view;
           if \<not> focusable \<and> accessible then SetFocusedViewWithReason fm (Some view) kReasonFocusRestore W
           else do {
             W \<leftarrow> RequestFocus view W;
             m \<leftarrow> vw_managers W fm;
             Some (if fm_focused_view m = Some view
                   then upd_manager fm (\<lambda>m. m\<lparr>fm_focus_change_reason := kReasonFocusRestore\<rparr>) W else W)
           }
         }
       }
   }"

definition ClearStoredFocusedView :: "nat \<Rightarrow> view_world \<Rightarrow> view_world option" where
  "ClearStoredFocusedView fm W = do {
     m \<leftarrow> vw_managers W fm;
     S \<leftarrow> RemoveView (fm_stored_view_id m) (vw_storage W);
     Some (W\<lparr>vw_storage := S\<rparr>)
   }"

section \<open>Moving the focus\<close>

text \<open>Down into the traversables that are found, each searched from its first or last view.\<close>

partial_function (option) FindFocusableView :: "view_world \<Rightarrow> nat \<Rightarrow> nat option \<Rightarrow> bool \<Rightarrow> nat option option" where
  "FindFocusableView W ft starting_view reverse =
     Option.bind (vw_traversables W ft) (\<lambda>T.
     Option.bind (FindNextFocusableView T W starting_view reverse DOWN False) (\<lambda>r.
     case snd r of
       Some (new_ft, _) \<Rightarrow> FindFocusableView W new_ft None reverse
     | None \<Rightarrow> Some (fst r)))"

text \<open>The first view above the starting view that keeps the focus within itself.\<close>

partial_function (option) pane_traversable :: "view_store \<Rightarrow> nat option \<Rightarrow> nat option option" where
  "pane_traversable s pane_search =
     (case pane_search of
        None \<Rightarrow> Some None
      | Some a \<Rightarrow> Option.bind (s a) (\<lambda>v.
          case v_pane_focus_traversable v of Some t \<Rightarrow> Some (Some t) | None \<Rightarrow> pane_traversable s (v_parent v)))"

text \<open>The loop over the parents of the traversable; \<open>parent_view\<close> is the parent view of the first one.\<close>

partial_function (option) search_parents ::
  "view_world \<Rightarrow> nat option \<Rightarrow> nat option \<Rightarrow> nat option \<Rightarrow> bool \<Rightarrow> nat option option" where
  "search_parents W parent_view starting_view parent_ft reverse =
     (case parent_ft of
        None \<Rightarrow> Some None
      | Some p \<Rightarrow>
          Option.bind (vw_traversables W p) (\<lambda>T.
          Option.bind (FindNextFocusableView T W starting_view reverse UP reverse) (\<lambda>r.
          Option.bind (case snd r of
                         Some (new_ft, _) \<Rightarrow> FindFocusableView W new_ft None reverse
                       | None \<Rightarrow> Some (fst r)) (\<lambda>v.
          if v \<noteq> None then Some v
          else search_parents W parent_view parent_view (ft_parent T) reverse))))"

text \<open>The traversable and the view to start from.\<close>

definition start_of_search :: "view_world \<Rightarrow> nat \<Rightarrow> nat option \<Rightarrow> bool \<Rightarrow> (nat \<times> nat option) option" where
  "start_of_search W fm original reverse =
     (case original of
        None \<Rightarrow> do { m \<leftarrow> vw_managers W fm; wd \<leftarrow> vw_widgets W (fm_widget m); Some (wd_focus_traversable wd, None) }
      | Some a \<Rightarrow> do {
          pane \<leftarrow> pane_traversable (vw_views W) (Some a);
          case pane of
            Some t \<Rightarrow> Some (t, Some a)
          | None \<Rightarrow> do {
              v \<leftarrow> vw_views W a;
              case (if reverse then None else v_focus_traversable v) of
                Some t \<Rightarrow> Some (t, None)
              | None \<Rightarrow> do {
                  widget \<leftarrow> GetWidget (vw_views W) a;
                  w \<leftarrow> widget;
                  wd \<leftarrow> vw_widgets W w;
                  Some (wd_focus_traversable wd, Some a)
                }
            }
        })"

definition next_once :: "view_world \<Rightarrow> nat \<Rightarrow> nat option \<Rightarrow> bool \<Rightarrow> nat option option" where
  "next_once W fm original reverse = do {
     (ft, starting_view) \<leftarrow> start_of_search W fm original reverse;
     v \<leftarrow> FindFocusableView W ft starting_view reverse;
     if v \<noteq> None then Some v
     else do {
       T \<leftarrow> vw_traversables W ft;
       search_parents W (ft_parent_view T) (ft_parent_view T) (ft_parent T) reverse
     }
   }"

definition GetNextFocusableView :: "nat \<Rightarrow> nat option \<Rightarrow> bool \<Rightarrow> bool \<Rightarrow> view_world \<Rightarrow> (nat option \<times> view_world) option" where
  "GetNextFocusableView fm original reverse dont_loop W = do {
     W \<leftarrow> ValidateFocusedView fm W;
     v \<leftarrow> next_once W fm original reverse;
     if v = None \<and> \<not> dont_loop \<and> original \<noteq> None
     then do {
       W \<leftarrow> ValidateFocusedView fm W;
       v \<leftarrow> next_once W fm None reverse;
       Some (v, W)
     }
     else Some (v, W)
   }"

definition AdvanceFocus :: "nat \<Rightarrow> bool \<Rightarrow> view_world \<Rightarrow> view_world option" where
  "AdvanceFocus fm reverse W = do {
     m \<leftarrow> vw_managers W fm;
     (v, W) \<leftarrow> GetNextFocusableView fm (fm_focused_view m) reverse False W;
     if v = None then Some W else SetFocusedViewWithReason fm v kReasonFocusTraversal W
   }"

section \<open>Key events\<close>

record accelerator_targets =
  at_CanHandle :: "view_world \<Rightarrow> nat \<Rightarrow> bool"
  at_Pressed :: "nat \<Rightarrow> accelerator \<Rightarrow> view_world \<times> nat accelerator_manager \<Rightarrow> bool \<times> view_world \<times> nat accelerator_manager"
  at_Delegate :: "(accelerator \<Rightarrow> view_world \<Rightarrow> bool \<times> view_world) option"

definition ProcessAccelerator :: "accelerator_targets \<Rightarrow> nat \<Rightarrow> accelerator \<Rightarrow> view_world \<Rightarrow> (bool \<times> view_world) option" where
  "ProcessAccelerator A fm a W = do {
     m \<leftarrow> vw_managers W fm;
     let (handled, W, am) = am_Process (at_CanHandle A) (at_Pressed A) a (W, fm_accelerator_manager m);
     _ \<leftarrow> vw_managers W fm;
     let W = upd_manager fm (\<lambda>m. m\<lparr>fm_accelerator_manager := am\<rparr>) W;
     Some (if handled then (True, W)
           else case at_Delegate A of Some d \<Rightarrow> d a W | None \<Rightarrow> (False, W))
   }"

record key_event =
  ke_type :: EventType
  ke_key_code :: int
  ke_flags :: "32 word"

definition VKEY_TAB :: int where "VKEY_TAB = 0x09"
definition VKEY_MENU :: int where "VKEY_MENU = 0x12"
definition VKEY_LEFT :: int where "VKEY_LEFT = 0x25"
definition VKEY_UP :: int where "VKEY_UP = 0x26"
definition VKEY_RIGHT :: int where "VKEY_RIGHT = 0x27"
definition VKEY_DOWN :: int where "VKEY_DOWN = 0x28"

definition ke_has :: "32 word \<Rightarrow> key_event \<Rightarrow> bool" where
  "ke_has flag e \<longleftrightarrow> and (ke_flags e) flag \<noteq> 0"

definition IsTabTraversalKeyEvent :: "key_event \<Rightarrow> bool" where
  "IsTabTraversalKeyEvent e \<longleftrightarrow> ke_key_code e = VKEY_TAB \<and> \<not> ke_has EF_CONTROL_DOWN e"

definition key_accelerator :: "key_event \<Rightarrow> accelerator" where
  "key_accelerator e =
     accelerator_set_type (ke_type e)
       (mk_accelerator (ke_key_code e)
          (or (or (if ke_has EF_SHIFT_DOWN e then EF_SHIFT_DOWN else 0)
                  (if ke_has EF_CONTROL_DOWN e then EF_CONTROL_DOWN else 0))
              (if ke_has EF_ALT_DOWN e then EF_ALT_DOWN else 0)))"

text \<open>The arrow keys move between the views of a group.\<close>

definition next_in_group :: "nat list \<Rightarrow> nat \<Rightarrow> bool \<Rightarrow> nat option" where
  "next_in_group views focused forward =
     (let i = (if focused \<in> set views then find_index focused views 0 else int (length views));
          index = i + (if forward then 1 else -1);
          index = (if index < 0 then int (length views) - 1 else if index \<ge> int (length views) then 0 else index)
      in if 0 \<le> index \<and> index < int (length views) then Some (views ! nat index) else None)"

definition fm_arrow_key :: "nat \<Rightarrow> key_event \<Rightarrow> view_world \<Rightarrow> view_world option option" where
  "fm_arrow_key fm e W = do {
     m \<leftarrow> vw_managers W fm;
     case fm_focused_view m of
       None \<Rightarrow> Some None
     | Some focused \<Rightarrow> do {
         v \<leftarrow> vw_views W focused;
         if v_group v \<noteq> -1 \<and> ke_key_code e \<in> {VKEY_UP, VKEY_DOWN, VKEY_LEFT, VKEY_RIGHT}
         then do {
           p \<leftarrow> v_parent v;
           views \<leftarrow> GetViewsInGroup (vw_views W) p (v_group v);
           next \<leftarrow> next_in_group views focused (ke_key_code e \<in> {VKEY_RIGHT, VKEY_DOWN});
           map_option Some (SetFocusedViewWithReason fm (Some next) kReasonFocusTraversal W)
         }
         else Some None
       }
   }"

text \<open>The result is false when the event has been consumed. \<open>suspended\<close> is the static flag that suspends shortcuts.\<close>

definition fm_OnKeyEvent ::
  "accelerator_targets \<Rightarrow> bool \<Rightarrow> nat \<Rightarrow> key_event \<Rightarrow> view_world \<Rightarrow> (bool \<times> view_world) option" where
  "fm_OnKeyEvent A suspended fm e W = do {
     m \<leftarrow> vw_managers W fm;
     let only_menu = (ke_key_code e = VKEY_MENU \<and> and (ke_flags e) (not EF_ALT_DOWN) = 0);
     let keep = (ke_key_code e = VKEY_MENU \<and> ke_type e = ET_KEY_RELEASED);
     let release = (keep \<and> fm_should_handle_menu_key_release m);
     let W = (if keep then W else upd_manager fm (\<lambda>m. m\<lparr>fm_should_handle_menu_key_release := False\<rparr>) W);
     if ke_type e = ET_KEY_PRESSED \<and> only_menu
     then Some (False, upd_manager fm (\<lambda>m. m\<lparr>fm_should_handle_menu_key_release := True\<rparr>) W)
     else if ke_type e \<noteq> ET_KEY_PRESSED \<and> only_menu \<and> release
     then ProcessAccelerator A fm (mk_accelerator VKEY_MENU 0) W
     else if ke_type e \<noteq> ET_KEY_PRESSED \<and> ke_type e \<noteq> ET_KEY_RELEASED then Some (False, W)
     else if suspended then Some (True, W)
     else if ke_type e = ET_KEY_PRESSED \<and> IsTabTraversalKeyEvent e
     then do { W \<leftarrow> AdvanceFocus fm (ke_has EF_SHIFT_DOWN e) W; Some (False, W) }
     else do {
       moved \<leftarrow> (if ke_type e = ET_KEY_PRESSED then fm_arrow_key fm e W else Some None);
       case moved of
         Some W \<Rightarrow> Some (False, W)
       | None \<Rightarrow> do { (handled, W) \<leftarrow> ProcessAccelerator A fm (key_accelerator e) W; Some (\<not> handled, W) }
     }
   }"

end
