(* ===== verification/View_Order.thy ===== *)
theory View_Order
  imports Focus_Manager
begin

text \<open>
  The shape of a hierarchy of views: a tree whose focus links follow the order of the children. Walking up in such a
  tree ends, so the queries that do are total. The trees are those of \<open>Tree_Nodes\<close>, whose titles are not used.
\<close>

section \<open>Hierarchies\<close>

fun linked :: "view_store \<Rightarrow> nat option \<Rightarrow> nat list \<Rightarrow> bool" where
  "linked s l [] = True"
| "linked s l (a # as) =
     ((\<exists>v. s a = Some v \<and> v_previous_focusable v = l \<and> v_next_focusable v = (case as of [] \<Rightarrow> None | b # _ \<Rightarrow> Some b)) \<and>
      linked s (Some a) as)"

fun vtree :: "view_store \<Rightarrow> nat option \<Rightarrow> tree \<Rightarrow> bool" where
  "vtree s p (Node a ti ts) =
     ((\<exists>v. s a = Some v \<and> v_parent v = p \<and> v_children v = map tr_addr ts) \<and> linked s None (map tr_addr ts) \<and>
      (\<forall>t \<in> set ts. vtree s (Some a) t))"

definition first_of :: "'a list \<Rightarrow> 'a option" where
  "first_of xs = (case xs of [] \<Rightarrow> None | x # _ \<Rightarrow> Some x)"

definition last_of :: "'a list \<Rightarrow> 'a option" where
  "last_of xs = (if xs = [] then None else Some (last xs))"

lemma first_last_simps [simp]:
  "first_of [] = None" "first_of (x # xs) = Some x" "last_of [] = None" "last_of (xs @ [x]) = Some x"
  by (simp_all add: first_of_def last_of_def)

lemma linked_at:
  "linked s l (as @ a # bs) \<Longrightarrow>
   \<exists>v. s a = Some v \<and> v_previous_focusable v = (if as = [] then l else last_of as) \<and> v_next_focusable v = first_of bs"
proof (induction as arbitrary: l)
  case Nil
  then show ?case by (auto simp: first_of_def)
next
  case (Cons b as)
  then show ?case using Cons.IH [of "Some b"] by (auto simp: last_of_def)
qed

lemma vtree_view: "vtree s p t \<Longrightarrow> \<exists>v. s (tr_addr t) = Some v \<and> v_parent v = p \<and> v_children v = map tr_addr (tr_subs t)"
  by (cases t) auto

lemma vtree_sub: "vtree s p t \<Longrightarrow> c \<in> set (tr_subs t) \<Longrightarrow> vtree s (Some (tr_addr t)) c"
  by (cases t) auto

lemma vtree_dom: "vtree s p t \<Longrightarrow> a \<in> set (preorder t) \<Longrightarrow> \<exists>v. s a = Some v"
  by (induction t arbitrary: p) fastforce

lemma preorder_subs: "preorder t = tr_addr t # concat (map preorder (tr_subs t))"
  by (cases t) simp

text \<open>Induction from a node of a tree towards the root.\<close>

lemma vtree_up:
  assumes "vtree s p t" and "a \<in> set (preorder t)"
    and root: "\<And>v. s (tr_addr t) = Some v \<Longrightarrow> v_parent v = p \<Longrightarrow> P (tr_addr t)"
    and up: "\<And>a b v. s a = Some v \<Longrightarrow> v_parent v = Some b \<Longrightarrow> b \<in> set (preorder t) \<Longrightarrow> P b \<Longrightarrow> P a"
  shows "P a"
  using assms
proof (induction t arbitrary: p)
  case (Node r ti ts)
  have r: "P r" using Node.prems(1,3) by auto
  show ?case
  proof (cases "a = r")
    case False
    then obtain c where c: "c \<in> set ts" "a \<in> set (preorder c)" using Node.prems(2) by auto
    have vc: "vtree s (Some r) c" using Node.prems(1) c(1) by simp
    show ?thesis
    proof (rule Node.IH [OF c(1) vc c(2)])
      show "P (tr_addr c)" if "s (tr_addr c) = Some v" "v_parent v = Some r" for v
        using Node.prems(4) [OF that _ r] by simp
      show "P x" if "s x = Some v" "v_parent v = Some b" "b \<in> set (preorder c)" "P b" for x b v
        using Node.prems(4) [OF that(1,2) _ that(4)] that(3) c(1) by auto
    qed
  qed (use r in simp)
qed

lemma Contains_root: "vtree s p t \<Longrightarrow> a \<in> set (preorder t) \<Longrightarrow> view_Contains s (tr_addr t) (Some a) = Some True"
  by (erule vtree_up) (simp_all add: view_Contains.simps)

text \<open>The view hierarchy of a window: its root view belongs to a widget and has no siblings.\<close>

definition window :: "view_world \<Rightarrow> tree \<Rightarrow> nat \<Rightarrow> bool" where
  "window W t w \<longleftrightarrow>
     vtree (vw_views W) None t \<and> distinct (preorder t) \<and>
     (\<forall>a \<in> set (preorder t). \<forall>v. vw_views W a = Some v \<longrightarrow> v_root_of v = (if a = tr_addr t then Some w else None)) \<and>
     (\<forall>v. vw_views W (tr_addr t) = Some v \<longrightarrow> v_next_focusable v = None \<and> v_previous_focusable v = None) \<and>
     (\<exists>wd. vw_widgets W w = Some wd \<and> wd_root_view wd = tr_addr t)"

lemma windowD:
  assumes "window W t w"
  shows "vtree (vw_views W) None t" and "distinct (preorder t)"
    and "a \<in> set (preorder t) \<Longrightarrow> vw_views W a = Some v \<Longrightarrow> v_root_of v = (if a = tr_addr t then Some w else None)"
    and "vw_views W (tr_addr t) = Some v \<Longrightarrow> v_next_focusable v = None"
    and "vw_views W (tr_addr t) = Some v \<Longrightarrow> v_previous_focusable v = None"
    and "\<exists>wd. vw_widgets W w = Some wd \<and> wd_root_view wd = tr_addr t"
  using assms by (auto simp: window_def)

lemma IsDrawn_total: "window W t w \<Longrightarrow> a \<in> set (preorder t) \<Longrightarrow> \<exists>b. IsDrawn (vw_views W) a = Some b"
  by (erule vtree_up [OF windowD(1)], assumption) (auto simp: IsDrawn.simps split: option.splits)

lemma GetWidget_window: "window W t w \<Longrightarrow> a \<in> set (preorder t) \<Longrightarrow> GetWidget (vw_views W) a = Some (Some w)"
proof -
  assume w: "window W t w" and a: "a \<in> set (preorder t)"
  have "a \<in> set (preorder t) \<longrightarrow> GetWidget (vw_views W) a = Some (Some w)"
  proof (rule vtree_up [OF windowD(1) [OF w] a])
    show "tr_addr t \<in> set (preorder t) \<longrightarrow> GetWidget (vw_views W) (tr_addr t) = Some (Some w)"
      if "vw_views W (tr_addr t) = Some v" for v
      using windowD(3) [OF w, of "tr_addr t" v] that by (simp add: GetWidget.simps)
    show "x \<in> set (preorder t) \<longrightarrow> GetWidget (vw_views W) x = Some (Some w)"
      if "vw_views W x = Some v" "v_parent v = Some b" "b \<in> set (preorder t)"
        "b \<in> set (preorder t) \<longrightarrow> GetWidget (vw_views W) b = Some (Some w)" for x b v
      using windowD(3) [OF w, of x v] that by (simp add: GetWidget.simps split: if_splits)
  qed
  then show ?thesis using a by blast
qed

lemma IsFocusable_total: "window W t w \<Longrightarrow> a \<in> set (preorder t) \<Longrightarrow> \<exists>b. fs_IsFocusable mode W (Some a) = Some b"
  using IsDrawn_total [of W t w a] vtree_dom [OF windowD(1), of W t w a]
  by (auto simp: fs_IsFocusable_def IsFocusable_def IsAccessibilityFocusable_def split: if_splits)

lemma group_total:
  "\<forall>t \<in> set ts. \<exists>p. vtree s p t \<Longrightarrow>
   \<exists>r. views_in_group s g (map tr_addr ts) = Some r \<and> set r \<subseteq> set (concat (map preorder ts))"
proof (induction "length (concat (map preorder ts))" arbitrary: ts rule: less_induct)
  case less
  show ?case
  proof (cases ts)
    case Nil
    then show ?thesis by (simp add: views_in_group.simps)
  next
    case (Cons t ts')
    obtain p where p: "vtree s p t" using less.prems Cons by auto
    obtain v where v: "s (tr_addr t) = Some v" "v_children v = map tr_addr (tr_subs t)" using vtree_view [OF p] by auto
    have "\<forall>u \<in> set (tr_subs t). \<exists>p. vtree s p u" using vtree_sub [OF p] by blast
    then obtain r1 where r1: "views_in_group s g (map tr_addr (tr_subs t)) = Some r1" "set r1 \<subseteq> set (concat (map preorder (tr_subs t)))"
      using less.hyps [of "tr_subs t"] Cons by (auto simp: preorder_subs [of t])
    obtain r2 where r2: "views_in_group s g (map tr_addr ts') = Some r2" "set r2 \<subseteq> set (concat (map preorder ts'))"
      using less.hyps [of ts'] less.prems Cons by (auto simp: preorder_subs [of t])
    show ?thesis using r1 r2 v Cons by (subst views_in_group.simps) (auto simp: preorder_subs [of t])
  qed
qed

lemma selected_total:
  assumes "window W t w" and "a \<in> set (preorder t)"
  shows "\<exists>b. FindSelectedViewForGroup W a = Some b \<and> b \<in> set (preorder t)"
proof -
  obtain v where v: "vw_views W a = Some v" using vtree_dom [OF windowD(1)] assms by metis
  obtain r where "GetViewsInGroup (vw_views W) (tr_addr t) (v_group v) = Some r" "set r \<subseteq> set (preorder t)"
    using group_total [of "[t]" "vw_views W" "v_group v"] windowD(1) [OF assms(1)] by (auto simp: GetViewsInGroup_def)
  moreover obtain wd where "vw_widgets W w = Some wd" "wd_root_view wd = tr_addr t" using windowD(6) [OF assms(1)] by blast
  ultimately show ?thesis
    using v assms(2) GetWidget_window [OF assms] by (auto simp: FindSelectedViewForGroup_def GetSelectedViewForGroup_def split: list.splits)
qed

lemma candidate_total:
  assumes "window W t w" and "a \<in> set (preorder t)"
  shows "\<exists>r. check_candidate mode W g a = Some r \<and> (case r of None \<Rightarrow> True | Some b \<Rightarrow> b \<in> set (preorder t))"
proof -
  obtain v where v: "vw_views W a = Some v" using vtree_dom [OF windowD(1)] assms by metis
  obtain b where b: "FindSelectedViewForGroup W a = Some b" "b \<in> set (preorder t)" using selected_total [OF assms] by blast
  obtain f where f: "fs_IsFocusable mode W (Some a) = Some f" using IsFocusable_total [OF assms] by blast
  obtain f' where f': "fs_IsFocusable mode W (Some b) = Some f'" using IsFocusable_total [OF assms(1) b(2)] by blast
  show ?thesis using v b f f' by (auto simp: check_candidate_def IsViewFocusableCandidate_def)
qed

end
