(* ===== verification/Focus_Order.thy ===== *)
theory Focus_Order
  imports View_Order
begin

text \<open>
  The search for the next view to focus goes through the views of a window in preorder, and backwards in the reverse
  order, and returns the first that may take the focus. Places in a hierarchy are a subtree with its context: at each
  level the siblings to the left, the parent, and the siblings to the right.
\<close>

section \<open>Places\<close>

type_synonym place = "(tree list \<times> nat \<times> string16 \<times> tree list) list"

fun plug :: "tree \<Rightarrow> place \<Rightarrow> tree" where
  "plug t [] = t"
| "plug t ((ls, a, ti, rs) # c) = plug (Node a ti (ls @ t # rs)) c"

definition ctx_parent :: "place \<Rightarrow> nat option" where
  "ctx_parent c = (case c of [] \<Rightarrow> None | (_, a, _) # _ \<Rightarrow> Some a)"

definition ctx_left :: "place \<Rightarrow> tree list" where
  "ctx_left c = (case c of [] \<Rightarrow> [] | (ls, _) # _ \<Rightarrow> ls)"

definition ctx_right :: "place \<Rightarrow> tree list" where
  "ctx_right c = (case c of [] \<Rightarrow> [] | (_, _, _, rs) # _ \<Rightarrow> rs)"

lemma ctx_simps [simp]:
  "ctx_parent [] = None" "ctx_left [] = []" "ctx_right [] = []"
  "ctx_parent ((ls, a, ti, rs) # c) = Some a" "ctx_left ((ls, a, ti, rs) # c) = ls" "ctx_right ((ls, a, ti, rs) # c) = rs"
  by (simp_all add: ctx_parent_def ctx_left_def ctx_right_def)

text \<open>The views that come after a place, and those before it.\<close>

fun after :: "place \<Rightarrow> nat list" where
  "after [] = []"
| "after ((ls, a, ti, rs) # c) = concat (map preorder rs) @ after c"

fun before :: "place \<Rightarrow> nat list" where
  "before [] = []"
| "before ((ls, a, ti, rs) # c) = before c @ a # concat (map preorder ls)"

lemma preorder_plug: "preorder (plug t c) = before c @ preorder t @ after c"
  by (induction t c rule: plug.induct) auto

lemma plug_addr: "c \<noteq> [] \<Longrightarrow> tr_addr (plug t c) = tr_addr (plug u c)"
proof (induction c arbitrary: t u)
  case (Cons x c)
  obtain ls a ti rs where x: "x = (ls, a, ti, rs)" by (cases x)
  show ?case
  proof (cases "c = []")
    case False
    then show ?thesis using Cons.IH [of "Node a ti (ls @ t # rs)" "Node a ti (ls @ u # rs)"] x by simp
  qed (simp add: x)
qed simp

lemma vtree_plug: "vtree s None (plug t c) \<Longrightarrow> vtree s (ctx_parent c) t"
proof (induction t c rule: plug.induct)
  case (2 t ls a ti rs c)
  then show ?case by simp
qed simp

lemma in_plug: "a \<in> set (preorder t) \<Longrightarrow> a \<in> set (preorder (plug t c))"
  by (simp add: preorder_plug)

text \<open>Every view of a tree has a place.\<close>

lemma place_of: "a \<in> set (preorder t) \<Longrightarrow> \<exists>u c. t = plug u c \<and> tr_addr u = a"
proof -
  have "a \<in> set (preorder t) \<Longrightarrow> \<exists>u c'. plug t c = plug u c' \<and> tr_addr u = a" for c
  proof (induction t arbitrary: c)
    case (Node b ti ts)
    show ?case
    proof (cases "a = b")
      case True
      then show ?thesis by (intro exI [of _ "Node b ti ts"] exI [of _ c]) simp
    next
      case False
      then obtain d where d: "d \<in> set ts" "a \<in> set (preorder d)" using Node.prems by auto
      obtain ls rs where ts: "ts = ls @ d # rs" using split_list [OF d(1)] by blast
      show ?thesis using Node.IH [OF d, of "(ls, b, ti, rs) # c"] ts by simp
    qed
  qed
  from this [of "[]"] show "a \<in> set (preorder t) \<Longrightarrow> \<exists>u c. t = plug u c \<and> tr_addr u = a" by simp
qed

text \<open>What the view at a place holds.\<close>

lemma view_at:
  assumes "window W (plug t c) w"
  shows "\<exists>v. vw_views W (tr_addr t) = Some v \<and> v_parent v = ctx_parent c \<and> v_children v = map tr_addr (tr_subs t) \<and>
    v_next_focusable v = map_option tr_addr (first_of (ctx_right c)) \<and>
    v_previous_focusable v = map_option tr_addr (last_of (ctx_left c))"
proof -
  note vt = vtree_plug [OF windowD(1) [OF assms]]
  obtain v where v: "vw_views W (tr_addr t) = Some v" "v_parent v = ctx_parent c" "v_children v = map tr_addr (tr_subs t)"
    using vtree_view [OF vt] by blast
  have "v_next_focusable v = map_option tr_addr (first_of (ctx_right c)) \<and>
    v_previous_focusable v = map_option tr_addr (last_of (ctx_left c))"
  proof (cases c)
    case Nil
    then show ?thesis using windowD(4,5) [OF assms, of v] v(1) by (simp add: first_of_def last_of_def)
  next
    case (Cons x c')
    obtain ls a ti rs where x: "x = (ls, a, ti, rs)" by (cases x)
    have "vtree (vw_views W) (ctx_parent c') (Node a ti (ls @ t # rs))"
      using windowD(1) [OF assms] Cons x by (intro vtree_plug) simp
    then have "linked (vw_views W) None (map tr_addr ls @ tr_addr t # map tr_addr rs)" by simp
    from linked_at [OF this] v(1) Cons x show ?thesis
      by (auto simp: first_of_def last_of_def last_map split: list.splits)
  qed
  then show ?thesis using v by blast
qed

section \<open>Searching a list\<close>

fun first_hit :: "('a \<Rightarrow> search_result) \<Rightarrow> 'a list \<Rightarrow> search_result" where
  "first_hit h [] = (None, None)"
| "first_hit h (x # xs) = (if h x \<noteq> (None, None) then h x else first_hit h xs)"

lemma first_hit_append: "first_hit h (xs @ ys) = (if first_hit h xs \<noteq> (None, None) then first_hit h xs else first_hit h ys)"
  by (induction xs) auto

text \<open>What the search finds at a view: the view selected for it, or its traversable.\<close>

definition view_hit :: "bool \<Rightarrow> view_world \<Rightarrow> int \<Rightarrow> nat \<Rightarrow> search_result" where
  "view_hit mode W g a =
     (case the (check_candidate mode W g a) of Some f \<Rightarrow> (Some f, None) | None \<Rightarrow> (None, the (check_traversable W a)))"

section \<open>Forwards\<close>

lemma check_view:
  assumes "window W t w" and "a \<in> set (preorder t)"
  shows "check_candidate mode W g a = Some (the (check_candidate mode W g a))"
    and "check_traversable W a = Some (the (check_traversable W a))"
  using candidate_total [OF assms, of mode g] vtree_dom [OF windowD(1) [OF assms(1)] assms(2)]
  by (auto simp: check_traversable_def)

lemma siblings_search:
  assumes "window W T w"
  shows "ts \<noteq> [] \<Longrightarrow> T = plug (Node p ti (ls @ ts)) c \<Longrightarrow>
    FindNextFocusableViewImpl mode W root g (tr_addr (hd ts)) True False True =
      Some (first_hit (view_hit mode W g) (concat (map preorder ts)))"
proof (induction "length (concat (map preorder ts))" arbitrary: ts ls p ti c rule: less_induct)
  case less
  obtain t rs where ts: "ts = t # rs" using less.prems(1) by (cases ts) auto
  have T: "T = plug t ((ls, p, ti, rs) # c)" using less.prems(2) ts by simp
  have tT: "tr_addr t \<in> set (preorder T)" unfolding T by (rule in_plug) simp
  obtain v where v: "vw_views W (tr_addr t) = Some v" "v_children v = map tr_addr (tr_subs t)"
    "v_next_focusable v = map_option tr_addr (first_of rs)"
    using view_at [of W t "(ls, p, ti, rs) # c" w] assms T by auto
  note ck = check_view(1) [OF assms tT] check_view(2) [OF assms tT]
  have below: "tr_subs t \<noteq> [] \<Longrightarrow> FindNextFocusableViewImpl mode W root g (tr_addr (hd (tr_subs t))) True False True =
      Some (first_hit (view_hit mode W g) (concat (map preorder (tr_subs t))))"
    using less.hyps [of "tr_subs t" "tr_addr t" "tr_title t" "[]" "(ls, p, ti, rs) # c"] T ts
    by (simp add: preorder_subs [of t])
  have right: "rs \<noteq> [] \<Longrightarrow> FindNextFocusableViewImpl mode W root g (tr_addr (hd rs)) True False True =
      Some (first_hit (view_hit mode W g) (concat (map preorder rs)))"
    using less.hyps [of rs p ti "ls @ [t]" c] less.prems(2) ts by (simp add: preorder_subs [of t])
  show ?case
    unfolding ts list.sel list.map concat.simps preorder_subs [of t] append_Cons first_hit.simps first_hit_append
    using v ck(1) [of mode g] ck(2) below right
    by (subst FindNextFocusableViewImpl.simps)
       (auto simp: view_hit_def hd_map first_of_def split: option.splits list.splits)
qed

lemma GetParent_at:
  assumes "window W (plug t c) w"
  shows "fs_GetParent W (tr_addr (plug t c)) (tr_addr t) = Some (ctx_parent c)"
  using view_at [OF assms] Contains_root [OF windowD(1) [OF assms] in_plug [of "tr_addr t"]] by (auto simp: fs_GetParent_def)

lemma after_eq: "after c = concat (map preorder (ctx_right c)) @ after (tl c)"
  by (cases c rule: after.cases) simp_all

text \<open>Going up ends at the first tree to the right of an ancestor.\<close>

lemma next_ancestors:
  assumes "window W T w"
  shows "T = plug t c \<Longrightarrow>
    (\<exists>r c'. next_of_ancestors W (tr_addr T) (ctx_parent c) = Some (Some (tr_addr r)) \<and> T = plug r c' \<and>
       after (tl c) = preorder r @ after c') \<or>
    next_of_ancestors W (tr_addr T) (ctx_parent c) = Some None \<and> after (tl c) = []"
proof (induction c arbitrary: t)
  case Nil
  then show ?case by (simp add: next_of_ancestors.simps)
next
  case (Cons x c)
  obtain ls a ti rs where x: "x = (ls, a, ti, rs)" by (cases x)
  let ?u = "Node a ti (ls @ t # rs)"
  have T: "T = plug ?u c" using Cons.prems x by simp
  obtain v where v: "vw_views W a = Some v" "v_next_focusable v = map_option tr_addr (first_of (ctx_right c))"
    using view_at [of W ?u c w] assms T by auto
  show ?case
  proof (cases "ctx_right c")
    case Nil
    have "fs_GetParent W (tr_addr T) a = Some (ctx_parent c)" using GetParent_at [of W ?u c w] assms T by simp
    then have "next_of_ancestors W (tr_addr T) (ctx_parent (x # c)) = next_of_ancestors W (tr_addr T) (ctx_parent c)"
      using v Nil x by (subst next_of_ancestors.simps) simp
    moreover have "after c = after (tl c)" using after_eq [of c] Nil by simp
    ultimately show ?thesis using Cons.IH [OF T] by simp
  next
    case r: (Cons r rs')
    obtain ls' b ti' c1 where c: "c = (ls', b, ti', r # rs') # c1" using r by (cases c rule: after.cases) auto
    have "T = plug r ((ls' @ [?u], b, ti', rs') # c1)" using T c by simp
    moreover have "next_of_ancestors W (tr_addr T) (ctx_parent (x # c)) = Some (Some (tr_addr r))"
      using v r x by (subst next_of_ancestors.simps) simp
    moreover have "after c = preorder r @ after ((ls' @ [?u], b, ti', rs') # c1)" using c by simp
    ultimately show ?thesis by (metis list.sel(3))
  qed
qed

lemma forward_search:
  assumes "window W T w"
  shows "T = plug t c \<Longrightarrow>
    FindNextFocusableViewImpl mode W (tr_addr T) g (tr_addr t) check True down =
      Some (first_hit (view_hit mode W g)
        ((if check then [tr_addr t] else []) @ (if down then concat (map preorder (tr_subs t)) else []) @ after c))"
proof (induction "length (after c)" arbitrary: t c check down rule: less_induct)
  case less
  let ?h = "view_hit mode W g"
  have tT: "tr_addr t \<in> set (preorder T)" unfolding less.prems by (rule in_plug) simp
  obtain v where v: "vw_views W (tr_addr t) = Some v" "v_children v = map tr_addr (tr_subs t)"
    "v_next_focusable v = map_option tr_addr (first_of (ctx_right c))"
    using view_at [of W t c w] assms less.prems by auto
  note ck = check_view(1) [OF assms tT] check_view(2) [OF assms tT]
  have gp: "fs_GetParent W (tr_addr T) (tr_addr t) = Some (ctx_parent c)" using GetParent_at assms less.prems by blast
  have below: "tr_subs t \<noteq> [] \<Longrightarrow> FindNextFocusableViewImpl mode W (tr_addr T) g (tr_addr (hd (tr_subs t))) True False True =
      Some (first_hit ?h (concat (map preorder (tr_subs t))))"
    using siblings_search [OF assms, of "tr_subs t" "tr_addr t" "tr_title t" "[]" c] less.prems by simp
  have right: "FindNextFocusableViewImpl mode W (tr_addr T) g (tr_addr (hd (ctx_right c))) True False True =
      Some (first_hit ?h (concat (map preorder (ctx_right c))))" if ne: "ctx_right c \<noteq> []"
  proof -
    obtain ls a ti rs c' where c: "c = (ls, a, ti, rs) # c'" using ne by (cases c rule: after.cases) auto
    show ?thesis using siblings_search [OF assms, of rs a ti "ls @ [t]" c'] less.prems ne c by simp
  qed
  have up: "\<exists>s. next_of_ancestors W (tr_addr T) (ctx_parent c) = Some s \<and>
      (case s of None \<Rightarrow> after (tl c) = []
       | Some a \<Rightarrow> FindNextFocusableViewImpl mode W (tr_addr T) g a True True True = Some (first_hit ?h (after (tl c))))"
    using next_ancestors [OF assms less.prems]
  proof
    assume "\<exists>r c'. next_of_ancestors W (tr_addr T) (ctx_parent c) = Some (Some (tr_addr r)) \<and> T = plug r c' \<and>
      after (tl c) = preorder r @ after c'"
    then obtain r c' where r: "next_of_ancestors W (tr_addr T) (ctx_parent c) = Some (Some (tr_addr r))" "T = plug r c'"
      "after (tl c) = preorder r @ after c'" by blast
    have "length (after c') < length (after c)" using after_eq [of c] r(3) by (simp add: preorder_subs [of r])
    from less.hyps [OF this r(2), of True True] r show ?thesis by (simp add: preorder_subs [of r])
  qed simp
  show ?case
    unfolding first_hit_append after_eq [of c]
    using v ck(1) [of mode g] ck(2) below right gp up
    by (subst FindNextFocusableViewImpl.simps)
       (auto simp: view_hit_def hd_map first_of_def split: option.splits list.splits)
qed

section \<open>Backwards\<close>

text \<open>A backward search enters a view, where it looks for a traversable, before it goes down to the last child, and
  checks the view itself after its children. It may check views again: a search below that goes to the sibling of a
  child also goes up.\<close>

datatype visit = Enter nat | Check nat

fun visits :: "tree \<Rightarrow> visit list" where
  "visits (Node a ti ts) = Enter a # concat (map visits (rev ts)) @ [Check a]"

fun earlier :: "place \<Rightarrow> visit list" where
  "earlier [] = []"
| "earlier ((ls, a, ti, rs) # c) = concat (map visits (rev ls)) @ Check a # earlier c"

definition visit_hit :: "bool \<Rightarrow> view_world \<Rightarrow> int \<Rightarrow> visit \<Rightarrow> search_result" where
  "visit_hit mode W g x =
     (case x of Enter a \<Rightarrow> (None, the (check_traversable W a)) | Check a \<Rightarrow> (the (check_candidate mode W g a), None))"

definition descent :: "bool \<Rightarrow> tree \<Rightarrow> visit list" where
  "descent down t = (if down then Enter (tr_addr t) # concat (map visits (rev (tr_subs t))) else [])"

lemma visits_eq: "visits t = descent True t @ [Check (tr_addr t)]"
  by (cases t) (simp add: descent_def)

lemma earlier_eq:
  "c \<noteq> [] \<Longrightarrow> earlier c = concat (map visits (rev (ctx_left c))) @ Check (the (ctx_parent c)) # earlier (tl c)"
  by (cases c rule: earlier.cases) simp_all

lemma earlier_sibling:
  assumes "c = (ls @ [l], a, ti, rs) # c'"
  shows "earlier c = visits l @ earlier ((ls, a, ti, t # rs) # c')"
  using assms by simp

text \<open>A search that may not go up stops after the subtree, unless it comes to a sibling, from where it goes up.\<close>

lemma backward_search:
  assumes "window W T w"
  shows "T = plug t c \<Longrightarrow> (down \<Longrightarrow> \<not> check \<Longrightarrow> visit_hit mode W g (Check (tr_addr t)) = (None, None)) \<Longrightarrow>
    \<exists>r. FindPreviousFocusableViewImpl mode W (tr_addr T) g (tr_addr t) check up down = Some r \<and>
      (let near = descent down t @ (if check then [Check (tr_addr t)] else []);
           all = near @ earlier c;
           h = visit_hit mode W g
       in r = first_hit h all \<or> (\<not> up \<and> ctx_left c = [] \<and> r = first_hit h near))"
proof (induction "length (descent down t) + length (earlier c)" arbitrary: t c check up down rule: less_induct)
  case less
  let ?h = "visit_hit mode W g"
  have tT: "tr_addr t \<in> set (preorder T)" unfolding less.prems(1) by (rule in_plug) simp
  obtain v where v: "vw_views W (tr_addr t) = Some v" "v_children v = map tr_addr (tr_subs t)"
    "v_previous_focusable v = map_option tr_addr (last_of (ctx_left c))"
    using view_at [of W t c w] assms less.prems(1) by auto
  have gp: "fs_GetParent W (tr_addr T) (tr_addr t) = Some (ctx_parent c)" using GetParent_at assms less.prems(1) by blast
  let ?F = "FindPreviousFocusableViewImpl mode W (tr_addr T) g"
  let ?C = "concat (map visits (rev (tr_subs t)))"
  have below: "\<exists>r. ?F (tr_addr (last (tr_subs t))) True False True = Some r \<and>
      (r = first_hit ?h (?C @ Check (tr_addr t) # earlier c) \<or> r = first_hit ?h ?C)" if d: "down" and ne: "tr_subs t \<noteq> []"
  proof -
    obtain ds d where ds: "tr_subs t = ds @ [d]" using ne by (metis append_butlast_last_id)
    let ?c = "(ds, tr_addr t, tr_title t, []) # c"
    have T: "T = plug d ?c" using less.prems(1) ds by (cases t) simp
    have "length (descent True d) + length (earlier ?c) < length (descent down t) + length (earlier c)"
      using d ds by (simp add: descent_def [of True t] visits_eq [of d])
    from less.hyps [OF this T, of True False] obtain r where r: "?F (tr_addr d) True False True = Some r"
      "r = first_hit ?h (descent True d @ [Check (tr_addr d)] @ earlier ?c) \<or> ds = [] \<and> r = first_hit ?h (descent True d @ [Check (tr_addr d)])"
      by (auto simp: Let_def)
    have "earlier ?c = concat (map visits (rev ds)) @ Check (tr_addr t) # earlier c" by simp
    then show ?thesis using r ds by (intro exI [of _ r]) (elim disjE; simp add: visits_eq [of d])
  qed
  have sibling: "?F (tr_addr (last (ctx_left c))) True True True = Some (first_hit ?h (earlier c))" if ne: "ctx_left c \<noteq> []"
  proof -
    obtain ls l a ti rs c' where c: "c = (ls @ [l], a, ti, rs) # c'" using ne
      by (cases c rule: earlier.cases) (auto, metis append_butlast_last_id)
    let ?c = "(ls, a, ti, t # rs) # c'"
    have T: "T = plug l ?c" using less.prems(1) c by simp
    have "length (descent True l) + length (earlier ?c) < length (descent down t) + length (earlier c)"
      using earlier_sibling [OF c, of t] by (simp add: visits_eq [of l])
    from less.hyps [OF this T, of True True] c show ?thesis by (simp add: Let_def visits_eq [of l] del: split_paired_Ex)
  qed
  have parent: "case ctx_parent c of None \<Rightarrow> earlier c = [] | Some p \<Rightarrow> ?F p True True False = Some (first_hit ?h (earlier c))"
    if "ctx_left c = []"
  proof (cases c rule: earlier.cases)
    case (2 ls a ti rs c')
    let ?u = "Node a ti (t # rs)"
    have T: "T = plug ?u c'" using less.prems(1) 2 that by simp
    have "length (descent False ?u) + length (earlier c') < length (descent down t) + length (earlier c)"
      using 2 that by (simp add: descent_def)
    from less.hyps [OF this T, of True True] 2 that show ?thesis by (simp add: Let_def descent_def del: split_paired_Ex)
  qed simp
  obtain rest where rest: "(case v_previous_focusable v of
        Some sibling \<Rightarrow> ?F sibling True True True
      | None \<Rightarrow> if \<not> up then Some (None, None)
          else Option.bind (fs_GetParent W (tr_addr T) (tr_addr t)) (\<lambda>parent.
            case parent of Some p \<Rightarrow> ?F p True True False | None \<Rightarrow> Some (None, None))) = Some rest"
    "rest = first_hit ?h (earlier c) \<or> \<not> up \<and> ctx_left c = [] \<and> rest = (None, None)"
    using v(3) gp sibling parent by (cases "ctx_left c = []"; cases up) (auto simp: last_of_def split: option.splits)
  obtain te ce where te: "check_traversable W (tr_addr t) = Some te" and ce: "check_candidate mode W g (tr_addr t) = Some ce"
    using check_view [OF assms tT] by metis
  define e where "e = (if down then te else None)"
  define k where "k = (if check then ce else None)"
  obtain b where b: "(if down \<and> v_children v \<noteq> [] then ?F (last (v_children v)) True False True else Some (None, None)) = Some b"
    "down \<Longrightarrow> b = first_hit ?h (?C @ Check (tr_addr t) # earlier c) \<or> b = first_hit ?h ?C" "\<not> down \<Longrightarrow> b = (None, None)"
    using below v(2) by (cases "down \<and> tr_subs t \<noteq> []") (auto simp: last_map)
  have r: "?F (tr_addr t) check up down = Some (case e of Some x \<Rightarrow> (None, Some x) | None \<Rightarrow>
      if b \<noteq> (None, None) then b else case k of Some f \<Rightarrow> (Some f, None) | None \<Rightarrow> rest)"
    using v(1) te ce b(1) rest(1)
    by (subst FindPreviousFocusableViewImpl.simps) (cases te; cases ce; cases down; cases check; simp add: e_def k_def)
  have hits: "?h (Enter (tr_addr t)) = (None, te)" "?h (Check (tr_addr t)) = (ce, None)"
    using te ce by (simp_all add: visit_hit_def)
  have nc: "down \<Longrightarrow> \<not> check \<Longrightarrow> ce = None" using less.prems(2) hits(2) by simp
  show ?case
    unfolding r Let_def first_hit_append
    using b(2,3) rest(2) hits nc
    by (cases te; cases ce; cases down; cases check; cases "b = (None, None)")
       (auto simp: e_def k_def descent_def first_hit_append simp del: split_paired_Ex)
qed

end
