(* ===== verification/Focus_Traversal.thy ===== *)
theory Focus_Traversal
  imports Focus_Order
begin

text \<open>
  Tab and Shift-Tab. In a window without nested traversables and grouped views the focus goes round the focusable views in
  preorder, in either direction; in general a search returns the first view that may be focused, or the first traversable.
\<close>

section \<open>Searches of a window\<close>

lemma first_hit_some: "first_hit h xs \<noteq> (None, None) \<Longrightarrow> \<exists>x \<in> set xs. first_hit h xs = h x"
  by (induction xs) auto

lemma view_hit_inside:
  assumes "window W T w" and "a \<in> set (preorder T)" and "fst (view_hit mode W g a) = Some f"
  shows "f \<in> set (preorder T)"
  using assms candidate_total [OF assms(1,2), of mode g] by (auto simp: view_hit_def split: option.splits)

lemma hits_inside:
  assumes "window W T w" and "set xs \<subseteq> set (preorder T)" and "\<And>x f. x \<in> set xs \<Longrightarrow> fst (h x) = Some f \<Longrightarrow> f \<in> set (preorder T)"
    and "fst (first_hit h xs) = Some f"
  shows "f \<in> set (preorder T)"
proof -
  have "first_hit h xs \<noteq> (None, None)" using assms(4) by auto
  from first_hit_some [OF this] assms(3,4) show ?thesis by metis
qed

text \<open>The last step of a search keeps a view that is inside.\<close>

lemma keep_inside:
  assumes "window W T w" and "\<And>f. fst r = Some f \<Longrightarrow> f \<in> set (preorder T)"
  shows "(case fst r of
            None \<Rightarrow> Some None
          | Some a \<Rightarrow> if a = tr_addr T then Some (Some a)
                      else do { inside \<leftarrow> view_Contains (vw_views W) (tr_addr T) (Some a); Some (if inside then Some a else None) }) =
         Some (fst r)"
  using assms(2) Contains_root [OF windowD(1) [OF assms(1)]] by (auto split: option.split)

lemma split_place:
  assumes "T = plug t c" and "distinct (preorder T)" and "preorder T = xs @ tr_addr t # ys"
  shows "xs = before c" and "ys = concat (map preorder (tr_subs t)) @ after c"
proof -
  have "preorder T = before c @ tr_addr t # (concat (map preorder (tr_subs t)) @ after c)"
    using assms(1) by (simp add: preorder_plug preorder_subs [of t])
  with assms(2,3) show "xs = before c" "ys = concat (map preorder (tr_subs t)) @ after c"
    by (auto simp: append_eq_append_conv2 Cons_eq_append_conv append_eq_Cons_conv)
qed

definition group_of :: "view_world \<Rightarrow> nat \<Rightarrow> int" where
  "group_of W a = v_group (the (vw_views W a))"

lemma find_forward:
  assumes w: "window W T w" and F: "fs_root F = tr_addr T" and T: "preorder T = xs @ x # ys" and ne: "tr_subs T \<noteq> []"
  shows "find_once F W (Some x) False DOWN False = Some (first_hit (view_hit (fs_accessibility_mode F) W (group_of W x)) ys)"
proof -
  let ?h = "view_hit (fs_accessibility_mode F) W (group_of W x)"
  have x: "x \<in> set (preorder T)" using T by simp
  obtain t c where t: "T = plug t c" "tr_addr t = x" using place_of [OF x] by blast
  have ys: "ys = concat (map preorder (tr_subs t)) @ after c"
    using split_place [OF t(1) windowD(2) [OF w]] T t(2) by simp
  obtain v where v: "vw_views W x = Some v" using vtree_dom [OF windowD(1) [OF w] x] by blast
  obtain r where r: "vw_views W (tr_addr T) = Some r" "v_children r \<noteq> []" using vtree_view [OF windowD(1) [OF w]] ne by auto
  have s: "FindNextFocusableViewImpl (fs_accessibility_mode F) W (tr_addr T) (group_of W x) x False True True = Some (first_hit ?h ys)"
    using forward_search [OF w t(1), of "fs_accessibility_mode F" "group_of W x" False True] t(2) ys by simp
  have in_T: "f \<in> set (preorder T)" if "fst (first_hit ?h ys) = Some f" for f
    using hits_inside [OF w, of ys ?h f] view_hit_inside [OF w] T that by auto
  show ?thesis
    using v r s F keep_inside [OF w, of "first_hit ?h ys", OF in_T] by (simp add: find_once_def group_of_def split_def Let_def)
qed

lemma find_first:
  assumes w: "window W T w" and F: "fs_root F = tr_addr T" and ne: "tr_subs T \<noteq> []"
  shows "find_once F W None False DOWN check = Some (first_hit (view_hit (fs_accessibility_mode F) W (-1)) (tl (preorder T)))"
proof -
  let ?h = "view_hit (fs_accessibility_mode F) W (-1)"
  let ?ys = "tl (preorder T)"
  obtain t rs where ts: "tr_subs T = t # rs" using ne by (cases "tr_subs T") auto
  have t: "T = plug t [([], tr_addr T, tr_title T, rs)]" using ts by (cases T) simp
  obtain r where r: "vw_views W (tr_addr T) = Some r" "v_children r = map tr_addr (t # rs)"
    using vtree_view [OF windowD(1) [OF w]] ts by auto
  have ys: "?ys = tr_addr t # concat (map preorder (tr_subs t)) @ concat (map preorder rs)"
    using ts by (simp add: preorder_subs [of T] preorder_subs [of t])
  have s: "FindNextFocusableViewImpl (fs_accessibility_mode F) W (tr_addr T) (-1) (tr_addr t) True True True = Some (first_hit ?h ?ys)"
    using forward_search [OF w t, of "fs_accessibility_mode F" "-1" True True] ys by simp
  have sub: "set ?ys \<subseteq> set (preorder T)" by (auto simp: preorder_subs [of T])
  have in_T: "f \<in> set (preorder T)" if "fst (first_hit ?h ?ys) = Some f" for f
    using hits_inside [OF w sub, of ?h f] view_hit_inside [OF w] sub that by blast
  show ?thesis
    using r s F keep_inside [OF w, of "first_hit ?h ?ys", OF in_T] by (simp add: find_once_def split_def Let_def)
qed

text \<open>Backwards, the views are checked in the reverse of the preorder.\<close>

definition no_traversables :: "view_world \<Rightarrow> tree \<Rightarrow> bool" where
  "no_traversables W T \<longleftrightarrow> (\<forall>a \<in> set (preorder T). \<forall>v. vw_views W a = Some v \<longrightarrow> v_focus_traversable v = None)"

fun checked :: "visit list \<Rightarrow> nat list" where
  "checked [] = []"
| "checked (Enter a # xs) = checked xs"
| "checked (Check a # xs) = a # checked xs"

lemma checked_append [simp]: "checked (xs @ ys) = checked xs @ checked ys"
  by (induction xs rule: checked.induct) simp_all

lemma checked_concat: "checked (concat xss) = concat (map checked xss)"
  by (induction xss) simp_all

lemma checked_visits: "checked (visits t) = rev (preorder t)"
proof (induction t)
  case (Node a ti ts)
  then have "map (checked \<circ> visits) (rev ts) = map (rev \<circ> preorder) (rev ts)" by simp
  then show ?case by (simp only: visits.simps preorder.simps checked.simps checked_append checked_concat rev.simps rev_concat rev_map map_map)
qed

lemma checked_forest: "checked (concat (map visits (rev ts))) = rev (concat (map preorder ts))"
  by (simp add: checked_concat checked_visits rev_concat rev_map comp_def)

lemma checked_earlier: "checked (earlier c) = rev (before c)"
  by (induction c rule: earlier.induct) (simp_all add: checked_forest)

definition visited :: "visit \<Rightarrow> nat" where
  "visited x = (case x of Enter a \<Rightarrow> a | Check a \<Rightarrow> a)"

lemma visited_simps [simp]: "visited (Enter a) = a" "visited (Check a) = a"
  by (simp_all add: visited_def)

lemma visited_visits: "visited ` set (visits t) = set (preorder t)"
  by (induction t) (auto simp: image_UN)

lemma visited_forest: "visited ` set (concat (map visits (rev ts))) = set (concat (map preorder ts))"
  using visited_visits by (auto simp: image_UN)

lemma visited_descent: "visited ` set (descent down t) \<subseteq> set (preorder t)"
  using visited_forest [of "tr_subs t"] by (auto simp: descent_def preorder_subs [of t])

lemma visited_earlier: "visited ` set (earlier c) = set (before c)"
proof (induction c rule: earlier.induct)
  case (2 ls a ti rs c)
  have "visited ` set (earlier ((ls, a, ti, rs) # c)) =
      visited ` set (concat (map visits (rev ls))) \<union> {a} \<union> visited ` set (earlier c)"
    by (simp only: earlier.simps set_append image_Un list.set image_insert visited_simps) blast
  then show ?case unfolding visited_forest 2 by auto
qed simp

lemma visit_hit_checked:
  assumes "window W T w" and "no_traversables W T" and "visited ` set xs \<subseteq> set (preorder T)"
  shows "first_hit (visit_hit mode W g) xs = first_hit (view_hit mode W g) (checked xs)"
proof -
  have t: "check_traversable W a = Some None" if "a \<in> set (preorder T)" for a
    using vtree_dom [OF windowD(1) [OF assms(1)] that] assms(2) that by (auto simp: no_traversables_def check_traversable_def)
  show ?thesis
    using assms(3) t
    by (induction xs rule: checked.induct) (auto simp: visit_hit_def view_hit_def split: option.splits)
qed

lemma backward_checks:
  assumes w: "window W T w" and nt: "no_traversables W T" and t: "T = plug t c" and cd: "check \<or> \<not> down"
  shows "FindPreviousFocusableViewImpl mode W (tr_addr T) g (tr_addr t) check True down =
    Some (first_hit (view_hit mode W g)
      ((if down then rev (concat (map preorder (tr_subs t))) else []) @ (if check then [tr_addr t] else []) @ rev (before c)))"
proof -
  let ?xs = "descent down t @ (if check then [Check (tr_addr t)] else []) @ earlier c"
  have "visited ` set ?xs \<subseteq> set (preorder T)"
    unfolding t preorder_plug using visited_descent [of down t] visited_earlier [of c] by (auto simp: preorder_subs [of t])
  from visit_hit_checked [OF w nt this, of mode g]
  have "first_hit (visit_hit mode W g) ?xs = first_hit (view_hit mode W g)
      ((if down then rev (concat (map preorder (tr_subs t))) else []) @ (if check then [tr_addr t] else []) @ rev (before c))"
    by (cases check; cases down) (simp_all add: descent_def checked_forest checked_earlier del: map_map)
  then show ?thesis using backward_search [OF w t, of down check mode g True] cd by (auto simp: Let_def simp del: split_paired_Ex)
qed

lemma find_backward:
  assumes w: "window W T w" and nt: "no_traversables W T" and F: "fs_root F = tr_addr T"
    and T: "preorder T = xs @ x # ys" and ne: "tr_subs T \<noteq> []"
    and f: "fs_IsFocusable (fs_accessibility_mode F) W (Some x) = Some True"
  shows "find_once F W (Some x) True DOWN False = Some (first_hit (view_hit (fs_accessibility_mode F) W (group_of W x)) (rev xs))"
proof -
  let ?h = "view_hit (fs_accessibility_mode F) W (group_of W x)"
  have x: "x \<in> set (preorder T)" using T by simp
  obtain t c where t: "T = plug t c" "tr_addr t = x" using place_of [OF x] by blast
  have xs: "xs = before c" using split_place [OF t(1) windowD(2) [OF w]] T t(2) by simp
  obtain v where v: "vw_views W x = Some v" using vtree_dom [OF windowD(1) [OF w] x] by blast
  obtain r where r: "vw_views W (tr_addr T) = Some r" "v_children r \<noteq> []" using vtree_view [OF windowD(1) [OF w]] ne by auto
  have s: "FindPreviousFocusableViewImpl (fs_accessibility_mode F) W (tr_addr T) (group_of W x) x False True False =
      Some (first_hit ?h (rev xs))"
    using backward_checks [OF w nt t(1), of False False] t(2) xs by simp
  have sub: "set (rev xs) \<subseteq> set (preorder T)" using T by auto
  have in_T: "a \<in> set (preorder T)" if "fst (first_hit ?h (rev xs)) = Some a" for a
    using hits_inside [OF w sub, of ?h a] view_hit_inside [OF w] sub that by blast
  show ?thesis
    using v r s F f keep_inside [OF w, of "first_hit ?h (rev xs)", OF in_T] by (simp add: find_once_def group_of_def split_def Let_def)
qed

text \<open>Without a starting view the last child is searched, and its children only if it is not focusable itself.\<close>

lemma find_last:
  assumes w: "window W T w" and nt: "no_traversables W T" and F: "fs_root F = tr_addr T" and ne: "tr_subs T \<noteq> []"
    and f: "fs_IsFocusable (fs_accessibility_mode F) W (Some (tr_addr (last (tr_subs T)))) = Some False \<or> tr_subs (last (tr_subs T)) = []"
  shows "find_once F W None True DOWN check = Some (first_hit (view_hit (fs_accessibility_mode F) W (-1)) (rev (preorder T)))"
proof -
  let ?h = "view_hit (fs_accessibility_mode F) W (-1)"
  let ?ys = "rev (preorder T)"
  obtain ds d where ds: "tr_subs T = ds @ [d]" using ne by (metis append_butlast_last_id)
  let ?c = "[(ds, tr_addr T, tr_title T, [])]"
  have t: "T = plug d ?c" using ds by (cases T) simp
  have d: "tr_addr d \<in> set (preorder T)" by (subst t) (rule in_plug, simp)
  obtain b where b: "fs_IsFocusable (fs_accessibility_mode F) W (Some (tr_addr d)) = Some b" using IsFocusable_total [OF w d] by blast
  obtain r where r: "vw_views W (tr_addr T) = Some r" "v_children r = map tr_addr (ds @ [d])"
    using vtree_view [OF windowD(1) [OF w]] ds by auto
  have "preorder T = before ?c @ tr_addr d # concat (map preorder (tr_subs d))"
    by (subst t) (simp only: preorder_plug preorder_subs [of d] after.simps, simp)
  then have "(if \<not> b then rev (concat (map preorder (tr_subs d))) else []) @ [tr_addr d] @ rev (before ?c) = ?ys"
    using f b ds by auto
  then have s: "FindPreviousFocusableViewImpl (fs_accessibility_mode F) W (tr_addr T) (-1) (tr_addr d) True True (\<not> b) =
      Some (first_hit ?h ?ys)"
    using backward_checks [OF w nt t, of True "\<not> b" "fs_accessibility_mode F" "-1"] by simp
  have in_T: "a \<in> set (preorder T)" if "fst (first_hit ?h ?ys) = Some a" for a
    using hits_inside [OF w, of ?ys ?h a] view_hit_inside [OF w] that by auto
  show ?thesis
    using r s F b keep_inside [OF w, of "first_hit ?h ?ys", OF in_T] by (simp add: find_once_def split_def Let_def)
qed

section \<open>Plain windows\<close>

text \<open>A window without groups, nested traversables and panes, whose root view does not take the focus itself.\<close>

definition plain :: "view_world \<Rightarrow> tree \<Rightarrow> bool" where
  "plain W T \<longleftrightarrow> (\<forall>a \<in> set (preorder T). \<forall>v. vw_views W a = Some v \<longrightarrow>
     v_IsGroupFocusTraversable v \<and> v_focus_traversable v = None \<and> v_pane_focus_traversable v = None)"

definition takes_focus :: "view_world \<Rightarrow> nat \<Rightarrow> bool" where
  "takes_focus W a \<longleftrightarrow> IsFocusable (vw_views W) a = Some True"

definition stops :: "view_world \<Rightarrow> tree \<Rightarrow> nat list" where
  "stops W T = filter (takes_focus W) (preorder T)"

definition tab_window :: "view_world \<Rightarrow> tree \<Rightarrow> nat \<Rightarrow> nat \<Rightarrow> bool" where
  "tab_window W T w fm \<longleftrightarrow>
     window W T w \<and> plain W T \<and> tr_subs T \<noteq> [] \<and> \<not> takes_focus W (tr_addr T) \<and>
     (\<not> takes_focus W (tr_addr (last (tr_subs T))) \<or> tr_subs (last (tr_subs T)) = []) \<and>
     widget_GetFocusManager W w = Some (Some fm) \<and> (\<exists>m. vw_managers W fm = Some m \<and> fm_widget m = w) \<and>
     (\<exists>wd F. vw_widgets W w = Some wd \<and> vw_traversables W (wd_focus_traversable wd) = Some F \<and> fs_root F = tr_addr T \<and>
        \<not> fs_accessibility_mode F \<and> \<not> fs_cycle F \<and> ft_parent F = None)"

lemma plain_hit:
  assumes "window W T w" and "plain W T" and "a \<in> set (preorder T)"
  shows "view_hit False W g a = (if takes_focus W a then Some a else None, None)"
proof -
  obtain v where v: "vw_views W a = Some v" using vtree_dom [OF windowD(1) [OF assms(1)] assms(3)] by blast
  obtain b where b: "IsFocusable (vw_views W) a = Some b" using IsFocusable_total [OF assms(1,3), of False] by (auto simp: fs_IsFocusable_def)
  show ?thesis
    using v b assms(2,3)
    by (auto simp: view_hit_def check_candidate_def IsViewFocusableCandidate_def fs_IsFocusable_def FindSelectedViewForGroup_def
        takes_focus_def plain_def check_traversable_def)
qed

lemma plain_hits:
  assumes "window W T w" and "plain W T" and "set xs \<subseteq> set (preorder T)"
  shows "first_hit (view_hit False W g) xs = (first_of (filter (takes_focus W) xs), None)"
  using assms(3) by (induction xs) (auto simp: plain_hit [OF assms(1,2)])

lemma pane_none:
  assumes "window W T w" and "plain W T" and "a \<in> set (preorder T)"
  shows "pane_traversable (vw_views W) (Some a) = Some None"
proof -
  have step: "pane_traversable (vw_views W) (Some x) = pane_traversable (vw_views W) (v_parent v)"
    if "x \<in> set (preorder T)" "vw_views W x = Some v" for x v
    using assms(2) that by (subst pane_traversable.simps) (auto simp: plain_def)
  have "a \<in> set (preorder T) \<longrightarrow> pane_traversable (vw_views W) (Some a) = Some None"
    by (rule vtree_up [OF windowD(1) [OF assms(1)] assms(3)]) (auto simp: step pane_traversable.simps [of _ None])
  then show ?thesis using assms(3) by blast
qed

lemma next_once_from:
  assumes W: "tab_window W T w fm" and T: "preorder T = xs @ x # ys" and f: "takes_focus W x"
  shows "next_once W fm (Some x) reverse = Some (first_of (filter (takes_focus W) (if reverse then rev xs else ys)))"
proof -
  have w: "window W T w" and p: "plain W T" and ne: "tr_subs T \<noteq> []" using W by (simp_all add: tab_window_def)
  obtain wd F where F: "vw_widgets W w = Some wd" "vw_traversables W (wd_focus_traversable wd) = Some F" "fs_root F = tr_addr T"
    "\<not> fs_accessibility_mode F" "\<not> fs_cycle F" "ft_parent F = None" using W by (auto simp: tab_window_def)
  have x: "x \<in> set (preorder T)" using T by simp
  obtain v where v: "vw_views W x = Some v" using vtree_dom [OF windowD(1) [OF w] x] by blast
  have v': "v_focus_traversable v = None" using p x v by (auto simp: plain_def)
  obtain r where r: "vw_views W (tr_addr T) = Some r" using vtree_view [OF windowD(1) [OF w]] by auto
  have nt: "no_traversables W T" using p by (simp add: plain_def no_traversables_def)
  have start: "start_of_search W fm (Some x) reverse = Some (wd_focus_traversable wd, Some x)"
    using pane_none [OF w p x] v v' GetWidget_window [OF w x] F(1) by (simp add: start_of_search_def)
  have sub: "set xs \<subseteq> set (preorder T)" "set ys \<subseteq> set (preorder T)" "set (rev xs) \<subseteq> set (preorder T)" using T by auto
  have "find_once F W (Some x) reverse DOWN False = Some (first_of (filter (takes_focus W) (if reverse then rev xs else ys)), None)"
  proof (cases reverse)
    case True
    have "fs_IsFocusable (fs_accessibility_mode F) W (Some x) = Some True"
      using f F(4) by (simp add: fs_IsFocusable_def takes_focus_def)
    then show ?thesis using find_backward [OF w nt F(3) T ne] plain_hits [OF w p sub(3)] F(4) True by simp
  next
    case False
    then show ?thesis using find_forward [OF w F(3) T ne] plain_hits [OF w p sub(2)] F(4) by simp
  qed
  then have "FindFocusableView W (wd_focus_traversable wd) (Some x) reverse =
      Some (first_of (filter (takes_focus W) (if reverse then rev xs else ys)))"
    using F r by (subst FindFocusableView.simps) (simp add: FindNextFocusableView_def)
  then show ?thesis using start F by (auto simp: next_once_def search_parents.simps)
qed

lemma next_once_none:
  assumes W: "tab_window W T w fm"
  shows "next_once W fm None reverse = Some (if reverse then last_of (stops W T) else first_of (stops W T))"
proof -
  have w: "window W T w" and p: "plain W T" and ne: "tr_subs T \<noteq> []" and rt: "\<not> takes_focus W (tr_addr T)"
    using W by (simp_all add: tab_window_def)
  obtain wd F m where F: "vw_widgets W w = Some wd" "vw_traversables W (wd_focus_traversable wd) = Some F" "fs_root F = tr_addr T"
    "\<not> fs_accessibility_mode F" "\<not> fs_cycle F" "ft_parent F = None" and m: "vw_managers W fm = Some m" "fm_widget m = w"
    using W by (auto simp: tab_window_def)
  obtain r where r: "vw_views W (tr_addr T) = Some r" using vtree_view [OF windowD(1) [OF w]] by auto
  have nt: "no_traversables W T" using p by (simp add: plain_def no_traversables_def)
  have start: "start_of_search W fm None reverse = Some (wd_focus_traversable wd, None)"
    using m F(1) by (simp add: start_of_search_def)
  have "find_once F W None reverse DOWN False = Some (if reverse then last_of (stops W T) else first_of (stops W T), None)"
  proof (cases reverse)
    case True
    let ?d = "last (tr_subs T)"
    have "tr_addr ?d \<in> set (preorder T)" using ne by (auto simp: preorder_subs [of T] intro!: bexI [of _ ?d])
    then obtain b where "fs_IsFocusable False W (Some (tr_addr ?d)) = Some b" using IsFocusable_total [OF w] by blast
    then have f: "fs_IsFocusable (fs_accessibility_mode F) W (Some (tr_addr ?d)) = Some False \<or> tr_subs ?d = []"
      using W F(4) by (auto simp: tab_window_def takes_focus_def fs_IsFocusable_def)
    have "first_of (filter (takes_focus W) (rev (preorder T))) = last_of (stops W T)"
      by (cases "stops W T" rule: rev_cases) (simp_all add: stops_def rev_filter [symmetric])
    then show ?thesis using find_last [OF w nt F(3) ne f, of False] plain_hits [OF w p, of "rev (preorder T)"] F(4) True by simp
  next
    case False
    have "filter (takes_focus W) (tl (preorder T)) = stops W T" using rt by (simp add: stops_def preorder_subs [of T])
    moreover have "set (tl (preorder T)) \<subseteq> set (preorder T)" by (auto simp: preorder_subs [of T])
    ultimately show ?thesis using find_first [OF w F(3) ne, of False] plain_hits [OF w p] F(4) False by simp
  qed
  then have "FindFocusableView W (wd_focus_traversable wd) None reverse =
      Some (if reverse then last_of (stops W T) else first_of (stops W T))"
    using F r by (subst FindFocusableView.simps) (simp add: FindNextFocusableView_def)
  then show ?thesis using start F by (auto simp: next_once_def search_parents.simps)
qed

section \<open>Moving the focus\<close>

text \<open>The stop after or before the one at an index, going round.\<close>

definition turn :: "bool \<Rightarrow> nat \<Rightarrow> nat \<Rightarrow> nat" where
  "turn reverse n i = (if reverse then (if i = 0 then n - 1 else i - 1) else (if Suc i < n then Suc i else 0))"

definition focused_in :: "view_world \<Rightarrow> nat \<Rightarrow> nat option" where
  "focused_in W fm = Option.bind (vw_managers W fm) fm_focused_view"

lemma filter_split:
  assumes "distinct xs" and "i < length (filter P xs)"
  obtains as bs where "xs = as @ filter P xs ! i # bs" "filter P as = take i (filter P xs)" "filter P bs = drop (Suc i) (filter P xs)"
proof -
  let ?x = "filter P xs ! i"
  have m: "?x \<in> set xs" "P ?x" using assms(2) nth_mem [of i "filter P xs"] by auto
  obtain as bs where s: "xs = as @ ?x # bs" using split_list [OF m(1)] by blast
  have f: "filter P xs = filter P as @ ?x # filter P bs" using m(2) by (subst s) simp
  moreover have "length (filter P as) = i"
  proof -
    have "filter P xs ! length (filter P as) = ?x" by (subst f) simp
    moreover have "length (filter P as) < length (filter P xs)" by (subst f) simp
    ultimately show ?thesis using assms nth_eq_iff_index_eq [of "filter P xs"] by simp
  qed
  ultimately have "filter P as = take i (filter P xs)" "filter P bs = drop (Suc i) (filter P xs)"
    by (metis append_eq_conv_conj, metis append_eq_conv_conj drop_Suc list.sel(3) tl_drop)
  then show thesis using s that by blast
qed

lemma GetFocusManager_managers [simp]: "widget_GetFocusManager (W\<lparr>vw_managers := ms\<rparr>) w = widget_GetFocusManager W w"
  by (simp add: widget_GetFocusManager_def cong: option.case_cong)

lemma SetFocused_inside:
  assumes "window W T w" and "vw_managers W fm = Some m" and "fm_focused_view m = Some a" and "a \<in> set (preorder T)"
    and "b \<in> set (preorder T)" and "widget_GetFocusManager W w = Some (Some fm)"
  shows "\<exists>m'. SetFocusedViewWithReason fm (Some b) reason W = Some (W\<lparr>vw_managers := (vw_managers W)(fm \<mapsto> m')\<rparr>) \<and>
    fm_focused_view m' = Some b \<and> fm_widget m' = fm_widget m"
proof (cases "a = b")
  case True
  then show ?thesis using assms(2,3) by (intro exI [of _ m]) (simp add: SetFocusedViewWithReason_def map_upd_triv)
next
  case False
  obtain v where "vw_views W a = Some v" using vtree_dom [OF windowD(1) [OF assms(1)] assms(4)] by blast
  moreover have "GetFocusManager (W\<lparr>vw_managers := ms\<rparr>) b = Some (Some fm)" for ms
    using GetWidget_window [OF assms(1,5)] assms(6) by (simp add: GetFocusManager_def)
  ultimately show ?thesis
    using assms(2,3) False GetWidget_window [OF assms(1,5)]
    by (simp add: SetFocusedViewWithReason_def upd_manager_def view_Blur_def view_Focus_def Let_def) (rule exI, rule conjI, rule refl, simp)
qed

lemma tab_window_managers:
  assumes "tab_window W T w fm" and "fm_widget m = w"
  shows "tab_window (W\<lparr>vw_managers := (vw_managers W)(fm \<mapsto> m)\<rparr>) T w fm"
  using assms by (simp add: tab_window_def window_def plain_def takes_focus_def)

lemma AdvanceFocus_turn:
  assumes W: "tab_window W T w fm" and i: "i < length (stops W T)" and f: "focused_in W fm = Some (stops W T ! i)"
  shows "\<exists>m. AdvanceFocus fm reverse W = Some (W\<lparr>vw_managers := (vw_managers W)(fm \<mapsto> m)\<rparr>) \<and> fm_widget m = w \<and>
    fm_focused_view m = Some (stops W T ! turn reverse (length (stops W T)) i)"
proof -
  let ?s = "stops W T"
  let ?x = "?s ! i"
  have w: "window W T w" using W by (simp add: tab_window_def)
  obtain m where m: "vw_managers W fm = Some m" "fm_widget m = w" and g: "widget_GetFocusManager W w = Some (Some fm)"
    using W by (auto simp: tab_window_def)
  have fm: "fm_focused_view m = Some ?x" using f m(1) by (simp add: focused_in_def)
  have inT: "set ?s \<subseteq> set (preorder T)" by (auto simp: stops_def)
  have x: "?x \<in> set (preorder T)" "takes_focus W ?x" using nth_mem [OF i] by (auto simp: stops_def)
  obtain xs ys where T: "preorder T = xs @ ?x # ys" "filter (takes_focus W) xs = take i ?s" "filter (takes_focus W) ys = drop (Suc i) ?s"
    using filter_split [OF windowD(2) [OF w], of i "takes_focus W"] i by (auto simp: stops_def)
  have valid: "ValidateFocusedView fm W = Some W"
    using m fm g GetWidget_window [OF w x(1)] by (simp add: ValidateFocusedView_def fm_ContainsView_def GetFocusManager_def)
  have n1: "next_once W fm (Some ?x) reverse =
      Some (if reverse then last_of (take i ?s) else first_of (drop (Suc i) ?s))"
    using next_once_from [OF W T(1) x(2), of reverse] T(2,3)
    by (cases "take i ?s" rule: rev_cases) (auto simp: rev_filter [symmetric])
  have "GetNextFocusableView fm (Some ?x) reverse False W = Some (Some (?s ! turn reverse (length ?s) i), W)"
  proof (cases "if reverse then i = 0 else \<not> Suc i < length ?s")
    case True
    then have "next_once W fm (Some ?x) reverse = Some None" using n1 i by (auto split: if_splits)
    then show ?thesis
      using True i valid next_once_none [OF W, of reverse]
      by (auto simp: GetNextFocusableView_def turn_def last_of_def first_of_def last_conv_nth split: if_splits list.splits)
  next
    case False
    then have "next_once W fm (Some ?x) reverse = Some (Some (?s ! turn reverse (length ?s) i))"
      using n1 i by (auto simp: turn_def last_of_def first_of_def last_conv_nth Cons_nth_drop_Suc [symmetric] split: if_splits)
    then show ?thesis using valid by (simp add: GetNextFocusableView_def)
  qed
  moreover have "?s ! turn reverse (length ?s) i \<in> set (preorder T)"
    using inT i by (auto simp: turn_def intro!: subsetD [OF inT] nth_mem)
  ultimately show ?thesis
    using SetFocused_inside [OF w m(1) fm x(1) _ g, of "?s ! turn reverse (length ?s) i" kReasonFocusTraversal] m fm
    by (auto simp: AdvanceFocus_def)
qed

fun advance_times :: "nat \<Rightarrow> nat \<Rightarrow> bool \<Rightarrow> view_world \<Rightarrow> view_world option" where
  "advance_times 0 fm reverse W = Some W"
| "advance_times (Suc k) fm reverse W = AdvanceFocus fm reverse W \<bind> advance_times k fm reverse"

definition go_round :: "bool \<Rightarrow> nat \<Rightarrow> nat \<Rightarrow> nat \<Rightarrow> nat" where
  "go_round reverse n i k = nat ((int i + (if reverse then - int k else int k)) mod int n)"

lemma go_round_Suc: "i < n \<Longrightarrow> go_round reverse n (turn reverse n i) k = go_round reverse n i (Suc k)"
proof -
  assume i: "i < n"
  have "int (turn reverse n i) mod int n = (int i + (if reverse then -1 else 1)) mod int n"
  proof (cases reverse)
    case True
    then show ?thesis using i by (cases "i = 0") (auto simp: turn_def zmod_minus1 of_nat_diff)
  next
    case False
    then show ?thesis using i by (cases "n = Suc i") (auto simp: turn_def add.commute)
  qed
  then have m: "(int (turn reverse n i) + d) mod int n = (int i + (if reverse then -1 else 1) + d) mod int n" for d
    by (metis mod_add_left_eq)
  have "int i + (if reverse then -1 else 1) + (if reverse then - int k else int k) =
      int i + (if reverse then - int (Suc k) else int (Suc k))" by simp
  then show ?thesis using m [of "if reverse then - int k else int k"] by (simp only: go_round_def)
qed



section \<open>An example\<close>

text \<open>A window with the views 1 (with the child 3) and 2, of which 2 and 3 take the focus, and 3 has it.\<close>

definition demo_view :: "nat option \<Rightarrow> nat list \<Rightarrow> nat option \<Rightarrow> nat option \<Rightarrow> bool \<Rightarrow> view" where
  "demo_view p cs prev next takes =
     mk_View\<lparr>v_parent := p, v_children := cs, v_previous_focusable := prev, v_next_focusable := next, v_focusable := takes\<rparr>"

definition demo_world :: view_world where
  "demo_world =
     \<lparr>vw_views = [0 \<mapsto> (demo_view None [1, 2] None None False)\<lparr>v_root_of := Some 0\<rparr>, 1 \<mapsto> demo_view (Some 0) [3] None (Some 2) False,
                  2 \<mapsto> demo_view (Some 0) [] (Some 1) None True, 3 \<mapsto> demo_view (Some 1) [] None None True],
      vw_traversables = [0 \<mapsto> \<lparr>fs_root = 0, fs_cycle = False, fs_accessibility_mode = False, ft_parent = None, ft_parent_view = None\<rparr>],
      vw_widgets = [0 \<mapsto> \<lparr>wd_top_level = Some 0, wd_focus_manager = Some 0, wd_root_view = 0, wd_focus_traversable = 0,
        wd_dragged_view = None, rv_mouse_pressed_handler = None, rv_explicit_mouse_handler = False, rv_mouse_move_handler = None,
        rv_touch_pressed_handler = None, rv_gesture_handler = None\<rparr>],
      vw_managers = [0 \<mapsto> \<lparr>fm_widget = 0, fm_focused_view = Some 3, fm_accelerator_manager = am_init, fm_stored_view_id = 0,
        fm_focus_change_reason = kReasonDirectFocusChange, fm_should_handle_menu_key_release = False, fm_notified = []\<rparr>],
      vw_storage = \<lparr>vs_next_id = 1, vs_id_to_view = Map.empty, vs_view_to_ids = Map.empty\<rparr>\<rparr>"

definition demo_tree :: tree where
  "demo_tree = Node 0 [] [Node 1 [] [Node 3 [] []], Node 2 [] []]"

lemma demo_window: "window demo_world demo_tree 0"
  by (simp add: window_def demo_world_def demo_tree_def demo_view_def mk_View_def)

lemma demo_focusable:
  "IsFocusable (vw_views demo_world) 0 = Some False" "IsFocusable (vw_views demo_world) 1 = Some False"
  "IsFocusable (vw_views demo_world) 2 = Some True" "IsFocusable (vw_views demo_world) 3 = Some True"
  by (simp_all add: IsFocusable_def IsDrawn.simps demo_world_def demo_view_def mk_View_def)

lemma demo_tab_window: "tab_window demo_world demo_tree 0 0"
  using demo_window demo_focusable
  by (simp add: tab_window_def takes_focus_def) (simp add: plain_def widget_GetFocusManager_def demo_world_def demo_tree_def demo_view_def mk_View_def)

lemma demo_stops: "stops demo_world demo_tree = [3, 2]"
  using demo_focusable by (simp add: stops_def takes_focus_def demo_tree_def)



end
