(* ===== verification/View_Notify.thy ===== *)
theory View_Notify
  imports View_Order
begin

text \<open>
  The notifications that run while a view is added to or removed from a hierarchy: they return, they leave the hierarchy
  as it is, and on removal they clear every pointer to the views that leave.
\<close>

section \<open>Groves\<close>

text \<open>The parent and child pointers of a tree, whatever the focus links are.\<close>

fun ptree :: "view_store \<Rightarrow> nat option \<Rightarrow> tree \<Rightarrow> bool" where
  "ptree s p (Node a ti ts) =
     ((\<exists>v. s a = Some v \<and> v_parent v = p \<and> v_children v = map tr_addr ts) \<and> (\<forall>t \<in> set ts. ptree s (Some a) t))"

lemma vtree_ptree: "vtree s p t \<Longrightarrow> ptree s p t"
  by (induction t arbitrary: p) auto

lemma ptree_view: "ptree s p t \<Longrightarrow> \<exists>v. s (tr_addr t) = Some v \<and> v_parent v = p \<and> v_children v = map tr_addr (tr_subs t)"
  by (cases t) auto

lemma ptree_sub: "ptree s p t \<Longrightarrow> c \<in> set (tr_subs t) \<Longrightarrow> ptree s (Some (tr_addr t)) c"
  by (cases t) auto

lemma ptree_dom: "ptree s p t \<Longrightarrow> a \<in> set (preorder t) \<Longrightarrow> \<exists>v. s a = Some v"
  by (induction t arbitrary: p) fastforce

lemma ptree_up:
  assumes "ptree s p t" and "a \<in> set (preorder t)"
    and root: "\<And>v. s (tr_addr t) = Some v \<Longrightarrow> v_parent v = p \<Longrightarrow> P (tr_addr t)"
    and up: "\<And>a b v. s a = Some v \<Longrightarrow> v_parent v = Some b \<Longrightarrow> b \<in> set (preorder t) \<Longrightarrow> P b \<Longrightarrow> P a"
  shows "P a"
  using assms
proof (induction t arbitrary: p)
  case (Node r ti ts)
  have r: "P r" using Node.prems(1,3) by auto
  show ?case
  proof (cases "a = r")
    case False
    then obtain c where c: "c \<in> set ts" "a \<in> set (preorder c)" using Node.prems(2) by auto
    have vc: "ptree s (Some r) c" using Node.prems(1) c(1) by simp
    show ?thesis
    proof (rule Node.IH [OF c(1) vc c(2)])
      show "P (tr_addr c)" if "s (tr_addr c) = Some v" "v_parent v = Some r" for v
        using Node.prems(4) [OF that _ r] by simp
      show "P x" if "s x = Some v" "v_parent v = Some b" "b \<in> set (preorder c)" "P b" for x b v
        using Node.prems(4) [OF that(1,2) _ that(4)] that(3) c(1) by auto
    qed
  qed (use r in simp)
qed

text \<open>A store of views as trees.\<close>

definition grove :: "view_store \<Rightarrow> tree list \<Rightarrow> bool" where
  "grove s F \<longleftrightarrow> distinct (concat (map preorder F)) \<and> dom s = set (concat (map preorder F)) \<and> (\<forall>t \<in> set F. ptree s None t) \<and>
     (\<forall>a v. s a = Some v \<longrightarrow> v_parent v \<noteq> None \<longrightarrow> v_root_of v = None)"

lemma grove_tree: "grove s F \<Longrightarrow> s a = Some v \<Longrightarrow> \<exists>t \<in> set F. a \<in> set (preorder t) \<and> ptree s None t"
  by (auto simp: grove_def dom_def set_eq_iff)

text \<open>Induction from a view of a grove to its root.\<close>

lemma grove_up:
  assumes "grove s F" and "s a = Some v"
    and root: "\<And>a v. s a = Some v \<Longrightarrow> v_parent v = None \<Longrightarrow> P a"
    and up: "\<And>a v b u. s a = Some v \<Longrightarrow> v_parent v = Some b \<Longrightarrow> s b = Some u \<Longrightarrow> v_root_of v = None \<Longrightarrow> P b \<Longrightarrow> P a"
  shows "P a"
proof -
  obtain t where t: "a \<in> set (preorder t)" "ptree s None t" using grove_tree [OF assms(1,2)] by blast
  show ?thesis
  proof (rule ptree_up [OF t(2,1)])
    show "P (tr_addr t)" if "s (tr_addr t) = Some v" "v_parent v = None" for v using root that by blast
    show "P x" if "s x = Some v" "v_parent v = Some b" "b \<in> set (preorder t)" "P b" for x b v
      using up [OF that(1,2) _ _ that(4)] ptree_dom [OF t(2) that(3)] assms(1) that(1,2) by (auto simp: grove_def)
  qed
qed

lemma grove_parent: "grove s F \<Longrightarrow> s a = Some v \<Longrightarrow> v_parent v = Some b \<Longrightarrow> \<exists>u. s b = Some u"
proof -
  assume g: "grove s F" and a: "s a = Some v" and b: "v_parent v = Some b"
  have "\<forall>v b. s a = Some v \<longrightarrow> v_parent v = Some b \<longrightarrow> (\<exists>u. s b = Some u)"
    by (rule grove_up [OF g a]) auto
  then show ?thesis using a b by blast
qed

lemma GetWidget_total: "grove s F \<Longrightarrow> s a = Some v \<Longrightarrow> \<exists>w. GetWidget s a = Some w"
  by (erule grove_up, assumption) (auto simp: GetWidget.simps split: option.splits)

lemma Contains_total: "grove s F \<Longrightarrow> s a = Some v \<Longrightarrow> \<exists>b. view_Contains s x (Some a) = Some b"
  by (erule grove_up, assumption) (auto simp: view_Contains.simps [of _ _ "Some _"] view_Contains.simps [of _ _ None])

text \<open>The widget a view reports is the one of a root view above it.\<close>

lemma GetWidget_root: "grove s F \<Longrightarrow> s a = Some v \<Longrightarrow> GetWidget s a = Some (Some w) \<Longrightarrow> \<exists>r u. s r = Some u \<and> v_root_of u = Some w"
proof -
  assume g: "grove s F" and a: "s a = Some v" and w: "GetWidget s a = Some (Some w)"
  have "GetWidget s a = Some (Some w) \<longrightarrow> (\<exists>r u. s r = Some u \<and> v_root_of u = Some w)"
    by (rule grove_up [OF g a]) (auto simp: GetWidget.simps split: option.splits)
  then show ?thesis using w by blast
qed

section \<open>What notifications leave alone\<close>

definition core :: "view \<Rightarrow> view" where
  "core v = v\<lparr>v_registered_for_visible_bounds := False, v_descendants_to_notify := None, v_needs_layout := False,
     v_accelerators := None, v_accelerator_registration_delayed := False, v_accelerator_focus_manager := None,
     v_registered_accelerator_count := 0\<rparr>"

definition same_core :: "view_store \<Rightarrow> view_store \<Rightarrow> bool" where
  "same_core s s' \<longleftrightarrow> (\<forall>a. map_option core (s' a) = map_option core (s a))"

lemma core_fields:
  assumes "core u = core v"
  shows "v_parent u = v_parent v" "v_children u = v_children v" "v_next_focusable u = v_next_focusable v"
    "v_previous_focusable u = v_previous_focusable v" "v_root_of u = v_root_of v" "v_NeedsNotification u = v_NeedsNotification v"
    "v_owned_by_client u = v_owned_by_client v"
  using arg_cong [OF assms, of v_parent] arg_cong [OF assms, of v_children] arg_cong [OF assms, of v_next_focusable]
    arg_cong [OF assms, of v_previous_focusable] arg_cong [OF assms, of v_root_of] arg_cong [OF assms, of v_NeedsNotification]
    arg_cong [OF assms, of v_owned_by_client]
  by (simp_all add: core_def)

lemma same_core_refl [simp]: "same_core s s"
  by (simp add: same_core_def)

lemma same_core_trans: "same_core s t \<Longrightarrow> same_core t u \<Longrightarrow> same_core s u"
  by (simp add: same_core_def)

lemma same_core_sym: "same_core s t \<Longrightarrow> same_core t s"
  by (simp add: same_core_def)

lemma same_coreD: "same_core s s' \<Longrightarrow> s a = Some v \<Longrightarrow> \<exists>v'. s' a = Some v' \<and> core v' = core v"
  by (metis same_core_def map_option_eq_Some)

lemma same_core_upd: "(\<And>v. core (f v) = core v) \<Longrightarrow> same_core (vw_views W) (vw_views (upd_view a f W))"
  by (simp add: same_core_def upd_view_def option.map_comp comp_def)

lemma same_core_ptree: "same_core s s' \<Longrightarrow> ptree s p t \<Longrightarrow> ptree s' p t"
proof (induction t arbitrary: p)
  case (Node a ti ts)
  obtain v where v: "s a = Some v" "v_parent v = p" "v_children v = map tr_addr ts" using Node.prems(2) by auto
  obtain v' where v': "s' a = Some v'" "core v' = core v" using same_coreD [OF Node.prems(1) v(1)] by blast
  have "v_parent v' = p" "v_children v' = map tr_addr ts" using core_fields [OF v'(2)] v by simp_all
  then show ?case using Node v'(1) by simp
qed

lemma same_core_dom: "same_core s s' \<Longrightarrow> dom s' = dom s"
  unfolding same_core_def dom_def by (metis map_option_is_None)

lemma same_core_grove: "same_core s s' \<Longrightarrow> grove s F \<Longrightarrow> grove s' F"
proof -
  assume c: "same_core s s'" and g: "grove s F"
  have "v_root_of v = None" if v: "s' a = Some v" "v_parent v \<noteq> None" for a v
  proof -
    obtain u where u: "s a = Some u" "core u = core v" using same_coreD [OF same_core_sym [OF c] v(1)] by blast
    then show ?thesis using core_fields [OF u(2)] v(2) g by (auto simp: grove_def)
  qed
  then show ?thesis using g same_core_dom [OF c] same_core_ptree [OF c] by (simp add: grove_def)
qed

lemma same_core_linked: "same_core s s' \<Longrightarrow> linked s l as \<Longrightarrow> linked s' l as"
proof (induction as arbitrary: l)
  case (Cons a as)
  obtain v where v: "s a = Some v" "v_previous_focusable v = l" "v_next_focusable v = (case as of [] \<Rightarrow> None | b # _ \<Rightarrow> Some b)"
    using Cons.prems(2) by auto
  obtain v' where v': "s' a = Some v'" "core v' = core v" using same_coreD [OF Cons.prems(1) v(1)] by blast
  show ?case using Cons v v'(1) core_fields [OF v'(2)] by simp
qed simp

lemma same_core_vtree: "same_core s s' \<Longrightarrow> vtree s p t \<Longrightarrow> vtree s' p t"
proof (induction t arbitrary: p)
  case (Node a ti ts)
  obtain v where v: "s a = Some v" "v_parent v = p" "v_children v = map tr_addr ts" using Node.prems(2) by auto
  obtain v' where v': "s' a = Some v'" "core v' = core v" using same_coreD [OF Node.prems(1) v(1)] by blast
  show ?case using Node v v'(1) core_fields [OF v'(2)] same_core_linked [OF Node.prems(1)] by simp
qed

lemma same_core_GetWidget:
  assumes "same_core s s'" and "grove s F" and "s a = Some v"
  shows "GetWidget s' a = GetWidget s a"
proof (rule grove_up [OF assms(2,3)])
  show "GetWidget s' a = GetWidget s a" if a: "s a = Some v" "v_parent v = None" for a v
  proof -
    obtain v' where v': "s' a = Some v'" "core v' = core v" using same_coreD [OF assms(1) a(1)] by blast
    show ?thesis using a v'(1) core_fields [OF v'(2)] by (simp add: GetWidget.simps [of _ a] split: option.split)
  qed
  show "GetWidget s' a = GetWidget s a" if a: "s a = Some v" "v_parent v = Some b" "GetWidget s' b = GetWidget s b" for a v b
  proof -
    obtain v' where v': "s' a = Some v'" "core v' = core v" using same_coreD [OF assms(1) a(1)] by blast
    show ?thesis using a v'(1) core_fields [OF v'(2)] by (simp add: GetWidget.simps [of _ a] split: option.split)
  qed
qed

section \<open>Sound worlds\<close>

definition storage_ok :: "view_storage \<Rightarrow> bool" where
  "storage_ok S \<longleftrightarrow>
     (\<forall>v ids. vs_view_to_ids S v = Some ids \<longrightarrow> ids \<noteq> [] \<and> distinct ids \<and> (\<forall>i \<in> set ids. vs_id_to_view S i = Some v)) \<and>
     (\<forall>i v. vs_id_to_view S i = Some v \<longrightarrow> (\<exists>ids. vs_view_to_ids S v = Some ids \<and> i \<in> set ids))"

text \<open>The targets of an accelerator; a priority handler is not a view.\<close>

definition am_targets :: "nat accelerator_manager \<Rightarrow> accelerator \<Rightarrow> nat set" where
  "am_targets m a = set (snd (am_entry a m))"

definition priority_ok :: "nat set \<Rightarrow> nat accelerator_manager \<Rightarrow> bool" where
  "priority_ok D m \<longleftrightarrow> (\<forall>a. fst (am_entry a m) \<longrightarrow> snd (am_entry a m) \<noteq> [] \<and> hd (snd (am_entry a m)) \<notin> D)"

definition view_ok :: "view_world \<Rightarrow> nat \<Rightarrow> view \<Rightarrow> bool" where
  "view_ok W a v \<longleftrightarrow>
     (\<forall>as. v_accelerators v = Some as \<longrightarrow> v_registered_accelerator_count v \<le> length as) \<and>
     (v_accelerator_focus_manager v = None \<longrightarrow> v_registered_accelerator_count v = 0) \<and>
     (\<forall>fm. v_accelerator_focus_manager v = Some fm \<longrightarrow>
        v_accelerators v \<noteq> None \<and> GetFocusManager W a = Some (Some fm)) \<and>
     (\<forall>w. v_root_of v = Some w \<longrightarrow> vw_widgets W w \<noteq> None)"

definition widget_ok :: "view_world \<Rightarrow> widget \<Rightarrow> bool" where
  "widget_ok W wd \<longleftrightarrow>
     (\<forall>t. wd_top_level wd = Some t \<longrightarrow>
        (\<exists>wt. vw_widgets W t = Some wt \<and> (\<forall>fm. wd_focus_manager wt = Some fm \<longrightarrow> vw_managers W fm \<noteq> None)))"

definition manager_ok :: "view_world \<Rightarrow> nat \<Rightarrow> focus_manager \<Rightarrow> bool" where
  "manager_ok W fm m \<longleftrightarrow>
     (\<forall>a. fm_focused_view m = Some a \<longrightarrow> vw_views W a \<noteq> None) \<and>
     priority_ok (dom (vw_views W)) (fm_accelerator_manager m) \<and>
     (\<forall>acc x v. x \<in> am_targets (fm_accelerator_manager m) acc \<longrightarrow> vw_views W x = Some v \<longrightarrow>
        v_accelerator_focus_manager v = Some fm)"

text \<open>A view that is registered for its visible bounds is in the list of every view above it.\<close>

definition parent_of :: "view_store \<Rightarrow> nat \<Rightarrow> nat \<Rightarrow> bool" where
  "parent_of s a b \<longleftrightarrow> (\<exists>v. s a = Some v \<and> v_parent v = Some b)"

definition listed :: "view_store \<Rightarrow> nat \<Rightarrow> nat \<Rightarrow> bool" where
  "listed s a b \<longleftrightarrow> (\<exists>u ds. s b = Some u \<and> v_descendants_to_notify u = Some ds \<and> a \<in> set ds)"

definition bounds_ok :: "view_store \<Rightarrow> bool" where
  "bounds_ok s \<longleftrightarrow>
     (\<forall>a v. s a = Some v \<longrightarrow> v_registered_for_visible_bounds v \<longrightarrow>
        v_NeedsNotification v \<and> GetWidget s a \<noteq> Some None \<and> (\<forall>b. (parent_of s)\<^sup>+\<^sup>+ a b \<longrightarrow> listed s a b))"

definition sound :: "view_world \<Rightarrow> tree list \<Rightarrow> bool" where
  "sound W F \<longleftrightarrow> grove (vw_views W) F \<and> storage_ok (vw_storage W) \<and> bounds_ok (vw_views W) \<and>
     (\<forall>a v. vw_views W a = Some v \<longrightarrow> view_ok W a v) \<and> (\<forall>w wd. vw_widgets W w = Some wd \<longrightarrow> widget_ok W wd) \<and>
     (\<forall>fm m. vw_managers W fm = Some m \<longrightarrow> manager_ok W fm m)"

lemma soundD:
  assumes "sound W F"
  shows "grove (vw_views W) F" "storage_ok (vw_storage W)" "bounds_ok (vw_views W)"
    "vw_views W a = Some v \<Longrightarrow> view_ok W a v" "vw_widgets W w = Some wd \<Longrightarrow> widget_ok W wd"
    "vw_managers W fm = Some m \<Longrightarrow> manager_ok W fm m"
  using assms by (auto simp: sound_def)

text \<open>What a notification of a removal may do: clear pointers, and nothing else that matters here.\<close>

definition cleared :: "nat option \<Rightarrow> nat option \<Rightarrow> bool" where
  "cleared p q \<longleftrightarrow> q = None \<or> q = p"

definition widget_quiet :: "widget \<Rightarrow> widget \<Rightarrow> bool" where
  "widget_quiet a b \<longleftrightarrow>
     wd_top_level b = wd_top_level a \<and> wd_focus_manager b = wd_focus_manager a \<and> wd_root_view b = wd_root_view a \<and>
     wd_focus_traversable b = wd_focus_traversable a \<and> rv_explicit_mouse_handler b = rv_explicit_mouse_handler a \<and>
     cleared (wd_dragged_view a) (wd_dragged_view b) \<and> cleared (rv_mouse_pressed_handler a) (rv_mouse_pressed_handler b) \<and>
     cleared (rv_mouse_move_handler a) (rv_mouse_move_handler b) \<and>
     cleared (rv_touch_pressed_handler a) (rv_touch_pressed_handler b) \<and> cleared (rv_gesture_handler a) (rv_gesture_handler b)"

definition manager_quiet :: "focus_manager \<Rightarrow> focus_manager \<Rightarrow> bool" where
  "manager_quiet a b \<longleftrightarrow>
     fm_widget b = fm_widget a \<and> cleared (fm_focused_view a) (fm_focused_view b) \<and>
     (\<forall>acc. am_targets (fm_accelerator_manager b) acc \<subseteq> am_targets (fm_accelerator_manager a) acc)"

definition bounds_part :: "view \<Rightarrow> bool \<times> nat list option" where
  "bounds_part v = (v_registered_for_visible_bounds v, v_descendants_to_notify v)"

definition quiet :: "view_world \<Rightarrow> view_world \<Rightarrow> bool" where
  "quiet W W' \<longleftrightarrow>
     same_core (vw_views W) (vw_views W') \<and> (\<forall>a. map_option bounds_part (vw_views W' a) = map_option bounds_part (vw_views W a)) \<and>
     vw_traversables W' = vw_traversables W \<and>
     (\<forall>w. rel_option widget_quiet (vw_widgets W w) (vw_widgets W' w)) \<and>
     (\<forall>fm. rel_option manager_quiet (vw_managers W fm) (vw_managers W' fm)) \<and>
     (\<forall>x. vs_view_to_ids (vw_storage W) x = None \<longrightarrow> vs_view_to_ids (vw_storage W') x = None) \<and>
     (\<forall>a v v'. vw_views W a = Some v \<longrightarrow> vw_views W' a = Some v' \<longrightarrow>
        cleared (v_accelerator_focus_manager v) (v_accelerator_focus_manager v'))"

lemma cleared_simps [simp]: "cleared p p" "cleared p None" "cleared p (unless x p)"
  by (simp_all add: cleared_def unless_def)

lemma cleared_trans: "cleared p q \<Longrightarrow> cleared q r \<Longrightarrow> cleared p r"
  by (auto simp: cleared_def)

lemma widget_quiet_refl [simp]: "widget_quiet a a"
  by (simp add: widget_quiet_def)

lemma manager_quiet_refl [simp]: "manager_quiet a a"
  by (simp add: manager_quiet_def)

lemma rel_option_reflI: "(\<And>x. R x x) \<Longrightarrow> rel_option R p p"
  by (cases p) simp_all

lemma rel_option_transI: "(\<And>x y z. R x y \<Longrightarrow> R y z \<Longrightarrow> R x z) \<Longrightarrow> rel_option R p q \<Longrightarrow> rel_option R q r \<Longrightarrow> rel_option R p r"
  by (cases p; cases q; cases r) auto

lemma quiet_refl [simp]: "quiet W W"
  by (auto simp: quiet_def intro: rel_option_reflI)

lemma widget_quiet_trans: "widget_quiet a b \<Longrightarrow> widget_quiet b c \<Longrightarrow> widget_quiet a c"
  unfolding widget_quiet_def by (auto elim: cleared_trans)

lemma manager_quiet_trans: "manager_quiet a b \<Longrightarrow> manager_quiet b c \<Longrightarrow> manager_quiet a c"
  unfolding manager_quiet_def by (blast intro: cleared_trans trans)

lemma quiet_manager_of:
  "quiet W W' \<Longrightarrow> vw_views W a = Some v \<Longrightarrow> vw_views W' a = Some v' \<Longrightarrow>
   cleared (v_accelerator_focus_manager v) (v_accelerator_focus_manager v')"
  by (simp add: quiet_def)

lemma world_quiet_trans:
  assumes "quiet U V" and "quiet V W"
  shows "quiet U W"
proof -
  have "cleared (v_accelerator_focus_manager v) (v_accelerator_focus_manager v')"
    if v: "vw_views U a = Some v" "vw_views W a = Some v'" for a v v'
  proof -
    have "same_core (vw_views U) (vw_views V)" using assms(1) by (simp add: quiet_def)
    then obtain u where "vw_views V a = Some u" using same_coreD v(1) by blast
    then show ?thesis using quiet_manager_of [OF assms(1) v(1)] quiet_manager_of [OF assms(2) _ v(2)] cleared_trans by blast
  qed
  moreover have "rel_option widget_quiet (vw_widgets U w) (vw_widgets W w)" for w
    by (rule rel_option_transI [where q = "vw_widgets V w"]) (use assms in \<open>auto simp: quiet_def elim: widget_quiet_trans\<close>)
  moreover have "rel_option manager_quiet (vw_managers U w) (vw_managers W w)" for w
    by (rule rel_option_transI [where q = "vw_managers V w"]) (use assms in \<open>auto simp: quiet_def elim: manager_quiet_trans\<close>)
  ultimately show ?thesis using assms same_core_trans [of "vw_views U" "vw_views V" "vw_views W"] by (simp add: quiet_def)
qed

section \<open>Focus, storage and accelerators on removal\<close>

lemma quiet_views: "quiet W W' \<Longrightarrow> same_core (vw_views W) (vw_views W')"
  by (simp add: quiet_def)

lemma quiet_view: "quiet W W' \<Longrightarrow> vw_views W a = Some v \<Longrightarrow> \<exists>v'. vw_views W' a = Some v' \<and> core v' = core v"
  by (rule same_coreD [OF quiet_views])

lemma quiet_widget: "quiet W W' \<Longrightarrow> vw_widgets W w = Some wd \<Longrightarrow> \<exists>wd'. vw_widgets W' w = Some wd' \<and> widget_quiet wd wd'"
  by (metis option_rel_Some1 quiet_def)

lemma quiet_manager: "quiet W W' \<Longrightarrow> vw_managers W fm = Some m \<Longrightarrow> \<exists>m'. vw_managers W' fm = Some m' \<and> manager_quiet m m'"
  by (metis option_rel_Some1 quiet_def)

lemma quiet_GetFocusManager_widget: "quiet W W' \<Longrightarrow> widget_GetFocusManager W' w = widget_GetFocusManager W w"
proof -
  assume q: "quiet W W'"
  have r: "rel_option widget_quiet (vw_widgets W x) (vw_widgets W' x)" for x using q by (simp add: quiet_def)
  have "map_option wd_focus_manager (vw_widgets W' t) = map_option wd_focus_manager (vw_widgets W t)" for t
    using r [of t] by (cases "vw_widgets W t"; cases "vw_widgets W' t") (auto simp: widget_quiet_def)
  then show ?thesis
    using r [of w] by (cases "vw_widgets W w"; cases "vw_widgets W' w") (auto simp: widget_GetFocusManager_def widget_quiet_def split: option.split)
qed

lemma quiet_GetFocusManager:
  "quiet W W' \<Longrightarrow> grove (vw_views W) F \<Longrightarrow> vw_views W a = Some v \<Longrightarrow> GetFocusManager W' a = GetFocusManager W a"
  using same_core_GetWidget [OF quiet_views, of W W' F a v] quiet_GetFocusManager_widget [of W W']
  by (simp add: GetFocusManager_def cong: option.case_cong)

text \<open>Clearing the focus of a manager.\<close>

lemma sound_manager:
  assumes s: "sound W F" and m: "vw_managers W fm = Some m"
    and m': "fm_accelerator_manager m' = fm_accelerator_manager m" "fm_focused_view m' = None" "fm_widget m' = fm_widget m"
  shows "sound (W\<lparr>vw_managers := (vw_managers W)(fm \<mapsto> m')\<rparr>) F" and "quiet W (W\<lparr>vw_managers := (vw_managers W)(fm \<mapsto> m')\<rparr>)"
proof -
  let ?W = "W\<lparr>vw_managers := (vw_managers W)(fm \<mapsto> m')\<rparr>"
  show q: "quiet W ?W" using m m' by (auto simp: quiet_def manager_quiet_def intro: rel_option_reflI)
  have "view_ok ?W a v" if "vw_views W a = Some v" for a v
    using soundD(4) [OF s that] quiet_GetFocusManager [OF q soundD(1) [OF s] that] by (simp add: view_ok_def)
  moreover have "widget_ok ?W wd" if "vw_widgets W w = Some wd" for w wd
    using soundD(5) [OF s that] by (fastforce simp: widget_ok_def)
  moreover have "manager_ok ?W f n" if "vw_managers ?W f = Some n" for f n
    using soundD(6) [OF s, of f] soundD(6) [OF s m] that m' by (auto simp: manager_ok_def split: if_splits)
  ultimately show "sound ?W F" using soundD(1-3) [OF s] by (simp add: sound_def)
qed

definition focused_at :: "view_world \<Rightarrow> nat \<Rightarrow> nat option" where
  "focused_at W fm = Option.bind (vw_managers W fm) fm_focused_view"

lemma ClearFocused:
  assumes "sound W F" and "vw_managers W fm = Some m"
  shows "ensures (SetFocusedView fm None W) (\<lambda>W'. sound W' F \<and> quiet W W' \<and> focused_at W' fm = None)"
proof (cases "fm_focused_view m")
  case None
  then show ?thesis using assms by (simp add: SetFocusedView_def SetFocusedViewWithReason_def focused_at_def)
next
  case (Some a)
  obtain v where "vw_views W a = Some v" using soundD(6) [OF assms] Some by (auto simp: manager_ok_def)
  then show ?thesis
    using Some assms(2) sound_manager [OF assms, of "m\<lparr>fm_focus_change_reason := kReasonDirectFocusChange, fm_focused_view := None,
      fm_notified := fm_notified m @ [OnWillChangeFocus (Some a) None, OnDidChangeFocus (Some a) None]\<rparr>"]
    by (simp add: SetFocusedView_def SetFocusedViewWithReason_def upd_manager_def view_Blur_def Let_def focused_at_def)
qed

lemma fm_ViewRemoved_ok:
  assumes "sound W F" and "vw_managers W fm = Some m" and "vw_views W x = Some v"
  shows "ensures (fm_ViewRemoved fm x W) (\<lambda>W'. sound W' F \<and> quiet W W' \<and> focused_at W' fm \<noteq> Some x)"
proof (cases "fm_focused_view m")
  case None
  then show ?thesis using assms by (simp add: fm_ViewRemoved_def focused_at_def)
next
  case (Some a)
  obtain u where u: "vw_views W a = Some u" using soundD(6) [OF assms(1,2)] Some by (auto simp: manager_ok_def)
  obtain b where b: "view_Contains (vw_views W) x (Some a) = Some b" using Contains_total [OF soundD(1) [OF assms(1)] u] by blast
  show ?thesis
  proof (cases b)
    case True
    then show ?thesis
      using Some b assms(2) ClearFocused [OF assms(1,2)] by (auto simp: fm_ViewRemoved_def elim!: ensures_mono)
  next
    case False
    then have "a \<noteq> x" using b by (auto simp: view_Contains.simps [of _ _ "Some a"])
    then show ?thesis using Some b False assms by (simp add: fm_ViewRemoved_def focused_at_def)
  qed
qed

lemma storage_ViewRemoved_ok:
  assumes "storage_ok S"
  shows "ensures (storage_ViewRemoved x S) (\<lambda>S'. storage_ok S' \<and> vs_view_to_ids S' x = None \<and>
    (\<forall>y. vs_view_to_ids S y = None \<longrightarrow> vs_view_to_ids S' y = None))"
proof (cases "vs_view_to_ids S x")
  case None
  then show ?thesis using assms by (simp add: storage_ViewRemoved_def)
next
  case (Some ids)
  then have ids: "ids \<noteq> []" "\<forall>i \<in> set ids. vs_id_to_view S i = Some x" using assms by (auto simp: storage_ok_def)
  then obtain i js where i: "ids = i # js" by (cases ids) auto
  let ?S = "S\<lparr>vs_id_to_view := (vs_id_to_view S)(i := None) |` (- set ids), vs_view_to_ids := (vs_view_to_ids S)(x := None)\<rparr>"
  have "storage_ViewRemoved x S = Some ?S"
    using Some ids i by (simp add: storage_ViewRemoved_def EraseView_def)
  moreover have "storage_ok ?S"
  proof -
    have "j \<notin> set ids" if "vs_view_to_ids S v = Some js" "j \<in> set js" "v \<noteq> x" for v j js
      using assms that ids(2) by (auto simp: storage_ok_def)
    moreover have "v \<noteq> x" if "vs_id_to_view S j = Some v" "j \<notin> set ids" for j v
      using assms that Some by (fastforce simp: storage_ok_def)
    ultimately show ?thesis using assms ids i by (fastforce simp: storage_ok_def restrict_map_def)
  qed
  ultimately show ?thesis by simp
qed

lemma sound_storage: "sound W F \<Longrightarrow> storage_ok S \<Longrightarrow> sound (W\<lparr>vw_storage := S\<rparr>) F"
  by (simp add: sound_def view_ok_def widget_ok_def manager_ok_def GetFocusManager_def widget_GetFocusManager_def cong: option.case_cong)

lemma GetFocusManager_exists:
  assumes "sound W F" and "GetFocusManager W a = Some (Some fm)"
  shows "\<exists>m. vw_managers W fm = Some m"
proof -
  obtain w where "widget_GetFocusManager W w = Some (Some fm)" using assms(2) by (auto simp: GetFocusManager_def split: bind_splits option.splits)
  then obtain wd t wt where "vw_widgets W w = Some wd" "wd_top_level wd = Some t" "vw_widgets W t = Some wt" "wd_focus_manager wt = Some fm"
    by (auto simp: widget_GetFocusManager_def split: bind_splits option.splits)
  then show ?thesis using soundD(5) [OF assms(1), of w wd] by (auto simp: widget_ok_def)
qed

lemma am_entry_UnregisterAll: "am_entry a (am_UnregisterAll x m) = (fst (am_entry a m), removeAll x (snd (am_entry a m)))"
  by (simp add: am_entry_def am_UnregisterAll_def split: option.split prod.split)

lemma targets_UnregisterAll: "am_targets (am_UnregisterAll x m) a = am_targets m a - {x}"
  by (auto simp: am_targets_def am_entry_UnregisterAll)

lemma priority_UnregisterAll: "priority_ok D m \<Longrightarrow> x \<in> D \<Longrightarrow> priority_ok D (am_UnregisterAll x m)"
  unfolding priority_ok_def am_entry_UnregisterAll
proof (intro allI impI)
  fix a assume p: "\<forall>a. fst (am_entry a m) \<longrightarrow> snd (am_entry a m) \<noteq> [] \<and> hd (snd (am_entry a m)) \<notin> D" and x: "x \<in> D"
    and "fst (fst (am_entry a m), removeAll x (snd (am_entry a m)))"
  then obtain t ts where "snd (am_entry a m) = t # ts" "t \<notin> D" by (cases "snd (am_entry a m)") auto
  then show "snd (fst (am_entry a m), removeAll x (snd (am_entry a m))) \<noteq> [] \<and>
      hd (snd (fst (am_entry a m), removeAll x (snd (am_entry a m)))) \<notin> D"
    using x by auto
qed

text \<open>Changing the accelerators of one view.\<close>

lemma parent_of_eq: "parent_of s a b \<longleftrightarrow> map_option v_parent (s a) = Some (Some b)"
  by (auto simp: parent_of_def)

lemma bounds_ok_cong:
  assumes "same_core s s'" and "grove s F" and "\<And>a. map_option bounds_part (s' a) = map_option bounds_part (s a)" and "bounds_ok s"
  shows "bounds_ok s'"
proof -
  have bk: "\<exists>v. s a = Some v \<and> core v = core v' \<and> bounds_part v = bounds_part v'" if "s' a = Some v'" for a v'
    using same_coreD [OF same_core_sym [OF assms(1)] that] assms(3) [of a] that by auto
  have par: "map_option v_parent (s' a) = map_option v_parent (s a)" for a
  proof (cases "s a")
    case None
    then have "s' a = None" using same_core_dom [OF assms(1)] by (metis domIff)
    with None show ?thesis by simp
  next
    case (Some v)
    then obtain v' where "s' a = Some v'" "core v' = core v" using same_coreD [OF assms(1)] by blast
    with Some show ?thesis using core_fields(1) [of v' v] by simp
  qed
  have p: "parent_of s' = parent_of s"
    by (intro ext) (simp add: parent_of_eq par)
  have "listed s' a b" if l: "listed s a b" for a b
  proof -
    obtain u ds where u: "s b = Some u" "v_descendants_to_notify u = Some ds" "a \<in> set ds" using l by (auto simp: listed_def)
    then show ?thesis using assms(3) [of b] by (cases "s' b") (auto simp: listed_def bounds_part_def)
  qed
  then have l: "\<And>a b. listed s a b \<Longrightarrow> listed s' a b" .
  show ?thesis
    unfolding bounds_ok_def p
  proof (intro allI impI)
    fix a v' assume v': "s' a = Some v'" "v_registered_for_visible_bounds v'"
    obtain v where v: "s a = Some v" "core v = core v'" "bounds_part v = bounds_part v'" using bk [OF v'(1)] by blast
    have "v_registered_for_visible_bounds v" using v(3) v'(2) by (simp add: bounds_part_def)
    then have "v_NeedsNotification v \<and> GetWidget s a \<noteq> Some None \<and> (\<forall>b. (parent_of s)\<^sup>+\<^sup>+ a b \<longrightarrow> listed s a b)"
      using assms(4) v(1) unfolding bounds_ok_def by blast
    then show "v_NeedsNotification v' \<and> GetWidget s' a \<noteq> Some None \<and> (\<forall>b. (parent_of s)\<^sup>+\<^sup>+ a b \<longrightarrow> listed s' a b)"
      using same_core_GetWidget [OF assms(1,2) v(1)] core_fields(6) [OF v(2)] l by simp
  qed
qed

lemma sound_views:
  assumes s: "sound W F" and q: "quiet W (W\<lparr>vw_views := s'\<rparr>)"
    and v: "\<And>a v. s' a = Some v \<Longrightarrow> view_ok (W\<lparr>vw_views := s'\<rparr>) a v"
    and m: "\<And>fm m acc x v. vw_managers W fm = Some m \<Longrightarrow> x \<in> am_targets (fm_accelerator_manager m) acc \<Longrightarrow> s' x = Some v \<Longrightarrow>
      v_accelerator_focus_manager v = Some fm"
  shows "sound (W\<lparr>vw_views := s'\<rparr>) F"
proof -
  have c: "same_core (vw_views W) s'" and b: "\<And>a. map_option bounds_part (s' a) = map_option bounds_part (vw_views W a)"
    using q by (auto simp: quiet_def)
  have d: "dom s' = dom (vw_views W)" using same_core_dom [OF c] .
  have "manager_ok (W\<lparr>vw_views := s'\<rparr>) f n" if f: "vw_managers W f = Some n" for f n
  proof -
    have "s' a \<noteq> None" if "vw_views W a \<noteq> None" for a using d that by blast
    then show ?thesis using soundD(6) [OF s f] m [OF f] d by (simp add: manager_ok_def)
  qed
  moreover have "widget_ok (W\<lparr>vw_views := s'\<rparr>) wd" if "vw_widgets W w = Some wd" for w wd
    using soundD(5) [OF s that] by (simp add: widget_ok_def)
  ultimately show ?thesis
    using same_core_grove [OF c soundD(1) [OF s]] bounds_ok_cong [OF c soundD(1) [OF s] b soundD(3) [OF s]] soundD(2) [OF s] v
    by (simp add: sound_def)
qed

end
