(* ===== verification/View_Removal.thy ===== *)
theory View_Removal
  imports View_Notify
begin

text \<open>
  Removing a view: its notifications return, and afterwards the focus manager, the view storage, the accelerators and the
  handlers of the widget no longer refer to it or to a view below it.
\<close>

section \<open>One notification\<close>

text \<open>The widget \<open>w\<close> and what belongs to it do not refer to the view \<open>x\<close>.\<close>

definition handlers_free :: "nat \<Rightarrow> widget \<Rightarrow> bool" where
  "handlers_free x wd \<longleftrightarrow>
     wd_dragged_view wd \<noteq> Some x \<and> rv_mouse_move_handler wd \<noteq> Some x \<and> rv_touch_pressed_handler wd \<noteq> Some x \<and>
     rv_gesture_handler wd \<noteq> Some x \<and> (\<not> rv_explicit_mouse_handler wd \<longrightarrow> rv_mouse_pressed_handler wd \<noteq> Some x)"

definition forgotten :: "view_world \<Rightarrow> nat \<Rightarrow> nat \<Rightarrow> bool" where
  "forgotten W w x \<longleftrightarrow>
     (\<forall>fm. widget_GetFocusManager W w = Some (Some fm) \<longrightarrow> focused_at W fm \<noteq> Some x) \<and>
     vs_view_to_ids (vw_storage W) x = None \<and> (\<forall>wd. vw_widgets W w = Some wd \<longrightarrow> handlers_free x wd)"

definition unregistered :: "view_world \<Rightarrow> nat \<Rightarrow> bool" where
  "unregistered W x \<longleftrightarrow> (\<forall>v. vw_views W x = Some v \<longrightarrow> v_accelerator_focus_manager v = None)"

lemma cleared_not: "cleared p q \<Longrightarrow> p \<noteq> Some x \<Longrightarrow> q \<noteq> Some x"
  by (auto simp: cleared_def)

lemma handlers_free_quiet: "widget_quiet a b \<Longrightarrow> handlers_free x a \<Longrightarrow> handlers_free x b"
  unfolding widget_quiet_def handlers_free_def by (elim conjE, intro conjI impI; (erule (1) cleared_not)?) (simp_all add: cleared_not)

lemma forgotten_quiet:
  assumes "quiet W W'" and "forgotten W w x"
  shows "forgotten W' w x"
proof -
  have "focused_at W' fm \<noteq> Some x" if "widget_GetFocusManager W' w = Some (Some fm)" for fm
  proof -
    have f: "focused_at W fm \<noteq> Some x"
      using assms(2) that quiet_GetFocusManager_widget [OF assms(1)] by (simp add: forgotten_def)
    have "rel_option manager_quiet (vw_managers W fm) (vw_managers W' fm)" using assms(1) by (simp add: quiet_def)
    then show ?thesis using f by (cases "vw_managers W fm"; cases "vw_managers W' fm") (auto simp: focused_at_def manager_quiet_def cleared_def)
  qed
  moreover have "handlers_free x wd" if wd: "vw_widgets W' w = Some wd" for wd
  proof -
    have "rel_option widget_quiet (vw_widgets W w) (vw_widgets W' w)" using assms(1) by (simp add: quiet_def)
    then obtain wd0 where "vw_widgets W w = Some wd0" "widget_quiet wd0 wd" using wd by (cases "vw_widgets W w") auto
    then show ?thesis using assms(2) handlers_free_quiet by (auto simp: forgotten_def)
  qed
  ultimately show ?thesis using assms by (simp add: forgotten_def quiet_def)
qed

lemma unregistered_quiet: "quiet W W' \<Longrightarrow> vw_views W x = Some v \<Longrightarrow> unregistered W x \<Longrightarrow> unregistered W' x"
  using quiet_manager_of [of W W' x v] by (auto simp: unregistered_def cleared_def)

lemma sound_widget:
  assumes "sound W F" and "vw_widgets W w = Some wd" and "widget_quiet wd wd'"
  shows "sound (W\<lparr>vw_widgets := (vw_widgets W)(w \<mapsto> wd')\<rparr>) F" and "quiet W (W\<lparr>vw_widgets := (vw_widgets W)(w \<mapsto> wd')\<rparr>)"
proof -
  let ?W = "W\<lparr>vw_widgets := (vw_widgets W)(w \<mapsto> wd')\<rparr>"
  show q: "quiet W ?W" using assms(2,3) by (auto simp: quiet_def intro: rel_option_reflI)
  have "view_ok ?W a v" if "vw_views W a = Some v" for a v
    using soundD(4) [OF assms(1) that] quiet_GetFocusManager [OF q soundD(1) [OF assms(1)] that] by (auto simp: view_ok_def)
  moreover have "widget_ok ?W x" if x: "vw_widgets ?W y = Some x" for y x
  proof -
    obtain x0 where x0: "vw_widgets W y = Some x0" "widget_quiet x0 x" using x assms(2,3) by (auto split: if_splits)
    show ?thesis
      unfolding widget_ok_def
    proof (intro allI impI)
      fix t assume "wd_top_level x = Some t"
      then have "wd_top_level x0 = Some t" using x0(2) by (simp add: widget_quiet_def)
      then obtain wt where "vw_widgets W t = Some wt" "\<forall>fm. wd_focus_manager wt = Some fm \<longrightarrow> vw_managers W fm \<noteq> None"
        using soundD(5) [OF assms(1) x0(1)] unfolding widget_ok_def by blast
      then show "\<exists>wt. vw_widgets ?W t = Some wt \<and> (\<forall>fm. wd_focus_manager wt = Some fm \<longrightarrow> vw_managers ?W fm \<noteq> None)"
        using assms(2,3) by (cases "t = w") (auto simp: widget_quiet_def)
    qed
  qed
  moreover have "manager_ok ?W f n" if "vw_managers W f = Some n" for f n
    using soundD(6) [OF assms(1) that] by (simp add: manager_ok_def)
  ultimately show "sound ?W F" using soundD(1-3) [OF assms(1)] by (simp add: sound_def)
qed

lemma widget_manager_total:
  assumes "sound W F" and "vw_widgets W w = Some wd"
  shows "\<exists>r. widget_GetFocusManager W w = Some r \<and> (\<forall>fm. r = Some fm \<longrightarrow> vw_managers W fm \<noteq> None)"
  using soundD(5) [OF assms] assms(2) by (cases "wd_top_level wd") (auto simp: widget_GetFocusManager_def widget_ok_def)

lemma widget_removed_ok:
  assumes s: "sound W F" and w: "vw_widgets W w = Some wd" and x: "vw_views W x = Some v"
  shows "ensures (root_ViewHierarchyChanged False x w W) (\<lambda>W'. sound W' F \<and> quiet W W' \<and> forgotten W' w x)"
proof -
  let ?d = "\<lambda>wd. if wd_dragged_view wd = Some x then wd\<lparr>wd_dragged_view := None\<rparr> else wd"
  let ?W1 = "W\<lparr>vw_widgets := (vw_widgets W)(w \<mapsto> ?d wd)\<rparr>"
  have dq: "widget_quiet wd (?d wd)" by (simp add: widget_quiet_def)
  have s1: "sound ?W1 F" and q1: "quiet W ?W1" using sound_widget [OF s w dq] by simp_all
  obtain r where r: "widget_GetFocusManager ?W1 w = Some r" "\<And>fm. r = Some fm \<Longrightarrow> vw_managers W fm \<noteq> None"
    using widget_manager_total [OF s1, of w] by auto
  have step2: "ensures (case r of None \<Rightarrow> Some ?W1 | Some fm \<Rightarrow> fm_ViewRemoved fm x ?W1)
      (\<lambda>W2. sound W2 F \<and> quiet ?W1 W2 \<and> (\<forall>fm. r = Some fm \<longrightarrow> focused_at W2 fm \<noteq> Some x))"
  proof (cases r)
    case (Some fm)
    then obtain m where "vw_managers ?W1 fm = Some m" using r(2) by auto
    then show ?thesis using fm_ViewRemoved_ok [OF s1, of fm m x v] x Some by simp
  qed (use s1 in simp)
  then obtain W2 where W2: "(case r of None \<Rightarrow> Some ?W1 | Some fm \<Rightarrow> fm_ViewRemoved fm x ?W1) = Some W2" "sound W2 F" "quiet ?W1 W2"
    "\<And>fm. r = Some fm \<Longrightarrow> focused_at W2 fm \<noteq> Some x" by (rule ensuresE) blast
  obtain S where S: "storage_ViewRemoved x (vw_storage W2) = Some S" "storage_ok S" "vs_view_to_ids S x = None"
    "\<forall>y. vs_view_to_ids (vw_storage W2) y = None \<longrightarrow> vs_view_to_ids S y = None"
    using storage_ViewRemoved_ok [OF soundD(2) [OF W2(2)], of x] by (rule ensuresE) blast
  let ?W3 = "W2\<lparr>vw_storage := S\<rparr>"
  have s3: "sound ?W3 F" by (rule sound_storage [OF W2(2) S(2)])
  have q3: "quiet W2 ?W3" using S(4) by (auto simp: quiet_def intro: rel_option_reflI)
  obtain wd2 where wd2: "vw_widgets ?W3 w = Some wd2" "widget_quiet (?d wd) wd2"
    using quiet_widget [OF world_quiet_trans [OF W2(3) q3], of w "?d wd"] by auto
  let ?h = "\<lambda>wd. wd\<lparr>rv_mouse_pressed_handler :=
       (if rv_explicit_mouse_handler wd then rv_mouse_pressed_handler wd else unless x (rv_mouse_pressed_handler wd)),
     rv_mouse_move_handler := unless x (rv_mouse_move_handler wd),
     rv_touch_pressed_handler := unless x (rv_touch_pressed_handler wd),
     rv_gesture_handler := unless x (rv_gesture_handler wd)\<rparr>"
  let ?W4 = "?W3\<lparr>vw_widgets := (vw_widgets ?W3)(w \<mapsto> ?h wd2)\<rparr>"
  have hq: "widget_quiet wd2 (?h wd2)" by (simp add: widget_quiet_def)
  have s4: "sound ?W4 F" and q4: "quiet ?W3 ?W4" using sound_widget [OF s3 wd2(1) hq] by simp_all
  have q: "quiet W ?W4" by (rule world_quiet_trans [OF q1 world_quiet_trans [OF W2(3) world_quiet_trans [OF q3 q4]]])
  have "root_ViewHierarchyChanged False x w W = Some ?W4"
    using w r(1) W2(1) S(1) wd2(1)
    by (simp add: root_ViewHierarchyChanged_def widget_ViewHierarchyChanged_def upd_widget_def Let_def)
  moreover have "forgotten ?W4 w x"
  proof -
    have "widget_GetFocusManager ?W4 w = Some r"
      using quiet_GetFocusManager_widget [OF world_quiet_trans [OF W2(3) world_quiet_trans [OF q3 q4]], of w] r(1) by simp
    moreover have "focused_at ?W4 fm = focused_at W2 fm" for fm by (simp add: focused_at_def)
    moreover have "handlers_free x (?h wd2)" using wd2(2) by (auto simp: handlers_free_def unless_def widget_quiet_def cleared_def split: if_splits)
    ultimately show ?thesis using W2(4) S(3) by (simp add: forgotten_def)
  qed
  ultimately show ?thesis using s4 q by simp
qed

lemma core_updates [simp]:
  "core (v\<lparr>v_accelerators := a\<rparr>) = core v" "core (v\<lparr>v_accelerator_focus_manager := m\<rparr>) = core v"
  "core (v\<lparr>v_registered_accelerator_count := n\<rparr>) = core v" "core (v\<lparr>v_needs_layout := b\<rparr>) = core v"
  "core (v\<lparr>v_accelerator_registration_delayed := b\<rparr>) = core v"
  "core (v\<lparr>v_registered_for_visible_bounds := b\<rparr>) = core v" "core (v\<lparr>v_descendants_to_notify := ds\<rparr>) = core v"
  by (simp_all add: core_def)

lemma bounds_part_updates [simp]:
  "bounds_part (v\<lparr>v_accelerators := a\<rparr>) = bounds_part v" "bounds_part (v\<lparr>v_accelerator_focus_manager := m\<rparr>) = bounds_part v"
  "bounds_part (v\<lparr>v_registered_accelerator_count := n\<rparr>) = bounds_part v" "bounds_part (v\<lparr>v_needs_layout := b\<rparr>) = bounds_part v"
  "bounds_part (v\<lparr>v_accelerator_registration_delayed := b\<rparr>) = bounds_part v"
  by (simp_all add: bounds_part_def)

lemma quiet_upd_view:
  assumes "vw_views W x = Some v" and "core v' = core v" and "bounds_part v' = bounds_part v"
    and "cleared (v_accelerator_focus_manager v) (v_accelerator_focus_manager v')"
  shows "quiet W (W\<lparr>vw_views := (vw_views W)(x \<mapsto> v')\<rparr>)"
  using assms by (auto simp: quiet_def same_core_def intro: rel_option_reflI)

lemma quiet_upd_manager:
  assumes "vw_managers W fm = Some m" and "manager_quiet m m'"
  shows "quiet W (W\<lparr>vw_managers := (vw_managers W)(fm \<mapsto> m')\<rparr>)"
  using assms by (auto simp: quiet_def intro: rel_option_reflI)

text \<open>Replacing what a view holds about its accelerators.\<close>

lemma sound_upd_view:
  assumes s: "sound W F" and x: "vw_views W x = Some v" and c: "core v' = core v" "bounds_part v' = bounds_part v"
    and f: "v_accelerator_focus_manager v' = v_accelerator_focus_manager v" and a: "v_accelerators v' = v_accelerators v"
    and n: "v_registered_accelerator_count v' = v_registered_accelerator_count v \<or> v_registered_accelerator_count v' = 0"
  shows "sound (W\<lparr>vw_views := (vw_views W)(x \<mapsto> v')\<rparr>) F"
proof (rule sound_views [OF s])
  show q: "quiet W (W\<lparr>vw_views := (vw_views W)(x \<mapsto> v')\<rparr>)" using quiet_upd_view [OF x c] f by simp
  show "view_ok (W\<lparr>vw_views := (vw_views W)(x \<mapsto> v')\<rparr>) b u" if u: "((vw_views W)(x \<mapsto> v')) b = Some u" for b u
  proof -
    obtain u0 where u0: "vw_views W b = Some u0" using u x by (auto split: if_splits)
    have g: "GetFocusManager (W\<lparr>vw_views := (vw_views W)(x \<mapsto> v')\<rparr>) b = GetFocusManager W b"
      by (rule quiet_GetFocusManager [OF q soundD(1) [OF s] u0])
    show ?thesis
      using soundD(4) [OF s u0] u u0 x f a n core_fields(5) [OF c(1)] g by (cases "b = x") (auto simp: view_ok_def)
  qed
  show "v_accelerator_focus_manager u = Some fm"
    if "vw_managers W fm = Some m" "y \<in> am_targets (fm_accelerator_manager m) acc" "((vw_views W)(x \<mapsto> v')) y = Some u" for fm m acc y u
    using soundD(6) [OF s that(1)] that x f by (auto simp: manager_ok_def split: if_splits)
qed

lemma Unregister_ok:
  assumes s: "sound W F" and x: "vw_views W x = Some v"
  shows "ensures (UnregisterAccelerators True x W) (\<lambda>W'. sound W' F \<and> quiet W W' \<and> unregistered W' x)"
proof -
  obtain wo where wo: "GetWidget (vw_views W) x = Some wo" using GetWidget_total [OF soundD(1) [OF s] x] by blast
  have vo: "view_ok W x v" using soundD(4) [OF s x] .
  show ?thesis
  proof (cases "v_accelerators v = None \<or> wo = None")
    case True
    then have "v_accelerator_focus_manager v = None" using vo wo by (auto simp: view_ok_def GetFocusManager_def)
    then show ?thesis using s x wo True by (auto simp: UnregisterAccelerators_def unregistered_def)
  next
    case False
    let ?v = "v\<lparr>v_registered_accelerator_count := 0\<rparr>"
    show ?thesis
    proof (cases "v_accelerator_focus_manager v")
      case None
      then have "UnregisterAccelerators True x W = Some (W\<lparr>vw_views := (vw_views W)(x \<mapsto> ?v)\<rparr>)"
        using False x wo by (auto simp: UnregisterAccelerators_def upd_view_def)
      moreover have "sound (W\<lparr>vw_views := (vw_views W)(x \<mapsto> ?v)\<rparr>) F" by (rule sound_upd_view [OF s x]) simp_all
      moreover have "quiet W (W\<lparr>vw_views := (vw_views W)(x \<mapsto> ?v)\<rparr>)" by (rule quiet_upd_view [OF x]) simp_all
      ultimately show ?thesis using None by (simp add: unregistered_def)
    next
      case (Some fm)
      have g: "GetFocusManager W x = Some (Some fm)" using vo Some by (simp add: view_ok_def)
      obtain m where m: "vw_managers W fm = Some m" using GetFocusManager_exists [OF s g] by blast
      let ?m = "m\<lparr>fm_accelerator_manager := am_UnregisterAll x (fm_accelerator_manager m)\<rparr>"
      let ?W1 = "W\<lparr>vw_managers := (vw_managers W)(fm \<mapsto> ?m)\<rparr>"
      let ?v2 = "v\<lparr>v_accelerator_focus_manager := None, v_registered_accelerator_count := 0\<rparr>"
      let ?W2 = "?W1\<lparr>vw_views := (vw_views W)(x \<mapsto> ?v2)\<rparr>"
      have mq: "manager_quiet m ?m" by (auto simp: manager_quiet_def targets_UnregisterAll)
      have q1: "quiet W ?W1" by (rule quiet_upd_manager [OF m mq])
      have s1: "sound ?W1 F"
      proof -
        have "view_ok ?W1 a u" if "vw_views W a = Some u" for a u
          using soundD(4) [OF s that] quiet_GetFocusManager [OF q1 soundD(1) [OF s] that] by (simp add: view_ok_def)
        moreover have "widget_ok ?W1 wd" if "vw_widgets W w = Some wd" for w wd
          using soundD(5) [OF s that] by (fastforce simp: widget_ok_def)
        moreover have "manager_ok ?W1 f n" if "vw_managers ?W1 f = Some n" for f n
          using soundD(6) [OF s, of f] soundD(6) [OF s m] that priority_UnregisterAll [OF _ domI [of "vw_views W" x, OF x]]
          by (auto simp: manager_ok_def targets_UnregisterAll split: if_splits)
        ultimately show ?thesis using soundD(1-3) [OF s] by (simp add: sound_def)
      qed
      have q2: "quiet ?W1 ?W2" using quiet_upd_view [of ?W1 x v ?v2] x by simp
      have s2: "sound ?W2 F"
      proof (rule sound_views [OF s1])
        show "quiet ?W1 ?W2" by (rule q2)
        show "view_ok ?W2 b u" if u: "((vw_views W)(x \<mapsto> ?v2)) b = Some u" for b u
        proof -
          obtain u0 where u0: "vw_views ?W1 b = Some u0" using u x by (auto split: if_splits)
          show ?thesis
            using soundD(4) [OF s1 u0] u u0 x quiet_GetFocusManager [OF q2 soundD(1) [OF s1] u0] by (auto simp: view_ok_def split: if_splits)
        qed
        show "v_accelerator_focus_manager u = Some f"
          if t: "vw_managers ?W1 f = Some n" "y \<in> am_targets (fm_accelerator_manager n) acc" "((vw_views W)(x \<mapsto> ?v2)) y = Some u" for f n acc y u
        proof (cases "y = x")
          case True
          then show ?thesis
            using t x Some soundD(6) [OF s, of f n] by (auto simp: manager_ok_def targets_UnregisterAll split: if_splits)
        next
          case False
          then show ?thesis using t soundD(6) [OF s1, of f n] by (auto simp: manager_ok_def)
        qed
      qed
      have "UnregisterAccelerators True x W = Some ?W2"
        using False x wo Some m by (auto simp: UnregisterAccelerators_def upd_view_def upd_manager_def)
      moreover have "unregistered ?W2 x" by (simp add: unregistered_def)
      ultimately show ?thesis using s2 world_quiet_trans [OF q1 q2] by simp
    qed
  qed
qed

section \<open>All notifications of a removal\<close>

lemma Impl_remove_ok:
  assumes s: "sound W F" and a: "vw_views W a = Some va" and x: "vw_views W x = Some vx" and p: "vw_views W p = Some vp"
  shows "ensures (ViewHierarchyChangedImpl True False p x a W)
    (\<lambda>W'. sound W' F \<and> quiet W W' \<and> (a = x \<longrightarrow> unregistered W' x) \<and> (\<forall>w. v_root_of va = Some w \<longrightarrow> forgotten W' w x))"
proof -
  have "ensures (if x = a then UnregisterAccelerators True a W else Some W)
      (\<lambda>W'. sound W' F \<and> quiet W W' \<and> (a = x \<longrightarrow> unregistered W' x))"
    using Unregister_ok [OF s a] s by simp
  then obtain W1 where W1: "(if x = a then UnregisterAccelerators True a W else Some W) = Some W1" "sound W1 F" "quiet W W1"
    "a = x \<Longrightarrow> unregistered W1 x" by (rule ensuresE) blast
  obtain vx1 where vx1: "vw_views W1 x = Some vx1" using quiet_view [OF W1(3) x] by blast
  have "ensures (case v_root_of va of None \<Rightarrow> Some W1 | Some w \<Rightarrow> root_ViewHierarchyChanged False x w W1)
      (\<lambda>W'. sound W' F \<and> quiet W1 W' \<and> (\<forall>w. v_root_of va = Some w \<longrightarrow> forgotten W' w x))"
  proof (cases "v_root_of va")
    case (Some w)
    obtain wd where "vw_widgets W w = Some wd" using soundD(4) [OF s a] Some by (auto simp: view_ok_def)
    then obtain wd1 where "vw_widgets W1 w = Some wd1" using quiet_widget [OF W1(3)] by blast
    then show ?thesis using widget_removed_ok [OF W1(2) _ vx1] Some by simp
  qed (use W1(2) in simp)
  then obtain W2 where W2: "(case v_root_of va of None \<Rightarrow> Some W1 | Some w \<Rightarrow> root_ViewHierarchyChanged False x w W1) = Some W2"
    "sound W2 F" "quiet W1 W2" "\<And>w. v_root_of va = Some w \<Longrightarrow> forgotten W2 w x" by (rule ensuresE) blast
  obtain p2 where p2: "vw_views W2 p = Some p2" using quiet_view [OF world_quiet_trans [OF W1(3) W2(3)] p] by blast
  let ?p = "p2\<lparr>v_needs_layout := True\<rparr>"
  let ?W3 = "W2\<lparr>vw_views := (vw_views W2)(p \<mapsto> ?p)\<rparr>"
  have q3: "quiet W2 ?W3" by (rule quiet_upd_view [OF p2]) simp_all
  have s3: "sound ?W3 F" by (intro sound_upd_view [OF W2(2) p2]) simp_all
  have "ViewHierarchyChangedImpl True False p x a W = Some ?W3"
    using a W1(1) W2(1) p2 by (simp add: ViewHierarchyChangedImpl_def upd_view_def)
  moreover have "quiet W ?W3" by (rule world_quiet_trans [OF W1(3) world_quiet_trans [OF W2(3) q3]])
  moreover have "unregistered ?W3 x" if "a = x"
    using unregistered_quiet [OF world_quiet_trans [OF W2(3) q3] vx1 W1(4) [OF that]] .
  ultimately show ?thesis using s3 forgotten_quiet [OF q3] W2(4) by auto
qed

text \<open>The view and all its ancestors are told; the widget of the hierarchy is reached at the root.\<close>

lemma notify_remove_ok:
  assumes g: "grove s F" and a: "s a = Some v" and x: "s x = Some vx" and p: "s p = Some vp"
  shows "\<forall>W. sound W F \<longrightarrow> same_core s (vw_views W) \<longrightarrow>
    ensures (notify_ancestors True False p x (Some a) W)
      (\<lambda>W'. sound W' F \<and> quiet W W' \<and> (a = x \<longrightarrow> unregistered W' x) \<and> (\<forall>w. GetWidget s a = Some (Some w) \<longrightarrow> forgotten W' w x))"
    (is "?P a")
proof (rule grove_up [OF g a, where P = ?P])
  fix a v
  show "?P a" if av: "s a = Some v" "v_parent v = None"
  proof (intro allI impI)
    fix W assume W: "sound W F" "same_core s (vw_views W)"
    obtain va vx' vp' where v: "vw_views W a = Some va" "core va = core v" "vw_views W x = Some vx'" "vw_views W p = Some vp'"
      using same_coreD [OF W(2) av(1)] same_coreD [OF W(2) x] same_coreD [OF W(2) p] by blast
    obtain W1 where W1: "ViewHierarchyChangedImpl True False p x a W = Some W1" "sound W1 F" "quiet W W1"
      "a = x \<Longrightarrow> unregistered W1 x" "\<And>w. v_root_of va = Some w \<Longrightarrow> forgotten W1 w x"
      using Impl_remove_ok [OF W(1) v(1,3,4)] by (rule ensuresE) blast
    obtain v1 where v1: "vw_views W1 a = Some v1" "core v1 = core va" using quiet_view [OF W1(3) v(1)] by blast
    have "GetWidget s a = Some (v_root_of va)"
      using av core_fields(5) [OF v(2)] by (simp add: GetWidget.simps [of s a] split: option.split)
    then show "ensures (notify_ancestors True False p x (Some a) W)
      (\<lambda>W'. sound W' F \<and> quiet W W' \<and> (a = x \<longrightarrow> unregistered W' x) \<and> (\<forall>w. GetWidget s a = Some (Some w) \<longrightarrow> forgotten W' w x))"
      using W1 v1 core_fields(1) [OF v1(2)] core_fields(1) [OF v(2)] av(2)
      by (simp add: notify_ancestors.simps [of _ _ _ _ "Some a"] notify_ancestors.simps [of _ _ _ _ None])
  qed
next
  fix a v b u
  show "?P a" if av: "s a = Some v" "v_parent v = Some b" "s b = Some u" "v_root_of v = None" and up: "?P b"
  proof (intro allI impI)
    fix W assume W: "sound W F" "same_core s (vw_views W)"
    obtain va vx' vp' where v: "vw_views W a = Some va" "core va = core v" "vw_views W x = Some vx'" "vw_views W p = Some vp'"
      using same_coreD [OF W(2) av(1)] same_coreD [OF W(2) x] same_coreD [OF W(2) p] by blast
    obtain W1 where W1: "ViewHierarchyChangedImpl True False p x a W = Some W1" "sound W1 F" "quiet W W1"
      "a = x \<Longrightarrow> unregistered W1 x"
      using Impl_remove_ok [OF W(1) v(1,3,4)] by (rule ensuresE) blast
    obtain v1 where v1: "vw_views W1 a = Some v1" "core v1 = core va" using quiet_view [OF W1(3) v(1)] by blast
    obtain x1 where x1: "vw_views W1 x = Some x1" using quiet_view [OF W1(3) v(3)] by blast
    have "same_core s (vw_views W1)" using same_core_trans [OF W(2) quiet_views [OF W1(3)]] .
    then have "ensures (notify_ancestors True False p x (Some b) W1)
      (\<lambda>W'. sound W' F \<and> quiet W1 W' \<and> (b = x \<longrightarrow> unregistered W' x) \<and> (\<forall>w. GetWidget s b = Some (Some w) \<longrightarrow> forgotten W' w x))"
      using up W1(2) by blast
    then obtain W2 where W2: "notify_ancestors True False p x (Some b) W1 = Some W2" "sound W2 F" "quiet W1 W2"
      "\<And>w. GetWidget s b = Some (Some w) \<Longrightarrow> forgotten W2 w x"
      by (rule ensuresE) blast
    have "GetWidget s a = GetWidget s b" using av by (simp add: GetWidget.simps [of s a])
    moreover have "notify_ancestors True False p x (Some a) W = Some W2"
      using W1(1) W2(1) v1 core_fields(1) [OF v1(2)] core_fields(1) [OF v(2)] av(2)
      by (subst notify_ancestors.simps) simp
    ultimately show "ensures (notify_ancestors True False p x (Some a) W)
      (\<lambda>W'. sound W' F \<and> quiet W W' \<and> (a = x \<longrightarrow> unregistered W' x) \<and> (\<forall>w. GetWidget s a = Some (Some w) \<longrightarrow> forgotten W' w x))"
      using W2 world_quiet_trans [OF W1(3) W2(3)] unregistered_quiet [OF W2(3) x1 W1(4)] by simp
  qed
qed

lemma propagate_remove_ok:
  assumes g: "grove s F" and p: "s p = Some vp"
  shows "\<forall>t \<in> set ts. \<exists>q. ptree s q t \<Longrightarrow> \<forall>y \<in> set (concat (map preorder ts)). GetWidget s y = Some wo \<Longrightarrow>
    \<forall>W. sound W F \<longrightarrow> same_core s (vw_views W) \<longrightarrow>
      ensures (propagate_remove p (map tr_addr ts) W)
        (\<lambda>W'. sound W' F \<and> quiet W W' \<and>
          (\<forall>y \<in> set (concat (map preorder ts)). unregistered W' y \<and> (\<forall>w. wo = Some w \<longrightarrow> forgotten W' w y)))"
proof (induction "length (concat (map preorder ts))" arbitrary: ts rule: less_induct)
  case less
  show ?case
  proof (cases ts)
    case Nil
    then show ?thesis by (simp add: propagate_remove.simps)
  next
    case (Cons t ts')
    obtain q where q: "ptree s q t" using less.prems(1) Cons by auto
    obtain v where v: "s (tr_addr t) = Some v" "v_children v = map tr_addr (tr_subs t)" using ptree_view [OF q] by auto
    have subs: "\<forall>u \<in> set (tr_subs t). \<exists>q. ptree s q u" using ptree_sub [OF q] by blast
    show ?thesis
    proof (intro allI impI)
      fix W assume W: "sound W F" "same_core s (vw_views W)"
      obtain v0 where v0: "vw_views W (tr_addr t) = Some v0" "core v0 = core v" using same_coreD [OF W(2) v(1)] by blast
      have wt: "GetWidget s (tr_addr t) = Some wo" using less.prems(2) Cons by (simp add: preorder_subs [of t])
      have "ensures (propagate_remove p (map tr_addr (tr_subs t)) W)
        (\<lambda>W'. sound W' F \<and> quiet W W' \<and>
          (\<forall>y \<in> set (concat (map preorder (tr_subs t))). unregistered W' y \<and> (\<forall>w. wo = Some w \<longrightarrow> forgotten W' w y)))"
        using less.hyps [of "tr_subs t"] subs less.prems(2) Cons W by (simp add: preorder_subs [of t])
      then obtain W1 where W1: "propagate_remove p (map tr_addr (tr_subs t)) W = Some W1" "sound W1 F" "quiet W W1"
        "\<forall>y \<in> set (concat (map preorder (tr_subs t))). unregistered W1 y \<and> (\<forall>w. wo = Some w \<longrightarrow> forgotten W1 w y)"
        by (rule ensuresE) blast
      have c1: "same_core s (vw_views W1)" using same_core_trans [OF W(2) quiet_views [OF W1(3)]] .
      have "ensures (notify_ancestors True False p (tr_addr t) (Some (tr_addr t)) W1)
        (\<lambda>W'. sound W' F \<and> quiet W1 W' \<and> unregistered W' (tr_addr t) \<and> (\<forall>w. wo = Some w \<longrightarrow> forgotten W' w (tr_addr t)))"
        using notify_remove_ok [OF g v(1) v(1) p] W1(2) c1 wt by simp
      then obtain W2 where W2: "notify_ancestors True False p (tr_addr t) (Some (tr_addr t)) W1 = Some W2" "sound W2 F" "quiet W1 W2"
        "unregistered W2 (tr_addr t)" "\<And>w. wo = Some w \<Longrightarrow> forgotten W2 w (tr_addr t)" by (rule ensuresE) blast
      have c2: "same_core s (vw_views W2)" using same_core_trans [OF c1 quiet_views [OF W2(3)]] .
      have "ensures (propagate_remove p (map tr_addr ts') W2)
        (\<lambda>W'. sound W' F \<and> quiet W2 W' \<and>
          (\<forall>y \<in> set (concat (map preorder ts')). unregistered W' y \<and> (\<forall>w. wo = Some w \<longrightarrow> forgotten W' w y)))"
        using less.hyps [of ts'] less.prems Cons W2(2) c2 by (simp add: preorder_subs [of t])
      then obtain W3 where W3: "propagate_remove p (map tr_addr ts') W2 = Some W3" "sound W3 F" "quiet W2 W3"
        "\<forall>y \<in> set (concat (map preorder ts')). unregistered W3 y \<and> (\<forall>w. wo = Some w \<longrightarrow> forgotten W3 w y)"
        by (rule ensuresE) blast
      have "propagate_remove p (map tr_addr ts) W = Some W3"
        using Cons v0(1) core_fields(2) [OF v0(2)] v(2) W1(1) W2(1) W3(1) by (subst propagate_remove.simps) simp
      moreover have "quiet W W3" by (rule world_quiet_trans [OF W1(3) world_quiet_trans [OF W2(3) W3(3)]])
      moreover have "unregistered W3 y \<and> (\<forall>w. wo = Some w \<longrightarrow> forgotten W3 w y)" if y: "y \<in> set (preorder t)" for y
      proof (cases "y = tr_addr t")
        case True
        obtain v2 where "vw_views W2 (tr_addr t) = Some v2" using same_coreD [OF c2 v(1)] by blast
        then show ?thesis using True unregistered_quiet [OF W3(3) _ W2(4)] forgotten_quiet [OF W3(3) W2(5)] by blast
      next
        case False
        then have y': "y \<in> set (concat (map preorder (tr_subs t)))" using y by (simp add: preorder_subs [of t])
        obtain vy where "s y = Some vy" using ptree_dom [OF q y] by blast
        then obtain v1 where "vw_views W1 y = Some v1" using same_coreD [OF c1] by blast
        then show ?thesis using W1(4) y' unregistered_quiet [OF world_quiet_trans [OF W2(3) W3(3)]] forgotten_quiet [OF world_quiet_trans [OF W2(3) W3(3)]]
          by blast
      qed
      ultimately show "ensures (propagate_remove p (map tr_addr ts) W)
        (\<lambda>W'. sound W' F \<and> quiet W W' \<and>
          (\<forall>y \<in> set (concat (map preorder ts)). unregistered W' y \<and> (\<forall>w. wo = Some w \<longrightarrow> forgotten W' w y)))"
        using W3(2,4) Cons by auto
    qed
  qed
qed

section \<open>Visible bounds\<close>

definition plain_part :: "view \<Rightarrow> view" where
  "plain_part v = v\<lparr>v_registered_for_visible_bounds := False, v_descendants_to_notify := None\<rparr>"

definition same_plain :: "view_store \<Rightarrow> view_store \<Rightarrow> bool" where
  "same_plain s s' \<longleftrightarrow> (\<forall>a. map_option plain_part (s' a) = map_option plain_part (s a))"

lemma core_plain: "core (plain_part v) = core v"
  unfolding plain_part_def by simp

lemma plain_core: "plain_part u = plain_part v \<Longrightarrow> core u = core v"
  by (metis core_plain)

lemma plain_fields:
  assumes "plain_part u = plain_part v"
  shows "v_accelerators u = v_accelerators v" "v_accelerator_focus_manager u = v_accelerator_focus_manager v"
    "v_registered_accelerator_count u = v_registered_accelerator_count v"
  using arg_cong [OF assms, of v_accelerators] arg_cong [OF assms, of v_accelerator_focus_manager]
    arg_cong [OF assms, of v_registered_accelerator_count] by (simp_all add: plain_part_def)

lemma same_plainD: "same_plain s s' \<Longrightarrow> s' a = Some v' \<Longrightarrow> \<exists>v. s a = Some v \<and> plain_part v' = plain_part v"
  unfolding same_plain_def by (metis map_option_eq_Some)

lemma same_plain_core: "same_plain s s' \<Longrightarrow> same_core s s'"
proof -
  assume p: "same_plain s s'"
  have "map_option core (s' a) = map_option core (s a)" for a
    using arg_cong [OF p [unfolded same_plain_def, rule_format, of a], of "map_option core"] by (simp add: option.map_comp comp_def core_plain)
  then show ?thesis by (simp add: same_core_def)
qed

lemma same_plain_trans: "same_plain s t \<Longrightarrow> same_plain t u \<Longrightarrow> same_plain s u"
  by (simp add: same_plain_def)

lemma sound_bounds:
  assumes s: "sound W F" and p: "same_plain (vw_views W) s'" and b: "bounds_ok s'"
  shows "sound (W\<lparr>vw_views := s'\<rparr>) F"
proof -
  have c: "same_core (vw_views W) s'" using same_plain_core [OF p] .
  have "view_ok (W\<lparr>vw_views := s'\<rparr>) a v" if v: "s' a = Some v" for a v
  proof -
    obtain v0 where v0: "vw_views W a = Some v0" "plain_part v = plain_part v0" using same_plainD [OF p v] by blast
    have "GetFocusManager (W\<lparr>vw_views := s'\<rparr>) a = GetFocusManager W a"
      using same_core_GetWidget [OF c soundD(1) [OF s] v0(1)]
      by (simp add: GetFocusManager_def widget_GetFocusManager_def cong: option.case_cong)
    then show ?thesis
      using soundD(4) [OF s v0(1)] plain_fields [OF v0(2)] core_fields(5) [OF plain_core [OF v0(2)]] by (simp add: view_ok_def)
  qed
  moreover have "widget_ok (W\<lparr>vw_views := s'\<rparr>) wd" if "vw_widgets W w = Some wd" for w wd
    using soundD(5) [OF s that] by (simp add: widget_ok_def)
  moreover have "manager_ok (W\<lparr>vw_views := s'\<rparr>) f n" if f: "vw_managers W f = Some n" for f n
  proof -
    have d: "dom s' = dom (vw_views W)" using same_core_dom [OF c] .
    then have "s' a \<noteq> None" if "vw_views W a \<noteq> None" for a using that by blast
    moreover have "v_accelerator_focus_manager v = Some f"
      if x: "x \<in> am_targets (fm_accelerator_manager n) acc" "s' x = Some v" for x acc v
    proof -
      obtain v0 where v0: "vw_views W x = Some v0" "plain_part v = plain_part v0" using same_plainD [OF p x(2)] by blast
      then have "v_accelerator_focus_manager v0 = Some f" using soundD(6) [OF s f] x(1) by (auto simp: manager_ok_def)
      then show ?thesis using plain_fields(2) [OF v0(2)] by simp
    qed
    ultimately show ?thesis using soundD(6) [OF s f] d by (simp add: manager_ok_def)
  qed
  ultimately show ?thesis using same_core_grove [OF c soundD(1) [OF s]] soundD(2) [OF s] b by (simp add: sound_def)
qed

end
