(* ===== verification/View_Bounds.thy ===== *)
theory View_Bounds
  imports View_Removal
begin

text \<open>
  The registration of views for changes of their visible bounds: each registered view is in the list of every view above
  it, so that taking it out of these lists succeeds.
\<close>

lemma parent_trancl:
  "(parent_of s)\<^sup>+\<^sup>+ a b \<longleftrightarrow> (\<exists>v p. s a = Some v \<and> v_parent v = Some p \<and> (p = b \<or> (parent_of s)\<^sup>+\<^sup>+ p b))"
proof
  assume "(parent_of s)\<^sup>+\<^sup>+ a b"
  then obtain p where "parent_of s a p" "p = b \<or> (parent_of s)\<^sup>+\<^sup>+ p b" by (cases rule: converse_tranclpE) blast+
  then show "\<exists>v p. s a = Some v \<and> v_parent v = Some p \<and> (p = b \<or> (parent_of s)\<^sup>+\<^sup>+ p b)" unfolding parent_of_def by blast
next
  assume "\<exists>v p. s a = Some v \<and> v_parent v = Some p \<and> (p = b \<or> (parent_of s)\<^sup>+\<^sup>+ p b)"
  then obtain p where "parent_of s a p" "p = b \<or> (parent_of s)\<^sup>+\<^sup>+ p b" unfolding parent_of_def by blast
  then show "(parent_of s)\<^sup>+\<^sup>+ a b" by (auto intro: tranclp_into_tranclp2)
qed

lemma acyclic: "grove s F \<Longrightarrow> s a = Some v \<Longrightarrow> \<not> (parent_of s)\<^sup>+\<^sup>+ a a"
proof (erule grove_up, assumption)
  show "\<not> (parent_of s)\<^sup>+\<^sup>+ a a" if "s a = Some v" "v_parent v = None" for a v
    using that by (subst parent_trancl) simp
  show "\<not> (parent_of s)\<^sup>+\<^sup>+ a a" if "s a = Some v" "v_parent v = Some b" "\<not> (parent_of s)\<^sup>+\<^sup>+ b b" for a v b
  proof
    assume "(parent_of s)\<^sup>+\<^sup>+ a a"
    then have "b = a \<or> (parent_of s)\<^sup>+\<^sup>+ b a" using that(1,2) by (subst (asm) parent_trancl) auto
    moreover have "parent_of s a b" using that by (simp add: parent_of_def)
    ultimately have "(parent_of s)\<^sup>+\<^sup>+ b b" by (auto intro: tranclp.intros)
    then show False using that(3) by simp
  qed
qed

lemma same_core_parent_of: "same_core s s' \<Longrightarrow> parent_of s' = parent_of s"
proof -
  assume c: "same_core s s'"
  have "map_option v_parent (s' a) = map_option v_parent (s a)" for a
  proof (cases "s a")
    case None
    then have "s' a = None" using same_core_dom [OF c] by (metis domIff)
    with None show ?thesis by simp
  next
    case (Some v)
    then obtain v' where "s' a = Some v'" "core v' = core v" using same_coreD [OF c] by blast
    with Some show ?thesis using core_fields(1) [of v' v] by simp
  qed
  then show ?thesis by (intro ext) (simp add: parent_of_eq)
qed

definition registered :: "view_store \<Rightarrow> nat \<Rightarrow> bool" where
  "registered s a \<longleftrightarrow> (\<exists>v. s a = Some v \<and> v_registered_for_visible_bounds v)"

text \<open>What unregistering does to the views: some are no longer registered, and their entries go.\<close>

definition fewer_registered :: "view_store \<Rightarrow> view_store \<Rightarrow> bool" where
  "fewer_registered s s' \<longleftrightarrow> same_plain s s' \<and> (\<forall>a. registered s' a \<longrightarrow> registered s a)"

lemma fewer_refl [simp]: "fewer_registered s s"
  by (simp add: fewer_registered_def same_plain_def)

lemma fewer_trans: "fewer_registered s t \<Longrightarrow> fewer_registered t u \<Longrightarrow> fewer_registered s u"
  unfolding fewer_registered_def using same_plain_trans by blast

lemma plain_part_updates [simp]:
  "plain_part (v\<lparr>v_registered_for_visible_bounds := b\<rparr>) = plain_part v" "plain_part (v\<lparr>v_descendants_to_notify := ds\<rparr>) = plain_part v"
  by (simp_all add: plain_part_def)

text \<open>Taking a view that is no longer registered out of the lists of a view and its ancestors.\<close>

lemma unlist_ok:
  assumes g: "grove s F" and b: "s b = Some u"
  shows "\<forall>W. sound W F \<longrightarrow> same_core s (vw_views W) \<longrightarrow> \<not> registered (vw_views W) y \<longrightarrow>
      (\<forall>c. c = b \<or> (parent_of s)\<^sup>+\<^sup>+ b c \<longrightarrow> listed (vw_views W) y c) \<longrightarrow>
    ensures (for_ancestors (RemoveDescendantToNotify y) (Some b) W)
      (\<lambda>W'. sound W' F \<and> (\<exists>s'. W' = W\<lparr>vw_views := s'\<rparr> \<and> fewer_registered (vw_views W) s'))"
    (is "?P b")
proof -
  have one: "ensures (RemoveDescendantToNotify y b W)
      (\<lambda>W'. sound W' F \<and> (\<exists>s'. W' = W\<lparr>vw_views := s'\<rparr> \<and> fewer_registered (vw_views W) s') \<and>
        (\<forall>c. c \<noteq> b \<longrightarrow> listed (vw_views W) y c \<longrightarrow> listed (vw_views W') y c) \<and> \<not> registered (vw_views W') y)"
    if W: "sound W F" "\<not> registered (vw_views W) y" "listed (vw_views W) y b" for W b
  proof -
    obtain u ds where u: "vw_views W b = Some u" "v_descendants_to_notify u = Some ds" "y \<in> set ds"
      using W(3) by (auto simp: listed_def)
    let ?u = "u\<lparr>v_descendants_to_notify := (if remove1 y ds = [] then None else Some (remove1 y ds))\<rparr>"
    let ?s = "(vw_views W)(b \<mapsto> ?u)"
    have r: "registered ?s a = registered (vw_views W) a" for a using u(1) by (simp add: registered_def)
    have p: "same_plain (vw_views W) ?s" using u(1) by (simp add: same_plain_def)
    have l: "listed ?s a c" if "listed (vw_views W) a c" "a \<noteq> y \<or> c \<noteq> b" for a c
    proof (cases "c = b")
      case True
      then have "a \<in> set ds" "a \<noteq> y" using that u by (auto simp: listed_def)
      then have "a \<in> set (remove1 y ds)" by simp
      then show ?thesis using True by (auto simp: listed_def)
    qed (use that in \<open>simp add: listed_def\<close>)
    have c: "same_core (vw_views W) ?s" using same_plain_core [OF p] .
    have "bounds_ok ?s"
      unfolding bounds_ok_def
    proof (intro allI impI)
      fix a v' assume v': "?s a = Some v'" "v_registered_for_visible_bounds v'"
      then have ra: "registered ?s a" by (auto simp: registered_def)
      then obtain v where v: "vw_views W a = Some v" "v_registered_for_visible_bounds v" using r by (auto simp: registered_def)
      have ne: "a \<noteq> y" using ra r W(2) by blast
      have bv: "v_NeedsNotification v \<and> GetWidget (vw_views W) a \<noteq> Some None \<and>
          (\<forall>b. (parent_of (vw_views W))\<^sup>+\<^sup>+ a b \<longrightarrow> listed (vw_views W) a b)"
        using soundD(3) [OF W(1)] v unfolding bounds_ok_def by blast
      moreover have "v_NeedsNotification v' = v_NeedsNotification v" using v' v u by (auto split: if_splits)
      moreover have "GetWidget ?s a = GetWidget (vw_views W) a" by (rule same_core_GetWidget [OF c soundD(1) [OF W(1)] v(1)])
      moreover have "parent_of ?s = parent_of (vw_views W)" by (rule same_core_parent_of [OF c])
      ultimately show "v_NeedsNotification v' \<and> GetWidget ?s a \<noteq> Some None \<and> (\<forall>b. (parent_of ?s)\<^sup>+\<^sup>+ a b \<longrightarrow> listed ?s a b)"
        using l ne by simp
    qed
    then have "sound (W\<lparr>vw_views := ?s\<rparr>) F" by (rule sound_bounds [OF W(1) p])
    moreover have "RemoveDescendantToNotify y b W = Some (W\<lparr>vw_views := ?s\<rparr>)"
      using u by (simp add: RemoveDescendantToNotify_def upd_view_def Let_def)
    ultimately show ?thesis using p r l W(2) by (auto simp: fewer_registered_def)
  qed
  show "?P b"
  proof (rule grove_up [OF g b, where P = ?P])
    fix b v
    show "?P b" if bv: "s b = Some v" "v_parent v = None"
    proof (intro allI impI)
      fix W assume W: "sound W F" "same_core s (vw_views W)" "\<not> registered (vw_views W) y"
        "\<forall>c. c = b \<or> (parent_of s)\<^sup>+\<^sup>+ b c \<longrightarrow> listed (vw_views W) y c"
      obtain W1 s1 where W1: "RemoveDescendantToNotify y b W = Some W1" "sound W1 F" "W1 = W\<lparr>vw_views := s1\<rparr>"
        "fewer_registered (vw_views W) s1"
        using one [OF W(1,3), of b] W(4) by (auto elim!: ensuresE)
      have "same_core s s1" using same_core_trans [OF W(2)] same_plain_core W1(4) by (auto simp: fewer_registered_def)
      then obtain v1 where v1: "s1 b = Some v1" "core v1 = core v" using same_coreD bv(1) by blast
      then have "v_parent v1 = None" using core_fields(1) [OF v1(2)] bv(2) by simp
      then show "ensures (for_ancestors (RemoveDescendantToNotify y) (Some b) W)
          (\<lambda>W'. sound W' F \<and> (\<exists>s'. W' = W\<lparr>vw_views := s'\<rparr> \<and> fewer_registered (vw_views W) s'))"
        using W1 v1(1) by (auto simp: for_ancestors.simps [of _ "Some b"] for_ancestors.simps [of _ None])
    qed
  next
    fix b v p u
    show "?P b" if bv: "s b = Some v" "v_parent v = Some p" "s p = Some u" and up: "?P p"
    proof (intro allI impI)
      fix W assume W: "sound W F" "same_core s (vw_views W)" "\<not> registered (vw_views W) y"
        "\<forall>c. c = b \<or> (parent_of s)\<^sup>+\<^sup>+ b c \<longrightarrow> listed (vw_views W) y c"
      obtain W1 s1 where W1: "RemoveDescendantToNotify y b W = Some W1" "sound W1 F" "W1 = W\<lparr>vw_views := s1\<rparr>"
        "fewer_registered (vw_views W) s1" "\<forall>c. c \<noteq> b \<longrightarrow> listed (vw_views W) y c \<longrightarrow> listed s1 y c" "\<not> registered s1 y"
        using one [OF W(1,3), of b] W(4) by (auto elim!: ensuresE)
      have c1: "same_core s s1" using same_core_trans [OF W(2)] same_plain_core W1(4) by (auto simp: fewer_registered_def)
      then obtain v1 where v1: "s1 b = Some v1" "core v1 = core v" using same_coreD bv(1) by blast
      have above: "(parent_of s)\<^sup>+\<^sup>+ b c" if "c = p \<or> (parent_of s)\<^sup>+\<^sup>+ p c" for c
        using that bv(1,2) by (subst parent_trancl) auto
      have l: "listed s1 y c" if c: "c = p \<or> (parent_of s)\<^sup>+\<^sup>+ p c" for c
      proof -
        have "c \<noteq> b" using above [OF c] acyclic [OF g bv(1)] by metis
        moreover have "listed (vw_views W) y c" using W(4) [rule_format, of c] above [OF c] by simp
        ultimately show ?thesis using W1(5) by simp
      qed
      have vs: "vw_views W1 = s1" using W1(3) by simp
      have "ensures (for_ancestors (RemoveDescendantToNotify y) (Some p) W1)
          (\<lambda>W'. sound W' F \<and> (\<exists>s'. W' = W1\<lparr>vw_views := s'\<rparr> \<and> fewer_registered (vw_views W1) s'))"
        by (rule up [rule_format]) (use W1(2,6) c1 l vs in \<open>simp_all\<close>)
      then obtain W2 s2 where W2: "for_ancestors (RemoveDescendantToNotify y) (Some p) W1 = Some W2" "sound W2 F"
        "W2 = W\<lparr>vw_views := s2\<rparr>" "fewer_registered s1 s2"
        using W1(3) by (auto elim!: ensuresE)
      have vp: "v_parent v1 = Some p" using core_fields(1) [OF v1(2)] bv(2) by simp
      have "vw_views W1 b = Some v1" using v1(1) W1(3) by simp
      then have e: "for_ancestors (RemoveDescendantToNotify y) (Some b) W = Some W2"
        using W1(1) vp W2(1) by (subst for_ancestors.simps) simp
      show "ensures (for_ancestors (RemoveDescendantToNotify y) (Some b) W)
          (\<lambda>W'. sound W' F \<and> (\<exists>s'. W' = W\<lparr>vw_views := s'\<rparr> \<and> fewer_registered (vw_views W) s'))"
        unfolding e ensures_Some using W2(2,3) fewer_trans [OF W1(4) W2(4)] by blast
    qed
  qed
qed

definition unregisters :: "tree list \<Rightarrow> view_world \<Rightarrow> view_world \<Rightarrow> bool" where
  "unregisters F W W' \<longleftrightarrow> sound W' F \<and> (\<exists>s'. W' = W\<lparr>vw_views := s'\<rparr> \<and> fewer_registered (vw_views W) s')"

lemma unregisters_refl: "sound W F \<Longrightarrow> unregisters F W W"
  unfolding unregisters_def by (rule conjI, assumption, rule exI [of _ "vw_views W"]) simp

lemma unregisters_trans: "unregisters F U V \<Longrightarrow> unregisters F V W \<Longrightarrow> unregisters F U W"
proof -
  assume "unregisters F U V" "unregisters F V W"
  then obtain s t where "V = U\<lparr>vw_views := s\<rparr>" "fewer_registered (vw_views U) s" "W = U\<lparr>vw_views := t\<rparr>" "fewer_registered s t" "sound W F"
    by (auto simp: unregisters_def)
  then show ?thesis using fewer_trans unfolding unregisters_def by blast
qed

lemma unregistersD:
  assumes "unregisters F W W'"
  shows "sound W' F" "same_core (vw_views W) (vw_views W')" "registered (vw_views W') a \<Longrightarrow> registered (vw_views W) a"
    "W' = W\<lparr>vw_views := vw_views W'\<rparr>" "same_plain (vw_views W) (vw_views W')"
  using assms same_plain_core by (auto simp: unregisters_def fewer_registered_def)

lemma Unregister_bounds_ok:
  assumes s: "sound W F" and y: "vw_views W y = Some v"
  shows "ensures (UnregisterForVisibleBoundsNotification y W) (\<lambda>W'. unregisters F W W' \<and> \<not> registered (vw_views W') y)"
proof (cases "v_registered_for_visible_bounds v")
  case False
  then show ?thesis
    using y unregisters_refl [OF s] by (simp add: UnregisterForVisibleBoundsNotification_def registered_def)
next
  case True
  let ?v = "v\<lparr>v_registered_for_visible_bounds := False\<rparr>"
  let ?s = "(vw_views W)(y \<mapsto> ?v)"
  let ?W = "W\<lparr>vw_views := ?s\<rparr>"
  have p: "same_plain (vw_views W) ?s" using y by (simp add: same_plain_def)
  have c: "same_core (vw_views W) ?s" using same_plain_core [OF p] .
  have fr: "fewer_registered (vw_views W) ?s" using p by (simp add: fewer_registered_def registered_def)
  have l: "listed ?s a b = listed (vw_views W) a b" for a b using y by (auto simp: listed_def)
  have b: "bounds_ok ?s"
    unfolding bounds_ok_def
  proof (intro allI impI)
    fix a u assume u: "?s a = Some u" "v_registered_for_visible_bounds u"
    then have a: "a \<noteq> y" "vw_views W a = Some u" by (auto split: if_splits)
    then have "v_NeedsNotification u \<and> GetWidget (vw_views W) a \<noteq> Some None \<and>
        (\<forall>b. (parent_of (vw_views W))\<^sup>+\<^sup>+ a b \<longrightarrow> listed (vw_views W) a b)"
      using soundD(3) [OF s] u(2) unfolding bounds_ok_def by blast
    then show "v_NeedsNotification u \<and> GetWidget ?s a \<noteq> Some None \<and> (\<forall>b. (parent_of ?s)\<^sup>+\<^sup>+ a b \<longrightarrow> listed ?s a b)"
      using same_core_GetWidget [OF c soundD(1) [OF s] a(2)] same_core_parent_of [OF c] l by simp
  qed
  have s0: "sound ?W F" by (rule sound_bounds [OF s p b])
  have n: "\<not> registered ?s y" by (simp add: registered_def)
  have run: "UnregisterForVisibleBoundsNotification y W = for_ancestors (RemoveDescendantToNotify y) (v_parent v) ?W"
    using y True by (simp add: UnregisterForVisibleBoundsNotification_def upd_view_def)
  show ?thesis
  proof (cases "v_parent v")
    case None
    then show ?thesis using s0 fr n unfolding run by (auto simp: for_ancestors.simps [of _ None] unregisters_def)
  next
    case (Some q)
    obtain u where u: "vw_views W q = Some u" using grove_parent [OF soundD(1) [OF s] y Some] by blast
    have all: "\<forall>b. (parent_of (vw_views W))\<^sup>+\<^sup>+ y b \<longrightarrow> listed (vw_views W) y b"
      using soundD(3) [OF s] y True unfolding bounds_ok_def by blast
    have lq: "listed ?s y c" if "c = q \<or> (parent_of (vw_views W))\<^sup>+\<^sup>+ q c" for c
    proof -
      have "(parent_of (vw_views W))\<^sup>+\<^sup>+ y c" using that y Some by (subst parent_trancl) auto
      then show ?thesis using all l by simp
    qed
    have "ensures (for_ancestors (RemoveDescendantToNotify y) (Some q) ?W)
        (\<lambda>W'. sound W' F \<and> (\<exists>s'. W' = ?W\<lparr>vw_views := s'\<rparr> \<and> fewer_registered (vw_views ?W) s'))"
      by (rule unlist_ok [OF soundD(1) [OF s] u, rule_format]) (use s0 c n lq in \<open>simp_all\<close>)
    then have "ensures (for_ancestors (RemoveDescendantToNotify y) (Some q) ?W)
        (\<lambda>W'. unregisters F W W' \<and> \<not> registered (vw_views W') y)"
    proof (rule ensures_mono)
      fix W' assume "sound W' F \<and> (\<exists>s'. W' = ?W\<lparr>vw_views := s'\<rparr> \<and> fewer_registered (vw_views ?W) s')"
      then obtain s' where "sound W' F" "W' = W\<lparr>vw_views := s'\<rparr>" "fewer_registered ?s s'" by auto
      then show "unregisters F W W' \<and> \<not> registered (vw_views W') y"
        using fewer_trans [OF fr] n by (auto simp: unregisters_def fewer_registered_def)
    qed
    then show ?thesis unfolding run Some .
  qed
qed

lemma Unregister_children_ok:
  assumes g: "grove s F"
  shows "\<forall>t \<in> set ts. \<exists>q. ptree s q t \<Longrightarrow> \<forall>W. sound W F \<longrightarrow> same_core s (vw_views W) \<longrightarrow>
    ensures (for_notified UnregisterForVisibleBoundsNotification (map tr_addr ts) W)
      (\<lambda>W'. unregisters F W W' \<and> (\<forall>y \<in> set (concat (map preorder ts)). \<not> registered (vw_views W') y))"
proof (induction "length (concat (map preorder ts))" arbitrary: ts rule: less_induct)
  case less
  let ?f = "for_notified UnregisterForVisibleBoundsNotification"
  show ?case
  proof (cases ts)
    case Nil
    then show ?thesis by (simp add: for_notified.simps unregisters_refl)
  next
    case (Cons t ts')
    obtain q where q: "ptree s q t" using less.prems(1) Cons by auto
    obtain v where v: "s (tr_addr t) = Some v" "v_children v = map tr_addr (tr_subs t)" using ptree_view [OF q] by auto
    have subs: "\<forall>u \<in> set (tr_subs t). \<exists>q. ptree s q u" using ptree_sub [OF q] by blast
    show ?thesis
    proof (intro allI impI)
      fix W assume W: "sound W F" "same_core s (vw_views W)"
      obtain v0 where v0: "vw_views W (tr_addr t) = Some v0" "core v0 = core v" using same_coreD [OF W(2) v(1)] by blast
      have "ensures (if v_NeedsNotification v0 then UnregisterForVisibleBoundsNotification (tr_addr t) W else Some W)
          (\<lambda>W'. unregisters F W W' \<and> \<not> registered (vw_views W') (tr_addr t))"
      proof (cases "v_NeedsNotification v0")
        case False
        then have "\<not> registered (vw_views W) (tr_addr t)" using soundD(3) [OF W(1)] v0(1) by (auto simp: bounds_ok_def registered_def)
        then show ?thesis using False unregisters_refl [OF W(1)] by simp
      qed (use Unregister_bounds_ok [OF W(1) v0(1)] in simp)
      then obtain W1 where W1: "(if v_NeedsNotification v0 then UnregisterForVisibleBoundsNotification (tr_addr t) W else Some W) = Some W1"
        "unregisters F W W1" "\<not> registered (vw_views W1) (tr_addr t)" by (rule ensuresE) blast
      have c1: "same_core s (vw_views W1)" using same_core_trans [OF W(2) unregistersD(2) [OF W1(2)]] .
      have "ensures (?f (map tr_addr (tr_subs t)) W1)
          (\<lambda>W'. unregisters F W1 W' \<and> (\<forall>y \<in> set (concat (map preorder (tr_subs t))). \<not> registered (vw_views W') y))"
        using less.hyps [of "tr_subs t"] subs Cons unregistersD(1) [OF W1(2)] c1 by (simp add: preorder_subs [of t])
      then obtain W2 where W2: "?f (map tr_addr (tr_subs t)) W1 = Some W2" "unregisters F W1 W2"
        "\<forall>y \<in> set (concat (map preorder (tr_subs t))). \<not> registered (vw_views W2) y" by (rule ensuresE) blast
      have c2: "same_core s (vw_views W2)" using same_core_trans [OF c1 unregistersD(2) [OF W2(2)]] .
      have "ensures (?f (map tr_addr ts') W2)
          (\<lambda>W'. unregisters F W2 W' \<and> (\<forall>y \<in> set (concat (map preorder ts')). \<not> registered (vw_views W') y))"
        using less.hyps [of ts'] less.prems Cons unregistersD(1) [OF W2(2)] c2 by (simp add: preorder_subs [of t])
      then obtain W3 where W3: "?f (map tr_addr ts') W2 = Some W3" "unregisters F W2 W3"
        "\<forall>y \<in> set (concat (map preorder ts')). \<not> registered (vw_views W3) y" by (rule ensuresE) blast
      have "?f (map tr_addr ts) W = Some W3"
        using Cons v0(1) core_fields(2) [OF v0(2)] v(2) W1(1) W2(1) W3(1) by (subst for_notified.simps) simp
      moreover have "unregisters F W W3" by (rule unregisters_trans [OF W1(2) unregisters_trans [OF W2(2) W3(2)]])
      moreover have "\<not> registered (vw_views W3) y" if y: "y \<in> set (preorder t)" for y
        using y W1(3) W2(3) unregistersD(3) [OF W2(2)] unregistersD(3) [OF W3(2)]
        by (cases "y = tr_addr t") (auto simp: preorder_subs [of t])
      ultimately show "ensures (?f (map tr_addr ts) W)
          (\<lambda>W'. unregisters F W W' \<and> (\<forall>y \<in> set (concat (map preorder ts)). \<not> registered (vw_views W') y))"
        using W3(3) Cons by auto
    qed
  qed
qed

end
