(* ===== verification/View_Links.thy ===== *)
theory View_Links
  imports View_Bounds
begin

text \<open>
  The links of the focus order among siblings. They are not part of what \<open>sound\<close> states, and taking a view out of the
  chain of its siblings leaves a chain of the others.
\<close>

section \<open>Chains\<close>

text \<open>A chain of siblings from \<open>l\<close> to \<open>r\<close>.\<close>

fun chain :: "view_store \<Rightarrow> nat option \<Rightarrow> nat list \<Rightarrow> nat option \<Rightarrow> bool" where
  "chain s l [] r = True"
| "chain s l (a # as) r =
     ((\<exists>v. s a = Some v \<and> v_previous_focusable v = l \<and> v_next_focusable v = (case as of [] \<Rightarrow> r | b # _ \<Rightarrow> Some b)) \<and>
      chain s (Some a) as r)"

lemma linked_chain: "linked s l as = chain s l as None"
  by (induction as arbitrary: l) (simp_all split: list.split)

lemma chain_append:
  "chain s l (as @ bs) r \<longleftrightarrow>
   chain s l as (case bs of [] \<Rightarrow> r | b # _ \<Rightarrow> Some b) \<and> chain s (if as = [] then l else last_of as) bs r"
  by (induction as arbitrary: l) (auto simp: last_of_def split: list.split)

lemma chain_cong: "(\<And>a. a \<in> set as \<Longrightarrow> s' a = s a) \<Longrightarrow> chain s' l as r = chain s l as r"
  by (induction as arbitrary: l) simp_all

definition upd :: "nat \<Rightarrow> (view \<Rightarrow> view) \<Rightarrow> view_store \<Rightarrow> view_store" where
  "upd a f s = s(a := map_option f (s a))"

lemma upd_apply [simp]: "upd a f s b = (if b = a then map_option f (s a) else s b)"
  by (simp add: upd_def)

lemma upd_view_store: "upd_view a f W = W\<lparr>vw_views := upd a f (vw_views W)\<rparr>"
  by (simp add: upd_view_def upd_def)

lemma chain_upd [simp]: "a \<notin> set as \<Longrightarrow> chain (upd a f s) l as r = chain s l as r"
  by (rule chain_cong) auto

lemma chain_set_last:
  assumes "chain s l (as @ [a]) r" and "a \<notin> set as"
  shows "chain (upd a (\<lambda>v. v\<lparr>v_next_focusable := r'\<rparr>) s) l (as @ [a]) r'"
  using assms by (auto simp: chain_append)

lemma chain_set_first:
  assumes "chain s l (a # as) r" and "a \<notin> set as"
  shows "chain (upd a (\<lambda>v. v\<lparr>v_previous_focusable := l'\<rparr>) s) l' (a # as) r"
  using assms by auto

text \<open>The store after \<open>unlink_view\<close>.\<close>

definition relink :: "nat option \<Rightarrow> nat option \<Rightarrow> view_store \<Rightarrow> view_store" where
  "relink p n s =
     (let s = (case p of None \<Rightarrow> s | Some a \<Rightarrow> upd a (\<lambda>v. v\<lparr>v_next_focusable := n\<rparr>) s)
      in case n of None \<Rightarrow> s | Some b \<Rightarrow> upd b (\<lambda>v. v\<lparr>v_previous_focusable := p\<rparr>) s)"

lemma relink_None [simp]: "relink None None s = s"
  by (simp add: relink_def)

lemma relink_other: "a \<notin> set_option p \<union> set_option n \<Longrightarrow> relink p n s a = s a"
  by (auto simp: relink_def Let_def split: option.split)

lemma chain_relink:
  assumes "chain s None (as @ c # bs) None" and "distinct (as @ c # bs)"
  shows "chain (relink (last_of as) (first_of bs) s) None (as @ bs) None"
proof -
  have "chain s None as (Some c)" "chain s (Some c) bs None" using assms(1) by (simp_all add: chain_append)
  then have parts: "chain s None as (Some c)" "chain s (Some c) bs None" .
  define s1 where "s1 = (case last_of as of None \<Rightarrow> s | Some a \<Rightarrow> upd a (\<lambda>v. v\<lparr>v_next_focusable := first_of bs\<rparr>) s)"
  have s1: "chain s1 None as (first_of bs)"
  proof (cases as rule: rev_cases)
    case (snoc as' a)
    then show ?thesis using chain_set_last [of s None as' a "Some c" "first_of bs"] parts(1) assms(2) by (simp add: s1_def)
  qed simp
  have s1': "chain s1 (Some c) bs None"
  proof -
    have "s1 b = s b" if "b \<in> set bs" for b using that assms(2) last_in_set [of as] by (auto simp: s1_def last_of_def disjoint_iff)
    then show ?thesis using parts(2) chain_cong [of bs s1 s] by simp
  qed
  define s2 where "s2 = (case first_of bs of None \<Rightarrow> s1 | Some b \<Rightarrow> upd b (\<lambda>v. v\<lparr>v_previous_focusable := last_of as\<rparr>) s1)"
  have s2: "chain s2 (last_of as) bs None"
  proof (cases bs)
    case (Cons b bs')
    then show ?thesis using chain_set_first [of s1 "Some c" b bs' None "last_of as"] s1' assms(2) by (simp add: s2_def)
  qed simp
  have "chain s2 None as (first_of bs)"
  proof -
    have "s2 a = s1 a" if "a \<in> set as" for a using that assms(2) by (cases bs) (auto simp: s2_def)
    then show ?thesis using s1 chain_cong [of as s2 s1] by simp
  qed
  then have "chain s2 None (as @ bs) None" using s2 by (auto simp: chain_append first_of_def last_of_def)
  moreover have "relink (last_of as) (first_of bs) s = s2" unfolding relink_def s2_def s1_def Let_def ..
  ultimately show ?thesis by simp
qed

lemma unlink_relink:
  assumes "vw_views W c = Some v"
    and "\<And>a. v_previous_focusable v = Some a \<Longrightarrow> vw_views W a \<noteq> None" and "\<And>b. v_next_focusable v = Some b \<Longrightarrow> vw_views W b \<noteq> None"
  shows "unlink_view c W = Some (W\<lparr>vw_views := relink (v_previous_focusable v) (v_next_focusable v) (vw_views W)\<rparr>)"
  using assms
  by (auto simp: unlink_view_def set_next_def set_previous_def upd_view_store relink_def Let_def split: option.split)

section \<open>Links and soundness\<close>

definition linkless :: "view \<Rightarrow> view" where
  "linkless v = v\<lparr>v_next_focusable := None, v_previous_focusable := None\<rparr>"

definition same_linkless :: "view_store \<Rightarrow> view_store \<Rightarrow> bool" where
  "same_linkless s s' \<longleftrightarrow> (\<forall>a. map_option linkless (s' a) = map_option linkless (s a))"

lemma linkless_updates [simp]:
  "linkless (v\<lparr>v_next_focusable := n\<rparr>) = linkless v" "linkless (v\<lparr>v_previous_focusable := n\<rparr>) = linkless v"
  by (simp_all add: linkless_def)

lemma linkless_fields:
  assumes "linkless u = linkless v"
  shows "v_parent u = v_parent v" "v_children u = v_children v" "v_root_of u = v_root_of v"
    "v_NeedsNotification u = v_NeedsNotification v" "v_registered_for_visible_bounds u = v_registered_for_visible_bounds v"
    "v_descendants_to_notify u = v_descendants_to_notify v" "v_accelerators u = v_accelerators v"
    "v_accelerator_focus_manager u = v_accelerator_focus_manager v"
    "v_registered_accelerator_count u = v_registered_accelerator_count v"
  using arg_cong [OF assms, of v_parent] arg_cong [OF assms, of v_children] arg_cong [OF assms, of v_root_of]
    arg_cong [OF assms, of v_NeedsNotification] arg_cong [OF assms, of v_registered_for_visible_bounds]
    arg_cong [OF assms, of v_descendants_to_notify] arg_cong [OF assms, of v_accelerators]
    arg_cong [OF assms, of v_accelerator_focus_manager] arg_cong [OF assms, of v_registered_accelerator_count]
  by (simp_all add: linkless_def)

lemma same_linkless_upd: "(\<And>v. linkless (f v) = linkless v) \<Longrightarrow> same_linkless s (upd a f s)"
  by (simp add: same_linkless_def option.map_comp comp_def)

lemma same_linkless_trans: "same_linkless s t \<Longrightarrow> same_linkless t u \<Longrightarrow> same_linkless s u"
  by (simp add: same_linkless_def)

lemma same_linkless_relink: "same_linkless s (relink p n s)"
  unfolding relink_def Let_def
  by (cases p; cases n) (auto intro: same_linkless_upd same_linkless_trans [OF same_linkless_upd same_linkless_upd] simp: same_linkless_def option.map_comp comp_def)

lemma same_linklessD: "same_linkless s s' \<Longrightarrow> s a = Some v \<Longrightarrow> \<exists>v'. s' a = Some v' \<and> linkless v' = linkless v"
  by (metis same_linkless_def map_option_eq_Some)

lemma same_linkless_sym: "same_linkless s s' \<Longrightarrow> same_linkless s' s"
  by (simp add: same_linkless_def)

lemma same_linkless_dom: "same_linkless s s' \<Longrightarrow> dom s' = dom s"
  unfolding same_linkless_def dom_def by (metis map_option_is_None)

lemma same_linkless_ptree: "same_linkless s s' \<Longrightarrow> ptree s p t \<Longrightarrow> ptree s' p t"
proof (induction t arbitrary: p)
  case (Node a ti ts)
  obtain v where v: "s a = Some v" "v_parent v = p" "v_children v = map tr_addr ts" using Node.prems(2) by auto
  obtain v' where v': "s' a = Some v'" "linkless v' = linkless v" using same_linklessD [OF Node.prems(1) v(1)] by blast
  then show ?case using Node v linkless_fields [OF v'(2)] by simp
qed

lemma same_linkless_grove: "same_linkless s s' \<Longrightarrow> grove s F \<Longrightarrow> grove s' F"
proof -
  assume c: "same_linkless s s'" and g: "grove s F"
  have "v_root_of v = None" if v: "s' a = Some v" "v_parent v \<noteq> None" for a v
  proof -
    obtain u where u: "s a = Some u" "linkless u = linkless v" using same_linklessD [OF same_linkless_sym [OF c] v(1)] by blast
    then show ?thesis using linkless_fields [OF u(2)] v(2) g by (auto simp: grove_def)
  qed
  then show ?thesis using g same_linkless_dom [OF c] same_linkless_ptree [OF c] by (simp add: grove_def)
qed

text \<open>A field that both stores agree on.\<close>

lemma same_linkless_map:
  assumes "same_linkless s s'" and "\<And>u v. linkless u = linkless v \<Longrightarrow> f u = f v"
  shows "map_option f (s' a) = map_option f (s a)"
proof (cases "s a")
  case None
  then show ?thesis using same_linkless_dom [OF assms(1)] by (metis domIff)
next
  case (Some v)
  obtain v' where v': "s' a = Some v'" "linkless v' = linkless v" using same_linklessD [OF assms(1) Some] by blast
  then show ?thesis using Some assms(2) [OF v'(2)] by simp
qed

lemma same_linkless_GetWidget:
  assumes "same_linkless s s'" and "grove s F" and "s a = Some v"
  shows "GetWidget s' a = GetWidget s a"
proof (rule grove_up [OF assms(2,3)])
  show "GetWidget s' a = GetWidget s a" if a: "s a = Some v" "v_parent v = None" for a v
  proof -
    obtain v' where v': "s' a = Some v'" "linkless v' = linkless v" using same_linklessD [OF assms(1) a(1)] by blast
    show ?thesis using a v'(1) linkless_fields [OF v'(2)] by (simp add: GetWidget.simps [of _ a] split: option.split)
  qed
  show "GetWidget s' a = GetWidget s a" if a: "s a = Some v" "v_parent v = Some b" "GetWidget s' b = GetWidget s b" for a v b
  proof -
    obtain v' where v': "s' a = Some v'" "linkless v' = linkless v" using same_linklessD [OF assms(1) a(1)] by blast
    show ?thesis using a v'(1) linkless_fields [OF v'(2)] by (simp add: GetWidget.simps [of _ a] split: option.split)
  qed
qed

lemma sound_links:
  assumes s: "sound W F" and l: "same_linkless (vw_views W) s'"
  shows "sound (W\<lparr>vw_views := s'\<rparr>) F"
proof -
  let ?W = "W\<lparr>vw_views := s'\<rparr>"
  have g: "grove (vw_views W) F" using soundD(1) [OF s] .
  have bk: "\<exists>v0. vw_views W a = Some v0 \<and> linkless v0 = linkless v" if "s' a = Some v" for a v
    using same_linklessD [OF same_linkless_sym [OF l] that] .
  have par: "parent_of s' = parent_of (vw_views W)"
    by (intro ext) (simp add: parent_of_eq same_linkless_map [OF l linkless_fields(1)])
  have li: "listed s' a b = listed (vw_views W) a b" for a b
  proof -
    have "listed x a b \<longleftrightarrow> (\<exists>ds. map_option v_descendants_to_notify (x b) = Some (Some ds) \<and> a \<in> set ds)" for x
      by (auto simp: listed_def)
    then show ?thesis by (simp only: same_linkless_map [OF l linkless_fields(6)])
  qed
  have "bounds_ok s'"
    unfolding bounds_ok_def par li [abs_def]
  proof (intro allI impI)
    fix a v assume v: "s' a = Some v" "v_registered_for_visible_bounds v"
    obtain v0 where v0: "vw_views W a = Some v0" "linkless v0 = linkless v" using bk [OF v(1)] by blast
    have "v_registered_for_visible_bounds v0" using linkless_fields(5) [OF v0(2)] v(2) by simp
    then have "v_NeedsNotification v0 \<and> GetWidget (vw_views W) a \<noteq> Some None \<and>
        (\<forall>b. (parent_of (vw_views W))\<^sup>+\<^sup>+ a b \<longrightarrow> listed (vw_views W) a b)"
      using soundD(3) [OF s] v0(1) unfolding bounds_ok_def by blast
    then show "v_NeedsNotification v \<and> GetWidget s' a \<noteq> Some None \<and> (\<forall>b. (parent_of (vw_views W))\<^sup>+\<^sup>+ a b \<longrightarrow> listed (vw_views W) a b)"
      using same_linkless_GetWidget [OF l g v0(1)] linkless_fields(4) [OF v0(2)] by simp
  qed
  moreover have "view_ok ?W a v" if v: "s' a = Some v" for a v
  proof -
    obtain v0 where v0: "vw_views W a = Some v0" "linkless v0 = linkless v" using bk [OF v] by blast
    have "GetFocusManager ?W a = GetFocusManager W a"
      using same_linkless_GetWidget [OF l g v0(1)] by (simp add: GetFocusManager_def widget_GetFocusManager_def cong: option.case_cong)
    then show ?thesis using soundD(4) [OF s v0(1)] linkless_fields [OF v0(2)] by (simp add: view_ok_def)
  qed
  moreover have "widget_ok ?W wd" if "vw_widgets W w = Some wd" for w wd
    using soundD(5) [OF s that] by (simp add: widget_ok_def)
  moreover have "manager_ok ?W f n" if f: "vw_managers W f = Some n" for f n
  proof -
    have d: "dom s' = dom (vw_views W)" using same_linkless_dom [OF l] .
    then have "s' a \<noteq> None" if "vw_views W a \<noteq> None" for a using that by blast
    moreover have "v_accelerator_focus_manager v = Some f"
      if x: "x \<in> am_targets (fm_accelerator_manager n) acc" "s' x = Some v" for x acc v
    proof -
      obtain v0 where v0: "vw_views W x = Some v0" "linkless v0 = linkless v" using bk [OF x(2)] by blast
      have "v_accelerator_focus_manager v0 = Some f" using soundD(6) [OF s f] x(1) v0(1) unfolding manager_ok_def by blast
      then show ?thesis using linkless_fields(8) [OF v0(2)] by simp
    qed
    ultimately show ?thesis using soundD(6) [OF s f] d by (simp add: manager_ok_def)
  qed
  ultimately show ?thesis using same_linkless_grove [OF l g] soundD(2) [OF s] by (simp add: sound_def)
qed

end
