(* ===== verification/View_Hierarchy.thy ===== *)
theory View_Hierarchy
  imports View_Links
begin

text \<open>
  Removing a child: the views stay trees with linked children, everything that is kept about a hierarchy is kept, and
  nothing refers to the views that were removed.
\<close>

section \<open>Trees under updates\<close>

lemma linked_cong: "(\<And>a. a \<in> set as \<Longrightarrow> s' a = s a) \<Longrightarrow> linked s' l as = linked s l as"
  unfolding linked_chain by (rule chain_cong)

lemma vtree_cong: "\<forall>a \<in> set (preorder t). s' a = s a \<Longrightarrow> vtree s' p t = vtree s p t"
proof (induction t arbitrary: p)
  case (Node a ti ts)
  have "linked s' None (map tr_addr ts) = linked s None (map tr_addr ts)"
    using Node.prems addr_in_preorder by (intro linked_cong) auto
  moreover have "vtree s' (Some a) t = vtree s (Some a) t" if "t \<in> set ts" for t
    using Node.IH [OF that] Node.prems that by auto
  ultimately show ?case using Node.prems by simp
qed

text \<open>Only the root of a tree changes.\<close>

lemma vtree_root:
  assumes "vtree s p t" and "distinct (preorder t)" and "\<forall>a \<in> set (preorder t) - {tr_addr t}. s' a = s a"
    and "s' (tr_addr t) = Some v" and "v_parent v = q" and "v_children v = map tr_addr (tr_subs t)"
  shows "vtree s' q t"
proof (cases t)
  case (Node a ti ts)
  have sub: "\<forall>b \<in> set (preorder u). s' b = s b" if "u \<in> set ts" for u
    using assms(2,3) that Node by auto
  then have "linked s' None (map tr_addr ts) = linked s None (map tr_addr ts)"
    using addr_in_preorder by (intro linked_cong) auto
  then show ?thesis using assms(1,4-6) Node vtree_cong [OF sub] by simp
qed

lemma subtree_vtree: "u \<in> subtrees t \<Longrightarrow> vtree s p t \<Longrightarrow> \<exists>q. vtree s q u"
  by (induction t arbitrary: p) auto

lemma subtree_root:
  assumes "u \<in> subtrees c" and "distinct (preorder c)" and "tr_addr c \<in> set (preorder u)"
  shows "u = c"
proof (cases c)
  case (Node d ti us)
  show ?thesis
  proof (rule ccontr)
    assume "u \<noteq> c"
    then obtain b where b: "b \<in> set us" "u \<in> subtrees b" using assms(1) Node by auto
    then have "d \<in> set (preorder b)" using subtree_preorder [OF b(2)] assms(3) Node by auto
    then show False using assms(2) Node b(1) by auto
  qed
qed

definition links :: "view \<Rightarrow> nat option \<times> nat option" where
  "links v = (v_previous_focusable v, v_next_focusable v)"

lemma chain_links: "(\<And>a. a \<in> set as \<Longrightarrow> map_option links (s' a) = map_option links (s a)) \<Longrightarrow> chain s l as r \<Longrightarrow> chain s' l as r"
proof (induction as arbitrary: l)
  case (Cons a as)
  obtain v where v: "s a = Some v" "v_previous_focusable v = l" "v_next_focusable v = (case as of [] \<Rightarrow> r | b # _ \<Rightarrow> Some b)"
    using Cons.prems(2) by auto
  obtain v' where "s' a = Some v'" "links v' = links v" using Cons.prems(1) [of a] v(1) by (auto simp: map_option_eq_Some)
  then show ?case using v Cons by (simp add: links_def)
qed simp

text \<open>The children of one node change.\<close>

lemma upd_vtree:
  assumes "u \<in> subtrees t" and "distinct (preorder t)" and "vtree s q t"
    and "s' (tr_addr u) = map_option (\<lambda>v. v\<lparr>v_children := map tr_addr (f (tr_subs u))\<rparr>) (s (tr_addr u))"
    and "linked s' None (map tr_addr (f (tr_subs u)))" and "\<forall>c \<in> set (f (tr_subs u)). vtree s' (Some (tr_addr u)) c"
    and "\<forall>a \<in> set (preorder t) - set (preorder u). s' a = s a"
  shows "vtree s' q (tree_upd (tr_addr u) f t)"
  using assms(1-3,7)
proof (induction t arbitrary: q)
  case (Node a ti ts)
  show ?case
  proof (cases "u = Node a ti ts")
    case True
    then show ?thesis using Node.prems(3) assms(4-6) by auto
  next
    case False
    then obtain c where c: "c \<in> set ts" "u \<in> subtrees c" using Node.prems(1) by auto
    obtain as bs where ts: "ts = as @ c # bs" using split_list [OF c(1)] by blast
    have uc: "set (preorder u) \<subseteq> set (preorder c)" using subtree_preorder [OF c(2)] .
    have ad: "tr_addr u \<in> set (preorder c)" using uc addr_in_preorder by blast
    have d: "distinct (concat (map preorder (as @ c # bs)))" "a \<notin> set (concat (map preorder ts))" "distinct (preorder c)"
      using Node.prems(2) ts by auto
    have au: "a \<noteq> tr_addr u" "a \<notin> set (preorder u)" using d(2) c(1) uc ad by auto
    have outside: "\<forall>y \<in> set (preorder b). s' y = s y" if b: "b \<in> set as \<union> set bs" for b
    proof -
      have "set (preorder b) \<inter> set (preorder u) = {}" using d(1) b uc by auto
      then show ?thesis using Node.prems(4) b ts by auto
    qed
    have "vtree s' (Some a) (tree_upd (tr_addr u) f c)"
      using Node.IH [OF c(1,2) d(3), of "Some a"] Node.prems(3,4) c(1) by auto
    moreover have "vtree s' (Some a) b" if b: "b \<in> set as \<union> set bs" for b
      using vtree_cong [OF outside [OF b], of "Some a"] Node.prems(3) b ts by auto
    moreover have "linked s' None (map tr_addr ts)"
    proof -
      have "map_option links (s' (tr_addr b)) = map_option links (s (tr_addr b))" if b: "b \<in> set ts" for b
      proof (cases "tr_addr b \<in> set (preorder u)")
        case True
        have "tr_addr b \<in> set (preorder c)" using True uc by blast
        have "set (preorder b) \<inter> set (preorder c) = {}" if "b \<in> set as \<union> set bs" using d(1) that by auto
        then have "b = c" using b ts addr_in_preorder [of b] \<open>tr_addr b \<in> set (preorder c)\<close> by (auto simp: disjoint_iff)
        then have "u = c" using subtree_root [OF c(2) d(3)] True by simp
        then show ?thesis using assms(4) \<open>b = c\<close> by (cases "s (tr_addr c)") (simp_all add: links_def)
      next
        case False
        moreover have "tr_addr b \<in> set (preorder (Node a ti ts))" using b addr_in_preorder [of b] by fastforce
        ultimately show ?thesis using Node.prems(4) by simp
      qed
      moreover have "chain s None (map tr_addr ts) None" using Node.prems(3) by (simp add: linked_chain)
      ultimately show ?thesis unfolding linked_chain by - (rule chain_links, auto)
    qed
    moreover have "s' a = s a" using Node.prems(4) au(2) by simp
    ultimately show ?thesis using au(1) Node.prems(3) upd_split [OF d(1) ad, of f] ts by auto
  qed
qed

section \<open>The store without the child\<close>

definition detach :: "nat \<Rightarrow> nat \<Rightarrow> view_store \<Rightarrow> view_store" where
  "detach this view s =
     upd this (\<lambda>n. n\<lparr>v_children := remove1 view (v_children n)\<rparr>) (upd view (\<lambda>v. v\<lparr>v_parent := None\<rparr>) s)"

lemma detach_field:
  assumes "\<And>v p. f (v\<lparr>v_parent := p\<rparr>) = f v" and "\<And>v cs. f (v\<lparr>v_children := cs\<rparr>) = f v"
  shows "map_option f (detach this view s a) = map_option f (s a)"
  by (simp add: detach_def option.map_comp comp_def assms)

lemma detach_dom: "dom (detach this view s) = dom s"
  by (auto simp: detach_def dom_def)

lemma detach_back:
  "detach this view s a = Some v \<Longrightarrow>
   \<exists>v0. s a = Some v0 \<and> v_parent v = (if a = view then None else v_parent v0) \<and> v_root_of v = v_root_of v0"
  by (auto simp: detach_def split: if_splits)

lemma last_first_in: "set_option (last_of xs) \<subseteq> set xs" "set_option (first_of xs) \<subseteq> set xs"
  by (auto simp: last_of_def first_of_def split: list.splits)

text \<open>Both steps on a forest: relinking the siblings and detaching the child.\<close>

definition forest_without :: "tree list \<Rightarrow> tree \<Rightarrow> tree \<Rightarrow> tree \<Rightarrow> tree list" where
  "forest_without F t u c = c # tree_upd (tr_addr u) (remove1 c) t # remove1 t F"

lemma forest_without_mset:
  assumes "t \<in> set F" and "distinct (preorder t)" and "u \<in> subtrees t" and "c \<in> set (tr_subs u)"
  shows "mset (concat (map preorder (forest_without F t u c))) = mset (concat (map preorder F))"
proof -
  have "mset (preorder (tree_upd (tr_addr u) (remove1 c) t)) + mset (preorder c) = mset (preorder t)"
    using upd_preorder [OF assms(3,2), of "remove1 c"] mset_concat_remove1 [OF assms(4)] by simp
  then show ?thesis using mset_concat_remove1 [OF assms(1)] by (simp add: forest_without_def ac_simps)
qed

lemma detach_vtree:
  assumes g: "grove s F" and v: "\<forall>t \<in> set F. vtree s None t" and t: "t \<in> set F" and u: "u \<in> subtrees t" and c: "c \<in> set (tr_subs u)"
    and vc: "s (tr_addr c) = Some vc"
  shows "\<forall>x \<in> set (forest_without F t u c).
      vtree (detach (tr_addr u) (tr_addr c) (relink (v_previous_focusable vc) (v_next_focusable vc) s)) None x"
    and "v_previous_focusable vc = Some a \<Longrightarrow> s a \<noteq> None" and "v_next_focusable vc = Some b \<Longrightarrow> s b \<noteq> None"
proof -
  let ?s1 = "relink (v_previous_focusable vc) (v_next_focusable vc) s"
  let ?s2 = "detach (tr_addr u) (tr_addr c) ?s1"
  have dF: "distinct (concat (map preorder F))" using g by (simp add: grove_def)
  have dt: "distinct (preorder t)" using dF t by (auto simp: distinct_concat_iff)
  have vt: "vtree s None t" using v t by blast
  have du: "distinct (preorder u)" using subtree_distinct [OF u dt] .
  obtain q where q: "vtree s q u" using subtree_vtree [OF u vt] by blast
  note sp = sub_parts [OF du c]
  obtain as bs where ab: "tr_subs u = as @ c # bs" "c \<notin> set as" using split_list_first [OF c] by blast
  let ?as = "map tr_addr as" and ?bs = "map tr_addr bs"
  have l: "chain s None (?as @ tr_addr c # ?bs) None"
    using q ab by (cases u) (simp add: linked_chain)
  have prev: "v_previous_focusable vc = last_of ?as" and nxt: "v_next_focusable vc = first_of ?bs"
    using linked_at [of s None ?as "tr_addr c" ?bs] l vc by (auto simp: linked_chain last_of_def)
  have da: "distinct (?as @ tr_addr c # ?bs)" using sp(4) ab(1) by simp
  have sib: "\<exists>d \<in> set (tr_subs u). a = tr_addr d" if "a \<in> set_option (last_of ?as) \<union> set_option (first_of ?bs)" for a
    using that ab(1) by (cases as rule: rev_cases; cases bs) auto
  have sib_dom: "s a \<noteq> None" if "a \<in> set_option (last_of ?as) \<union> set_option (first_of ?bs)" for a
    using sib [OF that] vtree_view [OF vtree_sub [OF q]] by auto
  show "s a \<noteq> None" if "v_previous_focusable vc = Some a" using sib_dom prev that by auto
  show "s b \<noteq> None" if "v_next_focusable vc = Some b" using sib_dom nxt that by auto
  have ne: "tr_addr c \<noteq> tr_addr u" using sp(2) addr_in_preorder [of c] by metis
  have c1: "?s1 (tr_addr c) = s (tr_addr c)"
    using da prev nxt last_first_in [of ?as] last_first_in [of ?bs] by (intro relink_other) auto
  have u1: "?s1 (tr_addr u) = s (tr_addr u)"
  proof (rule relink_other)
    show "tr_addr u \<notin> set_option (v_previous_focusable vc) \<union> set_option (v_next_focusable vc)"
      using sib [of "tr_addr u"] sub_parts(2) [OF du] addr_in_preorder prev nxt by metis
  qed
  have other: "?s2 a = s a" if "a \<noteq> tr_addr c" "a \<noteq> tr_addr u" "a \<notin> tr_addr ` set (tr_subs u)" for a
  proof -
    have "?s1 a = s a" using sib that(3) prev nxt by (intro relink_other) auto
    then show ?thesis using that(1,2) by (simp add: detach_def)
  qed
  have inside: "\<forall>a \<in> set (preorder d) - {tr_addr d}. ?s2 a = s a" if d: "d \<in> set (tr_subs u)" for d
  proof
    fix a assume a: "a \<in> set (preorder d) - {tr_addr d}"
    have "a \<noteq> tr_addr u" using a sub_parts(2) [OF du d] by blast
    moreover have "a \<noteq> tr_addr e" if e: "e \<in> set (tr_subs u)" for e
    proof
      assume "a = tr_addr e"
      then have "e \<noteq> d" "a \<in> set (preorder e)" using a by auto
      moreover have "set (preorder e) \<inter> set (preorder d) = {}" if "e \<noteq> d"
        using sub_parts(5) [OF du d, of e] e that by (simp add: in_set_remove1)
      ultimately show False using a by blast
    qed
    ultimately show "?s2 a = s a" using other c by blast
  qed
  have "vtree ?s2 None c"
  proof (rule vtree_root [OF vtree_sub [OF q c] sp(3) inside [OF c]])
    show "?s2 (tr_addr c) = Some (vc\<lparr>v_parent := None\<rparr>)" using c1 vc ne by (simp add: detach_def)
    show "v_children (vc\<lparr>v_parent := None\<rparr>) = map tr_addr (tr_subs c)" using vtree_view [OF vtree_sub [OF q c]] vc by simp
  qed simp
  moreover have "vtree ?s2 None (tree_upd (tr_addr u) (remove1 c) t)"
  proof (rule upd_vtree [OF u dt vt])
    show "?s2 (tr_addr u) = map_option (\<lambda>v. v\<lparr>v_children := map tr_addr (remove1 c (tr_subs u))\<rparr>) (s (tr_addr u))"
      using vtree_view [OF q] u1 ne map_remove1_addr [OF sp(4) c] by (auto simp: detach_def)
    have "chain ?s1 None (?as @ ?bs) None" using chain_relink [OF l da] prev nxt by simp
    moreover have "tr_addr u \<notin> set (?as @ ?bs)" using sub_parts(2) [OF du] addr_in_preorder ab(1) by fastforce
    ultimately have "chain ?s2 None (?as @ ?bs) None" using da by (simp add: detach_def)
    then show "linked ?s2 None (map tr_addr (remove1 c (tr_subs u)))"
      using ab by (simp add: linked_chain remove1_append)
    show "\<forall>d \<in> set (remove1 c (tr_subs u)). vtree ?s2 (Some (tr_addr u)) d"
    proof
      fix d assume d: "d \<in> set (remove1 c (tr_subs u))"
      then have d': "d \<in> set (tr_subs u)" using notin_set_remove1 by fast
      obtain vd where vd: "s (tr_addr d) = Some vd" "v_parent vd = Some (tr_addr u)" "v_children vd = map tr_addr (tr_subs d)"
        using vtree_view [OF vtree_sub [OF q d']] by auto
      obtain vd' where vd': "?s1 (tr_addr d) = Some vd'" "linkless vd' = linkless vd"
        using same_linklessD [OF same_linkless_relink [of s] vd(1)] by blast
      have "tr_addr d \<noteq> tr_addr c" using sp(5) [OF d] addr_in_preorder by (metis IntI empty_iff)
      moreover have "tr_addr d \<noteq> tr_addr u" using sub_parts(2) [OF du d'] addr_in_preorder [of d] by metis
      ultimately have "?s2 (tr_addr d) = Some vd'" using vd'(1) by (simp add: detach_def)
      then show "vtree ?s2 (Some (tr_addr u)) d"
        using linkless_fields(1,2) [OF vd'(2)] vd(2,3)
        by (intro vtree_root [OF vtree_sub [OF q d'] sub_parts(3) [OF du d'] inside [OF d']]) simp_all
    qed
    show "\<forall>a \<in> set (preorder t) - set (preorder u). ?s2 a = s a"
    proof
      fix a assume a: "a \<in> set (preorder t) - set (preorder u)"
      have "tr_addr ` set (tr_subs u) \<subseteq> set (preorder u)" using sub_parts(1) [OF du] addr_in_preorder by blast
      then show "?s2 a = s a" using other [of a] a c addr_in_preorder [of u] by blast
    qed
  qed
  moreover have "vtree ?s2 None x" if x: "x \<in> set (remove1 t F)" for x
  proof -
    have "set (preorder x) \<inter> set (preorder t) = {}"
    proof -
      have "mset (concat (map preorder F)) = mset (preorder t @ concat (map preorder (remove1 t F)))"
        using mset_concat_remove1 [OF t] by simp
      then have "distinct (preorder t @ concat (map preorder (remove1 t F)))" using dF mset_eq_imp_distinct_iff by blast
      then show ?thesis using x by auto
    qed
    moreover have "insert (tr_addr u) (tr_addr ` set (tr_subs u)) \<subseteq> set (preorder t)"
      using sub_parts(1) [OF du] subtree_preorder [OF u] addr_in_preorder by blast
    ultimately have "\<forall>a \<in> set (preorder x). ?s2 a = s a" using other c by blast
    then show ?thesis using vtree_cong v x notin_set_remove1 [of x F t] by blast
  qed
  ultimately show "\<forall>x \<in> set (forest_without F t u c). vtree ?s2 None x" by (simp add: forest_without_def)
qed

end
