(* ===== verification/View_Guarantees.thy ===== *)
theory View_Guarantees
  imports View_Hierarchy Focus_Traversal
begin

text \<open>
  What removing a child from a view guarantees: it returns, the hierarchy stays one in which all the invariants hold, and
  the removed views are no longer known to the focus manager, the view storage, the accelerators, the handlers of the
  root view and the lists for visible bounds.
\<close>

section \<open>Detaching keeps the invariants\<close>

text \<open>The widget of a tree depends on the parents and root views in it only.\<close>

lemma GetWidget_tree:
  assumes "ptree s None t" and "a \<in> set (preorder t)"
    and "\<And>b v. b \<in> set (preorder t) \<Longrightarrow> s b = Some v \<Longrightarrow> \<exists>v'. s' b = Some v' \<and> v_parent v' = v_parent v \<and> v_root_of v' = v_root_of v"
  shows "a \<in> set (preorder t) \<longrightarrow> GetWidget s' a = GetWidget s a"
proof (rule ptree_up [OF assms(1,2)])
  show "tr_addr t \<in> set (preorder t) \<longrightarrow> GetWidget s' (tr_addr t) = GetWidget s (tr_addr t)"
    if v: "s (tr_addr t) = Some v" "v_parent v = None" for v
    using assms(3) [OF _ v(1)] v by (auto simp: GetWidget.simps [of _ "tr_addr t"] split: option.split)
  show "x \<in> set (preorder t) \<longrightarrow> GetWidget s' x = GetWidget s x"
    if v: "s x = Some v" "v_parent v = Some b" "b \<in> set (preorder t)"
      "b \<in> set (preorder t) \<longrightarrow> GetWidget s' b = GetWidget s b" for x b v
    using assms(3) [OF _ v(1)] v by (auto simp: GetWidget.simps [of _ x] split: option.split)
qed

lemma parent_of_detach: "parent_of (detach p c s) a b \<Longrightarrow> parent_of s a b"
  by (auto simp: parent_of_def detach_def split: if_splits)

lemma listed_detach: "listed (detach p c s) a b \<longleftrightarrow> listed s a b"
proof -
  have "listed x a b \<longleftrightarrow> (\<exists>ds. map_option v_descendants_to_notify (x b) = Some (Some ds) \<and> a \<in> set ds)" for x
    by (auto simp: listed_def)
  moreover have "map_option v_descendants_to_notify (detach p c s b) = map_option v_descendants_to_notify (s b)"
    by (rule detach_field) simp_all
  ultimately show ?thesis by (simp only:)
qed

text \<open>What is left of a view after detaching.\<close>

definition unparented :: "view \<Rightarrow> view" where
  "unparented v = v\<lparr>v_parent := None, v_children := []\<rparr>"

lemma unparented_fields:
  assumes "unparented u = unparented v"
  shows "v_root_of u = v_root_of v" "v_NeedsNotification u = v_NeedsNotification v"
    "v_registered_for_visible_bounds u = v_registered_for_visible_bounds v" "v_accelerators u = v_accelerators v"
    "v_accelerator_focus_manager u = v_accelerator_focus_manager v"
    "v_registered_accelerator_count u = v_registered_accelerator_count v"
  using arg_cong [OF assms, of v_root_of] arg_cong [OF assms, of v_NeedsNotification]
    arg_cong [OF assms, of v_registered_for_visible_bounds] arg_cong [OF assms, of v_accelerators]
    arg_cong [OF assms, of v_accelerator_focus_manager] arg_cong [OF assms, of v_registered_accelerator_count]
  by (simp_all add: unparented_def)

lemma detach_unparented: "detach p c s a = Some v \<Longrightarrow> \<exists>v0. s a = Some v0 \<and> unparented v = unparented v0"
  by (auto simp: detach_def unparented_def split: if_splits)

lemma detach_grove:
  assumes g: "grove s F" and v: "\<forall>x \<in> set F'. vtree (detach p c s) None x"
    and m: "mset (concat (map preorder F')) = mset (concat (map preorder F))"
  shows "grove (detach p c s) F'"
proof -
  have "distinct (concat (map preorder F'))" "set (concat (map preorder F')) = set (concat (map preorder F))"
    using g m mset_eq_imp_distinct_iff mset_eq_setD unfolding grove_def by blast+
  moreover have "v_root_of w = None" if w: "detach p c s a = Some w" "v_parent w \<noteq> None" for a w
      proof -
    obtain w0 where w0: "s a = Some w0" "v_parent w0 \<noteq> None" "v_root_of w = v_root_of w0"
      using detach_back [OF w(1)] w(2) by (metis option.distinct(1))
    then have "v_root_of w0 = None" using g unfolding grove_def by blast
    then show ?thesis using w0(3) by simp
  qed
  ultimately show ?thesis using g v vtree_ptree by (simp add: grove_def detach_dom)
qed

lemma detach_sound:
  assumes s: "sound W F" and g: "grove (detach p (tr_addr c) (vw_views W)) (c # F')"
    and free: "\<And>y. y \<in> set (preorder c) \<Longrightarrow> unregistered W y \<and> \<not> registered (vw_views W) y"
  shows "sound (W\<lparr>vw_views := detach p (tr_addr c) (vw_views W)\<rparr>) (c # F')"
proof -
  let ?s = "detach p (tr_addr c) (vw_views W)" and ?W = "W\<lparr>vw_views := detach p (tr_addr c) (vw_views W)\<rparr>"
  have outside: "GetWidget ?s a = GetWidget (vw_views W) a" if a: "?s a = Some v" "a \<notin> set (preorder c)" for a v
  proof -
    obtain t where t: "t \<in> set (c # F')" "a \<in> set (preorder t)" "ptree ?s None t" using grove_tree [OF g a(1)] by blast
    then have "set (preorder t) \<inter> set (preorder c) = {}" using a(2) g by (auto simp: grove_def)
    then have ne: "b \<noteq> tr_addr c" if "b \<in> set (preorder t)" for b using that addr_in_preorder [of c] by (metis IntI empty_iff)
    have "a \<in> set (preorder t) \<longrightarrow> GetWidget (vw_views W) a = GetWidget ?s a"
    proof (rule GetWidget_tree [OF t(3,2)])
      show "\<exists>v'. vw_views W b = Some v' \<and> v_parent v' = v_parent v \<and> v_root_of v' = v_root_of v"
        if b: "b \<in> set (preorder t)" "?s b = Some v" for b v
        using detach_back [OF b(2)] ne [OF b(1)] by auto
    qed
    then show ?thesis using t(2) by simp
  qed
  have up: "(parent_of (vw_views W))\<^sup>+\<^sup>+ a b" if "(parent_of ?s)\<^sup>+\<^sup>+ a b" for a b
    using that
  proof (induction rule: tranclp_induct)
    case (base b)
    then show ?case by (rule tranclp.r_into_trancl [of "parent_of (vw_views W)", OF parent_of_detach])
  next
    case (step b d)
    then show ?case using tranclp.trancl_into_trancl [of "parent_of (vw_views W)" a b d, OF step.IH parent_of_detach [OF step.hyps(2)]] by blast
  qed
  have "bounds_ok ?s"
    unfolding bounds_ok_def
  proof (intro allI impI)
    fix a v assume v: "?s a = Some v" "v_registered_for_visible_bounds v"
    obtain v0 where v0: "vw_views W a = Some v0" "unparented v = unparented v0" using detach_unparented [OF v(1)] by blast
    have r: "v_registered_for_visible_bounds v0" using unparented_fields(3) [OF v0(2)] v(2) by simp
    then have b: "v_NeedsNotification v0 \<and> GetWidget (vw_views W) a \<noteq> Some None \<and>
        (\<forall>b. (parent_of (vw_views W))\<^sup>+\<^sup>+ a b \<longrightarrow> listed (vw_views W) a b)"
      using soundD(3) [OF s] v0(1) unfolding bounds_ok_def by blast
    have "a \<notin> set (preorder c)" using free [of a] r v0(1) by (auto simp: registered_def)
    then show "v_NeedsNotification v \<and> GetWidget ?s a \<noteq> Some None \<and> (\<forall>b. (parent_of ?s)\<^sup>+\<^sup>+ a b \<longrightarrow> listed ?s a b)"
      using b up outside [OF v(1)] unparented_fields(2) [OF v0(2)] by (simp add: listed_detach)
  qed
  moreover have "view_ok ?W a v" if v: "?s a = Some v" for a v
  proof -
    obtain v0 where v0: "vw_views W a = Some v0" "unparented v = unparented v0" using detach_unparented [OF v] by blast
    have vo: "view_ok W a v0" using soundD(4) [OF s v0(1)] .
    have "GetFocusManager ?W a = GetFocusManager W a" if "v_accelerator_focus_manager v0 = Some fm" for fm
    proof -
      have "a \<notin> set (preorder c)" using free [of a] v0(1) that by (auto simp: unregistered_def)
      then show ?thesis
        using outside [OF v] by (simp add: GetFocusManager_def widget_GetFocusManager_def cong: option.case_cong)
    qed
    then show ?thesis using vo unparented_fields [OF v0(2)] by (simp add: view_ok_def)
  qed
  moreover have "widget_ok ?W wd" if "vw_widgets W w = Some wd" for w wd
    using soundD(5) [OF s that] by (simp add: widget_ok_def)
  moreover have "manager_ok ?W f n" if f: "vw_managers W f = Some n" for f n
  proof -
    have d: "dom ?s = dom (vw_views W)" by (rule detach_dom)
    then have "?s a \<noteq> None" if "vw_views W a \<noteq> None" for a using that by blast
    moreover have "v_accelerator_focus_manager v = Some f"
      if x: "x \<in> am_targets (fm_accelerator_manager n) acc" "?s x = Some v" for x acc v
    proof -
      obtain v0 where v0: "vw_views W x = Some v0" "unparented v = unparented v0" using detach_unparented [OF x(2)] by blast
      have "v_accelerator_focus_manager v0 = Some f" using soundD(6) [OF s f] x(1) v0(1) unfolding manager_ok_def by blast
      then show ?thesis using unparented_fields(5) [OF v0(2)] by simp
    qed
    ultimately show ?thesis using soundD(6) [OF s f] d by (simp add: manager_ok_def)
  qed
  ultimately show ?thesis using g soundD(2) [OF s] by (simp add: sound_def)
qed

section \<open>Removing a child\<close>

text \<open>A well formed world: a forest of views whose siblings are linked, in which all the invariants hold.\<close>

definition hierarchy :: "view_world \<Rightarrow> tree list \<Rightarrow> bool" where
  "hierarchy W F \<longleftrightarrow> sound W F \<and> (\<forall>t \<in> set F. vtree (vw_views W) None t)"

text \<open>A view that nothing outside of its own tree refers to.\<close>

definition withdrawn :: "view_world \<Rightarrow> nat \<Rightarrow> bool" where
  "withdrawn W y \<longleftrightarrow>
     unregistered W y \<and> \<not> registered (vw_views W) y \<and>
     (\<forall>fm m acc. vw_managers W fm = Some m \<longrightarrow> y \<notin> am_targets (fm_accelerator_manager m) acc)"

lemma unregistered_target:
  assumes "sound W F" and "vw_views W y = Some v" and "unregistered W y" and "vw_managers W fm = Some m"
  shows "y \<notin> am_targets (fm_accelerator_manager m) acc"
proof
  assume "y \<in> am_targets (fm_accelerator_manager m) acc"
  then have "v_accelerator_focus_manager v = Some fm"
    using soundD(6) [OF assms(1,4)] assms(2) unfolding manager_ok_def by blast
  then show False using assms(2,3) by (simp add: unregistered_def)
qed

lemma same_core_detach: "same_core s s' \<Longrightarrow> same_core (detach p c s) (detach p c s')"
proof -
  assume sc: "same_core s s'"
  have k: "core (v\<lparr>v_parent := q\<rparr>) = (core v)\<lparr>v_parent := q\<rparr>" "core (v\<lparr>v_children := g (v_children v)\<rparr>) = (\<lambda>n. n\<lparr>v_children := g (v_children n)\<rparr>) (core v)"
    for g v q by (simp_all add: core_def)
  have m: "map_option core (s' a) = map_option core (s a)" for a using sc by (simp add: same_core_def)
  have up: "map_option core (upd a f x b) = map_option core (upd a f y b)"
    if xy: "\<And>b. map_option core (x b) = map_option core (y b)" and f: "\<And>u v. core u = core v \<Longrightarrow> core (f u) = core (f v)" for a f x y b
  proof (cases "x a")
    case None
    then show ?thesis using xy [of a] xy [of b] by simp
  next
    case (Some u)
    then obtain v where "y a = Some v" "core u = core v" using xy [of a] by (cases "y a") auto
    then show ?thesis using Some f [of u v] xy [of b] by simp
  qed
  show ?thesis
    unfolding same_core_def detach_def
  proof
    fix a
    show "map_option core (upd p (\<lambda>n. n\<lparr>v_children := remove1 c (v_children n)\<rparr>) (upd c (\<lambda>v. v\<lparr>v_parent := None\<rparr>) s') a) =
        map_option core (upd p (\<lambda>n. n\<lparr>v_children := remove1 c (v_children n)\<rparr>) (upd c (\<lambda>v. v\<lparr>v_parent := None\<rparr>) s) a)"
    proof (rule up [OF up [OF m]])
      show "core (u\<lparr>v_parent := None\<rparr>) = core (v\<lparr>v_parent := None\<rparr>)" if "core u = core v" for u v
        using that by (simp add: k(1))
      show "core (u\<lparr>v_children := remove1 c (v_children u)\<rparr>) = core (v\<lparr>v_children := remove1 c (v_children v)\<rparr>)" if "core u = core v" for u v
        using that k(2) [of "remove1 c" u] k(2) [of "remove1 c" v] by simp
    qed
  qed
qed

lemma GetWidget_below:
  assumes "grove s F" and "ptree s (Some p) c" and "y \<in> set (preorder c)"
  shows "GetWidget s y = GetWidget s p"
proof (rule ptree_up [OF assms(2,3)])
  have r: "v_root_of v = None" if "s a = Some v" "v_parent v = Some b" for a v b
    using assms(1) that unfolding grove_def by blast
  show "GetWidget s (tr_addr c) = GetWidget s p" if "s (tr_addr c) = Some v" "v_parent v = Some p" for v
    using that r [OF that] by (simp add: GetWidget.simps [of s "tr_addr c"])
  show "GetWidget s a = GetWidget s p" if "s a = Some v" "v_parent v = Some b" "GetWidget s b = GetWidget s p" for a b v
    using that r [OF that(1,2)] by (simp add: GetWidget.simps [of s a])
qed

lemma quiet_registered: "quiet W W' \<Longrightarrow> registered (vw_views W') a \<longleftrightarrow> registered (vw_views W) a"
proof -
  assume "quiet W W'"
  then have b: "map_option bounds_part (vw_views W' a) = map_option bounds_part (vw_views W a)" by (simp add: quiet_def)
  have "registered s a \<longleftrightarrow> (\<exists>z. map_option bounds_part (s a) = Some z \<and> fst z)" for s
    by (auto simp: registered_def bounds_part_def)
  then show ?thesis by (simp only: b)
qed

lemma unregister_ok:
  assumes s: "sound W F" and q: "ptree (vw_views W) (Some p) c" and wo: "GetWidget (vw_views W) p = Some wo"
  shows "ensures (if wo \<noteq> None then UnregisterChildrenForVisibleBoundsNotification (tr_addr c) W else Some W)
    (\<lambda>W'. unregisters F W W' \<and> (\<forall>y \<in> set (preorder c). \<not> registered (vw_views W') y))"
proof (cases wo)
  case None
  have "\<not> registered (vw_views W) y" if "y \<in> set (preorder c)" for y
    using GetWidget_below [OF soundD(1) [OF s] q that] wo None soundD(3) [OF s] by (auto simp: bounds_ok_def registered_def)
  then show ?thesis using None unregisters_refl [OF s] by simp
next
  case (Some w)
  have "\<forall>x \<in> set [c]. \<exists>q. ptree (vw_views W) q x" using q by auto
  from Unregister_children_ok [OF soundD(1) [OF s] this] s Some show ?thesis
    by (simp add: UnregisterChildrenForVisibleBoundsNotification_def)
qed

text \<open>Widgets and focus managers lose pointers to views, and nothing else changes in them.\<close>

definition only_cleared :: "view_world \<Rightarrow> view_world \<Rightarrow> bool" where
  "only_cleared W W' \<longleftrightarrow>
     (\<forall>w. rel_option widget_quiet (vw_widgets W w) (vw_widgets W' w)) \<and>
     (\<forall>fm. rel_option manager_quiet (vw_managers W fm) (vw_managers W' fm))"

lemma quiet_only_cleared: "quiet W W' \<Longrightarrow> only_cleared W W'"
  by (simp add: quiet_def only_cleared_def)

lemma only_cleared_views [simp]:
  "only_cleared (W\<lparr>vw_views := s\<rparr>) W' \<longleftrightarrow> only_cleared W W'" "only_cleared W (W'\<lparr>vw_views := s\<rparr>) \<longleftrightarrow> only_cleared W W'"
  by (simp_all add: only_cleared_def)

lemma unregisters_only_cleared: "unregisters F U V \<Longrightarrow> only_cleared V W \<longleftrightarrow> only_cleared U W"
  by (drule unregistersD(4)) (metis only_cleared_views(1))

text \<open>The removal up to the change of the parent and the children.\<close>

lemma withdraw_ok:
  assumes s: "sound W F" and q: "ptree (vw_views W) (Some p) c" and p: "vw_views W p = Some vp"
    and wo: "GetWidget (vw_views W) p = Some wo"
  shows "ensures (do {
       W \<leftarrow> (if wo \<noteq> None then UnregisterChildrenForVisibleBoundsNotification (tr_addr c) W else Some W);
       PropagateRemoveNotifications p (tr_addr c) W })
    (\<lambda>W'. sound W' F \<and> same_core (vw_views W) (vw_views W') \<and> only_cleared W W' \<and>
       (\<forall>y \<in> set (preorder c). unregistered W' y \<and> \<not> registered (vw_views W') y \<and> (\<forall>w. wo = Some w \<longrightarrow> forgotten W' w y)))"
proof (rule ensures_bind [OF unregister_ok [OF s q wo]])
  fix W1 assume W1: "unregisters F W W1 \<and> (\<forall>y \<in> set (preorder c). \<not> registered (vw_views W1) y)"
  have c1: "same_core (vw_views W) (vw_views W1)" using W1 unregistersD(2) by blast
  have t: "\<forall>x \<in> set [c]. \<exists>q. ptree (vw_views W) q x" using q by auto
  have g: "\<forall>y \<in> set (concat (map preorder [c])). GetWidget (vw_views W) y = Some wo"
    using GetWidget_below [OF soundD(1) [OF s] q] wo by simp
  have "ensures (PropagateRemoveNotifications p (tr_addr c) W1)
      (\<lambda>W'. sound W' F \<and> quiet W1 W' \<and> (\<forall>y \<in> set (preorder c). unregistered W' y \<and> (\<forall>w. wo = Some w \<longrightarrow> forgotten W' w y)))"
    using propagate_remove_ok [OF soundD(1) [OF s] p t g, rule_format, of W1] unregistersD(1) [OF conjunct1 [OF W1]] c1
    by (simp add: PropagateRemoveNotifications_def)
  then show "ensures (PropagateRemoveNotifications p (tr_addr c) W1)
      (\<lambda>W'. sound W' F \<and> same_core (vw_views W) (vw_views W') \<and> only_cleared W W' \<and>
         (\<forall>y \<in> set (preorder c). unregistered W' y \<and> \<not> registered (vw_views W') y \<and> (\<forall>w. wo = Some w \<longrightarrow> forgotten W' w y)))"
    using W1 quiet_registered same_core_trans [OF c1 quiet_views] unregisters_only_cleared [OF conjunct1 [OF W1]] quiet_only_cleared [of W1]
    by (auto elim!: ensures_mono)
qed

lemma forgotten_views: "forgotten (W\<lparr>vw_views := s\<rparr>) w y \<longleftrightarrow> forgotten W w y"
  by (simp add: forgotten_def focused_at_def widget_GetFocusManager_def cong: option.case_cong)

text \<open>The parts of views that tell where they are: only the list of children of \<open>p\<close> has lost \<open>c\<close>.\<close>

definition taken_out :: "nat \<Rightarrow> nat \<Rightarrow> view_store \<Rightarrow> view_store \<Rightarrow> bool" where
  "taken_out p c s s' \<longleftrightarrow>
     (\<forall>a v. s a = Some v \<longrightarrow> (\<exists>v'. s' a = Some v' \<and> v_root_of v' = v_root_of v \<and>
        v_parent v' = (if a = c then None else v_parent v) \<and>
        v_children v' = (if a = p then remove1 c (v_children v) else v_children v)))"

lemma taken_out_detach:
  assumes "same_linkless s s1" and "same_core s1 s2" and "p \<noteq> c"
  shows "taken_out p c s (detach p c s2)"
  unfolding taken_out_def
proof (intro allI impI)
  fix a v assume v: "s a = Some v"
  obtain v1 where v1: "s1 a = Some v1" "linkless v1 = linkless v" using same_linklessD [OF assms(1) v] by blast
  obtain v2 where v2: "s2 a = Some v2" "core v2 = core v1" using same_coreD [OF assms(2) v1(1)] by blast
  show "\<exists>v'. detach p c s2 a = Some v' \<and> v_root_of v' = v_root_of v \<and> v_parent v' = (if a = c then None else v_parent v) \<and>
      v_children v' = (if a = p then remove1 c (v_children v) else v_children v)"
    using v2(1) core_fields(1,2,5) [OF v2(2)] linkless_fields(1,2,3) [OF v1(2)] assms(3) by (auto simp: detach_def)
qed

text \<open>Removing the child \<open>c\<close> of the node \<open>u\<close>, with the facts that the properties rest on.\<close>

lemma RemoveChildView_ok:
  assumes h: "hierarchy W F" and t: "t \<in> set F" and u: "u \<in> subtrees t" and c: "c \<in> set (tr_subs u)"
  shows "ensures (RemoveChildView (tr_addr u) (tr_addr c) W) (\<lambda>W'. hierarchy W' (forest_without F t u c) \<and> only_cleared W W' \<and>
    taken_out (tr_addr u) (tr_addr c) (vw_views W) (vw_views W') \<and>
    (\<forall>y \<in> set (preorder c). withdrawn W' y \<and>
      (\<forall>w. GetWidget (vw_views W) (tr_addr u) = Some (Some w) \<longrightarrow> forgotten W' w y)))"
proof -
  let ?s = "vw_views W"
  have s: "sound W F" and v: "\<forall>t \<in> set F. vtree ?s None t" using h by (auto simp: hierarchy_def)
  have g: "grove ?s F" using soundD(1) [OF s] .
  have dt: "distinct (preorder t)" using g t by (auto simp: grove_def distinct_concat_iff)
  obtain q where q: "vtree ?s q u" using subtree_vtree [OF u] v t by blast
  obtain vu where vu: "?s (tr_addr u) = Some vu" "v_children vu = map tr_addr (tr_subs u)" using vtree_view [OF q] by auto
  obtain vc where vc: "?s (tr_addr c) = Some vc" using vtree_view [OF vtree_sub [OF q c]] by auto
  define s1 where "s1 = relink (v_previous_focusable vc) (v_next_focusable vc) ?s"
  note dv = detach_vtree [OF g v t u c vc]
  have unl: "unlink_view (tr_addr c) W = Some (W\<lparr>vw_views := s1\<rparr>)"
    using unlink_relink [OF vc] dv(2,3) by (simp add: s1_def)
  have l1: "same_linkless ?s s1" using same_linkless_relink by (simp add: s1_def)
  have snd1: "sound (W\<lparr>vw_views := s1\<rparr>) F" by (rule sound_links [OF s l1])
  have pt: "ptree s1 (Some (tr_addr u)) c" using same_linkless_ptree [OF l1 vtree_ptree [OF vtree_sub [OF q c]]] .
  obtain vu1 where vu1: "s1 (tr_addr u) = Some vu1" using same_linklessD [OF l1 vu(1)] by blast
  have gw: "GetWidget s1 (tr_addr u) = GetWidget ?s (tr_addr u)" by (rule same_linkless_GetWidget [OF l1 g vu(1)])
  obtain wo where wo: "GetWidget ?s (tr_addr u) = Some wo" using GetWidget_total [OF g vu(1)] by blast
  let ?run = "do {
       W \<leftarrow> (if wo \<noteq> None then UnregisterChildrenForVisibleBoundsNotification (tr_addr c) (W\<lparr>vw_views := s1\<rparr>) else Some (W\<lparr>vw_views := s1\<rparr>));
       PropagateRemoveNotifications (tr_addr u) (tr_addr c) W }"
  obtain W3 where W3: "?run = Some W3" "sound W3 F" "same_core s1 (vw_views W3)"
    "only_cleared (W\<lparr>vw_views := s1\<rparr>) W3"
    "\<And>y. y \<in> set (preorder c) \<Longrightarrow> unregistered W3 y \<and> \<not> registered (vw_views W3) y \<and> (\<forall>w. wo = Some w \<longrightarrow> forgotten W3 w y)"
    using withdraw_ok [OF snd1, of "tr_addr u" c vu1 wo] pt vu1 gw wo by (simp, elim ensuresE) blast
  let ?s' = "detach (tr_addr u) (tr_addr c) (vw_views W3)"
  have run: "RemoveChildView (tr_addr u) (tr_addr c) W = Some (W3\<lparr>vw_views := ?s'\<rparr>)"
  proof -
    have "tr_addr c \<in> set (v_children vu)" using vu(2) c by simp
    then show ?thesis
      using W3(1) vu(1) vc unl gw wo
      by (auto simp: RemoveChildView_def DoRemoveChildView_def upd_view_store detach_def Let_def split: bind_splits if_splits)
  qed
  have vt: "\<forall>x \<in> set (forest_without F t u c). vtree ?s' None x"
    using dv(1) same_core_vtree [OF same_core_detach [OF W3(3)]] by (simp add: s1_def)
  have g': "grove ?s' (forest_without F t u c)"
    by (rule detach_grove [OF soundD(1) [OF W3(2)] vt forest_without_mset [OF t dt u c]])
  have snd: "sound (W3\<lparr>vw_views := ?s'\<rparr>) (forest_without F t u c)"
    using detach_sound [OF W3(2), of "tr_addr u" c] g' W3(5) by (simp add: forest_without_def)
  have "withdrawn (W3\<lparr>vw_views := ?s'\<rparr>) y \<and>
      (\<forall>w. GetWidget ?s (tr_addr u) = Some (Some w) \<longrightarrow> forgotten (W3\<lparr>vw_views := ?s'\<rparr>) w y)"
    if y: "y \<in> set (preorder c)" for y
  proof -
    obtain vy where vy: "?s' y = Some vy"
      using ptree_dom [OF vtree_ptree, of ?s' None c y] vt y by (auto simp: forest_without_def)
    obtain v3 where v3: "vw_views W3 y = Some v3" "unparented vy = unparented v3" using detach_unparented [OF vy] by blast
    have "unregistered (W3\<lparr>vw_views := ?s'\<rparr>) y"
      using W3(5) [OF y] v3 vy unparented_fields(5) [OF v3(2)] by (simp add: unregistered_def)
    moreover have "\<not> registered ?s' y"
      using W3(5) [OF y] v3 vy unparented_fields(3) [OF v3(2)] by (simp add: registered_def)
    ultimately show ?thesis
      using unregistered_target [OF snd, of y vy] vy W3(5) [OF y] wo by (simp add: withdrawn_def forgotten_views)
  qed
  moreover have "tr_addr u \<noteq> tr_addr c" using sub_parts(2) [OF subtree_distinct [OF u dt] c] addr_in_preorder [of c] by metis
  then have "taken_out (tr_addr u) (tr_addr c) ?s ?s'" by (rule taken_out_detach [OF l1 W3(3)])
  ultimately show ?thesis using run snd vt W3(4) by (simp add: hierarchy_def)
qed


section \<open>An example\<close>

lemma demo_hierarchy: "hierarchy demo_world [demo_tree]"
proof -
  have v: "vtree (vw_views demo_world) None demo_tree"
    using demo_window by (simp add: window_def)
  have "grove (vw_views demo_world) [demo_tree]"
    using vtree_ptree [OF v] by (auto simp: grove_def demo_world_def demo_tree_def demo_view_def mk_View_def)
  moreover have "storage_ok (vw_storage demo_world)" by (simp add: storage_ok_def demo_world_def)
  moreover have "bounds_ok (vw_views demo_world)"
    by (auto simp: bounds_ok_def demo_world_def demo_view_def mk_View_def)
  moreover have "view_ok demo_world a v" if "vw_views demo_world a = Some v" for a v
    using that by (auto simp: view_ok_def demo_world_def demo_view_def mk_View_def split: if_splits)
  moreover have "widget_ok demo_world wd" if "vw_widgets demo_world w = Some wd" for w wd
    using that by (auto simp: widget_ok_def demo_world_def split: if_splits)
  moreover have "manager_ok demo_world fm m" if "vw_managers demo_world fm = Some m" for fm m
    using that by (auto simp: manager_ok_def demo_world_def priority_ok_def am_targets_def am_entry_def am_init_def split: if_splits)
  ultimately show ?thesis using v by (simp add: hierarchy_def sound_def)
qed


end
