(* ===== verification/View_Adding.thy ===== *)
theory View_Adding
  imports View_Guarantees
begin

text \<open>
  Adding a child: the siblings stay linked with the new view at its place, the trees are joined, and the views below it
  register their accelerators and, if they ask for it, for visible bounds.
\<close>

section \<open>The focus order of siblings\<close>

lemma chain_dom: "chain s l as r \<Longrightarrow> a \<in> set as \<Longrightarrow> s a \<noteq> None"
  by (induction as arbitrary: l) auto

lemma first_without_next_chain: "chain s l (as @ [a]) None \<Longrightarrow> first_without_next s (as @ [a]) = Some (Some a)"
proof (induction as arbitrary: l)
  case (Cons b as)
  then show ?case by (cases as) auto
qed auto

definition siblings_linked :: "nat \<Rightarrow> nat list \<Rightarrow> view_world \<Rightarrow> view_world \<Rightarrow> nat list \<Rightarrow> bool" where
  "siblings_linked v cs W W' cs' \<longleftrightarrow>
     (\<exists>s'. W' = W\<lparr>vw_views := s'\<rparr> \<and> same_linkless (vw_views W) s' \<and> chain s' None cs' None \<and>
       (\<forall>a. a \<notin> insert v (set cs) \<longrightarrow> s' a = vw_views W a))"

lemma same_linkless_refl: "same_linkless s s"
  by (simp add: same_linkless_def)

lemma linkless_link [simp]: "linkless (v\<lparr>v_previous_focusable := p, v_next_focusable := n\<rparr>) = linkless v"
  by (simp add: linkless_def)

lemma InitFocusSiblings_ok:
  assumes n: "vw_views W this = Some n" "v_children n = cs" and v: "vw_views W v = Some vv" "v \<notin> set cs"
    and l: "chain (vw_views W) None cs None" and d: "distinct cs" and i: "i \<le> length cs"
  shows "ensures (InitFocusSiblings this v i W) (\<lambda>W'. siblings_linked v cs W W' (list_insert_at i v cs))"
proof -
  let ?s = "vw_views W"
  consider "cs = []" | "cs \<noteq> []" "i = length cs" | "i < length cs" using i by linarith
  then show ?thesis
  proof cases
    case 1
    let ?s' = "upd v (\<lambda>v. v\<lparr>v_next_focusable := None, v_previous_focusable := None\<rparr>) ?s"
    have "same_linkless ?s ?s'" by (rule same_linkless_upd) simp
    then show ?thesis
      using 1 n v by (auto simp: InitFocusSiblings_def siblings_linked_def upd_view_store list_insert_at_def)
  next
    case 2
    then obtain as a where cs: "cs = as @ [a]" by (cases cs rule: rev_cases) auto
    let ?s1 = "upd a (\<lambda>u. u\<lparr>v_next_focusable := Some v\<rparr>) ?s"
    let ?s2 = "upd v (\<lambda>u. u\<lparr>v_next_focusable := None, v_previous_focusable := Some a\<rparr>) ?s1"
    have f: "first_without_next ?s cs = Some (Some a)" using first_without_next_chain l cs by blast
    have a: "?s a \<noteq> None" "a \<noteq> v" using chain_dom [OF l] cs v(2) by auto
    have "same_linkless ?s ?s2" by (rule same_linkless_trans [OF same_linkless_upd same_linkless_upd]) simp_all
    moreover have "chain ?s1 None cs (Some v)" using chain_set_last [of ?s None as a None "Some v"] l cs d by simp
    then have "chain ?s2 None cs (Some v)" using v(2) by simp
    then have "chain ?s2 None (list_insert_at i v cs) None"
      using v(1) a(2) cs 2(2) by (simp add: chain_append list_insert_at_def)
    moreover have "InitFocusSiblings this v i W = Some (W\<lparr>vw_views := ?s2\<rparr>)"
      using 2 n v f a cs by (auto simp: InitFocusSiblings_def upd_view_store set_next_def)
    ultimately show ?thesis using cs unfolding siblings_linked_def by (auto intro!: exI [of _ ?s2])
  next
    case 3
    define as b bs where "as = take i cs" and "b = cs ! i" and "bs = drop (Suc i) cs"
    have cs: "cs = as @ b # bs" using id_take_nth_drop [OF 3] by (simp add: as_def b_def bs_def)
    have ins: "list_insert_at i v cs = as @ v # b # bs"
      using Cons_nth_drop_Suc [OF 3] by (simp add: list_insert_at_def as_def b_def bs_def)
    obtain u where u: "?s b = Some u" "v_previous_focusable u = last_of as"
      using linked_at [of ?s None as b bs] l cs by (auto simp: linked_chain last_of_def)
    let ?s1 = "upd v (\<lambda>u. u\<lparr>v_next_focusable := Some b, v_previous_focusable := last_of as\<rparr>) ?s"
    define s2 where "s2 = (case last_of as of None \<Rightarrow> ?s1 | Some a \<Rightarrow> upd a (\<lambda>u. u\<lparr>v_next_focusable := Some v\<rparr>) ?s1)"
    let ?s3 = "upd b (\<lambda>u. u\<lparr>v_previous_focusable := Some v\<rparr>) s2"
    have parts: "chain ?s None as (Some b)" "chain ?s (last_of as) (b # bs) None"
      using l unfolding cs chain_append by (simp_all split: if_splits)
    have dv: "v \<notin> set as" "v \<noteq> b" "v \<notin> set bs" "distinct as" "b \<notin> set as" "b \<notin> set bs" "set as \<inter> set bs = {}" using v(2) d cs by auto
    have s2: "chain s2 None as (Some v)"
    proof (cases as rule: rev_cases)
      case (snoc as' a)
      then show ?thesis using chain_set_last [of ?s1 None as' a "Some b" "Some v"] parts(1) dv by (simp add: s2_def)
    qed simp
    have s2o: "s2 x = ?s1 x" if "x \<notin> set as" for x
      using that last_first_in(1) [of as] by (auto simp: s2_def split: option.split)
    have "chain s2 (last_of as) (b # bs) None"
    proof -
      have "s2 x = ?s x" if "x \<in> set (b # bs)" for x proof -
        have "x \<notin> set as" "x \<noteq> v" using that dv by auto
        then show ?thesis using s2o [of x] by simp
      qed
      then show ?thesis using parts(2) chain_cong [of "b # bs" s2 ?s] by blast
    qed
    then have c3: "chain ?s3 (Some v) (b # bs) None" by (rule chain_set_first) (use dv in simp)
    have "s2 v = Some (vv\<lparr>v_next_focusable := Some b, v_previous_focusable := last_of as\<rparr>)" using s2o [OF dv(1)] v(1) by simp
    then have "chain ?s3 None (list_insert_at i v cs) None"
      using s2 c3 dv unfolding ins chain_append by (auto simp: last_of_def)
    moreover have "same_linkless ?s ?s3"
    proof -
      have "same_linkless ?s1 s2"
        unfolding s2_def by (cases "last_of as") (simp_all add: same_linkless_refl same_linkless_upd)
      moreover have "same_linkless ?s ?s1" "same_linkless s2 ?s3" by (rule same_linkless_upd, simp)+
      ultimately show ?thesis using same_linkless_trans by blast
    qed
    moreover have "?s3 a = ?s a" if "a \<notin> insert v (set cs)" for a using s2o [of a] that cs by auto
    moreover have "InitFocusSiblings this v i W = Some (W\<lparr>vw_views := ?s3\<rparr>)"
    proof -
      have "as \<noteq> [] \<Longrightarrow> ?s (last as) \<noteq> None" using chain_dom [OF parts(1)] by simp
      then show ?thesis
        using n v 3 u s2o dv
        by (auto simp: InitFocusSiblings_def b_def [symmetric] upd_view_store set_next_def set_previous_def Let_def s2_def last_of_def split: option.split)
    qed
    ultimately show ?thesis unfolding siblings_linked_def ensures_Some by auto
  qed
qed

section \<open>The store with the child\<close>

definition attach :: "nat \<Rightarrow> nat \<Rightarrow> nat \<Rightarrow> view_store \<Rightarrow> view_store" where
  "attach this i view s =
     upd this (\<lambda>n. n\<lparr>v_children := list_insert_at i view (v_children n)\<rparr>) (upd view (\<lambda>v. v\<lparr>v_parent := Some this\<rparr>) s)"

lemma attach_dom: "dom (attach this i view s) = dom s"
  by (auto simp: attach_def dom_def)

lemma attach_back:
  "attach this i view s a = Some v \<Longrightarrow>
   \<exists>v0. s a = Some v0 \<and> v_parent v = (if a = view then Some this else v_parent v0) \<and> unparented v = unparented v0"
  by (auto simp: attach_def unparented_def split: if_splits)

lemma attach_forth:
  "s a = Some v0 \<Longrightarrow> \<exists>v. attach this i view s a = Some v \<and>
     v_parent v = (if a = view then Some this else v_parent v0) \<and> unparented v = unparented v0"
  by (auto simp: attach_def unparented_def)

definition forest_with :: "tree list \<Rightarrow> tree \<Rightarrow> tree \<Rightarrow> nat \<Rightarrow> tree \<Rightarrow> tree list" where
  "forest_with F t u i r = tree_upd (tr_addr u) (list_insert_at i r) t # remove1 r (remove1 t F)"

lemma forest_with_mset:
  assumes "t \<in> set F" and "r \<in> set F" and "r \<noteq> t" and "distinct (preorder t)" and "u \<in> subtrees t"
  shows "mset (concat (map preorder (forest_with F t u i r))) = mset (concat (map preorder F))"
proof -
  have "mset (concat (map preorder (list_insert_at i r (tr_subs u)))) =
      mset (preorder r) + mset (concat (map preorder (take i (tr_subs u) @ drop i (tr_subs u))))"
    unfolding list_insert_at_def map_append concat_append by (simp add: ac_simps)
  then have "mset (preorder (tree_upd (tr_addr u) (list_insert_at i r) t)) = mset (preorder t) + mset (preorder r)"
    using upd_preorder [OF assms(5,4), of "list_insert_at i r"] by simp
  moreover have "r \<in> set (remove1 t F)" using assms(2,3) by (simp add: in_set_remove1)
  ultimately show ?thesis
    using mset_concat_remove1 [OF assms(1)] mset_concat_remove1 [of r "remove1 t F"] by (simp add: forest_with_def ac_simps)
qed

lemma grove_disjoint:
  assumes "grove s F" and "t \<in> set F" and "r \<in> set F" and "r \<noteq> t"
  shows "set (preorder t) \<inter> set (preorder r) = {}"
proof -
  have "mset (concat (map preorder F)) = mset (preorder t @ concat (map preorder (remove1 t F)))"
    using mset_concat_remove1 [OF assms(2)] by simp
  then have "distinct (preorder t @ concat (map preorder (remove1 t F)))"
    using assms(1) mset_eq_imp_distinct_iff unfolding grove_def by blast
  moreover have "r \<in> set (remove1 t F)" using assms(3,4) by (simp add: in_set_remove1)
  ultimately show ?thesis by auto
qed

lemma attach_vtree:
  assumes g: "grove s F" and v: "\<forall>t \<in> set F. vtree s None t" and t: "t \<in> set F" "r \<in> set F" "r \<noteq> t" and u: "u \<in> subtrees t"
    and l: "same_linkless s s1" and c: "chain s1 None (list_insert_at i (tr_addr r) (map tr_addr (tr_subs u))) None"
    and o: "\<And>a. a \<notin> insert (tr_addr r) (tr_addr ` set (tr_subs u)) \<Longrightarrow> s1 a = s a"
  shows "\<forall>x \<in> set (forest_with F t u i r). vtree (attach (tr_addr u) i (tr_addr r) s1) None x"
proof -
  let ?s2 = "attach (tr_addr u) i (tr_addr r) s1"
  have dt: "distinct (preorder t)" "distinct (preorder r)" using g t by (auto simp: grove_def distinct_concat_iff)
  have du: "distinct (preorder u)" using subtree_distinct [OF u dt(1)] .
  obtain q where q: "vtree s q u" using subtree_vtree [OF u] v t(1) by blast
  have dis: "set (preorder t) \<inter> set (preorder r) = {}" using grove_disjoint [OF g t] .
  have ut: "set (preorder u) \<subseteq> set (preorder t)" using subtree_preorder [OF u] .
  have su: "set (preorder d) \<subseteq> set (preorder u)" if "d \<in> set (tr_subs u)" for d using sub_parts(1) [OF du that] .
  have ru: "tr_addr r \<notin> set (preorder t)" using dis addr_in_preorder by (metis IntI empty_iff)
  have ua: "tr_addr u \<in> set (preorder t)" using ut addr_in_preorder by blast
  have da: "tr_addr d \<in> set (preorder u)" if "d \<in> set (tr_subs u)" for d using su [OF that] addr_in_preorder by blast
  have un: "tr_addr u \<notin> tr_addr ` set (tr_subs u)" using sub_parts(2) [OF du] addr_in_preorder by fastforce
  have ne: "tr_addr r \<noteq> tr_addr u" using ru ua by metis
  have u1: "s1 (tr_addr u) = s (tr_addr u)" by (rule o) (use un ne [symmetric] in simp)
  have other: "?s2 a = s a" if "a \<noteq> tr_addr r" "a \<noteq> tr_addr u" "a \<notin> tr_addr ` set (tr_subs u)" for a
    using that o [of a] by (simp add: attach_def)
  have inside: "\<forall>a \<in> set (preorder d) - {tr_addr d}. ?s2 a = s a" if d: "d \<in> set (tr_subs u)" for d
  proof
    fix a assume a: "a \<in> set (preorder d) - {tr_addr d}"
    have "a \<noteq> tr_addr u" using a sub_parts(2) [OF du d] by blast
    moreover have "a \<noteq> tr_addr r" using a su [OF d] ut ru by blast
    moreover have "a \<noteq> tr_addr e" if e: "e \<in> set (tr_subs u)" for e
    proof
      assume ae: "a = tr_addr e"
      then have "e \<noteq> d" using a by auto
      then have "set (preorder e) \<inter> set (preorder d) = {}"
        using sub_parts(5) [OF du d, of e] e by (simp add: in_set_remove1)
      then show False using a ae addr_in_preorder [of e] by blast
    qed
    ultimately show "?s2 a = s a" using other by blast
  qed
  have "vtree ?s2 None (tree_upd (tr_addr u) (list_insert_at i r) t)"
  proof (rule upd_vtree [OF u dt(1)])
    show "vtree s None t" using v t(1) by blast
    have ml: "map tr_addr (list_insert_at i r (tr_subs u)) = list_insert_at i (tr_addr r) (map tr_addr (tr_subs u))"
      by (simp add: list_insert_at_def take_map drop_map)
    show "?s2 (tr_addr u) = map_option (\<lambda>v. v\<lparr>v_children := map tr_addr (list_insert_at i r (tr_subs u))\<rparr>) (s (tr_addr u))"
      using vtree_view [OF q] u1 ne ml by (auto simp: attach_def)
    have lk: "map_option links (?s2 a) = map_option links (s1 a)" if "a \<noteq> tr_addr u" for a
      using that by (cases "s1 a") (auto simp: attach_def links_def)
    have "a \<noteq> tr_addr u" if "a \<in> set (list_insert_at i (tr_addr r) (map tr_addr (tr_subs u)))" for a using that ne un by auto
    then have "chain ?s2 None (list_insert_at i (tr_addr r) (map tr_addr (tr_subs u))) None"
      using lk by (intro chain_links [OF _ c]) blast
    then show "linked ?s2 None (map tr_addr (list_insert_at i r (tr_subs u)))" by (simp add: linked_chain ml)
    show "\<forall>d \<in> set (list_insert_at i r (tr_subs u)). vtree ?s2 (Some (tr_addr u)) d"
    proof
      fix d assume "d \<in> set (list_insert_at i r (tr_subs u))"
      then consider "d = r" | "d \<in> set (tr_subs u)" by auto
      then show "vtree ?s2 (Some (tr_addr u)) d"
      proof cases
        case 1
        obtain vr where vr: "s (tr_addr r) = Some vr" "v_children vr = map tr_addr (tr_subs r)" using vtree_view v t(2) by blast
        obtain vr' where vr': "s1 (tr_addr r) = Some vr'" "linkless vr' = linkless vr" using same_linklessD [OF l vr(1)] by blast
        have "?s2 a = s a" if a: "a \<in> set (preorder r) - {tr_addr r}" for a
        proof (rule other)
          have "a \<notin> set (preorder t)" using a dis by blast
          then show "a \<noteq> tr_addr u" "a \<notin> tr_addr ` set (tr_subs u)" using ua da ut by auto
        qed (use a in simp)
        then have "vtree ?s2 (Some (tr_addr u)) r"
          using v t(2) vr' vr ne linkless_fields(2) [OF vr'(2)]
          by (intro vtree_root [of s None r ?s2 "vr'\<lparr>v_parent := Some (tr_addr u)\<rparr>"]) (auto simp: attach_def dt(2))
        then show ?thesis using 1 by simp
      next
        case 2
        obtain vd where vd: "s (tr_addr d) = Some vd" "v_parent vd = Some (tr_addr u)" "v_children vd = map tr_addr (tr_subs d)"
          using vtree_view [OF vtree_sub [OF q 2]] by auto
        obtain vd' where vd': "s1 (tr_addr d) = Some vd'" "linkless vd' = linkless vd" using same_linklessD [OF l vd(1)] by blast
        have "tr_addr d \<noteq> tr_addr r" using da [OF 2] ut ru by (metis subsetD)
        moreover have "tr_addr d \<noteq> tr_addr u" using un 2 by (metis imageI)
        ultimately have "?s2 (tr_addr d) = Some vd'" using vd'(1) by (simp add: attach_def)
        then show ?thesis
          using linkless_fields(1,2) [OF vd'(2)] vd(2,3)
          by (intro vtree_root [OF vtree_sub [OF q 2] sub_parts(3) [OF du 2] inside [OF 2]]) simp_all
      qed
    qed
    show "\<forall>a \<in> set (preorder t) - set (preorder u). ?s2 a = s a"
    proof
      fix a assume a: "a \<in> set (preorder t) - set (preorder u)"
      then have "a \<noteq> tr_addr u" "a \<notin> tr_addr ` set (tr_subs u)" using da addr_in_preorder [of u] by auto
      moreover have "a \<noteq> tr_addr r" using a ru by auto
      ultimately show "?s2 a = s a" using other by blast
    qed
  qed
  moreover have "vtree ?s2 None x" if x: "x \<in> set (remove1 r (remove1 t F))" for x
  proof -
    have xF: "x \<in> set F" using x notin_set_remove1 by metis
    have dx: "distinct (concat (map preorder (r # remove1 r (remove1 t F))))" "distinct (concat (map preorder (t # remove1 t F)))"
    proof -
      have m: "mset (concat (map preorder F)) = mset (concat (map preorder (t # remove1 t F)))"
        using mset_concat_remove1 [OF t(1)] by simp
      then show d1: "distinct (concat (map preorder (t # remove1 t F)))" using g mset_eq_imp_distinct_iff unfolding grove_def by blast
      have "r \<in> set (remove1 t F)" using t by (simp add: in_set_remove1)
      then have "mset (concat (map preorder (remove1 t F))) = mset (concat (map preorder (r # remove1 r (remove1 t F))))"
        using mset_concat_remove1 [of r "remove1 t F"] by simp
      moreover have "distinct (concat (map preorder (remove1 t F)))" using d1 by simp
      ultimately show "distinct (concat (map preorder (r # remove1 r (remove1 t F))))" using mset_eq_imp_distinct_iff by blast
    qed
    have "x \<in> set (remove1 t F)" using x notin_set_remove1 by metis
    then have "set (preorder x) \<inter> set (preorder t) = {}" using dx(2) by auto
    moreover have "set (preorder x) \<inter> set (preorder r) = {}" using dx(1) x by auto
    moreover have "insert (tr_addr u) (tr_addr ` set (tr_subs u)) \<subseteq> set (preorder t)" using ua da ut by auto
    ultimately have ne': "a \<noteq> tr_addr r" "a \<noteq> tr_addr u" "a \<notin> tr_addr ` set (tr_subs u)" if "a \<in> set (preorder x)" for a
      using that addr_in_preorder [of r] by blast+
    have "\<forall>a \<in> set (preorder x). ?s2 a = s a"
    proof
      show "?s2 a = s a" if "a \<in> set (preorder x)" for a by (rule other [OF ne' [OF that]])
    qed
    then show ?thesis using vtree_cong v xF by blast
  qed
  ultimately show ?thesis by (simp add: forest_with_def)
qed

end
