(* ===== verification/View_Attach.thy ===== *)
theory View_Attach
  imports View_Adding
begin

text \<open>
  What is kept when a tree of views is put below a view: the invariants hold with the new parent and children, and the
  notifications that follow keep them while they register accelerators and visible bounds.
\<close>

section \<open>The invariants with the new child\<close>

lemma parent_same_tree:
  "ptree s p t \<Longrightarrow> a \<in> set (preorder t) \<Longrightarrow> s a = Some v \<Longrightarrow> v_parent v = Some b \<Longrightarrow> b \<in> set (preorder t) \<or> p = Some b"
proof (induction t arbitrary: p)
  case (Node x ti ts)
  show ?case
  proof (cases "a = x")
    case True
    then show ?thesis using Node.prems by auto
  next
    case False
    then obtain c where c: "c \<in> set ts" "a \<in> set (preorder c)" using Node.prems(2) by auto
    then have "b \<in> set (preorder c) \<or> Some x = Some b" using Node.IH [OF c(1), of "Some x"] Node.prems(1,3,4) by simp
    then show ?thesis using c(1) by auto
  qed
qed

lemma parent_inside:
  assumes "grove s F" and "r \<in> set F" and "parent_of s a b" and "b \<in> set (preorder r)"
  shows "a \<in> set (preorder r)"
proof -
  obtain v where v: "s a = Some v" "v_parent v = Some b" using assms(3) by (auto simp: parent_of_def)
  obtain t where t: "t \<in> set F" "a \<in> set (preorder t)" "ptree s None t" using grove_tree [OF assms(1) v(1)] by blast
  have "b \<in> set (preorder t)" using parent_same_tree [OF t(3,2) v] by simp
  then have "r = t" using grove_disjoint [OF assms(1) t(1) assms(2)] assms(4) by blast
  then show ?thesis using t(2) by simp
qed

lemma attach_grove:
  assumes g: "grove s F" and v: "\<forall>x \<in> set F'. vtree (attach p i c s) None x"
    and m: "mset (concat (map preorder F')) = mset (concat (map preorder F))" and c: "s c = Some vc" "v_root_of vc = None"
  shows "grove (attach p i c s) F'"
proof -
  have "distinct (concat (map preorder F'))" "set (concat (map preorder F')) = set (concat (map preorder F))"
    using g m mset_eq_imp_distinct_iff mset_eq_setD unfolding grove_def by blast+
  moreover have "v_root_of w = None" if w: "attach p i c s a = Some w" "v_parent w \<noteq> None" for a w
  proof -
    obtain w0 where w0: "s a = Some w0" "v_parent w = (if a = c then Some p else v_parent w0)" "unparented w = unparented w0"
      using attach_back [OF w(1)] by blast
    have "v_root_of w0 = None"
    proof (cases "a = c")
      case True
      then show ?thesis using c w0(1) by simp
    next
      case False
      then have "v_parent w0 \<noteq> None" using w0(2) w(2) by simp
      then show ?thesis using g w0(1) unfolding grove_def by blast
    qed
    then show ?thesis using unparented_fields(1) [OF w0(3)] by simp
  qed
  ultimately show ?thesis using g v vtree_ptree by (simp add: grove_def attach_dom)
qed

text \<open>The views of a tree without a widget.\<close>

lemma GetWidget_alone:
  assumes "grove s F" and "r \<in> set F" and "y \<in> set (preorder r)" and "s (tr_addr r) = Some vr" and "v_root_of vr = None"
  shows "GetWidget s y = Some None"
proof -
  have p: "ptree s None r" using assms(1,2) by (auto simp: grove_def)
  show ?thesis
  proof (rule ptree_up [OF p assms(3)])
    show "GetWidget s (tr_addr r) = Some None" if "s (tr_addr r) = Some v" "v_parent v = None" for v
      using that assms(4,5) by (simp add: GetWidget.simps [of s "tr_addr r"])
    show "GetWidget s a = Some None" if "s a = Some v" "v_parent v = Some b" "GetWidget s b = Some None" for a b v
    proof -
      have "v_root_of v = None" using assms(1) that(1,2) unfolding grove_def by blast
      then show ?thesis using that by (simp add: GetWidget.simps [of s a])
    qed
  qed
qed

lemma alone_quiet:
  assumes "sound W F" and "vw_views W y = Some v" and "GetWidget (vw_views W) y = Some None"
  shows "v_accelerator_focus_manager v = None" and "\<not> v_registered_for_visible_bounds v"
    and "v_registered_accelerator_count v = 0"
proof -
  show m: "v_accelerator_focus_manager v = None"
    using soundD(4) [OF assms(1,2)] assms(3) by (cases "v_accelerator_focus_manager v") (auto simp: view_ok_def GetFocusManager_def)
  then show "v_registered_accelerator_count v = 0" using soundD(4) [OF assms(1,2)] by (simp add: view_ok_def)
  show "\<not> v_registered_for_visible_bounds v" using soundD(3) [OF assms(1)] assms(2,3) unfolding bounds_ok_def by blast
qed

lemma listed_attach: "listed (attach p i c s) a b \<longleftrightarrow> listed s a b"
proof -
  have "listed x a b \<longleftrightarrow> (\<exists>ds. map_option v_descendants_to_notify (x b) = Some (Some ds) \<and> a \<in> set ds)" for x
    by (auto simp: listed_def)
  moreover have "map_option v_descendants_to_notify (attach p i c s b) = map_option v_descendants_to_notify (s b)"
    by (simp add: attach_def option.map_comp comp_def)
  ultimately show ?thesis by (simp only:)
qed

lemma attach_parents:
  assumes g: "grove s F" and r: "r \<in> set F" and "(parent_of (attach p i (tr_addr r) s))\<^sup>+\<^sup>+ a b" and a: "a \<notin> set (preorder r)"
  shows "(parent_of s)\<^sup>+\<^sup>+ a b \<and> b \<notin> set (preorder r)"
proof -
  have up: "parent_of s x y \<and> y \<notin> set (preorder r)"
    if x: "parent_of (attach p i (tr_addr r) s) x y" "x \<notin> set (preorder r)" for x y
  proof -
    have "x \<noteq> tr_addr r" using x(2) addr_in_preorder by metis
    then have xy: "parent_of s x y" using x(1) attach_back by (fastforce simp: parent_of_def)
    then show ?thesis using parent_inside [OF g r xy] x(2) by blast
  qed
  show ?thesis
    using assms(3)
  proof (induction rule: tranclp_induct)
    case (base y)
    then show ?case using up [OF base a] by blast
  next
    case (step y z)
    then have "parent_of s y z \<and> z \<notin> set (preorder r)" using up [OF step.hyps(2)] step.IH by blast
    then show ?case using step.IH tranclp.trancl_into_trancl [of "parent_of s" a y z] by blast
  qed
qed

lemma attach_outside:
  assumes g: "grove s F" and r: "r \<in> set F" and a: "s a = Some v" "a \<notin> set (preorder r)"
  shows "GetWidget (attach p i (tr_addr r) s) a = GetWidget s a"
proof -
  obtain t where t: "t \<in> set F" "a \<in> set (preorder t)" "ptree s None t" using grove_tree [OF g a(1)] by blast
  have "r \<noteq> t" using t(2) a(2) by blast
  then have dis: "set (preorder t) \<inter> set (preorder r) = {}" by (rule grove_disjoint [OF g t(1) r])
  have "a \<in> set (preorder t) \<longrightarrow> GetWidget (attach p i (tr_addr r) s) a = GetWidget s a"
  proof (rule GetWidget_tree [OF t(3,2)])
    show "\<exists>v'. attach p i (tr_addr r) s b = Some v' \<and> v_parent v' = v_parent v \<and> v_root_of v' = v_root_of v"
      if b: "b \<in> set (preorder t)" "s b = Some v" for b v
    proof -
      have "b \<noteq> tr_addr r" using b(1) dis addr_in_preorder [of r] by blast
      then obtain v' where v': "attach p i (tr_addr r) s b = Some v'" "v_parent v' = v_parent v" "unparented v' = unparented v"
        using attach_forth [where s = s and this = p and i = i and view = "tr_addr r", OF b(2)] by auto
      then show ?thesis using unparented_fields(1) [OF v'(3)] by blast
    qed
  qed
  then show ?thesis using t(2) by simp
qed

lemma attach_sound:
  assumes s: "sound W F" and r: "r \<in> set F" "vw_views W (tr_addr r) = Some vr" "v_root_of vr = None"
    and g': "grove (attach p i (tr_addr r) (vw_views W)) F'"
  shows "sound (W\<lparr>vw_views := attach p i (tr_addr r) (vw_views W)\<rparr>) F'"
proof -
  let ?s = "attach p i (tr_addr r) (vw_views W)" and ?W = "W\<lparr>vw_views := attach p i (tr_addr r) (vw_views W)\<rparr>"
  have g: "grove (vw_views W) F" using soundD(1) [OF s] .
  have alone: "GetWidget (vw_views W) y = Some None" if "y \<in> set (preorder r)" for y
    by (rule GetWidget_alone [OF g r(1) that r(2,3)])
  have "bounds_ok ?s"
    unfolding bounds_ok_def
  proof (intro allI impI)
    fix a v assume v: "?s a = Some v" "v_registered_for_visible_bounds v"
    obtain v0 where v0: "vw_views W a = Some v0" "unparented v = unparented v0" using attach_back [OF v(1)] by blast
    have rg: "v_registered_for_visible_bounds v0" using unparented_fields(3) [OF v0(2)] v(2) by simp
    then have b: "v_NeedsNotification v0 \<and> GetWidget (vw_views W) a \<noteq> Some None \<and>
        (\<forall>b. (parent_of (vw_views W))\<^sup>+\<^sup>+ a b \<longrightarrow> listed (vw_views W) a b)"
      using soundD(3) [OF s] v0(1) unfolding bounds_ok_def by blast
    have out: "a \<notin> set (preorder r)" using alone alone_quiet(2) [OF s v0(1)] rg by blast
    then show "v_NeedsNotification v \<and> GetWidget ?s a \<noteq> Some None \<and> (\<forall>b. (parent_of ?s)\<^sup>+\<^sup>+ a b \<longrightarrow> listed ?s a b)"
      using b attach_parents [OF g r(1) _ out] attach_outside [OF g r(1) v0(1) out] unparented_fields(2) [OF v0(2)]
      by (simp add: listed_attach)
  qed
  moreover have "view_ok ?W a v" if v: "?s a = Some v" for a v
  proof -
    obtain v0 where v0: "vw_views W a = Some v0" "unparented v = unparented v0" using attach_back [OF v] by blast
    have vo: "view_ok W a v0" using soundD(4) [OF s v0(1)] .
    have "GetFocusManager ?W a = GetFocusManager W a" if m: "v_accelerator_focus_manager v0 = Some fm" for fm
    proof -
      have "a \<notin> set (preorder r)" using alone alone_quiet(1) [OF s v0(1)] m by auto
      then show ?thesis
        using attach_outside [OF g r(1) v0(1)] by (simp add: GetFocusManager_def widget_GetFocusManager_def cong: option.case_cong)
    qed
    then show ?thesis using vo unparented_fields [OF v0(2)] by (simp add: view_ok_def)
  qed
  moreover have "widget_ok ?W wd" if "vw_widgets W w = Some wd" for w wd
    using soundD(5) [OF s that] by (simp add: widget_ok_def)
  moreover have "manager_ok ?W f n" if f: "vw_managers W f = Some n" for f n
  proof -
    have d: "dom ?s = dom (vw_views W)" by (rule attach_dom)
    then have "?s a \<noteq> None" if "vw_views W a \<noteq> None" for a using that by blast
    moreover have "v_accelerator_focus_manager v = Some f"
      if x: "x \<in> am_targets (fm_accelerator_manager n) acc" "?s x = Some v" for x acc v
    proof -
      obtain v0 where v0: "vw_views W x = Some v0" "unparented v = unparented v0" using attach_back [OF x(2)] by blast
      have "v_accelerator_focus_manager v0 = Some f" using soundD(6) [OF s f] x(1) v0(1) unfolding manager_ok_def by blast
      then show ?thesis using unparented_fields(5) [OF v0(2)] by simp
    qed
    ultimately show ?thesis using soundD(6) [OF s f] d by (simp add: manager_ok_def)
  qed
  ultimately show ?thesis using g' soundD(2) [OF s] by (simp add: sound_def)
qed

end
