(* ===== verification/View_Registration.thy ===== *)
theory View_Registration
  imports View_Attach
begin

text \<open>
  The notifications that run when a tree of views is added: every view of it registers its accelerators with the focus
  manager of the window, and those that ask for it are put into the lists of visible bounds of the views above them.
\<close>

section \<open>Registering accelerators\<close>

lemma register_all_ok:
  assumes "priority_ok D m"
  shows "ensures (register_all x as m) (\<lambda>m'. priority_ok D m' \<and>
    (\<forall>acc. am_targets m' acc = am_targets m acc \<union> (if acc \<in> set as then {x} else {})))"
  using assms
proof (induction as arbitrary: m)
  case (Cons a as)
  obtain flag ts where e: "am_entry a m = (flag, ts)" by fastforce
  have p: "flag \<Longrightarrow> ts \<noteq> [] \<and> hd ts \<notin> D" using Cons.prems e unfolding priority_ok_def by (metis fst_conv snd_conv)
  have "ensures (am_Register a kNormalPriority x m) (\<lambda>m1. priority_ok D m1 \<and>
      (\<forall>acc. am_targets m1 acc = am_targets m acc \<union> (if acc = a then {x} else {})))"
  proof (cases flag)
    case True
    then obtain t ts' where ts: "ts = t # ts'" "t \<notin> D" using p by (cases ts) auto
    have "priority_ok D (m\<lparr>accelerators := (accelerators m)(a \<mapsto> (True, t # x # ts'))\<rparr>)"
      using Cons.prems ts(2) by (simp add: priority_ok_def)
    then show ?thesis using True e ts by (auto simp: am_Register_def am_targets_def)
  next
    case False
    have "priority_ok D (m\<lparr>accelerators := (accelerators m)(a \<mapsto> (False, x # ts))\<rparr>)"
      using Cons.prems by (simp add: priority_ok_def)
    then show ?thesis using False e by (auto simp: am_Register_def am_targets_def)
  qed
  then obtain m1 where m1: "am_Register a kNormalPriority x m = Some m1" "priority_ok D m1"
    "\<And>acc. am_targets m1 acc = am_targets m acc \<union> (if acc = a then {x} else {})" by (elim ensuresE) blast
  obtain m2 where m2: "register_all x as m1 = Some m2" "priority_ok D m2"
    "\<And>acc. am_targets m2 acc = am_targets m1 acc \<union> (if acc \<in> set as then {x} else {})"
    using Cons.IH [OF m1(2)] by (elim ensuresE) blast
  have "am_targets m2 acc = am_targets m acc \<union> (if acc \<in> set (a # as) then {x} else {})" for acc
    using m1(3) m2(3) by auto
  then show ?case using m1(1) m2(1,2) by simp
qed simp

text \<open>What the notifications of an addition change: nothing but the accelerators of the views \<open>Y\<close>.\<close>

definition manager_more :: "focus_manager \<Rightarrow> focus_manager \<Rightarrow> bool" where
  "manager_more a b \<longleftrightarrow> fm_widget b = fm_widget a \<and> fm_focused_view b = fm_focused_view a \<and>
     (\<forall>acc. am_targets (fm_accelerator_manager a) acc \<subseteq> am_targets (fm_accelerator_manager b) acc)"

definition accelerator_part :: "view \<Rightarrow> accelerator list option \<times> nat \<times> nat option" where
  "accelerator_part v = (v_accelerators v, v_registered_accelerator_count v, v_accelerator_focus_manager v)"

definition told :: "nat set \<Rightarrow> view_world \<Rightarrow> view_world \<Rightarrow> bool" where
  "told Y W W' \<longleftrightarrow>
     same_core (vw_views W) (vw_views W') \<and> (\<forall>a. map_option bounds_part (vw_views W' a) = map_option bounds_part (vw_views W a)) \<and>
     vw_traversables W' = vw_traversables W \<and> vw_widgets W' = vw_widgets W \<and> vw_storage W' = vw_storage W \<and>
     (\<forall>fm. rel_option manager_more (vw_managers W fm) (vw_managers W' fm)) \<and>
     (\<forall>a. map_option v_accelerators (vw_views W' a) = map_option v_accelerators (vw_views W a)) \<and>
     (\<forall>a. a \<notin> Y \<longrightarrow> map_option accelerator_part (vw_views W' a) = map_option accelerator_part (vw_views W a))"

lemma manager_more_refl [simp]: "manager_more a a"
  by (simp add: manager_more_def)

lemma manager_more_trans: "manager_more a b \<Longrightarrow> manager_more b c \<Longrightarrow> manager_more a c"
  by (auto simp: manager_more_def)

lemma told_refl [simp]: "told Y W W"
  by (auto simp: told_def intro: rel_option_reflI)

lemma told_trans:
  assumes "told X U V" and "told Y V W" and "X \<union> Y \<subseteq> Z"
  shows "told Z U W"
proof -
  have "rel_option manager_more (vw_managers U fm) (vw_managers W fm)" for fm
    by (rule rel_option_transI [where q = "vw_managers V fm"]) (use assms in \<open>auto simp: told_def elim: manager_more_trans\<close>)
  moreover have "map_option accelerator_part (vw_views W a) = map_option accelerator_part (vw_views U a)" if "a \<notin> Z" for a
  proof -
    have "a \<notin> X" "a \<notin> Y" using that assms(3) by auto
    then show ?thesis using assms(1,2) by (simp add: told_def)
  qed
  ultimately show ?thesis using assms(1,2) same_core_trans [of "vw_views U" "vw_views V" "vw_views W"] by (simp add: told_def)
qed

lemma told_core: "told Y W W' \<Longrightarrow> same_core (vw_views W) (vw_views W')"
  by (simp add: told_def)

lemma told_view: "told Y W W' \<Longrightarrow> vw_views W a = Some v \<Longrightarrow> \<exists>v'. vw_views W' a = Some v' \<and> core v' = core v"
  by (rule same_coreD [OF told_core])

lemma rel_more_widget: "(\<And>fm. rel_option R (M fm) (M' fm)) \<Longrightarrow> M' fm = None \<longleftrightarrow> M fm = None"
  by (metis option.rel_distinct(1) option.rel_distinct(2) option.exhaust)

lemma told_GetFocusManager:
  assumes "told Y W W'" and "grove (vw_views W) F" and "vw_views W a = Some v"
  shows "GetFocusManager W' a = GetFocusManager W a"
proof -
  have "vw_widgets W' = vw_widgets W" using assms(1) by (simp add: told_def)
  then show ?thesis
    using same_core_GetWidget [OF told_core [OF assms(1)] assms(2,3)]
    by (simp add: GetFocusManager_def widget_GetFocusManager_def cong: option.case_cong)
qed

text \<open>A view whose accelerators, if its window has a focus manager, all lead to it.\<close>

definition announced :: "view_world \<Rightarrow> nat \<Rightarrow> bool" where
  "announced W y \<longleftrightarrow>
     (\<forall>v as fm acc. vw_views W y = Some v \<longrightarrow> v_accelerators v = Some as \<longrightarrow> GetFocusManager W y = Some (Some fm) \<longrightarrow>
        acc \<in> set as \<longrightarrow> (\<exists>m. vw_managers W fm = Some m \<and> y \<in> am_targets (fm_accelerator_manager m) acc))"

lemma announced_told:
  assumes t: "told Y W W'" and g: "grove (vw_views W) F" and a: "announced W y"
  shows "announced W' y"
  unfolding announced_def
proof (intro allI impI)
  fix v' as fm acc
  assume v': "vw_views W' y = Some v'" "v_accelerators v' = Some as" "GetFocusManager W' y = Some (Some fm)" "acc \<in> set as"
  have "map_option v_accelerators (vw_views W' y) = map_option v_accelerators (vw_views W y)" using t by (simp add: told_def)
  then obtain v where v: "vw_views W y = Some v" "v_accelerators v = Some as" using v'(1,2) by (cases "vw_views W y") auto
  obtain m where m: "vw_managers W fm = Some m" "y \<in> am_targets (fm_accelerator_manager m) acc"
    using a v v'(3,4) told_GetFocusManager [OF t g v(1)] unfolding announced_def by metis
  have "rel_option manager_more (vw_managers W fm) (vw_managers W' fm)" using t by (simp add: told_def)
  then show "\<exists>m. vw_managers W' fm = Some m \<and> y \<in> am_targets (fm_accelerator_manager m) acc"
    using m by (cases "vw_managers W' fm") (auto simp: manager_more_def)
qed

text \<open>Soundness after a change of accelerators.\<close>

lemma sound_told:
  assumes s: "sound W F" and t: "told Y W W'"
    and v: "\<And>a v. vw_views W' a = Some v \<Longrightarrow> view_ok W' a v"
    and p: "\<And>fm m. vw_managers W' fm = Some m \<Longrightarrow> priority_ok (dom (vw_views W)) (fm_accelerator_manager m)"
    and x: "\<And>fm m acc x v. vw_managers W' fm = Some m \<Longrightarrow> x \<in> am_targets (fm_accelerator_manager m) acc \<Longrightarrow>
      vw_views W' x = Some v \<Longrightarrow> v_accelerator_focus_manager v = Some fm"
  shows "sound W' F"
proof -
  have c: "same_core (vw_views W) (vw_views W')" and b: "\<And>a. map_option bounds_part (vw_views W' a) = map_option bounds_part (vw_views W a)"
    and w: "vw_widgets W' = vw_widgets W" "vw_storage W' = vw_storage W"
    and r: "\<And>fm. rel_option manager_more (vw_managers W fm) (vw_managers W' fm)"
    using t by (auto simp: told_def)
  have d: "dom (vw_views W') = dom (vw_views W)" using same_core_dom [OF c] .
  have "manager_ok W' fm m" if m: "vw_managers W' fm = Some m" for fm m
  proof -
    obtain m0 where m0: "vw_managers W fm = Some m0" "manager_more m0 m" using r [of fm] m by (cases "vw_managers W fm") auto
    have "vw_views W' a \<noteq> None" if "fm_focused_view m = Some a" for a
      using soundD(6) [OF s m0(1)] m0(2) that d unfolding manager_ok_def manager_more_def by (metis domIff)
    then show ?thesis using p [OF m] x [OF m] d by (simp add: manager_ok_def)
  qed
  moreover have "widget_ok W' wd" if "vw_widgets W' w = Some wd" for w wd
  proof -
    have "widget_ok W wd" using soundD(5) [OF s] that \<open>vw_widgets W' = vw_widgets W\<close> by simp
    moreover have "vw_managers W' fm = None \<longleftrightarrow> vw_managers W fm = None" for fm by (rule rel_more_widget [OF r])
    ultimately show ?thesis using \<open>vw_widgets W' = vw_widgets W\<close> by (simp add: widget_ok_def)
  qed
  ultimately show ?thesis
    using same_core_grove [OF c soundD(1) [OF s]] bounds_ok_cong [OF c soundD(1) [OF s] b soundD(3) [OF s]] soundD(2) [OF s] w v
    by (simp add: sound_def)
qed

end
