(* ===== verification/View_Announce.thy ===== *)
theory View_Announce
  imports View_Registration
begin

text \<open>The notifications of an addition, for one view, for a view with its ancestors, and for a whole tree of views.\<close>

lemma told_upd_view:
  assumes "vw_views W x = Some v" and "core v' = core v" and "bounds_part v' = bounds_part v"
    and "v_accelerators v' = v_accelerators v" and "x \<notin> Y \<Longrightarrow> accelerator_part v' = accelerator_part v"
  shows "told Y W (W\<lparr>vw_views := (vw_views W)(x \<mapsto> v')\<rparr>)"
  using assms by (auto simp: told_def same_core_def intro: rel_option_reflI)

lemma sound_upd_told:
  assumes s: "sound W F" and x: "vw_views W x = Some v" and c: "core v' = core v" "bounds_part v' = bounds_part v"
    and a: "accelerator_part v' = accelerator_part v"
  shows "sound (W\<lparr>vw_views := (vw_views W)(x \<mapsto> v')\<rparr>) F" and "told Y W (W\<lparr>vw_views := (vw_views W)(x \<mapsto> v')\<rparr>)"
proof -
  show "sound (W\<lparr>vw_views := (vw_views W)(x \<mapsto> v')\<rparr>) F" using a by (intro sound_upd_view [OF s x c]) (simp_all add: accelerator_part_def)
  show "told Y W (W\<lparr>vw_views := (vw_views W)(x \<mapsto> v')\<rparr>)" using a by (intro told_upd_view [OF x c]) (simp_all add: accelerator_part_def)
qed

lemma GetFocusManager_total:
  assumes "sound W F" and "vw_views W y = Some v"
  shows "\<exists>r. GetFocusManager W y = Some r"
proof -
  obtain wo where wo: "GetWidget (vw_views W) y = Some wo" using GetWidget_total [OF soundD(1) [OF assms(1)] assms(2)] by blast
  show ?thesis
  proof (cases wo)
    case None
    then show ?thesis using wo by (simp add: GetFocusManager_def)
  next
    case (Some w)
    then obtain r u where r: "vw_views W r = Some u" "v_root_of u = Some w"
      using GetWidget_root [OF soundD(1) [OF assms(1)] assms(2)] wo by blast
    then have "vw_widgets W w \<noteq> None" using soundD(4) [OF assms(1) r(1)] by (simp add: view_ok_def)
    then obtain wd where "vw_widgets W w = Some wd" by blast
    then show ?thesis using widget_manager_total [OF assms(1)] wo Some by (fastforce simp: GetFocusManager_def)
  qed
qed

definition fresh :: "view_world \<Rightarrow> nat \<Rightarrow> bool" where
  "fresh W y \<longleftrightarrow> (\<forall>v. vw_views W y = Some v \<longrightarrow> v_registered_accelerator_count v = 0)"

lemma fresh_told: "told Y W W' \<Longrightarrow> y \<notin> Y \<Longrightarrow> fresh W y \<Longrightarrow> fresh W' y"
proof -
  assume t: "told Y W W'" and y: "y \<notin> Y" and f: "fresh W y"
  have "map_option accelerator_part (vw_views W' y) = map_option accelerator_part (vw_views W y)" using t y by (simp add: told_def)
  then show "fresh W' y" using f by (cases "vw_views W y"; cases "vw_views W' y") (auto simp: fresh_def accelerator_part_def)
qed

lemma RegisterPending_ok:
  assumes s: "sound W F" and y: "vw_views W y = Some v" and f: "fresh W y"
  shows "ensures (RegisterPendingAccelerators y W) (\<lambda>W'. sound W' F \<and> told {y} W W' \<and> announced W' y)"
proof -
  have zero: "v_registered_accelerator_count v = 0" using f y by (simp add: fresh_def)
  obtain wo where wo: "GetWidget (vw_views W) y = Some wo" using GetWidget_total [OF soundD(1) [OF s] y] by blast
  obtain fmo where fmo: "GetFocusManager W y = Some fmo" using GetFocusManager_total [OF s y] by blast
  have vo: "view_ok W y v" using soundD(4) [OF s y] .
  consider "v_accelerators v = None \<or> v_accelerators v = Some [] \<or> wo = None"
    | as where "v_accelerators v = Some as" "as \<noteq> []" "wo \<noteq> None" "fmo = None"
    | as fm where "v_accelerators v = Some as" "as \<noteq> []" "wo \<noteq> None" "fmo = Some fm"
    by (cases "v_accelerators v"; cases fmo) auto
  then show ?thesis
  proof cases
    case 1
    then have "announced W y" using y wo by (auto simp: announced_def GetFocusManager_def)
    moreover have "RegisterPendingAccelerators y W = Some W"
      using 1 y wo zero by (auto simp: RegisterPendingAccelerators_def split: option.split)
    ultimately show ?thesis using s by simp
  next
    case 2
    have "v_accelerator_focus_manager v = None" using vo fmo 2(4) by (cases "v_accelerator_focus_manager v") (auto simp: view_ok_def)
    then have "v\<lparr>v_accelerator_focus_manager := None\<rparr> = v" by simp
    then have "upd_view y (\<lambda>v. v\<lparr>v_accelerator_focus_manager := None\<rparr>) W = W" using y by (simp add: upd_view_def fun_upd_idem)
    then have "RegisterPendingAccelerators y W = Some W"
      using 2 y wo fmo zero by (simp add: RegisterPendingAccelerators_def)
    moreover have "announced W y" using fmo 2(4) by (simp add: announced_def)
    ultimately show ?thesis using s by simp
  next
    case 3
    obtain m where m: "vw_managers W fm = Some m" using GetFocusManager_exists [OF s] fmo 3(4) by blast
    have mo: "manager_ok W fm m" using soundD(6) [OF s m] .
    obtain am where am: "register_all y as (fm_accelerator_manager m) = Some am" "priority_ok (dom (vw_views W)) am"
      "\<And>acc. am_targets am acc = am_targets (fm_accelerator_manager m) acc \<union> (if acc \<in> set as then {y} else {})"
      using register_all_ok [of "dom (vw_views W)" "fm_accelerator_manager m" y as] mo by (auto simp: manager_ok_def elim!: ensuresE)
    let ?m = "m\<lparr>fm_accelerator_manager := am\<rparr>"
    let ?v = "v\<lparr>v_accelerator_focus_manager := Some fm, v_registered_accelerator_count := length as\<rparr>"
    let ?W = "W\<lparr>vw_views := (vw_views W)(y \<mapsto> ?v), vw_managers := (vw_managers W)(fm \<mapsto> ?m)\<rparr>"
    have run: "RegisterPendingAccelerators y W = Some ?W"
      using 3 y wo fmo zero m am(1) by (auto simp: RegisterPendingAccelerators_def upd_view_def upd_manager_def Let_def)
    have "manager_more m ?m" using am(3) by (auto simp: manager_more_def)
    then have t: "told {y} W ?W"
      using y m by (auto simp: told_def same_core_def intro: rel_option_reflI)
    have g: "grove (vw_views W) F" using soundD(1) [OF s] .
    have gy: "GetFocusManager ?W y = Some (Some fm)" using told_GetFocusManager [OF t g y] fmo 3(4) by simp
    have "sound ?W F"
    proof (rule sound_told [OF s t])
      fix a u assume u: "vw_views ?W a = Some u"
      then obtain u0 where u0: "vw_views W a = Some u0" using y by (auto split: if_splits)
      show "view_ok ?W a u"
      proof (cases "a = y")
        case True
        then show ?thesis using u vo gy 3(1) by (auto simp: view_ok_def)
      next
        case False
        then show ?thesis
          using u soundD(4) [OF s, of a u] told_GetFocusManager [OF t g u0] by (simp add: view_ok_def)
      qed
    next
      fix f n assume "vw_managers ?W f = Some n"
      then show "priority_ok (dom (vw_views W)) (fm_accelerator_manager n)"
        using am(2) soundD(6) [OF s, of f n] by (auto simp: manager_ok_def split: if_splits)
    next
      fix f n acc x u
      assume n: "vw_managers ?W f = Some n" and x: "x \<in> am_targets (fm_accelerator_manager n) acc" and u: "vw_views ?W x = Some u"
      have old: "v_accelerator_focus_manager u0 = Some f"
        if "vw_managers W f = Some n0" "x \<in> am_targets (fm_accelerator_manager n0) acc" "vw_views W x = Some u0" for n0 u0
        using soundD(6) [OF s that(1)] that(2,3) unfolding manager_ok_def by blast
      show "v_accelerator_focus_manager u = Some f"
      proof (cases "f = fm")
        case True
        show ?thesis
        proof (cases "x = y")
          case False
          have "n = ?m" using n True by simp
          then have "x \<in> am_targets am acc" using x by simp
          then have "x \<in> am_targets (fm_accelerator_manager m) acc" using False unfolding am(3) by (simp split: if_splits)
          moreover have "vw_views W x = Some u" using u False by simp
          ultimately show ?thesis using old [of m] m \<open>f = fm\<close> by blast
        next
          case True
          then show ?thesis using u \<open>f = fm\<close> by auto
        qed
      next
        case False
        then have fn: "vw_managers W f = Some n" using n by simp
        show ?thesis
        proof (cases "x = y")
          case True
          have "v_accelerator_focus_manager v = Some f" using old [OF fn x] y True by simp
          then have "GetFocusManager W y = Some (Some f)" using vo by (simp add: view_ok_def)
          then show ?thesis using fmo 3(4) False by simp
        next
          case False
          then have "vw_views W x = Some u" using u by simp
          then show ?thesis using old [OF fn x] by blast
        qed
      qed
    qed
    moreover have "announced ?W y" using gy 3(1) am(3) by (auto simp: announced_def)
    ultimately show ?thesis using run t by simp
  qed
qed

lemma Impl_add_ok:
  assumes s: "sound W F" and a: "vw_views W a = Some va" and r: "v_root_of va = None" and p: "vw_views W p = Some vp" and f: "fresh W a"
  shows "ensures (ViewHierarchyChangedImpl True True p x a W) (\<lambda>W'. sound W' F \<and> told {a} W W' \<and> announced W' a)"
proof -
  obtain fmo where fmo: "GetFocusManager W a = Some fmo" using GetFocusManager_total [OF s a] by blast
  have "ensures (if fmo \<noteq> None then RegisterPendingAccelerators a W
                 else Some (upd_view a (\<lambda>v. v\<lparr>v_accelerator_registration_delayed := True\<rparr>) W))
      (\<lambda>W'. sound W' F \<and> told {a} W W' \<and> announced W' a)"
  proof (cases fmo)
    case None
    let ?v = "va\<lparr>v_accelerator_registration_delayed := True\<rparr>"
    let ?W = "W\<lparr>vw_views := (vw_views W)(a \<mapsto> ?v)\<rparr>"
    have st: "sound ?W F" "told {a} W ?W" by (rule sound_upd_told [OF s a]; simp add: accelerator_part_def)+
    have "announced ?W a" using told_GetFocusManager [OF st(2) soundD(1) [OF s] a] fmo None by (simp add: announced_def)
    then show ?thesis using None a st by (simp add: upd_view_def)
  qed (use RegisterPending_ok [OF s a f] in simp)
  then obtain W1 where W1: "(if fmo \<noteq> None then RegisterPendingAccelerators a W
                 else Some (upd_view a (\<lambda>v. v\<lparr>v_accelerator_registration_delayed := True\<rparr>) W)) = Some W1"
    "sound W1 F" "told {a} W W1" "announced W1 a" by (elim ensuresE) blast
  obtain p1 where p1: "vw_views W1 p = Some p1" using told_view [OF W1(3) p] by blast
  let ?W2 = "W1\<lparr>vw_views := (vw_views W1)(p \<mapsto> p1\<lparr>v_needs_layout := True\<rparr>)\<rparr>"
  have st: "sound ?W2 F" "told {a} W1 ?W2" by (rule sound_upd_told [OF W1(2) p1]; simp add: accelerator_part_def)+
  have "ViewHierarchyChangedImpl True True p x a W = Some ?W2"
    using a fmo W1(1) r p1 by (simp add: ViewHierarchyChangedImpl_def upd_view_def)
  then show ?thesis
    using st told_trans [OF W1(3) st(2)] announced_told [OF st(2) soundD(1) [OF W1(2)] W1(4)] by simp
qed

lemma notify_add_ok:
  assumes g: "grove s F" and a: "s a = Some v" and p: "s p = Some vp"
  shows "\<forall>W. sound W F \<longrightarrow> same_core s (vw_views W) \<longrightarrow>
    ensures (notify_ancestors False True p x (Some a) W) (\<lambda>W'. sound W' F \<and> told {} W W')"
    (is "?P a")
proof -
  have one: "ensures (ViewHierarchyChangedImpl False True p x a W) (\<lambda>W'. sound W' F \<and> told {} W W')"
    if W: "sound W F" "vw_views W a = Some va" "vw_views W p = Some vp'" for W a va vp'
  proof -
    let ?W = "W\<lparr>vw_views := (vw_views W)(p \<mapsto> vp'\<lparr>v_needs_layout := True\<rparr>)\<rparr>"
    have st: "sound ?W F" "told {} W ?W" by (rule sound_upd_told [OF W(1,3)]; simp add: accelerator_part_def)+
    have "ViewHierarchyChangedImpl False True p x a W = Some ?W"
    proof (cases "v_root_of va")
      case (Some w)
      then have "vw_widgets W w \<noteq> None" using soundD(4) [OF W(1,2)] by (simp add: view_ok_def)
      then show ?thesis
        using W Some by (auto simp: ViewHierarchyChangedImpl_def root_ViewHierarchyChanged_def widget_ViewHierarchyChanged_def upd_view_def)
    qed (use W in \<open>simp add: ViewHierarchyChangedImpl_def upd_view_def\<close>)
    then show ?thesis using st by simp
  qed
  show ?thesis
  proof (rule grove_up [OF g a, where P = ?P])
    fix a v
    assume av: "s a = Some v" "v_parent v = None"
    show "?P a"
    proof (intro allI impI)
      fix W assume W: "sound W F" "same_core s (vw_views W)"
      obtain va vp' where v: "vw_views W a = Some va" "core va = core v" "vw_views W p = Some vp'"
        using same_coreD [OF W(2) av(1)] same_coreD [OF W(2) p] by blast
      obtain W1 where W1: "ViewHierarchyChangedImpl False True p x a W = Some W1" "sound W1 F" "told {} W W1"
        using one [OF W(1) v(1,3)] by (elim ensuresE) blast
      obtain v1 where v1: "vw_views W1 a = Some v1" "core v1 = core va" using told_view [OF W1(3) v(1)] by blast
      then show "ensures (notify_ancestors False True p x (Some a) W) (\<lambda>W'. sound W' F \<and> told {} W W')"
        using W1 core_fields(1) [OF v1(2)] core_fields(1) [OF v(2)] av(2)
        by (simp add: notify_ancestors.simps [of _ _ _ _ "Some a"] notify_ancestors.simps [of _ _ _ _ None])
    qed
  next
    fix a v b u
    assume av: "s a = Some v" "v_parent v = Some b" "s b = Some u" and up: "?P b"
    show "?P a"
    proof (intro allI impI)
      fix W assume W: "sound W F" "same_core s (vw_views W)"
      obtain va vp' where v: "vw_views W a = Some va" "core va = core v" "vw_views W p = Some vp'"
        using same_coreD [OF W(2) av(1)] same_coreD [OF W(2) p] by blast
      obtain W1 where W1: "ViewHierarchyChangedImpl False True p x a W = Some W1" "sound W1 F" "told {} W W1"
        using one [OF W(1) v(1,3)] by (elim ensuresE) blast
      obtain v1 where v1: "vw_views W1 a = Some v1" "core v1 = core va" using told_view [OF W1(3) v(1)] by blast
      have "same_core s (vw_views W1)" using same_core_trans [OF W(2) told_core [OF W1(3)]] .
      then obtain W2 where W2: "notify_ancestors False True p x (Some b) W1 = Some W2" "sound W2 F" "told {} W1 W2"
        using up W1(2) by (blast elim: ensuresE)
      have "notify_ancestors False True p x (Some a) W = Some W2"
        using W1(1) W2(1) v1 core_fields(1) [OF v1(2)] core_fields(1) [OF v(2)] av(2) by (subst notify_ancestors.simps) simp
      then show "ensures (notify_ancestors False True p x (Some a) W) (\<lambda>W'. sound W' F \<and> told {} W W')"
        using W2(2) told_trans [OF W1(3) W2(3)] by simp
    qed
  qed
qed

end
