(* ===== verification/View_Joining.thy ===== *)
theory View_Joining
  imports View_Announce
begin

text \<open>
  Adding a tree of views below a view: the notifications of all its views, their registration for visible bounds, and
  what \<open>AddChildViewAt\<close> guarantees.
\<close>

section \<open>The notifications of a tree\<close>

lemma propagate_add_ok:
  assumes g: "grove s F" and p: "s p = Some vp"
  shows "\<forall>t \<in> set ts. \<exists>q. ptree s (Some q) t \<Longrightarrow> distinct (concat (map preorder ts)) \<Longrightarrow>
    \<forall>W. sound W F \<longrightarrow> same_core s (vw_views W) \<longrightarrow> (\<forall>y \<in> set (concat (map preorder ts)). fresh W y) \<longrightarrow>
      ensures (propagate_add p x (map tr_addr ts) W)
        (\<lambda>W'. sound W' F \<and> told (set (concat (map preorder ts))) W W' \<and> (\<forall>y \<in> set (concat (map preorder ts)). announced W' y))"
proof (induction "length (concat (map preorder ts))" arbitrary: ts rule: less_induct)
  case less
  show ?case
  proof (cases ts)
    case Nil
    then show ?thesis by (simp add: propagate_add.simps)
  next
    case (Cons t ts')
    let ?A = "set (concat (map preorder (tr_subs t)))" and ?a = "tr_addr t" and ?B = "set (concat (map preorder ts'))"
    obtain q where q: "ptree s (Some q) t" using less.prems(1) Cons by auto
    obtain v where v: "s ?a = Some v" "v_parent v = Some q" "v_children v = map tr_addr (tr_subs t)" using ptree_view [OF q] by auto
    have root: "v_root_of v = None" using g v(1,2) unfolding grove_def by blast
    have subs: "\<forall>u \<in> set (tr_subs t). \<exists>q. ptree s (Some q) u" using ptree_sub [OF q] by blast
    have all: "set (concat (map preorder ts)) = insert ?a (?A \<union> ?B)" using Cons by (simp add: preorder_subs [of t])
    have d: "distinct (concat (map preorder (tr_subs t)))" "distinct (concat (map preorder ts'))" "?a \<notin> ?A" "?a \<notin> ?B" "?A \<inter> ?B = {}"
      using less.prems(2) Cons by (auto simp: preorder_subs [of t])
    show ?thesis
      unfolding all
    proof (intro allI impI)
      fix W assume W: "sound W F" "same_core s (vw_views W)" "\<forall>y \<in> insert ?a (?A \<union> ?B). fresh W y"
      obtain v0 where v0: "vw_views W ?a = Some v0" "core v0 = core v" using same_coreD [OF W(2) v(1)] by blast
      have "ensures (propagate_add p x (map tr_addr (tr_subs t)) W)
          (\<lambda>W'. sound W' F \<and> told ?A W W' \<and> (\<forall>y \<in> ?A. announced W' y))"
        using less.hyps [of "tr_subs t", rule_format, OF _ subs [rule_format] d(1) W(1,2)] W(3) Cons by (simp add: preorder_subs [of t])
      then obtain W1 where W1: "propagate_add p x (map tr_addr (tr_subs t)) W = Some W1" "sound W1 F" "told ?A W W1" "\<forall>y \<in> ?A. announced W1 y"
        by (elim ensuresE) blast
      have c1: "same_core s (vw_views W1)" using same_core_trans [OF W(2) told_core [OF W1(3)]] .
      obtain v1 p1 where v1: "vw_views W1 ?a = Some v1" "core v1 = core v" "vw_views W1 p = Some p1"
        using same_coreD [OF c1 v(1)] same_coreD [OF c1 p] by blast
      have f1: "fresh W1 ?a" using fresh_told [OF W1(3) d(3)] W(3) by blast
      have r1: "v_root_of v1 = None" using core_fields(5) [OF v1(2)] root by simp
      obtain W2 where W2: "ViewHierarchyChangedImpl True True p x ?a W1 = Some W2" "sound W2 F" "told {?a} W1 W2" "announced W2 ?a"
        using Impl_add_ok [OF W1(2) v1(1) r1 v1(3) f1, of x] by (elim ensuresE) blast
      have t2: "told (insert ?a ?A) W W2" by (rule told_trans [OF W1(3) W2(3)]) auto
      have c2: "same_core s (vw_views W2)" using same_core_trans [OF c1 told_core [OF W2(3)]] .
      have f2: "\<forall>y \<in> ?B. fresh W2 y"
      proof
        fix y assume "y \<in> ?B"
        then have "y \<notin> insert ?a ?A" "fresh W y" using d(4,5) W(3) by auto
        then show "fresh W2 y" using fresh_told [OF t2] by blast
      qed
      have "ensures (propagate_add p x (map tr_addr ts') W2)
          (\<lambda>W'. sound W' F \<and> told ?B W2 W' \<and> (\<forall>y \<in> ?B. announced W' y))"
        using less.hyps [of ts', rule_format, OF _ _ d(2) W2(2) c2] less.prems(1) f2 Cons by (simp add: preorder_subs [of t])
      then obtain W3 where W3: "propagate_add p x (map tr_addr ts') W2 = Some W3" "sound W3 F" "told ?B W2 W3" "\<forall>y \<in> ?B. announced W3 y"
        by (elim ensuresE) blast
      have "propagate_add p x (map tr_addr ts) W = Some W3"
        using Cons v0(1) core_fields(2) [OF v0(2)] v(3) W1(1) W2(1) W3(1) by (subst propagate_add.simps) simp
      moreover have "told (insert ?a (?A \<union> ?B)) W W3" by (rule told_trans [OF t2 W3(3)]) auto
      moreover have "announced W3 y" if y: "y \<in> insert ?a ?A" for y
      proof -
        have "announced W2 y" using y W2(4) W1(4) announced_told [OF W2(3) soundD(1) [OF W1(2)]] by blast
        then show ?thesis by (rule announced_told [OF W3(3) soundD(1) [OF W2(2)]])
      qed
      ultimately show "ensures (propagate_add p x (map tr_addr ts) W)
          (\<lambda>W'. sound W' F \<and> told (insert ?a (?A \<union> ?B)) W W' \<and> (\<forall>y \<in> insert ?a (?A \<union> ?B). announced W' y))"
        using W3(2,4) by auto
    qed
  qed
qed

section \<open>Visible bounds\<close>

text \<open>What entering \<open>y\<close> into the lists of views does.\<close>

definition lists_more :: "view_store \<Rightarrow> view_store \<Rightarrow> bool" where
  "lists_more s s' \<longleftrightarrow>
     same_plain s s' \<and> (\<forall>a. registered s' a = registered s a) \<and> (\<forall>a c. listed s a c \<longrightarrow> listed s' a c)"

lemma lists_more_trans: "lists_more s t \<Longrightarrow> lists_more t u \<Longrightarrow> lists_more s u"
  unfolding lists_more_def using same_plain_trans by metis

lemma AddDescendant_ok:
  assumes b: "vw_views W b = Some u"
  shows "ensures (AddDescendantToNotify y b W)
    (\<lambda>W'. \<exists>s'. W' = W\<lparr>vw_views := s'\<rparr> \<and> lists_more (vw_views W) s' \<and> listed s' y b)"
proof -
  let ?ds = "(case v_descendants_to_notify u of None \<Rightarrow> [] | Some ds \<Rightarrow> ds) @ [y]"
  let ?u = "u\<lparr>v_descendants_to_notify := Some ?ds\<rparr>"
  let ?s = "(vw_views W)(b \<mapsto> ?u)"
  have "same_plain (vw_views W) ?s" using b by (simp add: same_plain_def)
  moreover have "registered ?s a = registered (vw_views W) a" for a using b by (simp add: registered_def)
  moreover have "listed ?s a c" if "listed (vw_views W) a c" for a c
    using that b by (cases "c = b") (auto simp: listed_def)
  moreover have "listed ?s y b" by (simp add: listed_def)
  moreover have "AddDescendantToNotify y b W = Some (W\<lparr>vw_views := ?s\<rparr>)"
    using b by (simp add: AddDescendantToNotify_def upd_view_def)
  ultimately show ?thesis unfolding lists_more_def by (auto intro!: exI [of _ ?s])
qed

lemma list_ok:
  assumes g: "grove s F" and b: "s b = Some u"
  shows "\<forall>W :: view_world. same_core s (vw_views W) \<longrightarrow>
    ensures (for_ancestors (AddDescendantToNotify y) (Some b) W)
      (\<lambda>W'. \<exists>s'. W' = W\<lparr>vw_views := s'\<rparr> \<and> lists_more (vw_views W) s' \<and>
        (\<forall>c. c = b \<or> (parent_of s)\<^sup>+\<^sup>+ b c \<longrightarrow> listed s' y c))"
    (is "?P b")
proof (rule grove_up [OF g b, where P = ?P])
  fix b v
  assume bv: "s b = Some v" "v_parent v = None"
  show "?P b"
  proof (intro allI impI)
    fix W :: view_world assume W: "same_core s (vw_views W)"
    obtain v0 where v0: "vw_views W b = Some v0" using same_coreD [OF W bv(1)] by blast
    obtain s1 where s1: "AddDescendantToNotify y b W = Some (W\<lparr>vw_views := s1\<rparr>)" "lists_more (vw_views W) s1" "listed s1 y b"
      using AddDescendant_ok [OF v0, of y] by (elim ensuresE) blast
    have "same_core s s1" using same_core_trans [OF W] same_plain_core s1(2) by (auto simp: lists_more_def)
    then obtain v1 where v1: "s1 b = Some v1" "core v1 = core v" using same_coreD bv(1) by blast
    have run: "for_ancestors (AddDescendantToNotify y) (Some b) W = Some (W\<lparr>vw_views := s1\<rparr>)"
      using s1(1) v1 core_fields(1) [OF v1(2)] bv(2) by (simp add: for_ancestors.simps [of _ "Some b"] for_ancestors.simps [of _ None])
    have "\<not> (parent_of s)\<^sup>+\<^sup>+ b c" for c using bv by (subst parent_trancl) simp
    then show "ensures (for_ancestors (AddDescendantToNotify y) (Some b) W)
      (\<lambda>W'. \<exists>s'. W' = W\<lparr>vw_views := s'\<rparr> \<and> lists_more (vw_views W) s' \<and> (\<forall>c. c = b \<or> (parent_of s)\<^sup>+\<^sup>+ b c \<longrightarrow> listed s' y c))"
      unfolding run ensures_Some using s1(2,3) by blast
  qed
next
  fix b v p u
  assume bv: "s b = Some v" "v_parent v = Some p" "s p = Some u" and up: "?P p"
  show "?P b"
  proof (intro allI impI)
    fix W :: view_world assume W: "same_core s (vw_views W)"
    obtain v0 where v0: "vw_views W b = Some v0" using same_coreD [OF W bv(1)] by blast
    obtain s1 where s1: "AddDescendantToNotify y b W = Some (W\<lparr>vw_views := s1\<rparr>)" "lists_more (vw_views W) s1" "listed s1 y b"
      using AddDescendant_ok [OF v0, of y] by (elim ensuresE) blast
    have c1: "same_core s s1" using same_core_trans [OF W] same_plain_core s1(2) by (auto simp: lists_more_def)
    then obtain v1 where v1: "s1 b = Some v1" "core v1 = core v" using same_coreD bv(1) by blast
    obtain s2 where s2: "for_ancestors (AddDescendantToNotify y) (Some p) (W\<lparr>vw_views := s1\<rparr>) = Some (W\<lparr>vw_views := s2\<rparr>)"
      "lists_more s1 s2" "\<forall>c. c = p \<or> (parent_of s)\<^sup>+\<^sup>+ p c \<longrightarrow> listed s2 y c"
      using up [rule_format, of "W\<lparr>vw_views := s1\<rparr>"] c1 by (auto elim!: ensuresE)
    have run: "for_ancestors (AddDescendantToNotify y) (Some b) W = Some (W\<lparr>vw_views := s2\<rparr>)"
      using s1(1) v1 core_fields(1) [OF v1(2)] bv(2) s2(1) by (subst for_ancestors.simps) simp
    have "listed s2 y c" if c: "c = b \<or> (parent_of s)\<^sup>+\<^sup>+ b c" for c
    proof (cases "c = b")
      case True
      then show ?thesis using s1(3) s2(2) by (simp add: lists_more_def)
    next
      case False
      then have "(parent_of s)\<^sup>+\<^sup>+ b c" using c by blast
      then have "c = p \<or> (parent_of s)\<^sup>+\<^sup>+ p c" using bv(1,2) by (subst (asm) parent_trancl) auto
      then show ?thesis using s2(3) by blast
    qed
    then show "ensures (for_ancestors (AddDescendantToNotify y) (Some b) W)
      (\<lambda>W'. \<exists>s'. W' = W\<lparr>vw_views := s'\<rparr> \<and> lists_more (vw_views W) s' \<and> (\<forall>c. c = b \<or> (parent_of s)\<^sup>+\<^sup>+ b c \<longrightarrow> listed s' y c))"
      unfolding run ensures_Some using lists_more_trans [OF s1(2) s2(2)] by blast
  qed
qed

end
