(* ===== verification/View_Insertion.thy ===== *)
theory View_Insertion
  imports View_Joining
begin

text \<open>
  What \<open>AddChildViewAt\<close> guarantees for a view that is the root of its tree: it returns, the hierarchy stays well formed
  with the tree at its place, and its views are known to the window.
\<close>

section \<open>Registration for visible bounds\<close>

definition registers :: "tree list \<Rightarrow> view_world \<Rightarrow> view_world \<Rightarrow> bool" where
  "registers F W W' \<longleftrightarrow> sound W' F \<and>
     (\<exists>s'. W' = W\<lparr>vw_views := s'\<rparr> \<and> same_plain (vw_views W) s' \<and> (\<forall>a. registered (vw_views W) a \<longrightarrow> registered s' a))"

lemma registers_refl: "sound W F \<Longrightarrow> registers F W W"
  unfolding registers_def by (intro conjI exI [of _ "vw_views W"]) (simp_all add: same_plain_def)

lemma registers_trans: "registers F U V \<Longrightarrow> registers F V W \<Longrightarrow> registers F U W"
proof -
  assume "registers F U V" "registers F V W"
  then obtain s t where "V = U\<lparr>vw_views := s\<rparr>" "same_plain (vw_views U) s" "\<forall>a. registered (vw_views U) a \<longrightarrow> registered s a"
    "W = U\<lparr>vw_views := t\<rparr>" "same_plain s t" "\<forall>a. registered s a \<longrightarrow> registered t a" "sound W F"
    by (auto simp: registers_def)
  then show ?thesis using same_plain_trans unfolding registers_def by blast
qed

lemma registersD:
  assumes "registers F W W'"
  shows "sound W' F" "same_plain (vw_views W) (vw_views W')" "registered (vw_views W) a \<Longrightarrow> registered (vw_views W') a"
    "W' = W\<lparr>vw_views := vw_views W'\<rparr>"
  using assms by (auto simp: registers_def)

lemma Register_bounds_ok:
  assumes s: "sound W F" and y: "vw_views W y = Some v" "v_NeedsNotification v" and w: "GetWidget (vw_views W) y \<noteq> Some None"
  shows "ensures (RegisterForVisibleBoundsNotification y W) (\<lambda>W'. registers F W W' \<and> registered (vw_views W') y)"
proof (cases "v_registered_for_visible_bounds v")
  case True
  then show ?thesis
    using y(1) registers_refl [OF s] by (simp add: RegisterForVisibleBoundsNotification_def registered_def)
next
  case False
  let ?s = "vw_views W"
  let ?flagged = "(vw_views W)(y \<mapsto> v\<lparr>v_registered_for_visible_bounds := True\<rparr>)"
  have g: "grove ?s F" using soundD(1) [OF s] .
  have p0: "same_plain ?s ?flagged" using y(1) by (simp add: same_plain_def)
  have c0: "same_core ?s ?flagged" using same_plain_core [OF p0] .
  have l0: "listed ?flagged a b = listed ?s a b" for a b using y(1) by (auto simp: listed_def)
  have r0: "registered ?flagged a \<longleftrightarrow> a = y \<or> registered ?s a" for a using y(1) by (auto simp: registered_def)
  have "ensures (for_ancestors (AddDescendantToNotify y) (v_parent v) (W\<lparr>vw_views := ?flagged\<rparr>))
      (\<lambda>W'. \<exists>s'. W' = W\<lparr>vw_views := s'\<rparr> \<and> lists_more ?flagged s' \<and> (\<forall>c. (parent_of ?s)\<^sup>+\<^sup>+ y c \<longrightarrow> listed s' y c))"
  proof (cases "v_parent v")
    case None
    have "\<not> (parent_of ?s)\<^sup>+\<^sup>+ y c" for c using y(1) None by (subst parent_trancl) simp
    moreover have "lists_more ?flagged ?flagged" by (simp add: lists_more_def same_plain_def)
    ultimately show ?thesis using None by (auto simp: for_ancestors.simps [of _ None] intro!: exI [of _ ?flagged])
  next
    case (Some q)
    obtain u where u: "?s q = Some u" using grove_parent [OF g y(1) Some] by blast
    have up: "c = q \<or> (parent_of ?s)\<^sup>+\<^sup>+ q c" if c: "(parent_of ?s)\<^sup>+\<^sup>+ y c" for c
    proof -
      obtain v' p where "?s y = Some v'" "v_parent v' = Some p" "p = c \<or> (parent_of ?s)\<^sup>+\<^sup>+ p c"
        using c unfolding parent_trancl [of ?s y c] by blast
      then show ?thesis using y(1) Some by auto
    qed
    have "ensures (for_ancestors (AddDescendantToNotify y) (Some q) (W\<lparr>vw_views := ?flagged\<rparr>))
      (\<lambda>W'. \<exists>s'. W' = W\<lparr>vw_views := ?flagged\<rparr>\<lparr>vw_views := s'\<rparr> \<and> lists_more (vw_views (W\<lparr>vw_views := ?flagged\<rparr>)) s' \<and>
        (\<forall>c. c = q \<or> (parent_of ?s)\<^sup>+\<^sup>+ q c \<longrightarrow> listed s' y c))"
      by (rule list_ok [OF g u, rule_format]) (use c0 in simp)
    then show ?thesis unfolding Some
    proof (rule ensures_mono)
      fix W' assume "\<exists>s'. W' = W\<lparr>vw_views := ?flagged\<rparr>\<lparr>vw_views := s'\<rparr> \<and> lists_more (vw_views (W\<lparr>vw_views := ?flagged\<rparr>)) s' \<and>
        (\<forall>c. c = q \<or> (parent_of ?s)\<^sup>+\<^sup>+ q c \<longrightarrow> listed s' y c)"
      then obtain s' where "W' = W\<lparr>vw_views := s'\<rparr>" "lists_more ?flagged s'" "\<forall>c. c = q \<or> (parent_of ?s)\<^sup>+\<^sup>+ q c \<longrightarrow> listed s' y c" by auto
      then show "\<exists>s'. W' = W\<lparr>vw_views := s'\<rparr> \<and> lists_more ?flagged s' \<and> (\<forall>c. (parent_of ?s)\<^sup>+\<^sup>+ y c \<longrightarrow> listed s' y c)" using up by blast
    qed
  qed
  then obtain s' where s': "for_ancestors (AddDescendantToNotify y) (v_parent v) (W\<lparr>vw_views := ?flagged\<rparr>) = Some (W\<lparr>vw_views := s'\<rparr>)"
    "lists_more ?flagged s'" "\<forall>c. (parent_of ?s)\<^sup>+\<^sup>+ y c \<longrightarrow> listed s' y c" by (auto elim!: ensuresE)
  have run: "RegisterForVisibleBoundsNotification y W = Some (W\<lparr>vw_views := s'\<rparr>)"
    using y(1) False s'(1) by (simp add: RegisterForVisibleBoundsNotification_def upd_view_def)
  have p: "same_plain ?s s'" using same_plain_trans [OF p0] s'(2) by (simp add: lists_more_def)
  have c: "same_core ?s s'" using same_plain_core [OF p] .
  have r: "registered s' a \<longleftrightarrow> a = y \<or> registered ?s a" for a using s'(2) r0 by (simp add: lists_more_def)
  have l: "listed s' a b" if "listed ?s a b" for a b using s'(2) l0 that by (simp add: lists_more_def)
  have "bounds_ok s'"
    unfolding bounds_ok_def
  proof (intro allI impI)
    fix a va assume va: "s' a = Some va" "v_registered_for_visible_bounds va"
    then have ra: "a = y \<or> registered ?s a" using r by (auto simp: registered_def)
    obtain v0 where v0: "?s a = Some v0" "core v0 = core va" using same_coreD [OF same_core_sym [OF c] va(1)] by blast
    have "v_NeedsNotification v0 \<and> GetWidget ?s a \<noteq> Some None \<and> (\<forall>b. (parent_of ?s)\<^sup>+\<^sup>+ a b \<longrightarrow> listed s' a b)"
    proof (cases "a = y")
      case True
      then show ?thesis using y w s'(3) v0(1) by simp
    next
      case False
      then have "v_registered_for_visible_bounds v0" using ra v0(1) by (auto simp: registered_def)
      then have "v_NeedsNotification v0 \<and> GetWidget ?s a \<noteq> Some None \<and> (\<forall>b. (parent_of ?s)\<^sup>+\<^sup>+ a b \<longrightarrow> listed ?s a b)"
        using soundD(3) [OF s] v0(1) unfolding bounds_ok_def by blast
      then show ?thesis using l by blast
    qed
    then show "v_NeedsNotification va \<and> GetWidget s' a \<noteq> Some None \<and> (\<forall>b. (parent_of s')\<^sup>+\<^sup>+ a b \<longrightarrow> listed s' a b)"
      using same_core_GetWidget [OF c g v0(1)] same_core_parent_of [OF c] core_fields(6) [OF v0(2)] by simp
  qed
  then have "sound (W\<lparr>vw_views := s'\<rparr>) F" by (rule sound_bounds [OF s p])
  then have "registers F W (W\<lparr>vw_views := s'\<rparr>)" using p r unfolding registers_def by (intro conjI exI [of _ s']) simp_all
  then show ?thesis using run r by simp
qed

lemma Register_children_ok:
  assumes g: "grove s F"
  shows "\<forall>t \<in> set ts. \<exists>q. ptree s q t \<Longrightarrow> \<forall>y \<in> set (concat (map preorder ts)). GetWidget s y \<noteq> Some None \<Longrightarrow>
    \<forall>W. sound W F \<longrightarrow> same_core s (vw_views W) \<longrightarrow>
    ensures (for_notified RegisterForVisibleBoundsNotification (map tr_addr ts) W)
      (\<lambda>W'. registers F W W' \<and>
        (\<forall>y \<in> set (concat (map preorder ts)). \<forall>v. s y = Some v \<longrightarrow> v_NeedsNotification v \<longrightarrow> registered (vw_views W') y))"
proof (induction "length (concat (map preorder ts))" arbitrary: ts rule: less_induct)
  case less
  let ?f = "for_notified RegisterForVisibleBoundsNotification"
  let ?done = "\<lambda>W ts. \<forall>y \<in> set (concat (map preorder ts)). \<forall>v. s y = Some v \<longrightarrow> v_NeedsNotification v \<longrightarrow> registered (vw_views W) y"
  show ?case
  proof (cases ts)
    case Nil
    then show ?thesis by (simp add: for_notified.simps registers_refl)
  next
    case (Cons t ts')
    obtain q where q: "ptree s q t" using less.prems(1) Cons by auto
    obtain v where v: "s (tr_addr t) = Some v" "v_children v = map tr_addr (tr_subs t)" using ptree_view [OF q] by auto
    have subs: "\<forall>u \<in> set (tr_subs t). \<exists>q. ptree s q u" using ptree_sub [OF q] by blast
    have all: "set (concat (map preorder ts)) = insert (tr_addr t) (set (concat (map preorder (tr_subs t))) \<union> set (concat (map preorder ts')))"
      using Cons by (simp add: preorder_subs [of t])
    have w: "GetWidget s (tr_addr t) \<noteq> Some None" "\<forall>y \<in> set (concat (map preorder (tr_subs t))). GetWidget s y \<noteq> Some None"
      "\<forall>y \<in> set (concat (map preorder ts')). GetWidget s y \<noteq> Some None"
      using less.prems(2) unfolding all by blast+
    show ?thesis
    proof (intro allI impI)
      fix W assume W: "sound W F" "same_core s (vw_views W)"
      obtain v0 where v0: "vw_views W (tr_addr t) = Some v0" "core v0 = core v" using same_coreD [OF W(2) v(1)] by blast
      have gw: "GetWidget (vw_views W) (tr_addr t) \<noteq> Some None" using same_core_GetWidget [OF W(2) g v(1)] w(1) by simp
      have "ensures (if v_NeedsNotification v0 then RegisterForVisibleBoundsNotification (tr_addr t) W else Some W)
          (\<lambda>W'. registers F W W' \<and> (v_NeedsNotification v \<longrightarrow> registered (vw_views W') (tr_addr t)))"
        using Register_bounds_ok [OF W(1) v0(1) _ gw] registers_refl [OF W(1)] core_fields(6) [OF v0(2)]
        by (cases "v_NeedsNotification v0") simp_all
      then obtain W1 where W1: "(if v_NeedsNotification v0 then RegisterForVisibleBoundsNotification (tr_addr t) W else Some W) = Some W1"
        "registers F W W1" "v_NeedsNotification v \<longrightarrow> registered (vw_views W1) (tr_addr t)" by (elim ensuresE) blast
      have c1: "same_core s (vw_views W1)" using same_core_trans [OF W(2) same_plain_core [OF registersD(2) [OF W1(2)]]] .
      obtain W2 where W2: "?f (map tr_addr (tr_subs t)) W1 = Some W2" "registers F W1 W2" "?done W2 (tr_subs t)"
        using less.hyps [of "tr_subs t", rule_format, OF _ subs [rule_format] w(2) [rule_format] registersD(1) [OF W1(2)] c1] Cons
        by (simp add: preorder_subs [of t], elim ensuresE) auto
      have c2: "same_core s (vw_views W2)" using same_core_trans [OF c1 same_plain_core [OF registersD(2) [OF W2(2)]]] .
      obtain W3 where W3: "?f (map tr_addr ts') W2 = Some W3" "registers F W2 W3" "?done W3 ts'"
        using less.hyps [of ts', rule_format, OF _ _ w(3) [rule_format] registersD(1) [OF W2(2)] c2] less.prems(1) Cons
        by (simp add: preorder_subs [of t], elim ensuresE) auto
      have "?f (map tr_addr ts) W = Some W3"
        using Cons v0(1) core_fields(2) [OF v0(2)] v(2) W1(1) W2(1) W3(1) by (subst for_notified.simps) simp
      moreover have "registers F W W3" by (rule registers_trans [OF W1(2) registers_trans [OF W2(2) W3(2)]])
      moreover have "?done W3 ts"
        unfolding all
      proof (intro ballI allI impI)
        fix y u assume y: "y \<in> insert (tr_addr t) (set (concat (map preorder (tr_subs t))) \<union> set (concat (map preorder ts')))"
          and u: "s y = Some u" "v_NeedsNotification u"
        have m12: "registered (vw_views W1) y \<Longrightarrow> registered (vw_views W2) y" using registersD(3) [OF W2(2)] .
        have m23: "registered (vw_views W2) y \<Longrightarrow> registered (vw_views W3) y" using registersD(3) [OF W3(2)] .
        show "registered (vw_views W3) y" using y u v(1) W1(3) W2(3) W3(3) m12 m23 by auto
      qed
      ultimately show "ensures (?f (map tr_addr ts) W) (\<lambda>W'. registers F W W' \<and> ?done W' ts)" by simp
    qed
  qed
qed

end
