(* ===== verification/View_Moving.thy ===== *)
theory View_Moving
  imports View_Insertion
begin

text \<open>
  What \<open>AddChildViewAt\<close> guarantees: it returns, the hierarchy stays well formed with the view at its place, and the views
  below it are known to the window. The view may be the root of a tree or the child of another view.
\<close>

section \<open>Adding a child\<close>

lemma subtree_upd:
  "u \<in> subtrees t \<Longrightarrow> distinct (preorder t) \<Longrightarrow>
   \<exists>u' \<in> subtrees (tree_upd (tr_addr u) f t). tr_addr u' = tr_addr u \<and> tr_subs u' = f (tr_subs u)"
proof (induction t)
  case (Node a ti ts)
  show ?case
  proof (cases "u = Node a ti ts")
    case True
    then show ?thesis by simp
  next
    case False
    then obtain c where c: "c \<in> set ts" "u \<in> subtrees c" using Node.prems(1) by auto
    have "tr_addr u \<in> set (preorder c)" using subtree_preorder [OF c(2)] addr_in_preorder by blast
    then have "a \<noteq> tr_addr u" using Node.prems(2) c(1) by auto
    moreover have "distinct (preorder c)" using Node.prems(2) c(1) by (auto simp: distinct_concat_iff)
    ultimately show ?thesis using Node.IH [OF c(1,2)] c(1) by auto
  qed
qed

lemma announced_registers:
  assumes r: "registers F W W'" and g: "grove (vw_views W) F" and a: "announced W y"
  shows "announced W' y"
  unfolding announced_def
proof (intro allI impI)
  fix v' as fm acc
  assume v': "vw_views W' y = Some v'" "v_accelerators v' = Some as" "GetFocusManager W' y = Some (Some fm)" "acc \<in> set as"
  obtain v where v: "vw_views W y = Some v" "plain_part v' = plain_part v" using same_plainD [OF registersD(2) [OF r] v'(1)] by blast
  obtain s' where s': "W' = W\<lparr>vw_views := s'\<rparr>" using r by (auto simp: registers_def)
  have "GetFocusManager W' y = GetFocusManager W y"
    using same_core_GetWidget [OF same_plain_core [OF registersD(2) [OF r]] g v(1)] s'
    by (simp add: GetFocusManager_def widget_GetFocusManager_def cong: option.case_cong)
  then show "\<exists>m. vw_managers W' fm = Some m \<and> y \<in> am_targets (fm_accelerator_manager m) acc"
    using a v'(2-4) v(1) plain_fields(1) [OF v(2)] s' unfolding announced_def by auto
qed

text \<open>The notifications and the registration that follow the change of the tree.\<close>

lemma joined_ok:
  assumes s: "sound W F" and p: "ptree (vw_views W) (Some p) r" and u: "vw_views W p = Some vu"
    and d: "distinct (preorder r)" and f: "\<forall>y \<in> set (preorder r). fresh W y" and wo: "GetWidget (vw_views W) p = Some wo"
  shows "ensures (do {
       W \<leftarrow> notify_ancestors False True p (tr_addr r) (Some p) W;
       W \<leftarrow> PropagateAddNotifications p (tr_addr r) (tr_addr r) W;
       widget \<leftarrow> GetWidget (vw_views W) p;
       if widget \<noteq> None then RegisterChildrenForVisibleBoundsNotification (tr_addr r) W else Some W })
    (\<lambda>W'. sound W' F \<and> same_core (vw_views W) (vw_views W') \<and>
       (\<forall>y \<in> set (preorder r). announced W' y \<and>
         (\<forall>v. wo \<noteq> None \<longrightarrow> vw_views W' y = Some v \<longrightarrow> v_NeedsNotification v \<longrightarrow> registered (vw_views W') y)))"
proof -
  let ?s = "vw_views W"
  have g: "grove ?s F" using soundD(1) [OF s] .
  obtain W1 where W1: "notify_ancestors False True p (tr_addr r) (Some p) W = Some W1" "sound W1 F" "told {} W W1"
    using notify_add_ok [OF g u u, rule_format, OF s same_core_refl, of "tr_addr r"] by (elim ensuresE) blast
  have f1: "\<forall>y \<in> set (concat (map preorder [r])). fresh W1 y" using f fresh_told [OF W1(3)] by auto
  have pr: "\<forall>t \<in> set [r]. \<exists>q. ptree ?s (Some q) t" using p by auto
  have d1: "distinct (concat (map preorder [r]))" using d by simp
  obtain W2 where W2: "PropagateAddNotifications p (tr_addr r) (tr_addr r) W1 = Some W2" "sound W2 F" "told (set (preorder r)) W1 W2"
    "\<forall>y \<in> set (preorder r). announced W2 y"
    using propagate_add_ok [OF g u pr d1, rule_format, OF W1(2) told_core [OF W1(3)] f1 [rule_format], of "tr_addr r"]
    by (auto simp: PropagateAddNotifications_def elim!: ensuresE)
  have c2: "same_core ?s (vw_views W2)" using same_core_trans [OF told_core [OF W1(3)] told_core [OF W2(3)]] .
  have g2: "grove (vw_views W2) F" using soundD(1) [OF W2(2)] .
  have w2: "GetWidget (vw_views W2) p = Some wo" using same_core_GetWidget [OF c2 g u] wo by simp
  have p2: "ptree (vw_views W2) (Some p) r" using same_core_ptree [OF c2 p] .
  show ?thesis
  proof (cases wo)
    case None
    then show ?thesis using W1(1) W2 w2 c2 by simp
  next
    case (Some w)
    have pr2: "\<forall>t \<in> set [r]. \<exists>q. ptree (vw_views W2) q t" using p2 by auto
    have w: "\<forall>y \<in> set (concat (map preorder [r])). GetWidget (vw_views W2) y \<noteq> Some None"
      using GetWidget_below [OF g2 p2] w2 Some by simp
    obtain W3 where W3: "RegisterChildrenForVisibleBoundsNotification (tr_addr r) W2 = Some W3" "registers F W2 W3"
      "\<forall>y \<in> set (preorder r). \<forall>v. vw_views W2 y = Some v \<longrightarrow> v_NeedsNotification v \<longrightarrow> registered (vw_views W3) y"
      using Register_children_ok [OF g2 pr2 w, rule_format, OF W2(2) same_core_refl]
      by (auto simp: RegisterChildrenForVisibleBoundsNotification_def elim!: ensuresE)
    have c3: "same_core (vw_views W2) (vw_views W3)" using same_plain_core [OF registersD(2) [OF W3(2)]] .
    have "registered (vw_views W3) y" if y: "y \<in> set (preorder r)" "vw_views W3 y = Some v" "v_NeedsNotification v" for y v
    proof -
      obtain v2 where v2: "vw_views W2 y = Some v2" "core v2 = core v" using same_coreD [OF same_core_sym [OF c3] y(2)] by blast
      then show ?thesis using W3(3) y(1,3) core_fields(6) [OF v2(2)] by blast
    qed
    moreover have "announced W3 y" if "y \<in> set (preorder r)" for y
      using announced_registers [OF W3(2) g2] W2(4) that by blast
    ultimately show ?thesis
      using W1(1) W2(1) w2 Some W3(1) registersD(1) [OF W3(2)] same_core_trans [OF c2 c3] by simp
  qed
qed

definition placed :: "nat \<Rightarrow> nat \<Rightarrow> nat \<Rightarrow> view_store \<Rightarrow> view_store \<Rightarrow> bool" where
  "placed p i c s s' \<longleftrightarrow>
     map_option v_parent (s' c) = Some (Some p) \<and>
     map_option v_children (s' p) = map_option (\<lambda>v. list_insert_at i c (v_children v)) (s p)"

lemma same_core_placed: "same_core t t' \<Longrightarrow> placed p i c s t \<Longrightarrow> placed p i c s t'"
proof -
  assume sc: "same_core t t'" and pl: "placed p i c s t"
  have eq: "map_option f (t' a) = map_option f (t a)" if f: "\<And>u v. core u = core v \<Longrightarrow> f u = f v" for f a
  proof (cases "t a")
    case None
    then show ?thesis using same_core_dom [OF sc] by (metis domIff)
  next
    case (Some v)
    then obtain v' where v': "t' a = Some v'" "core v' = core v" using same_coreD [OF sc] by blast
    then show ?thesis using Some f [OF v'(2)] by simp
  qed
  show ?thesis using pl eq [of v_parent, OF core_fields(1)] eq [of v_children, OF core_fields(2)] by (simp add: placed_def)
qed

lemma AddChildViewAt_ok:
  assumes h: "hierarchy W F" and t: "t \<in> set F" "r \<in> set F" "r \<noteq> t" and u: "u \<in> subtrees t" and i: "i \<le> length (tr_subs u)"
    and r: "vw_views W (tr_addr r) = Some vr" "v_root_of vr = None"
  shows "ensures (AddChildViewAt (tr_addr u) (tr_addr r) (int i) W) (\<lambda>W'. hierarchy W' (forest_with F t u i r) \<and>
    placed (tr_addr u) i (tr_addr r) (vw_views W) (vw_views W') \<and>
    (\<forall>y \<in> set (preorder r). GetWidget (vw_views W') y = GetWidget (vw_views W) (tr_addr u) \<and> announced W' y \<and>
      (\<forall>v. GetWidget (vw_views W') y \<noteq> Some None \<longrightarrow> vw_views W' y = Some v \<longrightarrow> v_NeedsNotification v \<longrightarrow> registered (vw_views W') y)))"
proof -
  let ?s = "vw_views W" and ?p = "tr_addr u" and ?r = "tr_addr r" and ?F = "forest_with F t u i r"
  let ?cs = "map tr_addr (tr_subs u)"
  have s: "sound W F" and v: "\<forall>t \<in> set F. vtree ?s None t" using h by (auto simp: hierarchy_def)
  have g: "grove ?s F" using soundD(1) [OF s] .
  have dt: "distinct (preorder t)" "distinct (preorder r)" using g t by (auto simp: grove_def distinct_concat_iff)
  have du: "distinct (preorder u)" using subtree_distinct [OF u dt(1)] .
  obtain q where q: "vtree ?s q u" using subtree_vtree [OF u] v t(1) by blast
  obtain vu where vu: "?s ?p = Some vu" "v_children vu = ?cs" using vtree_view [OF q] by auto
  have dis: "set (preorder t) \<inter> set (preorder r) = {}" using grove_disjoint [OF g t] .
  have ut: "set (preorder u) \<subseteq> set (preorder t)" using subtree_preorder [OF u] .
  have pr: "?p \<notin> set (preorder r)" using dis ut addr_in_preorder [of u] by blast
  have rt: "?r \<notin> set (preorder t)" using dis addr_in_preorder [of r] by blast
  have rc: "?r \<notin> set ?cs"
  proof
    assume "?r \<in> set ?cs"
    then obtain d where "d \<in> set (tr_subs u)" "?r = tr_addr d" by auto
    then have "?r \<in> set (preorder u)" using sub_parts(1) [OF du] addr_in_preorder by (metis subsetD)
    then show False using rt ut by blast
  qed
  have ch: "chain ?s None ?cs None" using q by (cases u) (simp add: linked_chain)
  have dc: "distinct ?cs" using du by (cases u) (simp add: distinct_addrs)
  obtain s1 where s1: "InitFocusSiblings ?p ?r i W = Some (W\<lparr>vw_views := s1\<rparr>)" "same_linkless ?s s1"
    "chain s1 None (list_insert_at i ?r ?cs) None" "\<And>a. a \<notin> insert ?r (tr_addr ` set (tr_subs u)) \<Longrightarrow> s1 a = ?s a"
    using InitFocusSiblings_ok [OF vu r(1) rc ch dc] i by (auto simp: siblings_linked_def elim!: ensuresE)
  have snd1: "sound (W\<lparr>vw_views := s1\<rparr>) F" by (rule sound_links [OF s s1(2)])
  have g1: "grove s1 F" using soundD(1) [OF snd1] by simp
  obtain vr1 where vr1: "s1 ?r = Some vr1" "v_root_of vr1 = None"
    using same_linklessD [OF s1(2) r(1)] linkless_fields(3) r(2) by metis
  obtain vu1 where vu1: "s1 ?p = Some vu1" using same_linklessD [OF s1(2) vu(1)] by blast
  let ?s2 = "attach ?p i ?r s1"
  let ?W2 = "W\<lparr>vw_views := ?s2\<rparr>"
  have vt: "\<forall>x \<in> set ?F. vtree ?s2 None x" by (rule attach_vtree [OF g v t u s1(2,3,4)])
  have g2: "grove ?s2 ?F" by (rule attach_grove [OF g1 vt forest_with_mset [OF t dt(1) u] vr1])
  have snd2: "sound ?W2 ?F" using attach_sound [OF snd1 t(2), of vr1 ?p i ?F] vr1 g2 by simp
  obtain u' where u': "u' \<in> subtrees (tree_upd ?p (list_insert_at i r) t)" "tr_addr u' = ?p" "tr_subs u' = list_insert_at i r (tr_subs u)"
    using subtree_upd [OF u dt(1)] by blast
  have "vtree ?s2 None (tree_upd ?p (list_insert_at i r) t)" using vt by (simp add: forest_with_def)
  then obtain q' where q': "vtree ?s2 q' u'" using subtree_vtree [OF u'(1)] by blast
  have "vtree ?s2 (Some ?p) r" using vtree_sub [OF q', of r] u'(2,3) by simp
  then have p2: "ptree ?s2 (Some ?p) r" by (rule vtree_ptree)
  obtain vu2 where vu2: "?s2 ?p = Some vu2" using attach_forth [where s = s1 and this = ?p and i = i and view = ?r, OF vu1] by blast
  have fr: "fresh ?W2 y" if y: "y \<in> set (preorder r)" for y
  proof -
    have "v_registered_accelerator_count v2 = 0" if v2: "?s2 y = Some v2" for v2
    proof -
      obtain v1 where v1: "s1 y = Some v1" "unparented v2 = unparented v1" using attach_back [OF v2] by blast
      have "GetWidget s1 y = Some None" by (rule GetWidget_alone [OF g1 t(2) y vr1])
      then have "v_registered_accelerator_count v1 = 0" using alone_quiet(3) [OF snd1, of y v1] v1(1) by simp
      then show ?thesis using unparented_fields(6) [OF v1(2)] by simp
    qed
    then show ?thesis by (simp add: fresh_def)
  qed
  have w2: "GetWidget ?s2 ?p = GetWidget ?s ?p"
    using attach_outside [OF g1 t(2) vu1 pr] same_linkless_GetWidget [OF s1(2) g vu(1)] by simp
  obtain wo where wo: "GetWidget ?s ?p = Some wo" using GetWidget_total [OF g vu(1)] by blast
  let ?run = "\<lambda>W. do {
       W \<leftarrow> notify_ancestors False True ?p ?r (Some ?p) W;
       W \<leftarrow> PropagateAddNotifications ?p ?r ?r W;
       widget \<leftarrow> GetWidget (vw_views W) ?p;
       if widget \<noteq> None then RegisterChildrenForVisibleBoundsNotification ?r W else Some W }"
  obtain W' where W': "?run ?W2 = Some W'" "sound W' ?F" "same_core ?s2 (vw_views W')"
    "\<And>y. y \<in> set (preorder r) \<Longrightarrow> announced W' y"
    "\<And>y v. y \<in> set (preorder r) \<Longrightarrow> wo \<noteq> None \<Longrightarrow> vw_views W' y = Some v \<Longrightarrow> v_NeedsNotification v \<Longrightarrow> registered (vw_views W') y"
    using joined_ok [OF snd2, of ?p r vu2 wo] p2 vu2 dt(2) fr w2 wo by (simp, elim ensuresE) blast
  have vrn: "v_parent vr = None" using vtree_view v t(2) r(1) by fastforce
  have run: "AddChildViewAt ?p ?r (int i) W = Some W'"
  proof -
    have "?r \<noteq> ?p" using pr addr_in_preorder [of r] by metis
    then have "AddChildViewAt ?p ?r (int i) W = ?run ?W2"
      using r(1) vrn vu i s1(1)
      by (auto simp: AddChildViewAt_def upd_view_store attach_def Let_def)
    then show ?thesis using W'(1) by simp
  qed
  have "GetWidget (vw_views W') y = GetWidget ?s ?p" if y: "y \<in> set (preorder r)" for y
  proof -
    have "ptree (vw_views W') (Some ?p) r" using same_core_ptree [OF W'(3) p2] .
    then have "GetWidget (vw_views W') y = GetWidget (vw_views W') ?p" by (rule GetWidget_below [OF soundD(1) [OF W'(2)] _ y])
    then show ?thesis using same_core_GetWidget [OF W'(3) g2 vu2] w2 by simp
  qed
  moreover have "hierarchy W' ?F" using W'(2) vt same_core_vtree [OF W'(3)] by (simp add: hierarchy_def)
  moreover have "placed ?p i ?r ?s (vw_views W')"
  proof (rule same_core_placed [OF W'(3)])
    have "?p \<noteq> ?r" using pr addr_in_preorder [of r] by metis
    moreover have "v_children vu1 = v_children vu"
    proof -
      obtain x where x: "s1 ?p = Some x" "linkless x = linkless vu" using same_linklessD [OF s1(2) vu(1)] by blast
      then show ?thesis using vu1 linkless_fields(2) [OF x(2)] by simp
    qed
    ultimately show "placed ?p i ?r ?s ?s2" using vu vu1 vr1 by (simp add: placed_def attach_def)
  qed
  ultimately show ?thesis using run W'(4,5) wo by simp
qed

section \<open>Moving a view\<close>

lemma subtree_parent: "r \<in> subtrees t \<Longrightarrow> r = t \<or> (\<exists>u \<in> subtrees t. r \<in> set (tr_subs u))"
proof (induction t)
  case (Node a ti ts)
  show ?case
  proof (cases "r = Node a ti ts")
    case False
    then obtain c where c: "c \<in> set ts" "r \<in> subtrees c" using Node.prems by auto
    from Node.IH [OF c] show ?thesis
    proof
      assume "r = c"
      then have "r \<in> set (tr_subs (Node a ti ts))" using c(1) by simp
      then show ?thesis using subtrees_refl by blast
    next
      assume "\<exists>u \<in> subtrees c. r \<in> set (tr_subs u)"
      then show ?thesis using c(1) by auto
    qed
  qed simp
qed

lemma AddChildViewAt_moves:
  assumes "vw_views W c = Some v" and "v_parent v = Some q" and "q \<noteq> p" and "c \<noteq> p" and "RemoveChildView q c W = Some W1"
    and "vw_views W1 c = Some v1" and "v_parent v1 = None"
  shows "AddChildViewAt p c i W = AddChildViewAt p c i W1"
  using assms by (simp add: AddChildViewAt_def)

text \<open>The views of the tree \<open>r\<close> are part of what the view \<open>p\<close> was part of before.\<close>

definition joined :: "view_world \<Rightarrow> nat \<Rightarrow> tree \<Rightarrow> view_world \<Rightarrow> bool" where
  "joined W p r W' \<longleftrightarrow>
     (\<forall>y \<in> set (preorder r). GetWidget (vw_views W') y = GetWidget (vw_views W) p \<and> announced W' y \<and>
        (\<forall>v. GetWidget (vw_views W') y \<noteq> Some None \<longrightarrow> vw_views W' y = Some v \<longrightarrow> v_NeedsNotification v \<longrightarrow>
          registered (vw_views W') y))"

lemma taken_out_GetWidget:
  assumes t: "taken_out q (tr_addr c) s s'" and g: "grove s F" and g': "grove s' F'" and c: "c \<in> set F'" and a: "s a = Some v"
  shows "a \<notin> set (preorder c) \<longrightarrow> GetWidget s' a = GetWidget s a"
proof (rule grove_up [OF g a])
  show "x \<notin> set (preorder c) \<longrightarrow> GetWidget s' x = GetWidget s x" if v: "s x = Some v" "v_parent v = None" for x v
  proof -
    obtain v' where "s' x = Some v'" "v_root_of v' = v_root_of v" "v_parent v' = None"
      using t v unfolding taken_out_def by (metis (full_types))
    then show ?thesis using v by (simp add: GetWidget.simps [of _ x] split: option.split)
  qed
  show "x \<notin> set (preorder c) \<longrightarrow> GetWidget s' x = GetWidget s x"
    if v: "s x = Some v" "v_parent v = Some b" "b \<notin> set (preorder c) \<longrightarrow> GetWidget s' b = GetWidget s b" for x v b
  proof
    assume x: "x \<notin> set (preorder c)"
    then have "x \<noteq> tr_addr c" using addr_in_preorder by metis
    then obtain v' where v': "s' x = Some v'" "v_root_of v' = v_root_of v" "v_parent v' = Some b"
      using t v(1,2) unfolding taken_out_def by metis
    then have "b \<notin> set (preorder c)" using parent_inside [OF g' c, of x b] x by (auto simp: parent_of_def)
    then show "GetWidget s' x = GetWidget s x" using v v' by (simp add: GetWidget.simps [of _ x] split: option.split)
  qed
qed

lemma AddChildViewAt_root:
  assumes h: "hierarchy W F" and p: "vw_views W p = Some vp" "i \<le> length (v_children vp)"
    and r: "r \<in> set F" "p \<notin> set (preorder r)" "vw_views W (tr_addr r) = Some vr" "v_root_of vr = None"
  shows "ensures (AddChildViewAt p (tr_addr r) (int i) W)
    (\<lambda>W'. (\<exists>F'. hierarchy W' F') \<and> placed p i (tr_addr r) (vw_views W) (vw_views W') \<and> joined W p r W')"
proof -
  have s: "sound W F" using h by (simp add: hierarchy_def)
  obtain t where t: "t \<in> set F" "p \<in> set (preorder t)" using grove_tree [OF soundD(1) [OF s] p(1)] by blast
  obtain u where u: "u \<in> subtrees t" "tr_addr u = p" using subtree_at [OF t(2)] by blast
  have "vtree (vw_views W) None t" using h t(1) by (simp add: hierarchy_def)
  then obtain q where q: "vtree (vw_views W) q u" using subtree_vtree [OF u(1)] by blast
  have i: "i \<le> length (tr_subs u)" using vtree_view [OF q] p u(2) by auto
  have rt: "r \<noteq> t" using r(2) t(2) by blast
  show ?thesis
    using AddChildViewAt_ok [OF h t(1) r(1) rt u(1) i r(3,4)] unfolding u(2)
    by (rule ensures_mono) (auto simp: joined_def)
qed

lemma AddChildViewAt_any:
  assumes h: "hierarchy W F" and p: "vw_views W p = Some vp" "i \<le> length (v_children vp)"
    and t: "t \<in> set F" and r: "r \<in> subtrees t" "p \<notin> set (preorder r)"
    and vr: "vw_views W (tr_addr r) = Some vr" "v_root_of vr = None" "v_parent vr \<noteq> Some p"
  shows "ensures (AddChildViewAt p (tr_addr r) (int i) W)
    (\<lambda>W'. (\<exists>F'. hierarchy W' F') \<and> placed p i (tr_addr r) (vw_views W) (vw_views W') \<and> joined W p r W')"
proof (cases "r = t")
  case True
  then show ?thesis using AddChildViewAt_root [OF h p _ r(2) vr(1,2)] t by simp
next
  case False
  then obtain u where u: "u \<in> subtrees t" "r \<in> set (tr_subs u)" using subtree_parent [OF r(1)] by blast
  have s: "sound W F" and vt: "vtree (vw_views W) None t" using h t by (auto simp: hierarchy_def)
  obtain q where q: "vtree (vw_views W) q u" using subtree_vtree [OF u(1) vt] by blast
  have par: "v_parent vr = Some (tr_addr u)" using vtree_view [OF vtree_sub [OF q u(2)]] vr(1) by auto
  then have ne: "tr_addr u \<noteq> p" using vr(3) by auto
  have ne': "tr_addr r \<noteq> p" using r(2) addr_in_preorder [of r] by metis
  let ?F = "forest_without F t u r"
  obtain W1 where W1: "RemoveChildView (tr_addr u) (tr_addr r) W = Some W1" "hierarchy W1 ?F"
    "taken_out (tr_addr u) (tr_addr r) (vw_views W) (vw_views W1)"
    using RemoveChildView_ok [OF h t u] by (elim ensuresE) blast
  obtain vr1 where vr1: "vw_views W1 (tr_addr r) = Some vr1" "v_root_of vr1 = None" "v_parent vr1 = None"
    using W1(3) vr(1,2) unfolding taken_out_def by metis
  obtain vp1 where vp1: "vw_views W1 p = Some vp1" "v_children vp1 = v_children vp"
    using W1(3) p(1) ne unfolding taken_out_def by metis
  have run: "AddChildViewAt p (tr_addr r) (int i) W = AddChildViewAt p (tr_addr r) (int i) W1"
    by (rule AddChildViewAt_moves [OF vr(1) par ne ne' W1(1) vr1(1,3)])
  have rF: "r \<in> set ?F" by (simp add: forest_without_def)
  have "sound W1 ?F" using W1(2) by (simp add: hierarchy_def)
  then have g1: "grove (vw_views W1) ?F" by (rule soundD(1))
  have w: "GetWidget (vw_views W1) p = GetWidget (vw_views W) p"
    using taken_out_GetWidget [OF W1(3) soundD(1) [OF s] g1 rF p(1)] r(2) by simp
  have i1: "i \<le> length (v_children vp1)" using p(2) vp1(2) by simp
  show ?thesis
    unfolding run using AddChildViewAt_root [OF W1(2) vp1(1) i1 rF r(2) vr1(1,2)]
    by (rule ensures_mono) (use w p(1) vp1 in \<open>auto simp: placed_def joined_def\<close>)
qed

section \<open>What adding guarantees\<close>

text \<open>(C8) Adding a view that is not a root view to a view that is not below it and not its parent already returns, also
  when the view is taken from another parent. The hierarchy stays well formed, the view is the child at the given index,
  and for the view and everything below it: its widget is the one of the new parent, all its accelerators lead to it in
  the focus manager of the window, and it is registered for visible bounds if it asks for that in a window.\<close>

theorem AddChildViewAt_joins:
  assumes "hierarchy W F" and "vw_views W p = Some vp" and "i \<le> length (v_children vp)"
    and "t \<in> set F" and "r \<in> subtrees t" and "p \<notin> set (preorder r)"
    and "vw_views W (tr_addr r) = Some vr" and "v_root_of vr = None" and "v_parent vr \<noteq> Some p"
  shows "\<exists>W' F'. AddChildViewAt p (tr_addr r) (int i) W = Some W' \<and> hierarchy W' F' \<and>
    placed p i (tr_addr r) (vw_views W) (vw_views W') \<and> joined W p r W'"
  using AddChildViewAt_any [OF assms] by (elim ensuresE) blast

text \<open>The view 3 is moved from the view 1 to the root view, between 1 and 2.\<close>

theorem AddChildViewAt_joins_witness:
  "\<exists>W'. AddChildViewAt 0 3 1 demo_world = Some W' \<and> map_option v_children (vw_views W' 0) = Some [1, 3, 2]"
proof -
  have v: "vw_views demo_world 0 = Some ((demo_view None [1, 2] None None False)\<lparr>v_root_of := Some 0\<rparr>)"
    "vw_views demo_world 3 = Some (demo_view (Some 1) [] None None True)"
    by (simp_all add: demo_world_def)
  obtain W' where "AddChildViewAt 0 3 1 demo_world = Some W'" "placed 0 1 3 (vw_views demo_world) (vw_views W')"
    using AddChildViewAt_joins [OF demo_hierarchy v(1), of 1 demo_tree "Node 3 [] []"] v
    by (auto simp: demo_tree_def demo_view_def mk_View_def)
  then show ?thesis using v(1) by (auto simp: placed_def demo_view_def mk_View_def list_insert_at_def)
qed

section \<open>Sequences of changes\<close>

text \<open>When \<open>AddChildViewAt\<close> may be called: what the code requires of its arguments, but for a view that is a child
  already, which is reordered.\<close>

definition may_add :: "view_world \<Rightarrow> nat \<Rightarrow> nat \<Rightarrow> int \<Rightarrow> bool" where
  "may_add W p c i \<longleftrightarrow>
     (\<exists>vp vc. vw_views W p = Some vp \<and> vw_views W c = Some vc \<and> 0 \<le> i \<and> i \<le> int (length (v_children vp)) \<and>
        view_Contains (vw_views W) c (Some p) \<noteq> Some True \<and> v_root_of vc = None \<and> v_parent vc \<noteq> Some p)"

inductive view_edits :: "view_world \<Rightarrow> view_world \<Rightarrow> bool" where
  none: "view_edits W W"
| add: "view_edits W0 W \<Longrightarrow> may_add W p c i \<Longrightarrow> AddChildViewAt p c i W = Some W' \<Longrightarrow> view_edits W0 W'"
| remove: "view_edits W0 W \<Longrightarrow> RemoveChildView p c W = Some W' \<Longrightarrow> view_edits W0 W'"

lemma may_add_ok:
  assumes h: "hierarchy W F" and m: "may_add W p c i"
  shows "ensures (AddChildViewAt p c i W) (\<lambda>W'. \<exists>F'. hierarchy W' F')"
proof -
  obtain vp vc where v: "vw_views W p = Some vp" "vw_views W c = Some vc" "0 \<le> i" "i \<le> int (length (v_children vp))"
    "view_Contains (vw_views W) c (Some p) \<noteq> Some True" "v_root_of vc = None" "v_parent vc \<noteq> Some p"
    using m unfolding may_add_def by blast
  obtain n where n: "i = int n" using v(3) nonneg_int_cases by blast
  have g: "grove (vw_views W) F" using h soundD(1) by (auto simp: hierarchy_def)
  obtain t where t: "t \<in> set F" "c \<in> set (preorder t)" using grove_tree [OF g v(2)] by blast
  obtain r where r: "r \<in> subtrees t" "tr_addr r = c" using subtree_at [OF t(2)] by blast
  have "vtree (vw_views W) None t" using h t(1) by (simp add: hierarchy_def)
  then obtain q where "vtree (vw_views W) q r" using subtree_vtree [OF r(1)] by blast
  then have "p \<notin> set (preorder r)" using Contains_root [of "vw_views W" q r p] r(2) v(5) by blast
  then have "ensures (AddChildViewAt p (tr_addr r) (int n) W)
      (\<lambda>W'. (\<exists>F'. hierarchy W' F') \<and> placed p n (tr_addr r) (vw_views W) (vw_views W') \<and> joined W p r W')"
    using v(2,4) r(2) n by (intro AddChildViewAt_any [OF h v(1) _ t(1) r(1) _ _ v(6,7)]) simp_all
  then show ?thesis using r(2) n by (auto elim!: ensures_mono)
qed

lemma may_remove_ok:
  assumes h: "hierarchy W F" and p: "vw_views W p = Some vp" and c: "vw_views W c \<noteq> None"
  shows "ensures (RemoveChildView p c W) (\<lambda>W'. \<exists>F'. hierarchy W' F')"
proof (cases "c \<in> set (v_children vp)")
  case False
  then show ?thesis using h p by (auto simp: RemoveChildView_def DoRemoveChildView_def)
next
  case True
  have g: "grove (vw_views W) F" using h soundD(1) by (auto simp: hierarchy_def)
  obtain t where t: "t \<in> set F" "p \<in> set (preorder t)" using grove_tree [OF g p] by blast
  obtain u where u: "u \<in> subtrees t" "tr_addr u = p" using subtree_at [OF t(2)] by blast
  have "vtree (vw_views W) None t" using h t(1) by (simp add: hierarchy_def)
  then obtain q where "vtree (vw_views W) q u" using subtree_vtree [OF u(1)] by blast
  then have "c \<in> tr_addr ` set (tr_subs u)" using vtree_view u(2) p True by fastforce
  then obtain d where d: "d \<in> set (tr_subs u)" "tr_addr d = c" by blast
  show ?thesis using RemoveChildView_ok [OF h t(1) u(1) d(1)] u(2) d(2) by (auto elim!: ensures_mono)
qed

lemma view_edits_hierarchy: "view_edits W0 W \<Longrightarrow> \<exists>F. hierarchy W0 F \<Longrightarrow> \<exists>F. hierarchy W F"
proof (induction rule: view_edits.induct)
  case (add W0 W p c i W')
  then obtain F where "hierarchy W F" by blast
  then show ?case using may_add_ok [OF _ add.hyps(2)] add.hyps(3) by fastforce
next
  case (remove W0 W p c W')
  then obtain F where F: "hierarchy W F" by blast
  show ?case
  proof (cases "vw_views W p")
    case None
    then show ?thesis using remove.hyps(2) by (simp add: RemoveChildView_def DoRemoveChildView_def)
  next
    case (Some vp)
    show ?thesis
    proof (cases "vw_views W c")
      case None
      then show ?thesis using remove.hyps(2) Some F by (auto simp: RemoveChildView_def DoRemoveChildView_def split: if_splits)
    next
      case (Some vc)
      then show ?thesis using may_remove_ok [OF F \<open>vw_views W p = Some vp\<close>] remove.hyps(2) by fastforce
    qed
  qed
qed simp



end
