(* ===== verification/Spec2Isabelle.thy ===== *)
theory Spec2Isabelle
  imports Textfield_Guarantees Accelerators Gesture_Dispatch Tree_Nodes Pickle_Guarantees Layer_Guarantees Json_Roundtrip Json_Limits Json_Types Focus_Traversal
    View_Moving
begin

text \<open>
  \<^bold>\<open>The program.\<close> The repository is the user interface toolkit of Chromium (\<open>src/ui\<close>) with the support
  library it is built on (\<open>src/base\<close>). Input events come in from the platform, are routed to a consumer
  (a window or a view), turned into gestures or accelerators, and change models: the text and selection of
  a text field, the tree behind a tree view. The views of a window form a tree; a focus manager for each window holds the view
  that gets the keys and moves it along the tree. Properties of layers (bounds, opacity, transform) change through
  an animator that plays queues of animation sequences. The support library converts text between encodings and
  numbers, and reads and writes JSON values. The platform parts (windows, painting, fonts, GPU) are thin
  layers over other systems; the logic is in the models, the animator and the input handling, and those are what
  this development translates.

  \<^bold>\<open>Conventions.\<close> A class is a \<open>record\<close> of its fields, a method a function that takes the record last and
  returns it updated. A result of \<open>None\<close> is a run that C++ does not define or that stops the program: a null
  pointer that is dereferenced, an index outside a vector or string, an exception of the standard library,
  a failed \<open>CHECK\<close>. \<open>DCHECK\<close> is compiled out in release builds; where the code after it is undefined without
  it the model is \<open>None\<close> there too. \<open>int\<close> is a mathematical integer where the code stays in range and
  \<open>wrap32\<close> is written out where it converts; \<open>size_t\<close> is a natural number below \<open>size_t_max\<close>, or wraps
  where the code subtracts. \<open>string16\<close> is a list of 16-bit words. \<open>float\<close> is a type
  parameter whose machine operations are the fields of a record \<open>farith\<close> (\<open>Floating\<close>); \<open>double\<close> of the JSON values is
  a parameter with the operations of \<open>double_ops\<close>, which include \<open>strtod\<close> and \<open>g_fmt\<close> of the vendored \<open>dmg_fp\<close>. A \<open>std::map\<close> is a
  red-black tree (\<open>Std_Map\<close>). Pointers that are shared and mutated are addresses into an explicit store
  (\<open>Tree_Nodes\<close>, \<open>View_Tree\<close>); a virtual method that subclasses override is a field of the object that has it.

  \<^bold>\<open>Theories, sources and results.\<close>

  \<^item> \<open>UI_Prelude\<close>: integers, lists, the option monad, and the locale \<open>key_order\<close> that every
    \<open>operator<\<close> used as the order of a map has to satisfy. \<open>Std_Map\<close>: the operations of \<open>std::map\<close>.

  \<^item> \<open>Geometry\<close>: \<open>point_base.h\<close>, \<open>size_base_impl.h\<close>, \<open>insets.h\<close>, \<open>rect_base_impl.h\<close> under \<open>src/ui/gfx\<close>.
    Intersect, Union, Subtract, AdjustToFit and SplitVertically are characterised by the points they
    contain.

  \<^item> \<open>Text_Range\<close> (\<open>base/range\<close>), \<open>Utf16_Indexing\<close> (\<open>base/text\<close>), \<open>Style_Ranges\<close> and \<open>Render_Text\<close>
    (\<open>gfx/render_text.cc\<close>, \<open>selection_model.cc\<close>): the text shown by a field, with selection, composition
    and style ranges. The fonts and the platform layout are a parameter (\<open>text_layout\<close>). Offsets and
    indices are inverse to each other; a style is applied to exactly its range; the locale \<open>text_buffer\<close>
    states what the text field relies on and is interpreted on RenderText.

  \<^item> \<open>Edit_History\<close>, \<open>Textfield_Model\<close>, \<open>Textfield_Guarantees\<close> (\<open>textfield_views_model.cc\<close>): every editing
    command, the list of edits with its merging, undo and redo. The locale \<open>undo_log\<close> derives undo and redo
    of whole histories from the laws of a single edit, \<open>merging_log\<close> adds merging; both are interpreted on
    the edits of the code. For every sequence of commands: the invariant, that no command stops, that undoing
    everything restores the original text, and what each command does to the text and cursor.

  \<^item> \<open>Events\<close>, \<open>Accelerators\<close> (\<open>base/accelerators\<close>): the manager as a map from accelerators to handler lists
    refines a list of registrations; a key goes to the first handler that takes it.

  \<^item> \<open>Gesture_Point\<close>, \<open>Gesture_Sequence\<close>, \<open>Gesture_Events\<close>, \<open>Gesture_Invariant\<close>, \<open>Gesture_Guarantees\<close>
    (\<open>gesture_point.cc\<close>, \<open>velocity_calculator.cc\<close>, \<open>gesture_sequence.cc\<close>): the state machine from touches to
    gestures. For every run: ids of fingers are contiguous, the state fits the number of fingers, no lookup
    of a finger fails, and begin and end gestures balance.

  \<^item> \<open>Gesture_Recognizer\<close>, \<open>Gesture_Dispatch\<close> (\<open>gesture_recognizer_impl.cc\<close>): the queues of touches that
    await an answer, the targets of fingers, touch capture, one gesture sequence for each consumer. For every
    interleaving of the calls, each sequence is in a state reached by its own touches in order.

  \<^item> \<open>Tree_Nodes\<close> (\<open>base/models/tree_node_model.h\<close>, \<open>tree_node_iterator.h\<close>): nodes with parent and child
    pointers in a store refine an abstract tree; the iterator returns the nodes in pre-order and ends.

  \<^item> \<open>View_Tree\<close> (\<open>src/ui/views/view.cc\<close>, and what \<open>widget.cc\<close>, \<open>root_view.cc\<close> and \<open>view_storage.cc\<close> do when
    a view leaves), \<open>Focus_Search\<close> (\<open>focus/focus_search.cc\<close>), \<open>Focus_Manager\<close> (\<open>focus/focus_manager.cc\<close>): views,
    widgets, focus traversables, focus managers and the view storage are addresses into the store \<open>view_world\<close>. The
    functions that follow parents, children and focus links are partial functions. \<open>View_Order\<close> relates the links to
    an abstract tree (\<open>window\<close>) and shows that the walks return; \<open>Focus_Order\<close> and \<open>Focus_Traversal\<close> show that the
    searches go along the preorder of the tree and that the tab key goes round the focusable views.

  \<^item> \<open>View_Notify\<close>, \<open>View_Removal\<close>, \<open>View_Bounds\<close>, \<open>View_Links\<close>, \<open>View_Hierarchy\<close>, \<open>View_Guarantees\<close>: what is kept
    about a hierarchy (\<open>sound\<close>, \<open>hierarchy\<close>), and that removing a child returns, keeps it, and leaves the removed views
    without accelerators, stored ids, handlers and registrations. \<open>View_Adding\<close>, \<open>View_Attach\<close>, \<open>View_Registration\<close>,
    \<open>View_Announce\<close>, \<open>View_Joining\<close>, \<open>View_Insertion\<close>, \<open>View_Moving\<close>: the same for adding a child, which registers what
    belongs to it, and for every sequence of both. \<open>ReorderChildView\<close> and the destructors are modelled without theorems.

  \<^item> \<open>Pickle\<close>, \<open>Pickle_Guarantees\<close> (\<open>src/base/pickle.cc\<close>): the byte format of data passed between processes,
    as a round trip and as memory safety on arbitrary input.

  \<^item> \<open>Layer_Animation\<close>, \<open>Layer_Animator\<close>, \<open>Layer_Queue\<close>, \<open>Layer_Operations\<close>, \<open>Layer_Process\<close>, \<open>Layer_Progress\<close>,
    \<open>Layer_Guarantees\<close> (\<open>base/animation/tween.cc\<close>, \<open>compositor/layer_animation_element.cc\<close>,
    \<open>layer_animation_sequence.cc\<close>, \<open>layer_animator.cc\<close>): elements, sequences and the animator with its queue and the five
    strategies for an animation that meets a running one. Sequences are shared between the queue, the running
    animations and the caller, and are addresses into a store. Observers are told and do not call back;
    readings of the clock are the field \<open>la_clock\<close>. The loops of the animator that start and stop animations are
    partial functions, and it is shown that they return; stopping leaves every property at its target value, and a
    step of the timer does not change a target.

  \<^item> \<open>String_Numbers\<close> (\<open>base/string_number_conversions.cc\<close>): a text is accepted exactly when it is a number of the
    type in canonical form, and the value is clamped otherwise. \<open>Utf_Strings\<close> (\<open>base/utf_string_conversions.cc\<close>,
    \<open>third_party/icu\<close>): the conversions equal an encoding defined on code points.

  \<^item> \<open>Json_Values\<close> (\<open>base/values.cc\<close>), \<open>Json_Writer\<close> (\<open>base/json/json_writer.cc\<close>, \<open>string_escape.cc\<close>), \<open>Json_Parser\<close>
    (\<open>json_parser.cc\<close>, \<open>json_reader.cc\<close>): dictionaries under dotted paths, the text of a value, and the parser over
    the bytes of its input with explicit positions, where a read outside of the input is \<open>None\<close>. The mutual
    recursion of the parser is one partial function \<open>run_job\<close>. \<open>Json_Safety\<close>: on every input the parser returns,
    and every read is inside of the input. \<open>Json_Tokens\<close>, \<open>Json_Strings\<close>, \<open>Json_Roundtrip\<close>: what the writer
    writes is read back as the same value, for values that nest at most 99 deep (\<open>kStackMaxDepth\<close> is 100) and under
    the hypothesis \<open>double_ok\<close> that \<open>strtod\<close> inverts \<open>g_fmt\<close> on the doubles of the value. \<open>Json_Types\<close>: every
    value that is read is well formed. \<open>Json_Limits\<close>: inputs on which the parser does not do what it says.

  \<^bold>\<open>Loops and bounds.\<close> Loops over containers are structural recursions. The loops without a bound in the
  source are total functions with a measure (\<open>it_advance\<close>, the style loop, the comments and numbers of JSON) or
  \<open>partial_function (option)\<close> with a theorem that they return (the traversals of a tree, on every store that represents
  a tree; the walks and searches of views, on every window; the queue of the animator; the strings and values of the JSON parser). No fuel
  is used. Size hypotheses are the ranges of the C++ types: lengths below \<open>2 ^ 31\<close> where the code stores
  them in an \<open>int\<close>, coordinates of rectangles whose sums fit.

  \<^bold>\<open>Not modelled.\<close> Painting, fonts and text layout; native windows and the window tree, whose code
  is mostly calls into the platform; bounds, painting, layers and mouse events of views; the drawing of the compositor (its animations are modelled); files, threads and
  message loops of the support library; timers (the gesture timer is an event of its own); clipboard formats; generated bindings and
  third-party code.
\<close>

end
